(* ===== verification/KB_Prelude.thy ===== *)
theory KB_Prelude
  imports Main "HOL-Library.Word" "HOL-Library.List_Lexorder"
begin

unbundle bit_operations_syntax

text \<open>
  Shared vocabulary of the development: Rust strings and their methods, results, integer
  parsing and printing, and the interface of a text codec.

  A Rust \<open>String\<close> is a list of Unicode scalar values, each a natural number: \<open>chars()\<close> is the
  list itself, \<open>len()\<close> counts the bytes of its UTF-8 form (\<open>utf8_len\<close>), and \<open>as_bytes()\<close> is
  \<open>utf8\<close>. String order is the lexicographic order of the code points, which is the order of
  the UTF-8 bytes. A \<open>Result\<close> is a sum with the error on the left.
\<close>

named_theorems kb_lits \<open>unfolding of literals and constants of the program\<close>
named_theorems kb_results \<open>inversion of composed results\<close>

section \<open>Strings\<close>

type_synonym uchar = nat
type_synonym str = "uchar list"
type_synonym byte = "8 word"

text \<open>The ASCII characters the program's formats are made of.\<close>

abbreviation (input) c_space :: uchar where "c_space \<equiv> 32"
abbreviation (input) c_dquote :: uchar where "c_dquote \<equiv> 34"
abbreviation (input) c_hash :: uchar where "c_hash \<equiv> 35"
abbreviation (input) c_percent :: uchar where "c_percent \<equiv> 37"
abbreviation (input) c_lpar :: uchar where "c_lpar \<equiv> 40"
abbreviation (input) c_rpar :: uchar where "c_rpar \<equiv> 41"
abbreviation (input) c_star :: uchar where "c_star \<equiv> 42"
abbreviation (input) c_plus :: uchar where "c_plus \<equiv> 43"
abbreviation (input) c_comma :: uchar where "c_comma \<equiv> 44"
abbreviation (input) c_dash :: uchar where "c_dash \<equiv> 45"
abbreviation (input) c_dot :: uchar where "c_dot \<equiv> 46"
abbreviation (input) c_slash :: uchar where "c_slash \<equiv> 47"
abbreviation (input) c_colon :: uchar where "c_colon \<equiv> 58"
abbreviation (input) c_semi :: uchar where "c_semi \<equiv> 59"
abbreviation (input) c_lt :: uchar where "c_lt \<equiv> 60"
abbreviation (input) c_eq :: uchar where "c_eq \<equiv> 61"
abbreviation (input) c_gt :: uchar where "c_gt \<equiv> 62"
abbreviation (input) c_quest :: uchar where "c_quest \<equiv> 63"
abbreviation (input) c_at :: uchar where "c_at \<equiv> 64"
abbreviation (input) c_lbrack :: uchar where "c_lbrack \<equiv> 91"
abbreviation (input) c_bslash :: uchar where "c_bslash \<equiv> 92"
abbreviation (input) c_rbrack :: uchar where "c_rbrack \<equiv> 93"
abbreviation (input) c_under :: uchar where "c_under \<equiv> 95"
abbreviation (input) c_pipe :: uchar where "c_pipe \<equiv> 124"

definition lit :: "string \<Rightarrow> str" where
  "lit s = map of_char s"

lemma lit_simps [kb_lits]:
  "lit [] = []"
  "lit (c # s) = of_char c # lit s"
  by (simp_all add: lit_def)

lemma length_lit [simp]: "length (lit s) = length s"
  by (simp add: lit_def)

lemma lit_lt_256: "c \<in> set (lit s) \<Longrightarrow> c < 256"
  by (auto simp: lit_def of_char_of)

definition len_utf8 :: "uchar \<Rightarrow> nat" where
  "len_utf8 c = (if c < 128 then 1 else if c < 2048 then 2 else if c < 65536 then 3 else 4)"

definition utf8_char :: "uchar \<Rightarrow> byte list" where
  "utf8_char c = map of_nat
    (if c < 128 then [c]
     else if c < 2048 then [192 + c div 64, 128 + c mod 64]
     else if c < 65536 then [224 + c div 4096, 128 + c div 64 mod 64, 128 + c mod 64]
     else [240 + c div 262144, 128 + c div 4096 mod 64, 128 + c div 64 mod 64, 128 + c mod 64])"

definition utf8 :: "str \<Rightarrow> byte list" where
  "utf8 s = concat (map utf8_char s)"

definition utf8_len :: "str \<Rightarrow> nat" where
  "utf8_len s = sum_list (map len_utf8 s)"

lemma length_utf8_char: "length (utf8_char c) = len_utf8 c"
  by (simp add: utf8_char_def len_utf8_def)

lemma length_utf8: "length (utf8 s) = utf8_len s"
  by (induction s) (simp_all add: utf8_def utf8_len_def length_utf8_char)

lemma utf8_len_simps [simp]:
  "utf8_len [] = 0"
  "utf8_len (c # s) = len_utf8 c + utf8_len s"
  "utf8_len (s @ t) = utf8_len s + utf8_len t"
  by (simp_all add: utf8_len_def)

lemma len_utf8_bounds: "1 \<le> len_utf8 c" "len_utf8 c \<le> 4"
  by (simp_all add: len_utf8_def)

lemma len_utf8_ascii [simp]: "c < 128 \<Longrightarrow> len_utf8 c = 1"
  by (simp add: len_utf8_def)

lemma length_le_utf8_len: "length s \<le> utf8_len s"
proof (induction s)
  case (Cons c s)
  then show ?case using len_utf8_bounds(1) [of c] by simp
qed simp

lemma utf8_len_take_le: "utf8_len (take n s) \<le> utf8_len s"
proof -
  have "utf8_len s = utf8_len (take n s) + utf8_len (drop n s)"
    by (metis append_take_drop_id utf8_len_simps(3))
  then show ?thesis by simp
qed

definition ascii :: "str \<Rightarrow> bool" where
  "ascii s \<longleftrightarrow> (\<forall>c \<in> set s. c < 128)"

lemma ascii_simps [simp]:
  "ascii []" "ascii (c # s) \<longleftrightarrow> c < 128 \<and> ascii s" "ascii (s @ t) \<longleftrightarrow> ascii s \<and> ascii t"
  by (auto simp: ascii_def)

lemma utf8_len_ascii: "ascii s \<Longrightarrow> utf8_len s = length s"
  by (induction s) simp_all

lemma utf8_ascii: "ascii s \<Longrightarrow> utf8 s = map of_nat s"
  by (induction s) (simp_all add: utf8_def utf8_char_def)

text \<open>\<open>char::is_control\<close> and \<open>char::is_whitespace\<close>, from the Unicode property tables.\<close>

definition is_control :: "uchar \<Rightarrow> bool" where
  "is_control c \<longleftrightarrow> c < 32 \<or> (127 \<le> c \<and> c < 160)"

definition is_whitespace :: "uchar \<Rightarrow> bool" where
  "is_whitespace c \<longleftrightarrow> (9 \<le> c \<and> c \<le> 13) \<or> c = 32 \<or> c = 133 \<or> c = 160 \<or> c = 5760
     \<or> (8192 \<le> c \<and> c \<le> 8202) \<or> c = 8232 \<or> c = 8233 \<or> c = 8239 \<or> c = 8287 \<or> c = 12288"

definition is_ascii_digit :: "uchar \<Rightarrow> bool" where
  "is_ascii_digit c \<longleftrightarrow> 48 \<le> c \<and> c \<le> 57"

definition is_ascii_hexdigit :: "uchar \<Rightarrow> bool" where
  "is_ascii_hexdigit c \<longleftrightarrow> is_ascii_digit c \<or> (65 \<le> c \<and> c \<le> 70) \<or> (97 \<le> c \<and> c \<le> 102)"

definition to_ascii_uppercase :: "uchar \<Rightarrow> uchar" where
  "to_ascii_uppercase c = (if 97 \<le> c \<and> c \<le> 122 then c - 32 else c)"

definition to_ascii_lowercase :: "uchar \<Rightarrow> uchar" where
  "to_ascii_lowercase c = (if 65 \<le> c \<and> c \<le> 90 then c + 32 else c)"

definition eq_ignore_ascii_case :: "str \<Rightarrow> str \<Rightarrow> bool" where
  "eq_ignore_ascii_case a b \<longleftrightarrow> map to_ascii_lowercase a = map to_ascii_lowercase b"

lemma eq_ignore_ascii_case_refl [simp]: "eq_ignore_ascii_case a a"
  by (simp add: eq_ignore_ascii_case_def)

subsection \<open>Trimming\<close>

definition trim_start_by :: "(uchar \<Rightarrow> bool) \<Rightarrow> str \<Rightarrow> str" where
  "trim_start_by p s = dropWhile p s"

definition trim_end_by :: "(uchar \<Rightarrow> bool) \<Rightarrow> str \<Rightarrow> str" where
  "trim_end_by p s = rev (dropWhile p (rev s))"

definition trim :: "str \<Rightarrow> str" where
  "trim s = trim_end_by is_whitespace (trim_start_by is_whitespace s)"

lemma set_trim_start_by: "set (trim_start_by p s) \<subseteq> set s"
  by (auto simp: trim_start_by_def dest: set_dropWhileD)

lemma set_trim_end_by: "set (trim_end_by p s) \<subseteq> set s"
  by (auto simp: trim_end_by_def dest: set_dropWhileD)

lemma set_trim: "set (trim s) \<subseteq> set s"
  unfolding trim_def using set_trim_start_by set_trim_end_by by fast

lemma trim_start_by_suffix: "\<exists>p. s = p @ trim_start_by f s"
  by (rule exI [of _ "takeWhile f s"]) (simp add: trim_start_by_def)

lemma trim_end_by_prefix: "\<exists>p. s = trim_end_by f s @ p"
proof -
  have "s = rev (takeWhile f (rev s) @ dropWhile f (rev s))" by simp
  then have "s = rev (dropWhile f (rev s)) @ rev (takeWhile f (rev s))"
    by (simp only: rev_append)
  then show ?thesis unfolding trim_end_by_def by blast
qed

lemma utf8_len_trim_start_by: "utf8_len (trim_start_by f s) \<le> utf8_len s"
  by (metis le_add2 trim_start_by_suffix utf8_len_simps(3))

lemma utf8_len_trim_end_by: "utf8_len (trim_end_by f s) \<le> utf8_len s"
  by (metis le_add1 trim_end_by_prefix utf8_len_simps(3))

lemma hd_trim_start_by: "trim_start_by p s \<noteq> [] \<Longrightarrow> \<not> p (hd (trim_start_by p s))"
  by (simp add: trim_start_by_def hd_dropWhile)

lemma trim_end_by_eq_Nil: "trim_end_by p s = [] \<longleftrightarrow> (\<forall>c \<in> set s. p c)"
  by (simp add: trim_end_by_def)

lemma hd_trim_end_by: "trim_end_by p s \<noteq> [] \<Longrightarrow> hd (trim_end_by p s) = hd s"
  by (metis hd_append2 trim_end_by_prefix)

subsection \<open>Prefixes and splitting\<close>

definition starts_with :: "str \<Rightarrow> str \<Rightarrow> bool" where
  "starts_with s p \<longleftrightarrow> take (length p) s = p"

definition strip_prefix :: "str \<Rightarrow> str \<Rightarrow> str option" where
  "strip_prefix s p = (if starts_with s p then Some (drop (length p) s) else None)"

lemma starts_with_append [simp]: "starts_with (p @ s) p"
  by (simp add: starts_with_def)

lemma strip_prefix_append [simp]: "strip_prefix (p @ s) p = Some s"
  by (simp add: strip_prefix_def)

lemma strip_prefix_Some: "strip_prefix s p = Some t \<longleftrightarrow> s = p @ t"
  by (auto simp: strip_prefix_def starts_with_def) (metis append_take_drop_id)

fun split_on :: "uchar \<Rightarrow> str \<Rightarrow> str list" where
  "split_on d [] = [[]]"
| "split_on d (c # cs) =
     (if c = d then [] # split_on d cs
      else (case split_on d cs of [] \<Rightarrow> [[c]] | f # fs \<Rightarrow> (c # f) # fs))"

fun split_once :: "uchar \<Rightarrow> str \<Rightarrow> (str \<times> str) option" where
  "split_once d [] = None"
| "split_once d (c # cs) =
     (if c = d then Some ([], cs) else map_option (\<lambda>(a, b). (c # a, b)) (split_once d cs))"

fun split_once_str :: "str \<Rightarrow> str \<Rightarrow> (str \<times> str) option" where
  "split_once_str p [] = (if p = [] then Some ([], []) else None)"
| "split_once_str p (c # cs) =
     (if starts_with (c # cs) p then Some ([], drop (length p) (c # cs))
      else map_option (\<lambda>(a, b). (c # a, b)) (split_once_str p cs))"

fun join_with :: "str \<Rightarrow> str list \<Rightarrow> str" where
  "join_with d [] = []"
| "join_with d [f] = f"
| "join_with d (f # g # fs) = f @ d @ join_with d (g # fs)"

lemma split_on_not_Nil [simp]: "split_on d s \<noteq> []"
  by (induction s) (auto split: list.splits)

lemma split_on_free: "d \<notin> set s \<Longrightarrow> split_on d s = [s]"
  by (induction s) auto

lemma split_on_append: "split_on d (s @ d # t) = split_on d s @ split_on d t"
proof (induction s)
  case (Cons c s)
  then show ?case by (cases "split_on d s") auto
qed simp

lemma split_on_Cons_free:
  "d \<notin> set s \<Longrightarrow> split_on d (s @ d # t) = s # split_on d t"
  by (simp add: split_on_append split_on_free)

lemma split_on_fields: "f \<in> set (split_on d s) \<Longrightarrow> d \<notin> set f \<and> set f \<subseteq> set s"
proof (induction s arbitrary: f)
  case (Cons c s)
  show ?case
  proof (cases "c = d")
    case True
    with Cons show ?thesis by auto
  next
    case False
    obtain g gs where g: "split_on d s = g # gs" by (cases "split_on d s") auto
    with Cons.IH have "\<And>h. h \<in> set (g # gs) \<Longrightarrow> d \<notin> set h \<and> set h \<subseteq> set s" by simp
    with Cons.prems False g show ?thesis by fastforce
  qed
qed simp

lemma join_split_on: "join_with [d] (split_on d s) = s"
proof (induction s)
  case (Cons c s)
  obtain g gs where g: "split_on d s = g # gs" by (cases "split_on d s") auto
  with Cons.IH show ?case by (cases gs) auto
qed simp

lemma split_on_join:
  "fs \<noteq> [] \<Longrightarrow> (\<And>f. f \<in> set fs \<Longrightarrow> d \<notin> set f) \<Longrightarrow> split_on d (join_with [d] fs) = fs"
proof (induction fs rule: induct_list012)
  case (3 f g fs)
  then show ?case by (simp add: split_on_Cons_free)
qed (simp_all add: split_on_free)

lemma split_once_append [simp]: "d \<notin> set a \<Longrightarrow> split_once d (a @ d # b) = Some (a, b)"
  by (induction a) auto

lemma split_once_Some: "split_once d s = Some (a, b) \<Longrightarrow> s = a @ d # b \<and> d \<notin> set a"
  by (induction s arbitrary: a b) (auto split: if_splits)

lemma split_once_None: "split_once d s = None \<longleftrightarrow> d \<notin> set s"
  by (induction s) auto

lemma concat_map_single: "(\<And>c. c \<in> set s \<Longrightarrow> f c = [c]) \<Longrightarrow> concat (map f s) = s"
  by (induction s) simp_all

section \<open>Results\<close>

definition rbind :: "'e + 'a \<Rightarrow> ('a \<Rightarrow> 'e + 'b) \<Rightarrow> 'e + 'b" where
  "rbind r k = (case r of Inl e \<Rightarrow> Inl e | Inr x \<Rightarrow> k x)"

definition ok_or :: "'e \<Rightarrow> 'a option \<Rightarrow> 'e + 'a" where
  "ok_or e r = (case r of None \<Rightarrow> Inl e | Some x \<Rightarrow> Inr x)"

definition map_err :: "('e \<Rightarrow> 'f) \<Rightarrow> 'e + 'a \<Rightarrow> 'f + 'a" where
  "map_err f r = (case r of Inl e \<Rightarrow> Inl (f e) | Inr x \<Rightarrow> Inr x)"

definition ok :: "'e + 'a \<Rightarrow> 'a option" where
  "ok r = (case r of Inl e \<Rightarrow> None | Inr x \<Rightarrow> Some x)"

definition guard :: "bool \<Rightarrow> 'e \<Rightarrow> 'e + unit" where
  "guard b e = (if b then Inr () else Inl e)"

lemma result_simps [simp]:
  "rbind (Inl e) k = Inl e" "rbind (Inr x) k = k x"
  "ok_or e None = Inl e" "ok_or e (Some x) = Inr x"
  "map_err f (Inl e) = Inl (f e)" "map_err f (Inr x) = Inr x"
  "ok (Inl e) = None" "ok (Inr x) = Some x"
  "guard True e = Inr ()" "guard False e = Inl e"
  by (simp_all add: rbind_def ok_or_def map_err_def ok_def guard_def)

lemma rbind_Inr [kb_results]: "rbind r k = Inr y \<longleftrightarrow> (\<exists>x. r = Inr x \<and> k x = Inr y)"
  by (cases r) simp_all

lemma rbind_Inl [kb_results]:
  "rbind r k = Inl e \<longleftrightarrow> r = Inl e \<or> (\<exists>x. r = Inr x \<and> k x = Inl e)"
  by (cases r) simp_all

lemma ok_or_Inr [kb_results]: "ok_or e r = Inr x \<longleftrightarrow> r = Some x"
  by (cases r) simp_all

lemma map_err_Inr [kb_results]: "map_err f r = Inr x \<longleftrightarrow> r = Inr x"
  by (cases r) simp_all

lemma ok_Some [kb_results]: "ok r = Some x \<longleftrightarrow> r = Inr x"
  by (cases r) simp_all

lemma guard_Inr [kb_results]: "guard b e = Inr u \<longleftrightarrow> b"
  by (simp add: guard_def)

text \<open>Results whose errors lie in a set.\<close>

named_theorems err_intros \<open>introduction rules for error categories\<close>

definition rerrs :: "'e set \<Rightarrow> 'e + 'a \<Rightarrow> bool" where
  "rerrs E r \<longleftrightarrow> (\<forall>e. r = Inl e \<longrightarrow> e \<in> E)"

lemma rerrs_intros [err_intros]:
  "rerrs E (Inr x)" "e \<in> E \<Longrightarrow> rerrs E (Inl e)" "e \<in> E \<Longrightarrow> rerrs E (ok_or e v)" "e \<in> E \<Longrightarrow> rerrs E (guard b e)"
  "e \<in> E \<Longrightarrow> rerrs E (map_err (\<lambda>_. e) r')"
  "rerrs E r \<Longrightarrow> (\<And>x. rerrs E (k x)) \<Longrightarrow> rerrs E (rbind r k)"
  by (auto simp: rerrs_def ok_or_def guard_def map_err_def rbind_def split: option.splits sum.splits)

lemma guard_Inl [kb_results]: "guard b e = Inl e' \<longleftrightarrow> \<not> b \<and> e' = e"
  by (auto simp: guard_def)

lemma rbind_cong [fundef_cong]:
  "r = r' \<Longrightarrow> (\<And>x. r' = Inr x \<Longrightarrow> k x = k' x) \<Longrightarrow> rbind r k = rbind r' k'"
  by (cases r') simp_all

section \<open>Decimal numbers\<close>

definition u64_max :: nat where "u64_max = 2 ^ 64 - 1"
definition u32_max :: nat where "u32_max = 2 ^ 32 - 1"

fun show_dec :: "nat \<Rightarrow> str" where
  "show_dec n = (if n < 10 then [48 + n] else show_dec (n div 10) @ [48 + n mod 10])"

declare show_dec.simps [simp del]

definition pad_dec :: "nat \<Rightarrow> nat \<Rightarrow> str" where
  "pad_dec w n = replicate (w - length (show_dec n)) 48 @ show_dec n"

definition digits_val :: "str \<Rightarrow> nat" where
  "digits_val s = foldl (\<lambda>a c. a * 10 + (c - 48)) 0 s"

definition parse_digits :: "str \<Rightarrow> nat option" where
  "parse_digits s = (if s \<noteq> [] \<and> list_all is_ascii_digit s then Some (digits_val s) else None)"

definition parse_unsigned :: "nat \<Rightarrow> str \<Rightarrow> nat option" where
  "parse_unsigned m s =
     (let t = (if s \<noteq> [] \<and> hd s = c_plus then tl s else s)
      in case parse_digits t of None \<Rightarrow> None | Some n \<Rightarrow> if n \<le> m then Some n else None)"

definition parse_i64 :: "str \<Rightarrow> int option" where
  "parse_i64 s =
     (if s \<noteq> [] \<and> hd s = c_dash
      then (case parse_digits (tl s) of None \<Rightarrow> None
            | Some n \<Rightarrow> if n \<le> 2 ^ 63 then Some (- int n) else None)
      else (let t = (if s \<noteq> [] \<and> hd s = c_plus then tl s else s)
            in case parse_digits t of None \<Rightarrow> None
               | Some n \<Rightarrow> if n < 2 ^ 63 then Some (int n) else None))"

lemma show_dec_digits: "list_all is_ascii_digit (show_dec n)"
proof (induction n rule: show_dec.induct)
  case (1 n)
  then show ?case by (cases "n < 10") (auto simp: show_dec.simps [of n] is_ascii_digit_def)
qed

lemma show_dec_not_Nil [simp]: "show_dec n \<noteq> []"
  by (simp add: show_dec.simps [of n])

lemma digits_val_snoc: "digits_val (s @ [c]) = digits_val s * 10 + (c - 48)"
  by (simp add: digits_val_def)

lemma digits_val_show_dec: "digits_val (show_dec n) = n"
proof (induction n rule: show_dec.induct)
  case (1 n)
  show ?case
  proof (cases "n < 10")
    case True
    then show ?thesis by (simp add: show_dec.simps [of n] digits_val_def)
  next
    case False
    with 1 show ?thesis by (simp add: show_dec.simps [of n] digits_val_snoc)
  qed
qed

lemma digits_val_zeros: "digits_val (replicate k 48 @ s) = digits_val s"
  by (induction k) (simp_all add: digits_val_def)

lemma pad_dec_digits: "list_all is_ascii_digit (pad_dec w n)"
  by (simp add: pad_dec_def show_dec_digits) (simp add: list_all_iff is_ascii_digit_def)

lemma digits_val_pad_dec: "digits_val (pad_dec w n) = n"
  by (simp add: pad_dec_def digits_val_zeros digits_val_show_dec)

lemma parse_digits_show_dec [simp]: "parse_digits (show_dec n) = Some n"
  by (simp add: parse_digits_def show_dec_digits digits_val_show_dec)

lemma is_ascii_digit_not_sign:
  "is_ascii_digit c \<Longrightarrow> c \<noteq> c_plus \<and> c \<noteq> c_dash \<and> c \<noteq> c_pipe
     \<and> c \<noteq> c_eq \<and> c \<noteq> c_percent \<and> c < 128 \<and> \<not> is_control c"
  by (auto simp: is_ascii_digit_def is_control_def)

lemma show_dec_hd: "is_ascii_digit (hd (show_dec n))"
  using show_dec_digits [of n] by (cases "show_dec n") auto

lemma show_dec_char: "c \<in> set (show_dec n) \<Longrightarrow> is_ascii_digit c"
  using show_dec_digits [of n] by (simp add: list_all_iff)

lemma parse_unsigned_show_dec: "n \<le> m \<Longrightarrow> parse_unsigned m (show_dec n) = Some n"
  using show_dec_hd [of n] by (auto simp: parse_unsigned_def is_ascii_digit_def)

lemma parse_unsigned_bound: "parse_unsigned m s = Some n \<Longrightarrow> n \<le> m"
  by (auto simp: parse_unsigned_def Let_def split: option.splits if_splits)

lemma length_show_dec: "n < 10 ^ k \<Longrightarrow> 0 < k \<Longrightarrow> length (show_dec n) \<le> k"
proof (induction k arbitrary: n)
  case (Suc k)
  show ?case
  proof (cases "n < 10")
    case False
    with Suc.prems have k: "0 < k" by (cases k) auto
    moreover have "n div 10 < 10 ^ k" using Suc.prems(1) by (simp add: less_mult_imp_div_less mult.commute)
    ultimately have "length (show_dec (n div 10)) \<le> k" by (rule Suc.IH [rotated])
    with False show ?thesis by (simp add: show_dec.simps [of n])
  qed (simp add: show_dec.simps [of n])
qed simp

lemma length_pad_dec: "n < 10 ^ w \<Longrightarrow> 0 < w \<Longrightarrow> length (pad_dec w n) = w"
  using length_show_dec [of n w] by (simp add: pad_dec_def)

definition sat_add :: "nat \<Rightarrow> nat \<Rightarrow> nat" where
  "sat_add a b = min u64_max (a + b)"

section \<open>Bytes and words\<close>

lemma unat_byte_lt: "unat (b :: byte) < 256"
  using unsigned_less [where w = b and 'a = nat] by simp

lemma shift_or_byte:
  fixes acc :: "'a::len word" and b :: byte
  assumes "8 \<le> LENGTH('a)"
  shows "push_bit 8 acc OR ucast b = acc * 256 + ucast b"
proof -
  have "\<not> bit (push_bit 8 acc) n \<or> \<not> bit (ucast b :: 'a word) n" for n
    by (auto simp: bit_push_bit_iff bit_ucast_iff dest: bit_imp_le_length)
  then have "push_bit 8 acc + ucast b = push_bit 8 acc OR ucast b"
    by (rule disjunctive_add)
  then show ?thesis by (simp add: push_bit_eq_mult)
qed

lemma unat_shift_or_byte:
  fixes acc :: "'a::len word" and b :: byte
  assumes "8 < LENGTH('a)" "unat acc * 256 + unat b < 2 ^ LENGTH('a)"
  shows "unat (push_bit 8 acc OR ucast b :: 'a word) = unat acc * 256 + unat b"
proof -
  have "(256::nat) < 2 ^ LENGTH('a)" using assms(1) power_strict_increasing [of 8 "LENGTH('a)" "2::nat"] by simp
  then have u256: "unat (256 :: 'a word) = 256"
    using unat_of_nat [of 256, where 'a = 'a] by simp
  have "unat b < 2 ^ LENGTH('a)" using assms(2) by linarith
  then have ub: "unat (ucast b :: 'a word) = unat b"
    by (simp add: unsigned_ucast_eq take_bit_nat_eq_self)
  show ?thesis using assms ub u256 by (simp add: shift_or_byte unat_word_ariths)
qed

lemma unat_byte: "unat (of_nat n :: byte) = n mod 256"
  by (simp add: unat_of_nat)

lemma digit_step: "(a div (m * 256)) * 256 + a div m mod 256 = (a div m :: nat)"
  by (simp add: div_mult2_eq)

definition be_val :: "byte list \<Rightarrow> nat" where
  "be_val bs = foldl (\<lambda>a b. a * 256 + unat b) 0 bs"

lemma be_val_snoc: "be_val (bs @ [b]) = be_val bs * 256 + unat b"
  by (simp add: be_val_def)

lemma be_val_bound: "be_val bs < 256 ^ length bs"
proof (induction bs rule: rev_induct)
  case (snoc b bs)
  then show ?case using unat_byte_lt [of b] by (simp add: be_val_snoc)
qed (simp add: be_val_def)

section \<open>The interface of a text codec\<close>

text \<open>
  Several formats are written by one process and read by another. What every reader relies
  on is that the value comes back, and hence that two values never share a stored form.
\<close>

locale codec =
  fixes enc :: "'a \<Rightarrow> 'b"
    and dec :: "'b \<Rightarrow> 'e + 'a"
    and wf :: "'a \<Rightarrow> bool"
  assumes dec_enc: "wf x \<Longrightarrow> dec (enc x) = Inr x"
begin

lemma enc_inj: "wf x \<Longrightarrow> wf y \<Longrightarrow> enc x = enc y \<longleftrightarrow> x = y"
  by (metis dec_enc sum.inject(2))

lemma dec_total_on_image: "wf x \<Longrightarrow> \<exists>y. dec (enc x) = Inr y"
  by (simp add: dec_enc)

lemma filter_decoded: "list_all wf xs \<Longrightarrow> List.map_filter (ok \<circ> dec) (map enc xs) = xs"
  by (induction xs) (simp_all add: List.map_filter_simps dec_enc)

end

end
