(* ===== verification/KB_Identity.thy ===== *)
theory KB_Identity
  imports KB_Prelude
begin

unbundle bit_operations_syntax

text \<open>
  The formats of \<open>kerbridge-core\<close>'s root module and of \<open>source.rs\<close>: the external identity that
  sync writes and the broker searches for by exact match, its field escaping, the binary SID
  rendering, the canonical GUID test and the RFC 4515 filter escaping. The two adapters'
  \<open>identity\<close> functions, the only producers of a subject, are here as well.
\<close>

section \<open>Data\<close>

datatype identity_error =
    UnknownVersion
  | FieldCount nat
  | BadEscape
  | EmptyField str
  | SubjectShape str
  | TooLong nat

datatype source = Source (source_name: str)

record external_identity =
  ei_source :: source
  ei_subject :: str

definition VERSION_TAG :: str where [kb_lits]: "VERSION_TAG = lit ''kb1''"
definition FIELD_COUNT :: nat where [kb_lits]: "FIELD_COUNT = 3"
definition MAX_IDENTITY_LEN :: nat where [kb_lits]: "MAX_IDENTITY_LEN = 256"

definition Source_new :: "str \<Rightarrow> identity_error + source" where
  "Source_new name =
     (if name = [] then Inl (EmptyField (lit ''source name'')) else Inr (Source name))"

section \<open>Field escaping\<close>

fun escape_field :: "str \<Rightarrow> str" where
  "escape_field [] = []"
| "escape_field (c # cs) =
     (if c = c_percent then lit ''%25''
      else if c = c_pipe then lit ''%7C''
      else [c]) @ escape_field cs"

fun unescape_field :: "str \<Rightarrow> identity_error + str" where
  "unescape_field [] = Inr []"
| "unescape_field (c # cs) =
     (if c \<noteq> c_percent then rbind (unescape_field cs) (\<lambda>t. Inr (c # t))
      else (case cs of
              hi # lo # rest \<Rightarrow>
                (if hi = 50 \<and> to_ascii_uppercase lo = 53
                 then rbind (unescape_field rest) (\<lambda>t. Inr (c_percent # t))
                 else if hi = 55 \<and> to_ascii_uppercase lo = 67
                 then rbind (unescape_field rest) (\<lambda>t. Inr (c_pipe # t))
                 else Inl BadEscape)
            | _ \<Rightarrow> Inl BadEscape))"

lemma escape_field_no_delimiter: "c_pipe \<notin> set (escape_field s)"
  by (induction s) (auto simp: kb_lits)

lemma unescape_escape: "unescape_field (escape_field s) = Inr s"
  by (induction s) (auto simp: kb_lits to_ascii_uppercase_def)

interpretation field_codec: codec escape_field unescape_field "\<lambda>_. True"
  by unfold_locales (rule unescape_escape)

lemma length_escape_field_le: "length (escape_field s) \<le> 3 * length s"
  by (induction s) (auto simp: kb_lits)

lemma escape_field_plain:
  "c_percent \<notin> set s \<Longrightarrow> c_pipe \<notin> set s \<Longrightarrow> escape_field s = s"
  by (induction s) auto

lemma escape_field_eq_Nil [simp]: "escape_field s = [] \<longleftrightarrow> s = []"
  by (cases s) (auto simp: kb_lits)

section \<open>External identities\<close>

definition encode :: "external_identity \<Rightarrow> str" where
  "encode i = VERSION_TAG @ [c_pipe] @ escape_field (source_name (ei_source i))
     @ [c_pipe] @ escape_field (ei_subject i)"

definition new_identity :: "source \<Rightarrow> str \<Rightarrow> identity_error + external_identity" where
  "new_identity src subject =
     (if subject = [] then Inl (EmptyField (lit ''subject''))
      else let i = \<lparr>ei_source = src, ei_subject = subject\<rparr>;
               n = length (encode i)
           in if n > MAX_IDENTITY_LEN then Inl (TooLong n) else Inr i)"

definition decode :: "str \<Rightarrow> identity_error + external_identity" where
  "decode v =
     (let fields = split_on (c_pipe) v in
      if length fields \<noteq> FIELD_COUNT then Inl (FieldCount (length fields))
      else if fields ! 0 \<noteq> VERSION_TAG then Inl UnknownVersion
      else rbind (unescape_field (fields ! 1)) (\<lambda>name.
           rbind (Source_new name) (\<lambda>src.
           rbind (unescape_field (fields ! 2)) (\<lambda>subject.
           new_identity src subject))))"

definition identity_label :: "external_identity \<Rightarrow> str" where
  "identity_label i = source_name (ei_source i) @ [c_slash] @ ei_subject i"

fun escape_ldap_filter_value :: "str \<Rightarrow> str" where
  "escape_ldap_filter_value [] = []"
| "escape_ldap_filter_value (c # cs) =
     (if c = 92 then [92] @ lit ''5c''
      else if c = c_star then [92] @ lit ''2a''
      else if c = c_lpar then [92] @ lit ''28''
      else if c = c_rpar then [92] @ lit ''29''
      else if c = 0 then [92] @ lit ''00''
      else [c]) @ escape_ldap_filter_value cs"

definition ldap_filter :: "external_identity \<Rightarrow> str" where
  "ldap_filter i = lit ''(msDS-ExternalDirectoryObjectId=''
     @ escape_ldap_filter_value (encode i) @ lit '')''"

text \<open>What \<open>Source::new\<close> and \<open>ExternalIdentity::new\<close> together allow.\<close>

definition wf_identity :: "external_identity \<Rightarrow> bool" where
  "wf_identity i \<longleftrightarrow> source_name (ei_source i) \<noteq> [] \<and> ei_subject i \<noteq> []
     \<and> length (encode i) \<le> MAX_IDENTITY_LEN"

lemma encode_fields:
  "split_on (c_pipe) (encode i)
     = [VERSION_TAG, escape_field (source_name (ei_source i)), escape_field (ei_subject i)]"
proof -
  have "c_pipe \<notin> set VERSION_TAG" by (simp add: kb_lits)
  then show ?thesis
    by (simp add: encode_def split_on_Cons_free split_on_free escape_field_no_delimiter)
qed

lemma new_identity_Inr:
  "new_identity src s = Inr i \<longleftrightarrow>
     s \<noteq> [] \<and> i = \<lparr>ei_source = src, ei_subject = s\<rparr> \<and> length (encode i) \<le> MAX_IDENTITY_LEN"
  by (auto simp: new_identity_def Let_def split: if_splits)

lemma decode_encode: "wf_identity i \<Longrightarrow> decode (encode i) = Inr i"
  by (cases i; cases "ei_source i")
     (simp add: decode_def encode_fields wf_identity_def FIELD_COUNT_def unescape_escape
        Source_new_def new_identity_def)

interpretation identity_codec: codec encode decode wf_identity
  by unfold_locales (rule decode_encode)

lemma decode_wf: "decode v = Inr i \<Longrightarrow> wf_identity i"
  by (auto simp: decode_def Let_def kb_results Source_new_def new_identity_Inr wf_identity_def
        split: if_splits)

section \<open>The adapters' subjects\<close>

definition guid_field :: "nat \<Rightarrow> str \<Rightarrow> bool" where
  "guid_field n p \<longleftrightarrow> utf8_len p = n
     \<and> list_all (\<lambda>b. (48 \<le> b \<and> b \<le> 57) \<or> (97 \<le> b \<and> b \<le> 102)) (utf8 p)"

fun guid_parts :: "nat list \<Rightarrow> str list \<Rightarrow> bool" where
  "guid_parts [] parts = (parts = [])"
| "guid_parts (n # ns) [] = False"
| "guid_parts (n # ns) (p # ps) = (guid_field n p \<and> guid_parts ns ps)"

definition is_guid :: "str \<Rightarrow> bool" where
  "is_guid s = guid_parts [8, 4, 4, 4, 12] (split_on (c_dash) s)"

definition entra_identity :: "source \<Rightarrow> str \<Rightarrow> identity_error + external_identity" where
  "entra_identity src oid =
     (if \<not> is_guid oid then Inl (SubjectShape (lit ''a GUID in canonical lowercase form''))
      else new_identity src oid)"

definition authentik_identity ::
  "str \<Rightarrow> str \<Rightarrow> source \<Rightarrow> str \<Rightarrow> identity_error + external_identity" where
  "authentik_identity not_a_uuid not_canonical src uuid =
     (if \<not> is_guid (map to_ascii_lowercase uuid) then Inl (SubjectShape not_a_uuid)
      else if \<not> is_guid uuid then Inl (SubjectShape not_canonical)
      else new_identity src uuid)"

section \<open>Security identifiers\<close>

definition u32_from_le :: "byte list \<Rightarrow> 32 word" where
  "u32_from_le bs = foldr (\<lambda>b acc. push_bit 8 acc OR ucast b) bs 0"

definition u64_from_be :: "byte list \<Rightarrow> 64 word" where
  "u64_from_be bs = foldl (\<lambda>acc b. push_bit 8 acc OR ucast b) 0 bs"

datatype sid_error = SidShort nat | SidTruncated nat nat

definition decode_sid :: "byte list \<Rightarrow> sid_error + str" where
  "decode_sid raw =
     (if length raw < 8 then Inl (SidShort (length raw))
      else
        let revision = unat (raw ! 0);
            sub_authority_count = unat (raw ! 1);
            expected = 8 + 4 * sub_authority_count
        in if length raw < expected then Inl (SidTruncated sub_authority_count (length raw))
           else
             let authority = unat (u64_from_be (take 6 (drop 2 raw)));
                 subs = map (\<lambda>i. unat (u32_from_le (take 4 (drop (8 + 4 * i) raw))))
                          [0..<sub_authority_count]
             in Inr (lit ''S-'' @ show_dec revision @ lit ''-'' @ show_dec authority
                     @ concat (map (\<lambda>v. lit ''-'' @ show_dec v) subs)))"

definition decode_sid_attr :: "byte list list option \<Rightarrow> str list option \<Rightarrow> str option" where
  "decode_sid_attr binary text =
     (let from_bin = (case binary of Some (v # _) \<Rightarrow> Some v | _ \<Rightarrow> None);
          from_text = (case text of Some (s # _) \<Rightarrow> Some (utf8 s) | _ \<Rightarrow> None);
          raw = (case from_bin of Some v \<Rightarrow> Some v | None \<Rightarrow> from_text)
      in case raw of None \<Rightarrow> None | Some v \<Rightarrow> ok (decode_sid v))"

definition require_ldaps :: "str \<Rightarrow> bool" where
  "require_ldaps url = starts_with url (lit ''ldaps://'')"


lemma unat_u64_from_be_aux:
  fixes acc :: "64 word" and bs :: "byte list"
  shows "unat acc < 256 ^ k \<Longrightarrow> k + length bs \<le> 8 \<Longrightarrow>
    unat (foldl (\<lambda>acc b. push_bit 8 acc OR ucast b) acc bs)
      = foldl (\<lambda>a b. a * 256 + unat b) (unat acc) bs"
proof (induction bs arbitrary: acc k)
  case (Cons b bs)
  have "unat b < 256" by (rule unat_byte_lt)
  then have lt: "unat acc * 256 + unat b < 256 ^ Suc k" using Cons.prems(1) by simp
  also have "(256::nat) ^ Suc k \<le> 256 ^ 8"
    using Cons.prems(2) by (intro power_increasing) auto
  finally have s: "unat (push_bit 8 acc OR ucast b) = unat acc * 256 + unat b"
    by (intro unat_shift_or_byte) simp_all
  with lt Cons.IH [of "push_bit 8 acc OR ucast b" "Suc k"] Cons.prems(2) show ?case by simp
qed simp

lemma unat_u64_from_be: "length bs \<le> 8 \<Longrightarrow> unat (u64_from_be bs) = foldl (\<lambda>a b. a * 256 + unat b) 0 bs"
  unfolding u64_from_be_def using unat_u64_from_be_aux [of 0 0 bs] by simp

lemma unat_u32_from_le:
  "length bs \<le> 4 \<Longrightarrow> unat (u32_from_le bs) = foldr (\<lambda>b a. a * 256 + unat b) bs 0
     \<and> foldr (\<lambda>b a. a * 256 + unat b) bs 0 < 256 ^ length bs"
proof (induction bs)
  case (Cons b bs)
  then have IH: "unat (u32_from_le bs) = foldr (\<lambda>b a. a * 256 + unat b) bs 0"
    "foldr (\<lambda>b a. a * 256 + unat b) bs 0 < 256 ^ length bs" by simp_all
  have "unat b < 256" by (rule unat_byte_lt)
  then have lt: "foldr (\<lambda>b a. a * 256 + unat b) bs 0 * 256 + unat b < 256 ^ Suc (length bs)"
    using IH(2) by simp
  also have "(256::nat) ^ Suc (length bs) \<le> 256 ^ 4"
    using Cons.prems by (intro power_increasing) auto
  finally have "unat (push_bit 8 (u32_from_le bs) OR ucast b) = unat (u32_from_le bs) * 256 + unat b"
    by (intro unat_shift_or_byte) (simp_all add: IH)
  with lt show ?case by (simp add: u32_from_le_def IH(1) [unfolded u32_from_le_def])
qed (simp add: u32_from_le_def)

definition be48 :: "nat \<Rightarrow> byte list" where
  "be48 a = map (\<lambda>k. of_nat (a div 256 ^ k)) [5, 4, 3, 2, 1, 0]"

definition le32 :: "nat \<Rightarrow> byte list" where
  "le32 v = map (\<lambda>k. of_nat (v div 256 ^ k)) [0, 1, 2, 3]"

lemma u64_from_be48: assumes "a < 2 ^ 48" shows "unat (u64_from_be (be48 a)) = a"
proof -
  have a: "a div 1099511627776 mod 256 = a div 1099511627776" using assms by simp
  show ?thesis
    using digit_step [of a 4294967296] digit_step [of a 16777216] digit_step [of a 65536]
      digit_step [of a 256] digit_step [of a 1]
    by (simp add: unat_u64_from_be be48_def unat_byte a)
qed

lemma u32_from_le32: assumes "v < 2 ^ 32" shows "unat (u32_from_le (le32 v)) = v"
proof -
  have a: "v div 16777216 mod 256 = v div 16777216" using assms by simp
  show ?thesis
    using digit_step [of v 65536] digit_step [of v 256] digit_step [of v 1]
    by (simp add: unat_u32_from_le le32_def unat_byte a)
qed

definition sid_bytes :: "nat \<Rightarrow> nat \<Rightarrow> nat list \<Rightarrow> byte list" where
  "sid_bytes r auth subs = [of_nat r, of_nat (length subs)] @ be48 auth @ concat (map le32 subs)"

definition sid_text :: "nat \<Rightarrow> nat \<Rightarrow> nat list \<Rightarrow> str" where
  "sid_text r auth subs = lit ''S-'' @ join_with (lit ''-'') (map show_dec (r # auth # subs))"

lemma length_be48: "length (be48 a) = 6" by (simp add: be48_def)

lemma length_le32: "length (le32 a) = 4" by (simp add: le32_def)

lemma length_concat_le32: "length (concat (map le32 subs)) = 4 * length subs"
  by (induction subs) (simp_all add: length_le32)

lemma drop_concat_le32: "i < length subs \<Longrightarrow> take 4 (drop (4 * i) (concat (map le32 subs))) = le32 (subs ! i)"
proof (induction subs arbitrary: i)
  case (Cons s subs) then show ?case by (cases i) (simp_all add: length_le32)
qed simp

lemma join_dash: "join_with (lit ''-'') (x # xs) = x @ concat (map (\<lambda>v. lit ''-'' @ v) xs)"
  by (induction xs arbitrary: x) simp_all

lemma decode_sid_bytes:
  assumes "r < 256" "length subs < 256" "auth < 2 ^ 48" "\<And>v. v \<in> set subs \<Longrightarrow> v < 2 ^ 32"
  shows "decode_sid (sid_bytes r auth subs) = Inr (sid_text r auth subs)"
proof -
  let ?raw = "sid_bytes r auth subs"
  have raw: "?raw = of_nat r # of_nat (length subs) # be48 auth @ concat (map le32 subs)"
    by (simp add: sid_bytes_def)
  have len: "length ?raw = 8 + 4 * length subs"
    by (simp add: raw length_be48 length_concat_le32)
  have sub: "take 4 (drop (8 + 4 * i) ?raw) = le32 (subs ! i)" if "i < length subs" for i
  proof -
    have "?raw = (of_nat r # of_nat (length subs) # be48 auth) @ concat (map le32 subs)"
      by (simp add: raw)
    moreover have "length (of_nat r # of_nat (length subs) # be48 auth :: byte list) = 8"
      by (simp add: length_be48)
    ultimately have "drop (8 + 4 * i) ?raw = drop (4 * i) (concat (map le32 subs))"
      by (metis append_eq_conv_conj drop_drop add.commute)
    then show ?thesis using drop_concat_le32 [OF that] by simp
  qed
  have "map (\<lambda>i. unat (u32_from_le (take 4 (drop (8 + 4 * i) ?raw)))) [0..<length subs]
      = map (\<lambda>i. subs ! i) [0..<length subs]"
    using assms(4) by (intro map_cong refl) (simp only: sub u32_from_le32 atLeastLessThan_iff set_upt nth_mem)
  then have subs: "map (\<lambda>i. unat (u32_from_le (take 4 (drop (8 + 4 * i) ?raw)))) [0..<length subs] = subs"
    by (simp add: map_nth)
  have rr: "unat (?raw ! 0) = r" "unat (?raw ! 1) = length subs"
    using assms by (simp_all add: raw unat_byte)
  have au: "unat (u64_from_be (take 6 (drop 2 ?raw))) = auth"
    using u64_from_be48 [OF assms(3)] by (simp add: raw length_be48)
  have sid: "sid_text r auth subs = lit ''S-'' @ show_dec r @ lit ''-'' @ show_dec auth
      @ concat (map (\<lambda>v. lit ''-'' @ show_dec v) subs)"
    by (simp add: sid_text_def join_dash comp_def)
  show ?thesis
    unfolding decode_sid_def Let_def sid rr au subs len by simp
qed

section \<open>Facts about the formats\<close>

lemma utf8_char_high: "128 \<le> c \<Longrightarrow> \<exists>b \<in> set (utf8_char c). 128 \<le> unat b"
proof -
  assume "128 \<le> c"
  then have "of_nat (128 + c mod 64) \<in> set (utf8_char c)" by (auto simp: utf8_char_def)
  moreover have "unat (of_nat (128 + c mod 64) :: byte) = 128 + c mod 64"
    by (subst unat_byte) simp
  ultimately show ?thesis by (metis le_add1)
qed

lemma utf8_char_set: "c \<in> set s \<Longrightarrow> set (utf8_char c) \<subseteq> set (utf8 s)"
  by (auto simp: utf8_def)

lemma utf8_all_ascii: "(\<And>b. b \<in> set (utf8 s) \<Longrightarrow> unat b < 128) \<Longrightarrow> ascii s"
  unfolding ascii_def
  by (meson not_le subsetD utf8_char_high utf8_char_set)

lemma guid_field_chars:
  assumes "guid_field n p"
  shows "length p = n \<and> list_all (\<lambda>c. (48 \<le> c \<and> c \<le> 57) \<or> (97 \<le> c \<and> c \<le> 102)) p"
proof -
  have bs: "b \<in> set (utf8 p) \<Longrightarrow> (48 \<le> unat b \<and> unat b \<le> 57) \<or> (97 \<le> unat b \<and> unat b \<le> 102)" for b
    using assms by (auto simp: guid_field_def list_all_iff word_le_nat_alt)
  then have a: "ascii p" by (intro utf8_all_ascii) fastforce
  have "(48 \<le> c \<and> c \<le> 57) \<or> (97 \<le> c \<and> c \<le> 102)" if "c \<in> set p" for c
  proof -
    have "c < 128" using a that by (simp add: ascii_def)
    then have "unat (of_nat c :: byte) = c" by (simp add: unat_byte)
    moreover have "of_nat c \<in> set (utf8 p)" using a that by (simp add: utf8_ascii)
    ultimately show ?thesis using bs [of "of_nat c"] by simp
  qed
  then show ?thesis using assms a by (auto simp: guid_field_def utf8_len_ascii list_all_iff)
qed

lemma guid_parts_chars:
  "guid_parts ns ps \<Longrightarrow> length ps = length ns \<and>
     (\<forall>p \<in> set ps. list_all (\<lambda>c. (48 \<le> c \<and> c \<le> 57) \<or> (97 \<le> c \<and> c \<le> 102)) p)
     \<and> map length ps = ns"
  by (induction ns ps rule: guid_parts.induct) (auto dest: guid_field_chars)

lemma set_join_with: "set (join_with d fs) \<subseteq> set d \<union> (\<Union>f \<in> set fs. set f)"
  by (induction d fs rule: join_with.induct) auto

lemma is_guid_chars:
  assumes "is_guid s" "c \<in> set s"
  shows "c = c_dash \<or> (48 \<le> c \<and> c \<le> 57) \<or> (97 \<le> c \<and> c \<le> 102)"
proof -
  have g: "guid_parts [8, 4, 4, 4, 12] (split_on c_dash s)" using assms(1) by (simp add: is_guid_def)
  have "set s \<subseteq> {c_dash} \<union> (\<Union>f \<in> set (split_on c_dash s). set f)"
    using set_join_with [of "[c_dash]" "split_on c_dash s"] by (simp add: join_split_on)
  then consider "c = c_dash" | f where "f \<in> set (split_on c_dash s)" "c \<in> set f"
    using assms(2) by auto
  then show ?thesis
    using guid_parts_chars [OF g] by cases (auto simp: list_all_iff)
qed

lemma is_guid_length: "is_guid s \<Longrightarrow> length s = 36"
proof -
  assume "is_guid s"
  then have m: "map length (split_on c_dash s) = [8, 4, 4, 4, 12]"
    using guid_parts_chars by (auto simp: is_guid_def)
  then obtain a b c d e where f: "split_on c_dash s = [a, b, c, d, e]"
    by (auto simp: map_eq_Cons_conv)
  then have "s = a @ [c_dash] @ b @ [c_dash] @ c @ [c_dash] @ d @ [c_dash] @ e"
    using join_split_on [of c_dash s] by simp
  moreover have "length a = 8" "length b = 4" "length c = 4" "length d = 4" "length e = 12"
    using m f by simp_all
  ultimately show ?thesis by simp
qed

lemma guid_escape_plain: "is_guid s \<Longrightarrow> escape_field s = s"
  by (rule escape_field_plain) (auto dest: is_guid_chars)

lemma escape_ldap_filter_value_inj:
  "escape_ldap_filter_value s = escape_ldap_filter_value t \<Longrightarrow> s = t"
proof (induction s arbitrary: t)
  case Nil
  then show ?case by (cases t) (auto split: if_splits)
next
  case (Cons a s)
  then show ?case by (cases t) (auto simp: kb_lits split: if_splits)
qed

lemma escape_ldap_filter_value_chars:
  "c \<in> set (escape_ldap_filter_value s) \<Longrightarrow> c \<noteq> c_star \<and> c \<noteq> c_lpar \<and> c \<noteq> c_rpar \<and> c \<noteq> 0"
  by (induction s) (auto simp: kb_lits split: if_splits)

text \<open>Every backslash of an escaped value starts one of the five escapes.\<close>

fun ldap_value_lexed :: "str \<Rightarrow> bool" where
  "ldap_value_lexed [] = True"
| "ldap_value_lexed (c # cs) =
     (if c = c_bslash
      then (case cs of h # l # rest \<Rightarrow>
              [h, l] \<in> set [lit ''5c'', lit ''2a'', lit ''28'', lit ''29'', lit ''00''] \<and> ldap_value_lexed rest
            | _ \<Rightarrow> False)
      else c \<notin> set [c_star, c_lpar, c_rpar, 0] \<and> ldap_value_lexed cs)"

lemma ldap_value_lexed_escape: "ldap_value_lexed (escape_ldap_filter_value s)"
  by (induction s) (auto simp: kb_lits)

section \<open>Properties\<close>

text \<open>C37 (KB_Identity.identity_roundtrip): every identity that the constructors of
  \<open>Source\<close> and \<open>ExternalIdentity\<close> accept survives storage: decoding its stored form gives the
  same identity back, and the stored form fits the attribute.\<close>

theorem identity_roundtrip:
  assumes "Source_new name = Inr src" and "new_identity src subject = Inr i"
  shows "decode (encode i) = Inr i \<and> ei_source i = src \<and> ei_subject i = subject
    \<and> length (encode i) \<le> 256"
proof -
  have "wf_identity i"
    using assms by (auto simp: Source_new_def new_identity_Inr wf_identity_def split: if_splits)
  then show ?thesis
    using assms by (auto simp: identity_codec.dec_enc new_identity_Inr MAX_IDENTITY_LEN_def)
qed

theorem identity_roundtrip_witness:
  "decode (encode \<lparr>ei_source = Source (lit ''a|b''), ei_subject = lit ''%7C''\<rparr>)
     = Inr \<lparr>ei_source = Source (lit ''a|b''), ei_subject = lit ''%7C''\<rparr>"
proof -
  have "Source_new (lit ''a|b'') = Inr (Source (lit ''a|b''))"
    by (simp add: Source_new_def kb_lits)
  moreover have "new_identity (Source (lit ''a|b'')) (lit ''%7C'')
      = Inr \<lparr>ei_source = Source (lit ''a|b''), ei_subject = lit ''%7C''\<rparr>"
    by (simp add: new_identity_def encode_def kb_lits)
  ultimately show ?thesis using identity_roundtrip by blast
qed

text \<open>Fact (KB_Identity.identity_filter_exact): the LDAP filter built for an identity is a single
  equality test on the escaped value: no byte of a hostile subject is filter syntax, and two
  different identities never share a filter, so the broker's search by filter is a search by
  identity.\<close>

theorem identity_filter_exact:
  assumes "wf_identity i"
  shows "\<exists>v. ldap_filter i = lit ''(msDS-ExternalDirectoryObjectId='' @ v @ lit '')''
      \<and> ldap_value_lexed v
      \<and> (\<forall>j. wf_identity j \<longrightarrow> ldap_filter j = ldap_filter i \<longrightarrow> j = i)"
proof -
  have "j = i" if "wf_identity j" "ldap_filter j = ldap_filter i" for j
  proof -
    have "escape_ldap_filter_value (encode j) = escape_ldap_filter_value (encode i)"
      using that(2) by (simp add: ldap_filter_def)
    then have "encode j = encode i" by (rule escape_ldap_filter_value_inj)
    then show "j = i" using identity_codec.enc_inj assms that(1) by blast
  qed
  then show ?thesis
    unfolding ldap_filter_def using ldap_value_lexed_escape by blast
qed

theorem identity_filter_exact_witness:
  "\<exists>v. ldap_filter \<lparr>ei_source = Source (lit ''entra''), ei_subject = lit ''*)(''\<rparr>
         = lit ''(msDS-ExternalDirectoryObjectId='' @ v @ lit '')'' \<and> ldap_value_lexed v"
proof -
  have "wf_identity \<lparr>ei_source = Source (lit ''entra''), ei_subject = lit ''*)(''\<rparr>"
    by (simp add: wf_identity_def encode_def kb_lits)
  from identity_filter_exact [OF this] show ?thesis by blast
qed

text \<open>A divergence: decoding accepts a second spelling of a
  stored identity. The escapes of \<open>unescape_field\<close> are read in either case, so a value with a
  lowercase escape decodes although no encoder writes it; an exact-match search for the
  identity does not find the object that carries it.\<close>

theorem identity_decode_two_spellings:
  "\<exists>v i. decode v = Inr i \<and> encode i \<noteq> v \<and> decode (encode i) = Inr i"
proof -
  let ?i = "\<lparr>ei_source = Source (lit ''a''), ei_subject = lit ''b|c''\<rparr>"
  have "decode (lit ''kb1|a|b%7cc'') = Inr ?i"
    by (simp add: decode_def kb_lits to_ascii_uppercase_def Source_new_def new_identity_def encode_def)
  moreover have "encode ?i \<noteq> lit ''kb1|a|b%7cc''" by (simp add: encode_def kb_lits)
  moreover have "decode (encode ?i) = Inr ?i"
    by (rule decode_encode) (simp add: wf_identity_def encode_def kb_lits)
  ultimately show ?thesis by blast
qed

text \<open>Fact (KB_Identity.sid_rendering): a well-formed binary \<open>objectSid\<close> (revision, count, 48-bit
  big-endian authority, little-endian sub-authorities) is rendered as its decimal text, with
  every number intact.\<close>

theorem sid_rendering:
  assumes "r < 256" and "length subs < 256" and "auth < 2 ^ 48"
    and "\<And>v. v \<in> set subs \<Longrightarrow> v < 2 ^ 32"
  shows "decode_sid (sid_bytes r auth subs) = Inr (sid_text r auth subs)"
  using assms by (rule decode_sid_bytes)

theorem sid_rendering_witness:
  "decode_sid (sid_bytes 1 5 [21, 4294967295, 1104]) = Inr (sid_text 1 5 [21, 4294967295, 1104])"
  by (rule sid_rendering) auto

end
