(* ===== verification/KB_Sam.thy ===== *)
theory KB_Sam
  imports KB_Prelude
begin

text \<open>
  \<open>kerbridge-core/src/sam.rs\<close>: what a login name may be. Sync derives a name with \<open>sanitize\<close>,
  \<open>issuerd\<close> accepts it with \<open>validate\<close>, and every collision check compares names by \<open>fold\<close>.

  The Unicode character tables of the Rust standard library and the NFC function of the
  \<open>unicode-normalization\<close> crate are parameters, the record \<open>unicode\<close>. What the code relies on is
  the locale \<open>unicode_tables\<close>; \<open>block_tables\<close> is an executable instance, the real tables of the
  Basic Latin, Latin-1, Greek and Cyrillic blocks.
\<close>

section \<open>Unicode tables\<close>

record unicode =
  is_alphanumeric :: "uchar \<Rightarrow> bool"
  char_to_lowercase :: "uchar \<Rightarrow> str"
  str_to_lowercase :: "str \<Rightarrow> str"
  nfc :: "str \<Rightarrow> str"

definition ascii_alphanumeric :: "uchar \<Rightarrow> bool" where
  "ascii_alphanumeric c \<longleftrightarrow> is_ascii_digit c \<or> (65 \<le> c \<and> c \<le> 90) \<or> (97 \<le> c \<and> c \<le> 122)"

abbreviation (input) c_SIGMA :: uchar where "c_SIGMA \<equiv> 931"

locale unicode_tables =
  fixes u :: unicode
  assumes alnum_ascii: "c < 128 \<Longrightarrow> is_alphanumeric u c \<longleftrightarrow> ascii_alphanumeric c"
    and alnum_not_space: "is_alphanumeric u c \<Longrightarrow> \<not> is_whitespace c"
    and lower_ascii: "c < 128 \<Longrightarrow> char_to_lowercase u c = [to_ascii_lowercase c]"
    and lower_stable: "d \<in> set (char_to_lowercase u c) \<Longrightarrow> char_to_lowercase u d = [d]"
    and lower_sigma: "char_to_lowercase u c_SIGMA = [963]"
    and str_lower: "c_SIGMA \<notin> set s \<Longrightarrow>
      str_to_lowercase u s = concat (map (char_to_lowercase u) s)"

section \<open>The rule\<close>

datatype rejected = SamEmpty | SamTooLong nat | SamLeadingDash | SamCharacter uchar

definition MAX_BYTES :: nat where [kb_lits]: "MAX_BYTES = 64"
definition FALLBACK :: str where [kb_lits]: "FALLBACK = lit ''kbuser''"

definition is_combining_mark :: "uchar \<Rightarrow> bool" where
  "is_combining_mark c \<longleftrightarrow> (0x0300 \<le> c \<and> c \<le> 0x036F) \<or> (0x0483 \<le> c \<and> c \<le> 0x0489)
     \<or> (0x1AB0 \<le> c \<and> c \<le> 0x1AFF) \<or> (0x1DC0 \<le> c \<and> c \<le> 0x1DFF)
     \<or> (0x20D0 \<le> c \<and> c \<le> 0x20F0) \<or> (0xFE20 \<le> c \<and> c \<le> 0xFE2F)"

definition allowed :: "unicode \<Rightarrow> uchar \<Rightarrow> bool" where
  "allowed u c \<longleftrightarrow> is_alphanumeric u c \<or> c = c_dot \<or> c = c_dash \<or> c = c_under"

definition validate :: "unicode \<Rightarrow> str \<Rightarrow> rejected + unit" where
  "validate u sam =
     (if sam = [] then Inl SamEmpty
      else if utf8_len sam > MAX_BYTES then Inl (SamTooLong (utf8_len sam))
      else if starts_with sam [c_dash] then Inl SamLeadingDash
      else (case find (\<lambda>c. \<not> allowed u c) sam of
              Some c \<Rightarrow> Inl (SamCharacter c)
            | None \<Rightarrow> Inr ()))"

definition fold :: "unicode \<Rightarrow> str \<Rightarrow> str" where
  "fold u sam = str_to_lowercase u sam"

fun sanitize_loop :: "unicode \<Rightarrow> nat \<Rightarrow> nat \<Rightarrow> nat \<Rightarrow> nat \<Rightarrow> str \<Rightarrow> str" where
  "sanitize_loop u max_chars max_bytes chars len [] = []"
| "sanitize_loop u max_chars max_bytes chars len (c # cs) =
     (if \<not> allowed u c then sanitize_loop u max_chars max_bytes chars len cs
      else if chars \<ge> max_chars \<or> len + len_utf8 c > max_bytes then []
      else c # sanitize_loop u max_chars max_bytes (chars + 1) (len + len_utf8 c) cs)"

definition sanitize :: "unicode \<Rightarrow> str \<Rightarrow> nat \<Rightarrow> nat \<Rightarrow> str" where
  "sanitize u src max_chars max_bytes =
     (let out = sanitize_loop u max_chars max_bytes 0 0 (concat (map (char_to_lowercase u) src));
          trimmed = trim_end_by (\<lambda>c. c = c_dot \<or> c = c_dash) (trim_start_by (\<lambda>c. c = c_dash) out)
      in if trimmed = [] then FALLBACK else trimmed)"

text \<open>The NFC hint of \<open>Rejected\<close>'s message, given for a combining mark only.\<close>

fun nfc_hint :: "rejected \<Rightarrow> bool" where
  "nfc_hint (SamCharacter c) = is_combining_mark c"
| "nfc_hint _ = False"

section \<open>Facts about the loop\<close>

lemma sanitize_loop_allowed: "c \<in> set (sanitize_loop u mc mb n len s) \<Longrightarrow> allowed u c \<and> c \<in> set s"
  by (induction u mc mb n len s rule: sanitize_loop.induct) (auto split: if_splits)

lemma sanitize_loop_bytes:
  "len \<le> mb \<Longrightarrow> len + utf8_len (sanitize_loop u mc mb n len s) \<le> mb"
  by (induction u mc mb n len s rule: sanitize_loop.induct) (auto split: if_splits)

lemma sanitize_loop_chars:
  "n \<le> mc \<Longrightarrow> n + length (sanitize_loop u mc mb n len s) \<le> mc"
  by (induction u mc mb n len s rule: sanitize_loop.induct) (auto split: if_splits)

lemma sanitize_loop_id:
  "list_all (allowed u) s \<Longrightarrow> n + length s \<le> mc \<Longrightarrow> len + utf8_len s \<le> mb \<Longrightarrow>
     sanitize_loop u mc mb n len s = s"
  by (induction u mc mb n len s rule: sanitize_loop.induct) auto

lemma trim_start_by_id: "s = [] \<or> \<not> p (hd s) \<Longrightarrow> trim_start_by p s = s"
  by (cases s) (auto simp: trim_start_by_def)

lemma trim_end_by_id: "s = [] \<or> \<not> p (last s) \<Longrightarrow> trim_end_by p s = s"
  by (cases s rule: rev_cases) (auto simp: trim_end_by_def)

lemma last_trim_end_by: "trim_end_by p s \<noteq> [] \<Longrightarrow> \<not> p (last (trim_end_by p s))"
  by (simp add: trim_end_by_def last_rev hd_dropWhile)

lemma validate_Inr:
  "validate u s = Inr () \<longleftrightarrow>
     s \<noteq> [] \<and> utf8_len s \<le> MAX_BYTES \<and> hd s \<noteq> c_dash \<and> (\<forall>c \<in> set s. allowed u c)"
  by (cases s)
     (auto simp: validate_def starts_with_def find_None_iff find_Some_iff split: option.splits)

text \<open>What the two trims leave: a name that is not empty keeps its head off \<open>-\<close>, its last
  character off the separators, and its characters and size within those of the loop.\<close>

definition sanitized_by :: "unicode \<Rightarrow> nat \<Rightarrow> nat \<Rightarrow> str \<Rightarrow> bool" where
  "sanitized_by u mc mb s \<longleftrightarrow> s \<noteq> [] \<and> (\<forall>c \<in> set s. allowed u c \<and> char_to_lowercase u c = [c])
     \<and> length s \<le> mc \<and> utf8_len s \<le> mb \<and> hd s \<noteq> c_dash \<and> last s \<noteq> c_dot \<and> last s \<noteq> c_dash"

lemma length_trim_start_by: "length (trim_start_by p s) \<le> length s"
  by (simp add: trim_start_by_def length_dropWhile_le)

lemma length_trim_end_by: "length (trim_end_by p s) \<le> length s"
  by (metis le_add1 length_append trim_end_by_prefix)

context unicode_tables
begin

lemma allowed_ascii: "c < 128 \<Longrightarrow>
    allowed u c \<longleftrightarrow> ascii_alphanumeric c \<or> c = c_dot \<or> c = c_dash \<or> c = c_under"
  by (simp add: allowed_def alnum_ascii)

lemma allowed_not_space: "allowed u c \<Longrightarrow> \<not> is_whitespace c"
  using alnum_not_space by (auto simp: allowed_def is_whitespace_def)

lemma lowered_stable: "c \<in> set (concat (map (char_to_lowercase u) s)) \<Longrightarrow> char_to_lowercase u c = [c]"
  by (auto dest: lower_stable)

lemma lowered_not_sigma: "char_to_lowercase u c = [c] \<Longrightarrow> c \<noteq> c_SIGMA"
  using lower_sigma by auto

lemma fallback_sanitized: "6 \<le> mc \<Longrightarrow> 6 \<le> mb \<Longrightarrow> sanitized_by u mc mb FALLBACK"
  by (auto simp: sanitized_by_def kb_lits allowed_ascii lower_ascii ascii_alphanumeric_def
        to_ascii_lowercase_def)

lemma sanitize_cases:
  "sanitize u s mc mb = FALLBACK \<or> sanitized_by u mc mb (sanitize u s mc mb)"
proof -
  let ?out = "sanitize_loop u mc mb 0 0 (concat (map (char_to_lowercase u) s))"
  let ?a = "trim_start_by (\<lambda>c. c = c_dash) ?out"
  let ?b = "trim_end_by (\<lambda>c. c = c_dot \<or> c = c_dash) ?a"
  have "sanitized_by u mc mb ?b" if ne: "?b \<noteq> []"
  proof -
    have a: "?a \<noteq> []" using ne by (auto simp: trim_end_by_def)
    have "set ?b \<subseteq> set ?out" using set_trim_end_by set_trim_start_by by fast
    then have "\<forall>c \<in> set ?b. allowed u c \<and> char_to_lowercase u c = [c]"
      using sanitize_loop_allowed lowered_stable by blast
    moreover have "length ?b \<le> mc"
      by (metis add_0 le0 le_trans length_trim_end_by length_trim_start_by sanitize_loop_chars)
    moreover have "utf8_len ?b \<le> mb"
      by (metis add_0 le0 le_trans sanitize_loop_bytes utf8_len_trim_end_by utf8_len_trim_start_by)
    moreover have "hd ?b \<noteq> c_dash"
      using hd_trim_start_by [OF a] hd_trim_end_by [OF ne] by simp
    moreover have "last ?b \<noteq> c_dot" "last ?b \<noteq> c_dash"
      using last_trim_end_by [OF ne] by simp_all
    ultimately show ?thesis using ne by (simp add: sanitized_by_def)
  qed
  then show ?thesis by (auto simp: sanitize_def Let_def)
qed

lemma sanitized_by_mono: "sanitized_by u mc mb s \<Longrightarrow> mc \<le> mc' \<Longrightarrow> mb \<le> mb' \<Longrightarrow> sanitized_by u mc' mb' s"
  by (auto simp: sanitized_by_def)

lemma sanitize_sanitized: "sanitized_by u (max mc 6) (max mb 6) (sanitize u s mc mb)"
  using sanitize_cases [of s mc mb] fallback_sanitized
  by (metis max.cobounded1 max.cobounded2 sanitized_by_mono)

lemma sanitize_fixed: "sanitized_by u mc mb s \<Longrightarrow> sanitize u s mc mb = s"
proof -
  assume s: "sanitized_by u mc mb s"
  then have "concat (map (char_to_lowercase u) s) = s"
    by (intro concat_map_single) (simp add: sanitized_by_def)
  with s show ?thesis
    by (auto simp: sanitize_def sanitized_by_def sanitize_loop_id list_all_iff
        trim_start_by_id trim_end_by_id Let_def)
qed

lemma fold_sanitized: "sanitized_by u mc mb s \<Longrightarrow> fold u s = s"
proof -
  assume s: "sanitized_by u mc mb s"
  then have c: "\<And>c. c \<in> set s \<Longrightarrow> char_to_lowercase u c = [c]" by (simp add: sanitized_by_def)
  then have "c_SIGMA \<notin> set s" using lowered_not_sigma by blast
  then show ?thesis using c by (simp add: fold_def str_lower concat_map_single)
qed

lemma validate_sanitized: "sanitized_by u mc MAX_BYTES s \<Longrightarrow> validate u s = Inr ()"
  by (auto simp: sanitized_by_def validate_Inr)

end

section \<open>The block tables\<close>

definition block_upper :: "uchar \<Rightarrow> bool" where
  "block_upper c \<longleftrightarrow> (65 \<le> c \<and> c \<le> 90) \<or> (192 \<le> c \<and> c \<le> 222 \<and> c \<noteq> 215)
     \<or> (913 \<le> c \<and> c \<le> 937 \<and> c \<noteq> 930) \<or> (1040 \<le> c \<and> c \<le> 1071)"

definition block_lower :: "uchar \<Rightarrow> bool" where
  "block_lower c \<longleftrightarrow> (97 \<le> c \<and> c \<le> 122) \<or> (223 \<le> c \<and> c \<le> 255 \<and> c \<noteq> 247)
     \<or> (945 \<le> c \<and> c \<le> 969) \<or> (1072 \<le> c \<and> c \<le> 1103)"

definition block_char_lower :: "uchar \<Rightarrow> str" where
  "block_char_lower c = (if block_upper c then [c + 32] else [c])"

text \<open>\<open>str::to_lowercase\<close> treats one character by context: a capital sigma after a letter and not
  before one becomes the final form.\<close>

fun block_str_lower :: "bool \<Rightarrow> str \<Rightarrow> str" where
  "block_str_lower prev [] = []"
| "block_str_lower prev (c # cs) =
     (if c = c_SIGMA \<and> prev \<and> (case cs of [] \<Rightarrow> True | d # _ \<Rightarrow> \<not> block_upper d \<and> \<not> block_lower d)
      then [962] else block_char_lower c)
     @ block_str_lower (block_upper c \<or> block_lower c) cs"

definition block_tables :: unicode where
  "block_tables = \<lparr>is_alphanumeric = (\<lambda>c. is_ascii_digit c \<or> block_upper c \<or> block_lower c),
     char_to_lowercase = block_char_lower, str_to_lowercase = block_str_lower False, nfc = id\<rparr>"

lemma block_str_lower_no_sigma:
  "c_SIGMA \<notin> set s \<Longrightarrow> block_str_lower p s = concat (map block_char_lower s)"
  by (induction s arbitrary: p) auto

interpretation block: unicode_tables block_tables
proof
  show "c_SIGMA \<notin> set s \<Longrightarrow>
      str_to_lowercase block_tables s = concat (map (char_to_lowercase block_tables) s)" for s
    by (simp add: block_tables_def block_str_lower_no_sigma)
qed (auto simp: block_tables_def ascii_alphanumeric_def block_upper_def block_lower_def
      block_char_lower_def to_ascii_lowercase_def is_whitespace_def is_ascii_digit_def split: if_splits)

section \<open>Properties\<close>

text \<open>Fact (KB_Sam.sanitized_name_validates): a name that sync derives is a name that issuerd accepts:
  whatever the source string, the character budget and a byte budget within the ceiling,
  \<open>validate\<close> does not refuse what \<open>sanitize\<close> produces.\<close>

theorem sanitized_name_validates:
  assumes "unicode_tables u" and "mb \<le> MAX_BYTES"
  shows "validate u (sanitize u s mc mb) = Inr ()"
proof -
  have "sanitized_by u (max mc 6) (max mb 6) (sanitize u s mc mb)"
    by (rule unicode_tables.sanitize_sanitized [OF assms(1)])
  then have "sanitized_by u (max mc 6) MAX_BYTES (sanitize u s mc mb)"
    using assms by (elim unicode_tables.sanitized_by_mono [rotated]) (simp_all add: MAX_BYTES_def)
  then show ?thesis by (rule unicode_tables.validate_sanitized [OF assms(1)])
qed

theorem sanitized_name_validates_witness:
  "validate block_tables (sanitize block_tables (lit ''--Alice (Admin)..'') 20 64) = Inr ()"
  by (rule sanitized_name_validates) (simp_all add: block.unicode_tables_axioms kb_lits)

text \<open>Fact (KB_Sam.sanitize_idempotent_and_folded): a derived name is a fixed point of the derivation
  and its own comparison key, so the name that is looked up is the name that was written.\<close>

theorem sanitize_idempotent_and_folded:
  assumes "unicode_tables u" and "6 \<le> mc" and "6 \<le> mb"
  shows "sanitize u (sanitize u s mc mb) mc mb = sanitize u s mc mb
    \<and> fold u (sanitize u s mc mb) = sanitize u s mc mb"
proof -
  have "sanitized_by u mc mb (sanitize u s mc mb)"
    using unicode_tables.sanitize_sanitized [OF assms(1), of mc mb s] assms(2,3)
    by (simp add: max_def split: if_splits)
  then show ?thesis
    using unicode_tables.sanitize_fixed [OF assms(1)] unicode_tables.fold_sanitized [OF assms(1)]
    by blast
qed

theorem sanitize_idempotent_and_folded_witness:
  "fold block_tables (sanitize block_tables (lit ''Alice.ANDERSON'') 20 64) = lit ''alice.anderson''"
proof -
  have "sanitize block_tables (lit ''Alice.ANDERSON'') 20 64 = lit ''alice.anderson''"
    by code_simp
  then show ?thesis
    using sanitize_idempotent_and_folded [OF block.unicode_tables_axioms, of 20 64 "lit ''Alice.ANDERSON''"]
    by simp
qed

text \<open>A divergence: the two lowercasings are not the same function. For a
  capital sigma at the end of a word \<open>fold\<close> gives the final form and \<open>sanitize\<close>, which works
  character by character, does not: the derived name is not the key of its own source, and a
  name and its case variant have two keys.\<close>

theorem fold_and_sanitize_disagree:
  "\<exists>s. list_all (allowed block_tables) s
     \<and> fold block_tables s \<noteq> sanitize block_tables s 20 MAX_BYTES
     \<and> fold block_tables s \<noteq> fold block_tables (concat (map (char_to_lowercase block_tables) s))"
  by (rule exI [of _ "[927, 916, 927, 931]"], intro conjI; code_simp)

end
