(* ===== verification/KB_Dn.thy ===== *)
theory KB_Dn
  imports KB_Sam
begin

text \<open>
  \<open>kerbridge-core/src/dn.rs\<close>: distinguished names taken apart. The containment test is the
  boundary every directory write rests on, so the facts here relate the two walkers of the
  module, \<open>parent_of\<close> and \<open>dn_components\<close>, which both honour the backslash escape.
\<close>

section \<open>Operations\<close>

definition base_dn_for :: "unicode \<Rightarrow> str \<Rightarrow> str" where
  "base_dn_for u realm =
     join_with (lit '','') (map (\<lambda>label. lit ''DC='' @ label) (split_on c_dot (str_to_lowercase u realm)))"

definition idp_parent_ou_for :: "str \<Rightarrow> str" where
  "idp_parent_ou_for base_dn = lit ''OU=CloudIdP,'' @ base_dn"

fun parent_of :: "str \<Rightarrow> str" where
  "parent_of [] = []"
| "parent_of (c # cs) =
     (if c = c_bslash then (case cs of [] \<Rightarrow> [] | d # ds \<Rightarrow> parent_of ds)
      else if c = c_comma then cs
      else parent_of cs)"

text \<open>The character loop of \<open>dn_components\<close>, with the component being collected as argument.\<close>

fun dn_raw :: "str \<Rightarrow> str \<Rightarrow> str list option" where
  "dn_raw current [] = Some [current]"
| "dn_raw current (c # cs) =
     (if c = c_bslash
      then (case cs of [] \<Rightarrow> None | d # ds \<Rightarrow> dn_raw (current @ [c_bslash, d]) ds)
      else if c = c_comma then map_option (\<lambda>rest. current # rest) (dn_raw [] cs)
      else dn_raw (current @ [c]) cs)"

definition dn_component :: "unicode \<Rightarrow> str \<Rightarrow> str option" where
  "dn_component u component =
     (case split_once c_eq component of
        None \<Rightarrow> None
      | Some (a, v) \<Rightarrow>
          let attr = trim a; value = trim v in
          if attr = [] \<or> value = [] then None
          else Some (str_to_lowercase u attr @ [c_eq] @ str_to_lowercase u value))"

definition dn_components :: "unicode \<Rightarrow> str \<Rightarrow> str list option" where
  "dn_components u dn =
     (case dn_raw [] dn of None \<Rightarrow> None | Some cs \<Rightarrow> those (map (dn_component u) cs))"

definition dn_is_at_or_within :: "unicode \<Rightarrow> str \<Rightarrow> str \<Rightarrow> bool" where
  "dn_is_at_or_within u dn ou =
     (case (dn_components u dn, dn_components u ou) of
        (Some d, Some c) \<Rightarrow> length d \<ge> length c \<and> drop (length d - length c) d = c
      | _ \<Rightarrow> False)"

definition dn_equals :: "unicode \<Rightarrow> str \<Rightarrow> str \<Rightarrow> bool" where
  "dn_equals u a b =
     (case (dn_components u a, dn_components u b) of
        (Some x, Some y) \<Rightarrow> x = y
      | _ \<Rightarrow> False)"

section \<open>Facts\<close>

lemma those_eq_Some: "those os = Some xs \<longleftrightarrow> os = map Some xs"
  by (induction os arbitrary: xs) (auto split: option.splits)

lemma dn_raw_not_Nil: "dn_raw cur s \<noteq> Some []"
  by (induction cur s rule: dn_raw.induct) (auto split: list.splits)

lemma dn_raw_parent:
  "dn_raw cur s = Some (f # fs) \<Longrightarrow>
     (if fs = [] then parent_of s = [] else dn_raw [] (parent_of s) = Some fs)"
  by (induction cur s arbitrary: f fs rule: dn_raw.induct)
     (auto simp: dn_raw_not_Nil split: if_splits list.splits)

lemma dn_raw_append:
  "c_bslash \<notin> set a \<Longrightarrow> c_comma \<notin> set a \<Longrightarrow>
     dn_raw cur (a @ c_comma # b) = map_option (\<lambda>rest. (cur @ a) # rest) (dn_raw [] b)"
  by (induction a arbitrary: cur) auto

lemma parent_of_append [simp]:
  "c_bslash \<notin> set a \<Longrightarrow> c_comma \<notin> set a \<Longrightarrow> parent_of (a @ c_comma # b) = b"
  by (induction a) auto

lemma dn_components_parent:
  assumes "dn_components u s = Some (x # xs)"
  shows "if xs = [] then dn_components u (parent_of s) = None
    else dn_components u (parent_of s) = Some xs"
proof -
  obtain cs where raw: "dn_raw [] s = Some cs" and th: "map (dn_component u) cs = map Some (x # xs)"
    using assms by (auto simp: dn_components_def those_eq_Some split: option.splits)
  then obtain f fs where cs: "cs = f # fs" and fs: "map (dn_component u) fs = map Some xs"
    by (cases cs) auto
  have "if fs = [] then parent_of s = [] else dn_raw [] (parent_of s) = Some fs"
    using dn_raw_parent raw cs by blast
  moreover have "dn_components u [] = None"
    by (simp add: dn_components_def dn_component_def)
  moreover have "those (map Some xs) = Some xs" using those_eq_Some by blast
  ultimately show ?thesis
    using fs by (cases "fs = []") (auto simp: dn_components_def)
qed

lemma dn_components_Cons:
  assumes "c_bslash \<notin> set a" "c_comma \<notin> set a" "dn_component u a = Some x" "dn_components u b = Some xs"
  shows "dn_components u (a @ c_comma # b) = Some (x # xs)"
  using assms by (auto simp: dn_components_def dn_raw_append those_eq_Some split: option.splits)

lemma dn_within_refl: "dn_components u ou \<noteq> None \<Longrightarrow> dn_is_at_or_within u ou ou"
  by (auto simp: dn_is_at_or_within_def)

lemma dn_within_components:
  "dn_is_at_or_within u dn ou \<longleftrightarrow>
     (\<exists>p c. dn_components u ou = Some c \<and> dn_components u dn = Some (p @ c))"
proof
  assume "dn_is_at_or_within u dn ou"
  then obtain d c where dc: "dn_components u dn = Some d" "dn_components u ou = Some c"
    "drop (length d - length c) d = c"
    by (auto simp: dn_is_at_or_within_def split: option.splits)
  then have "d = take (length d - length c) d @ c" by (metis append_take_drop_id)
  with dc show "\<exists>p c. dn_components u ou = Some c \<and> dn_components u dn = Some (p @ c)" by auto
qed (auto simp: dn_is_at_or_within_def)

lemma dn_within_trans:
  "dn_is_at_or_within u a b \<Longrightarrow> dn_is_at_or_within u b c \<Longrightarrow> dn_is_at_or_within u a c"
  by (auto simp: dn_within_components)

lemma dn_within_Cons:
  assumes "c_bslash \<notin> set a" "c_comma \<notin> set a" "dn_component u a = Some x"
    and "dn_is_at_or_within u b ou"
  shows "dn_is_at_or_within u (a @ c_comma # b) ou"
proof -
  obtain p c where "dn_components u ou = Some c" "dn_components u b = Some (p @ c)"
    using assms(4) by (auto simp: dn_within_components)
  then show ?thesis
    using dn_components_Cons [OF assms(1-3)] by (metis append_Cons dn_within_components)
qed

lemma is_whitespace_ascii: "is_whitespace c \<Longrightarrow> c \<noteq> 67 \<and> c \<noteq> 78"
  by (auto simp: is_whitespace_def)

lemma dn_component_cn:
  assumes "trim cn \<noteq> []"
  shows "\<exists>x. dn_component u (lit ''CN='' @ cn) = Some x"
proof -
  have "split_once c_eq (lit ''CN='' @ cn) = Some (lit ''CN'', cn)" by (simp add: kb_lits)
  moreover have "trim (lit ''CN'') = lit ''CN''"
    by (simp add: trim_def trim_start_by_def trim_end_by_def kb_lits is_whitespace_def)
  ultimately show ?thesis using assms by (simp add: dn_component_def kb_lits)
qed

text \<open>The DN of an object named \<open>cn\<close> under a parent, when the name carries no DN syntax.\<close>

lemma dn_within_cn:
  assumes "c_bslash \<notin> set cn" "c_comma \<notin> set cn" "trim cn \<noteq> []"
    and "dn_is_at_or_within u parent ou"
  shows "dn_is_at_or_within u (lit ''CN='' @ cn @ [c_comma] @ parent) ou"
proof -
  obtain x where "dn_component u (lit ''CN='' @ cn) = Some x" using dn_component_cn assms(3) by blast
  then have "dn_is_at_or_within u ((lit ''CN='' @ cn) @ c_comma # parent) ou"
    using assms by (intro dn_within_Cons) (auto simp: kb_lits)
  then show ?thesis by simp
qed

section \<open>Properties\<close>

text \<open>Fact (KB_Dn.containment_is_inherited): a readable DN is at or within an organizational unit
  exactly when it is that unit or its parent is at or within it. The containment test, which
  compares components, and \<open>parent_of\<close>, which cuts the text, thus agree on every escape, so a
  name ending in the unit's text does not put an object inside it.\<close>

theorem containment_is_inherited:
  assumes "dn_components u dn = Some d"
  shows "dn_is_at_or_within u dn ou \<longleftrightarrow>
    dn_equals u dn ou \<or> dn_is_at_or_within u (parent_of dn) ou"
proof -
  have "d \<noteq> []"
    using assms dn_raw_not_Nil by (auto simp: dn_components_def those_eq_Some split: option.splits)
  then obtain x xs where d: "d = x # xs" by (cases d) auto
  have p: "dn_components u (parent_of dn) = (if xs = [] then None else Some xs)"
    using dn_components_parent [of u dn x xs] assms d by (auto split: if_splits)
  have ou: "dn_components u ou \<noteq> Some []"
    using dn_raw_not_Nil by (auto simp: dn_components_def those_eq_Some split: option.splits)
  show ?thesis
  proof
    assume "dn_is_at_or_within u dn ou"
    then obtain q c where c: "dn_components u ou = Some c" "x # xs = q @ c"
      using assms d by (auto simp: dn_within_components)
    show "dn_equals u dn ou \<or> dn_is_at_or_within u (parent_of dn) ou"
    proof (cases q)
      case Nil
      then show ?thesis using c assms d by (simp add: dn_equals_def)
    next
      case (Cons y q')
      then show ?thesis using c p ou by (auto simp: dn_within_components)
    qed
  next
    assume "dn_equals u dn ou \<or> dn_is_at_or_within u (parent_of dn) ou"
    then show "dn_is_at_or_within u dn ou"
      using p assms d
      by (auto simp: dn_equals_def dn_within_components split: option.splits if_splits)
  qed
qed

lemmas dn_eval = dn_components_def dn_component_def dn_equals_def dn_is_at_or_within_def
  trim_def trim_start_by_def trim_end_by_def is_whitespace_def block_tables_def
  block_char_lower_def block_upper_def block_lower_def starts_with_def

theorem containment_is_inherited_witness:
  "\<not> dn_is_at_or_within block_tables
      (lit ''CN=Bob'' @ [c_bslash] @ lit '',OU=Entra,DC=x'') (lit ''OU=Entra,DC=x'')"
proof -
  let ?dn = "lit ''CN=Bob'' @ [c_bslash] @ lit '',OU=Entra,DC=x''"
  have "dn_components block_tables ?dn = Some [lit ''cn=bob'' @ [c_bslash] @ lit '',ou=entra'', lit ''dc=x'']"
    by (simp add: dn_eval kb_lits)
  from containment_is_inherited [OF this, of "lit ''OU=Entra,DC=x''"] show ?thesis
    by (simp add: dn_eval kb_lits)
qed

end
