(* ===== verification/KB_Time.thy ===== *)
theory KB_Time
  imports KB_Prelude
begin

text \<open>
  \<open>kerbridge-core/src/time.rs\<close>: the one calendar. Both kernels are over \<open>i64\<close>; the arithmetic
  that can leave its range (a year typed by an operator) wraps, as a release build does.
  \<open>epoch_from_rfc3339\<close> slices the bytes of its argument between ASCII separators it has just
  checked, so the slices are on character boundaries.
\<close>

section \<open>Operations\<close>

definition wrap_i64 :: "int \<Rightarrow> int" where
  "wrap_i64 x = (x + 2 ^ 63) mod 2 ^ 64 - 2 ^ 63"

definition days_from_civil :: "int \<Rightarrow> int \<Rightarrow> int \<Rightarrow> int option" where
  "days_from_civil y m d =
     (if \<not> (1 \<le> m \<and> m \<le> 12) \<or> \<not> (1 \<le> d \<and> d \<le> 31) then None
      else
        let y = wrap_i64 (y - (if m \<le> 2 then 1 else 0));
            era = y div 400;
            yoe = y - era * 400;
            mp = (if m > 2 then m - 3 else m + 9);
            doy = (153 * mp + 2) div 5 + d - 1;
            doe = yoe * 365 + yoe div 4 - yoe div 100 + doy
        in Some (wrap_i64 (era * 146097 + doe - 719468)))"

definition civil_from_days :: "int \<Rightarrow> int \<times> int \<times> int" where
  "civil_from_days z0 =
     (let z = z0 + 719468;
          era = z div 146097;
          doe = z mod 146097;
          yoe = (doe - doe div 1460 + doe div 36524 - doe div 146096) div 365;
          doy = doe - (365 * yoe + yoe div 4 - yoe div 100);
          mp = (5 * doy + 2) div 153;
          day = doy - (153 * mp + 2) div 5 + 1;
          month = (if mp < 10 then mp + 3 else mp - 9)
      in (yoe + era * 400 + (if month \<le> 2 then 1 else 0), month, day))"

definition rfc3339 :: "nat \<Rightarrow> str" where
  "rfc3339 epoch =
     (let days = int (epoch div 86400); secs = epoch mod 86400;
          (year, month, day) = civil_from_days days
      in pad_dec 4 (nat year) @ lit ''-'' @ pad_dec 2 (nat month) @ lit ''-'' @ pad_dec 2 (nat day)
         @ lit ''T'' @ pad_dec 2 (secs div 3600) @ lit '':'' @ pad_dec 2 (secs div 60 mod 60)
         @ lit '':'' @ pad_dec 2 (secs mod 60) @ lit ''Z'')"

definition byte_slice :: "byte list \<Rightarrow> nat \<Rightarrow> nat \<Rightarrow> str" where
  "byte_slice b from to = map unat (take (to - from) (drop from b))"

definition epoch_from_rfc3339 :: "str \<Rightarrow> nat option" where
  "epoch_from_rfc3339 s =
     (let b = utf8 s in
      if length b \<noteq> 20 \<or> b ! 4 \<noteq> 45 \<or> b ! 7 \<noteq> 45 \<or> b ! 10 \<noteq> 84 \<or> b ! 13 \<noteq> 58 \<or> b ! 16 \<noteq> 58
         \<or> b ! 19 \<noteq> 90
      then None
      else
        let num = (\<lambda>from to. parse_i64 (byte_slice b from to)) in
        Option.bind (num 0 4) (\<lambda>y. Option.bind (num 5 7) (\<lambda>mo. Option.bind (num 8 10) (\<lambda>dd.
        Option.bind (days_from_civil y mo dd) (\<lambda>days.
        Option.bind (num 11 13) (\<lambda>h. Option.bind (num 14 16) (\<lambda>mi. Option.bind (num 17 19) (\<lambda>sec.
          if h > 23 \<or> mi > 59 \<or> sec > 60 then None
          else let t = days * 86400 + h * 3600 + mi * 60 + sec
               in if 0 \<le> t then Some (nat t) else None))))))))"

definition days_from_ymd :: "str \<Rightarrow> int option" where
  "days_from_ymd date =
     (case split_on c_dash date of
        [y, m, d] \<Rightarrow>
          Option.bind (parse_i64 y) (\<lambda>y. Option.bind (parse_i64 m) (\<lambda>m. Option.bind (parse_i64 d) (\<lambda>d.
            days_from_civil y m d)))
      | _ \<Rightarrow> None)"

section \<open>The kernels are inverse\<close>

text \<open>The first day of year \<open>y\<close> of an era, its last day, and the quantity divided by 365.\<close>

definition year_start :: "int \<Rightarrow> int" where
  "year_start y = 365 * y + y div 4 - y div 100"

definition year_end :: "int \<Rightarrow> int" where
  "year_end y = (if y = 399 then 146096 else year_start (y + 1) - 1)"

definition shifted :: "int \<Rightarrow> int" where
  "shifted doe = doe - doe div 1460 + doe div 36524 - doe div 146096"

lemma div_step:
  assumes "0 < k"
  shows "(d + 1) div k = d div k + (if (d + 1) mod k = 0 then 1 else 0 :: int)"
proof (cases "(d + 1) mod k = 0")
  case True
  then obtain q where q: "d + 1 = k * q" by (auto simp: zmod_eq_0_iff)
  then have "d = k * (q - 1) + (k - 1)" by (simp add: algebra_simps)
  then have "d div k = q - 1" using assms by (intro int_div_pos_eq [where r = "k - 1"]) auto
  moreover have "(d + 1) div k = q" using q assms by simp
  ultimately show ?thesis using True by simp
next
  case False
  have "d = k * ((d + 1) div k) + ((d + 1) mod k - 1)"
    using mult_div_mod_eq [of k "d + 1"] by (simp add: algebra_simps)
  moreover have "0 < (d + 1) mod k" "(d + 1) mod k < k" using assms False
    by (simp_all add: order.not_eq_order_implies_strict)
  ultimately have "d div k = (d + 1) div k"
    by (intro int_div_pos_eq [where r = "(d + 1) mod k - 1"]) linarith+
  then show ?thesis using False by simp
qed

text \<open>What \<open>shifted\<close> gains from one day to the next: a day, less one at each multiple of 1460.\<close>

lemma shifted_gain:
  obtains r where "shifted (d + 1) = shifted d + 1 - (if (d + 1) mod 1460 = 0 then 1 else 0) + r"
    "0 \<le> r"
proof -
  define b c where "b = (if (d + 1) mod 36524 = 0 then 1 else 0 :: int)"
    and "c = (if (d + 1) mod 146096 = 0 then 1 else 0 :: int)"
  have "(36524 :: int) dvd 146096" by simp
  then have "(d + 1) mod 146096 = 0 \<Longrightarrow> (d + 1) mod 36524 = 0"
    unfolding mod_eq_0_iff_dvd by (rule dvd_trans)
  then have "c \<le> b" by (simp add: b_def c_def)
  moreover have "shifted (d + 1) = shifted d + 1 - (if (d + 1) mod 1460 = 0 then 1 else 0) + (b - c)"
  proof -
    have e: "(d + 1) div 1460 = d div 1460 + (if (d + 1) mod 1460 = 0 then 1 else 0)"
      "(d + 1) div 36524 = d div 36524 + b" "(d + 1) div 146096 = d div 146096 + c"
      unfolding b_def c_def by (rule div_step, simp)+
    have "(d + 1) - (x + a) + (y + b) - (z + c) = (d - x + y - z) + 1 - a + (b - c)" for x y z a :: int
      by simp
    then show ?thesis by (simp only: shifted_def e)
  qed
  ultimately show thesis using that [of "b - c"] by simp
qed

lemma shifted_step: "shifted d \<le> shifted (d + 1)"
proof -
  obtain r where "shifted (d + 1) = shifted d + 1 - (if (d + 1) mod 1460 = 0 then 1 else 0) + r" "0 \<le> r"
    by (rule shifted_gain)
  then show ?thesis by (cases "(d + 1) mod 1460 = 0") simp_all
qed

lemma shifted_mono: "a \<le> b \<Longrightarrow> shifted a \<le> shifted b"
proof (induction b rule: int_ge_induct)
  case (step i)
  then show ?case using shifted_step [of i] by simp
qed simp

definition year_checked :: "int \<Rightarrow> bool" where
  "year_checked y \<longleftrightarrow> 365 * y \<le> shifted (year_start y)
     \<and> shifted (year_end y) < 365 * y + 365 \<and> year_end y - year_start y \<le> 365"

lemma shifted_year_start:
  assumes "0 \<le> y" "y < 400"
  shows "shifted (year_start y) = 365 * y \<and> (0 < y \<longrightarrow> year_start y mod 1460 \<noteq> 0)"
proof -
  define q b c where "q = y div 4" and "b = y mod 4" and "c = y div 100"
  have y: "y = 4 * q + b" "0 \<le> b" "b < 4" unfolding q_def b_def by simp_all
  have "c = q div 25" unfolding c_def q_def by (simp add: zdiv_zmult2_eq [symmetric])
  then have c: "25 * c \<le> q" "q < 25 * c + 25" by simp_all
  have c4: "0 \<le> c" "c \<le> 3" using assms unfolding c_def by simp_all
  have st: "year_start y = 1460 * q + (365 * b + q - c)"
    unfolding year_start_def q_def [symmetric] c_def [symmetric] using y(1) by simp
  have r: "0 \<le> 365 * b + q - c" "365 * b + q - c < 1460" using y c c4 by linarith+
  then have d1: "year_start y div 1460 = q" unfolding st by simp
  have "year_start y = 36524 * c + (365 * (y - 100 * c) + (q - 25 * c))"
    using st y(1) by simp
  moreover have "0 \<le> 365 * (y - 100 * c) + (q - 25 * c)" "365 * (y - 100 * c) + (q - 25 * c) < 36524"
  proof -
    have "q \<le> 25 * c + 24" "b \<le> 3" using y(3) c(2) by simp_all
    then show "0 \<le> 365 * (y - 100 * c) + (q - 25 * c)" "365 * (y - 100 * c) + (q - 25 * c) < 36524"
      using y(1,2) c(1) by simp_all
  qed
  ultimately have d2: "year_start y div 36524 = c" by simp
  have d3: "year_start y div 146096 = 0" using st r c c4 by (intro div_pos_pos_trivial) linarith+
  have "shifted (year_start y) = 365 * y"
    unfolding shifted_def d1 d2 d3 using st y(1) by simp
  moreover have "year_start y mod 1460 \<noteq> 0" if "0 < y"
  proof -
    have "year_start y mod 1460 = 365 * b + q - c" using st r by (rule int_mod_pos_eq)
    then show ?thesis using that y c c4 by linarith
  qed
  ultimately show ?thesis by blast
qed

lemma years_checked:
  assumes "0 \<le> y" "y < 400"
  shows "year_checked y"
proof -
  have len: "year_end y - year_start y \<le> 365"
    using assms by (auto simp: year_end_def year_start_def)
  have "shifted (year_end y) < 365 * y + 365"
  proof (cases "y = 399")
    case True
    then show ?thesis by (simp add: year_end_def shifted_def)
  next
    case False
    then have nxt: "shifted (year_start (y + 1)) = 365 * (y + 1)" "year_start (y + 1) mod 1460 \<noteq> 0"
      using shifted_year_start [of "y + 1"] assms by auto
    define e where "e = year_start (y + 1) - 1"
    have ee: "year_start (y + 1) = e + 1" "year_end y = e"
      using False by (simp_all add: e_def year_end_def)
    obtain r where "shifted (e + 1) = shifted e + 1 - (if (e + 1) mod 1460 = 0 then 1 else 0) + r" "0 \<le> r"
      by (rule shifted_gain)
    then show ?thesis using nxt unfolding ee by simp
  qed
  then show ?thesis
    using len shifted_year_start [OF assms] by (simp add: year_checked_def)
qed

lemma year_of_day:
  "d < year_start (int n) \<Longrightarrow> 0 \<le> d \<Longrightarrow>
     \<exists>y. 0 \<le> y \<and> y < int n \<and> year_start y \<le> d \<and> d < year_start (y + 1)"
proof (induction n)
  case 0
  then show ?case by (simp add: year_start_def)
next
  case (Suc n)
  show ?case
  proof (cases "d < year_start (int n)")
    case True
    with Suc obtain y where "0 \<le> y" "y < int n" "year_start y \<le> d" "d < year_start (y + 1)" by blast
    then show ?thesis by (intro exI [of _ y]) simp
  next
    case False
    with Suc.prems show ?thesis by (intro exI [of _ "int n"]) (simp add: add.commute)
  qed
qed

lemma day_in_year:
  assumes "0 \<le> d" "d \<le> 146096"
  obtains y where "0 \<le> y" "y < 400" "year_start y \<le> d" "d \<le> year_end y"
proof (cases "d = 146096")
  case True
  then show ?thesis using that [of 399] by (simp add: year_start_def year_end_def)
next
  case False
  then have "d < year_start (int 400)" using assms by (simp add: year_start_def)
  then obtain y where y: "0 \<le> y" "y < int 400" "year_start y \<le> d" "d < year_start (y + 1)"
    using year_of_day assms(1) by blast
  have "d \<le> year_end y" using y assms(2) by (auto simp: year_end_def)
  with y that show ?thesis by auto
qed

lemma year_of_era_day:
  fixes d :: int
  assumes "0 \<le> d" "d \<le> 146096"
  defines "yoe \<equiv> (d - d div 1460 + d div 36524 - d div 146096) div 365"
  defines "doy \<equiv> d - (365 * yoe + yoe div 4 - yoe div 100)"
  shows "0 \<le> yoe \<and> yoe < 400 \<and> 0 \<le> doy \<and> doy \<le> 365"
proof -
  obtain y where y: "0 \<le> y" "y < 400" "year_start y \<le> d" "d \<le> year_end y"
    using day_in_year assms(1,2) by blast
  have c: "year_checked y" using years_checked y(1,2) .
  have "365 * y \<le> shifted d" "shifted d < 365 * y + 365"
    using c shifted_mono [OF y(3)] shifted_mono [OF y(4)] by (auto simp: year_checked_def)
  then have yoe: "yoe = y"
    unfolding yoe_def shifted_def [symmetric]
    by (intro int_div_pos_eq [where r = "shifted d - 365 * y"]) auto
  have "doy = d - year_start y" unfolding doy_def yoe year_start_def by simp
  with y c yoe show ?thesis by (auto simp: year_checked_def)
qed

lemma month_of_day:
  assumes "0 \<le> doy" "doy \<le> (365 :: int)"
  defines "mp \<equiv> (5 * doy + 2) div 153"
  shows "0 \<le> mp \<and> mp \<le> 11 \<and> 0 \<le> doy - (153 * mp + 2) div 5 \<and> doy - (153 * mp + 2) div 5 \<le> 30"
proof -
  have mp: "153 * mp \<le> 5 * doy + 2" "5 * doy + 2 < 153 * mp + 153"
    unfolding mp_def by simp_all
  then have "0 \<le> mp" "mp \<le> 11" using assms by linarith+
  moreover have "0 \<le> doy - (153 * mp + 2) div 5 \<and> doy - (153 * mp + 2) div 5 \<le> 30"
    using mp by linarith
  ultimately show ?thesis by blast
qed

lemma wrap_i64_id: "- (2 ^ 63) \<le> x \<Longrightarrow> x < 2 ^ 63 \<Longrightarrow> wrap_i64 x = x"
  by (simp add: wrap_i64_def)

text \<open>The year of the era and the day of the year determine the date and are recovered from it.\<close>

lemma days_from_civil_of_era:
  assumes "0 \<le> yoe" "yoe < 400" "0 \<le> doy" "doy \<le> 365" "\<bar>era\<bar> \<le> 1000000000000"
  defines "mp \<equiv> (5 * doy + 2) div 153"
  defines "month \<equiv> (if mp < 10 then mp + 3 else mp - 9)"
  shows "days_from_civil (yoe + era * 400 + (if month \<le> 2 then 1 else 0)) month
      (doy - (153 * mp + 2) div 5 + 1)
    = Some (era * 146097 + (365 * yoe + yoe div 4 - yoe div 100 + doy) - 719468)"
    (is "days_from_civil ?y month ?d = _")
proof -
  have mp: "0 \<le> mp" "mp \<le> 11" "0 \<le> doy - (153 * mp + 2) div 5" "doy - (153 * mp + 2) div 5 \<le> 30"
    using month_of_day [OF assms(3,4)] by (simp_all add: mp_def)
  have month: "1 \<le> month" "month \<le> 12" "(if month > 2 then month - 3 else month + 9) = mp"
    using mp by (auto simp: month_def)
  have y: "?y - (if month \<le> 2 then 1 else 0) = yoe + era * 400" by simp
  have "wrap_i64 (yoe + era * 400) = yoe + era * 400"
    using assms(1,2,5) by (intro wrap_i64_id) auto
  moreover have "(yoe + era * 400) div 400 = era" using assms(1,2) by simp
  moreover have "wrap_i64 (era * 146097 + (yoe * 365 + yoe div 4 - yoe div 100 + doy) - 719468)
      = era * 146097 + (yoe * 365 + yoe div 4 - yoe div 100 + doy) - 719468"
    using assms(1-5) by (intro wrap_i64_id) auto
  ultimately show ?thesis
    unfolding days_from_civil_def y Let_def month(3) using month(1,2) mp(3,4)
    by (simp add: algebra_simps)
qed

lemma add_diff_inverse_int: "a + (b - a) = (b :: int)"
  by simp

lemma civil_from_days_cases:
  fixes z :: int
  assumes "\<bar>z\<bar> \<le> 1000000000000000"
  obtains y m d where "civil_from_days z = (y, m, d)" "days_from_civil y m d = Some z"
    "1 \<le> m" "m \<le> 12" "1 \<le> d" "d \<le> 31"
    "(z + 719468) div 146097 * 400 \<le> y" "y \<le> (z + 719468) div 146097 * 400 + 400"
proof -
  define era where "era = (z + 719468) div 146097"
  define doe where "doe = (z + 719468) mod 146097"
  define yoe where "yoe = (doe - doe div 1460 + doe div 36524 - doe div 146096) div 365"
  define doy where "doy = doe - (365 * yoe + yoe div 4 - yoe div 100)"
  define mp where "mp = (5 * doy + 2) div 153"
  define month where "month = (if mp < 10 then mp + 3 else mp - 9)"
  have "0 \<le> doe" "doe < 146097" unfolding doe_def by (rule pos_mod_sign, simp) (rule pos_mod_bound, simp)
  then have doe: "0 \<le> doe" "doe \<le> 146096" by linarith+
  have b: "0 \<le> yoe" "yoe < 400" "0 \<le> doy" "doy \<le> 365"
    using year_of_era_day [OF doe] unfolding doy_def yoe_def by blast+
  have mp: "0 \<le> mp" "mp \<le> 11" "0 \<le> doy - (153 * mp + 2) div 5" "doy - (153 * mp + 2) div 5 \<le> 30"
    using month_of_day [OF b(3,4)] unfolding mp_def by blast+
  have z: "era * 146097 + doe = z + 719468" unfolding era_def doe_def by (rule div_mult_mod_eq)
  then have "\<bar>era\<bar> \<le> 1000000000000" using assms doe by linarith
  note of_era = days_from_civil_of_era [OF b this, folded mp_def, folded month_def]
  have days: "days_from_civil (yoe + era * 400 + (if month \<le> 2 then 1 else 0)) month
      (doy - (153 * mp + 2) div 5 + 1) = Some z"
  proof -
    have "365 * yoe + yoe div 4 - yoe div 100 + doy = doe" by (simp only: doy_def add_diff_inverse_int)
    with z have "era * 146097 + (365 * yoe + yoe div 4 - yoe div 100 + doy) - 719468 = z" by linarith
    with of_era show ?thesis by (simp only:)
  qed
  have civil: "civil_from_days z = (yoe + era * 400 + (if month \<le> 2 then 1 else 0), month,
      doy - (153 * mp + 2) div 5 + 1)"
    unfolding civil_from_days_def Let_def era_def [symmetric] doe_def [symmetric] yoe_def [symmetric]
      doy_def [symmetric] mp_def [symmetric] month_def [symmetric] by (rule refl)
  have month: "1 \<le> month" "month \<le> 12" using mp(1,2) unfolding month_def by simp_all
  have day: "1 \<le> doy - (153 * mp + 2) div 5 + 1" "doy - (153 * mp + 2) div 5 + 1 \<le> 31"
    using mp(3,4) by linarith+
  have year: "era * 400 \<le> yoe + era * 400 + (if month \<le> 2 then 1 else 0)"
    "yoe + era * 400 + (if month \<le> 2 then 1 else 0) \<le> era * 400 + 400"
    using b(1,2) by simp_all
  show thesis by (rule that [OF civil days month day, folded era_def]) (rule year)+
qed

section \<open>Rendering and parsing\<close>

lemma parse_i64_digits:
  assumes "list_all is_ascii_digit s" "s \<noteq> []" "digits_val s < 2 ^ 63"
  shows "parse_i64 s = Some (int (digits_val s))"
  using assms by (cases s) (auto simp: parse_i64_def parse_digits_def is_ascii_digit_def)

lemma pad_dec_not_Nil [simp]: "pad_dec w n \<noteq> []"
  by (simp add: pad_dec_def)

lemma parse_i64_pad_dec: "n < 2 ^ 63 \<Longrightarrow> parse_i64 (pad_dec w n) = Some (int n)"
  by (subst parse_i64_digits) (simp_all add: pad_dec_digits digits_val_pad_dec)

lemma ascii_pad_dec: "ascii (pad_dec w n)"
  using pad_dec_digits [of w n] by (auto simp: ascii_def list_all_iff is_ascii_digit_def)

lemma unat_ascii: "c < 128 \<Longrightarrow> unat (of_nat c :: byte) = c"
  by (simp add: unat_byte)

lemma map_unat_ascii: "ascii s \<Longrightarrow> map (\<lambda>c. unat (of_nat c :: byte)) s = s"
  by (induction s) (simp_all add: unat_ascii)

text \<open>A text of the shape \<open>YYYY-MM-DDTHH:MM:SSZ\<close> with decimal fields of the right widths.\<close>

definition stamp :: "str \<Rightarrow> str \<Rightarrow> str \<Rightarrow> str \<Rightarrow> str \<Rightarrow> str \<Rightarrow> str" where
  "stamp y mo d h mi s = y @ [45] @ mo @ [45] @ d @ [84] @ h @ [58] @ mi @ [58] @ s @ [90]"

lemma length_2_Cons: "length xs = 2 \<longleftrightarrow> (\<exists>a b. xs = [a, b])"
  by (cases xs; cases "tl xs") (auto simp: length_Suc_conv)

lemma length_4_Cons: "length xs = 4 \<longleftrightarrow> (\<exists>a b c d. xs = [a, b, c, d])"
  by (auto simp: length_Suc_conv eval_nat_numeral)

lemma epoch_of_stamp:
  assumes "length y = 4" "length mo = 2" "length d = 2" "length h = 2" "length mi = 2" "length s = 2"
    and "ascii (y @ mo @ d @ h @ mi @ s)"
  shows "epoch_from_rfc3339 (stamp y mo d h mi s) =
    Option.bind (parse_i64 y) (\<lambda>y. Option.bind (parse_i64 mo) (\<lambda>mo. Option.bind (parse_i64 d) (\<lambda>d.
    Option.bind (days_from_civil y mo d) (\<lambda>days.
    Option.bind (parse_i64 h) (\<lambda>h. Option.bind (parse_i64 mi) (\<lambda>mi. Option.bind (parse_i64 s) (\<lambda>sec.
      if h > 23 \<or> mi > 59 \<or> sec > 60 then None
      else let t = days * 86400 + h * 3600 + mi * 60 + sec
           in if 0 \<le> t then Some (nat t) else None)))))))"
proof -
  obtain y1 y2 y3 y4 where y: "y = [y1, y2, y3, y4]" using assms(1) by (auto simp: length_4_Cons)
  obtain m1 m2 where m: "mo = [m1, m2]" using assms(2) by (auto simp: length_2_Cons)
  obtain d1 d2 where d: "d = [d1, d2]" using assms(3) by (auto simp: length_2_Cons)
  obtain h1 h2 where h: "h = [h1, h2]" using assms(4) by (auto simp: length_2_Cons)
  obtain i1 i2 where i: "mi = [i1, i2]" using assms(5) by (auto simp: length_2_Cons)
  obtain s1 s2 where s: "s = [s1, s2]" using assms(6) by (auto simp: length_2_Cons)
  have a: "ascii (stamp y mo d h mi s)" using assms(7) by (simp add: stamp_def)
  have b: "utf8 (stamp y mo d h mi s) = map of_nat
      [y1, y2, y3, y4, 45, m1, m2, 45, d1, d2, 84, h1, h2, 58, i1, i2, 58, s1, s2, 90]"
    unfolding utf8_ascii [OF a] by (simp add: stamp_def y m d h i s)
  show ?thesis
    using assms(7) unfolding epoch_from_rfc3339_def b
    by (simp add: byte_slice_def y m d h i s unat_ascii Let_def)
qed

lemma rfc3339_inverse:
  assumes "e < 2 ^ 32"
  shows "epoch_from_rfc3339 (rfc3339 e) = Some e"
proof -
  define z where "z = int (e div 86400)"
  define sec where "sec = e mod 86400"
  have z: "0 \<le> z" "z \<le> 49710" using assms by (simp_all add: z_def)
  have era: "4 \<le> (z + 719468) div 146097" "(z + 719468) div 146097 \<le> 5"
    using zdiv_mono1 [of 719468 "z + 719468" 146097] zdiv_mono1 [of "z + 719468" 769178 146097] z
    by simp_all
  obtain y m d where c: "civil_from_days z = (y, m, d)" "days_from_civil y m d = Some z"
    "1 \<le> m" "m \<le> 12" "1 \<le> d" "d \<le> 31" "1600 \<le> y" "y \<le> 2400"
  proof (rule civil_from_days_cases [of z])
    show "\<bar>z\<bar> \<le> 1000000000000000" using z by simp
    fix y m d
    assume "civil_from_days z = (y, m, d)" "days_from_civil y m d = Some z"
      "1 \<le> m" "m \<le> 12" "1 \<le> d" "d \<le> 31"
      and y: "(z + 719468) div 146097 * 400 \<le> y" "y \<le> (z + 719468) div 146097 * 400 + 400"
    moreover have "1600 \<le> y" "y \<le> 2400" using era y by simp_all
    ultimately show thesis using that by blast
  qed
  have sec: "sec < 86400" by (simp add: sec_def)
  define h mi s where "h = sec div 3600" and "mi = sec div 60 mod 60" and "s = sec mod 60"
  have hms: "h < 24" "mi < 60" "s < 60" using sec by (simp_all add: h_def mi_def s_def)
  have total: "int h * 3600 + int mi * 60 + int s = int sec"
  proof -
    have "h = sec div 60 div 60" by (simp add: h_def div_mult2_eq [symmetric])
    then have "sec div 60 = h * 60 + mi" by (simp add: mi_def)
    moreover have "sec = sec div 60 * 60 + s" by (simp add: s_def)
    ultimately have "sec = (h * 60 + mi) * 60 + s" by simp
    then have "int sec = (int h * 60 + int mi) * 60 + int s" by (metis of_nat_add of_nat_mult of_nat_numeral)
    then show ?thesis by simp
  qed
  have r: "rfc3339 e = stamp (pad_dec 4 (nat y)) (pad_dec 2 (nat m)) (pad_dec 2 (nat d))
      (pad_dec 2 h) (pad_dec 2 mi) (pad_dec 2 s)"
    unfolding rfc3339_def Let_def z_def [symmetric] sec_def [symmetric] c(1) prod.case
      h_def mi_def s_def stamp_def by (simp add: kb_lits)
  have "int e = z * 86400 + int sec"
    unfolding z_def sec_def by (metis div_mult_mod_eq of_nat_add of_nat_mult of_nat_numeral)
  with total have t: "z * 86400 + int h * 3600 + int mi * 60 + int s = int e" by simp
  have "epoch_from_rfc3339 (rfc3339 e) = (if int h > 23 \<or> int mi > 59 \<or> int s > 60 then None
      else let t = z * 86400 + int h * 3600 + int mi * 60 + int s
           in if 0 \<le> t then Some (nat t) else None)"
    unfolding r using c hms
    by (subst epoch_of_stamp) (simp_all add: length_pad_dec ascii_pad_dec parse_i64_pad_dec)
  then show ?thesis using hms t by simp
qed

section \<open>Properties\<close>

text \<open>Fact (KB_Time.civil_kernels_inverse): the two calendar kernels invert each other: every day
  number maps to a date with a month in 1 to 12 and a day in 1 to 31, and that date maps back
  to the day number.\<close>

theorem civil_kernels_inverse:
  assumes "\<bar>z\<bar> \<le> 1000000000000000"
  shows "case civil_from_days z of (y, m, d) \<Rightarrow>
    days_from_civil y m d = Some z \<and> 1 \<le> m \<and> m \<le> 12 \<and> 1 \<le> d \<and> d \<le> 31"
  by (rule civil_from_days_cases [OF assms]) simp

theorem civil_kernels_inverse_witness:
  "case civil_from_days 19782 of (y, m, d) \<Rightarrow> days_from_civil y m d = Some 19782"
  using civil_kernels_inverse [of 19782] by (simp split: prod.splits)

text \<open>Fact (KB_Time.rfc3339_roundtrip): every timestamp of the 32-bit clock survives being rendered
  into a marker and read back, whoever reads it.\<close>

theorem rfc3339_roundtrip:
  assumes "e < 2 ^ 32"
  shows "epoch_from_rfc3339 (rfc3339 e) = Some e"
  using assms by (rule rfc3339_inverse)

theorem rfc3339_roundtrip_witness: "epoch_from_rfc3339 (rfc3339 4294967295) = Some 4294967295"
  by (rule rfc3339_roundtrip) simp

lemmas number_eval = parse_i64_def parse_digits_def is_ascii_digit_def digits_val_def kb_lits

lemma field_eval:
  "parse_i64 (lit ''2026'') = Some 2026" "parse_i64 (lit ''1970'') = Some 1970"
  "parse_i64 (lit ''+7'') = Some 7" "parse_i64 (lit ''-1'') = Some (- 1)"
  "parse_i64 (lit ''01'') = Some 1" "parse_i64 (lit ''02'') = Some 2"
  "parse_i64 (lit ''12'') = Some 12" "parse_i64 (lit ''21'') = Some 21"
  "parse_i64 (lit ''31'') = Some 31" "parse_i64 (lit ''00'') = Some 0"
  by (simp_all add: number_eval)

lemma date_eval:
  "days_from_civil 2026 7 21 = Some 20655" "days_from_civil 1970 1 2 = Some 1"
  "days_from_civil 2026 2 31 = Some 20515"
  by (simp_all add: days_from_civil_def wrap_i64_def)

lemma field_ascii:
  "ascii (lit ''2026'')" "ascii (lit ''1970'')" "ascii (lit ''+7'')" "ascii (lit ''-1'')"
  "ascii (lit ''01'')" "ascii (lit ''02'')" "ascii (lit ''12'')" "ascii (lit ''21'')"
  "ascii (lit ''31'')" "ascii (lit ''00'')"
  by (simp_all add: kb_lits)

lemma signed_month_eval:
  "epoch_from_rfc3339 (lit ''2026-+7-21T12:00:00Z'') = Some 1784635200"
proof -
  have "lit ''2026-+7-21T12:00:00Z''
      = stamp (lit ''2026'') (lit ''+7'') (lit ''21'') (lit ''12'') (lit ''00'') (lit ''00'')"
    by (simp add: stamp_def kb_lits)
  then show ?thesis
    by (simp add: epoch_of_stamp field_ascii field_eval date_eval)
qed

lemma negative_hour_eval: "epoch_from_rfc3339 (lit ''1970-01-02T-1:00:00Z'') = Some 82800"
proof -
  have "lit ''1970-01-02T-1:00:00Z''
      = stamp (lit ''1970'') (lit ''01'') (lit ''02'') (lit ''-1'') (lit ''00'') (lit ''00'')"
    by (simp add: stamp_def kb_lits)
  then show ?thesis
    by (simp add: epoch_of_stamp field_ascii field_eval date_eval)
qed

lemma february_31_eval: "epoch_from_rfc3339 (lit ''2026-02-31T00:00:00Z'') = Some 1772496000"
proof -
  have "lit ''2026-02-31T00:00:00Z''
      = stamp (lit ''2026'') (lit ''02'') (lit ''31'') (lit ''00'') (lit ''00'') (lit ''00'')"
    by (simp add: stamp_def kb_lits)
  then show ?thesis
    by (simp add: epoch_of_stamp field_ascii field_eval date_eval)
qed

text \<open>A divergence: the parser accepts strings that the renderer never
  writes and that are no dates: a signed field (the integer parser takes \<open>+7\<close> and \<open>-1\<close>, and the
  upper bounds on the clock fields do not exclude a negative one) and the 31st of February.\<close>

theorem rfc3339_parser_accepts_more:
  "epoch_from_rfc3339 (lit ''2026-+7-21T12:00:00Z'') = Some 1784635200
   \<and> epoch_from_rfc3339 (lit ''1970-01-02T-1:00:00Z'') = Some 82800
   \<and> epoch_from_rfc3339 (lit ''2026-02-31T00:00:00Z'') = Some 1772496000"
  using signed_month_eval negative_hour_eval february_31_eval by blast

end
