(* ===== verification/KB_Grant.thy ===== *)
theory KB_Grant
  imports KB_Identity KB_Time
begin

text \<open>
  \<open>kerbridge-core/src/grant.rs\<close> and \<open>kerbridge-core/src/state.rs\<close>: the device-grant value, its
  validity window and the handle derived from its thumbprint, and the state markers whose age
  the operator tools show. The loop of \<open>DeviceGrant::decode\<close> is \<open>grant_fields\<close>, its local
  variables the record \<open>grant_acc\<close>. The \<open>u64\<close> times are naturals; the one addition that can
  leave the type saturates, as in the code.
\<close>

section \<open>Data\<close>

definition GRANT_PREFIX :: str where [kb_lits]: "GRANT_PREFIX = lit ''kbkey1|''"
definition ALG_ES256 :: str where [kb_lits]: "ALG_ES256 = lit ''es256''"
definition ALGORITHMS :: "str list" where [kb_lits]: "ALGORITHMS = [ALG_ES256]"
definition THUMBPRINT_LEN :: nat where [kb_lits]: "THUMBPRINT_LEN = 43"
definition MAX_LABEL :: nat where [kb_lits]: "MAX_LABEL = 96"

record device_grant =
  g_label :: str
  g_alg :: str
  g_thumbprint :: str
  g_start :: nat
  g_end :: nat
  g_seen :: "nat option"

datatype grant_error =
    NotAGrant
  | NotAField
  | Duplicate
  | Algorithms nat
  | Missing str
  | BadValue str
  | GrantBadEscape

section \<open>Thumbprints\<close>

definition b64url_value :: "byte \<Rightarrow> nat option" where
  "b64url_value c =
     (if 65 \<le> c \<and> c \<le> 90 then Some (unat (c - 65))
      else if 97 \<le> c \<and> c \<le> 122 then Some (unat (c - 97) + 26)
      else if 48 \<le> c \<and> c \<le> 57 then Some (unat (c - 48) + 52)
      else if c = 45 then Some 62
      else if c = 95 then Some 63
      else None)"

definition is_thumbprint :: "str \<Rightarrow> bool" where
  "is_thumbprint s \<longleftrightarrow> utf8_len s = THUMBPRINT_LEN \<and> list_all (\<lambda>c. b64url_value c \<noteq> None) (utf8 s)"

definition algorithm :: "str \<Rightarrow> str option" where
  "algorithm s = find (\<lambda>a. a = s) ALGORITHMS"

definition hex_digit :: "nat \<Rightarrow> uchar" where
  "hex_digit v = (if v < 10 then 48 + v else 87 + v)"

definition hex08 :: "32 word \<Rightarrow> str" where
  "hex08 w = map (\<lambda>k. hex_digit (unat w div 16 ^ k mod 16)) [7, 6, 5, 4, 3, 2, 1, 0]"

fun sextets :: "64 word \<Rightarrow> byte list \<Rightarrow> 64 word option" where
  "sextets acc [] = Some acc"
| "sextets acc (c # cs) =
     (case b64url_value c of None \<Rightarrow> None
      | Some v \<Rightarrow> sextets (push_bit 6 acc OR of_nat v) cs)"

definition short_id :: "str \<Rightarrow> str option" where
  "short_id thumbprint =
     (let b = utf8 thumbprint in
      if length b < 6 then None
      else map_option (\<lambda>acc. hex08 (ucast (drop_bit 4 acc))) (sextets 0 (take 6 b)))"

definition grant_short_id :: "device_grant \<Rightarrow> str" where
  "grant_short_id g = (case short_id (g_thumbprint g) of None \<Rightarrow> [] | Some i \<Rightarrow> i)"

section \<open>The stored value\<close>

definition grant_encode :: "device_grant \<Rightarrow> str" where
  "grant_encode g =
     GRANT_PREFIX @ lit ''label='' @ escape_field (g_label g) @ lit ''|'' @ g_alg g @ lit ''=''
     @ g_thumbprint g @ lit ''|start='' @ show_dec (g_start g) @ lit ''|end='' @ show_dec (g_end g)
     @ (case g_seen g of None \<Rightarrow> [] | Some seen \<Rightarrow> lit ''|seen='' @ show_dec seen)"

definition epoch :: "str \<Rightarrow> str \<Rightarrow> grant_error + nat" where
  "epoch raw key = ok_or (BadValue key) (parse_unsigned u64_max raw)"

record grant_acc =
  a_label :: "str option"
  a_alg :: "(str \<times> str) option"
  a_start :: "nat option"
  a_end :: "nat option"
  a_seen :: "nat option"
  a_keys :: "str list"

definition grant_field :: "str \<Rightarrow> grant_acc \<Rightarrow> grant_error + grant_acc" where
  "grant_field field a =
     (case split_once c_eq field of
        None \<Rightarrow> Inl NotAField
      | Some (key, raw) \<Rightarrow>
          if key \<in> set (a_keys a) then Inl Duplicate
          else
            let a = a\<lparr>a_keys := a_keys a @ [key]\<rparr> in
            case algorithm key of
              Some known \<Rightarrow>
                if a_alg a \<noteq> None then Inl (Algorithms 2)
                else if \<not> is_thumbprint raw then Inl (BadValue (lit ''thumbprint''))
                else Inr (a\<lparr>a_alg := Some (known, raw)\<rparr>)
            | None \<Rightarrow>
                if key = lit ''label'' then
                  rbind (map_err (\<lambda>_. GrantBadEscape) (unescape_field raw)) (\<lambda>label.
                    if list_ex is_control label then Inl (BadValue (lit ''label''))
                    else Inr (a\<lparr>a_label := Some label\<rparr>))
                else if key = lit ''start'' then
                  rbind (epoch raw (lit ''start'')) (\<lambda>n. Inr (a\<lparr>a_start := Some n\<rparr>))
                else if key = lit ''end'' then
                  rbind (epoch raw (lit ''end'')) (\<lambda>n. Inr (a\<lparr>a_end := Some n\<rparr>))
                else if key = lit ''seen'' then
                  rbind (epoch raw (lit ''seen'')) (\<lambda>n. Inr (a\<lparr>a_seen := Some n\<rparr>))
                else Inr a)"

fun grant_fields :: "str list \<Rightarrow> grant_acc \<Rightarrow> grant_error + grant_acc" where
  "grant_fields [] a = Inr a"
| "grant_fields (f # fs) a = rbind (grant_field f a) (grant_fields fs)"

definition grant_acc0 :: grant_acc where
  "grant_acc0 = \<lparr>a_label = None, a_alg = None, a_start = None, a_end = None, a_seen = None, a_keys = []\<rparr>"

definition grant_decode :: "str \<Rightarrow> grant_error + device_grant" where
  "grant_decode value =
     rbind (ok_or NotAGrant (strip_prefix value GRANT_PREFIX)) (\<lambda>payload.
     rbind (grant_fields (split_on c_pipe payload) grant_acc0) (\<lambda>a.
     rbind (ok_or (Algorithms 0) (a_alg a)) (\<lambda>(alg, thumbprint).
     rbind (ok_or (Missing (lit ''start'')) (a_start a)) (\<lambda>start.
     rbind (ok_or (Missing (lit ''end'')) (a_end a)) (\<lambda>end'.
       Inr \<lparr>g_label = (case a_label a of None \<Rightarrow> [] | Some l \<Rightarrow> l), g_alg = alg,
            g_thumbprint = thumbprint, g_start = start, g_end = end', g_seen = a_seen a\<rparr>)))))"

section \<open>The validity window and the stamps\<close>

definition effective_end :: "device_grant \<Rightarrow> nat \<Rightarrow> nat" where
  "effective_end g grant_days = min (g_end g) (sat_add (g_start g) (grant_days * 86400))"

definition clamped :: "device_grant \<Rightarrow> nat \<Rightarrow> bool" where
  "clamped g grant_days \<longleftrightarrow> effective_end g grant_days < g_end g"

definition valid_at :: "device_grant \<Rightarrow> nat \<Rightarrow> nat \<Rightarrow> bool" where
  "valid_at g now grant_days \<longleftrightarrow> now < effective_end g grant_days"

fun sanitize_label_loop :: "str \<Rightarrow> nat \<Rightarrow> str \<Rightarrow> str" where
  "sanitize_label_loop out escaped [] = out"
| "sanitize_label_loop out escaped (c # cs) =
     (if is_control c then sanitize_label_loop out escaped cs
      else let cost = (if c = c_percent \<or> c = c_pipe then 3 else len_utf8 c)
           in if escaped + cost > MAX_LABEL then out
              else sanitize_label_loop (out @ [c]) (escaped + cost) cs)"

definition sanitize_label :: "str \<Rightarrow> str" where
  "sanitize_label raw = sanitize_label_loop [] 0 raw"

definition needs_touch :: "nat option \<Rightarrow> nat \<Rightarrow> bool" where
  "needs_touch seen now =
     (case seen of None \<Rightarrow> True
      | Some seen \<Rightarrow> now div 86400 \<noteq> seen div 86400 \<or> now - seen \<ge> 12 * 3600)"

definition seen_days_ago :: "nat option \<Rightarrow> nat \<Rightarrow> nat option" where
  "seen_days_ago seen now = map_option (\<lambda>s. (now - s) div 86400) seen"

subsection \<open>State markers\<close>

definition ROLE_ADMISSION :: str where [kb_lits]: "ROLE_ADMISSION = lit ''kbrole1|realm-admission''"
definition ROLE_DEVICE_GRANT :: str where [kb_lits]: "ROLE_DEVICE_GRANT = lit ''kbrole1|device-grant''"
definition ROLE_DELEGATES :: str where [kb_lits]: "ROLE_DELEGATES = lit ''kbrole1|delegates''"
definition ST_RETIRED :: str where [kb_lits]: "ST_RETIRED = lit ''kbstate1|retired|''"
definition ST_QUAR :: str where [kb_lits]: "ST_QUAR = lit ''kbstate1|quarantined|''"
definition ST_NAME_PINNED :: str where [kb_lits]: "ST_NAME_PINNED = lit ''kbstate1|namepinned|''"
definition RETIRED_PREFIX :: str where [kb_lits]: "RETIRED_PREFIX = lit ''_retired-''"
definition UAC_ENABLED :: str where [kb_lits]: "UAC_ENABLED = lit ''66048''"
definition UAC_DISABLED :: str where [kb_lits]: "UAC_DISABLED = lit ''66050''"
definition GROUP_TYPE_GLOBAL_SECURITY :: str where
  [kb_lits]: "GROUP_TYPE_GLOBAL_SECURITY = lit ''-2147483646''"

definition retention_age_days :: "str \<Rightarrow> nat \<Rightarrow> nat option" where
  "retention_age_days marker now =
     Option.bind
       (case strip_prefix marker ST_RETIRED of Some s \<Rightarrow> Some s | None \<Rightarrow> strip_prefix marker ST_QUAR)
       (\<lambda>stamp. map_option (\<lambda>stamped. (now - stamped) div 86400) (epoch_from_rfc3339 stamp))"

section \<open>The stored value comes back\<close>

text \<open>What \<open>issuerd\<close> writes: a known algorithm, a digest, a label without control characters
  and times of the type.\<close>

definition wf_grant :: "device_grant \<Rightarrow> bool" where
  "wf_grant g \<longleftrightarrow> g_alg g = ALG_ES256 \<and> is_thumbprint (g_thumbprint g)
     \<and> list_all (\<lambda>c. \<not> is_control c) (g_label g) \<and> g_start g \<le> u64_max \<and> g_end g \<le> u64_max
     \<and> (\<forall>s \<in> set_option (g_seen g). s \<le> u64_max)"

lemma b64url_value_bound: "b64url_value c = Some v \<Longrightarrow> v < 64"
  by (auto simp: b64url_value_def word_le_nat_alt unat_sub split: if_splits)

lemma b64url_value_ascii: "b64url_value c \<noteq> None \<Longrightarrow> unat c < 128 \<and> unat c \<noteq> 124 \<and> unat c \<noteq> 61"
  by (auto simp: b64url_value_def word_le_nat_alt split: if_splits)

lemma thumbprint_chars:
  assumes "is_thumbprint s"
  shows "c_pipe \<notin> set s" "ascii s"
proof -
  have c: "c < 128" if "c \<in> set s" for c
  proof (rule ccontr)
    assume "\<not> c < 128"
    then obtain b where "b \<in> set (utf8_char c)" "128 \<le> unat b" using utf8_char_high [of c] by auto
    moreover have "set (utf8_char c) \<subseteq> set (utf8 s)" using utf8_char_set that by blast
    ultimately show False using assms b64url_value_ascii
      by (fastforce simp: is_thumbprint_def list_all_iff)
  qed
  then show a: "ascii s" by (simp add: ascii_def)
  have "b64url_value (of_nat c) \<noteq> None" if "c \<in> set s" for c
    using assms that by (auto simp: is_thumbprint_def utf8_ascii [OF a] list_all_iff)
  then have "124 \<in> set s \<Longrightarrow> b64url_value (of_nat 124) \<noteq> None" by blast
  then show "c_pipe \<notin> set s" by (auto simp: b64url_value_def)
qed

lemma field_of: "c_eq \<notin> set k \<Longrightarrow> split_once c_eq (k @ [c_eq] @ v) = Some (k, v)"
  by simp

lemma algorithm_simps:
  "algorithm (lit ''es256'') = Some (lit ''es256'')" "algorithm (lit ''label'') = None"
  "algorithm (lit ''start'') = None" "algorithm (lit ''end'') = None" "algorithm (lit ''seen'') = None"
  by (simp_all add: algorithm_def kb_lits)

lemma no_control: "list_ex is_control s \<longleftrightarrow> \<not> list_all (\<lambda>c. \<not> is_control c) s"
  by (auto simp: list_ex_iff list_all_iff)

lemma key_lits:
  "lit ''label='' = lit ''label'' @ [61]" "lit ''|start='' = [124] @ lit ''start'' @ [61]"
  "lit ''|end='' = [124] @ lit ''end'' @ [61]" "lit ''|seen='' = [124] @ lit ''seen'' @ [61]"
  "lit ''='' = [61]" "lit ''|'' = [124]"
  by (simp_all add: kb_lits)

lemma key_distinct:
  "lit ''start'' \<noteq> lit ''label''" "lit ''end'' \<noteq> lit ''label''" "lit ''seen'' \<noteq> lit ''label''"
  "lit ''end'' \<noteq> lit ''start''" "lit ''seen'' \<noteq> lit ''start''" "lit ''seen'' \<noteq> lit ''end''"
  "lit ''es256'' \<noteq> lit ''label''" "lit ''start'' \<noteq> lit ''es256''" "lit ''end'' \<noteq> lit ''es256''"
  "lit ''seen'' \<noteq> lit ''es256''"
  "61 \<notin> set (lit ''label'')" "61 \<notin> set (lit ''start'')" "61 \<notin> set (lit ''end'')"
  "61 \<notin> set (lit ''seen'')" "61 \<notin> set (lit ''es256'')"
  "124 \<notin> set (lit ''label'')" "124 \<notin> set (lit ''start'')" "124 \<notin> set (lit ''end'')"
  "124 \<notin> set (lit ''seen'')" "124 \<notin> set (lit ''es256'')"
  by (simp_all add: kb_lits)

lemma show_dec_no_pipe: "124 \<notin> set (show_dec n)"
  using show_dec_char is_ascii_digit_not_sign by blast

lemma epoch_show_dec: "n \<le> u64_max \<Longrightarrow> epoch (show_dec n) k = Inr n"
  by (simp add: epoch_def parse_unsigned_show_dec)

lemma encode_payload:
  assumes "wf_grant g"
  shows "\<exists>p. grant_encode g = GRANT_PREFIX @ p \<and> split_on c_pipe p =
    [lit ''label'' @ [61] @ escape_field (g_label g), lit ''es256'' @ [61] @ g_thumbprint g,
     lit ''start'' @ [61] @ show_dec (g_start g), lit ''end'' @ [61] @ show_dec (g_end g)]
    @ (case g_seen g of None \<Rightarrow> [] | Some s \<Rightarrow> [lit ''seen'' @ [61] @ show_dec s])"
proof -
  let ?fs = "[lit ''label'' @ [61] @ escape_field (g_label g), lit ''es256'' @ [61] @ g_thumbprint g,
     lit ''start'' @ [61] @ show_dec (g_start g), lit ''end'' @ [61] @ show_dec (g_end g)]
    @ (case g_seen g of None \<Rightarrow> [] | Some s \<Rightarrow> [lit ''seen'' @ [61] @ show_dec s])"
  have "grant_encode g = GRANT_PREFIX @ join_with [124] ?fs"
    using assms by (cases "g_seen g") (simp_all add: grant_encode_def wf_grant_def ALG_ES256_def key_lits)
  moreover have "split_on c_pipe (join_with [124] ?fs) = ?fs"
    using assms
    by (intro split_on_join)
       (auto simp: key_distinct escape_field_no_delimiter show_dec_no_pipe thumbprint_chars wf_grant_def
         split: option.splits)
  ultimately show ?thesis by blast
qed

lemma grant_decode_encode:
  assumes "wf_grant g"
  shows "grant_decode (grant_encode g) = Inr g"
proof -
  obtain p where p: "grant_encode g = GRANT_PREFIX @ p" "split_on c_pipe p =
    [lit ''label'' @ [61] @ escape_field (g_label g), lit ''es256'' @ [61] @ g_thumbprint g,
     lit ''start'' @ [61] @ show_dec (g_start g), lit ''end'' @ [61] @ show_dec (g_end g)]
    @ (case g_seen g of None \<Rightarrow> [] | Some s \<Rightarrow> [lit ''seen'' @ [61] @ show_dec s])"
    using encode_payload [OF assms] by blast
  show ?thesis
    using assms unfolding grant_decode_def p
    by (cases g; cases "g_seen g")
       (simp_all add: p(2) grant_acc0_def grant_field_def key_distinct algorithm_simps
         wf_grant_def unescape_escape no_control epoch_show_dec ALG_ES256_def Let_def)
qed

interpretation grant_codec: codec grant_encode grant_decode wf_grant
  by unfold_locales (rule grant_decode_encode)

text \<open>Conversely, whatever the decoder accepts has that form: the invariant of its loop.\<close>

definition acc_inv :: "grant_acc \<Rightarrow> bool" where
  "acc_inv a \<longleftrightarrow> (\<forall>l \<in> set_option (a_label a). list_all (\<lambda>c. \<not> is_control c) l)
     \<and> (\<forall>x \<in> set_option (a_alg a). fst x = ALG_ES256 \<and> is_thumbprint (snd x))
     \<and> (\<forall>n \<in> set_option (a_start a) \<union> set_option (a_end a) \<union> set_option (a_seen a). n \<le> u64_max)"

lemma epoch_bound: "epoch raw k = Inr n \<Longrightarrow> n \<le> u64_max"
  by (auto simp: epoch_def kb_results dest: parse_unsigned_bound)

lemma algorithm_Some: "algorithm k = Some a \<Longrightarrow> a = ALG_ES256 \<and> k = ALG_ES256"
  by (auto simp: algorithm_def ALGORITHMS_def split: if_splits)

lemma grant_field_inv:
  assumes "grant_field f a = Inr a'" "acc_inv a"
  shows "acc_inv a'"
proof -
  obtain key raw where k: "split_once c_eq f = Some (key, raw)" "key \<notin> set (a_keys a)"
    using assms(1) by (auto simp: grant_field_def split: option.splits if_splits)
  show ?thesis
  proof (cases "algorithm key")
    case None
    with assms k show ?thesis
      by (auto simp: grant_field_def Let_def kb_results acc_inv_def no_control
            dest: epoch_bound split: if_splits)
  next
    case (Some known)
    with assms k algorithm_Some [OF Some] show ?thesis
      by (auto simp: grant_field_def Let_def acc_inv_def split: if_splits)
  qed
qed

lemma grant_fields_inv: "grant_fields fs a = Inr a' \<Longrightarrow> acc_inv a \<Longrightarrow> acc_inv a'"
  by (induction fs arbitrary: a) (auto simp: kb_results dest: grant_field_inv)

lemma grant_decode_wf:
  assumes "grant_decode v = Inr g"
  shows "wf_grant g"
proof -
  obtain p a alg t s e where a: "grant_fields (split_on c_pipe p) grant_acc0 = Inr a"
    "a_alg a = Some (alg, t)" "a_start a = Some s" "a_end a = Some e"
    and g: "g = \<lparr>g_label = (case a_label a of None \<Rightarrow> [] | Some l \<Rightarrow> l), g_alg = alg,
            g_thumbprint = t, g_start = s, g_end = e, g_seen = a_seen a\<rparr>"
    using assms by (auto simp: grant_decode_def kb_results)
  have "acc_inv a" using a(1) by (rule grant_fields_inv) (simp add: acc_inv_def grant_acc0_def)
  with a(2-4) show ?thesis unfolding g by (auto simp: wf_grant_def acc_inv_def split: option.splits)
qed

section \<open>Labels and lengths\<close>

lemma utf8_len_escape: "utf8_len (escape_field s)
    = sum_list (map (\<lambda>c. if c = c_percent \<or> c = c_pipe then 3 else len_utf8 c) s)"
  by (induction s) (simp_all add: kb_lits)

lemma sanitize_label_loop_props:
  assumes "list_all (\<lambda>c. \<not> is_control c) out" "utf8_len (escape_field out) = n" "n \<le> MAX_LABEL"
  shows "list_all (\<lambda>c. \<not> is_control c) (sanitize_label_loop out n raw)
    \<and> utf8_len (escape_field (sanitize_label_loop out n raw)) \<le> MAX_LABEL"
  using assms
proof (induction raw arbitrary: out n)
  case (Cons c cs)
  have snoc: "utf8_len (escape_field (out @ [c]))
      = n + (if c = c_percent \<or> c = c_pipe then 3 else len_utf8 c)"
    using Cons.prems(2) by (simp add: utf8_len_escape)
  show ?case
    using Cons.prems Cons.IH [of "out @ [c]"] Cons.IH [of out] snoc
    by (simp add: Let_def)
qed simp

lemma sanitize_label_props:
  "list_all (\<lambda>c. \<not> is_control c) (sanitize_label raw)"
  "utf8_len (escape_field (sanitize_label raw)) \<le> MAX_LABEL"
  using sanitize_label_loop_props [of "[]" 0 raw] by (simp_all add: sanitize_label_def)

text \<open>A label that fits is only stripped of its control characters.\<close>

lemma sanitize_label_loop_fits:
  "n + utf8_len (escape_field (filter (\<lambda>c. \<not> is_control c) raw)) \<le> MAX_LABEL \<Longrightarrow>
     sanitize_label_loop out n raw = out @ filter (\<lambda>c. \<not> is_control c) raw"
proof (induction raw arbitrary: out n)
  case (Cons c cs)
  then show ?case by (cases "is_control c") (auto simp: Let_def utf8_len_escape simp del: escape_field.simps)
qed simp

lemma show_dec_u64: "n \<le> u64_max \<Longrightarrow> utf8_len (show_dec n) \<le> 20"
proof -
  assume "n \<le> u64_max"
  then have "n < 10 ^ 20" by (simp add: u64_max_def)
  then have "length (show_dec n) \<le> 20" by (rule length_show_dec) simp
  moreover have "ascii (show_dec n)"
    using show_dec_char is_ascii_digit_not_sign by (simp add: ascii_def)
  ultimately show ?thesis by (simp add: utf8_len_ascii)
qed

lemma lit_utf8_len:
  "utf8_len (lit ''kbkey1|'') = 7" "utf8_len (lit ''label='') = 6" "utf8_len (lit ''|'') = 1"
  "utf8_len (lit ''es256'') = 5" "utf8_len (lit ''='') = 1" "utf8_len (lit ''|start='') = 7"
  "utf8_len (lit ''|end='') = 5" "utf8_len (lit ''|seen='') = 6"
  by (simp_all add: kb_lits)

lemma grant_encode_length:
  assumes "wf_grant g" "utf8_len (escape_field (g_label g)) \<le> MAX_LABEL"
  shows "utf8_len (grant_encode g) \<le> 237"
proof -
  have t: "utf8_len (g_thumbprint g) = 43"
    using assms(1) by (simp add: wf_grant_def is_thumbprint_def THUMBPRINT_LEN_def)
  have "utf8_len (show_dec (g_start g)) \<le> 20" "utf8_len (show_dec (g_end g)) \<le> 20"
    using assms(1) show_dec_u64 by (simp_all add: wf_grant_def)
  moreover have "utf8_len (case g_seen g of None \<Rightarrow> [] | Some s \<Rightarrow> lit ''|seen='' @ show_dec s) \<le> 26"
  proof (cases "g_seen g")
    case (Some s)
    with assms(1) have "utf8_len (show_dec s) \<le> 20" by (intro show_dec_u64) (simp add: wf_grant_def)
    with Some show ?thesis by (simp add: lit_utf8_len)
  qed simp
  moreover have "g_alg g = lit ''es256''" using assms(1) by (simp add: wf_grant_def ALG_ES256_def)
  ultimately show ?thesis
    using assms(2) t by (simp add: grant_encode_def GRANT_PREFIX_def lit_utf8_len MAX_LABEL_def)
qed

section \<open>Handles\<close>

lemma unat_shift_or_sextet:
  fixes acc :: "64 word"
  assumes "v < 64" "unat acc * 64 + v < 2 ^ 64"
  shows "unat (push_bit 6 acc OR of_nat v) = unat acc * 64 + v"
proof -
  have "\<not> bit (push_bit 6 acc) n \<or> \<not> bit (of_nat v :: 64 word) n" for n
  proof (cases "n < 6")
    case False
    have "\<not> bit v n"
    proof -
      have "v < 2 ^ n" using assms(1) False power_increasing [of 6 n "2 :: nat"] by simp
      then show ?thesis by (simp add: bit_iff_odd)
    qed
    then show ?thesis by (simp add: bit_of_nat_iff)
  qed (simp add: bit_push_bit_iff)
  then have "push_bit 6 acc OR of_nat v = push_bit 6 acc + of_nat v" by (rule disjunctive_add [symmetric])
  also have "\<dots> = of_nat (unat acc * 64 + v)" by (simp add: push_bit_eq_mult)
  finally have "unat (push_bit 6 acc OR of_nat v :: 64 word) = (unat acc * 64 + v) mod 2 ^ 64"
    by (simp only: unat_of_nat) simp
  then show ?thesis using assms(2) by (simp only: mod_less)
qed

lemma sextets_value:
  assumes "list_all (\<lambda>c. b64url_value c \<noteq> None) cs" "(unat acc + 1) * 64 ^ length cs \<le> 2 ^ 64"
  shows "\<exists>r. sextets acc cs = Some r
    \<and> unat r = foldl (\<lambda>a c. a * 64 + the (b64url_value c)) (unat acc) cs"
  using assms
proof (induction cs arbitrary: acc)
  case (Cons c cs)
  then obtain v where v: "b64url_value c = Some v" by auto
  have v64: "v < 64" using v by (rule b64url_value_bound)
  have "(unat acc * 64 + v + 1) * 64 ^ length cs \<le> ((unat acc + 1) * 64) * 64 ^ length cs"
    using v64 by (intro mult_right_mono) simp_all
  then have le: "(unat acc * 64 + v + 1) * 64 ^ length cs \<le> (unat acc + 1) * 64 ^ length (c # cs)"
    by (simp only: length_Cons power_Suc mult.assoc)
  have step: "unat (push_bit 6 acc OR of_nat v :: 64 word) = unat acc * 64 + v"
  proof (rule unat_shift_or_sextet [OF v64])
    have "(unat acc * 64 + v + 1) * 1 \<le> (unat acc * 64 + v + 1) * 64 ^ length cs"
      by (rule mult_le_mono2) simp
    from le_trans [OF this le_trans [OF le Cons.prems(2)]]
    show "unat acc * 64 + v < 2 ^ 64" by simp
  qed
  have "(unat (push_bit 6 acc OR of_nat v :: 64 word) + 1) * 64 ^ length cs \<le> 2 ^ 64"
    unfolding step using le Cons.prems(2) by (rule le_trans)
  with Cons.IH [of "push_bit 6 acc OR of_nat v"] Cons.prems(1) v show ?case by (simp add: step)
qed simp

text \<open>The sextets of a digest, as any base64url encoder writes its first six characters.\<close>

definition digest_sextets :: "byte list \<Rightarrow> nat list" where
  "digest_sextets d =
     (let b = (\<lambda>i. unat (d ! i)) in
      [b 0 div 4, b 0 mod 4 * 16 + b 1 div 16, b 1 mod 16 * 4 + b 2 div 64, b 2 mod 64,
       b 3 div 4, b 3 mod 4 * 16 + b 4 div 16])"

definition hex_byte :: "byte \<Rightarrow> str" where
  "hex_byte b = [hex_digit (unat b div 16), hex_digit (unat b mod 16)]"

lemma nat_chunks:
  fixes a b c d :: nat
  assumes "b < 256" "c < 256" "d < 256"
  defines "w \<equiv> a * 16777216 + b * 65536 + c * 256 + d"
  shows "w div 16777216 = a" "w div 65536 mod 256 = b" "w div 256 mod 256 = c" "w mod 256 = d"
proof -
  have dm: "(256 * q + r) div 256 = q" "(256 * q + r) mod 256 = r" if "r < 256" for q r :: nat
    using that by simp_all
  have w1: "w = 256 * (a * 65536 + b * 256 + c) + d" by (simp add: w_def)
  show "w mod 256 = d" unfolding w1 by (rule dm(2)) (rule assms(3))
  have "w div 256 = a * 65536 + b * 256 + c" unfolding w1 by (rule dm(1)) (rule assms(3))
  then have w2: "w div 256 = 256 * (a * 256 + b) + c" by simp
  show "w div 256 mod 256 = c" unfolding w2 by (rule dm(2)) (rule assms(2))
  have "w div 65536 = w div 256 div 256" by (simp add: div_mult2_eq [symmetric])
  also have "\<dots> = a * 256 + b" unfolding w2 by (rule dm(1)) (rule assms(2))
  finally have w3: "w div 65536 = 256 * a + b" by simp
  show "w div 65536 mod 256 = b" unfolding w3 by (rule dm(2)) (rule assms(1))
  have "w div 16777216 = w div 65536 div 256" by (simp add: div_mult2_eq [symmetric])
  also have "\<dots> = a" unfolding w3 by (rule dm(1)) (rule assms(1))
  finally show "w div 16777216 = a" .
qed

lemma nibbles:
  "(n :: nat) div 268435456 = n div 16777216 div 16"
  "n div 1048576 mod 16 = n div 65536 mod 256 div 16"
  "n div 65536 mod 16 = n div 65536 mod 256 mod 16"
  "n div 4096 mod 16 = n div 256 mod 256 div 16"
  "n div 256 mod 16 = n div 256 mod 256 mod 16"
  "n div 16 mod 16 = n mod 256 div 16"
  "n mod 16 = n mod 256 mod 16"
proof -
  have dm: "m div 16 mod 16 = m mod 256 div 16" for m :: nat
    using mod_mult2_eq [of m 16 16] by simp
  have mm: "m mod 16 = m mod 256 mod 16" for m :: nat by (simp add: mod_mod_cancel)
  show "n div 268435456 = n div 16777216 div 16" by (simp add: div_mult2_eq [symmetric])
  have "n div 1048576 = n div 65536 div 16" by (simp add: div_mult2_eq [symmetric])
  then show "n div 1048576 mod 16 = n div 65536 mod 256 div 16" by (simp only: dm)
  show "n div 65536 mod 16 = n div 65536 mod 256 mod 16" by (rule mm)
  have "n div 4096 = n div 256 div 16" by (simp add: div_mult2_eq [symmetric])
  then show "n div 4096 mod 16 = n div 256 mod 256 div 16" by (simp only: dm)
  show "n div 256 mod 16 = n div 256 mod 256 mod 16" by (rule mm)
  show "n div 16 mod 16 = n mod 256 div 16" by (rule dm)
  show "n mod 16 = n mod 256 mod 16" by (rule mm)
qed

lemma hex08_bytes:
  assumes "unat w = unat a * 16777216 + unat b * 65536 + unat c * 256 + unat d"
  shows "hex08 w = hex_byte a @ hex_byte b @ hex_byte c @ hex_byte (d :: byte)"
proof -
  note ch = nat_chunks [OF unat_byte_lt [of b] unat_byte_lt [of c] unat_byte_lt [of d], of "unat a",
      folded assms]
  have a: "unat a div 16 mod 16 = unat a div 16" using unat_byte_lt [of a] by simp
  define n where "n = unat w"
  note ch = ch [folded n_def]
  have e: "n div 268435456 mod 16 = unat a div 16" "n div 16777216 mod 16 = unat a mod 16"
    "n div 1048576 mod 16 = unat b div 16" "n div 65536 mod 16 = unat b mod 16"
    "n div 4096 mod 16 = unat c div 16" "n div 256 mod 16 = unat c mod 16"
    "n div 16 mod 16 = unat d div 16" "n mod 16 = unat d mod 16"
    by (simp only: nibbles(1) ch(1) a) (simp only: ch(1), subst nibbles, simp only: ch,
      subst nibbles, simp only: ch, subst nibbles, simp only: ch, subst nibbles, simp only: ch,
      subst nibbles, simp only: ch, subst nibbles, simp only: ch)
  show ?thesis
    unfolding hex08_def hex_byte_def n_def [symmetric] by (simp add: e)
qed

lemma sextet_sum:
  fixes A :: nat
  assumes "qa * 4 + ma = A" "qb * 16 + mb = B" "qc * 64 + mc = C" "qe * 4 + me = E"
  shows "foldl (\<lambda>a v. a * 64 + v) 0 [qa, ma * 16 + qb, mb * 4 + qc, mc, qe, me * 16 + qf]
    = (A * 16777216 + B * 65536 + C * 256 + E) * 16 + qf"
  unfolding assms [symmetric] by simp

lemma four_bytes_bound:
  "a < 256 \<Longrightarrow> b < 256 \<Longrightarrow> c < 256 \<Longrightarrow> e < 256 \<Longrightarrow>
     a * 16777216 + b * 65536 + c * 256 + e < (2 :: nat) ^ 32"
  by simp

lemma unat_top_32:
  fixes r :: "64 word"
  assumes "q < 16" "v < 2 ^ 32" "unat r = v * 16 + q"
  shows "unat (ucast (drop_bit 4 r) :: 32 word) = v"
proof -
  have "(v * 16 + q) div 2 ^ 4 = v" using assms(1) by simp
  moreover have "unat (drop_bit 4 r) = unat r div 2 ^ 4"
    by (rule trans [OF unat_drop_bit_eq drop_bit_eq_div])
  ultimately have "unat (drop_bit 4 r) = v" by (simp only: assms(3))
  with assms(2) show ?thesis by (simp add: unsigned_ucast_eq take_bit_nat_eq_self)
qed

lemma defined_if_map_Some: "map f xs = map Some ys \<Longrightarrow> list_all (\<lambda>x. f x \<noteq> None) xs"
  by (induction xs arbitrary: ys) auto

lemma foldl_the_Some:
  "map f xs = map Some ys \<Longrightarrow> foldl (\<lambda>a c. a * 64 + the (f c)) z xs = foldl (\<lambda>a v. a * (64 :: nat) + v) z ys"
  by (induction xs arbitrary: z ys) auto

lemma five_or_more:
  assumes "5 \<le> length d"
  obtains a b c e f ds where "d = a # b # c # e # f # ds"
proof -
  have "Suc (Suc (Suc (Suc (Suc 0)))) \<le> length d" using assms by simp
  then show ?thesis using that unfolding Suc_le_length_iff by blast
qed

lemma short_id_of_digest:
  assumes "ascii s" "length s \<ge> 6" "length d \<ge> 5"
    and "map (b64url_value \<circ> of_nat) (take 6 s) = map Some (digest_sextets d)"
  shows "short_id s = Some (concat (map hex_byte (take 4 d)))"
proof -
  let ?cs = "take 6 (map of_nat s) :: byte list"
  have m: "map b64url_value ?cs = map Some (digest_sextets d)"
    using assms(4) by (simp add: take_map)
  then have all: "list_all (\<lambda>c. b64url_value c \<noteq> None) ?cs"
    by (rule defined_if_map_Some)
  have l: "length ?cs = 6" using assms(2) by simp
  obtain r where r: "sextets 0 ?cs = Some r" "unat r = foldl (\<lambda>a v. a * 64 + v) 0 (digest_sextets d)"
    using sextets_value [OF all, of 0] unfolding l foldl_the_Some [OF m] by auto
  obtain a b c e f ds where d: "d = a # b # c # e # f # ds"
    using assms(3) by (rule five_or_more)
  define v where "v = unat a * 16777216 + unat b * 65536 + unat c * 256 + unat e"
  have "digest_sextets d = [unat a div 4, unat a mod 4 * 16 + unat b div 16,
      unat b mod 16 * 4 + unat c div 64, unat c mod 64, unat e div 4, unat e mod 4 * 16 + unat f div 16]"
    unfolding digest_sextets_def d Let_def by simp
  then have rv: "unat r = v * 16 + unat f div 16"
    using r(2) sextet_sum [OF div_mult_mod_eq div_mult_mod_eq div_mult_mod_eq div_mult_mod_eq]
    unfolding v_def by (simp only:)
  have "unat f div 16 < 16" using unat_byte_lt [of f] by (simp add: less_mult_imp_div_less)
  moreover have "v < 2 ^ 32"
    unfolding v_def using unat_byte_lt [of a] unat_byte_lt [of b] unat_byte_lt [of c] unat_byte_lt [of e]
    by (rule four_bytes_bound)
  ultimately have "unat (ucast (drop_bit 4 r) :: 32 word) = v"
    using rv by (intro unat_top_32)
  then have "hex08 (ucast (drop_bit 4 r)) = hex_byte a @ hex_byte b @ hex_byte c @ hex_byte e"
    unfolding v_def by (rule hex08_bytes)
  with r(1) assms(1,2) show ?thesis
    by (simp add: short_id_def utf8_ascii d Let_def)
qed

lemma short_id_total:
  assumes "is_thumbprint s"
  shows "\<exists>w. short_id s = Some (hex08 w)"
proof -
  have l: "length (utf8 s) = 43" using assms by (simp add: is_thumbprint_def THUMBPRINT_LEN_def length_utf8)
  have "list_all (\<lambda>c. b64url_value c \<noteq> None) (take 6 (utf8 s))"
    using assms by (auto simp: is_thumbprint_def list_all_iff dest: in_set_takeD)
  from sextets_value [OF this, of 0] l obtain r where "sextets 0 (take 6 (utf8 s)) = Some r" by auto
  with l show ?thesis by (auto simp: short_id_def Let_def)
qed

lemma hex_digit_shape: "v < 16 \<Longrightarrow> is_ascii_hexdigit (hex_digit v)"
  by (auto simp: hex_digit_def is_ascii_hexdigit_def is_ascii_digit_def)

lemma hex08_shape: "length (hex08 w) = 8 \<and> list_all is_ascii_hexdigit (hex08 w)"
  unfolding hex08_def list_all_iff by (auto intro: hex_digit_shape simp del: div_exp_mod_exp_eq)

section \<open>Properties\<close>

text \<open>A thumbprint and a grant with a hostile label, for the witnesses.\<close>

definition sample_thumbprint :: str where
  "sample_thumbprint = lit ''3q2-7wAAAAAAAAAAAAAAAAAAAAAAAAAAAAAAAAAAAAA''"

definition sample_grant :: device_grant where
  "sample_grant = \<lparr>g_label = lit ''a|end=99|%'', g_alg = ALG_ES256, g_thumbprint = sample_thumbprint,
     g_start = 1000, g_end = 2593000, g_seen = Some 1500\<rparr>"

lemma sample_thumbprint_ok: "is_thumbprint sample_thumbprint"
proof -
  have a: "ascii sample_thumbprint" by (simp add: sample_thumbprint_def kb_lits)
  have "b64url_value 51 = Some 55" "b64url_value 113 = Some 42" "b64url_value 50 = Some 54"
    "b64url_value 45 = Some 62" "b64url_value 55 = Some 59" "b64url_value 119 = Some 48"
    "b64url_value 65 = Some 0"
    by (simp_all add: b64url_value_def)
  then show ?thesis
    unfolding is_thumbprint_def utf8_len_ascii [OF a] utf8_ascii [OF a]
    by (simp add: sample_thumbprint_def kb_lits)
qed

lemma sample_grant_wf: "wf_grant sample_grant"
  by (simp add: wf_grant_def sample_grant_def sample_thumbprint_ok u64_max_def kb_lits is_control_def)

text \<open>C38 (KB_Grant.grant_roundtrip): a stored device grant decodes to exactly the grant that was
  written, whatever characters its client-chosen label holds: a label cannot forge a field.
  Conversely every value the decoder accepts is such a grant.\<close>

theorem grant_roundtrip:
  "(wf_grant g \<longrightarrow> grant_decode (grant_encode g) = Inr g) \<and> (grant_decode v = Inr h \<longrightarrow> wf_grant h)"
  using grant_decode_encode grant_decode_wf by blast

theorem grant_roundtrip_witness:
  "grant_decode (grant_encode sample_grant) = Inr sample_grant"
  using grant_roundtrip [of sample_grant] sample_grant_wf by blast

text \<open>Fact (KB_Grant.grant_fits_attribute): whatever label a client supplies, the grant that
  \<open>issuerd\<close> builds from its sanitized form is stored in at most 237 of the 255 bytes the
  directory attribute allows, and the label that is stored has no control character.\<close>

theorem grant_fits_attribute:
  assumes "is_thumbprint t" "s \<le> u64_max" "e \<le> u64_max" "seen = None \<or> (\<exists>x \<le> u64_max. seen = Some x)"
  shows "utf8_len (grant_encode \<lparr>g_label = sanitize_label raw, g_alg = ALG_ES256, g_thumbprint = t,
      g_start = s, g_end = e, g_seen = seen\<rparr>) \<le> 237
    \<and> list_all (\<lambda>c. \<not> is_control c) (sanitize_label raw)"
proof -
  let ?g = "\<lparr>g_label = sanitize_label raw, g_alg = ALG_ES256, g_thumbprint = t,
      g_start = s, g_end = e, g_seen = seen\<rparr>"
  have "wf_grant ?g" using assms sanitize_label_props(1) by (auto simp: wf_grant_def)
  then have "utf8_len (grant_encode ?g) \<le> 237"
    by (rule grant_encode_length) (simp add: sanitize_label_props(2))
  then show ?thesis using sanitize_label_props(1) by blast
qed

theorem grant_fits_attribute_witness:
  "utf8_len (grant_encode \<lparr>g_label = sanitize_label [27, 124, 128512], g_alg = ALG_ES256,
      g_thumbprint = sample_thumbprint, g_start = 1000, g_end = 2593000, g_seen = None\<rparr>) \<le> 237"
  by (rule grant_fits_attribute [THEN conjunct1]) (simp_all add: sample_thumbprint_ok u64_max_def)

text \<open>Fact (KB_Grant.grant_window): a grant is valid only strictly before the stamped end and
  strictly before its start plus the configured number of days; lowering that number never makes
  a grant valid, raising it never extends one beyond its stamped end, and zero days stops every
  grant that has started.\<close>

theorem grant_window:
  assumes "g_end g \<le> u64_max"
  shows "(valid_at g now days \<longleftrightarrow> now < g_end g \<and> now < g_start g + days * 86400)
    \<and> (\<forall>days'. days' \<le> days \<longrightarrow> valid_at g now days' \<longrightarrow> valid_at g now days)
    \<and> (g_start g \<le> now \<longrightarrow> \<not> valid_at g now 0)
    \<and> (clamped g days \<longleftrightarrow> g_start g + days * 86400 < g_end g)"
proof -
  have v: "valid_at g now d \<longleftrightarrow> now < g_end g \<and> now < g_start g + d * 86400" for d
    using assms by (auto simp: valid_at_def effective_end_def sat_add_def)
  have "valid_at g now days" if "days' \<le> days" "valid_at g now days'" for days'
  proof -
    have "days' * 86400 \<le> days * 86400" using that(1) by simp
    then show ?thesis using that(2) unfolding v by linarith
  qed
  moreover have "clamped g days \<longleftrightarrow> g_start g + days * 86400 < g_end g"
    using assms by (auto simp: clamped_def effective_end_def sat_add_def)
  ultimately show ?thesis using v by auto
qed

theorem grant_window_witness: "valid_at sample_grant 87399 1 \<and> \<not> valid_at sample_grant 87400 1"
  using grant_window [of sample_grant 87399 1] grant_window [of sample_grant 87400 1]
  by (simp add: sample_grant_def u64_max_def)

text \<open>Fact (KB_Grant.short_id_names_digest): the operator's handle is the first four bytes of the
  digest in hexadecimal: for a text whose first six characters are the base64url sextets of a
  digest, the accumulating shifts of \<open>short_id\<close> yield exactly those eight digits. For every
  thumbprint the handle exists and has eight hexadecimal digits.\<close>

theorem short_id_names_digest:
  "(ascii s \<and> 6 \<le> length s \<and> 5 \<le> length d
     \<and> map (b64url_value \<circ> of_nat) (take 6 s) = map Some (digest_sextets d)
     \<longrightarrow> short_id s = Some (concat (map hex_byte (take 4 d))))
   \<and> (is_thumbprint t \<longrightarrow> (\<exists>h. short_id t = Some h \<and> length h = 8 \<and> list_all is_ascii_hexdigit h))"
  using short_id_of_digest short_id_total hex08_shape by blast

theorem short_id_names_digest_witness:
  "short_id (lit ''3q2-7wAA'') = Some (lit ''deadbeef'')"
proof -
  have s: "digest_sextets [222, 173, 190, 239, 0] = [55, 42, 54, 62, 59, 48]"
    by (simp add: digest_sextets_def)
  have b: "b64url_value 51 = Some 55" "b64url_value 113 = Some 42" "b64url_value 50 = Some 54"
    "b64url_value 45 = Some 62" "b64url_value 55 = Some 59" "b64url_value 119 = Some 48"
    by (simp_all add: b64url_value_def)
  have "short_id (lit ''3q2-7wAA'') = Some (concat (map hex_byte (take 4 [222, 173, 190, 239, 0])))"
    by (rule short_id_names_digest [THEN conjunct1, rule_format]) (simp add: s b kb_lits)
  then show ?thesis by (simp add: hex_byte_def hex_digit_def kb_lits)
qed

text \<open>Fact (KB_Grant.retention_age): a retirement or quarantine marker stamped at one time and read
  at another gives the number of whole days between; a clock that went back reads as zero.\<close>

theorem retention_age:
  assumes "t < 2 ^ 32"
  shows "retention_age_days (ST_RETIRED @ rfc3339 t) now = Some ((now - t) div 86400)
    \<and> retention_age_days (ST_QUAR @ rfc3339 t) now = Some ((now - t) div 86400)"
proof -
  have "epoch_from_rfc3339 (rfc3339 t) = Some t" using assms by (rule rfc3339_inverse)
  moreover have "\<not> starts_with (ST_QUAR @ x) ST_RETIRED" for x
    by (simp add: starts_with_def kb_lits)
  ultimately show ?thesis
    by (simp add: retention_age_days_def strip_prefix_def [of _ ST_RETIRED])
qed

theorem retention_age_witness:
  "retention_age_days (ST_RETIRED @ rfc3339 1784635200) 1784900000 = Some 3"
  using retention_age [of 1784635200 1784900000] by simp

end
