(* ===== verification/KB_Snapshot.thy ===== *)
theory KB_Snapshot
  imports KB_Sam
begin

text \<open>
  \<open>kerbridge-idp/src/sync/mod.rs\<close>: what an adapter reads out of its identity provider and the
  population the realm derives from it. \<open>BTreeMap\<close>s are association lists in key order. The
  \<open>while\<close> loop of \<open>build_desired\<close> is \<open>closure_loop\<close>, its \<open>todo\<close> vector a stack with the top first;
  it is a total function, by a lexicographic measure on the groups not yet selected and the
  length of the stack. The \<open>expect\<close> on a selected group is the value \<open>None\<close>.
\<close>

section \<open>Data\<close>

type_synonym subject = str

record desired_user =
  du_display_name :: str
  du_candidates :: "str list"
  du_enabled :: bool

record desired_group =
  dg_display_name :: str

record desired =
  d_users :: "(subject \<times> desired_user) list"
  d_groups :: "(subject \<times> desired_group) list"
  d_membership :: "(subject \<times> subject list) list"

datatype membership = MUser subject | MGroup subject

record refusal =
  rf_who :: str
  rf_why :: str

record enumeration =
  en_users :: "(subject \<times> desired_user) list"
  en_groups :: "(subject \<times> desired_group) list"
  en_membership :: "(subject \<times> membership list) list"
  en_refused :: "(subject \<times> refusal) list"

record source_snapshot =
  ss_desired :: desired
  ss_admission :: subject
  ss_grant :: "subject option"
  ss_refused :: "str list"

record roots =
  ro_admission :: subject
  ro_grant :: "subject option"
  ro_extra :: "subject list"

datatype source_error =
    Credential str
  | CredentialRejected str
  | Unreachable str
  | NotWhole str

fun counts_as_failure :: "source_error \<Rightarrow> bool" where
  "counts_as_failure (CredentialRejected _) = False"
| "counts_as_failure _ = True"

datatype credential = Ready str | MissingCredential

definition credential_or_idle :: "str + str option \<Rightarrow> source_error + credential" where
  "credential_or_idle read =
     (case read of
        Inr (Some secret) \<Rightarrow> Inr (Ready secret)
      | Inr None \<Rightarrow> Inr MissingCredential
      | Inl e \<Rightarrow> Inl (Credential (lit ''credential unreadable: '' @ e)))"

section \<open>Name candidates\<close>

definition CANDIDATE_CHARS :: nat where [kb_lits]: "CANDIDATE_CHARS = 20"

definition name_candidate :: "unicode \<Rightarrow> str \<Rightarrow> str option" where
  "name_candidate u s =
     (let sanitized = sanitize u (nfc u s) CANDIDATE_CHARS MAX_BYTES
      in if sanitized \<noteq> FALLBACK then Some sanitized else None)"

definition candidate_deserialize :: "unicode \<Rightarrow> str \<Rightarrow> str option" where
  "candidate_deserialize u raw =
     (case name_candidate u raw of None \<Rightarrow> None | Some c \<Rightarrow> if c = raw then Some c else None)"

fun split_whitespace_loop :: "str \<Rightarrow> str \<Rightarrow> str list" where
  "split_whitespace_loop word [] = (if word = [] then [] else [word])"
| "split_whitespace_loop word (c # cs) =
     (if is_whitespace c
      then (if word = [] then split_whitespace_loop [] cs else word # split_whitespace_loop [] cs)
      else split_whitespace_loop (word @ [c]) cs)"

definition dotted :: "str \<Rightarrow> str" where
  "dotted display_name = join_with (lit ''.'') (split_whitespace_loop [] display_name)"

definition local_part :: "str \<Rightarrow> str" where
  "local_part address = hd (split_on c_at address)"

section \<open>The desired state\<close>

definition edges_of :: "(subject \<times> membership list) list \<Rightarrow> subject \<Rightarrow> membership list" where
  "edges_of edges gid = (case map_of edges gid of None \<Rightarrow> [] | Some ms \<Rightarrow> ms)"

fun group_of :: "membership \<Rightarrow> subject option" where
  "group_of (MGroup s) = Some s"
| "group_of (MUser s) = None"

definition group_edges :: "(subject \<times> membership list) list \<Rightarrow> subject \<Rightarrow> subject list" where
  "group_edges edges gid = List.map_filter group_of (edges_of edges gid)"

function closure_loop ::
  "(subject \<times> desired_group) list \<Rightarrow> (subject \<times> membership list) list \<Rightarrow> subject list \<Rightarrow> subject list
     \<Rightarrow> subject list" where
  "closure_loop all_groups edges [] selected = selected"
| "closure_loop all_groups edges (gid # todo) selected =
     (if gid \<in> set selected \<or> map_of all_groups gid = None
      then closure_loop all_groups edges todo selected
      else closure_loop all_groups edges (rev (group_edges edges gid) @ todo) (gid # selected))"
  by pat_completeness auto

termination
proof (relation "measures [\<lambda>(g, e, t, s). card (fst ` set g - set s), \<lambda>(g, e, t, s). length t]")
  fix g :: "(subject \<times> desired_group) list" and e :: "(subject \<times> membership list) list"
    and gid :: subject and todo selected :: "subject list"
  assume new: "\<not> (gid \<in> set selected \<or> map_of g gid = None)"
  then have "gid \<in> fst ` set g - set selected" by (simp add: map_of_eq_None_iff)
  moreover have "fst ` set g - set (gid # selected) = (fst ` set g - set selected) - {gid}" by auto
  ultimately have "card (fst ` set g - set (gid # selected)) < card (fst ` set g - set selected)"
    by (metis card_Diff1_less finite_Diff finite_imageI finite_set)
  then show "((g, e, rev (group_edges e gid) @ todo, gid # selected), (g, e, gid # todo, selected))
      \<in> measures [\<lambda>(g, e, t, s). card (fst ` set g - set s), \<lambda>(g, e, t, s). length t]" by simp
qed simp_all

definition closure ::
  "(subject \<times> desired_group) list \<Rightarrow> (subject \<times> membership list) list \<Rightarrow> subject \<Rightarrow> subject list
     \<Rightarrow> subject list" where
  "closure all_groups edges admission allowlist =
     closure_loop all_groups edges (rev (admission # allowlist)) []"

text \<open>One selected group: the members it mirrors, the users it holds and the refusals it reports.\<close>

fun mirror_members ::
  "(subject \<times> desired_user) list \<Rightarrow> (subject \<times> refusal) list \<Rightarrow> subject list \<Rightarrow> membership list
     \<Rightarrow> subject list \<times> subject list \<times> str list" where
  "mirror_members accepted refusals selected [] = ([], [], [])"
| "mirror_members accepted refusals selected (m # ms) =
     (let (mm, held, refused) = mirror_members accepted refusals selected ms in
      case m of
        MUser sub \<Rightarrow>
          (if map_of accepted sub \<noteq> None then (sub # mm, sub # held, refused)
           else (case map_of refusals sub of
                   None \<Rightarrow> (mm, held, refused)
                 | Some r \<Rightarrow> (mm, held,
                     (lit ''user '' @ rf_who r @ lit '' is held by a selected group but gets no account: ''
                       @ rf_why r) # refused)))
      | MGroup sub \<Rightarrow> (if sub \<in> set selected then (sub # mm, held, refused) else (mm, held, refused)))"

definition build_desired ::
  "enumeration \<Rightarrow> subject \<Rightarrow> subject list \<Rightarrow> (desired \<times> str list) option" where
  "build_desired read admission allowlist =
     (let selected = closure (en_groups read) (en_membership read) admission allowlist;
          order = sort selected;
          mirrored = map (\<lambda>gid. mirror_members (en_users read) (en_refused read) selected
                       (edges_of (en_membership read) gid)) order;
          held = concat (map (fst \<circ> snd) mirrored);
          refused = concat (map (snd \<circ> snd) mirrored)
      in map_option (\<lambda>groups.
           (\<lparr>d_users = filter (\<lambda>(sub, _). sub \<in> set held) (en_users read), d_groups = groups,
             d_membership = zip order (map fst mirrored)\<rparr>, sort refused))
         (those (map (\<lambda>gid. map_option (Pair gid) (map_of (en_groups read) gid)) order)))"

definition Roots_new :: "subject \<Rightarrow> subject option \<Rightarrow> subject list \<Rightarrow> roots" where
  "Roots_new admission grant allowlist =
     \<lparr>ro_admission = admission, ro_grant = grant,
      ro_extra = allowlist @ (case grant of None \<Rightarrow> [] | Some g \<Rightarrow> [g])\<rparr>"

definition narrow :: "roots \<Rightarrow> enumeration \<Rightarrow> source_snapshot option" where
  "narrow r read =
     map_option (\<lambda>(desired, refused).
         \<lparr>ss_desired = desired, ss_admission = ro_admission r, ss_grant = ro_grant r, ss_refused = refused\<rparr>)
       (build_desired read (ro_admission r) (ro_extra r))"

section \<open>What the closure selects\<close>

text \<open>Reachability, independent of any order of expansion: a root the read has an object for,
  or a group the read has that a reachable group directly contains.\<close>

inductive reach ::
  "(subject \<times> desired_group) list \<Rightarrow> (subject \<times> membership list) list \<Rightarrow> subject set \<Rightarrow> subject \<Rightarrow> bool"
  for all_groups edges rts where
  root: "r \<in> rts \<Longrightarrow> map_of all_groups r \<noteq> None \<Longrightarrow> reach all_groups edges rts r"
| nested: "reach all_groups edges rts g \<Longrightarrow> MGroup s \<in> set (edges_of edges g) \<Longrightarrow>
     map_of all_groups s \<noteq> None \<Longrightarrow> reach all_groups edges rts s"

lemma set_group_edges: "s \<in> set (group_edges edges g) \<longleftrightarrow> MGroup s \<in> set (edges_of edges g)"
proof -
  have "s \<in> set (List.map_filter group_of ms) \<longleftrightarrow> MGroup s \<in> set ms" for ms
  proof (induction ms)
    case (Cons m ms)
    then show ?case by (cases m) (auto simp: List.map_filter_simps)
  qed (simp add: List.map_filter_simps)
  then show ?thesis by (simp add: group_edges_def)
qed

lemma closure_sound:
  assumes "\<And>g. g \<in> set todo \<Longrightarrow> map_of G g \<noteq> None \<Longrightarrow> reach G E R g" "\<And>g. g \<in> set selected \<Longrightarrow> reach G E R g"
    and "g \<in> set (closure_loop G E todo selected)"
  shows "reach G E R g"
  using assms
proof (induction G E todo selected rule: closure_loop.induct)
  case (2 G E gid todo selected)
  show ?case
  proof (cases "gid \<in> set selected \<or> map_of G gid = None")
    case True
    with 2 show ?thesis by simp
  next
    case False
    have gid: "reach G E R gid" using 2(3) [of gid] False by auto
    show ?thesis
    proof (rule 2(2) [OF False])
      show "g \<in> set (rev (group_edges E gid) @ todo) \<Longrightarrow> map_of G g \<noteq> None \<Longrightarrow> reach G E R g" for g
        using 2(3) [of g] reach.nested [OF gid] by (auto simp: set_group_edges)
      show "g \<in> set (gid # selected) \<Longrightarrow> reach G E R g" for g using 2(4) [of g] gid by auto
      show "g \<in> set (closure_loop G E (rev (group_edges E gid) @ todo) (gid # selected))"
        using 2(5) False by simp
    qed
  qed
qed simp

lemma closure_complete:
  assumes "\<And>g s. g \<in> set selected \<Longrightarrow> s \<in> set (group_edges E g) \<Longrightarrow> map_of G s \<noteq> None \<Longrightarrow>
      s \<in> set selected \<or> s \<in> set todo"
    and "C = set (closure_loop G E todo selected)"
  shows "set selected \<subseteq> C \<and> (\<forall>g \<in> set todo. map_of G g \<noteq> None \<longrightarrow> g \<in> C)
    \<and> (\<forall>g \<in> C. \<forall>s \<in> set (group_edges E g). map_of G s \<noteq> None \<longrightarrow> s \<in> C)"
  using assms
proof (induction G E todo selected rule: closure_loop.induct)
  case (2 G E gid todo selected)
  show ?case
  proof (cases "gid \<in> set selected \<or> map_of G gid = None")
    case True
    have "set selected \<subseteq> C \<and> (\<forall>g \<in> set todo. map_of G g \<noteq> None \<longrightarrow> g \<in> C)
      \<and> (\<forall>g \<in> C. \<forall>s \<in> set (group_edges E g). map_of G s \<noteq> None \<longrightarrow> s \<in> C)"
    proof (rule 2(1) [OF True])
      show "s \<in> set selected \<or> s \<in> set todo"
        if "g \<in> set selected" "s \<in> set (group_edges E g)" "map_of G s \<noteq> None" for g s
        using 2(3) [OF that] that(3) True by auto
    qed (use 2(4) True in simp)
    with True show ?thesis by auto
  next
    case False
    have "set (gid # selected) \<subseteq> C
      \<and> (\<forall>g \<in> set (rev (group_edges E gid) @ todo). map_of G g \<noteq> None \<longrightarrow> g \<in> C)
      \<and> (\<forall>g \<in> C. \<forall>s \<in> set (group_edges E g). map_of G s \<noteq> None \<longrightarrow> s \<in> C)"
      using 2(3) by (intro 2(2) [OF False]) (use 2(4) False in auto)
    then show ?thesis by auto
  qed
qed auto

lemma closure_loop_distinct:
  "distinct selected \<Longrightarrow> distinct (closure_loop G E todo selected)"
  by (induction G E todo selected rule: closure_loop.induct) auto

lemma set_closure: "g \<in> set (closure G E a al) \<longleftrightarrow> reach G E (insert a (set al)) g"
proof
  assume "g \<in> set (closure G E a al)"
  then show "reach G E (insert a (set al)) g"
    unfolding closure_def by (rule closure_sound [rotated 2]) (auto intro: reach.root)
next
  have c: "(\<forall>g \<in> set (rev (a # al)). map_of G g \<noteq> None \<longrightarrow> g \<in> set (closure G E a al))
      \<and> (\<forall>g \<in> set (closure G E a al). \<forall>s \<in> set (group_edges E g). map_of G s \<noteq> None \<longrightarrow>
           s \<in> set (closure G E a al))"
    using closure_complete [OF _ refl, of "[]" E G "rev (a # al)"] unfolding closure_def by auto
  assume "reach G E (insert a (set al)) g"
  then show "g \<in> set (closure G E a al)"
    by induction (use c in \<open>auto simp: set_group_edges\<close>)
qed

lemma closure_in_read: "g \<in> set (closure G E a al) \<Longrightarrow> map_of G g \<noteq> None"
  unfolding set_closure by (erule reach.cases) auto

section \<open>What the desired state holds\<close>

lemma mirror_members_spec:
  assumes "mirror_members acc ref sel ms = (mm, held, refused)"
  shows "set held = {s. MUser s \<in> set ms \<and> map_of acc s \<noteq> None}
    \<and> set mm = set held \<union> {s. MGroup s \<in> set ms \<and> s \<in> set sel}"
  using assms
proof (induction ms arbitrary: mm held refused)
  case (Cons m ms)
  obtain mm' held' refused' where "mirror_members acc ref sel ms = (mm', held', refused')"
    by (cases "mirror_members acc ref sel ms")
  with Cons show ?case by (cases m) (auto split: if_splits option.splits)
qed simp

lemma those_all: "(\<And>x. x \<in> set xs \<Longrightarrow> f x \<noteq> None) \<Longrightarrow> those (map f xs) = Some (map (the \<circ> f) xs)"
  by (induction xs) (auto split: option.splits)

lemma build_desired_eq:
  assumes "selected = closure (en_groups read) (en_membership read) adm al"
  shows "build_desired read adm al = Some
    (\<lparr>d_users = filter (\<lambda>(sub, _). sub \<in> set (concat (map (\<lambda>gid. fst (snd (mirror_members
          (en_users read) (en_refused read) selected (edges_of (en_membership read) gid)))) (sort selected))))
        (en_users read),
      d_groups = map (\<lambda>gid. (gid, the (map_of (en_groups read) gid))) (sort selected),
      d_membership = map (\<lambda>gid. (gid, fst (mirror_members (en_users read) (en_refused read) selected
          (edges_of (en_membership read) gid)))) (sort selected)\<rparr>,
     sort (concat (map (\<lambda>gid. snd (snd (mirror_members (en_users read) (en_refused read) selected
          (edges_of (en_membership read) gid)))) (sort selected))))"
proof -
  have "those (map (\<lambda>gid. map_option (Pair gid) (map_of (en_groups read) gid)) (sort selected))
      = Some (map (\<lambda>gid. (gid, the (map_of (en_groups read) gid))) (sort selected))"
    using closure_in_read assms
    by (subst those_all) (auto simp: option.map_sel)
  then show ?thesis
    unfolding build_desired_def Let_def assms [symmetric]
    by (simp add: comp_def zip_map2 zip_same_conv_map)
qed

section \<open>Properties\<close>

definition sample_read :: enumeration where
  "sample_read =
     \<lparr>en_users = [(lit ''u1'', \<lparr>du_display_name = lit ''Ann'', du_candidates = [], du_enabled = True\<rparr>),
        (lit ''u2'', \<lparr>du_display_name = lit ''Bob'', du_candidates = [], du_enabled = True\<rparr>)],
      en_groups = [(lit ''adm'', \<lparr>dg_display_name = lit ''Admitted''\<rparr>),
        (lit ''cyc'', \<lparr>dg_display_name = lit ''Cycle''\<rparr>), (lit ''out'', \<lparr>dg_display_name = lit ''Outside''\<rparr>)],
      en_membership = [(lit ''adm'', [MGroup (lit ''cyc''), MGroup (lit ''gone'')]),
        (lit ''cyc'', [MUser (lit ''u1''), MGroup (lit ''adm'')]), (lit ''out'', [MUser (lit ''u2'')])],
      en_refused = []\<rparr>"

text \<open>Fact (KB_Snapshot.build_desired_population): deriving the population from a read never panics and
  ends even where groups contain each other. The groups are exactly those reachable from the
  admission group and the configured roots through groups the read has; the users are exactly
  the accepted accounts such a group directly holds; and every member recorded for a group is
  itself one of those users or groups.\<close>

theorem build_desired_population:
  "\<exists>d refused. build_desired read adm allowlist = Some (d, refused)
    \<and> (\<forall>g. g \<in> fst ` set (d_groups d)
        \<longleftrightarrow> reach (en_groups read) (en_membership read) (insert adm (set allowlist)) g)
    \<and> (\<forall>s. s \<in> fst ` set (d_users d) \<longleftrightarrow> s \<in> fst ` set (en_users read)
        \<and> (\<exists>g. g \<in> fst ` set (d_groups d) \<and> MUser s \<in> set (edges_of (en_membership read) g)))
    \<and> (\<forall>g ms. (g, ms) \<in> set (d_membership d) \<longrightarrow> g \<in> fst ` set (d_groups d)
        \<and> set ms \<subseteq> fst ` set (d_users d) \<union> fst ` set (d_groups d))"
proof -
  let ?G = "en_groups read" and ?E = "en_membership read" and ?U = "en_users read"
  define sel where "sel = closure ?G ?E adm allowlist"
  let ?mir = "\<lambda>gid. mirror_members ?U (en_refused read) sel (edges_of ?E gid)"
  have held: "set (fst (snd (?mir g))) = {s. MUser s \<in> set (edges_of ?E g) \<and> s \<in> fst ` set ?U}"
    and mem: "set (fst (?mir g)) = set (fst (snd (?mir g))) \<union> {s. MGroup s \<in> set (edges_of ?E g) \<and> s \<in> set sel}" for g
    using mirror_members_spec [of ?U "en_refused read" sel "edges_of ?E g"]
    by (cases "?mir g"; auto simp: map_of_eq_None_iff)+
  obtain d refused where b: "build_desired read adm allowlist = Some (d, refused)"
    and d: "d_users d = filter (\<lambda>(sub, _). sub \<in> set (concat (map (\<lambda>g. fst (snd (?mir g))) (sort sel)))) ?U"
      "d_groups d = map (\<lambda>gid. (gid, the (map_of ?G gid))) (sort sel)"
      "d_membership d = map (\<lambda>gid. (gid, fst (?mir gid))) (sort sel)"
    by (rule that [OF build_desired_eq [OF sel_def]]) simp_all
  have groups: "fst ` set (d_groups d) = set sel" unfolding d(2) by force
  have users: "s \<in> fst ` set (d_users d) \<longleftrightarrow> s \<in> fst ` set ?U \<and> (\<exists>g \<in> set sel. s \<in> set (fst (snd (?mir g))))" for s
    unfolding d(1) by force
  have "g \<in> set sel \<longleftrightarrow> reach ?G ?E (insert adm (set allowlist)) g" for g
    unfolding sel_def by (rule set_closure)
  moreover have "s \<in> fst ` set (d_users d) \<longleftrightarrow> s \<in> fst ` set ?U \<and> (\<exists>g. g \<in> set sel \<and> MUser s \<in> set (edges_of ?E g))" for s
    unfolding users held by blast
  moreover have "g \<in> set sel \<and> set ms \<subseteq> fst ` set (d_users d) \<union> set sel" if "(g, ms) \<in> set (d_membership d)" for g ms
  proof -
    have g: "g \<in> set sel" "ms = fst (?mir g)" using that unfolding d(3) by auto
    have "s \<in> fst ` set (d_users d)" if "s \<in> set (fst (snd (?mir g)))" for s
      using that g(1) unfolding users by (auto simp: held)
    then show ?thesis using g mem [of g] by auto
  qed
  ultimately show ?thesis unfolding groups [symmetric] using b groups by blast
qed

theorem build_desired_population_witness:
  "\<exists>d refused. build_desired sample_read (lit ''adm'') [] = Some (d, refused)
     \<and> lit ''cyc'' \<in> fst ` set (d_groups d) \<and> lit ''u1'' \<in> fst ` set (d_users d)"
proof -
  have a: "reach (en_groups sample_read) (en_membership sample_read) (insert (lit ''adm'') (set [])) (lit ''adm'')"
    by (rule reach.root) (simp_all add: sample_read_def)
  have adm: "edges_of (en_membership sample_read) (lit ''adm'') = [MGroup (lit ''cyc''), MGroup (lit ''gone'')]"
    by (simp add: sample_read_def edges_of_def)
  have cyc: "edges_of (en_membership sample_read) (lit ''cyc'') = [MUser (lit ''u1''), MGroup (lit ''adm'')]"
    by (simp add: sample_read_def edges_of_def kb_lits)
  have c: "reach (en_groups sample_read) (en_membership sample_read) (insert (lit ''adm'') (set [])) (lit ''cyc'')"
    by (rule reach.nested [OF a]) (simp add: adm, simp add: sample_read_def kb_lits)
  have e: "MUser (lit ''u1'') \<in> set (edges_of (en_membership sample_read) (lit ''cyc''))"
    "lit ''u1'' \<in> fst ` set (en_users sample_read)"
    by (simp add: cyc) (simp add: sample_read_def)
  show ?thesis
  proof (rule exE [OF build_desired_population [of sample_read "lit ''adm''" "[]"]], elim exE conjE)
    fix d refused
    assume b: "build_desired sample_read (lit ''adm'') [] = Some (d, refused)"
      and g: "\<forall>g. g \<in> fst ` set (d_groups d)
        \<longleftrightarrow> reach (en_groups sample_read) (en_membership sample_read) (insert (lit ''adm'') (set [])) g"
      and u: "\<forall>s. s \<in> fst ` set (d_users d) \<longleftrightarrow> s \<in> fst ` set (en_users sample_read)
        \<and> (\<exists>g. g \<in> fst ` set (d_groups d) \<and> MUser s \<in> set (edges_of (en_membership sample_read) g))"
    note gc = g [THEN spec, THEN iffD2, OF c]
    have "\<exists>g. g \<in> fst ` set (d_groups d) \<and> MUser (lit ''u1'') \<in> set (edges_of (en_membership sample_read) g)"
      by (rule exI [of _ "lit ''cyc''"], rule conjI [OF gc e(1)])
    note uu = u [THEN spec, THEN iffD2, OF conjI [OF e(2) this]]
    show ?thesis by (rule exI [of _ d], rule exI [of _ refused], rule conjI [OF b conjI [OF gc uu]])
  qed
qed

text \<open>Composition of Hangul syllables, the algorithmic part of NFC.\<close>

fun compose_hangul :: "str \<Rightarrow> str" where
  "compose_hangul (l # v # cs) =
     (if 0x1100 \<le> l \<and> l < 0x1113 \<and> 0x1161 \<le> v \<and> v < 0x1176
      then (0xAC00 + ((l - 0x1100) * 21 + (v - 0x1161)) * 28) # compose_hangul cs
      else l # compose_hangul (v # cs))"
| "compose_hangul cs = cs"

definition hangul_tables :: unicode where
  "hangul_tables = block_tables\<lparr>is_alphanumeric := (\<lambda>c. is_alphanumeric block_tables c
     \<or> (0x1100 \<le> c \<and> c \<le> 0x11FF) \<or> (0xAC00 \<le> c \<and> c \<le> 0xD7A3)), nfc := compose_hangul\<rparr>"

text \<open>A divergence: a name candidate need not be one when it is read back.
  Normalization runs before the illegal characters are dropped, so a character dropped from
  between two that compose leaves a name that is not normalized, and deserializing it is
  refused.\<close>

theorem name_candidate_not_stable:
  "name_candidate hangul_tables [0x1100, 0x21, 0x1161] = Some [0x1100, 0x1161]
   \<and> name_candidate hangul_tables [0x1100, 0x1161] = Some [0xAC00]
   \<and> candidate_deserialize hangul_tables [0x1100, 0x1161] = None"
  by (simp add: candidate_deserialize_def name_candidate_def hangul_tables_def block_tables_def sanitize_def
      allowed_def block_char_lower_def block_upper_def block_lower_def is_ascii_digit_def len_utf8_def
      trim_end_by_def trim_start_by_def kb_lits)

end
