(* ===== verification/KB_Names.thy ===== *)
theory KB_Names
  imports KB_Snapshot KB_Grant KB_Dn
begin

text \<open>
  \<open>kerbridge-sync/src/planner/names.rs\<close>: every name the planner writes. The hash sets of taken
  account-name keys and taken DNs are threaded as sets; a refused allocation carries the
  collision the operator is shown.
\<close>

section \<open>Operations\<close>

datatype collision = UserCollision str str | GroupCollision str str

definition oid4 :: "str \<Rightarrow> str" where
  "oid4 oid = take 4 oid"

definition sanitize_sam :: "unicode \<Rightarrow> str \<Rightarrow> nat \<Rightarrow> str" where
  "sanitize_sam u local maxlen = sanitize u (nfc u local) maxlen MAX_BYTES"

definition NAME_RESERVED :: "uchar list" where
  "NAME_RESERVED = [44, 43, 34, 92, 60, 62, 59, 61, 47, 91, 93, 58, 124, 42, 63]"

definition safe_name :: "str \<Rightarrow> str option" where
  "safe_name value =
     (let replaced = map (\<lambda>c. if is_control c \<or> c \<in> set NAME_RESERVED then c_space else c) value;
          trimmed = trim (trim_start_by (\<lambda>c. c = c_hash) (trim replaced))
      in if trimmed = [] then None else Some trimmed)"

definition cn_dn :: "str \<Rightarrow> str \<Rightarrow> str" where
  "cn_dn cn parent = lit ''CN='' @ cn @ [c_comma] @ parent"

definition retired_names ::
  "unicode \<Rightarrow> str \<Rightarrow> str \<Rightarrow> str \<Rightarrow> str \<Rightarrow> str set \<Rightarrow> str set \<Rightarrow> (str \<times> str) \<times> str set \<times> str set" where
  "retired_names u dn sam label oid sam_keys taken_dns =
     (let new_sam = RETIRED_PREFIX @ sanitize_sam u sam 11;
          new_sam = (if fold u new_sam \<in> sam_keys
                     then RETIRED_PREFIX @ sanitize_sam u sam 6 @ [c_dash] @ oid4 oid else new_sam);
          label = (case safe_name label of Some l \<Rightarrow> l | None \<Rightarrow> new_sam);
          parent = parent_of dn;
          cn = label @ lit '' (retired)'';
          cn = (if cn_dn cn parent \<in> taken_dns
                then trim label @ lit '' (retired '' @ oid4 oid @ lit '')'' else cn)
      in ((new_sam, cn), insert (fold u new_sam) sam_keys, insert (cn_dn cn parent) taken_dns))"

definition MAX_GROUP_SUFFIX :: nat where [kb_lits]: "MAX_GROUP_SUFFIX = 20"

text \<open>The subtraction is on \<open>usize\<close>: past 64 characters it wraps in a release build. The bound on
  the suffix is the caller's.\<close>

definition group_names :: "str \<Rightarrow> str \<Rightarrow> str \<Rightarrow> str \<times> str" where
  "group_names display_name oid suffix =
     (let cn = (case safe_name display_name of Some n \<Rightarrow> n | None \<Rightarrow> lit ''group-'' @ oid4 oid);
          keep = (if length suffix \<le> 64 then 64 - length suffix else 2 ^ 64 + 64 - length suffix)
      in (cn, trim_end_by is_whitespace (take keep cn) @ suffix))"

datatype suffix_rejection = SuffixTooLong | SuffixCharacter uchar

definition group_suffix_rejection :: "str \<Rightarrow> suffix_rejection option" where
  "group_suffix_rejection suffix =
     (if length suffix > MAX_GROUP_SUFFIX then Some SuffixTooLong
      else map_option SuffixCharacter
        (find (\<lambda>c. is_control c \<or> is_whitespace c \<or> c \<in> set NAME_RESERVED) suffix))"

definition alloc_names ::
  "unicode \<Rightarrow> desired_user \<Rightarrow> str \<Rightarrow> str set \<Rightarrow> str \<Rightarrow> collision + str \<times> str \<times> str" where
  "alloc_names u du oid keys upn_suffix =
     (let held = (\<lambda>name. fold u name \<in> keys);
          offered = (if du_candidates du = [] then [FALLBACK] else du_candidates du)
      in rbind
        (case find (\<lambda>name. \<not> held name) offered of
           Some name \<Rightarrow> Inr name
         | None \<Rightarrow>
             (let suffixed = take 15 (hd offered) @ [c_dash] @ oid4 oid
              in if held suffixed then Inl (UserCollision suffixed oid) else Inr suffixed))
        (\<lambda>sam. Inr (sam, sam @ [c_at] @ upn_suffix,
           (case safe_name (du_display_name du) of Some n \<Rightarrow> n | None \<Rightarrow> sam))))"

definition fresh_dn :: "str \<Rightarrow> str \<Rightarrow> str \<Rightarrow> str set \<Rightarrow> str \<times> str set" where
  "fresh_dn cn oid idp_ou taken =
     (let dn = cn_dn cn idp_ou;
          dn = (if dn \<in> taken then cn_dn (cn @ lit '' ('' @ oid4 oid @ lit '')'') idp_ou else dn)
      in (dn, insert dn taken))"

section \<open>Names without DN syntax\<close>

text \<open>What makes a name usable as an RDN value: no comma, no backslash, and something left when
  the surrounding white space is ignored.\<close>

definition plain_cn :: "str \<Rightarrow> bool" where
  "plain_cn cn \<longleftrightarrow> c_comma \<notin> set cn \<and> c_bslash \<notin> set cn \<and> trim cn \<noteq> []"

definition no_dn_syntax :: "str \<Rightarrow> bool" where
  "no_dn_syntax s \<longleftrightarrow> c_comma \<notin> set s \<and> c_bslash \<notin> set s"

lemma cn_dn_within:
  "plain_cn cn \<Longrightarrow> dn_is_at_or_within u parent ou \<Longrightarrow> dn_is_at_or_within u (cn_dn cn parent) ou"
  unfolding cn_dn_def plain_cn_def by (rule dn_within_cn) auto

lemma trim_not_Nil: "(\<exists>c \<in> set s. \<not> is_whitespace c) \<Longrightarrow> trim s \<noteq> []"
  by (auto simp: trim_def trim_end_by_eq_Nil trim_start_by_def)
     (metis (no_types) dropWhile_eq_Nil_conv hd_dropWhile hd_in_set)

lemma trim_eq_Nil: "trim s = [] \<longleftrightarrow> (\<forall>c \<in> set s. is_whitespace c)"
proof
  assume "trim s = []"
  then show "\<forall>c \<in> set s. is_whitespace c" using trim_not_Nil by blast
qed (auto simp: trim_def trim_end_by_eq_Nil trim_start_by_def dest: set_dropWhileD)

lemma plain_cn_alt:
  "plain_cn cn \<longleftrightarrow> no_dn_syntax cn \<and> (\<exists>c \<in> set cn. \<not> is_whitespace c)"
  by (auto simp: plain_cn_def no_dn_syntax_def trim_eq_Nil)

lemma plain_cn_append: "plain_cn a \<Longrightarrow> no_dn_syntax b \<Longrightarrow> plain_cn (a @ b)"
  by (auto simp: plain_cn_alt no_dn_syntax_def)

lemma plain_cn_prepend: "plain_cn b \<Longrightarrow> no_dn_syntax a \<Longrightarrow> plain_cn (a @ b)"
  by (auto simp: plain_cn_alt no_dn_syntax_def)

lemma no_dn_syntax_append [simp]: "no_dn_syntax (a @ b) \<longleftrightarrow> no_dn_syntax a \<and> no_dn_syntax b"
  by (auto simp: no_dn_syntax_def)

lemma no_dn_syntax_oid4: "no_dn_syntax oid \<Longrightarrow> no_dn_syntax (oid4 oid)"
  by (auto simp: no_dn_syntax_def oid4_def dest: in_set_takeD)

lemma no_dn_syntax_suffixes [simp]:
  "no_dn_syntax (lit '' ('')" "no_dn_syntax (lit '')'')" "no_dn_syntax (lit '' (retired)'')"
  "no_dn_syntax (lit '' (retired '')" "no_dn_syntax (lit ''group-'')" "no_dn_syntax [c_dash]"
  "no_dn_syntax []"
  by (simp_all add: no_dn_syntax_def kb_lits)

lemma safe_name_chars:
  assumes "safe_name v = Some n"
  shows "n \<noteq> [] \<and> (\<forall>c \<in> set n. \<not> is_control c \<and> c \<notin> set NAME_RESERVED) \<and> hd n \<noteq> c_space \<and> plain_cn n"
proof -
  define r where "r = map (\<lambda>c. if is_control c \<or> c \<in> set NAME_RESERVED then c_space else c) v"
  define t where "t = trim_start_by (\<lambda>c. c = c_hash) (trim r)"
  have n: "n = trim t" "n \<noteq> []" using assms by (auto simp: safe_name_def Let_def r_def t_def split: if_splits)
  have "set n \<subseteq> set r" unfolding n(1) t_def using set_trim set_trim_start_by by (metis subset_trans)
  moreover have "c \<in> set r \<Longrightarrow> \<not> is_control c \<and> c \<notin> set NAME_RESERVED" for c
    by (auto simp: r_def is_control_def NAME_RESERVED_def split: if_splits)
  ultimately have ch: "\<forall>c \<in> set n. \<not> is_control c \<and> c \<notin> set NAME_RESERVED" by blast
  have hd: "\<not> is_whitespace (hd n)"
  proof -
    have e: "trim_end_by is_whitespace (trim_start_by is_whitespace t) \<noteq> []" using n by (simp add: trim_def)
    then have "trim_start_by is_whitespace t \<noteq> []" by (auto simp: trim_end_by_eq_Nil)
    then have "\<not> is_whitespace (hd (trim_start_by is_whitespace t))" by (rule hd_trim_start_by)
    then show ?thesis unfolding n(1) trim_def using hd_trim_end_by [OF e] by simp
  qed
  then have "\<exists>c \<in> set n. \<not> is_whitespace c" using n(2) by (metis hd_in_set)
  moreover have "no_dn_syntax n" using ch by (auto simp: no_dn_syntax_def NAME_RESERVED_def)
  ultimately show ?thesis using n(2) ch hd by (auto simp: plain_cn_alt is_whitespace_def)
qed

lemma allowed_no_dn_syntax:
  assumes "unicode_tables u" "\<forall>c \<in> set s. allowed u c"
  shows "no_dn_syntax s"
proof -
  have "\<not> allowed u c_comma \<and> \<not> allowed u c_bslash"
    using unicode_tables.alnum_ascii [OF assms(1)] by (auto simp: allowed_def ascii_alphanumeric_def is_ascii_digit_def)
  with assms(2) show ?thesis by (auto simp: no_dn_syntax_def)
qed

lemma allowed_plain_cn:
  assumes "unicode_tables u" "\<forall>c \<in> set s. allowed u c" "s \<noteq> []"
  shows "plain_cn s"
  using allowed_no_dn_syntax [OF assms(1,2)] unicode_tables.allowed_not_space [OF assms(1)] assms(2,3)
  by (cases s) (auto simp: plain_cn_alt)

section \<open>Allocation\<close>

text \<open>The names an adapter may offer: the constructor of a candidate is \<open>name_candidate\<close>.\<close>

definition wf_desired_user :: "unicode \<Rightarrow> desired_user \<Rightarrow> bool" where
  "wf_desired_user u du \<longleftrightarrow> (\<forall>c \<in> set (du_candidates du). \<exists>s. name_candidate u s = Some c)"

lemma candidate_sanitized:
  assumes "unicode_tables u" "name_candidate u s = Some c"
  shows "sanitized_by u 20 64 c"
proof -
  have "sanitized_by u (max 20 6) (max 64 6) c"
    using assms unicode_tables.sanitize_sanitized [OF assms(1), of 20 64 "nfc u s"]
    by (auto simp: name_candidate_def Let_def kb_lits split: if_splits)
  then show ?thesis by simp
qed

lemma utf8_len_take: "utf8_len (take n s) \<le> 4 * n"
proof (induction n arbitrary: s)
  case (Suc n)
  show ?case
  proof (cases s)
    case (Cons c cs)
    then show ?thesis using Suc [of cs] len_utf8_bounds(2) [of c] by simp
  qed simp
qed simp

lemma alloc_names_cases:
  assumes "unicode_tables u" "wf_desired_user u du" "alloc_names u du oid keys sfx = Inr (sam, upn, cn)"
  obtains "sanitized_by u 20 64 sam"
  | c where "sanitized_by u 20 64 c" "sam = take 15 c @ [c_dash] @ oid4 oid"
proof -
  let ?off = "if du_candidates du = [] then [FALLBACK] else du_candidates du"
  have off: "sanitized_by u 20 64 c" if "c \<in> set ?off" for c
    using that assms(2) candidate_sanitized [OF assms(1)] unicode_tables.fallback_sanitized [OF assms(1)]
    by (auto simp: wf_desired_user_def split: if_splits)
  have "hd ?off \<in> set ?off" by simp
  moreover have "sam \<in> set ?off \<or> sam = take 15 (hd ?off) @ [c_dash] @ oid4 oid"
    using assms(3) by (auto simp: alloc_names_def Let_def kb_results find_Some_iff
        split: option.splits if_splits)
  ultimately show ?thesis using off that by blast
qed

lemma alloc_names_free:
  "alloc_names u du oid keys sfx = Inr (sam, upn, cn) \<Longrightarrow>
     fold u sam \<notin> keys \<and> upn = sam @ [c_at] @ sfx
     \<and> cn = (case safe_name (du_display_name du) of Some n \<Rightarrow> n | None \<Rightarrow> sam)"
  by (auto simp: alloc_names_def Let_def kb_results find_Some_iff split: option.splits if_splits)

lemma alloc_names_chars:
  assumes "unicode_tables u" "wf_desired_user u du" "list_all (allowed u) (oid4 oid)"
    "alloc_names u du oid keys sfx = Inr (sam, upn, cn)"
  shows "sam \<noteq> [] \<and> hd sam \<noteq> c_dash \<and> (\<forall>c \<in> set sam. allowed u c) \<and> length sam \<le> 20
    \<and> utf8_len sam \<le> 60 + 1 + utf8_len (oid4 oid) \<or> sanitized_by u 20 64 sam"
proof (rule alloc_names_cases [OF assms(1,2,4)])
  fix c
  assume c: "sanitized_by u 20 64 c" and sam: "sam = take 15 c @ [c_dash] @ oid4 oid"
  have "length (oid4 oid) \<le> 4" by (simp add: oid4_def)
  moreover have "hd (take 15 c) = hd c" "take 15 c \<noteq> []" using c by (auto simp: sanitized_by_def)
  moreover have "\<forall>x \<in> set (take 15 c). allowed u x" using c by (auto simp: sanitized_by_def dest: in_set_takeD)
  moreover have "allowed u c_dash" by (simp add: allowed_def)
  ultimately show ?thesis
    using c assms(3) utf8_len_take [of 15 c] by (auto simp: sam sanitized_by_def list_all_iff)
qed blast

lemma hex_allowed: "unicode_tables u \<Longrightarrow> is_ascii_hexdigit c \<Longrightarrow> allowed u c"
  by (auto simp: unicode_tables.allowed_ascii is_ascii_hexdigit_def is_ascii_digit_def ascii_alphanumeric_def)

definition hex_oid :: "str \<Rightarrow> bool" where
  "hex_oid oid \<longleftrightarrow> list_all is_ascii_hexdigit (oid4 oid)"

lemma hex_oid_allowed: "unicode_tables u \<Longrightarrow> hex_oid oid \<Longrightarrow> list_all (allowed u) (oid4 oid)"
  using hex_allowed by (auto simp: hex_oid_def list_all_iff)

lemma hex_oid_utf8_len: "hex_oid oid \<Longrightarrow> utf8_len (oid4 oid) \<le> 4"
proof -
  assume "hex_oid oid"
  then have "ascii (oid4 oid)"
    by (auto simp: hex_oid_def list_all_iff ascii_def is_ascii_hexdigit_def is_ascii_digit_def)
  then show ?thesis by (simp add: utf8_len_ascii) (simp add: oid4_def)
qed

lemma alloc_names_plain_cn:
  assumes "unicode_tables u" "wf_desired_user u du" "hex_oid oid"
    "alloc_names u du oid keys sfx = Inr (sam, upn, cn)"
  shows "plain_cn cn"
proof -
  have "sam \<noteq> [] \<and> (\<forall>c \<in> set sam. allowed u c)"
    using alloc_names_chars [OF assms(1,2) hex_oid_allowed [OF assms(1,3)] assms(4)]
    by (auto simp: sanitized_by_def)
  then have "plain_cn sam" using allowed_plain_cn [OF assms(1)] by blast
  then show ?thesis
    using alloc_names_free [OF assms(4)] safe_name_chars by (auto split: option.splits)
qed

section \<open>Properties\<close>

text \<open>Fact (KB_Names.safe_name_is_rdn): whatever display name the identity provider holds, the name
  derived from it carries no character reserved in a DN and none the directory refuses, and the
  DN built from it names an object directly under the parent it was built for, inside every unit
  that parent is inside.\<close>

theorem safe_name_is_rdn:
  assumes "safe_name v = Some n"
  shows "(\<forall>c. c \<in> set n \<longrightarrow> \<not> is_control c \<and> c \<notin> set NAME_RESERVED)
    \<and> parent_of (cn_dn n parent) = parent
    \<and> (dn_is_at_or_within u parent ou \<longrightarrow> dn_is_at_or_within u (cn_dn n parent) ou)"
proof -
  have n: "plain_cn n" "\<forall>c \<in> set n. \<not> is_control c \<and> c \<notin> set NAME_RESERVED"
    using safe_name_chars [OF assms] by blast+
  then have "parent_of (lit ''CN='' @ n @ [c_comma] @ parent) = parent"
    using parent_of_append [of "lit ''CN='' @ n" parent] by (simp add: plain_cn_def kb_lits)
  with n cn_dn_within [OF n(1)] show ?thesis by (auto simp: cn_dn_def)
qed

theorem safe_name_is_rdn_witness:
  "parent_of (cn_dn (lit ''x OU Admins'') (lit ''OU=Entra'')) = lit ''OU=Entra''"
proof -
  have "safe_name (lit ''x,OU=Admins'') = Some (lit ''x OU Admins'')"
    by (simp add: safe_name_def NAME_RESERVED_def is_control_def trim_def trim_start_by_def trim_end_by_def
        is_whitespace_def kb_lits)
  from safe_name_is_rdn [OF this] show ?thesis by blast
qed

text \<open>Fact (KB_Names.allocated_name): the login name allocated for an account is free in the realm,
  carries the UPN built from it, is at most twenty characters of the accepted set and does not
  start with a dash; \<open>issuerd\<close> accepts it unless it is exactly one byte over the byte ceiling.\<close>

theorem allocated_name:
  assumes "unicode_tables u" "wf_desired_user u du" "hex_oid oid"
    and "alloc_names u du oid keys sfx = Inr (sam, upn, cn)"
  shows "fold u sam \<notin> keys \<and> upn = sam @ [c_at] @ sfx \<and> length sam \<le> 20
    \<and> (validate u sam = Inr () \<or> validate u sam = Inl (SamTooLong 65))"
proof -
  have cases: "sam \<noteq> [] \<and> hd sam \<noteq> c_dash \<and> (\<forall>c \<in> set sam. allowed u c) \<and> length sam \<le> 20
      \<and> utf8_len sam \<le> 65 \<or> sanitized_by u 20 64 sam"
    using alloc_names_chars [OF assms(1,2) hex_oid_allowed [OF assms(1,3)] assms(4)]
      hex_oid_utf8_len [OF assms(3)] by auto
  then have "length sam \<le> 20" by (auto simp: sanitized_by_def)
  moreover have "validate u sam = Inr () \<or> validate u sam = Inl (SamTooLong 65)"
    using cases
  proof
    assume s: "sam \<noteq> [] \<and> hd sam \<noteq> c_dash \<and> (\<forall>c \<in> set sam. allowed u c) \<and> length sam \<le> 20 \<and> utf8_len sam \<le> 65"
    show ?thesis
    proof (cases "utf8_len sam = 65")
      case True
      with s show ?thesis by (simp add: validate_def MAX_BYTES_def)
    next
      case False
      with s have "validate u sam = Inr ()" by (simp add: validate_Inr MAX_BYTES_def)
      then show ?thesis ..
    qed
  next
    assume "sanitized_by u 20 64 sam"
    then show ?thesis
      using unicode_tables.validate_sanitized [OF assms(1), of 20 sam] by (simp add: MAX_BYTES_def)
  qed
  ultimately show ?thesis using alloc_names_free [OF assms(4)] by blast
qed

definition sample_user :: desired_user where
  "sample_user = \<lparr>du_display_name = lit ''Ann'', du_candidates = [lit ''ann''], du_enabled = True\<rparr>"

lemmas sanitize_eval = sanitize_def allowed_def block_tables_def block_char_lower_def block_upper_def
  block_lower_def is_ascii_digit_def len_utf8_def trim_end_by_def trim_start_by_def

theorem allocated_name_witness: "fold block_tables (lit ''ann-deca'') \<notin> {lit ''ann''}"
proof -
  have n: "name_candidate block_tables (lit ''ann'') = Some (lit ''ann'')"
    by (simp add: name_candidate_def sanitize_eval kb_lits)
  have w: "wf_desired_user block_tables sample_user"
    using n by (auto simp: wf_desired_user_def sample_user_def)
  have a: "alloc_names block_tables sample_user (lit ''decafbad'') {lit ''ann''} (lit ''x'')
      = Inr (lit ''ann-deca'', lit ''ann-deca@x'', lit ''Ann'')"
    by (simp add: alloc_names_def sample_user_def fold_def oid4_def safe_name_def NAME_RESERVED_def
        is_control_def trim_def is_whitespace_def sanitize_eval kb_lits)
  have h: "hex_oid (lit ''decafbad'')"
    by (simp add: hex_oid_def oid4_def is_ascii_hexdigit_def is_ascii_digit_def kb_lits)
  show ?thesis
    using allocated_name [OF block.unicode_tables_axioms w h a] by blast
qed

text \<open>The tables extended by CJK Extension B, whose ideographs are letters of four bytes.\<close>

definition ideograph_tables :: unicode where
  "ideograph_tables = block_tables\<lparr>is_alphanumeric := (\<lambda>c. is_alphanumeric block_tables c
     \<or> (0x20000 \<le> c \<and> c \<le> 0x2A6DF))\<rparr>"

definition ideograph_user :: desired_user where
  "ideograph_user = \<lparr>du_display_name = lit ''Ann'', du_candidates = [replicate 16 0x20000], du_enabled = True\<rparr>"

text \<open>A divergence: the disambiguated form can be a name \<open>issuerd\<close> refuses.
  Fifteen characters of four bytes, the dash and four hexadecimal digits are 65 bytes, one more
  than the ceiling every other name is held to, although the candidate itself is a legal name.\<close>

theorem disambiguated_name_over_limit:
  "name_candidate ideograph_tables (replicate 16 0x20000) = Some (replicate 16 0x20000)
   \<and> validate ideograph_tables (replicate 16 0x20000) = Inr ()
   \<and> alloc_names ideograph_tables ideograph_user (lit ''decafbad'') {replicate 16 0x20000} (lit ''x'')
     = Inr (replicate 15 0x20000 @ lit ''-deca'', replicate 15 0x20000 @ lit ''-deca@x'', lit ''Ann'')
   \<and> validate ideograph_tables (replicate 15 0x20000 @ lit ''-deca'') = Inl (SamTooLong 65)"
proof (intro conjI)
  have r: "replicate 16 c = [c, c, c, c, c, c, c, c, c, c, c, c, c, c, c, c]"
    "replicate 15 c = [c, c, c, c, c, c, c, c, c, c, c, c, c, c, c]" for c :: uchar
    by (simp_all add: numeral_eq_Suc)
  note eval = ideograph_tables_def ideograph_user_def sanitize_eval kb_lits r
  show "name_candidate ideograph_tables (replicate 16 0x20000) = Some (replicate 16 0x20000)"
    by (simp add: name_candidate_def eval)
  show "validate ideograph_tables (replicate 16 0x20000) = Inr ()"
    by (simp add: validate_def starts_with_def eval)
  show "alloc_names ideograph_tables ideograph_user (lit ''decafbad'') {replicate 16 0x20000} (lit ''x'')
     = Inr (replicate 15 0x20000 @ lit ''-deca'', replicate 15 0x20000 @ lit ''-deca@x'', lit ''Ann'')"
    by (simp add: alloc_names_def fold_def oid4_def safe_name_def NAME_RESERVED_def is_control_def
        trim_def is_whitespace_def eval)
  show "validate ideograph_tables (replicate 15 0x20000 @ lit ''-deca'') = Inl (SamTooLong 65)"
    by (simp add: validate_def starts_with_def eval)
qed

end
