(* ===== verification/KB_Planner.thy ===== *)
theory KB_Planner
  imports KB_Names "HOL-Library.Sublist"
begin

text \<open>
  \<open>kerbridge-sync/src/planner/mod.rs\<close>: the reconciliation planner. \<open>plan_sync\<close> is one function of
  six hundred lines in the code; here each of its phases is a definition of its own, composed in
  the order of the code. The mutable locals that outlive a phase are the record \<open>pstate\<close>. The
  structural assertion of \<open>Builder::add\<close> and the indexing of a hash map are the value \<open>Panicked\<close>,
  a refused cycle the value \<open>NameCollision\<close>. Conflicts and alerts carry their data, not their
  English sentence.

  The adapter's identity function is the field \<open>x_identity\<close> of the context. The first entry of
  an \<open>OrderedMap\<close> with a repeated key is shadowed by the last one when it is collected into a
  hash map, so \<open>lookup\<close> reads the list from its end.
\<close>

section \<open>Data\<close>

record current_user =
  cu_dn :: str
  cu_sam :: str
  cu_display_name :: "str option"
  cu_enabled :: bool
  cu_markers :: "str list"
  cu_identity :: str

record current_group =
  cg_dn :: str
  cg_sam :: str
  cg_display_name :: str
  cg_members :: "str list"
  cg_markers :: "str list"
  cg_identity :: str

record current =
  c_users :: "(str \<times> current_user) list"
  c_groups :: "(str \<times> current_group) list"
  c_foreign_sams :: "str list"
  c_unmanaged_dns :: "str list"

definition lookup :: "(str \<times> 'a) list \<Rightarrow> str \<Rightarrow> 'a option" where
  "lookup xs k = map_of (rev xs) k"

datatype op =
    CreateUser (op_dn: str) str str str bool str
  | is_CreateGroup: CreateGroup (op_dn: str) str str "str option"
  | AddMember (op_dn: str) str
  | RemoveMember (op_dn: str) str
  | EnableUser (op_dn: str)
  | DisableUser (op_dn: str)
  | Rename (op_dn: str) str "str option" "str option" "str option"
  | SetAttr (op_dn: str) str str
  | SetMarker (op_dn: str) str
  | SetRoleMarker (op_dn: str) str
  | ClearMarker (op_dn: str) str
  | ClearMembers (op_dn: str) "str list"

fun op_kind :: "op \<Rightarrow> str" where
  "op_kind (CreateUser _ _ _ _ _ _) = lit ''create_user''"
| "op_kind (CreateGroup _ _ _ _) = lit ''create_group''"
| "op_kind (AddMember _ _) = lit ''add_member''"
| "op_kind (RemoveMember _ _) = lit ''remove_member''"
| "op_kind (EnableUser _) = lit ''enable_user''"
| "op_kind (DisableUser _) = lit ''disable_user''"
| "op_kind (Rename _ _ _ _ _) = lit ''rename''"
| "op_kind (SetAttr _ _ _) = lit ''set_attr''"
| "op_kind (SetMarker _ _) = lit ''set_marker''"
| "op_kind (SetRoleMarker _ _) = lit ''set_role_marker''"
| "op_kind (ClearMarker _ _) = lit ''clear_marker''"
| "op_kind (ClearMembers _ _) = lit ''clear_members''"

datatype alert_kind = AdmissionGroup | DeviceGrantGroup | Note

datatype alert =
    AdmissionMissing
  | ExpansionEmpty nat
  | AdmissionToCreate
  | AdmissionVanished str
  | GrantUnset "str list"
  | GrantNotSynchronized str

fun kind_of :: "alert \<Rightarrow> alert_kind" where
  "kind_of AdmissionMissing = AdmissionGroup"
| "kind_of (ExpansionEmpty _) = AdmissionGroup"
| "kind_of AdmissionToCreate = Note"
| "kind_of (AdmissionVanished _) = AdmissionGroup"
| "kind_of (GrantUnset _) = DeviceGrantGroup"
| "kind_of (GrantNotSynchronized _) = DeviceGrantGroup"

datatype conflict =
    NoIdentity str
  | AmbiguousIdentity str str
  | Unmanaged str
  | ForeignInQuarantined str str
  | MembershipFrozen str str
  | ForeignMember str str

record plan =
  p_ops :: "op list"
  p_conflicts :: "conflict list"
  p_alerts :: "alert list"

datatype plan_stop = NameCollision "collision list" | Panicked

record plan_ctx =
  x_idp_ou :: str
  x_admission :: subject
  x_grant :: "subject option"
  x_upn_suffix :: str
  x_group_suffix :: str
  x_now :: str
  x_automatic_sam_renames :: bool
  x_identity :: "subject \<Rightarrow> identity_error + str"

record pstate =
  s_plan :: plan
  s_dn_of :: "subject \<Rightarrow> str option"
  s_taken_dns :: "str set"
  s_sam_keys :: "str set"

section \<open>The builder\<close>

definition plan0 :: plan where
  "plan0 = \<lparr>p_ops = [], p_conflicts = [], p_alerts = []\<rparr>"

definition add_op :: "unicode \<Rightarrow> plan_ctx \<Rightarrow> op \<Rightarrow> pstate \<Rightarrow> plan_stop + pstate" where
  "add_op u ctx op s =
     (if dn_is_at_or_within u (op_dn op) (x_idp_ou ctx)
      then Inr (s\<lparr>s_plan := (s_plan s)\<lparr>p_ops := p_ops (s_plan s) @ [op]\<rparr>\<rparr>)
      else Inl Panicked)"

fun add_ops :: "unicode \<Rightarrow> plan_ctx \<Rightarrow> op list \<Rightarrow> pstate \<Rightarrow> plan_stop + pstate" where
  "add_ops u ctx [] s = Inr s"
| "add_ops u ctx (op # ops) s = rbind (add_op u ctx op s) (add_ops u ctx ops)"

definition add_conflicts :: "conflict list \<Rightarrow> pstate \<Rightarrow> pstate" where
  "add_conflicts cs s = s\<lparr>s_plan := (s_plan s)\<lparr>p_conflicts := p_conflicts (s_plan s) @ cs\<rparr>\<rparr>"

definition add_alert :: "alert \<Rightarrow> pstate \<Rightarrow> pstate" where
  "add_alert a s = s\<lparr>s_plan := (s_plan s)\<lparr>p_alerts := p_alerts (s_plan s) @ [a]\<rparr>\<rparr>"

definition encoded_identity :: "plan_ctx \<Rightarrow> subject \<Rightarrow> pstate \<Rightarrow> str option \<times> pstate" where
  "encoded_identity ctx oid s =
     (case x_identity ctx oid of
        Inr value \<Rightarrow> (Some value, s)
      | Inl why \<Rightarrow> (None, add_conflicts [NoIdentity oid] s))"

definition has_prefix :: "str \<Rightarrow> str list \<Rightarrow> bool" where
  "has_prefix p ms = list_ex (\<lambda>m. starts_with m p) ms"

fun each :: "('a \<Rightarrow> 's \<Rightarrow> 'e + 's) \<Rightarrow> 'a list \<Rightarrow> 's \<Rightarrow> 'e + 's" where
  "each f [] s = Inr s"
| "each f (x # xs) s = rbind (f x s) (each f xs)"

section \<open>Guards on the whole cycle\<close>

definition frozen :: "desired \<Rightarrow> current \<Rightarrow> plan_ctx \<Rightarrow> alert option" where
  "frozen desired current ctx =
     (if map_of (d_groups desired) (x_admission ctx) = None then Some AdmissionMissing
      else if d_users desired = [] \<and> c_users current \<noteq> []
      then Some (ExpansionEmpty (card (fst ` set (c_users current))))
      else None)"

definition marked_with :: "str \<Rightarrow> current \<Rightarrow> str list" where
  "marked_with role current = map fst (filter (\<lambda>(_, g). role \<in> set (cg_markers g)) (c_groups current))"

definition clear_stale :: "unicode \<Rightarrow> plan_ctx \<Rightarrow> current \<Rightarrow> pstate \<Rightarrow> plan_stop + pstate" where
  "clear_stale u ctx current =
     each (\<lambda>stale s. rbind (ok_or Panicked (lookup (c_groups current) stale)) (\<lambda>g.
         add_op u ctx (ClearMarker (cg_dn g) ROLE_ADMISSION) s))
       (filter (\<lambda>m. m \<noteq> x_admission ctx) (marked_with ROLE_ADMISSION current))"

section \<open>Ambiguous identities\<close>

type_synonym scan = "(str \<Rightarrow> str option) \<times> str set \<times> conflict list"

definition scan_entry ::
  "(str \<Rightarrow> str option) \<Rightarrow> str \<Rightarrow> str \<Rightarrow> str \<Rightarrow> scan \<Rightarrow> plan_stop + scan" where
  "scan_entry dn_for oid dn identity = (\<lambda>(seen, dupes, conflicts).
     rbind
       (case seen identity of
          None \<Rightarrow> Inr (dupes, conflicts)
        | Some prev \<Rightarrow> rbind (ok_or Panicked (dn_for prev)) (\<lambda>pdn.
            Inr (insert prev (insert oid dupes), conflicts @ [AmbiguousIdentity dn pdn])))
       (\<lambda>(dupes, conflicts). Inr (seen(identity \<mapsto> oid), dupes, conflicts)))"

definition scan_identities :: "current \<Rightarrow> plan_stop + scan" where
  "scan_identities current =
     rbind (each (\<lambda>(oid, x). scan_entry (\<lambda>p. map_option cu_dn (lookup (c_users current) p))
               oid (cu_dn x) (cu_identity x)) (c_users current) (Map.empty, {}, []))
       (each (\<lambda>(oid, g). scan_entry (\<lambda>p. map_option cg_dn (lookup (c_groups current) p))
               oid (cg_dn g) (cg_identity g)) (c_groups current))"

definition dupe_dns :: "current \<Rightarrow> str set \<Rightarrow> str set" where
  "dupe_dns current dupes =
     set (map (cu_dn \<circ> snd) (filter (\<lambda>(oid, _). oid \<in> dupes) (c_users current))
       @ map (cg_dn \<circ> snd) (filter (\<lambda>(oid, _). oid \<in> dupes) (c_groups current)))"

definition all_dns :: "current \<Rightarrow> str set" where
  "all_dns current = set (map (cu_dn \<circ> snd) (c_users current) @ map (cg_dn \<circ> snd) (c_groups current)
     @ c_unmanaged_dns current)"

definition all_sam_keys :: "unicode \<Rightarrow> current \<Rightarrow> str set" where
  "all_sam_keys u current = set (map (fold u) (c_foreign_sams current)
     @ map (fold u \<circ> cu_sam \<circ> snd) (c_users current) @ map (fold u \<circ> cg_sam \<circ> snd) (c_groups current))"

section \<open>Users\<close>

definition alloc :: "unicode \<Rightarrow> plan_ctx \<Rightarrow> desired_user \<Rightarrow> str \<Rightarrow> pstate \<Rightarrow> plan_stop + str \<times> str \<times> str" where
  "alloc u ctx du oid s =
     map_err (\<lambda>c. NameCollision [c]) (alloc_names u du oid (s_sam_keys s) (x_upn_suffix ctx))"

definition new_user :: "unicode \<Rightarrow> plan_ctx \<Rightarrow> subject \<Rightarrow> desired_user \<Rightarrow> pstate \<Rightarrow> plan_stop + pstate" where
  "new_user u ctx oid du s =
     (let (encoded, s) = encoded_identity ctx oid s in
      case encoded of
        None \<Rightarrow> Inr s
      | Some identity \<Rightarrow>
          rbind (alloc u ctx du oid s) (\<lambda>(sam, upn, cn).
            let (dn, taken) = fresh_dn cn oid (x_idp_ou ctx) (s_taken_dns s);
                s = s\<lparr>s_sam_keys := insert (fold u sam) (s_sam_keys s), s_taken_dns := taken,
                      s_dn_of := (s_dn_of s)(oid \<mapsto> dn)\<rparr>
            in add_op u ctx (CreateUser dn sam upn (du_display_name du) (du_enabled du) identity) s))"

text \<open>Reappearance during retention; the flag says whether a rename was planned.\<close>

definition restore_user ::
  "unicode \<Rightarrow> plan_ctx \<Rightarrow> subject \<Rightarrow> desired_user \<Rightarrow> current_user \<Rightarrow> pstate \<Rightarrow> plan_stop + bool \<times> pstate" where
  "restore_user u ctx oid du cu s =
     rbind (add_ops u ctx (ClearMarker (cu_dn cu) ST_RETIRED
         # (if du_enabled du \<and> \<not> cu_enabled cu then [EnableUser (cu_dn cu)] else [])) s) (\<lambda>s.
     let s = s\<lparr>s_sam_keys := s_sam_keys s - {fold u (cu_sam cu)}\<rparr> in
     rbind (alloc u ctx du oid s) (\<lambda>(sam, upn, cn).
       let s = s\<lparr>s_sam_keys := insert (fold u sam) (s_sam_keys s)\<rparr>;
           parent = parent_of (cu_dn cu);
           cn = (if cn_dn cn parent \<noteq> cu_dn cu \<and> cn_dn cn parent \<in> s_taken_dns s
                 then cn @ lit '' ('' @ oid4 oid @ lit '')'' else cn);
           newdn = cn_dn cn parent
       in if sam \<noteq> cu_sam cu \<or> newdn \<noteq> cu_dn cu
          then let s = s\<lparr>s_taken_dns := insert newdn (s_taken_dns s)\<rparr> in
               rbind (add_op u ctx (Rename (cu_dn cu) cn
                   (if cu_display_name cu \<noteq> Some (du_display_name du) then Some (du_display_name du) else None)
                   (Some sam) (Some upn)) s) (\<lambda>s.
               Inr (True, s\<lparr>s_dn_of := (s_dn_of s)(oid \<mapsto> newdn)\<rparr>))
          else Inr (False, s)))"

definition follow_login_name ::
  "unicode \<Rightarrow> plan_ctx \<Rightarrow> subject \<Rightarrow> desired_user \<Rightarrow> current_user \<Rightarrow> bool \<Rightarrow> pstate \<Rightarrow> plan_stop + pstate" where
  "follow_login_name u ctx oid du cu restored s =
     (if \<not> restored \<and> x_automatic_sam_renames ctx \<and> \<not> has_prefix ST_NAME_PINNED (cu_markers cu)
      then let s = s\<lparr>s_sam_keys := s_sam_keys s - {fold u (cu_sam cu)}\<rparr> in
           rbind (alloc u ctx du oid s) (\<lambda>(sam, upn, _).
             let s = s\<lparr>s_sam_keys := insert (fold u sam) (s_sam_keys s)\<rparr> in
             if sam \<noteq> cu_sam cu
             then add_ops u ctx [SetAttr (cu_dn cu) (lit ''sAMAccountName'') sam,
                    SetAttr (cu_dn cu) (lit ''userPrincipalName'') upn] s
             else Inr s)
      else Inr s)"

definition follow_display_name ::
  "unicode \<Rightarrow> plan_ctx \<Rightarrow> subject \<Rightarrow> desired_user \<Rightarrow> current_user \<Rightarrow> bool \<Rightarrow> pstate \<Rightarrow> plan_stop + pstate" where
  "follow_display_name u ctx oid du cu restored s =
     (if \<not> restored \<and> cu_display_name cu \<noteq> Some (du_display_name du)
      then let newcn = (case safe_name (du_display_name du) of Some n \<Rightarrow> n | None \<Rightarrow> cu_sam cu);
               newdn = cn_dn newcn (parent_of (cu_dn cu));
               sufcn = newcn @ lit '' ('' @ oid4 oid @ lit '')'';
               sufdn = cn_dn sufcn (parent_of (cu_dn cu));
               set_name = SetAttr (cu_dn cu) (lit ''displayName'') (du_display_name du)
           in if newdn = cu_dn cu then add_op u ctx set_name s
              else if newdn \<in> s_taken_dns s
              then (if sufdn = cu_dn cu then add_op u ctx set_name s
                    else rbind (add_op u ctx (Rename (cu_dn cu) sufcn (Some (du_display_name du)) None None)
                           (s\<lparr>s_taken_dns := insert sufdn (s_taken_dns s)\<rparr>)) (\<lambda>s.
                         Inr (s\<lparr>s_dn_of := (s_dn_of s)(oid \<mapsto> sufdn)\<rparr>)))
              else rbind (add_op u ctx (Rename (cu_dn cu) newcn (Some (du_display_name du)) None None)
                     (s\<lparr>s_taken_dns := insert newdn (s_taken_dns s)\<rparr>)) (\<lambda>s.
                   Inr (s\<lparr>s_dn_of := (s_dn_of s)(oid \<mapsto> newdn)\<rparr>))
      else Inr s)"

definition known_user ::
  "unicode \<Rightarrow> plan_ctx \<Rightarrow> subject \<Rightarrow> desired_user \<Rightarrow> current_user \<Rightarrow> pstate \<Rightarrow> plan_stop + pstate" where
  "known_user u ctx oid du cu s =
     (let s = s\<lparr>s_dn_of := (s_dn_of s)(oid \<mapsto> cu_dn cu)\<rparr> in
      rbind
        (if has_prefix ST_RETIRED (cu_markers cu) then restore_user u ctx oid du cu s
         else if du_enabled du \<noteq> cu_enabled cu
         then rbind (add_op u ctx (if du_enabled du then EnableUser (cu_dn cu) else DisableUser (cu_dn cu)) s)
                (\<lambda>s. Inr (False, s))
         else Inr (False, s)) (\<lambda>(restored, s).
      rbind (follow_login_name u ctx oid du cu restored s)
        (follow_display_name u ctx oid du cu restored)))"

definition plan_users ::
  "unicode \<Rightarrow> plan_ctx \<Rightarrow> desired \<Rightarrow> current \<Rightarrow> str set \<Rightarrow> pstate \<Rightarrow> plan_stop + pstate" where
  "plan_users u ctx desired current dupes =
     each (\<lambda>(oid, du) s.
         if oid \<in> dupes then Inr s
         else (case lookup (c_users current) oid of
                 None \<Rightarrow> new_user u ctx oid du s
               | Some cu \<Rightarrow> known_user u ctx oid du cu s)) (d_users desired)"

definition retire_user ::
  "unicode \<Rightarrow> plan_ctx \<Rightarrow> str \<Rightarrow> current_user \<Rightarrow> pstate \<Rightarrow> plan_stop + pstate" where
  "retire_user u ctx oid cu s =
     rbind (add_ops u ctx
       ((if \<not> has_prefix ST_RETIRED (cu_markers cu)
         then [DisableUser (cu_dn cu), SetMarker (cu_dn cu) (ST_RETIRED @ x_now ctx)] else [])
        @ (if has_prefix GRANT_PREFIX (cu_markers cu) then [ClearMarker (cu_dn cu) GRANT_PREFIX] else [])) s) (\<lambda>s.
     if \<not> starts_with (cu_sam cu) RETIRED_PREFIX
     then let label = (case cu_display_name cu of Some n \<Rightarrow> n | None \<Rightarrow> cu_sam cu);
              ((sam, new_cn), keys, taken) =
                retired_names u (cu_dn cu) (cu_sam cu) label oid (s_sam_keys s) (s_taken_dns s);
              s = s\<lparr>s_sam_keys := keys, s_taken_dns := taken\<rparr>
          in add_op u ctx (Rename (cu_dn cu) new_cn None (Some sam) (Some (sam @ [c_at] @ x_upn_suffix ctx))) s
     else Inr s)"

definition retire_users ::
  "unicode \<Rightarrow> plan_ctx \<Rightarrow> desired \<Rightarrow> current \<Rightarrow> str set \<Rightarrow> pstate \<Rightarrow> plan_stop + pstate" where
  "retire_users u ctx desired current dupes =
     each (\<lambda>oid s.
         if oid \<in> fst ` set (d_users desired) \<or> oid \<in> dupes then Inr s
         else rbind (ok_or Panicked (lookup (c_users current) oid)) (\<lambda>cu. retire_user u ctx oid cu s))
       (sort (map fst (c_users current)))"

section \<open>Groups\<close>

fun collide ::
  "unicode \<Rightarrow> plan_ctx \<Rightarrow> current \<Rightarrow> str set \<Rightarrow> str set \<Rightarrow> (subject \<times> desired_group) list \<Rightarrow> str set
     \<Rightarrow> collision list" where
  "collide u ctx current dupes sam_keys [] new_keys = []"
| "collide u ctx current dupes sam_keys ((oid, dg) # gs) new_keys =
     (if oid \<in> dupes \<or> lookup (c_groups current) oid \<noteq> None
      then collide u ctx current dupes sam_keys gs new_keys
      else
        let (_, sam) = group_names (dg_display_name dg) oid (x_group_suffix ctx); key = fold u sam in
        (if key \<in> sam_keys then GroupCollision (dg_display_name dg) oid # collide u ctx current dupes sam_keys gs new_keys
         else if key \<in> new_keys
         then GroupCollision (dg_display_name dg) oid # collide u ctx current dupes sam_keys gs new_keys
         else collide u ctx current dupes sam_keys gs (insert key new_keys)))"

definition check_collisions ::
  "unicode \<Rightarrow> plan_ctx \<Rightarrow> desired \<Rightarrow> current \<Rightarrow> str set \<Rightarrow> pstate \<Rightarrow> plan_stop + pstate" where
  "check_collisions u ctx desired current dupes s =
     (let collisions = collide u ctx current dupes (s_sam_keys s) (d_groups desired) {} in
      if collisions \<noteq> [] then Inl (NameCollision collisions) else Inr s)"

definition new_group ::
  "unicode \<Rightarrow> plan_ctx \<Rightarrow> bool \<Rightarrow> subject \<Rightarrow> desired_group \<Rightarrow> pstate \<Rightarrow> plan_stop + pstate" where
  "new_group u ctx unmarked oid dg s =
     (let (encoded, s) = encoded_identity ctx oid s in
      case encoded of
        None \<Rightarrow> Inr s
      | Some identity \<Rightarrow>
          let (cn, sam) = group_names (dg_display_name dg) oid (x_group_suffix ctx);
              (dn, taken) = fresh_dn cn oid (x_idp_ou ctx) (s_taken_dns s);
              s = s\<lparr>s_taken_dns := taken, s_dn_of := (s_dn_of s)(oid \<mapsto> dn)\<rparr>;
              s = (if oid = x_admission ctx \<and> unmarked then add_alert AdmissionToCreate s else s)
          in add_op u ctx (CreateGroup dn sam identity
               (if oid = x_admission ctx then Some ROLE_ADMISSION else None)) s)"

definition rename_group ::
  "unicode \<Rightarrow> plan_ctx \<Rightarrow> subject \<Rightarrow> desired_group \<Rightarrow> current_group \<Rightarrow> pstate \<Rightarrow> plan_stop + pstate" where
  "rename_group u ctx oid dg cg s =
     (if dg_display_name dg \<noteq> cg_display_name cg
      then let (cn, sam) = group_names (dg_display_name dg) oid (x_group_suffix ctx);
               parent = parent_of (cg_dn cg);
               newdn = (if cn_dn cn parent \<noteq> cg_dn cg \<and> cn_dn cn parent \<in> s_taken_dns s
                        then cn_dn (cn @ lit '' ('' @ oid4 oid @ lit '')'') parent else cn_dn cn parent)
           in if newdn \<noteq> cg_dn cg
              then let s = s\<lparr>s_taken_dns := insert newdn (s_taken_dns s)\<rparr>;
                       new_cn = drop 3 (hd (split_on c_comma newdn))
                   in rbind (add_op u ctx (Rename (cg_dn cg) new_cn None (Some sam) None) s) (\<lambda>s.
                      Inr (s\<lparr>s_dn_of := (s_dn_of s)(oid \<mapsto> newdn)\<rparr>))
              else Inr s
      else Inr s)"

definition known_group ::
  "unicode \<Rightarrow> plan_ctx \<Rightarrow> bool \<Rightarrow> subject \<Rightarrow> desired_group \<Rightarrow> current_group \<Rightarrow> pstate \<Rightarrow> plan_stop + pstate" where
  "known_group u ctx unmarked oid dg cg s =
     (let s = s\<lparr>s_dn_of := (s_dn_of s)(oid \<mapsto> cg_dn cg)\<rparr> in
      rbind (if has_prefix ST_QUAR (cg_markers cg) then add_op u ctx (ClearMarker (cg_dn cg) ST_QUAR) s
             else Inr s) (\<lambda>s.
      rbind (rename_group u ctx oid dg cg s) (\<lambda>s.
      if oid = x_admission ctx \<and> unmarked then add_op u ctx (SetRoleMarker (cg_dn cg) ROLE_ADMISSION) s
      else Inr s)))"

definition plan_groups ::
  "unicode \<Rightarrow> plan_ctx \<Rightarrow> desired \<Rightarrow> current \<Rightarrow> str set \<Rightarrow> pstate \<Rightarrow> plan_stop + pstate" where
  "plan_groups u ctx desired current dupes =
     (let unmarked = (x_admission ctx \<notin> set (marked_with ROLE_ADMISSION current)) in
      each (\<lambda>(oid, dg) s.
         if oid \<in> dupes then Inr s
         else (case lookup (c_groups current) oid of
                 None \<Rightarrow> new_group u ctx unmarked oid dg s
               | Some cg \<Rightarrow> known_group u ctx unmarked oid dg cg s)) (d_groups desired))"

definition quarantine_group ::
  "unicode \<Rightarrow> plan_ctx \<Rightarrow> str \<Rightarrow> current_group \<Rightarrow> pstate \<Rightarrow> plan_stop + pstate" where
  "quarantine_group u ctx oid cg s =
     rbind (if \<not> has_prefix ST_QUAR (cg_markers cg)
            then let keep = sort (filter (\<lambda>m. \<not> dn_is_at_or_within u m (x_idp_ou ctx)) (cg_members cg));
                     s = add_conflicts (map (\<lambda>m. ForeignInQuarantined m (cg_dn cg)) keep) s
                 in add_ops u ctx [ClearMembers (cg_dn cg) keep,
                      SetMarker (cg_dn cg) (ST_QUAR @ x_now ctx)] s
            else Inr s) (\<lambda>s.
     if \<not> starts_with (cg_sam cg) RETIRED_PREFIX
     then let ((sam, new_cn), keys, taken) =
                retired_names u (cg_dn cg) (cg_sam cg) (cg_display_name cg) oid (s_sam_keys s) (s_taken_dns s);
              s = s\<lparr>s_sam_keys := keys, s_taken_dns := taken\<rparr>
          in add_op u ctx (Rename (cg_dn cg) new_cn None (Some sam) None) s
     else Inr s)"

definition quarantine_groups ::
  "unicode \<Rightarrow> plan_ctx \<Rightarrow> desired \<Rightarrow> current \<Rightarrow> str set \<Rightarrow> pstate \<Rightarrow> plan_stop + pstate" where
  "quarantine_groups u ctx desired current dupes =
     each (\<lambda>oid s.
         if oid \<in> fst ` set (d_groups desired) \<or> oid \<in> dupes then Inr s
         else rbind (ok_or Panicked (lookup (c_groups current) oid)) (\<lambda>cg.
           if oid = x_admission ctx then Inr (add_alert (AdmissionVanished (cg_dn cg)) s)
           else quarantine_group u ctx oid cg s))
       (sort (map fst (c_groups current)))"

section \<open>The device-grant marker and the memberships\<close>

definition plan_grant_marker ::
  "unicode \<Rightarrow> plan_ctx \<Rightarrow> desired \<Rightarrow> current \<Rightarrow> pstate \<Rightarrow> plan_stop + pstate" where
  "plan_grant_marker u ctx desired current s =
     (let grant_marked = marked_with ROLE_DEVICE_GRANT current in
      case x_grant ctx of
        None \<Rightarrow> Inr (if grant_marked \<noteq> [] then add_alert (GrantUnset grant_marked) s else s)
      | Some oid \<Rightarrow>
          if map_of (d_groups desired) oid = None then Inr (add_alert (GrantNotSynchronized oid) s)
          else (case s_dn_of s oid of
                  None \<Rightarrow> Inr s
                | Some dn \<Rightarrow>
                    rbind (each (\<lambda>marked s. rbind (ok_or Panicked (lookup (c_groups current) marked)) (\<lambda>g.
                             add_op u ctx (ClearMarker (cg_dn g) ROLE_DEVICE_GRANT) s))
                        (filter (\<lambda>m. m \<noteq> oid) grant_marked) s) (\<lambda>s.
                    if oid \<notin> set grant_marked then add_op u ctx (SetRoleMarker dn ROLE_DEVICE_GRANT) s
                    else Inr s)))"

fun rename_target :: "op \<Rightarrow> (str \<times> str) option" where
  "rename_target (Rename dn new_cn _ _ _) = Some (dn, cn_dn new_cn (parent_of dn))"
| "rename_target _ = None"

definition rename_map :: "op list \<Rightarrow> str \<Rightarrow> str option" where
  "rename_map ops = map_of (rev (List.map_filter rename_target ops))"

definition sorted_diff :: "str list \<Rightarrow> str list \<Rightarrow> str list" where
  "sorted_diff xs ys = sort (remdups (filter (\<lambda>x. x \<notin> set ys) xs))"

definition drop_member ::
  "unicode \<Rightarrow> plan_ctx \<Rightarrow> str set \<Rightarrow> str \<Rightarrow> str \<Rightarrow> pstate \<Rightarrow> plan_stop + pstate" where
  "drop_member u ctx dupe_dn gdn m s =
     (if m \<in> dupe_dn then Inr (add_conflicts [MembershipFrozen m gdn] s)
      else if dn_is_at_or_within u m (x_idp_ou ctx) then add_op u ctx (RemoveMember gdn m) s
      else Inr (add_conflicts [ForeignMember m gdn] s))"

definition plan_members ::
  "unicode \<Rightarrow> plan_ctx \<Rightarrow> desired \<Rightarrow> current \<Rightarrow> str set \<Rightarrow> str set \<Rightarrow> (str \<Rightarrow> str option)
     \<Rightarrow> subject \<times> subject list \<Rightarrow> pstate \<Rightarrow> plan_stop + pstate" where
  "plan_members u ctx desired current dupes dupe_dn renames = (\<lambda>(goid, want_oids) s.
     if goid \<in> dupes \<or> map_of (d_groups desired) goid = None then Inr s
     else (case s_dn_of s goid of
             None \<Rightarrow> Inr s
           | Some gdn \<Rightarrow>
               let want = List.map_filter (s_dn_of s) want_oids;
                   have = (case lookup (c_groups current) goid of
                             Some cg \<Rightarrow> map (\<lambda>m. case renames m of Some n \<Rightarrow> n | None \<Rightarrow> m) (cg_members cg)
                           | None \<Rightarrow> [])
               in rbind (add_ops u ctx (map (AddMember gdn) (sorted_diff want have)) s)
                    (each (drop_member u ctx dupe_dn gdn) (sorted_diff have want))))"

definition plan_membership ::
  "unicode \<Rightarrow> plan_ctx \<Rightarrow> desired \<Rightarrow> current \<Rightarrow> str set \<Rightarrow> pstate \<Rightarrow> plan_stop + pstate" where
  "plan_membership u ctx desired current dupes s =
     each (plan_members u ctx desired current dupes (dupe_dns current dupes) (rename_map (p_ops (s_plan s))))
       (d_membership desired) s"

section \<open>The whole cycle\<close>

definition plan_sync :: "unicode \<Rightarrow> desired \<Rightarrow> current \<Rightarrow> plan_ctx \<Rightarrow> plan_stop + plan" where
  "plan_sync u desired current ctx =
     (case frozen desired current ctx of
        Some a \<Rightarrow> Inr (plan0\<lparr>p_alerts := [a]\<rparr>)
      | None \<Rightarrow>
          rbind (clear_stale u ctx current
              \<lparr>s_plan = plan0, s_dn_of = Map.empty, s_taken_dns = all_dns current,
               s_sam_keys = all_sam_keys u current\<rparr>) (\<lambda>s.
          rbind (scan_identities current) (\<lambda>(_, dupes, conflicts).
          let s = add_conflicts (conflicts @ map Unmanaged (c_unmanaged_dns current)) s in
          rbind (plan_users u ctx desired current dupes s) (\<lambda>s.
          rbind (retire_users u ctx desired current dupes s) (\<lambda>s.
          rbind (check_collisions u ctx desired current dupes s) (\<lambda>s.
          rbind (plan_groups u ctx desired current dupes s) (\<lambda>s.
          rbind (quarantine_groups u ctx desired current dupes s) (\<lambda>s.
          rbind (plan_grant_marker u ctx desired current s) (\<lambda>s.
          rbind (plan_membership u ctx desired current dupes s) (\<lambda>s.
          Inr (s_plan s)))))))))))"

section \<open>No panic\<close>

text \<open>A step is safe for a postcondition when it does not panic and, if it goes on, the
  postcondition holds. A refused cycle is not a panic.\<close>

definition safe :: "plan_stop + 'a \<Rightarrow> ('a \<Rightarrow> bool) \<Rightarrow> bool" where
  "safe r Q = (case r of Inr x \<Rightarrow> Q x | Inl Panicked \<Rightarrow> False | Inl (NameCollision _) \<Rightarrow> True)"

lemma safe_simps [simp]:
  "safe (Inr x) Q = Q x" "safe (Inl (NameCollision c)) Q" "\<not> safe (Inl Panicked) Q"
  by (simp_all add: safe_def)

lemma safe_rbind: "safe r P \<Longrightarrow> (\<And>x. P x \<Longrightarrow> r = Inr x \<Longrightarrow> safe (k x) Q) \<Longrightarrow> safe (rbind r k) Q"
  by (cases r) (auto simp: safe_def split: plan_stop.splits)

lemma safe_each:
  "P s \<Longrightarrow> (\<And>x s. x \<in> set xs \<Longrightarrow> P s \<Longrightarrow> safe (f x s) P) \<Longrightarrow> safe (each f xs s) P"
proof (induction xs arbitrary: s)
  case (Cons x xs)
  have "safe (f x s) P" using Cons.prems by simp
  then show ?case using Cons by (auto intro: safe_rbind)
qed simp

lemma safe_mono: "safe r P \<Longrightarrow> (\<And>x. P x \<Longrightarrow> Q x) \<Longrightarrow> safe r Q"
  by (auto simp: safe_def split: sum.splits plan_stop.splits)

lemma safe_ok_or: "safe (ok_or Panicked r) P \<longleftrightarrow> (\<exists>x. r = Some x \<and> P x)"
  by (cases r) auto

lemma safe_map_err: "safe (map_err (\<lambda>c. NameCollision (f c)) r) (\<lambda>x. r = Inr x)"
  by (cases r) auto

text \<open>The invariant: the DN recorded for a group of the desired state is inside the unit. It
  does not depend on the plan, the taken DNs and the account-name keys.\<close>

definition dn_inv :: "unicode \<Rightarrow> plan_ctx \<Rightarrow> desired \<Rightarrow> pstate \<Rightarrow> bool" where
  "dn_inv u ctx desired s \<longleftrightarrow>
     (\<forall>oid dn. oid \<in> fst ` set (d_groups desired) \<longrightarrow> s_dn_of s oid = Some dn
        \<longrightarrow> dn_is_at_or_within u dn (x_idp_ou ctx))"

lemma dn_inv_cong: "s_dn_of s' = s_dn_of s \<Longrightarrow> dn_inv u ctx d s' \<longleftrightarrow> dn_inv u ctx d s"
  by (simp add: dn_inv_def)

lemma dn_inv_simps [simp]:
  "dn_inv u ctx d (s\<lparr>s_plan := p\<rparr>) \<longleftrightarrow> dn_inv u ctx d s"
  "dn_inv u ctx d (s\<lparr>s_taken_dns := t\<rparr>) \<longleftrightarrow> dn_inv u ctx d s"
  "dn_inv u ctx d (s\<lparr>s_sam_keys := k\<rparr>) \<longleftrightarrow> dn_inv u ctx d s"
  "dn_inv u ctx d (add_conflicts cs s) \<longleftrightarrow> dn_inv u ctx d s"
  "dn_inv u ctx d (add_alert a s) \<longleftrightarrow> dn_inv u ctx d s"
  by (simp_all add: dn_inv_def add_conflicts_def add_alert_def)

lemma dn_inv_user:
  "dn_inv u ctx d s \<Longrightarrow> oid \<notin> fst ` set (d_groups d) \<Longrightarrow> dn_inv u ctx d (s\<lparr>s_dn_of := (s_dn_of s)(oid \<mapsto> dn)\<rparr>)"
  by (auto simp: dn_inv_def)

lemma dn_inv_group:
  "dn_inv u ctx d s \<Longrightarrow> dn_is_at_or_within u dn (x_idp_ou ctx) \<Longrightarrow>
     dn_inv u ctx d (s\<lparr>s_dn_of := (s_dn_of s)(oid \<mapsto> dn)\<rparr>)"
  by (auto simp: dn_inv_def)

lemma add_op_safe:
  "dn_is_at_or_within u (op_dn op) (x_idp_ou ctx) \<Longrightarrow> dn_inv u ctx d s \<Longrightarrow>
     safe (add_op u ctx op s) (dn_inv u ctx d)"
  by (simp add: add_op_def)

lemma add_ops_safe:
  "(\<And>op. op \<in> set ops \<Longrightarrow> dn_is_at_or_within u (op_dn op) (x_idp_ou ctx)) \<Longrightarrow> dn_inv u ctx d s \<Longrightarrow>
     safe (add_ops u ctx ops s) (dn_inv u ctx d)"
proof (induction ops arbitrary: s)
  case (Cons op ops)
  then show ?case by (auto intro!: safe_rbind add_op_safe)
qed simp

text \<open>What the callers of the planner guarantee: the objects of the current state are below the
  unit that was searched, an object is filed under the subject of its identity, the two kinds
  have different subjects, subjects start with hexadecimal digits (both adapters accept only
  GUIDs) and name candidates come from their constructor.\<close>

definition below :: "unicode \<Rightarrow> plan_ctx \<Rightarrow> str \<Rightarrow> bool" where
  "below u ctx dn \<longleftrightarrow> dn_is_at_or_within u dn (x_idp_ou ctx)
     \<and> dn_is_at_or_within u (parent_of dn) (x_idp_ou ctx)"

definition filed_by_subject :: "current \<Rightarrow> bool" where
  "filed_by_subject current \<longleftrightarrow> (\<exists>subject_of.
     (\<forall>(oid, x) \<in> set (c_users current). oid = subject_of (cu_identity x))
     \<and> (\<forall>(oid, g) \<in> set (c_groups current). oid = subject_of (cg_identity g)))"

definition wf_inputs :: "unicode \<Rightarrow> desired \<Rightarrow> current \<Rightarrow> plan_ctx \<Rightarrow> bool" where
  "wf_inputs u desired current ctx \<longleftrightarrow>
     dn_components u (x_idp_ou ctx) \<noteq> None
     \<and> (\<forall>(oid, cu) \<in> set (c_users current). below u ctx (cu_dn cu))
     \<and> (\<forall>(oid, cg) \<in> set (c_groups current). below u ctx (cg_dn cg))
     \<and> filed_by_subject current
     \<and> fst ` set (d_users desired) \<inter> fst ` set (d_groups desired) = {}
     \<and> (\<forall>(oid, du) \<in> set (d_users desired). hex_oid oid \<and> wf_desired_user u du)
     \<and> (\<forall>(oid, dg) \<in> set (d_groups desired). hex_oid oid)"

lemma lookup_Some: "lookup xs k = Some v \<Longrightarrow> (k, v) \<in> set xs"
  by (auto simp: lookup_def dest: map_of_SomeD)

lemma lookup_key: "k \<in> fst ` set xs \<Longrightarrow> \<exists>v. lookup xs k = Some v"
  by (metis lookup_def map_of_eq_None_iff not_None_eq set_rev)

lemma hex_no_dn_syntax: "hex_oid oid \<Longrightarrow> no_dn_syntax (oid4 oid)"
  by (auto simp: hex_oid_def list_all_iff no_dn_syntax_def is_ascii_hexdigit_def is_ascii_digit_def)

lemma plain_cn_suffixed: "plain_cn cn \<Longrightarrow> hex_oid oid \<Longrightarrow> plain_cn (cn @ lit '' ('' @ oid4 oid @ lit '')'')"
  by (intro plain_cn_append) (simp_all add: hex_no_dn_syntax)

lemma fresh_dn_within:
  assumes "plain_cn cn" "hex_oid oid" "dn_components u ou \<noteq> None"
  shows "dn_is_at_or_within u (fst (fresh_dn cn oid ou taken)) ou"
  using assms plain_cn_suffixed [OF assms(1,2)]
  by (auto simp: fresh_dn_def Let_def intro: cn_dn_within dn_within_refl)

lemma group_names_plain: "hex_oid oid \<Longrightarrow> plain_cn (fst (group_names n oid sfx))"
proof -
  assume h: "hex_oid oid"
  have "plain_cn (lit ''group-'')" by (simp add: plain_cn_alt no_dn_syntax_def is_whitespace_def kb_lits)
  then have "plain_cn (lit ''group-'' @ oid4 oid)" using h by (intro plain_cn_append) (simp_all add: hex_no_dn_syntax)
  then show ?thesis using safe_name_chars by (auto simp: group_names_def Let_def split: option.splits)
qed

lemma new_user_safe:
  assumes "unicode_tables u" "dn_components u (x_idp_ou ctx) \<noteq> None" "hex_oid oid" "wf_desired_user u du"
    "oid \<notin> fst ` set (d_groups d)" "dn_inv u ctx d s"
  shows "safe (new_user u ctx oid du s) (dn_inv u ctx d)"
proof (cases "x_identity ctx oid")
  case (Inl e)
  then show ?thesis using assms(6) by (simp add: new_user_def encoded_identity_def)
next
  case (Inr identity)
  have "safe (alloc u ctx du oid s) (\<lambda>(sam, upn, cn). plain_cn cn)"
    unfolding alloc_def
    by (rule safe_mono [OF safe_map_err]) (use alloc_names_plain_cn [OF assms(1,4,3)] in auto)
  then show ?thesis
    unfolding new_user_def encoded_identity_def Inr Let_def sum.case option.case prod.case
  proof (rule safe_rbind, goal_cases)
    case (1 x)
    obtain sam upn cn where x: "x = (sam, upn, cn)" by (cases x)
    obtain dn taken where f: "fresh_dn cn oid (x_idp_ou ctx) (s_taken_dns s) = (dn, taken)"
      by (cases "fresh_dn cn oid (x_idp_ou ctx) (s_taken_dns s)")
    have "dn_is_at_or_within u dn (x_idp_ou ctx)"
      using fresh_dn_within [OF _ assms(3,2), of cn "s_taken_dns s"] 1(1) x f by simp
    then show ?case
      using assms(5,6) unfolding x prod.case f by (intro add_op_safe) (auto simp: dn_inv_def)
  qed
qed

lemma alloc_safe:
  assumes "unicode_tables u" "hex_oid oid" "wf_desired_user u du"
  shows "safe (alloc u ctx du oid s) (\<lambda>(sam, upn, cn). plain_cn cn)"
  unfolding alloc_def
  by (rule safe_mono [OF safe_map_err]) (use alloc_names_plain_cn [OF assms(1,3,2)] in auto)

lemma restore_user_safe:
  assumes "unicode_tables u" "hex_oid oid" "wf_desired_user u du" "below u ctx (cu_dn cu)"
    "oid \<notin> fst ` set (d_groups d)" "dn_inv u ctx d s"
  shows "safe (restore_user u ctx oid du cu s) (\<lambda>(_, s). dn_inv u ctx d s)"
proof -
  have in_ou: "dn_is_at_or_within u (cu_dn cu) (x_idp_ou ctx)" using assms(4) by (simp add: below_def)
  have rename: "safe (rbind (add_op u ctx (Rename (cu_dn cu) cn a b c) s) (\<lambda>s. Inr (True, s\<lparr>s_dn_of := (s_dn_of s)(oid \<mapsto> dn)\<rparr>)))
      (\<lambda>(_, s). dn_inv u ctx d s)" if "dn_inv u ctx d s" for cn a b c s dn
    using in_ou that assms(5) by (intro safe_rbind [OF add_op_safe]) (auto intro: dn_inv_user)
  show ?thesis
    unfolding restore_user_def Let_def
    by (intro safe_rbind [OF add_ops_safe] safe_rbind [OF alloc_safe [OF assms(1-3)]])
       (use in_ou assms(6) in \<open>auto simp: split_beta intro!: rename\<close>)
qed

lemma follow_login_name_safe:
  assumes "unicode_tables u" "hex_oid oid" "wf_desired_user u du" "below u ctx (cu_dn cu)" "dn_inv u ctx d s"
  shows "safe (follow_login_name u ctx oid du cu r s) (dn_inv u ctx d)"
proof (cases "\<not> r \<and> x_automatic_sam_renames ctx \<and> \<not> has_prefix ST_NAME_PINNED (cu_markers cu)")
  case True
  show ?thesis
    unfolding follow_login_name_def if_P [OF True] Let_def
    by (rule safe_rbind [OF alloc_safe [OF assms(1-3)]])
       (use assms(4,5) in \<open>auto simp: split_beta below_def simp del: add_ops.simps intro!: add_ops_safe\<close>)
next
  case False
  show ?thesis unfolding follow_login_name_def if_not_P [OF False] using assms(5) by simp
qed

lemma follow_display_name_safe:
  assumes "below u ctx (cu_dn cu)" "oid \<notin> fst ` set (d_groups d)" "dn_inv u ctx d s"
  shows "safe (follow_display_name u ctx oid du cu r s) (dn_inv u ctx d)"
proof -
  have in_ou: "dn_is_at_or_within u (cu_dn cu) (x_idp_ou ctx)" using assms(1) by (simp add: below_def)
  have rename: "safe (rbind (add_op u ctx (Rename (cu_dn cu) cn a b c) s) (\<lambda>s. Inr (s\<lparr>s_dn_of := (s_dn_of s)(oid \<mapsto> dn)\<rparr>)))
      (dn_inv u ctx d)" if "dn_inv u ctx d s" for cn a b c s dn
    using in_ou that assms(2) by (intro safe_rbind [OF add_op_safe]) (auto intro: dn_inv_user)
  show ?thesis
    using assms(3) in_ou unfolding follow_display_name_def Let_def
    by (auto intro!: rename add_op_safe)
qed

lemma known_user_safe:
  assumes "unicode_tables u" "hex_oid oid" "wf_desired_user u du" "below u ctx (cu_dn cu)"
    "oid \<notin> fst ` set (d_groups d)" "dn_inv u ctx d s"
  shows "safe (known_user u ctx oid du cu s) (dn_inv u ctx d)"
proof -
  have in_ou: "dn_is_at_or_within u (cu_dn cu) (x_idp_ou ctx)" using assms(4) by (simp add: below_def)
  let ?s = "s\<lparr>s_dn_of := (s_dn_of s)(oid \<mapsto> cu_dn cu)\<rparr>"
  have s: "dn_inv u ctx d ?s" using assms(5,6) by (intro dn_inv_user)
  have toggle: "safe (rbind (add_op u ctx (if b then EnableUser (cu_dn cu) else DisableUser (cu_dn cu)) ?s)
      (\<lambda>s. Inr (False, s))) (\<lambda>(_, s). dn_inv u ctx d s)" for b
    using s in_ou by (intro safe_rbind [OF add_op_safe]) auto
  have first: "safe (if has_prefix ST_RETIRED (cu_markers cu) then restore_user u ctx oid du cu ?s
         else if du_enabled du \<noteq> cu_enabled cu
         then rbind (add_op u ctx (if du_enabled du then EnableUser (cu_dn cu) else DisableUser (cu_dn cu)) ?s)
                (\<lambda>s. Inr (False, s))
         else Inr (False, ?s)) (\<lambda>(_, s). dn_inv u ctx d s)"
    using restore_user_safe [OF assms(1-5) s] toggle s by simp
  show ?thesis
    unfolding known_user_def Let_def
    by (rule safe_rbind [OF first])
       (auto intro!: safe_rbind [OF follow_login_name_safe [OF assms(1-4)]]
         follow_display_name_safe [OF assms(4,5)])
qed

lemma wf_inputs_simps:
  assumes "wf_inputs u desired current ctx"
  shows "dn_components u (x_idp_ou ctx) \<noteq> None"
    "(oid, cu) \<in> set (c_users current) \<Longrightarrow> below u ctx (cu_dn cu)"
    "(oid, cg) \<in> set (c_groups current) \<Longrightarrow> below u ctx (cg_dn cg)"
    "(oid, du) \<in> set (d_users desired) \<Longrightarrow> hex_oid oid \<and> wf_desired_user u du"
    "(oid, dg) \<in> set (d_groups desired) \<Longrightarrow> hex_oid oid"
    "fst ` set (d_users desired) \<inter> fst ` set (d_groups desired) = {}"
  using assms unfolding wf_inputs_def by auto

lemma wf_inputsD:
  assumes w: "wf_inputs u desired current ctx"
  shows "dn_components u (x_idp_ou ctx) \<noteq> None"
    "lookup (c_users current) oid = Some cu \<Longrightarrow> below u ctx (cu_dn cu)"
    "lookup (c_groups current) oid = Some cg \<Longrightarrow> below u ctx (cg_dn cg)"
    "(oid, du) \<in> set (d_users desired) \<Longrightarrow> hex_oid oid \<and> wf_desired_user u du
        \<and> oid \<notin> fst ` set (d_groups desired)"
    "(oid, dg) \<in> set (d_groups desired) \<Longrightarrow> hex_oid oid"
proof -
  show "dn_components u (x_idp_ou ctx) \<noteq> None" using w by (rule wf_inputs_simps)
  show "below u ctx (cu_dn cu)" if "lookup (c_users current) oid = Some cu"
    using wf_inputs_simps(2) [OF w lookup_Some [OF that]] .
  show "below u ctx (cg_dn cg)" if "lookup (c_groups current) oid = Some cg"
    using wf_inputs_simps(3) [OF w lookup_Some [OF that]] .
  show "hex_oid oid" if "(oid, dg) \<in> set (d_groups desired)" using wf_inputs_simps(5) [OF w that] .
  assume o: "(oid, du) \<in> set (d_users desired)"
  then have "oid \<in> fst ` set (d_users desired)" by force
  then show "hex_oid oid \<and> wf_desired_user u du \<and> oid \<notin> fst ` set (d_groups desired)"
    using wf_inputs_simps(4) [OF w o] wf_inputs_simps(6) [OF w] by blast
qed

lemma clear_markers_safe:
  assumes "wf_inputs u desired current ctx" "dn_inv u ctx desired s"
  shows "safe (each (\<lambda>marked s. rbind (ok_or Panicked (lookup (c_groups current) marked)) (\<lambda>g.
      add_op u ctx (ClearMarker (cg_dn g) role) s)) (filter P (marked_with role' current)) s) (dn_inv u ctx desired)"
proof (rule safe_each [where P = "dn_inv u ctx desired", OF assms(2)])
  fix oid s
  assume o: "oid \<in> set (filter P (marked_with role' current))" and s: "dn_inv u ctx desired s"
  then have "oid \<in> fst ` set (c_groups current)" by (auto simp: marked_with_def)
  then obtain g where g: "lookup (c_groups current) oid = Some g" using lookup_key by blast
  have "below u ctx (cg_dn g)" using g by (rule wf_inputsD(3) [OF assms(1)])
  then show "safe (rbind (ok_or Panicked (lookup (c_groups current) oid)) (\<lambda>g.
      add_op u ctx (ClearMarker (cg_dn g) role) s)) (dn_inv u ctx desired)"
    using s by (simp add: g below_def add_op_safe)
qed

lemma plan_users_safe:
  assumes "unicode_tables u" "wf_inputs u desired current ctx" "dn_inv u ctx desired s"
  shows "safe (plan_users u ctx desired current dupes s) (dn_inv u ctx desired)"
  unfolding plan_users_def
proof (rule safe_each [where P = "dn_inv u ctx desired", OF assms(3)])
  fix x s
  assume x: "x \<in> set (d_users desired)" and s: "dn_inv u ctx desired s"
  obtain oid du where xe: "x = (oid, du)" by (cases x)
  note w = wf_inputsD(4) [OF assms(2) x [unfolded xe]]
  show "safe ((\<lambda>(oid, du) s.
         if oid \<in> dupes then Inr s
         else (case lookup (c_users current) oid of
                 None \<Rightarrow> new_user u ctx oid du s
               | Some cu \<Rightarrow> known_user u ctx oid du cu s)) x s) (dn_inv u ctx desired)"
    unfolding xe prod.case
    using s w new_user_safe [OF assms(1) wf_inputsD(1) [OF assms(2)], of oid du desired s]
      known_user_safe [OF assms(1), of oid du ctx _ desired s] wf_inputsD(2) [OF assms(2), of oid]
    by (auto split: option.splits)
qed

lemma retire_user_safe:
  assumes "below u ctx (cu_dn cu)" "dn_inv u ctx d s"
  shows "safe (retire_user u ctx oid cu s) (dn_inv u ctx d)"
  unfolding retire_user_def Let_def
  by (rule safe_rbind [OF add_ops_safe])
     (use assms in \<open>auto simp: below_def split_beta split: if_splits intro!: add_op_safe\<close>)

lemma retire_users_safe:
  assumes "wf_inputs u desired current ctx" "dn_inv u ctx desired s"
  shows "safe (retire_users u ctx desired current dupes s) (dn_inv u ctx desired)"
  unfolding retire_users_def
proof (rule safe_each [where P = "dn_inv u ctx desired", OF assms(2)])
  fix oid s
  assume "oid \<in> set (sort (map fst (c_users current)))" and s: "dn_inv u ctx desired s"
  then obtain cu where "lookup (c_users current) oid = Some cu" using lookup_key [of oid "c_users current"] by auto
  then show "safe (if oid \<in> fst ` set (d_users desired) \<or> oid \<in> dupes then Inr s
         else rbind (ok_or Panicked (lookup (c_users current) oid)) (\<lambda>cu. retire_user u ctx oid cu s))
       (dn_inv u ctx desired)"
    using s retire_user_safe [OF wf_inputsD(2) [OF assms(1)]] by simp
qed

lemma new_group_safe:
  assumes "dn_components u (x_idp_ou ctx) \<noteq> None" "hex_oid oid" "dn_inv u ctx d s"
  shows "safe (new_group u ctx m oid dg s) (dn_inv u ctx d)"
proof (cases "x_identity ctx oid")
  case (Inl e)
  then show ?thesis using assms(3) by (simp add: new_group_def encoded_identity_def)
next
  case (Inr identity)
  obtain cn sam where g: "group_names (dg_display_name dg) oid (x_group_suffix ctx) = (cn, sam)"
    by (cases "group_names (dg_display_name dg) oid (x_group_suffix ctx)")
  obtain dn taken where f: "fresh_dn cn oid (x_idp_ou ctx) (s_taken_dns s) = (dn, taken)"
    by (cases "fresh_dn cn oid (x_idp_ou ctx) (s_taken_dns s)")
  have "plain_cn cn" using group_names_plain [OF assms(2)] g by (metis fst_conv)
  then have dn: "dn_is_at_or_within u dn (x_idp_ou ctx)"
    using fresh_dn_within [OF _ assms(2,1)] f by (metis fst_conv)
  show ?thesis
    unfolding new_group_def encoded_identity_def Inr sum.case prod.case option.case Let_def g f
    using assms(3) dn by (intro add_op_safe) (auto simp: dn_inv_def add_alert_def)
qed

lemma rename_group_safe:
  assumes "below u ctx (cg_dn cg)" "hex_oid oid" "dn_inv u ctx d s"
  shows "safe (rename_group u ctx oid dg cg s) (dn_inv u ctx d)"
proof -
  obtain cn sam where g: "group_names (dg_display_name dg) oid (x_group_suffix ctx) = (cn, sam)"
    by (cases "group_names (dg_display_name dg) oid (x_group_suffix ctx)")
  have cn: "plain_cn cn" using group_names_plain [OF assms(2)] g by (metis fst_conv)
  have p: "dn_is_at_or_within u (parent_of (cg_dn cg)) (x_idp_ou ctx)"
    and c: "dn_is_at_or_within u (cg_dn cg) (x_idp_ou ctx)" using assms(1) by (simp_all add: below_def)
  have dns: "dn_is_at_or_within u (cn_dn cn (parent_of (cg_dn cg))) (x_idp_ou ctx)"
    "dn_is_at_or_within u (cn_dn (cn @ lit '' ('' @ oid4 oid @ lit '')'') (parent_of (cg_dn cg))) (x_idp_ou ctx)"
    using cn_dn_within [OF cn p] cn_dn_within [OF plain_cn_suffixed [OF cn assms(2)] p] by simp_all
  have rename: "safe (rbind (add_op u ctx (Rename (cg_dn cg) n a b c) s) (\<lambda>s. Inr (s\<lparr>s_dn_of := (s_dn_of s)(oid \<mapsto> dn)\<rparr>)))
      (dn_inv u ctx d)" if "dn_inv u ctx d s" "dn_is_at_or_within u dn (x_idp_ou ctx)" for n a b c s dn
    using c that by (intro safe_rbind [OF add_op_safe]) (auto intro: dn_inv_group)
  show ?thesis
    using assms(3) dns unfolding rename_group_def g Let_def prod.case
    by (auto intro!: rename)
qed

lemma known_group_safe:
  assumes "below u ctx (cg_dn cg)" "hex_oid oid" "dn_inv u ctx d s"
  shows "safe (known_group u ctx m oid dg cg s) (dn_inv u ctx d)"
proof -
  have c: "dn_is_at_or_within u (cg_dn cg) (x_idp_ou ctx)" using assms(1) by (simp add: below_def)
  let ?s = "s\<lparr>s_dn_of := (s_dn_of s)(oid \<mapsto> cg_dn cg)\<rparr>"
  have s: "dn_inv u ctx d ?s" using assms(3) c by (rule dn_inv_group)
  have first: "safe (if has_prefix ST_QUAR (cg_markers cg) then add_op u ctx (ClearMarker (cg_dn cg) ST_QUAR) ?s
      else Inr ?s) (dn_inv u ctx d)"
    using s c by (simp add: add_op_safe)
  show ?thesis
    unfolding known_group_def Let_def
    by (rule safe_rbind [OF first], rule safe_rbind [OF rename_group_safe [OF assms(1,2)]])
       (use c in \<open>auto intro: add_op_safe\<close>)
qed

lemma plan_groups_safe:
  assumes "wf_inputs u desired current ctx" "dn_inv u ctx desired s"
  shows "safe (plan_groups u ctx desired current dupes s) (dn_inv u ctx desired)"
  unfolding plan_groups_def Let_def
proof (rule safe_each [where P = "dn_inv u ctx desired", OF assms(2)])
  fix x s
  assume x: "x \<in> set (d_groups desired)" and s: "dn_inv u ctx desired s"
  obtain oid dg where xe: "x = (oid, dg)" by (cases x)
  have h: "hex_oid oid" using wf_inputsD(5) [OF assms(1)] x xe by blast
  show "safe ((\<lambda>(oid, dg) s.
         if oid \<in> dupes then Inr s
         else (case lookup (c_groups current) oid of
                 None \<Rightarrow> new_group u ctx (x_admission ctx \<notin> set (marked_with ROLE_ADMISSION current)) oid dg s
               | Some cg \<Rightarrow> known_group u ctx (x_admission ctx \<notin> set (marked_with ROLE_ADMISSION current)) oid dg cg s)) x s)
       (dn_inv u ctx desired)"
    unfolding xe prod.case
    using s new_group_safe [OF wf_inputsD(1) [OF assms(1)] h s] known_group_safe [OF _ h s]
      wf_inputsD(3) [OF assms(1), of oid]
    by (auto split: option.splits)
qed

lemma quarantine_group_safe:
  assumes "below u ctx (cg_dn cg)" "dn_inv u ctx d s"
  shows "safe (quarantine_group u ctx oid cg s) (dn_inv u ctx d)"
proof -
  have c: "dn_is_at_or_within u (cg_dn cg) (x_idp_ou ctx)" using assms(1) by (simp add: below_def)
  have first: "safe (if \<not> has_prefix ST_QUAR (cg_markers cg)
      then add_ops u ctx [ClearMembers (cg_dn cg) k, SetMarker (cg_dn cg) m] (add_conflicts cs s)
      else Inr s) (dn_inv u ctx d)" for k m cs
    using c assms(2) by (auto intro!: add_ops_safe simp del: add_ops.simps)
  show ?thesis
    unfolding quarantine_group_def Let_def
    by (rule safe_rbind [OF first]) (use c in \<open>auto simp: split_beta intro: add_op_safe\<close>)
qed

lemma quarantine_groups_safe:
  assumes "wf_inputs u desired current ctx" "dn_inv u ctx desired s"
  shows "safe (quarantine_groups u ctx desired current dupes s) (dn_inv u ctx desired)"
  unfolding quarantine_groups_def
proof (rule safe_each [where P = "dn_inv u ctx desired", OF assms(2)])
  fix oid s
  assume "oid \<in> set (sort (map fst (c_groups current)))" and s: "dn_inv u ctx desired s"
  then obtain cg where "lookup (c_groups current) oid = Some cg" using lookup_key [of oid "c_groups current"] by auto
  then show "safe (if oid \<in> fst ` set (d_groups desired) \<or> oid \<in> dupes then Inr s
         else rbind (ok_or Panicked (lookup (c_groups current) oid)) (\<lambda>cg.
           if oid = x_admission ctx then Inr (add_alert (AdmissionVanished (cg_dn cg)) s)
           else quarantine_group u ctx oid cg s)) (dn_inv u ctx desired)"
    using s quarantine_group_safe [OF wf_inputsD(3) [OF assms(1)]] by simp
qed

lemma grant_marker_safe:
  assumes "wf_inputs u desired current ctx" "dn_inv u ctx desired s"
  shows "safe (plan_grant_marker u ctx desired current s) (dn_inv u ctx desired)"
proof (cases "x_grant ctx")
  case None
  then show ?thesis using assms(2) by (simp add: plan_grant_marker_def Let_def)
next
  case (Some oid)
  show ?thesis
  proof (cases "map_of (d_groups desired) oid = None \<or> s_dn_of s oid = None")
    case True
    then show ?thesis using assms(2) Some by (auto simp: plan_grant_marker_def Let_def)
  next
    case False
    then obtain dn where dn: "s_dn_of s oid = Some dn" by auto
    have "oid \<in> fst ` set (d_groups desired)" using False by (metis map_of_eq_None_iff)
    then have w: "dn_is_at_or_within u dn (x_idp_ou ctx)" using assms(2) dn by (simp add: dn_inv_def)
    have loop: "safe (each (\<lambda>marked s. rbind (ok_or Panicked (lookup (c_groups current) marked)) (\<lambda>g.
        add_op u ctx (ClearMarker (cg_dn g) role) s)) (filter P (marked_with role' current)) s) (dn_inv u ctx desired)"
      for P role role'
      using assms by (rule clear_markers_safe)
    show ?thesis
      using False Some dn unfolding plan_grant_marker_def Let_def
      by (auto intro!: safe_rbind [OF loop] add_op_safe simp: w)
  qed
qed

lemma plan_members_safe:
  assumes "dn_inv u ctx desired s"
  shows "safe (plan_members u ctx desired current dupes dd rm x s) (dn_inv u ctx desired)"
proof -
  obtain goid want where x: "x = (goid, want)" by (cases x)
  have drop: "safe (each (drop_member u ctx dd gdn) ms s) (dn_inv u ctx desired)"
    if "dn_is_at_or_within u gdn (x_idp_ou ctx)" "dn_inv u ctx desired s" for gdn ms s
    using that
    by (intro safe_each [where P = "dn_inv u ctx desired"]) (auto simp: drop_member_def intro: add_op_safe)
  have gdn: "dn_is_at_or_within u gdn (x_idp_ou ctx)"
    if "s_dn_of s goid = Some gdn" "map_of (d_groups desired) goid \<noteq> None" for gdn
    using that assms by (metis dn_inv_def map_of_eq_None_iff)
  show ?thesis
    unfolding x plan_members_def prod.case Let_def
    using assms gdn by (auto split: option.splits intro!: safe_rbind [OF add_ops_safe] drop)
qed

lemma plan_membership_safe:
  "dn_inv u ctx desired s \<Longrightarrow> safe (plan_membership u ctx desired current dupes s) (dn_inv u ctx desired)"
  unfolding plan_membership_def
  by (intro safe_each [where P = "dn_inv u ctx desired"] plan_members_safe)

text \<open>The scan: an entry seen before was filed under the same subject.\<close>

definition scan_inv :: "(str \<Rightarrow> str) \<Rightarrow> scan \<Rightarrow> bool" where
  "scan_inv f = (\<lambda>(seen, _, _). \<forall>i oid. seen i = Some oid \<longrightarrow> oid = f i)"

lemma scan_entry_safe:
  assumes "scan_inv f sc" "oid = f i" "dn_for oid \<noteq> None"
  shows "safe (scan_entry dn_for oid dn i sc) (scan_inv f)"
  using assms by (cases sc) (auto simp: scan_entry_def scan_inv_def split: option.splits)

lemma scan_identities_safe:
  assumes "filed_by_subject current"
  shows "safe (scan_identities current) (\<lambda>_. True)"
proof -
  obtain f where f: "\<And>oid x. (oid, x) \<in> set (c_users current) \<Longrightarrow> oid = f (cu_identity x)"
    "\<And>oid g. (oid, g) \<in> set (c_groups current) \<Longrightarrow> oid = f (cg_identity g)"
  proof -
    obtain f where "\<forall>(oid, x) \<in> set (c_users current). oid = f (cu_identity x)"
      "\<forall>(oid, g) \<in> set (c_groups current). oid = f (cg_identity g)"
      using assms unfolding filed_by_subject_def by blast
    then show ?thesis by (intro that [of f]) blast+
  qed
  have key: "map_option h (lookup xs oid) \<noteq> None" if "(oid, x) \<in> set xs" for h oid x and xs :: "(str \<times> 'z) list"
    using lookup_key [of oid xs] that by force
  have users: "safe (each (\<lambda>(oid, x). scan_entry (\<lambda>p. map_option cu_dn (lookup (c_users current) p))
       oid (cu_dn x) (cu_identity x)) (c_users current) sc) (scan_inv f)" if "scan_inv f sc" for sc
    using that by (rule safe_each [where P = "scan_inv f"])
      (auto intro!: scan_entry_safe f(1) dest: key)
  have groups: "safe (each (\<lambda>(oid, g). scan_entry (\<lambda>p. map_option cg_dn (lookup (c_groups current) p))
       oid (cg_dn g) (cg_identity g)) (c_groups current) sc) (scan_inv f)" if "scan_inv f sc" for sc
    using that by (rule safe_each [where P = "scan_inv f"])
      (auto intro!: scan_entry_safe f(2) dest: key)
  show ?thesis
    unfolding scan_identities_def
    by (rule safe_rbind [OF users]) (auto simp: scan_inv_def intro: safe_mono [OF groups])
qed

lemma check_collisions_safe:
  "dn_inv u ctx d s \<Longrightarrow> safe (check_collisions u ctx d current dupes s) (dn_inv u ctx d)"
  by (simp add: check_collisions_def Let_def)

lemma dn_inv_empty: "s_dn_of s = Map.empty \<Longrightarrow> dn_inv u ctx d s"
  by (simp add: dn_inv_def)

lemma plan_sync_safe:
  assumes "unicode_tables u" "wf_inputs u desired current ctx"
  shows "safe (plan_sync u desired current ctx) (\<lambda>_. True)"
proof (cases "frozen desired current ctx")
  case (Some a)
  then show ?thesis by (simp add: plan_sync_def)
next
  case None
  have stale: "safe (clear_stale u ctx current s) (dn_inv u ctx desired)" if "dn_inv u ctx desired s" for s
    unfolding clear_stale_def using assms(2) that by (rule clear_markers_safe)
  have scan: "safe (scan_identities current) (\<lambda>_. True)"
    using assms(2) by (intro scan_identities_safe) (simp add: wf_inputs_def)
  show ?thesis
    unfolding plan_sync_def None option.case
    by (rule safe_rbind [OF stale safe_rbind [OF scan]])
       (auto simp: Let_def dn_inv_empty
         intro!: safe_rbind [OF plan_users_safe [OF assms]] safe_rbind [OF retire_users_safe [OF assms(2)]]
           safe_rbind [OF check_collisions_safe] safe_rbind [OF plan_groups_safe [OF assms(2)]]
           safe_rbind [OF quarantine_groups_safe [OF assms(2)]] safe_rbind [OF grant_marker_safe [OF assms(2)]]
           safe_rbind [OF plan_membership_safe])
qed

section \<open>What each phase adds to the plan\<close>

definition grows :: "(op \<Rightarrow> bool) \<Rightarrow> pstate \<Rightarrow> pstate \<Rightarrow> bool" where
  "grows R s s' \<longleftrightarrow> (\<exists>new. p_ops (s_plan s') = p_ops (s_plan s) @ new \<and> list_all R new)"

definition keeps :: "(op \<Rightarrow> bool) \<Rightarrow> pstate \<Rightarrow> plan_stop + pstate \<Rightarrow> bool" where
  "keeps R s r \<longleftrightarrow> (\<forall>s'. r = Inr s' \<longrightarrow> grows R s s')"

lemma grows_refl [simp]: "grows R s s"
  by (simp add: grows_def)

lemma grows_trans: "grows R s t \<Longrightarrow> grows R t v \<Longrightarrow> grows R s v"
  by (auto simp: grows_def)

lemma grows_simps [simp]:
  "grows R (s\<lparr>s_taken_dns := t\<rparr>) s' \<longleftrightarrow> grows R s s'" "grows R (s\<lparr>s_sam_keys := k\<rparr>) s' \<longleftrightarrow> grows R s s'"
  "grows R (s\<lparr>s_dn_of := m\<rparr>) s' \<longleftrightarrow> grows R s s'" "grows R s (s'\<lparr>s_dn_of := m\<rparr>) \<longleftrightarrow> grows R s s'"
  "grows R s (s'\<lparr>s_taken_dns := t\<rparr>) \<longleftrightarrow> grows R s s'" "grows R s (s'\<lparr>s_sam_keys := k\<rparr>) \<longleftrightarrow> grows R s s'"
  "grows R s (add_conflicts cs s') \<longleftrightarrow> grows R s s'" "grows R s (add_alert a s') \<longleftrightarrow> grows R s s'"
  "grows R (add_conflicts cs s) s' \<longleftrightarrow> grows R s s'" "grows R (add_alert a s) s' \<longleftrightarrow> grows R s s'"
  by (simp_all add: grows_def add_conflicts_def add_alert_def)

lemma keeps_simps [simp]:
  "keeps R s (Inr s') \<longleftrightarrow> grows R s s'" "keeps R s (Inl e)"
  "keeps R (s\<lparr>s_taken_dns := t\<rparr>) r \<longleftrightarrow> keeps R s r" "keeps R (s\<lparr>s_sam_keys := k\<rparr>) r \<longleftrightarrow> keeps R s r"
  "keeps R (s\<lparr>s_dn_of := m\<rparr>) r \<longleftrightarrow> keeps R s r"
  "keeps R (add_conflicts cs s) r \<longleftrightarrow> keeps R s r" "keeps R (add_alert a s) r \<longleftrightarrow> keeps R s r"
  by (simp_all add: keeps_def)

lemma keeps_rbind:
  "keeps R s r \<Longrightarrow> (\<And>t. r = Inr t \<Longrightarrow> keeps R t (k t)) \<Longrightarrow> keeps R s (rbind r k)"
  by (auto simp: keeps_def kb_results intro: grows_trans)

lemma keeps_value: "(\<And>x. r = Inr x \<Longrightarrow> keeps R s (k x)) \<Longrightarrow> keeps R s (rbind r k)"
  by (auto simp: keeps_def kb_results)

lemma keeps_pair:
  assumes "\<And>b t. r = Inr (b, t) \<Longrightarrow> grows R s t" "\<And>b t. keeps R t (k b t)"
  shows "keeps R s (rbind r (\<lambda>(b, t). k b t))"
  using assms by (cases r) (auto simp: keeps_def intro: grows_trans)

lemma keeps_each:
  "(\<And>x t. x \<in> set xs \<Longrightarrow> keeps R t (f x t)) \<Longrightarrow> keeps R s (each f xs s)"
proof (induction xs arbitrary: s)
  case (Cons x xs)
  then show ?case by (auto intro!: keeps_rbind)
qed simp

text \<open>The operations allowed everywhere: inside the unit; and outside the group phase, no group
  is created.\<close>

definition op_ok :: "unicode \<Rightarrow> plan_ctx \<Rightarrow> bool \<Rightarrow> op \<Rightarrow> bool" where
  "op_ok u ctx groups op \<longleftrightarrow> dn_is_at_or_within u (op_dn op) (x_idp_ou ctx) \<and> (is_CreateGroup op \<longrightarrow> groups)"

lemma add_op_keeps:
  "(is_CreateGroup op \<Longrightarrow> g) \<Longrightarrow> p_ops (s_plan t) = p_ops (s_plan s) \<Longrightarrow>
     keeps (op_ok u ctx g) s (add_op u ctx op t)"
  by (auto simp: keeps_def add_op_def grows_def op_ok_def split: if_splits)

lemma add_ops_keeps:
  assumes "\<And>op. op \<in> set ops \<Longrightarrow> is_CreateGroup op \<Longrightarrow> g" "p_ops (s_plan t) = p_ops (s_plan s)"
  shows "keeps (op_ok u ctx g) s (add_ops u ctx ops t)"
  using assms
proof (induction ops arbitrary: s t)
  case Nil
  then show ?case by (simp add: grows_def)
next
  case (Cons op ops)
  then show ?case by (auto intro!: keeps_rbind add_op_keeps)
qed

lemma p_ops_simps [simp]:
  "p_ops (s_plan (add_conflicts cs s)) = p_ops (s_plan s)" "p_ops (s_plan (add_alert a s)) = p_ops (s_plan s)"
  by (simp_all add: add_conflicts_def add_alert_def)

lemmas keeps_intros = keeps_rbind [OF add_op_keeps] keeps_rbind [OF add_ops_keeps] add_op_keeps add_ops_keeps

lemma new_user_keeps: "keeps (op_ok u ctx g) s (new_user u ctx oid du s)"
  by (auto simp: new_user_def encoded_identity_def Let_def split_beta split: sum.splits
      intro!: keeps_value keeps_intros)

lemma restore_user_grows:
  assumes "restore_user u ctx oid du cu s = Inr (b, s')"
  shows "grows (op_ok u ctx g) s s'"
proof -
  let ?ops = "ClearMarker (cu_dn cu) ST_RETIRED # (if du_enabled du \<and> \<not> cu_enabled cu then [EnableUser (cu_dn cu)] else [])"
  obtain t where t: "add_ops u ctx ?ops s = Inr t"
    using assms unfolding restore_user_def by (auto simp: kb_results simp del: add_ops.simps)
  have "keeps (op_ok u ctx g) s (add_ops u ctx ?ops s)" by (rule add_ops_keeps) (auto split: if_splits)
  then have st: "grows (op_ok u ctx g) s t" by (simp only: t keeps_simps)
  have "grows (op_ok u ctx g) t s'"
    using assms unfolding restore_user_def
    by (auto simp: t kb_results Let_def add_op_def grows_def op_ok_def split: if_splits simp del: add_ops.simps)
  with st show ?thesis by (rule grows_trans)
qed

lemma follow_login_name_keeps: "keeps (op_ok u ctx g) s (follow_login_name u ctx oid du cu r s)"
  by (auto simp: follow_login_name_def Let_def split_beta simp del: add_ops.simps
      intro!: keeps_value keeps_intros)

lemma follow_display_name_keeps: "keeps (op_ok u ctx g) s (follow_display_name u ctx oid du cu r s)"
  by (auto simp: follow_display_name_def Let_def intro!: keeps_intros)

lemma known_user_keeps: "keeps (op_ok u ctx g) s (known_user u ctx oid du cu s)"
proof -
  have first: "grows (op_ok u ctx g) s t" if "(if has_prefix ST_RETIRED (cu_markers cu) then restore_user u ctx oid du cu s0
         else if du_enabled du \<noteq> cu_enabled cu
         then rbind (add_op u ctx (if du_enabled du then EnableUser (cu_dn cu) else DisableUser (cu_dn cu)) s0)
                (\<lambda>s. Inr (False, s))
         else Inr (False, s0)) = Inr (b, t)" and "s0 = s\<lparr>s_dn_of := m\<rparr>" for b t s0 m
    using that restore_user_grows [of u ctx oid du cu s0 b t g]
    by (auto simp: kb_results add_op_def grows_def op_ok_def split: if_splits)
  show ?thesis
    unfolding known_user_def Let_def
    by (rule keeps_pair [OF first [OF _ refl]])
       (assumption, rule keeps_rbind [OF follow_login_name_keeps follow_display_name_keeps])
qed

lemma plan_users_keeps: "keeps (op_ok u ctx g) s (plan_users u ctx desired current dupes s)"
  unfolding plan_users_def
  by (rule keeps_each) (auto simp: new_user_keeps known_user_keeps split: option.splits)

lemma retire_user_keeps: "keeps (op_ok u ctx g) s (retire_user u ctx oid cu s)"
  unfolding retire_user_def
  by (rule keeps_rbind [OF add_ops_keeps]) (auto simp: Let_def split_beta split: if_splits intro!: keeps_intros)

lemma retire_users_keeps: "keeps (op_ok u ctx g) s (retire_users u ctx desired current dupes s)"
  unfolding retire_users_def by (rule keeps_each) (auto intro!: keeps_value simp: retire_user_keeps)

lemma check_collisions_keeps: "keeps R s (check_collisions u ctx desired current dupes s)"
  by (simp add: check_collisions_def Let_def)

lemma new_group_keeps: "keeps (op_ok u ctx True) s (new_group u ctx m oid dg s)"
  by (auto simp: new_group_def encoded_identity_def Let_def split_beta split: sum.splits
      intro!: keeps_intros)

lemma rename_group_keeps: "keeps (op_ok u ctx g) s (rename_group u ctx oid dg cg s)"
  by (auto simp: rename_group_def Let_def split_beta intro!: keeps_intros)

lemma known_group_keeps: "keeps (op_ok u ctx g) s (known_group u ctx m oid dg cg s)"
proof -
  have first: "keeps (op_ok u ctx g) s (if c then add_op u ctx (ClearMarker (cg_dn cg) p) (s\<lparr>s_dn_of := f\<rparr>)
      else Inr (s\<lparr>s_dn_of := f\<rparr>))" for c p f
    by (auto intro!: keeps_intros)
  show ?thesis
    unfolding known_group_def Let_def
    by (rule keeps_rbind [OF first keeps_rbind [OF rename_group_keeps]]) (auto intro!: keeps_intros)
qed

lemma plan_groups_keeps: "keeps (op_ok u ctx True) s (plan_groups u ctx desired current dupes s)"
  unfolding plan_groups_def Let_def
  by (rule keeps_each) (auto simp: new_group_keeps known_group_keeps split: option.splits)

lemma quarantine_group_keeps: "keeps (op_ok u ctx g) s (quarantine_group u ctx oid cg s)"
  unfolding quarantine_group_def Let_def
  by (auto simp: split_beta simp del: add_ops.simps intro!: keeps_intros)

lemma quarantine_groups_keeps: "keeps (op_ok u ctx g) s (quarantine_groups u ctx desired current dupes s)"
  unfolding quarantine_groups_def
  by (rule keeps_each) (auto intro!: keeps_value simp: quarantine_group_keeps)

lemma grant_marker_keeps: "keeps (op_ok u ctx g) s (plan_grant_marker u ctx desired current s)"
proof -
  have loop: "keeps (op_ok u ctx g) s (each (\<lambda>marked s. rbind (ok_or Panicked (lookup (c_groups current) marked)) (\<lambda>g.
      add_op u ctx (ClearMarker (cg_dn g) role) s)) ms s)" for role ms
    by (rule keeps_each) (auto intro!: keeps_value keeps_intros)
  show ?thesis
    unfolding plan_grant_marker_def Let_def
    by (auto split: option.splits intro!: keeps_rbind [OF loop] keeps_intros)
qed

lemma plan_membership_keeps: "keeps (op_ok u ctx g) s (plan_membership u ctx desired current dupes s)"
  unfolding plan_membership_def plan_members_def drop_member_def Let_def
  by (rule keeps_each) (auto split: option.splits intro!: keeps_each keeps_intros)

lemma clear_stale_keeps: "keeps (op_ok u ctx g) s (clear_stale u ctx current s)"
  unfolding clear_stale_def by (rule keeps_each) (auto intro!: keeps_value keeps_intros)

section \<open>The phases of a completed cycle\<close>

definition start_state :: "unicode \<Rightarrow> current \<Rightarrow> pstate" where
  "start_state u current = \<lparr>s_plan = plan0, s_dn_of = Map.empty, s_taken_dns = all_dns current,
     s_sam_keys = all_sam_keys u current\<rparr>"

definition cycle ::
  "unicode \<Rightarrow> desired \<Rightarrow> current \<Rightarrow> plan_ctx \<Rightarrow> str set \<Rightarrow> pstate list \<Rightarrow> plan \<Rightarrow> bool" where
  "cycle u desired current ctx dupes states p \<longleftrightarrow> (\<exists>s0 seen conflicts s1 s2 s3 s4 s5 s6 s7 s8.
     states = [s1, s2, s3, s5, s6, s7, s8]
     \<and> clear_stale u ctx current (start_state u current) = Inr s0
     \<and> scan_identities current = Inr (seen, dupes, conflicts)
     \<and> s1 = add_conflicts (conflicts @ map Unmanaged (c_unmanaged_dns current)) s0
     \<and> plan_users u ctx desired current dupes s1 = Inr s2
     \<and> retire_users u ctx desired current dupes s2 = Inr s3
     \<and> check_collisions u ctx desired current dupes s3 = Inr s4
     \<and> plan_groups u ctx desired current dupes s4 = Inr s5
     \<and> quarantine_groups u ctx desired current dupes s5 = Inr s6
     \<and> plan_grant_marker u ctx desired current s6 = Inr s7
     \<and> plan_membership u ctx desired current dupes s7 = Inr s8
     \<and> p = s_plan s8)"

lemma plan_sync_cycle:
  assumes "plan_sync u desired current ctx = Inr p" "frozen desired current ctx = None"
  shows "\<exists>dupes states. cycle u desired current ctx dupes states p"
proof -
  show ?thesis
    using assms unfolding plan_sync_def cycle_def start_state_def
    by (auto simp: kb_results Let_def)
qed

lemma check_collisions_Inr:
  "check_collisions u ctx desired current dupes s = Inr t \<longleftrightarrow>
     t = s \<and> collide u ctx current dupes (s_sam_keys s) (d_groups desired) {} = []"
  by (auto simp: check_collisions_def Let_def)

lemma cycle_grows:
  assumes "cycle u desired current ctx dupes [s1, s2, s3, s5, s6, s7, s8] p"
  shows "grows (op_ok u ctx False) (start_state u current) s3" "grows (op_ok u ctx True) s3 s5"
    "grows (op_ok u ctx False) s5 s8" "p = s_plan s8"
proof -
  obtain s0 seen conflicts where c: "clear_stale u ctx current (start_state u current) = Inr s0"
    "s1 = add_conflicts (conflicts @ map Unmanaged (c_unmanaged_dns current)) s0"
    "plan_users u ctx desired current dupes s1 = Inr s2"
    "retire_users u ctx desired current dupes s2 = Inr s3"
    "plan_groups u ctx desired current dupes s3 = Inr s5"
    "quarantine_groups u ctx desired current dupes s5 = Inr s6"
    "plan_grant_marker u ctx desired current s6 = Inr s7"
    "plan_membership u ctx desired current dupes s7 = Inr s8" "p = s_plan s8"
    using assms by (auto simp: cycle_def check_collisions_Inr)
  have "grows (op_ok u ctx False) (start_state u current) s1"
    using clear_stale_keeps [of u ctx False "start_state u current" current] c(1,2) by simp
  moreover have "grows (op_ok u ctx False) s1 s2"
    using plan_users_keeps [of u ctx False s1 desired current dupes] c(3) by simp
  moreover have "grows (op_ok u ctx False) s2 s3"
    using retire_users_keeps [of u ctx False s2 desired current dupes] c(4) by simp
  ultimately show "grows (op_ok u ctx False) (start_state u current) s3" by (blast intro: grows_trans)
  show "grows (op_ok u ctx True) s3 s5"
    using plan_groups_keeps [of u ctx s3 desired current dupes] c(5) by simp
  have "grows (op_ok u ctx False) s5 s6"
    using quarantine_groups_keeps [of u ctx False s5 desired current dupes] c(6) by simp
  moreover have "grows (op_ok u ctx False) s6 s7"
    using grant_marker_keeps [of u ctx False s6 desired current] c(7) by simp
  moreover have "grows (op_ok u ctx False) s7 s8"
    using plan_membership_keeps [of u ctx False s7 desired current dupes] c(8) by simp
  ultimately show "grows (op_ok u ctx False) s5 s8" by (blast intro: grows_trans)
  show "p = s_plan s8" by (rule c(9))
qed

lemma cycle_states:
  assumes "cycle u desired current ctx dupes states p"
  obtains s1 s2 s3 s5 s6 s7 s8 where "states = [s1, s2, s3, s5, s6, s7, s8]"
  using assms by (auto simp: cycle_def)

lemma plan_ops_inside:
  assumes "plan_sync u desired current ctx = Inr p" "op \<in> set (p_ops p)"
  shows "dn_is_at_or_within u (op_dn op) (x_idp_ou ctx)"
proof (cases "frozen desired current ctx")
  case (Some a)
  then show ?thesis using assms by (auto simp: plan_sync_def plan0_def)
next
  case None
  obtain dupes states where c: "cycle u desired current ctx dupes states p"
    using plan_sync_cycle [OF assms(1) None] by blast
  obtain s1 s2 s3 s5 s6 s7 s8 where st: "states = [s1, s2, s3, s5, s6, s7, s8]"
    using c by (rule cycle_states)
  note g = cycle_grows [OF c [unfolded st]]
  show ?thesis
    using assms(2) g by (auto simp: grows_def start_state_def plan0_def op_ok_def list_all_iff)
qed

section \<open>Retirement\<close>

definition retire_ops :: "plan_ctx \<Rightarrow> current_user \<Rightarrow> op list" where
  "retire_ops ctx cu =
     (if \<not> has_prefix ST_RETIRED (cu_markers cu)
      then [DisableUser (cu_dn cu), SetMarker (cu_dn cu) (ST_RETIRED @ x_now ctx)] else [])
     @ (if has_prefix GRANT_PREFIX (cu_markers cu) then [ClearMarker (cu_dn cu) GRANT_PREFIX] else [])"

lemma add_ops_Inr: "add_ops u ctx ops s = Inr t \<Longrightarrow> p_ops (s_plan t) = p_ops (s_plan s) @ ops"
  by (induction ops arbitrary: s) (auto simp: kb_results add_op_def split: if_splits)

lemma retire_user_ops:
  assumes "retire_user u ctx oid cu s = Inr t"
  shows "\<exists>rename. p_ops (s_plan t) = p_ops (s_plan s) @ retire_ops ctx cu @ rename
    \<and> (if starts_with (cu_sam cu) RETIRED_PREFIX then rename = []
       else \<exists>cn sam. starts_with sam RETIRED_PREFIX
         \<and> rename = [Rename (cu_dn cu) cn None (Some sam) (Some (sam @ [c_at] @ x_upn_suffix ctx))])"
proof -
  obtain t0 where t0: "add_ops u ctx (retire_ops ctx cu) s = Inr t0"
    using assms by (auto simp: retire_user_def retire_ops_def kb_results simp del: add_ops.simps)
  have ops: "p_ops (s_plan t0) = p_ops (s_plan s) @ retire_ops ctx cu" using t0 by (rule add_ops_Inr)
  show ?thesis
    using assms ops t0 unfolding retire_user_def retire_ops_def [symmetric]
    by (auto simp: Let_def split_beta add_op_def retired_names_def split: if_splits)
qed

lemma each_visit:
  assumes "each f xs s = Inr t" "x \<in> set xs"
  shows "\<exists>a b. f x a = Inr b \<and> (\<exists>pre post. xs = pre @ x # post \<and> each f pre s = Inr a \<and> each f post b = Inr t)"
  using assms
proof (induction xs arbitrary: s)
  case (Cons y ys)
  then obtain b where b: "f y s = Inr b" "each f ys b = Inr t" by (auto simp: kb_results)
  show ?case
  proof (cases "x = y")
    case True
    then show ?thesis using b by (intro exI [of _ s] exI [of _ b] conjI exI [of _ "[]"] exI [of _ ys]) auto
  next
    case False
    then obtain a b' pre post where "f x a = Inr b'" "ys = pre @ x # post" "each f pre b = Inr a" "each f post b' = Inr t"
      using Cons.IH [OF b(2)] Cons.prems(2) by auto
    then show ?thesis
      using b(1) by (intro exI [of _ a] exI [of _ b'] conjI exI [of _ "y # pre"] exI [of _ post]) auto
  qed
qed simp

section \<open>Group names\<close>

definition group_key :: "unicode \<Rightarrow> plan_ctx \<Rightarrow> subject \<times> desired_group \<Rightarrow> str" where
  "group_key u ctx = (\<lambda>(oid, dg). fold u (snd (group_names (dg_display_name dg) oid (x_group_suffix ctx))))"

definition unknown_groups ::
  "current \<Rightarrow> str set \<Rightarrow> (subject \<times> desired_group) list \<Rightarrow> (subject \<times> desired_group) list" where
  "unknown_groups current dupes = filter (\<lambda>(oid, _). oid \<notin> dupes \<and> lookup (c_groups current) oid = None)"

fun created_group :: "op \<Rightarrow> str option" where
  "created_group (CreateGroup dn sam identity role) = Some sam"
| "created_group _ = None"

definition created_groups :: "op list \<Rightarrow> str list" where
  "created_groups ops = List.map_filter created_group ops"

lemma created_groups_append [simp]: "created_groups (xs @ ys) = created_groups xs @ created_groups ys"
  by (simp add: created_groups_def map_filter_def)

lemma created_groups_none: "list_all (\<lambda>op. \<not> is_CreateGroup op) ops \<Longrightarrow> created_groups ops = []"
proof (induction ops)
  case (Cons op ops)
  then show ?case by (cases op) (auto simp: created_groups_def List.map_filter_simps)
qed (simp add: created_groups_def List.map_filter_simps)

lemma grows_created: "grows (op_ok u ctx False) s t \<Longrightarrow>
    created_groups (p_ops (s_plan t)) = created_groups (p_ops (s_plan s))"
  using created_groups_none by (fastforce simp: grows_def op_ok_def list_all_iff)

lemma collide_Nil:
  "collide u ctx current dupes keys gs new = [] \<Longrightarrow>
     distinct (map (group_key u ctx) (unknown_groups current dupes gs))
     \<and> group_key u ctx ` set (unknown_groups current dupes gs) \<inter> (keys \<union> new) = {}"
proof (induction u ctx current dupes keys gs new rule: collide.induct)
  case (2 u ctx current dupes keys oid dg gs new)
  obtain cn sam where g: "group_names (dg_display_name dg) oid (x_group_suffix ctx) = (cn, sam)"
    by (cases "group_names (dg_display_name dg) oid (x_group_suffix ctx)")
  show ?case
  proof (cases "oid \<in> dupes \<or> lookup (c_groups current) oid \<noteq> None")
    case True
    then show ?thesis using 2 by (auto simp: unknown_groups_def)
  next
    case False
    then have k: "fold u sam \<notin> keys" "fold u sam \<notin> new"
      and r: "collide u ctx current dupes keys gs (insert (fold u sam) new) = []"
      using 2(5) by (auto simp: Let_def g split: if_splits)
    have "distinct (map (group_key u ctx) (unknown_groups current dupes gs))
        \<and> group_key u ctx ` set (unknown_groups current dupes gs) \<inter> (keys \<union> insert (fold u sam) new) = {}"
      by (rule 2(4) [OF False refl g [symmetric] refl k r])
    then show ?thesis using False k by (auto simp: unknown_groups_def group_key_def g)
  qed
qed (simp add: unknown_groups_def)

lemma new_group_created:
  assumes "new_group u ctx m oid dg s = Inr t"
  shows "created_groups (p_ops (s_plan t)) = created_groups (p_ops (s_plan s))
    \<or> created_groups (p_ops (s_plan t)) = created_groups (p_ops (s_plan s))
        @ [snd (group_names (dg_display_name dg) oid (x_group_suffix ctx))]"
  using assms
  by (auto simp: new_group_def encoded_identity_def Let_def split_beta add_op_def created_groups_def
      map_filter_def split: sum.splits if_splits)

lemma plan_groups_created:
  assumes "plan_groups u ctx desired current dupes s = Inr t"
  shows "\<exists>gs. subseq gs (unknown_groups current dupes (d_groups desired))
    \<and> map (fold u) (created_groups (p_ops (s_plan t)))
      = map (fold u) (created_groups (p_ops (s_plan s))) @ map (group_key u ctx) gs"
proof -
  let ?m = "x_admission ctx \<notin> set (marked_with ROLE_ADMISSION current)"
  let ?f = "\<lambda>(oid, dg) s. if oid \<in> dupes then Inr s
         else (case lookup (c_groups current) oid of
                 None \<Rightarrow> new_group u ctx ?m oid dg s
               | Some cg \<Rightarrow> known_group u ctx ?m oid dg cg s)"
  have "each ?f xs s = Inr t \<Longrightarrow> \<exists>gs. subseq gs (unknown_groups current dupes xs)
    \<and> map (fold u) (created_groups (p_ops (s_plan t)))
      = map (fold u) (created_groups (p_ops (s_plan s))) @ map (group_key u ctx) gs" for xs
  proof (induction xs arbitrary: s)
    case Nil
    then show ?case by (auto simp: unknown_groups_def)
  next
    case (Cons x xs)
    obtain oid dg where x: "x = (oid, dg)" by (cases x)
    obtain s' where s': "?f x s = Inr s'" "each ?f xs s' = Inr t" using Cons.prems by (auto simp: kb_results)
    obtain gs where gs: "subseq gs (unknown_groups current dupes xs)"
      "map (fold u) (created_groups (p_ops (s_plan t)))
        = map (fold u) (created_groups (p_ops (s_plan s'))) @ map (group_key u ctx) gs"
      using Cons.IH [OF s'(2)] by blast
    show ?case
    proof (cases "oid \<notin> dupes \<and> lookup (c_groups current) oid = None")
      case True
      then have u: "unknown_groups current dupes (x # xs) = x # unknown_groups current dupes xs"
        by (simp add: unknown_groups_def x)
      have "new_group u ctx ?m oid dg s = Inr s'" using True s'(1) x by simp
      from new_group_created [OF this] show ?thesis
      proof
        assume "created_groups (p_ops (s_plan s')) = created_groups (p_ops (s_plan s))"
        then show ?thesis using gs unfolding u by (intro exI [of _ gs]) auto
      next
        assume "created_groups (p_ops (s_plan s')) = created_groups (p_ops (s_plan s))
          @ [snd (group_names (dg_display_name dg) oid (x_group_suffix ctx))]"
        then show ?thesis using gs unfolding u by (intro exI [of _ "x # gs"]) (auto simp: x group_key_def)
      qed
    next
      case False
      then have "keeps (op_ok u ctx False) s (?f x s)"
        using known_group_keeps [of u ctx False s ?m oid dg] by (auto simp: x split: option.splits)
      then have "grows (op_ok u ctx False) s s'" using s'(1) by (simp add: keeps_def)
      then have "created_groups (p_ops (s_plan s')) = created_groups (p_ops (s_plan s))" by (rule grows_created)
      moreover have "unknown_groups current dupes (x # xs) = unknown_groups current dupes xs"
        using False by (auto simp: unknown_groups_def x)
      ultimately show ?thesis using gs by auto
    qed
  qed
  then show ?thesis using assms unfolding plan_groups_def Let_def by blast
qed

text \<open>Names nobody gives up stay taken through the user phases.\<close>

definition held :: "str set \<Rightarrow> plan_stop + pstate \<Rightarrow> bool" where
  "held F r \<longleftrightarrow> (\<forall>s. r = Inr s \<longrightarrow> F \<subseteq> s_sam_keys s)"

lemma held_simps [simp]: "held F (Inl e)" "held F (Inr s) \<longleftrightarrow> F \<subseteq> s_sam_keys s"
  by (simp_all add: held_def)

lemma held_add_op: "F \<subseteq> s_sam_keys s \<Longrightarrow> held F (add_op u ctx op s)"
  by (simp add: held_def add_op_def)

lemma held_rbind: "held F r \<Longrightarrow> (\<And>s. F \<subseteq> s_sam_keys s \<Longrightarrow> held F (k s)) \<Longrightarrow> held F (rbind r k)"
  by (cases r) auto

lemma held_value: "(\<And>x. r = Inr x \<Longrightarrow> held F (k x)) \<Longrightarrow> held F (rbind r k)"
  by (cases r) auto

lemma held_add_ops: "F \<subseteq> s_sam_keys s \<Longrightarrow> held F (add_ops u ctx ops s)"
  by (induction ops arbitrary: s) (auto intro!: held_rbind held_add_op)

lemma held_each:
  "F \<subseteq> s_sam_keys s \<Longrightarrow> (\<And>x s. x \<in> set xs \<Longrightarrow> F \<subseteq> s_sam_keys s \<Longrightarrow> held F (f x s)) \<Longrightarrow> held F (each f xs s)"
proof (induction xs arbitrary: s)
  case (Cons x xs)
  then show ?case by (auto intro!: held_rbind)
qed simp

lemma add_op_keys: "add_op u ctx op s = Inr t \<Longrightarrow> s_sam_keys t = s_sam_keys s"
  by (auto simp: add_op_def split: if_splits)

lemma add_ops_keys: "add_ops u ctx ops s = Inr t \<Longrightarrow> s_sam_keys t = s_sam_keys s"
  by (induction ops arbitrary: s) (auto simp: kb_results dest: add_op_keys)

lemma restore_user_keys:
  assumes "restore_user u ctx oid du cu s = Inr (b, t)" "F \<subseteq> s_sam_keys s" "fold u (cu_sam cu) \<notin> F"
  shows "F \<subseteq> s_sam_keys t"
  using assms by (auto simp: restore_user_def kb_results Let_def simp del: add_ops.simps
      dest!: add_ops_keys add_op_keys split: if_splits)

lemma follow_login_name_keys:
  assumes "F \<subseteq> s_sam_keys s" "fold u (cu_sam cu) \<notin> F"
  shows "held F (follow_login_name u ctx oid du cu r s)"
proof (cases "\<not> r \<and> x_automatic_sam_renames ctx \<and> \<not> has_prefix ST_NAME_PINNED (cu_markers cu)")
  case True
  have k: "F \<subseteq> insert x (s_sam_keys s - {fold u (cu_sam cu)})" for x using assms by blast
  have "held F (if c then add_ops u ctx ops t else Inr t)" if "F \<subseteq> s_sam_keys t" for c ops t
    using that held_add_ops by simp
  note both = this
  show ?thesis
    unfolding follow_login_name_def if_P [OF True] Let_def split_beta
    by (intro held_value both) (simp add: k)
next
  case False
  show ?thesis unfolding follow_login_name_def if_not_P [OF False] using assms(1) by simp
qed

lemma known_user_keys:
  assumes "F \<subseteq> s_sam_keys s" "fold u (cu_sam cu) \<notin> F"
  shows "held F (known_user u ctx oid du cu s)"
proof -
  have display: "held F (follow_display_name u ctx oid du cu r s)" if "F \<subseteq> s_sam_keys s" for r s
    using that by (auto simp: follow_display_name_def Let_def intro!: held_rbind [OF held_add_op] held_add_op)
  have first: "F \<subseteq> s_sam_keys t" if "(if has_prefix ST_RETIRED (cu_markers cu) then restore_user u ctx oid du cu s0
         else if du_enabled du \<noteq> cu_enabled cu
         then rbind (add_op u ctx (if du_enabled du then EnableUser (cu_dn cu) else DisableUser (cu_dn cu)) s0)
                (\<lambda>s. Inr (False, s))
         else Inr (False, s0)) = Inr (b, t)" and "s0 = s\<lparr>s_dn_of := m\<rparr>" for b t s0 m
    using that assms restore_user_keys [of u ctx oid du cu s0 b t F]
    by (auto simp: kb_results add_op_def split: if_splits)
  show ?thesis
    unfolding known_user_def Let_def
  proof (rule held_value, goal_cases)
    case (1 x)
    obtain b t where x: "x = (b, t)" by (cases x)
    have "F \<subseteq> s_sam_keys t" using first [OF 1 [unfolded x] refl] .
    then show ?case
      unfolding x prod.case by (intro held_rbind [OF follow_login_name_keys] display) (use assms(2) in simp_all)
  qed
qed

lemma plan_users_keys:
  assumes "F \<subseteq> s_sam_keys s" "F \<inter> fold u ` cu_sam ` snd ` set (c_users current) = {}"
  shows "held F (plan_users u ctx desired current dupes s)"
proof -
  have new: "held F (new_user u ctx oid du s)" if "F \<subseteq> s_sam_keys s" for oid du s
    using that by (auto simp: new_user_def encoded_identity_def Let_def split_beta add_conflicts_def
        split: sum.splits intro!: held_value held_add_op)
  have "fold u (cu_sam cu) \<notin> F" if "lookup (c_users current) oid = Some cu" for oid cu
    using lookup_Some [OF that] assms(2) by force
  then show ?thesis
    using assms(1) unfolding plan_users_def
    by (intro held_each) (auto simp: new split: option.splits intro!: known_user_keys)
qed

lemma retire_user_keys: "F \<subseteq> s_sam_keys s \<Longrightarrow> held F (retire_user u ctx oid cu s)"
  unfolding retire_user_def
  by (rule held_rbind [OF held_add_ops])
     (auto simp: Let_def split_beta retired_names_def intro!: held_add_op)

lemma retire_users_keys:
  "F \<subseteq> s_sam_keys s \<Longrightarrow> held F (retire_users u ctx desired current dupes s)"
  unfolding retire_users_def
  by (rule held_each) (auto intro!: held_value retire_user_keys)

section \<open>Properties\<close>

text \<open>A small realm for the witnesses: one admission group holding one user who is gone from the
  identity provider and whose machine holds a grant.\<close>

definition sample_ctx :: plan_ctx where
  "sample_ctx = \<lparr>x_idp_ou = lit ''OU=e'', x_admission = lit ''ad01'', x_grant = None, x_upn_suffix = lit ''r'',
     x_group_suffix = [], x_now = lit ''now'', x_automatic_sam_renames = False, x_identity = (\<lambda>oid. Inr oid)\<rparr>"

definition sample_desired :: desired where
  "sample_desired = \<lparr>d_users = [(lit ''bb01'', \<lparr>du_display_name = lit ''Bo'', du_candidates = [], du_enabled = True\<rparr>)],
     d_groups = [(lit ''ad01'', \<lparr>dg_display_name = lit ''ad''\<rparr>)], d_membership = []\<rparr>"

definition sample_leaver :: current_user where
  "sample_leaver = \<lparr>cu_dn = lit ''CN=al,OU=e'', cu_sam = lit ''al'', cu_display_name = None, cu_enabled = True,
     cu_markers = [lit ''kbkey1|x''], cu_identity = lit ''i1''\<rparr>"

definition sample_current :: current where
  "sample_current = \<lparr>c_users = [(lit ''aa01'', sample_leaver)], c_groups = [],
     c_foreign_sams = [lit ''root''], c_unmanaged_dns = []\<rparr>"

lemma sample_wf: "wf_inputs block_tables sample_desired sample_current sample_ctx"
proof -
  have ou: "dn_components block_tables (lit ''OU=e'') \<noteq> None" by (simp add: dn_eval kb_lits)
  have b: "below block_tables sample_ctx (lit ''CN=al,OU=e'')"
    by (simp add: below_def sample_ctx_def dn_eval kb_lits)
  have f: "filed_by_subject sample_current"
    unfolding filed_by_subject_def sample_current_def by (intro exI [of _ "\<lambda>_. lit ''aa01''"]) simp
  show ?thesis
    using ou b f
    by (simp add: wf_inputs_def sample_desired_def sample_current_def sample_leaver_def sample_ctx_def
        wf_desired_user_def hex_oid_def oid4_def is_ascii_hexdigit_def is_ascii_digit_def kb_lits)
qed

lemmas plan_eval = plan_sync_def frozen_def sample_ctx_def sample_desired_def sample_current_def sample_leaver_def
  clear_stale_def marked_with_def scan_identities_def scan_entry_def lookup_def all_dns_def all_sam_keys_def plan0_def
  plan_users_def new_user_def encoded_identity_def alloc_def alloc_names_def fold_def fresh_dn_def cn_dn_def oid4_def
  add_op_def add_conflicts_def add_alert_def retire_users_def retire_user_def retired_names_def check_collisions_def
  plan_groups_def new_group_def group_names_def quarantine_groups_def plan_grant_marker_def plan_membership_def
  has_prefix_def safe_name_def NAME_RESERVED_def is_control_def is_whitespace_def sanitize_sam_def sanitize_eval
  dn_components_def dn_component_def dn_is_at_or_within_def trim_def starts_with_def kb_lits Let_def

lemma sample_completes: "\<exists>p. plan_sync block_tables sample_desired sample_current sample_ctx = Inr p"
  by (simp add: plan_eval)

lemma sample_not_frozen: "frozen sample_desired sample_current sample_ctx = None"
  by (simp add: frozen_def sample_desired_def sample_ctx_def)

lemma sample_scan: "\<exists>seen. scan_identities sample_current = Inr (seen, {}, [])"
  by (simp add: scan_identities_def scan_entry_def sample_current_def)

lemma sample_retire_ops: "retire_ops sample_ctx sample_leaver =
    [DisableUser (lit ''CN=al,OU=e''), SetMarker (lit ''CN=al,OU=e'') (ST_RETIRED @ lit ''now''),
     ClearMarker (lit ''CN=al,OU=e'') GRANT_PREFIX]"
  by (simp add: retire_ops_def has_prefix_def sample_leaver_def sample_ctx_def starts_with_def kb_lits)

text \<open>C4 (KB_Planner.plan_stays_inside): planning never trips the structural assertion nor an
  indexing panic, and every operation of a completed plan names an object inside the source's
  own organizational unit, whatever names and memberships the identity provider holds.\<close>

theorem plan_stays_inside:
  assumes "unicode_tables u" "wf_inputs u desired current ctx"
  shows "plan_sync u desired current ctx \<noteq> Inl Panicked
    \<and> (\<forall>p op. plan_sync u desired current ctx = Inr p \<longrightarrow> op \<in> set (p_ops p)
        \<longrightarrow> dn_is_at_or_within u (op_dn op) (x_idp_ou ctx))"
  using plan_sync_safe [OF assms] plan_ops_inside by (auto simp: safe_def)

theorem plan_stays_inside_witness:
  "plan_sync block_tables sample_desired sample_current sample_ctx \<noteq> Inl Panicked"
  using plan_stays_inside [OF block.unicode_tables_axioms sample_wf] by blast

text \<open>Fact (KB_Planner.frozen_cycle): when the admission group is missing from the desired state, or a
  read yields no user at all while accounts are synchronized, the plan has no operation and one
  alert on the admission channel.\<close>

theorem frozen_cycle:
  assumes "map_of (d_groups desired) (x_admission ctx) = None
    \<or> d_users desired = [] \<and> c_users current \<noteq> []"
  shows "\<exists>p a. plan_sync u desired current ctx = Inr p \<and> p_ops p = [] \<and> p_conflicts p = []
    \<and> p_alerts p = [a] \<and> kind_of a = AdmissionGroup"
proof -
  obtain a where "frozen desired current ctx = Some a" "kind_of a = AdmissionGroup"
    using assms by (cases "map_of (d_groups desired) (x_admission ctx) = None") (auto simp: frozen_def)
  then show ?thesis by (auto simp: plan_sync_def plan0_def)
qed

theorem frozen_cycle_witness:
  "\<exists>p a. plan_sync block_tables (sample_desired\<lparr>d_users := []\<rparr>) sample_current sample_ctx = Inr p
     \<and> p_ops p = [] \<and> p_conflicts p = [] \<and> p_alerts p = [a] \<and> kind_of a = AdmissionGroup"
  by (rule frozen_cycle) (simp add: sample_current_def)

text \<open>C11 (KB_Planner.retirement_revokes): an account gone from the identity provider is disabled and
  stamped, and every device grant on it is cleared, before the rename that releases its name; the
  four writes are consecutive in the plan, so those that address the old name precede the rename.\<close>

theorem retirement_revokes:
  assumes "plan_sync u desired current ctx = Inr p" "frozen desired current ctx = None"
    and "lookup (c_users current) oid = Some cu" "oid \<notin> fst ` set (d_users desired)"
    and "scan_identities current = Inr (seen, dupes, conflicts)" "oid \<notin> dupes"
  shows "\<exists>pre rename post. p_ops p = pre @ retire_ops ctx cu @ rename @ post
    \<and> (if starts_with (cu_sam cu) RETIRED_PREFIX then rename = []
       else \<exists>cn sam. starts_with sam RETIRED_PREFIX
         \<and> rename = [Rename (cu_dn cu) cn None (Some sam) (Some (sam @ [c_at] @ x_upn_suffix ctx))])"
proof -
  obtain dupes' states where c: "cycle u desired current ctx dupes' states p"
    using plan_sync_cycle [OF assms(1,2)] by blast
  obtain s1 s2 s3 s5 s6 s7 s8 where st: "states = [s1, s2, s3, s5, s6, s7, s8]"
    using c by (rule cycle_states)
  have d: "dupes' = dupes" and r: "retire_users u ctx desired current dupes s2 = Inr s3"
    using c assms(5) by (auto simp: cycle_def st)
  let ?f = "\<lambda>oid s. if oid \<in> fst ` set (d_users desired) \<or> oid \<in> dupes then Inr s
         else rbind (ok_or Panicked (lookup (c_users current) oid)) (\<lambda>cu. retire_user u ctx oid cu s)"
  have "oid \<in> set (sort (map fst (c_users current)))" using lookup_Some [OF assms(3)] by force
  then obtain a b post where v: "?f oid a = Inr b" "each ?f post b = Inr s3"
    using each_visit [OF r [unfolded retire_users_def]] by blast
  have ru: "retire_user u ctx oid cu a = Inr b" using v(1) assms(3,4,6) by simp
  have "keeps (op_ok u ctx False) b (each ?f post b)"
    by (rule keeps_each) (auto intro!: keeps_value simp: retire_user_keeps)
  then have g1: "grows (op_ok u ctx False) b s3" using v(2) by simp
  note g = cycle_grows [OF c [unfolded st]]
  obtain n1 n2 n3 where n: "p_ops (s_plan s3) = p_ops (s_plan b) @ n1" "p_ops (s_plan s5) = p_ops (s_plan s3) @ n2"
    "p_ops (s_plan s8) = p_ops (s_plan s5) @ n3"
    using g1 g(2,3) by (auto simp: grows_def)
  obtain rename where rn: "p_ops (s_plan b) = p_ops (s_plan a) @ retire_ops ctx cu @ rename"
    "if starts_with (cu_sam cu) RETIRED_PREFIX then rename = []
       else \<exists>cn sam. starts_with sam RETIRED_PREFIX
         \<and> rename = [Rename (cu_dn cu) cn None (Some sam) (Some (sam @ [c_at] @ x_upn_suffix ctx))]"
    using retire_user_ops [OF ru] by blast
  have "p_ops p = p_ops (s_plan a) @ retire_ops ctx cu @ rename @ (n1 @ n2 @ n3)"
    using g(4) n rn(1) by simp
  with rn(2) show ?thesis by blast
qed

theorem retirement_revokes_witness:
  "\<exists>p pre rename post. plan_sync block_tables sample_desired sample_current sample_ctx = Inr p
     \<and> p_ops p = pre @ [DisableUser (lit ''CN=al,OU=e''), SetMarker (lit ''CN=al,OU=e'') (ST_RETIRED @ lit ''now''),
          ClearMarker (lit ''CN=al,OU=e'') GRANT_PREFIX] @ rename @ post"
proof -
  obtain p where p: "plan_sync block_tables sample_desired sample_current sample_ctx = Inr p"
    using sample_completes by blast
  obtain seen where s: "scan_identities sample_current = Inr (seen, {}, [])" using sample_scan by blast
  have l: "lookup (c_users sample_current) (lit ''aa01'') = Some sample_leaver"
    by (simp add: lookup_def sample_current_def)
  have o: "lit ''aa01'' \<notin> fst ` set (d_users sample_desired)" "lit ''aa01'' \<notin> ({} :: str set)"
    by (simp_all add: sample_desired_def kb_lits)
  from retirement_revokes [OF p sample_not_frozen l o(1) s o(2)] p show ?thesis
    unfolding sample_retire_ops by blast
qed

text \<open>Fact (KB_Planner.group_names_are_free): in a completed plan the account names of the groups it
  creates have pairwise different keys, and none is the key of a name the realm already holds,
  except names a synchronized user gives up in the same cycle.\<close>

theorem group_names_are_free:
  assumes "plan_sync u desired current ctx = Inr p"
  shows "distinct (map (fold u) (created_groups (p_ops p)))
    \<and> (\<forall>k. k \<in> all_sam_keys u current \<longrightarrow> k \<notin> fold u ` cu_sam ` snd ` set (c_users current)
        \<longrightarrow> k \<notin> set (map (fold u) (created_groups (p_ops p))))"
proof (cases "frozen desired current ctx")
  case (Some a)
  then have "p_ops p = []" using assms by (auto simp: plan_sync_def plan0_def)
  then show ?thesis by (simp add: created_groups_def List.map_filter_simps)
next
  case None
  obtain dupes states where c: "cycle u desired current ctx dupes states p"
    using plan_sync_cycle [OF assms None] by blast
  obtain s1 s2 s3 s5 s6 s7 s8 where st: "states = [s1, s2, s3, s5, s6, s7, s8]"
    using c by (rule cycle_states)
  note g = cycle_grows [OF c [unfolded st]]
  obtain s0 conflicts where s0: "clear_stale u ctx current (start_state u current) = Inr s0"
    "s1 = add_conflicts conflicts s0" "plan_users u ctx desired current dupes s1 = Inr s2"
    "retire_users u ctx desired current dupes s2 = Inr s3"
    "collide u ctx current dupes (s_sam_keys s3) (d_groups desired) {} = []"
    "plan_groups u ctx desired current dupes s3 = Inr s5"
    using c by (auto simp: cycle_def st check_collisions_Inr)
  define F where "F = all_sam_keys u current - fold u ` cu_sam ` snd ` set (c_users current)"
  have "held F (clear_stale u ctx current (start_state u current))"
    unfolding clear_stale_def
    by (rule held_each) (auto simp: F_def start_state_def intro!: held_value held_add_op)
  then have F1: "F \<subseteq> s_sam_keys s1" using s0(1,2) by (simp add: add_conflicts_def)
  have "held F (plan_users u ctx desired current dupes s1)"
    using F1 by (rule plan_users_keys) (auto simp: F_def)
  then have "held F (retire_users u ctx desired current dupes s2)"
    using s0(3) by (intro retire_users_keys) simp
  then have F3: "F \<subseteq> s_sam_keys s3" using s0(4) by simp
  obtain gs where gs: "subseq gs (unknown_groups current dupes (d_groups desired))"
    "map (fold u) (created_groups (p_ops (s_plan s5)))
      = map (fold u) (created_groups (p_ops (s_plan s3))) @ map (group_key u ctx) gs"
    using plan_groups_created [OF s0(6)] by blast
  have "created_groups (p_ops (s_plan s3)) = []"
    using grows_created [OF g(1)] by (simp add: start_state_def plan0_def created_groups_def List.map_filter_simps)
  then have keys: "map (fold u) (created_groups (p_ops p)) = map (group_key u ctx) gs"
    using gs(2) grows_created [OF g(3)] g(4) by simp
  have nil: "distinct (map (group_key u ctx) (unknown_groups current dupes (d_groups desired)))"
    "group_key u ctx ` set (unknown_groups current dupes (d_groups desired)) \<inter> s_sam_keys s3 = {}"
    using collide_Nil [OF s0(5)] by auto
  have "subseq (map (group_key u ctx) gs) (map (group_key u ctx) (unknown_groups current dupes (d_groups desired)))"
    using gs(1) by (rule subseq_map)
  then have "distinct (map (group_key u ctx) gs)"
    using nil(1) by (metis distinct_nthsI subseq_conv_nths)
  moreover have "set gs \<subseteq> set (unknown_groups current dupes (d_groups desired))"
    using gs(1) by (metis set_nths_subset subseq_conv_nths)
  ultimately show ?thesis
    unfolding keys using nil(2) F3 by (auto simp: F_def)
qed

theorem group_names_are_free_witness:
  "\<exists>p. plan_sync block_tables sample_desired sample_current sample_ctx = Inr p
     \<and> distinct (map (fold block_tables) (created_groups (p_ops p)))"
proof -
  obtain p where p: "plan_sync block_tables sample_desired sample_current sample_ctx = Inr p"
    using sample_completes by blast
  from group_names_are_free [OF p] p show ?thesis by blast
qed

text \<open>A divergence: when two accounts carry one identity value, the conflict
  that is meant to name both names the second one twice. The objects are filed under the subject
  of their identity, so both have one key, and the lookup of the earlier holder's DN by that key
  finds the later one.\<close>

theorem ambiguous_pair_named_once:
  "map_option snd (ok (scan_identities \<lparr>c_users = [(oid, x), (oid, y\<lparr>cu_identity := cu_identity x\<rparr>)],
      c_groups = [], c_foreign_sams = f, c_unmanaged_dns = n\<rparr>))
   = Some ({oid}, [AmbiguousIdentity (cu_dn y) (cu_dn y)])"
  by (simp add: scan_identities_def scan_entry_def lookup_def)

definition conflicted_group :: "str \<Rightarrow> current_group" where
  "conflicted_group dn = \<lparr>cg_dn = dn, cg_sam = lit ''g'', cg_display_name = lit ''g'', cg_members = [],
     cg_markers = [ROLE_ADMISSION], cg_identity = lit ''i''\<rparr>"

definition conflicted_current :: current where
  "conflicted_current = \<lparr>c_users = [], c_groups = [(lit ''cc01'', conflicted_group (lit ''CN=g1,OU=e'')),
     (lit ''cc01'', conflicted_group (lit ''CN=g2,OU=e''))], c_foreign_sams = [], c_unmanaged_dns = []\<rparr>"

definition conflicted_desired :: desired where
  "conflicted_desired = \<lparr>d_users = [], d_groups = [(lit ''ad01'', \<lparr>dg_display_name = lit ''ad''\<rparr>)], d_membership = []\<rparr>"

text \<open>A divergence: an object excluded for an ambiguous identity is still
  written. A group that shares its identity value with another and carries a stale admission
  marker has the marker cleared, because the markers are moved before the ambiguous objects are
  found; and the marker of the first of the two stays, since both writes go to the second.\<close>

theorem conflicted_group_written:
  "\<exists>p. plan_sync block_tables conflicted_desired conflicted_current sample_ctx = Inr p
     \<and> p_conflicts p = [AmbiguousIdentity (lit ''CN=g2,OU=e'') (lit ''CN=g2,OU=e'')]
     \<and> take 2 (p_ops p) = [ClearMarker (lit ''CN=g2,OU=e'') ROLE_ADMISSION,
          ClearMarker (lit ''CN=g2,OU=e'') ROLE_ADMISSION]"
  by (simp add: plan_eval conflicted_desired_def conflicted_current_def conflicted_group_def)

end
