(* ===== verification/KB_SyncDirectory.thy ===== *)
theory KB_SyncDirectory
  imports KB_Planner
begin

text \<open>
  \<open>kerbridge-sync/src/directory.rs\<close>: reading the current state out of the source's unit and
  applying a plan to it. The LDAP server is a parameter: its answers to searches are arguments of
  the reading functions, and a record \<open>server\<close> executes the writes of the applying functions on a
  state of any type. An attribute map is an association list in the order the hash map is
  iterated. A connection or protocol failure is the value \<open>Inl\<close>.

  \<open>members_of\<close> follows ranged retrieval; its loop ends because an answer that does not move the
  start forward is refused and a start is a 32-bit number.
\<close>

section \<open>Entries\<close>

record entry =
  e_dn :: str
  e_attrs :: "(str \<times> str list) list"

datatype dir_error =
    LdapFailed
  | Vanished str
  | BadRangeBound str
  | RangeStuck nat nat
  | SecondAdmissionGroup str
  | UnsettableAttr str

definition first :: "entry \<Rightarrow> str \<Rightarrow> str option" where
  "first e attr = (case map_of (e_attrs e) attr of Some (v # _) \<Rightarrow> Some v | _ \<Rightarrow> None)"

definition values_of :: "entry \<Rightarrow> str \<Rightarrow> str list" where
  "values_of e attr = (case map_of (e_attrs e) attr of Some vs \<Rightarrow> vs | None \<Rightarrow> [])"

definition cn_of :: "str \<Rightarrow> str" where
  "cn_of dn = (case strip_prefix (hd (split_on c_comma dn)) (lit ''CN='') of Some v \<Rightarrow> v | None \<Rightarrow> dn)"

section \<open>Ranged retrieval\<close>

fun range_chunk :: "(str \<times> str list) list \<Rightarrow> dir_error + (str list \<times> nat option) option" where
  "range_chunk [] = Inr None"
| "range_chunk ((key, values) # attrs) =
     (case strip_prefix (map to_ascii_lowercase key) (lit ''member;range='') of
        None \<Rightarrow> range_chunk attrs
      | Some bounds \<Rightarrow>
          let hi = (case split_once c_dash bounds of Some (_, hi) \<Rightarrow> hi | None \<Rightarrow> []) in
          if hi = lit ''*'' then Inr (Some (values, None))
          else rbind (ok_or (BadRangeBound key) (parse_unsigned u32_max hi)) (\<lambda>n.
            Inr (Some (values, Some ((n + 1) mod 2 ^ 32)))))"

lemma range_chunk_bound:
  "range_chunk attrs = Inr (Some (vs, Some n)) \<Longrightarrow> n < 2 ^ 32"
  by (induction attrs) (auto simp: Let_def kb_results split: option.splits if_splits)

text \<open>The loop of \<open>members_of\<close>: \<open>ask\<close> is the base search for the attribute from a start on.\<close>

function members_from ::
  "(nat \<Rightarrow> dir_error + entry list) \<Rightarrow> str \<Rightarrow> str list \<Rightarrow> nat \<Rightarrow> dir_error + str list" where
  "members_from ask dn members lo =
     (case ask lo of
        Inl e \<Rightarrow> Inl e
      | Inr [] \<Rightarrow> Inl (Vanished dn)
      | Inr (chunk # _) \<Rightarrow>
          (case range_chunk (e_attrs chunk) of
             Inl e \<Rightarrow> Inl e
           | Inr None \<Rightarrow> Inr (members @ values_of chunk (lit ''member''))
           | Inr (Some (values, None)) \<Rightarrow> Inr (members @ values)
           | Inr (Some (values, Some n)) \<Rightarrow>
               if n \<le> lo then Inl (RangeStuck lo n)
               else members_from ask dn (members @ values) n))"
  by pat_completeness auto

termination
  by (relation "measure (\<lambda>(ask, dn, members, lo). 2 ^ 32 - lo)")
     (auto dest!: range_chunk_bound)

declare members_from.simps [simp del]

definition members_of :: "(nat \<Rightarrow> dir_error + entry list) \<Rightarrow> entry \<Rightarrow> dir_error + str list" where
  "members_of ask e =
     (case map_of (e_attrs e) (lit ''member'') of
        Some members \<Rightarrow> Inr members
      | None \<Rightarrow>
          rbind (range_chunk (e_attrs e)) (\<lambda>chunk.
            case chunk of
              None \<Rightarrow> Inr []
            | Some (members, None) \<Rightarrow> Inr members
            | Some (members, Some lo) \<Rightarrow> members_from ask (e_dn e) members lo))"

section \<open>Reading\<close>

record read_acc =
  r_users :: "(str \<times> current_user) list"
  r_groups :: "(str \<times> current_group) list"
  r_unmanaged :: "str list"
  r_managed_sams :: "str set"

text \<open>\<open>userAccountControl\<close> as the unsigned number the code reads, and its disabled bit.\<close>

definition uac_enabled :: "entry \<Rightarrow> bool" where
  "uac_enabled e =
     (let uac = (case first e (lit ''userAccountControl'') of
                   None \<Rightarrow> 0
                 | Some v \<Rightarrow> (case parse_unsigned u32_max v of None \<Rightarrow> 0 | Some n \<Rightarrow> n))
      in (of_nat uac :: 32 word) AND 2 = 0)"

definition owned_identity :: "source \<Rightarrow> entry \<Rightarrow> (str \<times> external_identity) option" where
  "owned_identity src e =
     (case first e (lit ''msDS-ExternalDirectoryObjectId'') of
        None \<Rightarrow> None
      | Some v \<Rightarrow> (case decode v of
                     Inl _ \<Rightarrow> None
                   | Inr i \<Rightarrow> if ei_source i = src then Some (v, i) else None))"

definition read_entry ::
  "unicode \<Rightarrow> (str \<Rightarrow> nat \<Rightarrow> dir_error + entry list) \<Rightarrow> source \<Rightarrow> entry \<Rightarrow> read_acc \<Rightarrow> dir_error + read_acc" where
  "read_entry u ask src e acc =
     (case owned_identity src e of
        None \<Rightarrow> Inr (acc\<lparr>r_unmanaged := r_unmanaged acc @ [e_dn e]\<rparr>)
      | Some (identity, i) \<Rightarrow>
          let oid = ei_subject i;
              sam = (case first e (lit ''sAMAccountName'') of Some s \<Rightarrow> s | None \<Rightarrow> []);
              acc = acc\<lparr>r_managed_sams := insert (fold u sam) (r_managed_sams acc)\<rparr>;
              markers = values_of e (lit ''extensionName'')
          in if lit ''group'' \<in> set (values_of e (lit ''objectClass''))
             then rbind (members_of (ask (e_dn e)) e) (\<lambda>members.
               Inr (acc\<lparr>r_groups := r_groups acc @ [(oid, \<lparr>cg_dn = e_dn e, cg_sam = sam,
                 cg_display_name = (case first e (lit ''displayName'') of Some n \<Rightarrow> n | None \<Rightarrow> cn_of (e_dn e)),
                 cg_members = members, cg_markers = markers, cg_identity = identity\<rparr>)]\<rparr>))
             else Inr (acc\<lparr>r_users := r_users acc @ [(oid, \<lparr>cu_dn = e_dn e, cu_sam = sam,
                 cu_display_name = first e (lit ''displayName''), cu_enabled = uac_enabled e,
                 cu_markers = markers, cu_identity = identity\<rparr>)]\<rparr>))"

definition foreign_sams :: "unicode \<Rightarrow> str set \<Rightarrow> entry list \<Rightarrow> str list" where
  "foreign_sams u managed entries =
     filter (\<lambda>s. fold u s \<notin> managed) (List.map_filter (\<lambda>e. first e (lit ''sAMAccountName'')) entries)"

definition read_current ::
  "unicode \<Rightarrow> (str \<Rightarrow> nat \<Rightarrow> dir_error + entry list) \<Rightarrow> source \<Rightarrow> dir_error + entry list \<Rightarrow> dir_error + entry list
     \<Rightarrow> dir_error + current" where
  "read_current u ask src ou_search domain_search =
     rbind ou_search (\<lambda>entries.
     rbind (each (read_entry u ask src) entries
         \<lparr>r_users = [], r_groups = [], r_unmanaged = [], r_managed_sams = {}\<rparr>) (\<lambda>acc.
     rbind domain_search (\<lambda>domain.
     Inr \<lparr>c_users = r_users acc, c_groups = r_groups acc,
          c_foreign_sams = foreign_sams u (r_managed_sams acc) domain, c_unmanaged_dns = r_unmanaged acc\<rparr>)))"

section \<open>Applying\<close>

datatype modification =
    ModAdd str "byte list set"
  | ModDelete str "byte list set"
  | ModReplace str "byte list set"

datatype request =
    LdapAdd str "(str \<times> byte list set) list"
  | LdapModify str "modification list"
  | LdapModifyDn str str

record 'd server =
  sv_exec :: "request \<Rightarrow> 'd \<Rightarrow> bool \<times> 'd"
  sv_search :: "str \<Rightarrow> str \<Rightarrow> 'd \<Rightarrow> str list option"

definition SETTABLE_ATTRS :: "str list" where
  "SETTABLE_ATTRS = [lit ''sAMAccountName'', lit ''userPrincipalName'', lit ''displayName'']"

definition one :: "str \<Rightarrow> byte list set" where
  "one s = {utf8 s}"

definition utf16_units :: "uchar \<Rightarrow> nat list" where
  "utf16_units c = (if c < 65536 then [c]
     else [55296 + (c - 65536) div 1024, 56320 + (c - 65536) mod 1024])"

definition unicode_pwd :: "str \<Rightarrow> byte list" where
  "unicode_pwd password =
     concat (map (\<lambda>w. [of_nat w, of_nat (w div 256)])
       (concat (map utf16_units ([c_dquote] @ password @ [c_dquote]))))"

type_synonym ('d, 'a) action = "'d \<Rightarrow> (dir_error + 'a) \<times> 'd"

definition andThen :: "('d, 'a) action \<Rightarrow> ('a \<Rightarrow> ('d, 'b) action) \<Rightarrow> ('d, 'b) action" where
  "andThen m k d = (case m d of (Inl e, d') \<Rightarrow> (Inl e, d') | (Inr x, d') \<Rightarrow> k x d')"

definition pure :: "'a \<Rightarrow> ('d, 'a) action" where
  "pure x d = (Inr x, d)"

definition send :: "'d server \<Rightarrow> request \<Rightarrow> ('d, unit) action" where
  "send sv req d = (let (ok, d') = sv_exec sv req d in (if ok then Inr () else Inl LdapFailed, d'))"

definition modify :: "'d server \<Rightarrow> str \<Rightarrow> modification \<Rightarrow> ('d, unit) action" where
  "modify sv dn m = send sv (LdapModify dn [m])"

definition replace_uac :: "'d server \<Rightarrow> str \<Rightarrow> str \<Rightarrow> ('d, unit) action" where
  "replace_uac sv dn uac = modify sv dn (ModReplace (lit ''userAccountControl'') (one uac))"

definition assert_no_role_marker_yet :: "'d server \<Rightarrow> str \<Rightarrow> ('d, unit) action" where
  "assert_no_role_marker_yet sv idp_ou d =
     ((case sv_search sv idp_ou (lit ''(extensionName='' @ ROLE_ADMISSION @ lit '')'') d of
         None \<Rightarrow> Inl LdapFailed
       | Some [] \<Rightarrow> Inr ()
       | Some (dn # _) \<Rightarrow> Inl (SecondAdmissionGroup dn)), d)"

definition set_if :: "'d server \<Rightarrow> str \<Rightarrow> str \<Rightarrow> str option \<Rightarrow> ('d, unit) action" where
  "set_if sv dn attr v =
     (case v of None \<Rightarrow> pure () | Some x \<Rightarrow> modify sv dn (ModReplace attr (one x)))"

fun apply_one ::
  "'d server \<Rightarrow> str \<Rightarrow> str \<Rightarrow> (str \<Rightarrow> str list option) \<Rightarrow> op \<Rightarrow> ('d, unit) action" where
  "apply_one sv idp_ou password markers (CreateUser dn sam upn display_name enabled identity) =
     send sv (LdapAdd dn
       [(lit ''objectClass'', one (lit ''user'')), (lit ''sAMAccountName'', one sam),
        (lit ''userPrincipalName'', one upn), (lit ''displayName'', one display_name),
        (lit ''userAccountControl'', one (if enabled then UAC_ENABLED else UAC_DISABLED)),
        (lit ''unicodePwd'', {unicode_pwd password}),
        (lit ''msDS-ExternalDirectoryObjectId'', one identity)])"
| "apply_one sv idp_ou password markers (CreateGroup dn sam identity role_marker) =
     andThen (case role_marker of None \<Rightarrow> pure [] | Some marker \<Rightarrow>
         andThen (assert_no_role_marker_yet sv idp_ou) (\<lambda>_. pure [(lit ''extensionName'', one marker)])) (\<lambda>extra.
       send sv (LdapAdd dn
         ([(lit ''objectClass'', one (lit ''group'')), (lit ''sAMAccountName'', one sam),
           (lit ''groupType'', one GROUP_TYPE_GLOBAL_SECURITY),
           (lit ''msDS-ExternalDirectoryObjectId'', one identity)] @ extra)))"
| "apply_one sv idp_ou password markers (AddMember dn member) =
     modify sv dn (ModAdd (lit ''member'') (one member))"
| "apply_one sv idp_ou password markers (RemoveMember dn member) =
     modify sv dn (ModDelete (lit ''member'') (one member))"
| "apply_one sv idp_ou password markers (EnableUser dn) = replace_uac sv dn UAC_ENABLED"
| "apply_one sv idp_ou password markers (DisableUser dn) = replace_uac sv dn UAC_DISABLED"
| "apply_one sv idp_ou password markers (SetAttr dn attr value) =
     (if attr \<notin> set SETTABLE_ATTRS then (\<lambda>d. (Inl (UnsettableAttr attr), d))
      else modify sv dn (ModReplace attr (one value)))"
| "apply_one sv idp_ou password markers (SetMarker dn value) =
     modify sv dn (ModAdd (lit ''extensionName'') (one value))"
| "apply_one sv idp_ou password markers (SetRoleMarker dn value) =
     modify sv dn (ModAdd (lit ''extensionName'') (one value))"
| "apply_one sv idp_ou password markers (ClearMembers dn keep) =
     modify sv dn (ModReplace (lit ''member'') (set (map utf8 keep)))"
| "apply_one sv idp_ou password markers (ClearMarker dn pfx) =
     (let to_delete = set (map utf8 (filter (\<lambda>m. starts_with m pfx)
            (case markers dn of None \<Rightarrow> [] | Some ms \<Rightarrow> ms)))
      in if to_delete = {} then pure ()
         else modify sv dn (ModDelete (lit ''extensionName'') to_delete))"
| "apply_one sv idp_ou password markers (Rename dn new_cn set_display_name set_sam set_upn) =
     andThen (send sv (LdapModifyDn dn (lit ''CN='' @ new_cn))) (\<lambda>_.
       let new_dn = lit ''CN='' @ new_cn @ [c_comma] @ parent_of dn in
       andThen (set_if sv new_dn (lit ''displayName'') set_display_name) (\<lambda>_.
       andThen (set_if sv new_dn (lit ''sAMAccountName'') set_sam) (\<lambda>_.
       set_if sv new_dn (lit ''userPrincipalName'') set_upn)))"

record apply_report =
  ar_applied :: "(str \<times> str) list"
  ar_failures :: "(str \<times> dir_error) list"

fun apply_ops ::
  "'d server \<Rightarrow> str \<Rightarrow> (nat \<Rightarrow> str) \<Rightarrow> (str \<Rightarrow> str list option) \<Rightarrow> nat \<Rightarrow> op list \<Rightarrow> 'd \<Rightarrow> apply_report \<times> 'd" where
  "apply_ops sv idp_ou passwords markers n [] d = (\<lparr>ar_applied = [], ar_failures = []\<rparr>, d)"
| "apply_ops sv idp_ou passwords markers n (op # ops) d =
     (let (r, d') = apply_one sv idp_ou (passwords n) markers op d;
          (report, d'') = apply_ops sv idp_ou passwords markers (n + 1) ops d'
      in (case r of
            Inr _ \<Rightarrow> (report\<lparr>ar_applied := (op_kind op, op_dn op) # ar_applied report\<rparr>, d'')
          | Inl e \<Rightarrow> (report\<lparr>ar_failures := (op_dn op, e) # ar_failures report\<rparr>, d'')))"

definition marker_index :: "current \<Rightarrow> str \<Rightarrow> str list option" where
  "marker_index current = map_of (rev (map (\<lambda>(_, x). (cu_dn x, cu_markers x)) (c_users current)
     @ map (\<lambda>(_, g). (cg_dn g, cg_markers g)) (c_groups current)))"

section \<open>What is read\<close>

definition read_inv :: "unicode \<Rightarrow> source \<Rightarrow> entry list \<Rightarrow> read_acc \<Rightarrow> bool" where
  "read_inv u src es acc \<longleftrightarrow>
     (\<forall>(oid, x) \<in> set (r_users acc). cu_dn x \<in> e_dn ` set es \<and> fold u (cu_sam x) \<in> r_managed_sams acc
        \<and> (\<exists>i. decode (cu_identity x) = Inr i \<and> ei_source i = src \<and> ei_subject i = oid))
     \<and> (\<forall>(oid, g) \<in> set (r_groups acc). cg_dn g \<in> e_dn ` set es \<and> fold u (cg_sam g) \<in> r_managed_sams acc
        \<and> (\<exists>i. decode (cg_identity g) = Inr i \<and> ei_source i = src \<and> ei_subject i = oid))"

lemma owned_identity_Some:
  "owned_identity src e = Some (v, i) \<Longrightarrow> decode v = Inr i \<and> ei_source i = src"
  by (auto simp: owned_identity_def split: option.splits sum.splits if_splits)

lemma read_entry_inv:
  assumes "read_entry u ask src e acc = Inr acc'" "read_inv u src es acc" "e \<in> set es"
  shows "read_inv u src es acc'"
proof (cases "owned_identity src e")
  case None
  then show ?thesis using assms by (auto simp: read_entry_def read_inv_def)
next
  case (Some p)
  obtain v i where p: "p = (v, i)" by (cases p)
  have d: "decode v = Inr i" "ei_source i = src" using owned_identity_Some Some p by blast+
  show ?thesis
    using assms d Some p
    by (auto simp: read_entry_def read_inv_def Let_def kb_results split: if_splits)
qed

lemma read_current_inv:
  assumes "read_current u ask src (Inr es) ds = Inr current"
  obtains acc domain where "read_inv u src es acc" "ds = Inr domain"
    "current = \<lparr>c_users = r_users acc, c_groups = r_groups acc,
        c_foreign_sams = foreign_sams u (r_managed_sams acc) domain, c_unmanaged_dns = r_unmanaged acc\<rparr>"
proof -
  obtain acc domain where a: "each (read_entry u ask src) es
         \<lparr>r_users = [], r_groups = [], r_unmanaged = [], r_managed_sams = {}\<rparr> = Inr acc" "ds = Inr domain"
    "current = \<lparr>c_users = r_users acc, c_groups = r_groups acc,
        c_foreign_sams = foreign_sams u (r_managed_sams acc) domain, c_unmanaged_dns = r_unmanaged acc\<rparr>"
    using assms by (auto simp: read_current_def kb_results)
  have "each (read_entry u ask src) xs acc0 = Inr acc \<Longrightarrow> read_inv u src es acc0 \<Longrightarrow> set xs \<subseteq> set es
      \<Longrightarrow> read_inv u src es acc" for xs acc0
  proof (induction xs arbitrary: acc0)
    case (Cons x xs)
    then show ?case by (auto simp: kb_results dest: read_entry_inv)
  qed simp
  then have "read_inv u src es acc" using a(1) by (simp add: read_inv_def)
  then show ?thesis using a(2,3) that by blast
qed

lemma read_inv_users:
  assumes "read_inv u src es acc"
  shows "(oid, x) \<in> set (r_users acc) \<Longrightarrow> cu_dn x \<in> e_dn ` set es
      \<and> fold u (cu_sam x) \<in> r_managed_sams acc \<and> (\<exists>i. decode (cu_identity x) = Inr i \<and> ei_subject i = oid)"
    and "(oid, g) \<in> set (r_groups acc) \<Longrightarrow> cg_dn g \<in> e_dn ` set es
      \<and> fold u (cg_sam g) \<in> r_managed_sams acc \<and> (\<exists>i. decode (cg_identity g) = Inr i \<and> ei_subject i = oid)"
  using assms unfolding read_inv_def by blast+

lemma read_filed_by_subject:
  assumes "read_current u ask src (Inr es) ds = Inr current"
  shows "filed_by_subject current"
proof -
  obtain acc domain where a: "read_inv u src es acc"
    and c: "current = \<lparr>c_users = r_users acc, c_groups = r_groups acc,
        c_foreign_sams = foreign_sams u (r_managed_sams acc) domain, c_unmanaged_dns = r_unmanaged acc\<rparr>"
    using assms by (rule read_current_inv)
  define f where "f = (\<lambda>v. case decode v of Inr i \<Rightarrow> ei_subject i | Inl _ \<Rightarrow> [])"
  have "oid = f (cu_identity x)" if "(oid, x) \<in> set (c_users current)" for oid x
    using read_inv_users(1) [OF a, of oid x] that by (auto simp: c f_def)
  moreover have "oid = f (cg_identity g)" if "(oid, g) \<in> set (c_groups current)" for oid g
    using read_inv_users(2) [OF a, of oid g] that by (auto simp: c f_def)
  ultimately show ?thesis unfolding filed_by_subject_def by blast
qed

lemma read_dns:
  assumes "read_current u ask src (Inr es) ds = Inr current"
  shows "(oid, x) \<in> set (c_users current) \<Longrightarrow> cu_dn x \<in> e_dn ` set es"
    and "(oid, g) \<in> set (c_groups current) \<Longrightarrow> cg_dn g \<in> e_dn ` set es"
proof -
  obtain acc domain where a: "read_inv u src es acc"
    and c: "current = \<lparr>c_users = r_users acc, c_groups = r_groups acc,
        c_foreign_sams = foreign_sams u (r_managed_sams acc) domain, c_unmanaged_dns = r_unmanaged acc\<rparr>"
    using assms by (rule read_current_inv)
  show "(oid, x) \<in> set (c_users current) \<Longrightarrow> cu_dn x \<in> e_dn ` set es"
    using read_inv_users(1) [OF a] by (simp add: c)
  show "(oid, g) \<in> set (c_groups current) \<Longrightarrow> cg_dn g \<in> e_dn ` set es"
    using read_inv_users(2) [OF a] by (simp add: c)
qed

section \<open>Every write\<close>

text \<open>What a request may do: it names an object inside the unit, and a whole-attribute
  replacement never touches the attribute that holds the markers and the device grants.\<close>

fun replaced_attr :: "modification \<Rightarrow> str option" where
  "replaced_attr (ModReplace a _) = Some a"
| "replaced_attr _ = None"

fun request_ok :: "unicode \<Rightarrow> str \<Rightarrow> request \<Rightarrow> bool" where
  "request_ok u ou (LdapAdd dn attrs) \<longleftrightarrow> dn_is_at_or_within u dn ou"
| "request_ok u ou (LdapModifyDn dn rdn) \<longleftrightarrow> dn_is_at_or_within u dn ou"
| "request_ok u ou (LdapModify dn mods) \<longleftrightarrow> dn_is_at_or_within u dn ou
     \<and> Some (lit ''extensionName'') \<notin> set (map replaced_attr mods)"

definition sound_for :: "('d \<Rightarrow> bool) \<Rightarrow> ('d, 'a) action \<Rightarrow> bool" where
  "sound_for I m \<longleftrightarrow> (\<forall>d. I d \<longrightarrow> I (snd (m d)))"

lemma sound_andThen: "sound_for I m \<Longrightarrow> (\<And>x. sound_for I (k x)) \<Longrightarrow> sound_for I (andThen m k)"
  unfolding sound_for_def andThen_def by (auto split: prod.splits sum.splits)

lemma sound_pure: "sound_for I (pure x)"
  by (simp add: sound_for_def pure_def)

lemma sound_send:
  "(\<And>d. I d \<Longrightarrow> I (snd (sv_exec sv req d))) \<Longrightarrow> sound_for I (send sv req)"
  by (auto simp: sound_for_def send_def Let_def split_beta)

lemma sound_marker: "sound_for I (assert_no_role_marker_yet sv ou)"
  by (simp add: sound_for_def assert_no_role_marker_yet_def)

lemma not_extension:
  "lit ''displayName'' \<noteq> lit ''extensionName''" "lit ''sAMAccountName'' \<noteq> lit ''extensionName''"
  "lit ''userPrincipalName'' \<noteq> lit ''extensionName''" "lit ''member'' \<noteq> lit ''extensionName''"
  "lit ''userAccountControl'' \<noteq> lit ''extensionName''"
  by (simp_all add: kb_lits)

text \<open>A rename stays under its parent, so its follow-up writes are inside the unit when the
  parent is and the new name is plain.\<close>

fun rename_ok :: "unicode \<Rightarrow> str \<Rightarrow> op \<Rightarrow> bool" where
  "rename_ok u ou (Rename dn cn a b c) \<longleftrightarrow> plain_cn cn \<and> dn_is_at_or_within u (parent_of dn) ou"
| "rename_ok u ou _ \<longleftrightarrow> True"

lemma apply_one_sound:
  assumes inv: "\<And>req d. request_ok u ou req \<Longrightarrow> I d \<Longrightarrow> I (snd (sv_exec sv req d))"
    and op: "dn_is_at_or_within u (op_dn op) ou" "rename_ok u ou op"
  shows "sound_for I (apply_one sv ou pw markers op)"
proof -
  have send_ok: "sound_for I (send sv req)" if "request_ok u ou req" for req
    using inv [OF that] by (rule sound_send)
  have mod_ok: "sound_for I (modify sv dn m)"
    if "dn_is_at_or_within u dn ou" "replaced_attr m \<noteq> Some (lit ''extensionName'')" for dn m
    unfolding modify_def using that by (intro send_ok) auto
  have set_if: "sound_for I (set_if sv dn attr v)"
    if "dn_is_at_or_within u dn ou" "attr \<noteq> lit ''extensionName''" for dn attr v
    using that by (cases v) (auto simp: set_if_def sound_pure intro!: mod_ok)
  show ?thesis
  proof (cases op)
    case (CreateGroup dn sam identity role)
    then show ?thesis
      using op by (cases role) (auto intro!: sound_andThen sound_pure sound_marker send_ok)
  next
    case (Rename dn cn a b c)
    then have "dn_is_at_or_within u (lit ''CN='' @ cn @ [c_comma] @ parent_of dn) ou"
      using op(2) cn_dn_within [of cn u "parent_of dn" ou] by (simp add: cn_dn_def)
    then show ?thesis
      using Rename op by (auto simp: Let_def not_extension intro!: sound_andThen send_ok set_if)
  next
    case (SetAttr dn attr v)
    have "attr \<noteq> lit ''extensionName''" if "attr \<in> set SETTABLE_ATTRS"
      using that not_extension by (auto simp: SETTABLE_ATTRS_def)
    then show ?thesis using SetAttr op by (auto simp: sound_for_def intro!: mod_ok [unfolded sound_for_def, rule_format])
  qed (use op in \<open>auto simp: replace_uac_def not_extension sound_pure Let_def intro!: send_ok mod_ok\<close>)
qed

lemma apply_ops_sound:
  assumes "\<And>req d. request_ok u ou req \<Longrightarrow> I d \<Longrightarrow> I (snd (sv_exec sv req d))"
    and "\<And>op. op \<in> set ops \<Longrightarrow> dn_is_at_or_within u (op_dn op) ou \<and> rename_ok u ou op" "I d"
  shows "I (snd (apply_ops sv ou pws markers n ops d))"
  using assms(2,3)
proof (induction ops arbitrary: n d)
  case (Cons op ops)
  obtain r d' where r: "apply_one sv ou (pws n) markers op d = (r, d')"
    by (cases "apply_one sv ou (pws n) markers op d")
  have "sound_for I (apply_one sv ou (pws n) markers op)"
    using assms(1) Cons.prems(1) by (intro apply_one_sound) auto
  then have "I d'" using Cons.prems(2) r by (auto simp: sound_for_def dest: spec [of _ d])
  then have "I (snd (apply_ops sv ou pws markers (n + 1) ops d'))"
    using Cons.prems(1) by (intro Cons.IH) auto
  then show ?case by (auto simp: r Let_def split_beta split: sum.splits)
qed simp

section \<open>Ranged answers\<close>

text \<open>A server that answers at most \<open>k\<close> values at a time, in the form of the attribute-range
  convention: the bounds are inclusive and the last chunk ends in a star.\<close>

definition range_key :: "nat \<Rightarrow> str \<Rightarrow> str" where
  "range_key lo hi = lit ''member;range='' @ show_dec lo @ [c_dash] @ hi"

definition ranged_entry :: "nat \<Rightarrow> str list \<Rightarrow> str \<Rightarrow> nat \<Rightarrow> entry" where
  "ranged_entry k xs dn lo = \<lparr>e_dn = dn, e_attrs =
     [(range_key lo (if length xs \<le> lo + k then lit ''*'' else show_dec (lo + k - 1)), take k (drop lo xs))]\<rparr>"

lemma lowercase_digits: "list_all is_ascii_digit s \<Longrightarrow> map to_ascii_lowercase s = s"
  by (induction s) (auto simp: to_ascii_lowercase_def is_ascii_digit_def)

lemma range_key_bounds:
  assumes "hi = lit ''*'' \<or> (\<exists>n. hi = show_dec n)"
  shows "strip_prefix (map to_ascii_lowercase (range_key lo hi)) (lit ''member;range='') = Some (show_dec lo @ [c_dash] @ hi)"
proof -
  have "map to_ascii_lowercase hi = hi"
    using assms lowercase_digits show_dec_digits by (auto simp: to_ascii_lowercase_def kb_lits)
  moreover have "map to_ascii_lowercase (lit ''member;range='') = lit ''member;range=''"
    by (simp add: to_ascii_lowercase_def kb_lits)
  ultimately show ?thesis
    by (simp add: range_key_def lowercase_digits show_dec_digits to_ascii_lowercase_def)
qed

lemmas range_key_simps = range_key_bounds [OF disjI1, OF refl] range_key_bounds [OF disjI2, OF exI, OF refl]

lemma show_dec_no_dash: "c_dash \<notin> set (show_dec n)"
  using show_dec_char is_ascii_digit_not_sign by blast

lemma show_dec_not_star: "show_dec n \<noteq> lit ''*''"
  using show_dec_hd [of n] by (auto simp: is_ascii_digit_def kb_lits)

lemma range_chunk_ranged:
  assumes "0 < k" "length xs < 2 ^ 32"
  shows "range_chunk (e_attrs (ranged_entry k xs dn lo)) =
    Inr (Some (take k (drop lo xs), if length xs \<le> lo + k then None else Some (lo + k)))"
proof (cases "length xs \<le> lo + k")
  case True
  then show ?thesis
    by (simp add: ranged_entry_def range_key_simps split_once_append [of c_dash "show_dec lo", simplified]
        show_dec_no_dash Let_def)
next
  case False
  have "parse_unsigned u32_max (show_dec (lo + k - 1)) = Some (lo + k - 1)"
    using False assms by (intro parse_unsigned_show_dec) (simp add: u32_max_def)
  moreover have "(lo + k - 1 + 1) mod 2 ^ 32 = lo + k" using False assms by simp
  ultimately show ?thesis
    using False
    by (simp add: ranged_entry_def range_key_simps split_once_append [of c_dash "show_dec lo", simplified]
        show_dec_no_dash show_dec_not_star Let_def)
qed

lemma members_from_ranged:
  assumes "0 < k" "length xs < 2 ^ 32"
  shows "lo \<le> length xs \<Longrightarrow> members_from (\<lambda>lo. Inr [ranged_entry k xs dn lo]) dn (take lo xs) lo = Inr xs"
proof (induction "length xs - lo" arbitrary: lo rule: less_induct)
  case less
  have step: "take lo xs @ take k (drop lo xs) = take (lo + k) xs" by (simp add: take_add)
  show ?case
  proof (cases "length xs \<le> lo + k")
    case True
    then show ?thesis
      by (subst members_from.simps) (simp add: range_chunk_ranged [OF assms] step)
  next
    case False
    then have "members_from (\<lambda>lo. Inr [ranged_entry k xs dn lo]) dn (take (lo + k) xs) (lo + k) = Inr xs"
      using assms(1) by (intro less) auto
    then show ?thesis
      using False assms(1) by (subst members_from.simps) (simp add: range_chunk_ranged [OF assms] step)
  qed
qed

section \<open>The report\<close>

lemma apply_ops_report:
  "length (ar_applied (fst (apply_ops sv ou pws markers n ops d)))
     + length (ar_failures (fst (apply_ops sv ou pws markers n ops d))) = length ops"
proof (induction ops arbitrary: n d)
  case (Cons op ops)
  obtain r d' where r: "apply_one sv ou (pws n) markers op d = (r, d')"
    by (cases "apply_one sv ou (pws n) markers op d")
  show ?case using Cons.IH [of "n + 1" d'] by (cases r) (auto simp: r Let_def split_beta)
qed simp

section \<open>Planned renames\<close>

text \<open>What the directory and the adapters guarantee of the objects it holds: an account name is
  not empty and has no DN syntax, and subjects start with hexadecimal digits.\<close>

definition wf_current :: "current \<Rightarrow> bool" where
  "wf_current current \<longleftrightarrow>
     (\<forall>(oid, x) \<in> set (c_users current). plain_cn (cu_sam x) \<and> hex_oid oid)
     \<and> (\<forall>(oid, g) \<in> set (c_groups current). hex_oid oid)"

definition rn :: "unicode \<Rightarrow> plan_ctx \<Rightarrow> op \<Rightarrow> bool" where
  "rn u ctx op = rename_ok u (x_idp_ou ctx) op"

lemma rn_simps [simp]:
  "rn u ctx (CreateUser a b c d e f)" "rn u ctx (CreateGroup a b c m)" "rn u ctx (AddMember a b)"
  "rn u ctx (RemoveMember a b)" "rn u ctx (EnableUser a)" "rn u ctx (DisableUser a)" "rn u ctx (SetAttr a b c)"
  "rn u ctx (SetMarker a b)" "rn u ctx (SetRoleMarker a b)" "rn u ctx (ClearMarker a b)" "rn u ctx (ClearMembers a k)"
  "rn u ctx (Rename dn cn x y z) \<longleftrightarrow> plain_cn cn \<and> dn_is_at_or_within u (parent_of dn) (x_idp_ou ctx)"
  by (simp_all add: rn_def)

lemma add_op_keepsR: "R op \<Longrightarrow> p_ops (s_plan t) = p_ops (s_plan s) \<Longrightarrow> keeps R s (add_op u ctx op t)"
  by (auto simp: keeps_def add_op_def grows_def split: if_splits)

lemma add_ops_keepsR:
  assumes "list_all R ops" "p_ops (s_plan t) = p_ops (s_plan s)"
  shows "keeps R s (add_ops u ctx ops t)"
  using assms
proof (induction ops arbitrary: s t)
  case Nil
  then show ?case by (simp add: grows_def)
next
  case (Cons op ops)
  then show ?case by (auto intro!: keeps_rbind add_op_keepsR)
qed

lemmas keepsR_intros = keeps_rbind [OF add_op_keepsR] keeps_rbind [OF add_ops_keepsR] add_op_keepsR add_ops_keepsR

lemma new_user_rn: "keeps (rn u ctx) s (new_user u ctx oid du s)"
  by (auto simp: new_user_def encoded_identity_def Let_def split_beta split: sum.splits
      intro!: keeps_value keepsR_intros)

lemma alloc_plain:
  assumes "unicode_tables u" "hex_oid oid" "wf_desired_user u du" "alloc u ctx du oid s = Inr (sam, upn, cn)"
  shows "plain_cn cn"
  using alloc_safe [OF assms(1-3), of ctx s] assms(4) by simp

lemma restore_user_rn:
  assumes "unicode_tables u" "hex_oid oid" "wf_desired_user u du" "below u ctx (cu_dn cu)"
    and "restore_user u ctx oid du cu s = Inr (b, s')"
  shows "grows (rn u ctx) s s'"
proof -
  let ?ops = "ClearMarker (cu_dn cu) ST_RETIRED # (if du_enabled du \<and> \<not> cu_enabled cu then [EnableUser (cu_dn cu)] else [])"
  obtain t where t: "add_ops u ctx ?ops s = Inr t"
    using assms(5) unfolding restore_user_def by (auto simp: kb_results simp del: add_ops.simps)
  have "keeps (rn u ctx) s (add_ops u ctx ?ops s)" by (rule add_ops_keepsR) auto
  then have st: "grows (rn u ctx) s t" by (simp only: t keeps_simps)
  have p: "dn_is_at_or_within u (parent_of (cu_dn cu)) (x_idp_ou ctx)" using assms(4) by (simp add: below_def)
  have "grows (rn u ctx) t s'"
    using assms(5) p unfolding restore_user_def
    by (auto simp: t kb_results Let_def add_op_def grows_def split: if_splits simp del: add_ops.simps
        intro!: plain_cn_suffixed [OF _ assms(2)] intro: alloc_plain [OF assms(1-3)])
  with st show ?thesis by (rule grows_trans)
qed

lemma follow_login_name_rn: "keeps (rn u ctx) s (follow_login_name u ctx oid du cu r s)"
  by (auto simp: follow_login_name_def Let_def split_beta simp del: add_ops.simps
      intro!: keeps_value keepsR_intros)

lemma follow_display_name_rn:
  assumes "hex_oid oid" "below u ctx (cu_dn cu)" "plain_cn (cu_sam cu)"
  shows "keeps (rn u ctx) s (follow_display_name u ctx oid du cu r s)"
proof -
  have "plain_cn (case safe_name n of Some n \<Rightarrow> n | None \<Rightarrow> cu_sam cu)" for n
    using assms(3) safe_name_chars by (auto split: option.splits)
  then show ?thesis
    using assms(1,2) unfolding follow_display_name_def Let_def
    by (auto simp: below_def intro!: keepsR_intros plain_cn_suffixed)
qed

lemma known_user_rn:
  assumes "unicode_tables u" "hex_oid oid" "wf_desired_user u du" "below u ctx (cu_dn cu)" "plain_cn (cu_sam cu)"
  shows "keeps (rn u ctx) s (known_user u ctx oid du cu s)"
proof -
  have first: "grows (rn u ctx) s t" if "(if has_prefix ST_RETIRED (cu_markers cu) then restore_user u ctx oid du cu s0
         else if du_enabled du \<noteq> cu_enabled cu
         then rbind (add_op u ctx (if du_enabled du then EnableUser (cu_dn cu) else DisableUser (cu_dn cu)) s0)
                (\<lambda>s. Inr (False, s))
         else Inr (False, s0)) = Inr (b, t)" and "s0 = s\<lparr>s_dn_of := m\<rparr>" for b t s0 m
    using that restore_user_rn [OF assms(1-4), of s0 b t]
    by (auto simp: kb_results add_op_def grows_def split: if_splits)
  show ?thesis
    unfolding known_user_def Let_def
    by (rule keeps_pair [OF first [OF _ refl]])
       (assumption, rule keeps_rbind [OF follow_login_name_rn follow_display_name_rn [OF assms(2,4,5)]])
qed

lemma sanitize_plain:
  assumes "unicode_tables u"
  shows "plain_cn (sanitize_sam u s n)"
  using unicode_tables.sanitize_sanitized [OF assms, of n MAX_BYTES "nfc u s"] allowed_plain_cn [OF assms]
  by (auto simp: sanitize_sam_def sanitized_by_def)

lemma plain_cn_trim: "plain_cn s \<Longrightarrow> plain_cn (trim s)"
proof -
  assume s: "plain_cn s"
  have "c \<notin> set s \<Longrightarrow> c \<notin> set (trim s)" for c using set_trim by blast
  moreover have "trim (trim s) \<noteq> []"
  proof -
    obtain c where "c \<in> set (trim s)" "\<not> is_whitespace c"
    proof -
      have ne: "trim s \<noteq> []" using s by (simp add: plain_cn_def)
      have "\<not> is_whitespace (last (trim s))" using ne last_trim_end_by unfolding trim_def by blast
      then show ?thesis using that last_in_set [OF ne] by blast
    qed
    then show ?thesis using trim_not_Nil by blast
  qed
  ultimately show ?thesis using s by (auto simp: plain_cn_def)
qed

lemma no_dn_syntax_Cons: "no_dn_syntax (c # s) \<longleftrightarrow> c \<noteq> c_comma \<and> c \<noteq> c_bslash \<and> no_dn_syntax s"
  by (auto simp: no_dn_syntax_def)

lemma retired_names_plain:
  assumes "unicode_tables u" "hex_oid oid"
  shows "plain_cn (snd (fst (retired_names u dn sam label oid keys taken)))"
proof -
  have "no_dn_syntax RETIRED_PREFIX" by (simp add: no_dn_syntax_def kb_lits)
  then have a: "plain_cn (RETIRED_PREFIX @ sanitize_sam u sam n)" for n
    by (intro plain_cn_prepend sanitize_plain [OF assms(1)])
  have b: "plain_cn (RETIRED_PREFIX @ sanitize_sam u sam n @ [c_dash] @ oid4 oid)" for n
    using plain_cn_append [OF a [of n], of "[c_dash] @ oid4 oid"] hex_no_dn_syntax [OF assms(2)]
    by (simp add: no_dn_syntax_Cons)
  have l: "plain_cn (case safe_name label of Some l \<Rightarrow> l | None \<Rightarrow> x)" if "plain_cn x" for x
    using that safe_name_chars by (auto split: option.splits)
  show ?thesis
    using a b l hex_no_dn_syntax [OF assms(2)]
    by (auto simp: retired_names_def Let_def intro!: plain_cn_append plain_cn_trim)
qed

lemma plan_users_rn:
  assumes "unicode_tables u" "wf_inputs u desired current ctx" "wf_current current"
  shows "keeps (rn u ctx) s (plan_users u ctx desired current dupes s)"
  unfolding plan_users_def
proof (rule keeps_each)
  fix x t
  assume x: "x \<in> set (d_users desired)"
  obtain oid du where xe: "x = (oid, du)" by (cases x)
  note w = wf_inputsD(4) [OF assms(2) x [unfolded xe]]
  have "plain_cn (cu_sam cu)" if "lookup (c_users current) oid = Some cu" for cu
    using lookup_Some [OF that] assms(3) by (auto simp: wf_current_def)
  then show "keeps (rn u ctx) t ((\<lambda>(oid, du) s.
         if oid \<in> dupes then Inr s
         else (case lookup (c_users current) oid of
                 None \<Rightarrow> new_user u ctx oid du s
               | Some cu \<Rightarrow> known_user u ctx oid du cu s)) x t)"
    using w known_user_rn [OF assms(1), of oid du ctx _ t] wf_inputsD(2) [OF assms(2), of oid]
    by (auto simp: xe new_user_rn split: option.splits)
qed

lemma retire_user_rn:
  assumes "unicode_tables u" "hex_oid oid" "below u ctx (cu_dn cu)"
  shows "keeps (rn u ctx) s (retire_user u ctx oid cu s)"
  unfolding retire_user_def
  by (rule keeps_rbind [OF add_ops_keepsR])
     (use assms retired_names_plain [OF assms(1,2)] in
       \<open>auto simp: Let_def split_beta below_def split: if_splits intro!: keepsR_intros\<close>)

lemma retire_users_rn:
  assumes "unicode_tables u" "wf_inputs u desired current ctx" "wf_current current"
  shows "keeps (rn u ctx) s (retire_users u ctx desired current dupes s)"
  unfolding retire_users_def
proof (rule keeps_each)
  fix oid t
  assume "oid \<in> set (sort (map fst (c_users current)))"
  then have "hex_oid oid" using assms(3) by (auto simp: wf_current_def)
  then show "keeps (rn u ctx) t (if oid \<in> fst ` set (d_users desired) \<or> oid \<in> dupes then Inr t
         else rbind (ok_or Panicked (lookup (c_users current) oid)) (\<lambda>cu. retire_user u ctx oid cu t))"
    using retire_user_rn [OF assms(1)] wf_inputsD(2) [OF assms(2), of oid]
    by (auto simp: kb_results intro!: keeps_value)
qed

lemma new_group_rn: "keeps (rn u ctx) s (new_group u ctx m oid dg s)"
  by (auto simp: new_group_def encoded_identity_def Let_def split_beta split: sum.splits
      intro!: keepsR_intros)

lemma first_rdn: "plain_cn cn \<Longrightarrow> drop 3 (hd (split_on c_comma (cn_dn cn parent))) = cn"
proof -
  assume "plain_cn cn"
  then have "c_comma \<notin> set (lit ''CN='' @ cn)" by (simp add: plain_cn_def kb_lits)
  then have "split_on c_comma (cn_dn cn parent) = (lit ''CN='' @ cn) # split_on c_comma parent"
    using split_on_Cons_free [of c_comma "lit ''CN='' @ cn" parent] by (simp add: cn_dn_def)
  then show ?thesis by (simp add: kb_lits)
qed

lemma rename_group_rn:
  assumes "hex_oid oid" "below u ctx (cg_dn cg)"
  shows "keeps (rn u ctx) s (rename_group u ctx oid dg cg s)"
proof -
  obtain cn sam where g: "group_names (dg_display_name dg) oid (x_group_suffix ctx) = (cn, sam)"
    by (cases "group_names (dg_display_name dg) oid (x_group_suffix ctx)")
  have cn: "plain_cn cn" using group_names_plain [OF assms(1)] g by (metis fst_conv)
  show ?thesis
    using assms(2) cn plain_cn_suffixed [OF cn assms(1)]
    unfolding rename_group_def g Let_def prod.case
    by (auto simp: below_def first_rdn intro!: keepsR_intros)
qed

lemma known_group_rn:
  assumes "hex_oid oid" "below u ctx (cg_dn cg)"
  shows "keeps (rn u ctx) s (known_group u ctx m oid dg cg s)"
proof -
  have first: "keeps (rn u ctx) s (if c then add_op u ctx (ClearMarker (cg_dn cg) p) (s\<lparr>s_dn_of := f\<rparr>)
      else Inr (s\<lparr>s_dn_of := f\<rparr>))" for c p f
    by (auto intro!: keepsR_intros)
  show ?thesis
    unfolding known_group_def Let_def
    by (rule keeps_rbind [OF first keeps_rbind [OF rename_group_rn [OF assms]]]) (auto intro!: keepsR_intros)
qed

lemma plan_groups_rn:
  assumes "wf_inputs u desired current ctx"
  shows "keeps (rn u ctx) s (plan_groups u ctx desired current dupes s)"
  unfolding plan_groups_def Let_def
proof (rule keeps_each)
  fix x t
  assume x: "x \<in> set (d_groups desired)"
  obtain oid dg where xe: "x = (oid, dg)" by (cases x)
  have "hex_oid oid" using wf_inputsD(5) [OF assms] x xe by blast
  then show "keeps (rn u ctx) t ((\<lambda>(oid, dg) s.
         if oid \<in> dupes then Inr s
         else (case lookup (c_groups current) oid of
                 None \<Rightarrow> new_group u ctx (x_admission ctx \<notin> set (marked_with ROLE_ADMISSION current)) oid dg s
               | Some cg \<Rightarrow> known_group u ctx (x_admission ctx \<notin> set (marked_with ROLE_ADMISSION current)) oid dg cg s)) x t)"
    using known_group_rn [of oid u ctx] wf_inputsD(3) [OF assms, of oid]
    by (auto simp: xe new_group_rn split: option.splits)
qed

lemma quarantine_group_rn:
  assumes "unicode_tables u" "hex_oid oid" "below u ctx (cg_dn cg)"
  shows "keeps (rn u ctx) s (quarantine_group u ctx oid cg s)"
proof -
  have first: "keeps (rn u ctx) s (if c then add_ops u ctx [ClearMembers (cg_dn cg) k, SetMarker (cg_dn cg) m]
      (add_conflicts cs s) else Inr s)" for c k m cs
    by (auto simp del: add_ops.simps intro!: keepsR_intros)
  show ?thesis
    unfolding quarantine_group_def Let_def
    by (rule keeps_rbind [OF first])
       (use assms retired_names_plain [OF assms(1,2)] in \<open>auto simp: split_beta below_def intro!: keepsR_intros\<close>)
qed

lemma quarantine_groups_rn:
  assumes "unicode_tables u" "wf_inputs u desired current ctx" "wf_current current"
  shows "keeps (rn u ctx) s (quarantine_groups u ctx desired current dupes s)"
  unfolding quarantine_groups_def
proof (rule keeps_each)
  fix oid t
  assume "oid \<in> set (sort (map fst (c_groups current)))"
  then have "hex_oid oid" using assms(3) by (auto simp: wf_current_def)
  then show "keeps (rn u ctx) t (if oid \<in> fst ` set (d_groups desired) \<or> oid \<in> dupes then Inr t
         else rbind (ok_or Panicked (lookup (c_groups current) oid)) (\<lambda>cg.
           if oid = x_admission ctx then Inr (add_alert (AdmissionVanished (cg_dn cg)) t)
           else quarantine_group u ctx oid cg t))"
    using quarantine_group_rn [OF assms(1)] wf_inputsD(3) [OF assms(2), of oid]
    by (auto simp: kb_results intro!: keeps_value)
qed

lemma grant_marker_rn: "keeps (rn u ctx) s (plan_grant_marker u ctx desired current s)"
proof -
  have loop: "keeps (rn u ctx) s (each (\<lambda>marked s. rbind (ok_or Panicked (lookup (c_groups current) marked)) (\<lambda>g.
      add_op u ctx (ClearMarker (cg_dn g) role) s)) ms s)" for role ms
    by (rule keeps_each) (auto intro!: keeps_value keepsR_intros)
  show ?thesis
    unfolding plan_grant_marker_def Let_def
    by (auto split: option.splits intro!: keeps_rbind [OF loop] keepsR_intros)
qed

lemma plan_membership_rn: "keeps (rn u ctx) s (plan_membership u ctx desired current dupes s)"
  unfolding plan_membership_def plan_members_def drop_member_def Let_def
  by (rule keeps_each) (auto simp: list_all_iff split: option.splits intro!: keeps_each keepsR_intros)

lemma clear_stale_rn: "keeps (rn u ctx) s (clear_stale u ctx current s)"
  unfolding clear_stale_def by (rule keeps_each) (auto intro!: keeps_value keepsR_intros)

lemma plan_renames_ok:
  assumes "unicode_tables u" "wf_inputs u desired current ctx" "wf_current current"
    and "plan_sync u desired current ctx = Inr p" "op \<in> set (p_ops p)"
  shows "rename_ok u (x_idp_ou ctx) op"
proof (cases "frozen desired current ctx")
  case (Some a)
  then show ?thesis using assms(4,5) by (auto simp: plan_sync_def plan0_def)
next
  case None
  obtain s0 conflicts dupes s1 s2 s3 s5 s6 s7 s8 where c:
    "clear_stale u ctx current (start_state u current) = Inr s0" "s1 = add_conflicts conflicts s0"
    "plan_users u ctx desired current dupes s1 = Inr s2"
    "retire_users u ctx desired current dupes s2 = Inr s3"
    "plan_groups u ctx desired current dupes s3 = Inr s5"
    "quarantine_groups u ctx desired current dupes s5 = Inr s6"
    "plan_grant_marker u ctx desired current s6 = Inr s7"
    "plan_membership u ctx desired current dupes s7 = Inr s8" "p = s_plan s8"
    using plan_sync_cycle [OF assms(4) None] by (auto simp: cycle_def check_collisions_Inr)
  have "grows (rn u ctx) (start_state u current) s1"
    using clear_stale_rn [of u ctx "start_state u current" current] c(1,2) by simp
  moreover have "grows (rn u ctx) s1 s2"
    using plan_users_rn [OF assms(1-3), of s1 dupes] c(3) by simp
  moreover have "grows (rn u ctx) s2 s3"
    using retire_users_rn [OF assms(1-3), of s2 dupes] c(4) by simp
  moreover have "grows (rn u ctx) s3 s5"
    using plan_groups_rn [OF assms(2), of s3 dupes] c(5) by simp
  moreover have "grows (rn u ctx) s5 s6"
    using quarantine_groups_rn [OF assms(1-3), of s5 dupes] c(6) by simp
  moreover have "grows (rn u ctx) s6 s7" using grant_marker_rn [of u ctx s6 desired current] c(7) by simp
  moreover have "grows (rn u ctx) s7 s8"
    using plan_membership_rn [of u ctx s7 desired current dupes] c(8) by simp
  ultimately have "grows (rn u ctx) (start_state u current) s8" by (blast intro: grows_trans)
  then show ?thesis
    using assms(5) c(9) by (auto simp: grows_def start_state_def plan0_def rn_def list_all_iff)
qed

section \<open>Properties\<close>

text \<open>Fact (KB_SyncDirectory.ranged_members_complete): a group whose members the server hands out in
  chunks is read whole: for every chunk size and every member list the walk ends and returns
  exactly the list, so a large group is never read as empty or truncated.\<close>

theorem ranged_members_complete:
  assumes "0 < k" "length xs < 2 ^ 32"
  shows "members_of (\<lambda>lo. Inr [ranged_entry k xs dn lo]) (ranged_entry k xs dn 0) = Inr xs"
proof -
  have nm: "map_of (e_attrs (ranged_entry k xs dn 0)) (lit ''member'') = None"
    by (simp add: ranged_entry_def range_key_def kb_lits)
  show ?thesis
  proof (cases "length xs \<le> k")
    case True
    then show ?thesis
      unfolding members_of_def nm using range_chunk_ranged [OF assms, of dn 0] by simp
  next
    case False
    then show ?thesis
      unfolding members_of_def nm
      using range_chunk_ranged [OF assms, of dn 0] members_from_ranged [OF assms, of k dn]
      by (simp add: ranged_entry_def)
  qed
qed

theorem ranged_members_complete_witness:
  "members_of (\<lambda>lo. Inr [ranged_entry 2 [[97], [98], [99], [100], [101]] [120] lo])
     (ranged_entry 2 [[97], [98], [99], [100], [101]] [120] 0) = Inr [[97], [98], [99], [100], [101]]"
  by (rule ranged_members_complete) simp_all

text \<open>Fact (KB_SyncDirectory.every_op_accounted): applying a plan attempts every operation of it, whatever
  the server answers, and reports each one either as applied or as failed.\<close>

theorem every_op_accounted:
  "length (ar_applied (fst (apply_ops sv ou pws markers n ops d)))
     + length (ar_failures (fst (apply_ops sv ou pws markers n ops d))) = length ops"
  by (rule apply_ops_report)

lemma applied_contained:
  assumes "unicode_tables u" "wf_inputs u desired current ctx" "wf_current current"
    and "plan_sync u desired current ctx = Inr p"
    and "\<And>req d. request_ok u (x_idp_ou ctx) req \<Longrightarrow> I d \<Longrightarrow> I (snd (sv_exec sv req d))" "I d"
  shows "I (snd (apply_ops sv (x_idp_ou ctx) pws (marker_index current) n (p_ops p) d))"
proof (rule apply_ops_sound [where u = u and I = I])
  show "I (snd (sv_exec sv req d))" if "request_ok u (x_idp_ou ctx) req" "I d" for req d
    using that by (rule assms(5))
  show "dn_is_at_or_within u (op_dn op) (x_idp_ou ctx) \<and> rename_ok u (x_idp_ou ctx) op" if "op \<in> set (p_ops p)" for op
    using plan_ops_inside [OF assms(4) that] plan_renames_ok [OF assms(1-4) that] by blast
qed (rule assms(6))

text \<open>Fact (KB_SyncDirectory.applied_writes_contained): applying a plan that the planner made sends the
  server only requests that name objects inside the source's unit, renames included, and that
  never replace the whole attribute holding the markers and the device grants. Any property of
  the directory that such requests preserve holds after the cycle.\<close>

theorem applied_writes_contained:
  assumes "unicode_tables u" "wf_inputs u desired current ctx" "wf_current current"
    and "plan_sync u desired current ctx = Inr p"
    and "\<And>req d. request_ok u (x_idp_ou ctx) req \<Longrightarrow> I d \<Longrightarrow> I (snd (sv_exec sv req d))" "I d"
  shows "I (snd (apply_ops sv (x_idp_ou ctx) pws (marker_index current) n (p_ops p) d))"
  by (rule applied_contained [where I = I, OF assms(1-5) assms(6)])

text \<open>A server that keeps the requests it was sent.\<close>

definition log_server :: "request list server" where
  "log_server = \<lparr>sv_exec = (\<lambda>req d. (True, d @ [req])), sv_search = (\<lambda>_ _ _. Some [])\<rparr>"

theorem applied_writes_contained_witness:
  "\<exists>p. plan_sync block_tables sample_desired sample_current sample_ctx = Inr p
     \<and> list_all (request_ok block_tables (x_idp_ou sample_ctx))
         (snd (apply_ops log_server (x_idp_ou sample_ctx) (\<lambda>_. []) (marker_index sample_current) 0 (p_ops p) []))"
proof -
  obtain p where p: "plan_sync block_tables sample_desired sample_current sample_ctx = Inr p"
    using sample_completes by blast
  have w: "wf_current sample_current"
    by (simp add: wf_current_def sample_current_def sample_leaver_def plain_cn_alt no_dn_syntax_def
        is_whitespace_def hex_oid_def oid4_def is_ascii_hexdigit_def is_ascii_digit_def kb_lits)
  have "list_all (request_ok block_tables (x_idp_ou sample_ctx))
      (snd (apply_ops log_server (x_idp_ou sample_ctx) (\<lambda>_. []) (marker_index sample_current) 0 (p_ops p) []))"
    by (rule applied_writes_contained [OF block.unicode_tables_axioms sample_wf w p]) (simp_all add: log_server_def)
  with p show ?thesis by blast
qed

text \<open>What makes an object of the unit managed, and which part of the state it belongs to.\<close>

definition carries :: "source \<Rightarrow> entry \<Rightarrow> str \<Rightarrow> external_identity \<Rightarrow> bool" where
  "carries src e v i \<longleftrightarrow>
     first e (lit ''msDS-ExternalDirectoryObjectId'') = Some v \<and> decode v = Inr i \<and> ei_source i = src"

definition managed :: "source \<Rightarrow> entry \<Rightarrow> bool" where
  "managed src e \<longleftrightarrow> (\<exists>v i. carries src e v i)"

definition is_group :: "entry \<Rightarrow> bool" where
  "is_group e \<longleftrightarrow> lit ''group'' \<in> set (values_of e (lit ''objectClass''))"

lemma owned_carries: "owned_identity src e = Some (v, i) \<longleftrightarrow> carries src e v i"
  by (auto simp: owned_identity_def carries_def split: option.splits sum.splits)

lemma owned_unmanaged: "owned_identity src e = None \<longleftrightarrow> \<not> managed src e"
  unfolding managed_def owned_carries [symmetric] by (cases "owned_identity src e") auto

definition read_as :: "source \<Rightarrow> entry list \<Rightarrow> (str \<times> current_user) list \<Rightarrow> (str \<times> current_group) list \<Rightarrow> str list \<Rightarrow> bool" where
  "read_as src es us gs dns \<longleftrightarrow>
     list_all2 (\<lambda>e (oid, x). \<exists>i. carries src e (cu_identity x) i \<and> oid = ei_subject i \<and> cu_dn x = e_dn e)
       (filter (\<lambda>e. managed src e \<and> \<not> is_group e) es) us
     \<and> list_all2 (\<lambda>e (oid, g). \<exists>i. carries src e (cg_identity g) i \<and> oid = ei_subject i \<and> cg_dn g = e_dn e)
       (filter (\<lambda>e. managed src e \<and> is_group e) es) gs
     \<and> dns = map e_dn (filter (\<lambda>e. \<not> managed src e) es)"

lemma read_as_append:
  "read_as src es us gs dns \<Longrightarrow> read_as src es' us' gs' dns' \<Longrightarrow> read_as src (es @ es') (us @ us') (gs @ gs') (dns @ dns')"
  by (auto simp: read_as_def intro: list_all2_appendI)

lemma read_entry_as:
  assumes "read_entry u ask src e acc = Inr acc'"
  shows "\<exists>us gs dns. read_as src [e] us gs dns \<and> r_users acc' = r_users acc @ us \<and> r_groups acc' = r_groups acc @ gs
    \<and> r_unmanaged acc' = r_unmanaged acc @ dns"
proof (cases "owned_identity src e")
  case None
  then have "\<not> managed src e" by (simp add: owned_unmanaged)
  with assms None show ?thesis by (intro exI [of _ "[]"] exI [of _ "[e_dn e]"]) (auto simp: read_entry_def read_as_def)
next
  case (Some p)
  obtain v i where p: "p = (v, i)" by (cases p)
  have c: "carries src e v i" using Some p by (simp add: owned_carries)
  then have m: "managed src e" by (auto simp: managed_def)
  show ?thesis
  proof (cases "is_group e")
    case True
    then show ?thesis using assms Some p c m
      by (auto simp: read_entry_def read_as_def is_group_def Let_def kb_results)
  next
    case False
    then show ?thesis using assms Some p c m
      by (auto simp: read_entry_def read_as_def is_group_def Let_def)
  qed
qed

lemma each_read_as:
  assumes "each (read_entry u ask src) es acc = Inr acc'"
  shows "\<exists>us gs dns. read_as src es us gs dns \<and> r_users acc' = r_users acc @ us \<and> r_groups acc' = r_groups acc @ gs
    \<and> r_unmanaged acc' = r_unmanaged acc @ dns"
  using assms
proof (induction es arbitrary: acc)
  case (Cons e es)
  then obtain acc1 where e: "read_entry u ask src e acc = Inr acc1" "each (read_entry u ask src) es acc1 = Inr acc'"
    by (auto simp: kb_results)
  obtain us gs dns where 1: "read_as src [e] us gs dns" "r_users acc1 = r_users acc @ us" "r_groups acc1 = r_groups acc @ gs"
    "r_unmanaged acc1 = r_unmanaged acc @ dns" using read_entry_as [OF e(1)] by blast
  obtain us' gs' dns' where 2: "read_as src es us' gs' dns'" "r_users acc' = r_users acc1 @ us'"
    "r_groups acc' = r_groups acc1 @ gs'" "r_unmanaged acc' = r_unmanaged acc1 @ dns'" using Cons.IH [OF e(2)] by blast
  from read_as_append [OF 1(1) 2(1)] 1 2 show ?case by auto
qed (auto simp: read_as_def)

lemma read_current_as:
  assumes "read_current u ask src (Inr es) ds = Inr current"
  shows "read_as src es (c_users current) (c_groups current) (c_unmanaged_dns current)"
  using assms by (auto simp: read_current_def kb_results dest!: each_read_as)

text \<open>C28 (KB_SyncDirectory.read_feeds_planner): a state read from the unit is one the planner can plan
  from without a panic. An object of the unit is managed exactly when its stored identity decodes and names this
  source. The managed objects that are no groups are the users of the state and the managed
  groups its groups, each one once, in the order read, with its distinguished name and stored identity, filed under the subject of
  that identity; every other object of the unit is reported as unmanaged, and nothing else is.\<close>

theorem read_feeds_planner:
  assumes "unicode_tables u" "read_current u ask src (Inr es) ds = Inr current"
    and "\<And>e. e \<in> set es \<Longrightarrow> below u ctx (e_dn e)" "dn_components u (x_idp_ou ctx) \<noteq> None"
    and "fst ` set (d_users desired) \<inter> fst ` set (d_groups desired) = {}"
    and "\<And>oid du. (oid, du) \<in> set (d_users desired) \<Longrightarrow> hex_oid oid \<and> wf_desired_user u du"
    and "\<And>oid dg. (oid, dg) \<in> set (d_groups desired) \<Longrightarrow> hex_oid oid"
  shows "list_all2 (\<lambda>e (oid, x). \<exists>i. carries src e (cu_identity x) i \<and> oid = ei_subject i \<and> cu_dn x = e_dn e)
       (filter (\<lambda>e. managed src e \<and> \<not> is_group e) es) (c_users current)
     \<and> list_all2 (\<lambda>e (oid, g). \<exists>i. carries src e (cg_identity g) i \<and> oid = ei_subject i \<and> cg_dn g = e_dn e)
       (filter (\<lambda>e. managed src e \<and> is_group e) es) (c_groups current)
     \<and> c_unmanaged_dns current = map e_dn (filter (\<lambda>e. \<not> managed src e) es)
     \<and> plan_sync u desired current ctx \<noteq> Inl Panicked"
proof -
  have "below u ctx (cu_dn x)" if "(oid, x) \<in> set (c_users current)" for oid x
    using read_dns(1) [OF assms(2) that] assms(3) by auto
  moreover have "below u ctx (cg_dn g)" if "(oid, g) \<in> set (c_groups current)" for oid g
    using read_dns(2) [OF assms(2) that] assms(3) by auto
  ultimately have "wf_inputs u desired current ctx"
    using assms(4-7) read_filed_by_subject [OF assms(2)] by (auto simp: wf_inputs_def)
  from plan_sync_safe [OF assms(1) this] have "plan_sync u desired current ctx \<noteq> Inl Panicked" by (auto simp: safe_def)
  with read_current_as [OF assms(2)] show ?thesis unfolding read_as_def by blast
qed

text \<open>A unit with a user of the source, one of another source and an object without an identity.\<close>

definition sample_entry :: entry where
  "sample_entry = \<lparr>e_dn = lit ''CN=al,OU=e'', e_attrs = [(lit ''sAMAccountName'', [lit ''al'']),
     (lit ''msDS-ExternalDirectoryObjectId'', [lit ''kb1|s|aa01''])]\<rparr>"

definition foreign_entry :: entry where
  "foreign_entry = \<lparr>e_dn = lit ''CN=bo,OU=e'', e_attrs = [(lit ''sAMAccountName'', [lit ''bo'']),
     (lit ''msDS-ExternalDirectoryObjectId'', [lit ''kb1|t|aa01''])]\<rparr>"

theorem read_feeds_planner_witness:
  "\<exists>current. read_current block_tables (\<lambda>_ _. Inl LdapFailed) (Source (lit ''s'')) (Inr [sample_entry, foreign_entry]) (Inr []) = Inr current
     \<and> map fst (c_users current) = [lit ''aa01''] \<and> c_unmanaged_dns current = [e_dn foreign_entry]
     \<and> plan_sync block_tables sample_desired current sample_ctx \<noteq> Inl Panicked"
proof -
  let ?src = "Source (lit ''s'')"
  have d: "decode (lit ''kb1|s|aa01'') = Inr \<lparr>ei_source = ?src, ei_subject = lit ''aa01''\<rparr>"
    "decode (lit ''kb1|t|aa01'') = Inr \<lparr>ei_source = Source (lit ''t''), ei_subject = lit ''aa01''\<rparr>"
    by (simp_all add: decode_def Source_new_def new_identity_def KB_Identity.encode_def kb_lits)
  have f: "first sample_entry (lit ''msDS-ExternalDirectoryObjectId'') = Some (lit ''kb1|s|aa01'')"
    "first foreign_entry (lit ''msDS-ExternalDirectoryObjectId'') = Some (lit ''kb1|t|aa01'')"
    by (simp_all add: first_def sample_entry_def foreign_entry_def kb_lits)
  have g: "values_of sample_entry (lit ''objectClass'') = []" "\<not> is_group sample_entry"
    by (simp_all add: is_group_def values_of_def sample_entry_def kb_lits)
  have t: "lit ''t'' \<noteq> lit ''s''" by (simp add: kb_lits)
  have c: "carries ?src sample_entry v i \<longleftrightarrow> v = lit ''kb1|s|aa01'' \<and> i = \<lparr>ei_source = ?src, ei_subject = lit ''aa01''\<rparr>"
    "\<not> carries ?src foreign_entry v i" for v i
    using d t by (auto simp: carries_def f)
  then have m: "managed ?src sample_entry" "\<not> managed ?src foreign_entry" by (simp_all add: managed_def)
  obtain current where r: "read_current block_tables (\<lambda>_ _. Inl LdapFailed) ?src (Inr [sample_entry, foreign_entry]) (Inr [])
      = Inr current"
    by (simp add: read_current_def read_entry_def owned_identity_def f g d t Let_def)
  note w = wf_inputs_simps [OF sample_wf]
  have b: "below block_tables sample_ctx (e_dn e)" if "e \<in> set [sample_entry, foreign_entry]" for e
    using that w(2) by (auto simp: sample_entry_def sample_current_def sample_leaver_def)
      (simp add: foreign_entry_def below_def sample_ctx_def dn_eval kb_lits)
  let ?es = "[sample_entry, foreign_entry]"
  have q: "list_all2 (\<lambda>e (oid, x). \<exists>i. carries ?src e (cu_identity x) i \<and> oid = ei_subject i \<and> cu_dn x = e_dn e)
       (filter (\<lambda>e. managed ?src e \<and> \<not> is_group e) ?es) (c_users current)
     \<and> list_all2 (\<lambda>e (oid, g). \<exists>i. carries ?src e (cg_identity g) i \<and> oid = ei_subject i \<and> cg_dn g = e_dn e)
       (filter (\<lambda>e. managed ?src e \<and> is_group e) ?es) (c_groups current)
     \<and> c_unmanaged_dns current = map e_dn (filter (\<lambda>e. \<not> managed ?src e) ?es)
     \<and> plan_sync block_tables sample_desired current sample_ctx \<noteq> Inl Panicked"
    by (rule read_feeds_planner [OF block.unicode_tables_axioms r b w(1) w(6) w(4) w(5)])
  have fs: "filter (\<lambda>e. managed ?src e \<and> \<not> is_group e) ?es = [sample_entry]" using g(2) m by simp
  from q [THEN conjunct1] obtain oid x where x: "c_users current = [(oid, x)]" "oid = lit ''aa01''"
    unfolding fs by (auto simp: list_all2_Cons1 c(1))
  have "map fst (c_users current) = [lit ''aa01'']" using x by simp
  moreover have "c_unmanaged_dns current = [e_dn foreign_entry]"
    using q [THEN conjunct2, THEN conjunct2, THEN conjunct1] m by simp
  moreover note q [THEN conjunct2, THEN conjunct2, THEN conjunct2]
  ultimately show ?thesis using r by (intro exI conjI)
qed

end
