(* ===== verification/KB_Utf8.thy ===== *)
theory KB_Utf8
  imports KB_Prelude
begin

text \<open>
  Decoding bytes as UTF-8 the way the standard library does: \<open>String::from_utf8_lossy\<close>
  replaces every maximal invalid subpart by U+FFFD and resumes at the first byte that did not
  fit, and \<open>String::from_utf8\<close> (inside \<open>read_to_string\<close>) accepts exactly the well-formed
  sequences. Both are inverse to \<open>utf8\<close> on Unicode scalar values.
\<close>

section \<open>The decoder\<close>

definition is_scalar :: "uchar \<Rightarrow> bool" where
  "is_scalar c \<longleftrightarrow> c < 55296 \<or> (57344 \<le> c \<and> c < 1114112)"

abbreviation scalars :: "str \<Rightarrow> bool" where
  "scalars s \<equiv> list_all is_scalar s"

definition REPLACEMENT :: uchar where "REPLACEMENT = 65533"

definition utf8_cont :: "nat \<Rightarrow> bool" where
  "utf8_cont b \<longleftrightarrow> 128 \<le> b \<and> b < 192"

text \<open>The second byte is narrowed after four lead bytes: no overlong form, no surrogate, nothing above U+10FFFF.\<close>

definition utf8_second :: "nat \<Rightarrow> nat \<Rightarrow> bool" where
  "utf8_second b c \<longleftrightarrow>
     (if b = 224 then 160 \<le> c \<and> c < 192
      else if b = 237 then 128 \<le> c \<and> c < 160
      else if b = 240 then 144 \<le> c \<and> c < 192
      else if b = 244 then 128 \<le> c \<and> c < 144
      else utf8_cont c)"

text \<open>One character from a lead byte and what follows it, with the number of following bytes taken.\<close>

definition utf8_step :: "nat \<Rightarrow> nat list \<Rightarrow> uchar \<times> nat" where
  "utf8_step b bs =
     (if b < 128 then (b, 0)
      else if 194 \<le> b \<and> b < 224 then
        (case bs of c # _ \<Rightarrow> if utf8_cont c then ((b - 192) * 64 + (c - 128), 1) else (REPLACEMENT, 0)
         | [] \<Rightarrow> (REPLACEMENT, 0))
      else if 224 \<le> b \<and> b < 240 then
        (case bs of c # cs \<Rightarrow>
           if utf8_second b c then
             (case cs of d # _ \<Rightarrow>
                if utf8_cont d then ((b - 224) * 4096 + (c - 128) * 64 + (d - 128), 2)
                else (REPLACEMENT, 1)
              | [] \<Rightarrow> (REPLACEMENT, 1))
           else (REPLACEMENT, 0)
         | [] \<Rightarrow> (REPLACEMENT, 0))
      else if 240 \<le> b \<and> b < 245 then
        (case bs of c # cs \<Rightarrow>
           if utf8_second b c then
             (case cs of d # ds \<Rightarrow>
                if utf8_cont d then
                  (case ds of e # _ \<Rightarrow>
                     if utf8_cont e
                     then ((b - 240) * 262144 + (c - 128) * 4096 + (d - 128) * 64 + (e - 128), 3)
                     else (REPLACEMENT, 2)
                   | [] \<Rightarrow> (REPLACEMENT, 2))
                else (REPLACEMENT, 1)
              | [] \<Rightarrow> (REPLACEMENT, 1))
           else (REPLACEMENT, 0)
         | [] \<Rightarrow> (REPLACEMENT, 0))
      else (REPLACEMENT, 0))"

function utf8_chars :: "nat list \<Rightarrow> str" where
  "utf8_chars [] = []"
| "utf8_chars (b # bs) = (let (c, n) = utf8_step b bs in c # utf8_chars (drop n bs))"
  by pat_completeness auto
termination by (relation "measure length") auto

definition from_utf8_lossy :: "byte list \<Rightarrow> str" where
  "from_utf8_lossy bs = utf8_chars (map unat bs)"

definition from_utf8 :: "byte list \<Rightarrow> str option" where
  "from_utf8 bs = (let s = from_utf8_lossy bs in if utf8 s = bs then Some s else None)"

section \<open>It inverts the encoder\<close>

lemma utf8_step_2:
  "a < 32 \<Longrightarrow> 2 \<le> a \<Longrightarrow> d < 64
    \<Longrightarrow> utf8_step (192 + a) ((128 + d) # rest) = (a * 64 + d, 1)"
  by (simp add: utf8_step_def utf8_cont_def)

lemma utf8_step_3:
  assumes "a < 16" "b < 64" "d < 64" "a = 0 \<Longrightarrow> 32 \<le> b" "a = 13 \<Longrightarrow> b < 32"
  shows "utf8_step (224 + a) ((128 + b) # (128 + d) # rest) = (a * 4096 + b * 64 + d, 2)"
  using assms by (auto simp: utf8_step_def utf8_cont_def utf8_second_def)

lemma utf8_step_4:
  assumes "a < 5" "b < 64" "d < 64" "e < 64" "a = 0 \<Longrightarrow> 16 \<le> b" "a = 4 \<Longrightarrow> b < 16"
  shows "utf8_step (240 + a) ((128 + b) # (128 + d) # (128 + e) # rest)
    = (a * 262144 + b * 4096 + d * 64 + e, 3)"
  using assms by (auto simp: utf8_step_def utf8_cont_def utf8_second_def)

lemma split_64: fixes c :: nat obtains a d where "c = a * 64 + d" "d < 64" "c div 64 = a" "c mod 64 = d"
  by (metis div_mod_decomp mod_less_divisor zero_less_numeral)

lemma unat_bytes: "list_all (\<lambda>n. n < 256) xs \<Longrightarrow> map unat (map of_nat xs :: byte list) = xs"
  by (induction xs) (simp_all add: unat_byte)

lemma utf8_char_bytes:
  "map unat (utf8_char c) =
    (if c < 128 then [c]
     else if c < 2048 then [192 + c div 64, 128 + c mod 64]
     else if c < 65536 then [224 + c div 4096, 128 + c div 64 mod 64, 128 + c mod 64]
     else [240 + c div 262144, 128 + c div 4096 mod 64, 128 + c div 64 mod 64, 128 + c mod 64])"
  if "c < 1114112"
proof -
  have "c div 64 < 32 \<or> 2048 \<le> c" "c div 4096 < 16 \<or> 65536 \<le> c" "c div 262144 < 16"
    using that by linarith+
  moreover have "128 + n mod 64 < 256" for n :: nat using mod_less_divisor [of 64 n] by linarith
  ultimately show ?thesis unfolding utf8_char_def by (subst unat_bytes) auto
qed

lemma is_scalar_bound: "is_scalar c \<Longrightarrow> c < 1114112"
  by (auto simp: is_scalar_def)

lemma utf8_step_char:
  assumes "is_scalar c"
  shows "\<exists>b bs. map unat (utf8_char c) = b # bs
    \<and> (\<forall>rest. utf8_step b (bs @ rest) = (c, length bs))"
proof -
  obtain a e where c: "c = a * 64 + e" "e < 64" "c div 64 = a" "c mod 64 = e" by (rule split_64)
  obtain a' d where a: "a = a' * 64 + d" "d < 64" "a div 64 = a'" "a mod 64 = d" by (rule split_64)
  obtain a'' b where a': "a' = a'' * 64 + b" "b < 64" "a' div 64 = a''" "a' mod 64 = b" by (rule split_64)
  have q: "c div 4096 = a'" "c div 262144 = a''"
    using c(3) a(3) a'(3) by (simp_all flip: div_mult2_eq)
  consider "c < 128" | "128 \<le> c" "c < 2048" | "2048 \<le> c" "c < 65536" | "65536 \<le> c" by linarith
  then show ?thesis
  proof cases
    case 1
    then show ?thesis by (simp add: utf8_char_bytes utf8_step_def)
  next
    case 2
    then have r: "a < 32" "2 \<le> a" using c by linarith+
    have e: "map unat (utf8_char c) = [192 + a, 128 + e]"
      using 2 r c(2-4) by (simp add: utf8_char_bytes is_scalar_bound [OF assms])
    show ?thesis unfolding e using utf8_step_2 [OF r c(2)] c(1) by auto
  next
    case 3
    then have r: "a' < 16" "a' = 0 \<Longrightarrow> 32 \<le> d" using c a by linarith+
    have s: "a' = 13 \<Longrightarrow> d < 32" using assms c a by (auto simp: is_scalar_def)
    have e: "map unat (utf8_char c) = [224 + a', 128 + d, 128 + e]"
      using 3 r(1) c(2-4) a(2-4) q by (simp add: utf8_char_bytes is_scalar_bound [OF assms])
    show ?thesis unfolding e using utf8_step_3 [OF r(1) a(2) c(2) r(2) s] c(1) a(1)
      by (auto simp: algebra_simps)
  next
    case 4
    then have r: "a'' < 5" "a'' = 0 \<Longrightarrow> 16 \<le> b" "a'' = 4 \<Longrightarrow> b < 16"
      using c a a' assms by (auto simp: is_scalar_def)
    have e: "map unat (utf8_char c) = [240 + a'', 128 + b, 128 + d, 128 + e]"
      using 4 r(1) c(2-4) a(2-4) a'(2-4) q by (simp add: utf8_char_bytes is_scalar_bound [OF assms])
    show ?thesis unfolding e using utf8_step_4 [OF r(1) a'(2) a(2) c(2) r(2,3)] c(1) a(1) a'(1)
      by (auto simp: algebra_simps)
  qed
qed

lemma utf8_chars_utf8: "scalars s \<Longrightarrow> utf8_chars (map unat (utf8 s)) = s"
proof (induction s)
  case (Cons c s)
  then have "is_scalar c" by simp
  then obtain b bs where b: "map unat (utf8_char c) = b # bs"
    "\<forall>rest. utf8_step b (bs @ rest) = (c, length bs)"
    by (auto dest!: utf8_step_char)
  with Cons show ?case by (simp add: utf8_def)
qed (simp add: utf8_def)

lemma from_utf8_lossy_utf8 [simp]: "scalars s \<Longrightarrow> from_utf8_lossy (utf8 s) = s"
  by (simp add: from_utf8_lossy_def utf8_chars_utf8)

lemma from_utf8_utf8 [simp]: "scalars s \<Longrightarrow> from_utf8 (utf8 s) = Some s"
  by (simp add: from_utf8_def)

lemma from_utf8_Some: "from_utf8 bs = Some s \<Longrightarrow> bs = utf8 s"
  by (auto simp: from_utf8_def Let_def split: if_splits)

lemma utf8_inj: "scalars s \<Longrightarrow> scalars t \<Longrightarrow> utf8 s = utf8 t \<longleftrightarrow> s = t"
  by (metis from_utf8_lossy_utf8)

lemma scalars_ascii: "ascii s \<Longrightarrow> scalars s"
  by (auto simp: ascii_def list_all_iff is_scalar_def)

lemma utf8_append [simp]: "utf8 (s @ t) = utf8 s @ utf8 t"
  by (simp add: utf8_def)

text \<open>Whatever the bytes are, the result is a string.\<close>

lemma scalar_low: "c < 55296 \<Longrightarrow> is_scalar c"
  by (simp add: is_scalar_def)

lemma scalar_2: "b < 224 \<Longrightarrow> utf8_cont c \<Longrightarrow> is_scalar ((b - 192) * 64 + (c - 128))"
  by (rule scalar_low) (auto simp: utf8_cont_def)

lemma scalar_3:
  assumes "224 \<le> b" "b < 240" "utf8_second b c" "utf8_cont d"
  shows "is_scalar ((b - 224) * 4096 + (c - 128) * 64 + (d - 128))"
proof -
  have c: "c - 128 < 64" "d - 128 < 64" "b = 237 \<Longrightarrow> c - 128 < 32"
    using assms(2-4) by (auto simp: utf8_cont_def utf8_second_def split: if_splits)
  consider "b < 237" | "b = 237" | "238 \<le> b" using assms by linarith
  then show ?thesis using c assms(2) by cases (auto simp: is_scalar_def)
qed

lemma scalar_4:
  assumes "240 \<le> b" "b < 245" "utf8_second b c" "utf8_cont d" "utf8_cont e"
  shows "is_scalar ((b - 240) * 262144 + (c - 128) * 4096 + (d - 128) * 64 + (e - 128))"
proof -
  have c: "c - 128 < 64" "d - 128 < 64" "e - 128 < 64" "b = 240 \<Longrightarrow> 16 \<le> c - 128" "b = 244 \<Longrightarrow> c - 128 < 16"
    using assms(2-5) by (auto simp: utf8_cont_def utf8_second_def split: if_splits)
  consider "b = 240" | "b = 244" | "b = 241" | "b = 242" | "b = 243" using assms by linarith
  then show ?thesis using c by cases (simp_all add: is_scalar_def)
qed

lemma utf8_step_scalar: "is_scalar (fst (utf8_step b bs))"
proof -
  have "is_scalar REPLACEMENT" by (simp add: is_scalar_def REPLACEMENT_def)
  then show ?thesis
    by (simp add: utf8_step_def scalar_low scalar_2 scalar_3 scalar_4 split: list.split)
qed

lemma utf8_chars_scalars: "scalars (utf8_chars bs)"
proof (induction bs rule: utf8_chars.induct)
  case (2 b bs)
  obtain c n where "utf8_step b bs = (c, n)" by (cases "utf8_step b bs")
  with 2 utf8_step_scalar [of b bs] show ?case by simp
qed simp

lemma from_utf8_lossy_scalars [simp]: "scalars (from_utf8_lossy bs)"
  by (simp add: from_utf8_lossy_def utf8_chars_scalars)

lemma from_utf8_scalars: "from_utf8 bs = Some s \<Longrightarrow> scalars s"
  using from_utf8_lossy_scalars [of bs]
  by (auto simp: from_utf8_def Let_def split: if_splits simp del: from_utf8_lossy_scalars)

end
