(* ===== verification/KB_Ccache.thy ===== *)
theory KB_Ccache
  imports KB_Utf8
begin

text \<open>
  The MIT credential cache reader of \<open>issuerd\<close> (\<open>crates/kerbridge-issuerd/src/ccache.rs\<close>):
  a cursor over the bytes of the file, the primitive reads, principals, credentials and the
  loop to the end of the file. The layout the module documents is written out as an encoder,
  and reading inverts it.
\<close>

section \<open>The cursor\<close>

definition VERSION_V4 :: "16 word" where "VERSION_V4 = 0x0504"
definition TKT_FLG_INVALID :: "32 word" where "TKT_FLG_INVALID = 0x01000000"
definition TKT_FLG_RENEWABLE :: "32 word" where "TKT_FLG_RENEWABLE = 0x00800000"
definition TKT_FLG_INITIAL :: "32 word" where "TKT_FLG_INITIAL = 0x00400000"

record reader =
  rd_b :: "byte list"
  rd_at :: nat

datatype cc_error =
    Cc_truncated nat nat
  | Cc_version "16 word"

type_synonym 'a rd = "reader \<Rightarrow> cc_error + 'a \<times> reader"

definition rd_return :: "'a \<Rightarrow> 'a rd" where
  "rd_return x r = Inr (x, r)"

definition rd_then :: "'a rd \<Rightarrow> ('a \<Rightarrow> 'b rd) \<Rightarrow> 'b rd" where
  "rd_then p k r = rbind (p r) (\<lambda>(x, r'). k x r')"

fun rd_repeat :: "nat \<Rightarrow> 'a rd \<Rightarrow> 'a list rd" where
  "rd_repeat 0 p = rd_return []"
| "rd_repeat (Suc n) p = rd_then p (\<lambda>x. rd_then (rd_repeat n p) (\<lambda>xs. rd_return (x # xs)))"

definition checked_add :: "nat \<Rightarrow> nat \<Rightarrow> nat option" where
  "checked_add a b = (if a + b \<le> u64_max then Some (a + b) else None)"

definition rd_take :: "nat \<Rightarrow> byte list rd" where
  "rd_take n r =
     (case Option.bind (checked_add (rd_at r) n) (\<lambda>e. if e \<le> length (rd_b r) then Some e else None) of
        None \<Rightarrow> Inl (Cc_truncated n (rd_at r))
      | Some e \<Rightarrow> Inr (take (e - rd_at r) (drop (rd_at r) (rd_b r)), r\<lparr>rd_at := e\<rparr>))"

definition rd_skip :: "nat \<Rightarrow> unit rd" where
  "rd_skip n = rd_then (rd_take n) (\<lambda>_. rd_return ())"

definition from_be_bytes :: "byte list \<Rightarrow> 'a::len word" where
  "from_be_bytes bs = foldl (\<lambda>acc b. push_bit 8 acc OR ucast b) 0 bs"

definition rd_u16 :: "16 word rd" where
  "rd_u16 = rd_then (rd_take 2) (\<lambda>bs. rd_return (from_be_bytes bs))"

definition rd_u32 :: "32 word rd" where
  "rd_u32 = rd_then (rd_take 4) (\<lambda>bs. rd_return (from_be_bytes bs))"

definition rd_str :: "str rd" where
  "rd_str = rd_then rd_u32 (\<lambda>len. rd_then (rd_take (unat len)) (\<lambda>raw. rd_return (from_utf8_lossy raw)))"

section \<open>Principals, credentials and the cache\<close>

record principal =
  pr_realm :: str
  pr_components :: "str list"

definition principal_display :: "principal \<Rightarrow> str" where
  "principal_display p = join_with (lit ''/'') (pr_components p) @ lit ''@'' @ pr_realm p"

record credential =
  cr_client :: principal
  cr_server :: principal
  cr_starts_at :: "32 word"
  cr_expires_at :: "32 word"
  cr_renew_until :: "32 word"
  cr_flags :: "32 word"

definition is_tgt :: "credential \<Rightarrow> str \<Rightarrow> bool" where
  "is_tgt c realm \<longleftrightarrow>
     pr_realm (cr_server c) = realm
     \<and> length (pr_components (cr_server c)) = 2
     \<and> pr_components (cr_server c) ! 0 = lit ''krbtgt''
     \<and> pr_components (cr_server c) ! 1 = realm"

definition rd_principal :: "principal rd" where
  "rd_principal =
     rd_then rd_u32 (\<lambda>name_type.
     rd_then rd_u32 (\<lambda>n.
     rd_then rd_str (\<lambda>realm.
     rd_then (rd_repeat (unat n) rd_str) (\<lambda>components.
     rd_return \<lparr>pr_realm = realm, pr_components = components\<rparr>))))"

definition rd_typed :: "unit rd" where
  "rd_typed = rd_then rd_u16 (\<lambda>_. rd_then rd_str (\<lambda>_. rd_return ()))"

definition rd_credential :: "credential rd" where
  "rd_credential =
     rd_then rd_principal (\<lambda>client.
     rd_then rd_principal (\<lambda>server.
     rd_then rd_u16 (\<lambda>keytype.
     rd_then rd_str (\<lambda>key.
     rd_then rd_u32 (\<lambda>authtime.
     rd_then rd_u32 (\<lambda>starts_at.
     rd_then rd_u32 (\<lambda>expires_at.
     rd_then rd_u32 (\<lambda>renew_until.
     rd_then (rd_skip 1) (\<lambda>is_skey.
     rd_then rd_u32 (\<lambda>flags.
     rd_then rd_u32 (\<lambda>n_addr.
     rd_then (rd_repeat (unat n_addr) rd_typed) (\<lambda>_.
     rd_then rd_u32 (\<lambda>n_authdata.
     rd_then (rd_repeat (unat n_authdata) rd_typed) (\<lambda>_.
     rd_then rd_str (\<lambda>ticket.
     rd_then rd_str (\<lambda>second_ticket.
     rd_return \<lparr>cr_client = client, cr_server = server, cr_starts_at = starts_at,
                cr_expires_at = expires_at, cr_renew_until = renew_until,
                cr_flags = flags\<rparr>))))))))))))))))"

text \<open>A read never moves the cursor back and never changes the buffer.\<close>

definition advances :: "nat \<Rightarrow> 'a rd \<Rightarrow> bool" where
  "advances n p \<longleftrightarrow>
     (\<forall>r x r'. p r = Inr (x, r') \<longrightarrow> rd_b r' = rd_b r \<and> rd_at r + n \<le> rd_at r' \<and> (rd_at r' \<le> length (rd_b r) \<or> r' = r))"

lemma advances_return [intro]: "advances 0 (rd_return x)"
  by (simp add: advances_def rd_return_def)

lemma advances_then [intro]:
  assumes "advances n p" "\<And>x. advances m (k x)"
  shows "advances (n + m) (rd_then p k)"
  unfolding advances_def
proof (intro allI impI)
  fix r x r' assume "rd_then p k r = Inr (x, r')"
  then obtain y r1 where s: "p r = Inr (y, r1)" "k y r1 = Inr (x, r')"
    by (auto simp: rd_then_def kb_results)
  with assms show "rd_b r' = rd_b r \<and> rd_at r + (n + m) \<le> rd_at r' \<and> (rd_at r' \<le> length (rd_b r) \<or> r' = r)"
    unfolding advances_def by (metis add.assoc add_le_mono1 le_trans)
qed

lemma advances_then0: "advances n p \<Longrightarrow> (\<And>x. advances 0 (k x)) \<Longrightarrow> advances n (rd_then p k)"
  using advances_then [of n p 0 k] by simp

lemma advances_repeat [intro]: "advances 0 p \<Longrightarrow> advances 0 (rd_repeat n p)"
  by (induction n) (auto intro!: advances_then0)

lemma advances_take: "advances n (rd_take n)"
  by (auto simp: advances_def rd_take_def checked_add_def split: option.splits if_splits)

lemma advances_weaken: "advances n p \<Longrightarrow> m \<le> n \<Longrightarrow> advances m p"
  by (fastforce simp: advances_def)

lemma advances_prims:
  "advances 2 rd_u16" "advances 4 rd_u32" "advances n (rd_skip n)"
  by (auto simp: rd_u16_def rd_u32_def rd_skip_def intro!: advances_then0 advances_take)

lemma advances_str: "advances 0 rd_str"
  unfolding rd_str_def
  by (intro advances_then0 advances_weaken [OF advances_take] advances_return
      advances_weaken [OF advances_prims(2)]) simp_all

lemma advances_u32_0: "advances 0 rd_u32" and advances_u16_0: "advances 0 rd_u16"
  and advances_skip_0: "advances 0 (rd_skip n)"
  by (auto intro: advances_weaken [OF advances_prims(1)] advances_weaken [OF advances_prims(2)]
      advances_weaken [OF advances_prims(3)])

lemma advances_principal: "advances 4 rd_principal"
  unfolding rd_principal_def
  by (intro advances_then0 advances_prims advances_u32_0 advances_str advances_repeat advances_return)

lemma advances_typed: "advances 0 rd_typed"
  unfolding rd_typed_def by (intro advances_then0 advances_u16_0 advances_str advances_return)

lemma advances_credential: "advances 4 rd_credential"
  unfolding rd_credential_def
  by (intro advances_then0 advances_principal advances_weaken [OF advances_principal, of 0]
      advances_u32_0 advances_u16_0 advances_str advances_skip_0 advances_repeat advances_typed
      advances_return) simp

text \<open>The loop to the end of the file: every credential takes at least four bytes.\<close>

function cc_loop :: "reader \<Rightarrow> cc_error + credential list" where
  "cc_loop r =
     (if rd_at r < length (rd_b r)
      then (case rd_credential r of
              Inl e \<Rightarrow> Inl e
            | Inr (c, r') \<Rightarrow> rbind (cc_loop r') (\<lambda>cs. Inr (c # cs)))
      else Inr [])"
  by pat_completeness auto
termination
proof (relation "measure (\<lambda>r. length (rd_b r) - rd_at r)")
  fix r y c r' assume r: "rd_at r < length (rd_b r)" "rd_credential r = Inr y" "(c, r') = y"
  then show "(r', r) \<in> measure (\<lambda>r. length (rd_b r) - rd_at r)"
    using advances_credential unfolding advances_def by fastforce
qed simp

declare cc_loop.simps [simp del]

definition credentials :: "byte list \<Rightarrow> cc_error + credential list" where
  "credentials bytes =
     rbind (rd_u16 \<lparr>rd_b = bytes, rd_at = 0\<rparr>) (\<lambda>(version, r1).
     rbind (guard (version = VERSION_V4) (Cc_version version)) (\<lambda>_.
     rbind (rd_u16 r1) (\<lambda>(header_len, r2).
     rbind (rd_skip (unat header_len) r2) (\<lambda>(_, r3).
     rbind (rd_principal r3) (\<lambda>(_, r4). cc_loop r4)))))"

section \<open>The documented layout, and reading it back\<close>

text \<open>The layout of the module's header comment, as the bytes a cache with the given content has.\<close>

definition be_bytes :: "nat \<Rightarrow> nat \<Rightarrow> byte list" where
  "be_bytes k v = map (\<lambda>i. of_nat (v div 256 ^ (k - 1 - i))) [0..<k]"

record cc_principal =
  ep_type :: "32 word"
  ep_name :: principal

record cc_entry =
  en_client :: cc_principal
  en_server :: cc_principal
  en_keytype :: "16 word"
  en_key :: str
  en_authtime :: "32 word"
  en_start :: "32 word"
  en_end :: "32 word"
  en_renew :: "32 word"
  en_is_skey :: byte
  en_flags :: "32 word"
  en_addrs :: "(16 word \<times> str) list"
  en_authdata :: "(16 word \<times> str) list"
  en_ticket :: str
  en_second :: str

definition be16 :: "16 word \<Rightarrow> byte list" where "be16 w = be_bytes 2 (unat w)"
definition be32 :: "32 word \<Rightarrow> byte list" where "be32 w = be_bytes 4 (unat w)"
definition be_len :: "nat \<Rightarrow> byte list" where "be_len n = be32 (of_nat n)"

definition str_bytes :: "str \<Rightarrow> byte list" where
  "str_bytes s = be_len (utf8_len s) @ utf8 s"

definition principal_bytes :: "cc_principal \<Rightarrow> byte list" where
  "principal_bytes p =
     be32 (ep_type p) @ be_len (length (pr_components (ep_name p))) @ str_bytes (pr_realm (ep_name p))
     @ concat (map str_bytes (pr_components (ep_name p)))"

definition typed_bytes :: "16 word \<times> str \<Rightarrow> byte list" where
  "typed_bytes t = be16 (fst t) @ str_bytes (snd t)"

definition entry_bytes :: "cc_entry \<Rightarrow> byte list" where
  "entry_bytes e =
     principal_bytes (en_client e) @ principal_bytes (en_server e)
     @ be16 (en_keytype e) @ str_bytes (en_key e)
     @ be32 (en_authtime e) @ be32 (en_start e) @ be32 (en_end e) @ be32 (en_renew e)
     @ [en_is_skey e] @ be32 (en_flags e)
     @ be_len (length (en_addrs e)) @ concat (map typed_bytes (en_addrs e))
     @ be_len (length (en_authdata e)) @ concat (map typed_bytes (en_authdata e))
     @ str_bytes (en_ticket e) @ str_bytes (en_second e)"

definition cache_bytes :: "byte list \<Rightarrow> cc_principal \<Rightarrow> cc_entry list \<Rightarrow> byte list" where
  "cache_bytes header dflt es =
     be16 VERSION_V4 @ be16 (of_nat (length header)) @ header @ principal_bytes dflt
     @ concat (map entry_bytes es)"

definition entry_credential :: "cc_entry \<Rightarrow> credential" where
  "entry_credential e =
     \<lparr>cr_client = ep_name (en_client e), cr_server = ep_name (en_server e),
      cr_starts_at = en_start e, cr_expires_at = en_end e, cr_renew_until = en_renew e,
      cr_flags = en_flags e\<rparr>"

definition wf_text :: "str \<Rightarrow> bool" where
  "wf_text s \<longleftrightarrow> scalars s \<and> utf8_len s < 2 ^ 32"

definition wf_principal :: "cc_principal \<Rightarrow> bool" where
  "wf_principal p \<longleftrightarrow> wf_text (pr_realm (ep_name p)) \<and> list_all wf_text (pr_components (ep_name p))
     \<and> length (pr_components (ep_name p)) < 2 ^ 32"

definition wf_entry :: "cc_entry \<Rightarrow> bool" where
  "wf_entry e \<longleftrightarrow> wf_principal (en_client e) \<and> wf_principal (en_server e) \<and> wf_text (en_key e)
     \<and> list_all (wf_text \<circ> snd) (en_addrs e) \<and> length (en_addrs e) < 2 ^ 32
     \<and> list_all (wf_text \<circ> snd) (en_authdata e) \<and> length (en_authdata e) < 2 ^ 32
     \<and> wf_text (en_ticket e) \<and> wf_text (en_second e)"

subsection \<open>Big-endian integers\<close>

lemma be_bytes_Suc: "be_bytes (Suc k) v = be_bytes k (v div 256) @ [of_nat v]"
proof -
  have "v div 256 ^ (k - i) = v div 256 div 256 ^ (k - 1 - i)" if "i < k" for i
  proof -
    have "k - i = Suc (k - 1 - i)" using that by simp
    then show ?thesis by (simp add: div_mult2_eq)
  qed
  then show ?thesis by (auto simp: be_bytes_def intro!: map_cong)
qed

lemma length_be_bytes [simp]: "length (be_bytes k v) = k"
  by (simp add: be_bytes_def)

lemma be_val_be_bytes: "be_val (be_bytes k v) = v mod 256 ^ k"
proof (induction k arbitrary: v)
  case 0
  show ?case by (simp add: be_bytes_def be_val_def)
next
  case (Suc k)
  have "v div 256 mod 256 ^ k * 256 + v mod 256 = v mod 256 ^ Suc k"
    by (simp add: mod_mult2_eq mult.commute)
  then show ?case by (simp add: be_bytes_Suc be_val_snoc unat_byte Suc.IH)
qed

lemma unat_from_be_bytes:
  "8 * length bs \<le> LENGTH('a) \<Longrightarrow> 8 < LENGTH('a)
    \<Longrightarrow> unat (from_be_bytes bs :: 'a::len word) = be_val bs"
proof (induction bs rule: rev_induct)
  case (snoc b bs)
  then have IH: "unat (from_be_bytes bs :: 'a word) = be_val bs" by simp
  have "be_val (bs @ [b]) < 256 ^ length (bs @ [b])" by (rule be_val_bound)
  also have "(256::nat) ^ length (bs @ [b]) = 2 ^ (8 * length (bs @ [b]))" by (simp add: power_mult power_add)
  also have "\<dots> \<le> 2 ^ LENGTH('a)" using snoc.prems(1) by (intro power_increasing) simp_all
  finally have lt: "unat (from_be_bytes bs :: 'a word) * 256 + unat b < 2 ^ LENGTH('a)"
    by (simp add: IH be_val_snoc)
  have "unat (push_bit 8 (from_be_bytes bs) OR ucast b :: 'a word)
      = unat (from_be_bytes bs :: 'a word) * 256 + unat b"
    by (rule unat_shift_or_byte [OF snoc.prems(2) lt])
  then show ?case by (simp add: from_be_bytes_def be_val_snoc IH [unfolded from_be_bytes_def])
qed (simp add: from_be_bytes_def be_val_def)

lemma from_be16 [simp]: "from_be_bytes (be16 w) = w"
proof -
  have "unat (from_be_bytes (be16 w) :: 16 word) = unat w mod 65536"
    by (subst unat_from_be_bytes) (simp_all add: be16_def be_val_be_bytes)
  also have "\<dots> = unat w" using unsigned_less [where w = w and 'a = nat] by simp
  finally show ?thesis by (simp only: word_unat_eq_iff)
qed

lemma from_be32 [simp]: "from_be_bytes (be32 w) = w"
proof -
  have "unat (from_be_bytes (be32 w) :: 32 word) = unat w mod 4294967296"
    by (subst unat_from_be_bytes) (simp_all add: be32_def be_val_be_bytes)
  also have "\<dots> = unat w" using unsigned_less [where w = w and 'a = nat] by simp
  finally show ?thesis by (simp only: word_unat_eq_iff)
qed

subsection \<open>Reading is compositional\<close>

definition reads :: "'a rd \<Rightarrow> byte list \<Rightarrow> 'a \<Rightarrow> bool" where
  "reads p bs x \<longleftrightarrow>
     (\<forall>pre post. length (pre @ bs @ post) \<le> u64_max \<longrightarrow>
        p \<lparr>rd_b = pre @ bs @ post, rd_at = length pre\<rparr>
        = Inr (x, \<lparr>rd_b = pre @ bs @ post, rd_at = length pre + length bs\<rparr>))"

lemma reads_return: "reads (rd_return x) [] x"
  by (simp add: reads_def rd_return_def)

lemma reads_then:
  assumes "reads p a x" "reads (k x) b y"
  shows "reads (rd_then p k) (a @ b) y"
  unfolding reads_def
proof (intro allI impI)
  fix pre post :: "byte list" assume l: "length (pre @ (a @ b) @ post) \<le> u64_max"
  have 1: "p \<lparr>rd_b = pre @ a @ b @ post, rd_at = length pre\<rparr>
      = Inr (x, \<lparr>rd_b = pre @ a @ b @ post, rd_at = length pre + length a\<rparr>)"
    using assms(1) l unfolding reads_def by (metis append.assoc)
  have 2: "k x \<lparr>rd_b = (pre @ a) @ b @ post, rd_at = length (pre @ a)\<rparr>
      = Inr (y, \<lparr>rd_b = (pre @ a) @ b @ post, rd_at = length (pre @ a) + length b\<rparr>)"
    using assms(2) l unfolding reads_def by (metis append.assoc)
  show "rd_then p k \<lparr>rd_b = pre @ (a @ b) @ post, rd_at = length pre\<rparr>
      = Inr (y, \<lparr>rd_b = pre @ (a @ b) @ post, rd_at = length pre + length (a @ b)\<rparr>)"
    using 1 2 by (simp add: rd_then_def add.assoc)
qed

lemma reads_last: "reads p a x \<Longrightarrow> y = f x \<Longrightarrow> reads (rd_then p (\<lambda>x. rd_return (f x))) a y"
  using reads_then [of p a x "\<lambda>x. rd_return (f x)" "[]" "f x"] by (simp add: reads_return)

lemma reads_take: "n = length bs \<Longrightarrow> reads (rd_take n) bs bs"
  by (simp add: reads_def rd_take_def checked_add_def)

lemma reads_repeat:
  "list_all (\<lambda>(bs, x). reads p bs x) xs
    \<Longrightarrow> reads (rd_repeat (length xs) p) (concat (map fst xs)) (map snd xs)"
proof (induction xs)
  case Nil
  show ?case by (simp add: reads_return)
next
  case (Cons a xs)
  then have 1: "reads p (fst a) (snd a)" by (simp add: case_prod_beta)
  have 2: "reads (rd_repeat (length xs) p) (concat (map fst xs)) (map snd xs)"
    using Cons by simp
  show ?case by (simp, intro reads_then [OF 1] reads_last [OF 2] refl)
qed

lemma length_be16: "length (be16 w) = 2" and length_be32: "length (be32 v) = 4"
  by (simp_all add: be16_def be32_def)

lemma reads_be16: "reads rd_u16 (be16 w) w"
  unfolding rd_u16_def by (rule reads_last [OF reads_take]) (simp_all add: length_be16)

lemma reads_be32: "reads rd_u32 (be32 w) w"
  unfolding rd_u32_def by (rule reads_last [OF reads_take]) (simp_all add: length_be32)

lemma reads_skip: "n = length bs \<Longrightarrow> reads (rd_skip n) bs ()"
  unfolding rd_skip_def by (rule reads_last [OF reads_take]) simp_all

lemma unat_len: "n < 2 ^ 32 \<Longrightarrow> unat (of_nat n :: 32 word) = n"
  by (simp add: unat_of_nat)

lemma reads_str: "wf_text s \<Longrightarrow> reads rd_str (str_bytes s) s"
  unfolding rd_str_def str_bytes_def be_len_def
  by (intro reads_then [OF reads_be32] reads_last [OF reads_take])
    (simp_all add: wf_text_def unat_len length_utf8)

lemma reads_strs:
  "n = length ss \<Longrightarrow> list_all wf_text ss \<Longrightarrow> reads (rd_repeat n rd_str) (concat (map str_bytes ss)) ss"
  using reads_repeat [of rd_str "map (\<lambda>s. (str_bytes s, s)) ss"] reads_str
  by (simp add: list_all_iff comp_def)

lemma reads_principal: "wf_principal p \<Longrightarrow> reads rd_principal (principal_bytes p) (ep_name p)"
  unfolding rd_principal_def principal_bytes_def be_len_def
  by (intro reads_then [OF reads_be32] reads_then [OF reads_str] reads_last [OF reads_strs])
    (simp_all add: wf_principal_def unat_len)

lemma reads_typed: "wf_text (snd t) \<Longrightarrow> reads rd_typed (typed_bytes t) ()"
  unfolding rd_typed_def typed_bytes_def
  by (intro reads_then [OF reads_be16] reads_last [OF reads_str]) simp_all

lemma reads_typeds:
  "n = length ts \<Longrightarrow> list_all (wf_text \<circ> snd) ts
    \<Longrightarrow> reads (rd_repeat n rd_typed) (concat (map typed_bytes ts)) (map (\<lambda>_. ()) ts)"
  using reads_repeat [of rd_typed "map (\<lambda>t. (typed_bytes t, ())) ts"] reads_typed
  by (simp add: list_all_iff comp_def)

lemma reads_entry: "wf_entry e \<Longrightarrow> reads rd_credential (entry_bytes e) (entry_credential e)"
  unfolding rd_credential_def entry_bytes_def be_len_def
  by (intro reads_then [OF reads_principal] reads_then [OF reads_be16] reads_then [OF reads_str]
      reads_then [OF reads_be32] reads_then [OF reads_skip] reads_then [OF reads_typeds]
      reads_last [OF reads_str])
    (simp_all add: wf_entry_def unat_len entry_credential_def)

lemma entry_bytes_not_Nil: "entry_bytes e \<noteq> []"
  by (simp add: entry_bytes_def principal_bytes_def flip: length_greater_0_conv)

lemma cc_loop_entries:
  "list_all wf_entry es \<Longrightarrow> length (pre @ concat (map entry_bytes es)) \<le> u64_max
    \<Longrightarrow> cc_loop \<lparr>rd_b = pre @ concat (map entry_bytes es), rd_at = length pre\<rparr>
      = Inr (map entry_credential es)"
proof (induction es arbitrary: pre)
  case Nil
  show ?case by (simp add: cc_loop.simps)
next
  case (Cons e es)
  let ?b = "pre @ entry_bytes e @ concat (map entry_bytes es)"
  have "rd_credential \<lparr>rd_b = ?b, rd_at = length pre\<rparr>
      = Inr (entry_credential e, \<lparr>rd_b = ?b, rd_at = length pre + length (entry_bytes e)\<rparr>)"
    using Cons.prems reads_entry [of e] unfolding reads_def by simp
  moreover have "cc_loop \<lparr>rd_b = ?b, rd_at = length pre + length (entry_bytes e)\<rparr>
      = Inr (map entry_credential es)"
    using Cons.IH [of "pre @ entry_bytes e"] Cons.prems by simp
  moreover have "length pre < length ?b" using entry_bytes_not_Nil [of e] by simp
  ultimately show ?case by (subst cc_loop.simps) simp
qed

lemma credentials_by_reads:
  assumes "reads rd_u16 v VERSION_V4" "reads rd_u16 n w" "reads (rd_skip (unat w)) h ()"
    "reads rd_principal d p" "length (v @ n @ h @ d @ rest) \<le> u64_max"
  shows "credentials (v @ n @ h @ d @ rest)
    = cc_loop \<lparr>rd_b = v @ n @ h @ d @ rest, rd_at = length (v @ n @ h @ d)\<rparr>"
proof -
  let ?b = "v @ n @ h @ d @ rest"
  have "rd_u16 \<lparr>rd_b = ?b, rd_at = 0\<rparr> = Inr (VERSION_V4, \<lparr>rd_b = ?b, rd_at = length v\<rparr>)"
    using assms(1)[unfolded reads_def, rule_format, of "[]" "n @ h @ d @ rest"] assms(5) by simp
  moreover have "rd_u16 \<lparr>rd_b = ?b, rd_at = length v\<rparr> = Inr (w, \<lparr>rd_b = ?b, rd_at = length (v @ n)\<rparr>)"
    using assms(2)[unfolded reads_def, rule_format, of v "h @ d @ rest"] assms(5) by simp
  moreover have "rd_skip (unat w) \<lparr>rd_b = ?b, rd_at = length (v @ n)\<rparr>
      = Inr ((), \<lparr>rd_b = ?b, rd_at = length (v @ n @ h)\<rparr>)"
    using assms(3)[unfolded reads_def, rule_format, of "v @ n" "d @ rest"] assms(5)
    by (simp add: add.assoc)
  moreover have "rd_principal \<lparr>rd_b = ?b, rd_at = length (v @ n @ h)\<rparr>
      = Inr (p, \<lparr>rd_b = ?b, rd_at = length (v @ n @ h @ d)\<rparr>)"
    using assms(4)[unfolded reads_def, rule_format, of "v @ n @ h" rest] assms(5)
    by (simp add: add.assoc)
  ultimately show ?thesis by (simp add: credentials_def)
qed

lemma credentials_cache_bytes:
  assumes "list_all wf_entry es" "wf_principal dflt" "length header < 2 ^ 16"
    "length (cache_bytes header dflt es) \<le> u64_max"
  shows "credentials (cache_bytes header dflt es) = Inr (map entry_credential es)"
proof -
  have w: "unat (of_nat (length header) :: 16 word) = length header"
    using assms(3) by (simp add: unat_of_nat)
  have "credentials (cache_bytes header dflt es) = cc_loop \<lparr>rd_b = cache_bytes header dflt es,
      rd_at = length (be16 VERSION_V4 @ be16 (of_nat (length header)) @ header @ principal_bytes dflt)\<rparr>"
    unfolding cache_bytes_def
    by (rule credentials_by_reads [OF reads_be16 reads_be16 reads_skip [OF w] reads_principal [OF assms(2)]
          assms(4) [unfolded cache_bytes_def]])
  also have "\<dots> = Inr (map entry_credential es)"
    using cc_loop_entries [OF assms(1), of "be16 VERSION_V4 @ be16 (of_nat (length header)) @ header @ principal_bytes dflt"]
      assms(4) by (simp add: cache_bytes_def)
  finally show ?thesis .
qed

section \<open>Property\<close>

definition sample_realm :: str where [kb_lits]: "sample_realm = lit ''EX.SITE''"

definition sample_client :: cc_principal where
  "sample_client = \<lparr>ep_type = 1, ep_name = \<lparr>pr_realm = sample_realm, pr_components = [lit ''alice'']\<rparr>\<rparr>"

definition sample_entry :: cc_entry where
  "sample_entry =
     \<lparr>en_client = sample_client,
      en_server = \<lparr>ep_type = 2, ep_name = \<lparr>pr_realm = sample_realm, pr_components = [lit ''krbtgt'', sample_realm]\<rparr>\<rparr>,
      en_keytype = 18, en_key = lit ''k'', en_authtime = 100, en_start = 100, en_end = 200, en_renew = 300,
      en_is_skey = 0, en_flags = 0x00C00000, en_addrs = [], en_authdata = [], en_ticket = lit ''t'',
      en_second = []\<rparr>"

lemmas sample_entry_defs = sample_entry_def sample_client_def kb_lits

lemma sample_entry_wf: "wf_entry sample_entry" "wf_principal sample_client"
  by (simp_all add: sample_entry_defs wf_entry_def wf_principal_def wf_text_def is_scalar_def)

lemma sample_cache_length: "length (cache_bytes [] sample_client [sample_entry]) \<le> u64_max"
  by (simp add: cache_bytes_def entry_bytes_def principal_bytes_def str_bytes_def be_len_def length_be16
      length_be32 length_utf8 sample_entry_defs typed_bytes_def u64_max_def)

text \<open>
  Fact (KB_Ccache.ccache_roundtrip). Reading a cache that has the documented v4 layout ends and
  returns one credential per entry, in file order, with the client and server principals, the
  three times and the ticket flags of the entry: whatever the keys, addresses, authorization
  data and tickets between them are, no field is read from the wrong offset.
\<close>

theorem ccache_roundtrip:
  assumes "list_all wf_entry es" "wf_principal dflt" "length header < 2 ^ 16"
    "length (cache_bytes header dflt es) \<le> u64_max"
  shows "credentials (cache_bytes header dflt es) = Inr (map entry_credential es)"
  by (rule credentials_cache_bytes [OF assms])

theorem ccache_roundtrip_witness:
  "credentials (cache_bytes [] sample_client [sample_entry])
     = Inr [\<lparr>cr_client = \<lparr>pr_realm = sample_realm, pr_components = [lit ''alice'']\<rparr>,
             cr_server = \<lparr>pr_realm = sample_realm, pr_components = [lit ''krbtgt'', sample_realm]\<rparr>,
             cr_starts_at = 100, cr_expires_at = 200, cr_renew_until = 300, cr_flags = 0x00C00000\<rparr>]"
  using ccache_roundtrip [of "[sample_entry]" sample_client "[]"] sample_entry_wf sample_cache_length
  by (simp add: entry_credential_def sample_entry_def sample_client_def)

end
