(* ===== verification/KB_Ldif.thy ===== *)
theory KB_Ldif
  imports KB_Utf8
begin

text \<open>
  LDIF as \<open>issuerd\<close> reads and writes it: \<open>ldif_entries\<close> over the output of \<open>ldbsearch\<close>
  (\<open>crates/kerbridge-issuerd/src/issue.rs\<close>) and the change record \<open>ldif\<close> handed to \<open>ldbmodify\<close>
  (\<open>crates/kerbridge-issuerd/src/grant.rs\<close>). The base64 engine is a crate the sources only
  call, so its two functions are parameters with the laws of the locale \<open>base64_engine\<close>,
  which the encoding of RFC 4648 satisfies.
\<close>

section \<open>Lines\<close>

definition strip_cr :: "str \<Rightarrow> str" where
  "strip_cr l = (if l \<noteq> [] \<and> last l = 13 then butlast l else l)"

text \<open>\<open>str::lines\<close>: a final line without a line feed keeps its carriage return, an empty one is not a line.\<close>

definition str_lines :: "str \<Rightarrow> str list" where
  "str_lines s =
     (let ps = split_on 10 s
      in map strip_cr (butlast ps) @ (if last ps = [] then [] else [last ps]))"

definition unlines :: "str list \<Rightarrow> str" where
  "unlines ls = concat (map (\<lambda>l. l @ [10]) ls)"

definition line_ok :: "str \<Rightarrow> bool" where
  "line_ok l \<longleftrightarrow> 10 \<notin> set l \<and> (l \<noteq> [] \<longrightarrow> last l \<noteq> 13)"

lemma split_on_unlines:
  "list_all line_ok ls \<Longrightarrow> split_on 10 (unlines ls) = ls @ [[]]"
  by (induction ls) (simp_all add: unlines_def line_ok_def split_on_Cons_free)

lemma strip_cr_ok: "line_ok l \<Longrightarrow> strip_cr l = l"
  by (auto simp: line_ok_def strip_cr_def)

lemma str_lines_unlines: "list_all line_ok ls \<Longrightarrow> str_lines (unlines ls) = ls"
  by (simp add: str_lines_def split_on_unlines Let_def butlast_append list_all_iff map_idI strip_cr_ok)

lemma unlines_simps [simp]:
  "unlines [] = []" "unlines (l # ls) = l @ 10 # unlines ls" "unlines (ls @ ms) = unlines ls @ unlines ms"
  by (simp_all add: unlines_def)

section \<open>The base64 engine\<close>

definition is_b64_char :: "uchar \<Rightarrow> bool" where
  "is_b64_char c \<longleftrightarrow> is_ascii_digit c \<or> (65 \<le> c \<and> c \<le> 90) \<or> (97 \<le> c \<and> c \<le> 122)
     \<or> c = c_plus \<or> c = c_slash \<or> c = c_eq"

locale base64_engine =
  fixes b64e :: "byte list \<Rightarrow> str"
    and b64d :: "str \<Rightarrow> byte list option"
  assumes b64_inverse: "b64d (b64e bs) = Some bs"
    and b64_alphabet: "list_all is_b64_char (b64e bs)"
begin

lemma b64_line: "list_all line_ok [b64e bs]"
  using b64_alphabet [of bs]
  by (cases "b64e bs" rule: rev_cases) (auto simp: line_ok_def list_all_iff is_b64_char_def is_ascii_digit_def)

lemma b64_no_space: "c_space \<notin> set (b64e bs)" and b64_no_colon: "c_colon \<notin> set (b64e bs)"
  and b64_no_newline: "10 \<notin> set (b64e bs)" and b64_no_cr: "13 \<notin> set (b64e bs)"
  using b64_alphabet [of bs] by (auto simp: list_all_iff is_b64_char_def is_ascii_digit_def)

lemma b64_text_inverse: "scalars s \<Longrightarrow> map_option from_utf8_lossy (b64d (b64e (utf8 s))) = Some s"
  by (simp add: b64_inverse)

end

subsection \<open>RFC 4648\<close>

definition b64_char :: "nat \<Rightarrow> uchar" where
  "b64_char v = (if v < 26 then 65 + v else if v < 52 then 71 + v else if v < 62 then v - 4
                 else if v = 62 then c_plus else c_slash)"

definition b64_val :: "uchar \<Rightarrow> nat option" where
  "b64_val c = (if 65 \<le> c \<and> c \<le> 90 then Some (c - 65)
     else if 97 \<le> c \<and> c \<le> 122 then Some (c - 71)
     else if is_ascii_digit c then Some (c + 4)
     else if c = c_plus then Some 62 else if c = c_slash then Some 63 else None)"

fun rfc4648_encode :: "byte list \<Rightarrow> str" where
  "rfc4648_encode [] = []"
| "rfc4648_encode [a] = [b64_char (unat a div 4), b64_char (unat a mod 4 * 16), c_eq, c_eq]"
| "rfc4648_encode [a, b] =
     [b64_char (unat a div 4), b64_char (unat a mod 4 * 16 + unat b div 16),
      b64_char (unat b mod 16 * 4), c_eq]"
| "rfc4648_encode (a # b # c # rest) =
     b64_char (unat a div 4) # b64_char (unat a mod 4 * 16 + unat b div 16)
     # b64_char (unat b mod 16 * 4 + unat c div 64) # b64_char (unat c mod 64)
     # rfc4648_encode rest"

definition b64_byte :: "nat \<Rightarrow> nat \<Rightarrow> nat \<Rightarrow> nat \<Rightarrow> byte" where
  "b64_byte x m y d = of_nat (x * m + y div d)"

text \<open>Canonical decoding: padding is required and the unused bits of the last character are zero.\<close>

fun rfc4648_decode :: "str \<Rightarrow> byte list option" where
  "rfc4648_decode [] = Some []"
| "rfc4648_decode [p, q, r, s] =
     (case (b64_val p, b64_val q) of
        (Some x, Some y) \<Rightarrow>
          if r = c_eq \<and> s = c_eq then
            (if y mod 16 = 0 then Some [b64_byte x 4 y 16] else None)
          else (case b64_val r of None \<Rightarrow> None
            | Some z \<Rightarrow>
                if s = c_eq then
                  (if z mod 4 = 0 then Some [b64_byte x 4 y 16, b64_byte (y mod 16) 16 z 4] else None)
                else (case b64_val s of None \<Rightarrow> None
                  | Some v \<Rightarrow> Some [b64_byte x 4 y 16, b64_byte (y mod 16) 16 z 4, b64_byte (z mod 4) 64 v 1]))
      | _ \<Rightarrow> None)"
| "rfc4648_decode (p # q # r # s # t # rest) =
     (case (b64_val p, b64_val q, b64_val r, b64_val s) of
        (Some x, Some y, Some z, Some v) \<Rightarrow>
          map_option (\<lambda>bs. [b64_byte x 4 y 16, b64_byte (y mod 16) 16 z 4, b64_byte (z mod 4) 64 v 1] @ bs)
            (rfc4648_decode (t # rest))
      | _ \<Rightarrow> None)"
| "rfc4648_decode _ = None"

lemma b64_val_char [simp]: "v < 64 \<Longrightarrow> b64_val (b64_char v) = Some v"
  by (auto simp: b64_val_def b64_char_def is_ascii_digit_def)

lemma b64_char_not_eq [simp]: "b64_char v \<noteq> c_eq" "v < 64 \<Longrightarrow> is_b64_char (b64_char v)"
  by (auto simp: b64_char_def is_b64_char_def is_ascii_digit_def)

lemma b64_parts:
  fixes a b c :: byte
  shows "unat a div 4 < 64" "unat a mod 4 * 16 < 64" "unat a mod 4 * 16 + unat b div 16 < 64"
    "unat b mod 16 * 4 < 64" "unat b mod 16 * 4 + unat c div 64 < 64" "unat c mod 64 < 64"
  using unat_byte_lt [of a] unat_byte_lt [of b] unat_byte_lt [of c] by linarith+

lemma b64_bytes:
  fixes a b c :: byte
  shows "b64_byte (unat a div 4) 4 (unat a mod 4 * 16) 16 = a"
    "b64_byte (unat a div 4) 4 (unat a mod 4 * 16 + unat b div 16) 16 = a"
    "b64_byte (unat b div 16 mod 16) 16 (unat b mod 16 * 4) 4 = b"
    "b64_byte (unat b div 16 mod 16) 16 (unat b mod 16 * 4 + unat c div 64) 4 = b"
    "b64_byte (unat c div 64 mod 4) 64 (unat c mod 64) (Suc 0) = c"
proof -
  have "unat b div 16 < 16" "unat c div 64 < 4"
    using unat_byte_lt [of b] unat_byte_lt [of c] by linarith+
  then show "b64_byte (unat a div 4) 4 (unat a mod 4 * 16) 16 = a"
    "b64_byte (unat a div 4) 4 (unat a mod 4 * 16 + unat b div 16) 16 = a"
    "b64_byte (unat b div 16 mod 16) 16 (unat b mod 16 * 4) 4 = b"
    "b64_byte (unat b div 16 mod 16) 16 (unat b mod 16 * 4 + unat c div 64) 4 = b"
    "b64_byte (unat c div 64 mod 4) 64 (unat c mod 64) (Suc 0) = c"
    by (simp_all add: b64_byte_def mod_add_eq div_mult_mod_eq flip: of_nat_mult of_nat_add)
qed

lemma rfc4648_inverse: "rfc4648_decode (rfc4648_encode bs) = Some bs"
proof (induction bs rule: rfc4648_encode.induct)
  case (4 a b c rest)
  then show ?case
  proof (cases "rfc4648_encode rest")
    case Nil
    then have "rest = []" by (cases rest rule: rfc4648_encode.cases) auto
    then show ?thesis by (simp add: b64_parts b64_bytes)
  next
    case (Cons t ts)
    with 4 show ?thesis by (simp add: b64_parts b64_bytes)
  qed
qed (simp_all add: b64_parts b64_bytes)

lemma rfc4648_alphabet: "list_all is_b64_char (rfc4648_encode bs)"
  by (induction bs rule: rfc4648_encode.induct) (simp_all add: b64_parts is_b64_char_def [of c_eq])

interpretation rfc4648: base64_engine rfc4648_encode rfc4648_decode
  by unfold_locales (rule rfc4648_inverse rfc4648_alphabet)+

section \<open>Reading a search result\<close>

type_synonym ldif_entry = "str \<rightharpoonup> str list"

record ldif_state =
  lf_entries :: "ldif_entry list"
  lf_current :: ldif_entry
  lf_pending :: "(str \<times> str \<times> bool) option"

definition entry_push :: "ldif_entry \<Rightarrow> str \<Rightarrow> str \<Rightarrow> ldif_entry" where
  "entry_push m k v = m(k \<mapsto> (case m k of None \<Rightarrow> [] | Some vs \<Rightarrow> vs) @ [v])"

definition ldif_flush :: "(str \<Rightarrow> byte list option) \<Rightarrow> ldif_entry \<Rightarrow> (str \<times> str \<times> bool) option \<Rightarrow> ldif_entry" where
  "ldif_flush b64d current p =
     (case p of
        None \<Rightarrow> current
      | Some (k, v, b64) \<Rightarrow>
          if b64 then
            (case b64d v of
               None \<Rightarrow> current
             | Some raw \<Rightarrow> entry_push current k (from_utf8_lossy raw))
          else entry_push current k v)"

definition ldif_line :: "(str \<Rightarrow> byte list option) \<Rightarrow> str \<Rightarrow> ldif_state \<Rightarrow> ldif_state" where
  "ldif_line b64d line st =
     (case strip_prefix line (lit '' '') of
        Some rest \<Rightarrow>
          (case lf_pending st of
             None \<Rightarrow> st
           | Some (k, v, b64) \<Rightarrow> st\<lparr>lf_pending := Some (k, v @ rest, b64)\<rparr>)
      | None \<Rightarrow>
          let current = ldif_flush b64d (lf_current st) (lf_pending st);
              st' = st\<lparr>lf_current := current, lf_pending := None\<rparr>
          in if line = [] \<or> starts_with line (lit ''#'') then
               (if line = [] \<and> current (lit ''dn'') \<noteq> None
                then st'\<lparr>lf_entries := lf_entries st' @ [current], lf_current := Map.empty\<rparr>
                else st'\<lparr>lf_current := Map.empty\<rparr>)
             else
               (case split_once_str (lit '':: '') line of
                  Some (k, v) \<Rightarrow> st'\<lparr>lf_pending := Some (k, v, True)\<rparr>
                | None \<Rightarrow>
                    (case split_once_str (lit '': '') line of
                       Some (k, v) \<Rightarrow> st'\<lparr>lf_pending := Some (k, v, False)\<rparr>
                     | None \<Rightarrow> st')))"

fun ldif_lines :: "(str \<Rightarrow> byte list option) \<Rightarrow> str list \<Rightarrow> ldif_state \<Rightarrow> ldif_state" where
  "ldif_lines b64d [] st = st"
| "ldif_lines b64d (l # ls) st = ldif_lines b64d ls (ldif_line b64d l st)"

definition ldif_entries :: "(str \<Rightarrow> byte list option) \<Rightarrow> str \<Rightarrow> ldif_entry list" where
  "ldif_entries b64d text =
     lf_entries (ldif_lines b64d (str_lines text @ [[]])
       \<lparr>lf_entries = [], lf_current = Map.empty, lf_pending = None\<rparr>)"

definition entry_first :: "ldif_entry \<Rightarrow> str \<Rightarrow> str option" where
  "entry_first e attr = (case e attr of Some (v # _) \<Rightarrow> Some v | _ \<Rightarrow> None)"

subsection \<open>What \<open>ldbsearch\<close> prints\<close>

text \<open>
  An attribute line: a value that is printed as it is, or its base64 form. Either may be
  folded into a first line and continuation lines that begin with a space. A block is a
  comment, attribute lines and an empty line; blocks without a \<open>dn\<close> are referrals.
\<close>

datatype ldif_value = Plain (pieces: "str list") | Encoded (pieces: "str list") (encoded: str)

fun value_text :: "ldif_value \<Rightarrow> str" where
  "value_text (Plain ps) = concat ps"
| "value_text (Encoded ps v) = v"

definition value_lines :: "str \<Rightarrow> ldif_value \<Rightarrow> str list" where
  "value_lines k v = (k @ (case v of Plain _ \<Rightarrow> lit '': '' | Encoded _ _ \<Rightarrow> lit '':: '') @ hd (pieces v))
     # map (\<lambda>p. lit '' '' @ p) (tl (pieces v))"

definition occurs :: "str \<Rightarrow> str \<Rightarrow> bool" where
  "occurs p s \<longleftrightarrow> split_once_str p s \<noteq> None"

definition key_ok :: "str \<Rightarrow> bool" where
  "key_ok k \<longleftrightarrow> k \<noteq> [] \<and> c_colon \<notin> set k \<and> 10 \<notin> set k \<and> hd k \<noteq> c_space \<and> hd k \<noteq> c_hash"

definition value_ok :: "(byte list \<Rightarrow> str) \<Rightarrow> ldif_value \<Rightarrow> bool" where
  "value_ok b64e v \<longleftrightarrow> pieces v \<noteq> [] \<and> list_all line_ok (pieces v)
     \<and> (case v of Plain ps \<Rightarrow> \<not> occurs (lit '':: '') (hd ps)
        | Encoded ps t \<Rightarrow> scalars t \<and> concat ps = b64e (utf8 t))"

definition block_ok :: "(byte list \<Rightarrow> str) \<Rightarrow> (str \<times> ldif_value) list \<Rightarrow> bool" where
  "block_ok b64e b \<longleftrightarrow> list_all (\<lambda>(k, v). key_ok k \<and> value_ok b64e v) b"

definition block_lines :: "str \<times> (str \<times> ldif_value) list \<Rightarrow> str list" where
  "block_lines b = [lit ''#'' @ fst b] @ concat (map (\<lambda>(k, v). value_lines k v) (snd b)) @ [[]]"

definition block_entry :: "(str \<times> ldif_value) list \<Rightarrow> ldif_entry" where
  "block_entry b = foldl (\<lambda>m (k, v). entry_push m k (value_text v)) Map.empty b"

definition search_output :: "(str \<times> (str \<times> ldif_value) list) list \<Rightarrow> str" where
  "search_output bs = unlines (concat (map block_lines bs))"

lemma starts_with_Cons:
  "starts_with (c # s) (d # p) \<longleftrightarrow> c = d \<and> starts_with s p" "starts_with s []"
  "\<not> starts_with [] (d # p)"
  by (auto simp: starts_with_def)

lemma split_once_str_plain:
  "c_colon \<notin> set k \<Longrightarrow> split_once_str (lit '': '') (k @ lit '': '' @ v) = Some (k, v)"
  by (induction k) (simp_all add: kb_lits starts_with_Cons)

lemma split_once_str_b64:
  "c_colon \<notin> set k \<Longrightarrow> split_once_str (lit '':: '') (k @ lit '':: '' @ v) = Some (k, v)"
  by (induction k) (simp_all add: kb_lits starts_with_Cons)

lemma split_once_str_not_b64:
  assumes "c_colon \<notin> set k" "\<not> occurs (lit '':: '') v"
  shows "split_once_str (lit '':: '') (k @ lit '': '' @ v) = None"
proof -
  have "split_once_str (lit '':: '') v = None" using assms(2) by (simp only: occurs_def not_not)
  then have "split_once_str (lit '':: '') (lit '': '' @ v) = None"
    by (simp add: kb_lits starts_with_Cons)
  with assms(1) show ?thesis by (induction k) (simp_all add: kb_lits starts_with_Cons)
qed

lemma strip_prefix_line:
  "k \<noteq> [] \<Longrightarrow> hd k \<noteq> c_space \<Longrightarrow> strip_prefix (k @ s) (lit '' '') = None"
  "strip_prefix (lit '' '' @ s) (lit '' '') = Some s"
  by (cases k; simp add: strip_prefix_def starts_with_Cons kb_lits)+

lemma ldif_lines_append: "ldif_lines d (xs @ ys) st = ldif_lines d ys (ldif_lines d xs st)"
  by (induction xs arbitrary: st) simp_all

lemma ldif_continuations:
  "ldif_lines d (map (\<lambda>p. lit '' '' @ p) ps) \<lparr>lf_entries = es, lf_current = m, lf_pending = Some (k, v, b)\<rparr>
     = \<lparr>lf_entries = es, lf_current = m, lf_pending = Some (k, v @ concat ps, b)\<rparr>"
  by (induction ps arbitrary: v) (simp_all add: ldif_line_def strip_prefix_line)

text \<open>After the lines of an attribute, the value is pending and what was pending has been stored.\<close>

definition pending_of :: "str \<Rightarrow> ldif_value \<Rightarrow> str \<times> str \<times> bool" where
  "pending_of k v = (k, concat (pieces v), case v of Plain _ \<Rightarrow> False | Encoded _ _ \<Rightarrow> True)"

lemma ldif_value_lines:
  assumes "key_ok k" "value_ok e v"
  shows "ldif_lines d (value_lines k v) \<lparr>lf_entries = es, lf_current = m, lf_pending = p\<rparr>
    = \<lparr>lf_entries = es, lf_current = ldif_flush d m p, lf_pending = Some (pending_of k v)\<rparr>"
proof -
  obtain q qs where q: "pieces v = q # qs" using assms(2) by (cases "pieces v") (auto simp: value_ok_def)
  have k: "c_colon \<notin> set k" "k \<noteq> []" "hd k \<noteq> c_space" "\<not> starts_with (k @ s) (lit ''#'')" for s
    using assms(1) by (cases k; auto simp: key_ok_def starts_with_Cons kb_lits)+
  have "ldif_line d (hd (value_lines k v)) \<lparr>lf_entries = es, lf_current = m, lf_pending = p\<rparr>
      = \<lparr>lf_entries = es, lf_current = ldif_flush d m p,
         lf_pending = Some (k, q, case v of Plain _ \<Rightarrow> False | Encoded _ _ \<Rightarrow> True)\<rparr>"
    using assms(2) q k
    by (cases v) (simp_all add: ldif_line_def strip_prefix_line split_once_str_plain split_once_str_b64
        split_once_str_not_b64 value_ok_def value_lines_def)
  then show ?thesis by (simp add: q value_lines_def ldif_continuations pending_of_def)
qed

lemma flush_pending_of:
  assumes "value_ok b64e v" "\<And>bs. b64d (b64e bs) = Some bs"
  shows "ldif_flush b64d m (Some (pending_of k v)) = entry_push m k (value_text v)"
  using assms by (cases v) (simp_all add: ldif_flush_def pending_of_def value_ok_def)

lemma ldif_block_values:
  assumes "block_ok b64e b" "\<And>bs. b64d (b64e bs) = Some bs"
  shows "\<exists>m' p'. ldif_lines b64d (concat (map (\<lambda>(k, v). value_lines k v) b))
        \<lparr>lf_entries = es, lf_current = m, lf_pending = p\<rparr>
      = \<lparr>lf_entries = es, lf_current = m', lf_pending = p'\<rparr>
    \<and> ldif_flush b64d m' p' = foldl (\<lambda>m (k, v). entry_push m k (value_text v)) (ldif_flush b64d m p) b"
  using assms(1)
proof (induction b arbitrary: m p)
  case (Cons a b)
  obtain k v where a: "a = (k, v)" by (cases a)
  with Cons.prems have ok: "key_ok k" "value_ok b64e v" "block_ok b64e b" by (simp_all add: block_ok_def)
  note step = ldif_value_lines [OF ok(1,2), of b64d es m p]
  show ?case
    using Cons.IH [OF ok(3), of "ldif_flush b64d m p" "Some (pending_of k v)"]
    by (simp add: a step ldif_lines_append flush_pending_of [OF ok(2) assms(2)])
qed simp

lemma ldif_block:
  assumes "block_ok b64e (snd b)" "\<And>bs. b64d (b64e bs) = Some bs"
  shows "ldif_lines b64d (block_lines b) \<lparr>lf_entries = es, lf_current = Map.empty, lf_pending = None\<rparr>
    = \<lparr>lf_entries = es @ (if block_entry (snd b) (lit ''dn'') \<noteq> None then [block_entry (snd b)] else []),
       lf_current = Map.empty, lf_pending = None\<rparr>"
proof -
  have comment: "ldif_line b64d (lit ''#'' @ fst b) \<lparr>lf_entries = es, lf_current = Map.empty, lf_pending = None\<rparr>
      = \<lparr>lf_entries = es, lf_current = Map.empty, lf_pending = None\<rparr>"
    by (simp add: ldif_line_def kb_lits strip_prefix_def starts_with_Cons ldif_flush_def)
  obtain m' p' where v: "ldif_lines b64d (concat (map (\<lambda>(k, v). value_lines k v) (snd b)))
        \<lparr>lf_entries = es, lf_current = Map.empty, lf_pending = None\<rparr>
      = \<lparr>lf_entries = es, lf_current = m', lf_pending = p'\<rparr>"
    "ldif_flush b64d m' p' = block_entry (snd b)"
    using ldif_block_values [OF assms, of es Map.empty None] by (auto simp: block_entry_def ldif_flush_def)
  have blank: "ldif_line b64d [] \<lparr>lf_entries = es, lf_current = m', lf_pending = p'\<rparr>
      = \<lparr>lf_entries = es @ (if block_entry (snd b) (lit ''dn'') \<noteq> None then [block_entry (snd b)] else []),
         lf_current = Map.empty, lf_pending = None\<rparr>"
    by (simp add: ldif_line_def strip_prefix_def starts_with_Cons kb_lits v(2))
  show ?thesis
    by (simp only: block_lines_def ldif_lines_append ldif_lines.simps comment v(1) blank)
qed

lemma ldif_blocks:
  assumes "list_all (\<lambda>b. block_ok b64e (snd b)) bs" "\<And>bs. b64d (b64e bs) = Some bs"
  shows "ldif_lines b64d (concat (map block_lines bs)) \<lparr>lf_entries = es, lf_current = Map.empty, lf_pending = None\<rparr>
    = \<lparr>lf_entries = es @ filter (\<lambda>e. e (lit ''dn'') \<noteq> None) (map (block_entry \<circ> snd) bs),
       lf_current = Map.empty, lf_pending = None\<rparr>"
  using assms(1)
proof (induction bs arbitrary: es)
  case (Cons b bs)
  from Cons.prems have "block_ok b64e (snd b)" by simp
  note step = ldif_block [OF this assms(2), of es]
  show ?case using Cons by (simp add: ldif_lines_append step)
qed simp

lemma line_ok_append: "10 \<notin> set k \<Longrightarrow> line_ok s \<Longrightarrow> last (k @ s) \<noteq> 13 \<Longrightarrow> line_ok (k @ s)"
  by (auto simp: line_ok_def)

lemma value_lines_ok:
  assumes "key_ok k" "value_ok e v"
  shows "list_all line_ok (value_lines k v)"
proof -
  obtain q qs where q: "pieces v = q # qs" "line_ok q" "list_all line_ok qs"
    using assms(2) by (cases "pieces v") (auto simp: value_ok_def)
  have sep: "line_ok (k @ lit '': '' @ q)" "line_ok (k @ lit '':: '' @ q)" "line_ok (lit '' '' @ s)" if "line_ok s" for s
    using assms(1) q(2) that by (auto simp: line_ok_def key_ok_def kb_lits)
  show ?thesis using q sep by (cases v) (auto simp: list_all_iff value_lines_def)
qed

lemma ldif_entries_search_output:
  assumes "list_all (\<lambda>b. line_ok (lit ''#'' @ fst b) \<and> block_ok b64e (snd b)) bs"
    "\<And>bs. b64d (b64e bs) = Some bs"
  shows "ldif_entries b64d (search_output bs)
    = filter (\<lambda>e. e (lit ''dn'') \<noteq> None) (map (block_entry \<circ> snd) bs)"
proof -
  have "list_all line_ok (block_lines b)" if "b \<in> set bs" for b
    using that assms(1) value_lines_ok
    by (fastforce simp: block_lines_def list_all_iff block_ok_def line_ok_def [of "[]"] split: prod.splits)
  then have "str_lines (search_output bs) = concat (map block_lines bs)"
    unfolding search_output_def by (intro str_lines_unlines) (auto simp: list_all_iff)
  moreover have "list_all (\<lambda>b. block_ok b64e (snd b)) bs" using assms(1) by (auto simp: list_all_iff)
  ultimately show ?thesis
    by (simp add: ldif_entries_def ldif_lines_append ldif_blocks [OF _ assms(2)])
      (simp add: ldif_line_def strip_prefix_def starts_with_Cons kb_lits ldif_flush_def)
qed

subsection \<open>Every value read is a string\<close>

definition entry_scalars :: "ldif_entry \<Rightarrow> bool" where
  "entry_scalars m \<longleftrightarrow> (\<forall>k vs. m k = Some vs \<longrightarrow> list_all scalars vs)"

definition state_scalars :: "ldif_state \<Rightarrow> bool" where
  "state_scalars st \<longleftrightarrow> list_all entry_scalars (lf_entries st) \<and> entry_scalars (lf_current st)
     \<and> (\<forall>k v b. lf_pending st = Some (k, v, b) \<longrightarrow> scalars v)"

lemma split_once_str_set: "split_once_str p s = Some (a, b) \<Longrightarrow> set b \<subseteq> set s"
proof (induction s arbitrary: a)
  case (Cons c s)
  show ?case
  proof (cases "starts_with (c # s) p")
    case True
    with Cons.prems have "b = drop (length p) (c # s)" by simp
    then show ?thesis using set_drop_subset by metis
  next
    case False
    with Cons show ?thesis by fastforce
  qed
qed (simp split: if_splits)

lemma scalars_subset: "scalars s \<Longrightarrow> set t \<subseteq> set s \<Longrightarrow> scalars t"
  by (auto simp: list_all_iff)

lemma entry_push_scalars: "entry_scalars m \<Longrightarrow> scalars v \<Longrightarrow> entry_scalars (entry_push m k v)"
  by (auto simp: entry_scalars_def entry_push_def split: option.splits)

lemma ldif_flush_scalars:
  "entry_scalars m \<Longrightarrow> (\<forall>k v b. p = Some (k, v, b) \<longrightarrow> scalars v) \<Longrightarrow> entry_scalars (ldif_flush d m p)"
  by (auto simp: ldif_flush_def entry_push_scalars split: option.splits)

lemma ldif_line_scalars:
  assumes "scalars l" "state_scalars st"
  shows "state_scalars (ldif_line d l st)"
proof -
  have flush: "entry_scalars (ldif_flush d (lf_current st) (lf_pending st))"
    using assms(2) by (intro ldif_flush_scalars) (auto simp: state_scalars_def)
  have empty: "entry_scalars Map.empty" by (simp add: entry_scalars_def)
  have split: "scalars b" if "split_once_str p l = Some (a, b)" for p a b
    using that assms(1) split_once_str_set scalars_subset by metis
  have cont: "scalars r" if "strip_prefix l (lit '' '') = Some r" for r
    using that assms(1) by (simp add: strip_prefix_Some)
  show ?thesis using assms(2) flush empty split cont
    by (auto simp: ldif_line_def Let_def state_scalars_def split: option.splits)
qed

lemma ldif_lines_scalars: "list_all scalars ls \<Longrightarrow> state_scalars st \<Longrightarrow> state_scalars (ldif_lines d ls st)"
  by (induction ls arbitrary: st) (simp_all add: ldif_line_scalars)

lemma str_lines_subset:
  assumes "l \<in> set (str_lines s)"
  shows "set l \<subseteq> set s"
proof -
  have "set (strip_cr x) \<subseteq> set x" for x by (auto simp: strip_cr_def dest: in_set_butlastD)
  moreover have "\<exists>x \<in> set (split_on 10 s). l = x \<or> l = strip_cr x"
  proof (cases "l \<in> set (map strip_cr (butlast (split_on 10 s)))")
    case True
    then show ?thesis by (auto dest: in_set_butlastD)
  next
    case False
    with assms have "l = last (split_on 10 s)" by (auto simp: str_lines_def Let_def split: if_splits)
    with last_in_set [OF split_on_not_Nil [of 10 s]] show ?thesis by blast
  qed
  then obtain x where "x \<in> set (split_on 10 s)" "l = x \<or> l = strip_cr x" by blast
  moreover from this(1) have "set x \<subseteq> set s" using split_on_fields by blast
  ultimately show ?thesis by blast
qed

lemma ldif_entries_scalars:
  assumes "scalars text" "e \<in> set (ldif_entries d text)" "e k = Some vs"
  shows "list_all scalars vs"
proof -
  have "list_all scalars (str_lines text @ [[]])"
    using assms(1) str_lines_subset scalars_subset by (fastforce simp: list_all_iff)
  then have "state_scalars (ldif_lines d (str_lines text @ [[]]) \<lparr>lf_entries = [], lf_current = Map.empty, lf_pending = None\<rparr>)"
    by (rule ldif_lines_scalars) (simp add: state_scalars_def entry_scalars_def)
  with assms(2,3) show ?thesis by (auto simp: ldif_entries_def state_scalars_def list_all_iff entry_scalars_def)
qed

section \<open>Writing a change record\<close>

definition extension_name :: str where [kb_lits]: "extension_name = lit ''extensionName''"

definition ldif_verb :: "(byte list \<Rightarrow> str) \<Rightarrow> str \<Rightarrow> str list \<Rightarrow> str" where
  "ldif_verb b64e verb vals =
     (if vals = [] then []
      else verb @ lit '': '' @ extension_name @ [10]
        @ concat (map (\<lambda>v. extension_name @ lit '':: '' @ b64e (utf8 v) @ [10]) vals)
        @ lit ''-'' @ [10])"

definition ldif :: "(byte list \<Rightarrow> str) \<Rightarrow> str \<Rightarrow> str list \<Rightarrow> str list \<Rightarrow> str" where
  "ldif b64e dn delete add =
     lit ''dn:: '' @ b64e (utf8 dn) @ [10] @ lit ''changetype: modify'' @ [10]
     @ ldif_verb b64e (lit ''delete'') delete @ ldif_verb b64e (lit ''add'') add @ [10]"

text \<open>
  What the record means to its reader, by the change-record grammar of RFC 2849: one object,
  and per modification a verb, an attribute and the decoded values.
\<close>

fun read_mods ::
  "(str \<Rightarrow> byte list option) \<Rightarrow> str list \<Rightarrow> (str \<times> str \<times> str list) option \<Rightarrow> (str \<times> str \<times> str list) list option"
where
  "read_mods b64d [] st = None"
| "read_mods b64d (l # ls) None =
     (if l = [] then Some []
      else (case split_once_str (lit '': '') l of
              None \<Rightarrow> None
            | Some (verb, attr) \<Rightarrow> read_mods b64d ls (Some (verb, attr, []))))"
| "read_mods b64d (l # ls) (Some (verb, attr, vs)) =
     (if l = lit ''-'' then map_option (\<lambda>ms. (verb, attr, vs) # ms) (read_mods b64d ls None)
      else (case split_once_str (lit '':: '') l of
              None \<Rightarrow> None
            | Some (a, v) \<Rightarrow>
                if a = attr then
                  (case Option.bind (b64d v) from_utf8 of
                     None \<Rightarrow> None
                   | Some t \<Rightarrow> read_mods b64d ls (Some (verb, attr, vs @ [t])))
                else None))"

definition read_change :: "(str \<Rightarrow> byte list option) \<Rightarrow> str \<Rightarrow> (str \<times> (str \<times> str \<times> str list) list) option" where
  "read_change b64d text =
     (case str_lines text of
        l0 # l1 # ls \<Rightarrow>
          (case Option.bind (strip_prefix l0 (lit ''dn:: '')) (\<lambda>v. Option.bind (b64d v) from_utf8) of
             None \<Rightarrow> None
           | Some dn \<Rightarrow>
               if l1 = lit ''changetype: modify''
               then map_option (\<lambda>ms. (dn, ms)) (read_mods b64d ls None) else None)
      | _ \<Rightarrow> None)"

definition change_mods :: "str list \<Rightarrow> str list \<Rightarrow> (str \<times> str \<times> str list) list" where
  "change_mods delete add =
     (if delete = [] then [] else [(lit ''delete'', extension_name, delete)])
     @ (if add = [] then [] else [(lit ''add'', extension_name, add)])"

context base64_engine
begin

definition verb_lines :: "str \<Rightarrow> str list \<Rightarrow> str list" where
  "verb_lines verb vals =
     (if vals = [] then []
      else (verb @ lit '': '' @ extension_name)
        # map (\<lambda>v. extension_name @ lit '':: '' @ b64e (utf8 v)) vals @ [lit ''-''])"

lemma ldif_verb_lines: "ldif_verb b64e verb vals = unlines (verb_lines verb vals)"
proof -
  have "concat (map (\<lambda>v. extension_name @ lit '':: '' @ b64e (utf8 v) @ [10]) vals)
      = unlines (map (\<lambda>v. extension_name @ lit '':: '' @ b64e (utf8 v)) vals)"
    by (induction vals) simp_all
  then show ?thesis by (simp add: ldif_verb_def verb_lines_def)
qed

lemma b64_suffix_line: "10 \<notin> set k \<Longrightarrow> k \<noteq> [] \<Longrightarrow> last k \<noteq> 13 \<Longrightarrow> line_ok (k @ b64e bs)"
  using b64_no_newline [of bs] b64_no_cr [of bs] by (auto simp: line_ok_def last_append) (metis last_in_set)

lemma verb_lines_ok:
  assumes "10 \<notin> set verb"
  shows "list_all line_ok (verb_lines verb vals)"
proof -
  have "line_ok (extension_name @ lit '':: '' @ b64e bs)" for bs
    using b64_suffix_line [of "extension_name @ lit '':: ''" bs] by (simp add: kb_lits)
  moreover have "line_ok (verb @ lit '': '' @ extension_name)" "line_ok (lit ''-'')"
    using assms by (simp_all add: line_ok_def kb_lits)
  ultimately show ?thesis by (simp add: verb_lines_def list_all_iff)
qed

lemma ldif_lines_of:
  "str_lines (ldif b64e dn delete add)
    = (lit ''dn:: '' @ b64e (utf8 dn)) # lit ''changetype: modify''
      # verb_lines (lit ''delete'') delete @ verb_lines (lit ''add'') add @ [[]]"
    (is "_ = ?ls")
proof -
  have "ldif b64e dn delete add = unlines ?ls"
    by (simp add: ldif_def ldif_verb_lines)
  moreover have "line_ok (lit ''dn:: '' @ b64e (utf8 dn))"
    using b64_suffix_line [of "lit ''dn:: ''"] by (simp add: kb_lits)
  then have "list_all line_ok ?ls"
    using verb_lines_ok [of "lit ''delete''" delete] verb_lines_ok [of "lit ''add''" add]
    by (simp add: kb_lits line_ok_def)
  ultimately show ?thesis by (simp only: str_lines_unlines)
qed

lemma read_mods_values:
  "list_all scalars vals \<Longrightarrow>
    read_mods b64d (map (\<lambda>v. extension_name @ lit '':: '' @ b64e (utf8 v)) vals @ [lit ''-''] @ ls)
      (Some (verb, extension_name, vs))
    = map_option (\<lambda>ms. (verb, extension_name, vs @ vals) # ms) (read_mods b64d ls None)"
proof (induction vals arbitrary: vs)
  case (Cons v vals)
  have "c_colon \<notin> set extension_name" by (simp add: kb_lits)
  then have s: "split_once_str (lit '':: '') (extension_name @ lit '':: '' @ b64e (utf8 v))
      = Some (extension_name, b64e (utf8 v))"
    by (rule split_once_str_b64)
  have n: "extension_name @ lit '':: '' @ b64e (utf8 v) \<noteq> lit ''-''" by (simp add: kb_lits)
  show ?case using Cons n by (simp add: s b64_inverse)
qed simp

lemma read_mods_verb:
  assumes "list_all scalars vals" "verb \<in> {lit ''delete'', lit ''add''}"
  shows "read_mods b64d (verb_lines verb vals @ ls) None
    = map_option (\<lambda>ms. (if vals = [] then [] else [(verb, extension_name, vals)]) @ ms)
        (read_mods b64d ls None)"
proof (cases "vals = []")
  case True
  then show ?thesis by (simp add: verb_lines_def option.map_ident)
next
  case False
  have "c_colon \<notin> set verb" "verb \<noteq> []" using assms(2) by (auto simp: kb_lits)
  then have "split_once_str (lit '': '') (verb @ lit '': '' @ extension_name) = Some (verb, extension_name)"
    by (intro split_once_str_plain)
  with False \<open>verb \<noteq> []\<close> read_mods_values [OF assms(1), of ls verb "[]"]
  show ?thesis by (simp add: verb_lines_def)
qed

lemma read_change_ldif:
  assumes "scalars dn" "list_all scalars delete" "list_all scalars add"
  shows "read_change b64d (ldif b64e dn delete add) = Some (dn, change_mods delete add)"
  using assms by (simp add: read_change_def ldif_lines_of b64_inverse read_mods_verb change_mods_def)

end

section \<open>Properties\<close>

definition sample_blocks :: "(str \<times> (str \<times> ldif_value) list) list" where
  "sample_blocks =
     [(lit '' record 1'',
       [(lit ''dn'', Plain [lit ''CN=Alice,OU=En'', lit ''tra,DC=ex'']),
        (lit ''objectClass'', Plain [lit ''top'']),
        (lit ''objectClass'', Plain [lit ''user'']),
        (lit ''cn'', Encoded [rfc4648_encode (utf8 [233])] [233])]),
      (lit '' Referral'', [(lit ''ref'', Plain [lit ''ldap://ex/CN=Configuration''])])]"

lemma sample_blocks_ok:
  "list_all (\<lambda>b. line_ok (lit ''#'' @ fst b) \<and> block_ok rfc4648_encode (snd b)) sample_blocks"
  using rfc4648.b64_line [of "utf8 [233]"]
  by (simp add: sample_blocks_def block_ok_def value_ok_def key_ok_def kb_lits line_ok_def occurs_def
      starts_with_Cons is_scalar_def)

text \<open>
  Fact (KB_Ldif.ldif_roundtrip). Whatever \<open>ldbsearch\<close> prints as blocks of attribute lines is
  read back: each block with a \<open>dn\<close> is one entry with every value of every attribute in its
  printed order, folded lines joined and base64 values decoded, and referral blocks are not
  counted. A value printed as it is must not contain a double colon and a space.
\<close>

theorem ldif_roundtrip:
  assumes "base64_engine b64e b64d"
    "list_all (\<lambda>b. line_ok (lit ''#'' @ fst b) \<and> block_ok b64e (snd b)) bs"
  shows "ldif_entries b64d (search_output bs)
    = filter (\<lambda>e. e (lit ''dn'') \<noteq> None) (map (block_entry \<circ> snd) bs)"
  by (rule ldif_entries_search_output [OF assms(2) base64_engine.b64_inverse [OF assms(1)]])

theorem ldif_roundtrip_witness:
  "map (\<lambda>e. (entry_first e (lit ''dn''), e (lit ''objectClass''), entry_first e (lit ''cn'')))
     (ldif_entries rfc4648_decode (search_output sample_blocks))
   = [(Some (lit ''CN=Alice,OU=Entra,DC=ex''), Some [lit ''top'', lit ''user''], Some [233])]"
  using ldif_roundtrip [OF rfc4648.base64_engine_axioms sample_blocks_ok]
  by (simp add: sample_blocks_def block_entry_def entry_push_def entry_first_def kb_lits)

text \<open>
  C36 (KB_Ldif.change_record_faithful). The change record handed to \<open>ldbmodify\<close> says exactly
  what it was built from: it addresses the one object, deletes exactly the given values and
  adds exactly the given values of \<open>extensionName\<close>, whatever characters they contain, so no
  value can smuggle in a second modification.
\<close>

theorem change_record_faithful:
  assumes "base64_engine b64e b64d" "scalars dn" "list_all scalars delete" "list_all scalars add"
  shows "read_change b64d (ldif b64e dn delete add) = Some (dn, change_mods delete add)"
  by (rule base64_engine.read_change_ldif [OF assms])

theorem change_record_faithful_witness:
  "read_change rfc4648_decode
     (ldif rfc4648_encode (lit ''CN=a'') [] [lit ''x'' @ [10] @ lit ''replace: userAccountControl''])
   = Some (lit ''CN=a'', [(lit ''add'', extension_name, [lit ''x'' @ [10] @ lit ''replace: userAccountControl''])])"
  using change_record_faithful [OF rfc4648.base64_engine_axioms, of "lit ''CN=a''" "[]"
      "[lit ''x'' @ [10] @ lit ''replace: userAccountControl'']"]
  by (simp add: change_mods_def kb_lits is_scalar_def)

end
