(* ===== verification/KB_Wire.thy ===== *)
theory KB_Wire
  imports KB_Ccache
begin

text \<open>
  The issuer protocol (\<open>crates/kerbridge-core/src/issuer.rs\<close>): the requests and responses that
  cross the socket between the broker and \<open>issuerd\<close>, and the length-prefixed frames that carry
  them. A stream is the list of the bytes that can still be read from it before its end; the
  JSON form of a message is the business of \<open>serde_json\<close>.
\<close>

section \<open>Messages\<close>

definition MAX_FRAME :: nat where "MAX_FRAME = 64 * 1024"
definition TICKET_FORMAT :: str where [kb_lits]: "TICKET_FORMAT = lit ''mit-ccache-v4''"

record issue_request =
  ir_request_id :: str
  ir_account_sid :: str
  ir_lifetime_seconds :: "nat option"
  ir_renewable_lifetime_seconds :: "nat option"

record grant_device_request =
  gd_request_id :: str
  gd_account_sid :: str
  gd_alg :: str
  gd_thumbprint :: str
  gd_label :: str
  gd_expires_at :: nat

record revoke_grant_request =
  rg_request_id :: str
  rg_account_sid :: str
  rg_thumbprint :: str

record touch_grant_request =
  tg_request_id :: str
  tg_account_sid :: str
  tg_thumbprint :: str
  tg_seen :: nat

datatype request =
    Ping
  | Issue issue_request
  | GrantDevice grant_device_request
  | RevokeGrant revoke_grant_request
  | TouchGrant touch_grant_request

record ticket =
  tk_request_id :: str
  tk_principal :: str
  tk_ticket_format :: str
  tk_ccache_b64 :: str
  tk_starts_at :: str
  tk_expires_at :: str
  tk_renew_until :: str

datatype response =
    RespOk ticket
  | RespError (resp_id: str) (resp_error: str)
  | RespPong bool
  | RespDone str

section \<open>Frames\<close>

datatype frame_error = UnexpectedEof | FrameTooLong nat

definition read_exact :: "nat \<Rightarrow> byte list \<Rightarrow> frame_error + byte list \<times> byte list" where
  "read_exact n s = (if n \<le> length s then Inr (take n s, drop n s) else Inl UnexpectedEof)"

definition read_frame :: "byte list \<Rightarrow> frame_error + byte list \<times> byte list" where
  "read_frame s =
     rbind (read_exact 4 s) (\<lambda>(hdr, s').
       let len = unat (from_be_bytes hdr :: 32 word)
       in if len > MAX_FRAME then Inl (FrameTooLong len) else read_exact len s')"

text \<open>The bytes put on the stream, or the refusal of a payload over the cap.\<close>

definition write_frame :: "byte list \<Rightarrow> frame_error + byte list" where
  "write_frame payload =
     (if length payload > MAX_FRAME then Inl (FrameTooLong (length payload))
      else Inr (be32 (of_nat (length payload)) @ payload))"

definition frame_dec :: "byte list \<Rightarrow> frame_error + byte list" where
  "frame_dec s = rbind (read_frame s) (\<lambda>(p, _). Inr p)"

lemma read_frame_write: "write_frame p = Inr s \<Longrightarrow> read_frame (s @ rest) = Inr (p, rest)"
proof -
  assume w: "write_frame p = Inr s"
  then have p: "length p \<le> 65536" "s = be32 (of_nat (length p)) @ p"
    by (auto simp: write_frame_def MAX_FRAME_def split: if_splits)
  then have "unat (of_nat (length p) :: 32 word) = length p" by (simp add: unat_len)
  with p show ?thesis by (simp add: read_frame_def read_exact_def length_be32 MAX_FRAME_def)
qed

lemma read_frame_bound: "read_frame s = Inr (p, rest) \<Longrightarrow> length p \<le> MAX_FRAME \<and> length rest + 4 + length p = length s"
  by (auto simp: read_frame_def read_exact_def kb_results Let_def split: if_splits)

interpretation frame_codec: codec "\<lambda>p. be32 (of_nat (length p)) @ p" frame_dec "\<lambda>p. length p \<le> MAX_FRAME"
proof
  fix p :: "byte list" assume "length p \<le> MAX_FRAME"
  then have "write_frame p = Inr (be32 (of_nat (length p)) @ p)" by (simp add: write_frame_def)
  from read_frame_write [OF this, of "[]"]
  show "frame_dec (be32 (of_nat (length p)) @ p) = Inr p" by (simp add: frame_dec_def)
qed

section \<open>Property\<close>

text \<open>
  Fact (KB_Wire.frames_roundtrip). A sequence of messages written to the socket is read back as
  that sequence and nothing else: each frame ends where the next begins, whatever follows it.
\<close>

fun write_frames :: "byte list list \<Rightarrow> frame_error + byte list" where
  "write_frames [] = Inr []"
| "write_frames (p # ps) = rbind (write_frame p) (\<lambda>s. rbind (write_frames ps) (\<lambda>t. Inr (s @ t)))"

fun read_frames :: "nat \<Rightarrow> byte list \<Rightarrow> frame_error + byte list list \<times> byte list" where
  "read_frames 0 s = Inr ([], s)"
| "read_frames (Suc n) s =
     rbind (read_frame s) (\<lambda>(p, s'). rbind (read_frames n s') (\<lambda>(ps, s''). Inr (p # ps, s'')))"

theorem frames_roundtrip:
  assumes "write_frames ps = Inr s"
  shows "read_frames (length ps) (s @ rest) = Inr (ps, rest)"
  using assms
proof (induction ps arbitrary: s)
  case (Cons p ps)
  then obtain a b where "write_frame p = Inr a" "write_frames ps = Inr b" "s = a @ b"
    by (auto simp: kb_results)
  with Cons.IH [of b] read_frame_write [of p a "b @ rest"] show ?case by simp
qed simp

theorem frames_roundtrip_witness:
  "\<exists>s. write_frames [[1, 2], []] = Inr s \<and> read_frames 2 (s @ [9]) = Inr ([[1, 2], []], [9])"
proof -
  have "write_frames [[1, 2], []] = Inr (be32 2 @ [1, 2] @ be32 0)"
    by (simp add: write_frame_def MAX_FRAME_def)
  from frames_roundtrip [OF this, of "[9]"] this show ?thesis by (simp add: numeral_2_eq_2)
qed

end
