(* ===== verification/KB_Issuerd.thy ===== *)
theory KB_Issuerd
  imports KB_Wire KB_Ldif KB_Grant KB_Dn KB_Sam
begin

text \<open>
  The privileged ticket issuer (\<open>crates/kerbridge-issuerd/src/issue.rs\<close>, \<open>grant.rs\<close>): resolving
  an account from its SID, issuing and checking its ticket, and the three writes of device
  grants.

  What lies outside the process is the record \<open>host\<close>: running a command, the file system, the
  clock, the Unicode tables and the base64 engine. An operation passes the state of the
  process, the request counter and the outside world, and returns a value or the error
  category that crosses the socket; the \<open>detail\<close> text of an error goes to the log only and is
  not modelled. \<open>observed\<close> turns any host into one that records what was asked of it.
\<close>

section \<open>The host\<close>

datatype proc =
    Spawn_failed
  | Ran (proc_stdout: "byte list") (proc_stderr: "byte list") (proc_status: "int option option")

record 'w host =
  h_exec :: "str list \<Rightarrow> (str \<times> str) list \<Rightarrow> 'w \<Rightarrow> proc \<times> 'w"
  h_mkdir :: "str \<Rightarrow> 'w \<Rightarrow> bool \<times> 'w"
  h_read :: "str \<Rightarrow> 'w \<Rightarrow> byte list option"
  h_write :: "str \<Rightarrow> str \<Rightarrow> 'w \<Rightarrow> bool \<times> 'w"
  h_remove :: "str \<Rightarrow> 'w \<Rightarrow> 'w"
  h_now :: "'w \<Rightarrow> nat"
  h_metadata :: "str \<Rightarrow> (bool \<times> 32 word) option"
  h_pid :: nat
  h_unicode :: unicode
  h_b64e :: "byte list \<Rightarrow> str"
  h_b64d :: "str \<Rightarrow> byte list option"

record 'w pstate =
  ps_seq :: nat
  ps_world :: 'w

type_synonym issue_error = str
type_synonym ('w, 'a) io = "'w pstate \<Rightarrow> (issue_error + 'a) \<times> 'w pstate"

definition io_ok :: "'a \<Rightarrow> ('w, 'a) io" where "io_ok x s = (Inr x, s)"
definition io_err :: "issue_error \<Rightarrow> ('w, 'a) io" where "io_err e s = (Inl e, s)"
definition io_of :: "issue_error + 'a \<Rightarrow> ('w, 'a) io" where "io_of r s = (r, s)"

definition io_bind :: "('w, 'a) io \<Rightarrow> ('a \<Rightarrow> ('w, 'b) io) \<Rightarrow> ('w, 'b) io" where
  "io_bind m k s = (case m s of (Inl e, s') \<Rightarrow> (Inl e, s') | (Inr x, s') \<Rightarrow> k x s')"

named_theorems io_results \<open>inversion of composed effects\<close>

lemma io_bind_Inr [io_results]:
  "io_bind m k s = (Inr y, s') \<longleftrightarrow> (\<exists>x s1. m s = (Inr x, s1) \<and> k x s1 = (Inr y, s'))"
  by (auto simp: io_bind_def split: prod.splits sum.splits)

lemma io_simps [simp]:
  "io_ok x s = (Inr x, s)" "io_err e s = (Inl e, s)" "io_of r s = (r, s)"
  by (simp_all add: io_ok_def io_err_def io_of_def)

section \<open>Configuration, constants and errors\<close>

record issuerd_config =
  ic_realm :: str
  ic_base_dn :: str
  ic_cloud_idp_ou :: str
  ic_sam_db :: str
  ic_tmp_dir :: str
  ic_max_lifetime :: nat
  ic_max_renewable :: nat
  ic_cmd_timeout :: nat
  ic_max_grants :: nat

definition MAX_OUTPUT :: nat where "MAX_OUTPUT = 256 * 1024"
definition MAX_CCACHE :: nat where "MAX_CCACHE = 1024 * 1024"
definition UAC_ACCOUNTDISABLE :: "32 word" where "UAC_ACCOUNTDISABLE = 0x0002"
definition UAC_MACHINE :: "32 word" where "UAC_MACHINE = 0x0800 OR 0x1000 OR 0x2000"
definition SUBPROCESS_PATH :: str where [kb_lits]: "SUBPROCESS_PATH = lit ''/usr/sbin:/usr/bin:/sbin:/bin''"
definition KINIT_MIT :: str where [kb_lits]: "KINIT_MIT = lit ''kinit.mit''"
definition KINIT_ANY :: str where [kb_lits]: "KINIT_ANY = lit ''kinit''"

definition ELIGIBLE_CLASSES :: "str list" where
  [kb_lits]: "ELIGIBLE_CLASSES = [lit ''top'', lit ''person'', lit ''organizationalperson'', lit ''user'']"

definition issuer_failed :: issue_error where [kb_lits]: "issuer_failed = lit ''issuer failed''"
definition bad_request :: issue_error where [kb_lits]: "bad_request = lit ''bad request''"
definition unknown_account :: issue_error where [kb_lits]: "unknown_account = lit ''unknown account''"
definition not_eligible :: issue_error where [kb_lits]: "not_eligible = lit ''account not eligible''"
definition cap_reached :: issue_error where [kb_lits]: "cap_reached = lit ''device grant cap reached''"

section \<open>Commands and temporary directories\<close>

text \<open>\<open>Path::join\<close> with a relative component.\<close>

definition path_join :: "str \<Rightarrow> str \<Rightarrow> str" where
  "path_join dir p = (if dir = [] then p else if last dir = c_slash then dir @ p else dir @ [c_slash] @ p)"

fun find_map :: "('a \<Rightarrow> 'b option) \<Rightarrow> 'a list \<Rightarrow> 'b option" where
  "find_map f [] = None"
| "find_map f (x # xs) = (case f x of Some y \<Rightarrow> Some y | None \<Rightarrow> find_map f xs)"

definition program_in_path :: "'w host \<Rightarrow> str \<Rightarrow> str \<Rightarrow> str option" where
  "program_in_path h program path =
     find_map (\<lambda>dir.
        let candidate = path_join dir program
        in case h_metadata h candidate of
             None \<Rightarrow> None
           | Some (is_file, mode) \<Rightarrow>
               if \<not> is_file \<or> mode AND 0x49 = 0 then None else Some candidate)
       (filter (\<lambda>dir. dir \<noteq> []) (split_on c_colon path))"

definition kinit_program :: "'w host \<Rightarrow> str" where
  "kinit_program h =
     (case program_in_path h KINIT_MIT SUBPROCESS_PATH of Some p \<Rightarrow> p | None \<Rightarrow> KINIT_ANY)"

definition run_result :: "proc \<Rightarrow> issue_error + str" where
  "run_result p =
     (case p of
        Spawn_failed \<Rightarrow> Inl issuer_failed
      | Ran out err status \<Rightarrow>
          rbind (ok_or issuer_failed (from_utf8 (take MAX_OUTPUT out))) (\<lambda>stdout.
          rbind (ok_or issuer_failed (from_utf8 (take MAX_OUTPUT err))) (\<lambda>stderr.
          rbind (ok_or issuer_failed status) (\<lambda>code.
            if code = Some 0 then Inr stdout else Inl issuer_failed))))"

definition run :: "'w host \<Rightarrow> issuerd_config \<Rightarrow> str list \<Rightarrow> (str \<times> str) list \<Rightarrow> ('w, str) io" where
  "run h cfg argv env s =
     (let (p, w) = h_exec h (lit ''timeout'' # show_dec (ic_cmd_timeout cfg) # argv)
                     ((lit ''PATH'', SUBPROCESS_PATH) # env) (ps_world s)
      in (run_result p, s\<lparr>ps_world := w\<rparr>))"

text \<open>
  \<open>Workdir::create\<close> and its \<open>Drop\<close>: the directory is made under a name from the process id and
  the request counter, and removed when the block that owns it is left, whatever its result.
\<close>

definition workdir_name :: "'w host \<Rightarrow> issuerd_config \<Rightarrow> nat \<Rightarrow> str" where
  "workdir_name h cfg n =
     path_join (ic_tmp_dir cfg) (lit ''req.'' @ show_dec (h_pid h) @ lit ''.'' @ show_dec n)"

definition with_workdir :: "'w host \<Rightarrow> issuerd_config \<Rightarrow> (str \<Rightarrow> ('w, 'a) io) \<Rightarrow> ('w, 'a) io" where
  "with_workdir h cfg body s =
     (let path = workdir_name h cfg (ps_seq s);
          (made, w) = h_mkdir h path (ps_world s);
          s1 = s\<lparr>ps_seq := (ps_seq s + 1) mod 2 ^ 64, ps_world := w\<rparr>
      in if \<not> made then (Inl issuer_failed, s1)
         else let (r, s2) = body path s1
              in (r, s2\<lparr>ps_world := h_remove h path (ps_world s2)\<rparr>))"

section \<open>Resolving an account\<close>

definition validated_sid :: "str \<Rightarrow> issue_error + str" where
  "validated_sid sid =
     (case strip_prefix sid (lit ''S-1-'') of
        None \<Rightarrow> Inl bad_request
      | Some rest \<Rightarrow>
          if utf8_len sid > 189 \<or> rest = [] then Inl bad_request
          else if \<not> list_all (\<lambda>f. f \<noteq> [] \<and> list_all is_ascii_digit f) (split_on c_dash rest)
               then Inl bad_request
          else Inr sid)"

definition validated_sam :: "unicode \<Rightarrow> str \<Rightarrow> issue_error + str" where
  "validated_sam u sam = rbind (map_err (\<lambda>_. not_eligible) (validate u sam)) (\<lambda>_. Inr sam)"

record account =
  ac_dn :: str
  ac_sam_account_name :: str
  ac_markers :: "str list"

definition values_or_empty :: "ldif_entry \<Rightarrow> str \<Rightarrow> str list" where
  "values_or_empty e attr = (case e attr of None \<Rightarrow> [] | Some vs \<Rightarrow> vs)"

definition account_of :: "unicode \<Rightarrow> ldif_entry list \<Rightarrow> issue_error + account" where
  "account_of u entries =
     rbind (guard (length entries = 1) unknown_account) (\<lambda>_.
     let entry = hd entries in
     rbind (ok_or unknown_account (entry_first entry (lit ''sAMAccountName''))) (\<lambda>sam.
     rbind (validated_sam u sam) (\<lambda>_.
     let classes = values_or_empty entry (lit ''objectClass'') in
     rbind (guard (list_ex (\<lambda>c. eq_ignore_ascii_case c (lit ''user'')) classes) not_eligible) (\<lambda>_.
     rbind (guard (find (\<lambda>c. map to_ascii_lowercase c \<notin> set ELIGIBLE_CLASSES) classes = None) not_eligible) (\<lambda>_.
     rbind (ok_or not_eligible
        (Option.bind (entry_first entry (lit ''userAccountControl'')) (parse_unsigned u32_max))) (\<lambda>n.
     let uac = of_nat n :: 32 word in
     rbind (guard (uac AND UAC_ACCOUNTDISABLE = 0) not_eligible) (\<lambda>_.
     rbind (guard (uac AND UAC_MACHINE = 0) not_eligible) (\<lambda>_.
     rbind (ok_or not_eligible (entry_first entry (lit ''msDS-ExternalDirectoryObjectId''))) (\<lambda>identity.
     rbind (map_err (\<lambda>_. not_eligible) (decode identity)) (\<lambda>_.
     rbind (ok_or unknown_account (entry_first entry (lit ''dn''))) (\<lambda>dn.
       Inr \<lparr>ac_dn = dn, ac_sam_account_name = sam,
            ac_markers = values_or_empty entry (lit ''extensionName'')\<rparr>)))))))))))"

definition search_argv :: "issuerd_config \<Rightarrow> str \<Rightarrow> str list" where
  "search_argv cfg sid =
     [lit ''ldbsearch'', lit ''-H'', ic_sam_db cfg, lit ''--scope=sub'', lit ''-b'', ic_base_dn cfg,
      lit ''(objectSid='' @ sid @ lit '')'', lit ''sAMAccountName'', lit ''userAccountControl'',
      lit ''objectClass'', lit ''msDS-ExternalDirectoryObjectId'', lit ''extensionName'']"

definition lookup_account :: "'w host \<Rightarrow> issuerd_config \<Rightarrow> str \<Rightarrow> ('w, account) io" where
  "lookup_account h cfg sid =
     io_bind (run h cfg (search_argv cfg sid) []) (\<lambda>out.
     io_of (account_of (h_unicode h) (ldif_entries (h_b64d h) out)))"

section \<open>Issuing a ticket\<close>

definition check_flags :: "credential \<Rightarrow> issue_error + unit" where
  "check_flags tgt =
     (if cr_flags tgt AND TKT_FLG_INITIAL = 0 then Inl issuer_failed
      else if cr_flags tgt AND TKT_FLG_INVALID \<noteq> 0 then Inl issuer_failed
      else if cr_flags tgt AND TKT_FLG_RENEWABLE = 0 then Inl issuer_failed
      else if cr_renew_until tgt < cr_expires_at tgt then Inl issuer_failed
      else Inr ())"

definition validate_cache :: "issuerd_config \<Rightarrow> byte list \<Rightarrow> str \<Rightarrow> issue_error + credential" where
  "validate_cache cfg bytes princ =
     rbind (map_err (\<lambda>_. issuer_failed) (credentials bytes)) (\<lambda>creds.
     case filter (\<lambda>c. is_tgt c (ic_realm cfg)) creds of
       [] \<Rightarrow> Inl issuer_failed
     | tgt # tgts \<Rightarrow>
         if tgts \<noteq> [] then Inl issuer_failed
         else if principal_display (cr_client tgt) \<noteq> princ then Inl issuer_failed
         else rbind (check_flags tgt) (\<lambda>_. Inr tgt))"

definition read_bounded :: "'w host \<Rightarrow> str \<Rightarrow> ('w, byte list) io" where
  "read_bounded h path s =
     (rbind (ok_or issuer_failed (map_option (take (MAX_CCACHE + 1)) (h_read h path (ps_world s)))) (\<lambda>buf.
        if length buf > MAX_CCACHE then Inl issuer_failed else Inr buf), s)"

definition export_argv :: "str \<Rightarrow> str \<Rightarrow> str list" where
  "export_argv keytab princ =
     [lit ''samba-tool'', lit ''domain'', lit ''exportkeytab'', keytab, lit ''--principal='' @ princ]"

definition kinit_argv :: "str \<Rightarrow> str \<Rightarrow> nat \<Rightarrow> nat \<Rightarrow> str \<Rightarrow> str list" where
  "kinit_argv program keytab lifetime renewable princ =
     [program, lit ''-k'', lit ''-t'', keytab, lit ''-l'', show_dec lifetime @ lit ''s'',
      lit ''-r'', show_dec renewable @ lit ''s'', lit ''--'', princ]"

definition clamp_to :: "nat option \<Rightarrow> nat \<Rightarrow> nat" where
  "clamp_to asked most = min (case asked of None \<Rightarrow> most | Some n \<Rightarrow> n) most"

text \<open>The part of \<open>issue\<close> that runs while the work directory exists.\<close>

definition issue_in_workdir ::
  "'w host \<Rightarrow> issuerd_config \<Rightarrow> issue_request \<Rightarrow> str \<Rightarrow> nat \<Rightarrow> nat \<Rightarrow> str \<Rightarrow> ('w, ticket) io" where
  "issue_in_workdir h cfg req princ lifetime renewable work =
     (let keytab = path_join work (lit ''kt''); cache = path_join work (lit ''cc'') in
      io_bind (run h cfg (export_argv keytab princ) []) (\<lambda>_.
      io_bind (run h cfg (kinit_argv (kinit_program h) keytab lifetime renewable princ)
                 [(lit ''KRB5CCNAME'', lit ''FILE:'' @ cache)]) (\<lambda>_.
      io_bind (read_bounded h cache) (\<lambda>bytes.
      io_bind (io_of (validate_cache cfg bytes princ)) (\<lambda>tgt.
        io_ok \<lparr>tk_request_id = ir_request_id req, tk_principal = princ,
               tk_ticket_format = TICKET_FORMAT, tk_ccache_b64 = h_b64e h bytes,
               tk_starts_at = rfc3339 (unat (cr_starts_at tgt)),
               tk_expires_at = rfc3339 (unat (cr_expires_at tgt)),
               tk_renew_until = rfc3339 (unat (cr_renew_until tgt))\<rparr>)))))"

definition issue :: "'w host \<Rightarrow> issuerd_config \<Rightarrow> issue_request \<Rightarrow> ('w, ticket) io" where
  "issue h cfg req =
     io_bind (io_of (validated_sid (ir_account_sid req))) (\<lambda>sid.
     io_bind (lookup_account h cfg sid) (\<lambda>account.
     with_workdir h cfg
       (issue_in_workdir h cfg req (ac_sam_account_name account @ lit ''@'' @ ic_realm cfg)
          (clamp_to (ir_lifetime_seconds req) (ic_max_lifetime cfg))
          (clamp_to (ir_renewable_lifetime_seconds req) (ic_max_renewable cfg)))))"

section \<open>Device grants\<close>

record grant_target =
  gt_account :: account
  gt_grants :: "(str \<times> device_grant) list"
  gt_stored :: nat

definition stored_grants :: "str list \<Rightarrow> (str \<times> device_grant) list" where
  "stored_grants markers =
     List.map_filter (\<lambda>m. map_option (\<lambda>g. (m, g)) (ok (grant_decode m)))
       (filter (\<lambda>m. starts_with m GRANT_PREFIX) markers)"

definition target_of :: "'w host \<Rightarrow> issuerd_config \<Rightarrow> account \<Rightarrow> issue_error + grant_target" where
  "target_of h cfg account =
     (if \<not> dn_is_at_or_within (h_unicode h) (ac_dn account) (ic_cloud_idp_ou cfg) then Inl not_eligible
      else if list_ex (\<lambda>m. starts_with m ST_RETIRED) (ac_markers account) then Inl not_eligible
      else Inr \<lparr>gt_account = account, gt_grants = stored_grants (ac_markers account),
                gt_stored = length (filter (\<lambda>m. starts_with m GRANT_PREFIX) (ac_markers account))\<rparr>)"

definition grant_target_of :: "'w host \<Rightarrow> issuerd_config \<Rightarrow> str \<Rightarrow> ('w, grant_target) io" where
  "grant_target_of h cfg sid =
     io_bind (io_of (validated_sid sid)) (\<lambda>sid.
     io_bind (lookup_account h cfg sid) (\<lambda>account. io_of (target_of h cfg account)))"

definition raw_with :: "str \<Rightarrow> (str \<times> device_grant) list \<Rightarrow> str list" where
  "raw_with thumbprint grants = map fst (filter (\<lambda>(_, g). g_thumbprint g = thumbprint) grants)"

definition modify_argv :: "issuerd_config \<Rightarrow> str \<Rightarrow> str list" where
  "modify_argv cfg path = [lit ''ldbmodify'', lit ''-H'', ic_sam_db cfg, path]"

definition write_file :: "'w host \<Rightarrow> str \<Rightarrow> str \<Rightarrow> ('w, unit) io" where
  "write_file h path text s =
     (let (done, w) = h_write h path text (ps_world s)
      in (if done then Inr () else Inl issuer_failed, s\<lparr>ps_world := w\<rparr>))"

definition modify_grants :: "'w host \<Rightarrow> issuerd_config \<Rightarrow> str \<Rightarrow> str list \<Rightarrow> str list \<Rightarrow> ('w, unit) io" where
  "modify_grants h cfg dn delete add =
     (if delete = [] \<and> add = [] then io_ok ()
      else with_workdir h cfg (\<lambda>work.
        let path = path_join work (lit ''mod.ldif'') in
        io_bind (write_file h path (ldif (h_b64e h) dn delete add)) (\<lambda>_.
        io_bind (run h cfg (modify_argv cfg path) []) (\<lambda>_. io_ok ()))))"

definition grant_device :: "'w host \<Rightarrow> issuerd_config \<Rightarrow> grant_device_request \<Rightarrow> ('w, unit) io" where
  "grant_device h cfg req s =
     (case algorithm (gd_alg req) of
        None \<Rightarrow> (Inl bad_request, s)
      | Some alg \<Rightarrow>
          if \<not> is_thumbprint (gd_thumbprint req) then (Inl bad_request, s)
          else let start = h_now h (ps_world s) in
          if gd_expires_at req \<le> start then (Inl bad_request, s)
          else
            io_bind (grant_target_of h cfg (gd_account_sid req)) (\<lambda>t.
            let replacing = raw_with (gd_thumbprint req) (gt_grants t) in
            if replacing = [] \<and> gt_stored t \<ge> ic_max_grants cfg then io_err cap_reached
            else modify_grants h cfg (ac_dn (gt_account t)) replacing
                   [grant_encode \<lparr>g_label = sanitize_label (gd_label req), g_alg = alg,
                      g_thumbprint = gd_thumbprint req, g_start = start, g_end = gd_expires_at req,
                      g_seen = None\<rparr>]) s)"

definition revoke_grant :: "'w host \<Rightarrow> issuerd_config \<Rightarrow> revoke_grant_request \<Rightarrow> ('w, unit) io" where
  "revoke_grant h cfg req =
     io_bind (grant_target_of h cfg (rg_account_sid req)) (\<lambda>t.
     let victims = raw_with (rg_thumbprint req) (gt_grants t) in
     if victims = [] then io_ok () else modify_grants h cfg (ac_dn (gt_account t)) victims [])"

definition touch_grant :: "'w host \<Rightarrow> issuerd_config \<Rightarrow> touch_grant_request \<Rightarrow> ('w, unit) io" where
  "touch_grant h cfg req =
     io_bind (grant_target_of h cfg (tg_account_sid req)) (\<lambda>t.
     case find (\<lambda>(_, g). g_thumbprint g = tg_thumbprint req) (gt_grants t) of
       None \<Rightarrow> io_ok ()
     | Some (raw, g) \<Rightarrow>
         if \<not> needs_touch (g_seen g) (tg_seen req) then io_ok ()
         else modify_grants h cfg (ac_dn (gt_account t)) [raw]
                [grant_encode (g\<lparr>g_seen := Some (tg_seen req)\<rparr>)])"

section \<open>Recording a host\<close>

datatype event =
    Ev_exec "str list" "(str \<times> str) list"
  | Ev_mkdir str bool
  | Ev_write str str
  | Ev_remove str

definition observed :: "'w host \<Rightarrow> ('w \<times> event list) host" where
  "observed h =
     \<lparr>h_exec = (\<lambda>argv env (w, l). let (p, w') = h_exec h argv env w in (p, (w', l @ [Ev_exec argv env]))),
      h_mkdir = (\<lambda>d (w, l). let (b, w') = h_mkdir h d w in (b, (w', l @ [Ev_mkdir d b]))),
      h_read = (\<lambda>p (w, l). h_read h p w),
      h_write = (\<lambda>p t (w, l). let (b, w') = h_write h p t w in (b, (w', l @ [Ev_write p t]))),
      h_remove = (\<lambda>p (w, l). (h_remove h p w, l @ [Ev_remove p])),
      h_now = (\<lambda>(w, l). h_now h w),
      h_metadata = h_metadata h, h_pid = h_pid h, h_unicode = h_unicode h,
      h_b64e = h_b64e h, h_b64d = h_b64d h\<rparr>"

definition event_log :: "('w \<times> event list) pstate \<Rightarrow> event list" where
  "event_log s = snd (ps_world s)"

lemma observed_simps [simp]:
  "h_metadata (observed h) = h_metadata h" "h_pid (observed h) = h_pid h"
  "h_unicode (observed h) = h_unicode h" "h_b64e (observed h) = h_b64e h" "h_b64d (observed h) = h_b64d h"
  "workdir_name (observed h) = workdir_name h" "kinit_program (observed h) = kinit_program h"
  "target_of (observed h) = target_of h"
  by (simp_all add: observed_def workdir_name_def kinit_program_def program_in_path_def target_of_def fun_eq_iff)

lemma observed_effects:
  "h_exec (observed h) argv env (w, l) = (let (p, w') = h_exec h argv env w in (p, (w', l @ [Ev_exec argv env])))"
  "h_mkdir (observed h) d (w, l) = (let (b, w') = h_mkdir h d w in (b, (w', l @ [Ev_mkdir d b])))"
  "h_write (observed h) q t (w, l) = (let (b, w') = h_write h q t w in (b, (w', l @ [Ev_write q t])))"
  "h_remove (observed h) q (w, l) = (h_remove h q w, l @ [Ev_remove q])"
  by (simp_all add: observed_def)

definition run_event :: "issuerd_config \<Rightarrow> str list \<Rightarrow> (str \<times> str) list \<Rightarrow> event" where
  "run_event cfg argv env =
     Ev_exec (lit ''timeout'' # show_dec (ic_cmd_timeout cfg) # argv) ((lit ''PATH'', SUBPROCESS_PATH) # env)"

lemma event_log_run: "event_log (snd (run (observed h) cfg argv env s)) = event_log s @ [run_event cfg argv env]"
  and seq_run: "ps_seq (snd (run h' cfg argv env s')) = ps_seq s'"
  by (simp_all add: run_def observed_def event_log_def run_event_def Let_def split: prod.splits)

lemma event_log_read: "snd (read_bounded h p s) = s"
  by (simp add: read_bounded_def)

lemma event_log_write: "event_log (snd (write_file (observed h) p t s)) = event_log s @ [Ev_write p t]"
  by (simp add: write_file_def observed_def event_log_def Let_def split: prod.splits)

lemma snd_io_bind:
  "snd (io_bind m k s) = (case fst (m s) of Inl e \<Rightarrow> snd (m s) | Inr x \<Rightarrow> snd (k x (snd (m s))))"
  by (simp add: io_bind_def split: prod.splits sum.splits)

text \<open>A directory that was made is removed again, and nothing follows its removal.\<close>

lemma with_workdir_events:
  assumes "\<And>s1. \<exists>evs. event_log (snd (body (workdir_name h cfg (ps_seq s)) s1)) = event_log s1 @ evs \<and> P evs"
  shows "event_log (snd (with_workdir (observed h) cfg body s))
      = event_log s @ [Ev_mkdir (workdir_name h cfg (ps_seq s)) False]
    \<or> (\<exists>evs. P evs \<and> event_log (snd (with_workdir (observed h) cfg body s))
      = event_log s @ [Ev_mkdir (workdir_name h cfg (ps_seq s)) True] @ evs
          @ [Ev_remove (workdir_name h cfg (ps_seq s))])"
proof -
  let ?d = "workdir_name h cfg (ps_seq s)"
  obtain w l where w: "ps_world s = (w, l)" by (cases "ps_world s")
  obtain b w' where m: "h_mkdir h ?d w = (b, w')" by (cases "h_mkdir h ?d w")
  let ?s = "s\<lparr>ps_seq := (ps_seq s + 1) mod 2 ^ 64, ps_world := (w', l @ [Ev_mkdir ?d b])\<rparr>"
  obtain r s2 where b: "body ?d ?s = (r, s2)" by (cases "body ?d ?s")
  obtain w2 l2 where w2: "ps_world s2 = (w2, l2)" by (cases "ps_world s2")
  obtain evs where "event_log (snd (body ?d ?s)) = event_log ?s @ evs" "P evs" using assms by blast
  with b w2 have "l2 = l @ [Ev_mkdir ?d b] @ evs" "P evs" by (simp_all add: event_log_def)
  then show ?thesis
    using w m b w2 by (cases b) (auto simp: with_workdir_def event_log_def Let_def observed_effects)
qed

lemma with_workdir_Inr [io_results]:
  "with_workdir h cfg body s = (Inr x, s') \<longleftrightarrow>
     (\<exists>w s2. h_mkdir h (workdir_name h cfg (ps_seq s)) (ps_world s) = (True, w)
        \<and> body (workdir_name h cfg (ps_seq s)) (s\<lparr>ps_seq := (ps_seq s + 1) mod 2 ^ 64, ps_world := w\<rparr>) = (Inr x, s2)
        \<and> s' = s2\<lparr>ps_world := h_remove h (workdir_name h cfg (ps_seq s)) (ps_world s2)\<rparr>)"
  by (auto simp: with_workdir_def Let_def split: prod.splits)

section \<open>What an accepted account and cache satisfy\<close>

definition eligible_entry :: "unicode \<Rightarrow> ldif_entry \<Rightarrow> account \<Rightarrow> bool" where
  "eligible_entry u e a \<longleftrightarrow>
     entry_first e (lit ''dn'') = Some (ac_dn a)
     \<and> entry_first e (lit ''sAMAccountName'') = Some (ac_sam_account_name a)
     \<and> ac_markers a = values_or_empty e (lit ''extensionName'')
     \<and> validate u (ac_sam_account_name a) = Inr ()
     \<and> lit ''user'' \<in> set (map (map to_ascii_lowercase) (values_or_empty e (lit ''objectClass'')))
     \<and> set (map (map to_ascii_lowercase) (values_or_empty e (lit ''objectClass''))) \<subseteq> set ELIGIBLE_CLASSES
     \<and> (\<exists>t n i x. entry_first e (lit ''userAccountControl'') = Some t \<and> parse_unsigned u32_max t = Some n
          \<and> (of_nat n :: 32 word) AND (UAC_ACCOUNTDISABLE OR UAC_MACHINE) = 0
          \<and> entry_first e (lit ''msDS-ExternalDirectoryObjectId'') = Some i \<and> decode i = Inr x)"

lemma eq_ignore_user: "eq_ignore_ascii_case c (lit ''user'') \<longleftrightarrow> lit ''user'' = map to_ascii_lowercase c"
proof -
  have "map to_ascii_lowercase (lit ''user'') = lit ''user''" by (simp add: kb_lits to_ascii_lowercase_def)
  then show ?thesis by (auto simp: eq_ignore_ascii_case_def)
qed

lemma and_or_zero: "(a :: 32 word) AND b = 0 \<Longrightarrow> a AND c = 0 \<Longrightarrow> a AND (b OR c) = 0"
  by (simp add: bit.conj_disj_distrib)

lemma account_of_eligible:
  assumes "account_of u es = Inr a"
  shows "\<exists>e. es = [e] \<and> eligible_entry u e a"
proof -
  from assms obtain e where e: "es = [e]"
    by (cases es) (auto simp: account_of_def kb_results)
  from assms [unfolded e account_of_def] show ?thesis
    unfolding e eligible_entry_def
    by (auto simp: kb_results Let_def validated_sam_def eq_ignore_user list_ex_iff find_None_iff and_or_zero
        bind_eq_Some_conv image_iff)
qed

lemma lookup_account_eligible:
  assumes "lookup_account h cfg sid s = (Inr a, s')"
  shows "\<exists>out e. run h cfg (search_argv cfg sid) [] s = (Inr out, s')
    \<and> ldif_entries (h_b64d h) out = [e] \<and> eligible_entry (h_unicode h) e a"
  using assms account_of_eligible by (fastforce simp: lookup_account_def io_results)

lemma validate_cache_Inr:
  assumes "validate_cache cfg bytes p = Inr tgt"
  shows "\<exists>cs. credentials bytes = Inr cs \<and> filter (\<lambda>c. is_tgt c (ic_realm cfg)) cs = [tgt]
    \<and> principal_display (cr_client tgt) = p \<and> check_flags tgt = Inr ()"
proof -
  from assms obtain cs where "credentials bytes = Inr cs" by (auto simp: validate_cache_def kb_results)
  with assms show ?thesis
    by (cases "filter (\<lambda>c. is_tgt c (ic_realm cfg)) cs")
      (auto simp: validate_cache_def kb_results split: if_splits)
qed

lemma check_flags_Inr:
  "check_flags tgt = Inr () \<longleftrightarrow> cr_flags tgt AND TKT_FLG_INITIAL \<noteq> 0 \<and> cr_flags tgt AND TKT_FLG_INVALID = 0
     \<and> cr_flags tgt AND TKT_FLG_RENEWABLE \<noteq> 0 \<and> cr_expires_at tgt \<le> cr_renew_until tgt"
  by (auto simp: check_flags_def)

lemma validated_sid_Inr: "validated_sid t = Inr sid \<Longrightarrow> sid = t"
  by (auto simp: validated_sid_def split: option.splits if_splits)

lemma clamp_to_le: "clamp_to a m \<le> m"
  by (simp add: clamp_to_def)

section \<open>The traces of an issuance\<close>

definition issue_traces ::
  "'w host \<Rightarrow> issuerd_config \<Rightarrow> str \<Rightarrow> str \<Rightarrow> str \<Rightarrow> nat \<Rightarrow> nat \<Rightarrow> event list set" where
  "issue_traces h cfg sid dir princ lifetime renewable =
     (let search = run_event cfg (search_argv cfg sid) [];
          keytab = path_join dir (lit ''kt'');
          export = run_event cfg (export_argv keytab princ) [];
          kinit = run_event cfg (kinit_argv (kinit_program h) keytab lifetime renewable princ)
                    [(lit ''KRB5CCNAME'', lit ''FILE:'' @ path_join dir (lit ''cc''))]
      in {[], [search], [search, Ev_mkdir dir False],
          [search, Ev_mkdir dir True, export, Ev_remove dir],
          [search, Ev_mkdir dir True, export, kinit, Ev_remove dir]})"

lemma lookup_account_events:
  "event_log (snd (lookup_account (observed h) cfg sid s)) = event_log s @ [run_event cfg (search_argv cfg sid) []]"
  and lookup_account_seq: "ps_seq (snd (lookup_account h' cfg sid s')) = ps_seq s'"
  by (simp_all add: lookup_account_def snd_io_bind event_log_run seq_run split: sum.splits)

lemma issue_in_workdir_events:
  "\<exists>evs. event_log (snd (issue_in_workdir (observed h) cfg req p l r dir t)) = event_log t @ evs
    \<and> evs \<in> {[run_event cfg (export_argv (path_join dir (lit ''kt'')) p) []],
              [run_event cfg (export_argv (path_join dir (lit ''kt'')) p) [],
               run_event cfg (kinit_argv (kinit_program h) (path_join dir (lit ''kt'')) l r p)
                 [(lit ''KRB5CCNAME'', lit ''FILE:'' @ path_join dir (lit ''cc''))]]}"
  by (simp add: issue_in_workdir_def Let_def snd_io_bind event_log_run event_log_read split: sum.splits)

lemma issue_events:
  "\<exists>evs princ. event_log (snd (issue (observed h) cfg req s)) = event_log s @ evs
    \<and> evs \<in> issue_traces h cfg (ir_account_sid req) (workdir_name h cfg (ps_seq s)) princ
        (clamp_to (ir_lifetime_seconds req) (ic_max_lifetime cfg))
        (clamp_to (ir_renewable_lifetime_seconds req) (ic_max_renewable cfg))"
proof (cases "validated_sid (ir_account_sid req)")
  case (Inl e)
  then show ?thesis by (auto simp: issue_def io_bind_def issue_traces_def Let_def)
next
  case sid: (Inr sid)
  obtain r s1 where l: "lookup_account (observed h) cfg sid s = (r, s1)"
    by (cases "lookup_account (observed h) cfg sid s")
  with lookup_account_events [of h cfg sid s] lookup_account_seq [of "observed h" cfg sid s]
  have log: "event_log s1 = event_log s @ [run_event cfg (search_argv cfg sid) []]" and seq: "ps_seq s1 = ps_seq s"
    by simp_all
  note defs = issue_def io_bind_def [of "io_of _"] io_bind_def [of "lookup_account _ _ _"] issue_traces_def Let_def
  show ?thesis
  proof (cases r)
    case (Inl e)
    with l log sid validated_sid_Inr [OF sid] show ?thesis by (auto simp: defs)
  next
    case (Inr a)
    from with_workdir_events [where h = h and cfg = cfg and s = s1 and P = "\<lambda>evs. evs \<in> _", OF issue_in_workdir_events]
    show ?thesis using l log seq sid validated_sid_Inr [OF sid] Inr
      by (fastforce simp: defs intro!: exI [of _ "ac_sam_account_name a @ lit ''@'' @ ic_realm cfg"])
  qed
qed

lemma issue_Inr:
  assumes "issue h cfg req s = (Inr t, s')"
  shows "\<exists>a s1 bytes cs tgt. lookup_account h cfg (ir_account_sid req) s = (Inr a, s1)
    \<and> tk_principal t = ac_sam_account_name a @ lit ''@'' @ ic_realm cfg
    \<and> tk_ccache_b64 t = h_b64e h bytes \<and> length bytes \<le> MAX_CCACHE
    \<and> credentials bytes = Inr cs \<and> filter (\<lambda>c. is_tgt c (ic_realm cfg)) cs = [tgt]
    \<and> principal_display (cr_client tgt) = tk_principal t \<and> check_flags tgt = Inr ()
    \<and> tk_starts_at t = rfc3339 (unat (cr_starts_at tgt)) \<and> tk_expires_at t = rfc3339 (unat (cr_expires_at tgt))
    \<and> tk_renew_until t = rfc3339 (unat (cr_renew_until tgt)) \<and> tk_request_id t = ir_request_id req"
proof -
  from assms obtain sid a s1 d w s2 where 1: "validated_sid (ir_account_sid req) = Inr sid"
    "lookup_account h cfg sid s = (Inr a, s1)"
    "issue_in_workdir h cfg req (ac_sam_account_name a @ lit ''@'' @ ic_realm cfg)
       (clamp_to (ir_lifetime_seconds req) (ic_max_lifetime cfg))
       (clamp_to (ir_renewable_lifetime_seconds req) (ic_max_renewable cfg)) d w = (Inr t, s2)"
    by (auto simp: issue_def io_results)
  from 1(3) obtain bytes tgt s3 s4 where 2: "read_bounded h (path_join d (lit ''cc'')) s3 = (Inr bytes, s4)"
    "validate_cache cfg bytes (ac_sam_account_name a @ lit ''@'' @ ic_realm cfg) = Inr tgt"
    "t = \<lparr>tk_request_id = ir_request_id req, tk_principal = ac_sam_account_name a @ lit ''@'' @ ic_realm cfg,
               tk_ticket_format = TICKET_FORMAT, tk_ccache_b64 = h_b64e h bytes,
               tk_starts_at = rfc3339 (unat (cr_starts_at tgt)),
               tk_expires_at = rfc3339 (unat (cr_expires_at tgt)),
               tk_renew_until = rfc3339 (unat (cr_renew_until tgt))\<rparr>"
    by (auto simp: issue_in_workdir_def Let_def io_results)
  from 2(1) have "length bytes \<le> MAX_CCACHE" by (auto simp: read_bounded_def kb_results split: if_splits)
  with 1 2 validate_cache_Inr [OF 2(2)] validated_sid_Inr [OF 1(1)] show ?thesis by auto
qed

section \<open>The effect of the grant verbs\<close>

text \<open>What a directory that applies a change record makes of the values of \<open>extensionName\<close>.\<close>

fun apply_mods :: "(str \<times> str \<times> str list) list \<Rightarrow> str list \<Rightarrow> str list" where
  "apply_mods [] ms = ms"
| "apply_mods ((verb, attr, vs) # mods) ms =
     apply_mods mods
       (if attr \<noteq> extension_name then ms
        else if verb = lit ''delete'' then filter (\<lambda>m. m \<notin> set vs) ms else ms @ vs)"

definition grants_held :: "str list \<Rightarrow> device_grant list" where
  "grants_held ms = map snd (stored_grants ms)"

definition grants_stored :: "str list \<Rightarrow> nat" where
  "grants_stored ms = length (filter (\<lambda>m. starts_with m GRANT_PREFIX) ms)"

lemma apply_change_mods: "apply_mods (change_mods delete add) ms = filter (\<lambda>m. m \<notin> set delete) ms @ add"
  by (simp add: change_mods_def kb_lits)

lemma stored_grants_simps [simp]:
  "stored_grants [] = []"
  "stored_grants (m # ms) = (if starts_with m GRANT_PREFIX
     then case grant_decode m of Inl e \<Rightarrow> stored_grants ms | Inr g \<Rightarrow> (m, g) # stored_grants ms else stored_grants ms)"
  "stored_grants (ms @ ns) = stored_grants ms @ stored_grants ns"
  by (simp_all add: stored_grants_def List.map_filter_def split: sum.splits)

lemma stored_grants_set: "(m, g) \<in> set (stored_grants ms) \<longleftrightarrow> m \<in> set ms \<and> starts_with m GRANT_PREFIX \<and> grant_decode m = Inr g"
  by (induction ms) (auto split: sum.splits)

lemma stored_grants_filter: "stored_grants (filter P ms) = filter (\<lambda>(m, g). P m) (stored_grants ms)"
  by (induction ms) (auto split: sum.splits)

lemma raw_with_set:
  "m \<in> set (raw_with tp (stored_grants ms)) \<longleftrightarrow>
     m \<in> set ms \<and> starts_with m GRANT_PREFIX \<and> (\<exists>g. grant_decode m = Inr g \<and> g_thumbprint g = tp)"
  by (force simp: raw_with_def stored_grants_set image_iff)

lemma map_snd_filter: "map snd (filter (\<lambda>(a, b). P b) xs) = filter P (map snd xs)"
  by (induction xs) auto

lemma grants_held_removed:
  "grants_held (filter (\<lambda>m. m \<notin> set (raw_with tp (stored_grants ms))) ms)
     = filter (\<lambda>g. g_thumbprint g \<noteq> tp) (grants_held ms)"
proof -
  have "filter (\<lambda>(m, g). m \<notin> set (raw_with tp (stored_grants ms))) (stored_grants ms)
      = filter (\<lambda>(m, g). g_thumbprint g \<noteq> tp) (stored_grants ms)"
    by (rule filter_cong) (auto simp: stored_grants_set raw_with_set)
  then show ?thesis by (simp add: grants_held_def stored_grants_filter map_snd_filter)
qed

lemma grants_stored_removed:
  assumes "ds \<noteq> []" "set ds \<subseteq> set (filter (\<lambda>m. starts_with m GRANT_PREFIX) ms)"
  shows "grants_stored (filter (\<lambda>m. m \<notin> set ds) ms) < grants_stored ms"
proof -
  obtain d where d: "d \<in> set ds" using assms(1) by (cases ds) auto
  have "length (filter (\<lambda>m. m \<notin> set ds) (filter (\<lambda>m. starts_with m GRANT_PREFIX) ms))
      < length (filter (\<lambda>m. starts_with m GRANT_PREFIX) ms)"
    using d assms(2) by (intro length_filter_less [of d]) auto
  then show ?thesis by (simp add: grants_stored_def filter_filter conj_commute)
qed

lemma starts_with_encode: "starts_with (grant_encode g) GRANT_PREFIX"
  by (simp add: grant_encode_def)

lemma grants_held_encode: "wf_grant g \<Longrightarrow> grants_held [grant_encode g] = [g]"
  by (simp add: grants_held_def starts_with_encode grant_decode_encode)

lemma grants_stored_append: "grants_stored (ms @ ns) = grants_stored ms + grants_stored ns"
  by (simp add: grants_stored_def)

lemma modify_grants_events:
  assumes "modify_grants (observed h) cfg dn delete add s = (Inr (), s')" "\<not> (delete = [] \<and> add = [])"
  shows "\<exists>d. event_log s' = event_log s @ [Ev_mkdir d True, Ev_write (path_join d (lit ''mod.ldif'')) (ldif (h_b64e h) dn delete add),
      run_event cfg (modify_argv cfg (path_join d (lit ''mod.ldif''))) [], Ev_remove d]"
proof -
  let ?d = "workdir_name h cfg (ps_seq s)"
  let ?p = "path_join ?d (lit ''mod.ldif'')"
  obtain w l where w: "ps_world s = (w, l)" by (cases "ps_world s")
  from assms obtain w1 s1 s2 out s3 where 1:
    "h_mkdir (observed h) ?d (w, l) = (True, w1)"
    "write_file (observed h) ?p (ldif (h_b64e h) dn delete add) (s\<lparr>ps_seq := (ps_seq s + 1) mod 2 ^ 64, ps_world := w1\<rparr>) = (Inr (), s1)"
    "run (observed h) cfg (modify_argv cfg ?p) [] s1 = (Inr out, s2)"
    "s' = s2\<lparr>ps_world := h_remove (observed h) ?d (ps_world s2)\<rparr>"
    by (auto simp: modify_grants_def io_results Let_def w split: if_splits)
  have "snd w1 = l @ [Ev_mkdir ?d True]" using 1(1) by (auto simp: observed_effects Let_def split: prod.splits)
  moreover have "event_log s1 = snd w1 @ [Ev_write ?p (ldif (h_b64e h) dn delete add)]"
    using event_log_write [of h ?p "ldif (h_b64e h) dn delete add" "s\<lparr>ps_seq := (ps_seq s + 1) mod 2 ^ 64, ps_world := w1\<rparr>"] 1(2)
    by (simp add: event_log_def)
  moreover have "event_log s2 = event_log s1 @ [run_event cfg (modify_argv cfg ?p) []]"
    using event_log_run [of h cfg "modify_argv cfg ?p" "[]" s1] 1(3) by simp
  moreover have "event_log s' = event_log s2 @ [Ev_remove ?d]"
    using 1(4) by (cases "ps_world s2") (simp add: event_log_def observed_effects)
  ultimately show ?thesis using w by (auto simp: event_log_def)
qed

subsection \<open>Everything stored and written is a string\<close>

lemma lit_scalars [simp]: "scalars (lit s)"
  using lit_lt_256 [of _ s] by (force simp: list_all_iff is_scalar_def)

lemma show_dec_scalars [simp]: "scalars (show_dec n)"
  using show_dec_char [of _ n] by (force simp: list_all_iff is_scalar_def is_ascii_digit_def)

lemma escape_field_scalars: "scalars s \<Longrightarrow> scalars (escape_field s)"
  by (induction s) auto

lemma run_scalars: "run h cfg argv env s = (Inr out, s') \<Longrightarrow> scalars out"
  by (auto simp: run_def run_result_def Let_def kb_results from_utf8_scalars
      split: prod.splits proc.splits if_splits)

lemma entry_first_values: "entry_first e k = Some v \<Longrightarrow> \<exists>vs. e k = Some vs \<and> v \<in> set vs"
  by (auto simp: entry_first_def split: option.splits list.splits)

lemma lookup_account_scalars:
  assumes "lookup_account h cfg sid s = (Inr a, s')"
  shows "scalars (ac_dn a)" "list_all scalars (ac_markers a)"
proof -
  obtain out e where o: "run h cfg (search_argv cfg sid) [] s = (Inr out, s')"
    "ldif_entries (h_b64d h) out = [e]" "eligible_entry (h_unicode h) e a"
    using lookup_account_eligible [OF assms] by blast
  have v: "list_all scalars vs" if "e k = Some vs" for k vs
    using ldif_entries_scalars [OF run_scalars [OF o(1)], of e "h_b64d h" k vs] o(2) that by simp
  from o(3) show "scalars (ac_dn a)"
    using v entry_first_values unfolding eligible_entry_def list_all_iff by metis
  from o(3) show "list_all scalars (ac_markers a)"
    using v by (auto simp: eligible_entry_def values_or_empty_def split: option.splits)
qed

lemma grant_target_Inr:
  assumes "grant_target_of h cfg sid s = (Inr t, s1)"
  shows "lookup_account h cfg sid s = (Inr (gt_account t), s1)"
    "gt_grants t = stored_grants (ac_markers (gt_account t))"
    "gt_stored t = grants_stored (ac_markers (gt_account t))"
    "dn_is_at_or_within (h_unicode h) (ac_dn (gt_account t)) (ic_cloud_idp_ou cfg)"
    "\<not> list_ex (\<lambda>m. starts_with m ST_RETIRED) (ac_markers (gt_account t))"
proof -
  from assms obtain sid' a where a: "validated_sid sid = Inr sid'" "lookup_account h cfg sid' s = (Inr a, s1)"
    "target_of h cfg a = Inr t" by (auto simp: grant_target_of_def io_results)
  note sid = validated_sid_Inr [OF a(1)]
  have t: "t = \<lparr>gt_account = a, gt_grants = stored_grants (ac_markers a), gt_stored = grants_stored (ac_markers a)\<rparr>"
    "dn_is_at_or_within (h_unicode h) (ac_dn a) (ic_cloud_idp_ou cfg)"
    "\<not> list_ex (\<lambda>m. starts_with m ST_RETIRED) (ac_markers a)"
    using a(3) by (auto simp: target_of_def grants_stored_def split: if_splits)
  show "lookup_account h cfg sid s = (Inr (gt_account t), s1)"
    "gt_grants t = stored_grants (ac_markers (gt_account t))"
    "gt_stored t = grants_stored (ac_markers (gt_account t))"
    "dn_is_at_or_within (h_unicode h) (ac_dn (gt_account t)) (ic_cloud_idp_ou cfg)"
    "\<not> list_ex (\<lambda>m. starts_with m ST_RETIRED) (ac_markers (gt_account t))"
    using a(2) sid t by simp_all
qed

lemma grant_encode_scalars:
  assumes "scalars (g_label g)" "wf_grant g"
  shows "scalars (grant_encode g)"
proof -
  have "scalars (g_thumbprint g)" using assms(2) thumbprint_chars [of "g_thumbprint g"]
    by (simp add: wf_grant_def scalars_ascii)
  moreover have "g_alg g = ALG_ES256" using assms(2) by (simp add: wf_grant_def)
  ultimately show ?thesis using assms(1)
    by (simp add: grant_encode_def escape_field_scalars GRANT_PREFIX_def ALG_ES256_def split: option.splits)
qed

text \<open>A write that succeeded handed exactly one record to the directory, and the record says what was asked.\<close>

definition records_written :: "event list \<Rightarrow> str list" where
  "records_written evs = List.map_filter (\<lambda>e. case e of Ev_write _ t \<Rightarrow> Some t | _ \<Rightarrow> None) evs"

lemma modify_grants_record:
  assumes "modify_grants (observed h) cfg dn delete add s = (Inr (), s')" "\<not> (delete = [] \<and> add = [])"
    "base64_engine (h_b64e h) (h_b64d h)" "scalars dn" "list_all scalars delete" "list_all scalars add"
  shows "\<exists>evs text. event_log s' = event_log s @ evs \<and> records_written evs = [text]
    \<and> read_change (h_b64d h) text = Some (dn, change_mods delete add)"
  using modify_grants_events [OF assms(1,2)] base64_engine.read_change_ldif [OF assms(3-6)]
  by (auto simp: records_written_def List.map_filter_def run_event_def)

end
