(* ===== verification/KB_IssuerdSound.thy ===== *)
theory KB_IssuerdSound
  imports KB_Issuerd
begin

text \<open>
  What the issuer guarantees, whatever the host does: the ticket it returns, the commands it
  runs and the directory it leaves behind, and the effect of each grant verb on the grants an
  account holds. A sample host, on which a request of each kind succeeds, carries the
  witnesses.
\<close>

section \<open>The grant verbs refine a table of grants\<close>

text \<open>
  The specification: an account holds a list of grants. Granting replaces the grants of the
  key by a fresh one, revoking removes them, touching restamps one.
\<close>

definition spec_grant :: "device_grant \<Rightarrow> device_grant list \<Rightarrow> device_grant list" where
  "spec_grant g gs = filter (\<lambda>h. g_thumbprint h \<noteq> g_thumbprint g) gs @ [g]"

definition spec_revoke :: "str \<Rightarrow> device_grant list \<Rightarrow> device_grant list" where
  "spec_revoke tp gs = filter (\<lambda>h. g_thumbprint h \<noteq> tp) gs"

definition new_grant :: "grant_device_request \<Rightarrow> nat \<Rightarrow> device_grant" where
  "new_grant req now =
     \<lparr>g_label = sanitize_label (gd_label req), g_alg = ALG_ES256, g_thumbprint = gd_thumbprint req,
      g_start = now, g_end = gd_expires_at req, g_seen = None\<rparr>"

lemma new_grant_thumbprint: "g_thumbprint (new_grant req now) = gd_thumbprint req"
  by (simp add: new_grant_def)

lemma grant_device_Inr:
  assumes "grant_device h cfg req s = (Inr (), s')"
  shows "\<exists>t s1. grant_target_of h cfg (gd_account_sid req) s = (Inr t, s1)
    \<and> gd_alg req = ALG_ES256 \<and> is_thumbprint (gd_thumbprint req) \<and> h_now h (ps_world s) < gd_expires_at req
    \<and> (raw_with (gd_thumbprint req) (gt_grants t) = [] \<longrightarrow> gt_stored t < ic_max_grants cfg)
    \<and> modify_grants h cfg (ac_dn (gt_account t)) (raw_with (gd_thumbprint req) (gt_grants t))
        [grant_encode (new_grant req (h_now h (ps_world s)))] s1 = (Inr (), s')"
  using assms
  by (auto simp: grant_device_def io_results Let_def new_grant_def split: option.splits if_splits
      dest!: algorithm_Some)

lemma sanitize_label_subset: "set (sanitize_label raw) \<subseteq> set raw"
proof -
  have "set (sanitize_label_loop out n raw) \<subseteq> set out \<union> set raw" for out n
    by (induction out n raw rule: sanitize_label_loop.induct) (auto simp: Let_def)
  from this [of "[]" 0] show ?thesis by (simp add: sanitize_label_def)
qed

lemma new_grant_wf:
  "is_thumbprint (gd_thumbprint req) \<Longrightarrow> now < gd_expires_at req \<Longrightarrow> gd_expires_at req \<le> u64_max
    \<Longrightarrow> wf_grant (new_grant req now)"
  by (simp add: wf_grant_def new_grant_def sanitize_label_props)

lemma raw_with_scalars: "list_all scalars ms \<Longrightarrow> list_all scalars (raw_with tp (stored_grants ms))"
  using raw_with_set [of _ tp ms] unfolding list_all_iff by blast

lemma grants_held_append: "grants_held (ms @ ns) = grants_held ms @ grants_held ns"
  by (simp add: grants_held_def)

lemma grant_device_effect:
  assumes engine: "base64_engine (h_b64e h) (h_b64d h)"
    and ran: "grant_device (observed h) cfg req s = (Inr (), s')"
    and types: "scalars (gd_label req)" "gd_expires_at req \<le> u64_max"
  shows "\<exists>a s1 evs doc mods. lookup_account (observed h) cfg (gd_account_sid req) s = (Inr a, s1)
    \<and> event_log s' = event_log s1 @ evs \<and> records_written evs = [doc]
    \<and> read_change (h_b64d h) doc = Some (ac_dn a, mods)
    \<and> grants_held (apply_mods mods (ac_markers a))
        = spec_grant (new_grant req (h_now h (fst (ps_world s)))) (grants_held (ac_markers a))
    \<and> grants_stored (apply_mods mods (ac_markers a))
        \<le> max (ic_max_grants cfg) (grants_stored (ac_markers a))"
proof -
  let ?g = "new_grant req (h_now h (fst (ps_world s)))"
  have now: "h_now (observed h) (ps_world s) = h_now h (fst (ps_world s))"
    by (cases "ps_world s") (simp add: observed_def)
  obtain t s1 where t: "grant_target_of (observed h) cfg (gd_account_sid req) s = (Inr t, s1)"
    and ok: "is_thumbprint (gd_thumbprint req)" "h_now h (fst (ps_world s)) < gd_expires_at req"
      "raw_with (gd_thumbprint req) (gt_grants t) = [] \<Longrightarrow> gt_stored t < ic_max_grants cfg"
    and m: "modify_grants (observed h) cfg (ac_dn (gt_account t)) (raw_with (gd_thumbprint req) (gt_grants t))
        [grant_encode ?g] s1 = (Inr (), s')"
    using grant_device_Inr [OF ran] unfolding now by blast
  let ?ms = "ac_markers (gt_account t)"
  let ?ds = "raw_with (gd_thumbprint req) (stored_grants ?ms)"
  note tgt = grant_target_Inr [OF t]
  have wf: "wf_grant ?g" by (rule new_grant_wf [OF ok(1,2) types(2)])
  have "scalars (g_label ?g)"
    using types(1) sanitize_label_subset scalars_subset by (fastforce simp: new_grant_def)
  then have str: "list_all scalars [grant_encode ?g]" using grant_encode_scalars wf by simp
  obtain evs doc where e: "event_log s' = event_log s1 @ evs" "records_written evs = [doc]"
    "read_change (h_b64d h) doc = Some (ac_dn (gt_account t), change_mods ?ds [grant_encode ?g])"
    using modify_grants_record [OF m _ engine lookup_account_scalars(1) [OF tgt(1)] _ str]
      raw_with_scalars [OF lookup_account_scalars(2) [OF tgt(1)]] tgt(2) by auto
  have held: "grants_held (apply_mods (change_mods ?ds [grant_encode ?g]) ?ms) = spec_grant ?g (grants_held ?ms)"
    by (simp add: apply_change_mods grants_held_append grants_held_removed grants_held_encode [OF wf]
        spec_grant_def new_grant_thumbprint)
  have one: "grants_stored [grant_encode ?g] = 1" by (simp add: grants_stored_def starts_with_encode)
  have "grants_stored (filter (\<lambda>x. x \<notin> set ?ds) ?ms) + 1 \<le> max (ic_max_grants cfg) (grants_stored ?ms)"
  proof (cases "?ds = []")
    case True
    with ok(3) tgt(2,3) show ?thesis by simp
  next
    case False
    then show ?thesis using grants_stored_removed [of ?ds ?ms] by (force simp: raw_with_set)
  qed
  then have cap: "grants_stored (apply_mods (change_mods ?ds [grant_encode ?g]) ?ms)
      \<le> max (ic_max_grants cfg) (grants_stored ?ms)"
    by (simp add: apply_change_mods grants_stored_append one)
  show ?thesis using tgt(1) e held cap by blast
qed

text \<open>The stored values a revocation is about: grants of the key, by the reader of the program.\<close>

definition grant_of_key :: "str \<Rightarrow> str \<Rightarrow> bool" where
  "grant_of_key tp m \<longleftrightarrow>
     starts_with m GRANT_PREFIX \<and> (case grant_decode m of Inl _ \<Rightarrow> False | Inr g \<Rightarrow> g_thumbprint g = tp)"

lemma raw_with_filter: "raw_with tp (stored_grants ms) = filter (grant_of_key tp) ms"
  by (induction ms) (auto simp: raw_with_def grant_of_key_def split: sum.splits)

text \<open>The events of one change record: a directory, the record in it, the command, the directory removed.\<close>

definition record_events :: "issuerd_config \<Rightarrow> str \<Rightarrow> str \<Rightarrow> event list" where
  "record_events cfg d doc =
     [Ev_mkdir d True, Ev_write (path_join d (lit ''mod.ldif'')) doc,
      run_event cfg (modify_argv cfg (path_join d (lit ''mod.ldif''))) [], Ev_remove d]"

lemma revoke_grant_effect:
  assumes engine: "base64_engine (h_b64e h) (h_b64d h)"
    and ran: "revoke_grant (observed h) cfg req s = (Inr (), s')"
  shows "\<exists>a s1 evs. lookup_account (observed h) cfg (rg_account_sid req) s = (Inr a, s1)
    \<and> event_log s' = event_log s1 @ evs
    \<and> (if filter (grant_of_key (rg_thumbprint req)) (ac_markers a) = [] then evs = []
       else \<exists>d doc. evs = record_events cfg d doc
         \<and> read_change (h_b64d h) doc = Some (ac_dn a,
             change_mods (filter (grant_of_key (rg_thumbprint req)) (ac_markers a)) []))"
proof -
  obtain t s1 where t: "grant_target_of (observed h) cfg (rg_account_sid req) s = (Inr t, s1)"
    and m: "(if raw_with (rg_thumbprint req) (gt_grants t) = [] then io_ok ()
        else modify_grants (observed h) cfg (ac_dn (gt_account t)) (raw_with (rg_thumbprint req) (gt_grants t)) []) s1
        = (Inr (), s')"
    using ran by (auto simp: revoke_grant_def io_results Let_def)
  let ?ms = "ac_markers (gt_account t)"
  let ?ds = "filter (grant_of_key (rg_thumbprint req)) ?ms"
  note tgt = grant_target_Inr [OF t]
  have ds: "raw_with (rg_thumbprint req) (gt_grants t) = ?ds" using tgt(2) by (simp add: raw_with_filter)
  show ?thesis
  proof (cases "?ds = []")
    case True
    with m ds have "s' = s1" by simp
    with True tgt(1) show ?thesis by auto
  next
    case False
    then have w: "modify_grants (observed h) cfg (ac_dn (gt_account t)) ?ds [] s1 = (Inr (), s')"
      using m ds by simp
    have "list_all scalars ?ds"
      using raw_with_scalars [OF lookup_account_scalars(2) [OF tgt(1)]] raw_with_filter by metis
    then have r: "read_change (h_b64d h) (ldif (h_b64e h) (ac_dn (gt_account t)) ?ds [])
        = Some (ac_dn (gt_account t), change_mods ?ds [])"
      using base64_engine.read_change_ldif [OF engine lookup_account_scalars(1) [OF tgt(1)], of ?ds "[]"] by simp
    from modify_grants_events [OF w] False show ?thesis
      unfolding record_events_def [symmetric] using tgt(1) r by auto
  qed
qed

lemma revoke_keeps_others: "apply_mods (change_mods (filter P ms) []) ms = filter (\<lambda>m. \<not> P m) ms"
  by (auto simp: apply_change_mods intro!: filter_cong)

lemma grants_held_others: "grants_held (filter (\<lambda>m. \<not> grant_of_key tp m) ms) = spec_revoke tp (grants_held ms)"
proof -
  have "filter (\<lambda>m. \<not> grant_of_key tp m) ms = filter (\<lambda>m. m \<notin> set (raw_with tp (stored_grants ms))) ms"
    by (auto simp: raw_with_filter intro!: filter_cong)
  then show ?thesis by (simp add: grants_held_removed spec_revoke_def)
qed

section \<open>A host on which requests succeed\<close>

definition sample_sid :: str where [kb_lits]: "sample_sid = lit ''S-1-5-21-1''"

definition sample_identity :: str where
  "sample_identity = encode \<lparr>ei_source = Source (lit ''entra''), ei_subject = lit ''alice''\<rparr>"

definition sample_account_block :: "(str \<times> ldif_value) list" where
  "sample_account_block =
     [(lit ''dn'', Plain [lit ''CN=Alice,OU=Idp,DC=ex'']),
      (lit ''objectClass'', Plain [lit ''top'']),
      (lit ''objectClass'', Plain [lit ''user'']),
      (lit ''sAMAccountName'', Plain [lit ''alice'']),
      (lit ''userAccountControl'', Plain [lit ''66048'']),
      (lit ''msDS-ExternalDirectoryObjectId'', Plain [sample_identity])]"

definition sample_output :: str where
  "sample_output = search_output [(lit '' record 1'', sample_account_block)]"

text \<open>A host whose database answers every search with the given text.\<close>

definition stocked_host :: "str \<Rightarrow> unit host" where
  "stocked_host out =
     \<lparr>h_exec = (\<lambda>argv env w. (Ran (if argv ! 2 = lit ''ldbsearch'' then utf8 out else []) [] (Some (Some 0)), w)),
      h_mkdir = (\<lambda>d w. (True, w)),
      h_read = (\<lambda>p w. Some (cache_bytes [] sample_client [sample_entry])),
      h_write = (\<lambda>p t w. (True, w)),
      h_remove = (\<lambda>p w. w),
      h_now = (\<lambda>w. 1000),
      h_metadata = (\<lambda>p. None), h_pid = 7, h_unicode = block_tables,
      h_b64e = rfc4648_encode, h_b64d = rfc4648_decode\<rparr>"

definition sample_host :: "unit host" where
  "sample_host = stocked_host sample_output"

definition sample_config :: issuerd_config where
  "sample_config =
     \<lparr>ic_realm = sample_realm, ic_base_dn = lit ''DC=ex'', ic_cloud_idp_ou = lit ''OU=Idp,DC=ex'',
      ic_sam_db = lit ''sam'', ic_tmp_dir = lit ''/t'', ic_max_lifetime = 600, ic_max_renewable = 900,
      ic_cmd_timeout = 5, ic_max_grants = 2\<rparr>"

definition sample_account :: account where
  "sample_account = \<lparr>ac_dn = lit ''CN=Alice,OU=Idp,DC=ex'', ac_sam_account_name = lit ''alice'', ac_markers = []\<rparr>"

definition sample_state :: "(unit \<times> event list) pstate" where
  "sample_state = \<lparr>ps_seq = 0, ps_world = ((), [])\<rparr>"

definition logged :: "(unit \<times> event list) pstate \<Rightarrow> event \<Rightarrow> (unit \<times> event list) pstate" where
  "logged s e = s\<lparr>ps_world := ((), event_log s @ [e])\<rparr>"

lemma sample_identity_text: "sample_identity = lit ''kb1|entra|alice''"
  by (simp add: sample_identity_def encode_def kb_lits)

lemma sample_identity_decodes:
  "decode sample_identity = Inr \<lparr>ei_source = Source (lit ''entra''), ei_subject = lit ''alice''\<rparr>"
  unfolding sample_identity_def
  by (rule decode_encode) (simp add: wf_identity_def encode_def kb_lits)

lemma sample_block_ok:
  "list_all (\<lambda>b. line_ok (lit ''#'' @ fst b) \<and> block_ok rfc4648_encode (snd b)) [(lit '' record 1'', sample_account_block)]"
  by (simp add: sample_account_block_def sample_identity_text block_ok_def value_ok_def key_ok_def kb_lits line_ok_def
      occurs_def starts_with_Cons)

lemma sample_entries: "ldif_entries rfc4648_decode sample_output = [block_entry sample_account_block]"
  unfolding sample_output_def ldif_entries_search_output [OF sample_block_ok rfc4648_inverse]
  by (simp add: sample_account_block_def block_entry_def entry_push_def kb_lits)

lemma sample_account_found: "account_of block_tables [block_entry sample_account_block] = Inr sample_account"
proof -
  let ?e = "block_entry sample_account_block"
  have e: "entry_first ?e (lit ''sAMAccountName'') = Some (lit ''alice'')"
    "values_or_empty ?e (lit ''objectClass'') = [lit ''top'', lit ''user'']"
    "entry_first ?e (lit ''userAccountControl'') = Some (lit ''66048'')"
    "entry_first ?e (lit ''msDS-ExternalDirectoryObjectId'') = Some sample_identity"
    "entry_first ?e (lit ''dn'') = Some (lit ''CN=Alice,OU=Idp,DC=ex'')"
    "values_or_empty ?e (lit ''extensionName'') = []"
    by (simp_all add: sample_account_block_def block_entry_def entry_push_def entry_first_def values_or_empty_def kb_lits)
  have v: "validate block_tables (lit ''alice'') = Inr ()"
    by (simp add: validate_Inr block.allowed_ascii kb_lits ascii_alphanumeric_def)
  have p: "parse_unsigned u32_max (lit ''66048'') = Some 66048"
    by (simp add: parse_unsigned_def parse_digits_def digits_val_def is_ascii_digit_def u32_max_def kb_lits)
  have c: "eq_ignore_ascii_case (lit ''user'') (lit ''user'')"
    "map to_ascii_lowercase (lit ''top'') = lit ''top''" "map to_ascii_lowercase (lit ''user'') = lit ''user''"
    by (simp_all add: eq_ignore_ascii_case_refl kb_lits to_ascii_lowercase_def)
  have w: "(66048 :: 32 word) AND UAC_ACCOUNTDISABLE = 0" "(66048 :: 32 word) AND UAC_MACHINE = 0"
    by (simp_all add: UAC_ACCOUNTDISABLE_def UAC_MACHINE_def)
  show ?thesis
    by (simp add: account_of_def e validated_sam_def v p c w sample_identity_decodes ELIGIBLE_CLASSES_def sample_account_def)
qed

lemma stocked_run_search:
  assumes "scalars out" "utf8_len out \<le> MAX_OUTPUT"
  shows "run (observed (stocked_host out)) sample_config (search_argv sample_config sid) [] s
     = (Inr out, logged s (run_event sample_config (search_argv sample_config sid) []))"
proof -
  have "take MAX_OUTPUT (utf8 out) = utf8 out" using assms(2) by (simp add: length_utf8)
  moreover have "utf8 [] = []" "scalars []" by (simp_all add: utf8_def)
  then have "from_utf8 [] = Some []" using from_utf8_utf8 [of "[]"] by simp
  ultimately show ?thesis using assms(1)
    by (cases "ps_world s")
      (simp add: run_def observed_effects stocked_host_def search_argv_def run_result_def logged_def event_log_def
        run_event_def)
qed

lemma stocked_lookup:
  assumes "scalars out" "utf8_len out \<le> MAX_OUTPUT" "account_of block_tables (ldif_entries rfc4648_decode out) = Inr a"
  shows "lookup_account (observed (stocked_host out)) sample_config sid s
     = (Inr a, logged s (run_event sample_config (search_argv sample_config sid) []))"
proof -
  have u: "h_unicode (stocked_host out) = block_tables" "h_b64d (stocked_host out) = rfc4648_decode"
    by (simp_all add: stocked_host_def)
  show ?thesis
    by (simp only: lookup_account_def io_bind_def stocked_run_search [OF assms(1,2)] prod.case sum.case observed_simps u
        assms(3) io_simps)
qed

lemma sample_lookup:
  "lookup_account (observed sample_host) sample_config sid s
     = (Inr sample_account, logged s (run_event sample_config (search_argv sample_config sid) []))"
  unfolding sample_host_def
proof (rule stocked_lookup)
  show "scalars sample_output"
    by (simp add: sample_output_def search_output_def block_lines_def sample_account_block_def value_lines_def
        sample_identity_text kb_lits is_scalar_def)
  show "utf8_len sample_output \<le> MAX_OUTPUT"
    by (simp add: sample_output_def search_output_def block_lines_def sample_account_block_def value_lines_def
        sample_identity_text kb_lits MAX_OUTPUT_def)
  show "account_of block_tables (ldif_entries rfc4648_decode sample_output) = Inr sample_account"
    by (simp only: sample_entries sample_account_found)
qed

lemma stocked_run_other:
  assumes "argv \<noteq> []" "hd argv \<noteq> lit ''ldbsearch''"
  shows "run (observed (stocked_host out)) sample_config argv env s = (Inr [], logged s (run_event sample_config argv env))"
proof -
  have "utf8 [] = []" "scalars []" by (simp_all add: utf8_def)
  then have "from_utf8 [] = Some []" using from_utf8_utf8 [of "[]"] by simp
  moreover have "argv ! 0 \<noteq> lit ''ldbsearch''" using assms by (simp add: hd_conv_nth)
  ultimately show ?thesis
    by (cases "ps_world s")
      (simp add: run_def observed_effects stocked_host_def run_result_def logged_def event_log_def run_event_def)
qed

lemmas sample_run_other = stocked_run_other [of _ sample_output, folded sample_host_def]

lemma sample_validates:
  "validate_cache sample_config (cache_bytes [] sample_client [sample_entry]) (lit ''alice'' @ lit ''@'' @ sample_realm)
     = Inr (entry_credential sample_entry)"
proof -
  have c: "credentials (cache_bytes [] sample_client [sample_entry]) = Inr [entry_credential sample_entry]"
    using credentials_cache_bytes [of "[sample_entry]" sample_client "[]"] sample_entry_wf sample_cache_length by simp
  have t: "is_tgt (entry_credential sample_entry) (ic_realm sample_config)"
    by (simp add: is_tgt_def entry_credential_def sample_entry_def sample_config_def)
  have p: "principal_display (cr_client (entry_credential sample_entry)) = lit ''alice'' @ lit ''@'' @ sample_realm"
    by (simp add: principal_display_def entry_credential_def sample_entry_def sample_client_def)
  have "check_flags (entry_credential sample_entry) = Inr ()"
    by (simp add: check_flags_Inr entry_credential_def sample_entry_def TKT_FLG_INITIAL_def TKT_FLG_INVALID_def
        TKT_FLG_RENEWABLE_def)
  with t p show ?thesis by (simp add: validate_cache_def c)
qed

lemma sample_cache_bounded: "length (cache_bytes [] sample_client [sample_entry]) \<le> MAX_CCACHE"
  by (simp add: cache_bytes_def entry_bytes_def principal_bytes_def str_bytes_def be_len_def length_be16
      length_be32 length_utf8 sample_entry_defs typed_bytes_def MAX_CCACHE_def)

lemma sample_read:
  "read_bounded (observed sample_host) p s = (Inr (cache_bytes [] sample_client [sample_entry]), s)"
proof -
  have "h_read (observed sample_host) p (ps_world s) = Some (cache_bytes [] sample_client [sample_entry])"
    by (cases "ps_world s") (simp add: observed_def sample_host_def stocked_host_def)
  with sample_cache_bounded show ?thesis by (simp add: read_bounded_def)
qed

lemma stocked_workdir:
  "fst (with_workdir (observed (stocked_host out)) sample_config body s)
     = fst (body (workdir_name (stocked_host out) sample_config (ps_seq s))
         (s\<lparr>ps_seq := (ps_seq s + 1) mod 2 ^ 64,
            ps_world := ((), event_log s @ [Ev_mkdir (workdir_name (stocked_host out) sample_config (ps_seq s)) True])\<rparr>))"
proof -
  have "h_mkdir (observed (stocked_host out)) d (ps_world s) = (True, ((), event_log s @ [Ev_mkdir d True]))" for d
    by (cases "ps_world s") (simp add: observed_effects stocked_host_def event_log_def)
  then show ?thesis by (simp add: with_workdir_def Let_def split: prod.splits)
qed

lemmas sample_workdir = stocked_workdir [of sample_output, folded sample_host_def]

lemma stocked_modify: "fst (modify_grants (observed (stocked_host out)) sample_config dn del add s) = Inr ()"
proof -
  have w: "write_file (observed (stocked_host out)) p t s = (Inr (), s\<lparr>ps_world := ((), event_log s @ [Ev_write p t])\<rparr>)" for p t s
    by (cases "ps_world s") (simp add: write_file_def observed_effects stocked_host_def event_log_def)
  have n: "lit ''ldbmodify'' \<noteq> lit ''ldbsearch''" by (simp add: kb_lits)
  show ?thesis
    by (simp add: modify_grants_def stocked_workdir Let_def io_bind_def w stocked_run_other modify_argv_def n)
qed

lemmas sample_modify = stocked_modify [of sample_output, folded sample_host_def]

lemma sample_sid_ok: "validated_sid sample_sid = Inr sample_sid"
  by (simp add: validated_sid_def strip_prefix_def starts_with_Cons kb_lits is_ascii_digit_def)

definition sample_issue_request :: issue_request where
  "sample_issue_request = \<lparr>ir_request_id = lit ''r1'', ir_account_sid = sample_sid, ir_lifetime_seconds = Some 86400,
     ir_renewable_lifetime_seconds = None\<rparr>"

lemma sample_issued_for:
  assumes "validated_sid (ir_account_sid req) = Inr (ir_account_sid req)"
  shows "\<exists>t s'. issue (observed sample_host) sample_config req s = (Inr t, s')"
proof -
  have k: "kinit_program sample_host = KINIT_ANY"
    by (simp add: kinit_program_def program_in_path_def sample_host_def stocked_host_def kb_lits)
  have n: "lit ''samba-tool'' \<noteq> lit ''ldbsearch''" "KINIT_ANY \<noteq> lit ''ldbsearch''" by (simp_all add: kb_lits)
  have "\<exists>t. fst (issue_in_workdir (observed sample_host) sample_config req
      (lit ''alice'' @ lit ''@'' @ sample_realm) l r d s1) = Inr t" for l r d s1
    by (simp add: issue_in_workdir_def Let_def io_bind_def sample_run_other export_argv_def kinit_argv_def k n sample_read
        sample_validates)
  moreover have "ic_realm sample_config = sample_realm" "ac_sam_account_name sample_account = lit ''alice''"
    by (simp_all add: sample_config_def sample_account_def)
  ultimately have "\<exists>t. fst (issue (observed sample_host) sample_config req s) = Inr t"
    by (simp add: issue_def io_bind_def [of "io_of _"] io_bind_def [of "lookup_account _ _ _"] assms
        sample_lookup sample_workdir)
  then show ?thesis by (metis prod.collapse)
qed

lemma sample_issued: "\<exists>t s'. issue (observed sample_host) sample_config sample_issue_request sample_state = (Inr t, s')"
  by (rule sample_issued_for) (simp add: sample_issue_request_def sample_sid_ok)

definition sample_grant_request :: grant_device_request where
  "sample_grant_request = \<lparr>gd_request_id = lit ''r2'', gd_account_sid = sample_sid, gd_alg = ALG_ES256,
     gd_thumbprint = sample_thumbprint, gd_label = lit ''desk|top'', gd_expires_at = 5000\<rparr>"

lemma sample_dn_within: "dn_is_at_or_within block_tables (lit ''CN=Alice,OU=Idp,DC=ex'') (lit ''OU=Idp,DC=ex'')"
  by (simp add: dn_eval kb_lits)

lemma sample_target:
  "grant_target_of (observed sample_host) sample_config sample_sid s
     = (Inr \<lparr>gt_account = sample_account, gt_grants = [], gt_stored = 0\<rparr>,
        logged s (run_event sample_config (search_argv sample_config sample_sid) []))"
proof -
  from sample_dn_within have "target_of sample_host sample_config sample_account
      = Inr \<lparr>gt_account = sample_account, gt_grants = [], gt_stored = 0\<rparr>"
    by (simp add: target_of_def sample_account_def sample_host_def stocked_host_def sample_config_def)
  then show ?thesis
    by (simp add: grant_target_of_def io_bind_def sample_sid_ok sample_lookup)
qed

lemma sample_granted: "\<exists>s'. grant_device (observed sample_host) sample_config sample_grant_request sample_state = (Inr (), s')"
proof -
  have now: "h_now (observed sample_host) (ps_world sample_state) = 1000"
    by (simp add: observed_def sample_host_def stocked_host_def sample_state_def)
  have cap: "ic_max_grants sample_config = 2" by (simp add: sample_config_def)
  have "fst (grant_device (observed sample_host) sample_config sample_grant_request sample_state) = Inr ()"
    by (simp add: grant_device_def sample_grant_request_def algorithm_simps ALG_ES256_def sample_thumbprint_ok now
        io_bind_def sample_target raw_with_def cap sample_modify)
  then show ?thesis by (metis prod.collapse)
qed

section \<open>Properties\<close>

text \<open>
  C3 (KB_IssuerdSound.issued_ticket). A ticket is returned only for the one account the
  directory holds under the SID that was asked for: a user object with no class outside the
  allowlist, enabled, not a machine, with a decodable external identity and a login name the
  shared rule accepts. Its cache is bounded and holds exactly one ticket-granting ticket of
  the realm, whose client is that account, initial, renewable past its expiry and not invalid,
  and the times reported are those of that ticket.
\<close>

theorem issued_ticket:
  assumes "issue h cfg req s = (Inr t, s')"
  shows "\<exists>out s1 e a bytes cs tgt.
      run h cfg (search_argv cfg (ir_account_sid req)) [] s = (Inr out, s1)
    \<and> ldif_entries (h_b64d h) out = [e] \<and> eligible_entry (h_unicode h) e a
    \<and> tk_principal t = ac_sam_account_name a @ lit ''@'' @ ic_realm cfg
    \<and> tk_ccache_b64 t = h_b64e h bytes \<and> length bytes \<le> MAX_CCACHE
    \<and> credentials bytes = Inr cs \<and> filter (\<lambda>c. is_tgt c (ic_realm cfg)) cs = [tgt]
    \<and> principal_display (cr_client tgt) = tk_principal t
    \<and> cr_flags tgt AND TKT_FLG_INITIAL \<noteq> 0 \<and> cr_flags tgt AND TKT_FLG_INVALID = 0
    \<and> cr_flags tgt AND TKT_FLG_RENEWABLE \<noteq> 0 \<and> cr_expires_at tgt \<le> cr_renew_until tgt
    \<and> tk_starts_at t = rfc3339 (unat (cr_starts_at tgt))
    \<and> tk_expires_at t = rfc3339 (unat (cr_expires_at tgt))
    \<and> tk_renew_until t = rfc3339 (unat (cr_renew_until tgt))"
proof -
  obtain a s1 bytes cs tgt where i: "lookup_account h cfg (ir_account_sid req) s = (Inr a, s1)"
    "tk_principal t = ac_sam_account_name a @ lit ''@'' @ ic_realm cfg"
    "tk_ccache_b64 t = h_b64e h bytes" "length bytes \<le> MAX_CCACHE" "credentials bytes = Inr cs"
    "filter (\<lambda>c. is_tgt c (ic_realm cfg)) cs = [tgt]" "principal_display (cr_client tgt) = tk_principal t"
    "check_flags tgt = Inr ()" "tk_starts_at t = rfc3339 (unat (cr_starts_at tgt))"
    "tk_expires_at t = rfc3339 (unat (cr_expires_at tgt))" "tk_renew_until t = rfc3339 (unat (cr_renew_until tgt))"
    using issue_Inr [OF assms] by blast
  obtain out e where "run h cfg (search_argv cfg (ir_account_sid req)) [] s = (Inr out, s1)"
    "ldif_entries (h_b64d h) out = [e]" "eligible_entry (h_unicode h) e a"
    using lookup_account_eligible [OF i(1)] by blast
  with i show ?thesis unfolding check_flags_Inr
    by (intro exI [of _ out] exI [of _ s1] exI [of _ e] exI [of _ a] exI [of _ bytes] exI [of _ cs]
        exI [of _ tgt]) simp
qed

theorem issued_ticket_witness:
  "\<exists>t s' bytes. issue (observed sample_host) sample_config sample_issue_request sample_state = (Inr t, s')
     \<and> tk_ccache_b64 t = rfc4648_encode bytes \<and> length bytes \<le> MAX_CCACHE"
proof -
  obtain t s' where i: "issue (observed sample_host) sample_config sample_issue_request sample_state = (Inr t, s')"
    using sample_issued by blast
  have "h_b64e (observed sample_host) = rfc4648_encode" by (simp add: sample_host_def stocked_host_def)
  with issued_ticket [OF i] i show ?thesis by auto
qed

text \<open>
  Fact (KB_IssuerdSound.issue_trace). Whatever the commands answer, an issue request asks the
  host for at most three commands in a fixed order, the search for the SID, the key export and
  \<open>kinit\<close>, the last with lifetimes no longer than the policy and the principal behind \<open>--\<close>. A
  temporary directory that was made is removed again as the very last thing, on every path.
\<close>

theorem issue_trace:
  "\<exists>evs princ lifetime renewable.
     event_log (snd (issue (observed h) cfg req s)) = event_log s @ evs
     \<and> lifetime \<le> ic_max_lifetime cfg \<and> renewable \<le> ic_max_renewable cfg
     \<and> evs \<in> issue_traces h cfg (ir_account_sid req) (workdir_name h cfg (ps_seq s)) princ lifetime renewable"
  using issue_events [of h cfg req s] clamp_to_le by blast

text \<open>
  C9 (KB_IssuerdSound.grant_refines). Granting a device hands the directory one change record
  for the account of the SID. Applied to what the account holds it gives exactly the abstract
  grant: every grant of that key is replaced by the new one, which starts at the issuer's
  clock, no other grant changes, and the number of stored grants never grows past the cap.
\<close>

theorem grant_refines:
  assumes "base64_engine (h_b64e h) (h_b64d h)" "scalars (gd_label req)" "gd_expires_at req \<le> u64_max"
    "grant_device (observed h) cfg req s = (Inr (), s')"
  shows "\<exists>a s1 evs doc mods. lookup_account (observed h) cfg (gd_account_sid req) s = (Inr a, s1)
    \<and> event_log s' = event_log s1 @ evs \<and> records_written evs = [doc]
    \<and> read_change (h_b64d h) doc = Some (ac_dn a, mods)
    \<and> grants_held (apply_mods mods (ac_markers a))
        = spec_grant (new_grant req (h_now h (fst (ps_world s)))) (grants_held (ac_markers a))
    \<and> grants_stored (apply_mods mods (ac_markers a))
        \<le> max (ic_max_grants cfg) (grants_stored (ac_markers a))"
  by (rule grant_device_effect [OF assms(1,4,2,3)])

theorem grant_refines_witness:
  "\<exists>s' pre evs doc mods. grant_device (observed sample_host) sample_config sample_grant_request sample_state = (Inr (), s')
     \<and> event_log s' = pre @ evs \<and> records_written evs = [doc]
     \<and> read_change rfc4648_decode doc = Some (ac_dn sample_account, mods)
     \<and> grants_held (apply_mods mods []) = [new_grant sample_grant_request 1000]"
proof -
  obtain s' where g: "grant_device (observed sample_host) sample_config sample_grant_request sample_state = (Inr (), s')"
    using sample_granted by blast
  have h: "base64_engine (h_b64e sample_host) (h_b64d sample_host)" "h_b64d sample_host = rfc4648_decode"
    "h_now sample_host w = 1000" for w
    using rfc4648.base64_engine_axioms by (simp_all add: sample_host_def stocked_host_def)
  have r: "scalars (gd_label sample_grant_request)" "gd_expires_at sample_grant_request \<le> u64_max"
    by (simp_all add: sample_grant_request_def u64_max_def)
  have a: "ac_markers sample_account = []" by (simp add: sample_account_def)
  have n: "spec_grant g (grants_held []) = [g]" for g by (simp add: spec_grant_def grants_held_def)
  obtain b s1 evs doc mods where e:
    "lookup_account (observed sample_host) sample_config (gd_account_sid sample_grant_request) sample_state = (Inr b, s1)"
    "event_log s' = event_log s1 @ evs" "records_written evs = [doc]"
    "read_change (h_b64d sample_host) doc = Some (ac_dn b, mods)"
    "grants_held (apply_mods mods (ac_markers b))
       = spec_grant (new_grant sample_grant_request (h_now sample_host (fst (ps_world sample_state)))) (grants_held (ac_markers b))"
    using grant_refines [OF h(1) r g] by blast
  from e(1) have "b = sample_account" by (simp add: sample_lookup)
  with e have "read_change rfc4648_decode doc = Some (ac_dn sample_account, mods)"
    "grants_held (apply_mods mods []) = [new_grant sample_grant_request 1000]"
    by (simp_all add: h a n)
  with e(2,3) g show ?thesis by (intro exI conjI)
qed

text \<open>
  C10 (KB_IssuerdSound.revoke_refines). Revoking a device that succeeds leaves the account with
  exactly the grants of other keys. When it holds no readable grant of the key, nothing is
  written and no command runs but the search. Otherwise one change record goes to
  \<open>ldbmodify\<close>, for the object of that account, with one operation: the deletion of exactly the stored
  values that are grants of the key. Every other value of the attribute, a grant of another
  key, a marker of another kind, a value that does not decode, stays as it was and in its place.
\<close>

theorem revoke_refines:
  assumes "base64_engine (h_b64e h) (h_b64d h)" "revoke_grant (observed h) cfg req s = (Inr (), s')"
  shows "\<exists>a s1 evs victims mods. lookup_account (observed h) cfg (rg_account_sid req) s = (Inr a, s1)
    \<and> event_log s' = event_log s1 @ evs
    \<and> victims = filter (grant_of_key (rg_thumbprint req)) (ac_markers a)
    \<and> mods = (if victims = [] then [] else [(lit ''delete'', extension_name, victims)])
    \<and> (if victims = [] then evs = []
       else \<exists>d doc. evs = record_events cfg d doc \<and> read_change (h_b64d h) doc = Some (ac_dn a, mods))
    \<and> apply_mods mods (ac_markers a) = filter (\<lambda>m. \<not> grant_of_key (rg_thumbprint req) m) (ac_markers a)
    \<and> grants_held (apply_mods mods (ac_markers a)) = spec_revoke (rg_thumbprint req) (grants_held (ac_markers a))"
proof -
  obtain a s1 evs where e: "lookup_account (observed h) cfg (rg_account_sid req) s = (Inr a, s1)"
    "event_log s' = event_log s1 @ evs"
    "if filter (grant_of_key (rg_thumbprint req)) (ac_markers a) = [] then evs = []
     else \<exists>d doc. evs = record_events cfg d doc
       \<and> read_change (h_b64d h) doc = Some (ac_dn a, change_mods (filter (grant_of_key (rg_thumbprint req)) (ac_markers a)) [])"
    using revoke_grant_effect [OF assms] by blast
  let ?v = "filter (grant_of_key (rg_thumbprint req)) (ac_markers a)"
  have m: "change_mods ?v [] = (if ?v = [] then [] else [(lit ''delete'', extension_name, ?v)])"
    by (simp only: change_mods_def append_Nil2 if_True simp_thms)
  note k = revoke_keeps_others [of "grant_of_key (rg_thumbprint req)" "ac_markers a"]
  show ?thesis
    by (rule exI [of _ a], rule exI [of _ s1], rule exI [of _ evs], rule exI [of _ ?v], rule exI [of _ "change_mods ?v []"])
      (use e k m grants_held_others in \<open>simp only: simp_thms if_True\<close>)
qed

text \<open>
  An account that holds a note, a grant of the revoked key and a grant of another key; only the
  grant of the key goes.
\<close>

definition other_thumbprint :: str where
  "other_thumbprint = lit ''AAAAAAAAAAAAAAAAAAAAAAAAAAAAAAAAAAAAAAAAAAA''"

definition held_grant :: "str \<Rightarrow> device_grant" where
  "held_grant tp = \<lparr>g_label = lit ''a'', g_alg = ALG_ES256, g_thumbprint = tp, g_start = 1000, g_end = 2000, g_seen = None\<rparr>"

definition held_markers :: "str list" where
  "held_markers = [lit ''note'', grant_encode (held_grant sample_thumbprint), grant_encode (held_grant other_thumbprint)]"

definition held_block :: "(str \<times> ldif_value) list" where
  "held_block = sample_account_block @ map (\<lambda>m. (extension_name, Plain [m])) held_markers"

definition held_output :: str where
  "held_output = search_output [(lit '' record 1'', held_block)]"

definition held_account :: account where
  "held_account = sample_account\<lparr>ac_markers := held_markers\<rparr>"

lemma held_markers_text:
  "held_markers =
     [lit ''note'',
      lit ''kbkey1|label=a|es256=3q2-7wAAAAAAAAAAAAAAAAAAAAAAAAAAAAAAAAAAAAA|start=1000|end=2000'',
      lit ''kbkey1|label=a|es256=AAAAAAAAAAAAAAAAAAAAAAAAAAAAAAAAAAAAAAAAAAA|start=1000|end=2000'']"
  by code_simp

lemma held_block_ok:
  "list_all (\<lambda>b. line_ok (lit ''#'' @ fst b) \<and> block_ok rfc4648_encode (snd b)) [(lit '' record 1'', held_block)]"
  by (simp add: held_block_def held_markers_text sample_account_block_def sample_identity_text block_ok_def value_ok_def
      key_ok_def kb_lits line_ok_def occurs_def starts_with_Cons)

lemma account_of_markers:
  assumes "account_of u [e] = Inr a"
  shows "account_of u [e(extension_name \<mapsto> ms)] = Inr (a\<lparr>ac_markers := ms\<rparr>)"
proof -
  have f: "entry_first (e(extension_name \<mapsto> ms)) k = entry_first e k"
    "values_or_empty (e(extension_name \<mapsto> ms)) k = values_or_empty e k" if "k \<noteq> extension_name" for k
    using that by (simp_all add: entry_first_def values_or_empty_def)
  have x: "values_or_empty (e(extension_name \<mapsto> ms)) (lit ''extensionName'') = ms"
    by (simp add: values_or_empty_def kb_lits)
  have n: "lit ''sAMAccountName'' \<noteq> extension_name" "lit ''objectClass'' \<noteq> extension_name"
    "lit ''userAccountControl'' \<noteq> extension_name" "lit ''msDS-ExternalDirectoryObjectId'' \<noteq> extension_name"
    "lit ''dn'' \<noteq> extension_name" by (simp_all add: kb_lits)
  show ?thesis using assms by (auto simp: account_of_def f n x kb_results Let_def)
qed

lemma held_found: "account_of block_tables (ldif_entries rfc4648_decode held_output) = Inr held_account"
proof -
  have e: "block_entry held_block = (block_entry sample_account_block)(extension_name \<mapsto> held_markers)"
    by (simp add: held_block_def block_entry_def held_markers_def entry_push_def sample_account_block_def kb_lits)
  have d: "lit ''dn'' \<noteq> extension_name" "block_entry sample_account_block (lit ''dn'') \<noteq> None"
    by (simp_all add: block_entry_def entry_push_def sample_account_block_def kb_lits)
  show ?thesis
    unfolding held_output_def ldif_entries_search_output [OF held_block_ok rfc4648_inverse]
    using account_of_markers [OF sample_account_found, of held_markers] d by (simp add: e held_account_def)
qed

lemma held_lookup:
  "lookup_account (observed (stocked_host held_output)) sample_config sid s
     = (Inr held_account, logged s (run_event sample_config (search_argv sample_config sid) []))"
proof (rule stocked_lookup [OF _ _ held_found])
  note held_parts = held_output_def search_output_def block_lines_def held_block_def held_markers_text sample_account_block_def
    value_lines_def sample_identity_text
  show "scalars held_output" by (simp add: held_parts kb_lits is_scalar_def)
  show "utf8_len held_output \<le> MAX_OUTPUT" by (simp add: held_parts kb_lits MAX_OUTPUT_def)
qed

lemma held_victims:
  "filter (grant_of_key sample_thumbprint) held_markers = [grant_encode (held_grant sample_thumbprint)]"
proof -
  have wf: "wf_grant (held_grant sample_thumbprint)" "wf_grant (held_grant other_thumbprint)"
  proof -
    have "is_thumbprint other_thumbprint" by code_simp
    then show "wf_grant (held_grant sample_thumbprint)" "wf_grant (held_grant other_thumbprint)"
      by (simp_all add: wf_grant_def held_grant_def sample_thumbprint_ok u64_max_def kb_lits is_control_def)
  qed
  have k: "grant_of_key sample_thumbprint (grant_encode (held_grant tp)) = (tp = sample_thumbprint)"
    if "wf_grant (held_grant tp)" for tp
    using that by (simp add: grant_of_key_def starts_with_encode grant_decode_encode) (simp add: held_grant_def)
  have "\<not> grant_of_key sample_thumbprint (lit ''note'')" "other_thumbprint \<noteq> sample_thumbprint"
    by (simp_all add: grant_of_key_def other_thumbprint_def sample_thumbprint_def GRANT_PREFIX_def kb_lits starts_with_Cons)
  then show ?thesis by (simp add: held_markers_def k wf)
qed

theorem revoke_refines_witness:
  "\<exists>s' pre d doc. revoke_grant (observed (stocked_host held_output)) sample_config
       \<lparr>rg_request_id = [], rg_account_sid = sample_sid, rg_thumbprint = sample_thumbprint\<rparr> sample_state = (Inr (), s')
     \<and> event_log s' = pre @ record_events sample_config d doc
     \<and> read_change rfc4648_decode doc
        = Some (ac_dn held_account, [(lit ''delete'', extension_name, [grant_encode (held_grant sample_thumbprint)])])"
proof -
  let ?h = "stocked_host held_output"
  let ?r = "\<lparr>rg_request_id = [], rg_account_sid = sample_sid, rg_thumbprint = sample_thumbprint\<rparr>"
  have "\<not> list_ex (\<lambda>m. starts_with m ST_RETIRED) held_markers"
    by (simp add: held_markers_text ST_RETIRED_def kb_lits starts_with_Cons)
  with sample_dn_within obtain n where
    "target_of ?h sample_config held_account = Inr \<lparr>gt_account = held_account, gt_grants = stored_grants held_markers, gt_stored = n\<rparr>"
    by (simp add: target_of_def held_account_def sample_account_def stocked_host_def sample_config_def)
  then have "fst (revoke_grant (observed ?h) sample_config ?r sample_state) = Inr ()"
    by (simp add: revoke_grant_def grant_target_of_def io_bind_def sample_sid_ok held_lookup raw_with_filter held_victims
        stocked_modify)
  then obtain s' where g: "revoke_grant (observed ?h) sample_config ?r sample_state = (Inr (), s')"
    by (metis prod.collapse)
  have h: "base64_engine (h_b64e ?h) (h_b64d ?h)" "h_b64d ?h = rfc4648_decode"
    using rfc4648.base64_engine_axioms by (simp_all add: stocked_host_def)
  obtain a s1 evs victims mods where e: "lookup_account (observed ?h) sample_config (rg_account_sid ?r) sample_state = (Inr a, s1)"
    "event_log s' = event_log s1 @ evs" "victims = filter (grant_of_key (rg_thumbprint ?r)) (ac_markers a)"
    "mods = (if victims = [] then [] else [(lit ''delete'', extension_name, victims)])"
    "if victims = [] then evs = []
     else \<exists>d doc. evs = record_events sample_config d doc \<and> read_change (h_b64d ?h) doc = Some (ac_dn a, mods)"
    using revoke_refines [OF h(1) g] by (elim exE conjE) (rule that, assumption+)
  have "a = held_account" using e(1) by (simp add: held_lookup)
  then have v: "victims = [grant_encode (held_grant sample_thumbprint)]" "a = held_account"
    using e(3) held_victims by (simp_all add: held_account_def)
  with e(4,5) obtain d doc where "evs = record_events sample_config d doc"
    "read_change rfc4648_decode doc = Some (ac_dn held_account, [(lit ''delete'', extension_name, [grant_encode (held_grant sample_thumbprint)])])"
    by (auto simp: h(2))
  with g e(2) show ?thesis by blast
qed

section \<open>A grant the issuer cannot see\<close>

definition hidden_grant :: device_grant where
  "hidden_grant = \<lparr>g_label = lit ''a:: b'', g_alg = ALG_ES256, g_thumbprint = sample_thumbprint,
     g_start = 1000, g_end = 2000, g_seen = None\<rparr>"

definition hidden_output :: str where
  "hidden_output = unlines [lit ''dn: CN=Alice'', extension_name @ lit '': '' @ grant_encode hidden_grant, []]"

lemma hidden_grant_text:
  "\<exists>rest. grant_encode hidden_grant = lit ''kbkey1|label=a'' @ lit '':: '' @ lit ''b|'' @ rest
     \<and> line_ok (grant_encode hidden_grant)"
proof -
  have "grant_encode hidden_grant = lit ''kbkey1|label=a'' @ lit '':: '' @ lit ''b|'' @
      (lit ''es256='' @ sample_thumbprint @ lit ''|start='' @ show_dec 1000 @ lit ''|end='' @ show_dec 2000)"
    by (simp add: grant_encode_def hidden_grant_def GRANT_PREFIX_def ALG_ES256_def) (simp add: kb_lits)
  moreover have "line_ok (grant_encode hidden_grant)"
  proof -
    have "c \<notin> set (show_dec n)" if "c = 10 \<or> c = 13" for c n
      using show_dec_char [of c n] that by (auto simp: is_ascii_digit_def)
    then have "last (show_dec n) \<noteq> 13" "10 \<notin> set (show_dec n)" for n
      using last_in_set [OF show_dec_not_Nil, of n] by metis+
    then show ?thesis unfolding calculation by (simp add: line_ok_def sample_thumbprint_def kb_lits)
  qed
  ultimately show ?thesis by blast
qed

lemma decode_bad_base64: "rfc4648_decode (98 # 124 # r) = None"
proof -
  have "b64_val 124 = None" by (simp add: b64_val_def is_ascii_digit_def)
  then show ?thesis
    by (cases "98 # 124 # r" rule: rfc4648_decode.cases) (auto split: option.splits)
qed

lemma split_inside_label:
  "split_once_str (lit '':: '') (extension_name @ lit '': '' @ lit ''kbkey1|label=a'' @ lit '':: '' @ v)
     = Some (extension_name @ lit '': '' @ lit ''kbkey1|label=a'', v)"
  by (simp add: kb_lits starts_with_Cons)

lemma ldif_line_b64:
  "strip_prefix l (lit '' '') = None \<Longrightarrow> l \<noteq> [] \<Longrightarrow> \<not> starts_with l (lit ''#'')
    \<Longrightarrow> split_once_str (lit '':: '') l = Some (k, v)
    \<Longrightarrow> ldif_line d l st = st\<lparr>lf_current := ldif_flush d (lf_current st) (lf_pending st), lf_pending := Some (k, v, True)\<rparr>"
  by (simp add: ldif_line_def)

text \<open>
  Fact (KB_IssuerdSound.hidden_grant_lost). A label with a double colon and a space passes the
  sanitizer, and its grant is printed by \<open>ldbsearch\<close> as it is, being plain ASCII. The reader
  looks for the base64 separator anywhere in the line, splits inside the label, fails to
  decode the rest and drops the value. The grant is then not counted by the cap and not found
  by a revocation, which reports success.
\<close>

theorem hidden_grant_lost:
  "wf_grant hidden_grant \<and> sanitize_label (lit ''a:: b'') = lit ''a:: b''
   \<and> map (\<lambda>e. (entry_first e (lit ''dn''), values_or_empty e extension_name)) (ldif_entries rfc4648_decode hidden_output)
      = [(Some (lit ''CN=Alice''), [])]"
proof (intro conjI)
  show "wf_grant hidden_grant"
    by (simp add: wf_grant_def hidden_grant_def sample_thumbprint_ok u64_max_def kb_lits is_control_def)
  show "sanitize_label (lit ''a:: b'') = lit ''a:: b''"
    by (simp add: sanitize_label_def kb_lits is_control_def)
  obtain rest where r: "grant_encode hidden_grant = lit ''kbkey1|label=a'' @ lit '':: '' @ lit ''b|'' @ rest"
    "line_ok (grant_encode hidden_grant)" using hidden_grant_text by blast
  let ?l = "extension_name @ lit '': '' @ grant_encode hidden_grant"
  have "line_ok ?l" using r(2) unfolding r(1) by (auto simp: line_ok_def kb_lits)
  then have lines: "str_lines hidden_output = [lit ''dn: CN=Alice'', ?l, []]"
    unfolding hidden_output_def by (intro str_lines_unlines) (simp add: line_ok_def kb_lits)
  have dn: "ldif_line d (lit ''dn: CN=Alice'') \<lparr>lf_entries = [], lf_current = Map.empty, lf_pending = None\<rparr>
      = \<lparr>lf_entries = [], lf_current = Map.empty, lf_pending = Some (lit ''dn'', lit ''CN=Alice'', False)\<rparr>" for d
    by (simp add: ldif_line_def strip_prefix_def starts_with_Cons kb_lits ldif_flush_def)
  have p: "strip_prefix ?l (lit '' '') = None" "?l \<noteq> []" "\<not> starts_with ?l (lit ''#'')"
    by (simp_all add: strip_prefix_def starts_with_Cons kb_lits)
  have ext: "ldif_line rfc4648_decode ?l \<lparr>lf_entries = [], lf_current = Map.empty, lf_pending = Some (lit ''dn'', lit ''CN=Alice'', False)\<rparr>
      = \<lparr>lf_entries = [], lf_current = entry_push Map.empty (lit ''dn'') (lit ''CN=Alice''),
         lf_pending = Some (extension_name @ lit '': '' @ lit ''kbkey1|label=a'', lit ''b|'' @ rest, True)\<rparr>"
    using ldif_line_b64 [OF p split_inside_label [of "lit ''b|'' @ rest", folded r(1)]]
    by (simp add: ldif_flush_def)
  show "map (\<lambda>e. (entry_first e (lit ''dn''), values_or_empty e extension_name)) (ldif_entries rfc4648_decode hidden_output)
      = [(Some (lit ''CN=Alice''), [])]"
    unfolding ldif_entries_def lines
    by (simp add: dn ext) (simp add: Let_def ldif_line_def strip_prefix_def starts_with_Cons ldif_flush_def decode_bad_base64
        entry_push_def entry_first_def values_or_empty_def kb_lits)
qed

end
