(* ===== verification/KB_IssuerdMain.thy ===== *)
theory KB_IssuerdMain
  imports KB_IssuerdSound
begin

text \<open>
  The issuer daemon around the operations (\<open>crates/kerbridge-issuerd/src/main.rs\<close>, \<open>peer.rs\<close>,
  \<open>identity.rs\<close>): arguments, who may speak on the socket, the bounded number of requests in
  flight, the answer to one request with the audit record it leaves, and the listener as a
  transition system. The JSON codec is a parameter; the console log is not modelled.
\<close>

section \<open>Arguments and identities\<close>

datatype usage_error = ConfigNeedsPath | UnexpectedArgument str

definition DEFAULT_CONFIG_DIR :: str where [kb_lits]: "DEFAULT_CONFIG_DIR = lit ''/etc/kerbridge''"

fun usage_loop :: "str list \<Rightarrow> bool \<Rightarrow> str option \<Rightarrow> usage_error + (bool \<times> str) option" where
  "usage_loop [] ping config =
     Inr (Some (ping, case config of None \<Rightarrow> DEFAULT_CONFIG_DIR | Some c \<Rightarrow> c))"
| "usage_loop (arg # args) ping config =
     (if arg = lit ''-h'' \<or> arg = lit ''--help'' then Inr None
      else if arg = lit ''ping'' then usage_loop args True config
      else if arg = lit ''--config'' then
        (case args of [] \<Rightarrow> Inl ConfigNeedsPath | path # rest \<Rightarrow> usage_loop rest ping (Some path))
      else Inl (UnexpectedArgument arg))"

definition usage :: "str list \<Rightarrow> usage_error + (bool \<times> str) option" where
  "usage args = usage_loop args False None"

text \<open>\<open>identity::resolve\<close>: a name lookup fails, finds nothing, or finds the number.\<close>

datatype id_error = LookupFailed str str | NoSuchName str str

record issuerd_ids =
  id_socket_group :: "str option"
  id_socket_gid :: nat
  id_broker_user :: "str option"
  id_broker_uid :: nat

definition resolve_id :: "str \<Rightarrow> str \<Rightarrow> (str \<Rightarrow> unit + nat option) \<Rightarrow> id_error + nat" where
  "resolve_id key name find_id =
     rbind (map_err (\<lambda>_. LookupFailed key name) (find_id name)) (\<lambda>r. ok_or (NoSuchName key name) r)"

definition resolve :: "(str \<Rightarrow> unit + nat option) \<Rightarrow> (str \<Rightarrow> unit + nat option) \<Rightarrow> issuerd_ids \<Rightarrow> id_error + nat \<times> nat" where
  "resolve group_gid user_uid ids =
     rbind (case id_socket_group ids of Some name \<Rightarrow> resolve_id (lit ''socket_group'') name group_gid
            | None \<Rightarrow> Inr (id_socket_gid ids)) (\<lambda>gid.
     rbind (case id_broker_user ids of Some name \<Rightarrow> resolve_id (lit ''broker_user'') name user_uid
            | None \<Rightarrow> Inr (id_broker_uid ids)) (\<lambda>uid. Inr (gid, uid)))"

text \<open>\<open>peer::authorized\<close>: the kernel's answer for the connected peer, or a failure to get one.\<close>

definition authorized :: "unit + nat \<Rightarrow> nat \<Rightarrow> unit + nat" where
  "authorized peer broker_uid =
     (case peer of Inl e \<Rightarrow> Inl e | Inr u \<Rightarrow> if u = 0 \<or> u = broker_uid then Inr u else Inl ())"

lemma resolve_name_never_falls_back:
  assumes "resolve group_gid user_uid ids = Inr (gid, uid)"
  shows "(case id_socket_group ids of None \<Rightarrow> gid = id_socket_gid ids | Some n \<Rightarrow> group_gid n = Inr (Some gid))
    \<and> (case id_broker_user ids of None \<Rightarrow> uid = id_broker_uid ids | Some n \<Rightarrow> user_uid n = Inr (Some uid))"
  using assms by (auto simp: resolve_def resolve_id_def kb_results split: option.splits)

section \<open>Answering one request\<close>

definition safe_id :: "str \<Rightarrow> str" where
  "safe_id rid =
     (let clean = take 64 (filter (\<lambda>c. ascii_alphanumeric c \<or> c = c_dash) rid)
      in if clean = [] then lit ''-'' else clean)"

definition audit_line :: "str \<Rightarrow> str" where
  "audit_line msg = lit ''[issuerd] '' @ msg"

text \<open>The response of a directory write and the audit record it leaves, if any.\<close>

definition written :: "str \<Rightarrow> str \<Rightarrow> issue_error + unit \<Rightarrow> str option \<Rightarrow> response \<times> str list" where
  "written verb request_id outcome subject =
     (case outcome of
        Inr _ \<Rightarrow>
          (RespDone request_id,
           case subject of
             None \<Rightarrow> []
           | Some thumbprint \<Rightarrow>
               [audit_line (verb @ lit '' '' @ safe_id request_id @ lit '' ''
                  @ (case short_id thumbprint of None \<Rightarrow> lit ''-'' | Some i \<Rightarrow> i))])
      | Inl e \<Rightarrow> (RespError request_id e, []))"

definition respond :: "'w host \<Rightarrow> issuerd_config \<Rightarrow> request \<Rightarrow> 'w pstate \<Rightarrow> (response \<times> str list) \<times> 'w pstate" where
  "respond h cfg req s =
     (case req of
        Ping \<Rightarrow> ((RespPong True, []), s)
      | Issue r \<Rightarrow>
          (case issue h cfg r s of
             (Inr t, s') \<Rightarrow>
               ((RespOk t, [audit_line (lit ''ISSUE '' @ safe_id (ir_request_id r) @ lit '' '' @ tk_principal t
                   @ lit '' expires '' @ tk_expires_at t)]), s')
           | (Inl e, s') \<Rightarrow> ((RespError (ir_request_id r) e, []), s'))
      | GrantDevice r \<Rightarrow>
          (case grant_device h cfg r s of
             (out, s') \<Rightarrow> (written (lit ''GRANT '') (gd_request_id r) out (Some (gd_thumbprint r)), s'))
      | RevokeGrant r \<Rightarrow>
          (case revoke_grant h cfg r s of
             (out, s') \<Rightarrow> (written (lit ''REVOKE'') (rg_request_id r) out (Some (rg_thumbprint r)), s'))
      | TouchGrant r \<Rightarrow>
          (case touch_grant h cfg r s of
             (out, s') \<Rightarrow> (written (lit ''TOUCH '') (tg_request_id r) out None, s')))"

definition handle ::
  "'w host \<Rightarrow> issuerd_config \<Rightarrow> (byte list \<Rightarrow> request option) \<Rightarrow> (response \<Rightarrow> byte list option)
    \<Rightarrow> byte list \<Rightarrow> 'w pstate \<Rightarrow> (byte list option \<times> str list) \<times> 'w pstate" where
  "handle h cfg from_json to_json stream s =
     (case read_frame stream of
        Inl e \<Rightarrow> ((None, []), s)
      | Inr (frame, _) \<Rightarrow>
          (case (case from_json frame of
                   None \<Rightarrow> ((RespError (lit ''-'') bad_request, []), s)
                 | Some req \<Rightarrow> respond h cfg req s) of
             ((response, audit), s') \<Rightarrow>
               ((Option.bind (to_json response) (\<lambda>body. ok (write_frame body)), audit), s')))"

section \<open>The listener\<close>

definition slot_claim :: "nat \<Rightarrow> nat \<Rightarrow> nat option" where
  "slot_claim counter most = (if counter < most then Some (counter + 1) else None)"

definition slot_drop :: "nat \<Rightarrow> nat" where
  "slot_drop counter = (counter + (2 ^ 64 - 1)) mod 2 ^ 64"

record listener =
  ls_inflight :: nat
  ls_running :: "nat list"

text \<open>
  The accept loop and the handler threads. A connection is an answer of the kernel about its
  peer; a handler that ends, however it ends, gives its slot back.
\<close>

inductive listener_step :: "nat \<Rightarrow> nat \<Rightarrow> listener \<Rightarrow> listener \<Rightarrow> bool" for broker_uid most where
  refuse_peer: "authorized peer broker_uid = Inl e \<Longrightarrow> listener_step broker_uid most l l"
| refuse_full: "authorized peer broker_uid = Inr u \<Longrightarrow> slot_claim (ls_inflight l) most = None
    \<Longrightarrow> listener_step broker_uid most l l"
| accept: "authorized peer broker_uid = Inr u \<Longrightarrow> slot_claim (ls_inflight l) most = Some n
    \<Longrightarrow> listener_step broker_uid most l (l\<lparr>ls_inflight := n, ls_running := ls_running l @ [u]\<rparr>)"
| finish: "i < length (ls_running l)
    \<Longrightarrow> listener_step broker_uid most l
          (l\<lparr>ls_inflight := slot_drop (ls_inflight l), ls_running := take i (ls_running l) @ drop (Suc i) (ls_running l)\<rparr>)"

definition listener_start :: listener where
  "listener_start = \<lparr>ls_inflight = 0, ls_running = []\<rparr>"

abbreviation listener_reaches :: "nat \<Rightarrow> nat \<Rightarrow> listener \<Rightarrow> bool" where
  "listener_reaches broker_uid most l \<equiv> (listener_step broker_uid most)\<^sup>*\<^sup>* listener_start l"

definition listener_inv :: "nat \<Rightarrow> nat \<Rightarrow> listener \<Rightarrow> bool" where
  "listener_inv broker_uid most l \<longleftrightarrow>
     ls_inflight l = length (ls_running l) \<and> ls_inflight l \<le> most
     \<and> list_all (\<lambda>u. u = 0 \<or> u = broker_uid) (ls_running l)"

lemma slot_drop_pos:
  assumes "0 < n" "n < 2 ^ 64"
  shows "slot_drop n = n - 1"
proof -
  obtain k where k: "n = Suc k" using assms(1) by (cases n) auto
  have "slot_drop n = (k + 2 ^ 64) mod 2 ^ 64" by (simp add: slot_drop_def k)
  also have "\<dots> = k" using assms(2) k by (simp only: mod_add_self2) simp
  finally show ?thesis by (simp add: k)
qed

lemma authorized_Inr: "authorized p b = Inr u \<Longrightarrow> u = 0 \<or> u = b"
  by (auto simp: authorized_def split: sum.splits if_splits)

lemma listener_step_inv:
  assumes "listener_step b m l l'" "listener_inv b m l" "m < 2 ^ 64"
  shows "listener_inv b m l'"
  using assms
proof cases
  case (finish i)
  then have "0 < ls_inflight l" "ls_inflight l < 2 ^ 64" using assms(2,3) by (auto simp: listener_inv_def)
  then have "slot_drop (ls_inflight l) = ls_inflight l - 1" by (rule slot_drop_pos)
  with finish assms(2) show ?thesis
    by (auto simp: listener_inv_def list_all_iff dest: in_set_takeD in_set_dropD)
qed (auto simp: listener_inv_def slot_claim_def dest: authorized_Inr split: if_splits)

lemma listener_reaches_inv:
  assumes "listener_reaches b m l" "m < 2 ^ 64"
  shows "listener_inv b m l"
  using assms(1)
proof (induction rule: rtranclp_induct)
  case base
  show ?case by (simp add: listener_inv_def listener_start_def)
qed (use listener_step_inv assms(2) in blast)

lemma listener_drains:
  assumes "listener_inv b m l" "m < 2 ^ 64"
  shows "(listener_step b m)\<^sup>*\<^sup>* l \<lparr>ls_inflight = 0, ls_running = []\<rparr>"
  using assms(1)
proof (induction "length (ls_running l)" arbitrary: l)
  case 0
  then have "l = \<lparr>ls_inflight = 0, ls_running = []\<rparr>" by (cases l) (simp add: listener_inv_def)
  then show ?case by simp
next
  case (Suc n)
  let ?l = "l\<lparr>ls_inflight := slot_drop (ls_inflight l), ls_running := take 0 (ls_running l) @ drop (Suc 0) (ls_running l)\<rparr>"
  have step: "listener_step b m l ?l" using Suc.hyps(2) by (intro listener_step.finish) linarith
  from listener_step_inv [OF step Suc.prems assms(2)] have "listener_inv b m ?l" .
  moreover have "n = length (ls_running ?l)" using Suc.hyps(2) by simp
  ultimately have "(listener_step b m)\<^sup>*\<^sup>* ?l \<lparr>ls_inflight = 0, ls_running = []\<rparr>" by (intro Suc.hyps(1))
  with step show ?case by (rule converse_rtranclp_into_rtranclp)
qed

section \<open>The audit record is one line per action\<close>

lemma digits_no_newline: "10 \<notin> set (pad_dec w n)" "10 \<notin> set (show_dec n)"
  using pad_dec_digits [of w n] show_dec_digits [of n] by (auto simp: list_all_iff is_ascii_digit_def)

lemma rfc3339_no_newline: "10 \<notin> set (rfc3339 n)"
  by (simp add: rfc3339_def Let_def digits_no_newline kb_lits split: prod.splits)

lemma safe_id_chars: "c \<in> set (safe_id i) \<Longrightarrow> ascii_alphanumeric c \<or> c = c_dash"
  by (auto simp: safe_id_def Let_def kb_lits dest: in_set_takeD split: if_splits)

lemma safe_id_no_newline: "10 \<notin> set (safe_id i)"
  using safe_id_chars [of 10 i] by (auto simp: ascii_alphanumeric_def is_ascii_digit_def)

lemma hex08_no_newline: "10 \<notin> set (hex08 w)"
  by (auto simp: hex08_def hex_digit_def)

lemma short_id_no_newline: "short_id t = Some i \<Longrightarrow> 10 \<notin> set i"
  by (auto simp: short_id_def Let_def hex08_no_newline split: option.splits if_splits)

lemma written_lines:
  "written verb i out subj = (r, audit) \<Longrightarrow> 10 \<notin> set verb \<Longrightarrow> l \<in> set audit \<Longrightarrow> 10 \<notin> set l"
  by (auto simp: written_def audit_line_def kb_lits safe_id_no_newline short_id_no_newline split: sum.splits option.splits)

lemma validate_no_newline:
  assumes "unicode_tables u" "validate u sam = Inr ()"
  shows "10 \<notin> set sam"
  using assms(2) unicode_tables.allowed_not_space [OF assms(1), of 10]
  by (auto simp: validate_Inr is_whitespace_def)

lemma issue_principal:
  assumes "issue h cfg r s = (Inr t, s')"
  shows "\<exists>sam n. tk_principal t = sam @ lit ''@'' @ ic_realm cfg \<and> validate (h_unicode h) sam = Inr ()
    \<and> tk_expires_at t = rfc3339 n"
proof -
  obtain a s1 where a: "lookup_account h cfg (ir_account_sid r) s = (Inr a, s1)"
    "tk_principal t = ac_sam_account_name a @ lit ''@'' @ ic_realm cfg" "\<exists>n. tk_expires_at t = rfc3339 n"
    using issue_Inr [OF assms] by blast
  obtain e where "eligible_entry (h_unicode h) e a" using lookup_account_eligible [OF a(1)] by blast
  with a(2,3) show ?thesis unfolding eligible_entry_def by blast
qed

lemma respond_lines:
  assumes "unicode_tables (h_unicode h)" "10 \<notin> set (ic_realm cfg)"
    "respond h cfg req s = ((resp, audit), s')" "l \<in> set audit"
  shows "10 \<notin> set l"
proof (cases req)
  case (Issue r)
  with assms(3,4) obtain t where t: "issue h cfg r s = (Inr t, s')"
    "l = audit_line (lit ''ISSUE '' @ safe_id (ir_request_id r) @ lit '' '' @ tk_principal t @ lit '' expires '' @ tk_expires_at t)"
    by (auto simp: respond_def split: prod.splits sum.splits)
  obtain sam n where p: "tk_principal t = sam @ lit ''@'' @ ic_realm cfg" "validate (h_unicode h) sam = Inr ()"
    "tk_expires_at t = rfc3339 n" using issue_principal [OF t(1)] by blast
  show ?thesis using assms(2) validate_no_newline [OF assms(1) p(2)]
    by (simp add: t(2) p audit_line_def safe_id_no_newline rfc3339_no_newline) (simp add: kb_lits)
qed (use assms(3,4) in \<open>auto simp: respond_def kb_lits split: prod.splits dest!: written_lines\<close>)

section \<open>Properties\<close>

text \<open>
  C35 (KB_IssuerdMain.listener_bounded). In every reachable state of the accept loop the counter
  of requests in flight equals the number of running handlers and never exceeds the configured
  maximum, it never wraps below zero, and every running handler serves a peer the kernel
  identified as root or the broker.
\<close>

theorem listener_bounded:
  assumes "listener_reaches broker_uid most l" "most < 2 ^ 64"
  shows "ls_inflight l = length (ls_running l) \<and> length (ls_running l) \<le> most
    \<and> set (ls_running l) \<subseteq> {0, broker_uid}"
  using listener_reaches_inv [OF assms] by (auto simp: listener_inv_def list_all_iff)

lemma sample_listener: "listener_reaches 10001 2 \<lparr>ls_inflight = 1, ls_running = [10001]\<rparr>"
proof -
  have "listener_step 10001 2 listener_start
      (listener_start\<lparr>ls_inflight := 1, ls_running := ls_running listener_start @ [10001]\<rparr>)"
    by (rule listener_step.accept [where peer = "Inr 10001"])
      (simp_all add: authorized_def slot_claim_def listener_start_def)
  then show ?thesis by (simp add: listener_start_def r_into_rtranclp)
qed

theorem listener_bounded_witness:
  "listener_reaches 10001 2 \<lparr>ls_inflight = 1, ls_running = [10001]\<rparr> \<and> length [10001::nat] \<le> 2"
  using listener_bounded [OF sample_listener] sample_listener by simp

text \<open>
  Fact (KB_IssuerdMain.listener_recovers). The bound cannot wedge the daemon: from every reachable
  state the handlers in flight can end, each giving its slot back, and then a new connection of
  the broker is accepted.
\<close>

theorem listener_recovers:
  assumes "listener_reaches broker_uid most l" "most < 2 ^ 64" "0 < most"
  shows "(listener_step broker_uid most)\<^sup>*\<^sup>* l \<lparr>ls_inflight = 1, ls_running = [broker_uid]\<rparr>"
proof -
  let ?e = "\<lparr>ls_inflight = 0, ls_running = []\<rparr> :: listener"
  have "(listener_step broker_uid most)\<^sup>*\<^sup>* l ?e"
    using listener_drains listener_reaches_inv [OF assms(1,2)] assms(2) by blast
  moreover have "listener_step broker_uid most ?e (?e\<lparr>ls_inflight := 1, ls_running := ls_running ?e @ [broker_uid]\<rparr>)"
    using assms(3) by (intro listener_step.accept [where peer = "Inr broker_uid"]) (simp_all add: authorized_def slot_claim_def)
  ultimately show ?thesis by (simp add: rtranclp.rtrancl_into_rtrancl)
qed

theorem listener_recovers_witness:
  "(listener_step 10001 2)\<^sup>*\<^sup>* \<lparr>ls_inflight = 1, ls_running = [10001]\<rparr> \<lparr>ls_inflight = 1, ls_running = [10001]\<rparr>"
  using listener_recovers [OF sample_listener] by simp

text \<open>
  C34 (KB_IssuerdMain.every_ticket_audited). A ticket leaves the issuer only together with one
  audit record that names the account, and no record of any request contains a line break:
  the caller's request id, thumbprint and label cannot write a line of their own.
\<close>

theorem every_ticket_audited:
  assumes "unicode_tables (h_unicode h)" "10 \<notin> set (ic_realm cfg)"
    "respond h cfg req s = ((resp, audit), s')"
  shows "list_all (\<lambda>l. 10 \<notin> set l) audit
    \<and> (\<forall>t. resp = RespOk t \<longrightarrow> (\<exists>i x. audit = [audit_line (lit ''ISSUE '' @ i @ lit '' '' @ tk_principal t @ x)]))"
proof -
  have "list_all (\<lambda>l. 10 \<notin> set l) audit" using respond_lines [OF assms] by (simp add: list_all_iff)
  moreover have "\<exists>i x. audit = [audit_line (lit ''ISSUE '' @ i @ lit '' '' @ tk_principal t @ x)]" if "resp = RespOk t" for t
    using assms(3) that
    by (cases req) (auto simp: respond_def written_def split: prod.splits sum.splits)
  ultimately show ?thesis by blast
qed

theorem every_ticket_audited_witness:
  "\<exists>t i x s'. respond (observed sample_host) sample_config (Issue sample_issue_request) sample_state
     = ((RespOk t, [audit_line (lit ''ISSUE '' @ i @ lit '' '' @ tk_principal t @ x)]), s')"
proof -
  obtain t s' where "issue (observed sample_host) sample_config sample_issue_request sample_state = (Inr t, s')"
    using sample_issued by blast
  then obtain audit where r: "respond (observed sample_host) sample_config (Issue sample_issue_request) sample_state
      = ((RespOk t, audit), s')" by (simp add: respond_def)
  have "unicode_tables (h_unicode (observed sample_host))"
    using block.unicode_tables_axioms by (simp add: sample_host_def stocked_host_def)
  moreover have "10 \<notin> set (ic_realm sample_config)" by (simp add: sample_config_def kb_lits)
  ultimately obtain i x where "audit = [audit_line (lit ''ISSUE '' @ i @ lit '' '' @ tk_principal t @ x)]"
    using every_ticket_audited [OF _ _ r] by auto
  with r show ?thesis by (intro exI) simp
qed

end
