(* ===== verification/KB_Device.thy ===== *)
theory KB_Device
  imports KB_Grant "HOL-Library.AList"
begin

text \<open>
  Device-grant assertions and the nonce store of the broker
  (\<open>crates/kerbridge-broker/src/device/mod.rs\<close>). Base64, JSON, the digest and the signature are
  crates the source calls: they are the record \<open>crypto\<close>. The store is the content of the mutex,
  an association list from outstanding nonces to their expiry; every operation holds the lock
  for its whole length, so operations are interleaved as whole steps.
\<close>

section \<open>Nonces\<close>

record nonces =
  nc_ttl :: nat
  nc_max :: nat
  nc_inner :: "(str \<times> int) list"

definition new_nonces :: "nat \<Rightarrow> nat \<Rightarrow> nonces" where
  "new_nonces ttl most = \<lparr>nc_ttl = ttl, nc_max = most, nc_inner = []\<rparr>"

definition nonces_issue :: "(byte list \<Rightarrow> str) \<Rightarrow> byte list option \<Rightarrow> int \<Rightarrow> nonces \<Rightarrow> str option \<times> nonces" where
  "nonces_issue b64url_encode random now ns =
     (case random of
        None \<Rightarrow> (None, ns)
      | Some bytes \<Rightarrow>
          let nonce = b64url_encode bytes;
              expiry = now + int (nc_ttl ns);
              live = filter (\<lambda>(_, e). e > now) (nc_inner ns)
          in if length live \<ge> nc_max ns then (None, ns\<lparr>nc_inner := live\<rparr>)
             else (Some nonce, ns\<lparr>nc_inner := AList.update nonce expiry live\<rparr>))"

definition nonces_consume :: "str \<Rightarrow> int \<Rightarrow> nonces \<Rightarrow> bool \<times> nonces" where
  "nonces_consume nonce now ns =
     (case map_of (nc_inner ns) nonce of
        None \<Rightarrow> False
      | Some expiry \<Rightarrow> expiry > now,
      ns\<lparr>nc_inner := AList.delete nonce (nc_inner ns)\<rparr>)"

definition nonces_inv :: "nonces \<Rightarrow> bool" where
  "nonces_inv ns \<longleftrightarrow> distinct (map fst (nc_inner ns)) \<and> length (nc_inner ns) \<le> nc_max ns"

lemma distinct_keys_filter: "distinct (map fst xs) \<Longrightarrow> distinct (map fst (filter P xs))"
  by (induction xs) auto

lemma length_update_le: "length (AList.update k v xs) \<le> Suc (length xs)"
  by (induction xs) auto

lemma nonces_issue_inv: "nonces_inv ns \<Longrightarrow> nonces_inv (snd (nonces_issue e r now ns))"
proof -
  assume i: "nonces_inv ns"
  have f: "length (filter (\<lambda>(_, e). now < e) (nc_inner ns)) \<le> length (nc_inner ns)" by (rule length_filter_le)
  show ?thesis using i f length_update_le
    by (auto simp: nonces_issue_def nonces_inv_def Let_def distinct_keys_filter distinct_update
        intro: le_trans [OF length_update_le] le_antisym le_trans [OF length_filter_le] split: option.splits)
qed

lemma nonces_consume_inv: "nonces_inv ns \<Longrightarrow> nonces_inv (snd (nonces_consume n now ns))"
  by (auto simp: nonces_consume_def nonces_inv_def distinct_delete
      intro: le_trans [OF length_delete_le])

lemma consume_spends:
  "fst (nonces_consume n now ns) \<Longrightarrow> map_of (nc_inner (snd (nonces_consume n now ns))) n = None"
  by (simp add: nonces_consume_def delete_conv')

section \<open>Assertions\<close>

record payload =
  pl_identity :: str
  pl_key :: str
  pl_nonce :: str
  pl_aud :: str
  pl_exp :: int

record crypto =
  cr_b64url :: "str \<Rightarrow> byte list option"
  cr_b64url_encode :: "byte list \<Rightarrow> str"
  cr_payload :: "byte list \<Rightarrow> payload option"
  cr_sha256 :: "byte list \<Rightarrow> byte list"
  cr_ecdsa :: "byte list \<Rightarrow> byte list \<Rightarrow> byte list \<Rightarrow> bool"

definition P256_POINT_LEN :: nat where "P256_POINT_LEN = 65"
definition P256_SIGNATURE_LEN :: nat where "P256_SIGNATURE_LEN = 64"
definition MAX_ASSERTION_LIFETIME :: int where "MAX_ASSERTION_LIFETIME = 300"

datatype reject =
    NotTwoParts | PayloadNotBase64 | PayloadNotJson | WrongAudience | AssertionExpired | AssertionTooLong
  | KeyNotBase64 | KeyNotPoint | SignatureNotBase64 | SignatureNotFixed | SignatureInvalid | NonceRefused
  | IdentityUndecodable identity_error

record device_proof =
  dp_identity :: external_identity
  dp_thumbprint :: str

definition device_thumbprint :: "crypto \<Rightarrow> byte list \<Rightarrow> str" where
  "device_thumbprint c key = cr_b64url_encode c (cr_sha256 c key)"

text \<open>Everything checked before the nonce: the payload and the key of an assertion that is signed.\<close>

definition checked_assertion :: "crypto \<Rightarrow> str \<Rightarrow> str \<Rightarrow> int \<Rightarrow> reject + payload \<times> byte list" where
  "checked_assertion c assertion audience now =
     (case split_on c_dot assertion of
        [payload_b64, sig_b64] \<Rightarrow>
          rbind (ok_or PayloadNotBase64 (cr_b64url c payload_b64)) (\<lambda>raw.
          rbind (ok_or PayloadNotJson (cr_payload c raw)) (\<lambda>p.
          rbind (guard (pl_aud p = audience) WrongAudience) (\<lambda>_.
          rbind (guard (now < pl_exp p) AssertionExpired) (\<lambda>_.
          rbind (guard (pl_exp p - now \<le> MAX_ASSERTION_LIFETIME) AssertionTooLong) (\<lambda>_.
          rbind (ok_or KeyNotBase64 (cr_b64url c (pl_key p))) (\<lambda>key.
          rbind (guard (length key = P256_POINT_LEN \<and> hd key = 4) KeyNotPoint) (\<lambda>_.
          rbind (ok_or SignatureNotBase64 (cr_b64url c sig_b64)) (\<lambda>signature.
          rbind (guard (length signature = P256_SIGNATURE_LEN) SignatureNotFixed) (\<lambda>_.
          rbind (guard (cr_ecdsa c key (utf8 payload_b64) signature) SignatureInvalid) (\<lambda>_.
            Inr (p, key)))))))))))
      | _ \<Rightarrow> Inl NotTwoParts)"

definition verify_assertion ::
  "crypto \<Rightarrow> str \<Rightarrow> str \<Rightarrow> int \<Rightarrow> nonces \<Rightarrow> (reject + device_proof) \<times> nonces" where
  "verify_assertion c assertion audience now ns =
     (case checked_assertion c assertion audience now of
        Inl e \<Rightarrow> (Inl e, ns)
      | Inr (p, key) \<Rightarrow>
          (case nonces_consume (pl_nonce p) now ns of
             (False, ns') \<Rightarrow> (Inl NonceRefused, ns')
           | (True, ns') \<Rightarrow>
               (rbind (map_err IdentityUndecodable (decode (pl_identity p))) (\<lambda>identity.
                  Inr \<lparr>dp_identity = identity, dp_thumbprint = device_thumbprint c key\<rparr>), ns')))"

definition is_grant_handle :: "str \<Rightarrow> bool" where
  "is_grant_handle h \<longleftrightarrow> utf8_len h = 8 \<and> list_all is_ascii_hexdigit h"

lemma checked_assertion_Inr:
  assumes "checked_assertion c a aud now = Inr (p, key)"
  shows "\<exists>b s raw sg. split_on c_dot a = [b, s] \<and> cr_b64url c b = Some raw \<and> cr_payload c raw = Some p
    \<and> pl_aud p = aud \<and> now < pl_exp p \<and> pl_exp p \<le> now + 300 \<and> cr_b64url c (pl_key p) = Some key
    \<and> length key = 65 \<and> hd key = 4 \<and> cr_b64url c s = Some sg \<and> length sg = 64 \<and> cr_ecdsa c key (utf8 b) sg"
  using assms
  by (auto simp: checked_assertion_def kb_results P256_POINT_LEN_def P256_SIGNATURE_LEN_def MAX_ASSERTION_LIFETIME_def
      split: list.splits)

section \<open>Sequences of operations\<close>

text \<open>
  What the broker's handlers do to the store, one whole operation at a time: handing out a
  nonce and spending one. The trace records what the clients saw.
\<close>

datatype nonce_op = NIssue "byte list option" int | NConsume str int
datatype nonce_event = Issued str int | Spent str int

fun nonce_trace :: "(byte list \<Rightarrow> str) \<Rightarrow> nonces \<Rightarrow> nonce_op list \<Rightarrow> nonce_event list" where
  "nonce_trace e ns [] = []"
| "nonce_trace e ns (NIssue r now # ops) =
     (case nonces_issue e r now ns of
        (Some n, ns') \<Rightarrow> Issued n (now + int (nc_ttl ns)) # nonce_trace e ns' ops
      | (None, ns') \<Rightarrow> nonce_trace e ns' ops)"
| "nonce_trace e ns (NConsume n now # ops) =
     (case nonces_consume n now ns of
        (True, ns') \<Rightarrow> Spent n now # nonce_trace e ns' ops
      | (False, ns') \<Rightarrow> nonce_trace e ns' ops)"

fun nonce_state :: "(byte list \<Rightarrow> str) \<Rightarrow> nonces \<Rightarrow> nonce_op list \<Rightarrow> nonces" where
  "nonce_state e ns [] = ns"
| "nonce_state e ns (NIssue r now # ops) = nonce_state e (snd (nonces_issue e r now ns)) ops"
| "nonce_state e ns (NConsume n now # ops) = nonce_state e (snd (nonces_consume n now ns)) ops"

definition spent_count :: "str \<Rightarrow> nonce_event list \<Rightarrow> nat" where
  "spent_count n evs = length (filter (\<lambda>ev. case ev of Spent m _ \<Rightarrow> m = n | _ \<Rightarrow> False) evs)"

definition issued_count :: "str \<Rightarrow> nonce_event list \<Rightarrow> nat" where
  "issued_count n evs = length (filter (\<lambda>ev. case ev of Issued m _ \<Rightarrow> m = n | _ \<Rightarrow> False) evs)"

lemma count_simps [simp]:
  "spent_count n [] = 0" "issued_count n [] = 0"
  "spent_count n (Issued m x # evs) = spent_count n evs"
  "spent_count n (Spent m x # evs) = (if m = n then Suc (spent_count n evs) else spent_count n evs)"
  "issued_count n (Issued m x # evs) = (if m = n then Suc (issued_count n evs) else issued_count n evs)"
  "issued_count n (Spent m x # evs) = issued_count n evs"
  by (simp_all add: spent_count_def issued_count_def)

lemma nonce_state_inv: "nonces_inv ns \<Longrightarrow> nonces_inv (nonce_state e ns ops)"
  by (induction e ns ops rule: nonce_state.induct) (simp_all add: nonces_issue_inv nonces_consume_inv)

text \<open>How often a nonce can still be spent: once while it is outstanding.\<close>

definition nonce_keys :: "nonces \<Rightarrow> str set" where
  "nonce_keys ns = fst ` set (nc_inner ns)"

definition outstanding :: "str \<Rightarrow> nonces \<Rightarrow> nat" where
  "outstanding n ns = (if n \<in> nonce_keys ns then 1 else 0)"

lemma keys_filter: "fst ` set (filter P xs) \<subseteq> fst ` set xs"
  by auto

lemma keys_delete: "fst ` set (AList.delete k xs) = fst ` set xs - {k}"
  by (induction xs) auto

lemma keys_update: "fst ` set (AList.update k v xs) = insert k (fst ` set xs)"
  by (induction xs) auto

lemma keys_issue:
  assumes "nonces_issue e r now ns = (out, ns')"
  shows "nonce_keys ns' \<subseteq> nonce_keys ns \<union> set_option out"
proof (cases r)
  case (Some bytes)
  define live where "live = filter (\<lambda>(_, e). e > now) (nc_inner ns)"
  have l: "fst ` set live \<subseteq> nonce_keys ns" unfolding live_def nonce_keys_def by (rule keys_filter)
  have "(out = None \<and> ns' = ns\<lparr>nc_inner := live\<rparr>)
    \<or> (out = Some (e bytes) \<and> ns' = ns\<lparr>nc_inner := AList.update (e bytes) (now + int (nc_ttl ns)) live\<rparr>)"
    using assms Some by (simp add: nonces_issue_def Let_def live_def split: if_splits)
  with l show ?thesis by (elim disjE conjE) (simp_all add: nonce_keys_def keys_update subset_insertI2)
qed (use assms in \<open>simp add: nonces_issue_def nonce_keys_def\<close>)

lemma keys_consume:
  assumes "nonces_consume m now ns = (b, ns')"
  shows "nonce_keys ns' = nonce_keys ns - {m}" "b \<Longrightarrow> m \<in> nonce_keys ns"
proof -
  have "ns' = ns\<lparr>nc_inner := AList.delete m (nc_inner ns)\<rparr>" using assms by (simp add: nonces_consume_def)
  then show "nonce_keys ns' = nonce_keys ns - {m}" by (simp add: nonce_keys_def keys_delete)
  show "b \<Longrightarrow> m \<in> nonce_keys ns"
    using assms by (force simp: nonces_consume_def nonce_keys_def dest: map_of_SomeD split: option.splits)
qed

lemma outstanding_issue:
  assumes "nonces_issue e r now ns = (out, ns')"
  shows "outstanding n ns' \<le> (if out = Some n then 1 else outstanding n ns)"
  using keys_issue [OF assms] by (cases out) (auto simp: outstanding_def)

lemma outstanding_consume:
  assumes "nonces_consume m now ns = (b, ns')"
  shows "outstanding n ns' + (if b \<and> m = n then 1 else 0) \<le> outstanding n ns"
  using keys_consume [OF assms] by (auto simp: outstanding_def)

lemma spent_at_most:
  "nonces_inv ns \<Longrightarrow> spent_count n (nonce_trace e ns ops) \<le> issued_count n (nonce_trace e ns ops) + outstanding n ns"
proof (induction ops arbitrary: ns)
  case (Cons op ops)
  show ?case
  proof (cases op)
    case (NIssue r now)
    obtain out ns' where o: "nonces_issue e r now ns = (out, ns')" by (cases "nonces_issue e r now ns")
    have "nonces_inv ns'" using nonces_issue_inv [OF Cons.prems, of e r now] o by simp
    from Cons.IH [OF this] outstanding_issue [OF o, of n] NIssue o show ?thesis
      by (cases out) (auto split: if_splits)
  next
    case (NConsume m now)
    obtain b ns' where o: "nonces_consume m now ns = (b, ns')" by (cases "nonces_consume m now ns")
    have "nonces_inv ns'" using nonces_consume_inv [OF Cons.prems, of m now] o by simp
    from Cons.IH [OF this] outstanding_consume [OF o, of n] NConsume o show ?thesis
      by (cases b) (auto split: if_splits)
  qed
qed simp


lemma nonce_state_max [simp]: "nc_max (nonce_state e ns ops) = nc_max ns"
  by (induction e ns ops rule: nonce_state.induct)
     (simp_all add: nonces_issue_def nonces_consume_def Let_def split: option.splits)

lemma nonce_absent:
  assumes "issued_count n (nonce_trace e ns ops) = 0" and "n \<notin> nonce_keys ns"
  shows "n \<notin> nonce_keys (nonce_state e ns ops)"
  using assms
proof (induction ops arbitrary: ns)
  case (Cons op ops)
  show ?case
  proof (cases op)
    case (NIssue r now)
    obtain out ns' where o: "nonces_issue e r now ns = (out, ns')" by (cases "nonces_issue e r now ns")
    have i: "issued_count n (nonce_trace e ns' ops) = 0" and d: "out \<noteq> Some n"
      using Cons.prems(1) NIssue o by (auto split: option.splits if_splits)
    have "n \<notin> nonce_keys ns'" using keys_issue [OF o] Cons.prems(2) d by (cases out) auto
    with Cons.IH [OF i] NIssue o show ?thesis by simp
  next
    case (NConsume m now)
    obtain b ns' where o: "nonces_consume m now ns = (b, ns')" by (cases "nonces_consume m now ns")
    have "issued_count n (nonce_trace e ns' ops) = 0" using Cons.prems(1) NConsume o by (auto split: bool.splits)
    moreover have "n \<notin> nonce_keys ns'" using keys_consume(1) [OF o] Cons.prems(2) by simp
    ultimately show ?thesis using Cons.IH NConsume o by simp
  qed
qed simp

section \<open>What a proof is worth\<close>

text \<open>What has to be true of an assertion before its nonce is looked at.\<close>

definition signed_for :: "crypto \<Rightarrow> str \<Rightarrow> str \<Rightarrow> int \<Rightarrow> payload \<Rightarrow> byte list \<Rightarrow> bool" where
  "signed_for c assertion audience now p key \<longleftrightarrow>
     (\<exists>b s raw sg. assertion = b @ [c_dot] @ s \<and> c_dot \<notin> set b \<and> c_dot \<notin> set s
        \<and> cr_b64url c b = Some raw \<and> cr_payload c raw = Some p
        \<and> cr_b64url c (pl_key p) = Some key \<and> length key = 65 \<and> hd key = 4
        \<and> cr_b64url c s = Some sg \<and> length sg = 64 \<and> cr_ecdsa c key (utf8 b) sg)
     \<and> pl_aud p = audience \<and> now < pl_exp p \<and> pl_exp p \<le> now + 300"

lemma split_on_one: "split_on d xs = [s] \<longleftrightarrow> s = xs \<and> d \<notin> set xs"
proof
  show "s = xs \<and> d \<notin> set xs \<Longrightarrow> split_on d xs = [s]" by (simp add: split_on_free)
  show "split_on d xs = [s] \<Longrightarrow> s = xs \<and> d \<notin> set xs"
  proof (induction xs arbitrary: s)
    case (Cons y ys) then show ?case by (auto split: if_splits list.splits)
  qed simp
qed

lemma split_on_two: "split_on d a = [b, s] \<longleftrightarrow> a = b @ [d] @ s \<and> d \<notin> set b \<and> d \<notin> set s"
proof
  show "a = b @ [d] @ s \<and> d \<notin> set b \<and> d \<notin> set s \<Longrightarrow> split_on d a = [b, s]"
    by (simp add: split_on_append split_on_free)
  show "split_on d a = [b, s] \<Longrightarrow> a = b @ [d] @ s \<and> d \<notin> set b \<and> d \<notin> set s"
  proof (induction a arbitrary: b)
    case (Cons x xs)
    show ?case
    proof (cases "x = d")
      case True
      with Cons.prems show ?thesis by (auto simp: split_on_one)
    next
      case False
      then obtain b' where "split_on d xs = [b', s]" "b = x # b'" using Cons.prems by (auto split: list.splits)
      with Cons.IH False show ?thesis by simp
    qed
  qed simp
qed

lemma checked_signed: "checked_assertion c a aud now = Inr (p, key) \<longleftrightarrow> signed_for c a aud now p key"
proof
  assume "checked_assertion c a aud now = Inr (p, key)"
  from checked_assertion_Inr [OF this] show "signed_for c a aud now p key"
    unfolding signed_for_def split_on_two by blast
next
  assume "signed_for c a aud now p key"
  then obtain b s raw sg where sp: "split_on c_dot a = [b, s]"
    and r: "cr_b64url c b = Some raw" "cr_payload c raw = Some p" "cr_b64url c (pl_key p) = Some key"
      "length key = 65" "hd key = 4" "cr_b64url c s = Some sg" "length sg = 64" "cr_ecdsa c key (utf8 b) sg"
    and t: "pl_aud p = aud" "now < pl_exp p" "pl_exp p \<le> now + 300"
    unfolding signed_for_def split_on_two by blast
  have m: "pl_exp p - now \<le> MAX_ASSERTION_LIFETIME" using t(3) by (simp add: MAX_ASSERTION_LIFETIME_def)
  show "checked_assertion c a aud now = Inr (p, key)"
    using r t(1,2) m by (simp add: checked_assertion_def sp rbind_def ok_or_def guard_def P256_POINT_LEN_def P256_SIGNATURE_LEN_def)
qed

text \<open>The refusals that are decided before the nonce is looked at.\<close>

definition before_nonce :: "reject \<Rightarrow> bool" where
  "before_nonce e = (case e of NonceRefused \<Rightarrow> False | IdentityUndecodable _ \<Rightarrow> False | _ \<Rightarrow> True)"

lemma before_nonce_simps [simp]:
  "before_nonce NotTwoParts" "before_nonce PayloadNotBase64" "before_nonce PayloadNotJson" "before_nonce WrongAudience"
  "before_nonce AssertionExpired" "before_nonce AssertionTooLong" "before_nonce KeyNotBase64" "before_nonce KeyNotPoint"
  "before_nonce SignatureNotBase64" "before_nonce SignatureNotFixed" "before_nonce SignatureInvalid"
  "\<not> before_nonce NonceRefused" "\<not> before_nonce (IdentityUndecodable x)"
  by (simp_all add: before_nonce_def)

lemma checked_rerrs: "rerrs (Collect before_nonce) (checked_assertion c a aud now)"
proof -
  have two: "rerrs E (case ps of [b, s] \<Rightarrow> f b s | _ \<Rightarrow> Inl e)"
    if "\<And>b s. rerrs E (f b s)" "rerrs E (Inl e :: reject + payload \<times> byte list)" for E e ps and f :: "str \<Rightarrow> str \<Rightarrow> reject + payload \<times> byte list"
    using that by (auto split: list.split)
  show ?thesis unfolding checked_assertion_def by (rule two) (intro err_intros, simp_all)+
qed

lemma checked_before_nonce: "checked_assertion c a aud now = Inl e \<Longrightarrow> before_nonce e"
  using checked_rerrs by (fastforce simp: rerrs_def)

lemma consume_nonce:
  "nonces_consume n now ns =
     (\<exists>expiry. map_of (nc_inner ns) n = Some expiry \<and> now < expiry, ns\<lparr>nc_inner := AList.delete n (nc_inner ns)\<rparr>)"
  by (simp add: nonces_consume_def split: option.splits)

text \<open>
  C8 (KB_Device.assertion_verdict). What verifying an assertion answers, and what it leaves of the store, for every
  assertion. One that is two parts, whose payload is signed by the key it carries, names this
  deployment and expires within five minutes always spends its nonce: the answer is a refusal
  when the nonce was not outstanding or had expired, a refusal when its identity does not
  decode, and otherwise the proof of the claimed identity with the thumbprint of that key.
  Every other assertion is refused by a check that precedes the nonce and leaves the store as it was, so
  that only holders of a key can empty it.
\<close>

theorem assertion_verdict:
  "(\<forall>p key. signed_for c a aud now p key \<longrightarrow>
      verify_assertion c a aud now ns =
        (if \<exists>expiry. map_of (nc_inner ns) (pl_nonce p) = Some expiry \<and> now < expiry
         then (case decode (pl_identity p) of
                 Inl x \<Rightarrow> Inl (IdentityUndecodable x)
               | Inr i \<Rightarrow> Inr \<lparr>dp_identity = i, dp_thumbprint = device_thumbprint c key\<rparr>)
         else Inl NonceRefused,
         ns\<lparr>nc_inner := AList.delete (pl_nonce p) (nc_inner ns)\<rparr>))
   \<and> ((\<nexists>p key. signed_for c a aud now p key) \<longrightarrow>
      (\<exists>e. verify_assertion c a aud now ns = (Inl e, ns) \<and> before_nonce e))"
proof (cases "checked_assertion c a aud now")
  case (Inl e)
  then have "\<nexists>p key. signed_for c a aud now p key" by (simp flip: checked_signed)
  with Inl checked_before_nonce [OF Inl] show ?thesis by (simp add: verify_assertion_def)
next
  case (Inr pk)
  obtain p key where pk: "pk = (p, key)" by (cases pk)
  have one: "signed_for c a aud now q k \<longleftrightarrow> q = p \<and> k = key" for q k
    using Inr pk by (auto simp flip: checked_signed)
  show ?thesis unfolding one verify_assertion_def Inr pk consume_nonce
    by (auto simp: rbind_def map_err_def split: sum.splits bool.splits)
qed

text \<open>
  C27 (KB_Device.nonce_store_one_shot). From an empty store, whatever sequence of requests hands nonces out and
  presents them: a nonce is spent at most as often as it was handed out, and the store never
  holds more than its ceiling.
\<close>

theorem nonce_store_one_shot:
  "spent_count n (nonce_trace e (new_nonces ttl most) ops) \<le> issued_count n (nonce_trace e (new_nonces ttl most) ops)
   \<and> length (nc_inner (nonce_state e (new_nonces ttl most) ops)) \<le> most"
proof -
  have i: "nonces_inv (new_nonces ttl most)" by (simp add: nonces_inv_def new_nonces_def)
  have "outstanding n (new_nonces ttl most) = 0" by (simp add: outstanding_def nonce_keys_def new_nonces_def)
  with spent_at_most [OF i, of n e ops] nonce_state_inv [OF i, of e ops]
  show ?thesis by (simp add: nonces_inv_def) (simp add: new_nonces_def)
qed

text \<open>
  Fact (KB_Device.replay_refused). An assertion that was accepted is never accepted again, at any time and after any
  sequence of requests, as long as the generator does not hand out the same nonce a second time.
\<close>

theorem replay_refused:
  assumes "verify_assertion c a aud now ns = (Inr pf, ns1)"
      and "checked_assertion c a aud now = Inr (p, key)"
      and "issued_count (pl_nonce p) (nonce_trace e ns1 ops) = 0"
  shows "\<exists>err. fst (verify_assertion c a aud later (nonce_state e ns1 ops)) = Inl err"
proof -
  obtain b ns' where n: "nonces_consume (pl_nonce p) now ns = (b, ns')" by (cases "nonces_consume (pl_nonce p) now ns")
  have "ns1 = ns'" using assms(1,2) n by (auto simp: verify_assertion_def split: bool.splits)
  then have "pl_nonce p \<notin> nonce_keys ns1" using keys_consume(1) [OF n] by simp
  then have g: "pl_nonce p \<notin> nonce_keys (nonce_state e ns1 ops)" using nonce_absent assms(3) by blast
  show ?thesis
  proof (cases "checked_assertion c a aud later")
    case (Inr pk)
    obtain p2 key2 where pk: "pk = (p2, key2)" by (cases pk)
    have "p2 = p" using checked_assertion_Inr [OF assms(2)] checked_assertion_Inr [OF Inr [unfolded pk]] by auto
    obtain b2 ns2 where n2: "nonces_consume (pl_nonce p) later (nonce_state e ns1 ops) = (b2, ns2)"
      by (cases "nonces_consume (pl_nonce p) later (nonce_state e ns1 ops)")
    have "\<not> b2" using keys_consume(2) [OF n2] g by blast
    with Inr pk n2 \<open>p2 = p\<close> show ?thesis by (simp add: verify_assertion_def)
  qed (simp add: verify_assertion_def)
qed

text \<open>A deployment whose codec is the identity on bytes, with one payload, for the witness.\<close>

definition sample_payload :: payload where
  "sample_payload = \<lparr>pl_identity = lit ''kb1|entra|ab'', pl_key = 4 # replicate 64 65, pl_nonce = lit ''n1'',
     pl_aud = lit ''kerbridge'', pl_exp = 150\<rparr>"

definition sample_crypto :: crypto where
  "sample_crypto = \<lparr>cr_b64url = \<lambda>s. Some (utf8 s), cr_b64url_encode = map unat,
     cr_payload = \<lambda>raw. if raw = utf8 (lit ''p'') then Some sample_payload else None,
     cr_sha256 = take 32, cr_ecdsa = \<lambda>key m sg. sg = replicate 64 66\<rparr>"

definition sample_assertion :: str where
  "sample_assertion = lit ''p.'' @ replicate 64 66"

definition sample_nonces :: nonces where
  "sample_nonces = \<lparr>nc_ttl = 120, nc_max = 2, nc_inner = [(lit ''n1'', 200)]\<rparr>"

lemma utf8_replicate: "c < 128 \<Longrightarrow> utf8 (replicate n c) = replicate n (word_of_nat c)"
  by (induction n) (simp_all add: utf8_def utf8_char_def)

lemma sample_checked:
  "checked_assertion sample_crypto sample_assertion (lit ''kerbridge'') 100 = Inr (sample_payload, 4 # replicate 64 65)"
proof -
  have k: "utf8 (4 # replicate 64 65) = (4::byte) # replicate 64 65"
    using utf8_replicate [of 65 64] by (simp add: utf8_def utf8_char_def)
  have sp: "split_on c_dot sample_assertion = [lit ''p'', replicate 64 66]"
    by (simp add: sample_assertion_def lit_def split_on_free)
  show ?thesis using k
    by (simp add: checked_assertion_def sp sample_crypto_def sample_payload_def rbind_def ok_or_def guard_def
        utf8_replicate P256_POINT_LEN_def P256_SIGNATURE_LEN_def MAX_ASSERTION_LIFETIME_def)
qed

definition sample_proof :: device_proof where
  "sample_proof = \<lparr>dp_identity = \<lparr>ei_source = Source (lit ''entra''), ei_subject = lit ''ab''\<rparr>,
     dp_thumbprint = 4 # replicate 31 65\<rparr>"

lemma sample_verified:
  "verify_assertion sample_crypto sample_assertion (lit ''kerbridge'') 100 sample_nonces
   = (Inr sample_proof, sample_nonces\<lparr>nc_inner := []\<rparr>)"
proof -
  have d: "decode (lit ''kb1|entra|ab'') = Inr (dp_identity sample_proof)" by code_simp
  have n: "nonces_consume (pl_nonce sample_payload) 100 sample_nonces = (True, sample_nonces\<lparr>nc_inner := []\<rparr>)" by code_simp
  have t: "device_thumbprint sample_crypto (4 # replicate 64 65) = dp_thumbprint sample_proof" by code_simp
  show ?thesis unfolding verify_assertion_def sample_checked
    using d n t by (simp add: sample_payload_def rbind_def map_err_def sample_proof_def)
qed

text \<open>Accepted once, refused the second time, and nothing spent by an assertion that is not signed.\<close>

theorem assertion_verdict_witness:
  "verify_assertion sample_crypto sample_assertion (lit ''kerbridge'') 100 sample_nonces
     = (Inr sample_proof, sample_nonces\<lparr>nc_inner := []\<rparr>)
   \<and> verify_assertion sample_crypto sample_assertion (lit ''kerbridge'') 100 (sample_nonces\<lparr>nc_inner := []\<rparr>)
     = (Inl NonceRefused, sample_nonces\<lparr>nc_inner := []\<rparr>)
   \<and> (\<exists>e. verify_assertion sample_crypto (lit ''p'') (lit ''kerbridge'') 100 sample_nonces = (Inl e, sample_nonces)
        \<and> before_nonce e)"
proof (intro conjI)
  have sg: "signed_for sample_crypto sample_assertion (lit ''kerbridge'') 100 sample_payload (4 # replicate 64 65)"
    using sample_checked by (simp add: checked_signed)
  have n: "nc_inner sample_nonces = [(pl_nonce sample_payload, 200)]" by (simp add: sample_nonces_def sample_payload_def)
  have d: "decode (pl_identity sample_payload) = Inr (dp_identity sample_proof)" by code_simp
  have t: "device_thumbprint sample_crypto (4 # replicate 64 65) = dp_thumbprint sample_proof" by code_simp
  note verdict = assertion_verdict [THEN conjunct1, rule_format, OF sg]
  show "verify_assertion sample_crypto sample_assertion (lit ''kerbridge'') 100 sample_nonces
     = (Inr sample_proof, sample_nonces\<lparr>nc_inner := []\<rparr>)"
    unfolding verdict n d t by simp
  show "verify_assertion sample_crypto sample_assertion (lit ''kerbridge'') 100 (sample_nonces\<lparr>nc_inner := []\<rparr>)
     = (Inl NonceRefused, sample_nonces\<lparr>nc_inner := []\<rparr>)"
    unfolding verdict by simp
  have "\<nexists>p key. signed_for sample_crypto (lit ''p'') (lit ''kerbridge'') 100 p key"
    by (auto simp: signed_for_def lit_def Cons_eq_append_conv)
  then show "\<exists>e. verify_assertion sample_crypto (lit ''p'') (lit ''kerbridge'') 100 sample_nonces = (Inl e, sample_nonces)
        \<and> before_nonce e"
    by (rule assertion_verdict [THEN conjunct2, rule_format])
qed

theorem replay_refused_witness:
  "\<exists>err. fst (verify_assertion sample_crypto sample_assertion (lit ''kerbridge'') 101
     (nonce_state (cr_b64url_encode sample_crypto) (sample_nonces\<lparr>nc_inner := []\<rparr>)
       [NIssue (Some [7]) 100, NConsume (lit ''n1'') 101])) = Inl err"
proof (rule replay_refused [OF sample_verified sample_checked])
  show "issued_count (pl_nonce sample_payload) (nonce_trace (cr_b64url_encode sample_crypto) (sample_nonces\<lparr>nc_inner := []\<rparr>)
    [NIssue (Some [7]) 100, NConsume (lit ''n1'') 101]) = 0" by code_simp
qed

end
