(* ===== verification/KB_BrokerDirectory.thy ===== *)
theory KB_BrokerDirectory
  imports KB_Device KB_Wire
begin

text \<open>
  The broker's view of the directory (\<open>crates/kerbridge-broker/src/directory/mod.rs\<close>): from an
  external identity to one account, and the rule for requests that name another account.

  What is outside the process is the record \<open>outside\<close>. Its state is passed on by every call, so
  the directory may change between two searches of one request. The state of a request also
  keeps the nonce store and a history \<open>bs_log\<close> of what was asked of the outside and what it
  answered; no operation reads the history. Log texts and the \<open>detail\<close> of a failure are not
  modelled.
\<close>

section \<open>The outside of the broker\<close>

datatype ldap_scope = Subtree | BaseObject

record ldap_query =
  lq_base :: str
  lq_scope :: ldap_scope
  lq_filter :: str
  lq_attrs :: "str list"

record search_entry =
  se_dn :: str
  se_attrs :: "str \<Rightarrow> str list option"
  se_bin_attrs :: "str \<Rightarrow> byte list list option"

datatype issuer_error = IssuerRefused str | IssuerUnavailable

datatype notice =
    Raise (nt_event: str) (nt_subject: str)
  | Resolve str
  | ResolveSubject str str

datatype broker_event =
    EvSearch ldap_query "search_entry list option"
  | EvIdentify str str nat "external_identity option"
  | EvIssuer request "issuer_error + response"
  | EvNotice notice
  | EvAudit str

record 'w outside =
  o_connect :: "'w \<Rightarrow> bool \<times> 'w"
  o_search :: "ldap_query \<Rightarrow> 'w \<Rightarrow> search_entry list option \<times> 'w"
  o_unbind :: "'w \<Rightarrow> 'w"
  o_identify :: "str \<Rightarrow> str \<Rightarrow> nat \<Rightarrow> 'w \<Rightarrow> external_identity option \<times> 'w"
  o_exchange :: "byte list \<Rightarrow> 'w \<Rightarrow> byte list option \<times> 'w"
  o_request_json :: "request \<Rightarrow> byte list option"
  o_response_json :: "byte list \<Rightarrow> response option"
  o_now :: "'w \<Rightarrow> nat option"
  o_random :: "nat \<Rightarrow> 'w \<Rightarrow> byte list option \<times> 'w"
  o_notify :: "notice \<Rightarrow> 'w \<Rightarrow> 'w"
  o_audit :: "str \<Rightarrow> 'w \<Rightarrow> 'w"
  o_crypto :: crypto

record 'w bstate =
  bs_nonces :: nonces
  bs_world :: 'w
  bs_log :: "broker_event list"

type_synonym ('w, 'e, 'a) act = "'w bstate \<Rightarrow> ('e + 'a) \<times> 'w bstate"

definition ret :: "'a \<Rightarrow> ('w, 'e, 'a) act" where "ret x s = (Inr x, s)"
definition fail_with :: "'e \<Rightarrow> ('w, 'e, 'a) act" where "fail_with e s = (Inl e, s)"
definition lift_result :: "'e + 'a \<Rightarrow> ('w, 'e, 'a) act" where "lift_result r s = (r, s)"

definition act_bind :: "('w, 'e, 'a) act \<Rightarrow> ('a \<Rightarrow> ('w, 'e, 'b) act) \<Rightarrow> ('w, 'e, 'b) act" where
  "act_bind m k s = (case m s of (Inl e, s') \<Rightarrow> (Inl e, s') | (Inr x, s') \<Rightarrow> k x s')"

named_theorems act_results \<open>inversion of composed broker actions\<close>

lemma act_simps [simp]:
  "ret x s = (Inr x, s)" "fail_with e s = (Inl e, s)" "lift_result r s = (r, s)"
  by (simp_all add: ret_def fail_with_def lift_result_def)

lemma act_bind_Inr [act_results]:
  "act_bind m k s = (Inr y, s') \<longleftrightarrow> (\<exists>x s1. m s = (Inr x, s1) \<and> k x s1 = (Inr y, s'))"
  by (auto simp: act_bind_def split: prod.splits sum.splits)

text \<open>The result \<open>t\<close> follows \<open>s\<close>: what was logged stays logged.\<close>

definition follows :: "'w bstate \<Rightarrow> 'w bstate \<Rightarrow> bool" where
  "follows s t \<longleftrightarrow> (\<exists>evs. bs_log t = bs_log s @ evs)"

lemma follows_refl [simp, intro]: "follows s s"
  by (simp add: follows_def)

lemma follows_trans [trans]: "follows r s \<Longrightarrow> follows s t \<Longrightarrow> follows r t"
  by (auto simp: follows_def)

lemma follows_log: "follows s t \<Longrightarrow> set (bs_log s) \<subseteq> set (bs_log t)"
  by (auto simp: follows_def)

text \<open>The events of one action, and an action that causes only events of a given set.\<close>

definition asked :: "'w bstate \<Rightarrow> 'w bstate \<Rightarrow> broker_event set" where
  "asked s t = set (drop (length (bs_log s)) (bs_log t))"

lemma asked_trans: "follows r s \<Longrightarrow> follows s t \<Longrightarrow> asked r t = asked r s \<union> asked s t"
  by (auto simp: asked_def follows_def)

lemma asked_refl [simp]: "asked s s = {}"
  by (simp add: asked_def)

lemma follows_world [simp]: "follows s (t\<lparr>bs_world := w\<rparr>) = follows s t" "follows (s\<lparr>bs_world := w\<rparr>) t = follows s t"
  by (simp_all add: follows_def)

lemma asked_world [simp]: "asked s (t\<lparr>bs_world := w\<rparr>) = asked s t" "asked (s\<lparr>bs_world := w\<rparr>) t = asked s t"
  by (simp_all add: asked_def)

definition logs_only :: "broker_event set \<Rightarrow> ('w, 'e, 'a) act \<Rightarrow> bool" where
  "logs_only E m \<longleftrightarrow> (\<forall>s r t. m s = (r, t) \<longrightarrow> follows s t \<and> asked s t \<subseteq> E)"

lemma logs_onlyI: "(\<And>s r t. m s = (r, t) \<Longrightarrow> follows s t \<and> asked s t \<subseteq> E) \<Longrightarrow> logs_only E m"
  by (simp add: logs_only_def)

lemma logs_onlyD: "logs_only E m \<Longrightarrow> m s = (r, t) \<Longrightarrow> follows s t \<and> asked s t \<subseteq> E"
  by (simp add: logs_only_def)

lemma logs_only_basic [simp, intro]: "logs_only E (ret x)" "logs_only E (fail_with e)" "logs_only E (lift_result r)" "logs_only E (Pair r)"
  by (simp_all add: logs_only_def)

lemma act_bindE:
  assumes "act_bind m k s = (Inr y, t)"
  obtains x s1 where "m s = (Inr x, s1)" "k x s1 = (Inr y, t)"
  using assms by (auto simp: act_results)

lemma logs_only_bind [intro]:
  assumes "logs_only E m" and "\<And>x. logs_only E (k x)"
  shows "logs_only E (act_bind m k)"
proof (rule logs_onlyI)
  fix s r t assume m: "act_bind m k s = (r, t)"
  obtain r1 s1 where 1: "m s = (r1, s1)" by (cases "m s")
  note f = logs_onlyD [OF assms(1) 1]
  show "follows s t \<and> asked s t \<subseteq> E"
  proof (cases r1)
    case (Inr x)
    then have "k x s1 = (r, t)" using m 1 by (simp add: act_bind_def)
    from logs_onlyD [OF assms(2) this] f show ?thesis using asked_trans [of s s1 t] follows_trans [of s s1 t] by blast
  qed (use m 1 f in \<open>simp add: act_bind_def\<close>)
qed

definition searches :: "broker_event set" where
  "searches = {ev. \<exists>q r. ev = EvSearch q r}"

section \<open>Accounts, targets and refusals\<close>

record directory =
  d_base_dn :: str
  d_role_base_dn :: str

record broker_account =
  ba_sid :: str
  ba_sam_account_name :: str
  ba_identity :: str
  ba_dn :: str
  ba_managed_objects :: "str list"
  ba_grants :: "device_grant list"

datatype target = TSam str | TIdentity external_identity

datatype target_error = EmptyTarget | NotIdentity identity_error | LooksLikeUpn

definition target_parse :: "str \<Rightarrow> target_error + target" where
  "target_parse raw =
     (let v = trim raw in
      if v = [] then Inl EmptyTarget
      else if starts_with v (lit ''kb1|'') then
        rbind (map_err NotIdentity (decode v)) (\<lambda>i. Inr (TIdentity i))
      else if c_at \<in> set v then Inl LooksLikeUpn
      else Inr (TSam v))"

fun target_filter :: "target \<Rightarrow> str" where
  "target_filter (TIdentity i) = ldap_filter i"
| "target_filter (TSam sam) = lit ''(&(objectClass=user)(sAMAccountName='' @ escape_ldap_filter_value sam @ lit ''))''"

record authorized_request =
  au_target :: broker_account
  au_delegate :: "str option"

datatype denied = NotFound | Ambiguous nat | Disabled | NotAdmitted | NotGranted | NotDelegate

datatype lookup_error =
    LDenied denied
  | RoleMissing (re_marker: str) (re_why: str)
  | RoleAmbiguous (re_marker: str) (re_why: str)
  | LUnavailable

definition UF_ACCOUNTDISABLE :: "32 word" where "UF_ACCOUNTDISABLE = 0x0002"
definition MATCHING_RULE_IN_CHAIN :: str where [kb_lits]: "MATCHING_RULE_IN_CHAIN = lit ''1.2.840.113556.1.4.1941''"

section \<open>Searches\<close>

text \<open>One search on the connection; a transport failure and a refused search are one answer.\<close>

definition ldap_search :: "'w outside \<Rightarrow> ldap_query \<Rightarrow> ('w, lookup_error, search_entry list) act" where
  "ldap_search ou q s =
     (let (r, w) = o_search ou q (bs_world s)
      in (ok_or LUnavailable r, s\<lparr>bs_world := w, bs_log := bs_log s @ [EvSearch q r]\<rparr>))"

definition one_attr :: "search_entry \<Rightarrow> str \<Rightarrow> str option" where
  "one_attr e attr = (case se_attrs e attr of Some (v # _) \<Rightarrow> Some v | _ \<Rightarrow> None)"

definition marker_filter :: "str \<Rightarrow> str" where
  "marker_filter marker = lit ''(extensionName='' @ escape_ldap_filter_value marker @ lit '')''"

definition member_filter :: "str \<Rightarrow> str" where
  "member_filter dn =
     lit ''(memberOf:'' @ MATCHING_RULE_IN_CHAIN @ lit '':='' @ escape_ldap_filter_value dn @ lit '')''"

definition role_query :: "directory \<Rightarrow> str \<Rightarrow> ldap_query" where
  "role_query d marker = \<lparr>lq_base = d_role_base_dn d, lq_scope = Subtree, lq_filter = marker_filter marker,
     lq_attrs = [lit ''distinguishedName'']\<rparr>"

definition base_query :: "str \<Rightarrow> str \<Rightarrow> ldap_query" where
  "base_query dn flt = \<lparr>lq_base = dn, lq_scope = BaseObject, lq_filter = flt, lq_attrs = [lit ''1.1'']\<rparr>"

definition account_query :: "directory \<Rightarrow> str \<Rightarrow> ldap_query" where
  "account_query d flt = \<lparr>lq_base = d_base_dn d, lq_scope = Subtree, lq_filter = flt,
     lq_attrs = [lit ''objectSid'', lit ''sAMAccountName'', lit ''userAccountControl'', lit ''distinguishedName'',
       lit ''extensionName'', lit ''msDS-ExternalDirectoryObjectId'', lit ''managedObjects'']\<rparr>"

definition role_dn :: "'w outside \<Rightarrow> directory \<Rightarrow> str \<Rightarrow> ('w, lookup_error, str) act" where
  "role_dn ou d marker =
     act_bind (ldap_search ou (role_query d marker)) (\<lambda>entries.
       case entries of
         [e] \<Rightarrow> ret (se_dn e)
       | [] \<Rightarrow> fail_with (RoleMissing marker (lit ''no group under '' @ d_role_base_dn d
                 @ lit '' carries the '' @ marker @ lit '' marker''))
       | _ \<Rightarrow> fail_with (RoleAmbiguous marker (show_dec (length entries) @ lit '' groups under '' @ d_role_base_dn d
                 @ lit '' carry the '' @ marker @ lit '' marker'')))"

definition in_role_group :: "'w outside \<Rightarrow> directory \<Rightarrow> str \<Rightarrow> str \<Rightarrow> ('w, lookup_error, bool) act" where
  "in_role_group ou d user_dn marker =
     act_bind (role_dn ou d marker) (\<lambda>group_dn.
     act_bind (ldap_search ou (base_query user_dn (member_filter group_dn))) (\<lambda>entries.
       ret (entries \<noteq> [])))"

fun delegate_groups :: "'w outside \<Rightarrow> str list \<Rightarrow> ('w, lookup_error, str list) act" where
  "delegate_groups ou [] = ret []"
| "delegate_groups ou (dn # dns) =
     act_bind (ldap_search ou (base_query dn (marker_filter ROLE_DELEGATES))) (\<lambda>entries.
     act_bind (delegate_groups ou dns) (\<lambda>groups.
       ret (if entries \<noteq> [] then dn # groups else groups)))"

definition any_member_filter :: "str list \<Rightarrow> str" where
  "any_member_filter groups = lit ''(|'' @ concat (map member_filter groups) @ lit '')''"

definition is_delegate :: "'w outside \<Rightarrow> str \<Rightarrow> str list \<Rightarrow> ('w, lookup_error, bool) act" where
  "is_delegate ou caller_dn managed =
     act_bind (delegate_groups ou managed) (\<lambda>groups.
       if groups = [] then ret False
       else act_bind (ldap_search ou (base_query caller_dn (any_member_filter groups))) (\<lambda>entries.
              ret (entries \<noteq> [])))"

text \<open>What the account search has to show before any group is asked about.\<close>

definition account_entry :: "search_entry list \<Rightarrow> lookup_error + search_entry \<times> str \<times> str \<times> str" where
  "account_entry entries =
     (if entries = [] then Inl (LDenied NotFound)
      else if length entries > 1 then Inl (LDenied (Ambiguous (length entries)))
      else let entry = hd entries in
        rbind (ok_or LUnavailable
          (Option.bind (one_attr entry (lit ''userAccountControl'')) (parse_unsigned u32_max))) (\<lambda>uac.
        rbind (guard ((of_nat uac :: 32 word) AND UF_ACCOUNTDISABLE = 0) (LDenied Disabled)) (\<lambda>_.
        rbind (ok_or LUnavailable (decode_sid_attr (se_bin_attrs entry (lit ''objectSid''))
          (se_attrs entry (lit ''objectSid'')))) (\<lambda>sid.
        rbind (ok_or LUnavailable (one_attr entry (lit ''sAMAccountName''))) (\<lambda>sam.
        rbind (ok_or (LDenied NotFound) (one_attr entry (lit ''msDS-ExternalDirectoryObjectId''))) (\<lambda>identity.
          Inr (entry, sid, sam, identity)))))))"

definition readable_grants :: "search_entry \<Rightarrow> device_grant list" where
  "readable_grants e =
     List.map_filter (\<lambda>v. ok (grant_decode v))
       (case se_attrs e (lit ''extensionName'') of None \<Rightarrow> [] | Some vs \<Rightarrow> vs)"

definition require :: "'e \<Rightarrow> bool \<Rightarrow> ('w, 'e, unit) act" where
  "require e b = lift_result (guard b e)"

definition find_account :: "'w outside \<Rightarrow> directory \<Rightarrow> str \<Rightarrow> bool \<Rightarrow> ('w, lookup_error, broker_account) act" where
  "find_account ou d flt need_grant_group =
     act_bind (ldap_search ou (account_query d flt)) (\<lambda>entries.
     act_bind (lift_result (account_entry entries)) (\<lambda>(entry, sid, sam, identity).
     act_bind (in_role_group ou d (se_dn entry) ROLE_ADMISSION) (\<lambda>admitted.
     act_bind (require (LDenied NotAdmitted) admitted) (\<lambda>_.
     act_bind (if need_grant_group
               then act_bind (in_role_group ou d (se_dn entry) ROLE_DEVICE_GRANT) (require (LDenied NotGranted))
               else ret ()) (\<lambda>_.
       ret \<lparr>ba_sid = sid, ba_sam_account_name = sam, ba_identity = identity, ba_dn = se_dn entry,
            ba_managed_objects = (case se_attrs entry (lit ''managedObjects'') of None \<Rightarrow> [] | Some vs \<Rightarrow> vs),
            ba_grants = readable_grants entry\<rparr>)))))"

definition same_object :: "broker_account \<Rightarrow> broker_account \<Rightarrow> bool" where
  "same_object caller tgt \<longleftrightarrow> eq_ignore_ascii_case (ba_dn caller) (ba_dn tgt)"

definition verdict :: "broker_account \<Rightarrow> broker_account \<Rightarrow> bool \<Rightarrow> denied + authorized_request" where
  "verdict caller tgt delegated =
     (if same_object caller tgt then Inr \<lparr>au_target = tgt, au_delegate = None\<rparr>
      else if \<not> delegated then Inl NotDelegate
      else Inr \<lparr>au_target = tgt, au_delegate = Some (ba_sam_account_name caller)\<rparr>)"

definition authorize ::
  "'w outside \<Rightarrow> directory \<Rightarrow> external_identity \<Rightarrow> target option \<Rightarrow> ('w, lookup_error, authorized_request) act" where
  "authorize ou d caller tgt =
     (case tgt of
        None \<Rightarrow>
          act_bind (find_account ou d (ldap_filter caller) True) (\<lambda>account.
            ret \<lparr>au_target = account, au_delegate = None\<rparr>)
      | Some t \<Rightarrow>
          act_bind (find_account ou d (ldap_filter caller) False) (\<lambda>caller_account.
          act_bind (find_account ou d (target_filter t) True) (\<lambda>account.
          act_bind (if same_object caller_account account then ret False
                    else is_delegate ou (ba_dn caller_account) (ba_managed_objects account)) (\<lambda>delegated.
            lift_result (map_err LDenied (verdict caller_account account delegated))))))"

text \<open>A connection around the reads; the result of the unbind is discarded.\<close>

definition connected :: "'w outside \<Rightarrow> ('w, lookup_error, 'a) act \<Rightarrow> ('w, lookup_error, 'a) act" where
  "connected ou body s =
     (let (up, w) = o_connect ou (bs_world s); s1 = s\<lparr>bs_world := w\<rparr>
      in if \<not> up then (Inl LUnavailable, s1)
         else let (r, s2) = body s1 in (r, s2\<lparr>bs_world := o_unbind ou (bs_world s2)\<rparr>))"

definition dir_lookup ::
  "'w outside \<Rightarrow> directory \<Rightarrow> external_identity \<Rightarrow> bool \<Rightarrow> ('w, lookup_error, broker_account) act" where
  "dir_lookup ou d i need_grant_group = connected ou (find_account ou d (ldap_filter i) need_grant_group)"

definition authorize_device_request ::
  "'w outside \<Rightarrow> directory \<Rightarrow> external_identity \<Rightarrow> target option \<Rightarrow> ('w, lookup_error, authorized_request) act" where
  "authorize_device_request ou d caller tgt = connected ou (authorize ou d caller tgt)"


section \<open>What a resolved account stands on\<close>

definition answered_member :: "broker_event set \<Rightarrow> directory \<Rightarrow> str \<Rightarrow> str \<Rightarrow> bool" where
  "answered_member evs d marker dn \<longleftrightarrow>
     (\<exists>g es. EvSearch (role_query d marker) (Some [g]) \<in> evs
        \<and> EvSearch (base_query dn (member_filter (se_dn g))) (Some es) \<in> evs \<and> es \<noteq> [])"

definition account_from :: "search_entry \<Rightarrow> broker_account \<Rightarrow> bool" where
  "account_from e a \<longleftrightarrow>
     (\<exists>v uac. one_attr e (lit ''userAccountControl'') = Some v \<and> parse_unsigned u32_max v = Some uac
        \<and> (of_nat uac :: 32 word) AND UF_ACCOUNTDISABLE = 0)
     \<and> decode_sid_attr (se_bin_attrs e (lit ''objectSid'')) (se_attrs e (lit ''objectSid'')) = Some (ba_sid a)
     \<and> one_attr e (lit ''sAMAccountName'') = Some (ba_sam_account_name a)
     \<and> one_attr e (lit ''msDS-ExternalDirectoryObjectId'') = Some (ba_identity a)
     \<and> ba_dn a = se_dn e \<and> ba_grants a = readable_grants e
     \<and> ba_managed_objects a = (case se_attrs e (lit ''managedObjects'') of None \<Rightarrow> [] | Some vs \<Rightarrow> vs)"

definition answered_account :: "broker_event set \<Rightarrow> directory \<Rightarrow> str \<Rightarrow> bool \<Rightarrow> broker_account \<Rightarrow> bool" where
  "answered_account evs d flt need a \<longleftrightarrow>
     (\<exists>e. EvSearch (account_query d flt) (Some [e]) \<in> evs \<and> account_from e a)
     \<and> answered_member evs d ROLE_ADMISSION (ba_dn a)
     \<and> (need \<longrightarrow> answered_member evs d ROLE_DEVICE_GRANT (ba_dn a))"

definition answered_delegate :: "broker_event set \<Rightarrow> str \<Rightarrow> str list \<Rightarrow> bool" where
  "answered_delegate evs caller_dn managed \<longleftrightarrow>
     (\<exists>groups es. groups \<noteq> [] \<and> set groups \<subseteq> set managed
        \<and> (\<forall>g \<in> set groups. \<exists>hit. EvSearch (base_query g (marker_filter ROLE_DELEGATES)) (Some hit) \<in> evs \<and> hit \<noteq> [])
        \<and> EvSearch (base_query caller_dn (any_member_filter groups)) (Some es) \<in> evs \<and> es \<noteq> [])"

lemma answered_member_mono:
  "answered_member evs d mk dn \<Longrightarrow> evs \<subseteq> evs' \<Longrightarrow> answered_member evs' d mk dn"
  unfolding answered_member_def by (elim exE conjE, intro exI conjI) (rule subsetD, assumption+)+

lemma answered_account_mono:
  "answered_account evs d flt need a \<Longrightarrow> evs \<subseteq> evs' \<Longrightarrow> answered_account evs' d flt need a"
  unfolding answered_account_def using answered_member_mono by blast

lemma answered_delegate_mono:
  "answered_delegate evs c m \<Longrightarrow> evs \<subseteq> evs' \<Longrightarrow> answered_delegate evs' c m"
  unfolding answered_delegate_def by (elim exE conjE, intro exI conjI) (assumption | rule subsetD, assumption+ | blast)+

lemma ldap_search_follows: "ldap_search ou q s = (r, t) \<Longrightarrow> follows s t"
  by (auto simp: ldap_search_def follows_def Let_def split: prod.splits)

lemma ldap_search_Inr:
  "ldap_search ou q s = (Inr es, t) \<Longrightarrow> follows s t \<and> EvSearch q (Some es) \<in> asked s t"
  by (auto simp: ldap_search_def follows_def asked_def Let_def kb_results split: prod.splits)

lemma logs_only_search [simp, intro]: "searches \<subseteq> E \<Longrightarrow> logs_only E (ldap_search ou q)"
  by (rule logs_onlyI) (auto simp: ldap_search_def follows_def asked_def searches_def Let_def split: prod.splits)

lemma logs_only_require [simp, intro]: "logs_only E (require e b)"
  by (simp add: require_def)

lemma logs_only_role [simp, intro]:
  "searches \<subseteq> E \<Longrightarrow> logs_only E (role_dn ou d mk)" "searches \<subseteq> E \<Longrightarrow> logs_only E (in_role_group ou d dn mk)"
proof -
  assume E: "searches \<subseteq> E"
  show r: "logs_only E (role_dn ou d mk)" unfolding role_dn_def
    by (intro logs_only_bind) (auto simp: E split: list.splits)
  show "logs_only E (in_role_group ou d dn mk)" unfolding in_role_group_def by (intro logs_only_bind r) (auto simp: E)
qed

lemma logs_only_delegates [simp, intro]:
  "searches \<subseteq> E \<Longrightarrow> logs_only E (delegate_groups ou dns)" "searches \<subseteq> E \<Longrightarrow> logs_only E (is_delegate ou c dns)"
proof -
  assume E: "searches \<subseteq> E"
  show r: "logs_only E (delegate_groups ou dns)" for dns
  proof (induction dns)
    case (Cons dn dns)
    then show ?case using E by (auto intro!: logs_only_bind)
  qed simp
  show "logs_only E (is_delegate ou c dns)" unfolding is_delegate_def by (intro logs_only_bind r) (auto simp: E intro!: logs_only_bind)
qed

lemma logs_only_find_account [simp, intro]: "searches \<subseteq> E \<Longrightarrow> logs_only E (find_account ou d flt need)"
  unfolding find_account_def by (intro logs_only_bind) (auto intro!: logs_only_bind split: prod.splits)

lemma logs_only_authorize [simp, intro]: "searches \<subseteq> E \<Longrightarrow> logs_only E (authorize ou d i tgt)"
  unfolding authorize_def by (cases tgt) (auto intro!: logs_only_bind)

lemma connected_Inr:
  "connected ou body s = (Inr x, t) \<Longrightarrow>
     \<exists>w s2. body (s\<lparr>bs_world := w\<rparr>) = (Inr x, s2) \<and> t = s2\<lparr>bs_world := o_unbind ou (bs_world s2)\<rparr>"
  by (auto simp: connected_def Let_def split: prod.splits if_splits)

lemma logs_only_connected [intro]:
  assumes "logs_only E body"
  shows "logs_only E (connected ou body)"
proof (rule logs_onlyI)
  fix s r t assume c: "connected ou body s = (r, t)"
  obtain up w where o: "o_connect ou (bs_world s) = (up, w)" by (cases "o_connect ou (bs_world s)")
  obtain r2 s2 where b: "body (s\<lparr>bs_world := w\<rparr>) = (r2, s2)" by (cases "body (s\<lparr>bs_world := w\<rparr>)")
  show "follows s t \<and> asked s t \<subseteq> E"
    using c o b logs_onlyD [OF assms b] by (auto simp: connected_def Let_def split: if_splits)
qed

lemma logs_only_directory [simp, intro]:
  "searches \<subseteq> E \<Longrightarrow> logs_only E (dir_lookup ou d i need)"
  "searches \<subseteq> E \<Longrightarrow> logs_only E (authorize_device_request ou d i tgt)"
  by (auto simp: dir_lookup_def authorize_device_request_def)

lemma role_dn_Inr:
  assumes "role_dn ou d mk s = (Inr dn, t)"
  shows "follows s t \<and> (\<exists>g. EvSearch (role_query d mk) (Some [g]) \<in> asked s t \<and> dn = se_dn g)"
  using assms unfolding role_dn_def
proof (rule act_bindE)
  fix es s1
  assume r: "ldap_search ou (role_query d mk) s = (Inr es, s1)"
    and k: "(case es of [] \<Rightarrow> fail_with (RoleMissing mk (lit ''no group under '' @ d_role_base_dn d
                 @ lit '' carries the '' @ mk @ lit '' marker''))
       | [e] \<Rightarrow> ret (se_dn e)
       | e # x # y \<Rightarrow> fail_with (RoleAmbiguous mk (show_dec (length es) @ lit '' groups under '' @ d_role_base_dn d
                 @ lit '' carry the '' @ mk @ lit '' marker''))) s1 = (Inr dn, t)"
  show ?thesis using k ldap_search_Inr [OF r] by (cases es rule: remdups_adj.cases) auto
qed

lemma in_role_group_True:
  assumes "in_role_group ou d dn mk s = (Inr True, t)"
  shows "follows s t \<and> answered_member (asked s t) d mk dn"
proof -
  obtain g s1 es where r: "role_dn ou d mk s = (Inr g, s1)"
    "ldap_search ou (base_query dn (member_filter g)) s1 = (Inr es, t)" "es \<noteq> []"
    using assms by (auto simp: in_role_group_def act_results)
  from role_dn_Inr [OF r(1)] ldap_search_Inr [OF r(2)] r(3) asked_trans [of s s1 t] follows_trans [of s s1 t]
  show ?thesis unfolding answered_member_def by blast
qed

lemma account_entry_Inr:
  "account_entry es = Inr (e, sid, sam, i) \<Longrightarrow> es = [e]"
  by (cases es; cases "tl es") (auto simp: account_entry_def kb_results Let_def)

lemma account_entry_single:
  "account_entry [e] = Inr (e, sid, sam, i) \<longleftrightarrow>
     (\<exists>v uac. one_attr e (lit ''userAccountControl'') = Some v \<and> parse_unsigned u32_max v = Some uac
        \<and> (of_nat uac :: 32 word) AND UF_ACCOUNTDISABLE = 0)
     \<and> decode_sid_attr (se_bin_attrs e (lit ''objectSid'')) (se_attrs e (lit ''objectSid'')) = Some sid
     \<and> one_attr e (lit ''sAMAccountName'') = Some sam
     \<and> one_attr e (lit ''msDS-ExternalDirectoryObjectId'') = Some i"
  by (simp add: account_entry_def kb_results Let_def bind_eq_Some_conv) blast

lemma require_Inr [simp]: "require e b s = (Inr x, t) \<longleftrightarrow> b \<and> t = s"
  by (auto simp: require_def guard_def)

lemma find_account_steps:
  assumes "find_account ou d flt need s = (Inr a, t)"
  obtains e s1 s2 where "ldap_search ou (account_query d flt) s = (Inr [e], s1)"
    "account_entry [e] = Inr (e, ba_sid a, ba_sam_account_name a, ba_identity a)"
    "in_role_group ou d (se_dn e) ROLE_ADMISSION s1 = (Inr True, s2)"
    "if need then in_role_group ou d (se_dn e) ROLE_DEVICE_GRANT s2 = (Inr True, t) else t = s2"
    "ba_dn a = se_dn e" "ba_grants a = readable_grants e"
    "ba_managed_objects a = (case se_attrs e (lit ''managedObjects'') of None \<Rightarrow> [] | Some vs \<Rightarrow> vs)"
proof -
  show ?thesis using assms unfolding find_account_def
  proof (elim act_bindE, goal_cases)
    case (1 es s1 q s1')
    obtain e sid sam i where q: "q = (e, sid, sam, i)" by (cases q)
    then have es: "account_entry es = Inr (e, sid, sam, i)" "s1' = s1" using 1(2) by simp_all
    with account_entry_Inr have l: "es = [e]" by blast
    from 1(3) show ?case unfolding q es(2) prod.case
    proof (elim act_bindE, goal_cases)
      case (1 adm s2 u2 s3 u3 s4)
      with \<open>ldap_search ou (account_query d flt) s = (Inr es, s1)\<close> es l show ?case
        by (intro that [of e s1 s2]) (auto split: if_splits elim!: act_bindE)
    qed
  qed
qed

lemma find_account_Inr:
  assumes "find_account ou d flt need s = (Inr a, t)"
  shows "follows s t \<and> answered_account (asked s t) d flt need a"
  using assms
proof (rule find_account_steps, goal_cases)
  case (1 e s1 s2)
  note s1 = ldap_search_Inr [OF 1(1)] and s2 = in_role_group_True [OF 1(3)]
  have g: "follows s2 t \<and> (need \<longrightarrow> answered_member (asked s2 t) d ROLE_DEVICE_GRANT (se_dn e))"
    using 1(4) in_role_group_True [of ou d "se_dn e" ROLE_DEVICE_GRANT s2 t] by (auto split: if_splits)
  have f: "follows s s2" "follows s t" using s1 s2 g follows_trans by blast+
  have "asked s t = asked s s1 \<union> asked s1 s2 \<union> asked s2 t" using s1 s2 g f asked_trans by metis
  then have "answered_member (asked s t) d ROLE_ADMISSION (se_dn e)"
    "need \<longrightarrow> answered_member (asked s t) d ROLE_DEVICE_GRANT (se_dn e)"
    "EvSearch (account_query d flt) (Some [e]) \<in> asked s t"
    using s1 s2 g answered_member_mono by blast+
  moreover have "account_from e a"
    using 1(2,5,6,7) account_entry_single [of e] unfolding account_from_def by simp
  ultimately show ?case using f 1(5) unfolding answered_account_def by auto
qed

lemma delegate_groups_Inr:
  assumes "delegate_groups ou dns s = (Inr gs, t)"
  shows "follows s t \<and> set gs \<subseteq> set dns
    \<and> (\<forall>g \<in> set gs. \<exists>hit. EvSearch (base_query g (marker_filter ROLE_DELEGATES)) (Some hit) \<in> asked s t \<and> hit \<noteq> [])"
  using assms
proof (induction dns arbitrary: s gs)
  case (Cons dn dns)
  obtain es s1 gs' where r: "ldap_search ou (base_query dn (marker_filter ROLE_DELEGATES)) s = (Inr es, s1)"
    "delegate_groups ou dns s1 = (Inr gs', t)" "gs = (if es \<noteq> [] then dn # gs' else gs')"
    using Cons.prems by (auto simp: act_results)
  note a = ldap_search_Inr [OF r(1)] and b = Cons.IH [OF r(2)]
  have f: "follows s t" "asked s t = asked s s1 \<union> asked s1 t" using a b follows_trans asked_trans by blast+
  show ?case unfolding f(2) using f(1) a b r(3) by (auto split: if_splits)
qed simp

lemma is_delegate_True:
  assumes "is_delegate ou c managed s = (Inr True, t)"
  shows "follows s t \<and> answered_delegate (asked s t) c managed"
proof -
  obtain gs s1 es where r: "delegate_groups ou managed s = (Inr gs, s1)" "gs \<noteq> []"
    "ldap_search ou (base_query c (any_member_filter gs)) s1 = (Inr es, t)" "es \<noteq> []"
    using assms by (auto simp: is_delegate_def act_results split: if_splits)
  note a = delegate_groups_Inr [OF r(1)] and b = ldap_search_Inr [OF r(3)]
  have f: "follows s t" "asked s t = asked s s1 \<union> asked s1 t" using a b follows_trans asked_trans by blast+
  show ?thesis unfolding f(2) answered_delegate_def using f(1) a b r(2,4) by blast
qed


lemma same_object_sym: "same_object a b \<longleftrightarrow> same_object b a"
  by (auto simp: same_object_def eq_ignore_ascii_case_def)

lemma authorize_Some:
  assumes "authorize ou d caller (Some x) s = (Inr au, t)"
  shows "follows s t \<and> answered_account (asked s t) d (target_filter x) True (au_target au)
    \<and> (\<exists>c. answered_account (asked s t) d (ldap_filter caller) False c
       \<and> (if same_object c (au_target au) then au_delegate au = None
          else au_delegate au = Some (ba_sam_account_name c)
            \<and> answered_delegate (asked s t) (ba_dn c) (ba_managed_objects (au_target au))))"
  using assms unfolding authorize_def option.case
proof (elim act_bindE, goal_cases)
  case (1 c s1 a s2 del s3)
  note c = find_account_Inr [OF 1(1)] and a = find_account_Inr [OF 1(2)]
  have v: "verdict c a del = Inr au" "s3 = t" using 1(4) by (auto simp: map_err_def split: sum.splits)
  have d: "follows s2 t \<and> (del \<longrightarrow> answered_delegate (asked s2 t) (ba_dn c) (ba_managed_objects a))"
  proof (cases "same_object c a")
    case False
    then have i: "is_delegate ou (ba_dn c) (ba_managed_objects a) s2 = (Inr del, t)" using 1(3) v(2) by simp
    have "logs_only UNIV (is_delegate ou (ba_dn c) (ba_managed_objects a))" by simp
    from logs_onlyD [OF this i] is_delegate_True [of ou "ba_dn c" "ba_managed_objects a" s2 t] i
    show ?thesis by auto
  qed (use 1(3) v(2) in auto)
  have f: "follows s s2" "follows s t" using c a d follows_trans by blast+
  have u: "asked s t = asked s s1 \<union> asked s1 s2 \<union> asked s2 t" using c a d f asked_trans by metis
  have t: "au_target au = a" using v(1) by (auto simp: verdict_def split: if_splits)
  have 2: "answered_account (asked s t) d (ldap_filter caller) False c"
    "answered_account (asked s t) d (target_filter x) True a"
    "del \<longrightarrow> answered_delegate (asked s t) (ba_dn c) (ba_managed_objects a)"
    using answered_account_mono [OF conjunct2 [OF c], of "asked s t"] answered_account_mono [OF conjunct2 [OF a], of "asked s t"]
      answered_delegate_mono [of "asked s2 t" _ _ "asked s t"] d u by (simp_all add: le_supI1)
  have 3: "if same_object c a then au_delegate au = None else del \<and> au_delegate au = Some (ba_sam_account_name c)"
    using v(1) by (auto simp: verdict_def split: if_splits)
  show ?case unfolding t using f 2 3 by (auto split: if_splits)
qed

lemma authorize_None:
  assumes "authorize ou d caller None s = (Inr au, t)"
  shows "follows s t \<and> answered_account (asked s t) d (ldap_filter caller) True (au_target au) \<and> au_delegate au = None"
  using assms unfolding authorize_def option.case
  by (elim act_bindE) (auto dest!: find_account_Inr)

lemma dir_lookup_Inr:
  assumes "dir_lookup ou d i need s = (Inr a, t)"
  shows "follows s t \<and> answered_account (asked s t) d (ldap_filter i) need a"
  using connected_Inr [OF assms [unfolded dir_lookup_def]] by (auto dest: find_account_Inr)

text \<open>The rule for a request on an account, as evidence in the events of the request.\<close>

definition authorized_by ::
  "broker_event set \<Rightarrow> directory \<Rightarrow> external_identity \<Rightarrow> target option \<Rightarrow> authorized_request \<Rightarrow> bool" where
  "authorized_by evs d caller tgt au \<longleftrightarrow>
     (case tgt of
        None \<Rightarrow> answered_account evs d (ldap_filter caller) True (au_target au) \<and> au_delegate au = None
      | Some x \<Rightarrow> answered_account evs d (target_filter x) True (au_target au)
          \<and> (\<exists>c. answered_account evs d (ldap_filter caller) False c
             \<and> (if same_object c (au_target au) then au_delegate au = None
                else au_delegate au = Some (ba_sam_account_name c)
                  \<and> answered_delegate evs (ba_dn c) (ba_managed_objects (au_target au)))))"

lemma authorized_by_mono:
  assumes "authorized_by evs d c tgt au" "evs \<subseteq> evs'"
  shows "authorized_by evs' d c tgt au"
proof (cases tgt)
  case None
  with assms show ?thesis by (auto simp: authorized_by_def intro: answered_account_mono)
next
  case (Some x)
  from assms(1) [unfolded authorized_by_def Some option.case] obtain a where
    a: "answered_account evs d (target_filter x) True (au_target au)" "answered_account evs d (ldap_filter c) False a"
      "if same_object a (au_target au) then au_delegate au = None
       else au_delegate au = Some (ba_sam_account_name a)
         \<and> answered_delegate evs (ba_dn a) (ba_managed_objects (au_target au))" by blast
  have "if same_object a (au_target au) then au_delegate au = None
       else au_delegate au = Some (ba_sam_account_name a)
         \<and> answered_delegate evs' (ba_dn a) (ba_managed_objects (au_target au))"
    using a(3) assms(2) answered_delegate_mono [of evs] by (simp split: if_splits)
  with answered_account_mono [OF a(1) assms(2)] answered_account_mono [OF a(2) assms(2)]
  show ?thesis unfolding authorized_by_def Some option.case by blast
qed

lemma authorize_device_request_Inr:
  assumes "authorize_device_request ou d caller tgt s = (Inr au, t)"
  shows "follows s t \<and> authorized_by (asked s t) d caller tgt au"
proof -
  obtain w s2 where b: "authorize ou d caller tgt (s\<lparr>bs_world := w\<rparr>) = (Inr au, s2)"
    "t = s2\<lparr>bs_world := o_unbind ou (bs_world s2)\<rparr>"
    using connected_Inr [OF assms [unfolded authorize_device_request_def]] by blast
  show ?thesis
  proof (cases tgt)
    case None
    then show ?thesis using authorize_None [of ou d caller "s\<lparr>bs_world := w\<rparr>"] b by (simp add: authorized_by_def)
  next
    case (Some x)
    with b(1) have "authorize ou d caller (Some x) (s\<lparr>bs_world := w\<rparr>) = (Inr au, s2)" by simp
    note 1 = authorize_Some [OF this, unfolded asked_world follows_world]
    show ?thesis unfolding Some b(2) authorized_by_def option.case asked_world follows_world by (rule 1)
  qed
qed

section \<open>Property\<close>

text \<open>
  C7 (KB_BrokerDirectory.authorized_device_target). When a device request is authorized, the directory answered,
  during this request, all that the rule asks. The account acted on was the single answer of
  its search, is enabled, has a SID, a login name and an external identity, and is a member of
  the one admission group and of the one device-grant group of the source. When the request
  named a target, the caller too was the single enabled admitted answer for the proven
  identity, and either both are one object or one of the groups the target manages carries the
  delegate marker and has the caller as a member, in which case the record names the caller.
\<close>

theorem authorized_device_target:
  assumes "authorize_device_request ou d caller tgt s = (Inr au, t)"
  shows "case tgt of
     None \<Rightarrow> answered_account (asked s t) d (ldap_filter caller) True (au_target au) \<and> au_delegate au = None
   | Some x \<Rightarrow> answered_account (asked s t) d (target_filter x) True (au_target au)
       \<and> (\<exists>c. answered_account (asked s t) d (ldap_filter caller) False c
          \<and> (if same_object c (au_target au) then au_delegate au = None
             else au_delegate au = Some (ba_sam_account_name c)
               \<and> answered_delegate (asked s t) (ba_dn c) (ba_managed_objects (au_target au))))"
  using authorize_device_request_Inr [OF assms] unfolding authorized_by_def by (rule conjunct2)

text \<open>A directory with a person, a service account and one group that has every role, for the witness.\<close>

definition person_identity :: external_identity where
  "person_identity = \<lparr>ei_source = Source (lit ''entra''), ei_subject = lit ''ab''\<rparr>"

definition person_entry :: search_entry where
  "person_entry = \<lparr>se_dn = lit ''CN=a,DC=x'', se_attrs = map_of
     [(lit ''userAccountControl'', [lit ''512'']), (lit ''sAMAccountName'', [lit ''a'']),
      (lit ''msDS-ExternalDirectoryObjectId'', [lit ''kb1|entra|ab'']),
      (lit ''extensionName'', [grant_encode sample_grant])],
     se_bin_attrs = [lit ''objectSid'' \<mapsto> [[1, 1, 0, 0, 0, 0, 0, 5, 7, 0, 0, 0]]]\<rparr>"

definition service_entry :: search_entry where
  "service_entry = \<lparr>se_dn = lit ''CN=s,DC=x'', se_attrs = map_of
     [(lit ''userAccountControl'', [lit ''512'']), (lit ''sAMAccountName'', [lit ''s'']),
      (lit ''msDS-ExternalDirectoryObjectId'', [lit ''kb1|entra|cd'']),
      (lit ''managedObjects'', [lit ''CN=g,DC=x''])],
     se_bin_attrs = [lit ''objectSid'' \<mapsto> [[1, 1, 0, 0, 0, 0, 0, 5, 9, 0, 0, 0]]]\<rparr>"

definition group_entry :: search_entry where
  "group_entry = \<lparr>se_dn = lit ''CN=g,DC=x'', se_attrs = \<lambda>_. None, se_bin_attrs = \<lambda>_. None\<rparr>"

definition sample_directory :: directory where
  "sample_directory = \<lparr>d_base_dn = lit ''DC=x'', d_role_base_dn = lit ''OU=e,DC=x''\<rparr>"

definition sample_search :: "ldap_query \<Rightarrow> search_entry list option" where
  "sample_search q =
     (if lq_scope q = BaseObject \<or> lq_base q = d_role_base_dn sample_directory then Some [group_entry]
      else if lq_filter q = ldap_filter person_identity then Some [person_entry]
      else if lq_filter q = target_filter (TSam (lit ''s'')) then Some [service_entry]
      else Some [])"

definition sample_outside :: "unit outside" where
  "sample_outside = \<lparr>o_connect = \<lambda>w. (True, w), o_search = \<lambda>q w. (sample_search q, w), o_unbind = \<lambda>w. w,
     o_identify = \<lambda>src token now w. (Some person_identity, w), o_exchange = \<lambda>bytes w. (Some [0, 0, 0, 0], w),
     o_request_json = \<lambda>r. Some [], o_response_json = \<lambda>b. Some (RespDone (lit ''r'')), o_now = \<lambda>w. Some 100,
     o_random = \<lambda>n w. (Some (replicate n 7), w), o_notify = \<lambda>n w. w, o_audit = \<lambda>l w. w, o_crypto = sample_crypto\<rparr>"

definition sample_bstate :: "unit bstate" where
  "sample_bstate = \<lparr>bs_nonces = sample_nonces, bs_world = (), bs_log = []\<rparr>"

definition person_account :: broker_account where
  "person_account = \<lparr>ba_sid = lit ''S-1-5-7'', ba_sam_account_name = lit ''a'', ba_identity = lit ''kb1|entra|ab'',
     ba_dn = lit ''CN=a,DC=x'', ba_managed_objects = [], ba_grants = [sample_grant]\<rparr>"

definition service_account :: broker_account where
  "service_account = \<lparr>ba_sid = lit ''S-1-5-9'', ba_sam_account_name = lit ''s'', ba_identity = lit ''kb1|entra|cd'',
     ba_dn = lit ''CN=s,DC=x'', ba_managed_objects = [lit ''CN=g,DC=x''], ba_grants = []\<rparr>"

lemma sample_searches:
  "sample_search (role_query sample_directory mk) = Some [group_entry]"
  "sample_search (base_query dn flt) = Some [group_entry]"
  "sample_search (account_query sample_directory (ldap_filter person_identity)) = Some [person_entry]"
  "sample_search (account_query sample_directory (target_filter (TSam (lit ''s'')))) = Some [service_entry]"
proof -
  show "sample_search (role_query sample_directory mk) = Some [group_entry]"
    "sample_search (base_query dn flt) = Some [group_entry]"
    by (simp_all add: sample_search_def role_query_def base_query_def)
  have d: "d_base_dn sample_directory \<noteq> d_role_base_dn sample_directory" by code_simp
  show "sample_search (account_query sample_directory (ldap_filter person_identity)) = Some [person_entry]"
    using d by (simp add: sample_search_def account_query_def)
  have "target_filter (TSam (lit ''s'')) \<noteq> ldap_filter person_identity" by code_simp
  then show "sample_search (account_query sample_directory (target_filter (TSam (lit ''s'')))) = Some [service_entry]"
    using d by (simp add: sample_search_def account_query_def del: target_filter.simps)
qed

lemma sample_attrs:
  "one_attr person_entry (lit ''userAccountControl'') = Some (lit ''512'')"
  "one_attr service_entry (lit ''userAccountControl'') = Some (lit ''512'')"
  "parse_unsigned u32_max (lit ''512'') = Some 512"
  "one_attr person_entry (lit ''sAMAccountName'') = Some (ba_sam_account_name person_account)"
  "one_attr service_entry (lit ''sAMAccountName'') = Some (ba_sam_account_name service_account)"
  "one_attr person_entry (lit ''msDS-ExternalDirectoryObjectId'') = Some (ba_identity person_account)"
  "one_attr service_entry (lit ''msDS-ExternalDirectoryObjectId'') = Some (ba_identity service_account)"
  "se_attrs service_entry (lit ''extensionName'') = None"
  "se_attrs service_entry (lit ''managedObjects'') = Some [lit ''CN=g,DC=x'']"
  "se_attrs person_entry (lit ''managedObjects'') = None"
  "se_attrs person_entry (lit ''extensionName'') = Some [grant_encode sample_grant]"
  by (simp_all add: one_attr_def person_entry_def service_entry_def lit_def person_account_def service_account_def
      parse_unsigned_def parse_digits_def digits_val_def is_ascii_digit_def u32_max_def)

lemma sample_sids:
  "decode_sid_attr (se_bin_attrs person_entry (lit ''objectSid'')) (se_attrs person_entry (lit ''objectSid'')) = Some (ba_sid person_account)"
  "decode_sid_attr (se_bin_attrs service_entry (lit ''objectSid'')) (se_attrs service_entry (lit ''objectSid'')) = Some (ba_sid service_account)"
proof -
  have "decode_sid [1, 1, 0, 0, 0, 0, 0, 5, 7, 0, 0, 0] = Inr (lit ''S-1-5-7'')"
    "decode_sid [1, 1, 0, 0, 0, 0, 0, 5, 9, 0, 0, 0] = Inr (lit ''S-1-5-9'')" by code_simp+
  then show "decode_sid_attr (se_bin_attrs person_entry (lit ''objectSid'')) (se_attrs person_entry (lit ''objectSid'')) = Some (ba_sid person_account)"
    "decode_sid_attr (se_bin_attrs service_entry (lit ''objectSid'')) (se_attrs service_entry (lit ''objectSid'')) = Some (ba_sid service_account)"
    by (simp_all add: decode_sid_attr_def person_entry_def service_entry_def person_account_def service_account_def ok_def)
qed

lemma broker_entries:
  "account_entry [person_entry] = Inr (person_entry, ba_sid person_account, ba_sam_account_name person_account, ba_identity person_account)"
  "account_entry [service_entry] = Inr (service_entry, ba_sid service_account, ba_sam_account_name service_account, ba_identity service_account)"
  by (simp_all add: account_entry_single sample_attrs sample_sids UF_ACCOUNTDISABLE_def)

text \<open>Any outside whose directory answers as \<open>sample_search\<close>.\<close>

definition sample_ldap :: "'w outside \<Rightarrow> bool" where
  "sample_ldap ou \<longleftrightarrow> (\<forall>q w. o_search ou q w = (sample_search q, w)) \<and> (\<forall>w. o_connect ou w = (True, w)) \<and> (\<forall>w. o_unbind ou w = w)"

lemma sample_outside_ldap: "sample_ldap sample_outside"
  by (simp add: sample_ldap_def sample_outside_def)

lemma sample_ldap_search:
  "sample_ldap ou \<Longrightarrow> ldap_search ou q s = (ok_or LUnavailable (sample_search q), s\<lparr>bs_log := bs_log s @ [EvSearch q (sample_search q)]\<rparr>)"
  by (simp add: ldap_search_def sample_ldap_def)

lemma sample_role:
  assumes "sample_ldap ou"
  shows "in_role_group ou sample_directory dn mk s =
   (Inr True, s\<lparr>bs_log := bs_log s @ [EvSearch (role_query sample_directory mk) (Some [group_entry]),
      EvSearch (base_query dn (member_filter (se_dn group_entry))) (Some [group_entry])]\<rparr>)"
  by (simp add: in_role_group_def role_dn_def act_bind_def sample_ldap_search [OF assms] sample_searches ok_or_def)

lemma sample_found:
  assumes "sample_ldap ou"
  shows "\<exists>t. find_account ou sample_directory (ldap_filter person_identity) need s = (Inr person_account, t) \<and> bs_world t = bs_world s"
  and "\<exists>t. find_account ou sample_directory (target_filter (TSam (lit ''s''))) need s = (Inr service_account, t) \<and> bs_world t = bs_world s"
proof -
  have g: "readable_grants person_entry = [sample_grant]"
    using grant_decode_encode [OF sample_grant_wf] by (simp add: readable_grants_def sample_attrs map_filter_simps ok_def)
  have h: "readable_grants service_entry = []" by (simp add: readable_grants_def sample_attrs map_filter_simps)
  note l = sample_ldap_search [OF assms]
  have d: "se_dn person_entry = ba_dn person_account" "se_dn service_entry = ba_dn service_account"
    by (simp_all add: person_entry_def person_account_def service_entry_def service_account_def)
  show "\<exists>t. find_account ou sample_directory (ldap_filter person_identity) need s = (Inr person_account, t) \<and> bs_world t = bs_world s"
    unfolding find_account_def act_bind_def l sample_searches
    by (simp add: ok_or_def broker_entries sample_role [OF assms] require_def guard_def sample_attrs g d act_bind_def)
       (simp add: person_account_def)
  show "\<exists>t. find_account ou sample_directory (target_filter (TSam (lit ''s''))) need s = (Inr service_account, t) \<and> bs_world t = bs_world s"
    unfolding find_account_def act_bind_def l sample_searches
    by (simp add: ok_or_def broker_entries sample_role [OF assms] require_def guard_def sample_attrs h d act_bind_def)
       (simp add: service_account_def)
qed

lemma sample_connected:
  assumes "sample_ldap ou"
  shows "connected ou body s = body s"
proof -
  have w: "s\<lparr>bs_world := bs_world s\<rparr> = s" for s :: "'a bstate" by (cases s) simp
  show ?thesis using assms by (simp add: connected_def sample_ldap_def Let_def w split: prod.splits)
qed

lemma sample_lookups:
  assumes "sample_ldap ou"
  shows "\<exists>t. dir_lookup ou sample_directory person_identity need s = (Inr person_account, t) \<and> bs_world t = bs_world s"
    and "\<exists>t. authorize_device_request ou sample_directory person_identity None s
       = (Inr \<lparr>au_target = person_account, au_delegate = None\<rparr>, t)"
  using sample_found(1) [OF assms, of need s] sample_found(1) [OF assms, of True s]
  by (auto simp: dir_lookup_def authorize_device_request_def authorize_def sample_connected [OF assms] act_bind_def)

lemma sample_authorized:
  assumes "sample_ldap ou"
  shows "\<exists>t. authorize_device_request ou sample_directory person_identity (Some (TSam (lit ''s''))) s
     = (Inr \<lparr>au_target = service_account, au_delegate = Some (lit ''a'')\<rparr>, t)"
proof -
  obtain s1 where s1: "find_account ou sample_directory (ldap_filter person_identity) False s = (Inr person_account, s1)"
    using sample_found(1) [OF assms] by blast
  obtain s2 where s2: "find_account ou sample_directory (target_filter (TSam (lit ''s''))) True s1 = (Inr service_account, s2)"
    using sample_found(2) [OF assms] by blast
  have n: "\<not> same_object person_account service_account"
    by (simp add: same_object_def eq_ignore_ascii_case_def person_account_def service_account_def lit_def to_ascii_lowercase_def)
  have "\<exists>s3. is_delegate ou (ba_dn person_account) (ba_managed_objects service_account) s2 = (Inr True, s3)"
    by (simp add: is_delegate_def service_account_def act_bind_def sample_ldap_search [OF assms] sample_searches ok_or_def)
  then show ?thesis using n
    by (auto simp: authorize_device_request_def authorize_def sample_connected [OF assms] act_bind_def s1 s2 verdict_def map_err_def
        simp del: target_filter.simps) (simp add: person_account_def)
qed

theorem authorized_device_target_witness:
  "\<exists>t a c. answered_account (asked sample_bstate t) sample_directory (target_filter (TSam (lit ''s''))) True a
     \<and> answered_account (asked sample_bstate t) sample_directory (ldap_filter person_identity) False c
     \<and> (if same_object c a then True else answered_delegate (asked sample_bstate t) (ba_dn c) (ba_managed_objects a))"
proof -
  obtain t where "authorize_device_request sample_outside sample_directory person_identity (Some (TSam (lit ''s''))) sample_bstate
     = (Inr \<lparr>au_target = service_account, au_delegate = Some (lit ''a'')\<rparr>, t)" using sample_authorized [OF sample_outside_ldap] by blast
  from authorized_device_target [OF this, unfolded option.case authorized_request.simps]
  obtain c where "answered_account (asked sample_bstate t) sample_directory (target_filter (TSam (lit ''s''))) True service_account"
    "answered_account (asked sample_bstate t) sample_directory (ldap_filter person_identity) False c"
    "if same_object c service_account then Some (lit ''a'') = None
     else Some (lit ''a'') = Some (ba_sam_account_name c)
       \<and> answered_delegate (asked sample_bstate t) (ba_dn c) (ba_managed_objects service_account)" by blast
  then show ?thesis by (intro exI [of _ t] exI [of _ service_account] exI [of _ c]) (simp del: target_filter.simps split: if_splits)
qed

end
