(* ===== verification/KB_Broker.thy ===== *)
theory KB_Broker
  imports KB_BrokerDirectory
begin

text \<open>
  The routes of the broker (\<open>crates/kerbridge-broker/src\<close>: \<open>http/mod.rs\<close>, \<open>issuer.rs\<close>,
  \<open>problems.rs\<close>, \<open>state.rs\<close>, \<open>ticket.rs\<close>, \<open>devices.rs\<close>, \<open>config.rs\<close>, \<open>main.rs\<close>): from a request
  with its credential to a ticket, a device grant, a list or a revocation, with every refusal
  and its status. A route is an action on the state of \<open>KB_BrokerDirectory\<close>; it touches the
  nonce store in one step, so whole routes are interleaved as the store's operations.
\<close>

section \<open>The vocabulary of the routes\<close>

record failure =
  fl_status :: nat
  fl_client :: str

definition failure_new :: "nat \<Rightarrow> str \<Rightarrow> failure" where
  "failure_new status client = \<lparr>fl_status = status, fl_client = client\<rparr>"

definition BAD_REQUEST :: nat where "BAD_REQUEST = 400"
definition UNAUTHORIZED :: nat where "UNAUTHORIZED = 401"
definition FORBIDDEN :: nat where "FORBIDDEN = 403"
definition NOT_FOUND :: nat where "NOT_FOUND = 404"
definition CONFLICT :: nat where "CONFLICT = 409"
definition TOO_MANY_REQUESTS :: nat where "TOO_MANY_REQUESTS = 429"
definition INTERNAL_SERVER_ERROR :: nat where "INTERNAL_SERVER_ERROR = 500"
definition BAD_GATEWAY :: nat where "BAD_GATEWAY = 502"
definition SERVICE_UNAVAILABLE :: nat where "SERVICE_UNAVAILABLE = 503"

lemmas status_defs = BAD_REQUEST_def UNAUTHORIZED_def FORBIDDEN_def NOT_FOUND_def CONFLICT_def TOO_MANY_REQUESTS_def
  INTERNAL_SERVER_ERROR_def BAD_GATEWAY_def SERVICE_UNAVAILABLE_def

definition unauthorized :: failure where
  "unauthorized = failure_new UNAUTHORIZED (lit ''invalid identity proof'')"

definition malformed :: failure where
  "malformed = failure_new BAD_REQUEST (lit ''malformed request'')"

record grant_config =
  dg_days :: nat
  dg_max_per_user :: nat
  dg_audience :: str

definition grants_enabled :: "grant_config \<Rightarrow> bool" where
  "grants_enabled g \<longleftrightarrow> dg_days g > 0"

definition device_grant_audience :: "str \<Rightarrow> str" where
  "device_grant_audience realm = lit ''kerbridge://'' @ realm"

record client_defaults =
  cd_autostart :: "bool option"
  cd_windows_sign_in :: "bool option"
  cd_ntlm_fallback_recovery :: "bool option"
  cd_silent :: "bool option"

record broker_config =
  bc_realm :: str
  bc_kdcs :: "str list"
  bc_services :: "str list"
  bc_client_defaults :: client_defaults
  bc_ticket_lifetime :: nat
  bc_ticket_renewable :: nat
  bc_max_inflight :: nat
  bc_device_grants :: grant_config

record source_state =
  ss_source :: source
  ss_directory :: directory

record app_state =
  ap_config :: broker_config
  ap_sources :: "(str \<times> source_state) list"

definition app_source :: "app_state \<Rightarrow> str \<Rightarrow> failure + source_state" where
  "app_source app name = ok_or (failure_new NOT_FOUND (lit ''no such source'')) (map_of (ap_sources app) name)"

definition broker_now :: "'w outside \<Rightarrow> ('w, failure, nat) act" where
  "broker_now ou s = (ok_or (failure_new INTERNAL_SERVER_ERROR (lit ''server error'')) (o_now ou (bs_world s)), s)"

definition same_source :: "source \<Rightarrow> external_identity \<Rightarrow> failure + unit" where
  "same_source src i = (if ei_source i = src then Inr () else Inl unauthorized)"

definition enabled :: "grant_config \<Rightarrow> failure + unit" where
  "enabled g = (if grants_enabled g then Inr ()
     else Inl (failure_new FORBIDDEN (lit ''device grants are not enabled'')))"

datatype proof_kind = Bearer str | DeviceGrantProof str

text \<open>The \<open>Authorization\<close> header, when it is there and readable as text.\<close>

definition proof_of :: "str option \<Rightarrow> proof_kind option" where
  "proof_of header =
     (case Option.bind header (split_once c_space) of
        None \<Rightarrow> None
      | Some (scheme, credential) \<Rightarrow>
          let cred = trim credential in
          if cred = [] then None
          else if eq_ignore_ascii_case scheme (lit ''bearer'') then Some (Bearer cred)
          else if eq_ignore_ascii_case scheme (lit ''devicegrant'') then Some (DeviceGrantProof cred)
          else None)"

definition hex_of_byte :: "byte \<Rightarrow> str" where
  "hex_of_byte b = [hex_digit (unat b div 16), hex_digit (unat b mod 16)]"

definition broker_random :: "'w outside \<Rightarrow> nat \<Rightarrow> 'w bstate \<Rightarrow> byte list option \<times> 'w bstate" where
  "broker_random ou n s = (let (r, w) = o_random ou n (bs_world s) in (r, s\<lparr>bs_world := w\<rparr>))"

definition request_id :: "'w outside \<Rightarrow> ('w, failure, str) act" where
  "request_id ou s =
     (case broker_random ou 8 s of
        (None, s') \<Rightarrow> (Inr (lit ''unseeded''), s')
      | (Some bytes, s') \<Rightarrow> (Inr (concat (map hex_of_byte bytes)), s'))"

section \<open>Discovery and arguments\<close>

text \<open>The document of one source; its \<open>oidc\<close> part comes from the adapter as it is.\<close>

record 'o discovery_doc =
  ds_base_url :: str
  ds_oidc :: 'o
  ds_realm :: str
  ds_kdcs :: "str list"
  ds_services :: "str list"
  ds_ticket_format :: str
  ds_device_grant :: grant_config
  ds_client_defaults :: "client_defaults option"

definition client_defaults_empty :: "client_defaults \<Rightarrow> bool" where
  "client_defaults_empty d \<longleftrightarrow> cd_autostart d = None \<and> cd_windows_sign_in d = None
     \<and> cd_ntlm_fallback_recovery d = None \<and> cd_silent d = None"

definition discovery_of :: "broker_config \<Rightarrow> 'o \<Rightarrow> str \<Rightarrow> 'o discovery_doc" where
  "discovery_of cfg oidc source =
     \<lparr>ds_base_url = c_slash # source, ds_oidc = oidc, ds_realm = bc_realm cfg, ds_kdcs = bc_kdcs cfg,
      ds_services = bc_services cfg, ds_ticket_format = TICKET_FORMAT, ds_device_grant = bc_device_grants cfg,
      ds_client_defaults = (if client_defaults_empty (bc_client_defaults cfg) then None else Some (bc_client_defaults cfg))\<rparr>"

definition discovery_route :: "(source \<Rightarrow> 'o) \<Rightarrow> app_state \<Rightarrow> str \<Rightarrow> failure + 'o discovery_doc" where
  "discovery_route client_config app source =
     rbind (app_source app source) (\<lambda>src. Inr (discovery_of (ap_config app) (client_config (ss_source src)) source))"

text \<open>\<open>GET /config\<close>: the only source's document, or the list of names to choose from.\<close>

definition sole_discovery :: "(source \<Rightarrow> 'o) \<Rightarrow> app_state \<Rightarrow> str list + (failure + 'o discovery_doc)" where
  "sole_discovery client_config app =
     (case map fst (ap_sources app) of
        [name] \<Rightarrow> Inr (discovery_route client_config app name)
      | names \<Rightarrow> Inl names)"

datatype broker_usage_error = ConfigNeedsDir | UnexpectedArg str

fun broker_usage_loop :: "str list \<Rightarrow> str option \<Rightarrow> bool \<Rightarrow> broker_usage_error + (str \<times> bool) option" where
  "broker_usage_loop [] dir test_only =
     Inr (Some (case dir of None \<Rightarrow> lit ''/etc/kerbridge'' | Some d \<Rightarrow> d, test_only))"
| "broker_usage_loop (arg # args) dir test_only =
     (if arg = lit ''-h'' \<or> arg = lit ''--help'' then Inr None
      else if arg = lit ''--config'' then
        (case args of [] \<Rightarrow> Inl ConfigNeedsDir | d # rest \<Rightarrow> broker_usage_loop rest (Some d) test_only)
      else if arg = lit ''--test-notification'' then broker_usage_loop args dir True
      else Inl (UnexpectedArg arg))"

definition broker_usage :: "str list \<Rightarrow> broker_usage_error + (str \<times> bool) option" where
  "broker_usage args = broker_usage_loop args None False"

section \<open>The issuer client\<close>

text \<open>One connection: the request frame out, the reply in. \<open>o_exchange\<close> is connecting and both.\<close>

definition issuer_call :: "'w outside \<Rightarrow> request \<Rightarrow> 'w \<Rightarrow> (issuer_error + response) \<times> 'w" where
  "issuer_call ou req w =
     (let frame = rbind (ok_or IssuerUnavailable (o_request_json ou req))
                    (\<lambda>body. map_err (\<lambda>_. IssuerUnavailable) (write_frame body));
          (reply, w') = o_exchange ou (case frame of Inl _ \<Rightarrow> [] | Inr f \<Rightarrow> f) w;
          result = rbind frame (\<lambda>_.
            rbind (ok_or IssuerUnavailable reply) (\<lambda>stream.
            rbind (map_err (\<lambda>_. IssuerUnavailable) (read_frame stream)) (\<lambda>(payload, _).
            ok_or IssuerUnavailable (o_response_json ou payload))))
      in (case result of
            Inl e \<Rightarrow> Inl e
          | Inr (RespError _ why) \<Rightarrow> Inl (IssuerRefused why)
          | Inr response \<Rightarrow> Inr response, w'))"

definition issuer_send :: "'w outside \<Rightarrow> request \<Rightarrow> ('w, issuer_error, response) act" where
  "issuer_send ou req s =
     (let (r, w) = issuer_call ou req (bs_world s)
      in (r, s\<lparr>bs_world := w, bs_log := bs_log s @ [EvIssuer req r]\<rparr>))"

definition issuer_issue :: "'w outside \<Rightarrow> issue_request \<Rightarrow> ('w, issuer_error, ticket) act" where
  "issuer_issue ou req =
     act_bind (issuer_send ou (Issue req)) (\<lambda>r.
       case r of RespOk t \<Rightarrow> ret t | _ \<Rightarrow> fail_with IssuerUnavailable)"

definition issuer_write :: "'w outside \<Rightarrow> request \<Rightarrow> ('w, issuer_error, unit) act" where
  "issuer_write ou req =
     act_bind (issuer_send ou req) (\<lambda>r.
       case r of RespDone _ \<Rightarrow> ret () | _ \<Rightarrow> fail_with IssuerUnavailable)"

section \<open>Failures and the operator\<close>

definition notify :: "'w outside \<Rightarrow> notice \<Rightarrow> 'w bstate \<Rightarrow> 'w bstate" where
  "notify ou n s = s\<lparr>bs_world := o_notify ou n (bs_world s), bs_log := bs_log s @ [EvNotice n]\<rparr>"

definition record_audit :: "'w outside \<Rightarrow> str \<Rightarrow> ('w, failure, unit) act" where
  "record_audit ou line s =
     (Inr (), s\<lparr>bs_world := o_audit ou line (bs_world s), bs_log := bs_log s @ [EvAudit line]\<rparr>)"

definition ROLE_PROBLEMS :: "str list" where
  [kb_lits]: "ROLE_PROBLEMS = [lit ''admission-group-missing'', lit ''admission-group-ambiguous'',
     lit ''grant-group-missing'', lit ''grant-group-ambiguous'']"

fun notify_all :: "'w outside \<Rightarrow> notice list \<Rightarrow> 'w bstate \<Rightarrow> 'w bstate" where
  "notify_all ou [] s = s"
| "notify_all ou (n # ns) s = notify_all ou ns (notify ou n s)"

definition resolved_cleanly :: "'w outside \<Rightarrow> external_identity \<Rightarrow> 'w bstate \<Rightarrow> 'w bstate" where
  "resolved_cleanly ou i =
     notify_all ou (map Resolve ROLE_PROBLEMS
       @ [Resolve (lit ''directory-unavailable''), ResolveSubject (lit ''identity-ambiguous'') (identity_label i)])"

definition ends_with :: "str \<Rightarrow> str \<Rightarrow> bool" where
  "ends_with s suff \<longleftrightarrow> starts_with (rev s) (rev suff)"

definition role_slug :: "str \<Rightarrow> str \<Rightarrow> str option" where
  "role_slug marker fault =
     (let role = (if marker = ROLE_ADMISSION then lit ''admission-group'' else lit ''grant-group'')
      in find (\<lambda>p. starts_with p role \<and> ends_with p fault) ROLE_PROBLEMS)"

text \<open>\<open>expect\<close> on the table lookup; \<open>role_slug_total\<close> shows it never fires.\<close>

definition role_group_failure :: "'w outside \<Rightarrow> str option \<Rightarrow> str \<Rightarrow> 'w bstate \<Rightarrow> failure \<times> 'w bstate" where
  "role_group_failure ou problem why s =
     (failure_new BAD_GATEWAY (lit ''directory unavailable''), notify ou (Raise (the problem) why) s)"

fun str_contains :: "str \<Rightarrow> str \<Rightarrow> bool" where
  "str_contains [] p = (p = [])"
| "str_contains (c # cs) p = (starts_with (c # cs) p \<or> str_contains cs p)"

definition grant_write_failure :: "issuer_error \<Rightarrow> failure" where
  "grant_write_failure e =
     (case e of
        IssuerRefused why \<Rightarrow>
          if str_contains why (lit ''cap'') then failure_new CONFLICT (lit ''too many devices'')
          else failure_new INTERNAL_SERVER_ERROR (lit ''directory write failed'')
      | IssuerUnavailable \<Rightarrow> failure_new SERVICE_UNAVAILABLE (lit ''issuer unavailable''))"

definition issuer_failure :: "'w outside \<Rightarrow> str \<Rightarrow> issuer_error \<Rightarrow> 'w bstate \<Rightarrow> failure \<times> 'w bstate" where
  "issuer_failure ou account e s =
     (case e of
        IssuerRefused why \<Rightarrow>
          (failure_new INTERNAL_SERVER_ERROR (lit ''ticket issuance failed''),
           notify ou (Raise (lit ''issuer-refused'') account) s)
      | IssuerUnavailable \<Rightarrow> (failure_new SERVICE_UNAVAILABLE (lit ''issuer unavailable''), s))"

definition denied_reason :: "denied \<Rightarrow> str" where
  "denied_reason d =
     (case d of
        NotFound \<Rightarrow> lit ''identity is not provisioned''
      | Ambiguous _ \<Rightarrow> lit ''identity is not provisioned''
      | Disabled \<Rightarrow> lit ''account is disabled''
      | NotAdmitted \<Rightarrow> lit ''account is not admitted to the realm''
      | NotGranted \<Rightarrow> lit ''account may not authorize a device''
      | NotDelegate \<Rightarrow> lit ''you may not authorize a device for that account'')"

definition directory_failure :: "'w outside \<Rightarrow> external_identity \<Rightarrow> lookup_error \<Rightarrow> 'w bstate \<Rightarrow> failure \<times> 'w bstate" where
  "directory_failure ou i e s =
     (case e of
        LDenied d \<Rightarrow>
          (failure_new FORBIDDEN (denied_reason d),
           case d of Ambiguous n \<Rightarrow> notify ou (Raise (lit ''identity-ambiguous'') (identity_label i)) s | _ \<Rightarrow> s)
      | RoleMissing marker why \<Rightarrow> role_group_failure ou (role_slug marker (lit ''missing'')) why s
      | RoleAmbiguous marker why \<Rightarrow> role_group_failure ou (role_slug marker (lit ''ambiguous'')) why s
      | LUnavailable \<Rightarrow>
          (failure_new BAD_GATEWAY (lit ''directory unavailable''), notify ou (Raise (lit ''directory-unavailable'') []) s))"

text \<open>A lookup whose outcome is reported: cleared problems on success, a status on failure.\<close>

definition settled :: "'w outside \<Rightarrow> external_identity \<Rightarrow> ('w, lookup_error, 'a) act \<Rightarrow> ('w, failure, 'a) act" where
  "settled ou i body s =
     (case body s of
        (Inr x, s') \<Rightarrow> (Inr x, resolved_cleanly ou i s')
      | (Inl e, s') \<Rightarrow> (case directory_failure ou i e s' of (f, s'') \<Rightarrow> (Inl f, s'')))"

section \<open>Proofs of identity\<close>

definition identify :: "'w outside \<Rightarrow> source_state \<Rightarrow> str \<Rightarrow> nat \<Rightarrow> ('w, failure, external_identity) act" where
  "identify ou src token now s =
     (let name = source_name (ss_source src); (r, w) = o_identify ou name token now (bs_world s)
      in (ok_or unauthorized r, s\<lparr>bs_world := w, bs_log := bs_log s @ [EvIdentify name token now r]\<rparr>))"

definition device_verify :: "'w outside \<Rightarrow> grant_config \<Rightarrow> str \<Rightarrow> nat \<Rightarrow> ('w, failure, device_proof) act" where
  "device_verify ou g assertion now s =
     (let (r, ns) = verify_assertion (o_crypto ou) assertion (dg_audience g) (int now) (bs_nonces s)
      in (map_err (\<lambda>_. unauthorized) r, s\<lparr>bs_nonces := ns\<rparr>))"

section \<open>The ticket route\<close>

record ticket_response =
  tr_principal :: str
  tr_ccache_b64 :: str

definition live_grant :: "grant_config \<Rightarrow> broker_account \<Rightarrow> str \<Rightarrow> nat \<Rightarrow> failure + device_grant" where
  "live_grant g account thumbprint now =
     rbind (ok_or unauthorized (find (\<lambda>x. g_thumbprint x = thumbprint) (ba_grants account))) (\<lambda>x.
       if valid_at x now (dg_days g) then Inr x else Inl unauthorized)"

definition touch :: "'w outside \<Rightarrow> broker_account \<Rightarrow> device_grant \<Rightarrow> str \<Rightarrow> nat \<Rightarrow> 'w bstate \<Rightarrow> 'w bstate" where
  "touch ou account g rid now s =
     (if \<not> needs_touch (g_seen g) now then s
      else snd (issuer_write ou (TouchGrant \<lparr>tg_request_id = rid, tg_account_sid = ba_sid account,
             tg_thumbprint = g_thumbprint g, tg_seen = now\<rparr>) s))"

definition prove_identity ::
  "'w outside \<Rightarrow> app_state \<Rightarrow> source_state \<Rightarrow> str option \<Rightarrow> nat \<Rightarrow> ('w, failure, external_identity \<times> str option) act" where
  "prove_identity ou app src header now =
     (case proof_of header of
        Some (Bearer token) \<Rightarrow> act_bind (identify ou src token now) (\<lambda>i. ret (i, None))
      | Some (DeviceGrantProof assertion) \<Rightarrow>
          act_bind (lift_result (enabled (bc_device_grants (ap_config app)))) (\<lambda>_.
          act_bind (device_verify ou (bc_device_grants (ap_config app)) assertion now) (\<lambda>pf.
            ret (dp_identity pf, Some (dp_thumbprint pf))))
      | None \<Rightarrow> fail_with malformed)"

definition issued_or_failed :: "'w outside \<Rightarrow> broker_account \<Rightarrow> ('w, issuer_error, ticket) act \<Rightarrow> ('w, failure, ticket) act" where
  "issued_or_failed ou account body s =
     (case body s of
        (Inr t, s') \<Rightarrow> (Inr t, notify ou (ResolveSubject (lit ''issuer-refused'') (ba_sam_account_name account)) s')
      | (Inl e, s') \<Rightarrow> (case issuer_failure ou (ba_sam_account_name account) e s' of (f, s'') \<Rightarrow> (Inl f, s'')))"

definition ticket_issue ::
  "'w outside \<Rightarrow> app_state \<Rightarrow> source_state \<Rightarrow> str option \<Rightarrow> str \<Rightarrow> ('w, failure, ticket_response) act" where
  "ticket_issue ou app src header rid =
     act_bind (broker_now ou) (\<lambda>now.
     act_bind (prove_identity ou app src header now) (\<lambda>(i, device).
     act_bind (lift_result (same_source (ss_source src) i)) (\<lambda>_.
     act_bind (settled ou i (dir_lookup ou (ss_directory src) i (device \<noteq> None))) (\<lambda>account.
     act_bind (lift_result (case device of
         None \<Rightarrow> Inr None
       | Some tp \<Rightarrow> rbind (live_grant (bc_device_grants (ap_config app)) account tp now) (\<lambda>g. Inr (Some g)))) (\<lambda>live.
     act_bind (issued_or_failed ou account (issuer_issue ou \<lparr>ir_request_id = rid, ir_account_sid = ba_sid account,
         ir_lifetime_seconds = Some (bc_ticket_lifetime (ap_config app)),
         ir_renewable_lifetime_seconds = Some (bc_ticket_renewable (ap_config app))\<rparr>)) (\<lambda>t s.
       (Inr \<lparr>tr_principal = tk_principal t, tr_ccache_b64 = tk_ccache_b64 t\<rparr>,
        case live of None \<Rightarrow> s | Some g \<Rightarrow> touch ou account g rid now s)))))))"

text \<open>The route; \<open>taken\<close> is the number of slots in use when the request arrives.\<close>

definition ticket_route ::
  "'w outside \<Rightarrow> app_state \<Rightarrow> str \<Rightarrow> str option \<Rightarrow> nat \<Rightarrow> ('w, failure, ticket_response) act" where
  "ticket_route ou app source header taken =
     act_bind (request_id ou) (\<lambda>rid.
       if taken < bc_max_inflight (ap_config app)
       then act_bind (lift_result (app_source app source)) (\<lambda>src. ticket_issue ou app src header rid)
       else fail_with (failure_new TOO_MANY_REQUESTS (lit ''too many requests in flight'')))"

section \<open>The device routes\<close>

definition nonce_route :: "'w outside \<Rightarrow> app_state \<Rightarrow> str \<Rightarrow> ('w, failure, str \<times> nat) act" where
  "nonce_route ou app source =
     act_bind (lift_result (app_source app source)) (\<lambda>_.
     act_bind (lift_result (enabled (bc_device_grants (ap_config app)))) (\<lambda>_.
     act_bind (broker_now ou) (\<lambda>now s.
       case broker_random ou 16 s of
         (bytes, s') \<Rightarrow>
           (case nonces_issue (cr_b64url_encode (o_crypto ou)) bytes (int now) (bs_nonces s') of
              (out, ns) \<Rightarrow>
                (rbind (ok_or (failure_new SERVICE_UNAVAILABLE (lit ''too many requests in flight'')) out)
                   (\<lambda>n. Inr (n, nc_ttl (bs_nonces s'))), s'\<lparr>bs_nonces := ns\<rparr>)))))"

record register_request =
  rr_alg :: str
  rr_key :: str
  rr_label :: str
  rr_target :: "str option"

record device_view =
  dv_grant_id :: str
  dv_identity :: str
  dv_label :: str
  dv_added :: nat
  dv_last_seen :: "nat option"
  dv_sign_in_required_by :: nat
  dv_clamped :: bool

definition device_view_of :: "device_grant \<Rightarrow> str \<Rightarrow> nat \<Rightarrow> device_view" where
  "device_view_of g i days =
     \<lparr>dv_grant_id = grant_short_id g, dv_identity = i, dv_label = g_label g, dv_added = g_start g,
      dv_last_seen = g_seen g, dv_sign_in_required_by = effective_end g days, dv_clamped = clamped g days\<rparr>"

definition grant_holder ::
  "'w outside \<Rightarrow> app_state \<Rightarrow> source_state \<Rightarrow> str option \<Rightarrow> str option \<Rightarrow> ('w, failure, authorized_request \<times> nat) act" where
  "grant_holder ou app src header tgt =
     act_bind (lift_result (enabled (bc_device_grants (ap_config app)))) (\<lambda>_.
     act_bind (broker_now ou) (\<lambda>now.
       case proof_of header of
         Some (Bearer token) \<Rightarrow>
           act_bind (lift_result (case tgt of
               None \<Rightarrow> Inr None
             | Some v \<Rightarrow> rbind (map_err (\<lambda>_. malformed) (target_parse v)) (\<lambda>t. Inr (Some t)))) (\<lambda>t.
           act_bind (identify ou src token now) (\<lambda>i.
           act_bind (settled ou i (authorize_device_request ou (ss_directory src) i t)) (\<lambda>au.
             ret (au, now))))
       | _ \<Rightarrow> fail_with unauthorized))"

definition by_delegate :: "str option \<Rightarrow> str" where
  "by_delegate d = (case d of None \<Rightarrow> [] | Some sam \<Rightarrow> lit '' by='' @ sam)"

definition grant_written :: "('w, issuer_error, unit) act \<Rightarrow> ('w, failure, unit) act" where
  "grant_written body s = (case body s of (r, s') \<Rightarrow> (map_err grant_write_failure r, s'))"

definition register_device ::
  "'w outside \<Rightarrow> app_state \<Rightarrow> str \<Rightarrow> str option \<Rightarrow> register_request \<Rightarrow> ('w, failure, device_view) act" where
  "register_device ou app source header body =
     act_bind (request_id ou) (\<lambda>rid.
     act_bind (lift_result (app_source app source)) (\<lambda>src.
     act_bind (grant_holder ou app src header (rr_target body)) (\<lambda>(auth, now).
     act_bind (lift_result (ok_or (failure_new BAD_REQUEST (lit ''unsupported key algorithm'')) (algorithm (rr_alg body)))) (\<lambda>alg.
     act_bind (lift_result (ok_or malformed (cr_b64url (o_crypto ou) (rr_key body)))) (\<lambda>key.
     let account = au_target auth;
         days = dg_days (bc_device_grants (ap_config app));
         thumbprint = device_thumbprint (o_crypto ou) key;
         expires_at = now + days * 86400;
         g = \<lparr>g_label = sanitize_label (rr_label body), g_alg = alg, g_thumbprint = thumbprint,
              g_start = now, g_end = expires_at, g_seen = None\<rparr>
     in act_bind (grant_written (issuer_write ou (GrantDevice \<lparr>gd_request_id = rid, gd_account_sid = ba_sid account,
            gd_alg = rr_alg body, gd_thumbprint = thumbprint, gd_label = rr_label body, gd_expires_at = expires_at\<rparr>))) (\<lambda>_.
        act_bind (record_audit ou (lit ''[broker] GRANT '' @ rid @ lit '' '' @ ba_sam_account_name account @ lit '' ''
            @ grant_short_id g @ by_delegate (au_delegate auth))) (\<lambda>_.
          ret (device_view_of g (ba_identity account) days))))))))"

definition list_devices ::
  "'w outside \<Rightarrow> app_state \<Rightarrow> str \<Rightarrow> str option \<Rightarrow> str option \<Rightarrow> ('w, failure, device_view list) act" where
  "list_devices ou app source header tgt =
     act_bind (request_id ou) (\<lambda>rid.
     act_bind (lift_result (app_source app source)) (\<lambda>src.
     act_bind (grant_holder ou app src header tgt) (\<lambda>(auth, _).
       ret (map (\<lambda>g. device_view_of g (ba_identity (au_target auth)) (dg_days (bc_device_grants (ap_config app))))
         (ba_grants (au_target auth))))))"

definition self_revocation ::
  "'w outside \<Rightarrow> app_state \<Rightarrow> source_state \<Rightarrow> str \<Rightarrow> str \<Rightarrow> str option \<Rightarrow> ('w, failure, broker_account) act" where
  "self_revocation ou app src assertion handle_id tgt =
     act_bind (require malformed (tgt = None)) (\<lambda>_.
     act_bind (broker_now ou) (\<lambda>now.
     act_bind (device_verify ou (bc_device_grants (ap_config app)) assertion now) (\<lambda>pf.
     act_bind (require (failure_new FORBIDDEN (lit ''a device may only remove itself''))
         (short_id (dp_thumbprint pf) = Some handle_id)) (\<lambda>_.
     act_bind (lift_result (same_source (ss_source src) (dp_identity pf))) (\<lambda>_.
       settled ou (dp_identity pf) (dir_lookup ou (ss_directory src) (dp_identity pf) False))))))"

definition revoke_device ::
  "'w outside \<Rightarrow> app_state \<Rightarrow> str \<Rightarrow> str \<Rightarrow> str option \<Rightarrow> str option \<Rightarrow> ('w, failure, unit) act" where
  "revoke_device ou app source handle_id header tgt =
     act_bind (request_id ou) (\<lambda>rid.
     act_bind (lift_result (app_source app source)) (\<lambda>src.
     act_bind (lift_result (enabled (bc_device_grants (ap_config app)))) (\<lambda>_.
     act_bind (require (failure_new NOT_FOUND (lit ''no such device'')) (is_grant_handle handle_id)) (\<lambda>_.
     act_bind (case proof_of header of
         Some (DeviceGrantProof assertion) \<Rightarrow>
           act_bind (self_revocation ou app src assertion handle_id tgt) (\<lambda>account. ret (account, None))
       | Some (Bearer _) \<Rightarrow>
           act_bind (grant_holder ou app src header tgt) (\<lambda>(auth, _). ret (au_target auth, au_delegate auth))
       | None \<Rightarrow> fail_with malformed) (\<lambda>(account, delegate).
     act_bind (lift_result (ok_or (failure_new NOT_FOUND (lit ''no such device''))
         (find (\<lambda>g. grant_short_id g = handle_id) (ba_grants account)))) (\<lambda>g.
     act_bind (grant_written (issuer_write ou (RevokeGrant \<lparr>rg_request_id = rid, rg_account_sid = ba_sid account,
         rg_thumbprint = g_thumbprint g\<rparr>))) (\<lambda>_.
       record_audit ou (lit ''[broker] REVOKE '' @ rid @ lit '' '' @ ba_sam_account_name account @ lit '' '' @ handle_id
         @ by_delegate delegate))))))))"

end
