(* ===== verification/KB_BrokerSound.thy ===== *)
theory KB_BrokerSound
  imports KB_Broker KB_IssuerdMain
begin

text \<open>
  What the routes of the broker guarantee: a ticket goes out only for a proven identity that
  the directory admits, a refusal never reaches the issuer, a device grant is written only for
  an authorized account, and the broker and the issuer daemon composed over the socket.
\<close>

section \<open>Events of the steps\<close>

definition notices :: "broker_event set" where "notices = {ev. \<exists>n. ev = EvNotice n}"
definition idp_calls :: "broker_event set" where "idp_calls = {ev. \<exists>src token now r. ev = EvIdentify src token now r}"
definition issuer_calls :: "broker_event set" where "issuer_calls = {ev. \<exists>q r. ev = EvIssuer q r}"

lemma event_sets [simp]:
  "searches \<subseteq> - issuer_calls" "notices \<subseteq> - issuer_calls" "idp_calls \<subseteq> - issuer_calls"
  by (auto simp: searches_def notices_def idp_calls_def issuer_calls_def)

lemma notify_follows [simp]: "follows s (notify ou n s)" "asked s (notify ou n s) = {EvNotice n}"
    "bs_nonces (notify ou n s) = bs_nonces s"
  by (simp_all add: notify_def follows_def asked_def)

lemma notify_all_follows:
  "follows s (notify_all ou ns s) \<and> asked s (notify_all ou ns s) \<subseteq> notices \<and> bs_nonces (notify_all ou ns s) = bs_nonces s"
proof (induction ns arbitrary: s)
  case (Cons n ns)
  have f: "follows s (notify ou n s)" by simp
  note ih = Cons.IH [of "notify ou n s"]
  show ?case using f ih asked_trans [OF f, of "notify_all ou ns (notify ou n s)"] follows_trans [OF f]
    by (auto simp: notices_def)
qed (simp add: notices_def)

lemma resolved_cleanly_follows:
  "follows s (resolved_cleanly ou i s) \<and> asked s (resolved_cleanly ou i s) \<subseteq> notices
   \<and> bs_nonces (resolved_cleanly ou i s) = bs_nonces s"
  unfolding resolved_cleanly_def by (rule notify_all_follows)

lemma directory_failure_follows:
  "directory_failure ou i e s = (f, t) \<Longrightarrow> follows s t \<and> asked s t \<subseteq> notices"
  by (auto simp: directory_failure_def role_group_failure_def notices_def split: lookup_error.splits denied.splits)

lemma settled_logs: assumes "logs_only E body" "notices \<subseteq> E" shows "logs_only E (settled ou i body)"
proof (rule logs_onlyI)
  fix s r t assume m: "settled ou i body s = (r, t)"
  obtain r1 s1 where 1: "body s = (r1, s1)" by (cases "body s")
  note f = logs_onlyD [OF assms(1) 1]
  have "follows s1 t \<and> asked s1 t \<subseteq> notices"
    using m 1 resolved_cleanly_follows [of s1 ou i] directory_failure_follows [of ou i _ s1]
    by (auto simp: settled_def split: sum.splits prod.splits)
  then show "follows s t \<and> asked s t \<subseteq> E" using f assms(2) asked_trans [of s s1 t] follows_trans [of s s1 t] by blast
qed

lemma settled_Inr:
  assumes "settled ou i body s = (Inr x, t)"
  obtains s1 where "body s = (Inr x, s1)" "follows s1 t" "bs_nonces t = bs_nonces s1"
proof -
  obtain r s1 where b: "body s = (r, s1)" by (cases "body s")
  then show ?thesis using assms that [of s1] resolved_cleanly_follows [of s1 ou i]
    by (auto simp: settled_def split: sum.splits prod.splits)
qed

lemma broker_now_state: "broker_now ou s = (r, t) \<Longrightarrow> t = s"
  by (simp add: broker_now_def)

lemma logs_only_now [simp, intro]: "logs_only E (broker_now ou)"
  by (rule logs_onlyI) (auto dest: broker_now_state)

lemma logs_only_identify [intro]: "idp_calls \<subseteq> E \<Longrightarrow> logs_only E (identify ou src token now)"
  by (rule logs_onlyI) (auto simp: identify_def Let_def follows_def asked_def idp_calls_def split: prod.splits)

lemma logs_only_verify [simp, intro]: "logs_only E (device_verify ou g a now)"
  by (rule logs_onlyI) (auto simp: device_verify_def Let_def follows_def asked_def split: prod.splits)

lemma logs_only_request_id [simp, intro]: "logs_only E (request_id ou)"
  by (rule logs_onlyI) (auto simp: request_id_def broker_random_def Let_def follows_def asked_def split: prod.splits option.splits)

lemma logs_only_prove [intro]: "idp_calls \<subseteq> E \<Longrightarrow> logs_only E (prove_identity ou app src header now)"
  unfolding prove_identity_def by (auto intro!: logs_only_bind logs_only_identify split: option.splits proof_kind.splits)

lemma issuer_send_logs: "issuer_send ou q s = (r, t) \<Longrightarrow> follows s t \<and> EvIssuer q r \<in> asked s t \<and> bs_nonces t = bs_nonces s"
  by (auto simp: issuer_send_def Let_def follows_def asked_def split: prod.splits)

lemma issuer_issue_Inr:
  assumes "issuer_issue ou q s = (Inr k, t)"
  shows "follows s t \<and> EvIssuer (Issue q) (Inr (RespOk k)) \<in> asked s t
    \<and> issuer_call ou (Issue q) (bs_world s) = (Inr (RespOk k), bs_world t)"
  using assms unfolding issuer_issue_def
proof (rule act_bindE)
  fix r s1
  assume "issuer_send ou (Issue q) s = (Inr r, s1)" "(case r of RespOk t \<Rightarrow> ret t | _ \<Rightarrow> fail_with IssuerUnavailable) s1 = (Inr k, t)"
  then have "issuer_send ou (Issue q) s = (Inr (RespOk k), t)" by (auto split: response.splits)
  then show ?thesis using issuer_send_logs [of ou "Issue q" s]
    by (auto simp: issuer_send_def Let_def split: prod.splits)
qed

lemma issuer_write_follows: "follows s (snd (issuer_write ou q s)) \<and> bs_nonces (snd (issuer_write ou q s)) = bs_nonces s"
  by (auto simp: issuer_write_def act_bind_def split: prod.splits sum.splits response.splits dest: issuer_send_logs)

lemma touch_follows: "follows s (touch ou a g rid now s) \<and> bs_nonces (touch ou a g rid now s) = bs_nonces s"
  by (simp add: touch_def issuer_write_follows)

lemma issued_or_failed_Inr:
  assumes "issued_or_failed ou a body s = (Inr k, t)"
  obtains s1 where "body s = (Inr k, s1)" "follows s1 t" "bs_nonces t = bs_nonces s1"
proof -
  obtain r s1 where b: "body s = (r, s1)" by (cases "body s")
  then show ?thesis using assms that [of s1] by (auto simp: issued_or_failed_def split: sum.splits prod.splits)
qed


lemma role_slug_total:
  "fault \<in> {lit ''missing'', lit ''ambiguous''} \<Longrightarrow> \<exists>p. role_slug marker fault = Some p \<and> p \<in> set ROLE_PROBLEMS"
  by (auto simp: role_slug_def Let_def ROLE_PROBLEMS_def lit_def starts_with_def ends_with_def)

section \<open>The ticket route\<close>

text \<open>How an identity was proven: by the adapter of the source, or by a device that holds a key.\<close>

definition proven ::
  "'w outside \<Rightarrow> grant_config \<Rightarrow> source_state \<Rightarrow> str option \<Rightarrow> nat \<Rightarrow> nonces \<Rightarrow> broker_event set
     \<Rightarrow> external_identity \<Rightarrow> str option \<Rightarrow> bool" where
  "proven ou g src header now ns evs i device \<longleftrightarrow>
     (case device of
        None \<Rightarrow> \<exists>token. proof_of header = Some (Bearer token)
                  \<and> EvIdentify (source_name (ss_source src)) token now (Some i) \<in> evs
      | Some tp \<Rightarrow> \<exists>assertion ns'. proof_of header = Some (DeviceGrantProof assertion) \<and> 0 < dg_days g
                  \<and> verify_assertion (o_crypto ou) assertion (dg_audience g) (int now) ns
                      = (Inr \<lparr>dp_identity = i, dp_thumbprint = tp\<rparr>, ns'))"

lemma proven_mono: "proven ou g src h now ns evs i d \<Longrightarrow> evs \<subseteq> evs' \<Longrightarrow> proven ou g src h now ns evs' i d"
  unfolding proven_def by (cases d) auto

lemma identify_Inr:
  "identify ou src token now s = (Inr i, t) \<Longrightarrow> EvIdentify (source_name (ss_source src)) token now (Some i) \<in> asked s t"
  by (auto simp: identify_def Let_def follows_def asked_def kb_results split: prod.splits)

lemma device_verify_Inr:
  "device_verify ou g a now s = (Inr pf, t) \<Longrightarrow>
     verify_assertion (o_crypto ou) a (dg_audience g) (int now) (bs_nonces s) = (Inr pf, bs_nonces t)"
  by (auto simp: device_verify_def Let_def kb_results map_err_def split: prod.splits sum.splits)

lemma prove_identity_Inr:
  assumes "prove_identity ou app src header now s = (Inr (i, device), t)"
  shows "follows s t \<and> proven ou (bc_device_grants (ap_config app)) src header now (bs_nonces s) (asked s t) i device"
proof -
  have f: "follows s t" using logs_onlyD [OF logs_only_prove [OF subset_UNIV] assms] by blast
  show ?thesis
  proof (cases "proof_of header")
    case (Some pk)
    show ?thesis
    proof (cases pk)
      case (Bearer token)
      with assms Some f show ?thesis unfolding prove_identity_def
        by (auto simp: proven_def act_results dest: identify_Inr)
    next
      case (DeviceGrantProof a)
      have "\<exists>pf. device_verify ou (bc_device_grants (ap_config app)) a now s = (Inr pf, t) \<and> i = dp_identity pf
          \<and> device = Some (dp_thumbprint pf) \<and> 0 < dg_days (bc_device_grants (ap_config app))"
        using assms Some DeviceGrantProof unfolding prove_identity_def
        by (auto simp: act_results enabled_def grants_enabled_def split: if_splits)
      then obtain pf where "device_verify ou (bc_device_grants (ap_config app)) a now s = (Inr pf, t)" "i = dp_identity pf"
         "device = Some (dp_thumbprint pf)" "0 < dg_days (bc_device_grants (ap_config app))" by blast
      with Some DeviceGrantProof f device_verify_Inr [of ou _ a now s pf t] show ?thesis by (auto simp: proven_def)
    qed
  qed (use assms in \<open>simp add: prove_identity_def\<close>)
qed

lemma live_grant_Inr:
  "live_grant g a tp now = Inr x \<Longrightarrow> x \<in> set (ba_grants a) \<and> g_thumbprint x = tp \<and> valid_at x now (dg_days g)"
  by (auto simp: live_grant_def kb_results find_Some_iff split: if_splits)

definition issue_request_for :: "broker_config \<Rightarrow> str \<Rightarrow> broker_account \<Rightarrow> issue_request" where
  "issue_request_for cfg rid a = \<lparr>ir_request_id = rid, ir_account_sid = ba_sid a,
     ir_lifetime_seconds = Some (bc_ticket_lifetime cfg), ir_renewable_lifetime_seconds = Some (bc_ticket_renewable cfg)\<rparr>"

text \<open>
  The ticket route up to the issuer call: whose ticket it is going to be, and the state in
  which the issuer is asked. The route is this action followed by the call.
\<close>

definition ticket_subject ::
  "'w outside \<Rightarrow> app_state \<Rightarrow> source_state \<Rightarrow> str option
     \<Rightarrow> ('w, failure, nat \<times> external_identity \<times> str option \<times> broker_account \<times> device_grant option) act" where
  "ticket_subject ou app src header =
     act_bind (broker_now ou) (\<lambda>now.
     act_bind (prove_identity ou app src header now) (\<lambda>(i, device).
     act_bind (lift_result (same_source (ss_source src) i)) (\<lambda>_.
     act_bind (settled ou i (dir_lookup ou (ss_directory src) i (device \<noteq> None))) (\<lambda>account.
     act_bind (lift_result (case device of
         None \<Rightarrow> Inr None
       | Some tp \<Rightarrow> rbind (live_grant (bc_device_grants (ap_config app)) account tp now) (\<lambda>g. Inr (Some g)))) (\<lambda>live.
     ret (now, i, device, account, live))))))"

lemma act_bind_assoc: "act_bind (act_bind m k) l = act_bind m (\<lambda>x. act_bind (k x) l)"
  by (rule ext) (simp add: act_bind_def split: prod.splits sum.splits)

lemma act_bind_ret: "act_bind (ret x) k = k x"
  by (rule ext) (simp add: act_bind_def)

lemma act_bind_pair: "act_bind (case p of (x, y) \<Rightarrow> f x y) l = (case p of (x, y) \<Rightarrow> act_bind (f x y) l)"
  by (cases p) simp

lemma ticket_issue_after_subject:
  "ticket_issue ou app src header rid =
     act_bind (ticket_subject ou app src header) (\<lambda>(now, i, device, account, live).
     act_bind (issued_or_failed ou account (issuer_issue ou (issue_request_for (ap_config app) rid account))) (\<lambda>t s.
       (Inr \<lparr>tr_principal = tk_principal t, tr_ccache_b64 = tk_ccache_b64 t\<rparr>,
        case live of None \<Rightarrow> s | Some g \<Rightarrow> touch ou account g rid now s)))"
  unfolding ticket_issue_def ticket_subject_def issue_request_for_def act_bind_assoc act_bind_pair act_bind_ret prod.case ..

lemma ticket_subject_Inr:
  assumes "ticket_subject ou app src header s = (Inr (now, i, device, a, live), t)"
  shows "follows s t
     \<and> proven ou (bc_device_grants (ap_config app)) src header now (bs_nonces s) (asked s t) i device
     \<and> ei_source i = ss_source src
     \<and> answered_account (asked s t) (ss_directory src) (ldap_filter i) (device \<noteq> None) a
     \<and> (case device of None \<Rightarrow> True
        | Some tp \<Rightarrow> \<exists>g \<in> set (ba_grants a). g_thumbprint g = tp \<and> valid_at g now (dg_days (bc_device_grants (ap_config app))))"
  using assms unfolding ticket_subject_def
proof (elim act_bindE, goal_cases)
  case (1 n s1 pid s2)
  obtain j d where pid: "pid = (j, d)" by (cases pid)
  have s1: "s1 = s" using 1(1) by (rule broker_now_state)
  note p = prove_identity_Inr [OF 1(2) [unfolded pid s1]]
  from 1(3) show ?case unfolding pid prod.case
  proof (elim act_bindE, goal_cases)
    case (1 u s2' b s3 l s3')
    have src: "ei_source j = ss_source src" "s2' = s2" using 1(1) by (auto simp: same_source_def split: if_splits)
    have eqs: "n = now" "j = i" "d = device" "b = a" "l = live" "s3' = t" "s3 = t" using 1(3,4) by auto
    obtain m where m: "dir_lookup ou (ss_directory src) i (device \<noteq> None) s2 = (Inr a, m)" "follows m t"
      using settled_Inr [OF 1(2) [unfolded src(2) eqs]] by blast
    note d = dir_lookup_Inr [OF m(1)]
    have f: "follows s m" "follows s t" "follows s2 t" using p d m(2) follows_trans by blast+
    have sub: "asked s s2 \<subseteq> asked s t" "asked s2 m \<subseteq> asked s t"
      using p d f m(2) asked_trans [of s s2 t] asked_trans [of s2 m t] by blast+
    have "case device of None \<Rightarrow> True
        | Some tp \<Rightarrow> \<exists>g \<in> set (ba_grants a). g_thumbprint g = tp \<and> valid_at g now (dg_days (bc_device_grants (ap_config app)))"
      using 1(3) unfolding eqs by (auto simp: kb_results dest: live_grant_Inr split: option.splits)
    moreover have "proven ou (bc_device_grants (ap_config app)) src header now (bs_nonces s) (asked s t) i device"
      using p sub(1) proven_mono unfolding eqs by blast
    moreover have "answered_account (asked s t) (ss_directory src) (ldap_filter i) (device \<noteq> None) a"
      using d sub(2) answered_account_mono by blast
    ultimately show ?case using src(1) f(2) unfolding eqs by blast
  qed
qed

lemma ticket_issue_Inr:
  assumes "ticket_issue ou app src header rid s = (Inr resp, t)"
  shows "\<exists>now i device a live s1 k w'.
     ticket_subject ou app src header s = (Inr (now, i, device, a, live), s1) \<and> follows s1 t
     \<and> issuer_call ou (Issue (issue_request_for (ap_config app) rid a)) (bs_world s1) = (Inr (RespOk k), w')
     \<and> EvIssuer (Issue (issue_request_for (ap_config app) rid a)) (Inr (RespOk k)) \<in> asked s1 t
     \<and> resp = \<lparr>tr_principal = tk_principal k, tr_ccache_b64 = tk_ccache_b64 k\<rparr>"
  using assms unfolding ticket_issue_after_subject
proof (elim act_bindE, goal_cases)
  case (1 x s1)
  obtain now i device a live where x: "x = (now, i, device, a, live)" by (cases x)
  from 1(2) show ?case unfolding x prod.case
  proof (elim act_bindE, goal_cases)
    case (1 k s2)
    obtain m where m: "issuer_issue ou (issue_request_for (ap_config app) rid a) s1 = (Inr k, m)" "follows m s2"
      using issued_or_failed_Inr [OF 1(1)] by blast
    have e: "follows s2 t" "resp = \<lparr>tr_principal = tk_principal k, tr_ccache_b64 = tk_ccache_b64 k\<rparr>"
      using 1(2) by (auto simp: touch_follows split: option.splits)
    note q = issuer_issue_Inr [OF m(1)]
    have f: "follows m t" "follows s1 t" using q m(2) e(1) follows_trans by blast+
    have "asked s1 m \<subseteq> asked s1 t" using q f asked_trans [of s1 m t] by blast
    with q e(2) f \<open>ticket_subject ou app src header s = (Inr x, s1)\<close> show ?case unfolding x by blast
  qed
qed

text \<open>The route as its subject and one issuer call, from the state in which the subject left the broker.\<close>

lemma ticket_route_split:
  assumes "ticket_route ou app source header taken s = (Inr resp, t)"
  shows "\<exists>rid s0 src now i device a live s1 k w'. taken < bc_max_inflight (ap_config app)
     \<and> map_of (ap_sources app) source = Some src \<and> request_id ou s = (Inr rid, s0)
     \<and> bs_nonces s0 = bs_nonces s \<and> bs_log s0 = bs_log s
     \<and> ticket_subject ou app src header s0 = (Inr (now, i, device, a, live), s1) \<and> follows s1 t
     \<and> issuer_call ou (Issue (issue_request_for (ap_config app) rid a)) (bs_world s1) = (Inr (RespOk k), w')
     \<and> EvIssuer (Issue (issue_request_for (ap_config app) rid a)) (Inr (RespOk k)) \<in> asked s1 t
     \<and> resp = \<lparr>tr_principal = tk_principal k, tr_ccache_b64 = tk_ccache_b64 k\<rparr>"
  using assms unfolding ticket_route_def
proof (elim act_bindE, goal_cases)
  case (1 rid s0)
  have w: "bs_nonces s0 = bs_nonces s" "bs_log s0 = bs_log s" using 1(1)
    by (auto simp: request_id_def broker_random_def Let_def split: prod.splits option.splits)
  have t: "taken < bc_max_inflight (ap_config app)" using 1(2) by (auto split: if_splits)
  with 1(2) obtain src where src: "map_of (ap_sources app) source = Some src" "ticket_issue ou app src header rid s0 = (Inr resp, t)"
    by (auto simp: act_results app_source_def kb_results)
  from ticket_issue_Inr [OF src(2)] show ?case
    by (elim exE conjE, intro exI conjI) (rule t src(1) w 1(1) | assumption)+
qed

lemma asked_log: "bs_log s = bs_log s' \<Longrightarrow> asked s t = asked s' t"
  by (simp add: asked_def)

lemma ticket_route_Inr:
  assumes "ticket_route ou app source header taken s = (Inr resp, t)"
  shows "\<exists>src now i device a rid k. taken < bc_max_inflight (ap_config app) \<and> map_of (ap_sources app) source = Some src
     \<and> proven ou (bc_device_grants (ap_config app)) src header now (bs_nonces s) (asked s t) i device
     \<and> ei_source i = ss_source src
     \<and> answered_account (asked s t) (ss_directory src) (ldap_filter i) (device \<noteq> None) a
     \<and> (case device of None \<Rightarrow> True
        | Some tp \<Rightarrow> \<exists>g \<in> set (ba_grants a). g_thumbprint g = tp \<and> valid_at g now (dg_days (bc_device_grants (ap_config app))))
     \<and> EvIssuer (Issue (issue_request_for (ap_config app) rid a)) (Inr (RespOk k)) \<in> asked s t
     \<and> resp = \<lparr>tr_principal = tk_principal k, tr_ccache_b64 = tk_ccache_b64 k\<rparr>"
proof -
  obtain rid s0 src now i device a live s1 k where r: "taken < bc_max_inflight (ap_config app)"
     "map_of (ap_sources app) source = Some src" "bs_nonces s0 = bs_nonces s" "bs_log s0 = bs_log s"
     "ticket_subject ou app src header s0 = (Inr (now, i, device, a, live), s1)" "follows s1 t"
     "EvIssuer (Issue (issue_request_for (ap_config app) rid a)) (Inr (RespOk k)) \<in> asked s1 t"
     "resp = \<lparr>tr_principal = tk_principal k, tr_ccache_b64 = tk_ccache_b64 k\<rparr>"
    using ticket_route_split [OF assms] by (elim exE conjE) (rule that, assumption+)
  note q = ticket_subject_Inr [OF r(5)]
  have u: "asked s0 s1 \<subseteq> asked s t" "asked s1 t \<subseteq> asked s t"
    using asked_trans [of s0 s1 t] q r(6) asked_log [OF r(4), of t] by blast+
  have p: "proven ou (bc_device_grants (ap_config app)) src header now (bs_nonces s) (asked s t) i device"
    "answered_account (asked s t) (ss_directory src) (ldap_filter i) (device \<noteq> None) a"
    using q u(1) proven_mono answered_account_mono unfolding r(3) by blast+
  show ?thesis by (intro exI conjI) (rule r(1,2,8) p | use q r(7) u(2) in blast)+
qed


text \<open>
  C2 (KB_BrokerSound.ticket_for_proven_identity). When the ticket route answers with a ticket, a slot was free, the
  path names a configured source, the identity was proven during this request (by the adapter
  of that source, or by a device whose assertion verified and spent an outstanding nonce) and
  belongs to that source; the directory answered during this request that one enabled account
  carries it and is in the source's one admission group, and for a device also in the grant
  group, with a stored grant for that very key inside its effective window. The issuer was
  asked for the SID of that account, with the configured lifetimes, and its ticket is what the
  client gets.
\<close>

theorem ticket_for_proven_identity:
  assumes "ticket_route ou app source header taken s = (Inr resp, t)"
  shows "\<exists>src now i device a rid k. taken < bc_max_inflight (ap_config app) \<and> map_of (ap_sources app) source = Some src
     \<and> proven ou (bc_device_grants (ap_config app)) src header now (bs_nonces s) (asked s t) i device
     \<and> ei_source i = ss_source src
     \<and> answered_account (asked s t) (ss_directory src) (ldap_filter i) (device \<noteq> None) a
     \<and> (case device of None \<Rightarrow> True
        | Some tp \<Rightarrow> \<exists>g \<in> set (ba_grants a). g_thumbprint g = tp \<and> valid_at g now (dg_days (bc_device_grants (ap_config app))))
     \<and> EvIssuer (Issue (issue_request_for (ap_config app) rid a)) (Inr (RespOk k)) \<in> asked s t
     \<and> resp = \<lparr>tr_principal = tk_principal k, tr_ccache_b64 = tk_ccache_b64 k\<rparr>"
  using ticket_route_Inr [OF assms] by (elim exE conjE, intro exI conjI) assumption+

text \<open>A deployment with one source, whose issuer answers with a ticket, for the witnesses.\<close>

definition sample_reply :: ticket where
  "sample_reply = \<lparr>tk_request_id = lit ''r'', tk_principal = lit ''a@X'', tk_ticket_format = TICKET_FORMAT,
     tk_ccache_b64 = lit ''BQQ='', tk_starts_at = [], tk_expires_at = [], tk_renew_until = []\<rparr>"

definition serving :: "response \<Rightarrow> unit outside" where
  "serving r = sample_outside\<lparr>o_response_json := \<lambda>b. Some r\<rparr>"

definition sample_source :: source_state where
  "sample_source = \<lparr>ss_source = Source (lit ''entra''), ss_directory = sample_directory\<rparr>"

definition sample_app :: app_state where
  "sample_app = \<lparr>ap_config = \<lparr>bc_realm = lit ''X'', bc_kdcs = [], bc_services = [],
      bc_client_defaults = \<lparr>cd_autostart = None, cd_windows_sign_in = None, cd_ntlm_fallback_recovery = None, cd_silent = None\<rparr>,
      bc_ticket_lifetime = 600, bc_ticket_renewable = 3600, bc_max_inflight = 4,
      bc_device_grants = \<lparr>dg_days = 30, dg_max_per_user = 8, dg_audience = lit ''kerbridge''\<rparr>\<rparr>,
     ap_sources = [(lit ''entra'', sample_source)]\<rparr>"

lemma serving_simps:
  "o_now (serving r) w = Some 100" "o_identify (serving r) src token now w = (Some person_identity, w)"
  "o_random (serving r) n w = (Some (replicate n 7), w)" "o_notify (serving r) nt w = w"
  by (simp_all add: serving_def sample_outside_def)

lemma serving_ldap: "sample_ldap (serving r)"
  by (simp add: serving_def sample_ldap_def sample_outside_def)

lemma serving_answers: "issuer_call (serving r) q w = (case r of RespError _ why \<Rightarrow> Inl (IssuerRefused why) | _ \<Rightarrow> Inr r, w)"
proof -
  have "be32 0 = [0, 0, 0, 0]" by (simp add: be32_def be_bytes_def map_replicate_const numeral_eq_Suc)
  then have rf: "read_frame [0, 0, 0, 0] = Inr ([], [])"
    using read_frame_write [of "[]" "be32 0" "[]"] by (simp add: write_frame_def)
  have wf: "\<exists>f. write_frame [] = Inr f" by (simp add: write_frame_def)
  with rf show ?thesis
    by (auto simp: issuer_call_def serving_def sample_outside_def Let_def rbind_def ok_or_def map_err_def split: response.splits)
qed

lemma bearer_header: "proof_of (Some (lit ''Bearer t'')) = Some (Bearer (lit ''t''))"
proof -
  have "split_once c_space (lit ''Bearer t'') = Some (lit ''Bearer'', lit ''t'')" by (simp add: lit_def)
  moreover have "trim (lit ''t'') = lit ''t''"
    by (simp add: trim_def trim_start_by_def trim_end_by_def is_whitespace_def lit_def)
  moreover have "eq_ignore_ascii_case (lit ''Bearer'') (lit ''bearer'')"
    by (simp add: eq_ignore_ascii_case_def lit_def to_ascii_lowercase_def)
  moreover have "lit ''t'' \<noteq> []" by (simp add: lit_def)
  ultimately show ?thesis by (simp add: proof_of_def)
qed

text \<open>A sign-in of the person at any outside whose directory is the sample and whose issuer answers.\<close>

lemma sample_ticket_issued:
  assumes "sample_ldap ou" "\<And>w. o_now ou w = Some 100" "\<And>src token now w. o_identify ou src token now w = (Some person_identity, w)"
    "o_random ou 8 (bs_world s) = (rnd, bs_world s)"
    "rid = (case rnd of None \<Rightarrow> lit ''unseeded'' | Some bytes \<Rightarrow> concat (map hex_of_byte bytes))"
    "issuer_call ou (Issue (issue_request_for (ap_config sample_app) rid person_account)) (bs_world s) = (Inr (RespOk k), w')"
    "\<And>n w. o_notify ou n w = w"
  shows "\<exists>t. ticket_route ou sample_app (lit ''entra'') (Some (lit ''Bearer t'')) 0 s
     = (Inr \<lparr>tr_principal = tk_principal k, tr_ccache_b64 = tk_ccache_b64 k\<rparr>, t)"
proof -
  have w: "s\<lparr>bs_world := bs_world s\<rparr> = s" by (cases s) simp
  have r: "request_id ou s = (Inr rid, s)" using assms(4,5) w by (auto simp: request_id_def broker_random_def split: option.splits)
  have n: "broker_now ou s = (Inr 100, s)" by (simp add: broker_now_def assms(2) ok_or_def)
  obtain s1 where p: "prove_identity ou sample_app sample_source (Some (lit ''Bearer t'')) 100 s = (Inr (person_identity, None), s1)"
    "bs_world s1 = bs_world s"
    by (simp add: prove_identity_def bearer_header act_bind_def identify_def assms(3) ok_or_def Let_def)
  have ss: "same_source (ss_source sample_source) person_identity = Inr ()"
    by (simp add: same_source_def sample_source_def person_identity_def)
  obtain s2 where l: "dir_lookup ou (ss_directory sample_source) person_identity False s1 = (Inr person_account, s2)" "bs_world s2 = bs_world s"
    using sample_lookups(1) [OF assms(1), of False s1] p(2) by (auto simp: sample_source_def)
  have nt: "bs_world (notify_all ou ns x) = bs_world x" for ns x
    by (induction ns arbitrary: x) (simp_all add: notify_def assms(7))
  let ?s3 = "resolved_cleanly ou person_identity s2"
  have w3: "bs_world ?s3 = bs_world s" using l(2) by (simp add: resolved_cleanly_def nt)
  have i: "\<exists>s4. issuer_issue ou (issue_request_for (ap_config sample_app) rid person_account) ?s3 = (Inr k, s4)"
    by (simp add: issuer_issue_def act_bind_def issuer_send_def w3 assms(6))
  have a: "app_source sample_app (lit ''entra'') = Inr sample_source" by (simp add: app_source_def sample_app_def ok_or_def)
  have q: "bc_max_inflight (ap_config sample_app) = 4" by (simp add: sample_app_def)
  have "\<exists>t. ticket_issue ou sample_app sample_source (Some (lit ''Bearer t'')) rid s
      = (Inr \<lparr>tr_principal = tk_principal k, tr_ccache_b64 = tk_ccache_b64 k\<rparr>, t)"
    using i unfolding issue_request_for_def
    by (auto simp: ticket_issue_def act_bind_def n p(1) ss settled_def l(1) issued_or_failed_def)
  then show ?thesis by (simp add: ticket_route_def act_bind_def r q a)
qed

lemma serving_ticket_issued:
  "\<exists>t. ticket_route (serving (RespOk sample_reply)) sample_app (lit ''entra'') (Some (lit ''Bearer t'')) 0 sample_bstate
     = (Inr \<lparr>tr_principal = lit ''a@X'', tr_ccache_b64 = lit ''BQQ=''\<rparr>, t)"
proof -
  have "\<exists>t. ticket_route (serving (RespOk sample_reply)) sample_app (lit ''entra'') (Some (lit ''Bearer t'')) 0 sample_bstate
     = (Inr \<lparr>tr_principal = tk_principal sample_reply, tr_ccache_b64 = tk_ccache_b64 sample_reply\<rparr>, t)"
    by (rule sample_ticket_issued [OF serving_ldap, where rnd = "Some (replicate 8 7)" and w' = "()"])
       (simp_all add: serving_simps serving_answers)
  then show ?thesis by (simp add: sample_reply_def)
qed

theorem ticket_for_proven_identity_witness:
  "\<exists>t i a. ei_source i = Source (lit ''entra'')
     \<and> answered_account (asked sample_bstate t) sample_directory (ldap_filter i) False a"
proof -
  obtain t where "ticket_route (serving (RespOk sample_reply)) sample_app (lit ''entra'') (Some (lit ''Bearer t'')) 0 sample_bstate
     = (Inr \<lparr>tr_principal = lit ''a@X'', tr_ccache_b64 = lit ''BQQ=''\<rparr>, t)" using serving_ticket_issued by blast
  from ticket_for_proven_identity [OF this] obtain src i need a where
    a: "map_of (ap_sources sample_app) (lit ''entra'') = Some src" "ei_source i = ss_source src"
       "answered_account (asked sample_bstate t) (ss_directory src) (ldap_filter i) need a"
    by (elim exE conjE) (rule that, assumption+)
  have "src = sample_source" using a(1) by (simp add: sample_app_def)
  then have "ei_source i = Source (lit ''entra'')" "answered_account (asked sample_bstate t) sample_directory (ldap_filter i) False a"
    using a(2,3) by (simp_all add: sample_source_def answered_account_def)
  then show ?thesis by blast
qed


section \<open>Refusals\<close>

text \<open>An action whose failures, outside a set of statuses, cause only events of a given set.\<close>

definition quiet_unless :: "nat set \<Rightarrow> broker_event set \<Rightarrow> ('w, failure, 'a) act \<Rightarrow> bool" where
  "quiet_unless F E m \<longleftrightarrow> (\<forall>s e t. m s = (Inl e, t) \<longrightarrow> fl_status e \<in> F \<or> asked s t \<subseteq> E)"

lemma quiet_of_logs: "logs_only E m \<Longrightarrow> quiet_unless F E m"
  using logs_onlyD unfolding quiet_unless_def by blast

lemma act_bind_Inl:
  "act_bind m k s = (Inl e, t) \<longleftrightarrow> m s = (Inl e, t) \<or> (\<exists>x s1. m s = (Inr x, s1) \<and> k x s1 = (Inl e, t))"
  by (auto simp: act_bind_def split: prod.splits sum.splits)

lemma quiet_bind:
  assumes "logs_only E m" "\<And>x. quiet_unless F E (k x)" "\<And>x. logs_only UNIV (k x)"
  shows "quiet_unless F E (act_bind m k)"
  unfolding quiet_unless_def
proof (intro allI impI)
  fix s e t assume "act_bind m k s = (Inl e, t)"
  then show "fl_status e \<in> F \<or> asked s t \<subseteq> E" unfolding act_bind_Inl
  proof
    assume "m s = (Inl e, t)"
    then show ?thesis using logs_onlyD [OF assms(1)] by blast
  next
    assume "\<exists>x s1. m s = (Inr x, s1) \<and> k x s1 = (Inl e, t)"
    then obtain x s1 where x: "m s = (Inr x, s1)" "k x s1 = (Inl e, t)" by blast
    have "fl_status e \<in> F \<or> asked s1 t \<subseteq> E" using assms(2) x(2) unfolding quiet_unless_def by blast
    then show ?thesis using logs_onlyD [OF assms(1) x(1)] logs_onlyD [OF assms(3) x(2)] asked_trans [of s s1 t] by blast
  qed
qed

lemma quiet_last:
  assumes "quiet_unless F E m" "\<And>x s. \<exists>y t. k x s = (Inr y, t)"
  shows "quiet_unless F E (act_bind m k)"
  unfolding quiet_unless_def act_bind_Inl
proof (intro allI impI)
  fix s e t assume "m s = (Inl e, t) \<or> (\<exists>x s1. m s = (Inr x, s1) \<and> k x s1 = (Inl e, t))"
  then have "m s = (Inl e, t)" using assms(2) by (metis Inl_Inr_False prod.inject)
  then show "fl_status e \<in> F \<or> asked s t \<subseteq> E" using assms(1) unfolding quiet_unless_def by blast
qed

lemma quiet_case: "(\<And>a b. quiet_unless F E (f a b)) \<Longrightarrow> quiet_unless F E (case p of (a, b) \<Rightarrow> f a b)"
  by (cases p) simp

lemma logs_only_case: "(\<And>a b. logs_only E (f a b)) \<Longrightarrow> logs_only E (case p of (a, b) \<Rightarrow> f a b)"
  by (cases p) simp

lemma issued_or_failed_quiet: "quiet_unless {500, 503} E (issued_or_failed ou a body)"
  by (auto simp: quiet_unless_def issued_or_failed_def issuer_failure_def failure_new_def status_defs
      split: prod.splits sum.splits issuer_error.splits)

lemma logs_issue: "logs_only UNIV (issuer_issue ou q)"
  unfolding issuer_issue_def
  by (intro logs_only_bind logs_onlyI) (auto split: response.splits dest: issuer_send_logs)

lemma logs_issued_or_failed: "logs_only UNIV (issued_or_failed ou a (issuer_issue ou q))"
proof (rule logs_onlyI)
  fix s r t assume m: "issued_or_failed ou a (issuer_issue ou q) s = (r, t)"
  obtain r1 s1 where 1: "issuer_issue ou q s = (r1, s1)" by (cases "issuer_issue ou q s")
  have "follows s1 t" using m 1
    by (auto simp: issued_or_failed_def issuer_failure_def split: sum.splits issuer_error.splits)
  then show "follows s t \<and> asked s t \<subseteq> UNIV" using logs_onlyD [OF logs_issue 1] follows_trans by blast
qed

lemma logs_respond: "logs_only UNIV (\<lambda>s. (Inr x, case live of None \<Rightarrow> s | Some g \<Rightarrow> touch ou a g rid now s))"
  by (rule logs_onlyI) (auto simp: touch_follows split: option.splits)

lemma ticket_issue_quiet:
  "quiet_unless {500, 503} (- issuer_calls) (ticket_issue ou app src header rid) \<and> logs_only UNIV (ticket_issue ou app src header rid)"
proof -
  have s: "logs_only E (settled ou i (dir_lookup ou d i need))" if "searches \<subseteq> E" "notices \<subseteq> E" for E d i need
    using that by (intro settled_logs) auto
  have q: "quiet_unless {500, 503} (- issuer_calls) (act_bind (issued_or_failed ou a b)
      (\<lambda>t s. (Inr (f t), case live of None \<Rightarrow> s | Some g \<Rightarrow> touch ou a g rid now s)))"
    for a b and f :: "ticket \<Rightarrow> ticket_response" and live now
    by (intro quiet_last issued_or_failed_quiet) auto
  show ?thesis unfolding ticket_issue_def
    by (intro conjI quiet_bind logs_only_bind q s logs_respond logs_issued_or_failed logs_only_prove logs_only_now
        logs_only_basic logs_only_case quiet_case event_sets subset_UNIV)
qed

text \<open>
  C26 (KB_BrokerSound.refused_ticket_unissued). When the ticket route refuses with any status but the two that report
  on the issuer (500 and 503), the issuer was not contacted: an unproven, unknown, ambiguous,
  disabled or unadmitted identity, a dead grant, a full broker and an unreadable directory all
  stop before it.
\<close>

theorem refused_ticket_unissued:
  assumes "ticket_route ou app source header taken s = (Inl f, t)"
    and "fl_status f \<noteq> INTERNAL_SERVER_ERROR" "fl_status f \<noteq> SERVICE_UNAVAILABLE"
  shows "asked s t \<inter> issuer_calls = {}"
proof -
  have "quiet_unless {500, 503} (- issuer_calls) (ticket_route ou app source header taken)"
    unfolding ticket_route_def
    by (cases "taken < bc_max_inflight (ap_config app)")
       (simp_all add: quiet_bind quiet_of_logs logs_only_bind ticket_issue_quiet)
  with assms show ?thesis unfolding quiet_unless_def status_defs by blast
qed


lemma sample_refused:
  "\<exists>t. ticket_route sample_outside sample_app (lit ''other'') None 0 sample_bstate
     = (Inl (failure_new NOT_FOUND (lit ''no such source'')), t)"
proof -
  obtain rid s0 where r: "request_id sample_outside sample_bstate = (Inr rid, s0)"
    by (auto simp: request_id_def broker_random_def sample_outside_def)
  have "lit ''other'' \<noteq> lit ''entra''" by (simp add: lit_def)
  then have "app_source sample_app (lit ''other'') = Inl (failure_new NOT_FOUND (lit ''no such source''))"
    by (simp add: app_source_def sample_app_def ok_or_def)
  then show ?thesis by (simp add: ticket_route_def act_bind_def r) (simp add: sample_app_def)
qed

theorem refused_ticket_unissued_witness:
  "\<exists>t. asked sample_bstate t \<inter> issuer_calls = {}
     \<and> fst (ticket_route sample_outside sample_app (lit ''other'') None 0 sample_bstate)
       = Inl (failure_new NOT_FOUND (lit ''no such source''))"
proof -
  obtain t where t: "ticket_route sample_outside sample_app (lit ''other'') None 0 sample_bstate
     = (Inl (failure_new NOT_FOUND (lit ''no such source'')), t)" using sample_refused by blast
  from refused_ticket_unissued [OF t] t show ?thesis
    by (intro exI [of _ t]) (simp add: failure_new_def status_defs)
qed

section \<open>The device routes\<close>

lemma grant_holder_Inr:
  assumes "grant_holder ou app src header tgt s = (Inr (au, now), t)"
  shows "follows s t \<and> 0 < dg_days (bc_device_grants (ap_config app))
    \<and> (\<exists>token i tp. proof_of header = Some (Bearer token)
      \<and> EvIdentify (source_name (ss_source src)) token now (Some i) \<in> asked s t
      \<and> (case tgt of None \<Rightarrow> tp = None | Some v \<Rightarrow> \<exists>x. target_parse v = Inr x \<and> tp = Some x)
      \<and> authorized_by (asked s t) (ss_directory src) i tp au)"
proof -
  obtain token where tk: "proof_of header = Some (Bearer token)"
  proof (cases "proof_of header")
    case (Some pk)
    with assms that show ?thesis unfolding grant_holder_def by (cases pk) (auto simp: act_results)
  qed (use assms in \<open>auto simp: grant_holder_def act_results\<close>)
  from assms show ?thesis unfolding grant_holder_def tk option.case proof_kind.case
  proof (elim act_bindE, goal_cases)
    case (1 u s0 n s1 tp s2 i s3 a s4)
    have e: "0 < dg_days (bc_device_grants (ap_config app))" "s0 = s"
      using 1(1) by (auto simp: enabled_def grants_enabled_def split: if_splits)
    have s1: "s1 = s" "s2 = s" using broker_now_state [OF 1(2)] e(2) 1(3) by auto
    have n: "n = now" "a = au" "s4 = t" using 1(6) by auto
    have p: "case tgt of None \<Rightarrow> tp = None | Some v \<Rightarrow> \<exists>x. target_parse v = Inr x \<and> tp = Some x"
      using 1(3) by (auto simp: kb_results map_err_def split: option.splits sum.splits)
    have f1: "follows s s3" using logs_onlyD [OF logs_only_identify [OF subset_UNIV] 1(4)] s1 by simp
    have i: "EvIdentify (source_name (ss_source src)) token now (Some i) \<in> asked s s3"
      using identify_Inr [OF 1(4)] s1 n by simp
    obtain l where l: "authorize_device_request ou (ss_directory src) i tp s3 = (Inr au, l)" "follows l t"
      using settled_Inr [OF 1(5)] n by blast
    note d = authorize_device_request_Inr [OF l(1)]
    have f: "follows s3 t" "follows s t" using d l(2) f1 follows_trans by blast+
    have sub: "asked s s3 \<subseteq> asked s t" "asked s3 l \<subseteq> asked s t"
      using asked_trans [OF f1 f(1)] asked_trans [of s3 l t] d l(2) by blast+
    show ?case using e(1) f(2) p i sub(1) authorized_by_mono [OF conjunct2 [OF d] sub(2)] by blast
  qed
qed

lemma issuer_write_Inr:
  assumes "grant_written (issuer_write ou q) s = (Inr u, t)"
  shows "follows s t \<and> (\<exists>j. EvIssuer q (Inr (RespDone j)) \<in> asked s t)"
proof -
  have "issuer_write ou q s = (Inr (), t)"
    using assms by (auto simp: grant_written_def map_err_def split: prod.splits sum.splits)
  then show ?thesis unfolding issuer_write_def
    by (elim act_bindE) (auto split: response.splits dest: issuer_send_logs)
qed

lemma record_audit_logs: "record_audit ou line s = (r, t) \<Longrightarrow> follows s t \<and> EvAudit line \<in> asked s t \<and> r = Inr ()"
  by (auto simp: record_audit_def follows_def asked_def)

lemma request_id_state: "request_id ou s = (r, t) \<Longrightarrow> \<exists>w. t = s\<lparr>bs_world := w\<rparr>"
  by (auto simp: request_id_def broker_random_def Let_def split: prod.splits option.splits)

text \<open>What a registration asks the issuer to write, and the grant it then shows.\<close>

definition grant_request_for ::
  "'w outside \<Rightarrow> grant_config \<Rightarrow> str \<Rightarrow> nat \<Rightarrow> broker_account \<Rightarrow> register_request \<Rightarrow> byte list \<Rightarrow> grant_device_request" where
  "grant_request_for ou g rid now a body key =
     \<lparr>gd_request_id = rid, gd_account_sid = ba_sid a, gd_alg = rr_alg body,
      gd_thumbprint = device_thumbprint (o_crypto ou) key, gd_label = rr_label body,
      gd_expires_at = now + dg_days g * 86400\<rparr>"

definition shown_grant :: "'w outside \<Rightarrow> grant_config \<Rightarrow> nat \<Rightarrow> register_request \<Rightarrow> str \<Rightarrow> byte list \<Rightarrow> device_grant" where
  "shown_grant ou g now body alg key =
     \<lparr>g_label = sanitize_label (rr_label body), g_alg = alg, g_thumbprint = device_thumbprint (o_crypto ou) key,
      g_start = now, g_end = now + dg_days g * 86400, g_seen = None\<rparr>"

definition grant_line :: "str \<Rightarrow> authorized_request \<Rightarrow> device_grant \<Rightarrow> str" where
  "grant_line rid au g = lit ''[broker] GRANT '' @ rid @ lit '' '' @ ba_sam_account_name (au_target au) @ lit '' ''
     @ grant_short_id g @ by_delegate (au_delegate au)"

text \<open>
  Fact (KB_BrokerSound.registered_device). A device registration that succeeds was made with a browser sign-in that
  the source's adapter accepted during this request, for an account the rule authorizes; the
  issuer acknowledged a grant on the SID of that account for the digest of the key the client
  presented, ending the configured number of days from now; the audit record names the account,
  the grant and the delegate; and the client is shown that grant with the identity of that
  account.
\<close>

theorem registered_device:
  assumes "register_device ou app source header body s = (Inr view, t)"
  shows "\<exists>src rid token now i tp au key alg j.
     map_of (ap_sources app) source = Some src \<and> 0 < dg_days (bc_device_grants (ap_config app))
     \<and> proof_of header = Some (Bearer token)
     \<and> EvIdentify (source_name (ss_source src)) token now (Some i) \<in> asked s t
     \<and> (case rr_target body of None \<Rightarrow> tp = None | Some v \<Rightarrow> \<exists>x. target_parse v = Inr x \<and> tp = Some x)
     \<and> authorized_by (asked s t) (ss_directory src) i tp au
     \<and> algorithm (rr_alg body) = Some alg \<and> cr_b64url (o_crypto ou) (rr_key body) = Some key
     \<and> EvIssuer (GrantDevice (grant_request_for ou (bc_device_grants (ap_config app)) rid now (au_target au) body key))
         (Inr (RespDone j)) \<in> asked s t
     \<and> EvAudit (grant_line rid au (shown_grant ou (bc_device_grants (ap_config app)) now body alg key)) \<in> asked s t
     \<and> view = device_view_of (shown_grant ou (bc_device_grants (ap_config app)) now body alg key)
         (ba_identity (au_target au)) (dg_days (bc_device_grants (ap_config app)))"
  using assms unfolding register_device_def
proof (elim act_bindE, goal_cases)
  case (1 rid s0 src s1 h s2)
  obtain au now where h: "h = (au, now)" by (cases h)
  obtain w where s0: "s0 = s\<lparr>bs_world := w\<rparr>" using request_id_state [OF 1(1)] by blast
  have src: "map_of (ap_sources app) source = Some src" "s1 = s0" using 1(2) by (auto simp: app_source_def kb_results)
  note gh = grant_holder_Inr [OF 1(3) [unfolded h src(2) s0], unfolded follows_world asked_world]
  obtain token i tp where gi: "proof_of header = Some (Bearer token)"
      "EvIdentify (source_name (ss_source src)) token now (Some i) \<in> asked s s2"
      "case rr_target body of None \<Rightarrow> tp = None | Some v \<Rightarrow> \<exists>x. target_parse v = Inr x \<and> tp = Some x"
      "authorized_by (asked s s2) (ss_directory src) i tp au" using gh by blast
  from 1(4) show ?case unfolding h prod.case Let_def
  proof (elim act_bindE, goal_cases)
    case (1 alg s2a key s2b u s3 v s4)
    let ?g = "shown_grant ou (bc_device_grants (ap_config app)) now body alg key"
    have s2: "s2a = s2" "s2b = s2" and key: "algorithm (rr_alg body) = Some alg" "cr_b64url (o_crypto ou) (rr_key body) = Some key"
      using 1(1,2) by (auto simp: kb_results)
    note wr = issuer_write_Inr [OF 1(3) [unfolded s2], folded grant_request_for_def]
      and au = record_audit_logs [OF 1(4), folded shown_grant_def, folded grant_line_def]
    have fin: "s4 = t" "view = device_view_of ?g (ba_identity (au_target au)) (dg_days (bc_device_grants (ap_config app)))"
      using 1(5) by (auto simp: shown_grant_def)
    have f: "follows s s2" "follows s2 s3" "follows s3 t" "follows s2 t" "follows s s3"
      using gh wr au fin follows_trans by blast+
    have sub: "asked s s2 \<subseteq> asked s t" "asked s2 s3 \<subseteq> asked s t" "asked s3 t \<subseteq> asked s t"
      using f asked_trans [of s s2 t] asked_trans [of s2 s3 t] asked_trans [of s s3 t] by blast+
    obtain j where j: "EvIssuer (GrantDevice (grant_request_for ou (bc_device_grants (ap_config app)) rid now (au_target au) body key))
         (Inr (RespDone j)) \<in> asked s t" using wr sub(2) by blast
    have a: "EvAudit (grant_line rid au ?g) \<in> asked s t" using au fin(1) sub(3) by blast
    note facts = src(1) conjunct1 [OF conjunct2 [OF gh]] gi(1) subsetD [OF sub(1) gi(2)] gi(3)
      authorized_by_mono [OF gi(4) sub(1)] key j a fin(2)
    show ?case by (intro exI conjI) (rule facts)+
  qed
qed


definition sample_registration :: register_request where
  "sample_registration = \<lparr>rr_alg = ALG_ES256, rr_key = lit ''k'', rr_label = lit ''pc'', rr_target = None\<rparr>"

lemma sample_holder:
  "\<exists>t. grant_holder (serving r) sample_app sample_source (Some (lit ''Bearer t'')) None s
      = (Inr (\<lparr>au_target = person_account, au_delegate = None\<rparr>, 100), t)"
proof -
  have n: "broker_now (serving r) s = (Inr 100, s)" by (simp add: broker_now_def serving_simps ok_or_def)
  have e: "enabled (bc_device_grants (ap_config sample_app)) = Inr ()" by (simp add: enabled_def grants_enabled_def sample_app_def)
  obtain s1 where i: "identify (serving r) sample_source (lit ''t'') 100 s = (Inr person_identity, s1)"
    by (simp add: identify_def serving_simps ok_or_def Let_def)
  obtain s2 where d: "authorize_device_request (serving r) (ss_directory sample_source) person_identity None s1
     = (Inr \<lparr>au_target = person_account, au_delegate = None\<rparr>, s2)"
    using sample_lookups(2) [OF serving_ldap] by (auto simp: sample_source_def)
  show ?thesis by (simp add: grant_holder_def act_bind_def e n bearer_header i settled_def d)
qed

lemma sample_registered:
  "\<exists>view t. register_device (serving (RespDone (lit ''r''))) sample_app (lit ''entra'') (Some (lit ''Bearer t''))
     sample_registration sample_bstate = (Inr view, t)"
proof -
  let ?ou = "serving (RespDone (lit ''r''))"
  obtain rid s0 where r: "request_id ?ou sample_bstate = (Inr rid, s0)"
    by (auto simp: request_id_def broker_random_def serving_simps)
  have a: "app_source sample_app (lit ''entra'') = Inr sample_source" by (simp add: app_source_def sample_app_def ok_or_def)
  have k: "cr_b64url (o_crypto ?ou) (lit ''k'') = Some (utf8 (lit ''k''))"
    by (simp add: serving_def sample_outside_def sample_crypto_def)
  have alg: "algorithm ALG_ES256 = Some ALG_ES256" by (simp add: algorithm_def ALGORITHMS_def)
  show ?thesis using sample_holder [of "RespDone (lit ''r'')" s0]
    by (auto simp: register_device_def act_bind_def r a sample_registration_def alg k ok_or_def Let_def
        grant_written_def issuer_write_def issuer_send_def serving_answers map_err_def record_audit_def)
qed

theorem registered_device_witness:
  "\<exists>t i au tp. authorized_by (asked sample_bstate t) sample_directory i tp au"
proof -
  obtain view t where "register_device (serving (RespDone (lit ''r''))) sample_app (lit ''entra'') (Some (lit ''Bearer t''))
     sample_registration sample_bstate = (Inr view, t)" using sample_registered by blast
  from registered_device [OF this] obtain src i tp au where
    a: "map_of (ap_sources sample_app) (lit ''entra'') = Some src" "authorized_by (asked sample_bstate t) (ss_directory src) i tp au"
    by (elim exE conjE) (rule that, assumption+)
  have "src = sample_source" using a(1) by (simp add: sample_app_def)
  with a(2) show ?thesis by (auto simp: sample_source_def)
qed


section \<open>Revocation\<close>

text \<open>Who may revoke: a signed-in caller the rule authorizes, or the device that bears the handle.\<close>

definition may_revoke ::
  "'w outside \<Rightarrow> app_state \<Rightarrow> source_state \<Rightarrow> str \<Rightarrow> str option \<Rightarrow> str option \<Rightarrow> nonces \<Rightarrow> broker_event set
     \<Rightarrow> broker_account \<Rightarrow> bool" where
  "may_revoke ou app src handle_id header tgt ns evs a \<longleftrightarrow>
     (\<exists>token now i tp au. proof_of header = Some (Bearer token)
        \<and> EvIdentify (source_name (ss_source src)) token now (Some i) \<in> evs
        \<and> (case tgt of None \<Rightarrow> tp = None | Some v \<Rightarrow> \<exists>x. target_parse v = Inr x \<and> tp = Some x)
        \<and> authorized_by evs (ss_directory src) i tp au \<and> a = au_target au)
     \<or> (\<exists>assertion now pf ns'. proof_of header = Some (DeviceGrantProof assertion) \<and> tgt = None
        \<and> verify_assertion (o_crypto ou) assertion (dg_audience (bc_device_grants (ap_config app))) (int now) ns = (Inr pf, ns')
        \<and> short_id (dp_thumbprint pf) = Some handle_id \<and> ei_source (dp_identity pf) = ss_source src
        \<and> answered_account evs (ss_directory src) (ldap_filter (dp_identity pf)) False a)"

lemma may_revoke_mono:
  assumes "may_revoke ou app src h header tgt ns evs a" "evs \<subseteq> evs'"
  shows "may_revoke ou app src h header tgt ns evs' a"
  using assms(1) unfolding may_revoke_def
proof (elim disjE exE conjE, goal_cases)
  case (1 token now i tp au)
  note facts = 1(1) subsetD [OF assms(2) 1(2)] 1(3) authorized_by_mono [OF 1(4) assms(2)] 1(5)
  show ?case by (rule disjI1, intro exI conjI) (rule facts)+
next
  case (2 assertion now pf ns')
  note facts = 2(1-5) answered_account_mono [OF 2(6) assms(2)]
  show ?case by (rule disjI2, intro exI conjI) (rule facts)+
qed

lemma self_revocation_Inr:
  assumes "self_revocation ou app src assertion handle_id tgt s = (Inr a, t)"
  shows "follows s t \<and> tgt = None \<and> (\<exists>now pf ns'.
     verify_assertion (o_crypto ou) assertion (dg_audience (bc_device_grants (ap_config app))) (int now) (bs_nonces s) = (Inr pf, ns')
     \<and> short_id (dp_thumbprint pf) = Some handle_id \<and> ei_source (dp_identity pf) = ss_source src
     \<and> answered_account (asked s t) (ss_directory src) (ldap_filter (dp_identity pf)) False a)"
  using assms unfolding self_revocation_def
proof (elim act_bindE, goal_cases)
  case (1 u s0 now s1 pf s2 v s3 x s4)
  have st: "s0 = s" "tgt = None" "s1 = s" "s3 = s2" "short_id (dp_thumbprint pf) = Some handle_id"
    using 1(1,4) broker_now_state [OF 1(2)] by auto
  have src: "s4 = s2" "ei_source (dp_identity pf) = ss_source src"
    using 1(5) st(4) by (auto simp: same_source_def split: if_splits)
  have f: "follows s s2" "asked s s2 = {}" using logs_onlyD [OF logs_only_verify [of "{}"] 1(3)] st by auto
  note v = device_verify_Inr [OF 1(3) [unfolded st(3)]]
  obtain l where l: "dir_lookup ou (ss_directory src) (dp_identity pf) False s2 = (Inr a, l)" "follows l t"
    using settled_Inr [OF 1(6) [unfolded src(1)]] by blast
  note d = dir_lookup_Inr [OF l(1)]
  have fl: "follows s2 t" "follows s t" using d l(2) f(1) follows_trans by blast+
  have "asked s2 l \<subseteq> asked s t" using asked_trans [OF f(1) fl(1)] asked_trans [of s2 l t] d l(2) by blast
  with d have "answered_account (asked s t) (ss_directory src) (ldap_filter (dp_identity pf)) False a"
    using answered_account_mono by blast
  then show ?case using st v src fl by blast
qed

lemma revoke_permitted:
  assumes "(case proof_of header of
         Some (DeviceGrantProof assertion) \<Rightarrow>
           act_bind (self_revocation ou app src assertion handle_id tgt) (\<lambda>account. ret (account, None))
       | Some (Bearer _) \<Rightarrow>
           act_bind (grant_holder ou app src header tgt) (\<lambda>(auth, _). ret (au_target auth, au_delegate auth))
       | None \<Rightarrow> fail_with malformed) s0 = (Inr (a, d), s4)"
    and s0: "s0 = s\<lparr>bs_world := w\<rparr>"
  shows "follows s s4 \<and> may_revoke ou app src handle_id header tgt (bs_nonces s) (asked s s4) a"
proof (cases "proof_of header")
  case None
  then show ?thesis using assms(1) by simp
next
  case (Some pk)
  show ?thesis
  proof (cases pk)
    case (Bearer token)
    with assms(1) Some obtain au now where g: "grant_holder ou app src header tgt s0 = (Inr (au, now), s4)" "a = au_target au"
      by (auto simp: act_results split: prod.splits)
    note gh = grant_holder_Inr [OF g(1) [unfolded s0], unfolded follows_world asked_world]
    then obtain token' i tp where gi: "proof_of header = Some (Bearer token')"
      "EvIdentify (source_name (ss_source src)) token' now (Some i) \<in> asked s s4"
      "case tgt of None \<Rightarrow> tp = None | Some v \<Rightarrow> \<exists>x. target_parse v = Inr x \<and> tp = Some x"
      "authorized_by (asked s s4) (ss_directory src) i tp au" by blast
    have "may_revoke ou app src handle_id header tgt (bs_nonces s) (asked s s4) a"
      unfolding may_revoke_def by (rule disjI1, intro exI conjI) (rule gi g(2))+
    with gh show ?thesis by blast
  next
    case (DeviceGrantProof assertion)
    with assms(1) Some have g: "self_revocation ou app src assertion handle_id tgt s0 = (Inr a, s4)"
      by (auto simp: act_results)
    note sr = self_revocation_Inr [OF g [unfolded s0], unfolded follows_world asked_world]
    then show ?thesis using Some DeviceGrantProof unfolding may_revoke_def by simp
  qed
qed

text \<open>
  Fact (KB_BrokerSound.revoked_device). A revocation that succeeds had a well-formed handle and was asked for either
  by a signed-in caller whom the rule authorizes for the account, or by a device, naming nobody
  else, whose own key has that handle and whose identity belongs to the source; the issuer
  acknowledged the removal of the first grant of that account with that handle, and the audit
  record names the account and the handle.
\<close>

theorem revoked_device:
  assumes "revoke_device ou app source handle_id header tgt s = (Inr u, t)"
  shows "\<exists>src rid a g d j. map_of (ap_sources app) source = Some src \<and> is_grant_handle handle_id
     \<and> may_revoke ou app src handle_id header tgt (bs_nonces s) (asked s t) a
     \<and> find (\<lambda>x. grant_short_id x = handle_id) (ba_grants a) = Some g
     \<and> EvIssuer (RevokeGrant \<lparr>rg_request_id = rid, rg_account_sid = ba_sid a, rg_thumbprint = g_thumbprint g\<rparr>)
         (Inr (RespDone j)) \<in> asked s t
     \<and> EvAudit (lit ''[broker] REVOKE '' @ rid @ lit '' '' @ ba_sam_account_name a @ lit '' '' @ handle_id
         @ by_delegate d) \<in> asked s t"
  using assms unfolding revoke_device_def
proof (elim act_bindE, goal_cases)
  case (1 rid s0 src s1 x s2 y s3 h s4)
  obtain a d where h: "h = (a, d)" by (cases h)
  obtain w where s0: "s0 = s\<lparr>bs_world := w\<rparr>" using request_id_state [OF 1(1)] by blast
  have st: "map_of (ap_sources app) source = Some src" "is_grant_handle handle_id" "s3 = s0"
    using 1(2,3,4) by (auto simp: app_source_def kb_results)
  note m = revoke_permitted [OF 1(5) [unfolded h st(3)] s0]
  from 1(6) show ?case unfolding h prod.case
  proof (elim act_bindE, goal_cases)
    case (1 g s4a v s5)
    have g: "find (\<lambda>x. grant_short_id x = handle_id) (ba_grants a) = Some g" "s4a = s4" using 1(1) by (auto simp: kb_results)
    note wr = issuer_write_Inr [OF 1(2) [unfolded g(2)]] and au = record_audit_logs [OF 1(3)]
    have f: "follows s s5" "follows s4 t" using m wr au follows_trans by blast+
    have sub: "asked s s4 \<subseteq> asked s t" "asked s4 s5 \<subseteq> asked s t" "asked s5 t \<subseteq> asked s t"
      using m wr au f asked_trans [of s s4 t] asked_trans [of s4 s5 t] asked_trans [of s s5 t] by blast+
    obtain j where j: "EvIssuer (RevokeGrant \<lparr>rg_request_id = rid, rg_account_sid = ba_sid a, rg_thumbprint = g_thumbprint g\<rparr>)
         (Inr (RespDone j)) \<in> asked s t" using wr sub(2) by blast
    note facts = st(1,2) may_revoke_mono [OF conjunct2 [OF m] sub(1)] g(1) j subsetD [OF sub(3) conjunct1 [OF conjunct2 [OF au]]]
    show ?case by (intro exI conjI) (rule facts)+
  qed
qed

lemma sample_handle: "\<exists>h. short_id sample_thumbprint = Some h \<and> is_grant_handle h"
proof -
  obtain h where h: "short_id sample_thumbprint = Some h" using short_id_total [OF sample_thumbprint_ok] by blast
  then obtain w where w: "h = hex08 w" by (auto simp: short_id_def Let_def split: if_splits)
  have "ascii h" using hex08_shape [of w] w
    by (fastforce simp: ascii_def list_all_iff is_ascii_hexdigit_def is_ascii_digit_def)
  then have "is_grant_handle h" using hex08_shape [of w] w by (simp add: is_grant_handle_def utf8_len_ascii)
  with h show ?thesis by blast
qed

lemma sample_revoked:
  "\<exists>t. revoke_device (serving (RespDone (lit ''r''))) sample_app (lit ''entra'') (grant_short_id sample_grant)
     (Some (lit ''Bearer t'')) None sample_bstate = (Inr (), t)"
proof -
  let ?ou = "serving (RespDone (lit ''r''))"
  obtain rid s0 where r: "request_id ?ou sample_bstate = (Inr rid, s0)"
    by (auto simp: request_id_def broker_random_def serving_simps)
  have a: "app_source sample_app (lit ''entra'') = Inr sample_source" by (simp add: app_source_def sample_app_def ok_or_def)
  have e: "enabled (bc_device_grants (ap_config sample_app)) = Inr ()" by (simp add: enabled_def grants_enabled_def sample_app_def)
  have h: "is_grant_handle (grant_short_id sample_grant)" using sample_handle by (auto simp: grant_short_id_def sample_grant_def)
  have f: "find (\<lambda>g. grant_short_id g = grant_short_id sample_grant) (ba_grants person_account) = Some sample_grant"
    by (simp add: person_account_def)
  show ?thesis using sample_holder [of "RespDone (lit ''r'')" s0]
    by (auto simp: revoke_device_def act_bind_def r a e require_def guard_def h bearer_header f ok_or_def
        grant_written_def issuer_write_def issuer_send_def serving_answers map_err_def record_audit_def)
qed

theorem revoked_device_witness:
  "\<exists>t a. may_revoke (serving (RespDone (lit ''r''))) sample_app sample_source (grant_short_id sample_grant)
     (Some (lit ''Bearer t'')) None (bs_nonces sample_bstate) (asked sample_bstate t) a"
proof -
  obtain t where "revoke_device (serving (RespDone (lit ''r''))) sample_app (lit ''entra'') (grant_short_id sample_grant)
     (Some (lit ''Bearer t'')) None sample_bstate = (Inr (), t)" using sample_revoked by blast
  from revoked_device [OF this] obtain src a where
    m: "map_of (ap_sources sample_app) (lit ''entra'') = Some src"
       "may_revoke (serving (RespDone (lit ''r''))) sample_app src (grant_short_id sample_grant)
          (Some (lit ''Bearer t'')) None (bs_nonces sample_bstate) (asked sample_bstate t) a"
    by (elim exE conjE) (rule that)
  have "src = sample_source" using m(1) by (simp add: sample_app_def)
  with m(2) show ?thesis by blast
qed

text \<open>
  The handle is four bytes of the digest, and the device that revokes is compared by handle
  only: two keys whose thumbprints share their first six characters have one handle.
\<close>

lemma handles_collide:
  assumes "ascii a" "ascii b" "take 6 a = take 6 b" "6 \<le> length a" "6 \<le> length b"
  shows "short_id a = short_id b"
proof -
  have "take 6 (utf8 a) = take 6 (utf8 b)" using assms(3) by (simp add: utf8_ascii [OF assms(1)] utf8_ascii [OF assms(2)] take_map)
  moreover have "\<not> length (utf8 a) < 6" "\<not> length (utf8 b) < 6"
    using assms(4,5) by (simp_all add: utf8_ascii [OF assms(1)] utf8_ascii [OF assms(2)])
  ultimately show ?thesis by (simp add: short_id_def Let_def)
qed

end
