(* ===== verification/KB_Compose.thy ===== *)
theory KB_Compose
  imports KB_BrokerSound
begin

text \<open>
  The broker and the issuer daemon joined by the socket: \<open>issuer_call\<close> on one end, \<open>handle\<close> on the
  other. The JSON text of a message is written and read by \<open>serde_json\<close> on both ends; what is
  relied on is that a message that could be written is read back as itself.
\<close>

definition linked ::
  "'x pstate outside \<Rightarrow> 'x host \<Rightarrow> issuerd_config \<Rightarrow> (byte list \<Rightarrow> request option) \<Rightarrow> (response \<Rightarrow> byte list option) \<Rightarrow> bool" where
  "linked ou h cfg dec enc \<longleftrightarrow>
     (\<forall>f w. o_exchange ou f w = (case handle h cfg dec enc f w of ((reply, _), w') \<Rightarrow> (reply, w')))
     \<and> (\<forall>r b. o_request_json ou r = Some b \<longrightarrow> dec b = Some r)
     \<and> (\<forall>r b. enc r = Some b \<longrightarrow> o_response_json ou b = Some r)"

lemma linked_call:
  assumes "linked ou h cfg dec enc" "issuer_call ou req w = (r, w')" "r \<noteq> Inl IssuerUnavailable"
  shows "\<exists>resp audit. respond h cfg req w = ((resp, audit), w')
    \<and> r = (case resp of RespError _ why \<Rightarrow> Inl (IssuerRefused why) | _ \<Rightarrow> Inr resp)"
proof -
  obtain body where b: "o_request_json ou req = Some body"
    using assms(2,3) by (cases "o_request_json ou req") (auto simp: issuer_call_def ok_or_def rbind_def Let_def split: prod.splits)
  obtain f where f: "write_frame body = Inr f"
    using assms(2,3) b
    by (cases "write_frame body") (auto simp: issuer_call_def ok_or_def rbind_def map_err_def Let_def split: prod.splits)
  have dec: "dec body = Some req" using assms(1) b by (simp add: linked_def)
  obtain resp audit w2 where rsp: "respond h cfg req w = ((resp, audit), w2)" by (metis prod.collapse)
  have rd: "read_frame f = Inr (body, [])" using read_frame_write [OF f, of "[]"] by simp
  have ex: "o_exchange ou f w = (Option.bind (enc resp) (\<lambda>out. ok (write_frame out)), w2)"
    using assms(1) rd dec rsp by (simp add: linked_def handle_def)
  have w2: "w2 = w'" using assms(2) b f ex by (auto simp: issuer_call_def ok_or_def rbind_def map_err_def Let_def)
  obtain out g where o: "enc resp = Some out" "write_frame out = Inr g"
  proof (cases "Option.bind (enc resp) (\<lambda>out. ok (write_frame out))")
    case None
    then show ?thesis using assms(2,3) b f ex by (auto simp: issuer_call_def ok_or_def rbind_def map_err_def Let_def)
  next
    case (Some g)
    then obtain out where "enc resp = Some out" "ok (write_frame out) = Some g" by (auto simp: bind_eq_Some_conv)
    then show ?thesis using that by (cases "write_frame out") (auto simp: ok_def)
  qed
  have rg: "read_frame g = Inr (out, [])" using read_frame_write [OF o(2), of "[]"] by simp
  have "o_response_json ou out = Some resp" using assms(1) o(1) by (simp add: linked_def)
  then have "r = (case resp of RespError _ why \<Rightarrow> Inl (IssuerRefused why) | _ \<Rightarrow> Inr resp)"
    using assms(2) b f ex o rg by (auto simp: issuer_call_def ok_or_def rbind_def map_err_def Let_def ok_def split: response.splits)
  with rsp w2 show ?thesis by blast
qed

lemma linked_ticket:
  assumes "linked ou h cfg dec enc" "issuer_call ou (Issue req) w = (Inr (RespOk k), w')"
  shows "issue h cfg req w = (Inr k, w')"
proof -
  obtain resp audit where r: "respond h cfg (Issue req) w = ((resp, audit), w')"
    "Inr (RespOk k) = (case resp of RespError _ why \<Rightarrow> Inl (IssuerRefused why) | _ \<Rightarrow> Inr resp)"
    using linked_call [OF assms] by blast
  then have "resp = RespOk k" by (cases resp) auto
  with r(1) show ?thesis by (auto simp: respond_def split: prod.splits sum.splits)
qed

section \<open>Properties\<close>

text \<open>
  C1 (KB_Compose.end_to_end_ticket). Over the socket, a ticket the broker hands to a client was made by the
  issuer for the SID of the account the broker resolved from the proven identity. The identity was
  proven during this request and belongs to the source of the path; the directory
  answered during this request that the account carries it and is admitted (for a
  device, with a live grant for its key). In the state that left, the issuer ran its own search for the SID of that
  account and found exactly one eligible entry, independently of the broker's reading, and
  the cache delivered holds one ticket-granting ticket of the realm, for the principal the
  client is told, with the flags the policy asks for.
\<close>

theorem end_to_end_ticket:
  assumes "linked ou h cfg dec enc" "ticket_route ou app source header taken s = (Inr resp, t)"
  shows "\<exists>src rid s0 now i device a live s1 k w' w1 out e acct bytes cs tgt.
     map_of (ap_sources app) source = Some src \<and> request_id ou s = (Inr rid, s0)
     \<and> ticket_subject ou app src header s0 = (Inr (now, i, device, a, live), s1)
     \<and> proven ou (bc_device_grants (ap_config app)) src header now (bs_nonces s) (asked s s1) i device
     \<and> ei_source i = ss_source src
     \<and> answered_account (asked s s1) (ss_directory src) (ldap_filter i) (device \<noteq> None) a
     \<and> (case device of None \<Rightarrow> True
        | Some tp \<Rightarrow> \<exists>g \<in> set (ba_grants a). g_thumbprint g = tp \<and> valid_at g now (dg_days (bc_device_grants (ap_config app))))
     \<and> issue h cfg (issue_request_for (ap_config app) rid a) (bs_world s1) = (Inr k, w')
     \<and> resp = \<lparr>tr_principal = tk_principal k, tr_ccache_b64 = tk_ccache_b64 k\<rparr>
     \<and> run h cfg (search_argv cfg (ba_sid a)) [] (bs_world s1) = (Inr out, w1)
     \<and> ldif_entries (h_b64d h) out = [e] \<and> eligible_entry (h_unicode h) e acct
     \<and> tr_principal resp = ac_sam_account_name acct @ lit ''@'' @ ic_realm cfg
     \<and> tr_ccache_b64 resp = h_b64e h bytes \<and> credentials bytes = Inr cs
     \<and> filter (\<lambda>c. is_tgt c (ic_realm cfg)) cs = [tgt] \<and> principal_display (cr_client tgt) = tr_principal resp
     \<and> check_flags tgt = Inr ()"
proof -
  obtain rid s0 src now i device a live s1 k w' where r: "map_of (ap_sources app) source = Some src"
     "request_id ou s = (Inr rid, s0)" "bs_nonces s0 = bs_nonces s" "bs_log s0 = bs_log s"
     "ticket_subject ou app src header s0 = (Inr (now, i, device, a, live), s1)"
     "issuer_call ou (Issue (issue_request_for (ap_config app) rid a)) (bs_world s1) = (Inr (RespOk k), w')"
     "resp = \<lparr>tr_principal = tk_principal k, tr_ccache_b64 = tk_ccache_b64 k\<rparr>"
    using ticket_route_split [OF assms(2)] by (elim exE conjE) (rule that, assumption+)
  note q = ticket_subject_Inr [OF r(5), unfolded r(3) asked_log [OF r(4)]]
  note made = linked_ticket [OF assms(1) r(6)]
  have sid: "ir_account_sid (issue_request_for (ap_config app) rid a) = ba_sid a" by (simp add: issue_request_for_def)
  obtain acct w1 bytes cs tgt where i: "lookup_account h cfg (ba_sid a) (bs_world s1) = (Inr acct, w1)"
    "tk_principal k = ac_sam_account_name acct @ lit ''@'' @ ic_realm cfg" "tk_ccache_b64 k = h_b64e h bytes"
    "credentials bytes = Inr cs" "filter (\<lambda>c. is_tgt c (ic_realm cfg)) cs = [tgt]"
    "principal_display (cr_client tgt) = tk_principal k" "check_flags tgt = Inr ()"
    using issue_Inr [OF made] unfolding sid by (elim exE conjE) (rule that, assumption+)
  obtain out e where l: "run h cfg (search_argv cfg (ba_sid a)) [] (bs_world s1) = (Inr out, w1)"
    "ldif_entries (h_b64d h) out = [e]" "eligible_entry (h_unicode h) e acct"
    using lookup_account_eligible [OF i(1)] by blast
  have p: "tr_principal resp = ac_sam_account_name acct @ lit ''@'' @ ic_realm cfg" "tr_ccache_b64 resp = h_b64e h bytes"
    "principal_display (cr_client tgt) = tr_principal resp" using r(7) i by simp_all
  show ?thesis by (intro exI conjI) (rule r made l p i | use q in blast)+
qed


text \<open>The two sample deployments joined: the broker's directory and the issuer's database.\<close>

definition joined :: "response \<Rightarrow> request \<Rightarrow> (unit \<times> event list) pstate outside" where
  "joined resp req =
     \<lparr>o_connect = \<lambda>w. (True, w), o_search = \<lambda>q w. (sample_search q, w), o_unbind = \<lambda>w. w,
      o_identify = \<lambda>src token now w. (Some person_identity, w),
      o_exchange = \<lambda>f w. (case handle (observed sample_host) sample_config (\<lambda>b. if b = [1] then Some req else None)
          (\<lambda>r. if r = resp then Some [2] else None) f w of ((reply, _), w') \<Rightarrow> (reply, w')),
      o_request_json = \<lambda>r. if r = req then Some [1] else None,
      o_response_json = \<lambda>b. if b = [2] then Some resp else None, o_now = \<lambda>w. Some 100,
      o_random = \<lambda>n w. (None, w), o_notify = \<lambda>n w. w, o_audit = \<lambda>l w. w, o_crypto = sample_crypto\<rparr>"

lemma joined_linked:
  "linked (joined resp req) (observed sample_host) sample_config (\<lambda>b. if b = [1] then Some req else None)
     (\<lambda>r. if r = resp then Some [2] else None)"
  by (simp add: linked_def joined_def)


theorem end_to_end_ticket_witness:
  "\<exists>resp req r t e acct now i device s1 a. ticket_route (joined resp req) sample_app (lit ''entra'') (Some (lit ''Bearer t'')) 0
        \<lparr>bs_nonces = sample_nonces, bs_world = sample_state, bs_log = []\<rparr> = (Inr r, t)
     \<and> proven (joined resp req) (bc_device_grants (ap_config sample_app)) sample_source (Some (lit ''Bearer t'')) now
         sample_nonces (asked \<lparr>bs_nonces = sample_nonces, bs_world = sample_state, bs_log = []\<rparr> s1) i device
     \<and> answered_account (asked \<lparr>bs_nonces = sample_nonces, bs_world = sample_state, bs_log = []\<rparr> s1)
         sample_directory (ldap_filter i) (device \<noteq> None) a
     \<and> eligible_entry (h_unicode (observed sample_host)) e acct
     \<and> tr_principal r = ac_sam_account_name acct @ lit ''@'' @ ic_realm sample_config"
proof -
  define req where "req = issue_request_for (ap_config sample_app) (lit ''unseeded'') person_account"
  have "validated_sid (lit ''S-1-5-7'') = Inr (lit ''S-1-5-7'')"
    by (simp add: validated_sid_def strip_prefix_def starts_with_def lit_def utf8_len_def len_utf8_def is_ascii_digit_def)
  then have "validated_sid (ir_account_sid req) = Inr (ir_account_sid req)"
    by (simp add: req_def issue_request_for_def person_account_def)
  then obtain k s' where k: "issue (observed sample_host) sample_config req sample_state = (Inr k, s')"
    using sample_issued_for by blast
  let ?ou = "joined (RespOk k) (Issue req)"
  let ?s = "\<lparr>bs_nonces = sample_nonces, bs_world = sample_state, bs_log = []\<rparr>"
  obtain f where f: "write_frame [1] = Inr f" by (simp add: write_frame_def MAX_FRAME_def)
  obtain g where g: "write_frame [2] = Inr g" by (simp add: write_frame_def MAX_FRAME_def)
  have rf: "read_frame f = Inr ([1], [])" "read_frame g = Inr ([2], [])"
    using read_frame_write [OF f, of "[]"] read_frame_write [OF g, of "[]"] by simp_all
  have call: "issuer_call ?ou (Issue req) sample_state = (Inr (RespOk k), s')"
    by (simp add: issuer_call_def joined_def ok_or_def rbind_def map_err_def f g rf handle_def respond_def k ok_def)
  have "sample_ldap ?ou" by (simp add: sample_ldap_def joined_def)
  then have "\<exists>t. ticket_route ?ou sample_app (lit ''entra'') (Some (lit ''Bearer t'')) 0 ?s
      = (Inr \<lparr>tr_principal = tk_principal k, tr_ccache_b64 = tk_ccache_b64 k\<rparr>, t)"
    by (rule sample_ticket_issued [where rnd = None and rid = "lit ''unseeded''" and w' = s'])
       (use call in \<open>simp_all add: joined_def req_def\<close>)
  then obtain t where t: "ticket_route ?ou sample_app (lit ''entra'') (Some (lit ''Bearer t'')) 0 ?s
      = (Inr \<lparr>tr_principal = tk_principal k, tr_ccache_b64 = tk_ccache_b64 k\<rparr>, t)" by blast
  from end_to_end_ticket [OF joined_linked t] obtain src now i device s1 a e acct where
    r: "map_of (ap_sources sample_app) (lit ''entra'') = Some src"
    "proven ?ou (bc_device_grants (ap_config sample_app)) src (Some (lit ''Bearer t'')) now (bs_nonces ?s) (asked ?s s1) i device"
    "answered_account (asked ?s s1) (ss_directory src) (ldap_filter i) (device \<noteq> None) a"
    "eligible_entry (h_unicode (observed sample_host)) e acct"
    "tr_principal \<lparr>tr_principal = tk_principal k, tr_ccache_b64 = tk_ccache_b64 k\<rparr>
       = ac_sam_account_name acct @ lit ''@'' @ ic_realm sample_config" by (elim exE conjE) (rule that)
  have src: "src = sample_source" using r(1) by (simp add: sample_app_def)
  have "bs_nonces ?s = sample_nonces" "ss_directory sample_source = sample_directory" by (simp_all add: sample_source_def)
  note r' = r(2-5) [unfolded src this]
  show ?thesis by (intro exI conjI) (rule t r')+
qed


section \<open>Error categories across the socket\<close>

definition issuer_categories :: "issue_error set" where
  "issuer_categories = {issuer_failed, bad_request, unknown_account, not_eligible}"

text \<open>Actions whose errors lie in a set.\<close>

definition errs :: "issue_error set \<Rightarrow> ('w, 'a) io \<Rightarrow> bool" where
  "errs E m \<longleftrightarrow> (\<forall>s. rerrs E (fst (m s)))"

lemma errs_intros [err_intros]:
  "errs E (io_ok x)" "e \<in> E \<Longrightarrow> errs E (io_err e)" "rerrs E r \<Longrightarrow> errs E (io_of r)"
  "errs E m \<Longrightarrow> (\<And>x. errs E (k x)) \<Longrightarrow> errs E (io_bind m k)"
  by (auto simp: errs_def rerrs_def io_bind_def split: prod.splits sum.splits) (metis fst_conv)+

lemma categories [simp, err_intros]:
  "issuer_failed \<in> issuer_categories" "bad_request \<in> issuer_categories" "unknown_account \<in> issuer_categories"
  "not_eligible \<in> issuer_categories"
  by (simp_all add: issuer_categories_def)

lemma pure_errs [err_intros]:
  "rerrs issuer_categories (validated_sid sid)" "rerrs issuer_categories (validated_sam u sam)"
  "rerrs issuer_categories (run_result p)" "rerrs issuer_categories (check_flags c)"
  "rerrs issuer_categories (target_of h cfg a)"
proof -
  show "rerrs issuer_categories (validated_sid sid)" by (auto simp: rerrs_def validated_sid_def split: option.splits if_splits)
  show "rerrs issuer_categories (validated_sam u sam)" unfolding validated_sam_def by (intro err_intros)
  show "rerrs issuer_categories (run_result p)"
    unfolding run_result_def by (cases p) (auto intro!: err_intros)
  show "rerrs issuer_categories (check_flags c)" by (simp add: rerrs_def check_flags_def)
  show "rerrs issuer_categories (target_of h cfg a)" by (simp add: rerrs_def target_of_def)
qed

lemma account_of_errs [err_intros]: "rerrs issuer_categories (account_of u es)"
  unfolding account_of_def Let_def by (intro err_intros)

lemma validate_cache_errs [err_intros]: "rerrs issuer_categories (validate_cache cfg bytes p)"
  unfolding validate_cache_def by (intro err_intros) (auto intro!: err_intros split: list.splits)

lemma host_errs [err_intros]:
  "errs issuer_categories (run h cfg argv env)" "errs issuer_categories (read_bounded h path)"
  "errs issuer_categories (write_file h path txt')"
proof -
  show "errs issuer_categories (run h cfg argv env)"
    using pure_errs(3) by (auto simp: errs_def run_def Let_def split: prod.splits)
  show "errs issuer_categories (read_bounded h path)"
    unfolding errs_def read_bounded_def fst_conv by (intro allI err_intros) (simp add: rerrs_def)
  show "errs issuer_categories (write_file h path txt')"
    by (auto simp: errs_def rerrs_def write_file_def Let_def split: prod.splits)
qed

lemma with_workdir_errs [err_intros]: "(\<And>d. errs issuer_categories (body d)) \<Longrightarrow> errs issuer_categories (with_workdir h cfg body)"
  unfolding errs_def rerrs_def with_workdir_def
  by (auto simp: Let_def split: prod.splits) (metis fst_conv)

lemma verb_errs [err_intros]:
  "errs issuer_categories (lookup_account h cfg sid)" "errs issuer_categories (issue h cfg req)"
  "errs issuer_categories (modify_grants h cfg dn del add)" "errs issuer_categories (grant_target_of h cfg sid)"
proof -
  show l: "errs issuer_categories (lookup_account h cfg sid)" for sid unfolding lookup_account_def by (intro err_intros)
  show "errs issuer_categories (issue h cfg req)"
    unfolding issue_def issue_in_workdir_def Let_def by (intro err_intros l)
  show "errs issuer_categories (modify_grants h cfg dn del add)"
    unfolding modify_grants_def Let_def by (auto intro!: err_intros)
  show "errs issuer_categories (grant_target_of h cfg sid)" unfolding grant_target_of_def by (intro err_intros l)
qed

lemma grant_verb_errs:
  "errs (insert cap_reached issuer_categories) (grant_device h cfg r)" "errs issuer_categories (revoke_grant h cfg r2)"
  "errs issuer_categories (touch_grant h cfg r3)"
proof -
  have w: "errs (insert cap_reached issuer_categories) m" if "errs issuer_categories m" for m :: "('a, 'b) io"
    using that by (auto simp: errs_def rerrs_def)
  have g: "errs (insert cap_reached issuer_categories) (io_bind (grant_target_of h cfg sid) (\<lambda>t. if c t then io_err cap_reached else modify_grants h cfg (dn t) (del t) (add t)))"
    for sid c dn del add
    by (rule errs_intros(4) [OF w [OF verb_errs(4)]]) (simp add: errs_intros(2) w [OF verb_errs(3)])
  show "errs (insert cap_reached issuer_categories) (grant_device h cfg r)"
    unfolding errs_def
  proof
    fix s
    show "rerrs (insert cap_reached issuer_categories) (fst (grant_device h cfg r s))"
      using g unfolding errs_def
      by (auto simp: grant_device_def Let_def rerrs_def split: option.splits if_splits)
  qed
  show "errs issuer_categories (revoke_grant h cfg r2)"
    unfolding revoke_grant_def Let_def by (intro err_intros) (auto intro!: err_intros)
  show "errs issuer_categories (touch_grant h cfg r3)"
    unfolding touch_grant_def by (intro err_intros) (auto intro!: err_intros split: option.splits prod.splits)
qed


text \<open>
  Fact (KB_Compose.conflict_is_cap). Whatever request the issuer refuses, the error that crosses the socket is one
  of its five categories, the cap only for a grant; and the broker, which looks for three
  letters in it, answers \<open>409\<close> exactly for the cap and \<open>500\<close> for every other.
\<close>

theorem conflict_is_cap:
  assumes "respond h cfg req s = ((RespError i why, audit), s')"
  shows "why \<in> insert cap_reached issuer_categories
    \<and> (why = cap_reached \<longrightarrow> (\<exists>r. req = GrantDevice r))
    \<and> fl_status (grant_write_failure (IssuerRefused why)) = (if why = cap_reached then CONFLICT else INTERNAL_SERVER_ERROR)"
proof -
  have c: "cap_reached \<notin> issuer_categories" by (simp add: issuer_categories_def kb_lits)
  have e: "fst (m s) = Inl why \<Longrightarrow> errs E m \<Longrightarrow> why \<in> E" for m :: "('a, 'b) io" and E
    by (simp add: errs_def rerrs_def)
  have g: "why \<in> insert cap_reached issuer_categories \<and> (why = cap_reached \<longrightarrow> (\<exists>r. req = GrantDevice r))"
  proof (cases req)
    case (Issue r)
    then have "fst (issue h cfg r s) = Inl why" using assms by (auto simp: respond_def split: prod.splits sum.splits)
    from e [OF this verb_errs(2)] c show ?thesis by auto
  next
    case (GrantDevice r)
    then have "fst (grant_device h cfg r s) = Inl why"
      using assms by (auto simp: respond_def written_def split: prod.splits sum.splits)
    from e [OF this grant_verb_errs(1)] GrantDevice show ?thesis by auto
  next
    case (RevokeGrant r)
    then have "fst (revoke_grant h cfg r s) = Inl why"
      using assms by (auto simp: respond_def written_def split: prod.splits sum.splits)
    from e [OF this grant_verb_errs(2)] c show ?thesis by auto
  next
    case (TouchGrant r)
    then have "fst (touch_grant h cfg r s) = Inl why"
      using assms by (auto simp: respond_def written_def split: prod.splits sum.splits)
    from e [OF this grant_verb_errs(3)] c show ?thesis by auto
  qed (use assms in \<open>simp add: respond_def\<close>)
  have "str_contains why (lit ''cap'') = (why = cap_reached)" if "why \<in> insert cap_reached issuer_categories"
    using that unfolding issuer_categories_def by (elim insertE emptyE) (simp_all add: kb_lits starts_with_def)
  with g show ?thesis by (auto simp: grant_write_failure_def failure_new_def)
qed

theorem conflict_is_cap_witness:
  "\<exists>s' audit. respond (observed sample_host) sample_config
       (RevokeGrant \<lparr>rg_request_id = [], rg_account_sid = [], rg_thumbprint = []\<rparr>) sample_state
     = ((RespError [] bad_request, audit), s')
     \<and> fl_status (grant_write_failure (IssuerRefused bad_request)) = INTERNAL_SERVER_ERROR"
proof -
  have "validated_sid [] = Inl bad_request"
    by (simp add: validated_sid_def strip_prefix_def starts_with_def lit_def)
  then have r: "respond (observed sample_host) sample_config
       (RevokeGrant \<lparr>rg_request_id = [], rg_account_sid = [], rg_thumbprint = []\<rparr>) sample_state
     = ((RespError [] bad_request, []), sample_state)"
    by (simp add: respond_def revoke_grant_def grant_target_of_def io_bind_def written_def)
  have "bad_request \<noteq> cap_reached" by (simp add: kb_lits)
  with conflict_is_cap [OF r] r show ?thesis by auto
qed

end
