(* ===== verification/KB_Problems.thy ===== *)
theory KB_Problems
  imports KB_Prelude
begin

unbundle bit_operations_syntax

text \<open>
  What is currently wrong, as \<open>core/src/problem.rs\<close> and \<open>kerbridge-notify/src/problems/mod.rs\<close>
  keep it: one record per notify_event and subject, mirrored as one file per record in a directory.

  The directory is reached through a record of file operations, each of which may fail; the
  laws the code relies on are the locales \<open>disk\<close> (any operation may fail, and a rename is
  atomic) and \<open>healthy_disk\<close> (none fails). A \<open>BTreeMap\<close> is an association list kept sorted by
  its keys.
\<close>

section \<open>Ordered maps\<close>

fun bt_insert :: "'k::linorder \<Rightarrow> 'v \<Rightarrow> ('k \<times> 'v) list \<Rightarrow> ('k \<times> 'v) list" where
  "bt_insert k v [] = [(k, v)]"
| "bt_insert k v ((a, b) # xs) =
     (if k < a then (k, v) # (a, b) # xs
      else if k = a then (k, v) # xs else (a, b) # bt_insert k v xs)"

abbreviation bt_sorted :: "('k::linorder \<times> 'v) list \<Rightarrow> bool" where
  "bt_sorted xs \<equiv> sorted_wrt (<) (map fst xs)"

lemma bt_insert_keys: "fst ` set (bt_insert k v xs) = insert k (fst ` set xs)"
  by (induction k v xs rule: bt_insert.induct) (simp_all add: insert_commute)

lemma bt_insert_sorted: "bt_sorted xs \<Longrightarrow> bt_sorted (bt_insert k v xs)"
proof (induction xs)
  case (Cons ab xs)
  obtain a b where ab: "ab = (a, b)" by (cases ab)
  have "\<forall>x \<in> fst ` set xs. a < x" using Cons.prems ab by auto
  then show ?case
    using Cons ab bt_insert_keys [of k v xs] by auto
qed simp

lemma map_of_sorted_below: "bt_sorted xs \<Longrightarrow> (\<And>x. x \<in> fst ` set xs \<Longrightarrow> k < x) \<Longrightarrow> map_of xs k = None"
  by (auto simp: map_of_eq_None_iff)

lemma map_of_bt_insert: "map_of (bt_insert k v xs) = (map_of xs)(k \<mapsto> v)"
  by (induction xs) auto

lemma bt_sorted_distinct: "bt_sorted xs \<Longrightarrow> distinct (map fst xs)"
  using strict_sorted_iff by blast

section \<open>Problems\<close>

datatype severity = Info | Warning | Error

fun severity_rank :: "severity \<Rightarrow> nat" where
  "severity_rank Info = 0"
| "severity_rank Warning = 1"
| "severity_rank Error = 2"

instantiation severity :: linorder
begin

definition less_eq_severity :: "severity \<Rightarrow> severity \<Rightarrow> bool" where
  "less_eq_severity a b \<longleftrightarrow> severity_rank a \<le> severity_rank b"

definition less_severity :: "severity \<Rightarrow> severity \<Rightarrow> bool" where
  "less_severity a b \<longleftrightarrow> severity_rank a < severity_rank b"

instance
proof
  fix a b :: severity
  show "a \<le> b \<Longrightarrow> b \<le> a \<Longrightarrow> a = b"
    by (cases a; cases b) (simp_all add: less_eq_severity_def)
qed (auto simp: less_eq_severity_def less_severity_def)

end

definition severity_as_str :: "severity \<Rightarrow> str" where
  "severity_as_str s = (case s of Info \<Rightarrow> lit ''info'' | Warning \<Rightarrow> lit ''warning'' | Error \<Rightarrow> lit ''error'')"

definition severity_parse :: "str \<Rightarrow> severity option" where
  "severity_parse raw =
     (if raw = lit ''info'' then Some Info
      else if raw = lit ''warning'' then Some Warning
      else if raw = lit ''error'' then Some Error
      else None)"

record problem =
  pr_event :: str
  pr_subject :: str
  pr_component :: str
  pr_severity :: severity
  pr_message :: str
  pr_detail :: str
  pr_open :: bool
  pr_since :: nat
  pr_attempted_at :: "nat option"
  pr_band :: "int option"

definition lasted :: "problem \<Rightarrow> nat \<Rightarrow> str" where
  "lasted p now =
     (let s = now - pr_since p in
      if s < 90 then show_dec s @ lit ''s''
      else if s < 5400 then show_dec (s div 60) @ lit ''m''
      else if s < 172800 then show_dec (s div 3600) @ lit ''h''
      else show_dec (s div 86400) @ lit ''d'')"

section \<open>Events\<close>

datatype repeat = Persisting | Countdown int
datatype kind = Condition | Incident

record notify_event =
  ev_event :: str
  ev_severity :: severity
  ev_subject :: str
  ev_message :: str
  ev_detail :: str
  ev_repeat :: repeat
  ev_kind :: kind

definition BANDS :: "int list" where "BANDS = [1, 3, 7, 14, 30]"

definition band :: "int \<Rightarrow> int option" where
  "band days = find (\<lambda>step. days \<le> step) BANDS"

section \<open>The directory\<close>

record ('f, 'b) fsys =
  fs_make :: "'f \<Rightarrow> bool \<times> 'f"
  fs_names :: "'f \<Rightarrow> str list option"
  fs_read :: "str \<Rightarrow> 'f \<Rightarrow> 'b option"
  fs_remove :: "str \<Rightarrow> 'f \<Rightarrow> 'f"
  fs_put :: "str \<Rightarrow> 'b \<Rightarrow> 'f \<Rightarrow> bool \<times> 'f"
  fs_chmod :: "str \<Rightarrow> 'f \<Rightarrow> bool \<times> 'f"
  fs_rename :: "str \<Rightarrow> str \<Rightarrow> 'f \<Rightarrow> bool \<times> 'f"
  js_out :: "problem \<Rightarrow> 'b"
  js_in :: "'b \<Rightarrow> problem option"

definition ends_in :: "str \<Rightarrow> str \<Rightarrow> bool" where
  "ends_in s p \<longleftrightarrow> starts_with (rev s) (rev p)"

definition is_state_file :: "str \<Rightarrow> bool" where
  "is_state_file name \<longleftrightarrow> ends_in name (lit ''.json'')
     \<and> (starts_with name (lit ''problem-'') \<or> starts_with name (lit ''recent-''))"

definition fnv1a :: "str \<Rightarrow> 64 word" where
  "fnv1a s = foldl (\<lambda>hash b. (hash XOR ucast b) * 0x100000001b3) 0xcbf29ce484222325 (utf8 s)"

definition hex_lower :: "nat \<Rightarrow> uchar" where
  "hex_lower d = (if d < 10 then 48 + d else 87 + d)"

definition hex16 :: "64 word \<Rightarrow> str" where
  "hex16 x = map (\<lambda>i. hex_lower (unat (drop_bit (4 * (15 - i)) x AND 15))) [0..<16]"

definition file_name :: "bool \<Rightarrow> str \<Rightarrow> str \<Rightarrow> str" where
  "file_name opn ev subject =
     (let cls = (if opn then lit ''problem'' else lit ''recent'') in
      if subject = [] then cls @ lit ''-'' @ ev @ lit ''.json''
      else cls @ lit ''-'' @ ev @ lit ''__'' @ hex16 (fnv1a subject) @ lit ''.json'')"

definition write_atomically :: "('f, 'b) fsys \<Rightarrow> str \<Rightarrow> problem \<Rightarrow> 'f \<Rightarrow> bool \<times> 'f" where
  "write_atomically w name p f =
     (let tmp = lit ''.'' @ name @ lit ''.tmp'';
          (ok1, f1) = fs_put w tmp (js_out w p) f
      in if \<not> ok1 then (False, f1)
         else let (ok2, f2) = fs_chmod w tmp f1
              in if \<not> ok2 then (False, f2) else fs_rename w tmp name f2)"

section \<open>The problem list\<close>

type_synonym records = "(str \<times> (str \<times> problem) list) list"

record 'f problems =
  ps_dir :: "'f option"
  ps_records :: records

definition subjects_of :: "records \<Rightarrow> str \<Rightarrow> (str \<times> problem) list" where
  "subjects_of rs ev = (case map_of rs ev of None \<Rightarrow> [] | Some m \<Rightarrow> m)"

definition rec_get :: "records \<Rightarrow> str \<Rightarrow> str \<Rightarrow> problem option" where
  "rec_get rs ev subject = Option.bind (map_of rs ev) (\<lambda>m. map_of m subject)"

definition rec_put :: "problem \<Rightarrow> records \<Rightarrow> records" where
  "rec_put p rs = bt_insert (pr_event p) (bt_insert (pr_subject p) p (subjects_of rs (pr_event p))) rs"

definition prunable :: "nat \<Rightarrow> nat \<Rightarrow> problem \<Rightarrow> bool" where
  "prunable interval now p \<longleftrightarrow> \<not> pr_open p
     \<and> (case pr_attempted_at p of None \<Rightarrow> True | Some at \<Rightarrow> interval < now - at)"

definition load_entry :: "('f, 'b) fsys \<Rightarrow> nat \<Rightarrow> nat \<Rightarrow> str \<Rightarrow> 'f \<times> records \<Rightarrow> 'f \<times> records" where
  "load_entry w interval now name fr = (case fr of (f, rs) \<Rightarrow>
     if \<not> is_state_file name then (f, rs)
     else case Option.bind (fs_read w name f) (js_in w) of
            None \<Rightarrow> (f, rs)
          | Some p \<Rightarrow> if prunable interval now p then (fs_remove w name f, rs)
                      else (f, rec_put p rs))"

definition load :: "('f, 'b) fsys \<Rightarrow> 'f option \<Rightarrow> nat \<Rightarrow> nat \<Rightarrow> 'f problems" where
  "load w dir interval now =
     (case dir of
        None \<Rightarrow> \<lparr>ps_dir = None, ps_records = []\<rparr>
      | Some f0 \<Rightarrow>
          let (made, f) = fs_make w f0
          in if \<not> made then \<lparr>ps_dir = None, ps_records = []\<rparr>
             else case fs_names w f of
                    None \<Rightarrow> \<lparr>ps_dir = Some f, ps_records = []\<rparr>
                  | Some names \<Rightarrow>
                      let (f', rs) = foldl (\<lambda>fr name. load_entry w interval now name fr) (f, []) names
                      in \<lparr>ps_dir = Some f', ps_records = rs\<rparr>)"

definition store :: "('f, 'b) fsys \<Rightarrow> problem \<Rightarrow> 'f problems \<Rightarrow> 'f problems" where
  "store w p s =
     \<lparr>ps_dir = (case ps_dir s of
         None \<Rightarrow> None
       | Some f \<Rightarrow> Some (snd (write_atomically w (file_name (pr_open p) (pr_event p) (pr_subject p)) p
             (fs_remove w (file_name (\<not> pr_open p) (pr_event p) (pr_subject p)) f)))),
      ps_records = rec_put p (ps_records s)\<rparr>"

definition due :: "problem option \<Rightarrow> notify_event \<Rightarrow> nat \<Rightarrow> nat \<Rightarrow> bool \<Rightarrow> bool" where
  "due existing e now interval deliverable \<longleftrightarrow> deliverable
     \<and> (case ev_repeat e of
          Persisting \<Rightarrow> (case existing of
              None \<Rightarrow> True
            | Some p \<Rightarrow> (case pr_attempted_at p of None \<Rightarrow> True | Some at \<Rightarrow> interval \<le> now - at))
        | Countdown days \<Rightarrow> (case band days of
              None \<Rightarrow> False
            | Some step \<Rightarrow> (case existing of
                  None \<Rightarrow> True
                | Some p \<Rightarrow> (case pr_band p of None \<Rightarrow> True | Some had \<Rightarrow> step < had))))"

definition raised :: "problem option \<Rightarrow> notify_event \<Rightarrow> str \<Rightarrow> nat \<Rightarrow> nat \<Rightarrow> bool \<Rightarrow> problem" where
  "raised existing e component now interval deliverable =
     \<lparr>pr_event = ev_event e, pr_subject = ev_subject e, pr_component = component,
      pr_severity = ev_severity e, pr_message = ev_message e, pr_detail = ev_detail e,
      pr_open = (ev_kind e = Condition),
      pr_since = (case existing of None \<Rightarrow> now | Some p \<Rightarrow> pr_since p),
      pr_attempted_at = (if due existing e now interval deliverable then Some now
         else Option.bind existing pr_attempted_at),
      pr_band = (case ev_repeat e of Persisting \<Rightarrow> None | Countdown days \<Rightarrow> band days)\<rparr>"

definition raise :: "('f, 'b) fsys \<Rightarrow> notify_event \<Rightarrow> str \<Rightarrow> nat \<Rightarrow> nat \<Rightarrow> bool \<Rightarrow> 'f problems \<Rightarrow> bool \<times> 'f problems" where
  "raise w e component now interval deliverable s =
     (let existing = rec_get (ps_records s) (ev_event e) (ev_subject e)
      in (due existing e now interval deliverable,
          store w (raised existing e component now interval deliverable) s))"

definition closed :: "problem \<Rightarrow> problem" where
  "closed p = p\<lparr>pr_open := False\<rparr>"

definition resolve_all :: "('f, 'b) fsys \<Rightarrow> str \<Rightarrow> 'f problems \<Rightarrow> problem list \<times> 'f problems" where
  "resolve_all w ev s =
     (case map_of (ps_records s) ev of
        None \<Rightarrow> ([], s)
      | Some subjects \<Rightarrow>
          let resolved = map (closed \<circ> snd) (filter (pr_open \<circ> snd) subjects);
              s' = s\<lparr>ps_records := bt_insert ev (map (\<lambda>(k, p). (k, closed p)) subjects) (ps_records s)\<rparr>
          in (resolved, foldl (\<lambda>s p. store w p s) s' resolved))"

definition resolve_one :: "('f, 'b) fsys \<Rightarrow> str \<Rightarrow> str \<Rightarrow> 'f problems \<Rightarrow> problem option \<times> 'f problems" where
  "resolve_one w ev subject s =
     (case rec_get (ps_records s) ev subject of
        None \<Rightarrow> (None, s)
      | Some p \<Rightarrow> if \<not> pr_open p then (None, s) else (Some (closed p), store w (closed p) s))"

definition open_list :: "records \<Rightarrow> problem list" where
  "open_list rs = filter pr_open (concat (map (map snd \<circ> snd) rs))"

definition open_summary :: "'f problems \<Rightarrow> str" where
  "open_summary s =
     (let opn = open_list (ps_records s) in
      if opn = [] then lit ''no problems open''
      else show_dec (length opn) @ lit '' open: '' @ join_with (lit '', '') (remdups_adj (map pr_event opn)))"

section \<open>The records\<close>

definition keyed :: "str \<Rightarrow> (str \<times> problem) list \<Rightarrow> bool" where
  "keyed ev m \<longleftrightarrow> bt_sorted m \<and> (\<forall>x \<in> set m. pr_event (snd x) = ev \<and> pr_subject (snd x) = fst x)"

definition wf_records :: "records \<Rightarrow> bool" where
  "wf_records rs \<longleftrightarrow> bt_sorted rs \<and> (\<forall>x \<in> set rs. keyed (fst x) (snd x))"

lemma keyed_Nil [simp]: "keyed ev []"
  by (simp add: keyed_def)

lemma keyed_subjects: "wf_records rs \<Longrightarrow> keyed ev (subjects_of rs ev)"
  unfolding subjects_of_def wf_records_def
  by (cases "map_of rs ev") (simp, metis map_of_SomeD fst_conv snd_conv option.simps(5))

lemma keyed_get:
  assumes "keyed ev m"
  shows "map_of m su = Some p \<longleftrightarrow> (su, p) \<in> set m"
  using assms unfolding keyed_def by (metis bt_sorted_distinct map_of_eq_Some_iff)

lemma rec_get_subjects: "rec_get rs ev su = map_of (subjects_of rs ev) su"
  by (simp add: rec_get_def subjects_of_def split: option.split)

lemma rec_get_Nil [simp]: "rec_get [] ev su = None"
  by (simp add: rec_get_def)

lemma subjects_of_insert:
  "subjects_of (bt_insert k m rs) ev = (if ev = k then m else subjects_of rs ev)"
  by (simp add: subjects_of_def map_of_bt_insert)

lemma rec_get_put:
  "rec_get (rec_put p rs) ev su = (if ev = pr_event p \<and> su = pr_subject p then Some p else rec_get rs ev su)"
  by (simp add: rec_get_subjects rec_put_def subjects_of_insert map_of_bt_insert)

lemma rec_get_keys:
  assumes "wf_records rs" "rec_get rs ev su = Some p"
  shows "pr_event p = ev \<and> pr_subject p = su"
proof -
  have "(su, p) \<in> set (subjects_of rs ev)"
    using assms keyed_get [OF keyed_subjects] rec_get_subjects by metis
  then show ?thesis using keyed_subjects [OF assms(1), of ev] unfolding keyed_def
    by (metis fst_conv snd_conv)
qed

lemma set_bt_insert: "set (bt_insert k v xs) \<subseteq> insert (k, v) (set xs)"
  by (induction k v xs rule: bt_insert.induct) auto

lemma ball_bt_insert: "P (k, v) \<Longrightarrow> (\<forall>x \<in> set xs. P x) \<Longrightarrow> \<forall>x \<in> set (bt_insert k v xs). P x"
  using set_bt_insert by (metis insert_iff subsetD)

lemma wf_insert: "wf_records rs \<Longrightarrow> keyed ev m \<Longrightarrow> wf_records (bt_insert ev m rs)"
  unfolding wf_records_def by (intro conjI bt_insert_sorted ball_bt_insert) simp_all

lemma keyed_insert: "keyed (pr_event p) m \<Longrightarrow> keyed (pr_event p) (bt_insert (pr_subject p) p m)"
  unfolding keyed_def by (intro conjI bt_insert_sorted ball_bt_insert) simp_all

lemma wf_rec_put: "wf_records rs \<Longrightarrow> wf_records (rec_put p rs)"
  unfolding rec_put_def by (intro wf_insert keyed_insert keyed_subjects)

lemma closed_simps [simp]:
  "pr_event (closed p) = pr_event p" "pr_subject (closed p) = pr_subject p" "\<not> pr_open (closed p)"
  "pr_attempted_at (closed p) = pr_attempted_at p" "pr_since (closed p) = pr_since p"
  "pr_band (closed p) = pr_band p" "pr_severity (closed p) = pr_severity p" "pr_message (closed p) = pr_message p"
  by (simp_all add: closed_def)

lemma closed_id: "\<not> pr_open p \<Longrightarrow> closed p = p"
  by (simp add: closed_def)

lemma store_records [simp]: "ps_records (store w p s) = rec_put p (ps_records s)"
  by (simp add: store_def)

lemma raised_simps [simp]:
  "pr_event (raised x e c t i d) = ev_event e" "pr_subject (raised x e c t i d) = ev_subject e"
  "pr_attempted_at (raised x e c t i d) = (if due x e t i d then Some t else Option.bind x pr_attempted_at)"
  by (simp_all add: raised_def)

lemma wf_raise: "wf_records (ps_records s) \<Longrightarrow> wf_records (ps_records (snd (raise w e c t i d s)))"
  by (simp add: raise_def Let_def wf_rec_put)

lemma rec_get_raise:
  "rec_get (ps_records (snd (raise w e c t i d s))) ev su =
     (if ev = ev_event e \<and> su = ev_subject e
      then Some (raised (rec_get (ps_records s) (ev_event e) (ev_subject e)) e c t i d)
      else rec_get (ps_records s) ev su)"
  by (simp add: raise_def Let_def rec_get_put)

lemma wf_resolve_one: "wf_records (ps_records s) \<Longrightarrow> wf_records (ps_records (snd (resolve_one w ev su s)))"
  by (simp add: resolve_one_def wf_rec_put split: option.split)

lemma rec_get_resolve_one:
  assumes "wf_records (ps_records s)"
  shows "rec_get (ps_records (snd (resolve_one w ev su s))) ev' su' =
     (if ev' = ev \<and> su' = su then map_option closed (rec_get (ps_records s) ev su)
      else rec_get (ps_records s) ev' su')"
  using rec_get_keys [OF assms]
  by (auto simp: resolve_one_def rec_get_put closed_id split: option.splits)

lemma wf_store_all: "wf_records (ps_records s) \<Longrightarrow> wf_records (ps_records (foldl (\<lambda>s p. store w p s) s ps))"
  by (induction ps arbitrary: s) (simp_all add: wf_rec_put)

lemma store_all_id:
  assumes "\<And>p. p \<in> set ps \<Longrightarrow> rec_get (ps_records s) (pr_event p) (pr_subject p) = Some p"
  shows "rec_get (ps_records (foldl (\<lambda>s p. store w p s) s ps)) ev su = rec_get (ps_records s) ev su"
  using assms
proof (induction ps arbitrary: s)
  case (Cons p ps)
  have "rec_get (ps_records (store w p s)) ev su = rec_get (ps_records s) ev su" for ev su
    using Cons.prems [of p] by (simp add: rec_get_put)
  with Cons show ?case by simp
qed simp

definition closing :: "'f problems \<Rightarrow> str \<Rightarrow> 'f problems" where
  "closing s ev = s\<lparr>ps_records := bt_insert ev (map (\<lambda>(k, p). (k, closed p)) (subjects_of (ps_records s) ev)) (ps_records s)\<rparr>"

lemma map_of_closed: "map_of (map (\<lambda>(k, p). (k, closed p)) m) su = map_option closed (map_of m su)"
  by (induction m) auto

lemma rec_get_closing:
  "rec_get (ps_records (closing s ev)) ev' su =
     (if ev' = ev then map_option closed (rec_get (ps_records s) ev su) else rec_get (ps_records s) ev' su)"
  by (simp add: closing_def rec_get_subjects subjects_of_insert map_of_closed)

lemma keyed_closed: "keyed ev m \<Longrightarrow> keyed ev (map (\<lambda>(k, p). (k, closed p)) m)"
proof -
  have "fst \<circ> (\<lambda>(k :: str, p). (k, closed p)) = fst" by (rule ext) (simp add: split_beta)
  then show "keyed ev m \<Longrightarrow> keyed ev (map (\<lambda>(k, p). (k, closed p)) m)"
    unfolding keyed_def by (simp add: split_beta)
qed

lemma wf_closing: "wf_records (ps_records s) \<Longrightarrow> wf_records (ps_records (closing s ev))"
  by (simp add: closing_def wf_insert keyed_closed keyed_subjects)

definition opened :: "records \<Rightarrow> str \<Rightarrow> problem list" where
  "opened rs ev = map snd (filter (pr_open \<circ> snd) (subjects_of rs ev))"

lemma resolve_all_alt:
  "resolve_all w ev s = (if map_of (ps_records s) ev = None then ([], s)
     else (map closed (opened (ps_records s) ev),
           foldl (\<lambda>s p. store w p s) (closing s ev) (map closed (opened (ps_records s) ev))))"
  by (simp add: resolve_all_def closing_def opened_def subjects_of_def Let_def split: option.split)

lemma opened_get:
  assumes "wf_records rs" "p \<in> set (opened rs ev)"
  shows "pr_event p = ev \<and> rec_get rs ev (pr_subject p) = Some p \<and> pr_open p"
proof -
  obtain x where x: "x \<in> set (subjects_of rs ev)" "pr_open (snd x)" "p = snd x"
    using assms(2) unfolding opened_def by (auto simp only: set_map set_filter comp_def image_iff mem_Collect_eq)
  then have "(fst x, p) \<in> set (subjects_of rs ev)" by (metis prod.collapse)
  then have "rec_get rs ev (fst x) = Some p"
    using keyed_get [OF keyed_subjects [OF assms(1)]] rec_get_subjects by metis
  then show ?thesis using rec_get_keys [OF assms(1)] x by metis
qed

lemma opened_mem:
  assumes "wf_records rs" "rec_get rs ev su = Some p" "pr_open p"
  shows "p \<in> set (opened rs ev)"
proof -
  have "(su, p) \<in> set (subjects_of rs ev)"
    using assms keyed_get [OF keyed_subjects] rec_get_subjects by metis
  then show ?thesis using assms(3) unfolding opened_def by force
qed

lemma resolve_store_ok:
  assumes "wf_records (ps_records s)" "p \<in> set (map closed (opened (ps_records s) ev))"
  shows "rec_get (ps_records (closing s ev)) (pr_event p) (pr_subject p) = Some p"
proof -
  obtain q where q: "q \<in> set (opened (ps_records s) ev)" "p = closed q" using assms(2) by auto
  with opened_get [OF assms(1) q(1)] show ?thesis by (simp add: rec_get_closing)
qed

lemma wf_resolve_all: "wf_records (ps_records s) \<Longrightarrow> wf_records (ps_records (snd (resolve_all w ev s)))"
  by (simp add: resolve_all_alt wf_store_all wf_closing)

lemma rec_get_resolve_all:
  assumes "wf_records (ps_records s)"
  shows "rec_get (ps_records (snd (resolve_all w ev s))) ev' su =
     (if ev' = ev then map_option closed (rec_get (ps_records s) ev su) else rec_get (ps_records s) ev' su)"
proof (cases "map_of (ps_records s) ev")
  case None
  then show ?thesis by (simp add: resolve_all_alt rec_get_def)
next
  case (Some m)
  have "rec_get (ps_records (snd (resolve_all w ev s))) ev' su = rec_get (ps_records (closing s ev)) ev' su"
    unfolding resolve_all_alt using Some
      store_all_id [where ps = "map closed (opened (ps_records s) ev)", OF resolve_store_ok [OF assms]] by simp
  then show ?thesis by (simp add: rec_get_closing)
qed

section \<open>File names\<close>

abbreviation fname :: "problem \<Rightarrow> str" where
  "fname p \<equiv> file_name (pr_open p) (pr_event p) (pr_subject p)"

abbreviation stale_name :: "problem \<Rightarrow> str" where
  "stale_name p \<equiv> file_name (\<not> pr_open p) (pr_event p) (pr_subject p)"

definition tmp_name :: "str \<Rightarrow> str" where
  "tmp_name name = lit ''.'' @ name @ lit ''.tmp''"

lemma ends_in_append: "ends_in (s @ p) p"
  by (simp add: ends_in_def)

definition stem :: "str \<Rightarrow> str \<Rightarrow> str" where
  "stem ev su = (if su = [] then ev else ev @ lit ''__'' @ hex16 (fnv1a su))"

lemma file_name_stem:
  "file_name opn ev su = (if opn then lit ''problem-'' else lit ''recent-'') @ stem ev su @ lit ''.json''"
  by (simp add: file_name_def stem_def Let_def kb_lits)

lemma state_file_name: "is_state_file (file_name opn ev su)"
proof -
  have "ends_in (file_name opn ev su) (lit ''.json'')"
    unfolding file_name_stem append.assoc [symmetric] by (rule ends_in_append)
  moreover have "starts_with (file_name opn ev su) (if opn then lit ''problem-'' else lit ''recent-'')"
    unfolding file_name_stem by (rule starts_with_append)
  ultimately show ?thesis unfolding is_state_file_def by (cases opn) simp_all
qed

lemma file_class: "starts_with (file_name opn ev su) (lit ''problem-'') \<longleftrightarrow> opn"
  by (cases opn) (simp_all add: file_name_stem starts_with_def kb_lits)

lemma file_name_open_eq: "file_name a ev su = file_name b ev' su' \<Longrightarrow> a = b"
  using file_class by metis

lemma file_name_eq: "file_name a ev su = file_name b ev' su' \<longleftrightarrow> a = b \<and> stem ev su = stem ev' su'"
  by (cases a; cases b) (simp_all add: file_name_stem kb_lits)

lemma tmp_not_state: "\<not> is_state_file (tmp_name name)"
  by (simp add: is_state_file_def tmp_name_def starts_with_def kb_lits)

section \<open>The file operations the code relies on\<close>

text \<open>
  \<open>disk\<close> is what holds when any operation may fail: a write touches its own file alone, and a
  rename moves a whole file or nothing. \<open>healthy_disk\<close> adds that nothing fails and that a
  record reads back as it was written.
\<close>

locale disk =
  fixes w :: "('f, 'b) fsys" and files :: "'f \<Rightarrow> str \<Rightarrow> 'b option"
  assumes make_files: "files (snd (fs_make w f)) = files f"
    and remove_other: "m \<noteq> n \<Longrightarrow> files (fs_remove w n f) m = files f m"
    and remove_or_keep: "files (fs_remove w n f) n \<in> {None, files f n}"
    and put_other: "m \<noteq> n \<Longrightarrow> files (snd (fs_put w n b f)) m = files f m"
    and put_done: "fst (fs_put w n b f) \<Longrightarrow> files (snd (fs_put w n b f)) n = Some b"
    and chmod_files: "files (snd (fs_chmod w n f)) = files f"
    and rename_files: "x \<noteq> y \<Longrightarrow> files (snd (fs_rename w x y f)) =
      (if fst (fs_rename w x y f) then (files f)(y := files f x, x := None) else files f)"
begin

lemma write_atomically_files:
  assumes "is_state_file name" "is_state_file m"
  shows "files (snd (write_atomically w name p f)) m =
    (if m = name \<and> fst (write_atomically w name p f) then Some (js_out w p) else files f m)"
proof -
  have ne: "m \<noteq> tmp_name name" "name \<noteq> tmp_name name" using assms tmp_not_state by metis+
  obtain ok1 f1 where 1: "fs_put w (tmp_name name) (js_out w p) f = (ok1, f1)" by fastforce
  obtain ok2 f2 where 2: "fs_chmod w (tmp_name name) f1 = (ok2, f2)" by fastforce
  obtain ok3 f3 where 3: "fs_rename w (tmp_name name) name f2 = (ok3, f3)" by fastforce
  have m1: "files f1 m = files f m" using put_other [OF ne(1)] 1 by (metis snd_conv)
  have t1: "ok1 \<Longrightarrow> files f1 (tmp_name name) = Some (js_out w p)" using put_done 1 by (metis fst_conv snd_conv)
  have f2: "files f2 = files f1" using chmod_files 2 by (metis snd_conv)
  have f3: "files f3 = (if ok3 then (files f2)(name := files f2 (tmp_name name), tmp_name name := None) else files f2)"
    using rename_files [of "tmp_name name" name f2] ne(2) 3 by auto
  show ?thesis
    using m1 t1 f2 f3 ne 1 2 3 by (auto simp: write_atomically_def tmp_name_def [symmetric] Let_def)
qed

lemma store_never_partial:
  assumes "ps_dir s = Some f" "ps_dir (store w p s) = Some f'" "is_state_file m"
  shows "files f' m \<in> {files f m, None, Some (js_out w p)}"
    and "m \<noteq> fname p \<Longrightarrow> m \<noteq> stale_name p \<Longrightarrow> files f' m = files f m"
proof -
  let ?g = "fs_remove w (stale_name p) f"
  have f': "f' = snd (write_atomically w (fname p) p ?g)" using assms(1,2) by (simp add: store_def)
  have w: "files f' m = (if m = fname p \<and> fst (write_atomically w (fname p) p ?g) then Some (js_out w p) else files ?g m)"
    unfolding f' by (rule write_atomically_files [OF state_file_name assms(3)])
  have g: "files ?g m = None \<or> files ?g m = files f m"
    by (cases "m = stale_name p") (use remove_other remove_or_keep [of "stale_name p" f] in auto)
  show "files f' m \<in> {files f m, None, Some (js_out w p)}" using w g by auto
  show "m \<noteq> fname p \<Longrightarrow> m \<noteq> stale_name p \<Longrightarrow> files f' m = files f m" using w remove_other by simp
qed

end

locale healthy_disk = disk +
  assumes remove_works: "files (fs_remove w n f) n = None"
    and put_works: "fst (fs_put w n b f)"
    and chmod_works: "fst (fs_chmod w n f)"
    and rename_works: "fst (fs_rename w x y f)"
    and make_works: "fs_make w f = (True, f)"
    and names_complete: "\<exists>ns. fs_names w f = Some ns \<and> distinct ns \<and> (\<forall>n. n \<in> set ns \<longleftrightarrow> files f n \<noteq> None)"
    and read_files: "fs_read w n f = files f n"
    and json_round_trip: "js_in w (js_out w p) = Some p"
begin

lemma write_succeeds: "fst (write_atomically w name p f)"
  by (simp add: write_atomically_def Let_def split_beta put_works chmod_works rename_works)

lemma store_files:
  assumes "ps_dir s = Some f" "ps_dir (store w p s) = Some f'" "is_state_file m"
  shows "files f' m = (if m = fname p then Some (js_out w p) else if m = stale_name p then None else files f m)"
proof -
  have f': "f' = snd (write_atomically w (fname p) p (fs_remove w (stale_name p) f))"
    using assms(1,2) by (simp add: store_def)
  show ?thesis unfolding f'
    using write_atomically_files [OF state_file_name assms(3)] write_succeeds remove_works remove_other by metis
qed

end

end
