(* ===== verification/KB_ProblemsSound.thy ===== *)
theory KB_ProblemsSound
  imports KB_Problems
begin

text \<open>
  What the problem list promises: the files are the records, an open problem is exactly a
  \<open>problem-\<close> file, and a persisting condition is announced at most once per interval, across
  resolutions and restarts. The calls of a service are a sequence, with a restart as one of
  them.
\<close>

section \<open>The files mirror the records\<close>

definition mirrors :: "('f, 'b) fsys \<Rightarrow> ('f \<Rightarrow> str \<Rightarrow> 'b option) \<Rightarrow> 'f problems \<Rightarrow> bool" where
  "mirrors w files s \<longleftrightarrow> (\<forall>f. ps_dir s = Some f \<longrightarrow> (\<forall>n b. is_state_file n \<longrightarrow>
     (files f n = Some b \<longleftrightarrow> (\<exists>ev su p. rec_get (ps_records s) ev su = Some p \<and> n = fname p \<and> b = js_out w p))))"

definition keys :: "'f problems \<Rightarrow> (str \<times> str) set" where
  "keys s = {k. rec_get (ps_records s) (fst k) (snd k) \<noteq> None}"

definition key :: "problem \<Rightarrow> str \<times> str" where
  "key p = (pr_event p, pr_subject p)"

definition distinct_names :: "(str \<times> str) set \<Rightarrow> bool" where
  "distinct_names K \<longleftrightarrow> inj_on (\<lambda>k. stem (fst k) (snd k)) K"

lemma distinct_namesD:
  "distinct_names K \<Longrightarrow> key p \<in> K \<Longrightarrow> key q \<in> K
     \<Longrightarrow> file_name a (pr_event p) (pr_subject p) = file_name b (pr_event q) (pr_subject q) \<Longrightarrow> a = b \<and> key p = key q"
  unfolding distinct_names_def file_name_eq key_def inj_on_def by (metis fst_conv snd_conv)

lemma key_closed [simp]: "key (closed p) = key p"
  by (simp add: key_def)

definition good :: "('f, 'b) fsys \<Rightarrow> ('f \<Rightarrow> str \<Rightarrow> 'b option) \<Rightarrow> (str \<times> str) set \<Rightarrow> 'f problems \<Rightarrow> bool" where
  "good w files K s \<longleftrightarrow> wf_records (ps_records s) \<and> keys s \<subseteq> K \<and> mirrors w files s"

lemma good_get:
  assumes "good w files K s" "rec_get (ps_records s) ev su = Some p"
  shows "key p = (ev, su)" "key p \<in> K"
proof -
  show k: "key p = (ev, su)" using assms rec_get_keys unfolding good_def key_def by metis
  have "(ev, su) \<in> keys s" using assms(2) by (simp add: keys_def)
  then show "key p \<in> K" using assms(1) k unfolding good_def by auto
qed

lemma store_dir: "ps_dir (store w p s) = None \<longleftrightarrow> ps_dir s = None"
  by (simp add: store_def split: option.split)

lemma store_dir_only: "ps_dir s = ps_dir t \<Longrightarrow> ps_dir (store w p s) = ps_dir (store w p t)"
  by (simp add: store_def)

lemma store_all_dir:
  "ps_dir s = ps_dir t \<Longrightarrow> ps_dir (foldl (\<lambda>s p. store w p s) s ps) = ps_dir (foldl (\<lambda>s p. store w p s) t ps)"
proof (induction ps arbitrary: s t)
  case (Cons p ps)
  show ?case using Cons.IH [OF store_dir_only [OF Cons.prems]] by simp
qed simp

lemma store_all_get:
  assumes "\<And>p. p \<in> set ps \<Longrightarrow> T (pr_event p) (pr_subject p) = Some p"
    "\<And>ev su. rec_get (ps_records s) ev su = T ev su \<or> (ev, su) \<in> key ` set ps"
  shows "rec_get (ps_records (foldl (\<lambda>s p. store w p s) s ps)) ev su = T ev su"
  using assms
proof (induction ps arbitrary: s)
  case (Cons p ps)
  have "rec_get (ps_records (store w p s)) ev su = T ev su \<or> (ev, su) \<in> key ` set ps" for ev su
  proof (cases "(ev, su) = key p")
    case True
    then show ?thesis using Cons.prems(1) [of p] by (simp add: rec_get_put key_def)
  next
    case False
    then have "rec_get (ps_records (store w p s)) ev su = rec_get (ps_records s) ev su"
      by (auto simp: rec_get_put key_def)
    moreover have "(ev, su) \<in> key ` set (p # ps) \<Longrightarrow> (ev, su) \<in> key ` set ps" using False by (simp add: image_iff)
    ultimately show ?thesis using Cons.prems(2) [of ev su] by metis
  qed
  with Cons show ?case by simp
qed simp

lemma mirrors_cong:
  assumes "ps_dir s = ps_dir t" "\<And>ev su. rec_get (ps_records s) ev su = rec_get (ps_records t) ev su"
  shows "mirrors w files s = mirrors w files t"
  using assms unfolding mirrors_def by simp

lemma keys_store: "keys (store w p s) = insert (key p) (keys s)"
  by (auto simp: keys_def rec_get_put key_def)

definition kept :: "nat \<Rightarrow> nat \<Rightarrow> str set \<Rightarrow> problem \<Rightarrow> bool" where
  "kept i t D p \<longleftrightarrow> fname p \<in> D \<and> \<not> prunable i t p"

definition loaded ::
  "('f, 'b) fsys \<Rightarrow> ('f \<Rightarrow> str \<Rightarrow> 'b option) \<Rightarrow> 'f \<Rightarrow> records \<Rightarrow> nat \<Rightarrow> nat \<Rightarrow> str set \<Rightarrow> 'f \<times> records \<Rightarrow> bool" where
  "loaded w files f0 rs0 i t D fr \<longleftrightarrow> wf_records (snd fr)
     \<and> (\<forall>m. is_state_file m \<longrightarrow> files (fst fr) m =
          (if m \<in> D \<and> (\<exists>p. files f0 m = Some (js_out w p) \<and> prunable i t p) then None else files f0 m))
     \<and> (\<forall>ev su. rec_get (snd fr) ev su =
          Option.bind (rec_get rs0 ev su) (\<lambda>p. if kept i t D p then Some p else None))"

context healthy_disk
begin

lemma good_store:
  assumes g: "good w files K s" and K: "key p \<in> K" "distinct_names K"
  shows "good w files K (store w p s)"
proof -
  have "mirrors w files (store w p s)"
    unfolding mirrors_def
  proof (intro allI impI)
    fix f' n b
    assume f': "ps_dir (store w p s) = Some f'" and n: "is_state_file n"
    obtain f where f: "ps_dir s = Some f" using f' store_dir [of w p s] by fastforce
    have old: "files f n = Some b \<longleftrightarrow> (\<exists>ev su q. rec_get (ps_records s) ev su = Some q \<and> n = fname q \<and> b = js_out w q)"
      using g f n unfolding good_def mirrors_def by blast
    have same: "fname q \<noteq> fname p \<and> fname q \<noteq> stale_name p" if "rec_get (ps_records s) ev su = Some q" "key q \<noteq> key p" for ev su q
      using distinct_namesD [OF K(2)] K(1) good_get [OF g that(1)] that(2) by metis
    have files': "files f' n = (if n = fname p then Some (js_out w p) else if n = stale_name p then None else files f n)"
      by (rule store_files [OF f f' n])
    have get: "rec_get (ps_records (store w p s)) ev su = Some q \<longleftrightarrow>
        (if (ev, su) = key p then q = p else rec_get (ps_records s) ev su = Some q)" for ev su q
      by (auto simp: rec_get_put key_def)
    show "files f' n = Some b \<longleftrightarrow>
        (\<exists>ev su q. rec_get (ps_records (store w p s)) ev su = Some q \<and> n = fname q \<and> b = js_out w q)" (is "_ \<longleftrightarrow> ?R")
    proof
      assume L: "files f' n = Some b"
      show ?R
      proof (cases "n = fname p")
        case True
        then show ?thesis using L files' get unfolding key_def by (metis option.inject)
      next
        case False
        then obtain ev su q where q: "rec_get (ps_records s) ev su = Some q" "n = fname q" "b = js_out w q"
          "n \<noteq> stale_name p" using L files' old by (metis option.distinct(1))
        have "key q \<noteq> key p"
          using False q(2,4) unfolding key_def by (cases "pr_open q"; cases "pr_open p") auto
        then show ?thesis using q good_get(1) [OF g q(1)] get by metis
      qed
    next
      assume ?R
      then obtain ev su q where q: "rec_get (ps_records (store w p s)) ev su = Some q" "n = fname q" "b = js_out w q" by blast
      show "files f' n = Some b"
      proof (cases "(ev, su) = key p")
        case True
        then show ?thesis using q get files' by metis
      next
        case False
        then have q': "rec_get (ps_records s) ev su = Some q" using q get by metis
        then have "key q \<noteq> key p" using False good_get(1) [OF g q'] by simp
        then show ?thesis using same [OF q'] q old files' q' by metis
      qed
    qed
  qed
  then show ?thesis using g K unfolding good_def by (simp add: keys_store wf_rec_put)
qed

lemma good_store_all:
  assumes "distinct_names K" "key ` set ps \<subseteq> K" "good w files K s"
  shows "good w files K (foldl (\<lambda>s p. store w p s) s ps)"
  using assms by (induction ps arbitrary: s) (simp_all add: good_store)

lemma good_cong:
  assumes "good w files K s" "ps_dir s = ps_dir t" "wf_records (ps_records t)"
    "\<And>ev su. rec_get (ps_records s) ev su = rec_get (ps_records t) ev su"
  shows "good w files K t"
  using assms mirrors_cong [of s t w files] unfolding good_def keys_def by simp

lemma good_raise:
  assumes "good w files K s" "(ev_event e, ev_subject e) \<in> K" "distinct_names K"
  shows "good w files K (snd (raise w e c t i d s))"
  using assms by (simp add: raise_def Let_def good_store key_def)

lemma good_resolve_one:
  assumes "good w files K s" "distinct_names K"
  shows "good w files K (snd (resolve_one w ev su s))"
  using assms good_get [OF assms(1)] by (auto simp: resolve_one_def good_store split: option.split)

lemma good_resolve_all:
  assumes g: "good w files K s" and K: "distinct_names K"
  shows "good w files K (snd (resolve_all w ev s))"
proof (cases "map_of (ps_records s) ev = None")
  case True
  then show ?thesis using g by (simp add: resolve_all_alt)
next
  case False
  let ?ps = "map closed (opened (ps_records s) ev)"
  have wf: "wf_records (ps_records s)" using g by (simp add: good_def)
  have sub: "key ` set ?ps \<subseteq> K"
    using opened_get [OF wf] good_get [OF g] by fastforce
  have T: "rec_get (ps_records s) ev' su = rec_get (ps_records (closing s ev)) ev' su \<or> (ev', su) \<in> key ` set ?ps" for ev' su
  proof (cases "rec_get (ps_records s) ev' su")
    case (Some p)
    show ?thesis
    proof (cases "ev' = ev \<and> pr_open p")
      case True
      then have "p \<in> set (opened (ps_records s) ev)" using opened_mem [OF wf] Some by blast
      then show ?thesis using good_get(1) [OF g Some] by (metis image_eqI key_closed list.set_map)
    next
      case False
      then show ?thesis using Some closed_id by (auto simp: rec_get_closing)
    qed
  next
    case None
    then show ?thesis by (cases "ev' = ev") (simp_all add: rec_get_closing)
  qed
  have get: "rec_get (ps_records (foldl (\<lambda>s p. store w p s) s ?ps)) ev' su = rec_get (ps_records (closing s ev)) ev' su" for ev' su
    by (rule store_all_get [OF resolve_store_ok [OF wf] T])
  have "good w files K (foldl (\<lambda>s p. store w p s) s ?ps)"
    by (rule good_store_all [OF K sub g])
  then show ?thesis
  proof (rule good_cong)
    show "ps_dir (foldl (\<lambda>s p. store w p s) s ?ps) = ps_dir (snd (resolve_all w ev s))"
      using False store_all_dir [of s "closing s ev" w ?ps] by (auto simp: resolve_all_alt closing_def)
    show "wf_records (ps_records (snd (resolve_all w ev s)))" by (rule wf_resolve_all [OF wf])
    show "rec_get (ps_records (foldl (\<lambda>s p. store w p s) s ?ps)) ev' su = rec_get (ps_records (snd (resolve_all w ev s))) ev' su" for ev' su
      unfolding get rec_get_resolve_all [OF wf] rec_get_closing ..
  qed
qed

lemma out_inj: "js_out w p = js_out w q \<longleftrightarrow> p = q"
  using json_round_trip by (metis option.inject)

lemma load_entry_cases:
  assumes g: "good w files K s" and f0: "ps_dir s = Some f0"
    and n: "is_state_file name \<Longrightarrow> files f name = files f0 name"
    and fr: "load_entry w i t name (f, rs) = fr'"
  obtains (skip) "fr' = (f, rs)" "\<And>ev su p. rec_get (ps_records s) ev su = Some p \<Longrightarrow> fname p \<noteq> name"
      "is_state_file name \<Longrightarrow> files f0 name = None"
    | (hit) p ev su where "rec_get (ps_records s) ev su = Some p" "name = fname p" "files f0 name = Some (js_out w p)"
        "fr' = (if prunable i t p then (fs_remove w name f, rs) else (f, rec_put p rs))"
proof (cases "is_state_file name")
  case False
  then show ?thesis using skip fr state_file_name by (auto simp: load_entry_def)
next
  case True
  have mir: "files f0 name = Some b \<longleftrightarrow> (\<exists>ev su p. rec_get (ps_records s) ev su = Some p \<and> name = fname p \<and> b = js_out w p)" for b
    using g f0 True unfolding good_def mirrors_def by blast
  have r: "fs_read w name f = files f0 name" using read_files n True by simp
  show ?thesis
  proof (cases "files f0 name")
    case None
    then have "fname p \<noteq> name" if "rec_get (ps_records s) ev su = Some p" for ev su p
      using that mir by (metis option.distinct(1))
    then show ?thesis using skip fr r None True by (auto simp: load_entry_def)
  next
    case (Some b)
    then obtain ev su p where p: "rec_get (ps_records s) ev su = Some p" "name = fname p" "b = js_out w p"
      using mir by blast
    have "fr' = (if prunable i t p then (fs_remove w name f, rs) else (f, rec_put p rs))"
      using fr r Some True p(3) json_round_trip by (auto simp: load_entry_def)
    then show ?thesis using hit p Some by blast
  qed
qed

lemma loaded_skip:
  assumes "loaded w files f0 rs0 i t D fr" "\<And>ev su p. rec_get rs0 ev su = Some p \<Longrightarrow> fname p \<noteq> name"
    "is_state_file name \<Longrightarrow> files f0 name = None"
  shows "loaded w files f0 rs0 i t (insert name D) fr"
proof -
  have "rec_get rs0 ev su = Some p \<Longrightarrow> kept i t (insert name D) p = kept i t D p" for ev su p
    using assms(2) unfolding kept_def by blast
  then have "Option.bind (rec_get rs0 ev su) (\<lambda>p. if kept i t (insert name D) p then Some p else None)
      = Option.bind (rec_get rs0 ev su) (\<lambda>p. if kept i t D p then Some p else None)" for ev su
    by (cases "rec_get rs0 ev su") simp_all
  then show ?thesis using assms(1,3) unfolding loaded_def by auto
qed

lemma loaded_hit:
  assumes g: "good w files K s" and K: "distinct_names K"
    and L: "loaded w files f0 (ps_records s) i t D (f, rs)" and n: "name \<notin> D"
    and p: "rec_get (ps_records s) ev' su' = Some p" "name = fname p" "files f0 name = Some (js_out w p)"
  shows "loaded w files f0 (ps_records s) i t (insert name D)
    (if prunable i t p then (fs_remove w name f, rs) else (f, rec_put p rs))" (is "loaded _ _ _ _ _ _ ?D ?fr")
proof -
  have k: "key p = (ev', su')" "key p \<in> K" using good_get [OF g p(1)] by auto
  have files: "files (fst ?fr) m = (if m \<in> ?D \<and> (\<exists>p. files f0 m = Some (js_out w p) \<and> prunable i t p) then None else files f0 m)"
    if m: "is_state_file m" for m
  proof -
    have q: "(\<exists>q. files f0 name = Some (js_out w q) \<and> prunable i t q) \<longleftrightarrow> prunable i t p"
      using p(3) out_inj by auto
    show ?thesis
      using q L m n remove_works [of name f] remove_other [of m name f]
      unfolding loaded_def by (cases "m = name") auto
  qed
  have get: "rec_get (snd ?fr) ev su =
      Option.bind (rec_get (ps_records s) ev su) (\<lambda>p. if kept i t ?D p then Some p else None)" for ev su
  proof (cases "(ev, su) = (ev', su')")
    case True
    have "rec_get rs ev su = None" using L True p n unfolding loaded_def kept_def by simp
    then show ?thesis using True p k by (simp add: rec_get_put key_def kept_def)
  next
    case False
    have other: "fname q \<noteq> name" if "rec_get (ps_records s) ev su = Some q" for q
      using distinct_namesD [OF K k(2)] good_get [OF g that] False k(1) p(2) by metis
    have "rec_get (snd ?fr) ev su = rec_get rs ev su"
      using k(1) False by (auto simp: rec_get_put key_def)
    also have "\<dots> = Option.bind (rec_get (ps_records s) ev su) (\<lambda>p. if kept i t D p then Some p else None)"
      using L unfolding loaded_def by simp
    also have "\<dots> = Option.bind (rec_get (ps_records s) ev su) (\<lambda>p. if kept i t ?D p then Some p else None)"
      using other by (cases "rec_get (ps_records s) ev su") (simp_all add: kept_def)
    finally show ?thesis .
  qed
  show ?thesis using L files get unfolding loaded_def by (auto simp: wf_rec_put)
qed

lemma loaded_fold:
  assumes g: "good w files K s" and K: "distinct_names K" and f0: "ps_dir s = Some f0"
    and "loaded w files f0 (ps_records s) i t D fr" "distinct ns" "set ns \<inter> D = {}"
  shows "loaded w files f0 (ps_records s) i t (set ns \<union> D) (foldl (\<lambda>fr name. load_entry w i t name fr) fr ns)"
  using assms(4-6)
proof (induction ns arbitrary: D fr)
  case (Cons name ns)
  obtain f rs where fr: "fr = (f, rs)" by fastforce
  have same: "is_state_file name \<Longrightarrow> files f name = files f0 name"
    using Cons.prems(1,3) fr unfolding loaded_def by simp
  have "loaded w files f0 (ps_records s) i t (insert name D) (load_entry w i t name (f, rs))"
  proof (rule load_entry_cases [OF g f0 same refl, of i t rs])
    assume 1: "load_entry w i t name (f, rs) = (f, rs)" "is_state_file name \<Longrightarrow> files f0 name = None"
      and 2: "\<And>ev su p. rec_get (ps_records s) ev su = Some p \<Longrightarrow> fname p \<noteq> name"
    show ?thesis unfolding 1(1) by (rule loaded_skip [OF _ 2 1(2)]) (use Cons.prems(1) fr in auto)
  next
    fix p ev su
    assume hit: "rec_get (ps_records s) ev su = Some p" "name = fname p" "files f0 name = Some (js_out w p)"
      "load_entry w i t name (f, rs) = (if prunable i t p then (fs_remove w name f, rs) else (f, rec_put p rs))"
    have "loaded w files f0 (ps_records s) i t (insert name D)
        (if prunable i t p then (fs_remove w name f, rs) else (f, rec_put p rs))"
      by (rule loaded_hit [OF g K _ _ hit(1-3)]) (use Cons.prems(1,3) fr in auto)
    then show ?thesis unfolding hit(4) .
  qed
  then show ?case using Cons.IH [of "insert name D"] Cons.prems(2,3) fr by simp
qed simp

lemma load_spec:
  assumes g: "good w files K s" and K: "distinct_names K"
  shows "good w files K (load w (ps_dir s) i t)"
    and "ps_dir s \<noteq> None \<Longrightarrow> rec_get (ps_records (load w (ps_dir s) i t)) ev su =
      Option.bind (rec_get (ps_records s) ev su) (\<lambda>p. if prunable i t p then None else Some p)"
proof -
  have main: "good w files K (load w (Some f0) i t) \<and>
      (\<forall>ev su. rec_get (ps_records (load w (Some f0) i t)) ev su =
      Option.bind (rec_get (ps_records s) ev su) (\<lambda>p. if prunable i t p then None else Some p))"
    if f0: "ps_dir s = Some f0" for f0
  proof -
    obtain ns where ns: "fs_names w f0 = Some ns" "distinct ns" "\<And>n. n \<in> set ns \<longleftrightarrow> files f0 n \<noteq> None"
      using names_complete by blast
    obtain f rs where fr: "foldl (\<lambda>fr name. load_entry w i t name fr) (f0, []) ns = (f, rs)" by fastforce
    have ld: "load w (Some f0) i t = \<lparr>ps_dir = Some f, ps_records = rs\<rparr>"
      by (simp add: load_def make_works ns(1) fr)
    have "loaded w files f0 (ps_records s) i t {} (f0, [])"
      by (simp add: loaded_def kept_def wf_records_def split: Option.bind_split)
    from loaded_fold [OF g K f0 this ns(2)] fr
    have L: "loaded w files f0 (ps_records s) i t (set ns) (f, rs)" by simp
    have all: "fname p \<in> set ns" if "rec_get (ps_records s) ev su = Some p" for ev su p
      using g f0 that state_file_name unfolding good_def mirrors_def ns(3) by (metis option.distinct(1))
    have R: "rec_get rs ev su = Option.bind (rec_get (ps_records s) ev su) (\<lambda>p. if prunable i t p then None else Some p)" for ev su
      using L all by (cases "rec_get (ps_records s) ev su") (auto simp: loaded_def kept_def)
    have "mirrors w files \<lparr>ps_dir = Some f, ps_records = rs\<rparr>"
      unfolding mirrors_def
    proof (intro allI impI)
      fix f' n b assume "ps_dir \<lparr>ps_dir = Some f, ps_records = rs\<rparr> = Some f'" and n: "is_state_file n"
      then have f': "f' = f" by simp
      have fn: "files f n = (if (\<exists>p. files f0 n = Some (js_out w p) \<and> prunable i t p) then None else files f0 n)"
        using L n ns(3) [of n] unfolding loaded_def by auto
      have mir: "files f0 n = Some b \<longleftrightarrow> (\<exists>ev su p. rec_get (ps_records s) ev su = Some p \<and> n = fname p \<and> b = js_out w p)" for b
        using g f0 n unfolding good_def mirrors_def by blast
      have "files f n = Some b \<longleftrightarrow> (\<exists>ev su p. rec_get (ps_records s) ev su = Some p \<and> \<not> prunable i t p \<and> n = fname p \<and> b = js_out w p)"
      proof (cases "files f0 n")
        case None
        then show ?thesis using fn mir by (metis option.distinct(1))
      next
        case (Some b')
        then obtain ev su p where p: "rec_get (ps_records s) ev su = Some p" "n = fname p" "b' = js_out w p"
          using mir by blast
        have uniq: "q = p" if "rec_get (ps_records s) ev' su' = Some q" "n = fname q" for ev' su' q
          using that mir Some p(3) out_inj by (metis option.inject)
        have "files f n = (if prunable i t p then None else Some (js_out w p))"
          using fn Some p(3) out_inj by auto
        then show ?thesis using p(1,2) uniq by (metis option.distinct(1) option.inject)
      qed
      then show "files f' n = Some b \<longleftrightarrow> (\<exists>ev su p. rec_get (ps_records \<lparr>ps_dir = Some f, ps_records = rs\<rparr>) ev su = Some p \<and> n = fname p \<and> b = js_out w p)"
        unfolding f' problems.simps R
        by (simp add: Option.bind_eq_Some_conv split: if_splits) metis
    qed
    moreover have "keys \<lparr>ps_dir = Some f, ps_records = rs\<rparr> \<subseteq> keys s"
      by (auto simp: keys_def R Option.bind_eq_Some_conv)
    ultimately show ?thesis
      using g L R unfolding ld good_def loaded_def by auto
  qed
  show "good w files K (load w (ps_dir s) i t)"
  proof (cases "ps_dir s")
    case None
    then show ?thesis by (simp add: load_def good_def wf_records_def keys_def mirrors_def)
  qed (use main in simp)
  show "ps_dir s \<noteq> None \<Longrightarrow> rec_get (ps_records (load w (ps_dir s) i t)) ev su =
      Option.bind (rec_get (ps_records s) ev su) (\<lambda>p. if prunable i t p then None else Some p)"
    using main by auto
qed

end

section \<open>A service and its calls\<close>

datatype pcall =
    PRaise notify_event nat bool
  | PResolve str
  | PResolveOne str str
  | PRestart nat

fun pstep ::
  "('f, 'b) fsys \<Rightarrow> str \<Rightarrow> nat \<Rightarrow> pcall \<Rightarrow> 'f problems \<Rightarrow> (str \<times> str \<times> nat) list \<times> 'f problems" where
  "pstep w component interval (PRaise e now deliverable) s =
     (case raise w e component now interval deliverable s of
        (d, s') \<Rightarrow> (if d then [(ev_event e, ev_subject e, now)] else [], s'))"
| "pstep w component interval (PResolve ev) s = ([], snd (resolve_all w ev s))"
| "pstep w component interval (PResolveOne ev su) s = ([], snd (resolve_one w ev su s))"
| "pstep w component interval (PRestart now) s = ([], load w (ps_dir s) interval now)"

fun prun ::
  "('f, 'b) fsys \<Rightarrow> str \<Rightarrow> nat \<Rightarrow> pcall list \<Rightarrow> 'f problems \<Rightarrow> (str \<times> str \<times> nat) list \<times> 'f problems" where
  "prun w component interval [] s = ([], s)"
| "prun w component interval (c # cs) s =
     (case pstep w component interval c s of (a, s') \<Rightarrow>
        case prun w component interval cs s' of (b, s'') \<Rightarrow> (a @ b, s''))"

fun call_times :: "pcall \<Rightarrow> nat list" where
  "call_times (PRaise e now d) = [now]"
| "call_times (PRestart now) = [now]"
| "call_times _ = []"

fun call_keys :: "pcall \<Rightarrow> (str \<times> str) set" where
  "call_keys (PRaise e now d) = {(ev_event e, ev_subject e)}"
| "call_keys _ = {}"

fun persists :: "str \<times> str \<Rightarrow> pcall \<Rightarrow> bool" where
  "persists k (PRaise e now d) \<longleftrightarrow> (ev_event e, ev_subject e) = k \<longrightarrow> ev_repeat e = Persisting"
| "persists k _ \<longleftrightarrow> True"

definition announced_at :: "str \<times> str \<Rightarrow> (str \<times> str \<times> nat) list \<Rightarrow> nat list" where
  "announced_at k as = map (snd \<circ> snd) (filter (\<lambda>a. (fst a, fst (snd a)) = k) as)"

lemma announced_at_append: "announced_at k (a @ b) = announced_at k a @ announced_at k b"
  by (simp add: announced_at_def)

text \<open>The stamp of \<open>k\<close> covers an announcement at \<open>t\<close>: no announcement is possible before \<open>t\<close> plus
  the interval.\<close>

definition covered :: "nat \<Rightarrow> str \<times> str \<Rightarrow> nat \<Rightarrow> 'f problems \<Rightarrow> nat \<Rightarrow> bool" where
  "covered interval k clock s t \<longleftrightarrow> t \<le> clock \<and> (t + interval \<le> clock
     \<or> (\<exists>p t'. rec_get (ps_records s) (fst k) (snd k) = Some p \<and> pr_attempted_at p = Some t' \<and> t \<le> t'))"

context healthy_disk
begin

lemma good_step:
  assumes "good w files K s" "distinct_names K" "call_keys c \<subseteq> K"
  shows "good w files K (snd (pstep w cmp i c s))"
  using assms good_raise good_resolve_all good_resolve_one load_spec(1)
  by (cases c) (auto simp: split_beta)

lemma step_dir:
  assumes "ps_dir s \<noteq> None"
  shows "ps_dir (snd (pstep w cmp i c s)) \<noteq> None"
proof -
  have all: "ps_dir t \<noteq> None \<Longrightarrow> ps_dir (foldl (\<lambda>s p. store w p s) t ps) \<noteq> None" for t ps
    by (induction ps arbitrary: t) (simp_all add: store_dir del: not_None_eq)
  have "ps_dir (load w (ps_dir s) i t) \<noteq> None" for t
    using assms names_complete by (auto simp: load_def make_works split_beta split: option.split)
  then show ?thesis
    using assms all [of "closing s _"]
    by (cases c) (auto simp: raise_def Let_def store_dir resolve_all_alt resolve_one_def closing_def
        simp del: not_None_eq split: option.split)
qed

lemma covered_raise:
  assumes "covered i k clock s t" "clock \<le> now" "persists k (PRaise e now d)"
  shows "covered i k now (snd (raise w e cmp now i d s)) t"
    and "fst (raise w e cmp now i d s) \<Longrightarrow> (ev_event e, ev_subject e) = k \<Longrightarrow> t + i \<le> now"
proof -
  let ?x = "rec_get (ps_records s) (fst k) (snd k)"
  show 1: "t + i \<le> now" if "fst (raise w e cmp now i d s)" "(ev_event e, ev_subject e) = k"
  proof (cases "t + i \<le> clock")
    case False
    then obtain p t' where p: "?x = Some p" "pr_attempted_at p = Some t'" "t \<le> t'"
      using assms(1) unfolding covered_def by blast
    have "due ?x e now i d" using that by (auto simp: raise_def Let_def)
    then have "i \<le> now - t'" using p that(2) assms(3) by (auto simp: due_def)
    moreover have "t \<le> clock" using assms(1) by (simp add: covered_def)
    ultimately show ?thesis using p(3) assms(2) False by linarith
  qed (use assms(2) in simp)
  show "covered i k now (snd (raise w e cmp now i d s)) t"
  proof (cases "(ev_event e, ev_subject e) = k")
    case False
    then have "rec_get (ps_records (snd (raise w e cmp now i d s))) (fst k) (snd k) = ?x"
      by (cases k) (auto simp: rec_get_raise)
    then show ?thesis using assms(1,2) unfolding covered_def by auto
  next
    case True
    then have get: "rec_get (ps_records (snd (raise w e cmp now i d s))) (fst k) (snd k) = Some (raised ?x e cmp now i d)"
      by (auto simp: rec_get_raise)
    show ?thesis
    proof (cases "t + i \<le> clock")
      case False
      then obtain p t' where p: "?x = Some p" "pr_attempted_at p = Some t'" "t \<le> t'"
        using assms(1) unfolding covered_def by blast
      show ?thesis
      proof (cases "due ?x e now i d")
        case True
        then have "fst (raise w e cmp now i d s)" using \<open>(ev_event e, ev_subject e) = k\<close> by (auto simp: raise_def Let_def)
        then show ?thesis using 1 \<open>(ev_event e, ev_subject e) = k\<close> unfolding covered_def by simp
      next
        case False
        moreover have "t \<le> now" using assms(1,2) by (simp add: covered_def)
        ultimately show ?thesis using p get unfolding covered_def by auto
      qed
    qed (use assms(2) in \<open>auto simp: covered_def\<close>)
  qed
qed

lemma covered_silent:
  assumes "good w files K s" "distinct_names K" "ps_dir s \<noteq> None" "covered i k clock s t"
  shows "covered i k clock (snd (resolve_all w ev s)) t" "covered i k clock (snd (resolve_one w ev su s)) t"
    and "clock \<le> now \<Longrightarrow> covered i k now (load w (ps_dir s) i now) t"
proof -
  have wf: "wf_records (ps_records s)" using assms(1) by (simp add: good_def)
  show "covered i k clock (snd (resolve_all w ev s)) t" "covered i k clock (snd (resolve_one w ev su s)) t"
    using assms(4) by (auto simp: covered_def rec_get_resolve_all [OF wf] rec_get_resolve_one [OF wf])
  show "covered i k now (load w (ps_dir s) i now) t" if "clock \<le> now"
  proof (cases "t + i \<le> now")
    case False
    then have "\<not> t + i \<le> clock" using that by simp
    then obtain p t' where p: "rec_get (ps_records s) (fst k) (snd k) = Some p" "pr_attempted_at p = Some t'" "t \<le> t'"
      using assms(4) unfolding covered_def by blast
    then have "\<not> prunable i now p" using False by (auto simp: prunable_def)
    then show ?thesis using p assms(4) that unfolding covered_def load_spec(2) [OF assms(1-3)] by auto
  qed (use assms(4) that in \<open>auto simp: covered_def\<close>)
qed

lemma rate_limited:
  assumes "good w files K s" "distinct_names K" "ps_dir s \<noteq> None"
    and "\<forall>c \<in> set cs. call_keys c \<subseteq> K \<and> persists k c"
    and "sorted (clock # concat (map call_times cs))"
    and "\<forall>t \<in> set old. covered i k clock s t" "sorted_wrt (\<lambda>a b. a + i \<le> b) old"
  shows "sorted_wrt (\<lambda>a b. a + i \<le> b) (old @ announced_at k (fst (prun w cmp i cs s)))"
  using assms
proof (induction cs arbitrary: s clock old)
  case Nil
  then show ?case by (simp add: announced_at_def)
next
  case (Cons c cs)
  obtain a s' where step: "pstep w cmp i c s = (a, s')" by fastforce
  have g': "good w files K s'" using good_step [OF Cons.prems(1,2), of c cmp i] Cons.prems(4) step by simp
  have d': "ps_dir s' \<noteq> None" using step_dir [OF Cons.prems(3), of cmp i c] step by simp
  define clock' where "clock' = last (clock # call_times c)"
  have srt: "sorted (clock' # concat (map call_times cs))" "clock \<le> clock'"
    using Cons.prems(5) unfolding clock'_def by (cases c; auto)+
  have "(\<forall>t \<in> set (old @ announced_at k a). covered i k clock' s' t)
      \<and> sorted_wrt (\<lambda>a b. a + i \<le> b) (old @ announced_at k a)"
  proof (cases c)
    case (PRaise e now d)
    have cn: "clock \<le> now" "clock' = now" using Cons.prems(5) PRaise by (auto simp: clock'_def)
    have ps: "persists k (PRaise e now d)" using Cons.prems(4) PRaise by (auto simp del: persists.simps)
    have s': "s' = snd (raise w e cmp now i d s)"
      "a = (if fst (raise w e cmp now i d s) then [(ev_event e, ev_subject e, now)] else [])"
      using step PRaise by (auto simp: split_beta)
    have cov: "\<forall>t \<in> set old. covered i k clock' s' t"
      using covered_raise(1) [OF _ cn(1) ps] Cons.prems(6) unfolding s' cn(2) by blast
    show ?thesis
    proof (cases "fst (raise w e cmp now i d s) \<and> (ev_event e, ev_subject e) = k")
      case True
      then have a: "announced_at k a = [now]" by (simp add: s'(2) announced_at_def)
      have due: "due (rec_get (ps_records s) (ev_event e) (ev_subject e)) e now i d"
        using True by (simp add: raise_def Let_def)
      have "covered i k now s' now"
        unfolding covered_def s' using True due by (auto simp: rec_get_raise)
      then show ?thesis
        using cov a covered_raise(2) [OF _ cn(1) ps] True Cons.prems(6,7) cn(2) by (auto simp: sorted_wrt_append)
    next
      case False
      then have "announced_at k a = []" by (auto simp: s'(2) announced_at_def)
      then show ?thesis using cov Cons.prems(7) by simp
    qed
  next
    case (PRestart now)
    then show ?thesis
      using step Cons.prems(5-7) covered_silent(3) [OF Cons.prems(1-3), of i k clock _ now]
      by (auto simp: clock'_def announced_at_def)
  qed (use step Cons.prems(6,7) covered_silent(1,2) [OF Cons.prems(1-3), of i k clock] in
      \<open>auto simp: clock'_def announced_at_def simp del: split_paired_all\<close>)
  then have "sorted_wrt (\<lambda>a b. a + i \<le> b) ((old @ announced_at k a) @ announced_at k (fst (prun w cmp i cs s')))"
    by (intro Cons.IH [OF g' Cons.prems(2) d' _ srt(1)]) (use Cons.prems(4) in auto)
  then show ?case by (simp add: step split_beta announced_at_append)
qed

lemma good_run:
  assumes "good w files K s" "distinct_names K" "\<forall>c \<in> set cs. call_keys c \<subseteq> K"
  shows "good w files K (snd (prun w cmp i cs s))"
  using assms by (induction cs arbitrary: s) (auto simp: split_beta intro!: good_step)

end

section \<open>Two directories\<close>

text \<open>
  A directory held in memory, whose bodies are the records themselves: it never fails. A
  directory in which the \<open>n\<close>-th operation fails when \<open>faults n\<close> says so, a failing write leaving
  a torn temporary file behind.
\<close>

type_synonym plain = "(str \<times> problem) list"

definition plain_put :: "str \<Rightarrow> problem \<Rightarrow> plain \<Rightarrow> plain" where
  "plain_put n b f = (n, b) # filter (\<lambda>x. fst x \<noteq> n) f"

definition plain_files :: "plain \<Rightarrow> str \<Rightarrow> problem option" where
  "plain_files f = map_of f"

definition plain_disk :: "(plain, problem) fsys" where
  "plain_disk = \<lparr>fs_make = (\<lambda>f. (True, f)), fs_names = (\<lambda>f. Some (remdups (map fst f))),
     fs_read = (\<lambda>n f. map_of f n), fs_remove = (\<lambda>n. filter (\<lambda>x. fst x \<noteq> n)),
     fs_put = (\<lambda>n b f. (True, plain_put n b f)), fs_chmod = (\<lambda>n f. (True, f)),
     fs_rename = (\<lambda>a b f. (True, case map_of f a of
         None \<Rightarrow> filter (\<lambda>x. fst x \<noteq> b) f
       | Some v \<Rightarrow> plain_put b v (filter (\<lambda>x. fst x \<noteq> a) f))),
     js_out = id, js_in = Some\<rparr>"

lemma map_of_filter_ne: "map_of (filter (\<lambda>x. fst x \<noteq> n) f) m = (if m = n then None else map_of f m)"
  by (induction f) auto

lemma map_of_plain_put: "map_of (plain_put n b f) m = (if m = n then Some b else map_of f m)"
  by (simp add: plain_put_def map_of_filter_ne)

interpretation plain: healthy_disk plain_disk plain_files
proof
  show "\<exists>ns. fs_names plain_disk f = Some ns \<and> distinct ns \<and> (\<forall>n. n \<in> set ns \<longleftrightarrow> plain_files f n \<noteq> None)" for f
    by (auto simp: plain_disk_def plain_files_def map_of_eq_None_iff image_iff)
qed (auto simp: plain_disk_def plain_files_def map_of_filter_ne map_of_plain_put fun_eq_iff split: option.split)

record torn =
  tn_files :: "(str \<times> str) list"
  tn_ops :: nat
  tn_faults :: "nat \<Rightarrow> bool"

definition torn_next :: "torn \<Rightarrow> (str \<times> str) list \<Rightarrow> (str \<times> str) list \<Rightarrow> bool \<times> torn" where
  "torn_next f full half = (\<not> tn_faults f (tn_ops f),
     f\<lparr>tn_files := (if tn_faults f (tn_ops f) then half else full), tn_ops := Suc (tn_ops f)\<rparr>)"

definition without :: "str \<Rightarrow> (str \<times> str) list \<Rightarrow> (str \<times> str) list" where
  "without n = filter (\<lambda>x. fst x \<noteq> n)"

definition torn_disk :: "(problem \<Rightarrow> str) \<Rightarrow> (str \<Rightarrow> problem option) \<Rightarrow> (torn, str) fsys" where
  "torn_disk out inn = \<lparr>fs_make = (\<lambda>f. torn_next f (tn_files f) (tn_files f)),
     fs_names = (\<lambda>f. Some (remdups (map fst (tn_files f)))), fs_read = (\<lambda>n f. map_of (tn_files f) n),
     fs_remove = (\<lambda>n f. snd (torn_next f (without n (tn_files f)) (tn_files f))),
     fs_put = (\<lambda>n b f. torn_next f ((n, b) # tn_files f) ((n, take (length b div 2) b) # tn_files f)),
     fs_chmod = (\<lambda>n f. torn_next f (tn_files f) (tn_files f)),
     fs_rename = (\<lambda>a b f. torn_next f (case map_of (tn_files f) a of
         None \<Rightarrow> without b (tn_files f) | Some v \<Rightarrow> (b, v) # without a (tn_files f)) (tn_files f)),
     js_out = out, js_in = inn\<rparr>"

lemma map_of_without: "map_of (without n f) m = (if m = n then None else map_of f m)"
  by (induction f) (auto simp: without_def)

interpretation torn: disk "torn_disk out inn" "\<lambda>f. map_of (tn_files f)"
  by unfold_locales (auto simp: torn_disk_def torn_next_def map_of_without fun_eq_iff split: option.split)

section \<open>Nothing half written\<close>

definition whole :: "('f, 'b) fsys \<Rightarrow> ('f \<Rightarrow> str \<Rightarrow> 'b option) \<Rightarrow> 'f \<Rightarrow> bool" where
  "whole w files f \<longleftrightarrow> (\<forall>n b. is_state_file n \<longrightarrow> files f n = Some b \<longrightarrow> b \<in> range (js_out w))"

definition whole_state :: "('f, 'b) fsys \<Rightarrow> ('f \<Rightarrow> str \<Rightarrow> 'b option) \<Rightarrow> 'f problems \<Rightarrow> bool" where
  "whole_state w files s \<longleftrightarrow> (\<forall>f. ps_dir s = Some f \<longrightarrow> whole w files f)"

context disk
begin

lemma whole_store: "whole_state w files s \<Longrightarrow> whole_state w files (store w p s)"
  unfolding whole_state_def whole_def
proof (intro allI impI)
  fix f' n b
  assume s: "\<forall>f. ps_dir s = Some f \<longrightarrow> (\<forall>n b. is_state_file n \<longrightarrow> files f n = Some b \<longrightarrow> b \<in> range (js_out w))"
    and f': "ps_dir (store w p s) = Some f'" and n: "is_state_file n" "files f' n = Some b"
  obtain f where f: "ps_dir s = Some f" using f' store_dir [of w p s] by fastforce
  from store_never_partial(1) [OF f f' n(1)] n s f show "b \<in> range (js_out w)" by auto
qed

lemma whole_store_all: "whole_state w files s \<Longrightarrow> whole_state w files (foldl (\<lambda>s p. store w p s) s ps)"
  by (induction ps arbitrary: s) (simp_all add: whole_store)

lemma whole_remove: "whole w files f \<Longrightarrow> whole w files (fs_remove w n f)"
  unfolding whole_def
  by (metis insertE remove_or_keep remove_other option.distinct(1) singletonD)

lemma whole_load_fold: "whole w files (fst fr) \<Longrightarrow> whole w files (fst (foldl (\<lambda>fr name. load_entry w i t name fr) fr ns))"
proof (induction ns arbitrary: fr)
  case (Cons n ns)
  have "whole w files (fst (load_entry w i t n fr))"
    using Cons.prems whole_remove by (auto simp: load_entry_def split_beta split: option.split)
  then show ?case using Cons.IH by simp
qed simp

lemma whole_load:
  assumes "whole_state w files s"
  shows "whole_state w files (load w (ps_dir s) i t)"
proof (cases "ps_dir s")
  case (Some f0)
  have "whole w files (snd (fs_make w f0))"
    using assms Some make_files [of f0] unfolding whole_state_def whole_def by simp
  with Some show ?thesis
    using whole_load_fold [where fr = "(snd (fs_make w f0), [])"]
    by (auto simp: load_def whole_state_def split_beta Let_def split: option.split)
qed (simp add: load_def whole_state_def)

lemma whole_step: "whole_state w files s \<Longrightarrow> whole_state w files (snd (pstep w cmp i c s))"
proof (cases c)
  case (PResolve ev)
  assume "whole_state w files s"
  then have "whole_state w files (closing s ev)" by (simp add: whole_state_def closing_def)
  then show ?thesis using \<open>whole_state w files s\<close> PResolve whole_store_all by (simp add: resolve_all_alt)
qed (auto simp: raise_def Let_def resolve_one_def whole_store whole_load split: option.split)

lemma whole_run: "whole_state w files s \<Longrightarrow> whole_state w files (snd (prun w cmp i cs s))"
  using whole_step by (induction cs arbitrary: s) (auto simp: split_beta)

end

section \<open>The countdown\<close>

fun descending_for :: "str \<times> str \<Rightarrow> pcall list \<Rightarrow> int list" where
  "descending_for k [] = []"
| "descending_for k (PRaise e now d # cs) =
     (case ev_repeat e of
        Countdown days \<Rightarrow> if (ev_event e, ev_subject e) = k then days # descending_for k cs else descending_for k cs
      | Persisting \<Rightarrow> descending_for k cs)"
| "descending_for k (c # cs) = descending_for k cs"

fun counts_down :: "str \<times> str \<Rightarrow> pcall \<Rightarrow> bool" where
  "counts_down k (PRaise e now d) \<longleftrightarrow> (ev_event e, ev_subject e) = k \<longrightarrow> ev_repeat e \<noteq> Persisting"
| "counts_down k (PRestart now) \<longleftrightarrow> False"
| "counts_down k _ \<longleftrightarrow> True"

definition steps_below :: "int option \<Rightarrow> nat" where
  "steps_below b = (case b of None \<Rightarrow> length BANDS | Some s \<Rightarrow> length (filter (\<lambda>x. x < s) BANDS))"

lemma band_cases:
  "band days = (if days \<le> 1 then Some 1 else if days \<le> 3 then Some 3 else if days \<le> 7 then Some 7
     else if days \<le> 14 then Some 14 else if days \<le> 30 then Some 30 else None)"
  by (simp add: band_def BANDS_def)

lemma steps_below_band:
  "steps_below (band days) = (if days \<le> 1 then 0 else if days \<le> 3 then 1 else if days \<le> 7 then 2
     else if days \<le> 14 then 3 else if days \<le> 30 then 4 else 5)"
  by (simp add: steps_below_def band_cases BANDS_def)

lemma band_nearer: "band a = Some s \<Longrightarrow> band b = Some t \<Longrightarrow> s < t \<Longrightarrow> Suc (steps_below (Some s)) \<le> steps_below (Some t)"
  using steps_below_band [of a] steps_below_band [of b]
  by (auto simp: band_cases split: if_splits)

lemma steps_below_mono: "a \<le> b \<Longrightarrow> steps_below (band a) \<le> steps_below (band b)"
  by (simp add: steps_below_band)

lemma due_steps:
  assumes "due x e now i d" "ev_repeat e = Countdown days" "case x of None \<Rightarrow> True | Some p \<Rightarrow> \<exists>D. pr_band p = band D"
  shows "Suc (steps_below (band days)) \<le> (case x of None \<Rightarrow> 5 | Some p \<Rightarrow> steps_below (pr_band p))"
proof -
  obtain step where st: "band days = Some step" using assms(1,2) by (auto simp: due_def split: option.splits)
  have le: "steps_below (band days) \<le> 4"
    using st unfolding steps_below_band by (simp add: band_cases split: if_splits)
  show ?thesis
  proof (cases x)
    case (Some p)
    show ?thesis
    proof (cases "pr_band p")
      case None
      then show ?thesis using Some le by (simp add: steps_below_def BANDS_def)
    next
      case had: (Some h)
      obtain D where "band D = Some h" using assms(3) Some had by auto
      moreover have "step < h" using assms(1,2) Some had st by (simp add: due_def)
      ultimately show ?thesis using band_nearer [OF st] Some had st by simp
    qed
  qed (use le in simp)
qed

lemma countdown_bounded:
  assumes "wf_records (ps_records s)" "\<forall>c \<in> set cs. counts_down k c" "sorted_wrt (\<ge>) (descending_for k cs)"
    and "case rec_get (ps_records s) (fst k) (snd k) of None \<Rightarrow> True
       | Some p \<Rightarrow> \<exists>D. pr_band p = band D \<and> (\<forall>x \<in> set (descending_for k cs). x \<le> D)"
  shows "length (announced_at k (fst (prun w cmp i cs s)))
    \<le> (case rec_get (ps_records s) (fst k) (snd k) of None \<Rightarrow> 5 | Some p \<Rightarrow> steps_below (pr_band p))"
  using assms
proof (induction cs arbitrary: s)
  case (Cons c cs)
  let ?x = "rec_get (ps_records s) (fst k) (snd k)"
  obtain a s' where step: "pstep w cmp i c s = (a, s')" by fastforce
  have run: "announced_at k (fst (prun w cmp i (c # cs) s)) = announced_at k a @ announced_at k (fst (prun w cmp i cs s'))"
    by (simp add: step split_beta announced_at_append)
  have wf': "wf_records (ps_records s')"
    using Cons.prems(1,2) step wf_raise [OF Cons.prems(1)] wf_resolve_all [OF Cons.prems(1)] wf_resolve_one [OF Cons.prems(1)]
    by (cases c) (auto simp: split_beta)
  show ?case
  proof (cases "\<exists>e now d. c = PRaise e now d \<and> (ev_event e, ev_subject e) = k")
    case True
    then obtain e now d where c: "c = PRaise e now d" and k: "(ev_event e, ev_subject e) = k" by blast
    obtain days where days: "ev_repeat e = Countdown days" using Cons.prems(2) c k by (cases "ev_repeat e") auto
    have ds: "descending_for k (c # cs) = days # descending_for k cs" using c k days by simp
    have s': "s' = snd (raise w e cmp now i d s)"
      "a = (if fst (raise w e cmp now i d s) then [(ev_event e, ev_subject e, now)] else [])"
      using step c by (auto simp: split_beta)
    have due: "fst (raise w e cmp now i d s) = due ?x e now i d" using k by (auto simp: raise_def Let_def)
    have x': "rec_get (ps_records s') (fst k) (snd k) = Some (raised ?x e cmp now i d)"
      "pr_band (raised ?x e cmp now i d) = band days"
      using k days by (auto simp: s' rec_get_raise raised_def)
    have "length (announced_at k (fst (prun w cmp i cs s'))) \<le> steps_below (band days)"
      using Cons.IH [OF wf'] Cons.prems(2,3) x' ds by auto
    moreover have "length (announced_at k a) \<le> (if due ?x e now i d then 1 else 0)"
      by (simp add: s'(2) due announced_at_def)
    moreover have "Suc (steps_below (band days)) \<le> (case ?x of None \<Rightarrow> 5 | Some p \<Rightarrow> steps_below (pr_band p))" if "due ?x e now i d"
      by (rule due_steps [OF that days]) (use Cons.prems(4) in \<open>auto split: option.splits\<close>)
    moreover have "steps_below (band days) \<le> (case ?x of None \<Rightarrow> 5 | Some p \<Rightarrow> steps_below (pr_band p))"
      using Cons.prems(4) ds by (auto simp: steps_below_mono steps_below_band split: option.splits)
    ultimately show ?thesis unfolding run by (auto split: if_splits)
  next
    case False
    have a: "announced_at k a = []" using step False
      by (cases c) (auto simp: announced_at_def split_beta split: if_splits)
    have ds: "descending_for k (c # cs) = descending_for k cs"
      using False by (cases c) (auto split: repeat.split)
    have x': "map_option pr_band (rec_get (ps_records s') (fst k) (snd k)) = map_option pr_band ?x"
      using step False Cons.prems(2)
      by (cases c; cases k) (auto simp: split_beta rec_get_raise rec_get_resolve_all [OF Cons.prems(1)]
          rec_get_resolve_one [OF Cons.prems(1)] option.map_comp comp_def)
    have "length (announced_at k (fst (prun w cmp i cs s')))
        \<le> (case rec_get (ps_records s') (fst k) (snd k) of None \<Rightarrow> 5 | Some p \<Rightarrow> steps_below (pr_band p))"
      by (rule Cons.IH [OF wf']) (use Cons.prems x' ds in \<open>auto split: option.splits\<close>)
    then show ?thesis using x' unfolding run a by (auto split: option.splits)
  qed
qed (simp add: announced_at_def)

section \<open>What the problem list promises\<close>

abbreviation fresh :: "'f \<Rightarrow> 'f problems" where
  "fresh f \<equiv> \<lparr>ps_dir = Some f, ps_records = []\<rparr>"

lemma good_fresh: "files f = Map.empty \<Longrightarrow> good w files K (fresh f)"
  by (simp add: good_def wf_records_def keys_def mirrors_def)

text \<open>Fact (KB_ProblemsSound.rate_limit_survives_restarts): on a working directory that starts
  empty, and with the clock not running backwards, a condition that is only ever raised as
  persisting is announced at most once per repeat interval, whatever is raised, resolved and
  restarted in between. The file names of the raised problems are assumed distinct, because the
  names hold a 64-bit hash of the subject.\<close>

theorem rate_limit_survives_restarts:
  assumes "healthy_disk w files" "files f = Map.empty"
    and "distinct_names (\<Union>c \<in> set cs. call_keys c)"
    and "\<forall>c \<in> set cs. persists k c"
    and "sorted (concat (map call_times cs))"
  shows "sorted_wrt (\<lambda>a b. a + interval \<le> b)
    (announced_at k (fst (prun w component interval cs (fresh f))))"
proof -
  have "sorted_wrt (\<lambda>a b. a + interval \<le> b)
      ([] @ announced_at k (fst (prun w component interval cs (fresh f))))"
    by (rule healthy_disk.rate_limited
        [OF assms(1) good_fresh [where K = "\<Union>c \<in> set cs. call_keys c"] assms(3), where clock = 0])
      (use assms(2,4,5) in auto)
  then show ?thesis by simp
qed

definition sample_event :: "repeat \<Rightarrow> notify_event" where
  "sample_event r = \<lparr>ev_event = lit ''e'', ev_severity = Error, ev_subject = [], ev_message = lit ''m'',
     ev_detail = [], ev_repeat = r, ev_kind = Condition\<rparr>"

definition flapping :: "pcall list" where
  "flapping = [PRaise (sample_event Persisting) 10 True, PResolve (lit ''e''), PRestart 20,
     PRaise (sample_event Persisting) 30 True, PRaise (sample_event Persisting) 120 True]"

theorem rate_limit_survives_restarts_witness:
  "sorted_wrt (\<lambda>a b. a + 100 \<le> b)
     (announced_at (lit ''e'', []) (fst (prun plain_disk (lit ''sync'') 100 flapping (fresh []))))"
proof (rule rate_limit_survives_restarts [OF plain.healthy_disk_axioms])
  show "distinct_names (\<Union>c \<in> set flapping. call_keys c)"
    by (simp add: distinct_names_def flapping_def)
qed (simp_all add: plain_files_def flapping_def sample_event_def)

lemma flapping_announced:
  "announced_at (lit ''e'', []) (fst (prun plain_disk (lit ''sync'') 100 flapping (fresh []))) = [10, 120]"
  by (simp add: flapping_def sample_event_def raise_def due_def raised_def store_def rec_get_def rec_put_def
      subjects_of_def plain_disk_def write_atomically_def file_name_def plain_put_def resolve_all_def closed_def
      load_def load_entry_def is_state_file_def ends_in_def starts_with_def prunable_def announced_at_def kb_lits)

text \<open>Fact (KB_ProblemsSound.problem_files_are_open_problems): on a working directory that starts
  empty, after any sequence of raises, resolutions and restarts, the \<open>problem-\<close> files are
  exactly the open problems, each holding its record, and every other state file is a closed
  record. A reader that counts \<open>problem-\<close> names counts what is wrong.\<close>

theorem problem_files_are_open_problems:
  assumes "healthy_disk w files" "files f = Map.empty"
    and "distinct_names (\<Union>c \<in> set cs. call_keys c)"
    and "is_state_file n"
    and "ps_dir (snd (prun w component interval cs (fresh f))) = Some f'"
  shows "files f' n = Some b \<longleftrightarrow>
    (\<exists>ev su p. rec_get (ps_records (snd (prun w component interval cs (fresh f)))) ev su = Some p
       \<and> pr_event p = ev \<and> pr_subject p = su \<and> pr_open p = starts_with n (lit ''problem-'')
       \<and> n = file_name (pr_open p) ev su \<and> b = js_out w p)"
proof -
  let ?s = "snd (prun w component interval cs (fresh f))"
  have g: "good w files (\<Union>c \<in> set cs. call_keys c) ?s"
    by (rule healthy_disk.good_run [OF assms(1) good_fresh [where files = files and f = f, OF assms(2)] assms(3)]) auto
  then have iff: "files f' n = Some b \<longleftrightarrow>
      (\<exists>ev su p. rec_get (ps_records ?s) ev su = Some p \<and> n = fname p \<and> b = js_out w p)"
    using assms(4,5) unfolding good_def mirrors_def by blast
  have "(rec_get (ps_records ?s) ev su = Some p \<and> n = fname p \<and> b = js_out w p) \<longleftrightarrow>
      (rec_get (ps_records ?s) ev su = Some p \<and> pr_event p = ev \<and> pr_subject p = su
        \<and> pr_open p = starts_with n (lit ''problem-'') \<and> n = file_name (pr_open p) ev su \<and> b = js_out w p)" for ev su p
    using good_get(1) [OF g, of ev su p] by (auto simp: key_def file_class)
  then show ?thesis unfolding iff by simp
qed

theorem problem_files_are_open_problems_witness:
  "\<exists>f'. ps_dir (snd (prun plain_disk (lit ''sync'') 100 flapping (fresh []))) = Some f'
     \<and> (\<forall>b. plain_files f' (lit ''problem-e.json'') = Some b \<longleftrightarrow>
    (\<exists>ev su p. rec_get (ps_records (snd (prun plain_disk (lit ''sync'') 100 flapping (fresh [])))) ev su = Some p
       \<and> pr_event p = ev \<and> pr_subject p = su \<and> pr_open p = starts_with (lit ''problem-e.json'') (lit ''problem-'')
       \<and> lit ''problem-e.json'' = file_name (pr_open p) ev su \<and> b = js_out plain_disk p))"
proof -
  have "ps_dir (snd (prun plain_disk c 100 cs s)) \<noteq> None" if "ps_dir s \<noteq> None" for c cs s
    using that plain.step_dir by (induction cs arbitrary: s) (simp_all add: split_beta del: not_None_eq)
  from this [of "fresh []"] obtain f' where
    f': "ps_dir (snd (prun plain_disk (lit ''sync'') 100 flapping (fresh []))) = Some f'" by fastforce
  have "\<forall>b. plain_files f' (lit ''problem-e.json'') = Some b \<longleftrightarrow>
    (\<exists>ev su p. rec_get (ps_records (snd (prun plain_disk (lit ''sync'') 100 flapping (fresh [])))) ev su = Some p
       \<and> pr_event p = ev \<and> pr_subject p = su \<and> pr_open p = starts_with (lit ''problem-e.json'') (lit ''problem-'')
       \<and> lit ''problem-e.json'' = file_name (pr_open p) ev su \<and> b = js_out plain_disk p)"
    by (rule allI, rule problem_files_are_open_problems [OF plain.healthy_disk_axioms _ _ _ f'])
      (simp_all add: plain_files_def distinct_names_def flapping_def is_state_file_def ends_in_def starts_with_def kb_lits)
  then show ?thesis using f' by blast
qed

text \<open>Fact (KB_ProblemsSound.state_files_never_torn): whichever file operations fail, and whenever,
  every \<open>problem-\<close> or \<open>recent-\<close> file a reader can open holds one complete record: a write that
  fails half way leaves its temporary file behind and the state file as it was.\<close>

theorem state_files_never_torn:
  assumes "disk w files" "ps_dir s = Some f0" "\<And>n b. is_state_file n \<Longrightarrow> files f0 n = Some b \<Longrightarrow> b \<in> range (js_out w)"
    and "ps_dir (snd (prun w component interval cs s)) = Some f" "is_state_file n" "files f n = Some b"
  shows "\<exists>p. b = js_out w p"
proof -
  have "whole_state w files s" using assms(2,3) by (simp add: whole_state_def whole_def)
  from disk.whole_run [OF assms(1) this] assms(4-6) show ?thesis
    unfolding whole_state_def whole_def by blast
qed

definition broken_write :: torn where
  "broken_write = \<lparr>tn_files = [], tn_ops = 0, tn_faults = (\<lambda>n. n = 5)\<rparr>"

theorem state_files_never_torn_witness: "\<exists>p. lit ''m'' = js_out (torn_disk pr_message (\<lambda>_. None)) p"
proof (rule state_files_never_torn [OF torn.disk_axioms])
  show "ps_dir \<lparr>ps_dir = Some broken_write, ps_records = []\<rparr> = Some broken_write" by simp
  let ?s = "snd (prun (torn_disk pr_message (\<lambda>_. None)) (lit ''sync'') 100
    [PRaise (sample_event Persisting) 1 True, PRaise (sample_event Persisting) 2 True] \<lparr>ps_dir = Some broken_write, ps_records = []\<rparr>)"
  have "ps_dir ?s = Some (the (ps_dir ?s)) \<and> map_of (tn_files (the (ps_dir ?s))) (lit ''problem-e.json'') = Some (lit ''m'')"
    by (simp add: sample_event_def raise_def due_def raised_def store_def rec_get_def rec_put_def subjects_of_def Let_def
        torn_disk_def torn_next_def broken_write_def without_def write_atomically_def file_name_def kb_lits)
  then show "ps_dir ?s = Some (the (ps_dir ?s))" "map_of (tn_files (the (ps_dir ?s))) (lit ''problem-e.json'') = Some (lit ''m'')"
    by simp_all
qed (simp_all add: broken_write_def is_state_file_def ends_in_def starts_with_def kb_lits)

text \<open>Fact (KB_ProblemsSound.countdown_five_at_most): while a deadline only comes nearer, and the
  process is not restarted, a countdown is announced at most five times, once per step of the
  schedule, however often it is raised and resolved.\<close>

theorem countdown_five_at_most:
  assumes "\<forall>c \<in> set cs. counts_down k c" "sorted_wrt (\<ge>) (descending_for k cs)"
  shows "length (announced_at k (fst (prun w component interval cs \<lparr>ps_dir = d, ps_records = []\<rparr>))) \<le> length BANDS"
  using countdown_bounded [where s = "\<lparr>ps_dir = d, ps_records = []\<rparr>" and w = w and cmp = component and i = interval, OF _ assms]
  by (simp add: wf_records_def BANDS_def)

theorem countdown_five_at_most_witness:
  "length (announced_at (lit ''e'', []) (fst (prun plain_disk (lit ''sync'') 100
     (map (\<lambda>d. PRaise (sample_event (Countdown d)) 1 True) [30, 29, 7, 7, 0]) \<lparr>ps_dir = None, ps_records = []\<rparr>))) \<le> length BANDS"
  by (rule countdown_five_at_most) (simp_all add: sample_event_def)

text \<open>Fact (KB_ProblemsSound.rotation_does_not_rearm): after a countdown has been announced in a step,
  resolving its problem does not disarm that step: when the next deadline enters the same step
  or a farther one, nothing is announced, whatever time has passed.\<close>

theorem rotation_does_not_rearm:
  assumes "wf_records (ps_records s)"
    and "ev_event e' = ev_event e" "ev_subject e' = ev_subject e"
    and "ev_repeat e = Countdown days" "ev_repeat e' = Countdown days'"
    and "band days = Some step" "band days' = Some step'" "step \<le> step'"
  shows "\<not> fst (raise w e' component later interval True
    (snd (resolve_one w (ev_event e) (ev_subject e) (snd (raise w e component now interval deliverable s)))))"
proof -
  let ?r = "raised (rec_get (ps_records s) (ev_event e) (ev_subject e)) e component now interval deliverable"
  have "rec_get (ps_records (snd (resolve_one w (ev_event e) (ev_subject e) (snd (raise w e component now interval deliverable s)))))
      (ev_event e') (ev_subject e') = Some (closed ?r)"
    using assms(2,3) by (simp add: rec_get_resolve_one wf_raise assms(1) rec_get_raise)
  moreover have "pr_band (closed ?r) = Some step" using assms(4,6) by (simp add: raised_def)
  ultimately show ?thesis
    using assms(5,7,8) by (simp add: raise_def Let_def due_def)
qed

theorem rotation_does_not_rearm_witness:
  "\<not> fst (raise plain_disk (sample_event (Countdown 30)) (lit ''sync'') 31536000 86400 True
    (snd (resolve_one plain_disk (lit ''e'') [] (snd (raise plain_disk (sample_event (Countdown 1)) (lit ''sync'') 0 86400 True (fresh []))))))"
  using rotation_does_not_rearm [where s = "fresh []" and e = "sample_event (Countdown 1)" and e' = "sample_event (Countdown 30)"
      and w = plain_disk and component = "lit ''sync''" and now = 0 and later = 31536000 and interval = 86400 and deliverable = True]
  by (simp add: sample_event_def wf_records_def band_cases)

text \<open>Fact (KB_ProblemsSound.muted_step_is_spent): a countdown raised below the severity floor, or
  with no channel, still moves the recorded step, so the first deliverable raise inside the
  same step is not announced.\<close>

lemma muted_step_is_spent:
  assumes "ev_event e' = ev_event e" "ev_subject e' = ev_subject e"
    and "ev_repeat e = Countdown days" "ev_repeat e' = Countdown days'" "band days = Some step" "band days' = Some step"
  shows "\<not> fst (raise w e' component later interval True (snd (raise w e component now interval False s)))"
  using assms by (simp add: raise_def Let_def rec_get_put due_def raised_def)

text \<open>Fact (KB_ProblemsSound.since_survives_resolution): a condition that is resolved and raised
  again keeps the time of its first raise, so the time its recovery reports counts the healthy
  interval too.\<close>

lemma since_survives_resolution:
  assumes "wf_records (ps_records s)" "rec_get (ps_records s) (ev_event e) (ev_subject e) = Some p"
  shows "\<exists>q. rec_get (ps_records (snd (raise w e component now interval d (snd (resolve_all w (ev_event e) s)))))
      (ev_event e) (ev_subject e) = Some q \<and> pr_since q = pr_since p"
  using assms by (simp add: rec_get_raise rec_get_resolve_all raised_def)

text \<open>Fact (KB_ProblemsSound.resolve_closes_event): resolving an event hands back each of its open
  problems once and leaves none of them open; every other event is untouched.\<close>

lemma resolve_closes_event:
  assumes "wf_records (ps_records s)"
  shows "set (fst (resolve_all w ev s)) = closed ` {p. \<exists>su. rec_get (ps_records s) ev su = Some p \<and> pr_open p}"
    and "rec_get (ps_records (snd (resolve_all w ev s))) ev su = Some p \<Longrightarrow> \<not> pr_open p"
    and "ev' \<noteq> ev \<Longrightarrow> rec_get (ps_records (snd (resolve_all w ev s))) ev' su = rec_get (ps_records s) ev' su"
proof -
  have "set (opened (ps_records s) ev) = {p. \<exists>su. rec_get (ps_records s) ev su = Some p \<and> pr_open p}"
    using opened_get [OF assms] opened_mem [OF assms] by blast
  moreover have "map_of (ps_records s) ev = None \<Longrightarrow> opened (ps_records s) ev = []"
    by (simp add: opened_def subjects_of_def)
  ultimately show "set (fst (resolve_all w ev s)) = closed ` {p. \<exists>su. rec_get (ps_records s) ev su = Some p \<and> pr_open p}"
    by (auto simp: resolve_all_alt)
qed (auto simp: rec_get_resolve_all [OF assms])

end
