(* ===== verification/KB_Notify.thy ===== *)
theory KB_Notify
  imports KB_ProblemsSound KB_Time
begin

text \<open>
  The notifier: \<open>kerbridge-notify/src/template.rs\<close> and \<open>lib.rs\<close>. A template is split into
  literals and placeholders and rendered with every value passed through the JSON string
  escaper; an event is recorded, judged against the severity floor and the repeat policy, and
  posted.

  \<open>serde_json\<close> is a parameter: \<open>js\<close> is its string serializer and \<open>json_ok\<close> its parser, with the
  documented behaviour as the locale \<open>serde\<close>. The reading of JSON text they are measured
  against is the lexical grammar of RFC 8259, written out as \<open>jlex\<close>. What a webhook answers is
  ignored by the code, so a post is its body.
\<close>

section \<open>Templates\<close>

datatype field = FEvent | FSeverity | FComponent | FRealm | FTimestamp | FMessage | FDetail | FIcon

definition ALL_FIELDS :: "(str \<times> field) list" where
  "ALL_FIELDS = [(lit ''EVENT'', FEvent), (lit ''SEVERITY'', FSeverity), (lit ''COMPONENT'', FComponent),
     (lit ''REALM'', FRealm), (lit ''TIMESTAMP'', FTimestamp), (lit ''MESSAGE'', FMessage),
     (lit ''DETAIL'', FDetail), (lit ''ICON'', FIcon)]"

definition field_lookup :: "str \<Rightarrow> field option" where
  "field_lookup name = map_option snd (find (\<lambda>x. fst x = name) ALL_FIELDS)"

record vals =
  v_event :: str
  v_severity :: str
  v_component :: str
  v_realm :: str
  v_timestamp :: str
  v_message :: str
  v_detail :: str
  v_icon :: str

fun vals_get :: "vals \<Rightarrow> field \<Rightarrow> str" where
  "vals_get v FEvent = v_event v"
| "vals_get v FSeverity = v_severity v"
| "vals_get v FComponent = v_component v"
| "vals_get v FRealm = v_realm v"
| "vals_get v FTimestamp = v_timestamp v"
| "vals_get v FMessage = v_message v"
| "vals_get v FDetail = v_detail v"
| "vals_get v FIcon = v_icon v"

datatype part = Literal str | PField field

datatype notify_error =
    UnknownPlaceholder str
  | NotJson
  | BadSeverity str
  | SecretUnreadable
  | NotAUrl
  | PlainHttp str
  | BadScheme str
  | NoChannel
  | ClientFailed
  | PostFailed

definition is_placeholder :: "str \<Rightarrow> bool" where
  "is_placeholder name \<longleftrightarrow> name \<noteq> []
     \<and> list_all (\<lambda>b. (65 \<le> b \<and> b \<le> 90) \<or> is_ascii_digit b \<or> b = c_under) name"

function parts_from :: "str \<Rightarrow> str \<Rightarrow> notify_error + part list" where
  "parts_from literal rest =
     (case split_once c_percent rest of
        None \<Rightarrow> Inr (if literal @ rest = [] then [] else [Literal (literal @ rest)])
      | Some (pre, after) \<Rightarrow>
          (case split_once c_percent after of
             Some (name, tail) \<Rightarrow>
               if is_placeholder name
               then (case field_lookup name of
                       None \<Rightarrow> Inl (UnknownPlaceholder name)
                     | Some f \<Rightarrow> rbind (parts_from [] tail) (\<lambda>ps.
                         Inr ((if literal @ pre = [] then [] else [Literal (literal @ pre)]) @ PField f # ps)))
               else parts_from (literal @ pre @ [c_percent]) after
           | None \<Rightarrow> parts_from (literal @ pre @ [c_percent]) after))"
  by auto

termination
proof (relation "measure (length \<circ> snd)")
qed (auto dest!: split_once_Some)

declare parts_from.simps [simp del]

definition parts :: "str \<Rightarrow> notify_error + part list" where
  "parts raw = parts_from [] raw"

definition escape :: "(str \<Rightarrow> str) \<Rightarrow> str \<Rightarrow> str" where
  "escape js v = (let quoted = js v in take (length quoted - 2) (drop 1 quoted))"

definition render :: "(str \<Rightarrow> str) \<Rightarrow> part list \<Rightarrow> vals \<Rightarrow> str" where
  "render js ps v = concat (map (\<lambda>p. case p of Literal t \<Rightarrow> t | PField f \<Rightarrow> escape js (vals_get v f)) ps)"

definition HOSTILE :: str where
  "HOSTILE = lit ''a'' @ [c_dquote] @ lit ''b'' @ [c_bslash] @ lit ''c'' @ [10] @ lit ''d'' @ [7] @ lit ''e''"

definition hostile_vals :: vals where
  "hostile_vals = \<lparr>v_event = HOSTILE, v_severity = HOSTILE, v_component = HOSTILE, v_realm = HOSTILE,
     v_timestamp = HOSTILE, v_message = HOSTILE, v_detail = HOSTILE, v_icon = HOSTILE\<rparr>"

definition template_parse :: "(str \<Rightarrow> str) \<Rightarrow> (str \<Rightarrow> bool) \<Rightarrow> str \<Rightarrow> notify_error + part list" where
  "template_parse js json_ok raw =
     rbind (parts raw) (\<lambda>ps. if json_ok (render js ps hostile_vals) then Inr ps else Inl NotJson)"

definition part_text :: "part \<Rightarrow> str" where
  "part_text p = (case p of
       Literal t \<Rightarrow> t
     | PField f \<Rightarrow> [c_percent] @ (case find (\<lambda>x. snd x = f) ALL_FIELDS of Some (n, _) \<Rightarrow> n | None \<Rightarrow> []) @ [c_percent])"

lemma part_text_literal [simp]: "part_text (Literal t) = t"
  by (simp add: part_text_def)

lemma field_lookup_text: "field_lookup name = Some f \<Longrightarrow> part_text (PField f) = [c_percent] @ name @ [c_percent]"
  by (auto simp: field_lookup_def part_text_def ALL_FIELDS_def split: if_splits)

lemma parts_from_text: "parts_from literal rest = Inr ps \<Longrightarrow> concat (map part_text ps) = literal @ rest"
proof (induction literal rest arbitrary: ps rule: parts_from.induct)
  case (1 literal rest)
  show ?case
  proof (cases "split_once c_percent rest")
    case None
    then show ?thesis
      using "1.prems" unfolding parts_from.simps [of literal rest] by (auto simp: part_text_def split: if_splits)
  next
    case (Some pa)
    obtain pre after where pa: "pa = (pre, after)" by (cases pa)
    have rest: "rest = pre @ c_percent # after" using Some pa split_once_Some by metis
    show ?thesis
    proof (cases "\<exists>name tail. split_once c_percent after = Some (name, tail) \<and> is_placeholder name")
      case True
      then obtain name tail where nt: "split_once c_percent after = Some (name, tail)" "is_placeholder name" by blast
      have after: "after = name @ c_percent # tail" using nt(1) split_once_Some by metis
      obtain f qs where f: "field_lookup name = Some f" and qs: "parts_from [] tail = Inr qs"
        and ps: "ps = (if literal @ pre = [] then [] else [Literal (literal @ pre)]) @ PField f # qs"
        using "1.prems" Some pa nt unfolding parts_from.simps [of literal rest]
        by (auto simp: rbind_def split: option.splits sum.splits)
      have "concat (map part_text qs) = tail"
        using "1.IH"(2) [OF Some pa [symmetric] nt(1) refl nt(2) f] qs by (simp add: pa)
      then show ?thesis
        using ps rest after field_lookup_text [OF f] by auto
    next
      case False
      then have step: "parts_from literal rest = parts_from (literal @ pre @ [c_percent]) after"
        using Some pa unfolding parts_from.simps [of literal rest] by (auto split: option.splits)
      have "concat (map part_text ps) = (literal @ pre @ [c_percent]) @ after"
      proof (cases "split_once c_percent after")
        case None
        then show ?thesis using "1.IH"(1) [OF Some pa [symmetric] None] "1.prems" step by simp
      next
        case (Some nt)
        obtain name tail where "nt = (name, tail)" by (cases nt)
        then show ?thesis
          using "1.IH"(3) [OF \<open>split_once c_percent rest = Some pa\<close> pa [symmetric] Some] False Some "1.prems" step by auto
      qed
      then show ?thesis using rest by simp
    qed
  qed
qed

text \<open>Fact (KB_Notify.parts_text): splitting a template loses nothing: writing the parts back gives
  the template.\<close>

lemma parts_text: "parts raw = Inr ps \<Longrightarrow> concat (map part_text ps) = raw"
  unfolding parts_def using parts_from_text [of "[]" raw ps] by simp

section \<open>JSON text\<close>

datatype jst = Out | InStr | Esc | Hex nat nat
datatype jtok = Punct uchar | Opening | Closing | Chr nat

definition OUTSIDE :: "uchar list" where
  "OUTSIDE = lit ''{}[]:, 0123456789+-.eEtrufalsn'' @ [9, 10, 13]"

definition hex_value :: "uchar \<Rightarrow> nat" where
  "hex_value c = (if c \<le> 57 then c - 48 else if c \<le> 70 then c - 55 else c - 87)"

fun jstep :: "jst \<Rightarrow> uchar \<Rightarrow> (jst \<times> jtok list) option" where
  "jstep Out c = (if c = c_dquote then Some (InStr, [Opening])
     else if c \<in> set OUTSIDE then Some (Out, [Punct c]) else None)"
| "jstep InStr c = (if c = c_dquote then Some (Out, [Closing]) else if c = c_bslash then Some (Esc, [])
     else if c < 32 then None else Some (InStr, [Chr c]))"
| "jstep Esc c = (if c = c_dquote \<or> c = c_bslash \<or> c = c_slash then Some (InStr, [Chr c])
     else if c = 98 then Some (InStr, [Chr 8]) else if c = 102 then Some (InStr, [Chr 12])
     else if c = 110 then Some (InStr, [Chr 10]) else if c = 114 then Some (InStr, [Chr 13])
     else if c = 116 then Some (InStr, [Chr 9]) else if c = 117 then Some (Hex 4 0, []) else None)"
| "jstep (Hex n v) c = (if is_ascii_hexdigit c
     then Some (if n \<le> 1 then (InStr, [Chr (16 * v + hex_value c)]) else (Hex (n - 1) (16 * v + hex_value c), []))
     else None)"

fun jlex :: "jst \<Rightarrow> str \<Rightarrow> (jst \<times> jtok list) option" where
  "jlex st [] = Some (st, [])"
| "jlex st (c # cs) = (case jstep st c of None \<Rightarrow> None
     | Some (st', ts) \<Rightarrow> map_option (apsnd ((@) ts)) (jlex st' cs))"

lemma jlex_append: "jlex st (s @ t) = (case jlex st s of None \<Rightarrow> None
     | Some (st', ts) \<Rightarrow> map_option (apsnd ((@) ts)) (jlex st' t))"
proof (induction s arbitrary: st)
  case (Cons c s)
  then show ?case
    by (cases "jstep st c") (auto split: option.splits simp: option.map_comp comp_def apsnd_def map_prod_def split_def)
qed (simp add: option.map_id apsnd_def map_prod_def)

text \<open>
  What the code relies on of \<open>serde_json\<close>: a string is written between quotes, character by
  character, a character that JSON does not reserve as itself and every other one as an escape
  of it; and the parser accepts only text that is lexically JSON.
\<close>

definition plain_char :: "uchar \<Rightarrow> bool" where
  "plain_char c \<longleftrightarrow> 32 \<le> c \<and> c \<noteq> c_dquote \<and> c \<noteq> c_bslash"

locale serde =
  fixes js :: "str \<Rightarrow> str" and esc :: "uchar \<Rightarrow> str" and json_ok :: "str \<Rightarrow> bool"
  assumes quoted: "js v = [c_dquote] @ concat (map esc v) @ [c_dquote]"
    and raw: "plain_char c \<Longrightarrow> esc c = [c]"
    and escaped: "\<not> plain_char c \<Longrightarrow> \<exists>t. esc c = c_bslash # t \<and> jlex InStr (esc c) = Some (InStr, [Chr c])"
    and accepted: "json_ok s \<Longrightarrow> \<exists>ts. jlex Out s = Some (Out, ts)"
begin

lemma escape_concat: "escape js v = concat (map esc v)"
  by (simp add: escape_def quoted)

lemma jlex_esc: "jlex InStr (esc c) = Some (InStr, [Chr c])"
  using raw [of c] escaped [of c] by (cases "plain_char c") (auto simp: plain_char_def)

lemma jlex_escape: "jlex InStr (escape js v) = Some (InStr, map Chr v)"
  unfolding escape_concat by (induction v) (simp_all add: jlex_append jlex_esc)

lemma escape_hostile: "\<exists>t. escape js HOSTILE = 97 # c_bslash # t"
proof -
  obtain t where "esc c_dquote = c_bslash # t" using escaped [of c_dquote] by (auto simp: plain_char_def)
  moreover have "esc 97 = [97]" by (rule raw) (simp add: plain_char_def)
  ultimately show ?thesis by (simp add: escape_concat HOSTILE_def kb_lits)
qed

lemma hostile_inside:
  assumes "jlex st (escape js HOSTILE) \<noteq> None"
  shows "st = InStr \<or> (\<exists>n v. st = Hex n v \<and> n \<le> 1)"
proof -
  obtain t where t: "escape js HOSTILE = 97 # c_bslash # t" using escape_hostile by blast
  show ?thesis using assms unfolding t
    by (cases st) (auto simp: OUTSIDE_def kb_lits is_ascii_hexdigit_def is_ascii_digit_def split: if_splits)
qed

end

section \<open>The body cannot be reshaped\<close>

lemma jlex_hex_end:
  assumes "jlex st l = Some (Hex n v, ts)" "st = Out \<or> st = InStr" "n \<le> 1"
  shows "\<exists>p a b c. l = p @ [c_bslash, 117, a, b, c]"
proof -
  have "\<exists>p xs. l = p @ [c_bslash, 117] @ xs \<and> length xs + n = 4 \<and> n \<ge> 1"
    if "jlex st l = Some (Hex n v, ts)" for n v ts l
    using that
  proof (induction l arbitrary: n v ts rule: rev_induct)
    case Nil
    then show ?case using assms(2) by auto
  next
    case (snoc x l)
    obtain st' ts' ts'' where st': "jlex st l = Some (st', ts')" "jstep st' x = Some (Hex n v, ts'')"
      using snoc.prems by (auto simp: jlex_append split: option.splits)
    show ?case
    proof (cases st')
      case Esc
      have "\<exists>p. l = p @ [c_bslash]"
        using st'(1) Esc assms(2)
      proof (induction l rule: rev_induct)
        case (snoc y l)
        then obtain st2 ts2 ts3 where "jlex st l = Some (st2, ts2)" "jstep st2 y = Some (Esc, ts3)"
          by (auto simp: jlex_append split: option.splits)
        then show ?case by (cases st2) (auto split: if_splits)
      qed auto
      moreover have "x = 117 \<and> n = 4" using st'(2) Esc by (auto split: if_splits)
      ultimately show ?thesis by auto
    next
      case (Hex m u)
      obtain p xs where "l = p @ [c_bslash, 117] @ xs" "length xs + m = 4" "m \<ge> 1"
        using snoc.IH [of m u ts'] st'(1) Hex by blast
      moreover have "n = m - 1 \<and> 1 < m" using st'(2) Hex by (auto split: if_splits)
      ultimately show ?thesis by (intro exI [of _ p] exI [of _ "xs @ [x]"]) auto
    qed (use st'(2) in \<open>auto split: if_splits\<close>)
  qed
  from this [OF assms(1)] obtain p xs where p: "l = p @ [c_bslash, 117] @ xs" "length xs + n = 4" "n \<ge> 1" by blast
  then have "length xs = 3" using assms(3) by simp
  then obtain a b c where "xs = [a, b, c]" by (auto simp: length_Suc_conv numeral_3_eq_3)
  then show ?thesis using p(1) by auto
qed

definition ends_in_hex :: "part \<Rightarrow> bool" where
  "ends_in_hex p = (case p of
       Literal l \<Rightarrow> 5 \<le> length l \<and> l ! (length l - 5) = c_bslash \<and> l ! (length l - 4) = 117
     | PField _ \<Rightarrow> False)"

text \<open>What a template comes to as JSON: fixed tokens, and values in fixed places.\<close>

datatype slot = Fixed "jtok list" | Value field

fun fill :: "vals \<Rightarrow> slot \<Rightarrow> jtok list" where
  "fill v (Fixed ts) = ts"
| "fill v (Value f) = map Chr (vals_get v f)"

context serde
begin

lemma render_Cons:
  "render js (p # ps) v = (case p of Literal t \<Rightarrow> t | PField f \<Rightarrow> escape js (vals_get v f)) @ render js ps v"
  by (simp add: render_def)

lemma hostile_get: "vals_get hostile_vals f = HOSTILE"
  by (cases f) (simp_all add: hostile_vals_def)

lemma hex_free_literal:
  assumes "\<not> ends_in_hex (Literal l)" "st = Out \<or> st = InStr" "jlex st l = Some (st', ts)"
  shows "\<not> (\<exists>n v. st' = Hex n v \<and> n \<le> 1)"
proof
  assume "\<exists>n v. st' = Hex n v \<and> n \<le> 1"
  then obtain p a b c where "l = p @ [c_bslash, 117, a, b, c]"
    using jlex_hex_end assms(2,3) by blast
  then show False using assms(1) by (simp add: ends_in_hex_def nth_append)
qed

text \<open>The state before each part: either a placeholder comes next and the text is inside a string, or
  a literal comes next.\<close>

lemma skeleton_exists:
  assumes "jlex st (render js ps hostile_vals) = Some (Out, ts)"
    and "\<And>p. p \<in> set ps \<Longrightarrow> \<not> ends_in_hex p"
    and "\<And>n. n < length ps \<Longrightarrow> Suc n < length ps \<Longrightarrow> \<not> (\<exists>a b. ps ! n = Literal a \<and> ps ! Suc n = Literal b)"
    and "st = Out \<or> st = InStr \<or> (\<exists>f qs. ps = PField f # qs \<and> \<not> (\<exists>n v. st = Hex n v \<and> n \<le> 1)) \<or> ps = []"
  shows "\<exists>skel. \<forall>v. jlex st (render js ps v) = Some (Out, concat (map (fill v) skel))"
  using assms
proof (induction ps arbitrary: st ts)
  case Nil
  then show ?case by (intro exI [of _ "[]"]) (simp add: render_def)
next
  case (Cons p ps)
  have tail: "\<not> (\<exists>a b. ps ! n = Literal a \<and> ps ! Suc n = Literal b)" if "n < length ps" "Suc n < length ps" for n
    using Cons.prems(3) [of "Suc n"] that by simp
  show ?case
  proof (cases p)
    case (Literal l)
    obtain st' ts' ts'' where l: "jlex st l = Some (st', ts')" "jlex st' (render js ps hostile_vals) = Some (Out, ts'')"
      using Cons.prems(1) Literal by (auto simp: render_Cons jlex_append split: option.splits)
    have st: "st = Out \<or> st = InStr" using Cons.prems(4) Literal by auto
    have "st' = Out \<or> st' = InStr \<or> (\<exists>f qs. ps = PField f # qs \<and> \<not> (\<exists>n v. st' = Hex n v \<and> n \<le> 1)) \<or> ps = []"
    proof (cases ps)
      case qs: (Cons q qs)
      then obtain f where "q = PField f" using Cons.prems(3) [of 0] Literal by (cases q) auto
      then show ?thesis using hex_free_literal [OF _ st l(1)] Cons.prems(2) [of p] Literal qs by simp
    qed simp
    from Cons.IH [OF l(2) _ tail this] Cons.prems(2)
    obtain skel where skel: "\<forall>v. jlex st' (render js ps v) = Some (Out, concat (map (fill v) skel))" by auto
    show ?thesis using Literal l(1) skel
      by (intro exI [of _ "Fixed ts' # skel"]) (simp add: render_Cons jlex_append)
  next
    case (PField f)
    obtain st' ts' ts'' where f: "jlex st (escape js HOSTILE) = Some (st', ts')" "jlex st' (render js ps hostile_vals) = Some (Out, ts'')"
      using Cons.prems(1) PField by (auto simp: render_Cons jlex_append hostile_get split: option.splits)
    have st: "st = InStr" using hostile_inside [of st] f(1) Cons.prems(4) PField by auto
    then have "st' = InStr" using f(1) jlex_escape by simp
    with Cons.IH [OF f(2) _ tail] Cons.prems(2)
    obtain skel where skel: "\<forall>v. jlex InStr (render js ps v) = Some (Out, concat (map (fill v) skel))" by auto
    show ?thesis using PField st skel
      by (intro exI [of _ "Value f # skel"]) (simp add: render_Cons jlex_append jlex_escape)
  qed
qed

end

text \<open>No two literals are adjacent in what \<open>parts\<close> returns.\<close>

definition literals_apart :: "part list \<Rightarrow> bool" where
  "literals_apart ps \<longleftrightarrow> (\<forall>n. Suc n < length ps \<longrightarrow> \<not> (\<exists>a b. ps ! n = Literal a \<and> ps ! Suc n = Literal b))"

lemma literals_apart_field: "literals_apart ps \<Longrightarrow> literals_apart (PField f # ps)"
  unfolding literals_apart_def by (simp add: nth_Cons split: nat.split)

lemma literals_apart_lit_field: "literals_apart ps \<Longrightarrow> literals_apart (Literal l # PField f # ps)"
  unfolding literals_apart_def by (simp add: nth_Cons split: nat.split)

lemma parts_from_apart: "parts_from literal rest = Inr ps \<Longrightarrow> literals_apart ps"
proof (induction literal rest arbitrary: ps rule: parts_from.induct)
  case (1 literal rest)
  from "1.prems" show ?case
    unfolding parts_from.simps [of literal rest]
    by (auto simp: rbind_def literals_apart_field literals_apart_lit_field "1.IH" literals_apart_def [of "[]"]
        literals_apart_def [of "[Literal _]"] split: option.splits if_splits sum.splits)
qed

text \<open>The serializer as \<open>serde_json\<close> writes it, and the lexical check alone as the parser.\<close>

definition serde_esc :: "uchar \<Rightarrow> str" where
  "serde_esc c =
     (if c = c_dquote \<or> c = c_bslash then [c_bslash, c]
      else if c = 8 then [c_bslash, 98] else if c = 9 then [c_bslash, 116] else if c = 10 then [c_bslash, 110]
      else if c = 12 then [c_bslash, 102] else if c = 13 then [c_bslash, 114]
      else if c < 32 then [c_bslash, 117, 48, 48, hex_lower (c div 16), hex_lower (c mod 16)]
      else [c])"

definition serde_js :: "str \<Rightarrow> str" where
  "serde_js v = [c_dquote] @ concat (map serde_esc v) @ [c_dquote]"

definition lexical :: "str \<Rightarrow> bool" where
  "lexical s = (case jlex Out s of Some (Out, ts) \<Rightarrow> True | _ \<Rightarrow> False)"

lemma hex_lower_value: "d < 16 \<Longrightarrow> is_ascii_hexdigit (hex_lower d) \<and> hex_value (hex_lower d) = d"
  by (auto simp: hex_lower_def hex_value_def is_ascii_hexdigit_def is_ascii_digit_def)

interpretation serde_lex: serde serde_js serde_esc lexical
proof
  fix c assume "\<not> plain_char c"
  then consider "c < 32" | "c = c_dquote" | "c = c_bslash" by (auto simp: plain_char_def)
  then show "\<exists>t. serde_esc c = c_bslash # t \<and> jlex InStr (serde_esc c) = Some (InStr, [Chr c])"
  proof cases
    case 1
    then have "c div 16 < 16" "c mod 16 < 16" by auto
    then show ?thesis using 1 hex_lower_value [of "c div 16"] hex_lower_value [of "c mod 16"]
      by (auto simp: serde_esc_def is_ascii_hexdigit_def is_ascii_digit_def hex_value_def)
  qed (auto simp: serde_esc_def)
qed (auto simp: serde_js_def serde_esc_def plain_char_def lexical_def split: option.splits prod.splits jst.splits)

section \<open>The notifier\<close>

definition RECOVERED_ICON :: str where "RECOVERED_ICON = [9989]"

definition severity_icon :: "severity \<Rightarrow> str" where
  "severity_icon s = (case s of Info \<Rightarrow> [128309] | Warning \<Rightarrow> [128992] | Error \<Rightarrow> [128308])"

definition DEFAULT_TEMPLATE :: str where
  "DEFAULT_TEMPLATE = lit ''{'' @ [c_dquote] @ lit ''text'' @ [c_dquote] @ lit '':'' @ [c_dquote]
     @ lit ''%ICON% KerBridge %COMPONENT% on %REALM%'' @ [c_bslash] @ lit ''n%SEVERITY% %EVENT% at %TIMESTAMP%''
     @ [c_bslash] @ lit ''n%MESSAGE%'' @ [c_bslash] @ lit ''n%DETAIL%'' @ [c_dquote] @ lit ''}''"

definition event_new :: "str \<Rightarrow> severity \<Rightarrow> str \<Rightarrow> notify_event" where
  "event_new slug severity message = \<lparr>ev_event = slug, ev_severity = severity, ev_subject = [],
     ev_message = message, ev_detail = [], ev_repeat = Persisting, ev_kind = Condition\<rparr>"

definition incident :: "notify_event \<Rightarrow> notify_event" where "incident e = e\<lparr>ev_kind := Incident\<rparr>"
definition with_subject :: "str \<Rightarrow> notify_event \<Rightarrow> notify_event" where "with_subject subject e = e\<lparr>ev_subject := subject\<rparr>"
definition with_detail :: "str \<Rightarrow> notify_event \<Rightarrow> notify_event" where "with_detail detail e = e\<lparr>ev_detail := detail\<rparr>"
definition countdown :: "int \<Rightarrow> notify_event \<Rightarrow> notify_event" where "countdown days e = e\<lparr>ev_repeat := Countdown days\<rparr>"

record 'f notifier =
  nt_component :: str
  nt_realm :: str
  nt_min_severity :: severity
  nt_repeat_interval :: nat
  nt_problems :: "'f problems"
  nt_channel :: "part list option"

definition aggregate :: "str \<Rightarrow> str \<Rightarrow> str" where
  "aggregate detail summary = (if detail = [] then summary else detail @ [10] @ summary)"

definition post :: "(str \<Rightarrow> str) \<Rightarrow> 'f notifier \<Rightarrow> part list \<Rightarrow> notify_event \<Rightarrow> str \<Rightarrow> nat \<Rightarrow> str" where
  "post js n template e icon now = render js template
     \<lparr>v_event = ev_event e, v_severity = severity_as_str (ev_severity e), v_component = nt_component n,
      v_realm = nt_realm n, v_timestamp = rfc3339 (now mod 2 ^ 32), v_message = ev_message e,
      v_detail = ev_detail e, v_icon = icon\<rparr>"

definition send_event :: "('f, 'b) fsys \<Rightarrow> (str \<Rightarrow> str) \<Rightarrow> nat \<Rightarrow> notify_event \<Rightarrow> 'f notifier \<Rightarrow> str list \<times> 'f notifier" where
  "send_event w js now e n =
     (let deliverable = (nt_channel n \<noteq> None \<and> nt_min_severity n \<le> ev_severity e);
          (is_due, problems) = raise w e (nt_component n) now (nt_repeat_interval n) deliverable (nt_problems n);
          summary = open_summary problems;
          n' = n\<lparr>nt_problems := problems\<rparr>
      in (case nt_channel n of
            None \<Rightarrow> ([], n')
          | Some template \<Rightarrow>
              if \<not> is_due then ([], n')
              else ([post js n template (with_detail (aggregate (ev_detail e) summary) e)
                       (severity_icon (ev_severity e)) now], n')))"

definition announce_recovery :: "(str \<Rightarrow> str) \<Rightarrow> nat \<Rightarrow> str \<Rightarrow> problem list \<Rightarrow> str \<Rightarrow> 'f notifier \<Rightarrow> str list" where
  "announce_recovery js now slug resolved summary n =
     (case nt_channel n of
        None \<Rightarrow> []
      | Some template \<Rightarrow>
          map (\<lambda>p. post js n template
              (with_detail (aggregate (lit ''was: '' @ pr_message p) summary)
                (with_subject (pr_subject p) (event_new slug Info (lit ''recovered after '' @ lasted p now))))
              RECOVERED_ICON now)
            (filter (\<lambda>p. nt_min_severity n \<le> pr_severity p) resolved))"

definition resolve_event :: "('f, 'b) fsys \<Rightarrow> (str \<Rightarrow> str) \<Rightarrow> nat \<Rightarrow> str \<Rightarrow> 'f notifier \<Rightarrow> str list \<times> 'f notifier" where
  "resolve_event w js now slug n =
     (let (resolved, problems) = resolve_all w slug (nt_problems n)
      in (announce_recovery js now slug resolved (open_summary problems) n, n\<lparr>nt_problems := problems\<rparr>))"

definition resolve_subject ::
  "('f, 'b) fsys \<Rightarrow> (str \<Rightarrow> str) \<Rightarrow> nat \<Rightarrow> str \<Rightarrow> str \<Rightarrow> 'f notifier \<Rightarrow> str list \<times> 'f notifier" where
  "resolve_subject w js now slug subject n =
     (let (resolved, problems) = resolve_one w slug subject (nt_problems n)
      in (announce_recovery js now slug (case resolved of None \<Rightarrow> [] | Some p \<Rightarrow> [p]) (open_summary problems) n,
          n\<lparr>nt_problems := problems\<rparr>))"

definition test_notification :: "(str \<Rightarrow> str) \<Rightarrow> (str \<Rightarrow> bool) \<Rightarrow> nat \<Rightarrow> 'f notifier \<Rightarrow> notify_error + str" where
  "test_notification js accepts now n =
     (case nt_channel n of
        None \<Rightarrow> Inl NoChannel
      | Some template \<Rightarrow>
          let body = post js n template
                (with_detail (lit ''Sent by --test-notification. Nothing is wrong.'')
                  (event_new (lit ''test-notification'') Info
                    (lit ''test notification from kerbridge-'' @ nt_component n)))
                (severity_icon Info) now
          in if accepts body then Inr body else Inl PostFailed)"

text \<open>The URL parser gives the scheme and the host of a URL, or refuses it.\<close>

definition insecure_opt_in :: "(str \<Rightarrow> (str \<times> str option) option) \<Rightarrow> str \<Rightarrow> str option \<Rightarrow> notify_error + bool" where
  "insecure_opt_in url_parse url named =
     rbind (ok_or NotAUrl (url_parse url)) (\<lambda>(scheme, host).
       let h = (case host of None \<Rightarrow> [] | Some h \<Rightarrow> h);
           insecure = (h \<noteq> [] \<and> named = Some h)
       in if scheme = lit ''https'' then Inr insecure
          else if scheme = lit ''http'' then (if insecure then Inr insecure else Inl (PlainHttp h))
          else Inl (BadScheme scheme))"

record notify_config =
  nc_min_severity :: str
  nc_repeat_interval_hours :: nat
  nc_insecure_host :: "str option"
  nc_template :: "str option"

definition from_config ::
  "('f, 'b) fsys \<Rightarrow> (str \<Rightarrow> str) \<Rightarrow> (str \<Rightarrow> bool) \<Rightarrow> (str \<Rightarrow> (str \<times> str option) option) \<Rightarrow> (bool \<Rightarrow> bool)
     \<Rightarrow> notify_error + str option \<Rightarrow> 'f option \<Rightarrow> nat \<Rightarrow> str \<Rightarrow> notify_config \<Rightarrow> str \<Rightarrow> notify_error + 'f notifier" where
  "from_config w js json_ok url_parse client_builds webhook_url dir now component cfg realm =
     rbind (ok_or (BadSeverity (nc_min_severity cfg)) (severity_parse (nc_min_severity cfg))) (\<lambda>min_severity.
     let interval = nc_repeat_interval_hours cfg * 3600;
         problems = load w dir interval now
     in rbind webhook_url (\<lambda>url.
        rbind (case url of
                 None \<Rightarrow> Inr None
               | Some url \<Rightarrow>
                   rbind (insecure_opt_in url_parse url (nc_insecure_host cfg)) (\<lambda>insecure.
                   rbind (guard (client_builds insecure) ClientFailed) (\<lambda>_.
                   rbind (template_parse js json_ok
                       (case nc_template cfg of None \<Rightarrow> DEFAULT_TEMPLATE | Some t \<Rightarrow> t)) (\<lambda>template.
                   Inr (Some template))))) (\<lambda>channel.
        Inr \<lparr>nt_component = component, nt_realm = realm, nt_min_severity = min_severity,
             nt_repeat_interval = interval, nt_problems = problems, nt_channel = channel\<rparr>)))"

section \<open>What the notifier promises\<close>

text \<open>C39 (KB_Notify.template_cannot_be_reshaped): for a template the start-up check accepted, and in
  which no placeholder completes a \<open>\u\<close> escape, the body is JSON for every set of values: its
  tokens are the template's own, with each value appearing, unescaped, as the characters of the
  string its placeholder sits in and nowhere else. No name the IdP can choose closes a string
  or adds a field.\<close>

theorem template_cannot_be_reshaped:
  assumes "serde js esc json_ok"
    and "template_parse js json_ok raw = Inr ps"
    and "\<forall>p \<in> set ps. \<not> ends_in_hex p"
  shows "\<exists>skel. \<forall>v. jlex Out (render js ps v) = Some (Out, concat (map (fill v) skel))"
proof -
  have ps: "parts raw = Inr ps" "json_ok (render js ps hostile_vals)"
    using assms(2) by (auto simp: template_parse_def rbind_def split: sum.splits if_splits)
  obtain ts where ts: "jlex Out (render js ps hostile_vals) = Some (Out, ts)"
    using serde.accepted [OF assms(1) ps(2)] by blast
  have apart: "literals_apart ps" using ps(1) parts_from_apart unfolding parts_def by blast
  show ?thesis
    by (rule serde.skeleton_exists [OF assms(1) ts])
      (use assms(3) apart in \<open>auto simp: literals_apart_def\<close>)
qed

definition small_template :: str where
  "small_template = lit ''{'' @ [c_dquote] @ lit ''text'' @ [c_dquote] @ lit '':'' @ [c_dquote]
     @ lit ''%MESSAGE%'' @ [c_dquote] @ lit ''}''"

definition small_parts :: "part list" where
  "small_parts = [Literal (lit ''{'' @ [c_dquote] @ lit ''text'' @ [c_dquote] @ lit '':'' @ [c_dquote]),
     PField FMessage, Literal ([c_dquote] @ lit ''}'')]"

lemma small_template_parts: "parts small_template = Inr small_parts"
  by (simp add: parts_def small_template_def small_parts_def parts_from.simps is_placeholder_def
      field_lookup_def ALL_FIELDS_def is_ascii_digit_def rbind_def kb_lits)

lemma small_template_accepted: "template_parse serde_js lexical small_template = Inr small_parts"
  by (simp add: template_parse_def small_template_parts rbind_def small_parts_def render_def hostile_vals_def
      HOSTILE_def escape_def serde_js_def serde_esc_def lexical_def OUTSIDE_def hex_lower_def is_ascii_hexdigit_def
      is_ascii_digit_def kb_lits)

theorem template_cannot_be_reshaped_witness:
  "template_parse serde_js lexical small_template = Inr small_parts
   \<and> (\<exists>skel. \<forall>v. jlex Out (render serde_js small_parts v) = Some (Out, concat (map (fill v) skel)))"
  by (rule conjI [OF small_template_accepted
      template_cannot_be_reshaped [OF serde_lex.serde_axioms small_template_accepted]])
    (simp add: small_parts_def ends_in_hex_def kb_lits)

text \<open>Fact (KB_Notify.unfinished_escape_accepted): the start-up check tries one sample value, whose
  first character is a hexadecimal digit, so it accepts a template in which a placeholder
  completes a \<open>\u\<close> escape; a value that starts otherwise then renders as text that is not JSON.\<close>

definition hex_parts :: "part list" where
  "hex_parts = [Literal ([c_dquote, c_bslash] @ lit ''u006''), PField FMessage, Literal [c_dquote]]"

lemma unfinished_escape_accepted:
  "template_parse serde_js lexical ([c_dquote, c_bslash] @ lit ''u006%MESSAGE%'' @ [c_dquote]) = Inr hex_parts"
  "\<not> lexical (render serde_js hex_parts (hostile_vals\<lparr>v_message := lit ''x''\<rparr>))"
  by (simp_all add: template_parse_def hex_parts_def parts_def parts_from.simps is_placeholder_def field_lookup_def
      ALL_FIELDS_def rbind_def render_def hostile_vals_def HOSTILE_def escape_def serde_js_def serde_esc_def lexical_def
      OUTSIDE_def hex_lower_def hex_value_def is_ascii_hexdigit_def is_ascii_digit_def kb_lits)

text \<open>Fact (KB_Notify.recovery_posted_per_round): when a condition at or above the severity floor is sent
  and its subject then resolved, exactly one recovery is posted, whether or not the send was
  itself due, and resolving again posts nothing. A floor that lets the alarm through lets the
  all-clear through.\<close>

lemma resolve_subject_posts:
  "fst (resolve_subject w js now slug su n) =
     (case nt_channel n of None \<Rightarrow> [] | Some t \<Rightarrow>
       (case rec_get (ps_records (nt_problems n)) slug su of
          Some p \<Rightarrow> if pr_open p \<and> nt_min_severity n \<le> pr_severity p
             then [post js n t (with_detail (aggregate (lit ''was: '' @ pr_message p)
                 (open_summary (snd (resolve_one w slug su (nt_problems n)))))
               (with_subject (pr_subject p) (event_new slug Info (lit ''recovered after '' @ lasted (closed p) now)))) RECOVERED_ICON now]
             else []
        | None \<Rightarrow> []))"
  by (cases "rec_get (ps_records (nt_problems n)) slug su"; cases "nt_channel n")
    (simp_all add: resolve_subject_def resolve_one_def announce_recovery_def)

lemma send_event_state:
  "snd (send_event w js now e n) = n\<lparr>nt_problems := snd (raise w e (nt_component n) now (nt_repeat_interval n)
     (nt_channel n \<noteq> None \<and> nt_min_severity n \<le> ev_severity e) (nt_problems n))\<rparr>"
  by (simp add: send_event_def Let_def split_beta split: option.split)

theorem recovery_posted_per_round:
  assumes "wf_records (ps_records (nt_problems n))" "nt_channel n = Some t"
    and "ev_kind e = Condition" "nt_min_severity n \<le> ev_severity e"
    and "snd (send_event w js now e n) = n1"
    and "resolve_subject w js later (ev_event e) (ev_subject e) n1 = (posts, n2)"
  shows "length posts = 1 \<and> fst (resolve_subject w js latest (ev_event e) (ev_subject e) n2) = []"
proof -
  let ?r = "raised (rec_get (ps_records (nt_problems n)) (ev_event e) (ev_subject e)) e (nt_component n) now (nt_repeat_interval n) True"
  have n1: "n1 = n\<lparr>nt_problems := snd (raise w e (nt_component n) now (nt_repeat_interval n) True (nt_problems n))\<rparr>"
    using assms(2,4,5) send_event_state [of w js now e n] by simp
  have r: "rec_get (ps_records (nt_problems n1)) (ev_event e) (ev_subject e) = Some ?r"
    by (simp add: n1 rec_get_raise)
  have wf1: "wf_records (ps_records (nt_problems n1))" by (simp add: n1 wf_raise assms(1))
  have "length posts = 1"
    using assms(2-4,6) r resolve_subject_posts [of w js later "ev_event e" "ev_subject e" n1]
    by (simp add: n1 raised_def)
  moreover have n2: "n2 = n1\<lparr>nt_problems := snd (resolve_one w (ev_event e) (ev_subject e) (nt_problems n1))\<rparr>"
    using assms(6) by (simp add: resolve_subject_def split_beta)
  have "rec_get (ps_records (nt_problems n2)) (ev_event e) (ev_subject e) = Some (closed ?r)"
    using r by (simp add: n2 rec_get_resolve_one [OF wf1])
  then have "fst (resolve_subject w js latest (ev_event e) (ev_subject e) n2) = []"
    by (simp add: resolve_subject_posts split: option.split)
  ultimately show ?thesis by blast
qed

definition sample_notifier :: "plain notifier" where
  "sample_notifier = \<lparr>nt_component = lit ''sync'', nt_realm = lit ''R'', nt_min_severity = Warning,
     nt_repeat_interval = 86400, nt_problems = fresh [], nt_channel = Some small_parts\<rparr>"

theorem recovery_posted_per_round_witness:
  "\<exists>posts n2. resolve_subject plain_disk serde_js 5 (lit ''e'') []
      (snd (send_event plain_disk serde_js 1 (sample_event Persisting) sample_notifier)) = (posts, n2)
    \<and> length posts = 1 \<and> fst (resolve_subject plain_disk serde_js 9 (lit ''e'') [] n2) = []"
proof -
  obtain posts n2 where r: "resolve_subject plain_disk serde_js 5 (lit ''e'') []
      (snd (send_event plain_disk serde_js 1 (sample_event Persisting) sample_notifier)) = (posts, n2)" by fastforce
  have "length posts = 1 \<and> fst (resolve_subject plain_disk serde_js 9 (ev_event (sample_event Persisting)) (ev_subject (sample_event Persisting)) n2) = []"
    by (rule recovery_posted_per_round [OF _ _ _ _ refl, where n = sample_notifier and t = small_parts and later = 5])
      (use r in \<open>simp_all add: sample_notifier_def sample_event_def wf_records_def less_eq_severity_def\<close>)
  then show ?thesis using r by (simp add: sample_event_def)
qed

text \<open>Fact (KB_Notify.insecure_only_when_named): TLS validation is off, or the URL plain HTTP, only for
  the host the operator named.\<close>

lemma insecure_only_when_named:
  assumes "insecure_opt_in url_parse url named = Inr b" "url_parse url = Some (scheme, host)"
  shows "scheme = lit ''https'' \<or> (scheme = lit ''http'' \<and> b)"
    and "b \<Longrightarrow> host \<noteq> None \<and> named = host"
  using assms by (auto simp: insecure_opt_in_def rbind_def ok_or_def Let_def split: option.splits if_splits)

end
