(* ===== verification/KB_SyncMain.thy ===== *)
theory KB_SyncMain
  imports KB_Notify KB_SyncDirectory KB_Grant
begin

text \<open>
  The sync daemon, \<open>kerbridge-sync/src/main.rs\<close> and the policy half of its \<open>config.rs\<close>: one
  source's turn (\<open>tick\<close>), the reconciliation of a whole reading (\<open>reconcile\<close>), the counting of
  discarded cycles, and the notifications each of them raises and clears.

  What the adapter answers to \<open>advance\<close> and \<open>credential_state\<close>, the LDAP server and the clock are
  inputs of a turn; one turn reads the clock once. The sentences an operator reads about an
  alert, a collision or an LDAP error are functions of the environment: no decision depends on
  them. An audit line is a value with the fields the code prints.
\<close>

section \<open>State and environment\<close>

datatype progress = Complete source_snapshot | Idle str
datatype credential_state = Measured int | Asserted int | UnknownExpiry

datatype sync_audit =
    Stalled str str
  | Resumed str nat
  | Tally str nat nat
  | ApplyLine str "str \<times> str"
  | ApplyFail str "str \<times> dir_error"

record sync_config =
  cf_dry_run :: bool
  cf_automatic_sam_renames :: bool
  cf_device_grant_days :: nat
  cf_device_grant_notify_days :: "nat option"
  cf_warn_before_days :: int
  cf_upn_suffix :: str

record source_config =
  so_source :: source
  so_idp_ou :: str
  so_group_suffix :: str
  so_identity :: "subject \<Rightarrow> identity_error + str"

record source_sync =
  sx_cfg :: source_config
  sx_consecutive_failures :: nat

record ('f, 'b, 'd) env =
  en_u :: unicode
  en_fs :: "('f, 'b) fsys"
  en_js :: "str \<Rightarrow> str"
  en_server :: "'d server"
  en_connects :: "'d \<Rightarrow> bool"
  en_ou_search :: "str \<Rightarrow> 'd \<Rightarrow> dir_error + entry list"
  en_domain_search :: "'d \<Rightarrow> dir_error + entry list"
  en_ask :: "'d \<Rightarrow> str \<Rightarrow> nat \<Rightarrow> dir_error + entry list"
  en_passwords :: "nat \<Rightarrow> str"
  en_alert_text :: "alert \<Rightarrow> str"
  en_collision_text :: "collision \<Rightarrow> str"
  en_error_text :: "dir_error \<Rightarrow> str"

record ('f, 'd) daemon =
  dm_notifier :: "'f notifier"
  dm_posts :: "str list"
  dm_audit :: "sync_audit list"
  dm_dir :: 'd

definition cfg_name :: "source_config \<Rightarrow> str" where
  "cfg_name cfg = source_name (so_source cfg)"

definition raise_event :: "('f, 'b, 'd) env \<Rightarrow> nat \<Rightarrow> notify_event \<Rightarrow> ('f, 'd) daemon \<Rightarrow> ('f, 'd) daemon" where
  "raise_event env now e d = (case send_event (en_fs env) (en_js env) now e (dm_notifier d) of
     (posts, n) \<Rightarrow> d\<lparr>dm_notifier := n, dm_posts := dm_posts d @ posts\<rparr>)"

definition cleared :: "('f, 'b, 'd) env \<Rightarrow> nat \<Rightarrow> str \<Rightarrow> str \<Rightarrow> ('f, 'd) daemon \<Rightarrow> ('f, 'd) daemon" where
  "cleared env now slug subject d = (case resolve_subject (en_fs env) (en_js env) now slug subject (dm_notifier d) of
     (posts, n) \<Rightarrow> d\<lparr>dm_notifier := n, dm_posts := dm_posts d @ posts\<rparr>)"

definition audit :: "sync_audit \<Rightarrow> ('f, 'd) daemon \<Rightarrow> ('f, 'd) daemon" where
  "audit l d = d\<lparr>dm_audit := dm_audit d @ [l]\<rparr>"

section \<open>Configuration policy\<close>

definition interval_seconds :: "nat \<Rightarrow> nat option" where
  "interval_seconds seconds = (if seconds = 0 then None else Some seconds)"

definition notify_days :: "str \<Rightarrow> nat option option" where
  "notify_days raw = (if raw = lit ''off'' \<or> raw = lit ''0'' then Some None
     else map_option Some (parse_unsigned u32_max raw))"

definition configured_suffix :: "str \<Rightarrow> suffix_rejection + str" where
  "configured_suffix raw = (if raw = lit ''none'' then Inr []
     else case group_suffix_rejection raw of Some why \<Rightarrow> Inl why | None \<Rightarrow> Inr raw)"

datatype sync_usage = Help | Run str bool
datatype sync_usage_error = MissingDirectory | UnexpectedArgument str

definition SYNC_CONFIG_DIR :: str where "SYNC_CONFIG_DIR = lit ''/etc/kerbridge''"
definition TEST_NOTIFICATION_FLAG :: str where "TEST_NOTIFICATION_FLAG = lit ''--test-notification''"

fun usage_from :: "str option \<Rightarrow> bool \<Rightarrow> str list \<Rightarrow> sync_usage_error + sync_usage" where
  "usage_from dir test_only [] =
     Inr (Run (case dir of None \<Rightarrow> SYNC_CONFIG_DIR | Some d \<Rightarrow> d) test_only)"
| "usage_from dir test_only (arg # args) =
     (if arg = lit ''-h'' \<or> arg = lit ''--help'' then Inr Help
      else if arg = lit ''--config''
        then (case args of [] \<Rightarrow> Inl MissingDirectory | d # rest \<Rightarrow> usage_from (Some d) test_only rest)
      else if arg = TEST_NOTIFICATION_FLAG then usage_from dir True args
      else Inl (UnexpectedArgument arg))"

definition sync_usage_of :: "str list \<Rightarrow> sync_usage_error + sync_usage" where
  "sync_usage_of args = usage_from None False args"

section \<open>Reports\<close>

definition show_int :: "int \<Rightarrow> str" where
  "show_int i = (if i < 0 then [c_dash] @ show_dec (nat (- i)) else show_dec (nat i))"

definition expiring :: "str \<Rightarrow> str \<Rightarrow> int \<Rightarrow> severity \<Rightarrow> notify_event" where
  "expiring name subject days severity = countdown days (with_subject subject
     (event_new (lit ''sync-credential-expiring'') severity
       (lit ''sync credential for source '' @ name @ lit '' expires in '' @ show_int days @ lit '' days'')))"

definition report_credential ::
  "('f, 'b, 'd) env \<Rightarrow> nat \<Rightarrow> credential_state \<Rightarrow> str \<Rightarrow> str \<Rightarrow> sync_config \<Rightarrow> ('f, 'd) daemon \<Rightarrow> ('f, 'd) daemon" where
  "report_credential env now state subject name shared d =
     (case (case state of Measured days \<Rightarrow> Some days | Asserted days \<Rightarrow> Some days | UnknownExpiry \<Rightarrow> None) of
        None \<Rightarrow> d
      | Some days \<Rightarrow>
          if days < 7 then raise_event env now (expiring name subject days Error) d
          else if days \<le> cf_warn_before_days shared then raise_event env now (expiring name subject days Warning) d
          else cleared env now (lit ''sync-credential-expiring'') subject d)"

definition expiring_grants :: "sync_config \<Rightarrow> nat \<Rightarrow> nat \<Rightarrow> current \<Rightarrow> nat" where
  "expiring_grants shared within_days now current =
     length (filter (\<lambda>g. effective_end g (cf_device_grant_days shared) \<le> now + within_days * 86400)
       (List.map_filter (\<lambda>m. ok (grant_decode m)) (concat (map (cu_markers \<circ> snd) (c_users current)))))"

definition report_expiring_grants ::
  "('f, 'b, 'd) env \<Rightarrow> nat \<Rightarrow> source_config \<Rightarrow> sync_config \<Rightarrow> current \<Rightarrow> ('f, 'd) daemon \<Rightarrow> ('f, 'd) daemon" where
  "report_expiring_grants env now cfg shared current d =
     (case cf_device_grant_notify_days shared of
        None \<Rightarrow> d
      | Some within_days \<Rightarrow>
          let n = expiring_grants shared within_days now current
          in if n = 0 then cleared env now (lit ''device-grants-expiring'') (cfg_name cfg) d
             else raise_event env now (with_detail (lit ''`kbmanage device list` shows which, and who has to sign in'')
               (with_subject (cfg_name cfg) (event_new (lit ''device-grants-expiring'') Warning
                 (show_dec n @ lit '' device grants under source '' @ cfg_name cfg @ lit '' expire within ''
                   @ show_dec within_days @ lit '' days'')))) d)"

definition ADMISSION_MISSING :: str where "ADMISSION_MISSING = lit ''admission-group-missing''"

definition grant_group_wrong :: "str \<Rightarrow> str \<Rightarrow> notify_event" where
  "grant_group_wrong source why =
     with_subject source (event_new (lit ''grant-group-misconfigured'') Error why)"

definition FAIL_THRESHOLD :: nat where "FAIL_THRESHOLD = 3"

definition cycle_failed ::
  "('f, 'b, 'd) env \<Rightarrow> nat \<Rightarrow> source_sync \<Rightarrow> str \<Rightarrow> ('f, 'd) daemon \<Rightarrow> source_sync \<times> ('f, 'd) daemon" where
  "cycle_failed env now s why d =
     (let name = cfg_name (sx_cfg s);
          failures = sx_consecutive_failures s + 1;
          s' = s\<lparr>sx_consecutive_failures := failures\<rparr>;
          d1 = (if failures = FAIL_THRESHOLD then audit (Stalled name why) d else d);
          d2 = (if FAIL_THRESHOLD \<le> failures
                then raise_event env now (with_subject name (event_new (lit ''sync-cycle-failing'') Error
                  (show_dec failures @ lit '' cycles discarded in a row for source '' @ name @ lit '': '' @ why))) d1
                else d1)
      in (s', d2))"

section \<open>Reconciliation\<close>

definition plan_ctx_of :: "sync_config \<Rightarrow> source_config \<Rightarrow> source_snapshot \<Rightarrow> nat \<Rightarrow> plan_ctx" where
  "plan_ctx_of shared cfg snap now =
     \<lparr>x_idp_ou = so_idp_ou cfg, x_admission = ss_admission snap, x_grant = ss_grant snap,
      x_upn_suffix = cf_upn_suffix shared, x_group_suffix = so_group_suffix cfg,
      x_now = rfc3339 (now mod 2 ^ 32), x_automatic_sam_renames = cf_automatic_sam_renames shared,
      x_identity = so_identity cfg\<rparr>"

definition read_directory :: "('f, 'b, 'd) env \<Rightarrow> source_config \<Rightarrow> 'd \<Rightarrow> dir_error + current" where
  "read_directory env cfg dir =
     (if \<not> en_connects env dir then Inl LdapFailed
      else read_current (en_u env) (en_ask env dir) (so_source cfg) (en_ou_search env (so_idp_ou cfg) dir) (en_domain_search env dir))"

definition apply_plan :: "('f, 'b, 'd) env \<Rightarrow> source_config \<Rightarrow> current \<Rightarrow> plan \<Rightarrow> 'd \<Rightarrow> dir_error + (apply_report \<times> 'd)" where
  "apply_plan env cfg current p dir =
     (if \<not> en_connects env dir then Inl LdapFailed
      else Inr (apply_ops (en_server env) (so_idp_ou cfg) (en_passwords env) (marker_index current) 0 (p_ops p) dir))"

definition announce_alert :: "('f, 'b, 'd) env \<Rightarrow> nat \<Rightarrow> str \<Rightarrow> alert \<Rightarrow> ('f, 'd) daemon \<Rightarrow> ('f, 'd) daemon" where
  "announce_alert env now name a d =
     (case kind_of a of
        AdmissionGroup \<Rightarrow> raise_event env now (with_subject name (event_new ADMISSION_MISSING Error (en_alert_text env a))) d
      | DeviceGrantGroup \<Rightarrow> raise_event env now (grant_group_wrong name (en_alert_text env a)) d
      | Note \<Rightarrow> d)"

definition announce_alerts :: "('f, 'b, 'd) env \<Rightarrow> nat \<Rightarrow> str \<Rightarrow> alert list \<Rightarrow> ('f, 'd) daemon \<Rightarrow> ('f, 'd) daemon" where
  "announce_alerts env now name alerts d0 =
     (let d1 = foldl (\<lambda>d a. announce_alert env now name a d) d0 alerts;
          d2 = (if DeviceGrantGroup \<in> set (map kind_of alerts) then d1
                else cleared env now (lit ''grant-group-misconfigured'') name d1)
      in if AdmissionGroup \<in> set (map kind_of alerts) then d2
         else cleared env now ADMISSION_MISSING name d2)"

definition report_applied :: "('f, 'b, 'd) env \<Rightarrow> nat \<Rightarrow> str \<Rightarrow> apply_report \<Rightarrow> ('f, 'd) daemon \<Rightarrow> ('f, 'd) daemon" where
  "report_applied env now name r d =
     (let applied = ar_applied r; failures = ar_failures r;
          d1 = (if applied = [] \<and> failures = [] then d
                else foldl (\<lambda>d l. audit l d) d
                  (Tally name (length applied) (length failures) # map (ApplyLine name) applied));
          d2 = foldl (\<lambda>d l. audit l d) d1 (map (ApplyFail name) failures)
      in if failures = [] then cleared env now (lit ''sync-apply-failing'') name d2
         else raise_event env now (with_detail
             (join_with [10] (map (\<lambda>(dn, e). dn @ lit '': '' @ en_error_text env e) failures))
             (with_subject name (event_new (lit ''sync-apply-failing'') Error
               (lit ''the realm directory rejected '' @ show_dec (length failures) @ lit '' of ''
                 @ show_dec (length applied + length failures) @ lit '' writes for source '' @ name @ lit '' this cycle'')))) d2)"

datatype conclusion = Concluded | Unreached dir_error | Crashed

definition reconcile ::
  "('f, 'b, 'd) env \<Rightarrow> nat \<Rightarrow> sync_config \<Rightarrow> source_config \<Rightarrow> source_snapshot \<Rightarrow> ('f, 'd) daemon \<Rightarrow> conclusion \<times> ('f, 'd) daemon" where
  "reconcile env now shared cfg snap d =
     (let name = cfg_name cfg in
      case read_directory env cfg (dm_dir d) of
        Inl e \<Rightarrow> (Unreached e, d)
      | Inr current \<Rightarrow>
          (case plan_sync (en_u env) (ss_desired snap) current (plan_ctx_of shared cfg snap now) of
             Inl Panicked \<Rightarrow> (Crashed, d)
           | Inl (NameCollision names) \<Rightarrow>
               (Concluded, raise_event env now (with_subject name (event_new (lit ''sync-name-collision'') Error
                  (lit ''sAMAccountName collision blocks the whole cycle for source '' @ name
                    @ lit ''; nothing applied: '' @ join_with (lit '', '') (map (en_collision_text env) names)))) d)
           | Inr p \<Rightarrow>
               let d1 = cleared env now (lit ''sync-name-collision'') name d;
                   d2 = announce_alerts env now name (p_alerts p) d1;
                   d3 = report_expiring_grants env now cfg shared current d2
               in if cf_dry_run shared then (Concluded, d3)
                  else (case apply_plan env cfg current p (dm_dir d3) of
                          Inl e \<Rightarrow> (Unreached e, d3)
                        | Inr (report, dir) \<Rightarrow>
                            (Concluded, report_applied env now name report (d3\<lparr>dm_dir := dir\<rparr>)))))"

section \<open>One source's turn\<close>

record turn =
  tn_now :: nat
  tn_credential :: credential_state
  tn_subject :: str
  tn_progress :: "source_error + progress"

fun error_text :: "source_error \<Rightarrow> str" where
  "error_text (Credential why) = why"
| "error_text (CredentialRejected why) = why"
| "error_text (Unreachable why) = why"
| "error_text (NotWhole why) = why"

fun proves_credential :: "source_error + progress \<Rightarrow> bool" where
  "proves_credential (Inr (Idle _)) = False"
| "proves_credential (Inl (Credential _)) = False"
| "proves_credential _ = True"

text \<open>\<open>None\<close> is a crash of the process.\<close>

definition tick ::
  "('f, 'b, 'd) env \<Rightarrow> sync_config \<Rightarrow> turn \<Rightarrow> source_sync \<times> ('f, 'd) daemon \<Rightarrow> (source_sync \<times> ('f, 'd) daemon) option" where
  "tick env shared t sd = (case sd of (s, d) \<Rightarrow>
     (let now = tn_now t; name = cfg_name (sx_cfg s);
          d1 = report_credential env now (tn_credential t) (tn_subject t) name shared d;
          d2 = (if proves_credential (tn_progress t) then cleared env now (lit ''sync-not-configured'') name d1 else d1)
      in case tn_progress t of
           Inr (Idle why) \<Rightarrow>
             Some (s, raise_event env now (with_subject name (event_new (lit ''sync-not-configured'') Warning why)) d2)
         | Inr (Complete snap) \<Rightarrow>
             (case reconcile env now shared (sx_cfg s) snap d2 of
                (Concluded, d3) \<Rightarrow>
                  let d4 = (if FAIL_THRESHOLD \<le> sx_consecutive_failures s
                            then audit (Resumed name (sx_consecutive_failures s)) d3 else d3)
                  in Some (s\<lparr>sx_consecutive_failures := 0\<rparr>, cleared env now (lit ''sync-cycle-failing'') name d4)
              | (Unreached e, d3) \<Rightarrow> Some (cycle_failed env now s (lit ''cycle error: '' @ en_error_text env e) d3)
              | (Crashed, d3) \<Rightarrow> None)
         | Inl e \<Rightarrow> if counts_as_failure e then Some (cycle_failed env now s (error_text e) d2) else Some (s, d2)))"

text \<open>One pass of the main loop over the sources, and the loop itself.\<close>

fun pass ::
  "('f, 'b, 'd) env \<Rightarrow> sync_config \<Rightarrow> turn list \<Rightarrow> source_sync list \<Rightarrow> ('f, 'd) daemon \<Rightarrow> (source_sync list \<times> ('f, 'd) daemon) option" where
  "pass env shared (t # ts) (s # ss) d =
     (case tick env shared t (s, d) of
        None \<Rightarrow> None
      | Some (s', d') \<Rightarrow> map_option (apfst ((#) s')) (pass env shared ts ss d'))"
| "pass env shared _ ss d = Some (ss, d)"

fun passes ::
  "('f, 'b, 'd) env \<Rightarrow> sync_config \<Rightarrow> turn list list \<Rightarrow> source_sync list \<times> ('f, 'd) daemon \<Rightarrow> (source_sync list \<times> ('f, 'd) daemon) option" where
  "passes env shared [] sd = Some sd"
| "passes env shared (ts # tss) sd = Option.bind (pass env shared ts (fst sd) (snd sd)) (passes env shared tss)"

section \<open>What a turn leaves alone\<close>

abbreviation CYCLE_FAILING :: str where "CYCLE_FAILING \<equiv> lit ''sync-cycle-failing''"

definition drec :: "('f, 'd) daemon \<Rightarrow> str \<Rightarrow> str \<Rightarrow> problem option" where
  "drec d = rec_get (ps_records (nt_problems (dm_notifier d)))"

definition wf_daemon :: "('f, 'd) daemon \<Rightarrow> bool" where
  "wf_daemon d \<longleftrightarrow> wf_records (ps_records (nt_problems (dm_notifier d)))"

fun outage_line :: "str \<Rightarrow> sync_audit \<Rightarrow> bool" where
  "outage_line name (Stalled n _) \<longleftrightarrow> n = name"
| "outage_line name (Resumed n _) \<longleftrightarrow> n = name"
| "outage_line name _ \<longleftrightarrow> False"

definition quiet :: "('f, 'd) daemon \<Rightarrow> ('f, 'd) daemon \<Rightarrow> bool" where
  "quiet d d' \<longleftrightarrow> (wf_daemon d \<longrightarrow> wf_daemon d' \<and> (\<forall>su. drec d' CYCLE_FAILING su = drec d CYCLE_FAILING su))
     \<and> (\<forall>name. filter (outage_line name) (dm_audit d') = filter (outage_line name) (dm_audit d))"

lemma quiet_refl [simp]: "quiet d d"
  by (simp add: quiet_def)

lemma quiet_trans: "quiet a b \<Longrightarrow> quiet b c \<Longrightarrow> quiet a c"
  by (simp add: quiet_def)

lemma notify_simps [simp]:
  "dm_dir (raise_event env now e d) = dm_dir d" "dm_audit (raise_event env now e d) = dm_audit d"
  by (simp_all add: raise_event_def split_beta)

lemma cleared_simps [simp]:
  "dm_dir (cleared env now slug su d) = dm_dir d" "dm_audit (cleared env now slug su d) = dm_audit d"
  by (simp_all add: cleared_def split_beta)

lemma audit_simps [simp]:
  "dm_dir (audit l d) = dm_dir d" "dm_notifier (audit l d) = dm_notifier d" "dm_audit (audit l d) = dm_audit d @ [l]"
  by (simp_all add: audit_def)

lemma notify_problems:
  "nt_problems (dm_notifier (raise_event env now e d)) = snd (raise (en_fs env) e (nt_component (dm_notifier d)) now
     (nt_repeat_interval (dm_notifier d)) (nt_channel (dm_notifier d) \<noteq> None \<and> nt_min_severity (dm_notifier d) \<le> ev_severity e)
     (nt_problems (dm_notifier d)))"
  by (simp add: raise_event_def split_beta send_event_state)

lemma cleared_problems:
  "nt_problems (dm_notifier (cleared env now slug su d)) = snd (resolve_one (en_fs env) slug su (nt_problems (dm_notifier d)))"
  by (simp add: cleared_def resolve_subject_def split_beta)

lemma wf_notify: "wf_daemon d \<Longrightarrow> wf_daemon (raise_event env now e d)"
  by (simp add: wf_daemon_def notify_problems wf_raise)

lemma wf_cleared: "wf_daemon d \<Longrightarrow> wf_daemon (cleared env now slug su d)"
  by (simp add: wf_daemon_def cleared_problems wf_resolve_one)

lemma drec_notify_other: "ev_event e \<noteq> slug \<or> ev_subject e \<noteq> su \<Longrightarrow> drec (raise_event env now e d) slug su = drec d slug su"
  by (auto simp: drec_def notify_problems rec_get_raise)

lemma drec_notify: "ev_kind e = Condition \<Longrightarrow> \<exists>p. drec (raise_event env now e d) (ev_event e) (ev_subject e) = Some p \<and> pr_open p"
  by (simp add: drec_def notify_problems rec_get_raise raised_def)

lemma drec_cleared:
  "wf_daemon d \<Longrightarrow> drec (cleared env now slug su d) slug' su' =
     (if slug' = slug \<and> su' = su then map_option closed (drec d slug su) else drec d slug' su')"
  by (simp add: drec_def cleared_problems rec_get_resolve_one wf_daemon_def)

lemma quiet_notify: "ev_event e \<noteq> CYCLE_FAILING \<Longrightarrow> quiet d (raise_event env now e d)"
  by (simp add: quiet_def wf_notify drec_notify_other)

lemma quiet_cleared: "slug \<noteq> CYCLE_FAILING \<Longrightarrow> quiet d (cleared env now slug su d)"
  by (simp add: quiet_def wf_cleared drec_cleared)

lemma event_simps [simp]:
  "ev_event (with_subject su e) = ev_event e" "ev_event (with_detail x e) = ev_event e" "ev_event (countdown n e) = ev_event e"
  "ev_event (event_new slug sev m) = slug" "ev_subject (with_subject su e) = su" "ev_subject (with_detail x e) = ev_subject e"
  "ev_subject (countdown n e) = ev_subject e" "ev_kind (with_subject su e) = ev_kind e" "ev_kind (event_new slug sev m) = Condition"
  "ev_repeat (countdown n e) = Countdown n" "ev_severity (countdown n e) = ev_severity e"
  "ev_severity (with_subject su e) = ev_severity e" "ev_severity (event_new slug sev m) = sev"
  by (simp_all add: with_subject_def with_detail_def countdown_def event_new_def)

lemma slugs_differ:
  "lit ''sync-credential-expiring'' \<noteq> CYCLE_FAILING" "lit ''sync-not-configured'' \<noteq> CYCLE_FAILING"
  "lit ''sync-name-collision'' \<noteq> CYCLE_FAILING" "lit ''grant-group-misconfigured'' \<noteq> CYCLE_FAILING"
  "lit ''sync-apply-failing'' \<noteq> CYCLE_FAILING" "lit ''device-grants-expiring'' \<noteq> CYCLE_FAILING"
  "ADMISSION_MISSING \<noteq> CYCLE_FAILING"
  by (simp_all add: ADMISSION_MISSING_def kb_lits)

lemma quiet_report_credential: "quiet d (report_credential env now st su name shared d)"
  by (auto simp: report_credential_def expiring_def slugs_differ split: credential_state.split
      intro!: quiet_notify quiet_cleared)

lemma quiet_report_expiring_grants: "quiet d (report_expiring_grants env now cfg shared current d)"
  by (auto simp: report_expiring_grants_def Let_def slugs_differ split: option.split intro!: quiet_notify quiet_cleared)

lemma quiet_announce_alert: "quiet d (announce_alert env now name a d)"
  by (auto simp: announce_alert_def grant_group_wrong_def slugs_differ split: alert_kind.split intro!: quiet_notify)

lemma quiet_fold: "(\<And>d x. quiet d (f d x)) \<Longrightarrow> quiet d (foldl f d xs)"
  by (induction xs arbitrary: d) (auto intro: quiet_trans)

lemma quiet_unless: "slug \<noteq> CYCLE_FAILING \<Longrightarrow> quiet d (if c then d else cleared env now slug su d)"
  by (simp add: quiet_cleared)

lemma quiet_announce_alerts: "quiet d (announce_alerts env now name alerts d)"
  unfolding announce_alerts_def Let_def
  by (rule quiet_trans [OF quiet_fold quiet_trans [OF quiet_unless quiet_unless]])
    (rule quiet_announce_alert slugs_differ)+

lemma fold_audit: "foldl (\<lambda>d l. audit l d) d ls = d\<lparr>dm_audit := dm_audit d @ ls\<rparr>"
  by (induction ls arbitrary: d) (simp_all add: audit_def)

lemma quiet_audits: "(\<And>name l. l \<in> set ls \<Longrightarrow> \<not> outage_line name l) \<Longrightarrow> quiet d (foldl (\<lambda>d l. audit l d) d ls)"
  by (simp add: quiet_def fold_audit wf_daemon_def drec_def filter_empty_conv)

lemma quiet_report_applied: "quiet d (report_applied env now name r d)"
proof -
  let ?d1 = "if ar_applied r = [] \<and> ar_failures r = [] then d
    else foldl (\<lambda>d l. audit l d) d (Tally name (length (ar_applied r)) (length (ar_failures r)) # map (ApplyLine name) (ar_applied r))"
  have 1: "quiet d ?d1" by (auto simp del: foldl.simps intro!: quiet_audits)
  have 2: "quiet ?d1 (foldl (\<lambda>d l. audit l d) ?d1 (map (ApplyFail name) (ar_failures r)))"
    by (rule quiet_audits) auto
  note q = quiet_trans [OF 1 2]
  show ?thesis unfolding report_applied_def Let_def
    by (auto simp: slugs_differ simp del: foldl.simps intro!: quiet_trans [OF q] quiet_notify quiet_cleared)
qed

lemma quiet_dir: "quiet d d' \<Longrightarrow> quiet d (d'\<lparr>dm_dir := x\<rparr>)"
  by (simp add: quiet_def wf_daemon_def drec_def)

lemma quiet_reconcile: "quiet d (snd (reconcile env now shared cfg snap d))"
proof -
  let ?d1 = "cleared env now (lit ''sync-name-collision'') (cfg_name cfg) d"
  have q: "quiet d (report_expiring_grants env now cfg shared current (announce_alerts env now (cfg_name cfg) alerts ?d1))" for current alerts
    by (rule quiet_trans [OF quiet_trans [OF quiet_cleared quiet_announce_alerts] quiet_report_expiring_grants])
      (rule slugs_differ)
  show ?thesis unfolding reconcile_def Let_def
    using q by (auto simp: slugs_differ split: sum.split plan_stop.split
        intro: quiet_notify quiet_trans [OF quiet_dir [OF q] quiet_report_applied])
qed

section \<open>What a turn writes\<close>

lemma report_credential_dir [simp]: "dm_dir (report_credential env now st su name shared d) = dm_dir d"
  by (simp add: report_credential_def split: credential_state.split)

lemma report_expiring_grants_dir [simp]: "dm_dir (report_expiring_grants env now cfg shared current d) = dm_dir d"
  by (simp add: report_expiring_grants_def Let_def split: option.split)

lemma announce_alert_dir [simp]: "dm_dir (announce_alert env now name a d) = dm_dir d"
  by (simp add: announce_alert_def split: alert_kind.split)

lemma announce_alerts_dir [simp]: "dm_dir (announce_alerts env now name alerts d) = dm_dir d"
proof -
  have "dm_dir (foldl (\<lambda>d a. announce_alert env now name a d) d alerts) = dm_dir d"
    by (induction alerts arbitrary: d) simp_all
  then show ?thesis by (simp add: announce_alerts_def Let_def)
qed

lemma report_applied_dir [simp]: "dm_dir (report_applied env now name r d) = dm_dir d"
  by (simp add: report_applied_def Let_def fold_audit)

lemma cycle_failed_dir [simp]: "dm_dir (snd (cycle_failed env now s why d)) = dm_dir d"
  by (simp add: cycle_failed_def Let_def)

text \<open>The plan a turn applies: what the planner makes of the directory as it was read at that turn.\<close>

definition applied_plan ::
  "('f, 'b, 'd) env \<Rightarrow> sync_config \<Rightarrow> source_config \<Rightarrow> source_snapshot \<Rightarrow> nat \<Rightarrow> 'd \<Rightarrow> current \<Rightarrow> plan \<Rightarrow> bool" where
  "applied_plan env shared cfg snap now dir current p \<longleftrightarrow>
     en_connects env dir \<and> \<not> cf_dry_run shared \<and> read_directory env cfg dir = Inr current
     \<and> plan_sync (en_u env) (ss_desired snap) current (plan_ctx_of shared cfg snap now) = Inr p"

lemma reconcile_dir:
  "dm_dir (snd (reconcile env now shared cfg snap d)) = dm_dir d
   \<or> (\<exists>current p. applied_plan env shared cfg snap now (dm_dir d) current p
       \<and> dm_dir (snd (reconcile env now shared cfg snap d)) = snd (apply_ops (en_server env) (so_idp_ou cfg)
           (en_passwords env) (marker_index current) 0 (p_ops p) (dm_dir d)))"
  unfolding reconcile_def Let_def applied_plan_def apply_plan_def
  by (auto simp: split_beta split: sum.split plan_stop.split)

lemma tick_dir:
  assumes "tick env shared t (s, d) = Some (s', d')"
  shows "dm_dir d' = dm_dir d
   \<or> (\<exists>snap current p. tn_progress t = Inr (Complete snap)
       \<and> applied_plan env shared (sx_cfg s) snap (tn_now t) (dm_dir d) current p
       \<and> dm_dir d' = snd (apply_ops (en_server env) (so_idp_ou (sx_cfg s))
           (en_passwords env) (marker_index current) 0 (p_ops p) (dm_dir d)))"
proof -
  let ?d1 = "report_credential env (tn_now t) (tn_credential t) (tn_subject t) (cfg_name (sx_cfg s)) shared d"
  let ?d2 = "if proves_credential (tn_progress t) then cleared env (tn_now t) (lit ''sync-not-configured'') (cfg_name (sx_cfg s)) ?d1 else ?d1"
  have d2: "dm_dir ?d2 = dm_dir d" by simp
  have cf: "dm_dir d' = dm_dir x" if "cycle_failed env now s why x = (s', d')" for now why x
    using cycle_failed_dir [of env now s why x] that by (metis snd_conv)
  show ?thesis
  proof (cases "\<exists>snap. tn_progress t = Inr (Complete snap)")
    case True
    then obtain snap where snap: "tn_progress t = Inr (Complete snap)" by blast
    obtain c d3 where r: "reconcile env (tn_now t) shared (sx_cfg s) snap ?d2 = (c, d3)" by fastforce
    have "dm_dir d' = dm_dir d3"
      using assms snap r cf by (cases c) (auto simp: tick_def Let_def)
    moreover have "dm_dir d3 = dm_dir d \<or> (\<exists>current p. applied_plan env shared (sx_cfg s) snap (tn_now t) (dm_dir d) current p
       \<and> dm_dir d3 = snd (apply_ops (en_server env) (so_idp_ou (sx_cfg s)) (en_passwords env) (marker_index current) 0 (p_ops p) (dm_dir d)))"
      using reconcile_dir [of env "tn_now t" shared "sx_cfg s" snap ?d2] r unfolding d2 by simp
    ultimately show ?thesis using snap by metis
  next
    case False
    then have "dm_dir d' = dm_dir d"
      using assms cf by (auto simp: tick_def Let_def split: sum.splits progress.splits if_splits)
    then show ?thesis by blast
  qed
qed

section \<open>Outages\<close>

text \<open>The reading of the audit trail: an outage begins, then ends, and so on.\<close>

fun outage_after :: "bool \<Rightarrow> sync_audit list \<Rightarrow> bool option" where
  "outage_after b [] = Some b"
| "outage_after b (Stalled _ _ # ls) = (if b then None else outage_after True ls)"
| "outage_after b (Resumed _ _ # ls) = (if b then outage_after False ls else None)"
| "outage_after b (_ # ls) = outage_after b ls"

lemma outage_after_append: "outage_after b (xs @ ys) = Option.bind (outage_after b xs) (\<lambda>c. outage_after c ys)"
  by (induction b xs rule: outage_after.induct) simp_all

definition outage_lines :: "str \<Rightarrow> ('f, 'd) daemon \<Rightarrow> sync_audit list" where
  "outage_lines name d = filter (outage_line name) (dm_audit d)"

definition failing_open :: "str \<Rightarrow> ('f, 'd) daemon \<Rightarrow> bool" where
  "failing_open name d \<longleftrightarrow> (\<exists>p. drec d CYCLE_FAILING name = Some p \<and> pr_open p)"

definition tracked :: "source_sync \<Rightarrow> ('f, 'd) daemon \<Rightarrow> bool" where
  "tracked s d \<longleftrightarrow>
     outage_after False (outage_lines (cfg_name (sx_cfg s)) d) = Some (FAIL_THRESHOLD \<le> sx_consecutive_failures s)
     \<and> failing_open (cfg_name (sx_cfg s)) d = (FAIL_THRESHOLD \<le> sx_consecutive_failures s)"

definition others_kept :: "str \<Rightarrow> ('f, 'd) daemon \<Rightarrow> ('f, 'd) daemon \<Rightarrow> bool" where
  "others_kept name d d' \<longleftrightarrow> (\<forall>n. n \<noteq> name \<longrightarrow> outage_lines n d' = outage_lines n d \<and> failing_open n d' = failing_open n d)"

lemma others_kept_trans: "others_kept n a b \<Longrightarrow> others_kept n b c \<Longrightarrow> others_kept n a c"
  by (simp add: others_kept_def)

lemma quiet_outage:
  assumes "quiet d d'" "wf_daemon d"
  shows "wf_daemon d'" "outage_lines n d' = outage_lines n d" "failing_open n d' = failing_open n d" "others_kept name d d'"
  using assms by (simp_all add: quiet_def outage_lines_def failing_open_def others_kept_def)

lemma quiet_tracked: "quiet d d' \<Longrightarrow> wf_daemon d \<Longrightarrow> tracked s d \<Longrightarrow> tracked s d'"
  using quiet_outage(2,3) unfolding tracked_def by metis

lemma failed_event:
  "failing_open n (raise_event env now (with_subject name (event_new CYCLE_FAILING Error m)) d) = (n = name \<or> failing_open n d)"
proof (cases "n = name")
  case True
  let ?e = "with_subject name (event_new CYCLE_FAILING Error m)"
  have "\<exists>p. drec (raise_event env now ?e d) (ev_event ?e) (ev_subject ?e) = Some p \<and> pr_open p"
    by (rule drec_notify) simp
  then show ?thesis using True by (simp add: failing_open_def)
qed (simp add: failing_open_def drec_notify_other)

lemma audit_outage:
  "outage_lines n (audit l d) = outage_lines n d @ (if outage_line n l then [l] else [])"
  "failing_open n (audit l d) = failing_open n d" "wf_daemon (audit l d) = wf_daemon d"
  by (simp_all add: outage_lines_def failing_open_def drec_def wf_daemon_def)

lemma notify_outage: "outage_lines n (raise_event env now e d) = outage_lines n d"
  by (simp add: outage_lines_def)

lemma cycle_failed_tracked:
  assumes "tracked s d" "wf_daemon d" "cycle_failed env now s why d = (s', d')"
  shows "wf_daemon d' \<and> tracked s' d' \<and> sx_cfg s' = sx_cfg s \<and> others_kept (cfg_name (sx_cfg s)) d d'"
proof -
  let ?f = "sx_consecutive_failures s" and ?name = "cfg_name (sx_cfg s)"
  define d1 where "d1 = (if ?f + 1 = FAIL_THRESHOLD then audit (Stalled ?name why) d else d)"
  have s': "s' = s\<lparr>sx_consecutive_failures := ?f + 1\<rparr>"
    and d': "\<exists>m. d' = (if FAIL_THRESHOLD \<le> ?f + 1 then raise_event env now (with_subject ?name (event_new CYCLE_FAILING Error m)) d1 else d1)"
    using assms(3) by (auto simp: cycle_failed_def Let_def d1_def)
  have out: "outage_after False (outage_lines ?name d) = Some (FAIL_THRESHOLD \<le> ?f)"
    "failing_open ?name d = (FAIL_THRESHOLD \<le> ?f)" using assms(1) by (simp_all add: tracked_def)
  have lines: "outage_lines n d' = outage_lines n d @ (if n = ?name \<and> ?f + 1 = FAIL_THRESHOLD then [Stalled ?name why] else [])" for n
    using d' by (auto simp: d1_def notify_outage audit_outage)
  have opn: "failing_open n d' = (if n = ?name \<and> FAIL_THRESHOLD \<le> ?f + 1 then True else failing_open n d)" for n
    using d' by (auto simp: d1_def failed_event audit_outage split: if_splits)
  have "wf_daemon d'" using d' assms(2) by (auto simp: d1_def audit_outage wf_notify)
  moreover have "tracked s' d'"
    using out lines [of ?name] opn [of ?name] by (auto simp: tracked_def s' outage_after_append FAIL_THRESHOLD_def)
  moreover have "others_kept ?name d d'" using lines opn by (simp add: others_kept_def)
  ultimately show ?thesis using s' by simp
qed

lemma resumed_tracked:
  assumes "tracked s d" "wf_daemon d"
    and "d' = cleared env now CYCLE_FAILING (cfg_name (sx_cfg s))
      (if FAIL_THRESHOLD \<le> sx_consecutive_failures s then audit (Resumed (cfg_name (sx_cfg s)) (sx_consecutive_failures s)) d else d)"
  shows "wf_daemon d' \<and> tracked (s\<lparr>sx_consecutive_failures := 0\<rparr>) d' \<and> others_kept (cfg_name (sx_cfg s)) d d'"
proof -
  let ?name = "cfg_name (sx_cfg s)" and ?b = "FAIL_THRESHOLD \<le> sx_consecutive_failures s"
  let ?d1 = "if ?b then audit (Resumed ?name (sx_consecutive_failures s)) d else d"
  have wf1: "wf_daemon ?d1" using assms(2) by (simp add: audit_outage)
  have lines: "outage_lines n d' = outage_lines n d @ (if n = ?name \<and> ?b then [Resumed ?name (sx_consecutive_failures s)] else [])" for n
    unfolding assms(3) by (simp add: outage_lines_def)
  have opn: "failing_open n d' = (if n = ?name then False else failing_open n d)" for n
    unfolding assms(3) failing_open_def drec_cleared [OF wf1] by (auto simp: drec_def)
  show ?thesis
    using assms(1) wf1 lines opn
    by (auto simp: assms(3) wf_cleared tracked_def others_kept_def outage_after_append FAIL_THRESHOLD_def)
qed

lemma tick_tracked:
  assumes "tracked s d" "wf_daemon d" "tick env shared t (s, d) = Some (s', d')"
  shows "wf_daemon d' \<and> tracked s' d' \<and> sx_cfg s' = sx_cfg s \<and> others_kept (cfg_name (sx_cfg s)) d d'"
proof -
  let ?name = "cfg_name (sx_cfg s)"
  let ?d1 = "report_credential env (tn_now t) (tn_credential t) (tn_subject t) ?name shared d"
  define d2 where "d2 = (if proves_credential (tn_progress t) then cleared env (tn_now t) (lit ''sync-not-configured'') ?name ?d1 else ?d1)"
  have q: "quiet d d2" unfolding d2_def
    using quiet_trans [OF quiet_report_credential quiet_cleared [OF slugs_differ(2)]] quiet_report_credential by auto
  note wf2 = quiet_outage(1) [OF q assms(2)] and tr2 = quiet_tracked [OF q assms(2,1)] and ot2 = quiet_outage(4) [OF q assms(2)]
  have failed: ?thesis if "cycle_failed env (tn_now t) s why x = (s', d')" "quiet d2 x" for why x
    using cycle_failed_tracked [OF quiet_tracked [OF that(2) wf2 tr2] quiet_outage(1) [OF that(2) wf2] that(1)]
      others_kept_trans [OF ot2 others_kept_trans [OF quiet_outage(4) [OF that(2) wf2]]] by blast
  have still: ?thesis if "s' = s" "quiet d2 d'"
    using that quiet_outage(1) [OF that(2) wf2] quiet_tracked [OF that(2) wf2 tr2]
      others_kept_trans [OF ot2 quiet_outage(4) [OF that(2) wf2]] by blast
  show ?thesis
  proof (cases "tn_progress t")
    case (Inl e)
    then have eq: "tick env shared t (s, d) =
        Some (if counts_as_failure e then cycle_failed env (tn_now t) s (error_text e) d2 else (s, d2))"
      by (simp add: tick_def Let_def d2_def)
    show ?thesis
    proof (cases "counts_as_failure e")
      case True
      then show ?thesis using assms(3) unfolding eq by (intro failed [of "error_text e" d2]) simp_all
    next
      case False
      then show ?thesis using assms(3) unfolding eq by (intro still) simp_all
    qed
  next
    case (Inr pr)
    show ?thesis
    proof (cases pr)
      case (Idle why)
      then show ?thesis using assms(3) Inr
        by (intro still) (auto simp: tick_def Let_def d2_def slugs_differ intro!: quiet_notify)
    next
      case (Complete snap)
      obtain c d3 where r: "reconcile env (tn_now t) shared (sx_cfg s) snap d2 = (c, d3)" by fastforce
      have q3: "quiet d2 d3" using quiet_reconcile [of d2 env "tn_now t" shared "sx_cfg s" snap] r by simp
      have eq: "tick env shared t (s, d) = (case c of
          Concluded \<Rightarrow> Some (s\<lparr>sx_consecutive_failures := 0\<rparr>, cleared env (tn_now t) CYCLE_FAILING ?name
            (if FAIL_THRESHOLD \<le> sx_consecutive_failures s then audit (Resumed ?name (sx_consecutive_failures s)) d3 else d3))
        | Unreached e \<Rightarrow> Some (cycle_failed env (tn_now t) s (lit ''cycle error: '' @ en_error_text env e) d3)
        | Crashed \<Rightarrow> None)"
        using Inr Complete r by (cases c) (auto simp: tick_def Let_def d2_def)
      show ?thesis
      proof (cases c)
        case Concluded
        then have s': "s' = s\<lparr>sx_consecutive_failures := 0\<rparr>" and d': "d' = cleared env (tn_now t) CYCLE_FAILING ?name
            (if FAIL_THRESHOLD \<le> sx_consecutive_failures s then audit (Resumed ?name (sx_consecutive_failures s)) d3 else d3)"
          using assms(3) unfolding eq by simp_all
        have "wf_daemon d' \<and> tracked (s\<lparr>sx_consecutive_failures := 0\<rparr>) d' \<and> others_kept ?name d3 d'"
          by (rule resumed_tracked [OF quiet_tracked [OF q3 wf2 tr2] quiet_outage(1) [OF q3 wf2] d'])
        then show ?thesis
          using others_kept_trans [OF ot2 others_kept_trans [OF quiet_outage(4) [OF q3 wf2]]] unfolding s' by simp
      qed (use assms(3) failed q3 eq in auto)
    qed
  qed
qed

definition all_tracked :: "source_sync list \<times> ('f, 'd) daemon \<Rightarrow> bool" where
  "all_tracked sd \<longleftrightarrow> wf_daemon (snd sd) \<and> list_all (\<lambda>s. tracked s (snd sd)) (fst sd)
     \<and> distinct (map (cfg_name \<circ> sx_cfg) (fst sd))"

lemma tracked_other:
  assumes "others_kept name d d'" "cfg_name (sx_cfg s) \<noteq> name"
  shows "tracked s d' = tracked s d"
  using assms by (simp add: tracked_def others_kept_def)

lemma pass_tracked:
  assumes "wf_daemon d" "list_all (\<lambda>s. tracked s d) ss" "distinct (map (cfg_name \<circ> sx_cfg) ss)"
    and "pass env shared ts ss d = Some (ss', d')"
  shows "wf_daemon d' \<and> list_all (\<lambda>s. tracked s d') ss'
    \<and> map (cfg_name \<circ> sx_cfg) ss' = map (cfg_name \<circ> sx_cfg) ss
    \<and> (\<forall>s. cfg_name (sx_cfg s) \<notin> set (map (cfg_name \<circ> sx_cfg) ss) \<longrightarrow> tracked s d' = tracked s d)"
  using assms
proof (induction env shared ts ss d arbitrary: ss' d' rule: pass.induct)
  case (1 env shared t ts s ss d)
  obtain s1 d1 where t: "tick env shared t (s, d) = Some (s1, d1)"
    using "1.prems"(4) by (auto split: option.splits)
  then obtain ss1 where p: "pass env shared ts ss d1 = Some (ss1, d')" "ss' = s1 # ss1"
    using "1.prems"(4) by (auto simp: apfst_def map_prod_def)
  have tr: "wf_daemon d1" "tracked s1 d1" "sx_cfg s1 = sx_cfg s" "others_kept (cfg_name (sx_cfg s)) d d1"
    using tick_tracked [OF _ "1.prems"(1) t] "1.prems"(2) by auto
  have "tracked x d1" if "x \<in> set ss" for x
  proof -
    have "cfg_name (sx_cfg x) \<noteq> cfg_name (sx_cfg s)" using that "1.prems"(3) by (auto simp: image_iff)
    then show ?thesis using that "1.prems"(2) tracked_other [OF tr(4), of x] by (simp add: list_all_iff)
  qed
  then have ih: "wf_daemon d'" "list_all (\<lambda>s. tracked s d') ss1"
    "map (cfg_name \<circ> sx_cfg) ss1 = map (cfg_name \<circ> sx_cfg) ss"
    "\<And>x. cfg_name (sx_cfg x) \<notin> set (map (cfg_name \<circ> sx_cfg) ss) \<Longrightarrow> tracked x d' = tracked x d1"
    using "1.IH" [OF t refl tr(1) _ _ p(1)] "1.prems"(3) by (simp_all add: list_all_iff comp_def)
  have "tracked s1 d'" using ih(4) [of s1] tr(2,3) "1.prems"(3) by simp
  then show ?case using ih p(2) tr(3) tracked_other [OF tr(4)] by (simp add: comp_def)
qed auto

lemma passes_tracked:
  assumes "all_tracked sd" "passes env shared tss sd = Some sd'"
  shows "all_tracked sd' \<and> map (cfg_name \<circ> sx_cfg) (fst sd') = map (cfg_name \<circ> sx_cfg) (fst sd)"
  using assms
proof (induction tss arbitrary: sd)
  case (Cons ts tss)
  obtain ss1 d1 where p: "pass env shared ts (fst sd) (snd sd) = Some (ss1, d1)" "passes env shared tss (ss1, d1) = Some sd'"
    using Cons.prems(2) by (auto simp: Option.bind_eq_Some_conv)
  have "all_tracked (ss1, d1) \<and> map (cfg_name \<circ> sx_cfg) ss1 = map (cfg_name \<circ> sx_cfg) (fst sd)"
    using pass_tracked [OF _ _ _ p(1)] Cons.prems(1) by (auto simp: all_tracked_def)
  then show ?case using Cons.IH [OF _ p(2)] by (metis fst_conv)
qed simp

section \<open>No turn crashes, and no turn writes outside its unit\<close>

text \<open>What a turn has to be able to rely on: whatever the source reported, every state the directory
  can be read in makes well-formed inputs for the planner.\<close>

definition usable :: "('f, 'b, 'd) env \<Rightarrow> sync_config \<Rightarrow> ('d \<Rightarrow> bool) \<Rightarrow> source_config \<Rightarrow> turn \<Rightarrow> bool" where
  "usable env shared I cfg t \<longleftrightarrow> (\<forall>snap dir current. tn_progress t = Inr (Complete snap) \<longrightarrow> I dir
     \<longrightarrow> read_directory env cfg dir = Inr current
     \<longrightarrow> wf_inputs (en_u env) (ss_desired snap) current (plan_ctx_of shared cfg snap (tn_now t)) \<and> wf_current current)"

definition keeps_inv :: "('f, 'b, 'd) env \<Rightarrow> ('d \<Rightarrow> bool) \<Rightarrow> str \<Rightarrow> bool" where
  "keeps_inv env I ou \<longleftrightarrow> (\<forall>req d. request_ok (en_u env) ou req \<longrightarrow> I d \<longrightarrow> I (snd (sv_exec (en_server env) req d)))"

lemma cycle_failed_cfg: "cycle_failed env now s why d = (s', d') \<Longrightarrow> sx_cfg s' = sx_cfg s"
  by (auto simp: cycle_failed_def Let_def)

lemma reconcile_no_crash:
  assumes "unicode_tables (en_u env)" "usable env shared I cfg t" "tn_progress t = Inr (Complete snap)" "I (dm_dir d)"
  shows "fst (reconcile env (tn_now t) shared cfg snap d) \<noteq> Crashed"
proof (cases "read_directory env cfg (dm_dir d)")
  case (Inr current)
  then have "wf_inputs (en_u env) (ss_desired snap) current (plan_ctx_of shared cfg snap (tn_now t))"
    using assms(2-4) unfolding usable_def by blast
  from plan_sync_safe [OF assms(1) this]
  have "plan_sync (en_u env) (ss_desired snap) current (plan_ctx_of shared cfg snap (tn_now t)) \<noteq> Inl Panicked"
    by (auto simp: safe_def)
  then show ?thesis using Inr
    by (auto simp: reconcile_def Let_def split: sum.splits plan_stop.splits)
qed (simp add: reconcile_def Let_def)

lemma tick_ok:
  assumes u: "unicode_tables (en_u env)" and t: "usable env shared I (sx_cfg s) t" and I: "I (dm_dir d)"
    and r: "keeps_inv env I (so_idp_ou (sx_cfg s))"
  shows "\<exists>s' d'. tick env shared t (s, d) = Some (s', d') \<and> sx_cfg s' = sx_cfg s \<and> I (dm_dir d')"
proof -
  let ?d1 = "report_credential env (tn_now t) (tn_credential t) (tn_subject t) (cfg_name (sx_cfg s)) shared d"
  let ?d2 = "cleared env (tn_now t) (lit ''sync-not-configured'') (cfg_name (sx_cfg s)) ?d1"
  have "fst (reconcile env (tn_now t) shared (sx_cfg s) snap ?d2) \<noteq> Crashed" if "tn_progress t = Inr (Complete snap)" for snap
    using reconcile_no_crash [OF u t that, of ?d2] I by simp
  then have "tick env shared t (s, d) \<noteq> None"
    by (auto simp: tick_def Let_def split_beta split: sum.split progress.split conclusion.split)
  then obtain s' d' where tick: "tick env shared t (s, d) = Some (s', d')" by auto
  have cfg: "sx_cfg s' = sx_cfg s"
    using tick
    by (auto simp: tick_def Let_def split: sum.splits progress.splits prod.splits conclusion.splits if_splits
        dest!: cycle_failed_cfg)
  from tick_dir [OF tick] have "I (dm_dir d')"
  proof (elim disjE exE conjE)
    fix snap current p
    assume p: "tn_progress t = Inr (Complete snap)" "applied_plan env shared (sx_cfg s) snap (tn_now t) (dm_dir d) current p"
      and d': "dm_dir d' = snd (apply_ops (en_server env) (so_idp_ou (sx_cfg s)) (en_passwords env) (marker_index current) 0 (p_ops p) (dm_dir d))"
    let ?ctx = "plan_ctx_of shared (sx_cfg s) snap (tn_now t)"
    have ou: "x_idp_ou ?ctx = so_idp_ou (sx_cfg s)" by (simp add: plan_ctx_of_def)
    have pl: "plan_sync (en_u env) (ss_desired snap) current ?ctx = Inr p" "read_directory env (sx_cfg s) (dm_dir d) = Inr current"
      using p(2) by (simp_all add: applied_plan_def)
    have wf: "wf_inputs (en_u env) (ss_desired snap) current ?ctx" "wf_current current"
      using t p(1) pl(2) I unfolding usable_def by blast+
    have step: "I (snd (sv_exec (en_server env) req x))" if "request_ok (en_u env) (x_idp_ou ?ctx) req" "I x" for req x
      using r that unfolding keeps_inv_def ou by blast
    show "I (dm_dir d')"
      using applied_contained [where I = I, OF u wf pl(1) step I] unfolding d' ou .
  qed (use I in simp)
  then show ?thesis using tick cfg by blast
qed

definition pass_ok :: "('f, 'b, 'd) env \<Rightarrow> sync_config \<Rightarrow> ('d \<Rightarrow> bool) \<Rightarrow> turn set \<Rightarrow> source_config set \<Rightarrow> bool" where
  "pass_ok env shared I T C \<longleftrightarrow> (\<forall>cfg \<in> C. keeps_inv env I (so_idp_ou cfg) \<and> (\<forall>t \<in> T. usable env shared I cfg t))"

lemma pass_ok_run:
  assumes "unicode_tables (en_u env)" "pass_ok env shared I T C" "set ts \<subseteq> T" "sx_cfg ` set ss \<subseteq> C" "I (dm_dir d)"
  shows "\<exists>ss' d'. pass env shared ts ss d = Some (ss', d') \<and> map sx_cfg ss' = map sx_cfg ss \<and> I (dm_dir d')"
  using assms
proof (induction env shared ts ss d rule: pass.induct)
  case (1 env shared t ts s ss d)
  obtain s1 d1 where t: "tick env shared t (s, d) = Some (s1, d1)" "sx_cfg s1 = sx_cfg s" "I (dm_dir d1)"
    using tick_ok [of env shared I s t d] "1.prems" by (auto simp: pass_ok_def)
  obtain ss1 d2 where "pass env shared ts ss d1 = Some (ss1, d2)" "map sx_cfg ss1 = map sx_cfg ss" "I (dm_dir d2)"
    using "1.IH" [OF t(1) refl "1.prems"(1,2) _ _ t(3)] "1.prems"(3,4) by auto
  then show ?case using t by simp
qed auto

lemma passes_ok_run:
  assumes "unicode_tables (en_u env)" "pass_ok env shared I T C" "\<Union> (set ` set tss) \<subseteq> T" "sx_cfg ` set (fst sd) \<subseteq> C" "I (dm_dir (snd sd))"
  shows "\<exists>ss' d'. passes env shared tss sd = Some (ss', d') \<and> I (dm_dir d')"
  using assms
proof (induction tss arbitrary: sd)
  case (Cons ts tss)
  obtain ss1 d1 where p: "pass env shared ts (fst sd) (snd sd) = Some (ss1, d1)" "map sx_cfg ss1 = map sx_cfg (fst sd)" "I (dm_dir d1)"
    using pass_ok_run [OF Cons.prems(1,2) _ Cons.prems(4,5), of ts] Cons.prems(3) by auto
  have "sx_cfg ` set ss1 \<subseteq> C" using p(2) Cons.prems(4) by (metis list.set_map)
  then show ?case using Cons.IH [OF Cons.prems(1,2), of "(ss1, d1)"] Cons.prems(3) p by simp
qed auto

section \<open>What the daemon promises\<close>

text \<open>C30 (KB_SyncMain.only_whole_readings_are_applied): the realm directory changes in a source's turn
  only when the adapter completed a whole reading, the deployment is not a dry run, the
  directory was read and a plan was built without a name collision; and the change is then
  exactly the application of that plan. A failed, partial, refused or idle reading writes
  nothing.\<close>

theorem only_whole_readings_are_applied:
  assumes "tick env shared t (s, d) = Some (s', d')" "dm_dir d' \<noteq> dm_dir d"
  shows "\<exists>snap current p. tn_progress t = Inr (Complete snap) \<and> \<not> cf_dry_run shared
    \<and> read_directory env (sx_cfg s) (dm_dir d) = Inr current
    \<and> plan_sync (en_u env) (ss_desired snap) current (plan_ctx_of shared (sx_cfg s) snap (tn_now t)) = Inr p
    \<and> dm_dir d' = snd (apply_ops (en_server env) (so_idp_ou (sx_cfg s)) (en_passwords env)
        (marker_index current) 0 (p_ops p) (dm_dir d))"
  using tick_dir [OF assms(1)] assms(2) unfolding applied_plan_def by blast

text \<open>C29 (KB_SyncMain.daemon_contained_and_total): whatever the sources report and however the directory
  answers, as long as what can be read of it makes well-formed planner inputs, the daemon
  completes every pass without a crash, and any property of the directory that requests inside
  the sources' own units preserve, and that never replace the marker attribute, still holds.\<close>

theorem daemon_contained_and_total:
  assumes "unicode_tables (en_u env)"
    and "\<And>s req x. s \<in> set ss \<Longrightarrow> request_ok (en_u env) (so_idp_ou (sx_cfg s)) req \<Longrightarrow> I x
      \<Longrightarrow> I (snd (sv_exec (en_server env) req x))"
    and "\<And>s ts t. s \<in> set ss \<Longrightarrow> ts \<in> set tss \<Longrightarrow> t \<in> set ts \<Longrightarrow> usable env shared I (sx_cfg s) t"
    and "I (dm_dir d)"
  shows "\<exists>ss' d'. passes env shared tss (ss, d) = Some (ss', d') \<and> I (dm_dir d')"
proof (rule passes_ok_run [OF assms(1)])
  show "pass_ok env shared I (\<Union> (set ` set tss)) (sx_cfg ` set ss)"
    using assms(2,3) unfolding pass_ok_def keeps_inv_def by auto
qed (use assms(4) in simp_all)

text \<open>Fact (KB_SyncMain.outages_bracketed): starting with no failures, in every run of passes over distinctly
  named sources, each source's \<open>STALLED\<close> and \<open>RESUMED\<close> lines alternate, beginning with
  \<open>STALLED\<close>, and the trail and the problem list agree with the failure counter: an outage is
  under way, and \<open>sync-cycle-failing\<close> open for the source, exactly while its count of
  consecutive discarded cycles is at the threshold.\<close>

theorem outages_bracketed:
  assumes "distinct (map (cfg_name \<circ> sx_cfg) ss)" "\<And>s. s \<in> set ss \<Longrightarrow> sx_consecutive_failures s = 0"
    and "wf_records (ps_records (nt_problems (dm_notifier d)))" "dm_audit d = []"
    and "\<And>su. rec_get (ps_records (nt_problems (dm_notifier d))) CYCLE_FAILING su = None"
    and "passes env shared tss (ss, d) = Some (ss', d')" "s \<in> set ss'"
  shows "outage_after False (filter (outage_line (cfg_name (sx_cfg s))) (dm_audit d')) = Some (FAIL_THRESHOLD \<le> sx_consecutive_failures s)
    \<and> (\<exists>p. rec_get (ps_records (nt_problems (dm_notifier d'))) CYCLE_FAILING (cfg_name (sx_cfg s)) = Some p \<and> pr_open p)
       = (FAIL_THRESHOLD \<le> sx_consecutive_failures s)"
proof -
  have "all_tracked (ss, d)"
    using assms(1-5)
    by (simp add: all_tracked_def wf_daemon_def list_all_iff tracked_def outage_lines_def failing_open_def drec_def FAIL_THRESHOLD_def)
  then have "all_tracked (ss', d')" using passes_tracked assms(6) by blast
  then show ?thesis
    using assms(7) by (simp add: all_tracked_def list_all_iff tracked_def outage_lines_def failing_open_def drec_def)
qed

text \<open>Fact (KB_SyncMain.rotated_credential_is_silent): after a credential was reported with less than a
  week left and then rotated, the daemon says nothing when its successor enters the 14-day or
  the 30-day step: closing the problem does not re-arm the countdown.\<close>

theorem rotated_credential_is_silent:
  assumes "wf_records (ps_records (nt_problems (dm_notifier d)))"
    and "old < 7" "cf_warn_before_days shared < rotated" "7 \<le> rotated"
    and "7 \<le> new" "new \<le> 30" "new \<le> cf_warn_before_days shared"
    and "d1 = report_credential env t1 (Asserted old) su name shared d"
    and "d2 = report_credential env t2 (Asserted rotated) su name shared d1"
  shows "dm_posts (report_credential env t3 (Asserted new) su name shared d2) = dm_posts d2"
proof -
  have d1: "d1 = raise_event env t1 (expiring name su old Error) d" using assms(2,8) by (simp add: report_credential_def)
  have d2: "d2 = cleared env t2 (lit ''sync-credential-expiring'') su d1"
    using assms(3,4,9) by (simp add: report_credential_def)
  have "\<exists>step. band old = Some step \<and> step \<le> 7" using assms(2) by (simp add: band_cases)
  then obtain step where step: "band old = Some step" "step \<le> 7" by blast
  have "\<exists>step. band new = Some step \<and> 7 \<le> step" using assms(5,6) by (simp add: band_cases)
  then obtain step' where step': "band new = Some step'" "7 \<le> step'" by blast
  let ?e = "expiring name su old Error"
  have ev: "ev_event (expiring name su x sev) = lit ''sync-credential-expiring''" "ev_subject (expiring name su x sev) = su"
    "ev_repeat (expiring name su x sev) = Countdown x" for x sev
    by (simp_all add: expiring_def)
  have "drec d1 (lit ''sync-credential-expiring'') su \<noteq> None \<and> (\<forall>p. drec d1 (lit ''sync-credential-expiring'') su = Some p \<longrightarrow> pr_band p = Some step)"
    unfolding d1 using step(1) by (simp add: drec_def notify_problems rec_get_raise raised_def ev)
  moreover have "wf_daemon d1" unfolding d1 by (rule wf_notify) (simp add: wf_daemon_def assms(1))
  ultimately obtain p where p: "drec d2 (lit ''sync-credential-expiring'') su = Some p" "pr_band p = Some step"
    unfolding d2 by (auto simp: drec_cleared)
  then have "\<not> due (drec d2 (lit ''sync-credential-expiring'') su) (expiring name su new Warning) t3 i dl" for i dl
    using step(2) step' by (simp add: due_def ev)
  then have "fst (send_event (en_fs env) (en_js env) t3 (expiring name su new Warning) (dm_notifier d2)) = []"
    by (simp add: send_event_def Let_def raise_def drec_def ev split: option.split)
  then show ?thesis
    using assms(5,7) by (simp add: report_credential_def raise_event_def split_beta)
qed

section \<open>A deployment\<close>

definition sample_env :: "(plain, problem, request list) env" where
  "sample_env = \<lparr>en_u = block_tables, en_fs = plain_disk, en_js = serde_js, en_server = log_server,
     en_connects = (\<lambda>_. True), en_ou_search = (\<lambda>_ _. Inr []), en_domain_search = (\<lambda>_. Inr []),
     en_ask = (\<lambda>_ _ _. Inl LdapFailed), en_passwords = (\<lambda>_. []), en_alert_text = (\<lambda>_. []),
     en_collision_text = (\<lambda>_. []), en_error_text = (\<lambda>_. [])\<rparr>"

definition sample_shared :: sync_config where
  "sample_shared = \<lparr>cf_dry_run = False, cf_automatic_sam_renames = False, cf_device_grant_days = 30,
     cf_device_grant_notify_days = None, cf_warn_before_days = 30, cf_upn_suffix = lit ''r''\<rparr>"

definition sample_sync_source :: source_sync where
  "sample_sync_source = \<lparr>sx_cfg = \<lparr>so_source = Source (lit ''s''), so_idp_ou = lit ''OU=e'', so_group_suffix = [],
     so_identity = (\<lambda>oid. Inr oid)\<rparr>, sx_consecutive_failures = 0\<rparr>"

definition sample_daemon :: "(plain, request list) daemon" where
  "sample_daemon = \<lparr>dm_notifier = sample_notifier\<lparr>nt_channel := None\<rparr>, dm_posts = [], dm_audit = [], dm_dir = []\<rparr>"

definition sample_snapshot :: source_snapshot where
  "sample_snapshot = \<lparr>ss_desired = sample_desired, ss_admission = lit ''ad01'', ss_grant = None, ss_refused = []\<rparr>"

definition sample_turn :: "source_error + progress \<Rightarrow> turn" where
  "sample_turn p = \<lparr>tn_now = 0, tn_credential = UnknownExpiry, tn_subject = [], tn_progress = p\<rparr>"

definition empty_current :: current where
  "empty_current = \<lparr>c_users = [], c_groups = [], c_foreign_sams = [], c_unmanaged_dns = []\<rparr>"

lemma sample_dir_read: "read_directory sample_env cfg dir = Inr empty_current"
  by (simp add: read_directory_def sample_env_def read_current_def rbind_def empty_current_def foreign_sams_def List.map_filter_simps)

lemma sample_usable:
  assumes "tn_progress t = Inr (Complete sample_snapshot) \<or> \<not> (\<exists>snap. tn_progress t = Inr (Complete snap))"
    "so_idp_ou cfg = lit ''OU=e''"
  shows "usable sample_env sample_shared I cfg t"
proof -
  have "dn_components block_tables (lit ''OU=e'') \<noteq> None"
    using sample_wf by (simp add: wf_inputs_def sample_ctx_def)
  then have "wf_inputs block_tables sample_desired empty_current (plan_ctx_of sample_shared cfg sample_snapshot now)" for now
    using sample_wf assms(2) by (auto simp: wf_inputs_def empty_current_def plan_ctx_of_def filed_by_subject_def)
  moreover have "wf_current empty_current" by (simp add: wf_current_def empty_current_def)
  moreover have "en_u sample_env = block_tables" "ss_desired sample_snapshot = sample_desired"
    by (simp_all add: sample_env_def sample_snapshot_def)
  ultimately show ?thesis using assms unfolding usable_def sample_dir_read by auto
qed

lemma sample_plan:
  "\<exists>p. plan_sync block_tables sample_desired empty_current (plan_ctx_of sample_shared (sx_cfg sample_sync_source) sample_snapshot now) = Inr p
     \<and> (\<exists>dn a b c e i rest. p_ops p = CreateUser dn a b c e i # rest)"
  by (simp add: plan_eval empty_current_def plan_ctx_of_def sample_shared_def sample_sync_source_def sample_snapshot_def)
    (rule exI [of _ True], simp)

lemma apply_one_grows: "length d \<le> length (snd (apply_one log_server ou pw markers op d))"
proof -
  have s: "sound_for (\<lambda>x. length d \<le> length x) (send log_server req)" for req
    by (rule sound_send) (simp add: log_server_def)
  have m: "sound_for (\<lambda>x. length d \<le> length x) (modify log_server dn md)" for dn md
    unfolding modify_def by (rule s)
  have a: "sound_for (\<lambda>x. length d \<le> length x) (assert_no_role_marker_yet log_server ou)"
    by (simp add: sound_for_def assert_no_role_marker_yet_def)
  have "sound_for (\<lambda>x. length d \<le> length x) (apply_one log_server ou pw markers op)"
    by (cases op) (auto simp: replace_uac_def set_if_def Let_def sound_for_def [of _ "Pair _"] split: option.split
        intro!: sound_andThen sound_pure s m a)
  then show ?thesis by (simp add: sound_for_def)
qed

lemma log_server_grows: "length d \<le> length (snd (apply_ops log_server ou pws markers n ops d))"
proof (induction ops arbitrary: n d)
  case (Cons op ops)
  have "length d \<le> length (snd (apply_one log_server ou (pws n) markers op d))"
    by (rule apply_one_grows)
  also have "\<dots> \<le> length (snd (apply_ops log_server ou pws markers (n + 1) ops (snd (apply_one log_server ou (pws n) markers op d))))"
    by (rule Cons.IH)
  finally show ?case by (simp add: Let_def split_beta split: sum.split)
qed simp

theorem only_whole_readings_are_applied_witness:
  "\<exists>s' d'. tick sample_env sample_shared (sample_turn (Inr (Complete sample_snapshot))) (sample_sync_source, sample_daemon) = Some (s', d')
    \<and> dm_dir d' \<noteq> []
    \<and> (\<exists>snap current p. Inr (Complete sample_snapshot) = (Inr (Complete snap) :: source_error + progress) \<and> \<not> cf_dry_run sample_shared
    \<and> read_directory sample_env (sx_cfg sample_sync_source) [] = Inr current
    \<and> plan_sync (en_u sample_env) (ss_desired snap) current (plan_ctx_of sample_shared (sx_cfg sample_sync_source) snap 0) = Inr p
    \<and> dm_dir d' = snd (apply_ops (en_server sample_env) (so_idp_ou (sx_cfg sample_sync_source)) (en_passwords sample_env)
        (marker_index current) 0 (p_ops p) []))"
proof -
  let ?t = "sample_turn (Inr (Complete sample_snapshot))"
  obtain p where p: "plan_sync block_tables sample_desired empty_current (plan_ctx_of sample_shared (sx_cfg sample_sync_source) sample_snapshot 0) = Inr p"
    "\<exists>dn a b c e i rest. p_ops p = CreateUser dn a b c e i # rest" using sample_plan by blast
  let ?dir = "snd (apply_ops log_server (lit ''OU=e'') (\<lambda>_. []) (marker_index empty_current) 0 (p_ops p) [])"
  have "1 \<le> length ?dir"
  proof -
    obtain dn a b c e i rest where ops: "p_ops p = CreateUser dn a b c e i # rest" using p(2) by blast
    have one: "length (snd (apply_one log_server ou pw m (CreateUser dn a b c e i) [])) = 1" for ou pw m
      by (simp add: send_def log_server_def Let_def)
    show ?thesis
      using log_server_grows [of "snd (apply_one log_server (lit ''OU=e'') [] (marker_index empty_current) (CreateUser dn a b c e i) [])"
          "lit ''OU=e''" "\<lambda>_. []" "marker_index empty_current" 1 rest] one
      unfolding ops by (simp add: Let_def split_beta del: apply_one.simps split: sum.split)
  qed
  then have ne: "?dir \<noteq> []" by auto
  have u: "unicode_tables (en_u sample_env)" by (simp add: sample_env_def block.unicode_tables_axioms)
  have us: "usable sample_env sample_shared (\<lambda>_. True) (sx_cfg sample_sync_source) ?t"
    by (rule sample_usable) (simp_all add: sample_turn_def sample_sync_source_def)
  have ki: "keeps_inv sample_env (\<lambda>_. True) (so_idp_ou (sx_cfg sample_sync_source))" by (simp add: keeps_inv_def)
  obtain s' d' where tick: "tick sample_env sample_shared ?t (sample_sync_source, sample_daemon) = Some (s', d')"
    using tick_ok [OF u us _ ki, of sample_daemon] by auto
  have env: "en_u sample_env = block_tables" "en_server sample_env = log_server" "en_connects sample_env x"
    "en_passwords sample_env = (\<lambda>_. [])" for x
    by (simp_all add: sample_env_def)
  have src: "so_idp_ou (sx_cfg sample_sync_source) = lit ''OU=e''" "\<not> cf_dry_run sample_shared"
    "ss_desired sample_snapshot = sample_desired" "dm_dir sample_daemon = []"
    by (simp_all add: sample_sync_source_def sample_shared_def sample_snapshot_def sample_daemon_def)
  have "dm_dir d' = ?dir"
    using tick p(1)
    by (auto simp: tick_def sample_turn_def Let_def reconcile_def sample_dir_read env src apply_plan_def split_beta split: if_splits)
  then have chg: "dm_dir d' \<noteq> dm_dir sample_daemon" using ne by (simp add: sample_daemon_def)
  from only_whole_readings_are_applied [OF tick chg] tick chg show ?thesis
    by (auto simp: sample_turn_def sample_daemon_def)
qed

theorem daemon_contained_and_total_witness:
  "\<exists>ss' d'. passes sample_env sample_shared
      [[sample_turn (Inl (Unreachable []))], [sample_turn (Inr (Complete sample_snapshot))]] ([sample_sync_source], sample_daemon) = Some (ss', d')
    \<and> list_all (request_ok block_tables (lit ''OU=e'')) (dm_dir d')"
proof (rule daemon_contained_and_total)
  show "unicode_tables (en_u sample_env)" by (simp add: sample_env_def block.unicode_tables_axioms)
  show "usable sample_env sample_shared (list_all (request_ok block_tables (lit ''OU=e''))) (sx_cfg s) t"
    if "s \<in> set [sample_sync_source]" "ts \<in> set [[sample_turn (Inl (Unreachable []))], [sample_turn (Inr (Complete sample_snapshot))]]"
      "t \<in> set ts" for s ts t
    using that by (intro sample_usable) (auto simp: sample_turn_def sample_sync_source_def)
qed (auto simp: sample_env_def log_server_def sample_daemon_def sample_sync_source_def)

theorem outages_bracketed_witness:
  "\<exists>s d'. passes sample_env sample_shared (replicate 3 [sample_turn (Inl (Unreachable []))]) ([sample_sync_source], sample_daemon) = Some ([s], d')
    \<and> outage_after False (filter (outage_line (lit ''s'')) (dm_audit d')) = Some True"
proof -
  let ?r = "passes sample_env sample_shared (replicate 3 [sample_turn (Inl (Unreachable []))]) ([sample_sync_source], sample_daemon)"
  let ?d = "snd (the ?r)" and ?s = "sample_sync_source\<lparr>sx_consecutive_failures := 3\<rparr>"
  have r: "?r = Some ([?s], ?d)"
    by (simp add: numeral_3_eq_3 sample_turn_def sample_sync_source_def tick_def Let_def cycle_failed_def split_beta apfst_def map_prod_def)
  have "outage_after False (filter (outage_line (cfg_name (sx_cfg ?s))) (dm_audit ?d)) = Some (FAIL_THRESHOLD \<le> sx_consecutive_failures ?s)
    \<and> (\<exists>p. rec_get (ps_records (nt_problems (dm_notifier ?d))) CYCLE_FAILING (cfg_name (sx_cfg ?s)) = Some p \<and> pr_open p)
       = (FAIL_THRESHOLD \<le> sx_consecutive_failures ?s)"
    by (rule outages_bracketed [OF _ _ _ _ _ r])
      (simp_all add: sample_sync_source_def sample_daemon_def sample_notifier_def wf_records_def)
  then show ?thesis using r by (auto simp: sample_sync_source_def cfg_name_def FAIL_THRESHOLD_def)
qed

theorem rotated_credential_is_silent_witness:
  "dm_posts (report_credential sample_env 31536000 (Asserted 30) [] [] sample_shared
     (report_credential sample_env 86400 (Asserted 365) [] [] sample_shared
       (report_credential sample_env 0 (Asserted 1) [] [] sample_shared (sample_daemon\<lparr>dm_notifier := sample_notifier\<rparr>))))
   = dm_posts (report_credential sample_env 86400 (Asserted 365) [] [] sample_shared
       (report_credential sample_env 0 (Asserted 1) [] [] sample_shared (sample_daemon\<lparr>dm_notifier := sample_notifier\<rparr>)))"
  by (rule rotated_credential_is_silent [OF _ _ _ _ _ _ _ refl refl])
    (simp_all add: sample_daemon_def sample_notifier_def sample_shared_def wf_records_def)

end
