(* ===== verification/KB_Jwks.thy ===== *)
theory KB_Jwks
  imports KB_Notify KB_Utf8 KB_Identity
begin

text \<open>
  The signing keys of an identity provider and how they are refreshed
  (\<open>crates/kerbridge-idp/src/jwks.rs\<close>). Base64 and the JSON reader are parameters; what the network
  or the disk answers to one fetch is the record \<open>net\<close>; every reading of a clock is an argument. An
  error of \<open>anyhow\<close> is the list of its causes, outermost first, each with its text and whether it is
  a connection failure of the HTTP client. The lock is held for one phase at a time, so phases of
  several requests interleave: \<open>kstep\<close> is that relation, with the fetch between two phases.
  Error texts name a key id as it is, without the quotes of the debug format, and leave out the
  texts of the base64 and UTF-8 decoders.
\<close>

section \<open>Keys\<close>

record rsa_key =
  rk_modulus :: "byte list"
  rk_exponent :: "byte list"
  rk_alg :: "str option"

definition pins :: "rsa_key \<Rightarrow> str \<Rightarrow> bool" where
  "pins k alg = (case rk_alg k of None \<Rightarrow> False | Some published \<Rightarrow> published \<noteq> alg)"

datatype rsa_parameters =
    RSA_PKCS1_2048_8192_SHA256 | RSA_PKCS1_2048_8192_SHA384 | RSA_PKCS1_2048_8192_SHA512
  | RSA_PSS_2048_8192_SHA256 | RSA_PSS_2048_8192_SHA384 | RSA_PSS_2048_8192_SHA512

definition JWS_ALGORITHMS :: "(str \<times> rsa_parameters) list" where
  "JWS_ALGORITHMS =
    [(lit ''RS256'', RSA_PKCS1_2048_8192_SHA256), (lit ''RS384'', RSA_PKCS1_2048_8192_SHA384),
     (lit ''RS512'', RSA_PKCS1_2048_8192_SHA512), (lit ''PS256'', RSA_PSS_2048_8192_SHA256),
     (lit ''PS384'', RSA_PSS_2048_8192_SHA384), (lit ''PS512'', RSA_PSS_2048_8192_SHA512)]"

definition jws_algorithm :: "str \<Rightarrow> rsa_parameters option" where
  "jws_algorithm alg = map_of JWS_ALGORITHMS alg"

datatype jwks_source = JwksFile str | JwksUrl str

record jwk_entry =
  jk_kty :: str
  jk_kid :: "str option"
  jk_use :: "str option"
  jk_alg :: "str option"
  jk_n :: "str option"
  jk_e :: "str option"

section \<open>Fetching a document\<close>

datatype fetch_cause = Cause (cause_text: str) (cause_transient: bool)
type_synonym fetch_error = "fetch_cause list"

definition plain_error :: "str \<Rightarrow> fetch_error" where "plain_error message = [Cause message False]"

definition error_context :: "str \<Rightarrow> fetch_error + 'a \<Rightarrow> fetch_error + 'a" where
  "error_context message = map_err (\<lambda>e. Cause message False # e)"

record http_response =
  hr_status :: "fetch_error + unit"
  hr_chunks :: "(fetch_error + byte list) list"

record net =
  nt_read :: "str \<Rightarrow> fetch_error + str"
  nt_client :: "fetch_error + unit"
  nt_get :: "str \<Rightarrow> fetch_error + http_response"

record jose =
  jo_b64url :: "str \<Rightarrow> byte list option"
  jo_document :: "str \<Rightarrow> fetch_error + jwk_entry list"

definition MAX_DOCUMENT_BYTES :: nat where "MAX_DOCUMENT_BYTES = 1024 * 1024"

fun body_loop :: "byte list \<Rightarrow> (fetch_error + byte list) list \<Rightarrow> fetch_error + byte list" where
  "body_loop body [] = Inr body"
| "body_loop body (Inl e # _) = Inl e"
| "body_loop body (Inr chunk # rest) =
     (if length body + length chunk > MAX_DOCUMENT_BYTES
      then Inl (plain_error (lit ''document is larger than the '' @ show_dec MAX_DOCUMENT_BYTES @ lit '' byte limit''))
      else body_loop (body @ chunk) rest)"

definition bounded_body :: "http_response \<Rightarrow> fetch_error + str" where
  "bounded_body response =
     rbind (body_loop [] (hr_chunks response)) (\<lambda>body.
       ok_or (plain_error (lit ''document is not UTF-8'')) (from_utf8 body))"

text \<open>The redirect policy: reqwest asks it with the URLs visited and the next one, here by scheme.\<close>

definition is_https_downgrade :: "str list \<Rightarrow> str \<Rightarrow> bool" where
  "is_https_downgrade previous next_scheme \<longleftrightarrow>
     previous \<noteq> [] \<and> last previous = lit ''https'' \<and> next_scheme = lit ''http''"

definition redirect_policy :: "(str list \<Rightarrow> str \<Rightarrow> bool) \<Rightarrow> str list \<Rightarrow> str \<Rightarrow> bool" where
  "redirect_policy default_policy previous next_scheme =
     (if is_https_downgrade previous next_scheme then False else default_policy previous next_scheme)"

definition no_key :: "fetch_error" where
  "no_key = plain_error (lit ''JWKS document contains no signing key this build can verify with'')"

fun parse_entries :: "jose \<Rightarrow> (str \<times> rsa_key) list \<Rightarrow> jwk_entry list \<Rightarrow> fetch_error + (str \<times> rsa_key) list" where
  "parse_entries jo out [] = Inr out"
| "parse_entries jo out (entry # rest) =
     (if jk_kty entry \<noteq> lit ''RSA'' \<or> (case jk_use entry of None \<Rightarrow> False | Some u \<Rightarrow> u \<noteq> lit ''sig'')
      then parse_entries jo out rest
      else if (case jk_alg entry of None \<Rightarrow> False | Some a \<Rightarrow> jws_algorithm a = None)
      then parse_entries jo out rest
      else (case (jk_kid entry, jk_n entry, jk_e entry) of
          (Some kid, Some n, Some e) \<Rightarrow>
            rbind (ok_or (plain_error (lit ''JWKS modulus is not base64url'')) (jo_b64url jo n)) (\<lambda>modulus.
            rbind (ok_or (plain_error (lit ''JWKS exponent is not base64url'')) (jo_b64url jo e)) (\<lambda>exponent.
              if map_of out kid \<noteq> None
              then Inl (plain_error (lit ''JWKS document publishes two usable keys under kid '' @ kid))
              else parse_entries jo ((kid, \<lparr>rk_modulus = modulus, rk_exponent = exponent, rk_alg = jk_alg entry\<rparr>) # out) rest))
        | _ \<Rightarrow> parse_entries jo out rest))"

definition jwks_parse :: "jose \<Rightarrow> str \<Rightarrow> fetch_error + (str \<times> rsa_key) list" where
  "jwks_parse jo body =
     rbind (error_context (lit ''parsing JWKS document'') (jo_document jo body)) (\<lambda>entries.
     rbind (parse_entries jo [] entries) (\<lambda>out. if out = [] then Inl no_key else Inr out))"

definition fetch :: "jose \<Rightarrow> net \<Rightarrow> jwks_source \<Rightarrow> fetch_error + (str \<times> rsa_key) list" where
  "fetch jo net src =
     rbind (case src of
        JwksFile path \<Rightarrow> error_context (lit ''reading JWKS from '' @ path) (nt_read net path)
      | JwksUrl url \<Rightarrow>
          rbind (nt_client net) (\<lambda>_.
          rbind (error_context (lit ''fetching JWKS from '' @ url) (nt_get net url)) (\<lambda>response.
          rbind (hr_status response) (\<lambda>_.
            error_context (lit ''reading JWKS from '' @ url) (bounded_body response)))))
      (jwks_parse jo)"

section \<open>What a failure is reported as\<close>

fun text_contains :: "str \<Rightarrow> str \<Rightarrow> bool" where
  "text_contains [] marker = (marker = [])"
| "text_contains (c # s) marker = (starts_with (c # s) marker \<or> text_contains s marker)"

definition TRUST_MARKERS :: "str list" where
  "TRUST_MARKERS = [lit ''certificate'', lit ''tls handshake'', lit ''unknownissuer'', lit ''self-signed'', lit ''notvalidforname'']"

definition looks_like_a_trust_failure :: "fetch_error \<Rightarrow> bool" where
  "looks_like_a_trust_failure e =
     list_ex (\<lambda>c. list_ex (text_contains (map to_ascii_lowercase (cause_text c))) TRUST_MARKERS) e"

definition is_transient :: "fetch_error \<Rightarrow> bool" where
  "is_transient e = list_ex cause_transient e"

abbreviation KEYS_UNAVAILABLE :: str where "KEYS_UNAVAILABLE \<equiv> lit ''idp-keys-unavailable''"
abbreviation TRUST_FAILURE :: str where "TRUST_FAILURE \<equiv> lit ''idp-trust-failure''"

definition error_chain :: "fetch_error \<Rightarrow> str" where
  "error_chain e = join_with (lit '': '') (map cause_text e)"

definition idp_failure :: "fetch_error \<Rightarrow> source \<Rightarrow> severity \<Rightarrow> str \<Rightarrow> notify_event" where
  "idp_failure e idp severity what =
     with_detail (error_chain e) (with_subject (source_name idp)
       (event_new (if looks_like_a_trust_failure e then TRUST_FAILURE else KEYS_UNAVAILABLE) severity
         (lit ''cannot fetch the signing keys for source '' @ source_name idp @ lit '': '' @ what)))"

definition resolve_idp_failures ::
  "('f, 'b) fsys \<Rightarrow> (str \<Rightarrow> str) \<Rightarrow> nat \<Rightarrow> source \<Rightarrow> 'f notifier \<Rightarrow> str list \<times> 'f notifier" where
  "resolve_idp_failures w js now idp n =
     (let (p1, n1) = resolve_subject w js now KEYS_UNAVAILABLE (source_name idp) n;
          (p2, n2) = resolve_subject w js now TRUST_FAILURE (source_name idp) n1
      in (p1 @ p2, n2))"

section \<open>The cache\<close>

definition MAX_AGE :: nat where "MAX_AGE = 24 * 60 * 60"
definition MIN_REFRESH_INTERVAL :: nat where "MIN_REFRESH_INTERVAL = 5 * 60"
definition FAILED_REFRESH_INTERVAL :: nat where "FAILED_REFRESH_INTERVAL = 15"
definition STARTUP_RETRY_BUDGET :: nat where "STARTUP_RETRY_BUDGET = 90"
definition STARTUP_RETRY_INTERVAL :: nat where "STARTUP_RETRY_INTERVAL = 2"
definition ALERT_AFTER_FAILURES :: nat where "ALERT_AFTER_FAILURES = 3"

definition failure_backoff :: "nat \<Rightarrow> nat" where
  "failure_backoff consecutive_failures =
     (let doublings = min (consecutive_failures - 1) 5
      in min (FAILED_REFRESH_INTERVAL * 2 ^ doublings) MIN_REFRESH_INTERVAL)"

record key_cache =
  ks_by_kid :: "(str \<times> rsa_key) list"
  ks_fetched_at :: nat
  ks_retry_after :: nat
  ks_failures :: nat

record 'f jwks =
  jw_source :: jwks_source
  jw_idp :: source
  jw_keys :: key_cache
  jw_notifier :: "'f notifier"

text \<open>The phases of a refresh. Each argument is one reading of the clock, in the order of the code.\<close>

definition claim_refresh :: "nat \<Rightarrow> nat \<Rightarrow> key_cache \<Rightarrow> key_cache option" where
  "claim_refresh t t' ks =
     (if t < ks_retry_after ks then None
      else Some (ks\<lparr>ks_retry_after := t' + MIN_REFRESH_INTERVAL\<rparr>))"

definition refresh_done :: "nat \<Rightarrow> nat \<Rightarrow> (str \<times> rsa_key) list \<Rightarrow> key_cache \<Rightarrow> key_cache" where
  "refresh_done t t' renewed ks =
     \<lparr>ks_by_kid = renewed, ks_fetched_at = t, ks_retry_after = t' + MIN_REFRESH_INTERVAL, ks_failures = 0\<rparr>"

definition refresh_failed :: "nat \<Rightarrow> key_cache \<Rightarrow> key_cache" where
  "refresh_failed t ks =
     (let failures = min (ks_failures ks + 1) u32_max
      in ks\<lparr>ks_failures := failures, ks_retry_after := t + failure_backoff failures\<rparr>)"

record ('f, 'b) key_env =
  ke_disk :: "('f, 'b) fsys"
  ke_js :: "str \<Rightarrow> str"
  ke_jose :: jose

record readings =
  rd_elapsed :: nat
  rd_first :: nat
  rd_check :: nat
  rd_claim :: nat
  rd_done :: nat
  rd_after :: nat
  rd_wall :: nat

definition stale_alert :: "bool \<Rightarrow> severity \<times> str" where
  "stale_alert stale =
     (if stale then (Error, lit ''serving signing keys long past the refresh limit'')
      else (Warning, lit ''serving cached signing keys''))"

definition refresh :: "('f, 'b) key_env \<Rightarrow> net \<Rightarrow> readings \<Rightarrow> 'f jwks \<Rightarrow> str list \<times> 'f jwks" where
  "refresh env net rd jw =
     (if rd_first rd < ks_retry_after (jw_keys jw) then ([], jw)
      else case claim_refresh (rd_check rd) (rd_claim rd) (jw_keys jw) of
        None \<Rightarrow> ([], jw)
      | Some claimed \<Rightarrow>
          (case fetch (ke_jose env) net (jw_source jw) of
             Inr renewed \<Rightarrow>
               let (posts, n) = resolve_idp_failures (ke_disk env) (ke_js env) (rd_wall rd) (jw_idp jw) (jw_notifier jw)
               in (posts, jw\<lparr>jw_keys := refresh_done (rd_done rd) (rd_after rd) renewed claimed, jw_notifier := n\<rparr>)
           | Inl e \<Rightarrow>
               let ks = refresh_failed (rd_done rd) claimed;
                   stale = (rd_after rd - ks_fetched_at ks \<ge> MAX_AGE)
               in if ks_failures ks \<ge> ALERT_AFTER_FAILURES
                  then let (posts, n) = send_event (ke_disk env) (ke_js env) (rd_wall rd)
                             (idp_failure e (jw_idp jw) (fst (stale_alert stale)) (snd (stale_alert stale))) (jw_notifier jw)
                       in (posts, jw\<lparr>jw_keys := ks, jw_notifier := n\<rparr>)
                  else ([], jw\<lparr>jw_keys := ks\<rparr>)))"

definition with_key ::
  "('f, 'b) key_env \<Rightarrow> net \<Rightarrow> readings \<Rightarrow> str \<Rightarrow> (rsa_key \<Rightarrow> 'a) \<Rightarrow> 'f jwks \<Rightarrow> 'a option \<times> str list \<times> 'f jwks" where
  "with_key env net rd kid f jw =
     (case map_of (ks_by_kid (jw_keys jw)) kid of
        Some k \<Rightarrow>
          if rd_elapsed rd - ks_fetched_at (jw_keys jw) < MAX_AGE then (Some (f k), [], jw)
          else let (posts, jw') = refresh env net rd jw in (map_option f (map_of (ks_by_kid (jw_keys jw')) kid), posts, jw')
      | None \<Rightarrow> let (posts, jw') = refresh env net rd jw in (map_option f (map_of (ks_by_kid (jw_keys jw')) kid), posts, jw'))"

text \<open>
  The startup fetch. One attempt is what the source answered and the clock when that was known; the
  loop returns \<open>None\<close> when the attempts given run out before it settles.
\<close>

fun load_loop :: "jose \<Rightarrow> jwks_source \<Rightarrow> nat \<Rightarrow> (net \<times> nat) list \<Rightarrow> (fetch_error + (str \<times> rsa_key) list) option" where
  "load_loop jo src deadline [] = None"
| "load_loop jo src deadline ((net, now) # rest) =
     (case fetch jo net src of
        Inr by_kid \<Rightarrow> Some (Inr by_kid)
      | Inl e \<Rightarrow>
          if is_transient e \<and> now + STARTUP_RETRY_INTERVAL \<le> deadline then load_loop jo src deadline rest
          else Some (Inl e))"

definition load_keys ::
  "('f, 'b) key_env \<Rightarrow> jwks_source \<Rightarrow> source \<Rightarrow> nat \<Rightarrow> nat \<Rightarrow> (net \<times> nat) list \<Rightarrow> nat \<Rightarrow> nat \<Rightarrow> 'f notifier
     \<Rightarrow> ((fetch_error + 'f jwks) \<times> str list \<times> 'f notifier) option" where
  "load_keys env src idp started startup_retry attempts now wall n =
     map_option (\<lambda>outcome.
       case outcome of
         Inl e \<Rightarrow> (Inl e, send_event (ke_disk env) (ke_js env) wall
                     (idp_failure e idp Error (lit ''no signing keys at startup'')) n)
       | Inr by_kid \<Rightarrow>
           let (posts, n') = resolve_idp_failures (ke_disk env) (ke_js env) wall idp n
           in (Inr \<lparr>jw_source = src, jw_idp = idp,
                 jw_keys = \<lparr>ks_by_kid = by_kid, ks_fetched_at = now, ks_retry_after = now + MIN_REFRESH_INTERVAL, ks_failures = 0\<rparr>,
                 jw_notifier = n'\<rparr>, posts, n'))
       (load_loop (ke_jose env) src (started + startup_retry) attempts)"

end
