(* ===== verification/KB_JwksSound.thy ===== *)
theory KB_JwksSound
  imports KB_Jwks "HOL-Library.Multiset"
begin

text \<open>
  What the key cache promises: requests to the provider are rate limited in every interleaving of
  requests, an outage withdraws no key, the startup loop settles, and which key a document gives a
  kid does not depend on the order of its entries.
\<close>

section \<open>Backoff\<close>

lemma failure_backoff_bounds: "15 \<le> failure_backoff n \<and> failure_backoff n \<le> 300"
  by (simp add: failure_backoff_def Let_def FAILED_REFRESH_INTERVAL_def MIN_REFRESH_INTERVAL_def)

lemma failure_backoff_mono:
  assumes "m \<le> n"
  shows "failure_backoff m \<le> failure_backoff n"
proof -
  have "(2::nat) ^ min (m - 1) 5 \<le> 2 ^ min (n - 1) 5" using assms by (intro power_increasing) auto
  then have "FAILED_REFRESH_INTERVAL * 2 ^ min (m - 1) 5 \<le> FAILED_REFRESH_INTERVAL * 2 ^ min (n - 1) 5"
    by (rule mult_le_mono2)
  then show ?thesis unfolding failure_backoff_def Let_def by (rule min.mono) simp
qed

lemma failure_backoff_settles:
  assumes "n \<ge> 6"
  shows "failure_backoff n = 300"
proof -
  have "min (n - 1) 5 = 5" using assms by simp
  then show ?thesis by (simp add: failure_backoff_def FAILED_REFRESH_INTERVAL_def MIN_REFRESH_INTERVAL_def)
qed

section \<open>Refreshes under interleaving\<close>

text \<open>
  The shared state with the fetches that are out, the clock, and the history: when refreshes were
  claimed, when fetches failed, and the documents that were read, latest first.
\<close>

record kworld =
  kw_now :: nat
  kw_keys :: key_cache
  kw_out :: nat
  kw_claims :: "nat list"
  kw_failures :: "nat list"
  kw_documents :: "(str \<times> rsa_key) list list"

inductive kstep :: "jose \<Rightarrow> jwks_source \<Rightarrow> kworld \<Rightarrow> kworld \<Rightarrow> bool" for jo src where
  Time: "kstep jo src s (s\<lparr>kw_now := kw_now s + d\<rparr>)"
| Claim: "\<lbrakk>kw_now s \<le> t'; claim_refresh (kw_now s) t' (kw_keys s) = Some ks\<rbrakk> \<Longrightarrow>
    kstep jo src s (s\<lparr>kw_now := t', kw_keys := ks, kw_out := kw_out s + 1, kw_claims := t' # kw_claims s\<rparr>)"
| Done: "\<lbrakk>0 < kw_out s; fetch jo net src = Inr renewed; kw_now s \<le> t'\<rbrakk> \<Longrightarrow>
    kstep jo src s (s\<lparr>kw_now := t', kw_keys := refresh_done (kw_now s) t' renewed (kw_keys s), kw_out := kw_out s - 1,
      kw_documents := renewed # kw_documents s\<rparr>)"
| Failed: "\<lbrakk>0 < kw_out s; fetch jo net src = Inl e\<rbrakk> \<Longrightarrow>
    kstep jo src s (s\<lparr>kw_keys := refresh_failed (kw_now s) (kw_keys s), kw_out := kw_out s - 1,
      kw_failures := kw_now s # kw_failures s\<rparr>)"

inductive_cases kstepE: "kstep jo src s s'"

definition loaded_world :: "nat \<Rightarrow> key_cache \<Rightarrow> kworld" where
  "loaded_world now ks = \<lparr>kw_now = now, kw_keys = ks, kw_out = 0, kw_claims = [], kw_failures = [], kw_documents = [ks_by_kid ks]\<rparr>"

definition gap :: "nat list \<Rightarrow> nat \<Rightarrow> nat \<Rightarrow> bool" where
  "gap failures later earlier \<longleftrightarrow>
     earlier + MIN_REFRESH_INTERVAL \<le> later
     \<or> (\<exists>f \<in> set failures. earlier \<le> f \<and> f + FAILED_REFRESH_INTERVAL \<le> later)"

definition kinv :: "kworld \<Rightarrow> bool" where
  "kinv s \<longleftrightarrow> sorted_wrt (gap (kw_failures s)) (kw_claims s)
     \<and> list_all (gap (kw_failures s) (ks_retry_after (kw_keys s))) (kw_claims s)
     \<and> list_all (\<lambda>c. c \<le> kw_now s) (kw_claims s)
     \<and> kw_documents s \<noteq> [] \<and> ks_by_kid (kw_keys s) = hd (kw_documents s)"

lemma gap_mono: "gap fs b a \<Longrightarrow> b \<le> b' \<Longrightarrow> set fs \<subseteq> set fs' \<Longrightarrow> gap fs' b' a"
  unfolding gap_def by (meson add_le_mono le_trans order_refl subset_iff)

lemma gap_15: "gap fs b a \<Longrightarrow> a + 15 \<le> b"
  by (auto simp: gap_def MIN_REFRESH_INTERVAL_def FAILED_REFRESH_INTERVAL_def)

lemma gap_300: "a + 300 \<le> b \<Longrightarrow> gap fs b a"
  by (simp add: gap_def MIN_REFRESH_INTERVAL_def)

lemma kinv_step: "kstep jo src s s' \<Longrightarrow> kinv s \<Longrightarrow> kinv s'"
proof (induction rule: kstep.induct)
  case (Time s d)
  then show ?case by (auto simp: kinv_def list_all_iff)
next
  case (Claim s t' ks)
  have t: "ks_retry_after (kw_keys s) \<le> kw_now s" and ks: "ks = (kw_keys s)\<lparr>ks_retry_after := t' + MIN_REFRESH_INTERVAL\<rparr>"
    using Claim.hyps(2) by (auto simp: claim_refresh_def split: if_splits)
  have g: "gap (kw_failures s) t' c" if "c \<in> set (kw_claims s)" for c
    using Claim.prems Claim.hyps(1) t that by (auto simp: kinv_def list_all_iff intro: gap_mono)
  have l: "c \<le> t'" if "c \<in> set (kw_claims s)" for c using gap_15 [OF g [OF that]] by simp
  have r: "gap (kw_failures s) (t' + MIN_REFRESH_INTERVAL) c" if "c \<in> set (t' # kw_claims s)" for c
    using that l by (intro gap_300) (auto simp: MIN_REFRESH_INTERVAL_def)
  show ?case using Claim.prems g l r by (simp add: kinv_def list_all_iff ks)
next
  case (Done s net renewed t')
  then show ?case
    by (auto simp: kinv_def list_all_iff refresh_done_def MIN_REFRESH_INTERVAL_def intro!: gap_300)
next
  case (Failed s net e)
  let ?b = "failure_backoff (min (ks_failures (kw_keys s) + 1) u32_max)"
  have w: "gap fs b a \<Longrightarrow> gap (kw_now s # fs) b a" for fs a b by (auto intro: gap_mono)
  have g: "gap (kw_now s # kw_failures s) (kw_now s + ?b) c" if "c \<in> set (kw_claims s)" for c
    using Failed.prems that failure_backoff_bounds
    by (auto simp: gap_def kinv_def list_all_iff FAILED_REFRESH_INTERVAL_def)
  show ?case using Failed.prems g
    by (auto simp: kinv_def list_all_iff refresh_failed_def Let_def intro: sorted_wrt_mono_rel [OF w])
qed

lemma kinv_reach: "(kstep jo src)\<^sup>*\<^sup>* s s' \<Longrightarrow> kinv s \<Longrightarrow> kinv s'"
  by (induction rule: rtranclp_induct) (auto intro: kinv_step)

lemma kinv_loaded: "kinv (loaded_world now ks)"
  by (simp add: kinv_def loaded_world_def)

lemma spaced_window:
  assumes "sorted_wrt (\<lambda>later earlier. earlier + 15 \<le> later) ts" "list_all (\<lambda>t. a \<le> t \<and> t \<le> a + w) ts"
  shows "length ts \<le> w div 15 + 1"
proof -
  have "a + 15 * (length ts - 1) \<le> Max (set ts)" if "ts \<noteq> []" using assms that
  proof (induction ts)
    case (Cons t ts)
    show ?case
    proof (cases "ts = []")
      case False
      then have m: "Max (set ts) + 15 \<le> t" "a + 15 * (length ts - 1) \<le> Max (set ts)"
        using Cons by simp_all
      then have "Max (set (t # ts)) = t" using False by (simp add: max_def)
      then show ?thesis using m False by (cases ts) auto
    qed (use Cons in simp)
  qed simp
  moreover have "Max (set ts) \<le> a + w" if "ts \<noteq> []" using that assms(2) by (simp add: list_all_iff)
  ultimately have "a + 15 * (length ts - 1) \<le> a + w" if "ts \<noteq> []" using that by (meson le_trans)
  then have "15 * (length ts - 1) \<le> w" by (cases "ts = []") auto
  then have "length ts - 1 \<le> w div 15" by (simp add: less_eq_div_iff_mult_less_eq mult.commute)
  then show ?thesis by simp
qed

text \<open>
  Fact (KB_JwksSound.refreshes_rate_limited). However requests interleave, two refreshes of the keys are
  300 seconds apart, or 15 seconds after a fetch that failed in between; so a stream of tokens with
  invented key ids causes at most one request to the provider per 15 seconds, and at most one per
  five minutes while the provider answers. The keys in force are those of the last document read.
\<close>

theorem refreshes_rate_limited:
  assumes "(kstep jo src)\<^sup>*\<^sup>* (loaded_world now ks) s"
  shows "sorted_wrt (gap (kw_failures s)) (kw_claims s)
    \<and> length (filter (\<lambda>t. a \<le> t \<and> t \<le> a + w) (kw_claims s)) \<le> w div 15 + 1
    \<and> ks_by_kid (kw_keys s) = hd (kw_documents s)"
proof -
  have i: "kinv s" by (rule kinv_reach [OF assms kinv_loaded])
  then have "sorted_wrt (gap (kw_failures s)) (kw_claims s)" by (simp add: kinv_def)
  then have "sorted_wrt (\<lambda>later earlier. earlier + 15 \<le> later) (kw_claims s)"
    by (rule sorted_wrt_mono_rel [rotated]) (rule gap_15)
  then have "sorted_wrt (\<lambda>later earlier. earlier + 15 \<le> later) (filter (\<lambda>t. a \<le> t \<and> t \<le> a + w) (kw_claims s))"
    by (rule sorted_wrt_filter)
  from spaced_window [OF this, of a w] show ?thesis using i by (simp add: kinv_def list_all_iff)
qed

section \<open>An outage withdraws no key\<close>

lemma refresh_keys:
  obtains "jw_keys (snd (refresh env net rd jw)) = jw_keys jw"
  | claimed where "claim_refresh (rd_check rd) (rd_claim rd) (jw_keys jw) = Some claimed"
      "\<exists>renewed. fetch (ke_jose env) net (jw_source jw) = Inr renewed
         \<and> jw_keys (snd (refresh env net rd jw)) = refresh_done (rd_done rd) (rd_after rd) renewed claimed"
  | claimed where "claim_refresh (rd_check rd) (rd_claim rd) (jw_keys jw) = Some claimed"
      "\<exists>e. fetch (ke_jose env) net (jw_source jw) = Inl e"
      "jw_keys (snd (refresh env net rd jw)) = refresh_failed (rd_done rd) claimed"
proof (cases "rd_first rd < ks_retry_after (jw_keys jw) \<or> claim_refresh (rd_check rd) (rd_claim rd) (jw_keys jw) = None")
  case True
  then have "jw_keys (snd (refresh env net rd jw)) = jw_keys jw" by (auto simp: refresh_def)
  then show ?thesis by (rule that(1))
next
  case False
  then obtain claimed where c: "claim_refresh (rd_check rd) (rd_claim rd) (jw_keys jw) = Some claimed"
    "\<not> rd_first rd < ks_retry_after (jw_keys jw)" by auto
  show ?thesis
  proof (cases "fetch (ke_jose env) net (jw_source jw)")
    case (Inl e)
    then have "jw_keys (snd (refresh env net rd jw)) = refresh_failed (rd_done rd) claimed"
      using c by (simp add: refresh_def Let_def split_beta)
    with c(1) Inl show ?thesis by (intro that(3)) auto
  next
    case (Inr renewed)
    then have "jw_keys (snd (refresh env net rd jw)) = refresh_done (rd_done rd) (rd_after rd) renewed claimed"
      using c by (simp add: refresh_def Let_def split_beta)
    with c(1) Inr show ?thesis by (intro that(2)) auto
  qed
qed

lemma claim_keeps_keys: "claim_refresh t t' ks = Some ks' \<Longrightarrow> ks_by_kid ks' = ks_by_kid ks"
  by (auto simp: claim_refresh_def split: if_splits)

lemma refresh_failed_keeps_keys: "ks_by_kid (refresh_failed t ks) = ks_by_kid ks"
  by (simp add: refresh_failed_def Let_def)

lemma failed_refresh_keeps_keys:
  assumes "fetch (ke_jose env) net (jw_source jw) = Inl e"
  shows "ks_by_kid (jw_keys (snd (refresh env net rd jw))) = ks_by_kid (jw_keys jw)"
  by (rule refresh_keys [of env net rd jw]) (simp_all add: assms claim_keeps_keys refresh_failed_keeps_keys)

lemma with_key_result:
  "fst (with_key env net rd kid f jw) = map_option f (map_of (ks_by_kid (jw_keys (snd (snd (with_key env net rd kid f jw))))) kid)"
  by (simp add: with_key_def Let_def split_beta split: option.splits)

lemma with_key_some:
  assumes "with_key env net rd kid f jw = (Some x, posts, jw')"
  shows "\<exists>k. map_of (ks_by_kid (jw_keys jw')) kid = Some k \<and> x = f k"
proof -
  have "map_option f (map_of (ks_by_kid (jw_keys jw')) kid) = Some x"
    using with_key_result [of env net rd kid f jw] by (simp add: assms)
  then show ?thesis by auto
qed

lemma with_key_keys:
  "snd (snd (with_key env net rd kid f jw)) \<in> {jw, snd (refresh env net rd jw)}"
  by (simp add: with_key_def Let_def split_beta split: option.splits)

text \<open>
  Fact (KB_JwksSound.outage_withdraws_no_key). A request whose refresh fails, however old the document
  is and however often a refresh has failed before, finds exactly the keys that were cached; and a
  request that meets the rate limit makes no request to the provider, whatever it would answer.
\<close>

theorem outage_withdraws_no_key:
  assumes "fetch (ke_jose env) net (jw_source jw) = Inl e \<or> rd_first rd < ks_retry_after (jw_keys jw)"
  shows "fst (with_key env net rd kid f jw) = map_option f (map_of (ks_by_kid (jw_keys jw)) kid)
    \<and> ks_by_kid (jw_keys (snd (snd (with_key env net rd kid f jw)))) = ks_by_kid (jw_keys jw)
    \<and> (rd_first rd < ks_retry_after (jw_keys jw)
        \<longrightarrow> with_key env net rd kid f jw = (map_option f (map_of (ks_by_kid (jw_keys jw)) kid), [], jw))"
proof -
  have r: "rd_first rd < ks_retry_after (jw_keys jw) \<Longrightarrow> refresh env net rd jw = ([], jw)" by (simp add: refresh_def)
  then have k: "ks_by_kid (jw_keys (snd (refresh env net rd jw))) = ks_by_kid (jw_keys jw)"
    using assms failed_refresh_keeps_keys by (cases "rd_first rd < ks_retry_after (jw_keys jw)") auto
  have "ks_by_kid (jw_keys (snd (snd (with_key env net rd kid f jw)))) = ks_by_kid (jw_keys jw)"
    using with_key_keys [of env net rd kid f jw] k by auto
  moreover have "rd_first rd < ks_retry_after (jw_keys jw)
      \<longrightarrow> with_key env net rd kid f jw = (map_option f (map_of (ks_by_kid (jw_keys jw)) kid), [], jw)"
    using r by (simp add: with_key_def split: option.splits)
  ultimately show ?thesis using with_key_result [of env net rd kid f jw] by simp
qed

section \<open>The startup loop settles\<close>

lemma load_loop_settles:
  assumes "\<forall>i < length attempts. started + 2 * i \<le> snd (attempts ! i)" "n < length attempts" "started + b < started + 2 * n + 2"
  shows "load_loop jo src (started + b) attempts \<noteq> None"
  using assms
proof (induction attempts arbitrary: started n b)
  case (Cons a rest)
  obtain net now where a: "a = (net, now)" by (cases a)
  show ?case
  proof (cases "fetch jo net src")
    case (Inl e)
    show ?thesis
    proof (cases "is_transient e \<and> now + 2 \<le> started + b")
      case True
      have "started \<le> now" using Cons.prems(1) a by force
      then have n: "2 \<le> b" "n > 0" using True Cons.prems(3) by auto
      have h: "\<forall>i < length rest. (started + 2) + 2 * i \<le> snd (rest ! i)"
        using Cons.prems(1) by (auto dest: spec [of _ "Suc _"])
      have "load_loop jo src ((started + 2) + (b - 2)) rest \<noteq> None"
        using n Cons.prems(2,3) by (intro Cons.IH [of "started + 2" "n - 1" "b - 2"] h) auto
      moreover have e: "(started + 2) + (b - 2) = started + b" using n by simp
      ultimately have "load_loop jo src (started + b) rest \<noteq> None" by (subst (asm) e)
      then show ?thesis using True a Inl by (simp add: STARTUP_RETRY_INTERVAL_def)
    qed (use a Inl in \<open>auto simp: STARTUP_RETRY_INTERVAL_def\<close>)
  qed (use a in simp)
qed simp

text \<open>
  Fact (KB_JwksSound.startup_settles). The broker's startup fetch ends: with the two-second sleep between
  attempts, whatever the attempts answer, the loop of a 90-second budget has decided within 46 of
  them.
\<close>

theorem startup_settles:
  assumes "\<forall>i < length attempts. started + STARTUP_RETRY_INTERVAL * i \<le> snd (attempts ! i)" "46 \<le> length attempts"
  shows "load_keys env src idp started STARTUP_RETRY_BUDGET attempts now wall n \<noteq> None"
proof -
  have "load_loop (ke_jose env) src (started + STARTUP_RETRY_BUDGET) attempts \<noteq> None"
    using assms by (intro load_loop_settles [where n = 45]) (auto simp: STARTUP_RETRY_INTERVAL_def STARTUP_RETRY_BUDGET_def)
  then show ?thesis by (simp add: load_keys_def)
qed

lemma final_at_once:
  assumes "fetch jo net src = Inl e" "\<not> is_transient e"
  shows "load_loop jo src deadline ((net, now) # rest) = Some (Inl e)"
  using assms by simp

section \<open>A document's keys do not depend on its order\<close>

definition usable_parts :: "jwk_entry \<Rightarrow> (str \<times> str \<times> str) option" where
  "usable_parts entry =
     (if jk_kty entry = lit ''RSA'' \<and> (case jk_use entry of None \<Rightarrow> True | Some u \<Rightarrow> u = lit ''sig'')
         \<and> (case jk_alg entry of None \<Rightarrow> True | Some a \<Rightarrow> jws_algorithm a \<noteq> None)
      then case (jk_kid entry, jk_n entry, jk_e entry) of (Some kid, Some n, Some e) \<Rightarrow> Some (kid, n, e) | _ \<Rightarrow> None
      else None)"

definition key_row :: "jose \<Rightarrow> jwk_entry \<Rightarrow> (str \<times> rsa_key) option" where
  "key_row jo entry =
     (case usable_parts entry of None \<Rightarrow> None
      | Some (kid, n, e) \<Rightarrow>
          (case (jo_b64url jo n, jo_b64url jo e) of
             (Some modulus, Some exponent) \<Rightarrow> Some (kid, \<lparr>rk_modulus = modulus, rk_exponent = exponent, rk_alg = jk_alg entry\<rparr>)
           | _ \<Rightarrow> None))"

definition decodable :: "jose \<Rightarrow> jwk_entry \<Rightarrow> bool" where
  "decodable jo entry \<longleftrightarrow> (usable_parts entry \<noteq> None \<longrightarrow> key_row jo entry \<noteq> None)"

lemma parse_entry_step:
  "parse_entries jo out (entry # rest) = Inr r \<longleftrightarrow>
     (case usable_parts entry of None \<Rightarrow> parse_entries jo out rest = Inr r
      | Some _ \<Rightarrow> (case key_row jo entry of None \<Rightarrow> False
          | Some row \<Rightarrow> map_of out (fst row) = None \<and> parse_entries jo (row # out) rest = Inr r))"
  by (auto simp: usable_parts_def key_row_def rbind_def ok_or_def split: option.splits)

lemma key_row_None: "usable_parts entry = None \<Longrightarrow> key_row jo entry = None"
  by (simp add: key_row_def)

lemma decodable_simps:
  "usable_parts entry = None \<Longrightarrow> decodable jo entry"
  "key_row jo entry = Some row \<Longrightarrow> decodable jo entry"
  "usable_parts entry = Some p \<Longrightarrow> key_row jo entry = None \<Longrightarrow> \<not> decodable jo entry"
  by (auto simp: decodable_def)

lemma distinct_fst_row: "r = xs @ row # out \<Longrightarrow> distinct (map fst r) \<Longrightarrow> fst row \<notin> fst ` set out"
  by simp

lemma parse_entries_iff:
  assumes "distinct (map fst out)"
  shows "parse_entries jo out es = Inr r \<longleftrightarrow>
     list_all (decodable jo) es \<and> r = rev (List.map_filter (key_row jo) es) @ out \<and> distinct (map fst r)"
  using assms
proof (induction es arbitrary: out)
  case (Cons entry rest)
  show ?case
  proof (cases "usable_parts entry")
    case None
    then show ?thesis using Cons
      by (simp add: parse_entry_step decodable_simps key_row_None List.map_filter_simps del: parse_entries.simps)
  next
    case (Some p)
    show ?thesis
    proof (cases "key_row jo entry")
      case None
      then show ?thesis using Some by (cases p) (simp add: parse_entry_step decodable_simps del: parse_entries.simps)
    next
      case row: (Some row)
      have "parse_entries jo out (entry # rest) = Inr r \<longleftrightarrow> fst row \<notin> fst ` set out \<and> parse_entries jo (row # out) rest = Inr r"
        using Some row by (simp add: parse_entry_step map_of_eq_None_iff del: parse_entries.simps)
      also have "\<dots> \<longleftrightarrow> fst row \<notin> fst ` set out \<and> list_all (decodable jo) rest
          \<and> r = rev (List.map_filter (key_row jo) rest) @ row # out \<and> distinct (map fst r)"
        using Cons by (simp cong: conj_cong del: parse_entries.simps)
      also have "\<dots> \<longleftrightarrow> list_all (decodable jo) rest
          \<and> r = rev (List.map_filter (key_row jo) rest) @ row # out \<and> distinct (map fst r)"
        using distinct_fst_row by blast
      finally show ?thesis using row by (simp add: decodable_simps List.map_filter_simps)
    qed
  qed
qed auto

lemma map_of_order:
  assumes "mset xs = mset ys" "distinct (map fst xs)"
  shows "map_of xs = map_of ys"
proof -
  have "mset (map fst xs) = mset (map fst ys)" using assms(1) by simp
  then have "distinct (map fst ys)" using assms(2) by (metis mset_eq_imp_distinct_iff)
  then show ?thesis using assms by (intro map_of_inject_set [THEN iffD2]) (auto dest: mset_eq_setD)
qed

lemma parse_entries_ok:
  "ok (parse_entries jo [] es) =
     (if list_all (decodable jo) es \<and> distinct (map fst (List.map_filter (key_row jo) es))
      then Some (rev (List.map_filter (key_row jo) es)) else None)"
proof (cases "parse_entries jo [] es")
  case (Inl e)
  then have "parse_entries jo [] es \<noteq> Inr (rev (List.map_filter (key_row jo) es))" by simp
  then have "\<not> (list_all (decodable jo) es \<and> distinct (map fst (List.map_filter (key_row jo) es)))"
    by (subst (asm) parse_entries_iff) (simp_all add: rev_map [symmetric])
  then show ?thesis using Inl by (auto simp: ok_def)
next
  case (Inr r)
  have "distinct (map fst ([] :: (str \<times> rsa_key) list))" by simp
  note c = iffD1 [OF parse_entries_iff [OF this] Inr, unfolded append_Nil2]
  have "list_all (decodable jo) es" "r = rev (List.map_filter (key_row jo) es)" "distinct (map fst r)"
    by (rule c [THEN conjunct1] c [THEN conjunct2, THEN conjunct1] c [THEN conjunct2, THEN conjunct2])+
  then show ?thesis using Inr by (simp add: ok_def rev_map [symmetric])
qed

text \<open>
  Fact (KB_JwksSound.document_order_irrelevant). Two documents with the same entries in different orders
  are accepted or refused together, and give every kid the same key: an ambiguous kid is refused,
  never resolved by position.
\<close>

theorem document_order_irrelevant:
  assumes "mset es = mset es'"
  shows "map_option map_of (ok (parse_entries jo [] es)) = map_option map_of (ok (parse_entries jo [] es'))"
proof -
  let ?f = "List.map_filter (key_row jo)"
  have m: "mset (?f es) = mset (?f es')" using assms by (simp add: List.map_filter_def)
  have d: "list_all (decodable jo) es = list_all (decodable jo) es'"
    using assms by (metis list_all_iff mset_eq_setD)
  have "mset (map fst (?f es)) = mset (map fst (?f es'))" using m by simp
  then have dist: "distinct (map fst (?f es)) = distinct (map fst (?f es'))" by (metis mset_eq_imp_distinct_iff)
  have "map_of (rev (?f es)) = map_of (rev (?f es'))" if "distinct (map fst (?f es))"
    using that m by (intro map_of_order) (simp_all add: rev_map [symmetric])
  then show ?thesis by (simp add: parse_entries_ok d dist)
qed

section \<open>Witnesses\<close>

definition sample_key :: rsa_key where
  "sample_key = \<lparr>rk_modulus = [0, 7], rk_exponent = [3], rk_alg = Some (lit ''RS256'')\<rparr>"

definition sample_cache :: key_cache where
  "sample_cache = \<lparr>ks_by_kid = [(lit ''k'', sample_key)], ks_fetched_at = 0, ks_retry_after = 300, ks_failures = 0\<rparr>"

definition sample_jose :: jose where
  "sample_jose = \<lparr>jo_b64url = (\<lambda>s. Some (utf8 s)), jo_document = (\<lambda>_. Inl (plain_error (lit ''expected value'')))\<rparr>"

definition sample_key_env :: "(plain, problem) key_env" where
  "sample_key_env = \<lparr>ke_disk = plain_disk, ke_js = serde_js, ke_jose = sample_jose\<rparr>"

definition dead_net :: net where
  "dead_net = \<lparr>nt_read = (\<lambda>_. Inl (plain_error (lit ''No such file or directory''))), nt_client = Inr (),
     nt_get = (\<lambda>_. Inl [Cause (lit ''error sending request'') True])\<rparr>"

definition sample_jwks :: "plain jwks" where
  "sample_jwks = \<lparr>jw_source = JwksUrl (lit ''https://idp/keys''), jw_idp = Source (lit ''entra''), jw_keys = sample_cache,
     jw_notifier = sample_notifier\<rparr>"

definition sample_readings :: "nat \<Rightarrow> readings" where
  "sample_readings t = \<lparr>rd_elapsed = t, rd_first = t, rd_check = t, rd_claim = t, rd_done = t, rd_after = t, rd_wall = t\<rparr>"

lemma dead_fetch: "fetch jo dead_net (JwksUrl u) = Inl [Cause (lit ''fetching JWKS from '' @ u) False, Cause (lit ''error sending request'') True]"
  by (simp add: fetch_def dead_net_def error_context_def map_err_def rbind_def)

theorem refreshes_rate_limited_witness:
  "\<exists>s. (kstep sample_jose (JwksUrl (lit ''u'')))\<^sup>*\<^sup>* (loaded_world 0 sample_cache) s \<and> kw_claims s = [315, 300]
     \<and> kw_failures s = [300] \<and> sorted_wrt (gap (kw_failures s)) (kw_claims s)
     \<and> length (filter (\<lambda>t. 300 \<le> t \<and> t \<le> 300 + 20) (kw_claims s)) \<le> 20 div 15 + 1"
proof -
  let ?R = "kstep sample_jose (JwksUrl (lit ''u''))"
  let ?s0 = "loaded_world 0 sample_cache"
  let ?s1 = "?s0\<lparr>kw_now := kw_now ?s0 + 300\<rparr>"
  let ?k2 = "sample_cache\<lparr>ks_retry_after := 300 + MIN_REFRESH_INTERVAL\<rparr>"
  let ?s2 = "?s1\<lparr>kw_now := 300, kw_keys := ?k2, kw_out := kw_out ?s1 + 1, kw_claims := 300 # kw_claims ?s1\<rparr>"
  let ?s3 = "?s2\<lparr>kw_keys := refresh_failed (kw_now ?s2) (kw_keys ?s2), kw_out := kw_out ?s2 - 1,
      kw_failures := kw_now ?s2 # kw_failures ?s2\<rparr>"
  let ?s4 = "?s3\<lparr>kw_now := kw_now ?s3 + 15\<rparr>"
  let ?k5 = "(kw_keys ?s4)\<lparr>ks_retry_after := 315 + MIN_REFRESH_INTERVAL\<rparr>"
  let ?s5 = "?s4\<lparr>kw_now := 315, kw_keys := ?k5, kw_out := kw_out ?s4 + 1, kw_claims := 315 # kw_claims ?s4\<rparr>"
  have "?R ?s0 ?s1" by (rule Time)
  moreover have "?R ?s1 ?s2" by (rule Claim) (simp_all add: loaded_world_def sample_cache_def claim_refresh_def)
  moreover have "?R ?s2 ?s3" by (rule Failed [OF _ dead_fetch]) (simp add: loaded_world_def)
  moreover have "?R ?s3 ?s4" by (rule Time)
  moreover have "?R ?s4 ?s5" by (rule Claim)
    (simp_all add: loaded_world_def sample_cache_def claim_refresh_def refresh_failed_def failure_backoff_def
      FAILED_REFRESH_INTERVAL_def MIN_REFRESH_INTERVAL_def u32_max_def Let_def)
  ultimately have r: "?R\<^sup>*\<^sup>* ?s0 ?s5" by (meson rtranclp.rtrancl_into_rtrancl rtranclp.rtrancl_refl)
  have "kw_claims ?s5 = [315, 300]" "kw_failures ?s5 = [300]" by (simp_all add: loaded_world_def)
  with r refreshes_rate_limited [OF r, of 300 20] show ?thesis by blast
qed

theorem outage_withdraws_no_key_witness:
  "fst (with_key sample_key_env dead_net (sample_readings 1000000) (lit ''k'') rk_exponent sample_jwks) = Some [3]"
proof -
  have "fst (with_key sample_key_env dead_net (sample_readings 1000000) (lit ''k'') rk_exponent sample_jwks)
      = map_option rk_exponent (map_of (ks_by_kid (jw_keys sample_jwks)) (lit ''k''))"
    by (rule outage_withdraws_no_key [OF disjI1, THEN conjunct1]) (unfold sample_jwks_def jwks.simps, rule dead_fetch)
  then show ?thesis by (simp add: sample_jwks_def sample_cache_def sample_key_def)
qed

theorem startup_settles_witness:
  "load_keys sample_key_env (JwksUrl (lit ''u'')) (Source (lit ''entra'')) 5 STARTUP_RETRY_BUDGET
     (map (\<lambda>i. (dead_net, 5 + 2 * i)) [0..<46]) 97 0 sample_notifier \<noteq> None"
  by (rule startup_settles) (simp_all add: STARTUP_RETRY_INTERVAL_def)

definition sample_row :: "str \<Rightarrow> jwk_entry" where
  "sample_row kid = \<lparr>jk_kty = lit ''RSA'', jk_kid = Some kid, jk_use = None, jk_alg = None, jk_n = Some (lit ''n''), jk_e = Some (lit ''e'')\<rparr>"

theorem document_order_irrelevant_witness:
  "map_option map_of (ok (parse_entries sample_jose [] [sample_row (lit ''a''), sample_row (lit ''b'')]))
     = map_option map_of (ok (parse_entries sample_jose [] [sample_row (lit ''b''), sample_row (lit ''a'')]))
   \<and> ok (parse_entries sample_jose [] [sample_row (lit ''a''), sample_row (lit ''a'')]) = None
   \<and> ok (parse_entries sample_jose [] [sample_row (lit ''a'')]) \<noteq> None"
proof (intro conjI)
  show "map_option map_of (ok (parse_entries sample_jose [] [sample_row (lit ''a''), sample_row (lit ''b'')]))
     = map_option map_of (ok (parse_entries sample_jose [] [sample_row (lit ''b''), sample_row (lit ''a'')]))"
    by (rule document_order_irrelevant) simp
qed (simp_all add: sample_row_def sample_jose_def kb_lits ok_def rbind_def ok_or_def)

end
