(* ===== verification/KB_Jwt.thy ===== *)
theory KB_Jwt
  imports KB_JwksSound
begin

text \<open>
  From a bearer token to an external identity: the checks every adapter shares
  (\<open>crates/kerbridge-idp/src/jwt.rs\<close>) and the policies of the two adapters
  (\<open>entra/auth.rs\<close>, \<open>authentik/auth.rs\<close>). RSA, base64 and the JSON reader are parameters. Times are
  64-bit signed integers and their sums wrap, as in the release build.
\<close>

section \<open>Structure, algorithm, key and signature\<close>

datatype audience = One str | Many "str list"

fun audience_accepts :: "audience \<Rightarrow> str \<Rightarrow> bool" where
  "audience_accepts (One a) want \<longleftrightarrow> a = want"
| "audience_accepts (Many all) want \<longleftrightarrow> list_ex (\<lambda>a. a = want) all"

record jwt_header =
  jh_alg :: str
  jh_kid :: "str option"

datatype jwt_reject =
    NotThreeParts | HeaderNotBase64 | HeaderNotJson | DisallowedAlg str | NoKid | SignatureNotB64
  | UnknownKid str | KeyForOtherAlg str str | BadSignature | ClaimsNotBase64 | ClaimsNotJson
  | NoIss | NoAud | NoExp | NoNbf | NoIat | TokenExpired | TokenNotYetValid | WrongAud | NoTid | TidNotGuid | WrongTenant
  | WrongIssuer | WrongVersion "str option" | AppOnly | NoScp | ScopeMissing | WrongAzp | NoAzp | NoOid | NoSub
  | BadSubject identity_error

record verifier =
  vf_header :: "byte list \<Rightarrow> jwt_header option"
  vf_rsa :: "rsa_parameters \<Rightarrow> byte list \<Rightarrow> byte list \<Rightarrow> byte list \<Rightarrow> byte list \<Rightarrow> bool"

definition trim_leading_zeros :: "byte list \<Rightarrow> byte list" where
  "trim_leading_zeros bytes = dropWhile (\<lambda>b. b = 0) bytes"

definition verify_rsa :: "verifier \<Rightarrow> rsa_key \<Rightarrow> rsa_parameters \<Rightarrow> byte list \<Rightarrow> byte list \<Rightarrow> bool" where
  "verify_rsa vf k primitive message signature =
     vf_rsa vf primitive (trim_leading_zeros (rk_modulus k)) (trim_leading_zeros (rk_exponent k)) message signature"

text \<open>The three stretches of \<open>verified_claims\<close>: before the key, with the key, after the key.\<close>

definition jwt_head :: "jose \<Rightarrow> verifier \<Rightarrow> str \<Rightarrow> str \<Rightarrow> jwt_reject + (jwt_header \<times> rsa_parameters \<times> str \<times> byte list)" where
  "jwt_head jo vf header_b64 sig_b64 =
     rbind (ok_or HeaderNotBase64 (jo_b64url jo header_b64)) (\<lambda>raw.
     rbind (ok_or HeaderNotJson (vf_header vf raw)) (\<lambda>header.
     rbind (ok_or (DisallowedAlg (jh_alg header)) (jws_algorithm (jh_alg header))) (\<lambda>primitive.
     rbind (ok_or NoKid (jh_kid header)) (\<lambda>kid.
     rbind (ok_or SignatureNotB64 (jo_b64url jo sig_b64)) (\<lambda>signature.
       Inr (header, primitive, kid, signature))))))"

definition key_verdict :: "verifier \<Rightarrow> jwt_header \<Rightarrow> rsa_parameters \<Rightarrow> byte list \<Rightarrow> byte list \<Rightarrow> rsa_key \<Rightarrow> bool option" where
  "key_verdict vf header primitive message signature k =
     (if pins k (jh_alg header) then None else Some (verify_rsa vf k primitive message signature))"

definition jwt_claims :: "jose \<Rightarrow> (byte list \<Rightarrow> 'c option) \<Rightarrow> str \<Rightarrow> str \<Rightarrow> str \<Rightarrow> bool option option \<Rightarrow> jwt_reject + 'c" where
  "jwt_claims jo from_json claims_b64 kid alg outcome =
     rbind (ok_or (UnknownKid kid) outcome) (\<lambda>outcome.
     rbind (ok_or (KeyForOtherAlg kid alg) outcome) (\<lambda>verified.
     rbind (guard verified BadSignature) (\<lambda>_.
     rbind (ok_or ClaimsNotBase64 (jo_b64url jo claims_b64)) (\<lambda>raw.
       ok_or ClaimsNotJson (from_json raw)))))"

definition verified_claims ::
  "('f, 'b) key_env \<Rightarrow> verifier \<Rightarrow> net \<Rightarrow> readings \<Rightarrow> (byte list \<Rightarrow> 'c option) \<Rightarrow> str \<Rightarrow> 'f jwks
     \<Rightarrow> (jwt_reject + 'c) \<times> str list \<times> 'f jwks" where
  "verified_claims env vf net rd from_json token jw =
     (case split_on c_dot token of
        [header_b64, claims_b64, sig_b64] \<Rightarrow>
          (case jwt_head (ke_jose env) vf header_b64 sig_b64 of
             Inl e \<Rightarrow> (Inl e, [], jw)
           | Inr (header, primitive, kid, signature) \<Rightarrow>
               let message = take (utf8_len header_b64 + 1 + utf8_len claims_b64) (utf8 token);
                   (outcome, posts, jw') = with_key env net rd kid (key_verdict vf header primitive message signature) jw
               in (jwt_claims (ke_jose env) from_json claims_b64 kid (jh_alg header) outcome, posts, jw'))
      | _ \<Rightarrow> (Inl NotThreeParts, [], jw))"

section \<open>The policy of Entra\<close>

definition i64_add :: "int \<Rightarrow> int \<Rightarrow> int" where
  "i64_add a b = (a + b + 2 ^ 63) mod 2 ^ 64 - 2 ^ 63"

definition i64_range :: "int \<Rightarrow> bool" where
  "i64_range a \<longleftrightarrow> - (2 ^ 63) \<le> a \<and> a < 2 ^ 63"

record entra_policy =
  ep_tenant_id :: str
  ep_issuer :: str
  ep_broker_api_client_id :: str
  ep_public_client_id :: str
  ep_required_scope :: str
  ep_leeway_seconds :: int

record entra_claims =
  ec_iss :: "str option"
  ec_aud :: "audience option"
  ec_exp :: "int option"
  ec_nbf :: "int option"
  ec_iat :: "int option"
  ec_ver :: "str option"
  ec_tid :: "str option"
  ec_oid :: "str option"
  ec_azp :: "str option"
  ec_scp :: "str option"
  ec_idtyp :: "str option"

definition DEFAULT_LEEWAY_SECONDS :: int where "DEFAULT_LEEWAY_SECONDS = 300"

definition entra_check :: "source \<Rightarrow> entra_policy \<Rightarrow> entra_claims \<Rightarrow> int \<Rightarrow> jwt_reject + external_identity" where
  "entra_check src policy claims now =
     rbind (ok_or NoIss (ec_iss claims)) (\<lambda>iss.
     rbind (ok_or NoAud (ec_aud claims)) (\<lambda>aud.
     rbind (ok_or NoExp (ec_exp claims)) (\<lambda>exp.
     rbind (ok_or NoNbf (ec_nbf claims)) (\<lambda>nbf.
     rbind (guard (ec_iat claims \<noteq> None) NoIat) (\<lambda>_.
     rbind (guard (\<not> now > i64_add exp (ep_leeway_seconds policy)) TokenExpired) (\<lambda>_.
     rbind (guard (\<not> i64_add now (ep_leeway_seconds policy) < nbf) TokenNotYetValid) (\<lambda>_.
     rbind (guard (audience_accepts aud (ep_broker_api_client_id policy)) WrongAud) (\<lambda>_.
     rbind (ok_or NoTid (ec_tid claims)) (\<lambda>tid.
     rbind (guard (is_guid tid) TidNotGuid) (\<lambda>_.
     rbind (guard (tid = ep_tenant_id policy) WrongTenant) (\<lambda>_.
     rbind (guard (iss = ep_issuer policy) WrongIssuer) (\<lambda>_.
     rbind (guard (ec_ver claims = Some (lit ''2.0'')) (WrongVersion (ec_ver claims))) (\<lambda>_.
     rbind (guard (ec_idtyp claims \<noteq> Some (lit ''app'')) AppOnly) (\<lambda>_.
     rbind (ok_or NoScp (ec_scp claims)) (\<lambda>scp.
     rbind (guard (list_ex (\<lambda>s. s = ep_required_scope policy) (split_on c_space scp)) ScopeMissing) (\<lambda>_.
     rbind (guard (ec_azp claims = Some (ep_public_client_id policy)) WrongAzp) (\<lambda>_.
     rbind (ok_or NoOid (ec_oid claims)) (\<lambda>oid.
       map_err BadSubject (entra_identity src oid)))))))))))))))))))"

definition entra_verify ::
  "('f, 'b) key_env \<Rightarrow> verifier \<Rightarrow> (byte list \<Rightarrow> entra_claims option) \<Rightarrow> net \<Rightarrow> readings \<Rightarrow> str \<Rightarrow> source \<Rightarrow> entra_policy
     \<Rightarrow> 'f jwks \<Rightarrow> int \<Rightarrow> (jwt_reject + external_identity) \<times> str list \<times> 'f jwks" where
  "entra_verify env vf from_json net rd token src policy jw now =
     (let (claims, posts, jw') = verified_claims env vf net rd from_json token jw
      in (rbind claims (\<lambda>c. entra_check src policy c now), posts, jw'))"

section \<open>The policy of authentik\<close>

record authentik_policy =
  kp_issuer :: str
  kp_audience :: str
  kp_client_id :: str
  kp_leeway_seconds :: int

record authentik_claims =
  kc_iss :: "str option"
  kc_aud :: "audience option"
  kc_exp :: "int option"
  kc_nbf :: "int option"
  kc_azp :: "str option"
  kc_sub :: "str option"

text \<open>The two causes an authentik subject is refused with; the apostrophe is character 39.\<close>

definition NOT_A_UUID :: str where
  "NOT_A_UUID = lit ''a UUID: this provider is on the wrong subject mode -- set the OAuth2 provider'' @ [39]
     @ lit ''s sub_mode to user_uuid, which is not authentik'' @ [39] @ lit ''s default''"

definition NOT_CANONICAL :: str where
  "NOT_CANONICAL = lit ''a UUID in canonical lowercase form: authentik serializes a user uuid with Python'' @ [39]
     @ lit ''s str(), so a differently-spelled one is a change in authentik'' @ [39]
     @ lit ''s output rather than a setting of yours -- nothing here normalizes it, because a transformation over a stored subject would become a second thing that may never change''"

definition LEEWAY_SECONDS :: int where "LEEWAY_SECONDS = 300"

definition not_yet_valid :: "int option \<Rightarrow> int \<Rightarrow> int \<Rightarrow> bool" where
  "not_yet_valid nbf now leeway_seconds =
     (case nbf of None \<Rightarrow> False | Some nbf \<Rightarrow> i64_add now leeway_seconds < nbf)"

definition authentik_check ::
  "source \<Rightarrow> authentik_policy \<Rightarrow> authentik_claims \<Rightarrow> int \<Rightarrow> jwt_reject + external_identity" where
  "authentik_check src policy claims now =
     rbind (ok_or NoExp (kc_exp claims)) (\<lambda>exp.
     rbind (guard (\<not> now > i64_add exp (kp_leeway_seconds policy)) TokenExpired) (\<lambda>_.
     rbind (guard (\<not> not_yet_valid (kc_nbf claims) now (kp_leeway_seconds policy)) TokenNotYetValid) (\<lambda>_.
     rbind (ok_or NoAud (kc_aud claims)) (\<lambda>aud.
     rbind (guard (audience_accepts aud (kp_audience policy)) WrongAud) (\<lambda>_.
     rbind (ok_or NoIss (kc_iss claims)) (\<lambda>iss.
     rbind (guard (iss = kp_issuer policy) WrongIssuer) (\<lambda>_.
     rbind (case kc_azp claims of
              None \<Rightarrow> Inl NoAzp
            | Some azp \<Rightarrow> guard (azp = kp_client_id policy) WrongAzp) (\<lambda>_.
     rbind (ok_or NoSub (kc_sub claims)) (\<lambda>sub.
       map_err BadSubject (authentik_identity NOT_A_UUID NOT_CANONICAL src sub))))))))))"

definition authentik_verify ::
  "('f, 'b) key_env \<Rightarrow> verifier \<Rightarrow> (byte list \<Rightarrow> authentik_claims option) \<Rightarrow> net \<Rightarrow> readings \<Rightarrow> str \<Rightarrow> source \<Rightarrow> authentik_policy
     \<Rightarrow> 'f jwks \<Rightarrow> int \<Rightarrow> (jwt_reject + external_identity) \<times> str list \<times> 'f jwks" where
  "authentik_verify env vf from_json net rd token src policy jw now =
     (let (claims, posts, jw') = verified_claims env vf net rd from_json token jw
      in (rbind claims (\<lambda>c. authentik_check src policy c now), posts, jw'))"

section \<open>What an accepted token has shown\<close>

lemma split_back: "split_on d s = p # ps \<Longrightarrow> s = p @ concat (map (\<lambda>q. d # q) ps)"
proof (induction s arbitrary: p ps)
  case (Cons c s)
  obtain q qs where q: "split_on d s = q # qs" by (cases "split_on d s") auto
  have "split_on d (c # s) = (if c = d then [] # q # qs else (c # q) # qs)" by (simp add: q)
  then have "(p, ps) = (if c = d then ([], q # qs) else (c # q, qs))" using Cons.prems by (simp split: if_splits)
  moreover have "c # s = c # q @ concat (map ((#) d) qs)" using Cons.IH [OF q] by simp
  ultimately show ?case by (metis append.simps concat.simps(2) list.map(2) prod.inject)
qed auto

lemma signed_bytes:
  assumes "split_on c_dot token = [h, c, g]"
  shows "take (utf8_len h + 1 + utf8_len c) (utf8 token) = utf8 (h @ [c_dot] @ c)"
proof -
  have t: "token = (h @ [c_dot] @ c) @ c_dot # g" using split_back [OF assms] by simp
  have "length (utf8 (h @ [c_dot] @ c)) = utf8_len h + 1 + utf8_len c"
    by (simp only: length_utf8) (simp add: utf8_len_simps len_utf8_def)
  then show ?thesis unfolding t utf8_append by simp
qed

text \<open>
  The token is three parts; its header names an algorithm of the allowlist and a key id; the cache has
  a key under that id, not published for another algorithm, and the signature in the third part
  verifies under it over the first two parts as they were sent. The payload is what the second part
  decodes to.
\<close>

definition token_signed ::
  "jose \<Rightarrow> verifier \<Rightarrow> (str \<times> rsa_key) list \<Rightarrow> str \<Rightarrow> byte list \<Rightarrow> bool" where
  "token_signed jo vf by_kid token payload \<longleftrightarrow>
     (\<exists>h c g raw header primitive kid signature k.
        split_on c_dot token = [h, c, g] \<and> jo_b64url jo h = Some raw \<and> vf_header vf raw = Some header
      \<and> jws_algorithm (jh_alg header) = Some primitive \<and> jh_kid header = Some kid
      \<and> jo_b64url jo g = Some signature \<and> map_of by_kid kid = Some k \<and> \<not> pins k (jh_alg header)
      \<and> verify_rsa vf k primitive (utf8 (h @ [c_dot] @ c)) signature \<and> jo_b64url jo c = Some payload)"

lemma three_parts:
  assumes "split_on c_dot token = [h, c, g]" "jwt_head (ke_jose env) vf h g = Inr (header, primitive, kid, signature)"
  shows "verified_claims env vf net rd from_json token jw =
    (let (outcome, posts, jw') = with_key env net rd kid (key_verdict vf header primitive (utf8 (h @ [c_dot] @ c)) signature) jw
     in (jwt_claims (ke_jose env) from_json c kid (jh_alg header) outcome, posts, jw'))"
  unfolding verified_claims_def assms(1) list.case assms(2) sum.case prod.case signed_bytes [OF assms(1)] Let_def by (rule refl)

lemma jwt_claims_Inr:
  "jwt_claims jo from_json c kid alg outcome = Inr claims \<longleftrightarrow>
     outcome = Some (Some True) \<and> (\<exists>payload. jo_b64url jo c = Some payload \<and> from_json payload = Some claims)"
  by (auto simp: jwt_claims_def kb_results)

lemma jwt_head_Inr:
  "jwt_head jo vf h g = Inr (header, primitive, kid, signature) \<longleftrightarrow>
     (\<exists>raw. jo_b64url jo h = Some raw \<and> vf_header vf raw = Some header) \<and> jws_algorithm (jh_alg header) = Some primitive
     \<and> jh_kid header = Some kid \<and> jo_b64url jo g = Some signature"
  by (auto simp: jwt_head_def kb_results)

lemma verified_claims_Inr:
  "fst (verified_claims env vf net rd from_json token jw) = Inr claims \<longleftrightarrow>
     (\<exists>payload. token_signed (ke_jose env) vf (ks_by_kid (jw_keys (snd (snd (verified_claims env vf net rd from_json token jw))))) token payload
        \<and> from_json payload = Some claims)" (is "?l \<longleftrightarrow> ?r")
proof (cases "\<exists>h c g header primitive kid signature. split_on c_dot token = [h, c, g]
    \<and> jwt_head (ke_jose env) vf h g = Inr (header, primitive, kid, signature)")
  case False
  then have "\<not> ?r" unfolding token_signed_def jwt_head_Inr by blast
  moreover have "\<not> ?l" using False by (auto simp: verified_claims_def split: list.splits sum.splits)
  ultimately show ?thesis by simp
next
  case True
  then obtain h c g header primitive kid signature where t: "split_on c_dot token = [h, c, g]"
    and d: "jwt_head (ke_jose env) vf h g = Inr (header, primitive, kid, signature)" by blast
  obtain outcome posts jw' where w: "with_key env net rd kid (key_verdict vf header primitive (utf8 (h @ [c_dot] @ c)) signature) jw
      = (outcome, posts, jw')" by (metis prod_cases3)
  have v: "verified_claims env vf net rd from_json token jw = (jwt_claims (ke_jose env) from_json c kid (jh_alg header) outcome, posts, jw')"
    unfolding three_parts [OF t d] w Let_def prod.case by (rule refl)
  have o: "outcome = map_option (key_verdict vf header primitive (utf8 (h @ [c_dot] @ c)) signature) (map_of (ks_by_kid (jw_keys jw')) kid)"
    using with_key_result [of env net rd kid "key_verdict vf header primitive (utf8 (h @ [c_dot] @ c)) signature" jw] by (simp only: w fst_conv snd_conv)
  have "outcome = Some (Some True) \<longleftrightarrow> (\<exists>k. map_of (ks_by_kid (jw_keys jw')) kid = Some k \<and> \<not> pins k (jh_alg header)
      \<and> verify_rsa vf k primitive (utf8 (h @ [c_dot] @ c)) signature)"
    unfolding o key_verdict_def by (auto split: if_splits)
  moreover have "token_signed (ke_jose env) vf by_kid token payload \<longleftrightarrow>
      (\<exists>k. map_of by_kid kid = Some k \<and> \<not> pins k (jh_alg header)
         \<and> verify_rsa vf k primitive (utf8 (h @ [c_dot] @ c)) signature) \<and> jo_b64url (ke_jose env) c = Some payload" for by_kid payload
    using d unfolding token_signed_def t jwt_head_Inr by auto
  ultimately show ?thesis unfolding v fst_conv snd_conv jwt_claims_Inr by blast
qed

end
