(* ===== verification/KB_IdpSettings.thy ===== *)
theory KB_IdpSettings
  imports KB_Jwt
begin

text \<open>
  What a source file's \<open>[provider_config]\<close> block resolves to and the adapter built from it
  (\<open>crates/kerbridge-idp/src/lib.rs\<close>, \<open>entra/mod.rs\<close>, \<open>authentik/mod.rs\<close>, the \<open>connect\<close> of both
  \<open>auth.rs\<close>). A block arrives as the record the TOML reader made of it, an absent key as \<open>None\<close>; the
  URL parser is a parameter that gives a URL's scheme.
\<close>

datatype provider = EntraProvider | AuthentikProvider

definition provider_from_name :: "str \<Rightarrow> provider option" where
  "provider_from_name name =
     (if name = lit ''entra'' then Some EntraProvider
      else if name = lit ''authentik'' then Some AuthentikProvider else None)"

fun provider_name :: "provider \<Rightarrow> str" where
  "provider_name EntraProvider = lit ''entra''"
| "provider_name AuthentikProvider = lit ''authentik''"

fun encode_identity :: "provider \<Rightarrow> source \<Rightarrow> str \<Rightarrow> identity_error + external_identity" where
  "encode_identity EntraProvider src subject = entra_identity src subject"
| "encode_identity AuthentikProvider src subject = authentik_identity NOT_A_UUID NOT_CANONICAL src subject"

datatype settings_error =
    BothKeySources | NotAGroupId str str | BadSamSource str | NotAUrl str str | NotHttps str str

definition checked_group_id :: "str \<Rightarrow> str \<Rightarrow> settings_error + str" where
  "checked_group_id value knob =
     (if \<not> is_guid (map to_ascii_lowercase value) then Inl (NotAGroupId knob value) else Inr value)"

fun transposed :: "('e + 'a) option \<Rightarrow> 'e + 'a option" where
  "transposed None = Inr None"
| "transposed (Some (Inl e)) = Inl e"
| "transposed (Some (Inr x)) = Inr (Some x)"

section \<open>Entra\<close>

datatype sam_source = DisplayName | EmailUsername | Upn

definition sam_source_from_str :: "str \<Rightarrow> sam_source option" where
  "sam_source_from_str s =
     (let spelling = map to_ascii_lowercase (trim s) in
      if spelling = lit ''displayname'' then Some DisplayName
      else if spelling = lit ''email_username'' then Some EmailUsername
      else if spelling = lit ''upn'' then Some Upn
      else None)"

fun sam_source_spelling :: "sam_source \<Rightarrow> str" where
  "sam_source_spelling DisplayName = lit ''displayname''"
| "sam_source_spelling EmailUsername = lit ''email_username''"
| "sam_source_spelling Upn = lit ''upn''"

definition v2_endpoint :: "str \<Rightarrow> str" where
  "v2_endpoint tenant_id = lit ''https://login.microsoftonline.com/'' @ tenant_id @ lit ''/v2.0''"

definition tenant_jwks_url :: "str \<Rightarrow> str" where
  "tenant_jwks_url tenant_id = lit ''https://login.microsoftonline.com/'' @ tenant_id @ lit ''/discovery/v2.0/keys''"

record entra_raw =
  er_tenant_id :: str
  er_broker_api_client_id :: str
  er_public_client_id :: str
  er_scope :: "str option"
  er_issuer :: "str option"
  er_authority :: "str option"
  er_jwks_url :: "str option"
  er_jwks_file :: "str option"
  er_display_name :: "str option"
  er_sam_source :: "str option"
  er_sync_client_id :: str
  er_sync_credential_file :: str
  er_sync_credential_expires :: "str option"
  er_admission_group_id :: str
  er_device_grant_group_id :: "str option"
  er_extra_group_ids :: "str list"

record entra_settings =
  es_tenant_id :: str
  es_broker_api_client_id :: str
  es_public_client_id :: str
  es_scope :: str
  es_issuer :: str
  es_authority :: str
  es_jwks :: jwks_source
  es_display_name :: str
  es_sam_source :: sam_source
  es_sync_client_id :: str
  es_sync_credential_file :: str
  es_sync_credential_expires :: "str option"
  es_admission_group_id :: str
  es_device_grant_group_id :: "str option"
  es_extra_group_ids :: "str list"

definition unwrap_or :: "'a \<Rightarrow> 'a option \<Rightarrow> 'a" where
  "unwrap_or d x = (case x of None \<Rightarrow> d | Some y \<Rightarrow> y)"

definition entra_settings_parse :: "entra_raw \<Rightarrow> settings_error + entra_settings" where
  "entra_settings_parse raw =
     rbind (case (er_jwks_url raw, er_jwks_file raw) of
              (Some _, Some _) \<Rightarrow> Inl BothKeySources
            | (Some url, None) \<Rightarrow> Inr (JwksUrl url)
            | (None, Some path) \<Rightarrow> Inr (JwksFile path)
            | (None, None) \<Rightarrow> Inr (JwksUrl (tenant_jwks_url (er_tenant_id raw)))) (\<lambda>jwks.
     rbind (checked_group_id (er_admission_group_id raw) (lit ''admission_group_id'')) (\<lambda>admission.
     rbind (transposed (map_option (\<lambda>v. checked_group_id v (lit ''device_grant_group_id'')) (er_device_grant_group_id raw))) (\<lambda>grant.
     rbind (ok_or (BadSamSource (unwrap_or (lit ''displayname'') (er_sam_source raw)))
              (sam_source_from_str (unwrap_or (lit ''displayname'') (er_sam_source raw)))) (\<lambda>sam.
       Inr \<lparr>es_tenant_id = er_tenant_id raw, es_broker_api_client_id = er_broker_api_client_id raw,
         es_public_client_id = er_public_client_id raw, es_scope = unwrap_or (lit ''access_as_user'') (er_scope raw),
         es_issuer = unwrap_or (v2_endpoint (er_tenant_id raw)) (er_issuer raw),
         es_authority = unwrap_or (v2_endpoint (er_tenant_id raw)) (er_authority raw),
         es_jwks = jwks, es_display_name = unwrap_or (lit ''Entra'') (er_display_name raw), es_sam_source = sam,
         es_sync_client_id = er_sync_client_id raw, es_sync_credential_file = er_sync_credential_file raw,
         es_sync_credential_expires = er_sync_credential_expires raw, es_admission_group_id = admission,
         es_device_grant_group_id = grant, es_extra_group_ids = er_extra_group_ids raw\<rparr>))))"

record oidc_discovery =
  od_authority :: str
  od_client_id :: str
  od_scopes :: "str list"
  od_display_name :: str
  od_extra_auth_params :: "(str \<times> str) list"

record entra =
  en_source :: source
  en_policy :: entra_policy
  en_discovery :: oidc_discovery

definition entra_connect :: "entra_settings \<Rightarrow> source \<Rightarrow> entra" where
  "entra_connect settings src =
     \<lparr>en_source = src,
      en_policy = \<lparr>ep_tenant_id = es_tenant_id settings, ep_issuer = es_issuer settings,
        ep_broker_api_client_id = es_broker_api_client_id settings, ep_public_client_id = es_public_client_id settings,
        ep_required_scope = es_scope settings, ep_leeway_seconds = DEFAULT_LEEWAY_SECONDS\<rparr>,
      en_discovery = \<lparr>od_authority = es_authority settings, od_client_id = es_public_client_id settings,
        od_scopes = [lit ''api://'' @ es_broker_api_client_id settings @ [c_slash] @ es_scope settings,
          lit ''openid'', lit ''profile'', lit ''offline_access''],
        od_display_name = es_display_name settings, od_extra_auth_params = []\<rparr>\<rparr>"

section \<open>authentik\<close>

definition application_base :: "str \<Rightarrow> str \<Rightarrow> str" where
  "application_base url slug = trim_end_by (\<lambda>c. c = c_slash) url @ lit ''/application/o/'' @ slug"

definition authentik_issuer :: "str \<Rightarrow> str \<Rightarrow> str" where
  "authentik_issuer url slug = application_base url slug @ [c_slash]"

definition authentik_jwks_url :: "str \<Rightarrow> str \<Rightarrow> str" where
  "authentik_jwks_url url slug = application_base url slug @ lit ''/jwks/''"

record authentik_raw =
  ar_url :: str
  ar_application_slug :: "str option"
  ar_client_id :: "str option"
  ar_audience :: "str option"
  ar_display_name :: "str option"
  ar_issuer :: "str option"
  ar_authority :: "str option"
  ar_jwks_url :: "str option"
  ar_sync_credential_file :: "str option"
  ar_admission_group_id :: str
  ar_device_grant_group_id :: "str option"
  ar_extra_group_ids :: "str list"

record authentik_settings =
  as_url :: str
  as_application_slug :: str
  as_client_id :: str
  as_audience :: str
  as_issuer :: str
  as_authority :: str
  as_jwks_url :: str
  as_display_name :: str
  as_sync_credential_file :: str
  as_admission_group_id :: str
  as_device_grant_group_id :: "str option"
  as_extra_group_ids :: "str list"

definition https :: "(str \<Rightarrow> str option) \<Rightarrow> str \<Rightarrow> str \<Rightarrow> settings_error + unit" where
  "https scheme_of url knob =
     (case scheme_of url of
        None \<Rightarrow> Inl (NotAUrl knob url)
      | Some scheme \<Rightarrow> if scheme \<noteq> lit ''https'' then Inl (NotHttps knob url) else Inr ())"

definition blueprint_name :: str where "blueprint_name = lit ''kerbridge''"

definition authentik_settings_parse :: "(str \<Rightarrow> str option) \<Rightarrow> str \<Rightarrow> authentik_raw \<Rightarrow> settings_error + authentik_settings" where
  "authentik_settings_parse scheme_of name raw =
     rbind (checked_group_id (ar_admission_group_id raw) (lit ''admission_group_id'')) (\<lambda>admission.
     rbind (transposed (map_option (\<lambda>v. checked_group_id v (lit ''device_grant_group_id'')) (ar_device_grant_group_id raw))) (\<lambda>grant.
     rbind (https scheme_of (ar_url raw) (lit ''url'')) (\<lambda>_.
       let slug = unwrap_or blueprint_name (ar_application_slug raw);
           client_id = unwrap_or blueprint_name (ar_client_id raw);
           settings = \<lparr>as_url = ar_url raw, as_application_slug = slug, as_client_id = client_id,
             as_audience = unwrap_or client_id (ar_audience raw),
             as_issuer = unwrap_or (authentik_issuer (ar_url raw) slug) (ar_issuer raw),
             as_authority = unwrap_or (application_base (ar_url raw) slug) (ar_authority raw),
             as_jwks_url = unwrap_or (authentik_jwks_url (ar_url raw) slug) (ar_jwks_url raw),
             as_display_name = unwrap_or (lit ''authentik'') (ar_display_name raw),
             as_sync_credential_file = unwrap_or (lit ''/etc/kerbridge.secrets/idp/'' @ name @ lit ''/credential'') (ar_sync_credential_file raw),
             as_admission_group_id = admission, as_device_grant_group_id = grant, as_extra_group_ids = ar_extra_group_ids raw\<rparr>
       in rbind (https scheme_of (as_issuer settings) (lit ''issuer'')) (\<lambda>_.
          rbind (https scheme_of (as_authority settings) (lit ''authority'')) (\<lambda>_.
          rbind (https scheme_of (as_jwks_url settings) (lit ''jwks_url'')) (\<lambda>_. Inr settings))))))"

record authentik =
  au_source :: source
  au_policy :: authentik_policy
  au_jwks :: jwks_source
  au_discovery :: oidc_discovery

definition SCOPES :: "str list" where
  "SCOPES = [lit ''openid'', lit ''profile'', lit ''offline_access'']"

definition authentik_connect :: "authentik_settings \<Rightarrow> source \<Rightarrow> authentik" where
  "authentik_connect settings src =
     \<lparr>au_source = src,
      au_policy = \<lparr>kp_issuer = as_issuer settings, kp_audience = as_audience settings,
        kp_client_id = as_client_id settings, kp_leeway_seconds = LEEWAY_SECONDS\<rparr>,
      au_jwks = JwksUrl (as_jwks_url settings),
      au_discovery = \<lparr>od_authority = as_authority settings, od_client_id = as_client_id settings,
        od_scopes = SCOPES, od_display_name = as_display_name settings, od_extra_auth_params = []\<rparr>\<rparr>"

lemma https_ok: "https scheme_of url knob = Inr u \<longleftrightarrow> scheme_of url = Some (lit ''https'')"
  by (auto simp: https_def split: option.splits)

lemma checked_group_id_Inr:
  "checked_group_id v knob = Inr g \<longleftrightarrow> g = v \<and> is_guid (map to_ascii_lowercase v)"
  by (auto simp: checked_group_id_def)

lemma sam_source_roundtrip: "sam_source_from_str (sam_source_spelling s) = Some s"
  by (cases s) (simp_all add: sam_source_from_str_def Let_def trim_def trim_start_by_def trim_end_by_def kb_lits
      is_whitespace_def to_ascii_lowercase_def)

lemma provider_roundtrip: "provider_from_name (provider_name p) = Some p"
  by (cases p) (simp_all add: provider_from_name_def kb_lits)

lemma plaintext_never_reached:
  assumes "authentik_settings_parse scheme_of name raw = Inr settings"
  shows "list_all (\<lambda>u. scheme_of u = Some (lit ''https''))
    [as_url settings, as_issuer settings, as_authority settings, as_jwks_url settings]"
  using assms by (auto simp: authentik_settings_parse_def kb_results Let_def https_ok)

end
