(* ===== verification/KB_JwtSound.thy ===== *)
theory KB_JwtSound
  imports KB_IdpSettings
begin

text \<open>
  What a token that yields an identity has shown, for both adapters as their settings connect them;
  and that nothing of a token's payload is read before its signature holds.
\<close>

section \<open>Times\<close>

lemma i64_add_plain: "i64_range (a + b) \<Longrightarrow> i64_add a b = a + b"
  by (simp add: i64_add_def i64_range_def)

lemma i64_add_wraps:
  assumes "i64_range a" "0 \<le> b" "b < 2 ^ 63" "\<not> i64_range (a + b)"
  shows "i64_add a b = a + b - 2 ^ 64"
proof -
  have "a + b + 2 ^ 63 = (a + b - 2 ^ 63) + 2 ^ 64" by simp
  moreover have "0 \<le> a + b - 2 ^ 63" "a + b - 2 ^ 63 < 2 ^ 64" using assms by (auto simp: i64_range_def)
  ultimately have "(a + b + 2 ^ 63) mod 2 ^ 64 = a + b - 2 ^ 63" by (metis mod_add_self2 mod_pos_pos_trivial)
  then show ?thesis by (simp add: i64_add_def)
qed

text \<open>A wrapped expiry lies before every clock, so wrapping never admits a token.\<close>

lemma not_expired:
  assumes "i64_range exp" "0 \<le> now" "\<not> now > i64_add exp 300"
  shows "now \<le> exp + 300"
proof (cases "i64_range (exp + 300)")
  case True
  then show ?thesis using assms i64_add_plain [of exp 300] by simp
next
  case False
  then have "i64_add exp 300 = exp + 300 - 2 ^ 64" using assms(1) by (intro i64_add_wraps) simp_all
  then show ?thesis using assms by (simp add: i64_range_def)
qed

lemma already_valid:
  assumes "0 \<le> now" "now + 300 < 2 ^ 63" "\<not> i64_add now 300 < nbf"
  shows "nbf \<le> now + 300"
  using assms i64_add_plain [of now 300] by (simp add: i64_range_def)

section \<open>The two policies\<close>

definition entra_claims_hold :: "entra_settings \<Rightarrow> entra_claims \<Rightarrow> int \<Rightarrow> bool" where
  "entra_claims_hold settings c now \<longleftrightarrow>
     (\<exists>exp. ec_exp c = Some exp \<and> now \<le> exp + 300) \<and> (\<exists>nbf. ec_nbf c = Some nbf \<and> nbf \<le> now + 300)
   \<and> ec_iat c \<noteq> None \<and> ec_iss c = Some (es_issuer settings)
   \<and> (\<exists>aud. ec_aud c = Some aud \<and> audience_accepts aud (es_broker_api_client_id settings))
   \<and> ec_tid c = Some (es_tenant_id settings) \<and> is_guid (es_tenant_id settings) \<and> ec_ver c = Some (lit ''2.0'')
   \<and> ec_idtyp c \<noteq> Some (lit ''app'')
   \<and> (\<exists>scp. ec_scp c = Some scp \<and> es_scope settings \<in> set (split_on c_space scp))
   \<and> ec_azp c = Some (es_public_client_id settings)"

definition authentik_claims_hold :: "authentik_settings \<Rightarrow> authentik_claims \<Rightarrow> int \<Rightarrow> bool" where
  "authentik_claims_hold settings c now \<longleftrightarrow>
     (\<exists>exp. kc_exp c = Some exp \<and> now \<le> exp + 300) \<and> (\<forall>nbf. kc_nbf c = Some nbf \<longrightarrow> nbf \<le> now + 300)
   \<and> kc_iss c = Some (as_issuer settings)
   \<and> (\<exists>aud. kc_aud c = Some aud \<and> audience_accepts aud (as_audience settings))
   \<and> kc_azp c = Some (as_client_id settings)"

lemma entra_identity_Inr:
  "entra_identity src oid = Inr i \<Longrightarrow> i = \<lparr>ei_source = src, ei_subject = oid\<rparr> \<and> is_guid oid"
  by (auto simp: entra_identity_def new_identity_def Let_def split: if_splits)

lemma authentik_identity_Inr:
  "authentik_identity a b src sub = Inr i \<Longrightarrow> i = \<lparr>ei_source = src, ei_subject = sub\<rparr> \<and> is_guid sub"
  by (auto simp: authentik_identity_def new_identity_def Let_def split: if_splits)

lemma entra_check_Inr:
  assumes "entra_check src (en_policy (entra_connect settings src)) c now = Inr i"
    and "0 \<le> now" "now + 300 < 2 ^ 63" "\<forall>x. ec_exp c = Some x \<longrightarrow> i64_range x"
  shows "entra_claims_hold settings c now \<and> (\<exists>oid. ec_oid c = Some oid \<and> entra_identity src oid = Inr i)"
proof -
  have a: "\<exists>iss aud exp nbf tid scp oid. ec_iss c = Some iss \<and> ec_aud c = Some aud \<and> ec_exp c = Some exp \<and> ec_nbf c = Some nbf
     \<and> ec_iat c \<noteq> None \<and> \<not> now > i64_add exp 300 \<and> \<not> i64_add now 300 < nbf
     \<and> audience_accepts aud (es_broker_api_client_id settings) \<and> ec_tid c = Some tid \<and> is_guid tid \<and> tid = es_tenant_id settings
     \<and> iss = es_issuer settings \<and> ec_ver c = Some (lit ''2.0'') \<and> ec_idtyp c \<noteq> Some (lit ''app'') \<and> ec_scp c = Some scp
     \<and> list_ex (\<lambda>s. s = es_scope settings) (split_on c_space scp) \<and> ec_azp c = Some (es_public_client_id settings)
     \<and> ec_oid c = Some oid \<and> entra_identity src oid = Inr i"
    using assms(1) by (simp add: entra_check_def entra_connect_def DEFAULT_LEEWAY_SECONDS_def kb_results)
  then show ?thesis
    using not_expired [OF _ assms(2)] already_valid [OF assms(2,3)] assms(4)
    unfolding entra_claims_hold_def list_ex_iff by (elim exE conjE) (intro conjI exI; (assumption | simp | blast))
qed

lemma authentik_check_Inr:
  assumes "authentik_check src (au_policy (authentik_connect settings src)) c now = Inr i"
    and "0 \<le> now" "now + 300 < 2 ^ 63" "\<forall>x. kc_exp c = Some x \<longrightarrow> i64_range x"
  shows "authentik_claims_hold settings c now
    \<and> (\<exists>sub. kc_sub c = Some sub \<and> authentik_identity NOT_A_UUID NOT_CANONICAL src sub = Inr i)"
proof -
  have a: "\<exists>exp aud iss azp sub. kc_exp c = Some exp \<and> \<not> now > i64_add exp 300 \<and> \<not> not_yet_valid (kc_nbf c) now 300
     \<and> kc_aud c = Some aud \<and> audience_accepts aud (as_audience settings) \<and> kc_iss c = Some iss \<and> iss = as_issuer settings
     \<and> kc_azp c = Some azp \<and> azp = as_client_id settings
     \<and> kc_sub c = Some sub \<and> authentik_identity NOT_A_UUID NOT_CANONICAL src sub = Inr i"
    using assms(1) by (cases "kc_azp c") (simp_all add: authentik_check_def authentik_connect_def LEEWAY_SECONDS_def kb_results)
  have n: "\<forall>nbf. kc_nbf c = Some nbf \<longrightarrow> nbf \<le> now + 300" if "\<not> not_yet_valid (kc_nbf c) now 300"
    using that already_valid [OF assms(2,3)] by (auto simp: not_yet_valid_def)
  from a show ?thesis
    using not_expired [OF _ assms(2)] n assms(4)
    unfolding authentik_claims_hold_def by (elim exE conjE) (intro conjI exI; (assumption | simp | blast))
qed

text \<open>
  C5 (KB_JwtSound.entra_accepts_only). When the Entra adapter reduces a token to an identity, the token
  is three parts signed over the exact bytes sent by a key the cache holds for its key id, with an
  algorithm of the asymmetric allowlist the key is published for; its claims name this tenant, its
  issuer, this broker as audience, the agent as client, a delegated scope and no app-only marker,
  inside its validity give or take five minutes; and the identity is the source with the token's
  \<open>oid\<close>, a canonical GUID, exactly what sync stores for that subject.
\<close>

theorem entra_accepts_only:
  assumes "entra_verify env vf from_json net rd token src (en_policy (entra_connect settings src)) jw now = (Inr i, posts, jw')"
    and "0 \<le> now" "now + 300 < 2 ^ 63" "\<forall>p c x. from_json p = Some c \<and> ec_exp c = Some x \<longrightarrow> i64_range x"
  shows "\<exists>payload c oid. token_signed (ke_jose env) vf (ks_by_kid (jw_keys jw')) token payload \<and> from_json payload = Some c
    \<and> entra_claims_hold settings c now \<and> ec_oid c = Some oid \<and> is_guid oid
    \<and> i = \<lparr>ei_source = src, ei_subject = oid\<rparr> \<and> encode_identity EntraProvider src oid = Inr i"
proof -
  obtain r where v: "verified_claims env vf net rd from_json token jw = (r, posts, jw')"
    and r: "rbind r (\<lambda>c. entra_check src (en_policy (entra_connect settings src)) c now) = Inr i"
    using assms(1) by (auto simp: entra_verify_def Let_def split_beta prod_eq_iff)
  then obtain c where c: "r = Inr c" "entra_check src (en_policy (entra_connect settings src)) c now = Inr i"
    by (auto simp: kb_results)
  obtain payload where p: "token_signed (ke_jose env) vf (ks_by_kid (jw_keys jw')) token payload" "from_json payload = Some c"
    using iffD1 [OF verified_claims_Inr, of env vf net rd from_json token jw c] by (auto simp: v c(1))
  then have "\<forall>x. ec_exp c = Some x \<longrightarrow> i64_range x" using assms(4) by blast
  from entra_check_Inr [OF c(2) assms(2,3) this] obtain oid where "entra_claims_hold settings c now"
    "ec_oid c = Some oid" "entra_identity src oid = Inr i" by blast
  then show ?thesis using p entra_identity_Inr by auto
qed

text \<open>
  C6 (KB_JwtSound.authentik_accepts_only). The same for authentik: the client is the one in \<open>azp\<close>,
  which an ID token does not carry, and the identity is the source with the token's \<open>sub\<close>.
\<close>

theorem authentik_accepts_only:
  assumes "authentik_verify env vf from_json net rd token src (au_policy (authentik_connect settings src)) jw now = (Inr i, posts, jw')"
    and "0 \<le> now" "now + 300 < 2 ^ 63" "\<forall>p c x. from_json p = Some c \<and> kc_exp c = Some x \<longrightarrow> i64_range x"
  shows "\<exists>payload c sub. token_signed (ke_jose env) vf (ks_by_kid (jw_keys jw')) token payload \<and> from_json payload = Some c
    \<and> authentik_claims_hold settings c now \<and> kc_sub c = Some sub \<and> is_guid sub
    \<and> i = \<lparr>ei_source = src, ei_subject = sub\<rparr> \<and> encode_identity AuthentikProvider src sub = Inr i"
proof -
  obtain r where v: "verified_claims env vf net rd from_json token jw = (r, posts, jw')"
    and r: "rbind r (\<lambda>c. authentik_check src (au_policy (authentik_connect settings src)) c now) = Inr i"
    using assms(1) by (auto simp: authentik_verify_def Let_def split_beta prod_eq_iff)
  then obtain c where c: "r = Inr c" "authentik_check src (au_policy (authentik_connect settings src)) c now = Inr i"
    by (auto simp: kb_results)
  obtain payload where p: "token_signed (ke_jose env) vf (ks_by_kid (jw_keys jw')) token payload" "from_json payload = Some c"
    using iffD1 [OF verified_claims_Inr, of env vf net rd from_json token jw c] by (auto simp: v c(1))
  then have "\<forall>x. kc_exp c = Some x \<longrightarrow> i64_range x" using assms(4) by blast
  from authentik_check_Inr [OF c(2) assms(2,3) this] obtain sub where "authentik_claims_hold settings c now"
    "kc_sub c = Some sub" "authentik_identity NOT_A_UUID NOT_CANONICAL src sub = Inr i" by blast
  then show ?thesis using p authentik_identity_Inr by auto
qed

lemma not_three_parts:
  "\<not> (\<exists>h c g. split_on c_dot token = [h, c, g]) \<Longrightarrow> verified_claims env vf net rd from_json token jw = (Inl NotThreeParts, [], jw)"
  by (auto simp: verified_claims_def split: list.splits)

lemma bad_head:
  assumes "split_on c_dot token = [h, c, g]" "jwt_head (ke_jose env) vf h g = Inl e"
  shows "verified_claims env vf net rd from_json token jw = (Inl e, [], jw)"
  unfolding verified_claims_def assms(1) list.case assms(2) sum.case by (rule refl)

lemma jwt_claims_refusal:
  assumes "\<not> (outcome = Some (Some True) \<and> jo_b64url jo c \<noteq> None)"
  shows "\<exists>e. e \<noteq> ClaimsNotJson \<and> jwt_claims jo (fj :: byte list \<Rightarrow> 'c option) c kid alg outcome = Inl e
    \<and> jwt_claims jo (fj' :: byte list \<Rightarrow> 'd option) c kid alg outcome = Inl e"
proof -
  consider "outcome = None" | "outcome = Some None" | "outcome = Some (Some False)"
    | "outcome = Some (Some True)" "jo_b64url jo c = None" using assms by (cases outcome) auto
  then show ?thesis by cases (simp_all add: jwt_claims_def rbind_def ok_or_def guard_def)
qed

text \<open>
  Fact (KB_JwtSound.forged_payload_unread). A token that no cached key signed is refused for a reason
  that does not depend on its claims: with any other reader of claims the refusal, the cache and the
  notifications are the same.
\<close>

theorem forged_payload_unread:
  assumes "verified_claims env vf net rd (from_json :: byte list \<Rightarrow> 'c option) token jw = (r, posts, jw')"
    and "\<not> (\<exists>payload. token_signed (ke_jose env) vf (ks_by_kid (jw_keys jw')) token payload)"
  shows "\<exists>e. r = Inl e \<and> e \<noteq> ClaimsNotJson
    \<and> verified_claims env vf net rd (from_json' :: byte list \<Rightarrow> 'd option) token jw = (Inl e, posts, jw')"
proof (cases "\<exists>h c g. split_on c_dot token = [h, c, g]")
  case False
  then show ?thesis using assms(1) by (simp add: not_three_parts)
next
  case True
  then obtain h c g where t: "split_on c_dot token = [h, c, g]" by blast
  show ?thesis
  proof (cases "jwt_head (ke_jose env) vf h g")
    case (Inl e)
    then have "e \<noteq> ClaimsNotJson" by (auto simp: jwt_head_def rbind_Inl ok_or_def split: option.splits)
    then show ?thesis using assms(1) by (simp add: bad_head [OF t Inl])
  next
    case (Inr x)
    then obtain header primitive kid signature where
      d: "jwt_head (ke_jose env) vf h g = Inr (header, primitive, kid, signature)" by (metis prod_cases4)
    obtain outcome ps jk where w: "with_key env net rd kid (key_verdict vf header primitive (utf8 (h @ [c_dot] @ c)) signature) jw
        = (outcome, ps, jk)" by (metis prod_cases3)
    have v: "verified_claims env vf net rd fj token jw = (jwt_claims (ke_jose env) fj c kid (jh_alg header) outcome, ps, jk)"
      for fj :: "byte list \<Rightarrow> 'x option" unfolding three_parts [OF t d] w Let_def prod.case by (rule refl)
    have eq: "ps = posts" "jk = jw'" "r = jwt_claims (ke_jose env) from_json c kid (jh_alg header) outcome"
      using assms(1) unfolding v by simp_all
    have "\<not> (outcome = Some (Some True) \<and> jo_b64url (ke_jose env) c \<noteq> None)"
    proof
      assume "outcome = Some (Some True) \<and> jo_b64url (ke_jose env) c \<noteq> None"
      then obtain payload where p: "fst (verified_claims env vf net rd Some token jw) = Inr payload"
        unfolding v fst_conv jwt_claims_Inr by auto
      have "\<exists>q. token_signed (ke_jose env) vf (ks_by_kid (jw_keys jk)) token q"
        using iffD1 [OF verified_claims_Inr p] unfolding v snd_conv by blast
      then show False using assms(2) eq(2) by simp
    qed
    from jwt_claims_refusal [OF this] obtain e where "e \<noteq> ClaimsNotJson"
       "jwt_claims (ke_jose env) from_json c kid (jh_alg header) outcome = Inl e"
       "jwt_claims (ke_jose env) from_json' c kid (jh_alg header) outcome = Inl e"
      by blast
    then show ?thesis using eq unfolding v by simp
  qed
qed

section \<open>Witnesses\<close>

definition sample_verifier :: verifier where
  "sample_verifier = \<lparr>vf_header = (\<lambda>_. Some \<lparr>jh_alg = lit ''RS256'', jh_kid = Some (lit ''k'')\<rparr>),
     vf_rsa = (\<lambda>primitive n e message signature. primitive = RSA_PKCS1_2048_8192_SHA256 \<and> n = [7] \<and> signature = map (\<lambda>b. b + 1) (take 1 message))\<rparr>"

definition sample_guid :: str where
  "sample_guid = lit ''aaaabbbb-0000-cccc-1111-dddd2222eeee''"

definition sample_entra :: entra_settings where
  "sample_entra = \<lparr>es_tenant_id = sample_guid, es_broker_api_client_id = lit ''api'', es_public_client_id = lit ''agent'',
     es_scope = lit ''access_as_user'', es_issuer = lit ''iss'', es_authority = lit ''iss'', es_jwks = JwksUrl (lit ''u''),
     es_display_name = lit ''Entra'', es_sam_source = DisplayName, es_sync_client_id = lit ''sync'', es_sync_credential_file = lit ''f'',
     es_sync_credential_expires = None, es_admission_group_id = sample_guid, es_device_grant_group_id = None, es_extra_group_ids = []\<rparr>"

definition sample_entra_claims :: entra_claims where
  "sample_entra_claims = \<lparr>ec_iss = Some (lit ''iss''), ec_aud = Some (One (lit ''api'')), ec_exp = Some 100, ec_nbf = Some 10, ec_iat = Some 10,
     ec_ver = Some (lit ''2.0''), ec_tid = Some sample_guid, ec_oid = Some sample_guid, ec_azp = Some (lit ''agent''),
     ec_scp = Some (lit ''openid access_as_user''), ec_idtyp = None\<rparr>"

definition sample_authentik :: authentik_settings where
  "sample_authentik = \<lparr>as_url = lit ''u'', as_application_slug = lit ''s'', as_client_id = lit ''agent'', as_audience = lit ''agent'',
     as_issuer = lit ''iss'', as_authority = lit ''a'', as_jwks_url = lit ''j'', as_display_name = lit ''authentik'',
     as_sync_credential_file = lit ''f'', as_admission_group_id = sample_guid, as_device_grant_group_id = None, as_extra_group_ids = []\<rparr>"

definition sample_authentik_claims :: authentik_claims where
  "sample_authentik_claims = \<lparr>kc_iss = Some (lit ''iss''), kc_aud = Some (Many [lit ''x'', lit ''agent'']), kc_exp = Some 100,
     kc_nbf = None, kc_azp = Some (lit ''agent''), kc_sub = Some sample_guid\<rparr>"

definition sample_src :: source where "sample_src = Source (lit ''entra'')"

lemma sample_guid_ok: "is_guid sample_guid"
  by (simp_all add: sample_guid_def is_guid_def guid_field_def kb_lits utf8_def utf8_char_def utf8_len_def len_utf8_def)

lemma sample_signed_claims:
  "verified_claims sample_key_env sample_verifier dead_net (sample_readings 0) (\<lambda>_. Some c) (lit ''h.c.i'') sample_jwks
     = (Inr c, [], sample_jwks)"
  by (simp add: verified_claims_def jwt_head_def jwt_claims_def key_verdict_def with_key_def kb_lits rbind_def ok_or_def guard_def
      sample_key_env_def sample_jose_def sample_verifier_def sample_jwks_def sample_cache_def sample_key_def sample_readings_def
      jws_algorithm_def JWS_ALGORITHMS_def pins_def verify_rsa_def trim_leading_zeros_def MAX_AGE_def utf8_def utf8_char_def
      utf8_len_def len_utf8_def)

lemma token_identity_sample: "new_identity sample_src sample_guid = Inr \<lparr>ei_source = sample_src, ei_subject = sample_guid\<rparr>"
proof -
  have "escape_field (lit ''entra'') = lit ''entra''" by (simp add: kb_lits)
  then show ?thesis
    using guid_escape_plain [OF sample_guid_ok] is_guid_length [OF sample_guid_ok]
    by (auto simp: new_identity_def encode_def sample_src_def kb_lits Let_def)
qed

theorem entra_accepts_only_witness:
  "\<exists>payload. token_signed sample_jose sample_verifier (ks_by_kid sample_cache) (lit ''h.c.i'') payload
     \<and> entra_claims_hold sample_entra sample_entra_claims 50"
proof -
  have "entra_verify sample_key_env sample_verifier (\<lambda>_. Some sample_entra_claims) dead_net (sample_readings 0) (lit ''h.c.i'')
      sample_src (en_policy (entra_connect sample_entra sample_src)) sample_jwks 50
      = (Inr \<lparr>ei_source = sample_src, ei_subject = sample_guid\<rparr>, [], sample_jwks)"
    unfolding entra_verify_def sample_signed_claims Let_def prod.case
    by (simp add: entra_check_def rbind_def ok_or_def guard_def map_err_def entra_connect_def
        sample_entra_def sample_entra_claims_def i64_add_def DEFAULT_LEEWAY_SECONDS_def sample_guid_ok entra_identity_def
        token_identity_sample kb_lits)
  from entra_accepts_only [OF this] show ?thesis
    by (auto simp: sample_entra_claims_def i64_range_def sample_key_env_def sample_jwks_def)
qed

theorem authentik_accepts_only_witness:
  "\<exists>payload. token_signed sample_jose sample_verifier (ks_by_kid sample_cache) (lit ''h.c.i'') payload
     \<and> authentik_claims_hold sample_authentik sample_authentik_claims 50"
proof -
  have l: "is_guid (map to_ascii_lowercase sample_guid)"
    by (simp add: sample_guid_def is_guid_def guid_field_def kb_lits utf8_def utf8_char_def utf8_len_def len_utf8_def to_ascii_lowercase_def)
  have "authentik_verify sample_key_env sample_verifier (\<lambda>_. Some sample_authentik_claims) dead_net (sample_readings 0) (lit ''h.c.i'')
      sample_src (au_policy (authentik_connect sample_authentik sample_src)) sample_jwks 50
      = (Inr \<lparr>ei_source = sample_src, ei_subject = sample_guid\<rparr>, [], sample_jwks)"
    unfolding authentik_verify_def sample_signed_claims Let_def prod.case
    by (simp add: authentik_check_def rbind_def ok_or_def guard_def map_err_def authentik_connect_def
        sample_authentik_def sample_authentik_claims_def i64_add_def LEEWAY_SECONDS_def sample_guid_ok authentik_identity_def
        token_identity_sample kb_lits not_yet_valid_def l)
  from authentik_accepts_only [OF this] show ?thesis
    by (auto simp: sample_authentik_claims_def i64_range_def sample_key_env_def sample_jwks_def)
qed

theorem forged_payload_unread_witness:
  "verified_claims sample_key_env sample_verifier dead_net (sample_readings 0) (\<lambda>_. Some ()) (lit ''h.c.x'') sample_jwks
     = (Inl BadSignature, [], sample_jwks)
   \<and> verified_claims sample_key_env sample_verifier dead_net (sample_readings 0) (\<lambda>_. None :: nat option) (lit ''h.c.x'') sample_jwks
     = (Inl BadSignature, [], sample_jwks)"
proof -
  have v: "verified_claims sample_key_env sample_verifier dead_net (sample_readings 0) (\<lambda>_. Some ()) (lit ''h.c.x'') sample_jwks
     = (Inl BadSignature, [], sample_jwks)"
    by (simp add: verified_claims_def jwt_head_def jwt_claims_def key_verdict_def with_key_def kb_lits rbind_def ok_or_def guard_def
      sample_key_env_def sample_jose_def sample_verifier_def sample_jwks_def sample_cache_def sample_key_def sample_readings_def
      jws_algorithm_def JWS_ALGORITHMS_def pins_def verify_rsa_def trim_leading_zeros_def MAX_AGE_def utf8_def utf8_char_def
      utf8_len_def len_utf8_def)
  have "\<not> (\<exists>payload. token_signed (ke_jose sample_key_env) sample_verifier (ks_by_kid (jw_keys sample_jwks)) (lit ''h.c.x'') payload)"
  proof
    assume "\<exists>payload. token_signed (ke_jose sample_key_env) sample_verifier (ks_by_kid (jw_keys sample_jwks)) (lit ''h.c.x'') payload"
    then have "fst (verified_claims sample_key_env sample_verifier dead_net (sample_readings 0) (\<lambda>_. Some ()) (lit ''h.c.x'') sample_jwks) = Inr ()"
      by (subst verified_claims_Inr) (simp add: v)
    then show False by (simp add: v)
  qed
  from forged_payload_unread [OF v this] show ?thesis using v by auto
qed

end
