(* ===== verification/KB_Graph.thy ===== *)
theory KB_Graph
  imports KB_Snapshot KB_JwtSound
begin

text \<open>
  The Entra adapter's directory face: the Graph wire shapes and the shadow they patch
  (\<open>crates/kerbridge-idp/src/entra/wire.rs\<close>), the HTTP client with its paging, throttling and cursor
  rules (\<open>entra/client.rs\<close>), and the source that owns shadow and cursors (\<open>entra/sync.rs\<close>). The
  HTTP library, the JSON reader, the URL parser and the clock are parameters; ordered maps are
  association lists kept by \<open>bt_insert\<close>.
\<close>

section \<open>Wire shapes and the shadow\<close>

datatype member_kind = KindUser | KindGroup | KindDevice | KindServicePrincipal | KindOther

definition from_odata :: "str \<Rightarrow> member_kind" where
  "from_odata t =
     (let class_name = last (split_on c_dot t) in
      if class_name = lit ''user'' then KindUser
      else if class_name = lit ''group'' then KindGroup
      else if class_name = lit ''device'' then KindDevice
      else if class_name = lit ''servicePrincipal'' then KindServicePrincipal
      else KindOther)"

record 'a page =
  pg_next_link :: "str option"
  pg_delta_link :: "str option"
  pg_value :: "'a list"

record raw_user =
  ru_id :: str
  ru_display_name :: "str option"
  ru_upn :: "str option"
  ru_mail :: "str option"
  ru_other_mails :: "str list option"
  ru_account_enabled :: "bool option"
  ru_user_type :: "str option"
  ru_removed :: bool

record raw_member =
  rm_odata_type :: str
  rm_id :: str
  rm_removed :: bool

record raw_group =
  rg_id :: str
  rg_display_name :: "str option"
  rg_members_delta :: "raw_member list option"
  rg_removed :: bool

record shadow_user =
  su_display_name :: "str option"
  su_upn :: "str option"
  su_mail :: "str option"
  su_other_mails :: "str list option"
  su_account_enabled :: "bool option"
  su_user_type :: "str option"

record shadow_member =
  sm_kind :: member_kind
  sm_id :: str

record shadow_group =
  sg_display_name :: "str option"
  sg_members :: "shadow_member list"

record shadow =
  sh_users :: "(str \<times> shadow_user) list"
  sh_groups :: "(str \<times> shadow_group) list"

definition empty_shadow :: shadow where "empty_shadow = \<lparr>sh_users = [], sh_groups = []\<rparr>"

definition default_user :: shadow_user where
  "default_user = \<lparr>su_display_name = None, su_upn = None, su_mail = None, su_other_mails = None,
     su_account_enabled = None, su_user_type = None\<rparr>"

definition default_group :: shadow_group where
  "default_group = \<lparr>sg_display_name = None, sg_members = []\<rparr>"

definition patched :: "'a option \<Rightarrow> 'a option \<Rightarrow> 'a option" where
  "patched newer older = (case newer of None \<Rightarrow> older | Some v \<Rightarrow> Some v)"

definition patch_user :: "raw_user \<Rightarrow> shadow_user \<Rightarrow> shadow_user" where
  "patch_user e u =
     \<lparr>su_display_name = patched (ru_display_name e) (su_display_name u), su_upn = patched (ru_upn e) (su_upn u),
      su_mail = patched (ru_mail e) (su_mail u), su_other_mails = patched (ru_other_mails e) (su_other_mails u),
      su_account_enabled = patched (ru_account_enabled e) (su_account_enabled u),
      su_user_type = patched (ru_user_type e) (su_user_type u)\<rparr>"

definition without_member :: "str \<Rightarrow> shadow_group \<Rightarrow> shadow_group" where
  "without_member oid g = g\<lparr>sg_members := filter (\<lambda>m. sm_id m \<noteq> oid) (sg_members g)\<rparr>"

definition apply_user :: "raw_user \<Rightarrow> shadow \<Rightarrow> shadow" where
  "apply_user e sh =
     (if ru_removed e
      then \<lparr>sh_users = filter (\<lambda>(k, _). k \<noteq> ru_id e) (sh_users sh),
            sh_groups = map (\<lambda>(k, g). (k, without_member (ru_id e) g)) (sh_groups sh)\<rparr>
      else sh\<lparr>sh_users := bt_insert (ru_id e)
               (patch_user e (case map_of (sh_users sh) (ru_id e) of None \<Rightarrow> default_user | Some u \<Rightarrow> u)) (sh_users sh)\<rparr>)"

definition apply_users :: "raw_user list \<Rightarrow> shadow \<Rightarrow> shadow" where
  "apply_users entries sh = foldl (\<lambda>sh e. apply_user e sh) sh entries"

definition merge_edge :: "raw_member \<Rightarrow> shadow_member list \<Rightarrow> shadow_member list" where
  "merge_edge m members =
     (if rm_removed m then filter (\<lambda>x. sm_id x \<noteq> rm_id m) members
      else if list_ex (\<lambda>x. sm_id x = rm_id m) members then members
      else members @ [\<lparr>sm_kind = from_odata (rm_odata_type m), sm_id = rm_id m\<rparr>])"

definition patch_group :: "raw_group \<Rightarrow> shadow_group \<Rightarrow> shadow_group" where
  "patch_group e g =
     \<lparr>sg_display_name = patched (rg_display_name e) (sg_display_name g),
      sg_members = (case rg_members_delta e of None \<Rightarrow> sg_members g
        | Some md \<Rightarrow> foldl (\<lambda>ms m. merge_edge m ms) (sg_members g) md)\<rparr>"

definition apply_group :: "raw_group \<Rightarrow> shadow \<Rightarrow> shadow" where
  "apply_group e sh =
     (if rg_removed e then sh\<lparr>sh_groups := filter (\<lambda>(k, _). k \<noteq> rg_id e) (sh_groups sh)\<rparr>
      else sh\<lparr>sh_groups := bt_insert (rg_id e)
               (patch_group e (case map_of (sh_groups sh) (rg_id e) of None \<Rightarrow> default_group | Some g \<Rightarrow> g)) (sh_groups sh)\<rparr>)"

definition apply_groups :: "raw_group list \<Rightarrow> shadow \<Rightarrow> shadow" where
  "apply_groups entries sh = foldl (\<lambda>sh e. apply_group e sh) sh entries"

section \<open>The enumeration\<close>

definition user_syncable :: "shadow_user \<Rightarrow> bool" where
  "user_syncable u \<longleftrightarrow> su_user_type u \<in> {Some (lit ''Member''), Some (lit ''Guest'')}"

definition NOT_SYNCABLE :: str where
  "NOT_SYNCABLE = lit ''userType is neither Member nor Guest (or absent) - fails closed''"

definition email_address :: "shadow_user \<Rightarrow> str" where
  "email_address u =
     (case su_mail u of
        Some mail \<Rightarrow> if trim mail \<noteq> [] then mail
                     else (case su_other_mails u of Some (m # _) \<Rightarrow> m | _ \<Rightarrow> [])
      | None \<Rightarrow> (case su_other_mails u of Some (m # _) \<Rightarrow> m | _ \<Rightarrow> []))"

definition upn_local_part :: "str \<Rightarrow> str" where
  "upn_local_part upn = hd (split_on c_hash (local_part upn))"

fun first_candidate :: "('a \<Rightarrow> 'b option) \<Rightarrow> 'a list \<Rightarrow> 'b option" where
  "first_candidate f [] = None"
| "first_candidate f (x # xs) = (case f x of None \<Rightarrow> first_candidate f xs | Some y \<Rightarrow> Some y)"

definition name_candidates :: "unicode \<Rightarrow> shadow_user \<Rightarrow> sam_source \<Rightarrow> str list" where
  "name_candidates uc u sam =
     (let display = dotted (unwrap_or [] (su_display_name u));
          email = local_part (email_address u);
          upn = upn_local_part (unwrap_or [] (su_upn u));
          order = (case sam of
             DisplayName \<Rightarrow> [display, email, upn]
           | EmailUsername \<Rightarrow> [email, upn, display]
           | Upn \<Rightarrow> [upn, display, email])
      in (case first_candidate (name_candidate uc) order of None \<Rightarrow> [] | Some c \<Rightarrow> [c]))"

definition entra_desired_user :: "unicode \<Rightarrow> sam_source \<Rightarrow> shadow_user \<Rightarrow> desired_user" where
  "entra_desired_user uc sam u =
     \<lparr>du_display_name = unwrap_or [] (su_display_name u), du_candidates = name_candidates uc u sam,
      du_enabled = unwrap_or False (su_account_enabled u)\<rparr>"

definition entra_refusal :: "str \<Rightarrow> shadow_user \<Rightarrow> refusal" where
  "entra_refusal oid u = \<lparr>rf_who = oid @ lit '' ('' @ unwrap_or (lit ''no UPN'') (su_upn u) @ lit '')'', rf_why = NOT_SYNCABLE\<rparr>"

fun edge_of :: "shadow_member \<Rightarrow> membership option" where
  "edge_of m = (case sm_kind m of
     KindUser \<Rightarrow> Some (MUser (sm_id m)) | KindGroup \<Rightarrow> Some (MGroup (sm_id m)) | _ \<Rightarrow> None)"

definition enumerate_shadow :: "unicode \<Rightarrow> sam_source \<Rightarrow> shadow \<Rightarrow> enumeration" where
  "enumerate_shadow uc sam sh =
     \<lparr>en_users = map (\<lambda>(oid, u). (oid, entra_desired_user uc sam u)) (filter (\<lambda>(_, u). user_syncable u) (sh_users sh)),
      en_groups = map (\<lambda>(gid, g). (gid, \<lparr>dg_display_name = unwrap_or [] (sg_display_name g)\<rparr>)) (sh_groups sh),
      en_membership = map (\<lambda>(gid, g). (gid, List.map_filter edge_of (sg_members g))) (sh_groups sh),
      en_refused = map (\<lambda>(oid, u). (oid, entra_refusal oid u)) (filter (\<lambda>(_, u). \<not> user_syncable u) (sh_users sh))\<rparr>"

section \<open>One request\<close>

datatype graph_error = AuthRefused nat str | GraphFault str

record url =
  ur_scheme :: str
  ur_host :: "str option"
  ur_port :: "nat option"
  ur_path :: str
  ur_query_names :: "str list"

text \<open>
  The transport \<open>gh_send\<close> is one request with the bearer token to one address, knowing the addresses
  that redirected to it. What is relied on of the HTTP library is documented behaviour: a redirect
  answer whose \<open>Location\<close> resolves to a URL (\<open>hp_redirect\<close>, made absolute by the library) is put to
  the policy with the addresses tried so far; a refusal fails the request; a followed one is a new
  request, which keeps the token as long as host and effective port stay; the library's default policy, to
  which the code delegates, refuses once \<open>gh_max_redirects\<close> hops (ten) were followed.
\<close>

record http_reply =
  hp_status :: nat
  hp_retry_after :: "str option"
  hp_location :: "str option"
  hp_redirect :: "str option"
  hp_body :: "byte list"

record 'w graph_http =
  gh_url_parse :: "str \<Rightarrow> url option"
  gh_redact :: "str \<Rightarrow> str"
  gh_send :: "str list \<Rightarrow> str \<Rightarrow> str \<Rightarrow> 'w \<Rightarrow> (str + http_reply) \<times> 'w"
  gh_max_redirects :: nat
  gh_now :: "'w \<Rightarrow> nat"
  gh_sleep :: "nat \<Rightarrow> 'w \<Rightarrow> 'w"

definition GRAPH :: str where "GRAPH = lit ''https://graph.microsoft.com/v1.0''"
definition USER_SELECT :: str where
  "USER_SELECT = lit ''id,displayName,userPrincipalName,mail,otherMails,accountEnabled,userType''"
definition GROUP_SELECT :: str where "GROUP_SELECT = lit ''id,displayName,members''"
definition BACKOFF_CAP_SECS :: nat where "BACKOFF_CAP_SECS = 300"
definition STALL_LIMIT :: nat where "STALL_LIMIT = 3 * BACKOFF_CAP_SECS"
definition GRAPH_HOST :: str where "GRAPH_HOST = lit ''graph.microsoft.com''"
definition GRAPH_PATH :: str where "GRAPH_PATH = lit ''/v1.0''"

datatype 'a page_outcome = OPage "'a page" | Throttled "nat option" | OResync | OCursorCorrupt | Transient

definition is_graph_url :: "'w graph_http \<Rightarrow> str \<Rightarrow> bool" where
  "is_graph_url h raw =
     (case gh_url_parse h raw of
        None \<Rightarrow> False
      | Some u \<Rightarrow> ur_scheme u = lit ''https'' \<and> ur_host u = Some GRAPH_HOST \<and> ur_port u = None
          \<and> (ur_path u = GRAPH_PATH \<or> starts_with (ur_path u) (GRAPH_PATH @ [c_slash])))"

definition assert_graph_url :: "'w graph_http \<Rightarrow> str \<Rightarrow> graph_error + unit" where
  "assert_graph_url h raw =
     guard (is_graph_url h raw)
       (GraphFault (lit ''refusing to send the Graph token to '' @ gh_redact h raw @ lit '', which is not Graph''))"

text \<open>
  \<open>Url::origin\<close>: scheme, host and effective port of a URL whose scheme has a default port; any other URL has an opaque
  origin, which equals no other one.
\<close>

definition known_port :: "str \<Rightarrow> nat option" where
  "known_port scheme =
     (if scheme = lit ''https'' \<or> scheme = lit ''wss'' then Some 443
      else if scheme = lit ''http'' \<or> scheme = lit ''ws'' then Some 80
      else if scheme = lit ''ftp'' then Some 21 else None)"

definition origin_of :: "url \<Rightarrow> (str \<times> str \<times> nat) option" where
  "origin_of u =
     (case ur_host u of
        None \<Rightarrow> None
      | Some host \<Rightarrow> map_option (\<lambda>port. (ur_scheme u, host, unwrap_or port (ur_port u))) (known_port (ur_scheme u)))"

definition same_origin :: "url list \<Rightarrow> url \<Rightarrow> bool" where
  "same_origin previous next_url \<longleftrightarrow>
     previous \<noteq> [] \<and> origin_of (last previous) \<noteq> None \<and> origin_of (last previous) = origin_of next_url"

datatype redirect_action = Follow | Refuse str

text \<open>The policy the client is built with, on the addresses tried so far and the one a redirect names.\<close>

definition redirect_policy :: "'w graph_http \<Rightarrow> str list \<Rightarrow> url \<Rightarrow> redirect_action" where
  "redirect_policy h previous next_url =
     (if same_origin (List.map_filter (gh_url_parse h) previous) next_url
      then (if length previous > gh_max_redirects h then Refuse (lit ''too many redirects'') else Follow)
      else Refuse (lit ''refusing a redirect off the origin the request started on''))"

definition REDIRECTS :: "nat list" where "REDIRECTS = [301, 302, 303, 307, 308]"

definition redirect_target :: "'w graph_http \<Rightarrow> http_reply \<Rightarrow> (str \<times> url) option" where
  "redirect_target h reply =
     (if hp_status reply \<in> set REDIRECTS
      then Option.bind (hp_redirect reply) (\<lambda>raw. map_option (Pair raw) (gh_url_parse h raw)) else None)"

text \<open>\<open>send\<close>: the hops of one request, each put to the policy.\<close>

function send_hops ::
  "'w graph_http \<Rightarrow> str \<Rightarrow> str list \<Rightarrow> str \<Rightarrow> 'w \<Rightarrow> (str + http_reply) \<times> 'w" where
  "send_hops h token previous raw w =
     (case gh_send h previous token raw w of
        (Inl e, w') \<Rightarrow> (Inl e, w')
      | (Inr reply, w') \<Rightarrow>
          (case redirect_target h reply of
             None \<Rightarrow> (Inr reply, w')
           | Some (next_raw, next_url) \<Rightarrow>
               (case redirect_policy h (previous @ [raw]) next_url of
                  Refuse e \<Rightarrow> (Inl e, w')
                | Follow \<Rightarrow> send_hops h token (previous @ [raw]) next_raw w')))"
  by pat_completeness auto

termination
  by (relation "measure (\<lambda>(h, token, previous, raw, w). gh_max_redirects h - length previous)")
     (auto simp: redirect_policy_def split: if_splits)

declare send_hops.simps [simp del]

definition carries_cursor :: "'w graph_http \<Rightarrow> str \<Rightarrow> bool" where
  "carries_cursor h raw =
     (case gh_url_parse h raw of
        None \<Rightarrow> False
      | Some u \<Rightarrow> list_ex (\<lambda>k. k = lit ''$deltatoken'' \<or> k = lit ''$skiptoken'') (ur_query_names u))"

definition auth_refused_text :: "nat \<Rightarrow> str \<Rightarrow> str" where
  "auth_refused_text status detail =
     (if status = 401
      then lit ''Graph rejected the access token; a token is short-lived, so the next cycle'' @ [39] @ lit ''s own token normally clears this''
      else lit ''Graph refused the read; grant the application User.Read.All and Group.Read.All, then give admin consent'')
     @ lit '' (HTTP '' @ show_dec status @ lit '': '' @ detail @ lit '')''"

definition classify :: "(byte list \<Rightarrow> str + 'a page) \<Rightarrow> http_reply \<Rightarrow> bool \<Rightarrow> graph_error + 'a page_outcome" where
  "classify page_json reply carries =
     (let status = hp_status reply in
      if status = 200 then map_err (\<lambda>e. GraphFault (lit ''parsing Graph page: '' @ e)) (rbind (page_json (hp_body reply)) (\<lambda>p. Inr (OPage p)))
      else if status = 429 then Inr (Throttled (Option.bind (hp_retry_after reply) (\<lambda>v. parse_unsigned u64_max (trim v))))
      else if status = 410 then
        (case hp_location reply of Some _ \<Rightarrow> Inr OResync | None \<Rightarrow> Inl (GraphFault (lit ''410 Gone without a Location header'')))
      else if status = 400 \<and> carries then Inr OCursorCorrupt
      else if status = 401 \<or> status = 403 then Inl (AuthRefused status (from_utf8_lossy (hp_body reply)))
      else if 500 \<le> status \<and> status \<le> 599 then Inr Transient
      else Inl (GraphFault (lit ''unexpected Graph status '' @ show_dec status @ lit '': '' @ from_utf8_lossy (hp_body reply))))"

definition get_page ::
  "'w graph_http \<Rightarrow> (byte list \<Rightarrow> str + 'a page) \<Rightarrow> str \<Rightarrow> str \<Rightarrow> 'w \<Rightarrow> (graph_error + 'a page_outcome) \<times> 'w" where
  "get_page h page_json token url w =
     (case assert_graph_url h url of
        Inl e \<Rightarrow> (Inl e, w)
      | Inr _ \<Rightarrow>
          let (answer, w') = send_hops h token [] url w
          in (rbind (map_err (\<lambda>e. GraphFault (lit ''GET '' @ gh_redact h url @ lit '': '' @ e)) answer)
                (\<lambda>reply. classify page_json reply (carries_cursor h url)), w'))"

section \<open>One stream\<close>

datatype 'a stream_result = StComplete "'a list" "str option" | StResync | StCursorCorrupt | StStalled

record 'a stream_state =
  st_url :: str
  st_items :: "'a list"
  st_backoff :: nat
  st_last_page :: nat

text \<open>One round of the loop: a result, or the state of the next round.\<close>

definition stream_round ::
  "'w graph_http \<Rightarrow> (byte list \<Rightarrow> str + 'a page) \<Rightarrow> str \<Rightarrow> 'a stream_state \<Rightarrow> 'w
     \<Rightarrow> ((graph_error + 'a stream_result) + 'a stream_state) \<times> 'w" where
  "stream_round h page_json token st w =
     (if gh_now h w - st_last_page st \<ge> STALL_LIMIT then (Inl (Inr StStalled), w)
      else case get_page h page_json token (st_url st) w of
        (Inl e, w') \<Rightarrow> (Inl (Inl e), w')
      | (Inr (OPage p), w') \<Rightarrow>
          (let items = st_items st @ pg_value p in
           case pg_next_link p of
             Some next_link \<Rightarrow> (Inr \<lparr>st_url = next_link, st_items = items, st_backoff = 1, st_last_page = gh_now h w'\<rparr>, w')
           | None \<Rightarrow> (Inl (Inr (StComplete items (pg_delta_link p))), w'))
      | (Inr (Throttled (Some secs)), w') \<Rightarrow> (Inr st, gh_sleep h (min secs BACKOFF_CAP_SECS) w')
      | (Inr (Throttled None), w') \<Rightarrow>
          (Inr (st\<lparr>st_backoff := min (st_backoff st * 2) BACKOFF_CAP_SECS\<rparr>), gh_sleep h (st_backoff st) w')
      | (Inr Transient, w') \<Rightarrow>
          (Inr (st\<lparr>st_backoff := min (st_backoff st * 2) BACKOFF_CAP_SECS\<rparr>), gh_sleep h (st_backoff st) w')
      | (Inr OResync, w') \<Rightarrow> (Inl (Inr StResync), w')
      | (Inr OCursorCorrupt, w') \<Rightarrow> (Inl (Inr StCursorCorrupt), w'))"

partial_function (option) stream_loop ::
  "'w graph_http \<Rightarrow> (byte list \<Rightarrow> str + 'a page) \<Rightarrow> str \<Rightarrow> 'a stream_state \<Rightarrow> 'w
     \<Rightarrow> ((graph_error + 'a stream_result) \<times> 'w) option" where
  "stream_loop h page_json token st w =
     (case stream_round h page_json token st w of
        (Inl r, w') \<Rightarrow> Some (r, w')
      | (Inr st', w') \<Rightarrow> stream_loop h page_json token st' w')"

definition read_stream ::
  "'w graph_http \<Rightarrow> (byte list \<Rightarrow> str + 'a page) \<Rightarrow> str \<Rightarrow> str \<Rightarrow> 'w \<Rightarrow> ((graph_error + 'a stream_result) \<times> 'w) option" where
  "read_stream h page_json token start w =
     stream_loop h page_json token \<lparr>st_url = start, st_items = [], st_backoff = 1, st_last_page = gh_now h w\<rparr> w"

definition read_users ::
  "'w graph_http \<Rightarrow> (byte list \<Rightarrow> str + raw_user page) \<Rightarrow> str \<Rightarrow> str option \<Rightarrow> 'w \<Rightarrow> ((graph_error + raw_user stream_result) \<times> 'w) option" where
  "read_users h page_json token cursor =
     read_stream h page_json token (unwrap_or (GRAPH @ lit ''/users/delta?$select='' @ USER_SELECT) cursor)"

definition read_groups ::
  "'w graph_http \<Rightarrow> (byte list \<Rightarrow> str + raw_group page) \<Rightarrow> str \<Rightarrow> str option \<Rightarrow> 'w \<Rightarrow> ((graph_error + raw_group stream_result) \<times> 'w) option" where
  "read_groups h page_json token cursor =
     read_stream h page_json token (unwrap_or (GRAPH @ lit ''/groups/delta?$select='' @ GROUP_SELECT) cursor)"

section \<open>The token\<close>

datatype token_error = TokenExpired str | TokenInvalid str | TokenOther str

record token_json =
  tj_access_token :: "byte list \<Rightarrow> str + str"
  tj_error :: "byte list \<Rightarrow> (str \<times> str) option"

definition aadsts_description :: "token_json \<Rightarrow> byte list \<Rightarrow> str" where
  "aadsts_description tj body =
     (case tj_error tj body of
        Some (error, error_description) \<Rightarrow> if error_description \<noteq> [] then error_description else error
      | None \<Rightarrow> from_utf8_lossy body)"

definition token_outcome :: "token_json \<Rightarrow> (str + nat \<times> byte list) \<Rightarrow> token_error + str" where
  "token_outcome tj answer =
     (case answer of
        Inl e \<Rightarrow> Inl (TokenOther e)
      | Inr (status, body) \<Rightarrow>
          if 200 \<le> status \<and> status \<le> 299
          then map_err (\<lambda>e. TokenOther (lit ''parsing token response: '' @ e)) (tj_access_token tj body)
          else let desc = aadsts_description tj body in
            if text_contains desc (lit ''AADSTS7000222'') then Inl (TokenExpired desc)
            else if text_contains desc (lit ''AADSTS7000215'') then Inl (TokenInvalid desc)
            else Inl (TokenOther (lit ''token endpoint returned '' @ show_dec status @ lit '': '' @ desc)))"

end
