(* ===== verification/KB_GraphSound.thy ===== *)
theory KB_GraphSound
  imports KB_Graph
begin

text \<open>
  What the Graph client and the shadow promise: the access token is sent to Graph only, a stream that
  completes is the whole chain of pages, a stream that is only ever refused ends, and every delta
  keeps the shadow's invariant and removes a deleted user from every edge.
\<close>

section \<open>The token stays with Graph\<close>

lemma get_page_elsewhere:
  "\<not> is_graph_url h url \<Longrightarrow> \<exists>e. get_page h page_json token url w = (Inl (GraphFault e), w)"
  by (simp add: get_page_def assert_graph_url_def guard_def)

text \<open>
  The addresses the token may go to: the first request of a page only to Graph's host, default port and
  version path, a redirect hop only to Graph's origin, and only so many of them.
\<close>

definition graph_origin :: "'w graph_http \<Rightarrow> str \<Rightarrow> bool" where
  "graph_origin h raw \<longleftrightarrow>
     (\<exists>u. gh_url_parse h raw = Some u \<and> ur_scheme u = lit ''https'' \<and> ur_host u = Some GRAPH_HOST
        \<and> ur_port u \<in> {None, Some 443})"

definition may_send :: "'w graph_http \<Rightarrow> str list \<Rightarrow> str \<Rightarrow> bool" where
  "may_send h previous raw \<longleftrightarrow>
     (if previous = [] then is_graph_url h raw else graph_origin h raw \<and> length previous \<le> gh_max_redirects h)"

lemma may_send_origin: "may_send h previous raw \<Longrightarrow> graph_origin h raw"
  by (auto simp: may_send_def is_graph_url_def graph_origin_def split: if_splits option.splits)

lemma origin_of_graph:
  "origin_of u = Some (lit ''https'', GRAPH_HOST, 443)
     \<longleftrightarrow> ur_scheme u = lit ''https'' \<and> ur_host u = Some GRAPH_HOST \<and> ur_port u \<in> {None, Some 443}"
  by (auto simp: origin_of_def known_port_def unwrap_or_def split: option.splits)

lemma map_filter_last: "f x = Some y \<Longrightarrow> List.map_filter f (xs @ [x]) = List.map_filter f xs @ [y]"
  by (simp add: List.map_filter_def)

lemma followed_may_send:
  assumes "graph_origin h raw" "redirect_target h reply = Some (next_raw, next_url)"
    "redirect_policy h (previous @ [raw]) next_url = Follow"
  shows "may_send h (previous @ [raw]) next_raw"
proof -
  obtain u where u: "gh_url_parse h raw = Some u" "origin_of u = Some (lit ''https'', GRAPH_HOST, 443)"
    using assms(1) unfolding graph_origin_def origin_of_graph by blast
  have n: "gh_url_parse h next_raw = Some next_url"
    using assms(2) by (auto simp: redirect_target_def bind_eq_Some_conv split: if_splits)
  have "same_origin (List.map_filter (gh_url_parse h) (previous @ [raw])) next_url" "length (previous @ [raw]) \<le> gh_max_redirects h"
    using assms(3) by (auto simp: redirect_policy_def split: if_splits)
  then have "origin_of next_url = Some (lit ''https'', GRAPH_HOST, 443)" "length (previous @ [raw]) \<le> gh_max_redirects h"
    using u by (auto simp: same_origin_def map_filter_last)
  with n show ?thesis unfolding origin_of_graph by (auto simp: may_send_def graph_origin_def)
qed

lemma policy_cong: "redirect_policy (h\<lparr>gh_send := f\<rparr>) = redirect_policy h" "redirect_target (h\<lparr>gh_send := f\<rparr>) = redirect_target h"
  by (intro ext, simp add: redirect_policy_def redirect_target_def)+

lemma send_hops_cong:
  assumes "\<And>previous token raw. may_send h previous raw \<Longrightarrow> send' previous token raw = gh_send h previous token raw"
    and "may_send h previous raw"
  shows "send_hops (h\<lparr>gh_send := send'\<rparr>) token previous raw w = send_hops h token previous raw w"
  using assms
proof (induction h token previous raw w rule: send_hops.induct)
  case (1 h token previous raw w)
  let ?h = "h\<lparr>gh_send := send'\<rparr>"
  have g: "send' previous token raw w = gh_send h previous token raw w" using 1(2,3) by simp
  obtain ans w1 where p: "gh_send h previous token raw w = (ans, w1)" by fastforce
  note unfold = send_hops.simps [of _ token previous raw w] g p policy_cong
  show ?case
  proof (cases "\<exists>reply nr nu. ans = Inr reply \<and> redirect_target h reply = Some (nr, nu)
      \<and> redirect_policy h (previous @ [raw]) nu = Follow")
    case True
    then obtain reply nr nu where r: "ans = Inr reply" "redirect_target h reply = Some (nr, nu)"
      "redirect_policy h (previous @ [raw]) nu = Follow" by blast
    have "send_hops ?h token (previous @ [raw]) nr w1 = send_hops h token (previous @ [raw]) nr w1"
      by (rule 1(1) [OF p [symmetric] r(1,2) refl r(3) 1(2)])
        (use followed_may_send [OF may_send_origin [OF 1(3)] r(2,3)] in simp_all)
    then show ?thesis using r by (simp add: unfold)
  next
    case False
    then show ?thesis by (cases ans) (auto simp: unfold split: option.splits redirect_action.splits)
  qed
qed

lemma get_page_cong:
  assumes "\<And>previous token raw. may_send h previous raw \<Longrightarrow> send' previous token raw = gh_send h previous token raw"
  shows "get_page (h\<lparr>gh_send := send'\<rparr>) page_json token url w = get_page h page_json token url w"
proof (cases "is_graph_url h url")
  case True
  then have "send_hops (h\<lparr>gh_send := send'\<rparr>) token [] url w = send_hops h token [] url w"
    by (intro send_hops_cong assms) (simp_all add: may_send_def)
  then show ?thesis
    by (simp add: get_page_def assert_graph_url_def is_graph_url_def carries_cursor_def guard_def Let_def split: option.splits)
qed (simp add: get_page_def assert_graph_url_def is_graph_url_def guard_def)

lemma stream_round_cong:
  assumes "\<And>previous token raw. may_send h previous raw \<Longrightarrow> send' previous token raw = gh_send h previous token raw"
  shows "stream_round (h\<lparr>gh_send := send'\<rparr>) page_json token st w = stream_round h page_json token st w"
  by (cases "get_page h page_json token (st_url st) w")
    (auto simp: stream_round_def get_page_cong [OF assms] Let_def split: sum.splits page_outcome.splits option.splits)

lemma stream_loop_mono_cong:
  assumes "\<And>st w. stream_round h' page_json token st w = stream_round h page_json token st w"
    and "stream_loop h page_json token st w = Some r"
  shows "stream_loop h' page_json token st w = Some r"
proof -
  have "h = h \<and> page_json = page_json \<and> token = token \<longrightarrow> stream_loop h' page_json token st w = Some r"
  proof (rule stream_loop.raw_induct [where P = "\<lambda>ha pj tk st w r. ha = h \<and> pj = page_json \<and> tk = token
      \<longrightarrow> stream_loop h' pj tk st w = Some r", OF _ assms(2)], intro impI)
    fix loop ha pj tk st w r
    assume IH: "\<And>ha pj tk st w r. loop ha pj tk st w = Some r \<Longrightarrow> ha = h \<and> pj = page_json \<and> tk = token
        \<longrightarrow> stream_loop h' pj tk st w = Some r"
      and b: "(case stream_round ha pj tk st w of (Inl r, w') \<Rightarrow> Some (r, w') | (Inr st', w') \<Rightarrow> loop ha pj tk st' w') = Some r"
      and eq: "ha = h \<and> pj = page_json \<and> tk = token"
    show "stream_loop h' pj tk st w = Some r"
    proof (cases "stream_round h page_json token st w")
      case (Pair o' w1)
      then show ?thesis using b IH [of h page_json token _ w1 r] eq
        by (subst stream_loop.simps) (cases o', simp_all add: assms(1))
    qed
  qed
  then show ?thesis by simp
qed

text \<open>
  C31 (KB_GraphSound.token_stays_with_graph). A stream read does not depend on what any server but Graph
  would answer, redirects included. The first request of every page goes only to Graph's own host, over \<open>https\<close>, on the
  default port and under the version path; a redirect is followed only to the origin of Graph, where it may leave
  that path, and at most as often as the library's default policy allows. With the transport replaced at every other
  address the read is the same, so no link a page carries, no redirect and no stored
  cursor can send the tenant's token anywhere else.
\<close>

theorem token_stays_with_graph:
  assumes "\<forall>previous token raw. may_send h previous raw \<longrightarrow> send' previous token raw = gh_send h previous token raw"
  shows "read_stream (h\<lparr>gh_send := send'\<rparr>) page_json token start w = read_stream h page_json token start w"
proof -
  have r: "stream_round (h\<lparr>gh_send := send'\<rparr>) page_json token st w = stream_round h page_json token st w" for st w
    using assms by (intro stream_round_cong) auto
  have "stream_loop (h\<lparr>gh_send := send'\<rparr>) page_json token st w = stream_loop h page_json token st w" for st
  proof (cases "stream_loop h page_json token st w")
    case None
    then show ?thesis using stream_loop_mono_cong [of h page_json token "h\<lparr>gh_send := send'\<rparr>", OF r [symmetric]]
      by (cases "stream_loop (h\<lparr>gh_send := send'\<rparr>) page_json token st w") auto
  next
    case (Some r')
    then show ?thesis using stream_loop_mono_cong [OF r] by auto
  qed
  then show ?thesis by (simp add: read_stream_def)
qed

section \<open>A completed stream is the whole chain\<close>

inductive served :: "'w graph_http \<Rightarrow> (byte list \<Rightarrow> str + 'a page) \<Rightarrow> str \<Rightarrow> str \<Rightarrow> 'w \<Rightarrow> 'a list \<Rightarrow> str option \<Rightarrow> bool"
  for h page_json token where
  Last: "\<lbrakk>get_page h page_json token url w = (Inr (OPage p), w'); pg_next_link p = None\<rbrakk> \<Longrightarrow>
    served h page_json token url w (pg_value p) (pg_delta_link p)"
| More: "\<lbrakk>get_page h page_json token url w = (Inr (OPage p), w'); pg_next_link p = Some next_link;
    served h page_json token next_link w' items link\<rbrakk> \<Longrightarrow> served h page_json token url w (pg_value p @ items) link"
| Again: "\<lbrakk>get_page h page_json token url w = (Inr refusal, w'); refusal = Transient \<or> (\<exists>after. refusal = Throttled after);
    served h page_json token url (gh_sleep h secs w') items link\<rbrakk> \<Longrightarrow> served h page_json token url w items link"

lemma stream_loop_served:
  assumes "stream_loop h page_json token st w = Some (Inr (StComplete items link), w')"
  shows "\<exists>rest. served h page_json token (st_url st) w rest link \<and> items = st_items st @ rest"
proof -
  let ?P = "\<lambda>st w. \<exists>rest. served h page_json token (st_url st) w rest link \<and> items = st_items st @ rest"
  have "h = h \<and> page_json = page_json \<and> token = token \<and> fst (Inr (StComplete items link) :: graph_error + 'a stream_result, w') = Inr (StComplete items link) \<longrightarrow> ?P st w"
  proof (rule stream_loop.raw_induct [where P = "\<lambda>ha pj tk st w r. ha = h \<and> pj = page_json \<and> tk = token
      \<and> fst r = Inr (StComplete items link) \<longrightarrow> ?P st w", OF _ assms], intro impI)
    fix loop ha pj tk st w r
    assume IH: "\<And>ha pj tk st w r. loop ha pj tk st w = Some r \<Longrightarrow> ha = h \<and> pj = page_json \<and> tk = token
        \<and> fst r = Inr (StComplete items link) \<longrightarrow> ?P st w"
      and b: "(case stream_round ha pj tk st w of (Inl r, w') \<Rightarrow> Some (r, w') | (Inr st', w') \<Rightarrow> loop ha pj tk st' w') = Some r"
      and eq: "ha = h \<and> pj = page_json \<and> tk = token \<and> fst r = Inr (StComplete items link)"
    have next_round: "?P st' w2" if "loop h page_json token st' w2 = Some r" for st' w2 using IH [OF that] eq by blast
    from eq have eqs: "ha = h" "pj = page_json" "tk = token" by auto
    have b': "(case stream_round h page_json token st w of (Inl r, w') \<Rightarrow> Some (r, w') | (Inr st', w') \<Rightarrow> loop h page_json token st' w') = Some r"
      using b unfolding eqs .
    obtain o' w1 where g: "get_page h page_json token (st_url st) w = (o', w1)" by fastforce
    show "?P st w"
    proof (cases "gh_now h w - st_last_page st \<ge> STALL_LIMIT")
      case True
      then show ?thesis using b' eq by (auto simp: stream_round_def)
    next
      case False
      show ?thesis
      proof (cases o')
        case (Inl e)
        then show ?thesis using b' eq g False by (auto simp: stream_round_def)
      next
        case (Inr outcome)
        show ?thesis
        proof (cases outcome)
          case (OPage p)
          show ?thesis
          proof (cases "pg_next_link p")
            case None
            have s: "served h page_json token (st_url st) w (pg_value p) (pg_delta_link p)"
              by (rule Last [OF _ None]) (use g Inr OPage in simp)
            show ?thesis using b' eq g False Inr OPage None s by (auto simp: stream_round_def Let_def)
          next
            case (Some next_link)
            have "?P \<lparr>st_url = next_link, st_items = st_items st @ pg_value p, st_backoff = 1, st_last_page = gh_now h w1\<rparr> w1"
              by (rule next_round) (use b' g False Inr OPage Some in \<open>simp add: stream_round_def Let_def\<close>)
            then obtain rest where "served h page_json token next_link w1 rest link" "items = (st_items st @ pg_value p) @ rest" by auto
            then show ?thesis using More [OF _ Some] g Inr OPage by (metis append_assoc)
          qed
        next
          case (Throttled after)
          obtain st' secs where "stream_round h page_json token st w = (Inr st', gh_sleep h secs w1)" "st_url st' = st_url st" "st_items st' = st_items st"
            using g False Inr Throttled by (cases after) (simp_all add: stream_round_def)
          then show ?thesis using b' next_round [of st' "gh_sleep h secs w1"] Again [of h page_json token "st_url st" w _ w1] g Inr Throttled by auto
        next
          case Transient
          then show ?thesis using b' False g Inr next_round [of _ "gh_sleep h (st_backoff st) w1"] Again [of h page_json token "st_url st" w _ w1]
            by (fastforce simp: stream_round_def)
        qed (use b' eq g False Inr in \<open>auto simp: stream_round_def\<close>)
      qed
    qed
  qed
  then show ?thesis by simp
qed

text \<open>
  Fact (KB_GraphSound.completed_stream_is_whole). A stream read that completes has followed every next
  link from its first address to a page without one, waiting out refusals on the same address: its
  items are those pages' entries in order, and the cursor is the last page's.
\<close>

theorem completed_stream_is_whole:
  assumes "read_stream h page_json token start w = Some (Inr (StComplete items link), w')"
  shows "served h page_json token start w items link"
  using stream_loop_served [OF assms [unfolded read_stream_def]] by simp

section \<open>A stream that is only refused ends\<close>

definition only_refused :: "'w graph_http \<Rightarrow> (byte list \<Rightarrow> str + 'a page) \<Rightarrow> str \<Rightarrow> str \<Rightarrow> bool" where
  "only_refused h page_json token url \<longleftrightarrow>
     (\<forall>w. fst (get_page h page_json token url w) = Inr Transient
        \<or> (\<exists>after. fst (get_page h page_json token url w) = Inr (Throttled after)))"

definition clock_runs :: "'w graph_http \<Rightarrow> bool" where
  "clock_runs h \<longleftrightarrow> (\<forall>previous token url w. gh_now h w < gh_now h (snd (gh_send h previous token url w)))
     \<and> (\<forall>secs w. gh_now h w + secs \<le> gh_now h (gh_sleep h secs w))"

lemma send_hops_clock:
  assumes "clock_runs h"
  shows "gh_now h w < gh_now h (snd (send_hops h token previous raw w))"
  using assms
proof (induction h token previous raw w rule: send_hops.induct)
  case (1 h token previous raw w)
  obtain ans w1 where p: "gh_send h previous token raw w = (ans, w1)" by fastforce
  have c: "gh_now h w < gh_now h w1" using 1(2) p unfolding clock_runs_def by (metis snd_conv)
  have "gh_now h w1 < gh_now h (snd (send_hops h token (previous @ [raw]) nr w1))"
    if "ans = Inr reply" "redirect_target h reply = Some (nr, nu)" "redirect_policy h (previous @ [raw]) nu = Follow" for reply nr nu
    by (rule 1(1) [OF p [symmetric] that(1,2) refl that(3) 1(2)])
  with c show ?case
    by (cases ans) (fastforce simp: send_hops.simps [of _ token previous raw w] p split: option.splits redirect_action.splits)+
qed

lemma get_page_clock:
  assumes "clock_runs h" "get_page h page_json token url w = (Inr outcome, w')"
  shows "gh_now h w < gh_now h w'"
  using assms(2) send_hops_clock [OF assms(1), of w token "[]" url] by (auto simp: get_page_def Let_def split_beta split: sum.splits)

lemma refused_round:
  assumes "only_refused h page_json token (st_url st)" "clock_runs h" "gh_now h w - st_last_page st < STALL_LIMIT"
  shows "\<exists>st' w'. stream_round h page_json token st w = (Inr st', w') \<and> st_url st' = st_url st
    \<and> st_last_page st' = st_last_page st \<and> gh_now h w < gh_now h w'"
proof -
  obtain o' w1 where g: "get_page h page_json token (st_url st) w = (o', w1)" by fastforce
  have o: "o' = Inr Transient \<or> (\<exists>after. o' = Inr (Throttled after))" using assms(1) g unfolding only_refused_def by (metis fst_conv)
  then have c: "gh_now h w < gh_now h w1" using get_page_clock [OF assms(2)] g by auto
  have s: "gh_now h w1 \<le> gh_now h (gh_sleep h secs w1)" for secs using assms(2) unfolding clock_runs_def by (meson add_leD1)
  from o show ?thesis
  proof
    assume "o' = Inr Transient"
    then show ?thesis using g assms(3) c s by (auto simp: stream_round_def intro: less_le_trans)
  next
    assume "\<exists>after. o' = Inr (Throttled after)"
    then obtain after where "o' = Inr (Throttled after)" by blast
    then show ?thesis using g assms(3) c s by (cases after) (auto simp: stream_round_def intro: less_le_trans)
  qed
qed

text \<open>
  Fact (KB_GraphSound.refused_stream_stalls). A stream whose address only ever answers with throttling or
  a server error is abandoned as stalled: the loop ends, whatever waits the answers ask for, once
  nothing has arrived for the stall limit.
\<close>

theorem refused_stream_stalls:
  assumes "only_refused h page_json token start" "clock_runs h"
  shows "\<exists>w'. read_stream h page_json token start w = Some (Inr StStalled, w')"
proof -
  have "\<exists>w'. stream_loop h page_json token st w = Some (Inr StStalled, w')"
    if "st_url st = start" "st_last_page st \<le> gh_now h w" for st w
    using that
  proof (induction "STALL_LIMIT - (gh_now h w - st_last_page st)" arbitrary: st w rule: less_induct)
    case less
    show ?case
    proof (cases "gh_now h w - st_last_page st \<ge> STALL_LIMIT")
      case True
      then show ?thesis by (subst stream_loop.simps) (simp add: stream_round_def)
    next
      case False
      then obtain st' w' where r: "stream_round h page_json token st w = (Inr st', w')" "st_url st' = st_url st"
        "st_last_page st' = st_last_page st" "gh_now h w < gh_now h w'"
        using refused_round [of h page_json token st w] assms less.prems by auto
      have "\<exists>w2. stream_loop h page_json token st' w' = Some (Inr StStalled, w2)"
        using r less.prems False by (intro less.hyps) auto
      then show ?thesis using r(1) by (subst stream_loop.simps) simp
    qed
  qed
  then show ?thesis by (simp add: read_stream_def)
qed

section \<open>The shadow\<close>

definition edges_distinct :: "shadow_group \<Rightarrow> bool" where
  "edges_distinct g \<longleftrightarrow> distinct (map sm_id (sg_members g))"

definition shadow_inv :: "shadow \<Rightarrow> bool" where
  "shadow_inv sh \<longleftrightarrow> bt_sorted (sh_users sh) \<and> bt_sorted (sh_groups sh)
     \<and> list_all edges_distinct (map snd (sh_groups sh))"

lemma map_of_drop: "map_of (filter (\<lambda>(k', _). k' \<noteq> k) xs) = (map_of xs)(k := None)"
  by (induction xs) (auto simp: fun_eq_iff)

lemma map_of_drop_key: "k \<noteq> i \<Longrightarrow> map_of (filter (\<lambda>(k', _). k' \<noteq> i) xs) k = map_of xs k"
  by (induction xs) auto

lemma sorted_drop: "bt_sorted xs \<Longrightarrow> bt_sorted (filter P xs)"
  by (induction xs) auto

lemma map_of_map_groups: "map_of (map (\<lambda>(k, g). (k, f g)) xs) k = map_option f (map_of xs k)"
  by (induction xs) auto

lemma keys_map_groups: "map (fst \<circ> (\<lambda>(k, g). (k, f g))) xs = map fst xs"
  by (induction xs) auto

lemma edges_distinct_merge: "distinct (map sm_id ms) \<Longrightarrow> distinct (map sm_id (merge_edge m ms))"
  by (auto simp: merge_edge_def list_ex_iff distinct_map intro: inj_on_subset)

lemma edges_distinct_fold: "distinct (map sm_id ms) \<Longrightarrow> distinct (map sm_id (foldl (\<lambda>ms m. merge_edge m ms) ms md))"
  by (induction md arbitrary: ms) (simp_all add: edges_distinct_merge)

lemma edges_distinct_patch: "edges_distinct g \<Longrightarrow> edges_distinct (patch_group e g)"
  by (simp add: edges_distinct_def patch_group_def edges_distinct_fold split: option.splits)

lemma edges_distinct_without: "edges_distinct g \<Longrightarrow> edges_distinct (without_member oid g)"
  by (auto simp: edges_distinct_def without_member_def distinct_map intro: inj_on_subset)

lemma apply_user_inv: "shadow_inv sh \<Longrightarrow> shadow_inv (apply_user e sh)"
  by (auto simp: shadow_inv_def apply_user_def sorted_drop bt_insert_sorted list_all_iff edges_distinct_without keys_map_groups)

lemma apply_group_inv:
  assumes "shadow_inv sh"
  shows "shadow_inv (apply_group e sh)"
proof -
  have d: "edges_distinct (case map_of (sh_groups sh) (rg_id e) of None \<Rightarrow> default_group | Some g \<Rightarrow> g)"
    using assms map_of_SomeD [of "sh_groups sh" "rg_id e"]
    by (fastforce simp: shadow_inv_def list_all_iff default_group_def edges_distinct_def split: option.splits)
  show ?thesis using assms edges_distinct_patch [OF d, of e] set_bt_insert
    by (auto simp: shadow_inv_def apply_group_def sorted_drop bt_insert_sorted list_all_iff dest!: subsetD [OF set_bt_insert])
qed

lemma apply_users_inv: "shadow_inv sh \<Longrightarrow> shadow_inv (apply_users es sh)"
  unfolding apply_users_def by (induction es arbitrary: sh) (simp_all add: apply_user_inv)

lemma apply_groups_inv: "shadow_inv sh \<Longrightarrow> shadow_inv (apply_groups es sh)"
  unfolding apply_groups_def by (induction es arbitrary: sh) (simp_all add: apply_group_inv)

lemma empty_shadow_inv: "shadow_inv empty_shadow"
  by (simp add: shadow_inv_def empty_shadow_def)

text \<open>What the entries about one object make of it, on its own.\<close>

definition replay_user :: "shadow_user option \<Rightarrow> raw_user list \<Rightarrow> shadow_user option" where
  "replay_user u es = foldl (\<lambda>u e. if ru_removed e then None else Some (patch_user e (unwrap_or default_user u))) u es"

definition replay_group :: "shadow_group option \<Rightarrow> raw_group list \<Rightarrow> shadow_group option" where
  "replay_group g es = foldl (\<lambda>g e. if rg_removed e then None else Some (patch_group e (unwrap_or default_group g))) g es"

lemma apply_users_user: "map_of (sh_users (apply_users es sh)) oid
    = replay_user (map_of (sh_users sh) oid) (filter (\<lambda>e. ru_id e = oid) es)"
proof (induction es arbitrary: sh)
  case (Cons e es)
  have "map_of (sh_users (apply_user e sh)) oid = (if ru_id e = oid
      then (if ru_removed e then None else Some (patch_user e (unwrap_or default_user (map_of (sh_users sh) oid))))
      else map_of (sh_users sh) oid)"
    by (auto simp: apply_user_def map_of_bt_insert map_of_drop unwrap_or_def)
  then show ?case using Cons [of "apply_user e sh"] by (simp add: apply_users_def replay_user_def)
qed (simp add: apply_users_def replay_user_def)

lemma apply_groups_users: "sh_users (apply_groups es sh) = sh_users sh"
  unfolding apply_groups_def by (induction es arbitrary: sh) (simp_all add: apply_group_def)

lemma apply_groups_group: "map_of (sh_groups (apply_groups es sh)) gid
    = replay_group (map_of (sh_groups sh) gid) (filter (\<lambda>e. rg_id e = gid) es)"
proof (induction es arbitrary: sh)
  case (Cons e es)
  have "map_of (sh_groups (apply_group e sh)) gid = (if rg_id e = gid
      then (if rg_removed e then None else Some (patch_group e (unwrap_or default_group (map_of (sh_groups sh) gid))))
      else map_of (sh_groups sh) gid)"
    by (auto simp: apply_group_def map_of_bt_insert map_of_drop unwrap_or_def)
  then show ?case using Cons [of "apply_group e sh"] by (simp add: apply_groups_def replay_group_def)
qed (simp add: apply_groups_def replay_group_def)

definition scrubbed :: "raw_user list \<Rightarrow> shadow_group \<Rightarrow> shadow_group" where
  "scrubbed es g = g\<lparr>sg_members := filter (\<lambda>m. \<not> (\<exists>e \<in> set es. ru_removed e \<and> ru_id e = sm_id m)) (sg_members g)\<rparr>"

lemma apply_users_groups: "map_of (sh_groups (apply_users es sh)) gid = map_option (scrubbed es) (map_of (sh_groups sh) gid)"
proof (induction es arbitrary: sh)
  case Nil
  then show ?case by (simp add: apply_users_def scrubbed_def map_option.id [unfolded id_def])
next
  case (Cons e es)
  have "map_of (sh_groups (apply_user e sh)) gid
      = (if ru_removed e then map_option (without_member (ru_id e)) (map_of (sh_groups sh) gid) else map_of (sh_groups sh) gid)"
    by (simp add: apply_user_def map_of_map_groups)
  moreover have "scrubbed es (without_member (ru_id e) g) = scrubbed (e # es) g" if "ru_removed e" for g
    using that by (simp add: scrubbed_def without_member_def eq_commute [of "sm_id _" "ru_id e"])
  moreover have "scrubbed es g = scrubbed (e # es) g" if "\<not> ru_removed e" for g
    using that by (simp add: scrubbed_def)
  ultimately show ?case using Cons [of "apply_user e sh"]
    by (simp add: apply_users_def option.map_comp o_def)
qed

text \<open>
  C32 (KB_GraphSound.shadow_replays_each_object). Patching the shadow with a users and a groups slice
  keeps its invariant (ordered, no edge twice), gives every user exactly what its own entries make
  of it, field by field and whatever else the slice holds, and gives every group its own entries over
  what it had without the users the slice deleted.
\<close>

theorem shadow_replays_each_object:
  assumes "shadow_inv sh"
  shows "shadow_inv (apply_groups gs (apply_users us sh))
    \<and> map_of (sh_users (apply_groups gs (apply_users us sh))) oid
        = replay_user (map_of (sh_users sh) oid) (filter (\<lambda>e. ru_id e = oid) us)
    \<and> map_of (sh_groups (apply_groups gs (apply_users us sh))) gid
        = replay_group (map_option (scrubbed us) (map_of (sh_groups sh) gid)) (filter (\<lambda>e. rg_id e = gid) gs)"
  using apply_groups_inv [OF apply_users_inv [OF assms]]
  by (simp add: apply_groups_users apply_users_user apply_groups_group apply_users_groups)

section \<open>Witnesses\<close>

definition sample_url_parse :: "str \<Rightarrow> url option" where
  "sample_url_parse s =
     (if starts_with s (GRAPH @ [c_slash])
      then Some \<lparr>ur_scheme = lit ''https'', ur_host = Some GRAPH_HOST, ur_port = None,
             ur_path = GRAPH_PATH @ [c_slash], ur_query_names = []\<rparr>
      else if starts_with s (lit ''https://'')
      then Some \<lparr>ur_scheme = lit ''https'', ur_host = Some (drop 8 s), ur_port = None, ur_path = [c_slash], ur_query_names = []\<rparr>
      else None)"

text \<open>A server that answers \<open>status\<close> to everything and takes a second per request.\<close>

definition sample_http :: "nat \<Rightarrow> nat graph_http" where
  "sample_http status =
     \<lparr>gh_url_parse = sample_url_parse, gh_redact = (\<lambda>s. s),
      gh_send = (\<lambda>previous token url w. (Inr \<lparr>hp_status = status, hp_retry_after = Some (lit '' 7 ''), hp_location = None,
         hp_redirect = None, hp_body = []\<rparr>, w + 1)),
      gh_max_redirects = 10,
      gh_now = (\<lambda>w. w), gh_sleep = (\<lambda>secs w. w + secs)\<rparr>"

definition sample_page :: "byte list \<Rightarrow> str + nat page" where
  "sample_page body = Inr \<lparr>pg_next_link = None, pg_delta_link = Some (lit ''d''), pg_value = [4]\<rparr>"

definition first_url :: str where "first_url = GRAPH @ [c_slash]"

lemma first_url_graph: "is_graph_url (sample_http n) first_url"
  by (simp add: is_graph_url_def sample_http_def sample_url_parse_def first_url_def starts_with_def)

lemma sample_send: "send_hops (sample_http status) token previous raw w
    = (Inr \<lparr>hp_status = status, hp_retry_after = Some (lit '' 7 ''), hp_location = None, hp_redirect = None, hp_body = []\<rparr>, w + 1)"
  by (simp add: send_hops.simps redirect_target_def sample_http_def)

lemma sample_get_page:
  "get_page (sample_http 200) sample_page token first_url w
     = (Inr (OPage \<lparr>pg_next_link = None, pg_delta_link = Some (lit ''d''), pg_value = [4]\<rparr>), w + 1)"
  unfolding get_page_def assert_graph_url_def guard_def if_P [OF first_url_graph] sum.case
  by (simp add: sample_send classify_def rbind_def map_err_def sample_page_def Let_def)

lemma sample_read_stream: "read_stream (sample_http 200) sample_page token first_url w = Some (Inr (StComplete [4] (Some (lit ''d''))), w + 1)"
  by (simp add: read_stream_def stream_loop.simps stream_round_def sample_get_page STALL_LIMIT_def BACKOFF_CAP_SECS_def Let_def)

lemma refused_sample: "get_page (sample_http 429) sample_page token first_url w = (Inr (Throttled (Some 7)), w + 1)"
  unfolding get_page_def assert_graph_url_def guard_def if_P [OF first_url_graph] sum.case
  by (simp add: sample_send classify_def rbind_def map_err_def Let_def parse_unsigned_def parse_digits_def digits_val_def
      u64_max_def trim_def trim_start_by_def trim_end_by_def is_whitespace_def is_ascii_digit_def kb_lits)

text \<open>A server that redirects the first address to \<open>target\<close>, and answers a page everywhere else.\<close>

definition moved_http :: "str \<Rightarrow> nat graph_http" where
  "moved_http target = (sample_http 200)\<lparr>gh_send := (\<lambda>previous token url w.
     (Inr \<lparr>hp_status = (if url = first_url then 307 else 200), hp_retry_after = None, hp_location = Some target,
        hp_redirect = Some target, hp_body = []\<rparr>, w + 1))\<rparr>"

definition hostile_send :: "str \<Rightarrow> str list \<Rightarrow> str \<Rightarrow> str \<Rightarrow> nat \<Rightarrow> (str + http_reply) \<times> nat" where
  "hostile_send target previous token url w =
     (if may_send (moved_http target) previous url then gh_send (moved_http target) previous token url w else (Inl (lit ''stolen''), 99))"

definition graph_root :: str where "graph_root = lit ''https://graph.microsoft.com''"
definition elsewhere :: str where "elsewhere = lit ''https://graph.microsoft.com.example.test''"

lemma moved_simps:
  "gh_url_parse (moved_http t) = sample_url_parse" "gh_redact (moved_http t) = (\<lambda>s. s)" "gh_max_redirects (moved_http t) = 10"
  "gh_now (moved_http t) = (\<lambda>w. w)" "gh_sleep (moved_http t) = (\<lambda>secs w. w + secs)"
  "gh_send (moved_http t) previous token url w = (Inr \<lparr>hp_status = (if url = first_url then 307 else 200), hp_retry_after = None,
     hp_location = Some t, hp_redirect = Some t, hp_body = []\<rparr>, w + 1)"
  by (simp_all add: moved_http_def sample_http_def)

lemma sample_parses:
  "sample_url_parse first_url = Some \<lparr>ur_scheme = lit ''https'', ur_host = Some GRAPH_HOST, ur_port = None,
     ur_path = GRAPH_PATH @ [c_slash], ur_query_names = []\<rparr>"
  "sample_url_parse graph_root = Some \<lparr>ur_scheme = lit ''https'', ur_host = Some GRAPH_HOST, ur_port = None,
     ur_path = [c_slash], ur_query_names = []\<rparr>"
  "sample_url_parse elsewhere = Some \<lparr>ur_scheme = lit ''https'', ur_host = Some (lit ''graph.microsoft.com.example.test''), ur_port = None,
     ur_path = [c_slash], ur_query_names = []\<rparr>"
  by (simp_all add: sample_url_parse_def first_url_def graph_root_def elsewhere_def GRAPH_def GRAPH_HOST_def kb_lits starts_with_def)

lemma moved_get_page:
  "get_page (moved_http graph_root) sample_page token first_url w
     = (Inr (OPage \<lparr>pg_next_link = None, pg_delta_link = Some (lit ''d''), pg_value = [4]\<rparr>), w + 2)"
  "\<exists>e. get_page (moved_http elsewhere) sample_page token first_url w = (Inl e, w + 1)"
proof -
  have g: "is_graph_url (moved_http t) first_url" for t by (simp add: is_graph_url_def moved_simps sample_parses starts_with_def)
  have t: "graph_root \<noteq> first_url" "elsewhere \<noteq> first_url"
    by (simp_all add: graph_root_def elsewhere_def first_url_def GRAPH_def kb_lits)
  have o: "lit ''graph.microsoft.com.example.test'' \<noteq> GRAPH_HOST" by (simp add: GRAPH_HOST_def kb_lits)
  have r: "redirect_policy (moved_http graph_root) [first_url] \<lparr>ur_scheme = lit ''https'', ur_host = Some GRAPH_HOST, ur_port = None,
      ur_path = [c_slash], ur_query_names = []\<rparr> = Follow"
    "\<exists>e. redirect_policy (moved_http elsewhere) [first_url] \<lparr>ur_scheme = lit ''https'', ur_host = Some (lit ''graph.microsoft.com.example.test''),
      ur_port = None, ur_path = [c_slash], ur_query_names = []\<rparr> = Refuse e"
    using o by (simp_all add: redirect_policy_def same_origin_def moved_simps sample_parses List.map_filter_simps origin_of_def known_port_def
        unwrap_or_def)
  have h: "send_hops (moved_http graph_root) token [] first_url w
      = (Inr \<lparr>hp_status = 200, hp_retry_after = None, hp_location = Some graph_root, hp_redirect = Some graph_root, hp_body = []\<rparr>, w + 2)"
    "\<exists>e. send_hops (moved_http elsewhere) token [] first_url w = (Inl e, w + 1)"
    using r t by (auto simp: send_hops.simps [of _ token] redirect_target_def moved_simps sample_parses REDIRECTS_def)
  show "get_page (moved_http graph_root) sample_page token first_url w
     = (Inr (OPage \<lparr>pg_next_link = None, pg_delta_link = Some (lit ''d''), pg_value = [4]\<rparr>), w + 2)"
    unfolding get_page_def assert_graph_url_def guard_def if_P [OF g] sum.case
    by (simp add: h(1) classify_def rbind_def map_err_def sample_page_def Let_def)
  show "\<exists>e. get_page (moved_http elsewhere) sample_page token first_url w = (Inl e, w + 1)"
    unfolding get_page_def assert_graph_url_def guard_def if_P [OF g] sum.case
    using h(2) by (auto simp: rbind_def map_err_def Let_def)
qed

text \<open>A redirect inside Graph is followed off the version path; one to another host ends the read, and nothing is sent there.\<close>

theorem token_stays_with_graph_witness:
  "read_stream ((moved_http graph_root)\<lparr>gh_send := hostile_send graph_root\<rparr>) sample_page (lit ''t'') first_url 0
     = Some (Inr (StComplete [4] (Some (lit ''d''))), 2)
   \<and> (\<exists>e. read_stream ((moved_http elsewhere)\<lparr>gh_send := hostile_send elsewhere\<rparr>) sample_page (lit ''t'') first_url 0 = Some (Inl e, 1))
   \<and> \<not> graph_origin (moved_http elsewhere) elsewhere"
proof (intro conjI)
  show "read_stream ((moved_http graph_root)\<lparr>gh_send := hostile_send graph_root\<rparr>) sample_page (lit ''t'') first_url 0
     = Some (Inr (StComplete [4] (Some (lit ''d''))), 2)"
  proof (subst token_stays_with_graph)
    show "\<forall>previous token raw. may_send (moved_http graph_root) previous raw \<longrightarrow>
        hostile_send graph_root previous token raw = gh_send (moved_http graph_root) previous token raw"
      by (auto simp: hostile_send_def fun_eq_iff)
    show "read_stream (moved_http graph_root) sample_page (lit ''t'') first_url 0 = Some (Inr (StComplete [4] (Some (lit ''d''))), 2)"
      by (simp add: read_stream_def stream_loop.simps stream_round_def moved_simps moved_get_page STALL_LIMIT_def BACKOFF_CAP_SECS_def Let_def)
  qed
  show "\<exists>e. read_stream ((moved_http elsewhere)\<lparr>gh_send := hostile_send elsewhere\<rparr>) sample_page (lit ''t'') first_url 0 = Some (Inl e, 1)"
  proof (subst token_stays_with_graph)
    show "\<forall>previous token raw. may_send (moved_http elsewhere) previous raw \<longrightarrow>
        hostile_send elsewhere previous token raw = gh_send (moved_http elsewhere) previous token raw"
      by (auto simp: hostile_send_def fun_eq_iff)
    obtain e where "get_page (moved_http elsewhere) sample_page (lit ''t'') first_url 0 = (Inl e, 1)"
      using moved_get_page(2) [of "lit ''t''" 0] by auto
    then show "\<exists>e. read_stream (moved_http elsewhere) sample_page (lit ''t'') first_url 0 = Some (Inl e, 1)"
      by (simp add: read_stream_def stream_loop.simps stream_round_def moved_simps STALL_LIMIT_def BACKOFF_CAP_SECS_def Let_def)
  qed
  show "\<not> graph_origin (moved_http elsewhere) elsewhere"
    by (simp add: graph_origin_def moved_simps sample_parses GRAPH_HOST_def kb_lits)
qed

theorem completed_stream_is_whole_witness:
  "served (sample_http 200) sample_page (lit ''t'') first_url 0 [4] (Some (lit ''d''))"
  by (rule completed_stream_is_whole [OF sample_read_stream])

theorem refused_stream_stalls_witness:
  "\<exists>w'. read_stream (sample_http 429) sample_page (lit ''t'') first_url 0 = Some (Inr StStalled, w')"
proof (rule refused_stream_stalls)
  show "only_refused (sample_http 429) sample_page (lit ''t'') first_url"
    by (simp add: only_refused_def refused_sample)
  show "clock_runs (sample_http 429)" by (simp add: clock_runs_def sample_http_def)
qed

definition sample_slice_user :: "bool \<Rightarrow> str option \<Rightarrow> raw_user" where
  "sample_slice_user gone name = \<lparr>ru_id = lit ''u'', ru_display_name = name, ru_upn = None, ru_mail = None, ru_other_mails = None,
     ru_account_enabled = None, ru_user_type = None, ru_removed = gone\<rparr>"

definition sample_shadow :: shadow where
  "sample_shadow = \<lparr>sh_users = [(lit ''u'', default_user\<lparr>su_upn := Some (lit ''u@x'')\<rparr>)],
     sh_groups = [(lit ''g'', \<lparr>sg_display_name = None, sg_members = [\<lparr>sm_kind = KindUser, sm_id = lit ''u''\<rparr>]\<rparr>)]\<rparr>"

theorem shadow_replays_each_object_witness:
  "map_of (sh_users (apply_groups [] (apply_users [sample_slice_user False (Some (lit ''Ann''))] sample_shadow))) (lit ''u'')
     = Some (default_user\<lparr>su_upn := Some (lit ''u@x''), su_display_name := Some (lit ''Ann'')\<rparr>)
   \<and> map_of (sh_groups (apply_groups [] (apply_users [sample_slice_user True None] sample_shadow))) (lit ''g'')
     = Some \<lparr>sg_display_name = None, sg_members = []\<rparr>"
proof -
  have i: "shadow_inv sample_shadow" by (simp add: shadow_inv_def sample_shadow_def edges_distinct_def)
  show ?thesis
    using shadow_replays_each_object [OF i, of "[]" "[sample_slice_user False (Some (lit ''Ann''))]" "lit ''u''" "lit ''g''"]
      shadow_replays_each_object [OF i, of "[]" "[sample_slice_user True None]" "lit ''u''" "lit ''g''"]
    by (simp add: replay_user_def replay_group_def sample_slice_user_def sample_shadow_def patch_user_def patched_def default_user_def
        scrubbed_def unwrap_or_def)
qed

end
