(* ===== verification/KB_EntraSync.thy ===== *)
theory KB_EntraSync
  imports KB_Graph KB_SyncMain
begin

text \<open>
  The Entra source (\<open>crates/kerbridge-idp/src/entra/sync.rs\<close>): the credential, the two delta cursors
  and the shadow they patch, one read of both streams with its single resync, and the credential
  alarm shared by the adapters (\<open>sync/mod.rs\<close>). The Graph reader is a record of functions over a
  world, as the code's trait is; a read that never returns is \<open>None\<close>.
\<close>

section \<open>The credential alarm\<close>

abbreviation CREDENTIAL_REFUSED :: str where "CREDENTIAL_REFUSED \<equiv> lit ''sync-credential-expired''"

record ('f, 'b) alarms =
  al_disk :: "('f, 'b) fsys"
  al_js :: "str \<Rightarrow> str"
  al_wall :: nat

definition alarm_resolved :: "('f, 'b) alarms \<Rightarrow> str \<Rightarrow> 'f notifier \<Rightarrow> str list \<times> 'f notifier" where
  "alarm_resolved al subject n = resolve_subject (al_disk al) (al_js al) (al_wall al) CREDENTIAL_REFUSED subject n"

definition alarm_rejected :: "('f, 'b) alarms \<Rightarrow> str \<Rightarrow> str \<Rightarrow> 'f notifier \<Rightarrow> source_error \<times> str list \<times> 'f notifier" where
  "alarm_rejected al subject why n =
     (CredentialRejected why,
      send_event (al_disk al) (al_js al) (al_wall al) (with_subject subject (event_new CREDENTIAL_REFUSED Error why)) n)"

definition idle_reason :: "str \<Rightarrow> str \<Rightarrow> str" where
  "idle_reason file name = lit ''no sync credential in '' @ file @ lit '': source '' @ name @ lit '' is idle until one appears''"

section \<open>The source\<close>

record 'w graph_reader =
  gr_token :: "'w \<Rightarrow> (token_error + str) \<times> 'w"
  gr_users :: "str \<Rightarrow> str option \<Rightarrow> 'w \<Rightarrow> ((graph_error + raw_user stream_result) \<times> 'w) option"
  gr_groups :: "str \<Rightarrow> str option \<Rightarrow> 'w \<Rightarrow> ((graph_error + raw_group stream_result) \<times> 'w) option"

record entra_source =
  xs_name :: str
  xs_tenant_id :: str
  xs_client_id :: str
  xs_credential_file :: str
  xs_credential_expires :: "str option"
  xs_admission_group_id :: str
  xs_grant_group_id :: "str option"
  xs_allowlist :: "str list"
  xs_sam_source :: sam_source
  xs_shadow :: shadow
  xs_users_cursor :: "str option"
  xs_groups_cursor :: "str option"

record ('f, 'w) entra_cycle =
  cy_source :: entra_source
  cy_notifier :: "'f notifier"
  cy_posts :: "str list"
  cy_world :: 'w

definition entra_source_new :: "entra_settings \<Rightarrow> str \<Rightarrow> entra_source" where
  "entra_source_new settings name =
     \<lparr>xs_name = name, xs_tenant_id = es_tenant_id settings, xs_client_id = es_sync_client_id settings,
      xs_credential_file = es_sync_credential_file settings, xs_credential_expires = es_sync_credential_expires settings,
      xs_admission_group_id = es_admission_group_id settings, xs_grant_group_id = es_device_grant_group_id settings,
      xs_allowlist = es_extra_group_ids settings, xs_sam_source = es_sam_source settings,
      xs_shadow = empty_shadow, xs_users_cursor = None, xs_groups_cursor = None\<rparr>"

definition entra_credential :: "str \<Rightarrow> str + str option \<Rightarrow> str + str option" where
  "entra_credential file read =
     rbind read (\<lambda>v.
       case v of None \<Rightarrow> Inr None
       | Some secret \<Rightarrow>
           if is_guid (map to_ascii_lowercase secret)
           then Inl (lit ''secret file '' @ file @ lit '' contains a GUID: that is the credential'' @ [39]
                  @ lit ''s Secret ID, not its Value'')
           else Inr (Some secret))"

definition credential_subject :: "entra_source \<Rightarrow> str" where
  "credential_subject xs = xs_name xs @ [c_slash] @ xs_client_id xs"

definition days_remaining :: "str option \<Rightarrow> nat \<Rightarrow> int option" where
  "days_remaining expires now =
     Option.bind expires (\<lambda>date. map_option (\<lambda>expiry. expiry - int (now div 86400)) (days_from_ymd date))"

definition credential_state_of :: "entra_source \<Rightarrow> nat \<Rightarrow> credential_state" where
  "credential_state_of xs now =
     (case days_remaining (xs_credential_expires xs) now of Some days \<Rightarrow> Asserted days | None \<Rightarrow> UnknownExpiry)"

fun transport :: "graph_error \<Rightarrow> source_error" where
  "transport (AuthRefused status detail) = Credential (auth_refused_text status detail)"
| "transport (GraphFault why) = Unreachable (lit ''cycle error: '' @ why)"

definition entra_snapshot :: "unicode \<Rightarrow> entra_source \<Rightarrow> source_snapshot option" where
  "entra_snapshot uc xs =
     narrow (Roots_new (xs_admission_group_id xs) (xs_grant_group_id xs) (xs_allowlist xs))
       (enumerate_shadow uc (xs_sam_source xs) (xs_shadow xs))"

section \<open>One read of both streams\<close>

definition cursor_corrupt_event :: "str \<Rightarrow> notify_event" where
  "cursor_corrupt_event name =
     incident (with_subject name (event_new (lit ''sync-cursor-corrupt'') Warning
       (lit ''a stored delta cursor for source '' @ name @ lit '' was rejected (400); resyncing from a fresh read'')))"

definition read_both ::
  "'w graph_reader \<Rightarrow> str \<Rightarrow> str option \<Rightarrow> str option \<Rightarrow> 'w
     \<Rightarrow> ((graph_error + raw_user stream_result \<times> raw_group stream_result) \<times> 'w) option" where
  "read_both gr token ucur gcur w =
     Option.bind (gr_users gr token ucur w) (\<lambda>(users, w1).
       case users of Inl e \<Rightarrow> Some (Inl e, w1)
       | Inr us \<Rightarrow> map_option (\<lambda>(groups, w2). (rbind groups (\<lambda>gs. Inr (us, gs)), w2))
           (gr_groups gr token gcur w1))"

datatype progress_step = Concluded_read progress | Panicked | Retry

definition STALLED_TEXT :: str where
  "STALLED_TEXT = lit ''cycle discarded (stalled read): no page arrived from the cloud IdP for long enough to call the read abandoned''"

definition STILL_REFUSED_TEXT :: str where
  "STILL_REFUSED_TEXT = lit ''cycle discarded: a delta cursor was still refused after a full resync''"

definition reset_shadow :: "('f, 'w) entra_cycle \<Rightarrow> ('f, 'w) entra_cycle" where
  "reset_shadow cy = cy\<lparr>cy_source := (cy_source cy)\<lparr>xs_shadow := empty_shadow\<rparr>\<rparr>"

definition patched_source ::
  "raw_user list \<Rightarrow> str option \<Rightarrow> raw_group list \<Rightarrow> str option \<Rightarrow> entra_source \<Rightarrow> entra_source" where
  "patched_source uv ucur gv gcur xs =
     xs\<lparr>xs_shadow := apply_groups gv (apply_users uv (xs_shadow xs)), xs_users_cursor := ucur, xs_groups_cursor := gcur\<rparr>"

definition conclude ::
  "('f, 'b) alarms \<Rightarrow> unicode \<Rightarrow> bool \<Rightarrow> raw_user stream_result \<times> raw_group stream_result \<Rightarrow> ('f, 'w) entra_cycle
     \<Rightarrow> (source_error + progress_step) \<times> ('f, 'w) entra_cycle" where
  "conclude al uc retried streams cy =
     (case streams of
        (StComplete uv ucur, StComplete gv gcur) \<Rightarrow>
          let xs = patched_source uv ucur gv gcur (cy_source cy)
          in (case entra_snapshot uc xs of
                None \<Rightarrow> (Inr Panicked, cy\<lparr>cy_source := xs\<rparr>)
              | Some snap \<Rightarrow> (Inr (Concluded_read (Complete snap)), cy\<lparr>cy_source := xs\<rparr>))
      | (users, groups) \<Rightarrow>
          if (users = StCursorCorrupt \<or> groups = StCursorCorrupt) \<and> \<not> retried
          then let (posts, n) = send_event (al_disk al) (al_js al) (al_wall al)
                     (cursor_corrupt_event (xs_name (cy_source cy))) (cy_notifier cy)
               in (Inr Retry, reset_shadow (cy\<lparr>cy_notifier := n, cy_posts := cy_posts cy @ posts\<rparr>))
          else if (users = StResync \<or> groups = StResync) \<and> \<not> retried then (Inr Retry, reset_shadow cy)
          else (Inl (NotWhole (if users = StStalled \<or> groups = StStalled then STALLED_TEXT else STILL_REFUSED_TEXT)), cy))"

definition attempt ::
  "('f, 'b) alarms \<Rightarrow> unicode \<Rightarrow> 'w graph_reader \<Rightarrow> str \<Rightarrow> str option \<Rightarrow> str option \<Rightarrow> bool \<Rightarrow> ('f, 'w) entra_cycle
     \<Rightarrow> ((source_error + progress_step) \<times> ('f, 'w) entra_cycle) option" where
  "attempt al uc gr token ucur gcur retried cy =
     map_option (\<lambda>(r, w). case r of
          Inl e \<Rightarrow> (Inl (transport e), cy\<lparr>cy_world := w\<rparr>)
        | Inr streams \<Rightarrow> conclude al uc retried streams (cy\<lparr>cy_world := w\<rparr>))
       (read_both gr token ucur gcur (cy_world cy))"

definition read_streams ::
  "('f, 'b) alarms \<Rightarrow> unicode \<Rightarrow> 'w graph_reader \<Rightarrow> str \<Rightarrow> ('f, 'w) entra_cycle
     \<Rightarrow> ((source_error + progress_step) \<times> ('f, 'w) entra_cycle) option" where
  "read_streams al uc gr token cy =
     Option.bind (attempt al uc gr token (xs_users_cursor (cy_source cy)) (xs_groups_cursor (cy_source cy)) False cy) (\<lambda>(r, cy1).
       case r of Inr Retry \<Rightarrow> attempt al uc gr token None None True cy1 | _ \<Rightarrow> Some (r, cy1))"

fun token_error_text :: "token_error \<Rightarrow> str" where
  "token_error_text (TokenExpired d) = lit ''sync credential expired: '' @ d"
| "token_error_text (TokenInvalid d) = lit ''sync credential rejected: '' @ d"
| "token_error_text (TokenOther e) = e"

definition entra_read ::
  "('f, 'b) alarms \<Rightarrow> unicode \<Rightarrow> 'w graph_reader \<Rightarrow> ('f, 'w) entra_cycle \<Rightarrow> ((source_error + progress_step) \<times> ('f, 'w) entra_cycle) option" where
  "entra_read al uc gr cy =
     (let (r, w) = gr_token gr (cy_world cy); cy1 = cy\<lparr>cy_world := w\<rparr>; subject = credential_subject (cy_source cy) in
      case r of
        Inr token \<Rightarrow>
          let (posts, n) = alarm_resolved al subject (cy_notifier cy1)
          in read_streams al uc gr token (cy1\<lparr>cy_notifier := n, cy_posts := cy_posts cy1 @ posts\<rparr>)
      | Inl (TokenOther e) \<Rightarrow> Some (Inl (transport (GraphFault (lit ''acquiring Graph token: '' @ e))), cy1)
      | Inl refused \<Rightarrow>
          let (err, posts, n) = alarm_rejected al subject (token_error_text refused) (cy_notifier cy1)
          in Some (Inl err, cy1\<lparr>cy_notifier := n, cy_posts := cy_posts cy1 @ posts\<rparr>))"

definition entra_advance ::
  "('f, 'b) alarms \<Rightarrow> unicode \<Rightarrow> (str \<Rightarrow> str + 'w graph_reader) \<Rightarrow> str + str option \<Rightarrow> ('f, 'w) entra_cycle
     \<Rightarrow> ((source_error + progress_step) \<times> ('f, 'w) entra_cycle) option" where
  "entra_advance al uc client secret_file cy =
     (let xs = cy_source cy in
      case credential_or_idle (entra_credential (xs_credential_file xs) secret_file) of
        Inl e \<Rightarrow> Some (Inl e, cy)
      | Inr MissingCredential \<Rightarrow> Some (Inr (Concluded_read (Idle (idle_reason (xs_credential_file xs) (xs_name xs)))), cy)
      | Inr (Ready secret) \<Rightarrow>
          (case client secret of
             Inl e \<Rightarrow> Some (Inl (Unreachable (lit ''Graph client: '' @ e)), cy)
           | Inr gr \<Rightarrow> entra_read al uc gr cy))"

end
