(* ===== verification/KB_EntraSyncSound.thy ===== *)
theory KB_EntraSyncSound
  imports KB_EntraSync KB_GraphSound
begin

text \<open>
  What one Entra read yields: a snapshot only of two completed streams, both patched onto what their
  cursors assume or both read from the start; an error changes no cursor. The last section runs two
  reads in which a resync fails halfway and the next cycle patches an empty shadow.
\<close>

section \<open>One read\<close>

lemma narrow_Some: "\<exists>snap. narrow r read = Some snap"
  by (simp add: narrow_def build_desired_eq [OF refl])

fun ready :: "'a stream_result \<Rightarrow> bool" where
  "ready (StComplete items link) = True"
| "ready _ = False"

lemma conclude_torn:
  assumes "\<not> (ready us \<and> ready gs)"
  shows "conclude al uc retried (us, gs) cy =
    (if (us = StCursorCorrupt \<or> gs = StCursorCorrupt) \<and> \<not> retried
     then let (posts, n) = send_event (al_disk al) (al_js al) (al_wall al) (cursor_corrupt_event (xs_name (cy_source cy))) (cy_notifier cy)
          in (Inr Retry, reset_shadow (cy\<lparr>cy_notifier := n, cy_posts := cy_posts cy @ posts\<rparr>))
     else if (us = StResync \<or> gs = StResync) \<and> \<not> retried then (Inr Retry, reset_shadow cy)
     else (Inl (NotWhole (if us = StStalled \<or> gs = StStalled then STALLED_TEXT else STILL_REFUSED_TEXT)), cy))"
  using assms unfolding conclude_def prod.case by (cases us; cases gs) (simp_all only: stream_result.case ready.simps simp_thms)

lemma conclude_cases:
  obtains uv ucur gv gcur snap where "streams = (StComplete uv ucur, StComplete gv gcur)"
      "entra_snapshot uc (patched_source uv ucur gv gcur (cy_source cy)) = Some snap"
      "conclude al uc retried streams cy
         = (Inr (Concluded_read (Complete snap)), cy\<lparr>cy_source := patched_source uv ucur gv gcur (cy_source cy)\<rparr>)"
  | "\<not> retried" "fst (conclude al uc retried streams cy) = Inr Retry"
      "cy_source (snd (conclude al uc retried streams cy)) = (cy_source cy)\<lparr>xs_shadow := empty_shadow\<rparr>"
  | why where "conclude al uc retried streams cy = (Inl (NotWhole why), cy)"
proof -
  obtain us gs where s: "streams = (us, gs)" by (cases streams)
  show ?thesis
  proof (cases "ready us \<and> ready gs")
    case True
    then obtain uv ucur gv gcur where r: "streams = (StComplete uv ucur, StComplete gv gcur)"
      using s by (cases us; cases gs) simp_all
    obtain snap where n: "entra_snapshot uc (patched_source uv ucur gv gcur (cy_source cy)) = Some snap"
      using narrow_Some unfolding entra_snapshot_def by blast
    show ?thesis by (rule that(1) [OF r n]) (simp add: conclude_def r n Let_def)
  next
    case False
    note c = conclude_torn [OF False, of al uc retried cy, folded s]
    show ?thesis
    proof (cases "\<not> retried \<and> (us = StCursorCorrupt \<or> gs = StCursorCorrupt \<or> us = StResync \<or> gs = StResync)")
      case True
      show ?thesis by (rule that(2)) (use True c in \<open>auto simp: Let_def split_beta reset_shadow_def\<close>)
    next
      case no: False
      have "\<exists>why. conclude al uc retried streams cy = (Inl (NotWhole why), cy)" using no c by auto
      then show ?thesis using that(3) by blast
    qed
  qed
qed

definition read_pair ::
  "'w graph_reader \<Rightarrow> str option \<Rightarrow> str option \<Rightarrow> raw_user list \<Rightarrow> str option \<Rightarrow> raw_group list \<Rightarrow> str option \<Rightarrow> bool" where
  "read_pair gr ucursor gcursor uv ucur gv gcur \<longleftrightarrow>
     (\<exists>token w1 w2 w3. gr_users gr token ucursor w1 = Some (Inr (StComplete uv ucur), w2)
        \<and> gr_groups gr token gcursor w2 = Some (Inr (StComplete gv gcur), w3))"

lemma read_both_Inr:
  "read_both gr token ucursor gcursor w = Some (Inr (us, gs), w') \<longleftrightarrow>
     (\<exists>w1. gr_users gr token ucursor w = Some (Inr us, w1) \<and> gr_groups gr token gcursor w1 = Some (Inr gs, w'))"
proof (cases "gr_users gr token ucursor w")
  case (Some a)
  then show ?thesis by (cases a; cases "fst a") (auto simp: read_both_def kb_results)
qed (simp add: read_both_def)

lemma attempt_cases:
  assumes "attempt al uc gr token ucursor gcursor retried cy = Some (r, cy')"
  obtains uv ucur gv gcur snap where "r = Inr (Concluded_read (Complete snap))" "read_pair gr ucursor gcursor uv ucur gv gcur"
      "cy_source cy' = patched_source uv ucur gv gcur (cy_source cy)" "entra_snapshot uc (cy_source cy') = Some snap"
  | "r = Inr Retry" "\<not> retried" "cy_source cy' = (cy_source cy)\<lparr>xs_shadow := empty_shadow\<rparr>"
  | e where "r = Inl e" "cy_source cy' = cy_source cy"
proof -
  obtain res w where b: "read_both gr token ucursor gcursor (cy_world cy) = Some (res, w)"
    and a: "(case res of Inl e \<Rightarrow> (Inl (transport e), cy\<lparr>cy_world := w\<rparr>)
        | Inr streams \<Rightarrow> conclude al uc retried streams (cy\<lparr>cy_world := w\<rparr>)) = (r, cy')"
    using assms by (auto simp: attempt_def)
  show ?thesis
  proof (cases res)
    case (Inl e)
    then show ?thesis using a that(3) by auto
  next
    case (Inr streams)
    then have c: "conclude al uc retried streams (cy\<lparr>cy_world := w\<rparr>) = (r, cy')" using a by simp
    show ?thesis
    proof (rule conclude_cases [of streams uc "cy\<lparr>cy_world := w\<rparr>" al retried])
      fix uv ucur gv gcur snap
      assume s: "streams = (StComplete uv ucur, StComplete gv gcur)"
        "entra_snapshot uc (patched_source uv ucur gv gcur (cy_source (cy\<lparr>cy_world := w\<rparr>))) = Some snap"
        "conclude al uc retried streams (cy\<lparr>cy_world := w\<rparr>) = (Inr (Concluded_read (Complete snap)),
          cy\<lparr>cy_world := w, cy_source := patched_source uv ucur gv gcur (cy_source (cy\<lparr>cy_world := w\<rparr>))\<rparr>)"
      have "read_pair gr ucursor gcursor uv ucur gv gcur"
        using b unfolding read_pair_def Inr s(1) read_both_Inr by blast
      then show ?thesis using that(1) [of snap uv ucur gv gcur] s(2,3) c by auto
    next
      assume "\<not> retried" "fst (conclude al uc retried streams (cy\<lparr>cy_world := w\<rparr>)) = Inr Retry"
        "cy_source (snd (conclude al uc retried streams (cy\<lparr>cy_world := w\<rparr>))) = (cy_source (cy\<lparr>cy_world := w\<rparr>))\<lparr>xs_shadow := empty_shadow\<rparr>"
      then show ?thesis using that(2) c by auto
    next
      fix why assume "conclude al uc retried streams (cy\<lparr>cy_world := w\<rparr>) = (Inl (NotWhole why), cy\<lparr>cy_world := w\<rparr>)"
      then show ?thesis using that(3) c by auto
    qed
  qed
qed

definition emptied :: "entra_source \<Rightarrow> entra_source" where
  "emptied xs = xs\<lparr>xs_shadow := empty_shadow\<rparr>"

lemma read_streams_cases:
  assumes "read_streams al uc gr token cy = Some (r, cy')"
  obtains xs ucursor gcursor uv ucur gv gcur snap where "r = Inr (Concluded_read (Complete snap))"
      "(ucursor, gcursor, xs) \<in> {(xs_users_cursor (cy_source cy), xs_groups_cursor (cy_source cy), cy_source cy), (None, None, emptied (cy_source cy))}"
      "read_pair gr ucursor gcursor uv ucur gv gcur" "cy_source cy' = patched_source uv ucur gv gcur xs" "entra_snapshot uc (cy_source cy') = Some snap"
  | e where "r = Inl e" "cy_source cy' \<in> {cy_source cy, emptied (cy_source cy)}"
proof -
  obtain r1 cy1 where a1: "attempt al uc gr token (xs_users_cursor (cy_source cy)) (xs_groups_cursor (cy_source cy)) False cy = Some (r1, cy1)"
    and k: "(case r1 of Inr Retry \<Rightarrow> attempt al uc gr token None None True cy1 | _ \<Rightarrow> Some (r1, cy1)) = Some (r, cy')"
    using assms by (auto simp: read_streams_def bind_eq_Some_conv)
  show ?thesis
  proof (rule attempt_cases [OF a1])
    fix uv ucur gv gcur snap
    assume "r1 = Inr (Concluded_read (Complete snap))" "read_pair gr (xs_users_cursor (cy_source cy)) (xs_groups_cursor (cy_source cy)) uv ucur gv gcur"
      "cy_source cy1 = patched_source uv ucur gv gcur (cy_source cy)" "entra_snapshot uc (cy_source cy1) = Some snap"
    then show ?thesis using k by (intro that(1)) auto
  next
    fix e assume "r1 = Inl e" "cy_source cy1 = cy_source cy"
    then show ?thesis using k by (intro that(2)) auto
  next
    assume r1: "r1 = Inr Retry" "cy_source cy1 = (cy_source cy)\<lparr>xs_shadow := empty_shadow\<rparr>"
    then have a2: "attempt al uc gr token None None True cy1 = Some (r, cy')" using k by simp
    show ?thesis
    proof (rule attempt_cases [OF a2])
      fix uv ucur gv gcur snap
      assume "r = Inr (Concluded_read (Complete snap))" "read_pair gr None None uv ucur gv gcur"
        "cy_source cy' = patched_source uv ucur gv gcur (cy_source cy1)" "entra_snapshot uc (cy_source cy') = Some snap"
      then show ?thesis using r1 by (intro that(1)) (auto simp: emptied_def)
    next
      fix e assume "r = Inl e" "cy_source cy' = cy_source cy1"
      then show ?thesis using r1 by (intro that(2)) (auto simp: emptied_def)
    qed simp
  qed
qed

lemma entra_read_cases:
  assumes "entra_read al uc gr cy = Some (r, cy')"
  obtains xs ucursor gcursor uv ucur gv gcur snap where "r = Inr (Concluded_read (Complete snap))"
      "(ucursor, gcursor, xs) \<in> {(xs_users_cursor (cy_source cy), xs_groups_cursor (cy_source cy), cy_source cy), (None, None, emptied (cy_source cy))}"
      "read_pair gr ucursor gcursor uv ucur gv gcur" "cy_source cy' = patched_source uv ucur gv gcur xs" "entra_snapshot uc (cy_source cy') = Some snap"
  | e where "r = Inl e" "cy_source cy' \<in> {cy_source cy, emptied (cy_source cy)}"
proof -
  obtain t w where t: "gr_token gr (cy_world cy) = (t, w)" by fastforce
  show ?thesis
  proof (cases "isl t")
    case False
    then obtain token n posts where "read_streams al uc gr token (cy\<lparr>cy_world := w, cy_notifier := n, cy_posts := posts\<rparr>) = Some (r, cy')"
      using assms t by (cases t) (auto simp: entra_read_def Let_def split_beta)
    then show ?thesis by (rule read_streams_cases) (use that in \<open>simp_all del: insert_iff\<close>)
  next
    case True
    then obtain e where "t = Inl e" by (cases t) auto
    then have "\<exists>e. r = Inl e" "cy_source cy' = cy_source cy"
      using assms t by (cases e; auto simp: entra_read_def Let_def split_beta alarm_rejected_def)+
    then show ?thesis using that(2) by auto
  qed
qed

text \<open>
  C17 (KB_EntraSyncSound.entra_read_is_whole). A read of the tenant that concludes is a snapshot of the
  shadow after two completed streams: either both resumed from the stored cursors onto the stored
  shadow, or both read from the start onto an empty one, never one of each; the cursors kept are the
  ones the streams ended with. A read that does not conclude is an error, never a panic, and keeps
  both cursors.
\<close>

theorem entra_read_is_whole:
  assumes "entra_read al uc gr cy = Some (r, cy')"
  shows "(\<exists>xs ucursor gcursor uv ucur gv gcur snap. r = Inr (Concluded_read (Complete snap))
      \<and> (ucursor, gcursor, xs) \<in> {(xs_users_cursor (cy_source cy), xs_groups_cursor (cy_source cy), cy_source cy), (None, None, emptied (cy_source cy))}
      \<and> read_pair gr ucursor gcursor uv ucur gv gcur
      \<and> cy_source cy' = patched_source uv ucur gv gcur xs \<and> entra_snapshot uc (cy_source cy') = Some snap)
    \<or> (\<exists>e. r = Inl e \<and> xs_users_cursor (cy_source cy') = xs_users_cursor (cy_source cy)
         \<and> xs_groups_cursor (cy_source cy') = xs_groups_cursor (cy_source cy))"
proof (rule entra_read_cases [OF assms])
  fix xs ucursor gcursor uv ucur gv gcur snap
  assume "r = Inr (Concluded_read (Complete snap))"
    "(ucursor, gcursor, xs) \<in> {(xs_users_cursor (cy_source cy), xs_groups_cursor (cy_source cy), cy_source cy), (None, None, emptied (cy_source cy))}"
    "read_pair gr ucursor gcursor uv ucur gv gcur" "cy_source cy' = patched_source uv ucur gv gcur xs"
    "entra_snapshot uc (cy_source cy') = Some snap"
  then show ?thesis by (intro disjI1 exI conjI)
next
  fix e
  assume e: "r = Inl e" "cy_source cy' \<in> {cy_source cy, emptied (cy_source cy)}"
  have "xs_users_cursor (cy_source cy') = xs_users_cursor (cy_source cy)" "xs_groups_cursor (cy_source cy') = xs_groups_cursor (cy_source cy)"
    using e(2) by (auto simp: emptied_def)
  then show ?thesis using e(1) by (intro disjI2 exI conjI)
qed

section \<open>A resync that fails halfway\<close>

text \<open>
  The loop empties the stored shadow before the resync and clears only its own copies of the cursors.
  When the resync then fails, the stored cursors still stand beside an empty shadow, and the next
  cycle resumes from them.
\<close>

lemma apply_users_ids: "fst ` set (sh_users (apply_users uv sh)) \<subseteq> fst ` set (sh_users sh) \<union> ru_id ` set uv"
proof (induction uv arbitrary: sh)
  case (Cons e uv)
  have "fst ` set (sh_users (apply_user e sh)) \<subseteq> insert (ru_id e) (fst ` set (sh_users sh))"
    by (auto simp: apply_user_def bt_insert_keys)
  then show ?case using Cons.IH [of "apply_user e sh"] unfolding apply_users_def foldl.simps list.set image_insert by blast
qed (simp add: apply_users_def)

lemma apply_users_group_ids: "fst ` set (sh_groups (apply_users uv sh)) = fst ` set (sh_groups sh)"
proof (induction uv arbitrary: sh)
  case (Cons e uv)
  have "fst ` set (sh_groups (apply_user e sh)) = fst ` set (sh_groups sh)"
    by (force simp: apply_user_def)
  then show ?case using Cons.IH [of "apply_user e sh"] by (simp add: apply_users_def)
qed (simp add: apply_users_def)

lemma apply_groups_ids: "fst ` set (sh_groups (apply_groups gv sh)) \<subseteq> fst ` set (sh_groups sh) \<union> rg_id ` set gv"
proof (induction gv arbitrary: sh)
  case (Cons e gv)
  have "fst ` set (sh_groups (apply_group e sh)) \<subseteq> insert (rg_id e) (fst ` set (sh_groups sh))"
    by (auto simp: apply_group_def bt_insert_keys)
  then show ?case using Cons.IH [of "apply_group e sh"] unfolding apply_groups_def foldl.simps list.set image_insert by blast
qed (simp add: apply_groups_def)

lemma narrow_ids:
  assumes "narrow r read = Some snap"
  shows "fst ` set (d_users (ss_desired snap)) \<subseteq> fst ` set (en_users read)
    \<and> fst ` set (d_groups (ss_desired snap)) \<subseteq> fst ` set (en_groups read)"
proof -
  define sel where "sel = closure (en_groups read) (en_membership read) (ro_admission r) (ro_extra r)"
  have "set sel \<subseteq> fst ` set (en_groups read)"
    using closure_in_read [of _ "en_groups read" "en_membership read" "ro_admission r" "ro_extra r"]
    by (fastforce simp: sel_def map_of_eq_None_iff)
  moreover obtain d refused P where d: "build_desired read (ro_admission r) (ro_extra r) = Some (d, refused)"
    "d_users d = filter P (en_users read)" "d_groups d = map (\<lambda>gid. (gid, the (map_of (en_groups read) gid))) (sort sel)"
    by (rule that [OF build_desired_eq [OF sel_def]]) simp_all
  moreover have "ss_desired snap = d" using assms d(1) by (auto simp: narrow_def)
  moreover have "fst ` set (d_groups d) = set sel" unfolding d(3) by (simp add: image_image)
  moreover have "fst ` set (d_users d) \<subseteq> fst ` set (en_users read)" unfolding d(2) by auto
  ultimately show ?thesis by simp
qed

lemma emptied_population:
  assumes "entra_snapshot uc (patched_source uv ucur gv gcur (emptied xs)) = Some snap"
  shows "fst ` set (d_users (ss_desired snap)) \<subseteq> ru_id ` set uv \<and> fst ` set (d_groups (ss_desired snap)) \<subseteq> rg_id ` set gv"
proof -
  let ?sh = "apply_groups gv (apply_users uv empty_shadow)"
  have u: "fst ` set (sh_users ?sh) \<subseteq> ru_id ` set uv"
    using apply_users_ids [of uv empty_shadow] by (simp add: apply_groups_users empty_shadow_def)
  have g: "fst ` set (sh_groups ?sh) \<subseteq> rg_id ` set gv"
    using apply_groups_ids [of gv "apply_users uv empty_shadow"] apply_users_group_ids [of uv empty_shadow]
    by (simp add: empty_shadow_def)
  let ?read = "enumerate_shadow uc (xs_sam_source xs) ?sh"
  have e: "fst ` set (en_users (enumerate_shadow uc sam sh)) \<subseteq> fst ` set (sh_users sh)"
    "fst ` set (en_groups (enumerate_shadow uc sam sh)) = fst ` set (sh_groups sh)" for sam sh
    by (auto simp: enumerate_shadow_def image_image split_beta)
  have "narrow (Roots_new (xs_admission_group_id xs) (xs_grant_group_id xs) (xs_allowlist xs)) ?read = Some snap"
    using assms by (simp add: entra_snapshot_def patched_source_def emptied_def)
  note n = narrow_ids [OF this]
  show ?thesis
    by (intro conjI subset_trans [OF n [THEN conjunct1] subset_trans [OF e(1) u]]
        subset_trans [OF n [THEN conjunct2, unfolded e(2)] g])
qed

fun refused_stream :: "'a stream_result \<Rightarrow> bool" where
  "refused_stream StCursorCorrupt = True"
| "refused_stream StResync = True"
| "refused_stream _ = False"

lemma conclude_refused:
  assumes "refused_stream us \<or> refused_stream gs"
  shows "fst (conclude al uc False (us, gs) cy) = Inr Retry
    \<and> cy_source (snd (conclude al uc False (us, gs) cy)) = emptied (cy_source cy)"
proof -
  have "\<not> (ready us \<and> ready gs)" using assms by (cases us; cases gs) simp_all
  moreover have "us = StCursorCorrupt \<or> gs = StCursorCorrupt \<or> us = StResync \<or> gs = StResync"
    using assms by (cases us; cases gs) simp_all
  ultimately show ?thesis by (auto simp: conclude_torn reset_shadow_def emptied_def Let_def split_beta)
qed

lemma refused_then_failed:
  assumes "read_both gr token (xs_users_cursor (cy_source cy)) (xs_groups_cursor (cy_source cy)) (cy_world cy) = Some (Inr (us, gs), w1)"
    "refused_stream us \<or> refused_stream gs" "read_streams al uc gr token cy = Some (Inl e, cy')"
  shows "cy_source cy' = emptied (cy_source cy)"
proof -
  obtain cy1 where a: "attempt al uc gr token (xs_users_cursor (cy_source cy)) (xs_groups_cursor (cy_source cy)) False cy = Some (Inr Retry, cy1)"
    "cy_source cy1 = emptied (cy_source cy)"
    using conclude_refused [OF assms(2), of al uc "cy\<lparr>cy_world := w1\<rparr>"]
    by (cases "conclude al uc False (us, gs) (cy\<lparr>cy_world := w1\<rparr>)") (auto simp: attempt_def assms(1))
  then have "attempt al uc gr token None None True cy1 = Some (Inl e, cy')"
    using assms(3) by (simp add: read_streams_def)
  then show ?thesis by (rule attempt_cases) (use a(2) in simp_all)
qed

lemma entra_read_token:
  assumes "gr_token gr (cy_world cy) = (Inr token, w)"
  obtains n posts where "entra_read al uc gr cy = read_streams al uc gr token (cy\<lparr>cy_world := w, cy_notifier := n, cy_posts := posts\<rparr>)"
  using that by (auto simp: entra_read_def assms Let_def split_beta)

text \<open>
  C16 (KB_EntraSyncSound.failed_resync_forgets_everyone). A cycle in which the server refuses a stored
  cursor, or asks for a resync, and whose fresh read then fails for whatever reason, leaves the
  stored shadow empty and both stored cursors in place. If a later cycle's read of both
  streams, resumed from those cursors, completes, that cycle publishes a snapshot, and the snapshot
  holds only accounts and groups that its two deltas name: an account that was there before, of
  which neither delta speaks, is gone from it.
\<close>

theorem failed_resync_forgets_everyone:
  assumes "gr_token gr (cy_world cy) = (Inr token, w0)"
    and "read_both gr token (xs_users_cursor (cy_source cy)) (xs_groups_cursor (cy_source cy)) w0 = Some (Inr (us, gs), w1)"
    and "refused_stream us \<or> refused_stream gs"
    and "entra_read al uc gr cy = Some (Inl e, cy1)"
    and "cy_source cy2 = cy_source cy1" "gr_token gr2 (cy_world cy2) = (Inr token2, w2)"
    and "read_both gr2 token2 (xs_users_cursor (cy_source cy)) (xs_groups_cursor (cy_source cy)) w2
      = Some (Inr (StComplete uv ucur, StComplete gv gcur), w3)"
  shows "xs_shadow (cy_source cy1) = empty_shadow
    \<and> xs_users_cursor (cy_source cy1) = xs_users_cursor (cy_source cy) \<and> xs_groups_cursor (cy_source cy1) = xs_groups_cursor (cy_source cy)
    \<and> (\<exists>snap cy3. entra_read al2 uc2 gr2 cy2 = Some (Inr (Concluded_read (Complete snap)), cy3)
        \<and> fst ` set (d_users (ss_desired snap)) \<subseteq> ru_id ` set uv
        \<and> fst ` set (d_groups (ss_desired snap)) \<subseteq> rg_id ` set gv)"
proof -
  obtain n posts where r: "entra_read al uc gr cy = read_streams al uc gr token (cy\<lparr>cy_world := w0, cy_notifier := n, cy_posts := posts\<rparr>)"
    using entra_read_token [where al = al and uc = uc, OF assms(1)] .
  let ?cy = "cy\<lparr>cy_world := w0, cy_notifier := n, cy_posts := posts\<rparr>"
  have "cy_source cy1 = emptied (cy_source ?cy)"
    by (rule refused_then_failed [where us = us and gs = gs, OF _ assms(3)]) (use assms(2,4) r in simp_all)
  then have e: "cy_source cy1 = emptied (cy_source cy)" by simp
  obtain n2 posts2 where r2: "entra_read al2 uc2 gr2 cy2
      = read_streams al2 uc2 gr2 token2 (cy2\<lparr>cy_world := w2, cy_notifier := n2, cy_posts := posts2\<rparr>)"
    using entra_read_token [where al = al2 and uc = uc2, OF assms(6)] .
  obtain snap where snap: "entra_snapshot uc2 (patched_source uv ucur gv gcur (emptied (cy_source cy))) = Some snap"
    using narrow_Some unfolding entra_snapshot_def by blast
  have c: "xs_users_cursor (emptied xs) = xs_users_cursor xs" "xs_groups_cursor (emptied xs) = xs_groups_cursor xs" for xs
    by (simp_all add: emptied_def)
  have "\<exists>cy3. entra_read al2 uc2 gr2 cy2 = Some (Inr (Concluded_read (Complete snap)), cy3)"
    unfolding r2 by (simp add: read_streams_def attempt_def c assms(5,7) conclude_def e snap Let_def)
  with e emptied_population [OF snap] show ?thesis by (auto simp: emptied_def)
qed

text \<open>
  A source that has published one account. The reader refuses the first users read (a page's token
  went bad), drops the connection in the retry, and serves the next cycle its deltas, in which
  another account joined.
\<close>

definition alice :: str where "alice = lit ''alice''"
definition carol :: str where "carol = lit ''carol''"
definition staff :: str where "staff = lit ''staff''"

definition member_user :: shadow_user where
  "member_user = default_user\<lparr>su_user_type := Some (lit ''Member'')\<rparr>"

definition joined_user :: raw_user where
  "joined_user = \<lparr>ru_id = carol, ru_display_name = None, ru_upn = None, ru_mail = None, ru_other_mails = None,
     ru_account_enabled = Some True, ru_user_type = Some (lit ''Member''), ru_removed = False\<rparr>"

definition joined_group :: raw_group where
  "joined_group = \<lparr>rg_id = staff, rg_display_name = None,
     rg_members_delta = Some [\<lparr>rm_odata_type = lit ''#microsoft.graph.user'', rm_id = carol, rm_removed = False\<rparr>], rg_removed = False\<rparr>"

definition flaky_reader :: "nat graph_reader" where
  "flaky_reader =
     \<lparr>gr_token = (\<lambda>w. (Inr (lit ''bearer''), w)),
      gr_users = (\<lambda>token cursor w. Some (if w = 0 then Inr StCursorCorrupt
         else if w = 1 then Inl (GraphFault (lit ''connection reset''))
         else Inr (StComplete [joined_user] (Some (lit ''users-2''))), w + 1)),
      gr_groups = (\<lambda>token cursor w. Some (Inr (StComplete [joined_group] (Some (lit ''groups-2''))), w))\<rparr>"

definition settled_source :: entra_source where
  "settled_source = \<lparr>xs_name = lit ''entra'', xs_tenant_id = [], xs_client_id = lit ''app'', xs_credential_file = lit ''f'',
     xs_credential_expires = None, xs_admission_group_id = staff, xs_grant_group_id = None, xs_allowlist = [],
     xs_sam_source = DisplayName,
     xs_shadow = \<lparr>sh_users = [(alice, member_user)],
       sh_groups = [(staff, \<lparr>sg_display_name = None, sg_members = [\<lparr>sm_kind = KindUser, sm_id = alice\<rparr>]\<rparr>)]\<rparr>,
     xs_users_cursor = Some (lit ''users-1''), xs_groups_cursor = Some (lit ''groups-1'')\<rparr>"

definition sample_alarms :: "(plain, problem) alarms" where
  "sample_alarms = \<lparr>al_disk = plain_disk, al_js = serde_js, al_wall = 5\<rparr>"

definition settled_cycle :: "(plain, nat) entra_cycle" where
  "settled_cycle = \<lparr>cy_source = settled_source, cy_notifier = sample_notifier, cy_posts = [], cy_world = 0\<rparr>"

lemma alice_staff: "alice \<noteq> carol" "carol \<noteq> alice" "from_odata (lit ''#microsoft.graph.user'') = KindUser"
  by (simp_all add: alice_def carol_def kb_lits from_odata_def Let_def)

lemma one_group_population:
  "entra_snapshot uc (settled_source\<lparr>xs_shadow := \<lparr>sh_users = [(who, u)],
      sh_groups = [(staff, \<lparr>sg_display_name = None, sg_members = [\<lparr>sm_kind = KindUser, sm_id = who\<rparr>]\<rparr>)]\<rparr>,
      xs_users_cursor := a, xs_groups_cursor := b\<rparr>) = Some snap
   \<Longrightarrow> user_syncable u \<Longrightarrow> map fst (d_users (ss_desired snap)) = [who] \<and> map fst (d_groups (ss_desired snap)) = [staff]"
  by (auto simp: entra_snapshot_def narrow_def settled_source_def Roots_new_def enumerate_shadow_def build_desired_def
      closure_def group_edges_def edges_of_def List.map_filter_simps Let_def)

theorem failed_resync_forgets_everyone_witness:
  "\<exists>snap0 e cy1 snap cy2.
     entra_snapshot block_tables (cy_source settled_cycle) = Some snap0 \<and> map fst (d_users (ss_desired snap0)) = [alice]
   \<and> entra_read sample_alarms block_tables flaky_reader settled_cycle = Some (Inl e, cy1)
   \<and> entra_read sample_alarms block_tables flaky_reader cy1 = Some (Inr (Concluded_read (Complete snap)), cy2)
   \<and> alice \<notin> fst ` set (d_users (ss_desired snap))"
proof -
  obtain snap0 where s0: "entra_snapshot block_tables settled_source = Some snap0"
    using narrow_Some unfolding entra_snapshot_def by blast
  have p: "map fst (d_users (ss_desired snap0)) = [alice] \<and> map fst (d_groups (ss_desired snap0)) = [staff]"
    by (rule one_group_population [where uc = block_tables and u = member_user and a = "Some (lit ''users-1'')" and b = "Some (lit ''groups-1'')"])
      (use s0 in \<open>simp_all add: settled_source_def member_user_def user_syncable_def\<close>)
  have k: "gr_token flaky_reader w = (Inr (lit ''bearer''), w)" for w by (simp add: flaky_reader_def)
  have b: "read_both flaky_reader token ucursor gcursor 0
      = Some (Inr (StCursorCorrupt, StComplete [joined_group] (Some (lit ''groups-2''))), 1)"
    "read_both flaky_reader token ucursor gcursor 2
      = Some (Inr (StComplete [joined_user] (Some (lit ''users-2'')), StComplete [joined_group] (Some (lit ''groups-2''))), 3)"
    for token ucursor gcursor by (simp_all add: read_both_def flaky_reader_def)
  have w: "cy_world settled_cycle = 0" by (simp add: settled_cycle_def)
  obtain e cy1 where r1: "entra_read sample_alarms block_tables flaky_reader settled_cycle = Some (Inl e, cy1)" "cy_world cy1 = 2"
    by (simp add: entra_read_def read_streams_def attempt_def read_both_def flaky_reader_def settled_cycle_def conclude_def
        reset_shadow_def Let_def split_beta)
  have refused: "refused_stream StCursorCorrupt \<or> refused_stream (StComplete [joined_group] (Some (lit ''groups-2'')))" by simp
  obtain snap cy2 where r2: "entra_read sample_alarms block_tables flaky_reader cy1 = Some (Inr (Concluded_read (Complete snap)), cy2)"
    "fst ` set (d_users (ss_desired snap)) \<subseteq> ru_id ` set [joined_user]"
    using failed_resync_forgets_everyone [OF k b(1) [folded w] refused r1(1) refl k b(2) [folded r1(2)],
        of sample_alarms block_tables] by blast
  then have "alice \<notin> fst ` set (d_users (ss_desired snap))" using alice_staff(1) by (auto simp: joined_user_def)
  with s0 p r1(1) r2(1) show ?thesis by (auto simp: settled_cycle_def)
qed

definition steady_reader :: "nat graph_reader" where
  "steady_reader = flaky_reader\<lparr>gr_users := (\<lambda>token cursor w. Some (Inr (StComplete [joined_user] (Some (lit ''users-2''))), w))\<rparr>"

theorem entra_read_is_whole_witness:
  "\<exists>r cy'. entra_read sample_alarms block_tables steady_reader settled_cycle = Some (r, cy')
     \<and> xs_users_cursor (cy_source cy') = Some (lit ''users-2'')"
proof -
  obtain snap where s2: "entra_snapshot block_tables (patched_source [joined_user] (Some (lit ''users-2'')) [joined_group] (Some (lit ''groups-2'')) settled_source) = Some snap"
    using narrow_Some unfolding entra_snapshot_def by blast
  then obtain cy' where r: "entra_read sample_alarms block_tables steady_reader settled_cycle = Some (Inr (Concluded_read (Complete snap)), cy')"
    by (simp add: entra_read_def read_streams_def attempt_def read_both_def steady_reader_def flaky_reader_def settled_cycle_def
        conclude_def Let_def split_beta)
  from entra_read_is_whole [OF r] have "xs_users_cursor (cy_source cy') = Some (lit ''users-2'')"
  proof (elim disjE exE conjE)
    fix uv ucur gv gcur xs ucursor gcursor
    assume "read_pair steady_reader ucursor gcursor uv ucur gv gcur" "cy_source cy' = patched_source uv ucur gv gcur xs"
    then show ?thesis by (auto simp: read_pair_def steady_reader_def patched_source_def)
  qed simp
  then show ?thesis using r by blast
qed

end
