(* ===== verification/KB_AuthentikSync.thy ===== *)
theory KB_AuthentikSync
  imports KB_EntraSync
begin

text \<open>
  The authentik adapter's directory face: the page-by-page client
  (\<open>crates/kerbridge-idp/src/authentik/client.rs\<close>), the assembly that accepts only a whole read
  (\<open>authentik/wire.rs\<close>), the token's own expiry (\<open>authentik/mod.rs\<close>) and the source
  (\<open>authentik/sync.rs\<close>). HTTP, JSON and the clock are parameters. The texts of refusals are kept
  where they cross the seam, without the quotes of the debug format.
\<close>

section \<open>Wire shapes\<close>

record 'a ak_page =
  kw_next :: int
  kw_count :: int
  kw_results :: "'a list"

record ak_user =
  ku_pk :: int
  ku_username :: str
  ku_name :: str
  ku_is_active :: bool
  ku_groups :: "str list"
  ku_email :: str
  ku_uuid :: str

record ak_group =
  kg_pk :: str
  kg_name :: str
  kg_users :: "int list"
  kg_children :: "str list"

section \<open>Assembling one whole read\<close>

fun ak_candidates_loop :: "unicode \<Rightarrow> str list \<Rightarrow> str list \<Rightarrow> str list" where
  "ak_candidates_loop uc out [] = out"
| "ak_candidates_loop uc out (raw # rest) =
     (case name_candidate uc raw of
        None \<Rightarrow> ak_candidates_loop uc out rest
      | Some c \<Rightarrow> ak_candidates_loop uc (if c \<in> set out then out else out @ [c]) rest)"

definition ak_name_candidates :: "unicode \<Rightarrow> ak_user \<Rightarrow> str list" where
  "ak_name_candidates uc u = ak_candidates_loop uc [] [ku_username u, dotted (ku_name u), local_part (ku_email u)]"

datatype torn_read = CountFell int int | OutOfOrder | Truncated nat int
  | NotCanonicalUuid int | DanglingGroup str | DanglingUser int | DanglingChild str

fun ordered_rows :: "('a \<Rightarrow> 'k::linorder) \<Rightarrow> 'k option \<Rightarrow> 'a list \<Rightarrow> torn_read + 'k option" where
  "ordered_rows pk last_key [] = Inr last_key"
| "ordered_rows pk last_key (row # rest) =
     (case last_key of
        Some l \<Rightarrow> if pk row \<le> l then Inl OutOfOrder else ordered_rows pk (Some (pk row)) rest
      | None \<Rightarrow> ordered_rows pk (Some (pk row)) rest)"

fun ordered_pages :: "('a \<Rightarrow> 'k::linorder) \<Rightarrow> int option \<Rightarrow> 'k option \<Rightarrow> 'a ak_page list \<Rightarrow> torn_read + int option" where
  "ordered_pages pk prev last_key [] = Inr prev"
| "ordered_pages pk prev last_key (page # rest) =
     (case prev of
        Some c \<Rightarrow> if kw_count page < c then Inl (CountFell (kw_count page) c)
                  else rbind (ordered_rows pk last_key (kw_results page)) (\<lambda>l. ordered_pages pk (Some (kw_count page)) l rest)
      | None \<Rightarrow> rbind (ordered_rows pk last_key (kw_results page)) (\<lambda>l. ordered_pages pk (Some (kw_count page)) l rest))"

definition ordered :: "('a \<Rightarrow> 'k::linorder) \<Rightarrow> 'a ak_page list \<Rightarrow> torn_read + 'a list" where
  "ordered pk pages =
     rbind (ordered_pages pk None None pages) (\<lambda>prev.
       let rows = concat (map kw_results pages) in
       case prev of
         Some c \<Rightarrow> if int (length rows) \<noteq> c then Inl (Truncated (length rows) c) else Inr rows
       | None \<Rightarrow> Inr rows)"

definition ak_desired_user :: "unicode \<Rightarrow> ak_user \<Rightarrow> desired_user" where
  "ak_desired_user uc u = \<lparr>du_display_name = ku_name u, du_candidates = ak_name_candidates uc u, du_enabled = ku_is_active u\<rparr>"

fun ak_users :: "unicode \<Rightarrow> ak_user list \<Rightarrow> (subject \<times> desired_user) list \<Rightarrow> torn_read + (subject \<times> desired_user) list" where
  "ak_users uc [] acc = Inr acc"
| "ak_users uc (u # us) acc =
     (if \<not> is_guid (ku_uuid u) then Inl (NotCanonicalUuid (ku_pk u))
      else ak_users uc us (bt_insert (ku_uuid u) (ak_desired_user uc u) acc))"

definition by_pk :: "ak_user list \<Rightarrow> int \<Rightarrow> subject option" where
  "by_pk us pk = map_of (rev (map (\<lambda>u. (ku_pk u, ku_uuid u)) us)) pk"

fun user_groups_resolve :: "str list \<Rightarrow> ak_user list \<Rightarrow> torn_read + unit" where
  "user_groups_resolve ids [] = Inr ()"
| "user_groups_resolve ids (u # us) =
     (case find (\<lambda>gid. gid \<notin> set ids) (ku_groups u) of
        Some gid \<Rightarrow> Inl (DanglingGroup gid)
      | None \<Rightarrow> user_groups_resolve ids us)"

fun member_edges :: "(int \<Rightarrow> subject option) \<Rightarrow> int list \<Rightarrow> torn_read + membership list" where
  "member_edges sub [] = Inr []"
| "member_edges sub (m # ms) =
     rbind (ok_or (DanglingUser m) (sub m)) (\<lambda>s. rbind (member_edges sub ms) (\<lambda>es. Inr (MUser s # es)))"

fun child_edges :: "str list \<Rightarrow> str list \<Rightarrow> torn_read + membership list" where
  "child_edges ids [] = Inr []"
| "child_edges ids (c # cs) =
     (if c \<notin> set ids then Inl (DanglingChild c) else rbind (child_edges ids cs) (\<lambda>es. Inr (MGroup c # es)))"

fun ak_groups ::
  "(int \<Rightarrow> subject option) \<Rightarrow> str list \<Rightarrow> ak_group list \<Rightarrow> (subject \<times> desired_group) list \<times> (subject \<times> membership list) list
     \<Rightarrow> torn_read + (subject \<times> desired_group) list \<times> (subject \<times> membership list) list" where
  "ak_groups sub ids [] acc = Inr acc"
| "ak_groups sub ids (g # gs) acc =
     rbind (member_edges sub (kg_users g)) (\<lambda>ms.
     rbind (child_edges ids (kg_children g)) (\<lambda>cs.
       ak_groups sub ids gs (bt_insert (kg_pk g) \<lparr>dg_display_name = kg_name g\<rparr> (fst acc), bt_insert (kg_pk g) (ms @ cs) (snd acc))))"

definition assemble :: "unicode \<Rightarrow> ak_user ak_page list \<Rightarrow> ak_group ak_page list \<Rightarrow> torn_read + enumeration" where
  "assemble uc users groups =
     rbind (ordered ku_pk users) (\<lambda>user_rows.
     rbind (ordered kg_pk groups) (\<lambda>group_rows.
       let ids = map kg_pk group_rows in
       rbind (ak_users uc user_rows []) (\<lambda>us.
       rbind (user_groups_resolve ids user_rows) (\<lambda>_.
       rbind (ak_groups (by_pk user_rows) ids group_rows ([], [])) (\<lambda>(gs, ms).
         Inr \<lparr>en_users = us, en_groups = gs, en_membership = ms, en_refused = []\<rparr>)))))"

definition complete_snapshot :: "enumeration \<Rightarrow> roots \<Rightarrow> str list + source_snapshot option" where
  "complete_snapshot read rts =
     (let missing = filter (\<lambda>g. map_of (en_groups read) g = None) (ro_extra rts)
      in if missing \<noteq> [] then Inl missing else Inr (narrow rts read))"

section \<open>The client\<close>

definition USERS_QUERY :: str where
  "USERS_QUERY = lit ''/api/v3/core/users/?ordering=pk&include_groups=false&include_roles=false&page_size=100''"
definition GROUPS_QUERY :: str where
  "GROUPS_QUERY = lit ''/api/v3/core/groups/?ordering=pk&include_users=false&page_size=100''"
definition MAX_PAGES :: nat where "MAX_PAGES = 10000"

definition next_page :: "int \<Rightarrow> int \<Rightarrow> nat \<Rightarrow> str \<Rightarrow> str + int option" where
  "next_page page_num next_num read what =
     (if next_num = 0 then Inr None
      else if next_num \<le> page_num then
        Inl (lit ''torn '' @ what @ lit '' read: page '' @ show_int page_num @ lit '' points at page '' @ show_int next_num
          @ lit '', which does not advance -- following it would ask for the same page forever'')
      else if read \<ge> MAX_PAGES then
        Inl (lit ''torn '' @ what @ lit '' read: '' @ show_dec read @ lit '' pages in and the cursor still advances, past the ''
          @ show_dec MAX_PAGES @ lit ''-page ceiling a read is bounded by'')
      else Inr (Some next_num))"

datatype 'a ak_outcome = AkReady "'a ak_page" | AkRetry str | AkRejected str | AkRefused str

definition TOKEN_DEAD :: str where "TOKEN_DEAD = lit ''Token invalid/expired''"

definition ak_classify :: "(byte list \<Rightarrow> str + 'a ak_page) \<Rightarrow> (byte list \<Rightarrow> str option) \<Rightarrow> nat \<Rightarrow> byte list \<Rightarrow> 'a ak_outcome" where
  "ak_classify page_json detail_json status body =
     (if status = 200 then
        (case page_json body of
           Inr page \<Rightarrow> AkReady page
         | Inl e \<Rightarrow> AkRetry (lit ''a 200 whose body is not a IdP directory page: '' @ e))
      else if status = 403 then
        (let detail = unwrap_or [] (detail_json body) in
         if detail = TOKEN_DEAD
         then AkRejected (lit ''authentik rejected the sync credential (403 '' @ detail
           @ lit ''): the token is dead and rotates on expiry, so this will not heal until it is replaced'')
         else AkRefused (lit ''authentik refused the IdP directory read (403 '' @ detail
           @ lit ''): the read is refused, not emptied, so this is a failure rather than an empty IdP directory''))
      else if status \<ge> 500 then
        AkRetry (lit ''authentik answered '' @ show_dec status @ lit '': a 5xx is reachability, not a verdict on the credential or the data'')
      else AkRefused (lit ''authentik answered an unexpected '' @ show_dec status))"

record 'w ak_http =
  kh_base :: str
  kh_get :: "str \<Rightarrow> 'w \<Rightarrow> (str + nat \<times> byte list) \<times> 'w"
  kh_now :: "'w \<Rightarrow> nat"
  kh_sleep :: "nat \<Rightarrow> 'w \<Rightarrow> 'w"

definition ak_client_new :: "str \<Rightarrow> 'w ak_http \<Rightarrow> 'w ak_http" where
  "ak_client_new url h = h\<lparr>kh_base := trim_end_by (\<lambda>c. c = c_slash) url\<rparr>"

definition page_url :: "'w ak_http \<Rightarrow> str \<Rightarrow> int \<Rightarrow> str" where
  "page_url h query page_num = kh_base h @ query @ lit ''&page='' @ show_int page_num"

record 'a ak_state =
  kr_pages :: "'a ak_page list"
  kr_page_num :: int
  kr_backoff :: nat
  kr_progress :: nat

definition ak_answer ::
  "'w ak_http \<Rightarrow> (byte list \<Rightarrow> str + 'a ak_page) \<Rightarrow> (byte list \<Rightarrow> str option) \<Rightarrow> str \<Rightarrow> str \<Rightarrow> int \<Rightarrow> 'w \<Rightarrow> 'a ak_outcome \<times> 'w" where
  "ak_answer h page_json detail_json query what page_num w =
     (let (answer, w') = kh_get h (page_url h query page_num) w
      in (case answer of
            Inr (status, body) \<Rightarrow> ak_classify page_json detail_json status body
          | Inl e \<Rightarrow> AkRetry (lit ''GET '' @ what @ lit '' page '' @ show_int page_num @ lit '': '' @ e), w'))"

definition ak_round ::
  "'w ak_http \<Rightarrow> (byte list \<Rightarrow> str + 'a ak_page) \<Rightarrow> (byte list \<Rightarrow> str option) \<Rightarrow> str \<Rightarrow> str \<Rightarrow> 'a ak_state \<Rightarrow> 'w
     \<Rightarrow> ((source_error + 'a ak_page list) + 'a ak_state) \<times> 'w" where
  "ak_round h page_json detail_json query what st w =
     (case ak_answer h page_json detail_json query what (kr_page_num st) w of
        (AkReady page, w') \<Rightarrow>
          (let pages = kr_pages st @ [page] in
           case next_page (kr_page_num st) (kw_next page) (length pages) what of
             Inl e \<Rightarrow> (Inl (Inl (NotWhole e)), w')
           | Inr None \<Rightarrow> (Inl (Inr pages), w')
           | Inr (Some n) \<Rightarrow> (Inr \<lparr>kr_pages = pages, kr_page_num = n, kr_backoff = 1, kr_progress = kh_now h w'\<rparr>, w'))
      | (AkRejected why, w') \<Rightarrow> (Inl (Inl (CredentialRejected why)), w')
      | (AkRefused why, w') \<Rightarrow> (Inl (Inl (Credential why)), w')
      | (AkRetry why, w') \<Rightarrow>
          if kh_now h w' - kr_progress st \<ge> STALL_LIMIT
          then (Inl (Inl (Unreachable (what @ lit '' read abandoned: no page arrived for long enough to call the read stalled -- '' @ why))), w')
          else (Inr (st\<lparr>kr_backoff := min (kr_backoff st * 2) BACKOFF_CAP_SECS\<rparr>), kh_sleep h (kr_backoff st) w'))"

partial_function (option) ak_loop ::
  "'w ak_http \<Rightarrow> (byte list \<Rightarrow> str + 'a ak_page) \<Rightarrow> (byte list \<Rightarrow> str option) \<Rightarrow> str \<Rightarrow> str \<Rightarrow> 'a ak_state \<Rightarrow> 'w
     \<Rightarrow> ((source_error + 'a ak_page list) \<times> 'w) option" where
  "ak_loop h page_json detail_json query what st w =
     (case ak_round h page_json detail_json query what st w of
        (Inl r, w') \<Rightarrow> Some (r, w')
      | (Inr st', w') \<Rightarrow> ak_loop h page_json detail_json query what st' w')"

definition read_all ::
  "'w ak_http \<Rightarrow> (byte list \<Rightarrow> str + 'a ak_page) \<Rightarrow> (byte list \<Rightarrow> str option) \<Rightarrow> str \<Rightarrow> str \<Rightarrow> 'w
     \<Rightarrow> ((source_error + 'a ak_page list) \<times> 'w) option" where
  "read_all h page_json detail_json query what w =
     ak_loop h page_json detail_json query what \<lparr>kr_pages = [], kr_page_num = 1, kr_backoff = 1, kr_progress = kh_now h w\<rparr> w"

section \<open>The token's own expiry\<close>

datatype expiry = ExpiryDays int | NonExpiring | NoToken

record token_row =
  tr_expires :: "str option"
  tr_expiring :: bool

definition soonest :: "token_row list \<Rightarrow> int \<Rightarrow> int option" where
  "soonest rows today =
     (let days = List.map_filter (\<lambda>expires. map_option (\<lambda>day. day - today) (days_from_ymd (hd (split_on 84 expires))))
                  (List.map_filter tr_expires (filter tr_expiring rows))
      in if days = [] then None else Some (Min (set days)))"

definition read_expiry :: "(str \<Rightarrow> str + token_row list) \<Rightarrow> str \<Rightarrow> nat \<Rightarrow> str + expiry" where
  "read_expiry tokens_json body now =
     rbind (tokens_json body) (\<lambda>rows.
       if rows = [] then Inr NoToken
       else Inr (case soonest rows (int (now div 86400)) of None \<Rightarrow> NonExpiring | Some days \<Rightarrow> ExpiryDays days))"

definition measured_days :: "(str \<Rightarrow> str + token_row list) \<Rightarrow> str \<Rightarrow> nat \<Rightarrow> int option" where
  "measured_days tokens_json body now =
     (case read_expiry tokens_json body now of Inr (ExpiryDays days) \<Rightarrow> Some days | _ \<Rightarrow> None)"

definition measure_expiry ::
  "'w ak_http \<Rightarrow> (str \<Rightarrow> str + token_row list) \<Rightarrow> nat \<Rightarrow> 'w \<Rightarrow> int option \<times> 'w" where
  "measure_expiry h tokens_json now w =
     (let (answer, w') = kh_get h (kh_base h @ lit ''/api/v3/core/tokens/?intent=api&page_size=100'') w
      in (case answer of
            Inr (status, body) \<Rightarrow>
              if status \<noteq> 200 then None else Option.bind (from_utf8 body) (\<lambda>text. measured_days tokens_json text now)
          | Inl _ \<Rightarrow> None, w'))"

section \<open>The source\<close>

record authentik_source =
  ax_name :: str
  ax_url :: str
  ax_credential_file :: str
  ax_admission_group_id :: str
  ax_grant_group_id :: "str option"
  ax_allowlist :: "str list"
  ax_measured_days :: "int option"

record ('f, 'w) ak_cycle =
  ac_source :: authentik_source
  ac_notifier :: "'f notifier"
  ac_posts :: "str list"
  ac_world :: 'w

record ak_json =
  aj_users :: "byte list \<Rightarrow> str + ak_user ak_page"
  aj_groups :: "byte list \<Rightarrow> str + ak_group ak_page"
  aj_detail :: "byte list \<Rightarrow> str option"
  aj_tokens :: "str \<Rightarrow> str + token_row list"

definition authentik_source_new :: "authentik_settings \<Rightarrow> str \<Rightarrow> authentik_source" where
  "authentik_source_new settings name =
     \<lparr>ax_name = name, ax_url = as_url settings, ax_credential_file = as_sync_credential_file settings,
      ax_admission_group_id = as_admission_group_id settings, ax_grant_group_id = as_device_grant_group_id settings,
      ax_allowlist = as_extra_group_ids settings, ax_measured_days = None\<rparr>"

definition ak_roots :: "authentik_source \<Rightarrow> roots" where
  "ak_roots ax = Roots_new (ax_admission_group_id ax) (ax_grant_group_id ax) (ax_allowlist ax)"

definition absent_roots_text :: "str list \<Rightarrow> str" where
  "absent_roots_text missing =
     lit ''configured authentik group root(s) absent from the read: '' @ join_with (lit '', '') missing
     @ lit ''; the credential may have returned a coherent object-filtered subset, so no snapshot was published''"

definition ak_credential_state :: "authentik_source \<Rightarrow> credential_state" where
  "ak_credential_state ax = (case ax_measured_days ax of Some days \<Rightarrow> Measured days | None \<Rightarrow> UnknownExpiry)"

definition ak_read ::
  "'w ak_http \<Rightarrow> ak_json \<Rightarrow> 'w \<Rightarrow> ((source_error + ak_user ak_page list \<times> ak_group ak_page list) \<times> 'w) option" where
  "ak_read h aj w =
     Option.bind (read_all h (aj_users aj) (aj_detail aj) USERS_QUERY (lit ''users'') w) (\<lambda>(users, w1).
       case users of Inl e \<Rightarrow> Some (Inl e, w1)
       | Inr us \<Rightarrow> map_option (\<lambda>(groups, w2). (rbind groups (\<lambda>gs. Inr (us, gs)), w2))
           (read_all h (aj_groups aj) (aj_detail aj) GROUPS_QUERY (lit ''groups'') w1))"

definition ak_concluded ::
  "unicode \<Rightarrow> (torn_read \<Rightarrow> str) \<Rightarrow> authentik_source \<Rightarrow> ak_user ak_page list \<Rightarrow> ak_group ak_page list \<Rightarrow> source_error + progress_step" where
  "ak_concluded uc torn_text ax users groups =
     rbind (map_err (\<lambda>t. NotWhole (torn_text t)) (assemble uc users groups)) (\<lambda>read.
     rbind (map_err (\<lambda>missing. NotWhole (absent_roots_text missing)) (complete_snapshot read (ak_roots ax))) (\<lambda>snap.
       Inr (case snap of None \<Rightarrow> Panicked | Some s \<Rightarrow> Concluded_read (Complete s))))"

definition ak_measured :: "'w ak_http \<Rightarrow> ak_json \<Rightarrow> nat \<Rightarrow> ('f, 'w) ak_cycle \<Rightarrow> ('f, 'w) ak_cycle" where
  "ak_measured h aj now cy =
     (let (days, w) = measure_expiry h (aj_tokens aj) now (ac_world cy)
      in cy\<lparr>ac_world := w,
           ac_source := (case days of None \<Rightarrow> ac_source cy | Some d \<Rightarrow> (ac_source cy)\<lparr>ax_measured_days := Some d\<rparr>)\<rparr>)"

definition ak_settled ::
  "('f, 'b) alarms \<Rightarrow> unicode \<Rightarrow> (torn_read \<Rightarrow> str) \<Rightarrow> (source_error + ak_user ak_page list \<times> ak_group ak_page list) \<Rightarrow> ('f, 'w) ak_cycle
     \<Rightarrow> (source_error + progress_step) \<times> ('f, 'w) ak_cycle" where
  "ak_settled al uc torn_text outcome cy =
     (let subject = ax_name (ac_source cy) in
      case outcome of
        Inr (users, groups) \<Rightarrow>
          let (posts, n) = alarm_resolved al subject (ac_notifier cy)
          in (ak_concluded uc torn_text (ac_source cy) users groups, cy\<lparr>ac_notifier := n, ac_posts := ac_posts cy @ posts\<rparr>)
      | Inl (CredentialRejected why) \<Rightarrow>
          let (err, posts, n) = alarm_rejected al subject (error_text (CredentialRejected why)) (ac_notifier cy)
          in (Inl err, cy\<lparr>ac_notifier := n, ac_posts := ac_posts cy @ posts\<rparr>)
      | Inl e \<Rightarrow> (Inl e, cy))"

definition authentik_advance ::
  "('f, 'b) alarms \<Rightarrow> unicode \<Rightarrow> (torn_read \<Rightarrow> str) \<Rightarrow> ak_json \<Rightarrow> (str \<Rightarrow> str + 'w ak_http) \<Rightarrow> str + str option
     \<Rightarrow> ('f, 'w) ak_cycle \<Rightarrow> ((source_error + progress_step) \<times> ('f, 'w) ak_cycle) option" where
  "authentik_advance al uc torn_text aj client secret_file cy =
     (let ax = ac_source cy in
      case credential_or_idle secret_file of
        Inl e \<Rightarrow> Some (Inl e, cy)
      | Inr MissingCredential \<Rightarrow> Some (Inr (Concluded_read (Idle (idle_reason (ax_credential_file ax) (ax_name ax)))), cy)
      | Inr (Ready token) \<Rightarrow>
          (case client token of
             Inl e \<Rightarrow> Some (Inl (Unreachable (lit ''authentik client: '' @ e)), cy)
           | Inr http \<Rightarrow>
               let h = ak_client_new (ax_url ax) http; cy1 = ak_measured h aj (al_wall al) cy
               in map_option (\<lambda>(outcome, w). ak_settled al uc torn_text outcome (cy1\<lparr>ac_world := w\<rparr>)) (ak_read h aj (ac_world cy1))))"

end
