(* ===== verification/KB_AuthentikSyncSound.thy ===== *)
theory KB_AuthentikSyncSound
  imports KB_AuthentikSync KB_EntraSyncSound
begin

text \<open>
  What one authentik read yields: a snapshot only of two page chains that were followed to their end
  and fit together, with every row, member and child resolved; and the read ends whatever the server
  answers, by the page ceiling and the stall limit.
\<close>

section \<open>Whole reads\<close>

definition whole_read :: "('a \<Rightarrow> 'k::linorder) \<Rightarrow> 'a ak_page list \<Rightarrow> 'a list \<Rightarrow> bool" where
  "whole_read pk pages rows \<longleftrightarrow> rows = concat (map kw_results pages) \<and> sorted_wrt (\<le>) (map kw_count pages)
     \<and> sorted_wrt (<) (map pk rows) \<and> (pages \<noteq> [] \<longrightarrow> int (length rows) = kw_count (last pages))"

definition past :: "'k::linorder option \<Rightarrow> 'k list \<Rightarrow> bool" where
  "past last_key ks \<longleftrightarrow> (case last_key of None \<Rightarrow> True | Some l \<Rightarrow> \<forall>k \<in> set ks. l < k)"

definition last_or :: "'k option \<Rightarrow> 'k list \<Rightarrow> 'k option" where
  "last_or d ks = (if ks = [] then d else Some (last ks))"

lemma past_trans: "past l ks \<Longrightarrow> ks \<noteq> [] \<Longrightarrow> past (Some (last ks)) ms \<Longrightarrow> past l ms"
  by (cases l) (auto simp: past_def intro: less_trans dest: last_in_set)

lemma ordered_rows_Inr:
  "ordered_rows pk l rows = Inr l' \<longleftrightarrow> sorted_wrt (<) (map pk rows) \<and> past l (map pk rows) \<and> l' = last_or l (map pk rows)"
proof (induction rows arbitrary: l)
  case (Cons r rows)
  have "ordered_rows pk l (r # rows) = Inr l' \<longleftrightarrow> past l [pk r] \<and> ordered_rows pk (Some (pk r)) rows = Inr l'"
    by (auto simp: past_def split: option.splits)
  also have "\<dots> \<longleftrightarrow> past l [pk r] \<and> sorted_wrt (<) (map pk rows) \<and> past (Some (pk r)) (map pk rows) \<and> l' = last_or (Some (pk r)) (map pk rows)"
    unfolding Cons.IH ..
  also have "\<dots> \<longleftrightarrow> sorted_wrt (<) (map pk (r # rows)) \<and> past l (map pk (r # rows)) \<and> l' = last_or l (map pk (r # rows))"
    by (cases l) (auto simp: past_def last_or_def intro: less_trans)
  finally show ?case .
qed (auto simp: past_def last_or_def split: option.splits)

lemma past_append: "past l (xs @ ys) \<longleftrightarrow> past l xs \<and> past l ys"
  by (auto simp: past_def split: option.splits)

lemma strictly_append:
  "sorted_wrt (<) (xs @ ys) \<and> past l (xs @ ys)
     \<longleftrightarrow> sorted_wrt (<) xs \<and> past l xs \<and> sorted_wrt (<) ys \<and> past (last_or l xs) ys" for xs ys :: "'k::linorder list"
proof (cases "xs = []")
  case False
  then have s: "sorted_wrt (<) xs \<Longrightarrow> (\<forall>x \<in> set xs. \<forall>y \<in> set ys. x < y) \<longleftrightarrow> past (Some (last xs)) ys"
    by (induction xs rule: rev_induct) (auto simp: sorted_wrt_append past_def intro: less_trans)
  show ?thesis
    using s False past_trans [of l xs ys] by (auto simp: sorted_wrt_append past_append last_or_def)
qed (auto simp: last_or_def past_def split: option.splits)

lemma ordered_pages_Inr:
  "ordered_pages pk prev l pages = Inr c \<longleftrightarrow>
     sorted_wrt (<) (map pk (concat (map kw_results pages))) \<and> past l (map pk (concat (map kw_results pages)))
     \<and> sorted_wrt (\<le>) (map kw_count pages) \<and> (\<forall>p. prev = Some p \<longrightarrow> list_all ((\<le>) p) (map kw_count pages))
     \<and> c = last_or prev (map kw_count pages)"
proof (induction pages arbitrary: prev l)
  case (Cons p pages)
  let ?k = "map pk (kw_results p)" and ?ks = "map pk (concat (map kw_results pages))" and ?c = "map kw_count pages"
  have "ordered_pages pk prev l (p # pages) = Inr c
      \<longleftrightarrow> (\<forall>q. prev = Some q \<longrightarrow> q \<le> kw_count p) \<and> sorted_wrt (<) ?k \<and> past l ?k
        \<and> ordered_pages pk (Some (kw_count p)) (last_or l ?k) pages = Inr c"
    by (cases prev) (auto simp: kb_results ordered_rows_Inr)
  also have "\<dots> \<longleftrightarrow> (\<forall>q. prev = Some q \<longrightarrow> q \<le> kw_count p) \<and> (sorted_wrt (<) (?k @ ?ks) \<and> past l (?k @ ?ks))
        \<and> sorted_wrt (\<le>) ?c \<and> list_all ((\<le>) (kw_count p)) ?c \<and> c = last_or (Some (kw_count p)) ?c"
    unfolding Cons.IH strictly_append by auto
  also have "\<dots> \<longleftrightarrow> (sorted_wrt (<) (?k @ ?ks) \<and> past l (?k @ ?ks)) \<and> sorted_wrt (\<le>) (map kw_count (p # pages))
        \<and> (\<forall>q. prev = Some q \<longrightarrow> list_all ((\<le>) q) (map kw_count (p # pages))) \<and> c = last_or prev (map kw_count (p # pages))"
    by (auto simp: list_all_iff last_or_def)
  finally show ?case by simp
qed (auto simp: last_or_def past_def split: option.splits)

lemma ordered_Inr: "ordered pk pages = Inr rows \<longleftrightarrow> whole_read pk pages rows"
proof -
  have "ordered pk pages = Inr rows \<longleftrightarrow> (\<exists>c. ordered_pages pk None None pages = Inr c
      \<and> rows = concat (map kw_results pages) \<and> (\<forall>n. c = Some n \<longrightarrow> int (length rows) = n))"
    by (auto simp: ordered_def kb_results Let_def split: option.splits if_splits)
  then show ?thesis unfolding ordered_pages_Inr by (auto simp: whole_read_def past_def last_or_def last_map)
qed

section \<open>What an accepted pair of reads holds\<close>

abbreviation bt_fold :: "('a \<Rightarrow> 'k::linorder) \<Rightarrow> ('a \<Rightarrow> 'v) \<Rightarrow> 'a list \<Rightarrow> ('k \<times> 'v) list \<Rightarrow> ('k \<times> 'v) list" where
  "bt_fold k v xs acc \<equiv> foldl (\<lambda>m x. bt_insert (k x) (v x) m) acc xs"

lemma bt_fold_keys: "fst ` set (bt_fold k v xs acc) = k ` set xs \<union> fst ` set acc"
  by (induction xs arbitrary: acc) (simp_all add: bt_insert_keys)

lemma bt_fold_other: "a \<notin> k ` set xs \<Longrightarrow> map_of (bt_fold k v xs acc) a = map_of acc a"
  by (induction xs arbitrary: acc) (auto simp: map_of_bt_insert)

lemma bt_fold_lookup:
  assumes "distinct (map k xs)" "x \<in> set xs"
  shows "map_of (bt_fold k v xs acc) (k x) = Some (v x)"
  using assms
proof (induction xs arbitrary: acc)
  case (Cons y ys)
  then show ?case by (cases "x = y") (auto simp: bt_fold_other map_of_bt_insert)
qed simp

definition row_edges :: "(int \<Rightarrow> subject option) \<Rightarrow> ak_group \<Rightarrow> membership list" where
  "row_edges sub g = map (\<lambda>m. MUser (the (sub m))) (kg_users g) @ map MGroup (kg_children g)"

lemma ak_users_Inr:
  "ak_users uc us acc = Inr out \<longleftrightarrow>
     (\<forall>u \<in> set us. is_guid (ku_uuid u)) \<and> out = bt_fold ku_uuid (ak_desired_user uc) us acc"
  by (induction us arbitrary: acc) auto

lemma user_groups_resolve_Inr:
  "user_groups_resolve ids us = Inr x \<longleftrightarrow> (\<forall>u \<in> set us. set (ku_groups u) \<subseteq> set ids)"
proof (induction us)
  case (Cons u us)
  show ?case
  proof (cases "find (\<lambda>gid. gid \<notin> set ids) (ku_groups u)")
    case None
    then have "set (ku_groups u) \<subseteq> set ids" by (auto simp: find_None_iff)
    then show ?thesis using None Cons by simp
  next
    case (Some gid)
    then have "gid \<in> set (ku_groups u)" "gid \<notin> set ids" by (auto simp: find_Some_iff)
    then show ?thesis using Some by auto
  qed
qed simp

lemma member_edges_Inr:
  "member_edges sub ms = Inr es \<longleftrightarrow> (\<forall>m \<in> set ms. sub m \<noteq> None) \<and> es = map (\<lambda>m. MUser (the (sub m))) ms"
  by (induction ms arbitrary: es) (auto simp: kb_results)

lemma child_edges_Inr: "child_edges ids cs = Inr es \<longleftrightarrow> set cs \<subseteq> set ids \<and> es = map MGroup cs"
  by (induction cs arbitrary: es) (auto simp: kb_results)

lemma ak_groups_Inr:
  "ak_groups sub ids gs acc = Inr out \<longleftrightarrow>
     (\<forall>g \<in> set gs. (\<forall>m \<in> set (kg_users g). sub m \<noteq> None) \<and> set (kg_children g) \<subseteq> set ids)
     \<and> out = (bt_fold kg_pk (\<lambda>g. \<lparr>dg_display_name = kg_name g\<rparr>) gs (fst acc), bt_fold kg_pk (row_edges sub) gs (snd acc))"
  by (induction gs arbitrary: acc) (auto simp: kb_results member_edges_Inr child_edges_Inr row_edges_def)

lemma by_pk_row:
  assumes "distinct (map ku_pk us)" "u \<in> set us"
  shows "by_pk us (ku_pk u) = Some (ku_uuid u)"
proof -
  have "distinct (map fst (rev (map (\<lambda>u. (ku_pk u, ku_uuid u)) us)))"
    using assms(1) by (simp add: rev_map [symmetric] comp_def)
  then show ?thesis unfolding by_pk_def using assms(2) by (intro map_of_is_SomeI) auto
qed

lemma by_pk_known: "by_pk us pk \<noteq> None \<longleftrightarrow> pk \<in> ku_pk ` set us"
  by (auto simp: by_pk_def map_of_eq_None_iff image_iff)

text \<open>Every id of the rows names a row, and every row has a canonical uuid.\<close>

definition resolves :: "ak_user list \<Rightarrow> ak_group list \<Rightarrow> bool" where
  "resolves urows grs \<longleftrightarrow>
     (\<forall>u \<in> set urows. is_guid (ku_uuid u) \<and> set (ku_groups u) \<subseteq> kg_pk ` set grs)
     \<and> (\<forall>g \<in> set grs. set (kg_users g) \<subseteq> ku_pk ` set urows \<and> set (kg_children g) \<subseteq> kg_pk ` set grs)"

text \<open>The enumeration holds exactly the rows: their keys, each group's name, and its members by subject.\<close>

definition carried :: "unicode \<Rightarrow> ak_user list \<Rightarrow> ak_group list \<Rightarrow> enumeration \<Rightarrow> bool" where
  "carried uc urows grs read \<longleftrightarrow>
     fst ` set (en_users read) = ku_uuid ` set urows \<and> fst ` set (en_groups read) = kg_pk ` set grs
     \<and> (distinct (map ku_uuid urows) \<longrightarrow>
          (\<forall>u \<in> set urows. map_of (en_users read) (ku_uuid u) = Some (ak_desired_user uc u)))
     \<and> (\<forall>g \<in> set grs. map_of (en_groups read) (kg_pk g) = Some \<lparr>dg_display_name = kg_name g\<rparr>
          \<and> map_of (en_membership read) (kg_pk g) = Some (row_edges (by_pk urows) g))"

lemma assemble_Inr:
  assumes "assemble uc users groups = Inr read"
  shows "\<exists>urows grs. whole_read ku_pk users urows \<and> whole_read kg_pk groups grs \<and> resolves urows grs \<and> carried uc urows grs read"
proof -
  obtain urows grs where r: "whole_read ku_pk users urows" "whole_read kg_pk groups grs"
    "\<forall>u \<in> set urows. is_guid (ku_uuid u)" "\<forall>u \<in> set urows. set (ku_groups u) \<subseteq> kg_pk ` set grs"
    "\<forall>g \<in> set grs. (\<forall>m \<in> set (kg_users g). by_pk urows m \<noteq> None) \<and> set (kg_children g) \<subseteq> kg_pk ` set grs"
    "read = \<lparr>en_users = bt_fold ku_uuid (ak_desired_user uc) urows [],
       en_groups = bt_fold kg_pk (\<lambda>g. \<lparr>dg_display_name = kg_name g\<rparr>) grs [],
       en_membership = bt_fold kg_pk (row_edges (by_pk urows)) grs [], en_refused = []\<rparr>"
    using assms by (auto simp: assemble_def kb_results Let_def ordered_Inr ak_users_Inr user_groups_resolve_Inr ak_groups_Inr)
  have d: "distinct (map kg_pk grs)" using r(2) by (auto simp: whole_read_def strict_sorted_iff)
  have "resolves urows grs" using r(3-5) unfolding resolves_def by_pk_known by blast
  moreover have "carried uc urows grs read"
    unfolding carried_def r(6) by (auto simp: bt_fold_keys bt_fold_lookup [OF d] bt_fold_lookup)
  ultimately show ?thesis using r(1,2) by blast
qed

section \<open>The pages of a read\<close>

inductive paged ::
  "'w ak_http \<Rightarrow> (byte list \<Rightarrow> str + 'a ak_page) \<Rightarrow> (byte list \<Rightarrow> str option) \<Rightarrow> str \<Rightarrow> str \<Rightarrow> int \<Rightarrow> 'w \<Rightarrow> 'a ak_page list \<Rightarrow> 'w \<Rightarrow> bool"
  for h page_json detail_json query what where
  LastPage: "\<lbrakk>ak_answer h page_json detail_json query what n w = (AkReady page, w'); kw_next page = 0\<rbrakk>
    \<Longrightarrow> paged h page_json detail_json query what n w [page] w'"
| NextPage: "\<lbrakk>ak_answer h page_json detail_json query what n w = (AkReady page, w'); n < kw_next page;
    paged h page_json detail_json query what (kw_next page) w' pages w''\<rbrakk>
    \<Longrightarrow> paged h page_json detail_json query what n w (page # pages) w''"
| Waited: "\<lbrakk>ak_answer h page_json detail_json query what n w = (AkRetry why, w');
    paged h page_json detail_json query what n (kh_sleep h secs w') pages w''\<rbrakk>
    \<Longrightarrow> paged h page_json detail_json query what n w pages w''"

lemma next_page_Inr:
  "next_page n m read what = Inr None \<longleftrightarrow> m = 0"
  "next_page n m read what = Inr (Some k) \<longleftrightarrow> k = m \<and> m \<noteq> 0 \<and> n < m \<and> read < MAX_PAGES"
  by (auto simp: next_page_def)

lemma ak_round_cases:
  assumes "ak_round h page_json detail_json query what st w = (r, w')"
  obtains (last_page) page where "ak_answer h page_json detail_json query what (kr_page_num st) w = (AkReady page, w')" "kw_next page = 0"
      "r = Inl (Inr (kr_pages st @ [page]))"
  | (more) page where "ak_answer h page_json detail_json query what (kr_page_num st) w = (AkReady page, w')"
      "kr_page_num st < kw_next page" "length (kr_pages st) + 1 < MAX_PAGES"
      "r = Inr \<lparr>kr_pages = kr_pages st @ [page], kr_page_num = kw_next page, kr_backoff = 1, kr_progress = kh_now h w'\<rparr>"
  | (again) why w1 where "ak_answer h page_json detail_json query what (kr_page_num st) w = (AkRetry why, w1)"
      "kh_now h w1 - kr_progress st < STALL_LIMIT" "w' = kh_sleep h (kr_backoff st) w1"
      "r = Inr (st\<lparr>kr_backoff := min (kr_backoff st * 2) BACKOFF_CAP_SECS\<rparr>)"
  | (stopped) e where "r = Inl (Inl e)"
proof -
  obtain out w1 where a: "ak_answer h page_json detail_json query what (kr_page_num st) w = (out, w1)" by fastforce
  show ?thesis
  proof (cases out)
    case (AkReady page)
    consider e where "next_page (kr_page_num st) (kw_next page) (length (kr_pages st @ [page])) what = Inl e"
      | "next_page (kr_page_num st) (kw_next page) (length (kr_pages st @ [page])) what = Inr None"
      | k where "next_page (kr_page_num st) (kw_next page) (length (kr_pages st @ [page])) what = Inr (Some k)"
      by (cases "next_page (kr_page_num st) (kw_next page) (length (kr_pages st @ [page])) what") (auto split: option.splits)
    then show ?thesis
    proof cases
      case 1
      then show ?thesis using assms a AkReady by (intro stopped [of "NotWhole e"]) (simp add: ak_round_def Let_def)
    next
      case 2
      moreover from 2 have "kw_next page = 0" unfolding next_page_Inr(1) .
      ultimately show ?thesis using assms a AkReady by (intro last_page) (auto simp: ak_round_def Let_def simp del: length_append)
    next
      case 3
      moreover from 3 have "k = kw_next page" "kr_page_num st < kw_next page" "length (kr_pages st) + 1 < MAX_PAGES"
        unfolding next_page_Inr(2) by simp_all
      ultimately show ?thesis using assms a AkReady by (intro more) (auto simp: ak_round_def Let_def)
    qed
  next
    case (AkRetry why)
    show ?thesis
    proof (cases "kh_now h w1 - kr_progress st < STALL_LIMIT")
      case True
      then show ?thesis using assms a AkRetry by (intro again [of why w1]) (simp_all add: ak_round_def)
    next
      case False
      then have "\<exists>e. r = Inl (Inl e)" using assms a AkRetry by (auto simp: ak_round_def)
      then show ?thesis using stopped by blast
    qed
  next
    case (AkRejected why)
    then show ?thesis using assms a by (intro stopped [of "CredentialRejected why"]) (simp add: ak_round_def)
  next
    case (AkRefused why)
    then show ?thesis using assms a by (intro stopped [of "Credential why"]) (simp add: ak_round_def)
  qed
qed

lemma ak_loop_paged:
  assumes "ak_loop h page_json detail_json query what st w = Some (Inr pages, w')"
  shows "\<exists>rest. paged h page_json detail_json query what (kr_page_num st) w rest w' \<and> pages = kr_pages st @ rest"
proof -
  let ?paged = "paged h page_json detail_json query what"
  let ?P = "\<lambda>st w w'. \<exists>rest. ?paged (kr_page_num st) w rest w' \<and> pages = kr_pages st @ rest"
  have "h = h \<and> page_json = page_json \<and> detail_json = detail_json \<and> query = query \<and> what = what
      \<and> fst (Inr pages :: source_error + 'a ak_page list, w') = Inr pages \<longrightarrow> ?P st w (snd (Inr pages :: source_error + 'a ak_page list, w'))"
  proof (rule ak_loop.raw_induct [where P = "\<lambda>ha pj dj q wh st w r. ha = h \<and> pj = page_json \<and> dj = detail_json \<and> q = query
      \<and> wh = what \<and> fst r = Inr pages \<longrightarrow> ?P st w (snd r)", OF _ assms], intro impI)
    fix loop ha pj dj q wh st w r
    assume IH: "\<And>ha pj dj q wh st w r. loop ha pj dj q wh st w = Some r \<Longrightarrow> ha = h \<and> pj = page_json \<and> dj = detail_json
        \<and> q = query \<and> wh = what \<and> fst r = Inr pages \<longrightarrow> ?P st w (snd r)"
      and b: "(case ak_round ha pj dj q wh st w of (Inl r, w') \<Rightarrow> Some (r, w') | (Inr st', w') \<Rightarrow> loop ha pj dj q wh st' w') = Some r"
      and eq: "ha = h \<and> pj = page_json \<and> dj = detail_json \<and> q = query \<and> wh = what \<and> fst r = Inr pages"
    from eq have eqs: "ha = h" "pj = page_json" "dj = detail_json" "q = query" "wh = what" by auto
    obtain r1 w1 where rd: "ak_round h page_json detail_json query what st w = (r1, w1)" by fastforce
    have more: "?P st' w1 (snd r)" if "r1 = Inr st'" for st'
    proof -
      have "loop h page_json detail_json query what st' w1 = Some r" using b rd that unfolding eqs by simp
      from IH [OF this] eq show ?thesis by blast
    qed
    from rd show "?P st w (snd r)"
    proof (cases rule: ak_round_cases)
      case (last_page page)
      then have "r = (Inr (kr_pages st @ [page]), w1)" using b rd unfolding eqs by simp
      then show ?thesis using eq LastPage [OF last_page(1,2)] by auto
    next
      case (more page)
      then obtain rest where "?paged (kw_next page) w1 rest (snd r)" "pages = (kr_pages st @ [page]) @ rest"
        using \<open>\<And>st'. r1 = Inr st' \<Longrightarrow> ?P st' w1 (snd r)\<close> [OF more(4)] by auto
      then show ?thesis using NextPage [OF more(1,2)] by auto
    next
      case (again why wa)
      then obtain rest where "?paged (kr_page_num st) w1 rest (snd r)" "pages = kr_pages st @ rest"
        using more [OF again(4)] by auto
      then show ?thesis using Waited [OF again(1)] again(3) by auto
    next
      case (stopped e)
      then have "r = (Inl e, w1)" using b rd unfolding eqs by simp
      then show ?thesis using eq by simp
    qed
  qed
  then show ?thesis by simp
qed

lemma read_all_paged:
  "read_all h page_json detail_json query what w = Some (Inr pages, w') \<Longrightarrow> paged h page_json detail_json query what 1 w pages w'"
  unfolding read_all_def by (drule ak_loop_paged) simp

section \<open>A read ends\<close>

definition ak_clock_runs :: "'w ak_http \<Rightarrow> bool" where
  "ak_clock_runs h \<longleftrightarrow> (\<forall>url w. kh_now h w \<le> kh_now h (snd (kh_get h url w)))
     \<and> (\<forall>secs w. kh_now h w + secs \<le> kh_now h (kh_sleep h secs w))"

lemma ak_answer_clock:
  "ak_clock_runs h \<Longrightarrow> ak_answer h page_json detail_json query what n w = (out, w') \<Longrightarrow> kh_now h w \<le> kh_now h w'"
  by (auto simp: ak_answer_def ak_clock_runs_def Let_def split_beta)

definition rounds_left :: "'w ak_http \<Rightarrow> (('a ak_state \<times> 'w) \<times> ('a ak_state \<times> 'w)) set" where
  "rounds_left h = measures [\<lambda>(st, w). MAX_PAGES - length (kr_pages st), \<lambda>(st, w). kr_progress st + STALL_LIMIT - kh_now h w]"

lemma rounds_left_wf: "wf (rounds_left h)"
  unfolding rounds_left_def by (rule wf_measures)

lemma ak_round_decreases:
  assumes "ak_clock_runs h" "1 \<le> kr_backoff st" "length (kr_pages st) < MAX_PAGES"
    "ak_round h page_json detail_json query what st w = (Inr st', w')"
  shows "((st', w'), (st, w)) \<in> rounds_left h \<and> 1 \<le> kr_backoff st' \<and> length (kr_pages st') < MAX_PAGES"
  using assms(4)
proof (cases rule: ak_round_cases)
  case (more page)
  then show ?thesis using assms(3) by (auto simp: rounds_left_def)
next
  case (again why w1)
  have "kh_now h w \<le> kh_now h w1" using ak_answer_clock [OF assms(1) again(1)] .
  moreover have "kh_now h w1 + kr_backoff st \<le> kh_now h w'" using assms(1) again(3) unfolding ak_clock_runs_def by simp
  ultimately have "kr_progress st + STALL_LIMIT - kh_now h w' < kr_progress st + STALL_LIMIT - kh_now h w"
    using again(2) assms(2) by linarith
  moreover have "1 \<le> min (kr_backoff st * 2) BACKOFF_CAP_SECS" using assms(2) by (simp add: BACKOFF_CAP_SECS_def)
  ultimately show ?thesis using again(4) assms(3) by (simp add: rounds_left_def)
qed simp_all

lemma ak_loop_ends:
  assumes "ak_clock_runs h"
  shows "1 \<le> kr_backoff st \<Longrightarrow> length (kr_pages st) < MAX_PAGES \<Longrightarrow> \<exists>r. ak_loop h page_json detail_json query what st w = Some r"
proof (induction "(st, w)" arbitrary: st w rule: wf_induct_rule [OF rounds_left_wf [of h]])
  case (1 st w)
  obtain r w1 where rd: "ak_round h page_json detail_json query what st w = (r, w1)" by fastforce
  show ?case
  proof (cases r)
    case (Inl x)
    then show ?thesis using rd by (subst ak_loop.simps) simp
  next
    case (Inr st')
    have "\<exists>x. ak_loop h page_json detail_json query what st' w1 = Some x"
      using 1(1) ak_round_decreases [OF assms 1(2,3) rd [unfolded Inr]] by blast
    then show ?thesis using rd Inr by (subst ak_loop.simps) simp
  qed
qed

lemma read_all_ends: "ak_clock_runs h \<Longrightarrow> \<exists>r. read_all h page_json detail_json query what w = Some r"
  unfolding read_all_def by (rule ak_loop_ends) (simp_all add: MAX_PAGES_def)

section \<open>The source\<close>

lemma ak_read_Inr:
  "ak_read h aj w = Some (Inr (us, gs), w') \<longleftrightarrow>
     (\<exists>w1. read_all h (aj_users aj) (aj_detail aj) USERS_QUERY (lit ''users'') w = Some (Inr us, w1)
        \<and> read_all h (aj_groups aj) (aj_detail aj) GROUPS_QUERY (lit ''groups'') w1 = Some (Inr gs, w'))"
proof (cases "read_all h (aj_users aj) (aj_detail aj) USERS_QUERY (lit ''users'') w")
  case (Some a)
  then show ?thesis by (cases a; cases "fst a") (auto simp: ak_read_def kb_results)
qed (simp add: ak_read_def)

lemma ak_concluded_Inr:
  assumes "ak_concluded uc torn_text ax users groups = Inr (Concluded_read (Complete snap))"
  shows "\<exists>urows grs read. whole_read ku_pk users urows \<and> whole_read kg_pk groups grs \<and> resolves urows grs \<and> carried uc urows grs read
    \<and> set (ro_extra (ak_roots ax)) \<subseteq> kg_pk ` set grs \<and> narrow (ak_roots ax) read = Some snap"
proof -
  obtain read where r: "assemble uc users groups = Inr read" "complete_snapshot read (ak_roots ax) = Inr (Some snap)"
  proof (cases "assemble uc users groups")
    case asm: (Inr read)
    show ?thesis
    proof (cases "complete_snapshot read (ak_roots ax)")
      case (Inr snap')
      then have "snap' = Some snap" using assms asm unfolding ak_concluded_def by (cases snap') (simp_all add: map_err_def)
      then show ?thesis using that [OF asm] Inr by simp
    qed (use assms asm in \<open>simp add: ak_concluded_def map_err_def\<close>)
  qed (use assms in \<open>simp add: ak_concluded_def map_err_def\<close>)
  obtain urows grs where w: "whole_read ku_pk users urows" "whole_read kg_pk groups grs" "resolves urows grs" "carried uc urows grs read"
    using assemble_Inr [OF r(1)] by blast
  have n: "narrow (ak_roots ax) read = Some snap" "filter (\<lambda>g. map_of (en_groups read) g = None) (ro_extra (ak_roots ax)) = []"
    using r(2) by (auto simp: complete_snapshot_def Let_def split: if_splits)
  have "set (ro_extra (ak_roots ax)) \<subseteq> fst ` set (en_groups read)"
    using n(2) unfolding filter_empty_conv map_of_eq_None_iff by blast
  moreover have "fst ` set (en_groups read) = kg_pk ` set grs" using w(4) unfolding carried_def by (elim conjE)
  ultimately have "set (ro_extra (ak_roots ax)) \<subseteq> kg_pk ` set grs" by simp
  then show ?thesis using w n(1) by (intro exI [of _ urows] exI [of _ grs] exI [of _ read] conjI)
qed

text \<open>
  C15 (KB_AuthentikSyncSound.authentik_snapshot_is_whole). When the authentik source publishes a
  snapshot, both collections were read to the end: every page followed from page 1 by a rising
  number to the page that points nowhere; the counts never fell, the keys rise strictly across all
  pages and the rows number what the last page counted. Every account has a canonical uuid, every
  group, member and child named resolves to a row, every group of the allowlist and the
  device-grant group, where one is configured, are among the rows,
  and the snapshot is the narrowing of exactly those rows. Nothing is published from a refused,
  stalled or torn read, or one that lacks such a root. The admission group is not
  required here: without it the planner freezes the cycle. Whole means whole for the
  credential: authentik filters objects before it counts them, so a coherent subset that keeps
  those roots and has no dangling id passes, as the source says of itself.
\<close>

theorem authentik_snapshot_is_whole:
  assumes "authentik_advance al uc torn_text aj client secret_file cy = Some (Inr (Concluded_read (Complete snap)), cy')"
  shows "\<exists>h w1 w2 users groups urows grs read.
      paged h (aj_users aj) (aj_detail aj) USERS_QUERY (lit ''users'') 1 w1 users w2
    \<and> paged h (aj_groups aj) (aj_detail aj) GROUPS_QUERY (lit ''groups'') 1 w2 groups (ac_world cy')
    \<and> whole_read ku_pk users urows \<and> whole_read kg_pk groups grs \<and> resolves urows grs \<and> carried uc urows grs read
    \<and> set (ax_allowlist (ac_source cy)) \<union> set_option (ax_grant_group_id (ac_source cy)) \<subseteq> kg_pk ` set grs
    \<and> narrow (ak_roots (ac_source cy)) read = Some snap"
proof -
  have extra: "set (ro_extra (ak_roots ax)) = set (ax_allowlist ax) \<union> set_option (ax_grant_group_id ax)" for ax
    by (cases "ax_grant_group_id ax") (simp_all add: ak_roots_def Roots_new_def)
  obtain token http where c: "credential_or_idle secret_file = Inr (Ready token)" "client token = Inr http"
  proof (cases "credential_or_idle secret_file")
    case (Inr c)
    then show ?thesis
      using assms that by (cases c; cases "client (case c of Ready t \<Rightarrow> t | _ \<Rightarrow> [])") (simp_all add: authentik_advance_def Let_def)
  qed (use assms in \<open>simp add: authentik_advance_def Let_def\<close>)
  let ?h = "ak_client_new (ax_url (ac_source cy)) http"
  let ?cy1 = "ak_measured ?h aj (al_wall al) cy"
  obtain outcome w where o: "ak_read ?h aj (ac_world ?cy1) = Some (outcome, w)"
    "ak_settled al uc torn_text outcome (?cy1\<lparr>ac_world := w\<rparr>) = (Inr (Concluded_read (Complete snap)), cy')"
    using assms c by (auto simp: authentik_advance_def Let_def)
  have same: "ak_roots (ac_source ?cy1) = ak_roots (ac_source cy)"
    by (simp add: ak_measured_def ak_roots_def split_beta Let_def split: option.split)
  obtain users groups where k: "outcome = Inr (users, groups)" "ac_world cy' = w"
      "ak_concluded uc torn_text (ac_source ?cy1) users groups = Inr (Concluded_read (Complete snap))"
    using o(2) by (auto simp: ak_settled_def Let_def split_beta split: sum.splits source_error.splits)
  obtain w2 where p: "read_all ?h (aj_users aj) (aj_detail aj) USERS_QUERY (lit ''users'') (ac_world ?cy1) = Some (Inr users, w2)"
    "read_all ?h (aj_groups aj) (aj_detail aj) GROUPS_QUERY (lit ''groups'') w2 = Some (Inr groups, w)"
    using o(1) unfolding k(1) ak_read_Inr by blast
  show ?thesis
    using ak_concluded_Inr [OF k(3)] read_all_paged [OF p(1)] read_all_paged [OF p(2)] k(2) unfolding same extra by blast
qed

text \<open>
  C33 (KB_AuthentikSyncSound.authentik_read_ends). A turn of the authentik source ends for every
  server: whatever it answers, page after page or refusal after refusal, the page ceiling bounds the
  pages and the stall limit the waiting between two of them, as long as the clock advances by a sleep
  and never runs backwards.
\<close>

theorem authentik_read_ends:
  assumes "\<forall>token http. client token = Inr http \<longrightarrow> ak_clock_runs http"
  shows "\<exists>r. authentik_advance al uc torn_text aj client secret_file cy = Some r"
proof -
  have reads: "\<exists>r. ak_read h aj w = Some r" if run: "ak_clock_runs h" for h w
  proof -
    obtain us w1 where u: "read_all h (aj_users aj) (aj_detail aj) USERS_QUERY (lit ''users'') w = Some (us, w1)"
      using read_all_ends [OF run] by (metis surj_pair)
    obtain gs w2 where g: "read_all h (aj_groups aj) (aj_detail aj) GROUPS_QUERY (lit ''groups'') w1 = Some (gs, w2)"
      using read_all_ends [OF run] by (metis surj_pair)
    show ?thesis using u g by (cases us) (simp_all add: ak_read_def)
  qed
  have clock: "ak_clock_runs (ak_client_new url http)" if "ak_clock_runs http" for url http
    using that by (simp add: ak_clock_runs_def ak_client_new_def)
  show ?thesis
  proof (cases "credential_or_idle secret_file")
    case (Inr c)
    show ?thesis
    proof (cases c)
      case (Ready token)
      show ?thesis
      proof (cases "client token")
        case http: (Inr http)
        then have "ak_clock_runs (ak_client_new (ax_url (ac_source cy)) http)" using assms clock by blast
        then show ?thesis using reads Inr Ready http by (fastforce simp: authentik_advance_def Let_def)
      qed (simp add: authentik_advance_def Inr Ready Let_def)
    qed (simp add: authentik_advance_def Inr Let_def)
  qed (simp add: authentik_advance_def Let_def)
qed


section \<open>Witnesses\<close>

text \<open>Two pages of accounts and one of groups: Ann in the admission group and in one configured root.\<close>

definition sample_ann :: ak_user where
  "sample_ann = \<lparr>ku_pk = 4, ku_username = lit ''ann'', ku_name = lit ''Ann'', ku_is_active = True, ku_groups = [lit ''staff''],
     ku_email = [], ku_uuid = lit ''19427827-69e8-4d8f-9db4-b90bd5ff364e''\<rparr>"

definition sample_bob :: ak_user where
  "sample_bob = sample_ann\<lparr>ku_pk := 9, ku_username := lit ''bob'', ku_groups := [], ku_uuid := lit ''0af8e7f1-82d8-4265-9f16-844061421ae4''\<rparr>"

definition sample_user_pages :: "ak_user ak_page list" where
  "sample_user_pages = [\<lparr>kw_next = 2, kw_count = 2, kw_results = [sample_ann]\<rparr>, \<lparr>kw_next = 0, kw_count = 2, kw_results = [sample_bob]\<rparr>]"

definition sample_group_pages :: "ak_group ak_page list" where
  "sample_group_pages = [\<lparr>kw_next = 0, kw_count = 1,
     kw_results = [\<lparr>kg_pk = lit ''staff'', kg_name = lit ''Staff'', kg_users = [4], kg_children = []\<rparr>]\<rparr>]"

text \<open>A server that answers every request with its first byte, and the reading of those bytes.\<close>

definition sample_ak_http :: "nat ak_http" where
  "sample_ak_http = \<lparr>kh_base = lit ''https://ak'', kh_get = (\<lambda>url w. (Inr (200, [of_nat w]), w + 1)),
     kh_now = (\<lambda>w. w), kh_sleep = (\<lambda>secs w. w + secs)\<rparr>"

definition sample_ak_json :: ak_json where
  "sample_ak_json = \<lparr>aj_users = (\<lambda>b. Inr (if b = [1] then sample_user_pages ! 0 else sample_user_pages ! 1)),
     aj_groups = (\<lambda>b. Inr (sample_group_pages ! 0)), aj_detail = (\<lambda>b. None), aj_tokens = (\<lambda>t. Inr [])\<rparr>"

definition sample_ak_source :: authentik_source where
  "sample_ak_source = \<lparr>ax_name = lit ''home'', ax_url = lit ''https://ak/'', ax_credential_file = lit ''f'',
     ax_admission_group_id = lit ''staff'', ax_grant_group_id = Some (lit ''staff''), ax_allowlist = [], ax_measured_days = None\<rparr>"

definition sample_ak_cycle :: "(plain, nat) ak_cycle" where
  "sample_ak_cycle = \<lparr>ac_source = sample_ak_source, ac_notifier = sample_notifier, ac_posts = [], ac_world = 0\<rparr>"

lemma sample_get: "kh_get sample_ak_http = (\<lambda>url w. (Inr (200, [of_nat w]), w + 1))"
  by (simp add: sample_ak_http_def)

lemma sample_pages:
  "ak_answer h (aj_users sample_ak_json) d q what n w = (AkReady (sample_user_pages ! (if w = 1 then 0 else 1)), w + 1)"
  "ak_answer h (aj_groups sample_ak_json) d q what n w = (AkReady (sample_group_pages ! 0), w + 1)"
  if "kh_get h = kh_get sample_ak_http" "w < 256" for w :: nat
proof -
  have "(of_nat w :: byte) = 1 \<longleftrightarrow> w = 1" using that(2) by (auto simp: word_eq_iff_unsigned unat_of_nat dest: arg_cong [of _ _ unat])
  then show "ak_answer h (aj_users sample_ak_json) d q what n w = (AkReady (sample_user_pages ! (if w = 1 then 0 else 1)), w + 1)"
    "ak_answer h (aj_groups sample_ak_json) d q what n w = (AkReady (sample_group_pages ! 0), w + 1)"
    by (auto simp: ak_answer_def that(1) sample_ak_http_def sample_ak_json_def ak_classify_def)
qed

lemma sample_round_trip:
  assumes "kh_get h = kh_get sample_ak_http"
  shows "read_all h (aj_users sample_ak_json) d q what 1 = Some (Inr sample_user_pages, 3)"
    "read_all h (aj_groups sample_ak_json) d q what 3 = Some (Inr sample_group_pages, 4)"
proof -
  show "read_all h (aj_users sample_ak_json) d q what 1 = Some (Inr sample_user_pages, 3)"
  proof -
    have r1: "ak_round h (aj_users sample_ak_json) d q what \<lparr>kr_pages = [], kr_page_num = 1, kr_backoff = 1, kr_progress = kh_now h 1\<rparr> 1
        = (Inr \<lparr>kr_pages = [sample_user_pages ! 0], kr_page_num = 2, kr_backoff = 1, kr_progress = kh_now h 2\<rparr>, 2)"
      by (simp add: ak_round_def sample_pages [OF assms] Let_def next_page_def sample_user_pages_def MAX_PAGES_def numeral_2_eq_2)
    have r2: "ak_round h (aj_users sample_ak_json) d q what \<lparr>kr_pages = [sample_user_pages ! 0], kr_page_num = 2, kr_backoff = 1, kr_progress = kh_now h 2\<rparr> 2
        = (Inl (Inr sample_user_pages), 3)"
      by (simp add: ak_round_def sample_pages [OF assms] Let_def next_page_def sample_user_pages_def)
    show ?thesis unfolding read_all_def by (subst ak_loop.simps, unfold r1 prod.case sum.case, subst ak_loop.simps, unfold r2 prod.case sum.case, rule refl)
  qed
  show "read_all h (aj_groups sample_ak_json) d q what 3 = Some (Inr sample_group_pages, 4)"
    unfolding read_all_def by (subst ak_loop.simps)
      (simp add: ak_round_def sample_pages [OF assms] Let_def next_page_def sample_group_pages_def)
qed

lemma sample_whole_read:
  "whole_read ku_pk sample_user_pages [sample_ann, sample_bob]"
  "whole_read kg_pk sample_group_pages [\<lparr>kg_pk = lit ''staff'', kg_name = lit ''Staff'', kg_users = [4], kg_children = []\<rparr>]"
  by (simp_all add: whole_read_def sample_user_pages_def sample_group_pages_def sample_ann_def sample_bob_def)

lemma sample_assembled: "\<exists>read. assemble uc sample_user_pages sample_group_pages = Inr read \<and> map fst (en_groups read) = [lit ''staff'']"
proof -
  have g: "is_guid (ku_uuid sample_ann)" "is_guid (ku_uuid sample_bob)"
    by (simp_all add: sample_ann_def sample_bob_def is_guid_def guid_field_def kb_lits utf8_def utf8_char_def utf8_len_def len_utf8_def)
  have m: "ak_groups (by_pk [sample_ann, sample_bob]) [lit ''staff'']
      [\<lparr>kg_pk = lit ''staff'', kg_name = lit ''Staff'', kg_users = [4], kg_children = []\<rparr>] ([], [])
      = Inr ([(lit ''staff'', \<lparr>dg_display_name = lit ''Staff''\<rparr>)], [(lit ''staff'', [MUser (ku_uuid sample_ann)])])"
    by (simp add: by_pk_def sample_ann_def sample_bob_def)
  have o: "ordered ku_pk sample_user_pages = Inr [sample_ann, sample_bob]"
    "ordered kg_pk sample_group_pages = Inr [\<lparr>kg_pk = lit ''staff'', kg_name = lit ''Staff'', kg_users = [4], kg_children = []\<rparr>]"
    unfolding ordered_Inr by (rule sample_whole_read)+
  have u: "user_groups_resolve [lit ''staff''] [sample_ann, sample_bob] = Inr ()"
    by (simp add: user_groups_resolve_Inr sample_ann_def sample_bob_def)
  have "\<exists>us. ak_users uc [sample_ann, sample_bob] [] = Inr us" unfolding ak_users_Inr using g by simp
  then obtain us where us: "ak_users uc [sample_ann, sample_bob] [] = Inr us" ..
  have ids: "map kg_pk [\<lparr>kg_pk = lit ''staff'', kg_name = lit ''Staff'', kg_users = [4], kg_children = []\<rparr>] = [lit ''staff'']" by simp
  show ?thesis unfolding assemble_def o us u m ids Let_def rbind_def sum.case prod.case by simp
qed

theorem authentik_snapshot_is_whole_witness:
  "\<exists>snap cy'. authentik_advance sample_alarms block_tables (\<lambda>_. []) sample_ak_json (\<lambda>_. Inr sample_ak_http) (Inr (Some (lit ''k''))) sample_ak_cycle
      = Some (Inr (Concluded_read (Complete snap)), cy')
    \<and> (\<exists>users (urows :: ak_user list). whole_read ku_pk users urows \<and> (\<forall>u \<in> set urows. is_guid (ku_uuid u)))"
proof -
  let ?h = "ak_client_new (lit ''https://ak/'') sample_ak_http"
  obtain read where a: "assemble block_tables sample_user_pages sample_group_pages = Inr read" "map fst (en_groups read) = [lit ''staff'']"
    using sample_assembled [of block_tables] by (elim exE conjE)
  obtain snap where n: "narrow (ak_roots sample_ak_source) read = Some snap" using narrow_Some by blast
  have kg: "kh_get ?h = kh_get sample_ak_http" by (simp add: ak_client_new_def)
  have m: "measure_expiry ?h (aj_tokens sample_ak_json) now 0 = (None, 1)" for now
    by (simp add: measure_expiry_def kg sample_get sample_ak_json_def measured_days_def read_expiry_def bind_eq_None_conv)
  have rd: "ak_read ?h sample_ak_json 1 = Some (Inr (sample_user_pages, sample_group_pages), 4)"
    unfolding ak_read_Inr using sample_round_trip [OF kg] by blast
  have c: "complete_snapshot read (ak_roots sample_ak_source) = Inr (Some snap)"
  proof -
    have "map_of (en_groups read) (lit ''staff'') \<noteq> None" using a(2) by (auto simp: map_of_eq_None_iff)
    then show ?thesis using n by (simp add: complete_snapshot_def ak_roots_def sample_ak_source_def Roots_new_def)
  qed
  obtain cy' where r: "authentik_advance sample_alarms block_tables (\<lambda>_. []) sample_ak_json (\<lambda>_. Inr sample_ak_http) (Inr (Some (lit ''k''))) sample_ak_cycle
      = Some (Inr (Concluded_read (Complete snap)), cy')"
    using m rd c a(1) by (auto simp: authentik_advance_def credential_or_idle_def sample_ak_cycle_def sample_ak_source_def [of]
        ak_measured_def ak_settled_def ak_concluded_def map_err_def split_beta Let_def)
  from authentik_snapshot_is_whole [OF r] obtain users and urows :: "ak_user list" where
    "whole_read ku_pk users urows" "\<forall>u \<in> set urows. is_guid (ku_uuid u)" unfolding resolves_def by (elim exE conjE) blast
  then show ?thesis using r by (intro exI conjI)
qed

theorem authentik_read_ends_witness:
  "\<exists>r. authentik_advance sample_alarms block_tables (\<lambda>_. []) sample_ak_json (\<lambda>_. Inr sample_ak_http) (Inr (Some (lit ''k''))) sample_ak_cycle = Some r"
  by (rule authentik_read_ends) (simp add: ak_clock_runs_def sample_ak_http_def)

end
