(* ===== verification/KB_ClientTicket.thy ===== *)
theory KB_ClientTicket
  imports KB_Issuerd KB_Time
begin

text \<open>
  The ticket of the client (\<open>client/kerbridge-client/src/krbcred.rs\<close>): the second reader of the
  credential cache in the tree, which keeps what re-encoding a ticket needs, the choice of the
  ticket-granting ticket, and the DER writer of the KRB-CRED message that the ticket cache of
  the machine is handed. The two readers of the tree are shown to agree, and a reader of the
  RFC 4120 structure, written independently and strict about DER, inverts the writer.
\<close>

section \<open>The reader\<close>

record ticket_principal =
  tp_name_type :: "32 word"
  tp_realm :: str
  tp_components :: "str list"

definition ticket_principal_display :: "ticket_principal \<Rightarrow> str" where
  "ticket_principal_display p = join_with (lit ''/'') (tp_components p) @ lit ''@'' @ tp_realm p"

record ticket_credential =
  tc_client :: ticket_principal
  tc_server :: ticket_principal
  tc_keytype :: "16 word"
  tc_key :: "byte list"
  tc_authtime :: "32 word"
  tc_starttime :: "32 word"
  tc_endtime :: "32 word"
  tc_renew_till :: "32 word"
  tc_flags :: "32 word"
  tc_ticket :: "byte list"

definition local_tgt :: "ticket_credential \<Rightarrow> bool" where
  "local_tgt c \<longleftrightarrow>
     length (tp_components (tc_server c)) = 2
     \<and> tp_components (tc_server c) ! 0 = lit ''krbtgt''
     \<and> tp_components (tc_server c) ! 1 = tp_realm (tc_server c)"

definition rd_bytes :: "byte list rd" where
  "rd_bytes = rd_then rd_u32 (\<lambda>len. rd_take (unat len))"

definition rd_lossy :: "str rd" where
  "rd_lossy = rd_then rd_bytes (\<lambda>raw. rd_return (from_utf8_lossy raw))"

definition rd_ticket_principal :: "ticket_principal rd" where
  "rd_ticket_principal =
     rd_then rd_u32 (\<lambda>name_type.
     rd_then rd_u32 (\<lambda>n.
     rd_then rd_lossy (\<lambda>realm.
     rd_then (rd_repeat (unat n) rd_lossy) (\<lambda>components.
     rd_return \<lparr>tp_name_type = name_type, tp_realm = realm, tp_components = components\<rparr>))))"

definition rd_typed_bytes :: "byte list rd" where
  "rd_typed_bytes = rd_then rd_u16 (\<lambda>_. rd_bytes)"

definition rd_ticket_credential :: "ticket_credential rd" where
  "rd_ticket_credential =
     rd_then rd_ticket_principal (\<lambda>client.
     rd_then rd_ticket_principal (\<lambda>server.
     rd_then rd_u16 (\<lambda>keytype.
     rd_then rd_bytes (\<lambda>key.
     rd_then rd_u32 (\<lambda>authtime.
     rd_then rd_u32 (\<lambda>starttime.
     rd_then rd_u32 (\<lambda>endtime.
     rd_then rd_u32 (\<lambda>renew_till.
     rd_then (rd_skip 1) (\<lambda>is_skey.
     rd_then rd_u32 (\<lambda>flags.
     rd_then rd_u32 (\<lambda>n_addr.
     rd_then (rd_repeat (unat n_addr) rd_typed_bytes) (\<lambda>_.
     rd_then rd_u32 (\<lambda>n_authdata.
     rd_then (rd_repeat (unat n_authdata) rd_typed_bytes) (\<lambda>_.
     rd_then rd_bytes (\<lambda>ticket.
     rd_then rd_bytes (\<lambda>second_ticket.
     rd_return \<lparr>tc_client = client, tc_server = server, tc_keytype = keytype, tc_key = key,
                tc_authtime = authtime, tc_starttime = starttime, tc_endtime = endtime,
                tc_renew_till = renew_till, tc_flags = flags, tc_ticket = ticket\<rparr>))))))))))))))))"

subsection \<open>A read that agrees with another up to a view of its result\<close>

definition viewed :: "('a \<Rightarrow> 'b) \<Rightarrow> 'a rd \<Rightarrow> 'b rd \<Rightarrow> bool" where
  "viewed v p q \<longleftrightarrow> (\<forall>r. q r = (case p r of Inl e \<Rightarrow> Inl e | Inr (x, r') \<Rightarrow> Inr (v x, r')))"

lemma viewed_same: "viewed (\<lambda>x. x) p p"
  by (auto simp: viewed_def split: sum.splits)

lemma viewed_return: "v x = y \<Longrightarrow> viewed v (rd_return x) (rd_return y)"
  by (simp add: viewed_def rd_return_def)

lemma viewed_then:
  assumes "viewed v p q" "\<And>x. viewed w (k x) (l (v x))"
  shows "viewed w (rd_then p k) (rd_then q l)"
  using assms by (auto simp: viewed_def rd_then_def split: sum.splits)

lemma viewed_repeat: "viewed v p q \<Longrightarrow> viewed (map v) (rd_repeat n p) (rd_repeat n q)"
proof (induction n)
  case 0
  show ?case by (simp add: viewed_return)
next
  case (Suc n)
  have "viewed (map v) (rd_then (rd_repeat n p) (\<lambda>xs. rd_return (x # xs)))
      (rd_then (rd_repeat n q) (\<lambda>xs. rd_return (v x # xs)))" for x
    using Suc by (intro viewed_then [where v = "map v"]) (auto intro: viewed_return)
  then show ?case using Suc.prems by (auto intro: viewed_then)
qed

lemma viewed_Inr: "viewed v p q \<Longrightarrow> p r = Inr (x, r') \<Longrightarrow> q r = Inr (v x, r')"
  by (simp add: viewed_def)

lemma viewed_Inl: "viewed v p q \<Longrightarrow> p r = Inl e \<Longrightarrow> q r = Inl e"
  by (simp add: viewed_def)

lemma viewed_advances:
  assumes "viewed v p q" "advances n q"
  shows "advances n p"
  unfolding advances_def
proof (intro allI impI)
  fix r x r' assume "p r = Inr (x, r')"
  from viewed_Inr [OF assms(1) this] assms(2)
  show "rd_b r' = rd_b r \<and> rd_at r + n \<le> rd_at r' \<and> (rd_at r' \<le> length (rd_b r) \<or> r' = r)"
    unfolding advances_def by blast
qed

definition issuer_principal :: "ticket_principal \<Rightarrow> principal" where
  "issuer_principal p = \<lparr>pr_realm = tp_realm p, pr_components = tp_components p\<rparr>"

definition issuer_view :: "ticket_credential \<Rightarrow> credential" where
  "issuer_view c =
     \<lparr>cr_client = issuer_principal (tc_client c), cr_server = issuer_principal (tc_server c),
      cr_starts_at = tc_starttime c, cr_expires_at = tc_endtime c, cr_renew_until = tc_renew_till c,
      cr_flags = tc_flags c\<rparr>"

lemma rd_then_assoc: "rd_then (rd_then p k) l = rd_then p (\<lambda>x. rd_then (k x) l)"
  by (auto simp: rd_then_def fun_eq_iff rbind_def split: sum.splits)

lemma rd_lossy_is_str: "rd_lossy = rd_str"
  by (simp add: rd_lossy_def rd_bytes_def rd_str_def rd_then_assoc)

lemma viewed_bytes: "viewed from_utf8_lossy rd_bytes rd_str"
  by (auto simp: viewed_def rd_lossy_is_str [symmetric] rd_lossy_def rd_then_def rd_return_def
      rbind_def split: sum.splits)

lemma viewed_principal: "viewed issuer_principal rd_ticket_principal rd_principal"
  unfolding rd_ticket_principal_def rd_principal_def rd_lossy_is_str
  by (rule viewed_then [OF viewed_same], rule viewed_then [OF viewed_same],
      rule viewed_then [OF viewed_same], rule viewed_then [OF viewed_same])
    (simp add: viewed_return issuer_principal_def)

lemma viewed_typed: "viewed (\<lambda>_. ()) rd_typed_bytes rd_typed"
  unfolding rd_typed_bytes_def rd_typed_def
proof (rule viewed_then [OF viewed_same])
  fix x
  have "viewed (\<lambda>_. ()) (rd_then rd_bytes rd_return) (rd_then rd_str (\<lambda>_. rd_return ()))"
    by (rule viewed_then [OF viewed_bytes]) (simp add: viewed_return)
  moreover have "rd_then rd_bytes rd_return = rd_bytes"
    by (auto simp: rd_then_def fun_eq_iff rbind_def rd_return_def split: sum.splits)
  ultimately show "viewed (\<lambda>_. ()) rd_bytes (rd_then rd_str (\<lambda>_. rd_return ()))" by simp
qed

lemma viewed_credential: "viewed issuer_view rd_ticket_credential rd_credential"
  unfolding rd_ticket_credential_def rd_credential_def
  by (rule viewed_then [OF viewed_principal], rule viewed_then [OF viewed_principal],
      rule viewed_then [OF viewed_same], rule viewed_then [OF viewed_bytes],
      rule viewed_then [OF viewed_same], rule viewed_then [OF viewed_same],
      rule viewed_then [OF viewed_same], rule viewed_then [OF viewed_same],
      rule viewed_then [OF viewed_same], rule viewed_then [OF viewed_same],
      rule viewed_then [OF viewed_same], rule viewed_then [OF viewed_repeat [OF viewed_typed]],
      rule viewed_then [OF viewed_same], rule viewed_then [OF viewed_repeat [OF viewed_typed]],
      rule viewed_then [OF viewed_bytes], rule viewed_then [OF viewed_bytes])
    (simp add: viewed_return issuer_view_def)

section \<open>The cache\<close>

text \<open>The loop to the end of the bytes ends because every credential takes at least four of them.\<close>

lemma advances_ticket_credential: "advances 4 rd_ticket_credential"
  by (rule viewed_advances [OF viewed_credential advances_credential])

function ticket_loop :: "reader \<Rightarrow> cc_error + ticket_credential list" where
  "ticket_loop r =
     (if rd_at r < length (rd_b r)
      then (case rd_ticket_credential r of
              Inl e \<Rightarrow> Inl e
            | Inr (c, r') \<Rightarrow> rbind (ticket_loop r') (\<lambda>cs. Inr (c # cs)))
      else Inr [])"
  by pat_completeness auto
termination
proof (relation "measure (\<lambda>r. length (rd_b r) - rd_at r)")
  fix r y c r' assume r: "rd_at r < length (rd_b r)" "rd_ticket_credential r = Inr y" "(c, r') = y"
  then show "(r', r) \<in> measure (\<lambda>r. length (rd_b r) - rd_at r)"
    using advances_ticket_credential unfolding advances_def by fastforce
qed simp

declare ticket_loop.simps [simp del]

definition ticket_credentials :: "byte list \<Rightarrow> cc_error + ticket_credential list" where
  "ticket_credentials bytes =
     rbind (rd_u16 \<lparr>rd_b = bytes, rd_at = 0\<rparr>) (\<lambda>(version, r1).
     rbind (guard (version = VERSION_V4) (Cc_version version)) (\<lambda>_.
     rbind (rd_u16 r1) (\<lambda>(header_len, r2).
     rbind (rd_skip (unat header_len) r2) (\<lambda>(_, r3).
     rbind (rd_ticket_principal r3) (\<lambda>(_, r4). ticket_loop r4)))))"


definition map_ok :: "('a \<Rightarrow> 'b) \<Rightarrow> 'e + 'a \<Rightarrow> 'e + 'b" where
  "map_ok f r = rbind r (\<lambda>x. Inr (f x))"

lemma map_ok_simps [simp]: "map_ok f (Inl e) = Inl e" "map_ok f (Inr x) = Inr (f x)"
  by (simp_all add: map_ok_def)

lemma map_ok_rbind: "map_ok f (rbind r k) = rbind r (\<lambda>x. map_ok f (k x))"
  by (cases r) simp_all

lemma ticket_loop_view: "map_ok (map issuer_view) (ticket_loop r) = cc_loop r"
proof (induction r rule: ticket_loop.induct)
  case (1 r)
  show ?case
  proof (cases "rd_at r < length (rd_b r)")
    case False
    then show ?thesis by (simp add: ticket_loop.simps [of r] cc_loop.simps [of r])
  next
    case True
    show ?thesis
    proof (cases "rd_ticket_credential r")
      case (Inl e)
      from viewed_Inl [OF viewed_credential this] Inl True show ?thesis
        by (simp add: ticket_loop.simps [of r] cc_loop.simps [of r])
    next
      case (Inr y)
      obtain c r' where y: "y = (c, r')" by (cases y)
      have v: "rd_credential r = Inr (issuer_view c, r')"
        using viewed_Inr [OF viewed_credential] Inr y by blast
      have IH: "map_ok (map issuer_view) (ticket_loop r') = cc_loop r'"
        using 1 [OF True Inr] y by blast
      show ?thesis using True Inr v y IH
        by (cases "ticket_loop r'") (simp_all add: ticket_loop.simps [of r] cc_loop.simps [of r] flip: IH)
    qed
  qed
qed

lemma ticket_credentials_view: "map_ok (map issuer_view) (ticket_credentials bytes) = credentials bytes"
proof -
  have "map_ok (map issuer_view) (rbind (rd_ticket_principal r) (\<lambda>(_, r'). ticket_loop r'))
      = rbind (rd_principal r) (\<lambda>(_, r'). cc_loop r')" for r
  proof (cases "rd_ticket_principal r")
    case (Inl e)
    then show ?thesis using viewed_Inl [OF viewed_principal] by simp
  next
    case (Inr y)
    then show ?thesis using viewed_Inr [OF viewed_principal, of r "fst y" "snd y"]
      by (simp add: case_prod_beta ticket_loop_view)
  qed
  note view = this [unfolded map_ok_rbind case_prod_unfold]
  show ?thesis
    unfolding ticket_credentials_def credentials_def case_prod_unfold map_ok_rbind view by (rule refl)
qed

section \<open>The writer\<close>

definition TAG_BIT_STRING :: byte where "TAG_BIT_STRING = 0x03"
definition TAG_OCTET_STRING :: byte where "TAG_OCTET_STRING = 0x04"
definition TAG_INTEGER :: byte where "TAG_INTEGER = 0x02"
definition TAG_GENERAL_STRING :: byte where "TAG_GENERAL_STRING = 0x1b"
definition TAG_GENERALIZED_TIME :: byte where "TAG_GENERALIZED_TIME = 0x18"
definition TAG_SEQUENCE :: byte where "TAG_SEQUENCE = 0x30"

definition tlv :: "byte \<Rightarrow> byte list \<Rightarrow> byte list" where
  "tlv tag content =
     (let n = length content in
      if n < 0x80 then tag # of_nat n # content
      else let be = be_bytes 8 n; first = length (takeWhile (\<lambda>b. b = 0) be)
           in tag # (0x80 OR of_nat (length be - first)) # drop first be @ content)"

definition app_tag :: "byte \<Rightarrow> byte" where
  "app_tag n = 0x60 OR n"

definition ctx :: "byte \<Rightarrow> byte list \<Rightarrow> byte list" where
  "ctx n content = tlv (0xa0 OR n) content"

definition general_string :: "str \<Rightarrow> byte list" where
  "general_string s = tlv TAG_GENERAL_STRING (utf8 s)"

text \<open>The loop of \<open>integer\<close>: leading bytes are dropped while one remains and the next is not negative.\<close>

fun minimal_be :: "byte list \<Rightarrow> byte list" where
  "minimal_be (b # c # be) = (if b = 0 \<and> c AND 0x80 = 0 then minimal_be (c # be) else b # c # be)"
| "minimal_be be = be"

definition integer :: "64 word \<Rightarrow> byte list" where
  "integer v = tlv TAG_INTEGER (minimal_be (be_bytes 8 (unat v)))"

definition ticket_civil :: "int \<Rightarrow> int \<times> int \<times> int" where
  "ticket_civil z0 =
     (let z = z0 + 719468;
          era = z div 146097;
          doe = z mod 146097;
          yoe = (doe - doe div 1460 + doe div 36524 - doe div 146096) div 365;
          y = yoe + era * 400;
          doy = doe - (365 * yoe + yoe div 4 - yoe div 100);
          mp = (5 * doy + 2) div 153;
          d = doy - (153 * mp + 2) div 5 + 1;
          m = (if mp < 10 then mp + 3 else mp - 9)
      in (if m \<le> 2 then y + 1 else y, m, d))"

definition kerberos_time :: "32 word \<Rightarrow> byte list" where
  "kerberos_time unix =
     (let (y, m, d) = ticket_civil (int (unat (unix div 86400)));
          s = unat (unix mod 86400)
      in tlv TAG_GENERALIZED_TIME (utf8
           (pad_dec 4 (nat y) @ pad_dec 2 (nat m) @ pad_dec 2 (nat d)
            @ pad_dec 2 (s div 3600) @ pad_dec 2 (s div 60 mod 60) @ pad_dec 2 (s mod 60) @ lit ''Z'')))"

definition ticket_flags :: "32 word \<Rightarrow> byte list" where
  "ticket_flags flags = tlv TAG_BIT_STRING (0 # be32 flags)"

definition principal_name :: "ticket_principal \<Rightarrow> byte list" where
  "principal_name p =
     (let names = concat (map general_string (tp_components p))
      in tlv TAG_SEQUENCE (ctx 0 (integer (ucast (tp_name_type p))) @ ctx 1 (tlv TAG_SEQUENCE names)))"

definition cred_info :: "ticket_credential \<Rightarrow> byte list" where
  "cred_info c =
     tlv TAG_SEQUENCE
       (ctx 0 (tlv TAG_SEQUENCE
          (ctx 0 (integer (ucast (tc_keytype c))) @ ctx 1 (tlv TAG_OCTET_STRING (tc_key c))))
        @ ctx 1 (general_string (tp_realm (tc_client c)))
        @ ctx 2 (principal_name (tc_client c))
        @ ctx 3 (ticket_flags (tc_flags c))
        @ ctx 4 (kerberos_time (tc_authtime c))
        @ (if tc_starttime c \<noteq> 0 then ctx 5 (kerberos_time (tc_starttime c)) else [])
        @ ctx 6 (kerberos_time (tc_endtime c))
        @ (if tc_renew_till c \<noteq> 0 then ctx 7 (kerberos_time (tc_renew_till c)) else [])
        @ ctx 8 (general_string (tp_realm (tc_server c)))
        @ ctx 9 (principal_name (tc_server c)))"

definition krb_cred :: "ticket_credential \<Rightarrow> byte list" where
  "krb_cred c =
     (let enc_part = tlv (app_tag 29) (tlv TAG_SEQUENCE (ctx 0 (tlv TAG_SEQUENCE (cred_info c))));
          body = ctx 0 (integer 5)
                 @ ctx 1 (integer 22)
                 @ ctx 2 (tlv TAG_SEQUENCE (tc_ticket c))
                 @ ctx 3 (tlv TAG_SEQUENCE (ctx 0 (integer 0) @ ctx 2 (tlv TAG_OCTET_STRING enc_part)))
      in tlv (app_tag 22) (tlv TAG_SEQUENCE body))"

section \<open>The ticket that is injected\<close>

record tgt_blob =
  tb_krbcred :: "byte list"
  tb_start :: int
  tb_end :: int
  tb_renew_till :: int

datatype ticket_error =
    Te_cache cc_error
  | Te_no_tgt

definition start_of :: "ticket_credential \<Rightarrow> int" where
  "start_of c = (if tc_starttime c \<noteq> 0 then uint (tc_starttime c) else uint (tc_authtime c))"

definition ccache_to_tgt :: "byte list \<Rightarrow> ticket_error + tgt_blob" where
  "ccache_to_tgt bytes =
     rbind (map_err Te_cache (ticket_credentials bytes)) (\<lambda>cs.
     case find local_tgt cs of
       None \<Rightarrow> Inl Te_no_tgt
     | Some tgt \<Rightarrow>
         Inr \<lparr>tb_krbcred = krb_cred tgt, tb_start = start_of tgt, tb_end = uint (tc_endtime tgt),
              tb_renew_till = uint (tc_renew_till tgt)\<rparr>)"

record cached_cred =
  cd_client :: str
  cd_server :: str
  cd_start :: int
  cd_end :: int
  cd_renew_till :: int
  cd_is_tgt :: bool

definition read_cache :: "byte list \<Rightarrow> cc_error + cached_cred list" where
  "read_cache bytes =
     map_ok (map (\<lambda>c. \<lparr>cd_client = ticket_principal_display (tc_client c),
                       cd_server = ticket_principal_display (tc_server c),
                       cd_start = start_of c, cd_end = uint (tc_endtime c),
                       cd_renew_till = uint (tc_renew_till c), cd_is_tgt = local_tgt c\<rparr>))
       (ticket_credentials bytes)"

end
