(* ===== verification/KB_TicketSound.thy ===== *)
theory KB_TicketSound
  imports KB_ClientTicket KB_IssuerdSound
begin

text \<open>
  A reader of the KRB-CRED structure of RFC 4120 5.8.1, strict about DER (definite minimal
  lengths, minimal non-negative integers, every field in its place and nothing after it), and
  the proof that it gives back the credential that the client's writer was handed. With the
  agreement of the two readers of the cache this says that what \<open>issuerd\<close> validated is what the
  client injects.
\<close>

section \<open>A strict reader of DER\<close>

definition der_split :: "byte \<Rightarrow> nat \<Rightarrow> byte list \<Rightarrow> (byte \<times> byte list \<times> byte list) option" where
  "der_split t n bs = (if n \<le> length bs then Some (t, take n bs, drop n bs) else None)"

fun der_tlv :: "byte list \<Rightarrow> (byte \<times> byte list \<times> byte list) option" where
  "der_tlv (t # l # bs) =
     (if unat l < 128 then der_split t (unat l) bs
      else let k = unat l - 128; len = take k bs
           in if k = 0 \<or> length bs < k \<or> hd len = 0 \<or> be_val len < 128 then None
              else der_split t (be_val len) (drop k bs))"
| "der_tlv bs = None"

definition der_field :: "byte \<Rightarrow> (byte list \<Rightarrow> 'a option) \<Rightarrow> byte list \<Rightarrow> ('a \<times> byte list) option" where
  "der_field tag p bs =
     Option.bind (der_tlv bs) (\<lambda>(t, c, rest).
       if t = tag then map_option (\<lambda>x. (x, rest)) (p c) else None)"

definition der_end :: "'a \<Rightarrow> byte list \<Rightarrow> 'a option" where
  "der_end x bs = (if bs = [] then Some x else None)"

definition der_only :: "byte \<Rightarrow> (byte list \<Rightarrow> 'a option) \<Rightarrow> byte list \<Rightarrow> 'a option" where
  "der_only tag p bs = Option.bind (der_field tag p bs) (\<lambda>(x, rest). der_end x rest)"

definition der_opt :: "byte \<Rightarrow> (byte list \<Rightarrow> 'a option) \<Rightarrow> byte list \<Rightarrow> ('a option \<times> byte list) option" where
  "der_opt tag p bs =
     (if bs \<noteq> [] \<and> hd bs = tag then map_option (\<lambda>(x, rest). (Some x, rest)) (der_field tag p bs)
      else Some (None, bs))"

lemma der_tlv_shorter: "der_tlv bs = Some (t, c, rest) \<Longrightarrow> length rest < length bs"
  by (cases bs rule: der_tlv.cases) (auto simp: der_split_def Let_def split: if_splits)

function der_all :: "byte \<Rightarrow> (byte list \<Rightarrow> 'a option) \<Rightarrow> byte list \<Rightarrow> 'a list option" where
  "der_all tag p bs =
     (if bs = [] then Some []
      else case der_field tag p bs of
             None \<Rightarrow> None
           | Some (x, rest) \<Rightarrow> map_option ((#) x) (der_all tag p rest))"
  by pat_completeness auto
termination
proof (relation "measure (\<lambda>(_, _, bs). length bs)")
  fix tag :: byte and p :: "byte list \<Rightarrow> 'a option" and bs y x rest
  assume "der_field tag p bs = Some y" "(x, rest) = y"
  then obtain t c where "der_tlv bs = Some (t, c, rest)"
    by (auto simp: der_field_def split: bind_splits if_splits)
  then show "((tag, p, rest), tag, p, bs) \<in> measure (\<lambda>(_, _, bs). length bs)"
    using der_tlv_shorter by simp
qed simp

declare der_all.simps [simp del]

definition der_nat :: "byte list \<Rightarrow> nat option" where
  "der_nat c =
     (if c = [] \<or> 128 \<le> unat (hd c) \<or> (2 \<le> length c \<and> hd c = 0 \<and> unat (c ! 1) < 128) then None
      else Some (be_val c))"

definition der_word :: "byte list \<Rightarrow> 'a::len word option" where
  "der_word c = Option.bind (der_nat c) (\<lambda>n. if n < 2 ^ LENGTH('a) then Some (of_nat n) else None)"

definition der_flags :: "byte list \<Rightarrow> 32 word option" where
  "der_flags c = (if length c = 5 \<and> hd c = 0 then Some (from_be_bytes (tl c)) else None)"

text \<open>GeneralizedTime without fraction and in UTC is the RFC 3339 stamp without its separators.\<close>

definition der_time :: "byte list \<Rightarrow> 32 word option" where
  "der_time c =
     (let part = (\<lambda>i n. map unat (take n (drop i c))) in
      if length c = 15 \<and> list_all is_ascii_digit (part 0 14) \<and> c ! 14 = 90
      then map_option of_nat
             (epoch_from_rfc3339 (stamp (part 0 4) (part 4 2) (part 6 2) (part 8 2) (part 10 2) (part 12 2)))
      else None)"

section \<open>The structure of RFC 4120\<close>

definition der_principal :: "str \<Rightarrow> byte list \<Rightarrow> ticket_principal option" where
  "der_principal realm bs =
     Option.bind (der_field 0xa0 (der_only 0x02 der_word) bs) (\<lambda>(nt, r1).
     Option.bind (der_field 0xa1 (der_only 0x30 (der_all 0x1b from_utf8)) r1) (\<lambda>(names, r2).
     der_end \<lparr>tp_name_type = nt, tp_realm = realm, tp_components = names\<rparr> r2))"

definition der_key :: "byte list \<Rightarrow> (16 word \<times> byte list) option" where
  "der_key bs =
     Option.bind (der_field 0xa0 (der_only 0x02 der_word) bs) (\<lambda>(kt, r1).
     Option.bind (der_field 0xa1 (der_only 0x04 Some) r1) (\<lambda>(k, r2). der_end (kt, k) r2))"

text \<open>An optional time that is present is not the zero that stands for an absent one.\<close>

definition der_maybe :: "32 word option \<Rightarrow> 32 word option" where
  "der_maybe t = (case t of None \<Rightarrow> Some 0 | Some w \<Rightarrow> if w = 0 then None else Some w)"

definition der_cred_info :: "byte list \<Rightarrow> byte list \<Rightarrow> ticket_credential option" where
  "der_cred_info ticket bs =
     Option.bind (der_field 0xa0 (der_only 0x30 der_key) bs) (\<lambda>((kt, k), r0).
     Option.bind (der_field 0xa1 (der_only 0x1b from_utf8) r0) (\<lambda>(prealm, r1).
     Option.bind (der_field 0xa2 (der_only 0x30 (der_principal prealm)) r1) (\<lambda>(client, r2).
     Option.bind (der_field 0xa3 (der_only 0x03 der_flags) r2) (\<lambda>(fl, r3).
     Option.bind (der_field 0xa4 (der_only 0x18 der_time) r3) (\<lambda>(auth, r4).
     Option.bind (der_opt 0xa5 (der_only 0x18 der_time) r4) (\<lambda>(st, r5).
     Option.bind (der_maybe st) (\<lambda>start.
     Option.bind (der_field 0xa6 (der_only 0x18 der_time) r5) (\<lambda>(en, r6).
     Option.bind (der_opt 0xa7 (der_only 0x18 der_time) r6) (\<lambda>(rt, r7).
     Option.bind (der_maybe rt) (\<lambda>renew.
     Option.bind (der_field 0xa8 (der_only 0x1b from_utf8) r7) (\<lambda>(srealm, r8).
     Option.bind (der_field 0xa9 (der_only 0x30 (der_principal srealm)) r8) (\<lambda>(server, r9).
     der_end \<lparr>tc_client = client, tc_server = server, tc_keytype = kt, tc_key = k, tc_authtime = auth,
              tc_starttime = start, tc_endtime = en, tc_renew_till = renew, tc_flags = fl,
              tc_ticket = ticket\<rparr> r9))))))))))))"

definition der_enc_part :: "byte list \<Rightarrow> byte list \<Rightarrow> ticket_credential option" where
  "der_enc_part ticket bs =
     Option.bind (der_field 0xa0 (der_only 0x02 der_nat) bs) (\<lambda>(etype, r0).
     if etype \<noteq> 0 then None
     else
       Option.bind (der_field 0xa2
         (der_only 0x04 (der_only 0x7d (der_only 0x30 (der_only 0xa0 (der_only 0x30
            (der_only 0x30 (der_cred_info ticket))))))) r0) (\<lambda>(c, r1). der_end c r1))"

definition der_krb_cred_body :: "byte list \<Rightarrow> ticket_credential option" where
  "der_krb_cred_body bs =
     Option.bind (der_field 0xa0 (der_only 0x02 der_nat) bs) (\<lambda>(pvno, r0).
     Option.bind (der_field 0xa1 (der_only 0x02 der_nat) r0) (\<lambda>(msg_type, r1).
     Option.bind (der_field 0xa2 (der_only 0x30 Some) r1) (\<lambda>(ticket, r2).
     Option.bind (der_field 0xa3 (der_only 0x30 (der_enc_part ticket)) r2) (\<lambda>(c, r3).
     if pvno = 5 \<and> msg_type = 22 then der_end c r3 else None))))"

definition der_krb_cred :: "byte list \<Rightarrow> ticket_credential option" where
  "der_krb_cred = der_only 0x76 (der_only 0x30 der_krb_cred_body)"

section \<open>Reading inverts writing\<close>

definition fits :: "byte list \<Rightarrow> bool" where
  "fits bs \<longleftrightarrow> length bs < 2 ^ 64"

lemma be_val_zeros: "be_val (dropWhile (\<lambda>b. b = 0) bs) = be_val bs"
  by (induction bs) (simp_all add: be_val_def)

lemma unat_long_form: "k \<le> 8 \<Longrightarrow> unat (0x80 OR of_nat k :: byte) = 128 + k"
proof -
  assume "k \<le> 8"
  then have "k \<in> {0, 1, 2, 3, 4, 5, 6, 7, 8}" by auto
  then show ?thesis by auto
qed

lemma der_tlv_tlv:
  assumes "fits c"
  shows "der_tlv (tlv tag c @ rest) = Some (tag, c, rest)"
proof (cases "length c < 128")
  case True
  then show ?thesis by (simp add: tlv_def der_split_def unat_byte)
next
  case False
  define len where "len = dropWhile (\<lambda>b. b = 0) (be_bytes 8 (length c))"
  have val: "be_val len = length c"
    using assms by (simp add: len_def be_val_zeros be_val_be_bytes fits_def)
  have ne: "len \<noteq> []"
    using val False by (auto simp: be_val_def)
  have nz: "hd len \<noteq> 0"
    using ne hd_dropWhile unfolding len_def by blast
  have len8: "length len \<le> 8"
    using length_dropWhile_le [of "\<lambda>b. b = 0" "be_bytes 8 (length c)"] by (simp add: len_def)
  have k: "length (be_bytes 8 (length c)) - length (takeWhile (\<lambda>b. b = 0) (be_bytes 8 (length c))) = length len"
    by (simp add: len_def dropWhile_eq_drop)
  have "tlv tag c @ rest = tag # (0x80 OR of_nat (length len)) # len @ c @ rest"
    using False by (simp only: tlv_def Let_def k if_False append_Cons append_assoc)
      (simp add: len_def dropWhile_eq_drop)
  then show ?thesis using ne nz len8 val False by (simp add: unat_long_form der_split_def Let_def)
qed

lemma fits_tlv: "fits (tlv tag c) \<Longrightarrow> fits c"
  by (auto simp: fits_def tlv_def Let_def split: if_splits)

lemma fits_append: "fits (a @ b) \<Longrightarrow> fits a" "fits (a @ b) \<Longrightarrow> fits b"
  by (auto simp: fits_def)

lemma der_field_tlv:
  "p c = Some x \<Longrightarrow> fits c \<Longrightarrow> der_field tag p (tlv tag c @ rest) = Some (x, rest)"
  by (simp add: der_field_def der_tlv_tlv)

lemma der_only_tlv: "p c = Some x \<Longrightarrow> fits c \<Longrightarrow> der_only tag p (tlv tag c) = Some x"
  using der_field_tlv [of p c x tag "[]"] by (simp add: der_only_def der_end_def)

lemma tlv_hd: "tlv tag c \<noteq> []" "hd (tlv tag c @ rest) = tag"
  by (simp_all add: tlv_def Let_def)

lemma der_opt_tlv:
  "p c = Some x \<Longrightarrow> fits c \<Longrightarrow> der_opt tag p (tlv tag c @ rest) = Some (Some x, rest)"
  "tag \<noteq> tag' \<Longrightarrow> der_opt tag p (tlv tag' c @ rest) = Some (None, tlv tag' c @ rest)"
  by (simp_all add: der_opt_def tlv_hd der_field_tlv)

lemma der_inner:
  "der_only t q c = Some x \<Longrightarrow> fits c \<Longrightarrow> der_field tag (der_only t q) (tlv tag c @ rest) = Some (x, rest)"
  "der_only t q c = Some x \<Longrightarrow> fits c \<Longrightarrow> der_field tag (der_only t q) (tlv tag c) = Some (x, [])"
  "der_only t q c = Some x \<Longrightarrow> fits c
    \<Longrightarrow> der_opt tag (der_only t q) (tlv tag c @ rest) = Some (Some x, rest)"
  "der_only t q c = Some x \<Longrightarrow> fits c \<Longrightarrow> der_only tag (der_only t q) (tlv tag c) = Some x"
  using der_field_tlv [of "der_only t q" c x tag "[]"]
  by (simp_all add: der_field_tlv der_opt_tlv(1) der_only_tlv)

lemma der_raw: "fits c \<Longrightarrow> der_only tag Some (tlv tag c) = Some c"
  by (rule der_only_tlv [OF refl])

lemma high_bit: "(b :: byte) AND 0x80 = 0 \<longleftrightarrow> unat b < 128"
proof -
  have "(b AND 0x80 = 0) \<longleftrightarrow> \<not> bit b 7"
    using and_exp_eq_0_iff_not_bit [of b 7] by simp
  also have "bit b 7 = bit (unat b) 7"
    by (simp add: bit_unsigned_iff)
  also have "bit (unat b) 7 = odd (unat b div 128)"
    by (simp add: bit_iff_odd)
  also have "(\<not> odd (unat b div 128)) \<longleftrightarrow> unat b < 128"
  proof -
    have "unat b div 128 = 0 \<or> unat b div 128 = 1" using unat_byte_lt [of b] by linarith
    then show ?thesis by (auto simp: div_eq_0_iff)
  qed
  finally show ?thesis by simp
qed

lemma minimal_be_ok:
  "bs \<noteq> [] \<Longrightarrow> unat (hd bs) < 128 \<Longrightarrow> der_nat (minimal_be bs) = Some (be_val bs)"
proof (induction bs rule: minimal_be.induct)
  case (1 b c be)
  have v: "b = 0 \<Longrightarrow> be_val (b # c # be) = be_val (c # be)" by (simp add: be_val_def)
  show ?case
  proof (cases "b = 0 \<and> c AND 0x80 = 0")
    case True
    then show ?thesis using 1 v by (simp add: high_bit)
  next
    case False
    then show ?thesis using 1 by (auto simp: der_nat_def high_bit)
  qed
qed (simp_all add: der_nat_def)

lemma minimal_be_length: "length (minimal_be bs) \<le> length bs"
  by (induction bs rule: minimal_be.induct) auto

lemma be_bytes_8_hd: "v < 2 ^ 63 \<Longrightarrow> be_bytes 8 v \<noteq> [] \<and> unat (hd (be_bytes 8 v)) < 128"
  by (simp add: be_bytes_def upt_rec unat_byte)

lemma der_nat_integer:
  assumes "unat v < 2 ^ 63"
  shows "der_only 0x02 der_nat (integer v) = Some (unat v)"
proof -
  have "fits (minimal_be (be_bytes 8 (unat v)))"
    using minimal_be_length [of "be_bytes 8 (unat v)"] by (simp add: fits_def)
  moreover have "der_nat (minimal_be (be_bytes 8 (unat v))) = Some (unat v)"
    using minimal_be_ok be_bytes_8_hd [OF assms] assms by (simp add: be_val_be_bytes)
  ultimately show ?thesis
    unfolding integer_def TAG_INTEGER_def by (simp add: der_only_tlv)
qed

lemma der_only_bind: "der_only t (\<lambda>c. Option.bind (p c) f) bs = Option.bind (der_only t p bs) f"
  by (auto simp: der_only_def der_field_def der_end_def split: bind_splits option.splits if_splits)

lemma der_word_integer:
  fixes w :: "'a::len word"
  assumes "LENGTH('a) < 64"
  shows "der_only 0x02 der_word (integer (ucast w)) = Some w"
proof -
  have "unat w < 2 ^ LENGTH('a)" by simp
  also have "(2::nat) ^ LENGTH('a) \<le> 2 ^ 63" using assms by (intro power_increasing) simp_all
  finally have lt: "unat w < 2 ^ 63" .
  then have u: "unat (ucast w :: 64 word) = unat w" by (simp add: unsigned_ucast_eq take_bit_nat_eq_self)
  have dw: "der_word = (\<lambda>c. Option.bind (der_nat c) (\<lambda>n. if n < 2 ^ LENGTH('a) then Some (of_nat n :: 'a word) else None))"
    by (simp add: fun_eq_iff der_word_def)
  have "der_only 0x02 der_word (integer (ucast w))
      = Option.bind (der_only 0x02 der_nat (integer (ucast w)))
          (\<lambda>n. if n < 2 ^ LENGTH('a) then Some (of_nat n :: 'a word) else None)"
    unfolding dw der_only_bind by (rule refl)
  also have "\<dots> = Some w" using lt u by (simp add: der_nat_integer)
  finally show ?thesis .
qed

lemma der_flags_tlv: "der_only 0x03 der_flags (ticket_flags w) = Some w"
  unfolding ticket_flags_def TAG_BIT_STRING_def
  by (rule der_only_tlv) (simp_all add: der_flags_def length_be32 fits_def)

lemma der_text: "scalars s \<Longrightarrow> fits (general_string s) \<Longrightarrow> der_only 0x1b from_utf8 (general_string s) = Some s"
  unfolding general_string_def TAG_GENERAL_STRING_def by (rule der_only_tlv) (simp_all add: fits_tlv)

lemma der_text_field:
  "scalars s \<Longrightarrow> fits (general_string s)
    \<Longrightarrow> der_field 0x1b from_utf8 (general_string s @ rest) = Some (s, rest)"
  unfolding general_string_def TAG_GENERAL_STRING_def by (rule der_field_tlv) (simp_all add: fits_tlv)

lemma der_texts:
  "list_all scalars ss \<Longrightarrow> fits (concat (map general_string ss))
    \<Longrightarrow> der_all 0x1b from_utf8 (concat (map general_string ss)) = Some ss"
proof (induction ss)
  case Nil
  show ?case by (simp add: der_all.simps)
next
  case (Cons s ss)
  then have f: "fits (general_string s)" "fits (concat (map general_string ss))" by (auto dest: fits_append)
  have "general_string s @ concat (map general_string ss) \<noteq> []" by (simp add: general_string_def tlv_hd)
  with Cons f show ?case by (subst der_all.simps) (simp add: der_text_field)
qed

subsection \<open>Times\<close>

lemma civil_same: "ticket_civil = civil_from_days"
proof
  have last: "(if p then y + 1 else y, r) = (y + (if p then 1 else 0), r)" for p and y :: int and r :: "int \<times> int"
    by simp
  show "ticket_civil z = civil_from_days z" for z
    unfolding ticket_civil_def civil_from_days_def Let_def last by (rule refl)
qed

lemma civil_bounds:
  assumes "0 \<le> z" "z \<le> 49710" "civil_from_days z = (y, m, d)"
  shows "0 \<le> y" "y < 10000" "1 \<le> m" "m \<le> 12" "1 \<le> d" "d \<le> 31"
proof -
  have "\<bar>z\<bar> \<le> 1000000000000000" using assms by simp
  from civil_from_days_cases [OF this] assms(3)
  have c: "1 \<le> m" "m \<le> 12" "1 \<le> d" "d \<le> 31"
    "(z + 719468) div 146097 * 400 \<le> y" "y \<le> (z + 719468) div 146097 * 400 + 400"
    by (metis Pair_inject)+
  then show "1 \<le> m" "m \<le> 12" "1 \<le> d" "d \<le> 31" by simp_all
  have "4 \<le> (z + 719468) div 146097" "(z + 719468) div 146097 \<le> 5"
    using zdiv_mono1 [of 719468 "z + 719468" 146097] zdiv_mono1 [of "z + 719468" 769178 146097] assms
    by simp_all
  with c(5,6) show "0 \<le> y" "y < 10000" by simp_all
qed

lemma digits_ascii: "list_all is_ascii_digit s \<Longrightarrow> ascii s"
  by (induction s) (auto simp: ascii_def is_ascii_digit_def)

lemma der_time_fields:
  assumes "length y = 4" "length mo = 2" "length d = 2" "length h = 2" "length mi = 2" "length s = 2"
    and "list_all is_ascii_digit (y @ mo @ d @ h @ mi @ s)"
  shows "der_time (utf8 (y @ mo @ d @ h @ mi @ s @ lit ''Z''))
    = map_option of_nat (epoch_from_rfc3339 (stamp y mo d h mi s))"
proof -
  have a: "ascii (y @ mo @ d @ h @ mi @ s)"
    using digits_ascii assms(7) by blast
  then have z: "ascii (y @ mo @ d @ h @ mi @ s @ lit ''Z'')" by (simp add: kb_lits)
  have u: "map (unat \<circ> (of_nat :: nat \<Rightarrow> byte)) t = t" if "ascii t" for t
    using map_unat_ascii [OF that] by (simp add: comp_def)
  let ?b = "utf8 (y @ mo @ d @ h @ mi @ s @ lit ''Z'')"
  have b: "?b = map of_nat y @ map of_nat mo @ map of_nat d @ map of_nat h @ map of_nat mi @ map of_nat s @ [90]"
    unfolding utf8_ascii [OF z] by (simp add: kb_lits)
  have "length ?b = 15" "?b ! 14 = 90" unfolding b using assms(1-6) by (simp_all add: nth_append)
  moreover have "map unat (take 14 (drop 0 ?b)) = y @ mo @ d @ h @ mi @ s"
    unfolding b using assms(1-6) a by (simp add: u)
  moreover have "map unat (take 4 (drop 0 ?b)) = y" "map unat (take 2 (drop 4 ?b)) = mo"
    "map unat (take 2 (drop 6 ?b)) = d" "map unat (take 2 (drop 8 ?b)) = h"
    "map unat (take 2 (drop 10 ?b)) = mi" "map unat (take 2 (drop 12 ?b)) = s"
    unfolding b using assms(1-6) a by (simp_all add: u)
  ultimately show ?thesis unfolding der_time_def Let_def using assms(7) by simp
qed

lemma der_time_kerberos: "der_only 0x18 der_time (kerberos_time t) = Some t"
proof -
  define e where "e = unat t"
  have e: "e < 2 ^ 32" using unsigned_less [where w = t and 'a = nat] by (simp add: e_def)
  have du: "unat (t div 86400) = e div 86400" "unat (t mod 86400) = e mod 86400"
    by (simp_all add: e_def unat_div unat_mod)
  obtain y m d where c: "civil_from_days (int (e div 86400)) = (y, m, d)" by (metis prod_cases3)
  have z: "0 \<le> int (e div 86400)" "int (e div 86400) \<le> 49710" using e by simp_all
  note b = civil_bounds [OF z c]
  define s where "s = e mod 86400"
  have s: "s < 86400" by (simp add: s_def)
  let ?f = "pad_dec 4 (nat y) @ pad_dec 2 (nat m) @ pad_dec 2 (nat d) @ pad_dec 2 (s div 3600)
    @ pad_dec 2 (s div 60 mod 60) @ pad_dec 2 (s mod 60) @ lit ''Z''"
  have k: "kerberos_time t = tlv 0x18 (utf8 ?f)"
    unfolding kerberos_time_def TAG_GENERALIZED_TIME_def civil_same du c prod.case Let_def s_def by (rule refl)
  have l: "length (pad_dec 4 (nat y)) = 4" "length (pad_dec 2 (nat m)) = 2" "length (pad_dec 2 (nat d)) = 2"
    "length (pad_dec 2 (s div 3600)) = 2" "length (pad_dec 2 (s div 60 mod 60)) = 2" "length (pad_dec 2 (s mod 60)) = 2"
    using b s by (simp_all add: length_pad_dec)
  have "der_time (utf8 ?f) = map_option of_nat (epoch_from_rfc3339 (rfc3339 e))"
    by (subst der_time_fields [OF l])
      (simp_all add: pad_dec_digits rfc3339_def c s_def stamp_def kb_lits Let_def)
  also have "\<dots> = Some t" using rfc3339_inverse [OF e] by (simp add: e_def)
  finally have r: "der_time (utf8 ?f) = Some t" .
  have "ascii ?f" by (simp add: ascii_pad_dec kb_lits)
  then have "length (utf8 ?f) = 15" using l by (simp add: utf8_ascii kb_lits)
  then have "fits (utf8 ?f)" by (simp add: fits_def)
  with r show ?thesis unfolding k by (rule der_only_tlv)
qed

subsection \<open>The message\<close>

definition wf_ticket_principal :: "ticket_principal \<Rightarrow> bool" where
  "wf_ticket_principal p \<longleftrightarrow> scalars (tp_realm p) \<and> list_all scalars (tp_components p)"

definition wf_ticket :: "ticket_credential \<Rightarrow> bool" where
  "wf_ticket c \<longleftrightarrow> wf_ticket_principal (tc_client c) \<and> wf_ticket_principal (tc_server c) \<and> fits (krb_cred c)"

lemma ctx_tags:
  "ctx 0 c = tlv 0xa0 c" "ctx 1 c = tlv 0xa1 c" "ctx 2 c = tlv 0xa2 c" "ctx 3 c = tlv 0xa3 c"
  "ctx 4 c = tlv 0xa4 c" "ctx 5 c = tlv 0xa5 c" "ctx 6 c = tlv 0xa6 c" "ctx 7 c = tlv 0xa7 c"
  "ctx 8 c = tlv 0xa8 c" "ctx 9 c = tlv 0xa9 c" "app_tag 22 = 0x76" "app_tag 29 = 0x7d"
  by (simp_all add: ctx_def app_tag_def)

lemmas fits_dest = fits_tlv fits_append(1) fits_append(2)

lemma der_principal_ok:
  assumes "wf_ticket_principal p" "fits (principal_name p)"
  shows "der_only 0x30 (der_principal (tp_realm p)) (principal_name p) = Some p"
proof -
  let ?names = "concat (map general_string (tp_components p))"
  have n: "principal_name p = tlv 0x30 (tlv 0xa0 (integer (ucast (tp_name_type p))) @ tlv 0xa1 (tlv 0x30 ?names))"
    by (simp add: principal_name_def Let_def ctx_tags TAG_SEQUENCE_def)
  have f: "fits (tlv 0xa0 (integer (ucast (tp_name_type p))) @ tlv 0xa1 (tlv 0x30 ?names))"
    using assms(2) unfolding n by (rule fits_tlv)
  have f1: "fits (integer (ucast (tp_name_type p)))" and f2: "fits (tlv 0x30 ?names)"
    using f by (blast dest: fits_dest)+
  have f3: "fits ?names" using f2 by (rule fits_tlv)
  have i: "der_only 0x02 der_word (integer (ucast (tp_name_type p))) = Some (tp_name_type p)"
    by (rule der_word_integer) simp
  have t: "der_only 0x30 (der_all 0x1b from_utf8) (tlv 0x30 ?names) = Some (tp_components p)"
    using der_texts assms(1) f3 by (auto intro!: der_only_tlv simp: wf_ticket_principal_def)
  have t': "der_field 0xa1 (der_only 0x30 (der_all 0x1b from_utf8)) (tlv 0xa1 (tlv 0x30 ?names))
      = Some (tp_components p, [])"
    by (rule der_inner(2) [OF t f2])
  show ?thesis unfolding n
    by (rule der_only_tlv [OF _ f]) (simp add: der_principal_def der_inner(1) [OF i f1] t' der_end_def)
qed

lemma der_key_ok:
  assumes "fits (tlv 0xa0 (integer (ucast kt)) @ tlv 0xa1 (tlv 0x04 k))"
  shows "der_only 0x30 der_key (tlv 0x30 (tlv 0xa0 (integer (ucast (kt :: 16 word))) @ tlv 0xa1 (tlv 0x04 k)))
    = Some (kt, k)"
proof -
  have f1: "fits (integer (ucast kt))" and f2: "fits (tlv 0x04 k)"
    using assms by (blast dest: fits_dest)+
  have i: "der_only 0x02 der_word (integer (ucast kt)) = Some kt" by (rule der_word_integer) simp
  have o: "der_only 0x04 Some (tlv 0x04 k) = Some k" by (rule der_raw [OF fits_tlv [OF f2]])
  have o': "der_field 0xa1 (der_only 0x04 Some) (tlv 0xa1 (tlv 0x04 k)) = Some (k, [])"
    by (rule der_inner(2) [OF o f2])
  show ?thesis
    by (rule der_only_tlv [OF _ assms]) (simp add: der_key_def der_inner(1) [OF i f1] o' der_end_def)
qed

text \<open>The part of the ticket information after the obligatory authentication time.\<close>

lemma der_optional_time:
  assumes "tag \<noteq> tag'" "t \<noteq> 0 \<longrightarrow> fits (tlv tag (kerberos_time t))"
  shows "Option.bind (der_opt tag (der_only 0x18 der_time)
      ((if t \<noteq> 0 then tlv tag (kerberos_time t) else []) @ tlv tag' c @ rest))
      (\<lambda>(st, r). Option.bind (der_maybe st) (\<lambda>w. k w r))
    = k t (tlv tag' c @ rest)"
proof (cases "t = 0")
  case True
  then show ?thesis using assms(1) by (simp add: der_opt_tlv(2) der_maybe_def)
next
  case False
  have "der_opt tag (der_only 0x18 der_time) (tlv tag (kerberos_time t) @ tlv tag' c @ rest)
      = Some (Some t, tlv tag' c @ rest)"
    by (rule der_inner(3) [OF der_time_kerberos fits_tlv [OF assms(2) [THEN mp, OF False]]])
  then show ?thesis using False by (simp add: der_maybe_def)
qed

lemma der_cred_info_ok:
  assumes "wf_ticket_principal (tc_client c)" "wf_ticket_principal (tc_server c)" "fits (cred_info c)"
  shows "der_only 0x30 (der_cred_info (tc_ticket c)) (cred_info c) = Some c"
proof -
  let ?key = "tlv 0xa0 (integer (ucast (tc_keytype c))) @ tlv 0xa1 (tlv 0x04 (tc_key c))"
  let ?pr = "general_string (tp_realm (tc_client c))" and ?sr = "general_string (tp_realm (tc_server c))"
  let ?pn = "principal_name (tc_client c)" and ?sn = "principal_name (tc_server c)"
  let ?st = "if tc_starttime c \<noteq> 0 then tlv 0xa5 (kerberos_time (tc_starttime c)) else []"
  let ?rt = "if tc_renew_till c \<noteq> 0 then tlv 0xa7 (kerberos_time (tc_renew_till c)) else []"
  let ?body = "tlv 0xa0 (tlv 0x30 ?key) @ tlv 0xa1 ?pr @ tlv 0xa2 ?pn @ tlv 0xa3 (ticket_flags (tc_flags c))
    @ tlv 0xa4 (kerberos_time (tc_authtime c)) @ ?st @ tlv 0xa6 (kerberos_time (tc_endtime c)) @ ?rt
    @ tlv 0xa8 ?sr @ tlv 0xa9 ?sn"
  have n: "cred_info c = tlv 0x30 ?body"
    by (simp only: cred_info_def ctx_tags TAG_SEQUENCE_def TAG_OCTET_STRING_def append_assoc)
  have f: "fits ?body" using assms(3) unfolding n by (rule fits_tlv)
  note g1 = fits_append(1) [OF f] and h1 = fits_append(2) [OF f]
  note g2 = fits_append(1) [OF h1] and h2 = fits_append(2) [OF h1]
  note g3 = fits_append(1) [OF h2] and h3 = fits_append(2) [OF h2]
  note g4 = fits_append(1) [OF h3] and h4 = fits_append(2) [OF h3]
  note g5 = fits_append(1) [OF h4] and h5 = fits_append(2) [OF h4]
  note g6 = fits_append(1) [OF h5] and h6 = fits_append(2) [OF h5]
  note g7 = fits_append(1) [OF h6] and h7 = fits_append(2) [OF h6]
  note g8 = fits_append(1) [OF h7] and h8 = fits_append(2) [OF h7]
  note g9 = fits_append(1) [OF h8] and h9 = fits_append(2) [OF h8]
  note k = der_inner(1) [OF der_key_ok [OF fits_tlv [OF fits_tlv [OF g1]]] fits_tlv [OF g1]]
  have p: "der_only 0x1b from_utf8 ?pr = Some (tp_realm (tc_client c))"
    using assms(1) fits_tlv [OF g2] by (intro der_text) (simp_all add: wf_ticket_principal_def)
  have s: "der_only 0x1b from_utf8 ?sr = Some (tp_realm (tc_server c))"
    using assms(2) fits_tlv [OF g9] by (intro der_text) (simp_all add: wf_ticket_principal_def)
  note p1 = der_inner(1) [OF p fits_tlv [OF g2]]
  note p2 = der_inner(1) [OF der_principal_ok [OF assms(1) fits_tlv [OF g3]] fits_tlv [OF g3]]
  note p3 = der_inner(1) [OF der_flags_tlv fits_tlv [OF g4]]
  note p4 = der_inner(1) [OF der_time_kerberos fits_tlv [OF g5]]
  note p6 = der_inner(1) [OF der_time_kerberos fits_tlv [OF g7]]
  note p8 = der_inner(1) [OF s fits_tlv [OF g9]]
  note p9 = der_inner(2) [OF der_principal_ok [OF assms(2) fits_tlv [OF h9]] fits_tlv [OF h9]]
  have f5: "tc_starttime c \<noteq> 0 \<longrightarrow> fits (tlv 0xa5 (kerberos_time (tc_starttime c)))" using g6 by (auto split: if_splits)
  have f7: "tc_renew_till c \<noteq> 0 \<longrightarrow> fits (tlv 0xa7 (kerberos_time (tc_renew_till c)))" using g8 by (auto split: if_splits)
  have t57: "(0xa5 :: byte) \<noteq> 0xa6" "(0xa7 :: byte) \<noteq> 0xa8" by simp_all
  note o5 = der_optional_time [OF t57(1) f5] and o7 = der_optional_time [OF t57(2) f7]
  have "der_cred_info (tc_ticket c) ?body = Some c"
    unfolding der_cred_info_def k p1 p2 p3 p4 Option.bind.bind_lunit prod.case o5 p6 o7 p8 p9
    by (simp add: der_end_def)
  then show ?thesis unfolding n by (rule der_only_tlv [OF _ f])
qed

lemma der_enc_part_ok:
  assumes "wf_ticket_principal (tc_client c)" "wf_ticket_principal (tc_server c)"
    and "fits (tlv 0xa0 (integer 0) @ tlv 0xa2 (tlv 0x04 (tlv 0x7d (tlv 0x30 (tlv 0xa0 (tlv 0x30 (cred_info c)))))))"
      (is "fits ?bs")
  shows "der_only 0x30 (der_enc_part (tc_ticket c)) (tlv 0x30 ?bs) = Some c"
proof -
  note f1 = fits_tlv [OF fits_append(1) [OF assms(3)]] and f2 = fits_tlv [OF fits_append(2) [OF assms(3)]]
  note f3 = fits_tlv [OF f2]
  note f4 = fits_tlv [OF f3]
  note f5 = fits_tlv [OF f4]
  note f6 = fits_tlv [OF f5]
  note f7 = fits_tlv [OF f6]
  note ci = der_inner(4) [OF der_cred_info_ok [OF assms(1,2) f7] f7]
  note inner = der_inner(2) [OF der_inner(4) [OF der_inner(4) [OF der_inner(4) [OF der_inner(4) [OF ci f6] f5] f4] f3] f2]
  have z: "der_only 0x02 der_nat (integer 0) = Some 0" using der_nat_integer [of 0] by simp
  have "der_enc_part (tc_ticket c) ?bs = Some c"
    unfolding der_enc_part_def der_inner(1) [OF z f1] Option.bind.bind_lunit prod.case
    by (simp add: inner der_end_def)
  then show ?thesis by (rule der_only_tlv [OF _ assms(3)])
qed

lemma der_krb_cred_ok:
  assumes "wf_ticket c"
  shows "der_krb_cred (krb_cred c) = Some c"
proof -
  let ?enc = "tlv 0xa0 (integer 0) @ tlv 0xa2 (tlv 0x04 (tlv 0x7d (tlv 0x30 (tlv 0xa0 (tlv 0x30 (cred_info c))))))"
  let ?body = "tlv 0xa0 (integer 5) @ tlv 0xa1 (integer 22) @ tlv 0xa2 (tlv 0x30 (tc_ticket c)) @ tlv 0xa3 (tlv 0x30 ?enc)"
  have n: "krb_cred c = tlv 0x76 (tlv 0x30 ?body)"
    by (simp only: krb_cred_def Let_def ctx_tags TAG_SEQUENCE_def TAG_OCTET_STRING_def append_assoc)
  have wf: "wf_ticket_principal (tc_client c)" "wf_ticket_principal (tc_server c)" "fits (krb_cred c)"
    using assms by (simp_all add: wf_ticket_def)
  note f0 = fits_tlv [OF wf(3) [unfolded n]]
  note f = fits_tlv [OF f0]
  note g1 = fits_tlv [OF fits_append(1) [OF f]] and h1 = fits_append(2) [OF f]
  note g2 = fits_tlv [OF fits_append(1) [OF h1]] and h2 = fits_append(2) [OF h1]
  note g3 = fits_tlv [OF fits_append(1) [OF h2]] and g4 = fits_tlv [OF fits_append(2) [OF h2]]
  have i: "der_only 0x02 der_nat (integer 5) = Some 5" "der_only 0x02 der_nat (integer 22) = Some 22"
    using der_nat_integer [of 5] der_nat_integer [of 22] by simp_all
  note t = der_inner(1) [OF der_raw [OF fits_tlv [OF g3]] g3]
  note e = der_inner(2) [OF der_enc_part_ok [OF wf(1,2) fits_tlv [OF g4]] g4]
  have "der_krb_cred_body ?body = Some c"
    unfolding der_krb_cred_body_def der_inner(1) [OF i(1) g1] der_inner(1) [OF i(2) g2] t
      Option.bind.bind_lunit prod.case
    by (simp add: e der_end_def)
  then have "der_only 0x30 der_krb_cred_body (tlv 0x30 ?body) = Some c" by (rule der_only_tlv [OF _ f])
  then show ?thesis unfolding n der_krb_cred_def by (rule der_inner(4) [OF _ f0])
qed

text \<open>The blob is a codec of the credential, so two credentials never share a blob.\<close>

interpretation blob: codec krb_cred "\<lambda>bs. ok_or () (der_krb_cred bs)" wf_ticket
  by unfold_locales (simp add: der_krb_cred_ok ok_or_def)

subsection \<open>The size of the blob\<close>

lemma tlv_le: "length c \<le> n \<Longrightarrow> length (tlv tag c) \<le> n + 10"
  unfolding tlv_def Let_def by simp arith

lemma app_le: "length a \<le> m \<Longrightarrow> length b \<le> n \<Longrightarrow> length (a @ b) \<le> m + n"
  by simp

lemma ctx_le: "length c \<le> n \<Longrightarrow> length (ctx i c) \<le> n + 10"
  unfolding ctx_def by (rule tlv_le)

lemma integer_le: "length (integer v) \<le> 18"
proof -
  have "length (minimal_be (be_bytes 8 (unat v))) \<le> 8"
    using minimal_be_length [of "be_bytes 8 (unat v)"] by simp
  from tlv_le [OF this] show ?thesis by (simp add: integer_def)
qed

lemma kerberos_time_le: "length (kerberos_time t) \<le> 25"
proof -
  obtain y m d s where k: "kerberos_time t = tlv TAG_GENERALIZED_TIME (utf8 (pad_dec 4 (nat y) @ pad_dec 2 (nat m)
      @ pad_dec 2 (nat d) @ pad_dec 2 (s div 3600) @ pad_dec 2 (s div 60 mod 60) @ pad_dec 2 (s mod 60) @ lit ''Z''))"
    and c: "civil_from_days (int (unat (t div 86400))) = (y, m, d)" and s: "s = unat (t mod 86400)"
    by (cases "ticket_civil (int (unat (t div 86400)))") (auto simp: kerberos_time_def civil_same Let_def)
  have "unat t < 2 ^ 32" using unsigned_less [where w = t and 'a = nat] by simp
  then have z: "0 \<le> int (unat (t div 86400))" "int (unat (t div 86400)) \<le> 49710" by (simp_all add: unat_div)
  have "s < 86400" by (simp add: s unat_mod)
  then have "length (utf8 (pad_dec 4 (nat y) @ pad_dec 2 (nat m) @ pad_dec 2 (nat d) @ pad_dec 2 (s div 3600)
      @ pad_dec 2 (s div 60 mod 60) @ pad_dec 2 (s mod 60) @ lit ''Z'')) \<le> 15"
    using civil_bounds [OF z c] by (subst utf8_ascii) (simp_all add: ascii_pad_dec length_pad_dec kb_lits)
  from tlv_le [OF this] show ?thesis by (simp add: k)
qed

lemma ticket_flags_le: "length (ticket_flags w) \<le> 15"
  unfolding ticket_flags_def by (rule order_trans [OF tlv_le [OF order_refl]]) (simp add: length_be32)

lemma principal_name_le:
  "length (principal_name p) \<le> length (concat (map general_string (tp_components p))) + 58"
  unfolding principal_name_def Let_def ctx_def
  by (rule order_trans, (rule tlv_le app_le integer_le order_refl)+, simp)

definition names_length :: "ticket_principal \<Rightarrow> nat" where
  "names_length p = length (general_string (tp_realm p)) + length (concat (map general_string (tp_components p)))"

lemma optional_time_le: "length (if P then ctx n (kerberos_time t) else []) \<le> 35"
  using tlv_le [OF kerberos_time_le, of "0xa0 OR n" t] by (simp add: ctx_def)

lemma cred_info_le:
  "length (cred_info c) \<le> names_length (tc_client c) + names_length (tc_server c) + length (tc_key c) + 399"
  unfolding cred_info_def names_length_def
  by (rule order_trans, (rule optional_time_le principal_name_le kerberos_time_le ticket_flags_le integer_le
        app_le tlv_le ctx_le order_refl)+, simp)

lemma krb_cred_length:
  "length (krb_cred c)
    \<le> names_length (tc_client c) + names_length (tc_server c) + length (tc_key c) + length (tc_ticket c) + 603"
  unfolding krb_cred_def Let_def
  by (rule order_trans, (rule cred_info_le integer_le app_le tlv_le ctx_le order_refl)+, simp)

section \<open>What the reader yields\<close>

text \<open>Of a buffer of at most \<open>L\<close> bytes: texts of Unicode scalar values, and lengths that \<open>L\<close> bounds.\<close>

definition within :: "nat \<Rightarrow> ('a \<Rightarrow> bool) \<Rightarrow> 'a rd \<Rightarrow> bool" where
  "within L P p \<longleftrightarrow> (\<forall>r x r'. length (rd_b r) \<le> L \<longrightarrow> p r = Inr (x, r') \<longrightarrow> P x)"

lemma within_then:
  assumes "within L Q p" "advances 0 p" "\<And>x. Q x \<Longrightarrow> within L P (k x)"
  shows "within L P (rd_then p k)"
  unfolding within_def
proof (intro allI impI)
  fix r x r' assume l: "length (rd_b r) \<le> L" and "rd_then p k r = Inr (x, r')"
  then obtain y r1 where s: "p r = Inr (y, r1)" "k y r1 = Inr (x, r')"
    by (auto simp: rd_then_def kb_results)
  have "rd_b r1 = rd_b r" using assms(2) s(1) unfolding advances_def by blast
  moreover have "Q y" using assms(1) l s(1) unfolding within_def by blast
  ultimately show "P x" using assms(3) s(2) l unfolding within_def by metis
qed

lemma within_return: "P x \<Longrightarrow> within L P (rd_return x)"
  by (simp add: within_def rd_return_def)

lemma within_any: "within L (\<lambda>_. True) p"
  by (simp add: within_def)

lemma within_conj: "within L P p \<Longrightarrow> within L Q p \<Longrightarrow> within L (\<lambda>x. P x \<and> Q x) p"
  unfolding within_def by blast

lemma within_mono: "within L P p \<Longrightarrow> (\<And>x. P x \<Longrightarrow> Q x) \<Longrightarrow> within L Q p"
  unfolding within_def by blast

lemma within_repeat:
  assumes "within L P p" "advances 0 p"
  shows "within L (list_all P) (rd_repeat n p)"
proof (induction n)
  case 0
  show ?case by (simp add: within_return)
next
  case (Suc n)
  have "within L (list_all P) (rd_then (rd_repeat n p) (\<lambda>xs. rd_return (x # xs)))" if "P x" for x
    using that assms by (intro within_then [OF Suc]) (auto intro: within_return)
  then show ?case by (simp add: within_then [OF assms])
qed

lemma advances_repeat4: "advances 4 p \<Longrightarrow> advances (4 * n) (rd_repeat n p)"
proof (induction n)
  case (Suc n)
  have "advances (4 * n) (rd_then (rd_repeat n p) (\<lambda>xs. rd_return (x # xs)))" for x
    by (rule advances_then0) (auto intro: Suc)
  with Suc.prems have "advances (4 + 4 * n) (rd_repeat (Suc n) p)" unfolding rd_repeat.simps by (rule advances_then)
  then show ?case by simp
qed (simp add: advances_return)

lemma length_repeat: "rd_repeat n p r = Inr (xs, r') \<Longrightarrow> length xs = n"
  by (induction n arbitrary: r xs r') (auto simp: rd_then_def rd_return_def kb_results split: prod.splits)

lemma within_repeat_length:
  assumes "advances 4 p"
  shows "within L (\<lambda>xs. length xs \<le> L) (rd_repeat n p)"
  unfolding within_def
proof (intro allI impI)
  fix r :: reader and xs r' assume l: "length (rd_b r) \<le> L" and x: "rd_repeat n p r = Inr (xs, r')"
  have "rd_at r + 4 * n \<le> rd_at r' \<and> (rd_at r' \<le> length (rd_b r) \<or> r' = r)"
    using advances_repeat4 [OF assms] x unfolding advances_def by blast
  then have "n \<le> L" using l by auto
  then show "length xs \<le> L" using length_repeat [OF x] by simp
qed

lemma advances_ticket_prims:
  "advances 4 rd_lossy" "advances 0 rd_bytes" "advances 0 rd_ticket_principal" "advances 0 rd_typed_bytes"
proof -
  show "advances 4 rd_lossy"
    unfolding rd_lossy_is_str rd_str_def
    by (intro advances_then0 advances_weaken [OF advances_take] advances_return advances_prims(2)) simp_all
  show "advances 0 rd_bytes" by (rule viewed_advances [OF viewed_bytes advances_str])
  show "advances 0 rd_ticket_principal"
    by (rule viewed_advances [OF viewed_principal advances_weaken [OF advances_principal]]) simp
  show "advances 0 rd_typed_bytes" by (rule viewed_advances [OF viewed_typed advances_typed])
qed

lemmas advances_any = advances_u16_0 advances_u32_0 advances_skip_0 advances_repeat
  advances_weaken [OF advances_ticket_prims(1), of 0, simplified] advances_ticket_prims(2-4)

lemma within_bytes: "within L (\<lambda>bs. length bs \<le> L) rd_bytes"
  unfolding rd_bytes_def
proof (rule within_then [OF within_any advances_u32_0])
  show "within L (\<lambda>bs. length bs \<le> L) (rd_take (unat x))" for x :: "32 word"
    by (auto simp: within_def rd_take_def checked_add_def split: option.splits if_splits)
qed

lemma utf8_chars_length: "length (utf8_chars bs) \<le> length bs"
proof (induction bs rule: utf8_chars.induct)
  case (2 b bs)
  obtain c n where u: "utf8_step b bs = (c, n)" by (cases "utf8_step b bs")
  from 2 [OF u [symmetric] refl] have "length (utf8_chars (drop n bs)) \<le> length bs" by simp
  then show ?case by (simp add: u)
qed simp

lemma utf8_length_le: "length (utf8 s) \<le> 4 * length s"
proof (induction s)
  case (Cons c s)
  have "length (utf8_char c) \<le> 4" by (simp add: utf8_char_def)
  with Cons show ?case using utf8_append [of "[c]" s] by (simp add: utf8_def)
qed (simp add: utf8_def)

lemma within_lossy: "within L (\<lambda>s. scalars s \<and> length (general_string s) \<le> 4 * L + 10) rd_lossy"
  unfolding rd_lossy_def
proof (rule within_then [OF within_bytes advances_ticket_prims(2)], rule within_return, rule conjI)
  fix bs :: "byte list" assume l: "length bs \<le> L"
  show "scalars (from_utf8_lossy bs)" by simp
  have "length (utf8 (from_utf8_lossy bs)) \<le> 4 * L"
    using utf8_length_le [of "from_utf8_lossy bs"] utf8_chars_length [of "map unat bs"] l
    by (simp add: from_utf8_lossy_def)
  then show "length (general_string (from_utf8_lossy bs)) \<le> 4 * L + 10"
    unfolding general_string_def by (rule tlv_le)
qed

lemma names_sum:
  "list_all (\<lambda>s. length (general_string s) \<le> B) ss
    \<Longrightarrow> length (concat (map general_string ss)) \<le> length ss * B"
  by (induction ss) auto

definition name_ok :: "nat \<Rightarrow> ticket_principal \<Rightarrow> bool" where
  "name_ok L p \<longleftrightarrow> wf_ticket_principal p \<and> names_length p \<le> (L + 1) * (4 * L + 10)"

lemma within_principal: "within L (name_ok L) rd_ticket_principal"
  unfolding rd_ticket_principal_def
proof (rule within_then [OF within_any advances_u32_0], rule within_then [OF within_any advances_u32_0],
    rule within_then [OF within_lossy advances_any(5)],
    rule within_then [OF within_conj [OF within_repeat [OF within_lossy advances_any(5)]
          within_repeat_length [OF advances_ticket_prims(1)]] advances_repeat [OF advances_any(5)]],
    rule within_return)
  fix nt n realm comps
  assume r: "scalars realm \<and> length (general_string realm) \<le> 4 * L + 10"
    and c: "list_all (\<lambda>s. scalars s \<and> length (general_string s) \<le> 4 * L + 10) comps \<and> length comps \<le> L"
  have "length (concat (map general_string comps)) \<le> length comps * (4 * L + 10)"
    using c by (intro names_sum) (simp add: list_all_iff)
  also have "\<dots> \<le> L * (4 * L + 10)" using c by (intro mult_right_mono) simp_all
  finally show "name_ok L \<lparr>tp_name_type = nt, tp_realm = realm, tp_components = comps\<rparr>"
    using r c by (simp add: name_ok_def wf_ticket_principal_def names_length_def list_all_iff)
qed

definition ticket_ok :: "nat \<Rightarrow> ticket_credential \<Rightarrow> bool" where
  "ticket_ok L c \<longleftrightarrow> name_ok L (tc_client c) \<and> name_ok L (tc_server c) \<and> length (tc_key c) \<le> L
     \<and> length (tc_ticket c) \<le> L"

lemma within_credential: "within L (ticket_ok L) rd_ticket_credential"
  unfolding rd_ticket_credential_def
  by (rule within_then [OF within_principal], rule advances_any, rule within_then [OF within_principal],
      rule advances_any, rule within_then [OF within_any], rule advances_any, rule within_then [OF within_bytes],
      rule advances_any)
    (intro within_then [OF within_bytes] within_then [OF within_any] within_return advances_any,
      simp add: ticket_ok_def)

lemma ticket_loop_ok:
  "ticket_loop r = Inr cs \<Longrightarrow> length (rd_b r) \<le> L \<Longrightarrow> list_all (ticket_ok L) cs"
proof (induction r arbitrary: cs rule: ticket_loop.induct)
  case (1 r)
  show ?case
  proof (cases "rd_at r < length (rd_b r)")
    case False
    with 1(2) show ?thesis by (simp add: ticket_loop.simps [of r])
  next
    case True
    with 1(2) obtain c r' cs' where s: "rd_ticket_credential r = Inr (c, r')" "ticket_loop r' = Inr cs'"
      "cs = c # cs'"
      by (auto simp: ticket_loop.simps [of r] kb_results split: sum.splits)
    have b: "rd_b r' = rd_b r" using advances_ticket_credential s(1) unfolding advances_def by blast
    have "ticket_ok L c" using within_credential s(1) 1(3) unfolding within_def by blast
    with 1(1) [OF True s(1) refl s(2)] b 1(3) s(3) show ?thesis by simp
  qed
qed

lemma rd_b_kept: "advances n p \<Longrightarrow> p r = Inr (x, r') \<Longrightarrow> rd_b r' = rd_b r"
  unfolding advances_def by blast

lemma ticket_credentials_ok:
  assumes "ticket_credentials bs = Inr cs" "length bs \<le> L"
  shows "list_all (ticket_ok L) cs"
proof -
  from assms(1) obtain v r1 n r2 u r3 d r4 where
    "rd_u16 \<lparr>rd_b = bs, rd_at = 0\<rparr> = Inr (v, r1)" "rd_u16 r1 = Inr (n, r2)"
    "rd_skip (unat n) r2 = Inr (u, r3)" "rd_ticket_principal r3 = Inr (d, r4)" "ticket_loop r4 = Inr cs"
    by (auto simp: ticket_credentials_def kb_results split: prod.splits)
  moreover from this have "rd_b r4 = bs"
    using rd_b_kept [OF advances_u16_0] rd_b_kept [OF advances_skip_0] rd_b_kept [OF advances_ticket_prims(3)]
    by (metis reader.select_convs(1))
  ultimately show ?thesis using ticket_loop_ok assms(2) by blast
qed

lemma ticket_ok_wf: "ticket_ok MAX_CCACHE c \<Longrightarrow> wf_ticket c"
  using krb_cred_length [of c] by (simp add: ticket_ok_def wf_ticket_def name_ok_def fits_def MAX_CCACHE_def)

section \<open>The cache that was validated is the ticket that is injected\<close>

lemma is_tgt_view: "is_tgt (issuer_view c) realm \<longleftrightarrow> local_tgt c \<and> tp_realm (tc_server c) = realm"
  by (auto simp: is_tgt_def local_tgt_def issuer_view_def issuer_principal_def)

lemma server_view: "pr_realm (cr_server (issuer_view c)) = tp_realm (tc_server c)"
  by (simp add: issuer_view_def issuer_principal_def)

lemma display_view: "principal_display (issuer_principal p) = ticket_principal_display p"
  by (simp add: principal_display_def ticket_principal_display_def issuer_principal_def)

lemma find_filter: "find P xs = (case filter P xs of [] \<Rightarrow> None | x # _ \<Rightarrow> Some x)"
  by (induction xs) auto

lemma filter_tgt_view:
  assumes "\<forall>c\<in>set cs. local_tgt c \<longrightarrow> tp_realm (tc_server c) = realm"
  shows "filter (\<lambda>c. is_tgt c realm) (map issuer_view cs) = map issuer_view (filter local_tgt cs)"
  using assms by (induction cs) (auto simp: is_tgt_view)

text \<open>
  C14 (KB_TicketSound.readers_agree). The tree has two readers of the credential cache, one in
  \<open>issuerd\<close> that validates a cache and one in the client that repackages it. On every byte
  sequence they fail alike, with the same error at the same offset, or read the same
  credentials: a cache cannot mean one thing where it is checked and another where it is used.
\<close>

theorem readers_agree: "map_ok (map issuer_view) (ticket_credentials bytes) = credentials bytes"
  by (rule ticket_credentials_view)

text \<open>
  C13 (KB_TicketSound.krbcred_roundtrip). A reader of the RFC 4120 structure that is strict
  about DER gives back from the KRB-CRED message exactly the credential the message was written
  from: both principals with their types, the session key, the flags, the four times to the
  second, with an absent start or renewal time absent rather than 1970, and the KDC's ticket
  byte for byte.
\<close>

theorem krbcred_roundtrip:
  assumes "list_all scalars (tp_realm (tc_client c) # tp_components (tc_client c))"
    and "list_all scalars (tp_realm (tc_server c) # tp_components (tc_server c))"
    and "length (krb_cred c) < 2 ^ 64"
  shows "der_krb_cred (krb_cred c) = Some c"
  by (rule der_krb_cred_ok) (use assms in \<open>simp add: wf_ticket_def wf_ticket_principal_def fits_def\<close>)

definition sample_ticket :: ticket_credential where
  "sample_ticket =
     \<lparr>tc_client = \<lparr>tp_name_type = 1, tp_realm = lit ''EX.SITE'', tp_components = [lit ''alice'']\<rparr>,
      tc_server = \<lparr>tp_name_type = 2, tp_realm = lit ''EX.SITE'', tp_components = [lit ''krbtgt'', lit ''EX.SITE'']\<rparr>,
      tc_keytype = 18, tc_key = [1, 2, 255], tc_authtime = 1785240000, tc_starttime = 0,
      tc_endtime = 1785276000, tc_renew_till = 1785844800, tc_flags = 0x00500000, tc_ticket = [0x61, 0]\<rparr>"

lemma sample_ticket_ok:
  "list_all scalars (tp_realm (tc_client sample_ticket) # tp_components (tc_client sample_ticket))"
  "list_all scalars (tp_realm (tc_server sample_ticket) # tp_components (tc_server sample_ticket))"
  "length (krb_cred sample_ticket) < 2 ^ 64"
proof -
  show "list_all scalars (tp_realm (tc_client sample_ticket) # tp_components (tc_client sample_ticket))"
    "list_all scalars (tp_realm (tc_server sample_ticket) # tp_components (tc_server sample_ticket))"
    by (simp_all add: sample_ticket_def kb_lits is_scalar_def)
  have "names_length (tc_client sample_ticket) + names_length (tc_server sample_ticket) \<le> 100"
    by (simp add: names_length_def sample_ticket_def general_string_def tlv_def kb_lits utf8_def utf8_char_def)
  then show "length (krb_cred sample_ticket) < 2 ^ 64"
    using krb_cred_length [of sample_ticket] by (simp add: sample_ticket_def)
qed

theorem krbcred_roundtrip_witness:
  "der_krb_cred (krb_cred sample_ticket) = Some sample_ticket"
  by (rule krbcred_roundtrip [OF sample_ticket_ok])

text \<open>
  C12 (KB_TicketSound.injected_ticket_is_validated_one). When \<open>issuerd\<close> has validated a cache
  for a principal, and the realm's is the only local ticket-granting ticket in it, the client
  finds a ticket in the same bytes, and the blob it submits to the ticket cache of the machine
  reads back as that very credential: the client principal is the one that was validated, and
  the session's end and renewal limit are those the KDC granted.
\<close>

theorem injected_ticket_is_validated_one:
  assumes "validate_cache cfg bytes princ = Inr tgt"
    and "length bytes \<le> MAX_CCACHE"
    and "credentials bytes = Inr cs"
    and "\<forall>c\<in>set cs. is_tgt c (pr_realm (cr_server c)) \<longrightarrow> pr_realm (cr_server c) = ic_realm cfg"
  shows "\<exists>c blob. ccache_to_tgt bytes = Inr blob \<and> der_krb_cred (tb_krbcred blob) = Some c
    \<and> issuer_view c = tgt \<and> ticket_principal_display (tc_client c) = princ
    \<and> tb_end blob = uint (cr_expires_at tgt) \<and> tb_renew_till blob = uint (cr_renew_until tgt)"
proof -
  from validate_cache_Inr [OF assms(1)] assms(3)
  have v: "filter (\<lambda>c. is_tgt c (ic_realm cfg)) cs = [tgt]" "principal_display (cr_client tgt) = princ"
    by auto
  obtain ts where ts: "ticket_credentials bytes = Inr ts" "cs = map issuer_view ts"
    using ticket_credentials_view [of bytes] assms(3) by (cases "ticket_credentials bytes") auto
  have own: "\<forall>c\<in>set ts. local_tgt c \<longrightarrow> tp_realm (tc_server c) = ic_realm cfg"
    using assms(4) by (simp add: ts(2) is_tgt_view server_view)
  have "map issuer_view (filter local_tgt ts) = [tgt]"
    using v(1) filter_tgt_view [OF own] ts(2) by simp
  then obtain c where c: "filter local_tgt ts = [c]" "issuer_view c = tgt" by (auto simp: map_eq_Cons_conv)
  then have "c \<in> set (filter local_tgt ts)" by simp
  then have "c \<in> set ts" by simp
  then have "ticket_ok MAX_CCACHE c"
    using ticket_credentials_ok [OF ts(1) assms(2)] by (simp add: list_all_iff)
  then have d: "der_krb_cred (krb_cred c) = Some c" by (intro der_krb_cred_ok ticket_ok_wf)
  have p: "ticket_principal_display (tc_client c) = princ"
    using v(2) c(2) by (auto simp: issuer_view_def display_view)
  have "ccache_to_tgt bytes = Inr \<lparr>tb_krbcred = krb_cred c, tb_start = start_of c, tb_end = uint (tc_endtime c),
      tb_renew_till = uint (tc_renew_till c)\<rparr>"
    by (simp add: ccache_to_tgt_def ts(1) find_filter c(1))
  with d p c(2) show ?thesis by (auto simp: issuer_view_def)
qed

theorem injected_ticket_is_validated_one_witness:
  "\<exists>c blob. ccache_to_tgt (cache_bytes [] sample_client [sample_entry]) = Inr blob
    \<and> der_krb_cred (tb_krbcred blob) = Some c
    \<and> issuer_view c = entry_credential sample_entry
    \<and> ticket_principal_display (tc_client c) = lit ''alice'' @ lit ''@'' @ sample_realm
    \<and> tb_end blob = uint (cr_expires_at (entry_credential sample_entry))
    \<and> tb_renew_till blob = uint (cr_renew_until (entry_credential sample_entry))"
proof (rule injected_ticket_is_validated_one [OF sample_validates sample_cache_bounded])
  show "credentials (cache_bytes [] sample_client [sample_entry]) = Inr [entry_credential sample_entry]"
    using credentials_cache_bytes [of "[sample_entry]" sample_client "[]"] sample_entry_wf sample_cache_length by simp
  show "\<forall>c\<in>set [entry_credential sample_entry]. is_tgt c (pr_realm (cr_server c)) \<longrightarrow>
      pr_realm (cr_server c) = ic_realm sample_config"
    by (simp add: entry_credential_def sample_entry_def sample_config_def)
qed

end
