(* ===== verification/KB_Describe.thy ===== *)
theory KB_Describe
  imports KB_Prelude
begin

text \<open>
  What a surface of the agent may say, as a function of facts
  (\<open>client/kerbridge-client/src/describe.rs\<close>): the condition, what is missing, what may be started
  and which silent path stands behind the next renewal. The lists keep the order of the code.
\<close>

section \<open>The vocabulary\<close>

datatype condition = Working | NotStarted | Flaky | WillStop | Stopped

datatype blocker =
    NoBrokerUrl | NetworkError | RealmUnknown | RealmNotRegistered | NoSupply | NoGrant
  | GrantRefusedBlocker | RefusedBlocker | TgtAbsent

datatype ui_action =
    SignIn | CreateGrant | ReinjectTicket | Cancel | DropKrbTicket | SignOutIdp | GiveUpGrant
  | Enroll | Reenroll | Unenroll | RestartWorkstation | OpenSettings

fun outside_busy_slot :: "ui_action \<Rightarrow> bool" where
  "outside_busy_slot a \<longleftrightarrow> a = SignOutIdp \<or> a = GiveUpGrant"

datatype silent_supply = GrantSupply | WindowsSupply | BrowserSupply | NoSupplyLeft

datatype fault = NetworkFault | RefusedFault | GrantRefusedFault | OtherFault

record facts =
  fa_broker :: bool
  fa_realm_known :: bool
  fa_enrolled :: bool
  fa_ticket :: bool
  fa_ticket_late :: bool
  fa_expected :: bool
  fa_delegated :: bool
  fa_grant_valid :: bool
  fa_refresh_token :: bool
  fa_cloud_session :: bool
  fa_windows_sign_in :: bool
  fa_grants_enabled :: bool
  fa_ntlm_recovery :: bool
  fa_tgt_absent :: bool
  fa_fault :: "fault option"
  fa_flaky_elapsed :: bool
  fa_enrollment_platform :: bool
  fa_browser_leg :: bool

record description =
  ds_condition :: condition
  ds_blockers :: "blocker list"
  ds_actions :: "ui_action list"
  ds_supply :: silent_supply
  ds_usable :: bool

section \<open>The derivation\<close>

definition supply_of :: "facts \<Rightarrow> silent_supply" where
  "supply_of f =
     (if fa_grant_valid f then GrantSupply
      else if fa_delegated f then NoSupplyLeft
      else if fa_windows_sign_in f then WindowsSupply
      else if fa_refresh_token f then BrowserSupply
      else NoSupplyLeft)"

definition realm_usable :: "facts \<Rightarrow> bool" where
  "realm_usable f \<longleftrightarrow> fa_realm_known f \<and> fa_enrolled f"

definition holds_access :: "facts \<Rightarrow> bool" where
  "holds_access f \<longleftrightarrow> fa_ticket f \<and> realm_usable f"

definition condition_of :: "facts \<Rightarrow> silent_supply \<Rightarrow> condition" where
  "condition_of f s =
     (let flaky = fa_flaky_elapsed f \<and> fa_fault f = Some NetworkFault
      in if holds_access f \<and> s = NoSupplyLeft \<and> fa_ticket_late f then WillStop
         else if holds_access f \<and> s \<noteq> NoSupplyLeft \<and> flaky then Flaky
         else if holds_access f then Working
         else if fa_expected f then Stopped
         else NotStarted)"

definition blockers_of :: "facts \<Rightarrow> silent_supply \<Rightarrow> blocker list" where
  "blockers_of f s =
     (if \<not> fa_broker f then [NoBrokerUrl]
      else (if \<not> fa_realm_known f then [RealmUnknown] else if \<not> fa_enrolled f then [RealmNotRegistered] else [])
        @ (case fa_fault f of
             Some NetworkFault \<Rightarrow> [NetworkError]
           | Some RefusedFault \<Rightarrow> [RefusedBlocker]
           | Some GrantRefusedFault \<Rightarrow> [GrantRefusedBlocker]
           | _ \<Rightarrow> [])
        @ (if fa_realm_known f \<and> fa_delegated f \<and> \<not> fa_grant_valid f then [NoGrant] else [])
        @ (if \<not> fa_delegated f \<and> s = NoSupplyLeft then [NoSupply] else [])
        @ (if fa_tgt_absent f then [TgtAbsent] else []))"

definition actions_of :: "facts \<Rightarrow> silent_supply \<Rightarrow> blocker list \<Rightarrow> ui_action list" where
  "actions_of f s bs =
     (if \<not> fa_broker f then [OpenSettings]
      else (if fa_enrollment_platform f \<and> fa_realm_known f
            then (if fa_enrolled f then [Reenroll, Unenroll] else [Enroll]) else [])
        @ (if fa_ntlm_recovery f \<and> fa_realm_known f then [RestartWorkstation] else [])
        @ (if realm_usable f \<and> fa_grants_enabled f \<and> GrantRefusedBlocker \<notin> set bs then [CreateGrant] else [])
        @ (if realm_usable f \<and> \<not> fa_delegated f then [SignIn] else [])
        @ (if realm_usable f \<and> s \<noteq> NoSupplyLeft then [ReinjectTicket] else [])
        @ (if holds_access f then [DropKrbTicket] else [])
        @ (if fa_grant_valid f then [GiveUpGrant] else []))
     @ (if fa_cloud_session f then [SignOutIdp] else [])
     @ (if fa_browser_leg f then [Cancel] else [])"

definition describe :: "facts \<Rightarrow> description" where
  "describe f =
     (let s = supply_of f; bs = blockers_of f s
      in \<lparr>ds_condition = condition_of f s, ds_blockers = bs, ds_actions = actions_of f s bs, ds_supply = s, ds_usable = realm_usable f\<rparr>)"

section \<open>What a surface can rely on\<close>

abbreviation spends_a_ticket :: "ui_action \<Rightarrow> bool" where
  "spends_a_ticket a \<equiv> a \<in> {SignIn, CreateGrant, ReinjectTicket, DropKrbTicket}"

text \<open>
  Fact (KB_Describe.description_sound). Whatever the facts, the description keeps its promises. The
  condition is the published table of ticket, expectation and supply: stopped or not started exactly
  without access, and no network failure moves it between those. A machine without a broker has one
  blocker and is offered only its settings beside the cloud sign-out and a cancel. Nothing that gets
  or spends a ticket is offered while the system cannot use one, no re-injection without a supply, no
  sign-in on a delegated machine and no authorization that policy has refused; a cancel exists exactly
  while a browser leg waits. No blocker and no action is listed twice, and a delegated machine's
  supply is a valid grant or nothing.
\<close>

theorem description_sound:
  "(let d = describe f in
      (ds_condition d \<in> {Stopped, NotStarted}) = (\<not> holds_access f)
    \<and> (ds_condition d = Stopped) = (\<not> holds_access f \<and> fa_expected f)
    \<and> (ds_condition d = WillStop) = (holds_access f \<and> ds_supply d = NoSupplyLeft \<and> fa_ticket_late f)
    \<and> (ds_condition d = Flaky) = (holds_access f \<and> ds_supply d \<noteq> NoSupplyLeft \<and> fa_flaky_elapsed f \<and> fa_fault f = Some NetworkFault)
    \<and> (fa_broker f \<or> ds_blockers d = [NoBrokerUrl] \<and> set (ds_actions d) \<subseteq> {OpenSettings, SignOutIdp, Cancel})
    \<and> (realm_usable f \<or> list_all (\<lambda>a. \<not> spends_a_ticket a) (ds_actions d))
    \<and> (ReinjectTicket \<in> set (ds_actions d)) = (fa_broker f \<and> realm_usable f \<and> ds_supply d \<noteq> NoSupplyLeft)
    \<and> (SignIn \<in> set (ds_actions d)) = (fa_broker f \<and> realm_usable f \<and> \<not> fa_delegated f)
    \<and> (CreateGrant \<in> set (ds_actions d)) = (fa_broker f \<and> realm_usable f \<and> fa_grants_enabled f \<and> fa_fault f \<noteq> Some GrantRefusedFault)
    \<and> (Cancel \<in> set (ds_actions d)) = fa_browser_leg f
    \<and> distinct (ds_blockers d) \<and> distinct (ds_actions d)
    \<and> (ds_supply d = GrantSupply) = fa_grant_valid f
    \<and> (ds_supply d \<in> {WindowsSupply, BrowserSupply})
        = (\<not> fa_grant_valid f \<and> \<not> fa_delegated f \<and> (fa_windows_sign_in f \<or> fa_refresh_token f)))"
proof -
  have c: "condition_of f s \<in> {Stopped, NotStarted} \<longleftrightarrow> \<not> holds_access f"
    "condition_of f s = Stopped \<longleftrightarrow> \<not> holds_access f \<and> fa_expected f"
    "condition_of f s = WillStop \<longleftrightarrow> holds_access f \<and> s = NoSupplyLeft \<and> fa_ticket_late f"
    "condition_of f s = Flaky \<longleftrightarrow> holds_access f \<and> s \<noteq> NoSupplyLeft \<and> fa_flaky_elapsed f \<and> fa_fault f = Some NetworkFault" for s
    by (simp_all add: condition_of_def Let_def)
  have b: "GrantRefusedBlocker \<in> set (blockers_of f s) \<longleftrightarrow> fa_broker f \<and> fa_fault f = Some GrantRefusedFault"
    "distinct (blockers_of f s)" "\<not> fa_broker f \<Longrightarrow> blockers_of f s = [NoBrokerUrl]" for s
    by (cases "fa_fault f"; cases "the (fa_fault f)"; simp add: blockers_of_def)+
  have a: "\<not> fa_broker f \<Longrightarrow> set (actions_of f s bs) \<subseteq> {OpenSettings, SignOutIdp, Cancel}"
    "\<not> realm_usable f \<Longrightarrow> list_all (\<lambda>a. \<not> spends_a_ticket a) (actions_of f s bs)"
    "ReinjectTicket \<in> set (actions_of f s bs) \<longleftrightarrow> fa_broker f \<and> realm_usable f \<and> s \<noteq> NoSupplyLeft"
    "SignIn \<in> set (actions_of f s bs) \<longleftrightarrow> fa_broker f \<and> realm_usable f \<and> \<not> fa_delegated f"
    "CreateGrant \<in> set (actions_of f s bs) \<longleftrightarrow> fa_broker f \<and> realm_usable f \<and> fa_grants_enabled f \<and> GrantRefusedBlocker \<notin> set bs"
    "Cancel \<in> set (actions_of f s bs) \<longleftrightarrow> fa_browser_leg f" "distinct (actions_of f s bs)" for s bs
    by (auto simp: actions_of_def holds_access_def)
  have s: "supply_of f = GrantSupply \<longleftrightarrow> fa_grant_valid f"
    "supply_of f \<in> {WindowsSupply, BrowserSupply}
      \<longleftrightarrow> \<not> fa_grant_valid f \<and> \<not> fa_delegated f \<and> (fa_windows_sign_in f \<or> fa_refresh_token f)"
    by (simp_all add: supply_of_def)
  let ?s = "supply_of f"
  let ?b = "blockers_of f ?s"
  have nb: "fa_broker f \<or> ?b = [NoBrokerUrl] \<and> set (actions_of f ?s ?b) \<subseteq> {OpenSettings, SignOutIdp, Cancel}"
    using b(3) a(1) by blast
  have nr: "realm_usable f \<or> list_all (\<lambda>a. \<not> spends_a_ticket a) (actions_of f ?s ?b)" using a(2) by blast
  have g: "CreateGrant \<in> set (actions_of f ?s ?b)
      \<longleftrightarrow> fa_broker f \<and> realm_usable f \<and> fa_grants_enabled f \<and> fa_fault f \<noteq> Some GrantRefusedFault"
    unfolding a(5) b(1) by blast
  have d: "describe f = \<lparr>ds_condition = condition_of f ?s, ds_blockers = ?b, ds_actions = actions_of f ?s ?b,
      ds_supply = ?s, ds_usable = realm_usable f\<rparr>"
    by (simp add: describe_def Let_def)
  show ?thesis unfolding d Let_def description.simps
    by (intro conjI; rule c nb nr g s a(3) a(4) a(6) a(7) b(2))
qed

end
