(* ===== verification/KB_ClientConfig.thy ===== *)
theory KB_ClientConfig
  imports KB_Prelude
begin

text \<open>
  The settings of the agent (\<open>client/kerbridge-client/src/config.rs\<close>): the layers and their precedence,
  and the update of \<open>config.toml\<close>. The file is what it parses to, or nothing when it does not parse;
  a write can fail. The TOML reader and writer are inverse, which the tests of the code state. Whether
  this build is for Windows is a field of the settings, as the policy is.
\<close>

section \<open>The file\<close>

record krb_config =
  kb_realm :: str
  kb_kdcs :: "str list"
  kb_services :: "str list"

record stored_grant =
  sg_grant_id :: str
  sg_identity :: str
  sg_principal :: "str option"
  sg_audience :: str
  sg_sign_in_required_by :: int

record file_config =
  fc_broker_url :: "str option"
  fc_grant_for :: "str option"
  fc_expected_working_as :: "str option"
  fc_grant :: "stored_grant option"
  fc_autostart :: "bool option"
  fc_ntlm_fallback_recovery :: "bool option"
  fc_silent :: "bool option"
  fc_windows_sign_in :: "bool option"
  fc_browser_session :: bool
  fc_cache :: krb_config

definition no_krb :: krb_config where "no_krb = \<lparr>kb_realm = [], kb_kdcs = [], kb_services = []\<rparr>"

definition empty_file :: file_config where
  "empty_file = \<lparr>fc_broker_url = None, fc_grant_for = None, fc_expected_working_as = None, fc_grant = None, fc_autostart = None,
     fc_ntlm_fallback_recovery = None, fc_silent = None, fc_windows_sign_in = None, fc_browser_session = False, fc_cache = no_krb\<rparr>"

fun contains_scheme :: "str \<Rightarrow> bool" where
  "contains_scheme (a # b # c # s) = ((a = 58 \<and> b = 47 \<and> c = 47) \<or> contains_scheme (b # c # s))"
| "contains_scheme _ = False"

definition with_https :: "str \<Rightarrow> str" where
  "with_https url = (if contains_scheme url then url else lit ''https://'' @ url)"

definition typed_broker_url :: "str \<Rightarrow> str option" where
  "typed_broker_url entry = (let t = trim entry in if t = [] then None else Some (with_https t))"

definition set_grant_for :: "str \<Rightarrow> file_config \<Rightarrow> file_config" where
  "set_grant_for target f = f\<lparr>fc_grant_for := (let t = trim target in if t = [] then None else Some t)\<rparr>"

definition set_cache :: "krb_config \<Rightarrow> file_config \<Rightarrow> file_config" where
  "set_cache k f = f\<lparr>fc_cache := k\<rparr>"

definition set_grant_principal :: "str \<Rightarrow> str \<Rightarrow> file_config \<Rightarrow> bool \<times> file_config" where
  "set_grant_principal grant_id who f =
     (case fc_grant f of
        Some g \<Rightarrow>
          if sg_grant_id g = grant_id \<and> sg_principal g \<noteq> Some who
          then (True, f\<lparr>fc_grant := Some (g\<lparr>sg_principal := Some who\<rparr>)\<rparr>) else (False, f)
      | None \<Rightarrow> (False, f))"

definition file_retarget :: "str option \<Rightarrow> file_config \<Rightarrow> file_config" where
  "file_retarget broker_url f = f\<lparr>fc_broker_url := broker_url, fc_cache := no_krb, fc_grant := None, fc_browser_session := False\<rparr>"

section \<open>The layers\<close>

record policy =
  po_broker_url :: "str option"
  po_grant_for :: "str option"
  po_autostart :: "bool option"
  po_ntlm_fallback_recovery :: "bool option"
  po_silent :: "bool option"
  po_windows_sign_in :: "bool option"

record client_defaults_doc =
  cd_autostart :: "bool option"
  cd_windows_sign_in :: "bool option"
  cd_ntlm_fallback_recovery :: "bool option"
  cd_silent :: "bool option"

text \<open>The file on disk: what it parses to (\<open>None\<close> when it does not), and whether a write succeeds.\<close>

record config_disk =
  dk_file :: "file_config option"
  dk_writable :: bool

record settings =
  st_file :: file_config
  st_policy :: policy
  st_discovered :: "str option"
  st_defaults :: "client_defaults_doc option"
  st_disk :: "config_disk option"
  st_windows :: bool

definition settings_load :: "bool \<Rightarrow> policy \<Rightarrow> config_disk option \<Rightarrow> settings" where
  "settings_load windows pol disk =
     \<lparr>st_file = (case Option.bind disk dk_file of None \<Rightarrow> empty_file | Some f \<Rightarrow> f), st_policy = pol, st_discovered = None, st_defaults = None,
      st_disk = disk, st_windows = windows\<rparr>"

fun or_else :: "'a option \<Rightarrow> 'a option \<Rightarrow> 'a option" where
  "or_else (Some v) _ = Some v"
| "or_else None w = w"

text \<open>
  One update of the file: what it is now is read again, the change applied to it, and the result
  written if it differs. A file that does not parse is never written. The answer is whether the
  change is on disk.
\<close>

definition settings_update :: "(file_config \<Rightarrow> file_config) \<Rightarrow> settings \<Rightarrow> bool \<times> settings" where
  "settings_update change s =
     (case st_disk s of
        None \<Rightarrow> (False, s\<lparr>st_file := change (st_file s)\<rparr>)
      | Some d \<Rightarrow>
          (case dk_file d of
             None \<Rightarrow> (change (st_file s) = st_file s, s\<lparr>st_file := change (st_file s)\<rparr>)
           | Some now_file \<Rightarrow>
               let file = change now_file
               in if file = now_file then (True, s\<lparr>st_file := file\<rparr>)
                  else if dk_writable d then (True, s\<lparr>st_file := file, st_disk := Some (d\<lparr>dk_file := Some file\<rparr>)\<rparr>)
                  else (False, s\<lparr>st_file := file\<rparr>)))"

abbreviation settings_updated :: "(file_config \<Rightarrow> file_config) \<Rightarrow> settings \<Rightarrow> settings" where
  "settings_updated change s \<equiv> snd (settings_update change s)"

definition broker_url_with :: "str option \<Rightarrow> settings \<Rightarrow> str option" where
  "broker_url_with user s = or_else (po_broker_url (st_policy s)) (or_else user (st_discovered s))"

definition client_broker_url :: "settings \<Rightarrow> str option" where
  "client_broker_url s = broker_url_with (fc_broker_url (st_file s)) s"

definition broker_url_locked :: "settings \<Rightarrow> bool" where
  "broker_url_locked s \<longleftrightarrow> po_broker_url (st_policy s) \<noteq> None"

definition grant_for :: "settings \<Rightarrow> str option" where
  "grant_for s = or_else (po_grant_for (st_policy s)) (fc_grant_for (st_file s))"

definition grant_for_locked :: "settings \<Rightarrow> bool" where
  "grant_for_locked s \<longleftrightarrow> po_grant_for (st_policy s) \<noteq> None"

definition ntlm_fallback_recovery :: "settings \<Rightarrow> bool" where
  "ntlm_fallback_recovery s \<longleftrightarrow> st_windows s
     \<and> or_else (po_ntlm_fallback_recovery (st_policy s)) (or_else (fc_ntlm_fallback_recovery (st_file s))
         (or_else (Option.bind (st_defaults s) cd_ntlm_fallback_recovery) (Some (st_windows s)))) = Some True"

definition resolved_silent :: "settings \<Rightarrow> bool option" where
  "resolved_silent s =
     or_else (po_silent (st_policy s)) (or_else (fc_silent (st_file s))
       (map_option (\<lambda>d. or_else (cd_silent d) (Some False) = Some True) (st_defaults s)))"

definition effective_silent :: "settings \<Rightarrow> bool" where
  "effective_silent s \<longleftrightarrow> resolved_silent s = Some True"

definition windows_sign_in :: "settings \<Rightarrow> bool" where
  "windows_sign_in s \<longleftrightarrow> st_windows s
     \<and> or_else (po_windows_sign_in (st_policy s)) (or_else (fc_windows_sign_in (st_file s))
         (or_else (Option.bind (st_defaults s) cd_windows_sign_in) (Some True))) = Some True"

definition set_discovered :: "str \<Rightarrow> settings \<Rightarrow> settings" where
  "set_discovered url s = s\<lparr>st_discovered := Some url\<rparr>"

definition set_defaults :: "client_defaults_doc \<Rightarrow> settings \<Rightarrow> settings" where
  "set_defaults d s = s\<lparr>st_defaults := Some d\<rparr>"

definition clear_defaults :: "settings \<Rightarrow> settings" where
  "clear_defaults s = s\<lparr>st_defaults := None\<rparr>"

definition silent_locked :: "settings \<Rightarrow> bool" where
  "silent_locked s \<longleftrightarrow> po_silent (st_policy s) \<noteq> None"

definition windows_sign_in_locked :: "settings \<Rightarrow> bool" where
  "windows_sign_in_locked s \<longleftrightarrow> po_windows_sign_in (st_policy s) \<noteq> None"

definition autostart_managed :: "settings \<Rightarrow> bool" where
  "autostart_managed s \<longleftrightarrow> po_autostart (st_policy s) \<noteq> None"

text \<open>
  The autostart entry of the system is the state passed in: whether the user's entry is on, whether a
  machine-wide entry exists, and whether a write of the user's entry succeeds.
\<close>

record login_entry =
  le_enabled :: bool
  le_machine_wide :: bool
  le_writable :: bool

definition autostart_active :: "login_entry \<Rightarrow> bool" where
  "autostart_active e \<longleftrightarrow> le_enabled e \<or> le_machine_wide e"

definition set_autostart :: "bool \<Rightarrow> login_entry \<Rightarrow> bool \<times> login_entry" where
  "set_autostart on e = (if le_writable e then (True, e\<lparr>le_enabled := on\<rparr>) else (False, e))"

definition wanted_autostart :: "settings \<Rightarrow> (bool \<times> bool) option" where
  "wanted_autostart s =
     (case (po_autostart (st_policy s), fc_autostart (st_file s)) of
        (Some want, _) \<Rightarrow> Some (want, False)
      | (None, Some _) \<Rightarrow> None
      | (None, None) \<Rightarrow> map_option (\<lambda>d. (d, True)) (Option.bind (st_defaults s) cd_autostart))"

definition seed_autostart :: "bool \<Rightarrow> settings \<Rightarrow> bool \<times> settings" where
  "seed_autostart want s = settings_update (\<lambda>f. f\<lparr>fc_autostart := or_else (fc_autostart f) (Some want)\<rparr>) s"

definition enforce_autostart :: "settings \<Rightarrow> login_entry \<Rightarrow> bool \<times> settings \<times> login_entry" where
  "enforce_autostart s e =
     (case wanted_autostart s of
        None \<Rightarrow> (True, s, e)
      | Some (want, seed) \<Rightarrow>
          if le_machine_wide e then (True, s, e)
          else let (applied, e') = (if le_enabled e = want then (True, e) else set_autostart want e)
               in if \<not> applied then (True, s, e)
                  else if seed then (let (ok, s') = seed_autostart want s in (ok, s', e')) else (True, s, e'))"

section \<open>What an update keeps\<close>

text \<open>
  Fact (KB_ClientConfig.update_keeps_other_fields). An update never writes over a file that does not
  parse, and the file after it is either untouched or the change of what the file was at that moment,
  never of an older copy: a field the change does not set keeps what another process wrote there. A
  success means the file on disk, when there is one that parses, holds the change; the layers above
  and below the file are untouched.
\<close>

theorem update_keeps_other_fields:
  "(let (ok, s') = settings_update change s in
      (st_policy s', st_discovered s', st_defaults s', st_windows s') = (st_policy s, st_discovered s, st_defaults s, st_windows s)
    \<and> (case st_disk s of
         None \<Rightarrow> st_disk s' = None \<and> \<not> ok \<and> st_file s' = change (st_file s)
       | Some d \<Rightarrow>
           (case dk_file d of
              None \<Rightarrow> st_disk s' = st_disk s \<and> st_file s' = change (st_file s) \<and> ok = (st_file s' = st_file s)
            | Some f \<Rightarrow> st_file s' = change f \<and> ok = (change f = f \<or> dk_writable d)
                \<and> st_disk s' = Some (if ok then d\<lparr>dk_file := Some (change f)\<rparr> else d))))"
  by (cases "st_disk s"; cases "dk_file (the (st_disk s))") (auto simp: settings_update_def Let_def)

text \<open>What the user chose beats what the deployment prefers, and policy beats both.\<close>

lemma policy_wins:
  "po_broker_url (st_policy s) = Some u \<Longrightarrow> client_broker_url s = Some u"
  "po_silent (st_policy s) = Some b \<Longrightarrow> resolved_silent s = Some b"
  "po_grant_for (st_policy s) = Some g \<Longrightarrow> grant_for s = Some g"
  by (simp_all add: client_broker_url_def broker_url_with_def resolved_silent_def grant_for_def)

lemma seed_respects_choice:
  "fc_autostart f = Some b \<Longrightarrow> dk_file d = Some f \<Longrightarrow> st_disk s = Some d \<Longrightarrow> snd (seed_autostart want s) = s\<lparr>st_file := f\<rparr>"
  by (simp add: seed_autostart_def settings_update_def Let_def)

end
