(* ===== verification/KB_AgentCore.thy ===== *)
theory KB_AgentCore
  imports KB_Describe KB_ClientConfig "HOL-Library.Signed_Division"
begin

text \<open>
  The state of the desktop agent and its own operations
  (\<open>client/kerbridge-client/src/agent/mod.rs\<close>): discovery generations, the interruption gate, the
  probe, adoption of a ticket, the loss of a ticket, the schedule and the timer. The record holds the
  agent, the statics the threads share, the threads that run, and what was handed to the desktop and
  to the ticket cache. The clock is read once in each operation; the random generator, the ticket
  cache, the enrollment state and the idle time are the environment.
\<close>

section \<open>Vocabulary\<close>

text \<open>Text shown to the user is a key of the translated strings with its arguments.\<close>

datatype copy =
    NoCopy | Verbatim str | Duration int | DayCount int | DateOf int | Lines copy copy | Copy string "(string \<times> copy) list"

datatype notice_severity = InfoNotice | WarningNotice | ErrorNotice

datatype gate = Defer | Allow | Suppress

type_synonym agent_notice = "copy \<times> copy \<times> notice_severity"

datatype phase = SignedOut | SigningIn | Connected | Lapsed | Failed

record discovery_stamp =
  dst_url :: str
  dst_generation :: nat

datatype probe = SrvProbe nat | ConfigProbe discovery_stamp

record device_grant_config =
  dg_days :: nat
  dg_audience :: str

definition no_device_grant :: device_grant_config where
  "no_device_grant = \<lparr>dg_days = 0, dg_audience = []\<rparr>"

definition device_grants_enabled :: "device_grant_config \<Rightarrow> bool" where
  "device_grants_enabled g \<longleftrightarrow> dg_days g > 0 \<and> dg_audience g \<noteq> []"

record broker_snapshot =
  bs_kerberos :: krb_config
  bs_device_grant :: device_grant_config
  bs_defaults :: client_defaults_doc
  bs_help_url :: "str option"
  bs_idp_name :: str
  bs_source :: str

record busy_operation =
  bo_stamp :: discovery_stamp
  bo_action :: ui_action

record tgt_loss =
  tl_streak :: nat
  tl_absent :: bool
  tl_retry_at :: "int option"
  tl_suspended :: bool

definition no_loss :: tgt_loss where
  "no_loss = \<lparr>tl_streak = 0, tl_absent = False, tl_retry_at = None, tl_suspended = False\<rparr>"

datatype enroll_state = IsEnrolled | IsNotEnrolled | IsStale "str list"

definition needs_action :: "enroll_state \<Rightarrow> bool" where
  "needs_action s \<longleftrightarrow> s \<noteq> IsEnrolled"

record cached_tgt =
  ct_principal :: str
  ct_start :: int
  ct_end :: int
  ct_renew_till :: int

datatype trigger = ByUser | ByRenewal | ByStartup | ByGrant

definition silent_trigger :: "trigger \<Rightarrow> bool" where
  "silent_trigger t \<longleftrightarrow> t \<noteq> ByUser"

definition quiet_trigger :: "trigger \<Rightarrow> bool" where
  "quiet_trigger t \<longleftrightarrow> t = ByStartup \<or> t = ByGrant"

text \<open>The result of a hosted operation, and the threads the agent starts with what each captures.\<close>

datatype outcome = Declined | DoneWith copy "copy option" | FailedWith copy

datatype job =
    SignInJob discovery_stamp trigger bool "stored_grant option" "str option"
  | CreateGrantJob discovery_stamp bool "str option"
  | CloudSignOutJob discovery_stamp
  | CleanupJob nat "str option" stored_grant bool bool
  | ProbeJob probe
  | CompensateJob discovery_stamp str stored_grant
  | ElevatedJob ui_action "str list" bool

text \<open>What leaves the agent: to the desktop, and to the ticket cache.\<close>

datatype outside_act =
    Notified copy copy notice_severity
  | Finished ui_action outcome
  | Elevating ui_action
  | PurgedRealm str

record agent =
  ag_settings :: settings
  ag_entry :: login_entry
  ag_generation :: nat
  ag_target :: "str option"
  ag_discovery_ended :: bool
  ag_deferred :: "agent_notice option"
  ag_kerberos :: krb_config
  ag_enroll :: enroll_state
  ag_phase :: phase
  ag_principal :: str
  ag_start :: int
  ag_end :: int
  ag_renew_till :: int
  ag_refresh_at :: "int option"
  ag_message :: copy
  ag_fault :: "fault option"
  ag_first_failure_at :: "int option"
  ag_probe_at :: "int option"
  ag_probe_backoff :: int
  ag_probe_in_flight :: "nat option"
  ag_refresh_backoff :: int
  ag_in_flight :: "ui_action list"
  ag_busy_operation :: "busy_operation option"
  ag_cloud_sign_out :: "discovery_stamp option"
  ag_cleanup_generation :: nat
  ag_grant_cleanup :: "nat option"
  ag_just_authorized :: bool
  ag_granted_pending :: bool
  ag_silent_failed :: bool
  ag_startup_retry_at :: "int option"
  ag_startup_retries :: nat
  ag_startup_backoff :: int
  ag_awaits_broker :: bool
  ag_escalated :: bool
  ag_device_grant :: device_grant_config
  ag_help_url :: "str option"
  ag_idp_name :: str
  ag_source :: str
  ag_loss :: tgt_loss
  ag_loss_check_at :: int
  ag_grant_notified_at :: "int option"
  ag_busy :: bool
  ag_cancel :: bool
  ag_cleaning :: bool
  ag_refresh_token :: "str option"
  ag_browser_leg :: bool
  ag_jobs :: "job list"
  ag_outside :: "outside_act list"

record agent_env =
  en_now :: int
  en_random :: "int \<Rightarrow> nat option"
  en_idle :: "int option"
  en_enroll :: "krb_config \<Rightarrow> enroll_state"
  en_tgt :: "str \<Rightarrow> cached_tgt option option"
  en_purge :: "str \<Rightarrow> bool"
  en_device :: bool

section \<open>The clock and its bounds\<close>

definition ESCALATE_SECS :: int where "ESCALATE_SECS = 20 * 60"
definition MIN_REFRESH_DELAY :: int where "MIN_REFRESH_DELAY = 60"
definition EXPIRY_GRACE :: int where "EXPIRY_GRACE = 30"
definition STARTUP_RETRY_SECS :: int where "STARTUP_RETRY_SECS = 5"
definition STARTUP_RETRY_BOUNDED_SECS :: int where "STARTUP_RETRY_BOUNDED_SECS = 20"
definition STARTUP_RETRIES :: nat where "STARTUP_RETRIES = 3"
definition GRANT_DUE_SOON_SECS :: int where "GRANT_DUE_SOON_SECS = 7 * 86400"
definition FLAKY_QUIET_SECS :: int where "FLAKY_QUIET_SECS = 15 * 60"
definition PROBE_FIRST_SECS :: int where "PROBE_FIRST_SECS = 30"
definition PROBE_MAX_SECS :: int where "PROBE_MAX_SECS = 10 * 60"
definition LOSS_POLL_SECS :: int where "LOSS_POLL_SECS = 30"
definition LOSS_FIRST_SECS :: int where "LOSS_FIRST_SECS = 60"
definition LOSS_MAX_SECS :: int where "LOSS_MAX_SECS = 3600"
definition PRESENT_SECS :: int where "PRESENT_SECS = 5 * 60"
definition GRANT_NOTIFY_INTERVAL :: int where "GRANT_NOTIFY_INTERVAL = 86400"

lemmas agent_constants = ESCALATE_SECS_def MIN_REFRESH_DELAY_def EXPIRY_GRACE_def STARTUP_RETRY_SECS_def
  STARTUP_RETRY_BOUNDED_SECS_def STARTUP_RETRIES_def GRANT_DUE_SOON_SECS_def FLAKY_QUIET_SECS_def
  PROBE_FIRST_SECS_def PROBE_MAX_SECS_def LOSS_POLL_SECS_def LOSS_FIRST_SECS_def LOSS_MAX_SECS_def
  PRESENT_SECS_def GRANT_NOTIFY_INTERVAL_def

text \<open>The generator answers a 64-bit number, or fails; the bound is the span plus one.\<close>

definition jitter :: "agent_env \<Rightarrow> int \<Rightarrow> int" where
  "jitter e span =
     (if span \<le> 0 then 0
      else case en_random e span of None \<Rightarrow> 0 | Some r \<Rightarrow> int r mod (span + 1))"

definition midpoint :: "agent_env \<Rightarrow> int \<Rightarrow> int \<Rightarrow> int" where
  "midpoint e now fin =
     (let half = (fin - now) sdiv 2;
          delay = max (half - jitter e (half sdiv 10)) MIN_REFRESH_DELAY
      in max (min (now + delay) (fin - EXPIRY_GRACE)) (now + 1))"

definition next_backoff :: "int \<Rightarrow> int \<Rightarrow> int \<Rightarrow> int" where
  "next_backoff held first most = (let d = held * 2 in if d < first then first else if d > most then most else d)"

definition loss_delay :: "agent_env \<Rightarrow> nat \<Rightarrow> int" where
  "loss_delay e streak =
     (if streak \<le> 1 then 0
      else let base = min (LOSS_FIRST_SECS * 2 ^ min (streak - 2) 16) LOSS_MAX_SECS
           in base - jitter e (base sdiv 10))"

definition is_the_grants :: "stored_grant option \<Rightarrow> bool \<Rightarrow> str \<Rightarrow> bool" where
  "is_the_grants g pinned who =
     (case g of
        None \<Rightarrow> True
      | Some g' \<Rightarrow> (case sg_principal g' of None \<Rightarrow> \<not> pinned | Some p \<Rightarrow> p = who))"

section \<open>Discovery and the interruption gate\<close>

definition settings_grant :: "agent \<Rightarrow> stored_grant option" where
  "settings_grant a = fc_grant (st_file (ag_settings a))"

definition agent_new :: "agent_env \<Rightarrow> settings \<Rightarrow> login_entry \<Rightarrow> agent" where
  "agent_new e st entry =
     (let k = fc_cache (st_file st)
      in \<lparr>ag_settings = st, ag_entry = entry, ag_generation = 0, ag_target = client_broker_url st, ag_discovery_ended = False,
          ag_deferred = None, ag_kerberos = k, ag_enroll = en_enroll e k, ag_phase = SignedOut, ag_principal = [], ag_start = 0,
          ag_end = 0, ag_renew_till = 0, ag_refresh_at = None, ag_message = NoCopy, ag_fault = None, ag_first_failure_at = None,
          ag_probe_at = None, ag_probe_backoff = 0, ag_probe_in_flight = None, ag_refresh_backoff = 0, ag_in_flight = [],
          ag_busy_operation = None, ag_cloud_sign_out = None, ag_cleanup_generation = 0, ag_grant_cleanup = None,
          ag_just_authorized = False, ag_granted_pending = False, ag_silent_failed = False, ag_startup_retry_at = None,
          ag_startup_retries = 0, ag_startup_backoff = 0, ag_awaits_broker = False, ag_escalated = False,
          ag_device_grant = no_device_grant, ag_help_url = None, ag_idp_name = [], ag_source = [], ag_loss = no_loss,
          ag_loss_check_at = 0, ag_grant_notified_at = None,
          ag_busy = False, ag_cancel = False, ag_cleaning = False, ag_refresh_token = None, ag_browser_leg = False,
          ag_jobs = [], ag_outside = []\<rparr>)"

definition advance_discovery :: "agent \<Rightarrow> discovery_stamp option \<times> agent" where
  "advance_discovery a =
     (let gen = ag_generation a + 1; target = client_broker_url (ag_settings a)
      in (map_option (\<lambda>u. \<lparr>dst_url = u, dst_generation = gen\<rparr>) target, a\<lparr>ag_generation := gen, ag_target := target\<rparr>))"

definition interruption_gate :: "agent \<Rightarrow> gate" where
  "interruption_gate a =
     (case resolved_silent (ag_settings a) of
        Some True \<Rightarrow> Suppress
      | Some False \<Rightarrow> Allow
      | None \<Rightarrow> if ag_discovery_ended a then Allow else Defer)"

definition admit :: "agent_notice \<Rightarrow> agent \<Rightarrow> agent_notice option \<times> agent" where
  "admit n a =
     (case interruption_gate a of
        Allow \<Rightarrow> (Some n, a\<lparr>ag_deferred := None\<rparr>)
      | Suppress \<Rightarrow> (None, a\<lparr>ag_deferred := None\<rparr>)
      | Defer \<Rightarrow> (None, a\<lparr>ag_deferred := Some n\<rparr>))"

definition settle_deferred :: "agent \<Rightarrow> agent_notice option \<times> agent" where
  "settle_deferred a =
     (case interruption_gate a of
        Defer \<Rightarrow> (None, a)
      | Allow \<Rightarrow> (ag_deferred a, a\<lparr>ag_deferred := None\<rparr>)
      | Suppress \<Rightarrow> (None, a\<lparr>ag_deferred := None\<rparr>))"

definition outside_call :: "outside_act \<Rightarrow> agent \<Rightarrow> agent" where
  "outside_call c a = a\<lparr>ag_outside := ag_outside a @ [c]\<rparr>"

definition spawned :: "job \<Rightarrow> agent \<Rightarrow> agent" where
  "spawned j a = a\<lparr>ag_jobs := ag_jobs a @ [j]\<rparr>"

definition deliver :: "agent_notice \<Rightarrow> agent \<Rightarrow> agent" where
  "deliver n a = (case n of (title, body, sev) \<Rightarrow> outside_call (Notified title body sev) a)"

definition release_deferred :: "agent \<Rightarrow> agent" where
  "release_deferred a = (case settle_deferred a of (None, a') \<Rightarrow> a' | (Some n, a') \<Rightarrow> deliver n a')"

definition agent_notify :: "agent_notice \<Rightarrow> agent \<Rightarrow> agent" where
  "agent_notify n a = (case admit n (release_deferred a) of (None, a') \<Rightarrow> a' | (Some n', a') \<Rightarrow> deliver n' a')"

definition announce :: "agent_notice option \<Rightarrow> agent \<Rightarrow> agent" where
  "announce n a = (case n of Some n' \<Rightarrow> agent_notify n' a | None \<Rightarrow> release_deferred a)"

definition discovery_is_current :: "agent \<Rightarrow> discovery_stamp \<Rightarrow> bool" where
  "discovery_is_current a s \<longleftrightarrow>
     dst_generation s = ag_generation a \<and> ag_target a = Some (dst_url s) \<and> client_broker_url (ag_settings a) = Some (dst_url s)"

section \<open>The session\<close>

definition scope :: "agent \<Rightarrow> str option" where
  "scope a =
     (if kb_realm (ag_kerberos a) = [] then None
      else Some (kb_realm (ag_kerberos a) @ [c_pipe] @ (case grant_for (ag_settings a) of None \<Rightarrow> [] | Some t \<Rightarrow> t)))"

definition expected :: "agent \<Rightarrow> bool" where
  "expected a \<longleftrightarrow> (case scope a of None \<Rightarrow> False | Some s \<Rightarrow> fc_expected_working_as (st_file (ag_settings a)) = Some s)"

definition update_file :: "(file_config \<Rightarrow> file_config) \<Rightarrow> agent \<Rightarrow> bool \<times> agent" where
  "update_file change a = (case settings_update change (ag_settings a) of (saved, st) \<Rightarrow> (saved, a\<lparr>ag_settings := st\<rparr>))"

abbreviation updated_file :: "(file_config \<Rightarrow> file_config) \<Rightarrow> agent \<Rightarrow> agent" where
  "updated_file change a \<equiv> snd (update_file change a)"

definition expect :: "bool \<Rightarrow> agent \<Rightarrow> agent" where
  "expect on a = updated_file (\<lambda>f. f\<lparr>fc_expected_working_as := (if on then scope a else None)\<rparr>) a"

definition reset_session :: "agent \<Rightarrow> agent" where
  "reset_session a = a\<lparr>ag_phase := SignedOut, ag_startup_retry_at := None, ag_startup_retries := 0, ag_startup_backoff := 0,
     ag_awaits_broker := False, ag_principal := [], ag_start := 0, ag_end := 0, ag_renew_till := 0, ag_refresh_at := None,
     ag_silent_failed := False, ag_escalated := False, ag_message := NoCopy, ag_fault := None, ag_first_failure_at := None,
     ag_loss := no_loss, ag_loss_check_at := 0, ag_deferred := None\<rparr>"

definition holds_live_ticket_at :: "agent \<Rightarrow> int \<Rightarrow> bool" where
  "holds_live_ticket_at a now \<longleftrightarrow> (ag_phase a = Connected \<or> ag_phase a = SigningIn) \<and> ag_end a > now \<and> ag_principal a \<noteq> []"

definition arm_probe :: "int \<Rightarrow> agent \<Rightarrow> agent" where
  "arm_probe now a =
     (if ag_probe_at a = None then a\<lparr>ag_probe_backoff := PROBE_FIRST_SECS, ag_probe_at := Some (now + PROBE_FIRST_SECS)\<rparr> else a)"

definition reset_probe :: "agent \<Rightarrow> agent" where
  "reset_probe a = a\<lparr>ag_probe_at := None, ag_probe_backoff := 0\<rparr>"

definition restart_probe :: "int \<Rightarrow> agent \<Rightarrow> agent" where
  "restart_probe now a = a\<lparr>ag_probe_in_flight := None, ag_probe_backoff := 0, ag_probe_at := Some now\<rparr>"

definition begin_probe :: "int \<Rightarrow> agent \<Rightarrow> probe option \<times> agent" where
  "begin_probe now a =
     (if ag_probe_in_flight a \<noteq> None \<or> ag_cloud_sign_out a \<noteq> None then (None, a)
      else case advance_discovery a of (stamp, a1) \<Rightarrow>
        (Some (case stamp of Some s \<Rightarrow> ConfigProbe s | None \<Rightarrow> SrvProbe (ag_generation a1)),
         arm_probe now (a1\<lparr>ag_probe_in_flight := Some (ag_generation a1)\<rparr>)))"

definition end_probe :: "nat \<Rightarrow> int \<Rightarrow> agent \<Rightarrow> bool \<times> agent" where
  "end_probe gen now a =
     (if ag_probe_in_flight a \<noteq> Some gen then (False, a)
      else let a1 = a\<lparr>ag_probe_in_flight := None\<rparr>
           in (True, if ag_probe_at a1 \<noteq> None then a1\<lparr>ag_probe_at := Some (now + ag_probe_backoff a1)\<rparr> else a1))"

definition record_fault :: "int \<Rightarrow> fault option \<Rightarrow> copy \<Rightarrow> agent \<Rightarrow> agent" where
  "record_fault now f m a =
     (let a1 = a\<lparr>ag_message := m, ag_fault := f\<rparr>
      in if f = Some NetworkFault
         then arm_probe now (if ag_first_failure_at a1 = None then a1\<lparr>ag_first_failure_at := Some now, ag_probe_at := None\<rparr> else a1)
         else a1\<lparr>ag_first_failure_at := None\<rparr>)"

definition note_copy :: "copy \<Rightarrow> agent \<Rightarrow> agent" where
  "note_copy m a = a\<lparr>ag_message := m, ag_fault := None\<rparr>"

definition purge_realm :: "agent_env \<Rightarrow> str \<Rightarrow> agent \<Rightarrow> bool \<times> agent" where
  "purge_realm e realm a = (if realm = [] then (True, a) else (en_purge e realm, outside_call (PurgedRealm realm) a))"

definition clear_broker_snapshot :: "agent \<Rightarrow> agent" where
  "clear_broker_snapshot a = a\<lparr>ag_discovery_ended := False, ag_kerberos := no_krb, ag_enroll := IsNotEnrolled,
     ag_device_grant := no_device_grant, ag_help_url := None, ag_idp_name := [], ag_source := [],
     ag_settings := clear_defaults (ag_settings a)\<rparr>"

definition invalidate_broker_snapshot :: "agent \<Rightarrow> agent" where
  "invalidate_broker_snapshot a = clear_broker_snapshot (snd (advance_discovery a))"

definition end_old_realm :: "agent_env \<Rightarrow> broker_snapshot \<Rightarrow> agent \<Rightarrow> agent" where
  "end_old_realm e sn a =
     (if ag_phase a \<noteq> SignedOut \<and> kb_realm (ag_kerberos a) \<noteq> [] \<and> kb_realm (ag_kerberos a) \<noteq> kb_realm (bs_kerberos sn)
      then reset_session (expect False (snd (purge_realm e (kb_realm (ag_kerberos a)) a))) else a)"

definition publish_snapshot :: "agent_env \<Rightarrow> broker_snapshot \<Rightarrow> agent \<Rightarrow> agent" where
  "publish_snapshot e sn a =
     (let a1 = updated_file (set_cache (bs_kerberos sn)) a
      in a1\<lparr>ag_settings := set_defaults (bs_defaults sn) (ag_settings a1), ag_kerberos := bs_kerberos sn,
           ag_enroll := en_enroll e (bs_kerberos sn), ag_device_grant := bs_device_grant sn, ag_help_url := bs_help_url sn,
           ag_idp_name := bs_idp_name sn, ag_source := bs_source sn\<rparr>)"

definition replace_broker_snapshot :: "agent_env \<Rightarrow> discovery_stamp \<Rightarrow> broker_snapshot \<Rightarrow> agent \<Rightarrow> bool \<times> agent" where
  "replace_broker_snapshot e s sn a =
     (if \<not> discovery_is_current a s then (False, a)
      else let a1 = publish_snapshot e sn (end_old_realm e sn a);
               a2 = (if ag_fault a1 = Some NetworkFault then record_fault (en_now e) None NoCopy a1 else a1)
           in (True, reset_probe a2))"

text \<open>Adoption of a ticket a previous run left behind: whether it must be replaced instead.\<close>

definition adopt_cached_ticket :: "agent_env \<Rightarrow> cached_tgt \<Rightarrow> agent \<Rightarrow> bool \<times> agent" where
  "adopt_cached_ticket e t a =
     (if \<not> is_the_grants (settings_grant a) (grant_for (ag_settings a) \<noteq> None) (ct_principal t)
      then (True, a\<lparr>ag_startup_retries := STARTUP_RETRIES\<rparr>)
      else (False, expect True (a\<lparr>ag_principal := ct_principal t, ag_start := ct_start t, ag_end := ct_end t,
              ag_renew_till := ct_renew_till t, ag_phase := Connected,
              ag_refresh_at := Some (midpoint e (max (ct_start t) (en_now e)) (ct_end t))\<rparr>)))"

definition adopt_existing_ticket :: "agent_env \<Rightarrow> agent \<Rightarrow> bool \<times> agent" where
  "adopt_existing_ticket e a =
     (if ag_phase a \<noteq> SignedOut \<or> kb_realm (ag_kerberos a) = [] then (False, a)
      else case en_tgt e (kb_realm (ag_kerberos a)) of
        Some (Some t) \<Rightarrow> if ct_end t \<le> en_now e then (False, a) else adopt_cached_ticket e t a
      | _ \<Rightarrow> (False, a))"

section \<open>Operations in flight\<close>

definition started :: "ui_action \<Rightarrow> agent \<Rightarrow> agent" where
  "started act a = (if act \<in> set (ag_in_flight a) then a else a\<lparr>ag_in_flight := ag_in_flight a @ [act]\<rparr>)"

definition started_busy :: "discovery_stamp \<Rightarrow> ui_action \<Rightarrow> agent \<Rightarrow> agent" where
  "started_busy s act a = (started act a)\<lparr>ag_busy_operation := Some \<lparr>bo_stamp = s, bo_action = act\<rparr>\<rparr>"

definition no_longer :: "ui_action \<Rightarrow> agent \<Rightarrow> agent" where
  "no_longer act a = a\<lparr>ag_in_flight := filter (\<lambda>b. b \<noteq> act) (ag_in_flight a)\<rparr>"

definition settle_sign_in :: "int \<Rightarrow> agent \<Rightarrow> agent" where
  "settle_sign_in now a =
     (if ag_phase a = SigningIn then a\<lparr>ag_phase := (if holds_live_ticket_at a now then Connected else SignedOut)\<rparr> else a)"

definition finish_busy :: "int \<Rightarrow> discovery_stamp \<Rightarrow> bool \<Rightarrow> agent \<Rightarrow> bool \<times> agent" where
  "finish_busy now s stale a =
     (case ag_busy_operation a of
        None \<Rightarrow> (False, a)
      | Some op \<Rightarrow>
          if bo_stamp op \<noteq> s then (False, a)
          else let a1 = (no_longer (bo_action op) (a\<lparr>ag_busy_operation := None\<rparr>))\<lparr>ag_busy := False\<rparr>
               in (True, if stale then settle_sign_in now a1 else a1))"

definition finish_cloud_sign_out :: "discovery_stamp \<Rightarrow> agent \<Rightarrow> bool \<times> agent" where
  "finish_cloud_sign_out s a =
     (if ag_cloud_sign_out a \<noteq> Some s then (False, a) else (True, no_longer SignOutIdp (a\<lparr>ag_cloud_sign_out := None\<rparr>)))"

definition started_grant_cleanup :: "agent \<Rightarrow> nat \<times> agent" where
  "started_grant_cleanup a =
     (let gen = ag_cleanup_generation a + 1
      in (gen, started GiveUpGrant (a\<lparr>ag_cleanup_generation := gen, ag_grant_cleanup := Some gen\<rparr>)))"

definition finish_grant_cleanup :: "nat \<Rightarrow> agent \<Rightarrow> bool \<times> agent" where
  "finish_grant_cleanup gen a =
     (if ag_grant_cleanup a \<noteq> Some gen then (False, a) else (True, no_longer GiveUpGrant (a\<lparr>ag_grant_cleanup := None\<rparr>)))"

section \<open>A ticket seen absent\<close>

definition with_loss :: "(tgt_loss \<Rightarrow> tgt_loss) \<Rightarrow> agent \<Rightarrow> agent" where
  "with_loss f a = a\<lparr>ag_loss := f (ag_loss a)\<rparr>"

definition loss_suspend :: "agent \<Rightarrow> agent" where
  "loss_suspend a = (with_loss (\<lambda>l. l\<lparr>tl_suspended := True, tl_retry_at := None\<rparr>) a)\<lparr>ag_silent_failed := True\<rparr>"

definition loss_observed :: "agent_env \<Rightarrow> bool \<Rightarrow> agent \<Rightarrow> agent" where
  "loss_observed e supplied a =
     (let a1 = with_loss (\<lambda>l. l\<lparr>tl_absent := True, tl_streak := tl_streak l + 1\<rparr>) a
      in if \<not> supplied then loss_suspend a1
         else if \<not> tl_suspended (ag_loss a1)
         then with_loss (\<lambda>l. l\<lparr>tl_retry_at := Some (en_now e + loss_delay e (tl_streak l))\<rparr>) a1
         else a1)"

definition loss_present :: "agent \<Rightarrow> agent" where
  "loss_present = with_loss (\<lambda>l. l\<lparr>tl_absent := False, tl_retry_at := None\<rparr>)"

definition loss_landed :: "agent \<Rightarrow> bool \<times> agent" where
  "loss_landed a = (tl_absent (ag_loss a), with_loss (\<lambda>l. l\<lparr>tl_absent := False, tl_retry_at := None, tl_suspended := False\<rparr>) a)"

definition loss_failed :: "agent_env \<Rightarrow> fault option \<Rightarrow> agent \<Rightarrow> agent" where
  "loss_failed e f a =
     (let a1 = with_loss (\<lambda>l. l\<lparr>tl_streak := tl_streak l + 1\<rparr>) a
      in if f = Some NetworkFault \<or> f = Some OtherFault
         then (if tl_suspended (ag_loss a1) then a1
               else with_loss (\<lambda>l. l\<lparr>tl_retry_at := Some (en_now e + loss_delay e (tl_streak l))\<rparr>) a1)
         else loss_suspend a1)"

section \<open>What the surface is told\<close>

text \<open>
  The lateness of a ticket is decided in single precision: conversion and product round to 24
  significant bits, half to even, and the constant is the single-precision neighbour of 0.8.
\<close>

fun bits :: "nat \<Rightarrow> nat" where
  "bits n = (if n = 0 then 0 else Suc (bits (n div 2)))"

declare bits.simps [simp del]

definition f32_round :: "int \<Rightarrow> int" where
  "f32_round i =
     (let m = nat \<bar>i\<bar>; b = bits m
      in if b \<le> 24 then i
         else let u = 2 ^ (b - 24); q = m div u; r = m mod u
              in sgn i * int ((if 2 * r > u \<or> 2 * r = u \<and> odd q then q + 1 else q) * u))"

definition ticket_late :: "int \<Rightarrow> int \<Rightarrow> bool" where
  "ticket_late elapsed lifetime \<longleftrightarrow> f32_round elapsed * 2 ^ 24 \<ge> f32_round (f32_round (max lifetime 1) * 13421773)"

definition described_at :: "agent_env \<Rightarrow> agent \<Rightarrow> description" where
  "described_at e a =
     (let now = en_now e; st = ag_settings a
      in describe \<lparr>
        fa_broker = client_broker_url st \<noteq> None,
        fa_realm_known = kb_realm (ag_kerberos a) \<noteq> [],
        fa_enrolled = (\<not> needs_action (ag_enroll a)),
        fa_ticket = holds_live_ticket_at a now,
        fa_ticket_late = (ag_end a \<noteq> 0 \<and> ticket_late (now - ag_start a) (ag_end a - ag_start a)),
        fa_expected = expected a,
        fa_delegated = grant_for st \<noteq> None,
        fa_grant_valid = (case settings_grant a of None \<Rightarrow> False | Some g \<Rightarrow> sg_sign_in_required_by g > now),
        fa_refresh_token = ag_refresh_token a \<noteq> None,
        fa_cloud_session = fc_browser_session (st_file st),
        fa_windows_sign_in = windows_sign_in st,
        fa_grants_enabled = (device_grants_enabled (ag_device_grant a) \<and> en_device e),
        fa_ntlm_recovery = ntlm_fallback_recovery st,
        fa_tgt_absent = (tl_absent (ag_loss a) \<and> holds_live_ticket_at a now),
        fa_fault = ag_fault a,
        fa_flaky_elapsed = (case ag_first_failure_at a of None \<Rightarrow> False | Some t \<Rightarrow> now - t > FLAKY_QUIET_SECS),
        fa_enrollment_platform = st_windows st,
        fa_browser_leg = ag_browser_leg a\<rparr>)"

definition silent_supply_at :: "agent_env \<Rightarrow> agent \<Rightarrow> bool" where
  "silent_supply_at e a \<longleftrightarrow> ds_supply (described_at e a) \<noteq> NoSupplyLeft"

section \<open>Starting work\<close>

definition start_worker :: "agent_env \<Rightarrow> trigger \<Rightarrow> agent \<Rightarrow> agent" where
  "start_worker e t a =
     (if ag_cleaning a \<or> ag_cloud_sign_out a \<noteq> None
      then (if t = ByStartup then a\<lparr>ag_startup_retry_at := Some (en_now e + 1)\<rparr> else a)
      else if ag_busy a then a
      else case advance_discovery (a\<lparr>ag_cancel := False\<rparr>) of
          (None, a1) \<Rightarrow> a1
        | (Some s, a1) \<Rightarrow>
            let a2 = started_busy s (if t = ByUser then SignIn else ReinjectTicket) (a1\<lparr>ag_busy := True\<rparr>);
                a3 = (if silent_trigger t then a2 else a2\<lparr>ag_phase := SigningIn, ag_message := NoCopy, ag_fault := None\<rparr>)
            in spawned (SignInJob s t (windows_sign_in (ag_settings a1)) (settings_grant a1) (grant_for (ag_settings a1))) a3)"

definition discover_in_background :: "agent_env \<Rightarrow> agent \<Rightarrow> agent" where
  "discover_in_background e a =
     (case begin_probe (en_now e) a of (None, a1) \<Rightarrow> a1 | (Some p, a1) \<Rightarrow> spawned (ProbeJob p) a1)"

definition give_up_captured_grant :: "str option \<Rightarrow> stored_grant \<Rightarrow> bool \<Rightarrow> bool \<Rightarrow> agent \<Rightarrow> bool \<times> agent" where
  "give_up_captured_grant broker g saved report a =
     (if ag_cleaning a then (False, a)
      else case started_grant_cleanup (a\<lparr>ag_cleaning := True\<rparr>) of
        (gen, a1) \<Rightarrow> (True, spawned (CleanupJob gen broker g saved report) a1))"

text \<open>The grant given up at a new broker URL is the one in the file at that moment.\<close>

definition file_now :: "agent \<Rightarrow> file_config" where
  "file_now a =
     (case st_disk (ag_settings a) of
        None \<Rightarrow> st_file (ag_settings a)
      | Some d \<Rightarrow> (case dk_file d of None \<Rightarrow> st_file (ag_settings a) | Some f \<Rightarrow> f))"

definition agent_retarget :: "agent_env \<Rightarrow> str option \<Rightarrow> str option \<Rightarrow> agent \<Rightarrow> bool \<times> agent" where
  "agent_retarget e old_broker broker_url a =
     (case purge_realm e (kb_realm (fc_cache (st_file (ag_settings a)))) a of
        (False, a1) \<Rightarrow> (False, a1)
      | (True, a1) \<Rightarrow>
          let old_grant = fc_grant (file_now a1)
          in case update_file (\<lambda>f. file_retarget broker_url (f\<lparr>fc_grant := None\<rparr>)) a1 of
            (saved, a2) \<Rightarrow>
              let a3 = restart_probe (en_now e) (invalidate_broker_snapshot a2);
                  a4 = no_longer SignOutIdp (a3\<lparr>ag_cloud_sign_out := None\<rparr>);
                  a5 = reset_session (a4\<lparr>ag_cancel := True, ag_refresh_token := None\<rparr>)
              in (True, case old_grant of None \<Rightarrow> a5 | Some g \<Rightarrow> snd (give_up_captured_grant old_broker g saved False a5)))"

definition agent_init :: "agent_env \<Rightarrow> bool \<Rightarrow> policy \<Rightarrow> config_disk option \<Rightarrow> login_entry \<Rightarrow> agent" where
  "agent_init e windows pol disk entry =
     (case enforce_autostart (settings_load windows pol disk) entry of
        (_, st, entry') \<Rightarrow>
          case adopt_existing_ticket e (agent_new e st entry') of
            (reinject, a1) \<Rightarrow>
              let a2 = (if reinject then start_worker e ByStartup a1 else a1)
              in if ag_busy a2 then a2 else discover_in_background e a2)"

section \<open>The timer\<close>

record tick_due =
  du_redraw :: bool
  du_notice :: "agent_notice option"
  du_probe :: bool
  du_start :: "trigger option"

definition no_due :: tick_due where
  "no_due = \<lparr>du_redraw = False, du_notice = None, du_probe = False, du_start = None\<rparr>"

definition reached :: "int option \<Rightarrow> int \<Rightarrow> bool" where
  "reached at now \<longleftrightarrow> (case at of None \<Rightarrow> False | Some t \<Rightarrow> now \<ge> t)"

definition grant_deadline_due :: "agent_env \<Rightarrow> agent \<Rightarrow> agent_notice option" where
  "grant_deadline_due e a =
     (let now = en_now e
      in if interruption_gate a \<noteq> Allow then None
         else case settings_grant a of
           None \<Rightarrow> None
         | Some g \<Rightarrow>
             let deadline = sg_sign_in_required_by g
             in if deadline \<le> now \<or> deadline - now > GRANT_DUE_SOON_SECS then None
                else if (case ag_grant_notified_at a of None \<Rightarrow> False | Some t \<Rightarrow> now - t < GRANT_NOTIFY_INTERVAL) then None
                else if (case en_idle e of None \<Rightarrow> False | Some idle \<Rightarrow> idle > PRESENT_SECS) then None
                else Some (Copy ''notify_grant_due_title'' [(''days'', DayCount (max ((deadline - now + 86399) sdiv 86400) 1))],
                           Copy ''notify_grant_due_body'' [(''realm'', Verbatim (kb_realm (ag_kerberos a))), (''date'', DateOf deadline)],
                           WarningNotice))"

definition tick_deadline :: "agent_env \<Rightarrow> tick_due \<times> agent \<Rightarrow> tick_due \<times> agent" where
  "tick_deadline e da =
     (case da of (d, a) \<Rightarrow>
        case grant_deadline_due e a of
          None \<Rightarrow> (d, a)
        | Some n \<Rightarrow> (d\<lparr>du_notice := Some n\<rparr>, a\<lparr>ag_grant_notified_at := Some (en_now e)\<rparr>))"

definition tick_probe :: "agent_env \<Rightarrow> bool \<Rightarrow> tick_due \<times> agent \<Rightarrow> tick_due \<times> agent" where
  "tick_probe e busy da =
     (case da of (d, a) \<Rightarrow>
        if reached (ag_probe_at a) (en_now e) \<and> \<not> busy \<and> ag_probe_in_flight a = None
        then let b = next_backoff (ag_probe_backoff a) PROBE_FIRST_SECS PROBE_MAX_SECS
             in (d\<lparr>du_probe := True\<rparr>, a\<lparr>ag_probe_backoff := b, ag_probe_at := Some (en_now e + b)\<rparr>)
        else (d, a))"

definition tick_expiry :: "agent_env \<Rightarrow> tick_due \<times> agent \<Rightarrow> tick_due \<times> agent" where
  "tick_expiry e da =
     (case da of (d, a) \<Rightarrow>
        if ag_phase a = Connected \<and> en_now e \<ge> ag_end a
        then let a1 = with_loss (\<lambda>l. l\<lparr>tl_absent := False, tl_retry_at := None\<rparr>) (a\<lparr>ag_phase := Lapsed\<rparr>);
                 d1 = d\<lparr>du_redraw := True\<rparr>
             in (if ag_refresh_at a = None
                 then d1\<lparr>du_notice := Some (Copy ''notify_stopped_title'' [(''realm'', Verbatim (kb_realm (ag_kerberos a)))],
                                               Copy ''notify_stopped_body'' [], ErrorNotice)\<rparr>
                 else d1, a1)
        else (d, a))"

definition tick_overdue :: "agent_env \<Rightarrow> bool \<Rightarrow> tick_due \<times> agent \<Rightarrow> tick_due \<times> agent" where
  "tick_overdue e busy da =
     (case da of (d, a) \<Rightarrow>
        if reached (ag_refresh_at a) (en_now e) \<and> \<not> busy
        then (d\<lparr>du_start := Some ByRenewal\<rparr>, a\<lparr>ag_refresh_at := Some (en_now e + MIN_REFRESH_DELAY)\<rparr>)
        else (d, a))"

definition tick_startup :: "agent_env \<Rightarrow> bool \<Rightarrow> tick_due \<times> agent \<Rightarrow> tick_due \<times> agent" where
  "tick_startup e busy da =
     (case da of (d, a) \<Rightarrow>
        if reached (ag_startup_retry_at a) (en_now e) \<and> \<not> busy
        then (if ag_phase a = SignedOut \<or> ag_phase a = Failed then d\<lparr>du_start := Some ByStartup\<rparr> else d,
              a\<lparr>ag_startup_retry_at := None\<rparr>)
        else (d, a))"

text \<open>Whether the ticket is in the cache; \<open>None\<close> is a query that failed.\<close>

definition tgt_present :: "agent_env \<Rightarrow> agent \<Rightarrow> bool option" where
  "tgt_present e a = map_option (\<lambda>t. t \<noteq> None) (en_tgt e (kb_realm (ag_kerberos a)))"

definition tick_look :: "agent_env \<Rightarrow> bool \<Rightarrow> tick_due \<times> agent \<Rightarrow> bool option option \<times> tick_due \<times> agent" where
  "tick_look e busy da =
     (case da of (d, a) \<Rightarrow>
        if en_now e \<ge> ag_loss_check_at a \<and> kb_realm (ag_kerberos a) \<noteq> [] \<and> \<not> busy
        then let a1 = a\<lparr>ag_loss_check_at := en_now e + LOSS_POLL_SECS\<rparr>; p = tgt_present e a1
             in (Some p,
                 if p = Some False \<and> \<not> tl_absent (ag_loss a1)
                 then (d\<lparr>du_redraw := True\<rparr>, loss_observed e (silent_supply_at e a1) a1)
                 else if p = Some True \<and> tl_absent (ag_loss a1) then (d\<lparr>du_redraw := True\<rparr>, loss_present a1)
                 else (d, a1))
        else (None, d, a))"

definition tick_recover :: "agent_env \<Rightarrow> bool \<Rightarrow> bool option option \<times> tick_due \<times> agent \<Rightarrow> tick_due \<times> agent" where
  "tick_recover e busy sda =
     (case sda of (seen, d, a) \<Rightarrow>
        if tl_absent (ag_loss a) \<and> reached (tl_retry_at (ag_loss a)) (en_now e) \<and> \<not> busy
        then case (case seen of Some p \<Rightarrow> p | None \<Rightarrow> tgt_present e a) of
               None \<Rightarrow> (d, with_loss (\<lambda>l. l\<lparr>tl_retry_at := Some (en_now e + LOSS_POLL_SECS)\<rparr>) a)
             | Some True \<Rightarrow> (d\<lparr>du_redraw := True\<rparr>, loss_present a)
             | Some False \<Rightarrow>
                 (d\<lparr>du_start := Some ByRenewal\<rparr>,
                  with_loss (\<lambda>l. l\<lparr>tl_retry_at := Some (en_now e + loss_delay e (tl_streak l + 1))\<rparr>) a)
        else (d, a))"

definition tick_refresh :: "agent_env \<Rightarrow> bool \<Rightarrow> tick_due \<times> agent \<Rightarrow> tick_due \<times> agent" where
  "tick_refresh e busy da =
     (case da of (d, a) \<Rightarrow>
        if reached (ag_refresh_at a) (en_now e) \<and> \<not> busy
        then let a1 = (if tl_streak (ag_loss a) > 0 \<and> \<not> tl_absent (ag_loss a) then a\<lparr>ag_loss := no_loss\<rparr> else a)
             in (d\<lparr>du_start := Some ByRenewal\<rparr>, a1\<lparr>ag_refresh_at := Some (midpoint e (en_now e) (ag_end a1))\<rparr>)
        else (d, a))"

definition tick_escalate :: "agent_env \<Rightarrow> tick_due \<times> agent \<Rightarrow> tick_due \<times> agent" where
  "tick_escalate e da =
     (case da of (d, a) \<Rightarrow>
        if \<not> ag_escalated a \<and> ag_silent_failed a \<and> ag_end a - en_now e \<le> ESCALATE_SECS
        then (d\<lparr>du_redraw := True,
                du_notice := Some (Copy ''notify_expiring_title''
                    [(''realm'', Verbatim (kb_realm (ag_kerberos a))), (''duration'', Duration (ag_end a - en_now e))],
                  Copy ''notify_expiring_body'' [], WarningNotice)\<rparr>,
              a\<lparr>ag_escalated := True\<rparr>)
        else (d, a))"

definition tick_at :: "agent_env \<Rightarrow> bool \<Rightarrow> agent \<Rightarrow> tick_due \<times> agent" where
  "tick_at e busy a =
     (let da = tick_expiry e (tick_probe e busy (tick_deadline e (no_due, a)))
      in if ag_phase (snd da) = Lapsed then tick_overdue e busy da
         else if ag_phase (snd da) \<noteq> Connected then tick_startup e busy da
         else tick_escalate e (tick_refresh e busy (tick_recover e busy (tick_look e busy da))))"

definition agent_tick :: "agent_env \<Rightarrow> agent \<Rightarrow> bool \<times> agent" where
  "agent_tick e a =
     (case tick_at e (ag_busy a) a of
        (d, a1) \<Rightarrow>
          let a2 = announce (du_notice d) a1;
              a3 = (case du_start d of None \<Rightarrow> a2 | Some t \<Rightarrow> start_worker e t a2);
              a4 = (if du_probe d \<and> \<not> ag_busy a3 then discover_in_background e a3 else a3)
          in (du_redraw d, a4))"

end
