(* ===== verification/KB_AgentWorker.thy ===== *)
theory KB_AgentWorker
  imports KB_AgentCore
begin

text \<open>
  The agent's threads and verbs (\<open>agent/worker.rs\<close>, \<open>agent/failure.rs\<close>, \<open>agent/commands.rs\<close>,
  \<open>agent/status.rs\<close> of \<open>client/kerbridge-client/src\<close>). What a thread does is a function of the answers
  it gets from the broker, the identity provider, the platform and the desktop thread, and yields the
  calls it made in order; what the desktop thread does with its report is a function on the agent.
\<close>

section \<open>Failures and their sentences\<close>

text \<open>What the client reads out of an error chain, and its rendering.\<close>

record any_error =
  ae_untrusted :: "str option"
  ae_ambiguous :: "str list option"
  ae_refused :: "(str \<times> str) option"
  ae_timed_out :: bool
  ae_text :: str

datatype client_error =
    BadRequest str | InvalidProof str | NotAdmitted str | NoSuchDevice str | CapReached str | RateLimited
  | ServerUnavailable str | UnexpectedStatus nat str | Unreachable str | UntrustedBroker str | BadResponse str

datatype inject_error = InjectBroker client_error | InjectLocal str

type_synonym leg_failure = "fault option \<times> copy"

definition REFUSED_NOT_GRANTED :: str where
  "REFUSED_NOT_GRANTED = lit ''account may not authorize a device''"

definition REFUSED_GRANTS_DISABLED :: str where
  "REFUSED_GRANTS_DISABLED = lit ''device grants are not enabled''"

definition REFUSED_NOT_DELEGATE :: str where
  "REFUSED_NOT_DELEGATE = lit ''you may not authorize a device for that account''"

function strip_all :: "str \<Rightarrow> str \<Rightarrow> str" where
  "strip_all p s = (if p \<noteq> [] \<and> starts_with s p then strip_all p (drop (length p) s) else s)"
  by auto
termination
proof (relation "measure (\<lambda>(p, s). length s)")
  fix p s :: str
  assume "p \<noteq> [] \<and> starts_with s p"
  then show "((p, drop (length p) s), p, s) \<in> measure (\<lambda>(p, s). length s)"
    by (cases s) (auto simp: starts_with_def)
qed simp

declare strip_all.simps [simp del]

definition host_of :: "str \<Rightarrow> str" where
  "host_of url = trim_end_by (\<lambda>c. c = c_slash) (strip_all (lit ''http://'') (strip_all (lit ''https://'') url))"

definition explain :: "string \<Rightarrow> (string \<times> str) list \<Rightarrow> copy" where
  "explain k args = Copy k (map (\<lambda>(n, v). (n, Verbatim v)) args)"

definition describe_discovery_error :: "any_error \<Rightarrow> str \<Rightarrow> leg_failure" where
  "describe_discovery_error er url =
     (case ae_untrusted er of
        Some h \<Rightarrow> (Some NetworkFault, explain ''err_tls_untrusted'' [(''broker'', h)])
      | None \<Rightarrow>
          (case ae_ambiguous er of
             Some ss \<Rightarrow> (Some OtherFault, explain ''err_broker_ambiguous_source''
                            [(''broker'', host_of url), (''sources'', join_with (lit '', '') ss)])
           | None \<Rightarrow> (Some NetworkFault, explain ''err_broker_unreachable'' [(''broker'', host_of url), (''detail'', ae_text er)])))"

definition describe_token_error :: "any_error \<Rightarrow> string \<Rightarrow> leg_failure" where
  "describe_token_error er template =
     (case ae_untrusted er of
        Some h \<Rightarrow> (Some NetworkFault, explain ''err_tls_untrusted'' [(''broker'', h)])
      | None \<Rightarrow>
          (case ae_refused er of
             Some (issuer, reason) \<Rightarrow> (Some RefusedFault, explain ''err_idp_refused'' [(''issuer'', issuer), (''detail'', reason)])
           | None \<Rightarrow>
               if ae_timed_out er then (Some OtherFault, explain ''err_sign_in_timeout'' [])
               else (Some OtherFault, explain template [(''detail'', ae_text er)])))"

fun transport_failure :: "client_error \<Rightarrow> str \<Rightarrow> leg_failure option" where
  "transport_failure (InvalidProof m) b = Some (Some RefusedFault, explain ''err_invalid_proof'' [(''broker'', b), (''detail'', m)])"
| "transport_failure RateLimited b = Some (Some NetworkFault, explain ''err_rate_limited'' [(''broker'', b), (''detail'', [])])"
| "transport_failure (ServerUnavailable m) b = Some (Some NetworkFault, explain ''err_server_unavailable'' [(''broker'', b), (''detail'', m)])"
| "transport_failure (Unreachable m) b = Some (Some NetworkFault, explain ''err_broker_unreachable'' [(''broker'', b), (''detail'', m)])"
| "transport_failure (UntrustedBroker _) b = Some (Some NetworkFault, explain ''err_tls_untrusted'' [(''broker'', b), (''detail'', [])])"
| "transport_failure (BadRequest m) b = Some (Some OtherFault, explain ''err_bad_request'' [(''broker'', b), (''detail'', m)])"
| "transport_failure (BadResponse m) b = Some (Some OtherFault, explain ''err_broker_protocol'' [(''broker'', b), (''detail'', m)])"
| "transport_failure (UnexpectedStatus c m) b =
     Some (Some OtherFault, explain ''err_broker_protocol'' [(''broker'', b), (''detail'', show_dec c @ lit '': '' @ m)])"
| "transport_failure _ b = None"

text \<open>The rendering of a broker error in full, as \<open>Display\<close> writes it.\<close>

fun show_client_error :: "client_error \<Rightarrow> str" where
  "show_client_error (BadRequest m) = lit ''broker rejected the request as malformed: '' @ m"
| "show_client_error (InvalidProof m) = lit ''broker rejected the identity proof: '' @ m"
| "show_client_error (NotAdmitted m) = lit ''the broker refused this account: '' @ m"
| "show_client_error (NoSuchDevice m) = lit ''no such device on this account: '' @ m"
| "show_client_error (CapReached m) = lit ''too many devices already authorized: '' @ m"
| "show_client_error RateLimited = lit ''broker is rate limiting; back off and retry''"
| "show_client_error (ServerUnavailable m) = lit ''broker dependency unavailable: '' @ m"
| "show_client_error (UnexpectedStatus c m) = lit ''unexpected broker status '' @ show_dec c @ lit '': '' @ m"
| "show_client_error (Unreachable m) = lit ''broker unreachable: '' @ m"
| "show_client_error (UntrustedBroker m) = lit ''broker certificate not trusted: '' @ m"
| "show_client_error (BadResponse m) = lit ''broker response not understood: '' @ m"

definition describe_grant_error :: "client_error \<Rightarrow> str \<Rightarrow> leg_failure" where
  "describe_grant_error er b =
     (case er of
        CapReached m \<Rightarrow> (Some GrantRefusedFault, explain ''err_grant_too_many'' [(''detail'', m)])
      | NotAdmitted m \<Rightarrow>
          if m = REFUSED_NOT_DELEGATE then (Some GrantRefusedFault, explain ''err_grant_not_delegate'' [(''detail'', m)])
          else (Some GrantRefusedFault, explain ''err_grant_not_allowed'' [(''detail'', m)])
      | other \<Rightarrow> (case transport_failure other b of Some f \<Rightarrow> f
                  | None \<Rightarrow> (Some OtherFault, explain ''err_grant_failed'' [(''detail'', show_client_error other)])))"

definition describe_inject_error :: "inject_error \<Rightarrow> str \<Rightarrow> leg_failure" where
  "describe_inject_error er b =
     (case er of
        InjectLocal m \<Rightarrow> (Some OtherFault, explain ''err_internal'' [(''detail'', m)])
      | InjectBroker (NotAdmitted m) \<Rightarrow>
          if m = REFUSED_NOT_GRANTED then (Some GrantRefusedFault, explain ''err_grant_not_allowed'' [(''detail'', m)])
          else if m = REFUSED_GRANTS_DISABLED then (Some GrantRefusedFault, explain ''err_grant_disabled'' [])
          else (Some RefusedFault, explain ''err_not_admitted'' [(''detail'', m)])
      | InjectBroker other \<Rightarrow> (case transport_failure other b of Some f \<Rightarrow> f
                  | None \<Rightarrow> (Some OtherFault, explain ''err_internal'' [(''detail'', show_client_error other)])))"

section \<open>What a thread reports\<close>

record injected =
  ij_principal :: str
  ij_start :: int
  ij_end :: int
  ij_renew_till :: int

datatype refresh_update = KeepToken | SetToken "str option"

record worker_effects =
  we_refresh_token :: refresh_update
  we_browser_session_started :: bool
  we_stale_grant :: "stored_grant option"
  we_injection_realm :: "str option"

definition no_effects :: worker_effects where
  "no_effects = \<lparr>we_refresh_token = KeepToken, we_browser_session_started = False, we_stale_grant = None, we_injection_realm = None\<rparr>"

datatype agent_event =
    SignedIn discovery_stamp injected str worker_effects "str option"
  | SignInFailed discovery_stamp worker_effects "fault option" copy trigger
  | Cancelled discovery_stamp worker_effects
  | ElevatedFinished ui_action outcome bool
  | BrokerLookup nat "str option"
  | Discovered discovery_stamp broker_snapshot bool
  | DiscoveryFailed discovery_stamp
  | CurrentQuery discovery_stamp
  | GrantCreated discovery_stamp stored_grant str worker_effects
  | GrantFailed discovery_stamp worker_effects "fault option" copy
  | CloudSignedOut discovery_stamp bool
  | StaleGrantCompensated discovery_stamp
  | GrantGivenUp nat "str option" bool bool bool
  | ElevationGranted ui_action

section \<open>The threads\<close>

record client_broker_config =
  bc_base_url :: str
  bc_realm :: str
  bc_device_grant :: device_grant_config

record tokens =
  tk_access :: str
  tk_refresh :: "str option"

text \<open>The answers one thread gets, in the order it can ask for them.\<close>

record legs =
  lg_document :: "any_error + unit"
  lg_published :: bool
  lg_oidc :: "any_error + client_broker_config"
  lg_current :: "nat \<Rightarrow> bool"
  lg_grant :: "inject_error + injected"
  lg_native :: "str option"
  lg_saved_refresh :: "str option"
  lg_refresh :: "any_error + tokens"
  lg_login :: "any_error + tokens option"
  lg_inject :: "inject_error + injected"
  lg_register :: "(client_error + str) + stored_grant"

datatype leg =
    FetchDocument str | PublishDocument | FetchOidc | AskCurrent nat | ProveGrant str stored_grant
  | AskNative | SpendRefresh str | OpenBrowser | InjectToken str str | RegisterDevice str str str "str option"

type_synonym 'a leg_run = "(leg_failure + 'a option) \<times> worker_effects \<times> leg list"

definition after :: "leg list \<Rightarrow> 'a leg_run \<Rightarrow> 'a leg_run" where
  "after calls r = (case r of (x, eff, cs) \<Rightarrow> (x, eff, calls @ cs))"

text \<open>A check with the desktop thread that the request is still the current one.\<close>

definition if_current :: "legs \<Rightarrow> nat \<Rightarrow> worker_effects \<Rightarrow> 'a leg_run \<Rightarrow> 'a leg_run" where
  "if_current l k eff r = (if lg_current l k then after [AskCurrent k] r else (Inr None, eff, [AskCurrent k]))"

definition acquire_token :: "bool \<Rightarrow> bool \<Rightarrow> legs \<Rightarrow> worker_effects \<Rightarrow> str leg_run" where
  "acquire_token silent use_native l eff =
     (if use_native \<and> lg_native l \<noteq> None then (Inr (lg_native l), eff, [AskNative])
      else after (if use_native then [AskNative] else [])
        (if silent
         then (case lg_saved_refresh l of
                 None \<Rightarrow> (Inl (None, Copy (if use_native then ''err_wam_empty'' else ''err_browser_required'') []), eff, [])
               | Some saved \<Rightarrow>
                   (case lg_refresh l of
                      Inl er \<Rightarrow> (Inl (describe_token_error er ''err_silent_refresh''), eff, [SpendRefresh saved])
                    | Inr t \<Rightarrow>
                        (Inr (Some (tk_access t)),
                         (if tk_refresh t = None then eff else eff\<lparr>we_refresh_token := SetToken (tk_refresh t)\<rparr>), [SpendRefresh saved])))
         else (case lg_login l of
                 Inl er \<Rightarrow> (Inl (describe_token_error er ''err_sign_in''), eff, [OpenBrowser])
               | Inr None \<Rightarrow> (Inr None, eff, [OpenBrowser])
               | Inr (Some t) \<Rightarrow>
                   (Inr (Some (tk_access t)), eff\<lparr>we_refresh_token := SetToken (tk_refresh t), we_browser_session_started := True\<rparr>,
                    [OpenBrowser]))))"

definition sign_in_by_token ::
  "client_broker_config \<Rightarrow> bool \<Rightarrow> bool \<Rightarrow> str option \<Rightarrow> leg_failure option \<Rightarrow> legs \<Rightarrow> worker_effects
     \<Rightarrow> (injected \<times> str option \<times> str) leg_run" where
  "sign_in_by_token cfg silent use_native pin refused l eff =
     (case pin of
        Some target \<Rightarrow>
          (Inl (case refused of Some f \<Rightarrow> f | None \<Rightarrow> (None, explain ''err_grant_reauthorize'' [(''target'', target)])), eff, [])
      | None \<Rightarrow>
          if_current l 1 eff
            (case acquire_token silent use_native l eff of
               (Inl f, eff1, cs) \<Rightarrow> (Inl f, eff1, cs)
             | (Inr None, eff1, cs) \<Rightarrow> (Inr None, eff1, cs)
             | (Inr (Some tok), eff1, cs) \<Rightarrow>
                 after cs (if_current l 2 eff1
                   (let eff2 = eff1\<lparr>we_injection_realm := Some (bc_realm cfg)\<rparr>
                    in (case lg_inject l of
                          Inr ij \<Rightarrow> Inr (Some (ij, None, bc_realm cfg))
                        | Inl er \<Rightarrow> Inl (describe_inject_error er (host_of (bc_base_url cfg))),
                        eff2, [InjectToken (bc_base_url cfg) tok])))))"

definition sign_in_by_grant ::
  "client_broker_config \<Rightarrow> bool \<Rightarrow> bool \<Rightarrow> stored_grant \<Rightarrow> str option \<Rightarrow> legs \<Rightarrow> (injected \<times> str option \<times> str) leg_run" where
  "sign_in_by_grant cfg silent use_native g pin l =
     (let eff = no_effects\<lparr>we_injection_realm := Some (bc_realm cfg)\<rparr>
      in after [ProveGrant (bc_base_url cfg) g]
        (case lg_grant l of
           Inr ij \<Rightarrow> (Inr (Some (ij, Some (sg_grant_id g), bc_realm cfg)), eff, [])
         | Inl er \<Rightarrow>
             (case er of
                InjectBroker (NotAdmitted why) \<Rightarrow>
                  if why = REFUSED_GRANTS_DISABLED \<or> why = REFUSED_NOT_GRANTED
                  then sign_in_by_token cfg silent use_native pin
                         (Some (Some GrantRefusedFault, explain ''err_not_admitted'' [(''detail'', why)])) l eff
                  else (Inl (describe_inject_error er (host_of (bc_base_url cfg))), eff, [])
              | InjectBroker (InvalidProof why) \<Rightarrow>
                  sign_in_by_token cfg silent use_native pin None l (eff\<lparr>we_stale_grant := Some g\<rparr>)
              | _ \<Rightarrow> (Inl (describe_inject_error er (host_of (bc_base_url cfg))), eff, []))))"

definition discovered_run :: "discovery_stamp \<Rightarrow> legs \<Rightarrow> (client_broker_config \<Rightarrow> 'a leg_run) \<Rightarrow> 'a leg_run" where
  "discovered_run s l next =
     (case lg_document l of
        Inl er \<Rightarrow> (Inl (describe_discovery_error er (dst_url s)), no_effects, [FetchDocument (dst_url s)])
      | Inr _ \<Rightarrow>
          if \<not> lg_published l then (Inr None, no_effects, [FetchDocument (dst_url s), PublishDocument])
          else after [FetchDocument (dst_url s), PublishDocument, FetchOidc]
            (case lg_oidc l of
               Inl er \<Rightarrow> (Inl (describe_discovery_error er (dst_url s)), no_effects, [])
             | Inr cfg \<Rightarrow> next cfg))"

definition run_sign_in ::
  "discovery_stamp \<Rightarrow> bool \<Rightarrow> bool \<Rightarrow> stored_grant option \<Rightarrow> str option \<Rightarrow> legs \<Rightarrow> (injected \<times> str option \<times> str) leg_run" where
  "run_sign_in s silent use_native g pin l =
     discovered_run s l (\<lambda>cfg.
       if_current l 0 no_effects
         (case g of
            None \<Rightarrow> sign_in_by_token cfg silent use_native pin None l no_effects
          | Some g' \<Rightarrow> sign_in_by_grant cfg silent use_native g' pin l))"

text \<open>The report of the sign-in thread; a panic is reported with what the run had noted by then.\<close>

definition sign_in_report :: "discovery_stamp \<Rightarrow> trigger \<Rightarrow> bool \<Rightarrow> (injected \<times> str option \<times> str) leg_run \<Rightarrow> agent_event" where
  "sign_in_report s t panicked r =
     (case r of (x, eff, _) \<Rightarrow>
        if panicked
        then SignInFailed s eff (Some OtherFault) (explain ''err_internal'' [(''detail'', lit ''panic in the sign-in worker'')]) t
        else case x of
          Inr (Some (ij, via, realm)) \<Rightarrow> SignedIn s ij realm eff via
        | Inr None \<Rightarrow> Cancelled s eff
        | Inl (f, m) \<Rightarrow> SignInFailed s eff f m t)"

definition run_create_grant :: "discovery_stamp \<Rightarrow> bool \<Rightarrow> str option \<Rightarrow> legs \<Rightarrow> (stored_grant \<times> str) leg_run" where
  "run_create_grant s use_native target l =
     discovered_run s l (\<lambda>cfg.
       if \<not> device_grants_enabled (bc_device_grant cfg)
       then (Inl (Some GrantRefusedFault, Copy ''err_grant_disabled'' []), no_effects, [])
       else if_current l 0 no_effects
         (case acquire_token False use_native l no_effects of
            (Inl f, eff, cs) \<Rightarrow> (Inl f, eff, cs)
          | (Inr None, eff, cs) \<Rightarrow> (Inr None, eff, cs)
          | (Inr (Some tok), eff, cs) \<Rightarrow>
              after cs (if_current l 1 eff
                (case lg_register l of
                   Inr g \<Rightarrow> Inr (Some (g, bc_base_url cfg))
                 | Inl (Inl er) \<Rightarrow> Inl (describe_grant_error er (host_of (bc_base_url cfg)))
                 | Inl (Inr m) \<Rightarrow> Inl (Some OtherFault, explain ''err_grant_key'' [(''detail'', m)]),
                 eff, [RegisterDevice (bc_base_url cfg) tok (dg_audience (bc_device_grant cfg)) target]))))"

definition create_grant_report :: "discovery_stamp \<Rightarrow> bool \<Rightarrow> (stored_grant \<times> str) leg_run \<Rightarrow> agent_event" where
  "create_grant_report s panicked r =
     (case r of (x, eff, _) \<Rightarrow>
        if panicked
        then GrantFailed s eff (Some OtherFault) (explain ''err_internal'' [(''detail'', lit ''panic in the authorize worker'')])
        else case x of
          Inr (Some (g, url)) \<Rightarrow> GrantCreated s g url eff
        | Inr None \<Rightarrow> Cancelled s eff
        | Inl (f, m) \<Rightarrow> GrantFailed s eff f m)"

section \<open>Starting the other threads\<close>

definition begin_cloud_sign_out :: "agent \<Rightarrow> bool \<times> agent" where
  "begin_cloud_sign_out a =
     (if ag_busy a then (False, a)
      else if \<not> fc_browser_session (st_file (ag_settings a)) \<or> ag_cloud_sign_out a \<noteq> None then (False, a)
      else case advance_discovery a of
          (None, a1) \<Rightarrow> (False, a1)
        | (Some s, a1) \<Rightarrow>
            (True, spawned (CloudSignOutJob s)
               ((started SignOutIdp a1)\<lparr>ag_cloud_sign_out := Some s, ag_refresh_token := None\<rparr>)))"

text \<open>Whether the authority was asked: the cloud sign-out thread.\<close>

definition run_cloud_sign_out :: "discovery_stamp \<Rightarrow> legs \<Rightarrow> bool \<Rightarrow> agent_event" where
  "run_cloud_sign_out s l logged_out =
     CloudSignedOut s (case lg_document l of
        Inl _ \<Rightarrow> False
      | Inr _ \<Rightarrow> lg_published l \<and> (case lg_oidc l of Inl _ \<Rightarrow> False | Inr _ \<Rightarrow> lg_current l 0 \<and> logged_out))"

definition give_up_grant :: "str option \<Rightarrow> agent \<Rightarrow> bool \<times> agent" where
  "give_up_grant broker a =
     (if ag_busy a \<or> ag_cleaning a then (False, a)
      else case update_file (\<lambda>f. if fc_grant f = None then f else f\<lparr>fc_grant := None, fc_expected_working_as := None\<rparr>) a of
        (saved, a1) \<Rightarrow>
          (case fc_grant (file_now a) of None \<Rightarrow> (False, a1) | Some g \<Rightarrow> give_up_captured_grant broker g saved True a1))"

definition create_grant :: "agent \<Rightarrow> bool \<times> agent" where
  "create_grant a =
     (if ag_cleaning a \<or> ag_cloud_sign_out a \<noteq> None \<or> ag_busy a then (False, a)
      else case advance_discovery (a\<lparr>ag_cancel := False\<rparr>) of
          (None, a1) \<Rightarrow> (False, a1)
        | (Some s, a1) \<Rightarrow>
            (True, spawned (CreateGrantJob s (windows_sign_in (ag_settings a1)) (grant_for (ag_settings a1)))
               (started_busy s CreateGrant (a1\<lparr>ag_busy := True\<rparr>))))"

definition spawn_elevated :: "str list \<Rightarrow> bool \<Rightarrow> ui_action \<Rightarrow> agent \<Rightarrow> bool \<times> agent" where
  "spawn_elevated args recheck act a =
     (if ag_busy a then (False, a) else (True, spawned (ElevatedJob act args recheck) (started act (a\<lparr>ag_busy := True\<rparr>))))"

definition for_broker :: "string \<Rightarrow> ui_action \<Rightarrow> agent \<Rightarrow> bool \<times> agent" where
  "for_broker flag act a =
     (case client_broker_url (ag_settings a) of None \<Rightarrow> (False, a) | Some b \<Rightarrow> spawn_elevated [lit flag, b] True act a)"

definition begin_enroll :: "agent \<Rightarrow> bool \<times> agent" where "begin_enroll = for_broker ''--enroll'' Enroll"
definition begin_unenroll :: "agent \<Rightarrow> bool \<times> agent" where "begin_unenroll = for_broker ''--unenroll'' Unenroll"
definition begin_reenroll :: "agent \<Rightarrow> bool \<times> agent" where "begin_reenroll = for_broker ''--reenroll'' Reenroll"
definition begin_repair :: "agent \<Rightarrow> bool \<times> agent" where "begin_repair = spawn_elevated [lit ''--repair''] False RestartWorkstation"

datatype elevated = ElevationDeclined | ElevationUnavailable | RanElevated int

text \<open>What the elevated child came to: its exit code and the sentence it left, if any.\<close>

definition elevated_outcome :: "str + elevated \<Rightarrow> str option \<Rightarrow> outcome" where
  "elevated_outcome finish sentence =
     (case finish of
        Inl er \<Rightarrow> FailedWith (explain ''err_elevation_failed'' [(''detail'', er)])
      | Inr ElevationDeclined \<Rightarrow> Declined
      | Inr ElevationUnavailable \<Rightarrow> FailedWith (Copy ''err_elevation_unavailable'' [])
      | Inr (RanElevated code) \<Rightarrow>
          (case map_option trim sentence of
             None \<Rightarrow> FailedWith (Copy ''err_elevated_unconfirmed'' [])
           | Some s \<Rightarrow>
               if s = [] then FailedWith (Copy ''err_elevated_unconfirmed'' [])
               else if code = 0 then DoneWith (Verbatim s) None else FailedWith (Verbatim s)))"

section \<open>Applying a report\<close>

definition same_grant :: "stored_grant \<Rightarrow> stored_grant \<Rightarrow> bool" where
  "same_grant g h \<longleftrightarrow> sg_grant_id g = sg_grant_id h \<and> sg_sign_in_required_by g = sg_sign_in_required_by h"

definition effects_on_file :: "worker_effects \<Rightarrow> file_config \<Rightarrow> file_config" where
  "effects_on_file w f =
     (let f1 = f\<lparr>fc_browser_session := fc_browser_session f \<or> we_browser_session_started w\<rparr>
      in case (we_stale_grant w, fc_grant f1) of
           (Some stale, Some g) \<Rightarrow> if same_grant g stale then f1\<lparr>fc_grant := None\<rparr> else f1
         | _ \<Rightarrow> f1)"

definition apply_effects :: "worker_effects \<Rightarrow> agent \<Rightarrow> agent" where
  "apply_effects w a =
     updated_file (effects_on_file w)
       (case we_refresh_token w of KeepToken \<Rightarrow> a | SetToken t \<Rightarrow> a\<lparr>ag_refresh_token := t\<rparr>)"

record shared =
  sh_pending :: "agent_notice option"
  sh_finished :: "(ui_action \<times> outcome) option"
  sh_grant_sign_in :: bool
  sh_elevating :: "ui_action option"

definition no_shared :: shared where
  "no_shared = \<lparr>sh_pending = None, sh_finished = None, sh_grant_sign_in = False, sh_elevating = None\<rparr>"

definition ready_notice :: "agent_env \<Rightarrow> agent \<Rightarrow> agent_notice" where
  "ready_notice e a =
     (Copy ''notify_ready_title'' [(''realm'', Verbatim (kb_realm (ag_kerberos a)))],
      Copy ''notify_ready_body''
        [(''identity'', Copy (if grant_for (ag_settings a) \<noteq> None then ''id_working_as'' else ''id_signed_in_as'')
            [(''account'', Verbatim (ag_principal a))]),
         (''duration'', Duration (ag_end a - en_now e))],
      InfoNotice)"

definition landed_session :: "agent_env \<Rightarrow> injected \<Rightarrow> agent \<Rightarrow> agent" where
  "landed_session e ij a =
     a\<lparr>ag_principal := ij_principal ij, ag_start := ij_start ij, ag_end := ij_end ij, ag_renew_till := ij_renew_till ij,
       ag_phase := Connected, ag_message := NoCopy, ag_fault := None, ag_first_failure_at := None, ag_silent_failed := False,
       ag_escalated := False, ag_refresh_backoff := 0, ag_refresh_at := Some (midpoint e (en_now e) (ij_end ij)),
       ag_startup_retry_at := None, ag_startup_retries := 0, ag_startup_backoff := 0,
       ag_just_authorized := (ag_just_authorized a \<and> ag_granted_pending a), ag_granted_pending := False,
       ag_loss_check_at := en_now e + LOSS_POLL_SECS\<rparr>"

definition apply_signed_in ::
  "agent_env \<Rightarrow> discovery_stamp \<Rightarrow> injected \<Rightarrow> worker_effects \<Rightarrow> str option \<Rightarrow> agent \<Rightarrow> shared \<times> agent" where
  "apply_signed_in e s ij w via a =
     (case loss_landed (apply_effects w (snd (finish_busy (en_now e) s False a))) of
        (recovered, a1) \<Rightarrow>
          let news = (ag_phase a1 \<noteq> Connected
                \<or> (\<not> recovered \<or> ag_escalated a1) \<and> (ag_fault a1 \<noteq> None \<or> ag_silent_failed a1));
              a2 = (case via of None \<Rightarrow> a1 | Some i \<Rightarrow> updated_file (\<lambda>f. snd (set_grant_principal i (ij_principal ij) f)) a1);
              a3 = expect True (landed_session e ij a2)
          in (no_shared\<lparr>sh_pending := (if news then Some (ready_notice e a3) else None)\<rparr>, a3))"

text \<open>A failure with a live ticket keeps the session and decides the next attempt.\<close>

definition failed_with_ticket :: "agent_env \<Rightarrow> fault option \<Rightarrow> bool \<Rightarrow> agent \<Rightarrow> agent" where
  "failed_with_ticket e f fresh_streak a =
     (let a1 = a\<lparr>ag_phase := Connected, ag_silent_failed := True\<rparr>
      in if tl_absent (ag_loss a1) then loss_failed e f a1
         else if f = Some NetworkFault
         then (let b = (if fresh_streak then MIN_REFRESH_DELAY else next_backoff (ag_refresh_backoff a1) MIN_REFRESH_DELAY PROBE_MAX_SECS)
               in a1\<lparr>ag_refresh_backoff := b, ag_refresh_at := Some (min (en_now e + b) (midpoint e (en_now e) (ag_end a1)))\<rparr>)
         else a1)"

definition failed_without_ticket :: "agent_env \<Rightarrow> fault option \<Rightarrow> trigger \<Rightarrow> agent \<Rightarrow> agent_notice option \<times> agent" where
  "failed_without_ticket e f t a =
     (let a1 = a\<lparr>ag_refresh_at := None, ag_phase := (if quiet_trigger t then SignedOut else Failed)\<rparr>;
          n = (if quiet_trigger t then None else Some (Copy ''cond_stopped'' [], ag_message a1, ErrorNotice));
          a2 = (if f = Some NetworkFault \<and> (quiet_trigger t \<or> silent_trigger t \<and> expected a1)
                then (let b = next_backoff (ag_startup_backoff a1) STARTUP_RETRY_SECS PROBE_MAX_SECS
                      in a1\<lparr>ag_startup_backoff := b, ag_startup_retry_at := Some (en_now e + b)\<rparr>)
                else if quiet_trigger t \<and> ag_startup_retries a1 > 0
                then a1\<lparr>ag_startup_retries := ag_startup_retries a1 - 1, ag_startup_backoff := 0,
                       ag_startup_retry_at := Some (en_now e + STARTUP_RETRY_BOUNDED_SECS)\<rparr>
                else a1\<lparr>ag_startup_retry_at := None, ag_startup_backoff := 0\<rparr>)
      in (n, a2))"

definition apply_sign_in_failed ::
  "agent_env \<Rightarrow> discovery_stamp \<Rightarrow> worker_effects \<Rightarrow> fault option \<Rightarrow> copy \<Rightarrow> trigger \<Rightarrow> agent \<Rightarrow> shared \<times> agent" where
  "apply_sign_in_failed e s w f m t a =
     (let a1 = apply_effects w (snd (finish_busy (en_now e) s False a));
          fresh_streak = (ag_first_failure_at a1 = None);
          a2 = record_fault (en_now e) f m a1
      in if holds_live_ticket_at a2 (en_now e) then (no_shared, failed_with_ticket e f fresh_streak a2)
         else case failed_without_ticket e f t a2 of (n, a3) \<Rightarrow> (no_shared\<lparr>sh_pending := n\<rparr>, a3))"

definition apply_lookup :: "agent_env \<Rightarrow> nat \<Rightarrow> str option \<Rightarrow> agent \<Rightarrow> agent" where
  "apply_lookup e gen url a =
     (case end_probe gen (en_now e) a of
        (ended, a1) \<Rightarrow>
          let a2 = a1\<lparr>ag_discovery_ended := (ag_discovery_ended a1 \<or> ended \<and> url = None)\<rparr>
          in case (if ended then url else None) of
               None \<Rightarrow> a2
             | Some u \<Rightarrow>
                 let a3 = restart_probe (en_now e) (a2\<lparr>ag_settings := set_discovered u (ag_settings a2)\<rparr>);
                     a4 = a3\<lparr>ag_awaits_broker := False\<rparr>
                 in if ag_awaits_broker a3 then a4\<lparr>ag_startup_retry_at := Some (en_now e)\<rparr> else a4)"

definition apply_grant_created :: "agent_env \<Rightarrow> discovery_stamp \<Rightarrow> stored_grant \<Rightarrow> worker_effects \<Rightarrow> agent \<Rightarrow> shared \<times> agent" where
  "apply_grant_created e s g w a =
     (let a1 = apply_effects w (snd (finish_busy (en_now e) s False a));
          left = DayCount (max ((sg_sign_in_required_by g - en_now e + 86399) sdiv 86400) 1)
      in case update_file (\<lambda>f. f\<lparr>fc_grant := Some g\<rparr>) a1 of
        (saved, a2) \<Rightarrow>
          let sign_in = (\<not> is_the_grants (settings_grant a2) (grant_for (ag_settings a2) \<noteq> None) (ag_principal a2)
                \<or> ag_phase a2 \<noteq> Connected);
              a3 = a2\<lparr>ag_just_authorized := True, ag_granted_pending := sign_in\<rparr>;
              a4 = note_copy (if fc_browser_session (st_file (ag_settings a3))
                     then explain ''granted_note'' [(''idp'', ag_idp_name a3)] else Copy ''granted_note_wam'' []) a3
          in (no_shared\<lparr>sh_grant_sign_in := sign_in,
                sh_finished := Some (CreateGrant, DoneWith (Copy ''grant_done'' [(''days'', left)])
                  (if saved then None else Some (Copy ''dlg_grant_unsaved'' [])))\<rparr>, a4))"

definition apply_given_up :: "nat \<Rightarrow> str option \<Rightarrow> bool \<Rightarrow> bool \<Rightarrow> bool \<Rightarrow> agent \<Rightarrow> shared \<times> agent" where
  "apply_given_up gen broker revoked saved report a =
     (case finish_grant_cleanup gen a of
        (False, a1) \<Rightarrow> (no_shared, a1)
      | (True, a1) \<Rightarrow>
          (if report
           then no_shared\<lparr>sh_finished := Some (GiveUpGrant, DoneWith (Copy ''dlg_grant_off_result'' [])
              (let told = explain (if revoked then ''dlg_grant_off_result_sub'' else ''dlg_grant_off_result_stale'')
                     [(''broker'', case broker of None \<Rightarrow> [] | Some b \<Rightarrow> host_of b)]
               in Some (if saved then told else Lines told (Copy ''dlg_grant_unsaved'' []))))\<rparr>
           else no_shared,
           a1\<lparr>ag_cleaning := False\<rparr>))"

definition apply_elevated :: "agent_env \<Rightarrow> ui_action \<Rightarrow> outcome \<Rightarrow> bool \<Rightarrow> agent \<Rightarrow> shared \<times> agent" where
  "apply_elevated e act oc recheck a =
     (let a1 = (if recheck \<and> kb_realm (ag_kerberos a) \<noteq> [] then a\<lparr>ag_enroll := en_enroll e (ag_kerberos a)\<rparr> else a);
          a2 = (case oc of
                  DoneWith _ _ \<Rightarrow> if act = RestartWorkstation then a1\<lparr>ag_loss := no_loss, ag_loss_check_at := 0\<rparr> else a1
                | FailedWith m \<Rightarrow> record_fault (en_now e) (Some OtherFault) m a1
                | Declined \<Rightarrow> a1)
      in (no_shared\<lparr>sh_finished := Some (act, oc)\<rparr>, a2))"

definition apply_shared :: "agent_env \<Rightarrow> agent_event \<Rightarrow> agent \<Rightarrow> shared \<times> agent" where
  "apply_shared e ev a =
     (case ev of
        SignedIn s ij _ w via \<Rightarrow> apply_signed_in e s ij w via a
      | SignInFailed s w f m t \<Rightarrow> apply_sign_in_failed e s w f m t a
      | Cancelled s w \<Rightarrow> (no_shared, settle_sign_in (en_now e) (apply_effects w (snd (finish_busy (en_now e) s False a))))
      | BrokerLookup gen url \<Rightarrow> (no_shared, apply_lookup e gen url a)
      | GrantCreated s g _ w \<Rightarrow> apply_grant_created e s g w a
      | GrantFailed s w f m \<Rightarrow>
          (no_shared\<lparr>sh_finished := Some (CreateGrant, FailedWith m)\<rparr>,
           record_fault (en_now e) f m (apply_effects w (snd (finish_busy (en_now e) s False a))))
      | CloudSignedOut s asked \<Rightarrow>
          (no_shared, let a1 = snd (finish_cloud_sign_out s a)
                      in if asked then updated_file (\<lambda>f. f\<lparr>fc_browser_session := False\<rparr>) a1 else a1)
      | GrantGivenUp gen broker revoked saved report \<Rightarrow> apply_given_up gen broker revoked saved report a
      | ElevationGranted act \<Rightarrow> (no_shared\<lparr>sh_elevating := Some act\<rparr>, a)
      | ElevatedFinished act oc recheck \<Rightarrow> apply_elevated e act oc recheck a
      | _ \<Rightarrow> (no_shared, a))"

text \<open>The stamp of a report that can be stale.\<close>

fun terminal_stamp :: "agent_event \<Rightarrow> discovery_stamp option" where
  "terminal_stamp (SignedIn s _ _ _ _) = Some s"
| "terminal_stamp (SignInFailed s _ _ _ _) = Some s"
| "terminal_stamp (Cancelled s _) = Some s"
| "terminal_stamp (GrantCreated s _ _ _) = Some s"
| "terminal_stamp (GrantFailed s _ _ _) = Some s"
| "terminal_stamp (CloudSignedOut s _) = Some s"
| "terminal_stamp _ = None"

definition reject_stale_terminal :: "agent_env \<Rightarrow> agent_event \<Rightarrow> agent \<Rightarrow> bool \<times> agent" where
  "reject_stale_terminal e ev a =
     (case ev of
        SignedIn s _ realm _ _ \<Rightarrow> finish_busy (en_now e) s True (snd (purge_realm e realm a))
      | SignInFailed s w _ _ _ \<Rightarrow>
          finish_busy (en_now e) s True (case we_injection_realm w of None \<Rightarrow> a | Some r \<Rightarrow> snd (purge_realm e r a))
      | Cancelled s _ \<Rightarrow> finish_busy (en_now e) s True a
      | GrantFailed s _ _ _ \<Rightarrow> finish_busy (en_now e) s True a
      | GrantCreated s g url _ \<Rightarrow> (False, spawned (CompensateJob s url g) a)
      | CloudSignedOut s _ \<Rightarrow> finish_cloud_sign_out s a
      | _ \<Rightarrow> (False, a))"

definition free_elevated :: "agent_event \<Rightarrow> agent \<Rightarrow> agent" where
  "free_elevated ev a =
     (case ev of
        ElevatedFinished _ _ _ \<Rightarrow> a\<lparr>ag_busy := False, ag_in_flight := filter outside_busy_slot (ag_in_flight a)\<rparr>
      | _ \<Rightarrow> a)"

definition apply_live :: "agent_env \<Rightarrow> agent_event \<Rightarrow> agent \<Rightarrow> agent" where
  "apply_live e ev a =
     (case apply_shared e ev (free_elevated ev a) of
        (sh, a2) \<Rightarrow>
          let a3 = (if sh_grant_sign_in sh then start_worker e ByGrant a2 else a2);
              a4 = (case sh_pending sh of None \<Rightarrow> a3 | Some n \<Rightarrow> agent_notify n a3);
              a5 = (case sh_elevating sh of None \<Rightarrow> a4 | Some act \<Rightarrow> outside_call (Elevating act) a4)
          in (case sh_finished sh of None \<Rightarrow> a5 | Some (act, oc) \<Rightarrow> outside_call (Finished act oc) a5))"

text \<open>A published document, with whether a thread waits for the answer.\<close>

definition apply_discovered :: "agent_env \<Rightarrow> discovery_stamp \<Rightarrow> broker_snapshot \<Rightarrow> bool \<Rightarrow> agent \<Rightarrow> bool \<times> agent" where
  "apply_discovered e s sn waited a =
     (let a1 = (if waited then a else snd (end_probe (dst_generation s) (en_now e) a));
          was_away = (ag_fault a1 = Some NetworkFault \<and> ag_probe_backoff a1 > 2 * PROBE_FIRST_SECS)
      in case replace_broker_snapshot e s sn a1 of
        (False, a2) \<Rightarrow> (False, a2)
      | (True, a2) \<Rightarrow>
          (case enforce_autostart (ag_settings a2) (ag_entry a2) of
             (_, st, entry) \<Rightarrow>
               let a3 = a2\<lparr>ag_settings := st, ag_entry := entry\<rparr>
               in (True, if \<not> waited \<and> was_away \<and> ag_startup_retry_at a3 \<noteq> None \<and> \<not> ag_busy a3
                           \<and> (ag_phase a3 = SignedOut \<or> ag_phase a3 = Failed) \<and> expected a3
                         then a3\<lparr>ag_startup_retry_at := Some (en_now e)\<rparr> else a3)))"

definition apply_event :: "agent_env \<Rightarrow> agent_event \<Rightarrow> agent \<Rightarrow> bool \<times> agent" where
  "apply_event e ev a =
     (case ev of
        CurrentQuery _ \<Rightarrow> (False, a)
      | Discovered s sn waited \<Rightarrow> apply_discovered e s sn waited a
      | DiscoveryFailed s \<Rightarrow>
          (False, case end_probe (dst_generation s) (en_now e) a of
             (ended, a1) \<Rightarrow> if ended \<and> discovery_is_current a1 s then a1\<lparr>ag_discovery_ended := True\<rparr> else a1)
      | StaleGrantCompensated s \<Rightarrow> finish_busy (en_now e) s True a
      | _ \<Rightarrow>
          (case terminal_stamp ev of
             None \<Rightarrow> (True, apply_live e ev a)
           | Some s \<Rightarrow>
               if \<not> discovery_is_current a s then reject_stale_terminal e ev a
               else (True, apply_live e ev (a\<lparr>ag_discovery_ended := True\<rparr>))))"

definition agent_apply :: "agent_env \<Rightarrow> agent_event \<Rightarrow> agent \<Rightarrow> bool \<times> agent" where
  "agent_apply e ev a = (case apply_event e ev a of (applied, a1) \<Rightarrow> (applied, announce None a1))"

text \<open>The answer a waiting thread gets.\<close>

definition reply_to :: "agent_env \<Rightarrow> agent_event \<Rightarrow> agent \<Rightarrow> bool option" where
  "reply_to e ev a =
     (case ev of
        CurrentQuery s \<Rightarrow> Some (discovery_is_current a s)
      | Discovered s sn True \<Rightarrow> Some (fst (apply_event e ev a))
      | _ \<Rightarrow> None)"

primrec drain :: "(agent_env \<times> agent_event) list \<Rightarrow> agent \<Rightarrow> bool \<times> agent" where
  "drain [] a = (False, a)"
| "drain (x # xs) a = (case agent_apply (fst x) (snd x) a of (p, a1) \<Rightarrow> case drain xs a1 of (q, a2) \<Rightarrow> (p \<or> q, a2))"

section \<open>What the desktop may ask for\<close>

definition agent_sign_in :: "agent_env \<Rightarrow> agent \<Rightarrow> agent" where
  "agent_sign_in e a =
     (let a1 = a\<lparr>ag_startup_retry_at := None, ag_awaits_broker := False\<rparr>
      in if grant_for (ag_settings a1) \<noteq> None \<and> settings_grant a1 = None then snd (create_grant a1)
         else start_worker e ByUser a1)"

definition renew_now :: "agent_env \<Rightarrow> agent \<Rightarrow> agent" where
  "renew_now e a = start_worker e ByRenewal a"

definition autostart_eligible :: "agent \<Rightarrow> bool" where
  "autostart_eligible a \<longleftrightarrow>
     ag_phase a = SignedOut \<and> (windows_sign_in (ag_settings a) \<or> settings_grant a \<noteq> None) \<and> autostart_active (ag_entry a)"

definition autostart_sign_in :: "agent_env \<Rightarrow> agent \<Rightarrow> agent" where
  "autostart_sign_in e a =
     (let eligible = autostart_eligible a; known = client_broker_url (ag_settings a) \<noteq> None;
          a1 = a\<lparr>ag_awaits_broker := (eligible \<and> \<not> known)\<rparr>
      in if eligible \<and> known \<and> \<not> needs_action (ag_enroll a)
         then start_worker e ByStartup (a1\<lparr>ag_startup_retries := STARTUP_RETRIES\<rparr>) else a1)"

definition cancel_sign_in :: "agent \<Rightarrow> agent" where
  "cancel_sign_in a = a\<lparr>ag_cancel := True\<rparr>"

definition drop_ticket :: "agent_env \<Rightarrow> agent \<Rightarrow> agent" where
  "drop_ticket e a =
     (case purge_realm e (kb_realm (ag_kerberos a)) a of
        (purged, a1) \<Rightarrow>
          let a2 = expect False (reset_session a1)
          in if purged then note_copy (Copy ''signed_off_note'' []) a2
             else record_fault (en_now e) (Some OtherFault) (Copy ''err_sign_off_failed'' []) a2)"

definition sign_out_idp :: "agent \<Rightarrow> agent" where
  "sign_out_idp a = snd (begin_cloud_sign_out a)"

definition give_up_grant_now :: "agent \<Rightarrow> bool \<times> agent" where
  "give_up_grant_now a = give_up_grant (client_broker_url (ag_settings a)) a"

definition status_closed :: "agent \<Rightarrow> agent" where
  "status_closed a = a\<lparr>ag_just_authorized := False\<rparr>"

record settings_change =
  sc_broker_url :: "str option"
  sc_autostart :: "bool option"
  sc_windows_sign_in :: "bool option"
  sc_silent :: "bool option"
  sc_grant_for :: "str option"

definition unlocked :: "bool \<Rightarrow> 'a option \<Rightarrow> 'a option" where
  "unlocked locked v = (if locked then None else v)"

text \<open>A changed broker URL: the new layer value to store beside the others, if the target stays.\<close>

definition change_broker :: "agent_env \<Rightarrow> str option \<Rightarrow> agent \<Rightarrow> str option option \<times> agent" where
  "change_broker e typed a =
     (let before = client_broker_url (ag_settings a);
          text_of = (\<lambda>u :: str option. case u of None \<Rightarrow> [] | Some v \<Rightarrow> v);
          old_broker = (if text_of before = [] then None else before)
      in case typed of
           None \<Rightarrow> (None, a)
         | Some entry \<Rightarrow>
             if ag_busy a \<or> ag_cleaning a \<or> ag_cloud_sign_out a \<noteq> None \<or> broker_url_locked (ag_settings a) then (None, a)
             else let next = typed_broker_url entry
                  in if text_of (broker_url_with next (ag_settings a)) = text_of before then (Some next, a)
                     else case agent_retarget e old_broker next a of
                         (False, a1) \<Rightarrow> (None, a1)
                       | (True, a1) \<Rightarrow>
                           (None, a1\<lparr>ag_startup_retry_at := Some (en_now e),
                              ag_awaits_broker := (client_broker_url (ag_settings a1) = None \<and> autostart_eligible a1)\<rparr>))"

definition apply_settings :: "agent_env \<Rightarrow> settings_change \<Rightarrow> agent \<Rightarrow> agent" where
  "apply_settings e c a =
     (case change_broker e (sc_broker_url c) a of
        (url, a1) \<Rightarrow>
          let st = ag_settings a1;
              target = unlocked (grant_for_locked st) (sc_grant_for c);
              windows = unlocked (windows_sign_in_locked st) (sc_windows_sign_in c);
              silent = unlocked (silent_locked st) (sc_silent c);
              autostart = unlocked (le_machine_wide (ag_entry a1) \<or> autostart_managed st) (sc_autostart c);
              a2 = (case autostart of None \<Rightarrow> a1 | Some on \<Rightarrow> a1\<lparr>ag_entry := snd (set_autostart on (ag_entry a1))\<rparr>)
          in updated_file (\<lambda>f.
               let f1 = (case url of None \<Rightarrow> f | Some u \<Rightarrow> f\<lparr>fc_broker_url := u\<rparr>);
                   f2 = (case target of None \<Rightarrow> f1 | Some t \<Rightarrow> set_grant_for t f1);
                   f3 = (case windows of None \<Rightarrow> f2 | Some on \<Rightarrow> f2\<lparr>fc_windows_sign_in := Some on\<rparr>);
                   f4 = (case silent of None \<Rightarrow> f3 | Some on \<Rightarrow> f3\<lparr>fc_silent := Some on\<rparr>)
               in (case autostart of None \<Rightarrow> f4 | Some on \<Rightarrow> f4\<lparr>fc_autostart := Some on\<rparr>)) a2)"

section \<open>The status\<close>

record ticket_clock =
  tc_end :: int
  tc_remaining :: int
  tc_renewable :: bool

definition soonest_of :: "int option list \<Rightarrow> int option" where
  "soonest_of ts = (case List.map_filter (\<lambda>t. t) ts of [] \<Rightarrow> None | u # us \<Rightarrow> Some (fold min us u))"

record agent_status =
  as_described :: description
  as_in_flight :: "ui_action list"
  as_realm :: str
  as_source :: str
  as_broker_host :: str
  as_help_url :: str
  as_idp_name :: str
  as_principal :: str
  as_ticket :: "ticket_clock option"
  as_next_attempt :: "int option"
  as_message :: copy
  as_fault :: bool
  as_holds_grant :: bool
  as_grant_expiry :: "int option"
  as_grant_target :: str
  as_just_authorized :: bool

definition status_at :: "agent_env \<Rightarrow> agent \<Rightarrow> agent_status" where
  "status_at e a =
     \<lparr>as_described = described_at e a,
      as_in_flight = ag_in_flight a,
      as_realm = kb_realm (ag_kerberos a),
      as_source = ag_source a,
      as_broker_host = (case client_broker_url (ag_settings a) of None \<Rightarrow> [] | Some u \<Rightarrow> host_of u),
      as_help_url = (case ag_help_url a of None \<Rightarrow> [] | Some u \<Rightarrow> u),
      as_idp_name = ag_idp_name a,
      as_principal = ag_principal a,
      as_ticket = (if holds_live_ticket_at a (en_now e)
        then Some \<lparr>tc_end = ag_end a, tc_remaining = ag_end a - en_now e, tc_renewable = (ag_renew_till a > ag_end a)\<rparr> else None),
      as_next_attempt = soonest_of [ag_refresh_at a, ag_startup_retry_at a, ag_probe_at a, tl_retry_at (ag_loss a)],
      as_message = ag_message a,
      as_fault = (ag_fault a \<noteq> None),
      as_holds_grant = (settings_grant a \<noteq> None),
      as_grant_expiry = map_option sg_sign_in_required_by (settings_grant a),
      as_grant_target = (case grant_for (ag_settings a) of None \<Rightarrow> [] | Some t \<Rightarrow> t),
      as_just_authorized = ag_just_authorized a\<rparr>"

end
