(* ===== verification/KB_AgentSound.thy ===== *)
theory KB_AgentSound
  imports KB_AgentWorker
begin

text \<open>
  The agent as a transition system, and what holds of it: a timer tick, a command of the user, an
  interim question or the report of a running thread, a change of the file or of the system by
  somebody else. The reports are exactly those the threads of \<open>KB_AgentWorker\<close> can make.
\<close>

section \<open>The threads keep to their rules\<close>

definition spends_a_token :: "leg \<Rightarrow> bool" where
  "spends_a_token c \<longleftrightarrow> (case c of AskNative \<Rightarrow> True | SpendRefresh _ \<Rightarrow> True | OpenBrowser \<Rightarrow> True | InjectToken _ _ \<Rightarrow> True | _ \<Rightarrow> False)"

lemma token_leg_calls:
  assumes "sign_in_by_token cfg silent native pin refused l eff = (x, eff1, calls)"
  shows "silent \<Longrightarrow> OpenBrowser \<notin> set calls"
    and "pin \<noteq> None \<Longrightarrow> calls = [] \<and> (\<exists>f. x = Inl f)"
    and "\<exists>c \<in> set calls. spends_a_token c \<Longrightarrow> lg_current l 1"
    and "InjectToken u tok \<in> set calls \<Longrightarrow> lg_current l 2 \<and> u = bc_base_url cfg"
    and "we_stale_grant eff1 = we_stale_grant eff" "ProveGrant u' g' \<notin> set calls"
    and "x = Inr (Some (ij, via, realm)) \<Longrightarrow> via = None \<and> (\<exists>u t. InjectToken u t \<in> set calls) \<and> realm = bc_realm cfg"
  using assms
  by (auto simp: sign_in_by_token_def if_current_def after_def acquire_token_def spends_a_token_def Let_def
      split: if_splits option.splits sum.splits prod.splits)

text \<open>What one run may do, from the checks it passed to the grant it may forget.\<close>

definition run_discipline ::
  "bool \<Rightarrow> stored_grant option \<Rightarrow> str option \<Rightarrow> legs \<Rightarrow> (injected \<times> str option \<times> str) leg_run \<Rightarrow> bool" where
  "run_discipline silent g pin l r =
     (case r of (x, eff, calls) \<Rightarrow>
        (silent \<longrightarrow> OpenBrowser \<notin> set calls)
      \<and> (pin \<noteq> None \<longrightarrow> (\<forall>c \<in> set calls. \<not> spends_a_token c) \<and> (\<forall>ij via realm. x = Inr (Some (ij, via, realm)) \<longrightarrow> via \<noteq> None))
      \<and> (\<forall>u g'. ProveGrant u g' \<in> set calls \<longrightarrow> g = Some g' \<and> lg_published l \<and> lg_current l 0)
      \<and> ((\<exists>c \<in> set calls. spends_a_token c) \<longrightarrow> lg_published l \<and> lg_current l 0 \<and> lg_current l 1)
      \<and> (\<forall>u tok. InjectToken u tok \<in> set calls \<longrightarrow> lg_current l 2)
      \<and> (we_stale_grant eff \<noteq> None \<longrightarrow> we_stale_grant eff = g \<and> (\<exists>why. lg_grant l = Inl (InjectBroker (InvalidProof why))))
      \<and> (\<forall>ij i realm. x = Inr (Some (ij, Some i, realm)) \<longrightarrow> map_option sg_grant_id g = Some i \<and> lg_grant l = Inr ij))"

lemma grant_leg_discipline:
  assumes live: "lg_published l" "lg_current l 0"
  shows "run_discipline silent (Some g) pin l (sign_in_by_grant cfg silent native g pin l)"
proof -
  have token: "run_discipline silent (Some g) pin l
      (after [ProveGrant u g] (sign_in_by_token cfg silent native pin refused l eff))"
    if "we_stale_grant eff = None \<or> we_stale_grant eff = Some g \<and> (\<exists>why. lg_grant l = Inl (InjectBroker (InvalidProof why)))"
    for u refused eff
  proof -
    obtain x eff1 calls where t: "sign_in_by_token cfg silent native pin refused l eff = (x, eff1, calls)"
      by (cases "sign_in_by_token cfg silent native pin refused l eff")
    note r = token_leg_calls [OF t]
    show ?thesis
      unfolding run_discipline_def after_def t prod.case
      using that live r by (fastforce simp: spends_a_token_def)
  qed
  show ?thesis
  proof (cases "lg_grant l")
    case (Inr ij)
    then show ?thesis using live
      by (simp add: sign_in_by_grant_def after_def Let_def run_discipline_def spends_a_token_def no_effects_def)
  next
    case (Inl er)
    show ?thesis
    proof (cases "\<exists>m. er = InjectBroker (NotAdmitted m) \<and> (m = REFUSED_GRANTS_DISABLED \<or> m = REFUSED_NOT_GRANTED)
        \<or> er = InjectBroker (InvalidProof m)")
      case True
      then show ?thesis using Inl
        by (auto simp: sign_in_by_grant_def Let_def no_effects_def intro!: token)
    next
      case False
      have "sign_in_by_grant cfg silent native g pin l
          = (Inl (describe_inject_error er (host_of (bc_base_url cfg))), no_effects\<lparr>we_injection_realm := Some (bc_realm cfg)\<rparr>,
             [ProveGrant (bc_base_url cfg) g])"
        using False Inl by (auto simp: sign_in_by_grant_def after_def Let_def split: inject_error.splits client_error.splits)
      then show ?thesis using live
        by (simp add: run_discipline_def spends_a_token_def no_effects_def)
    qed
  qed
qed

lemma discipline_after:
  "run_discipline silent g pin l r \<Longrightarrow> list_all (\<lambda>c. c \<in> {PublishDocument, FetchOidc} \<or> (\<exists>u. c = FetchDocument u) \<or> (\<exists>k. c = AskCurrent k)) cs
     \<Longrightarrow> run_discipline silent g pin l (after cs r)"
  by (cases r) (fastforce simp: run_discipline_def after_def spends_a_token_def list_all_iff)

lemma discipline_failed:
  "run_discipline silent g pin l (Inl f, no_effects, [])" "run_discipline silent g pin l (Inr None, no_effects, [])"
  by (simp_all add: run_discipline_def no_effects_def)

text \<open>
  C20 (KB_AgentSound.sign_in_discipline). Whatever the broker, the provider and the desktop thread
  answer, one run of the sign-in thread keeps its rules. A silent run never opens a browser. On a
  machine pinned to an account no token is asked for, refreshed or exchanged, and a ticket comes by
  the device grant or not at all. The grant is proved, and a token spent, only after the document
  was accepted and the request confirmed current, and a token is exchanged only after one more
  confirmation. A grant is marked as gone only when the broker called its proof invalid, and a
  ticket is credited to a grant only when that grant's proof obtained it.
\<close>

theorem sign_in_discipline:
  "run_discipline silent g pin l (run_sign_in s silent native g pin l)"
proof -
  have none: "run_discipline silent None pin l (sign_in_by_token cfg silent native pin None l no_effects)"
    if "lg_published l" "lg_current l 0" for cfg
  proof -
    obtain x eff1 calls where t: "sign_in_by_token cfg silent native pin None l no_effects = (x, eff1, calls)"
      by (cases "sign_in_by_token cfg silent native pin None l no_effects")
    note r = token_leg_calls [OF t]
    show ?thesis unfolding run_discipline_def t prod.case using that r by (fastforce simp: no_effects_def)
  qed
  have stopped: "run_discipline silent g pin l (Inr None, no_effects, cs)"
    if "list_all (\<lambda>c. c \<in> {PublishDocument, FetchOidc} \<or> (\<exists>u. c = FetchDocument u) \<or> (\<exists>k. c = AskCurrent k)) cs" for cs
    using discipline_after [OF discipline_failed(2) that] by (simp add: after_def)
  have failed: "run_discipline silent g pin l (Inl f, no_effects, cs)"
    if "list_all (\<lambda>c. c \<in> {PublishDocument, FetchOidc} \<or> (\<exists>u. c = FetchDocument u) \<or> (\<exists>k. c = AskCurrent k)) cs" for f cs
    using discipline_after [OF discipline_failed(1) that] by (simp add: after_def)
  have body: "run_discipline silent g pin l
      (if_current l 0 no_effects (case g of None \<Rightarrow> sign_in_by_token cfg silent native pin None l no_effects
         | Some g' \<Rightarrow> sign_in_by_grant cfg silent native g' pin l))"
    if "lg_published l" for cfg
    using that by (auto simp: if_current_def stopped intro!: discipline_after none grant_leg_discipline split: option.splits)
  show ?thesis
    by (auto simp: run_sign_in_def discovered_run_def stopped failed intro!: discipline_after body discipline_failed split: sum.splits)
qed

section \<open>The agent as a transition system\<close>

datatype command =
    CSignIn | CRenewNow | CAutostart | CCancel | CDropTicket | CSignOutIdp | CCreateGrant | CGiveUpGrant
  | CEnroll | CReenroll | CUnenroll | CRepair | CStatusClosed | CApplySettings settings_change

primrec run_command :: "agent_env \<Rightarrow> command \<Rightarrow> agent \<Rightarrow> agent" where
  "run_command e CSignIn a = agent_sign_in e a"
| "run_command e CRenewNow a = renew_now e a"
| "run_command e CAutostart a = autostart_sign_in e a"
| "run_command e CCancel a = cancel_sign_in a"
| "run_command e CDropTicket a = drop_ticket e a"
| "run_command e CSignOutIdp a = sign_out_idp a"
| "run_command e CCreateGrant a = snd (create_grant a)"
| "run_command e CGiveUpGrant a = snd (give_up_grant_now a)"
| "run_command e CEnroll a = snd (begin_enroll a)"
| "run_command e CReenroll a = snd (begin_reenroll a)"
| "run_command e CUnenroll a = snd (begin_unenroll a)"
| "run_command e CRepair a = snd (begin_repair a)"
| "run_command e CStatusClosed a = status_closed a"
| "run_command e (CApplySettings c) a = apply_settings e c a"

text \<open>The reports a thread can end with, and the questions it asks before.\<close>

inductive reports :: "job \<Rightarrow> agent_event \<Rightarrow> bool" where
  sign_in: "reports (SignInJob s t native g pin) (sign_in_report s t panicked (run_sign_in s (silent_trigger t) native g pin l))"
| create_grant: "reports (CreateGrantJob s native target) (create_grant_report s panicked (run_create_grant s native target l))"
| cloud: "reports (CloudSignOutJob s) (run_cloud_sign_out s l logged_out)"
| cleanup: "reports (CleanupJob gen broker g saved report) (GrantGivenUp gen broker revoked saved report)"
| lookup: "reports (ProbeJob (SrvProbe gen)) (BrokerLookup gen url)"
| document: "reports (ProbeJob (ConfigProbe s)) (Discovered s sn False)"
| no_document: "reports (ProbeJob (ConfigProbe s)) (DiscoveryFailed s)"
| compensated: "reports (CompensateJob s url g) (StaleGrantCompensated s)"
| elevated: "reports (ElevatedJob act args recheck) (ElevatedFinished act (elevated_outcome finish sentence) recheck)"
| elevated_panic: "reports (ElevatedJob act args recheck) (ElevatedFinished act
    (FailedWith (explain ''err_internal'' [(''detail'', lit ''panic in the elevation worker'')])) recheck)"

fun discovers :: "job \<Rightarrow> discovery_stamp option" where
  "discovers (SignInJob s _ _ _ _) = Some s"
| "discovers (CreateGrantJob s _ _) = Some s"
| "discovers (CloudSignOutJob s) = Some s"
| "discovers _ = None"

inductive asks :: "job \<Rightarrow> agent_event \<Rightarrow> bool" where
  publish: "discovers j = Some s \<Longrightarrow> asks j (Discovered s sn True)"
| current: "discovers j = Some s \<Longrightarrow> asks j (CurrentQuery s)"
| granted: "asks (ElevatedJob act args recheck) (ElevationGranted act)"

inductive agent_step :: "agent_env \<Rightarrow> agent \<Rightarrow> agent \<Rightarrow> bool" for e where
  ticked: "agent_step e a (snd (agent_tick e a))"
| commanded: "agent_step e a (run_command e c a)"
| asked: "j \<in> set (ag_jobs a) \<Longrightarrow> asks j ev \<Longrightarrow> agent_step e a (snd (agent_apply e ev a))"
| reported: "ag_jobs a = xs @ j # ys \<Longrightarrow> reports j ev \<Longrightarrow> agent_step e a (snd (agent_apply e ev (a\<lparr>ag_jobs := xs @ ys\<rparr>)))"
| file_changed: "agent_step e a (a\<lparr>ag_settings := (ag_settings a)\<lparr>st_disk := d\<rparr>\<rparr>)"
| entry_changed: "agent_step e a (a\<lparr>ag_entry := entry\<rparr>)"
| browser_leg: "agent_step e a (a\<lparr>ag_browser_leg := on\<rparr>)"

text \<open>A ticket in the cache starts before it ends; the clock does not run backwards.\<close>

definition tickets_sane :: "agent_env \<Rightarrow> bool" where
  "tickets_sane e \<longleftrightarrow> (\<forall>r t. en_tgt e r = Some (Some t) \<longrightarrow> ct_start t < ct_end t)"

inductive agent_reach :: "int \<Rightarrow> agent \<Rightarrow> bool" where
  started: "tickets_sane e \<Longrightarrow> agent_reach (en_now e) (agent_init e windows pol disk entry)"
| moved: "agent_reach t a \<Longrightarrow> agent_step e a b \<Longrightarrow> t \<le> en_now e \<Longrightarrow> agent_reach (en_now e) b"

section \<open>What each operation leaves alone\<close>

text \<open>
  Three projections: the busy slot with the threads that own it, the ticket with its schedule, and
  what was said to the user with what decides whether it may be.
\<close>

fun owns_slot :: "job \<Rightarrow> bool" where
  "owns_slot (SignInJob _ _ _ _ _) = True"
| "owns_slot (CreateGrantJob _ _ _) = True"
| "owns_slot (CompensateJob _ _ _) = True"
| "owns_slot (ElevatedJob _ _ _) = True"
| "owns_slot _ = False"

fun slot_stamp :: "job \<Rightarrow> discovery_stamp option" where
  "slot_stamp (SignInJob s _ _ _ _) = Some s"
| "slot_stamp (CreateGrantJob s _ _) = Some s"
| "slot_stamp (CompensateJob s _ _) = Some s"
| "slot_stamp _ = None"

definition slot_state :: "agent \<Rightarrow> bool \<times> discovery_stamp option \<times> job list" where
  "slot_state a = (ag_busy a, map_option bo_stamp (ag_busy_operation a), filter owns_slot (ag_jobs a))"

definition ticket_state :: "agent \<Rightarrow> phase \<times> str \<times> int \<times> int option" where
  "ticket_state a = (ag_phase a, ag_principal a, ag_end a, ag_refresh_at a)"

definition is_notice :: "outside_act \<Rightarrow> bool" where
  "is_notice c \<longleftrightarrow> (\<exists>t b s. c = Notified t b s)"

definition said :: "agent \<Rightarrow> outside_act list" where
  "said a = filter is_notice (ag_outside a)"

named_theorems frame \<open>what an operation leaves alone\<close>

lemma record_frame [frame]:
  "slot_state (a\<lparr>ag_settings := v\<rparr>) = slot_state a" "ticket_state (a\<lparr>ag_settings := v\<rparr>) = ticket_state a" "said (a\<lparr>ag_settings := v\<rparr>) = said a"
  by (simp_all add: slot_state_def ticket_state_def said_def)

lemma small_frames [frame]:
  "slot_state (snd (advance_discovery a)) = slot_state a" "ticket_state (snd (advance_discovery a)) = ticket_state a" "said (snd (advance_discovery a)) = said a"
  "slot_state (updated_file ch a) = slot_state a" "ticket_state (updated_file ch a) = ticket_state a" "said (updated_file ch a) = said a"
  "slot_state (expect b a) = slot_state a" "ticket_state (expect b a) = ticket_state a" "said (expect b a) = said a"
  "slot_state (arm_probe n a) = slot_state a" "ticket_state (arm_probe n a) = ticket_state a" "said (arm_probe n a) = said a"
  "slot_state (reset_probe a) = slot_state a" "ticket_state (reset_probe a) = ticket_state a" "said (reset_probe a) = said a"
  "slot_state (restart_probe n a) = slot_state a" "ticket_state (restart_probe n a) = ticket_state a" "said (restart_probe n a) = said a"
  "slot_state (snd (end_probe g n a)) = slot_state a" "ticket_state (snd (end_probe g n a)) = ticket_state a" "said (snd (end_probe g n a)) = said a"
  "slot_state (record_fault n f m a) = slot_state a" "ticket_state (record_fault n f m a) = ticket_state a" "said (record_fault n f m a) = said a"
  "slot_state (note_copy m a) = slot_state a" "ticket_state (note_copy m a) = ticket_state a" "said (note_copy m a) = said a"
  "slot_state (snd (purge_realm e r a)) = slot_state a" "ticket_state (snd (purge_realm e r a)) = ticket_state a" "said (snd (purge_realm e r a)) = said a"
  "slot_state (clear_broker_snapshot a) = slot_state a" "ticket_state (clear_broker_snapshot a) = ticket_state a" "said (clear_broker_snapshot a) = said a"
  "slot_state (started act a) = slot_state a" "ticket_state (started act a) = ticket_state a" "said (started act a) = said a"
  "slot_state (no_longer act a) = slot_state a" "ticket_state (no_longer act a) = ticket_state a" "said (no_longer act a) = said a"
  "slot_state (with_loss h a) = slot_state a" "ticket_state (with_loss h a) = ticket_state a" "said (with_loss h a) = said a"
  "slot_state (loss_suspend a) = slot_state a" "ticket_state (loss_suspend a) = ticket_state a" "said (loss_suspend a) = said a"
  "slot_state (reset_session a) = slot_state a" "said (reset_session a) = said a"
  "slot_state (settle_sign_in n a) = slot_state a" "said (settle_sign_in n a) = said a"
  by (simp_all add: slot_state_def ticket_state_def said_def advance_discovery_def update_file_def expect_def arm_probe_def reset_probe_def
      restart_probe_def end_probe_def record_fault_def note_copy_def purge_realm_def outside_call_def is_notice_def
      clear_broker_snapshot_def started_def no_longer_def with_loss_def loss_suspend_def reset_session_def settle_sign_in_def
      Let_def split: prod.splits)

lemma slot_spawned [frame]: "slot_state (spawned j a) = (fst (slot_state a), fst (snd (slot_state a)), snd (snd (slot_state a)) @ (if owns_slot j then [j] else []))"
  "ticket_state (spawned j a) = ticket_state a" "said (spawned j a) = said a" "interruption_gate (spawned j a) = interruption_gate a"
  by (simp_all add: slot_state_def ticket_state_def said_def spawned_def interruption_gate_def)

lemma told_frames [frame]:
  "slot_state (outside_call c a) = slot_state a" "ticket_state (outside_call c a) = ticket_state a" "interruption_gate (outside_call c a) = interruption_gate a"
  "slot_state (release_deferred a) = slot_state a" "ticket_state (release_deferred a) = ticket_state a" "interruption_gate (release_deferred a) = interruption_gate a"
  "slot_state (agent_notify n a) = slot_state a" "ticket_state (agent_notify n a) = ticket_state a" "interruption_gate (agent_notify n a) = interruption_gate a"
  "slot_state (announce o' a) = slot_state a" "ticket_state (announce o' a) = ticket_state a" "interruption_gate (announce o' a) = interruption_gate a"
proof -
  have o: "slot_state (outside_call c a) = slot_state a" "ticket_state (outside_call c a) = ticket_state a" "interruption_gate (outside_call c a) = interruption_gate a"
    for c a
    by (simp_all add: slot_state_def ticket_state_def outside_call_def interruption_gate_def)
  have r: "slot_state (release_deferred a) = slot_state a" "ticket_state (release_deferred a) = ticket_state a" "interruption_gate (release_deferred a) = interruption_gate a"
    for a
    by (auto simp: release_deferred_def settle_deferred_def deliver_def outside_call_def slot_state_def ticket_state_def interruption_gate_def
        split: prod.splits option.splits gate.splits bool.splits)
  have n: "slot_state (agent_notify n a) = slot_state (release_deferred a)" "ticket_state (agent_notify n a) = ticket_state (release_deferred a)"
    "interruption_gate (agent_notify n a) = interruption_gate (release_deferred a)" for n a
    by (auto simp: agent_notify_def admit_def deliver_def outside_call_def slot_state_def ticket_state_def interruption_gate_def
        split: prod.splits option.splits gate.splits bool.splits)
  show "slot_state (outside_call c a) = slot_state a" "ticket_state (outside_call c a) = ticket_state a" "interruption_gate (outside_call c a) = interruption_gate a"
    by (rule o)+
  show "slot_state (release_deferred a) = slot_state a" "ticket_state (release_deferred a) = ticket_state a" "interruption_gate (release_deferred a) = interruption_gate a"
    by (rule r)+
  show "slot_state (agent_notify n a) = slot_state a" "ticket_state (agent_notify n a) = ticket_state a" "interruption_gate (agent_notify n a) = interruption_gate a"
    by (simp_all add: n r)
  show "slot_state (announce o' a) = slot_state a" "ticket_state (announce o' a) = ticket_state a" "interruption_gate (announce o' a) = interruption_gate a"
    by (cases o'; simp add: announce_def n r)+
qed

text \<open>Nothing is said to the user unless the gate is open.\<close>

lemma said_outside: "\<not> is_notice c \<Longrightarrow> said (outside_call c a) = said a"
  by (simp add: said_def outside_call_def)

lemma said_release: "said (release_deferred a) = said a \<or> interruption_gate a = Allow"
  by (auto simp: release_deferred_def settle_deferred_def said_def split: prod.splits option.splits gate.splits)

lemma said_notify: "said (agent_notify n a) = said a \<or> interruption_gate a = Allow"
proof (cases "interruption_gate a = Allow")
  case False
  then have "said (release_deferred a) = said a" using said_release [of a] by simp
  moreover have "said (agent_notify n a) = said (release_deferred a)"
    using False told_frames(6) [of a]
    by (auto simp: agent_notify_def admit_def said_def split: prod.splits option.splits gate.splits)
  ultimately show ?thesis by simp
qed simp

lemma said_announce: "said (announce n a) = said a \<or> interruption_gate a = Allow"
  by (cases n) (simp_all add: announce_def said_notify said_release)

section \<open>The busy slot\<close>

fun slot_fine :: "bool \<times> discovery_stamp option \<times> job list \<Rightarrow> bool" where
  "slot_fine (b, s, own) \<longleftrightarrow> (if b then \<exists>j. own = [j] \<and> s = slot_stamp j else own = [] \<and> s = None)"

lemma slot_fst [simp]: "fst (slot_state a) = ag_busy a"
  by (simp add: slot_state_def)

lemma start_worker_frames:
  "slot_fine (slot_state a) \<Longrightarrow> slot_fine (slot_state (start_worker e t a))"
  "said (start_worker e t a) = said a" "interruption_gate (start_worker e t a) = interruption_gate a"
  by (auto simp: start_worker_def advance_discovery_def started_busy_def started_def spawned_def slot_state_def said_def
      interruption_gate_def Let_def split: option.splits prod.splits)

lemma background_frames [frame]:
  "slot_state (discover_in_background e a) = slot_state a" "ticket_state (discover_in_background e a) = ticket_state a"
  "said (discover_in_background e a) = said a" "interruption_gate (discover_in_background e a) = interruption_gate a"
  by (auto simp: discover_in_background_def begin_probe_def advance_discovery_def arm_probe_def spawned_def slot_state_def ticket_state_def
      said_def interruption_gate_def Let_def split: option.splits prod.splits)

lemma cleanup_frames [frame]:
  "slot_state (snd (give_up_captured_grant b g s r a)) = slot_state a" "ticket_state (snd (give_up_captured_grant b g s r a)) = ticket_state a"
  "said (snd (give_up_captured_grant b g s r a)) = said a"
  by (auto simp: give_up_captured_grant_def started_grant_cleanup_def started_def spawned_def slot_state_def ticket_state_def said_def Let_def)

lemma finish_busy_frames:
  "slot_state (snd (finish_busy n s stale a)) = (if map_option bo_stamp (ag_busy_operation a) = Some s then (False, None, snd (snd (slot_state a))) else slot_state a)"
  "said (snd (finish_busy n s stale a)) = said a"
  "ticket_state (snd (finish_busy n s False a)) = ticket_state a"
  by (auto simp: finish_busy_def no_longer_def settle_sign_in_def slot_state_def said_def ticket_state_def Let_def split: option.splits)

lemma retarget_frames [frame]:
  "slot_state (snd (agent_retarget e ob nb a)) = slot_state a" "said (snd (agent_retarget e ob nb a)) = said a"
  "fst (agent_retarget e ob nb a) \<Longrightarrow> ticket_state (snd (agent_retarget e ob nb a)) = (SignedOut, [], 0, None)"
  "\<not> fst (agent_retarget e ob nb a) \<Longrightarrow> ticket_state (snd (agent_retarget e ob nb a)) = ticket_state a"
proof -
  obtain p a1 where p: "purge_realm e (kb_realm (fc_cache (st_file (ag_settings a)))) a = (p, a1)" by fastforce
  have f1: "slot_state a1 = slot_state a" "said a1 = said a" "ticket_state a1 = ticket_state a"
    using small_frames(28-30) [of e "kb_realm (fc_cache (st_file (ag_settings a)))" a] p by simp_all
  obtain w a2 where u: "update_file (\<lambda>f. file_retarget nb (f\<lparr>fc_grant := None\<rparr>)) a1 = (w, a2)" by fastforce
  have f2: "slot_state a2 = slot_state a" "said a2 = said a"
    using small_frames(4,6) [of "\<lambda>f. file_retarget nb (f\<lparr>fc_grant := None\<rparr>)" a1] u f1 by simp_all
  have c: "slot_state (x\<lparr>ag_cloud_sign_out := v\<rparr>) = slot_state x" "said (x\<lparr>ag_cloud_sign_out := v\<rparr>) = said x"
    "slot_state (x\<lparr>ag_cancel := True, ag_refresh_token := None\<rparr>) = slot_state x" "said (x\<lparr>ag_cancel := True, ag_refresh_token := None\<rparr>) = said x"
    for x v by (simp_all add: slot_state_def said_def)
  have t: "ticket_state (reset_session x) = (SignedOut, [], 0, None)" for x by (simp add: reset_session_def ticket_state_def)
  have i: "slot_state (invalidate_broker_snapshot x) = slot_state x" "said (invalidate_broker_snapshot x) = said x" for x
    by (simp_all add: invalidate_broker_snapshot_def frame)
  show "slot_state (snd (agent_retarget e ob nb a)) = slot_state a" "said (snd (agent_retarget e ob nb a)) = said a"
    "fst (agent_retarget e ob nb a) \<Longrightarrow> ticket_state (snd (agent_retarget e ob nb a)) = (SignedOut, [], 0, None)"
    "\<not> fst (agent_retarget e ob nb a) \<Longrightarrow> ticket_state (snd (agent_retarget e ob nb a)) = ticket_state a"
    by (cases p; simp add: agent_retarget_def p u Let_def frame c t i f1 f2 split: option.splits)+
qed

lemma effects_frames [frame]:
  "slot_state (apply_effects w a) = slot_state a" "ticket_state (apply_effects w a) = ticket_state a" "said (apply_effects w a) = said a"
  by (simp_all add: apply_effects_def frame split: refresh_update.splits)
    (simp_all add: slot_state_def ticket_state_def said_def)

lemma loss_frames [frame]:
  "slot_state (snd (loss_landed a)) = slot_state a" "ticket_state (snd (loss_landed a)) = ticket_state a" "said (snd (loss_landed a)) = said a"
  "slot_state (loss_failed e f a) = slot_state a" "ticket_state (loss_failed e f a) = ticket_state a" "said (loss_failed e f a) = said a"
  "slot_state (loss_observed e b a) = slot_state a" "ticket_state (loss_observed e b a) = ticket_state a" "said (loss_observed e b a) = said a"
  "slot_state (loss_present a) = slot_state a" "ticket_state (loss_present a) = ticket_state a" "said (loss_present a) = said a"
  by (simp_all add: loss_landed_def loss_failed_def loss_observed_def loss_present_def frame Let_def)

lemma session_frames [frame]:
  "slot_state (landed_session e ij a) = slot_state a" "said (landed_session e ij a) = said a"
  "slot_state (failed_with_ticket e f b a) = slot_state a" "said (failed_with_ticket e f b a) = said a"
  "slot_state (snd (failed_without_ticket e f t a)) = slot_state a" "said (snd (failed_without_ticket e f t a)) = said a"
proof -
  have u: "slot_state (x\<lparr>ag_phase := p, ag_silent_failed := True\<rparr>) = slot_state x" "said (x\<lparr>ag_phase := p, ag_silent_failed := True\<rparr>) = said x"
    "slot_state (x\<lparr>ag_refresh_backoff := i, ag_refresh_at := r\<rparr>) = slot_state x" "said (x\<lparr>ag_refresh_backoff := i, ag_refresh_at := r\<rparr>) = said x"
    for x p i r by (simp_all add: slot_state_def said_def)
  show "slot_state (failed_with_ticket e f b a) = slot_state a" "said (failed_with_ticket e f b a) = said a"
    by (simp_all add: failed_with_ticket_def Let_def frame u)
qed (simp_all add: landed_session_def failed_without_ticket_def slot_state_def said_def Let_def)

lemma snapshot_frames [frame]:
  "slot_state (end_old_realm e sn a) = slot_state a" "said (end_old_realm e sn a) = said a"
  "slot_state (publish_snapshot e sn a) = slot_state a" "ticket_state (publish_snapshot e sn a) = ticket_state a" "said (publish_snapshot e sn a) = said a"
  "slot_state (snd (replace_broker_snapshot e s sn a)) = slot_state a" "said (snd (replace_broker_snapshot e s sn a)) = said a"
proof -
  have u: "slot_state (publish_snapshot e sn x) = slot_state x" "ticket_state (publish_snapshot e sn x) = ticket_state x" "said (publish_snapshot e sn x) = said x" for x
  proof -
    define y where "y = updated_file (set_cache (bs_kerberos sn)) x"
    have y: "slot_state y = slot_state x" "ticket_state y = ticket_state x" "said y = said x" by (simp_all add: y_def frame)
    have "slot_state (publish_snapshot e sn x) = slot_state y" "ticket_state (publish_snapshot e sn x) = ticket_state y" "said (publish_snapshot e sn x) = said y"
      by (simp_all add: publish_snapshot_def y_def [symmetric] Let_def slot_state_def ticket_state_def said_def)
    then show "slot_state (publish_snapshot e sn x) = slot_state x" "ticket_state (publish_snapshot e sn x) = ticket_state x" "said (publish_snapshot e sn x) = said x"
      by (simp_all add: y)
  qed
  then show "slot_state (publish_snapshot e sn a) = slot_state a" "ticket_state (publish_snapshot e sn a) = ticket_state a" "said (publish_snapshot e sn a) = said a"
    by simp_all
  have o: "slot_state (end_old_realm e sn x) = slot_state x" "said (end_old_realm e sn x) = said x" for x
    by (simp_all add: end_old_realm_def frame)
  then show "slot_state (end_old_realm e sn a) = slot_state a" "said (end_old_realm e sn a) = said a" by simp_all
  show "slot_state (snd (replace_broker_snapshot e s sn a)) = slot_state a" "said (snd (replace_broker_snapshot e s sn a)) = said a"
    by (simp_all add: replace_broker_snapshot_def Let_def frame u o)
qed

lemma discovered_frames [frame]:
  "slot_state (snd (apply_discovered e s sn w a)) = slot_state a" "said (snd (apply_discovered e s sn w a)) = said a"
proof -
  define a1 where "a1 = (if w then a else snd (end_probe (dst_generation s) (en_now e) a))"
  have f: "slot_state a1 = slot_state a" "said a1 = said a" by (simp_all add: a1_def frame)
  obtain p a2 where r: "replace_broker_snapshot e s sn a1 = (p, a2)" by fastforce
  then have g: "slot_state a2 = slot_state a" "said a2 = said a" using snapshot_frames(6,7) [of e s sn a1] f by simp_all
  obtain q st en where q: "enforce_autostart (ag_settings a2) (ag_entry a2) = (q, st, en)" by (metis prod_cases3)
  have u: "slot_state (x\<lparr>ag_settings := v, ag_entry := v'\<rparr>) = slot_state x" "said (x\<lparr>ag_settings := v, ag_entry := v'\<rparr>) = said x"
    "slot_state (x\<lparr>ag_settings := v, ag_entry := v', ag_startup_retry_at := r'\<rparr>) = slot_state x"
    "said (x\<lparr>ag_settings := v, ag_entry := v', ag_startup_retry_at := r'\<rparr>) = said x"
    for x v v' r' by (simp_all add: slot_state_def said_def)
  show "slot_state (snd (apply_discovered e s sn w a)) = slot_state a" "said (snd (apply_discovered e s sn w a)) = said a"
    by (cases p; simp add: apply_discovered_def a1_def [symmetric] r q Let_def u g)+
qed

lemma lookup_frames [frame]:
  "slot_state (apply_lookup e gen url a) = slot_state a" "ticket_state (apply_lookup e gen url a) = ticket_state a" "said (apply_lookup e gen url a) = said a"
proof -
  obtain p a1 where p: "end_probe gen (en_now e) a = (p, a1)" by fastforce
  then have f: "slot_state a1 = slot_state a" "ticket_state a1 = ticket_state a" "said a1 = said a" using small_frames(19-21) [of gen "en_now e" a] by simp_all
  have u: "slot_state (apply_lookup e gen url a) = slot_state a1" "ticket_state (apply_lookup e gen url a) = ticket_state a1" "said (apply_lookup e gen url a) = said a1"
    by (simp_all add: apply_lookup_def p Let_def restart_probe_def slot_state_def ticket_state_def said_def split: option.splits)
  then show "slot_state (apply_lookup e gen url a) = slot_state a" "ticket_state (apply_lookup e gen url a) = ticket_state a" "said (apply_lookup e gen url a) = said a"
    by (simp_all add: f)
qed

lemma given_up_frames [frame]:
  "slot_state (snd (apply_given_up gen b r s p a)) = slot_state a" "ticket_state (snd (apply_given_up gen b r s p a)) = ticket_state a"
  "said (snd (apply_given_up gen b r s p a)) = said a"
  by (simp_all add: apply_given_up_def finish_grant_cleanup_def no_longer_def slot_state_def ticket_state_def said_def)

lemma cloud_frames [frame]:
  "slot_state (snd (finish_cloud_sign_out s a)) = slot_state a" "ticket_state (snd (finish_cloud_sign_out s a)) = ticket_state a"
  "said (snd (finish_cloud_sign_out s a)) = said a"
  by (simp_all add: finish_cloud_sign_out_def no_longer_def slot_state_def ticket_state_def said_def)

lemma elevated_frames [frame]:
  "slot_state (snd (apply_elevated e act oc b a)) = slot_state a" "ticket_state (snd (apply_elevated e act oc b a)) = ticket_state a"
  "said (snd (apply_elevated e act oc b a)) = said a"
proof -
  have u: "slot_state (x\<lparr>ag_enroll := v\<rparr>) = slot_state x" "ticket_state (x\<lparr>ag_enroll := v\<rparr>) = ticket_state x" "said (x\<lparr>ag_enroll := v\<rparr>) = said x"
    "slot_state (x\<lparr>ag_loss := l, ag_loss_check_at := 0\<rparr>) = slot_state x" "ticket_state (x\<lparr>ag_loss := l, ag_loss_check_at := 0\<rparr>) = ticket_state x"
    "said (x\<lparr>ag_loss := l, ag_loss_check_at := 0\<rparr>) = said x"
    "slot_state (x\<lparr>ag_enroll := v, ag_loss := l, ag_loss_check_at := 0\<rparr>) = slot_state x"
    "ticket_state (x\<lparr>ag_enroll := v, ag_loss := l, ag_loss_check_at := 0\<rparr>) = ticket_state x"
    "said (x\<lparr>ag_enroll := v, ag_loss := l, ag_loss_check_at := 0\<rparr>) = said x" for x v l
    by (simp_all add: slot_state_def ticket_state_def said_def)
  show "slot_state (snd (apply_elevated e act oc b a)) = slot_state a" "ticket_state (snd (apply_elevated e act oc b a)) = ticket_state a"
    "said (snd (apply_elevated e act oc b a)) = said a"
    by (cases oc; simp add: apply_elevated_def Let_def frame u)+
qed

text \<open>The reports of the threads that own the slot, with their stamps.\<close>

fun slot_report :: "agent_event \<Rightarrow> discovery_stamp option" where
  "slot_report (SignedIn s _ _ _ _) = Some s"
| "slot_report (SignInFailed s _ _ _ _) = Some s"
| "slot_report (Cancelled s _) = Some s"
| "slot_report (GrantCreated s _ _ _) = Some s"
| "slot_report (GrantFailed s _ _ _) = Some s"
| "slot_report (StaleGrantCompensated s) = Some s"
| "slot_report _ = None"

lemma signed_in_frames:
  "slot_state (snd (apply_signed_in e s ij w via a)) = slot_state (snd (finish_busy (en_now e) s False a))"
  "said (snd (apply_signed_in e s ij w via a)) = said a"
proof -
  obtain r a1 where l: "loss_landed (apply_effects w (snd (finish_busy (en_now e) s False a))) = (r, a1)" by fastforce
  have f: "slot_state a1 = slot_state (snd (finish_busy (en_now e) s False a))" "said a1 = said a"
    using loss_frames(1,3) [of "apply_effects w (snd (finish_busy (en_now e) s False a))"] l
    by (simp_all add: frame finish_busy_frames)
  show "slot_state (snd (apply_signed_in e s ij w via a)) = slot_state (snd (finish_busy (en_now e) s False a))"
    "said (snd (apply_signed_in e s ij w via a)) = said a"
    by (simp_all add: apply_signed_in_def l Let_def frame f split: option.splits)
qed

lemma sign_in_failed_frames:
  "slot_state (snd (apply_sign_in_failed e s w f m t a)) = slot_state (snd (finish_busy (en_now e) s False a))"
  "said (snd (apply_sign_in_failed e s w f m t a)) = said a"
proof -
  define a2 where "a2 = record_fault (en_now e) f m (apply_effects w (snd (finish_busy (en_now e) s False a)))"
  have f: "slot_state a2 = slot_state (snd (finish_busy (en_now e) s False a))" "said a2 = said a"
    by (simp_all add: a2_def frame finish_busy_frames)
  obtain n a3 where w: "failed_without_ticket e f t a2 = (n, a3)" by fastforce
  have g: "slot_state a3 = slot_state a2" "said a3 = said a2" using session_frames(5,6) [of e f t a2] w by simp_all
  show "slot_state (snd (apply_sign_in_failed e s w f m t a)) = slot_state (snd (finish_busy (en_now e) s False a))"
    "said (snd (apply_sign_in_failed e s w f m t a)) = said a"
    by (simp_all add: apply_sign_in_failed_def a2_def [symmetric] w Let_def frame f g)
qed

lemma grant_created_frames:
  "slot_state (snd (apply_grant_created e s g w a)) = slot_state (snd (finish_busy (en_now e) s False a))"
  "said (snd (apply_grant_created e s g w a)) = said a"
  "ticket_state (snd (apply_grant_created e s g w a)) = ticket_state a"
proof -
  define a1 where "a1 = apply_effects w (snd (finish_busy (en_now e) s False a))"
  obtain p a2 where u: "update_file (\<lambda>f. f\<lparr>fc_grant := Some g\<rparr>) a1 = (p, a2)" by fastforce
  then have a2: "a2 = updated_file (\<lambda>f. f\<lparr>fc_grant := Some g\<rparr>) a1" by simp
  have f: "slot_state a2 = slot_state (snd (finish_busy (en_now e) s False a))" "said a2 = said a" "ticket_state a2 = ticket_state a"
    by (simp_all only: a2 frame a1_def finish_busy_frames)
  have v: "slot_state (x\<lparr>ag_just_authorized := True, ag_granted_pending := b\<rparr>) = slot_state x"
    "said (x\<lparr>ag_just_authorized := True, ag_granted_pending := b\<rparr>) = said x"
    "ticket_state (x\<lparr>ag_just_authorized := True, ag_granted_pending := b\<rparr>) = ticket_state x" for x b
    by (simp_all add: slot_state_def said_def ticket_state_def)
  show "slot_state (snd (apply_grant_created e s g w a)) = slot_state (snd (finish_busy (en_now e) s False a))"
    "said (snd (apply_grant_created e s g w a)) = said a" "ticket_state (snd (apply_grant_created e s g w a)) = ticket_state a"
    by (simp_all add: apply_grant_created_def a1_def [symmetric] u Let_def frame f v)
qed

lemma shared_slot:
  "slot_report ev = Some s \<Longrightarrow> terminal_stamp ev = Some s \<Longrightarrow> slot_state (snd (apply_shared e ev a)) = slot_state (snd (finish_busy (en_now e) s False a))"
  "slot_report ev = None \<Longrightarrow> slot_state (snd (apply_shared e ev a)) = slot_state a"
  by (cases ev; simp add: apply_shared_def signed_in_frames sign_in_failed_frames grant_created_frames frame Let_def)+

lemma shared_said: "said (snd (apply_shared e ev a)) = said a"
  by (cases ev; simp add: apply_shared_def signed_in_frames sign_in_failed_frames grant_created_frames finish_busy_frames frame Let_def)

lemma live_frames:
  shows "slot_fine (slot_state (snd (apply_shared e ev (free_elevated ev a)))) \<Longrightarrow> slot_fine (slot_state (apply_live e ev a))"
    and "said (apply_live e ev a) = said a \<or> interruption_gate (apply_live e ev a) = Allow"
proof -
  obtain sh a2 where s: "apply_shared e ev (free_elevated ev a) = (sh, a2)" by fastforce
  define a3 where "a3 = (if sh_grant_sign_in sh then start_worker e ByGrant a2 else a2)"
  define a4 where "a4 = (case sh_pending sh of None \<Rightarrow> a3 | Some n \<Rightarrow> agent_notify n a3)"
  define a5 where "a5 = (case sh_elevating sh of None \<Rightarrow> a4 | Some act \<Rightarrow> outside_call (Elevating act) a4)"
  have l: "apply_live e ev a = (case sh_finished sh of None \<Rightarrow> a5 | Some (act, oc) \<Rightarrow> outside_call (Finished act oc) a5)"
    unfolding apply_live_def s prod.case Let_def a3_def [symmetric] a4_def [symmetric] a5_def [symmetric] ..
  have end_: "slot_state (apply_live e ev a) = slot_state a3" "said (apply_live e ev a) = said a4" "interruption_gate (apply_live e ev a) = interruption_gate a3"
    by (auto simp: l a5_def a4_def frame said_outside is_notice_def split: option.splits)
  show "slot_fine (slot_state (apply_live e ev a))" if "slot_fine (slot_state (snd (apply_shared e ev (free_elevated ev a))))"
    using that by (auto simp: end_ a3_def s intro: start_worker_frames)
  have "said (free_elevated ev a) = said a" by (cases ev) (simp_all add: free_elevated_def said_def)
  then have a3: "said a3 = said a"
    using shared_said [of e ev "free_elevated ev a"] by (simp add: a3_def s start_worker_frames)
  then show "said (apply_live e ev a) = said a \<or> interruption_gate (apply_live e ev a) = Allow"
    using said_notify [of _ a3] by (auto simp: end_ a4_def split: option.splits)
qed

lemma reject_frames:
  "said (snd (reject_stale_terminal e ev a)) = said a"
  by (auto simp: reject_stale_terminal_def finish_busy_frames frame split: agent_event.splits option.splits)

lemma discovery_failed_frames:
  "slot_state (snd (apply_event e (DiscoveryFailed s) a)) = slot_state a" "ticket_state (snd (apply_event e (DiscoveryFailed s) a)) = ticket_state a"
  "said (snd (apply_event e (DiscoveryFailed s) a)) = said a"
proof -
  obtain p a1 where p: "end_probe (dst_generation s) (en_now e) a = (p, a1)" by fastforce
  then have f: "slot_state a1 = slot_state a" "ticket_state a1 = ticket_state a" "said a1 = said a"
    using small_frames(19-21) [of "dst_generation s" "en_now e" a] by simp_all
  have "slot_state (snd (apply_event e (DiscoveryFailed s) a)) = slot_state a1" "ticket_state (snd (apply_event e (DiscoveryFailed s) a)) = ticket_state a1"
    "said (snd (apply_event e (DiscoveryFailed s) a)) = said a1"
    by (simp_all add: apply_event_def p slot_state_def ticket_state_def said_def)
  with f show "slot_state (snd (apply_event e (DiscoveryFailed s) a)) = slot_state a" "ticket_state (snd (apply_event e (DiscoveryFailed s) a)) = ticket_state a"
    "said (snd (apply_event e (DiscoveryFailed s) a)) = said a" by simp_all
qed

lemma ended_frames [frame]:
  "slot_state (a\<lparr>ag_discovery_ended := b\<rparr>) = slot_state a" "ticket_state (a\<lparr>ag_discovery_ended := b\<rparr>) = ticket_state a" "said (a\<lparr>ag_discovery_ended := b\<rparr>) = said a"
  by (simp_all add: slot_state_def ticket_state_def said_def)

lemma apply_event_terminal:
  "terminal_stamp ev = Some s \<Longrightarrow> apply_event e ev a =
     (if discovery_is_current a s then (True, apply_live e ev (a\<lparr>ag_discovery_ended := True\<rparr>)) else reject_stale_terminal e ev a)"
  by (cases ev) (simp_all add: apply_event_def)

lemma apply_event_other:
  "apply_event e (CurrentQuery s) a = (False, a)"
  "apply_event e (Discovered s sn w) a = apply_discovered e s sn w a"
  "apply_event e (StaleGrantCompensated s) a = finish_busy (en_now e) s True a"
  "apply_event e (ElevatedFinished act oc b) a = (True, apply_live e (ElevatedFinished act oc b) a)"
  "apply_event e (ElevationGranted act) a = (True, apply_live e (ElevationGranted act) a)"
  "apply_event e (BrokerLookup gen url) a = (True, apply_live e (BrokerLookup gen url) a)"
  "apply_event e (GrantGivenUp gen br r sv rp) a = (True, apply_live e (GrantGivenUp gen br r sv rp) a)"
  by (simp_all add: apply_event_def)

lemma event_said: "said (snd (apply_event e ev a)) = said a \<or> interruption_gate (snd (apply_event e ev a)) = Allow"
proof (cases "terminal_stamp ev")
  case (Some s)
  then show ?thesis using live_frames(2) [of e ev "a\<lparr>ag_discovery_ended := True\<rparr>"]
    by (simp add: apply_event_terminal frame reject_frames)
next
  case None
  then show ?thesis using live_frames(2) [of e ev a] discovery_failed_frames(3)
    by (cases ev) (simp_all add: apply_event_other frame finish_busy_frames)
qed

lemma agent_apply_frames:
  "slot_state (snd (agent_apply e ev a)) = slot_state (snd (apply_event e ev a))" "ticket_state (snd (agent_apply e ev a)) = ticket_state (snd (apply_event e ev a))"
  "said (snd (agent_apply e ev a)) = said a \<or> interruption_gate (snd (agent_apply e ev a)) = Allow"
  using event_said [of e ev a] said_announce [of None "snd (apply_event e ev a)"]
  by (auto simp: agent_apply_def frame split: prod.splits)

lemma tick_frames:
  "slot_state (snd (tick_at e b a)) = slot_state a" "said (snd (tick_at e b a)) = said a"
proof -
  have d: "slot_state (snd (tick_deadline e da)) = slot_state (snd da)" "said (snd (tick_deadline e da)) = said (snd da)"
    and p: "slot_state (snd (tick_probe e b da)) = slot_state (snd da)" "said (snd (tick_probe e b da)) = said (snd da)"
    and x: "slot_state (snd (tick_expiry e da)) = slot_state (snd da)" "said (snd (tick_expiry e da)) = said (snd da)"
    and o: "slot_state (snd (tick_overdue e b da)) = slot_state (snd da)" "said (snd (tick_overdue e b da)) = said (snd da)"
    and s: "slot_state (snd (tick_startup e b da)) = slot_state (snd da)" "said (snd (tick_startup e b da)) = said (snd da)"
    and f: "slot_state (snd (tick_refresh e b da)) = slot_state (snd da)" "said (snd (tick_refresh e b da)) = said (snd da)"
    and c: "slot_state (snd (tick_escalate e da)) = slot_state (snd da)" "said (snd (tick_escalate e da)) = said (snd da)"
    for da
    by (auto simp: tick_deadline_def tick_probe_def tick_expiry_def tick_overdue_def tick_startup_def tick_refresh_def
        tick_escalate_def with_loss_def slot_state_def said_def Let_def split: prod.splits option.splits)
  have u: "slot_state (x\<lparr>ag_loss_check_at := v\<rparr>) = slot_state x" "said (x\<lparr>ag_loss_check_at := v\<rparr>) = said x" for x v
    by (simp_all add: slot_state_def said_def)
  have l: "slot_state (snd (snd (tick_look e b da))) = slot_state (snd da)" "said (snd (snd (tick_look e b da))) = said (snd da)" for da
    by (cases da; simp add: tick_look_def Let_def frame u)+
  have r: "slot_state (snd (tick_recover e b sda)) = slot_state (snd (snd sda))" "said (snd (tick_recover e b sda)) = said (snd (snd sda))" for sda
    by (auto simp: tick_recover_def frame split: prod.splits option.splits bool.splits)
  show "slot_state (snd (tick_at e b a)) = slot_state a" "said (snd (tick_at e b a)) = said a"
    by (simp_all add: tick_at_def Let_def d p x o s f c l r)
qed

lemma tick_slot: "slot_fine (slot_state a) \<Longrightarrow> slot_fine (slot_state (snd (agent_tick e a)))"
  and tick_said: "said (snd (agent_tick e a)) = said a \<or> interruption_gate (snd (agent_tick e a)) = Allow"
proof -
  obtain d a1 where t: "tick_at e (ag_busy a) a = (d, a1)" by fastforce
  have f: "slot_state a1 = slot_state a" "said a1 = said a" using tick_frames [of e "ag_busy a" a] t by simp_all
  define a2 where "a2 = announce (du_notice d) a1"
  define a3 where "a3 = (case du_start d of None \<Rightarrow> a2 | Some t \<Rightarrow> start_worker e t a2)"
  define a4 where "a4 = (if du_probe d \<and> \<not> ag_busy a3 then discover_in_background e a3 else a3)"
  have k: "snd (agent_tick e a) = a4"
    unfolding agent_tick_def t prod.case Let_def a2_def [symmetric] a3_def [symmetric] a4_def [symmetric] by simp
  have g: "slot_state a4 = slot_state a3" "said a4 = said a3" "interruption_gate a4 = interruption_gate a3"
    by (simp_all add: a4_def frame)
  have "slot_fine (slot_state a3)" if "slot_fine (slot_state a)"
    using that by (auto simp: a3_def a2_def frame f split: option.splits intro: start_worker_frames)
  then show "slot_fine (slot_state a) \<Longrightarrow> slot_fine (slot_state (snd (agent_tick e a)))" by (simp add: k g)
  have "said a3 = said a2" "interruption_gate a3 = interruption_gate a2"
    by (simp_all add: a3_def start_worker_frames split: option.splits)
  then show "said (snd (agent_tick e a)) = said a \<or> interruption_gate (snd (agent_tick e a)) = Allow"
    using said_announce [of "du_notice d" a1] by (auto simp: k g a2_def frame f)
qed

lemma worker_commands:
  "slot_fine (slot_state a) \<Longrightarrow> slot_fine (slot_state (snd (create_grant a)))" "said (snd (create_grant a)) = said a"
  "slot_fine (slot_state a) \<Longrightarrow> slot_fine (slot_state (snd (spawn_elevated args b act a)))" "said (snd (spawn_elevated args b act a)) = said a"
  "slot_state (snd (begin_cloud_sign_out a)) = slot_state a" "said (snd (begin_cloud_sign_out a)) = said a"
  "ticket_state (snd (create_grant a)) = ticket_state a" "ticket_state (snd (spawn_elevated args b act a)) = ticket_state a"
  "ticket_state (snd (begin_cloud_sign_out a)) = ticket_state a"
  by (auto simp: create_grant_def spawn_elevated_def begin_cloud_sign_out_def advance_discovery_def started_busy_def started_def
      spawned_def slot_state_def said_def ticket_state_def Let_def split: option.splits)

lemma give_up_frames [frame]:
  "slot_state (snd (give_up_grant b a)) = slot_state a" "said (snd (give_up_grant b a)) = said a" "ticket_state (snd (give_up_grant b a)) = ticket_state a"
proof -
  define h :: "file_config \<Rightarrow> file_config" where "h = (\<lambda>f. if fc_grant f = None then f else f\<lparr>fc_grant := None, fc_expected_working_as := None\<rparr>)"
  obtain p a1 where u: "update_file h a = (p, a1)" by fastforce
  then have a1: "a1 = updated_file h a" by simp
  have f: "slot_state a1 = slot_state a" "said a1 = said a" "ticket_state a1 = ticket_state a" by (simp_all only: a1 frame)
  show "slot_state (snd (give_up_grant b a)) = slot_state a" "said (snd (give_up_grant b a)) = said a" "ticket_state (snd (give_up_grant b a)) = ticket_state a"
    by (simp_all add: give_up_grant_def h_def [symmetric] u frame f split: option.splits)
qed

lemma change_broker_frames [frame]:
  "slot_state (snd (change_broker e u a)) = slot_state a" "said (snd (change_broker e u a)) = said a"
  "ticket_state (snd (change_broker e u a)) \<in> {ticket_state a, (SignedOut, [], 0, None)}"
proof -
  have v: "slot_state (x\<lparr>ag_startup_retry_at := r, ag_awaits_broker := w\<rparr>) = slot_state x" "said (x\<lparr>ag_startup_retry_at := r, ag_awaits_broker := w\<rparr>) = said x"
    "ticket_state (x\<lparr>ag_startup_retry_at := r, ag_awaits_broker := w\<rparr>) = ticket_state x" for x r w
    by (simp_all add: slot_state_def said_def ticket_state_def)
  have r: "slot_state x = slot_state a \<and> said x = said a \<and> (if p then ticket_state x = (SignedOut, [], 0, None) else ticket_state x = ticket_state a)"
    if "agent_retarget e ob nb a = (p, x)" for ob nb p x
    using retarget_frames [of e ob nb a] that by simp
  show "slot_state (snd (change_broker e u a)) = slot_state a" "said (snd (change_broker e u a)) = said a"
    "ticket_state (snd (change_broker e u a)) \<in> {ticket_state a, (SignedOut, [], 0, None)}"
    by (auto simp: change_broker_def Let_def v split: option.splits prod.splits bool.splits dest!: r)
qed

lemma settings_frames [frame]:
  "slot_state (apply_settings e c a) = slot_state a" "said (apply_settings e c a) = said a"
  "ticket_state (apply_settings e c a) \<in> {ticket_state a, (SignedOut, [], 0, None)}"
proof -
  obtain u a1 where c: "change_broker e (sc_broker_url c) a = (u, a1)" by fastforce
  have f: "slot_state a1 = slot_state a" "said a1 = said a" "ticket_state a1 \<in> {ticket_state a, (SignedOut, [], 0, None)}"
    using change_broker_frames [of e "sc_broker_url c" a] c by simp_all
  have v: "slot_state (x\<lparr>ag_entry := w\<rparr>) = slot_state x" "said (x\<lparr>ag_entry := w\<rparr>) = said x" "ticket_state (x\<lparr>ag_entry := w\<rparr>) = ticket_state x" for x w
    by (simp_all add: slot_state_def said_def ticket_state_def)
  have g: "slot_state (case o' of None \<Rightarrow> a1 | Some on \<Rightarrow> a1\<lparr>ag_entry := w on\<rparr>) = slot_state a1"
    "said (case o' of None \<Rightarrow> a1 | Some on \<Rightarrow> a1\<lparr>ag_entry := w on\<rparr>) = said a1"
    "ticket_state (case o' of None \<Rightarrow> a1 | Some on \<Rightarrow> a1\<lparr>ag_entry := w on\<rparr>) = ticket_state a1" for o' :: "bool option" and w
    by (simp_all add: v split: option.splits)
  show "slot_state (apply_settings e c a) = slot_state a" "said (apply_settings e c a) = said a"
    "ticket_state (apply_settings e c a) \<in> {ticket_state a, (SignedOut, [], 0, None)}"
    using f by (simp_all only: apply_settings_def c prod.case Let_def frame g)
qed

lemma command_frames:
  "slot_fine (slot_state a) \<Longrightarrow> slot_fine (slot_state (run_command e c a))" "said (run_command e c a) = said a"
proof -
  have u: "slot_state (a\<lparr>ag_startup_retry_at := None, ag_awaits_broker := False\<rparr>) = slot_state a"
    "said (a\<lparr>ag_startup_retry_at := None, ag_awaits_broker := False\<rparr>) = said a"
    "slot_state (a\<lparr>ag_awaits_broker := b, ag_startup_retries := n\<rparr>) = slot_state a"
    "said (a\<lparr>ag_awaits_broker := b, ag_startup_retries := n\<rparr>) = said a"
    "slot_state (a\<lparr>ag_awaits_broker := b\<rparr>) = slot_state a" "said (a\<lparr>ag_awaits_broker := b\<rparr>) = said a"
    "slot_state (a\<lparr>ag_cancel := b\<rparr>) = slot_state a" "said (a\<lparr>ag_cancel := b\<rparr>) = said a"
    "slot_state (a\<lparr>ag_just_authorized := b\<rparr>) = slot_state a" "said (a\<lparr>ag_just_authorized := b\<rparr>) = said a" for b n
    by (simp_all add: slot_state_def said_def)
  have d: "slot_state (drop_ticket e a) = slot_state a" "said (drop_ticket e a) = said a"
  proof -
    obtain p a1 where p: "purge_realm e (kb_realm (ag_kerberos a)) a = (p, a1)" by fastforce
    then have "slot_state a1 = slot_state a" "said a1 = said a"
      using small_frames(28,30) [of e "kb_realm (ag_kerberos a)" a] by simp_all
    then show "slot_state (drop_ticket e a) = slot_state a" "said (drop_ticket e a) = said a"
      by (simp_all add: drop_ticket_def p Let_def frame)
  qed
  have b: "slot_fine (slot_state a) \<Longrightarrow> slot_fine (slot_state (snd (for_broker fl act a)))" "said (snd (for_broker fl act a)) = said a" for fl act
    by (simp_all add: for_broker_def worker_commands split: option.splits)
  show "slot_fine (slot_state a) \<Longrightarrow> slot_fine (slot_state (run_command e c a))"
    by (cases c) (simp_all add: agent_sign_in_def renew_now_def autostart_sign_in_def cancel_sign_in_def sign_out_idp_def
        give_up_grant_now_def status_closed_def begin_enroll_def begin_reenroll_def begin_unenroll_def begin_repair_def
        start_worker_frames worker_commands frame u b d Let_def)
  show "said (run_command e c a) = said a"
    by (cases c) (simp_all add: agent_sign_in_def renew_now_def autostart_sign_in_def cancel_sign_in_def sign_out_idp_def
        give_up_grant_now_def status_closed_def begin_enroll_def begin_reenroll_def begin_unenroll_def begin_repair_def
        start_worker_frames worker_commands frame u b d Let_def)
qed

lemma report_stamps:
  "slot_report (sign_in_report s t p r) = Some s" "terminal_stamp (sign_in_report s t p r) = Some s"
  "slot_report (create_grant_report s p r') = Some s" "terminal_stamp (create_grant_report s p r') = Some s"
  by (auto simp: sign_in_report_def create_grant_report_def split: prod.splits sum.splits option.splits)

lemma owner_report:
  assumes "slot_state a = (True, Some s, [])" "slot_report ev = Some s"
  shows "slot_fine (slot_state (snd (apply_event e ev a)))"
proof -
  have b: "map_option bo_stamp (ag_busy_operation a) = Some s" using assms(1) by (simp add: slot_state_def)
  have fin: "slot_state (snd (finish_busy n s st x)) = (False, None, [])" if "slot_state x = (True, Some s, [])" for n st x
    using that by (simp add: finish_busy_frames) (auto simp: slot_state_def)
  show ?thesis
  proof (cases "terminal_stamp ev")
    case None
    then have "ev = StaleGrantCompensated s" using assms(2) by (cases ev) simp_all
    then show ?thesis using fin [OF assms(1)] by (simp add: apply_event_other)
  next
    case (Some s')
    then have s': "terminal_stamp ev = Some s" using assms(2) by (cases ev) simp_all
    show ?thesis
    proof (cases "discovery_is_current a s")
      case True
      have f: "free_elevated ev x = x" for x using s' by (cases ev) (simp_all add: free_elevated_def)
      let ?a = "a\<lparr>ag_discovery_ended := True\<rparr>"
      have "slot_state (snd (apply_shared e ev ?a)) = (False, None, [])"
        using shared_slot(1) [OF assms(2) s', of e ?a] fin [of ?a] assms(1) by (simp add: frame)
      then show ?thesis using live_frames(1) [of e ev ?a] s' True by (simp add: apply_event_terminal f)
    next
      case False
      then show ?thesis using s' assms
        by (cases ev) (simp_all add: apply_event_terminal reject_stale_terminal_def fin frame split: option.splits)
    qed
  qed
qed

lemma other_report:
  assumes "slot_fine (slot_state a)" "slot_report ev = None" "\<nexists>act oc b. ev = ElevatedFinished act oc b"
  shows "slot_fine (slot_state (snd (apply_event e ev a)))"
proof -
  have f: "free_elevated ev x = x" for x using assms(3) by (cases ev) (simp_all add: free_elevated_def)
  have l: "slot_fine (slot_state (apply_live e ev x))" if "slot_state x = slot_state a" for x
    using live_frames(1) [of e ev x] shared_slot(2) [OF assms(2), of e x] assms(1) that by (simp add: f)
  show ?thesis
  proof (cases "terminal_stamp ev")
    case (Some s)
    then show ?thesis using assms(1,2) l [of "a\<lparr>ag_discovery_ended := True\<rparr>"]
      by (cases ev) (simp_all add: apply_event_terminal reject_stale_terminal_def frame)
  next
    case None
    then show ?thesis using assms l [of a] discovery_failed_frames(1)
      by (cases ev) (simp_all add: apply_event_other frame)
  qed
qed

lemma elevated_report:
  assumes "slot_state a = (True, None, [])"
  shows "slot_fine (slot_state (snd (apply_event e (ElevatedFinished act oc b) a)))"
proof -
  have "slot_state (free_elevated (ElevatedFinished act oc b) a) = (False, None, [])"
    using assms by (simp add: free_elevated_def slot_state_def)
  then show ?thesis
    using live_frames(1) [of e "ElevatedFinished act oc b" a] shared_slot(2) [of "ElevatedFinished act oc b" e "free_elevated (ElevatedFinished act oc b) a"]
    by (simp add: apply_event_other)
qed

lemma job_report:
  assumes "ag_jobs a = xs @ j # ys" "reports j ev" "slot_fine (slot_state a)"
  shows "slot_fine (slot_state (snd (apply_event e ev (a\<lparr>ag_jobs := xs @ ys\<rparr>))))"
proof (cases "owns_slot j")
  case True
  then have s: "slot_state (a\<lparr>ag_jobs := xs @ ys\<rparr>) = (True, slot_stamp j, [])"
    using assms(1,3) by (auto simp: slot_state_def append_eq_Cons_conv filter_empty_conv split: if_splits)
  show ?thesis
    using assms(2) True s
    by cases (simp_all add: owner_report elevated_report report_stamps)
next
  case False
  then have s: "slot_state (a\<lparr>ag_jobs := xs @ ys\<rparr>) = slot_state a" using assms(1) by (simp add: slot_state_def)
  show ?thesis
    using assms(2) False s assms(3)
    by cases (simp_all add: other_report run_cloud_sign_out_def)
qed

lemma asked_event: "asks j ev \<Longrightarrow> slot_fine (slot_state a) \<Longrightarrow> slot_fine (slot_state (snd (apply_event e ev a)))"
  by (erule asks.cases) (simp_all add: other_report)

lemma step_slot: "agent_step e a b \<Longrightarrow> slot_fine (slot_state a) \<Longrightarrow> slot_fine (slot_state b)"
proof (induction rule: agent_step.induct)
  case (file_changed a d)
  then show ?case by (simp add: slot_state_def)
next
  case (entry_changed a entry)
  then show ?case by (simp add: slot_state_def)
next
  case (browser_leg a on)
  then show ?case by (simp add: slot_state_def)
qed (auto simp: tick_slot command_frames agent_apply_frames job_report asked_event simp del: slot_fine.simps)

lemma init_slot: "slot_fine (slot_state (agent_init e windows pol disk entry))"
proof -
  obtain p st en where q: "enforce_autostart (settings_load windows pol disk) entry = (p, st, en)" by (metis prod_cases3)
  obtain r a1 where d: "adopt_existing_ticket e (agent_new e st en) = (r, a1)" by fastforce
  have n: "slot_state (agent_new e st en) = (False, None, [])" by (simp add: agent_new_def slot_state_def Let_def)
  have v: "slot_state (x\<lparr>ag_startup_retries := k\<rparr>) = slot_state x"
    "slot_state (x\<lparr>ag_principal := pr, ag_start := i, ag_end := i', ag_renew_till := i'', ag_phase := ph, ag_refresh_at := v\<rparr>) = slot_state x"
    for x k pr i i' i'' ph v by (simp_all add: slot_state_def)
  have "slot_state (snd (adopt_existing_ticket e x)) = slot_state x" for x
    by (simp add: adopt_existing_ticket_def adopt_cached_ticket_def frame v split: option.splits)
  from this [of "agent_new e st en"] have "slot_state a1 = (False, None, [])" using d n by simp
  then have "slot_fine (slot_state a1)" by simp
  then have "slot_fine (slot_state (if r then start_worker e ByStartup a1 else a1))" using start_worker_frames(1) by simp
  then show ?thesis by (simp add: agent_init_def q d Let_def frame)
qed

lemma reach_slot: "agent_reach t a \<Longrightarrow> slot_fine (slot_state a)"
  by (induction rule: agent_reach.induct) (blast intro: init_slot step_slot)+

section \<open>The schedule of a held ticket\<close>

fun sched :: "int \<Rightarrow> phase \<times> str \<times> int \<times> int option \<Rightarrow> bool" where
  "sched t (ph, who, fin, at) \<longleftrightarrow>
     (ph = Connected \<or> ph = SigningIn \<and> fin > t \<and> who \<noteq> [] \<longrightarrow> (\<exists>r. at = Some r \<and> r \<le> max fin (t + 1)))
   \<and> (ph \<noteq> Connected \<and> ph \<noteq> SigningIn \<longrightarrow> fin \<le> t \<or> who = [])"

lemma midpoint_bounds: "now < midpoint e now fin" "midpoint e now fin \<le> max fin (now + 1)"
  by (auto simp: midpoint_def Let_def EXPIRY_GRACE_def)

lemma midpoint_live: "now < fin \<Longrightarrow> midpoint e now fin \<le> fin"
  using midpoint_bounds(2) [of e now fin] by simp

lemma sched_mono: "sched t x \<Longrightarrow> t \<le> u \<Longrightarrow> sched u x"
  by (cases x) fastforce

lemma sched_off [simp]: "sched t (SignedOut, [], 0, None)"
  by simp

lemma start_worker_sched: "sched t (ticket_state a) \<Longrightarrow> sched t (ticket_state (start_worker e tr a))"
  by (auto simp: start_worker_def advance_discovery_def started_busy_def started_def spawned_def ticket_state_def Let_def split: option.splits)

lemma settle_sched: "sched n (ticket_state a) \<Longrightarrow> sched n (ticket_state (settle_sign_in n a))"
  by (auto simp: settle_sign_in_def holds_live_ticket_at_def ticket_state_def)

lemma finish_sched: "sched n (ticket_state a) \<Longrightarrow> sched n (ticket_state (snd (finish_busy n s st a)))"
proof -
  have u: "ticket_state ((no_longer act (x\<lparr>ag_busy_operation := v\<rparr>))\<lparr>ag_busy := w\<rparr>) = ticket_state x" for act v w and x :: agent
    by (simp add: no_longer_def ticket_state_def)
  show "sched n (ticket_state a) \<Longrightarrow> sched n (ticket_state (snd (finish_busy n s st a)))"
    by (simp add: finish_busy_def Let_def u settle_sched split: option.splits)
qed

lemma signed_in_ticket: "ticket_state (snd (apply_signed_in e s ij w via a))
    = (Connected, ij_principal ij, ij_end ij, Some (midpoint e (en_now e) (ij_end ij)))"
proof -
  have "ticket_state (landed_session e ij x) = (Connected, ij_principal ij, ij_end ij, Some (midpoint e (en_now e) (ij_end ij)))" for x
    by (simp add: landed_session_def ticket_state_def)
  then show ?thesis by (simp add: apply_signed_in_def Let_def frame split: prod.splits)
qed

lemma failed_sched:
  assumes "sched (en_now e) (ticket_state a)"
  shows "sched (en_now e) (ticket_state (snd (apply_sign_in_failed e s w f m t a)))"
proof -
  define a2 where "a2 = record_fault (en_now e) f m (apply_effects w (snd (finish_busy (en_now e) s False a)))"
  have t2: "ticket_state a2 = ticket_state a" by (simp add: a2_def frame finish_busy_frames)
  show ?thesis
  proof (cases "holds_live_ticket_at a2 (en_now e)")
    case True
    have u: "ticket_state (x\<lparr>ag_phase := Connected, ag_silent_failed := True\<rparr>) = (Connected, ag_principal x, ag_end x, ag_refresh_at x)"
      "ticket_state (x\<lparr>ag_phase := Connected, ag_silent_failed := True, ag_refresh_backoff := b, ag_refresh_at := v\<rparr>)
        = (Connected, ag_principal x, ag_end x, v)" for x b v
      by (simp_all add: ticket_state_def)
    have "sched (en_now e) (Connected, ag_principal a2, ag_end a2, ag_refresh_at a2)"
      using True assms t2 [symmetric] by (auto simp: holds_live_ticket_at_def ticket_state_def)
    then show ?thesis using True midpoint_bounds(2) [of e "en_now e" "ag_end a2"]
      by (auto simp: apply_sign_in_failed_def a2_def [symmetric] failed_with_ticket_def Let_def frame u)
  next
    case False
    have "ticket_state (snd (failed_without_ticket e f t a2)) = (if quiet_trigger t then SignedOut else Failed, ag_principal a2, ag_end a2, None)"
      by (simp add: failed_without_ticket_def Let_def ticket_state_def)
    moreover have "ag_end a2 \<le> en_now e \<or> ag_principal a2 = []"
      using False assms t2 [symmetric] by (auto simp: holds_live_ticket_at_def ticket_state_def)
    ultimately show ?thesis using False
      by (auto simp: apply_sign_in_failed_def a2_def [symmetric] Let_def split: prod.splits)
  qed
qed

lemma shared_sched: "sched (en_now e) (ticket_state a) \<Longrightarrow> sched (en_now e) (ticket_state (snd (apply_shared e ev a)))"
proof (cases ev)
  case (SignedIn s ij r w via)
  then show ?thesis using midpoint_bounds(2) by (simp add: apply_shared_def signed_in_ticket)
next
  case (SignInFailed s w f m t)
  then show "sched (en_now e) (ticket_state a) \<Longrightarrow> ?thesis" by (simp add: apply_shared_def failed_sched)
next
  case (Cancelled s w)
  then show "sched (en_now e) (ticket_state a) \<Longrightarrow> ?thesis" by (simp add: apply_shared_def settle_sched frame finish_busy_frames)
qed (simp_all add: apply_shared_def grant_created_frames finish_busy_frames frame Let_def)

lemma live_sched: "sched (en_now e) (ticket_state a) \<Longrightarrow> sched (en_now e) (ticket_state (apply_live e ev a))"
proof -
  assume s: "sched (en_now e) (ticket_state a)"
  have "ticket_state (free_elevated ev a) = ticket_state a" by (cases ev) (simp_all add: free_elevated_def ticket_state_def)
  with s have "sched (en_now e) (ticket_state (snd (apply_shared e ev (free_elevated ev a))))" by (simp add: shared_sched)
  then show ?thesis
    by (auto simp: apply_live_def Let_def frame start_worker_sched split: prod.splits option.splits)
qed

lemma old_realm_sched: "sched n (ticket_state a) \<Longrightarrow> sched n (ticket_state (end_old_realm e sn a))"
proof -
  have "ticket_state (reset_session x) = (SignedOut, [], 0, None)" for x by (simp add: reset_session_def ticket_state_def)
  then show "sched n (ticket_state a) \<Longrightarrow> sched n (ticket_state (end_old_realm e sn a))" by (simp add: end_old_realm_def)
qed

lemma discovered_sched: "sched (en_now e) (ticket_state a) \<Longrightarrow> sched (en_now e) (ticket_state (snd (apply_discovered e s sn w a)))"
proof -
  assume a: "sched (en_now e) (ticket_state a)"
  define a1 where "a1 = (if w then a else snd (end_probe (dst_generation s) (en_now e) a))"
  have 1: "sched (en_now e) (ticket_state a1)" using a by (simp add: a1_def frame)
  obtain p a2 where r: "replace_broker_snapshot e s sn a1 = (p, a2)" by fastforce
  have "sched (en_now e) (ticket_state (snd (replace_broker_snapshot e s sn a1)))"
    by (simp add: replace_broker_snapshot_def Let_def frame old_realm_sched 1)
  with r have 2: "sched (en_now e) (ticket_state a2)" by simp
  obtain q st en where q: "enforce_autostart (ag_settings a2) (ag_entry a2) = (q, st, en)" by (metis prod_cases3)
  have u: "ticket_state (x\<lparr>ag_settings := v, ag_entry := v'\<rparr>) = ticket_state x"
    "ticket_state (x\<lparr>ag_settings := v, ag_entry := v', ag_startup_retry_at := r'\<rparr>) = ticket_state x" for x v v' r'
    by (simp_all add: ticket_state_def)
  show ?thesis using 2 by (cases p; simp add: apply_discovered_def a1_def [symmetric] r q Let_def u)
qed

lemma event_sched: "sched (en_now e) (ticket_state a) \<Longrightarrow> sched (en_now e) (ticket_state (snd (apply_event e ev a)))"
proof (cases "terminal_stamp ev")
  case (Some s)
  then show "sched (en_now e) (ticket_state a) \<Longrightarrow> ?thesis"
    by (auto simp: apply_event_terminal frame live_sched reject_stale_terminal_def finish_sched split: agent_event.splits option.splits)
next
  case None
  then show "sched (en_now e) (ticket_state a) \<Longrightarrow> ?thesis" using discovery_failed_frames(2)
    by (cases ev) (simp_all add: apply_event_other live_sched finish_sched discovered_sched)
qed

lemma tick_sched:
  assumes "sched (en_now e) (ticket_state a)"
  shows "sched (en_now e) (ticket_state (snd (tick_at e b a)))"
proof -
  have d: "ticket_state (snd (tick_deadline e da)) = ticket_state (snd da)" and p: "ticket_state (snd (tick_probe e b da)) = ticket_state (snd da)"
    and c: "ticket_state (snd (tick_escalate e da)) = ticket_state (snd da)" and s: "ticket_state (snd (tick_startup e b da)) = ticket_state (snd da)" for da
    by (auto simp: tick_deadline_def tick_probe_def tick_startup_def tick_escalate_def ticket_state_def Let_def split: prod.splits option.splits)
  have u: "ticket_state (x\<lparr>ag_loss_check_at := v\<rparr>) = ticket_state x" for x v by (simp add: ticket_state_def)
  have l: "ticket_state (snd (snd (tick_look e b da))) = ticket_state (snd da)" for da
    by (cases da; simp add: tick_look_def Let_def frame u)
  have r: "ticket_state (snd (tick_recover e b sda)) = ticket_state (snd (snd sda))" for sda
    by (auto simp: tick_recover_def frame split: prod.splits option.splits bool.splits)
  have x: "sched (en_now e) (ticket_state (snd (tick_expiry e da)))" if "sched (en_now e) (ticket_state (snd da))" for da
    using that by (cases da) (auto simp: tick_expiry_def ticket_state_def with_loss_def Let_def)
  have o: "sched (en_now e) (ticket_state (snd (tick_overdue e b da)))" if "sched (en_now e) (ticket_state (snd da))" "ag_phase (snd da) = Lapsed" for da
    using that by (cases da) (auto simp: tick_overdue_def ticket_state_def)
  have f: "sched (en_now e) (ticket_state (snd (tick_refresh e b da)))" if "sched (en_now e) (ticket_state (snd da))" for da
    using that midpoint_bounds(2) by (cases da) (auto simp: tick_refresh_def ticket_state_def Let_def midpoint_live)
  show ?thesis using assms
    by (simp only: tick_at_def Let_def) (auto simp: c s intro!: o f x simp: l r d p simp del: sched.simps)
qed

lemma tick_keeps_schedule: "sched (en_now e) (ticket_state a) \<Longrightarrow> sched (en_now e) (ticket_state (snd (agent_tick e a)))"
  using tick_sched [of e a "ag_busy a"]
  by (auto simp: agent_tick_def Let_def frame start_worker_sched split: prod.splits option.splits simp del: sched.simps)

lemma command_sched: "sched (en_now e) (ticket_state a) \<Longrightarrow> sched (en_now e) (ticket_state (run_command e c a))"
proof -
  assume a: "sched (en_now e) (ticket_state a)"
  have u: "ticket_state (a\<lparr>ag_startup_retry_at := None, ag_awaits_broker := False\<rparr>) = ticket_state a"
    "ticket_state (a\<lparr>ag_awaits_broker := b, ag_startup_retries := n\<rparr>) = ticket_state a"
    "ticket_state (a\<lparr>ag_awaits_broker := b\<rparr>) = ticket_state a" "ticket_state (a\<lparr>ag_cancel := b\<rparr>) = ticket_state a"
    "ticket_state (a\<lparr>ag_just_authorized := b\<rparr>) = ticket_state a" for b n by (simp_all add: ticket_state_def)
  have "ticket_state (reset_session x) = (SignedOut, [], 0, None)" for x by (simp add: reset_session_def ticket_state_def)
  then have d: "ticket_state (drop_ticket e a) = (SignedOut, [], 0, None)"
    by (simp add: drop_ticket_def Let_def frame split: prod.splits)
  have b: "ticket_state (snd (for_broker fl act a)) = ticket_state a" for fl act
    by (simp add: for_broker_def worker_commands split: option.splits)
  have s: "sched (en_now e) (ticket_state (apply_settings e ch a))" for ch
    using settings_frames(3) [of e ch a] a by (auto simp del: sched.simps)
  show ?thesis using a
    by (cases c) (simp_all add: agent_sign_in_def renew_now_def autostart_sign_in_def cancel_sign_in_def sign_out_idp_def
        give_up_grant_now_def status_closed_def begin_enroll_def begin_reenroll_def begin_unenroll_def begin_repair_def
        start_worker_sched worker_commands frame u b d s Let_def del: sched.simps)
qed

lemma step_sched:
  "agent_step e a b \<Longrightarrow> sched (en_now e) (ticket_state a) \<Longrightarrow> sched (en_now e) (ticket_state b)"
proof (induction rule: agent_step.induct)
  case (reported a xs j ys ev)
  have "ticket_state (a\<lparr>ag_jobs := xs @ ys\<rparr>) = ticket_state a" by (simp add: ticket_state_def)
  with reported show ?case by (simp add: agent_apply_frames event_sched del: sched.simps)
next
  case (entry_changed a entry)
  then show ?case by (simp add: ticket_state_def)
next
  case (browser_leg a on)
  then show ?case by (simp add: ticket_state_def)
qed (auto simp: tick_keeps_schedule command_sched agent_apply_frames event_sched frame simp del: sched.simps)

lemma init_sched:
  assumes "tickets_sane e"
  shows "sched (en_now e) (ticket_state (agent_init e windows pol disk entry))"
proof -
  obtain p st en where q: "enforce_autostart (settings_load windows pol disk) entry = (p, st, en)" by (metis prod_cases3)
  obtain r a1 where d: "adopt_existing_ticket e (agent_new e st en) = (r, a1)" by fastforce
  have n: "ticket_state (agent_new e st en) = (SignedOut, [], 0, None)" by (simp add: agent_new_def ticket_state_def Let_def)
  have v: "ticket_state (x\<lparr>ag_startup_retries := k\<rparr>) = ticket_state x"
    "ticket_state (x\<lparr>ag_principal := pr, ag_start := i, ag_end := i', ag_renew_till := i'', ag_phase := ph, ag_refresh_at := w\<rparr>) = (ph, pr, i', w)"
    for x k pr i i' i'' ph w by (simp_all add: ticket_state_def)
  have m: "midpoint e (max (ct_start t) (en_now e)) (ct_end t) \<le> ct_end t"
    if "en_tgt e k = Some (Some t)" "\<not> ct_end t \<le> en_now e" for k t
    using midpoint_live [of "max (ct_start t) (en_now e)" "ct_end t" e] assms that by (fastforce simp: tickets_sane_def)
  have "sched (en_now e) (ticket_state (snd (adopt_existing_ticket e (agent_new e st en))))"
    by (auto simp: adopt_existing_ticket_def adopt_cached_ticket_def frame v n m split: option.splits)
  then have "sched (en_now e) (ticket_state (if r then start_worker e ByStartup a1 else a1))"
    using d by (simp add: start_worker_sched del: sched.simps)
  then show ?thesis by (simp add: agent_init_def q d Let_def frame del: sched.simps)
qed

lemma reach_sched: "agent_reach t a \<Longrightarrow> sched t (ticket_state a)"
  by (induction rule: agent_reach.induct) (blast intro: init_sched step_sched sched_mono)+

text \<open>
  C18 (KB_AgentSound.renewal_always_scheduled). Whatever the user, the threads, the timer and other
  processes do, in whatever order: an agent that shows a ticket has its next re-injection scheduled,
  not later than the ticket's End Time, or one second from the last reading of the clock when the
  ticket has already ended. An agent that lost the ticket never holds one it could still use.
\<close>

theorem renewal_always_scheduled:
  assumes "agent_reach t a"
  shows "(ag_phase a = Connected \<longrightarrow> (\<exists>r. ag_refresh_at a = Some r \<and> r \<le> max (ag_end a) (t + 1)))
    \<and> (ag_phase a \<in> {SignedOut, Lapsed, Failed} \<longrightarrow> ag_end a \<le> t \<or> ag_principal a = [])"
  using reach_sched [OF assms] by (auto simp: ticket_state_def)

text \<open>
  C19 (KB_AgentSound.slot_has_one_owner). In every reachable state the busy slot is taken exactly
  while one thread that owns it runs, at most one such thread runs, and the recorded operation is
  that thread's. So a finished, cancelled, failed, stale or panicked thread always gives the slot
  back or hands it to the one it starts, and no report frees the slot of another.
\<close>

theorem slot_has_one_owner:
  assumes "agent_reach t a"
  shows "ag_busy a = (\<exists>j \<in> set (ag_jobs a). owns_slot j) \<and> length (filter owns_slot (ag_jobs a)) \<le> 1
    \<and> map_option bo_stamp (ag_busy_operation a) = (case filter owns_slot (ag_jobs a) of [] \<Rightarrow> None | j # _ \<Rightarrow> slot_stamp j)"
proof -
  have f: "slot_fine (slot_state a)" by (rule reach_slot [OF assms])
  show ?thesis
  proof (cases "filter owns_slot (ag_jobs a)")
    case Nil
    then show ?thesis using f by (auto simp: slot_state_def filter_empty_conv split: if_splits)
  next
    case (Cons j js)
    then have "j \<in> set (ag_jobs a)" "owns_slot j" by (auto dest: filter_eq_ConsD simp: filter_eq_Cons_iff)
    with Cons f show ?thesis by (auto simp: slot_state_def split: if_splits)
  qed
qed

section \<open>The timer starts what is due\<close>

definition going :: "agent \<Rightarrow> bool \<times> bool \<times> discovery_stamp option \<times> settings \<times> job list \<times> nat" where
  "going a = (ag_busy a, ag_cleaning a, ag_cloud_sign_out a, ag_settings a, ag_jobs a, ag_generation a)"

lemma going_announce: "going (announce n a) = going a"
proof -
  have r: "going (release_deferred x) = going x" for x
    by (auto simp: release_deferred_def settle_deferred_def deliver_def outside_call_def going_def split: prod.splits option.splits gate.splits)
  have n: "going (agent_notify m x) = going (release_deferred x)" for m x
    by (auto simp: agent_notify_def admit_def deliver_def outside_call_def going_def split: prod.splits option.splits gate.splits)
  show ?thesis by (cases n) (simp_all add: announce_def r n)
qed

lemma tick_going: "going (snd (tick_at e b a)) = going a"
proof -
  have w: "going (with_loss f x) = going x" "going (loss_suspend x) = going x" "going (loss_present x) = going x"
    "going (loss_observed e c x) = going x" for f c x
    by (simp_all add: going_def with_loss_def loss_suspend_def loss_present_def loss_observed_def Let_def)
  have d: "going (snd (tick_deadline e da)) = going (snd da)" and p: "going (snd (tick_probe e b da)) = going (snd da)"
    and x: "going (snd (tick_expiry e da)) = going (snd da)" and o: "going (snd (tick_overdue e b da)) = going (snd da)"
    and s: "going (snd (tick_startup e b da)) = going (snd da)" and f: "going (snd (tick_refresh e b da)) = going (snd da)"
    and c: "going (snd (tick_escalate e da)) = going (snd da)" for da
    by (auto simp: tick_deadline_def tick_probe_def tick_expiry_def tick_overdue_def tick_startup_def tick_refresh_def
        tick_escalate_def with_loss_def going_def Let_def split: prod.splits option.splits)
  have u: "going (y\<lparr>ag_loss_check_at := v\<rparr>) = going y" for y v by (simp add: going_def)
  have l: "going (snd (snd (tick_look e b da))) = going (snd da)" for da
    by (cases da; simp add: tick_look_def Let_def w u)
  have r: "going (snd (tick_recover e b sda)) = going (snd (snd sda))" for sda
    by (auto simp: tick_recover_def w split: prod.splits option.splits bool.splits)
  show ?thesis by (simp add: tick_at_def Let_def d p x o s f c l r)
qed

lemma tick_head: "ag_phase (snd (tick_probe e b (tick_deadline e da))) = ag_phase (snd da)"
  "ag_refresh_at (snd (tick_probe e b (tick_deadline e da))) = ag_refresh_at (snd da)"
  "du_start (fst (tick_probe e b (tick_deadline e da))) = du_start (fst da)"
  "ag_startup_retry_at (snd (tick_probe e b (tick_deadline e da))) = ag_startup_retry_at (snd da)"
  by (auto simp: tick_probe_def tick_deadline_def Let_def split: prod.splits option.splits)

lemma due_start:
  assumes "ag_phase a = Connected" "reached (ag_refresh_at a) (en_now e)"
  shows "du_start (fst (tick_at e False a)) = Some ByRenewal"
proof -
  obtain d1 a1 where h: "tick_probe e False (tick_deadline e (no_due, a)) = (d1, a1)" by fastforce
  have 1: "ag_phase a1 = Connected" "ag_refresh_at a1 = ag_refresh_at a"
    using tick_head(1,2) [of e False "(no_due, a)"] h assms by simp_all
  obtain d2 a2 where x: "tick_expiry e (d1, a1) = (d2, a2)" by fastforce
  have 2: "ag_phase a2 = Lapsed \<or> ag_phase a2 = Connected" "ag_refresh_at a2 = ag_refresh_at a"
    using x 1 by (auto simp: tick_expiry_def with_loss_def Let_def split: if_splits)
  show ?thesis
  proof (cases "ag_phase a2 = Lapsed")
    case True
    then show ?thesis using assms(2) 2(2) by (simp add: tick_at_def h x Let_def tick_overdue_def)
  next
    case False
    obtain seen d3 a3 where l: "tick_look e False (d2, a2) = (seen, d3, a3)" by (metis prod_cases3)
    obtain d4 a4 where r: "tick_recover e False (seen, d3, a3) = (d4, a4)" by fastforce
    have w: "ag_refresh_at (with_loss f y) = ag_refresh_at y" "ag_refresh_at (loss_present y) = ag_refresh_at y"
      "ag_refresh_at (loss_observed e c y) = ag_refresh_at y" for f c y
      by (simp_all add: with_loss_def loss_present_def loss_observed_def loss_suspend_def Let_def)
    have "ag_refresh_at a3 = ag_refresh_at a" using l 2 by (auto simp: tick_look_def w Let_def split: if_splits)
    then have "ag_refresh_at a4 = ag_refresh_at a" using r by (auto simp: tick_recover_def w split: if_splits option.splits bool.splits)
    then have "du_start (fst (tick_refresh e False (d4, a4))) = Some ByRenewal"
      using assms(2) by (simp add: tick_refresh_def Let_def)
    moreover have "du_start (fst (tick_escalate e da)) = du_start (fst da)" for da
      by (simp add: tick_escalate_def split: prod.splits)
    ultimately show ?thesis using False 2(1) by (simp add: tick_at_def h x l r Let_def)
  qed
qed

lemma due_renewal_job:
  assumes "ag_phase a = Connected" "ag_refresh_at a = Some r" "r \<le> en_now e"
    "\<not> ag_busy a" "\<not> ag_cleaning a" "ag_cloud_sign_out a = None" "client_broker_url (ag_settings a) = Some u"
  defines "st \<equiv> \<lparr>dst_url = u, dst_generation = ag_generation a + 1\<rparr>"
  shows "ag_jobs (snd (agent_tick e a))
      = ag_jobs a @ [SignInJob st ByRenewal (windows_sign_in (ag_settings a)) (settings_grant a) (grant_for (ag_settings a))]"
    and "discovery_is_current (snd (agent_tick e a)) st" "ag_busy (snd (agent_tick e a))" "ag_settings (snd (agent_tick e a)) = ag_settings a"
proof -
  obtain d a1 where t: "tick_at e (ag_busy a) a = (d, a1)" by fastforce
  have s: "du_start d = Some ByRenewal" using due_start [of a e] t assms by (simp add: reached_def)
  define a2 where "a2 = announce (du_notice d) a1"
  have g: "going a2 = going a" using tick_going [of e "ag_busy a" a] t by (simp add: a2_def going_announce)
  then have f: "\<not> ag_busy a2" "\<not> ag_cleaning a2" "ag_cloud_sign_out a2 = None" "client_broker_url (ag_settings a2) = Some u"
    "ag_settings a2 = ag_settings a" "ag_jobs a2 = ag_jobs a" "ag_generation a2 = ag_generation a"
    using assms by (simp_all add: going_def)
  let ?b = "start_worker e ByRenewal a2"
  have b: "ag_jobs ?b = ag_jobs a @ [SignInJob st ByRenewal (windows_sign_in (ag_settings a)) (settings_grant a) (grant_for (ag_settings a))]"
    "discovery_is_current ?b st" "ag_busy ?b" "ag_settings ?b = ag_settings a"
    using f assms(7) by (simp_all add: start_worker_def advance_discovery_def started_busy_def started_def spawned_def st_def
        silent_trigger_def discovery_is_current_def settings_grant_def Let_def)
  have "snd (agent_tick e a) = ?b" using b(3) by (simp add: agent_tick_def t s a2_def [symmetric] Let_def)
  then show "ag_jobs (snd (agent_tick e a))
      = ag_jobs a @ [SignInJob st ByRenewal (windows_sign_in (ag_settings a)) (settings_grant a) (grant_for (ag_settings a))]"
    "discovery_is_current (snd (agent_tick e a)) st" "ag_busy (snd (agent_tick e a))" "ag_settings (snd (agent_tick e a)) = ag_settings a"
    using b by simp_all
qed

text \<open>
  C24 (KB_AgentSound.due_renewal_starts). While the ticket is held and nothing else runs, the tick
  at or after the scheduled time starts the re-injection, silently, under a request identity that is
  current when it starts, and holds the slot for it. It does so also when the same tick sees the
  ticket end, as after a sleep past both times.
\<close>

theorem due_renewal_starts:
  assumes "ag_phase a = Connected" "ag_refresh_at a = Some r" "r \<le> en_now e"
    "\<not> ag_busy a" "\<not> ag_cleaning a" "ag_cloud_sign_out a = None" "client_broker_url (ag_settings a) = Some u"
  shows "\<exists>s native g pin. SignInJob s ByRenewal native g pin \<in> set (ag_jobs (snd (agent_tick e a)))
    \<and> dst_url s = u \<and> discovery_is_current (snd (agent_tick e a)) s \<and> ag_busy (snd (agent_tick e a))"
  using due_renewal_job [OF assms] by fastforce

section \<open>Stale reports\<close>

text \<open>What a stale report may not touch: everything but the slot, the threads, what was said and the phase of a sign-in.\<close>

definition session_facts :: "agent \<Rightarrow> _" where
  "session_facts a = (ag_settings a, ag_entry a, ag_kerberos a, ag_device_grant a, (ag_principal a, ag_start a, ag_end a, ag_renew_till a),
     ag_refresh_at a, (ag_message a, ag_fault a, ag_silent_failed a), (ag_startup_retry_at a, ag_startup_retries a), ag_loss a,
     ag_refresh_token a, ag_discovery_ended a)"

lemma session_facts_frames:
  "session_facts (snd (finish_busy n s st a)) = session_facts a" "session_facts (snd (finish_cloud_sign_out s a)) = session_facts a"
  "session_facts (snd (purge_realm e r a)) = session_facts a" "session_facts (spawned j a) = session_facts a"
  "session_facts (release_deferred a) = session_facts a"
  by (auto simp: session_facts_def finish_busy_def finish_cloud_sign_out_def no_longer_def settle_sign_in_def purge_realm_def
      outside_call_def spawned_def release_deferred_def settle_deferred_def deliver_def Let_def
      split: option.splits prod.splits gate.splits)

lemma phase_frames:
  "ag_phase (snd (finish_busy n s True a)) \<in> {ag_phase a, ag_phase (settle_sign_in n a)}"
  "ag_phase (snd (finish_cloud_sign_out s a)) = ag_phase a"
  "ag_phase (snd (purge_realm e r a)) = ag_phase a" "ag_phase (spawned j a) = ag_phase a" "ag_phase (release_deferred a) = ag_phase a"
  "ag_phase (settle_sign_in n (snd (purge_realm e r a))) = ag_phase (settle_sign_in n a)"
  by (auto simp: finish_busy_def finish_cloud_sign_out_def no_longer_def settle_sign_in_def holds_live_ticket_at_def purge_realm_def
      outside_call_def spawned_def release_deferred_def settle_deferred_def deliver_def Let_def
      split: option.splits prod.splits gate.splits)

text \<open>
  C21 (KB_AgentSound.stale_report_changes_no_session). The report of a thread whose request is no
  longer the current one -- a new broker, a newer request -- installs nothing: settings and file,
  realm, ticket and schedule, fault, retries, refresh token and grant stay, and the phase moves only
  from an abandoned sign-in back to what the held ticket says. A ticket such a thread injected is
  purged, and a grant it created is handed to a thread that revokes it.
\<close>

theorem stale_report_changes_no_session:
  assumes "terminal_stamp ev = Some s" "\<not> discovery_is_current a s"
  shows "session_facts (snd (agent_apply e ev a)) = session_facts a
    \<and> ag_phase (snd (agent_apply e ev a)) \<in> {ag_phase a, ag_phase (settle_sign_in (en_now e) a)}
    \<and> (\<forall>ij realm w via. ev = SignedIn s ij realm w via \<and> realm \<noteq> [] \<longrightarrow> PurgedRealm realm \<in> set (ag_outside (snd (agent_apply e ev a))))
    \<and> (\<forall>g url w. ev = GrantCreated s g url w \<longrightarrow> CompensateJob s url g \<in> set (ag_jobs (snd (agent_apply e ev a))))"
proof -
  have r: "snd (agent_apply e ev a) = release_deferred (snd (reject_stale_terminal e ev a))"
    using assms by (simp add: agent_apply_def apply_event_terminal announce_def split: prod.splits)
  have ph: "ag_phase (snd (finish_busy n s True (snd (purge_realm e rl a)))) \<in> {ag_phase a, ag_phase (settle_sign_in n a)}" for n s rl
    using phase_frames(1) [of n s "snd (purge_realm e rl a)"] by (simp add: phase_frames)
  have 1: "session_facts (snd (reject_stale_terminal e ev a)) = session_facts a"
    using assms(1) by (cases ev) (simp_all add: reject_stale_terminal_def session_facts_frames split: option.splits)
  have 2: "ag_phase (snd (reject_stale_terminal e ev a)) \<in> {ag_phase a, ag_phase (settle_sign_in (en_now e) a)}"
    using assms(1) ph phase_frames(1)
    by (cases ev) (simp_all add: reject_stale_terminal_def phase_frames(2-5) split: option.splits)
  have o: "set (ag_outside x) \<subseteq> set (ag_outside (release_deferred x))" "ag_jobs (release_deferred x) = ag_jobs x"
    "ag_outside (snd (finish_busy n s st x)) = ag_outside x" for n s st x
    by (auto simp: release_deferred_def settle_deferred_def deliver_def outside_call_def finish_busy_def no_longer_def settle_sign_in_def
        Let_def split: option.splits prod.splits gate.splits)
  have 3: "PurgedRealm realm \<in> set (ag_outside (snd (reject_stale_terminal e (SignedIn s ij realm w via) a)))" if "realm \<noteq> []" for ij realm w via
    using that by (simp add: reject_stale_terminal_def o purge_realm_def outside_call_def)
  have 4: "CompensateJob s url g \<in> set (ag_jobs (snd (reject_stale_terminal e (GrantCreated s g url w) a)))" for g url w
    by (simp add: reject_stale_terminal_def spawned_def)
  show ?thesis
    unfolding r session_facts_frames(5) phase_frames(5) o(2)
    using 1 2 3 4 o(1) by (intro conjI allI impI) blast+
qed

section \<open>Sign-off\<close>

text \<open>The steps nobody asked for: everything but the user's commands.\<close>

inductive background_step :: "agent_env \<Rightarrow> agent \<Rightarrow> agent \<Rightarrow> bool" for e where
  bg_ticked: "background_step e a (snd (agent_tick e a))"
| bg_asked: "j \<in> set (ag_jobs a) \<Longrightarrow> asks j ev \<Longrightarrow> background_step e a (snd (agent_apply e ev a))"
| bg_reported: "ag_jobs a = xs @ j # ys \<Longrightarrow> reports j ev \<Longrightarrow> background_step e a (snd (agent_apply e ev (a\<lparr>ag_jobs := xs @ ys\<rparr>)))"
| bg_file: "background_step e a (a\<lparr>ag_settings := (ag_settings a)\<lparr>st_disk := d\<rparr>\<rparr>)"
| bg_entry: "background_step e a (a\<lparr>ag_entry := entry\<rparr>)"
| bg_browser: "background_step e a (a\<lparr>ag_browser_leg := on\<rparr>)"

inductive background_run :: "agent \<Rightarrow> agent \<Rightarrow> bool" where
  stays: "background_run a a"
| runs: "background_run a b \<Longrightarrow> background_step e b c \<Longrightarrow> background_run a c"

lemma background_is_step: "background_step e a b \<Longrightarrow> agent_step e a b"
  by (induction rule: background_step.induct) (auto intro: agent_step.intros)

fun exchanges :: "job \<Rightarrow> bool" where
  "exchanges (SignInJob _ _ _ _ _) = True"
| "exchanges (CreateGrantJob _ _ _) = True"
| "exchanges _ = False"

definition at_rest :: "agent \<Rightarrow> bool" where
  "at_rest a \<longleftrightarrow> ag_phase a = SignedOut \<and> ag_principal a = [] \<and> ag_startup_retry_at a = None \<and> \<not> ag_awaits_broker a
     \<and> filter exchanges (ag_jobs a) = []"

lemma rest_frames:
  "at_rest (snd (advance_discovery a)) = at_rest a" "at_rest (updated_file ch a) = at_rest a" "at_rest (expect b a) = at_rest a"
  "at_rest (reset_probe a) = at_rest a" "at_rest (restart_probe n a) = at_rest a" "at_rest (snd (end_probe g n a)) = at_rest a"
  "at_rest (record_fault n f m a) = at_rest a" "at_rest (note_copy m a) = at_rest a" "at_rest (snd (purge_realm e r a)) = at_rest a"
  "at_rest (outside_call oc a) = at_rest a" "at_rest (release_deferred a) = at_rest a" "at_rest (snd (finish_cloud_sign_out s a)) = at_rest a"
  "at_rest (discover_in_background e a) = at_rest a" "at_rest (snd (apply_given_up gen br rv sv rp a)) = at_rest a"
  "at_rest (a\<lparr>ag_discovery_ended := b\<rparr>) = at_rest a"
  "ag_phase a = SignedOut \<Longrightarrow> at_rest (snd (finish_busy n s st a)) = at_rest a"
  by (auto simp: at_rest_def advance_discovery_def update_file_def expect_def reset_probe_def restart_probe_def end_probe_def
      record_fault_def arm_probe_def note_copy_def purge_realm_def outside_call_def release_deferred_def settle_deferred_def
      deliver_def finish_cloud_sign_out_def no_longer_def discover_in_background_def begin_probe_def spawned_def
      apply_given_up_def finish_grant_cleanup_def finish_busy_def settle_sign_in_def Let_def
      split: prod.splits option.splits gate.splits)

lemma rest_notify: "at_rest (agent_notify n a) = at_rest a" "at_rest (announce o' a) = at_rest a"
proof -
  have n: "at_rest (agent_notify m x) = at_rest (release_deferred x)" for m x
    by (auto simp: agent_notify_def admit_def deliver_def outside_call_def at_rest_def split: prod.splits option.splits gate.splits)
  show "at_rest (agent_notify n a) = at_rest a" "at_rest (announce o' a) = at_rest a"
    by (cases o'; simp add: announce_def n rest_frames)+
qed

lemma rest_discovered: "at_rest a \<Longrightarrow> at_rest (snd (apply_discovered e s sn w a))"
proof -
  assume a: "at_rest a"
  define a1 where "a1 = (if w then a else snd (end_probe (dst_generation s) (en_now e) a))"
  have 1: "at_rest a1" using a by (simp add: a1_def rest_frames)
  obtain p a2 where r: "replace_broker_snapshot e s sn a1 = (p, a2)" by fastforce
  have o: "end_old_realm e sn a1 = a1" using 1 by (simp add: end_old_realm_def at_rest_def)
  have pb: "at_rest (publish_snapshot e sn x) = at_rest x" for x
  proof -
    define y where "y = updated_file (set_cache (bs_kerberos sn)) x"
    have "at_rest y = at_rest x" by (simp add: y_def rest_frames)
    moreover have "at_rest (publish_snapshot e sn x) = at_rest y" by (simp add: publish_snapshot_def y_def [symmetric] Let_def at_rest_def)
    ultimately show ?thesis by simp
  qed
  have "at_rest (snd (replace_broker_snapshot e s sn a1))"
    by (simp add: replace_broker_snapshot_def Let_def o rest_frames pb 1)
  with r have 2: "at_rest a2" by simp
  obtain q st en where q: "enforce_autostart (ag_settings a2) (ag_entry a2) = (q, st, en)" by (metis prod_cases3)
  show ?thesis using 2 by (cases p; simp add: apply_discovered_def a1_def [symmetric] r q Let_def at_rest_def)
qed

lemma rest_live:
  assumes "at_rest a" "ev \<in> range (\<lambda>(s, b). CloudSignedOut s b) \<union> range (\<lambda>(g, b, r, s, p). GrantGivenUp g b r s p)
      \<union> range (\<lambda>(g, u). BrokerLookup g u) \<union> range (\<lambda>(x, oc, b). ElevatedFinished x oc b) \<union> range ElevationGranted"
  shows "at_rest (apply_live e ev a)"
proof -
  have f: "at_rest (free_elevated ev a)" using assms(1) by (cases ev) (simp_all add: free_elevated_def at_rest_def)
  have l: "at_rest (apply_lookup e g u x)" if "at_rest x" for g u x
    using that
    by (auto simp: apply_lookup_def end_probe_def restart_probe_def at_rest_def Let_def split: option.splits prod.splits)
  have el: "at_rest (snd (apply_elevated e act oc b x))" if "at_rest x" for act oc b x
  proof -
    have "at_rest (x\<lparr>ag_enroll := v\<rparr>)" "at_rest (x\<lparr>ag_loss := k, ag_loss_check_at := 0\<rparr>)"
      "at_rest (x\<lparr>ag_enroll := v, ag_loss := k, ag_loss_check_at := 0\<rparr>)" for v k
      using that by (simp_all add: at_rest_def)
    then show ?thesis using that by (cases oc) (simp_all add: apply_elevated_def Let_def rest_frames)
  qed
  obtain sh a2 where s: "apply_shared e ev (free_elevated ev a) = (sh, a2)" by fastforce
  have "at_rest (snd (apply_shared e ev (free_elevated ev a))) \<and> \<not> sh_grant_sign_in (fst (apply_shared e ev (free_elevated ev a)))"
    using assms(2) f
    by (auto simp: apply_shared_def no_shared_def rest_frames l el Let_def) (auto simp: apply_given_up_def apply_elevated_def no_shared_def Let_def split: prod.splits bool.splits if_splits)
  then show ?thesis
    using s by (auto simp: apply_live_def Let_def rest_frames rest_notify split: option.splits)
qed

lemma rest_tick: "at_rest a \<Longrightarrow> at_rest (snd (agent_tick e a))"
proof -
  assume a: "at_rest a"
  obtain d1 a1 where h: "tick_probe e (ag_busy a) (tick_deadline e (no_due, a)) = (d1, a1)" by fastforce
  have "at_rest (snd (tick_probe e (ag_busy a) (tick_deadline e (no_due, a)))) = at_rest a"
    by (auto simp: tick_probe_def tick_deadline_def at_rest_def Let_def split: prod.splits option.splits)
  with a h have 1: "at_rest a1" by simp
  have s: "du_start d1 = None" using tick_head(3) [of e "ag_busy a" "(no_due, a)"] h by (simp add: no_due_def)
  have x: "tick_expiry e (d1, a1) = (d1, a1)" "tick_startup e (ag_busy a) (d1, a1) = (d1, a1)"
    using 1 by (simp_all add: tick_expiry_def tick_startup_def at_rest_def reached_def)
  have "tick_at e (ag_busy a) a = (d1, a1)" using 1 by (simp add: tick_at_def h x Let_def at_rest_def)
  then show ?thesis using 1 s by (simp add: agent_tick_def Let_def rest_notify rest_frames)
qed

text \<open>The reports of the threads that exchange nothing.\<close>

fun calm :: "agent_event \<Rightarrow> bool" where
  "calm (SignedIn _ _ _ _ _) = False"
| "calm (SignInFailed _ _ _ _ _) = False"
| "calm (Cancelled _ _) = False"
| "calm (GrantCreated _ _ _ _) = False"
| "calm (GrantFailed _ _ _ _) = False"
| "calm _ = True"

lemma rest_events:
  assumes "at_rest a" "calm ev"
  shows "at_rest (snd (agent_apply e ev a))"
proof -
  have c: "at_rest (snd (apply_event e (CloudSignedOut s b) a))" for s b
    using assms(1) rest_live [of "a\<lparr>ag_discovery_ended := True\<rparr>" "CloudSignedOut s b" e]
    by (simp add: apply_event_terminal rest_frames reject_stale_terminal_def image_iff)
  have d: "at_rest (snd (apply_event e (DiscoveryFailed s) a))" for s
  proof -
    obtain q a1 where q: "end_probe (dst_generation s) (en_now e) a = (q, a1)" by fastforce
    then have "at_rest a1" using rest_frames(6) [of "dst_generation s" "en_now e" a] assms(1) by simp
    then show ?thesis by (simp add: apply_event_def q rest_frames)
  qed
  have f: "at_rest (snd (finish_busy (en_now e) s True a))" for s using assms(1) rest_frames(16) [of a] by (simp add: at_rest_def)
  have "at_rest (snd (apply_event e ev a))"
    using assms c d f rest_live [OF assms(1)] rest_discovered [OF assms(1)]
    by (cases ev) (simp_all add: apply_event_other image_iff)
  then show ?thesis by (cases "apply_event e ev a") (simp add: agent_apply_def rest_notify)
qed

lemma background_rests: "background_step e a b \<Longrightarrow> at_rest a \<Longrightarrow> at_rest b"
proof (induction rule: background_step.induct)
  case (bg_ticked a)
  then show ?case by (rule rest_tick)
next
  case (bg_asked j a ev)
  show ?case using bg_asked(2) by cases (simp_all add: rest_events [OF bg_asked(3)])
next
  case (bg_reported a xs j ys ev)
  then have a: "at_rest (a\<lparr>ag_jobs := xs @ ys\<rparr>)" and j: "\<not> exchanges j" by (auto simp: at_rest_def split: if_splits)
  show ?case using bg_reported(2) j
    by cases (simp_all add: run_cloud_sign_out_def rest_events [OF a])
qed (auto simp: at_rest_def)

text \<open>
  C23 (KB_AgentSound.sign_off_holds). A sign-off while no exchange runs is final: after it, whatever
  time passes and whatever the running threads, the broker, DNS or other processes bring, the agent
  stays signed out, holds no ticket and starts no exchange of its own, until the user asks for one.
\<close>

theorem sign_off_holds:
  assumes "filter exchanges (ag_jobs a) = []" "background_run (drop_ticket e a) b"
  shows "ag_phase b = SignedOut \<and> ag_principal b = [] \<and> filter exchanges (ag_jobs b) = []"
proof -
  have d: "at_rest (drop_ticket e a)"
  proof -
    obtain q a1 where q: "purge_realm e (kb_realm (ag_kerberos a)) a = (q, a1)" by fastforce
    then have "ag_jobs a1 = ag_jobs a" by (auto simp: purge_realm_def outside_call_def split: if_splits)
    then have "at_rest (reset_session a1)" using assms(1) by (simp add: at_rest_def reset_session_def)
    then show ?thesis by (simp add: drop_ticket_def q Let_def rest_frames)
  qed
  have "at_rest b" using assms(2) d
    by (induction "drop_ticket e a" b rule: background_run.induct) (auto intro: background_rests)
  then show ?thesis by (simp add: at_rest_def)
qed

lemma drop_keeps_discovery:
  assumes "discovery_is_current a s" "fc_broker_url (file_now a) = fc_broker_url (st_file (ag_settings a))"
  shows "discovery_is_current (drop_ticket e a) s"
proof -
  have x: "discovery_is_current (updated_file (\<lambda>f. f\<lparr>fc_expected_working_as := v\<rparr>) x) s"
    if "discovery_is_current x s" "fc_broker_url (file_now x) = fc_broker_url (st_file (ag_settings x))" for x v
    using that
    by (auto simp: update_file_def settings_update_def discovery_is_current_def client_broker_url_def broker_url_with_def file_now_def
        Let_def split: prod.splits option.splits)
  obtain q a1 where q: "purge_realm e (kb_realm (ag_kerberos a)) a = (q, a1)" by fastforce
  have r: "ag_settings (reset_session a1) = ag_settings a" "ag_generation (reset_session a1) = ag_generation a"
    "ag_target (reset_session a1) = ag_target a"
    using q by (auto simp: purge_realm_def outside_call_def reset_session_def split: if_splits)
  have "discovery_is_current (reset_session a1) s" "fc_broker_url (file_now (reset_session a1)) = fc_broker_url (st_file (ag_settings (reset_session a1)))"
    using assms unfolding discovery_is_current_def file_now_def r by blast+
  from x [OF this] have "discovery_is_current (expect False (reset_session a1)) s" by (simp add: expect_def)
  then show ?thesis
    by (simp add: drop_ticket_def q Let_def note_copy_def record_fault_def discovery_is_current_def)
qed

text \<open>
  C22 (KB_AgentSound.sign_off_undone_by_running_exchange). A sign-off while an exchange runs is not:
  it neither cancels the thread nor retires its request. As long as the broker URL in the file is
  the one the agent has loaded, so that writing the file after the sign-off moves no target, a report
  of success that arrives after it is applied as current. The agent shows the ticket of that report
  again and has the next re-injection scheduled.
\<close>

theorem sign_off_undone_by_running_exchange:
  fixes e e' :: agent_env
  assumes "ag_jobs a = xs @ SignInJob s tr native g pin # ys" "discovery_is_current a s"
    "fc_broker_url (file_now a) = fc_broker_url (st_file (ag_settings a))"
    "reports (SignInJob s tr native g pin) (SignedIn s ij realm w via)"
  defines "off \<equiv> drop_ticket e a"
  defines "b \<equiv> snd (agent_apply e' (SignedIn s ij realm w via) (off\<lparr>ag_jobs := xs @ ys\<rparr>))"
  shows "agent_step e a off \<and> ag_phase off = SignedOut \<and> ag_principal off = [] \<and> ag_refresh_at off = None
    \<and> agent_step e' off b
    \<and> ag_phase b = Connected \<and> ag_principal b = ij_principal ij \<and> ag_end b = ij_end ij
    \<and> ag_refresh_at b = Some (midpoint e' (en_now e') (ij_end ij))"
proof -
  have "ag_jobs off = ag_jobs a"
    by (auto simp: off_def drop_ticket_def purge_realm_def outside_call_def expect_def update_file_def reset_session_def note_copy_def
        record_fault_def arm_probe_def Let_def split: prod.splits)
  then have j: "ag_jobs off = xs @ SignInJob s tr native g pin # ys" using assms(1) by simp
  have o: "ticket_state off = (SignedOut, [], 0, None)"
  proof -
    have "ticket_state (reset_session x) = (SignedOut, [], 0, None)" for x by (simp add: reset_session_def ticket_state_def)
    then show ?thesis by (simp add: off_def drop_ticket_def Let_def frame split: prod.splits)
  qed
  let ?c = "off\<lparr>ag_jobs := xs @ ys\<rparr>"
  let ?ev = "SignedIn s ij realm w via"
  have cur: "discovery_is_current ?c s"
    using drop_keeps_discovery [OF assms(2,3), of e] by (simp add: off_def discovery_is_current_def)
  have "ticket_state b = (Connected, ij_principal ij, ij_end ij, Some (midpoint e' (en_now e') (ij_end ij)))"
  proof -
    have l: "ticket_state (apply_live e' ?ev x) = ticket_state (snd (apply_signed_in e' s ij w via x))" for x
      by (auto simp: apply_live_def apply_shared_def free_elevated_def apply_signed_in_def no_shared_def Let_def frame
          split: prod.splits option.splits)
    show ?thesis using cur by (simp add: b_def agent_apply_frames apply_event_terminal l signed_in_ticket)
  qed
  moreover have "agent_step e' off b"
    unfolding b_def by (rule agent_step.reported [OF j assms(4)])
  moreover have "agent_step e a off"
    using agent_step.commanded [of e a CDropTicket] by (simp add: off_def)
  ultimately show ?thesis using o by (simp add: ticket_state_def)
qed

section \<open>A concrete agent\<close>

text \<open>
  A machine that finds a live ticket of its realm at startup, at time 100, with a broker in its file.
  At 600 the re-injection is due; a run in which the exchange succeeds ends in a new ticket.
\<close>

definition sample_agent_env :: "int \<Rightarrow> agent_env" where
  "sample_agent_env now = \<lparr>en_now = now, en_random = (\<lambda>_. None), en_idle = None, en_enroll = (\<lambda>_. IsEnrolled),
     en_tgt = (\<lambda>_. Some (Some \<lparr>ct_principal = lit ''u@R'', ct_start = 0, ct_end = 1000, ct_renew_till = 0\<rparr>)),
     en_purge = (\<lambda>_. True), en_device = False\<rparr>"

definition sample_file :: file_config where
  "sample_file = empty_file\<lparr>fc_broker_url := Some (lit ''https://b''),
     fc_cache := \<lparr>kb_realm = lit ''R'', kb_kdcs = [], kb_services = []\<rparr>\<rparr>"

definition sample_disk :: config_disk where
  "sample_disk = \<lparr>dk_file = Some sample_file, dk_writable = True\<rparr>"

definition no_policy :: policy where
  "no_policy = \<lparr>po_broker_url = None, po_grant_for = None, po_autostart = None, po_ntlm_fallback_recovery = None,
     po_silent = None, po_windows_sign_in = None\<rparr>"

definition sample_agent :: agent where
  "sample_agent = agent_init (sample_agent_env 100) False no_policy (Some sample_disk)
     \<lparr>le_enabled = False, le_machine_wide = False, le_writable = True\<rparr>"

lemma sample_reach: "agent_reach 100 sample_agent"
proof -
  have "tickets_sane (sample_agent_env 100)" by (simp add: tickets_sane_def sample_agent_env_def)
  from agent_reach.started [OF this] show ?thesis by (simp add: sample_agent_def) (simp add: sample_agent_env_def)
qed

lemmas sample_defs = sample_agent_def agent_init_def sample_disk_def sample_file_def no_policy_def settings_load_def empty_file_def
  no_krb_def enforce_autostart_def wanted_autostart_def adopt_existing_ticket_def agent_new_def sample_agent_env_def
  adopt_cached_ticket_def is_the_grants_def settings_grant_def grant_for_def expect_def update_file_def settings_update_def
  midpoint_def jitter_def signed_divide_int_def discover_in_background_def begin_probe_def advance_discovery_def client_broker_url_def
  broker_url_with_def arm_probe_def spawned_def scope_def Let_def MIN_REFRESH_DELAY_def EXPIRY_GRACE_def lit_def

lemma sample_facts:
  "ag_phase sample_agent = Connected" "ag_principal sample_agent = lit ''u@R''" "ag_end sample_agent = 1000" "ag_refresh_at sample_agent = Some 550"
  "ag_busy sample_agent = False" "ag_cleaning sample_agent = False" "ag_cloud_sign_out sample_agent = None"
  "client_broker_url (ag_settings sample_agent) = Some (lit ''https://b'')" "ag_generation sample_agent = 1"
  "ag_jobs sample_agent = [ProbeJob (ConfigProbe \<lparr>dst_url = lit ''https://b'', dst_generation = 1\<rparr>)]"
  by (simp_all add: sample_defs)

lemma renewal_always_scheduled_witness: "\<exists>r. ag_refresh_at sample_agent = Some r \<and> r \<le> 1000"
  using renewal_always_scheduled [OF sample_reach] sample_facts by simp

definition sample_repair :: agent where
  "sample_repair = run_command (sample_agent_env 200) CRepair sample_agent"

lemma sample_repair_reach: "agent_reach 200 sample_repair"
proof -
  have "agent_reach (en_now (sample_agent_env 200)) (run_command (sample_agent_env 200) CRepair sample_agent)"
    by (rule agent_reach.moved [OF sample_reach agent_step.commanded]) (simp add: sample_agent_env_def)
  then show ?thesis by (simp add: sample_repair_def sample_agent_env_def)
qed

lemma slot_has_one_owner_witness:
  "ag_busy sample_repair \<and> (\<exists>j \<in> set (ag_jobs sample_repair). owns_slot j) \<and> length (filter owns_slot (ag_jobs sample_repair)) \<le> 1"
proof -
  have "ag_busy sample_repair"
    by (simp add: sample_repair_def begin_repair_def spawn_elevated_def spawned_def started_def sample_facts)
  then show ?thesis using slot_has_one_owner [OF sample_repair_reach] by simp
qed

lemma due_renewal_starts_witness:
  "\<exists>s native g pin. SignInJob s ByRenewal native g pin \<in> set (ag_jobs (snd (agent_tick (sample_agent_env 600) sample_agent)))
    \<and> dst_url s = lit ''https://b'' \<and> discovery_is_current (snd (agent_tick (sample_agent_env 600) sample_agent)) s
    \<and> ag_busy (snd (agent_tick (sample_agent_env 600) sample_agent))"
  using due_renewal_starts [of sample_agent 550 "sample_agent_env 600" "lit ''https://b''"] sample_facts by (simp add: sample_agent_env_def)

lemma stale_report_changes_no_session_witness:
  "session_facts (snd (agent_apply (sample_agent_env 300) (Cancelled \<lparr>dst_url = lit ''https://b'', dst_generation = 7\<rparr> no_effects) sample_agent))
    = session_facts sample_agent"
  using stale_report_changes_no_session
    [of "Cancelled \<lparr>dst_url = lit ''https://b'', dst_generation = 7\<rparr> no_effects" "\<lparr>dst_url = lit ''https://b'', dst_generation = 7\<rparr>"
      sample_agent "sample_agent_env 300"]
  by (simp add: discovery_is_current_def sample_facts)

lemma sign_off_holds_witness:
  "ag_phase (snd (agent_tick (sample_agent_env 700) (drop_ticket (sample_agent_env 200) sample_agent))) = SignedOut"
  using sign_off_holds [OF _ background_run.runs [OF background_run.stays background_step.bg_ticked], of sample_agent
      "sample_agent_env 700" "sample_agent_env 200"] sample_facts by simp

definition sample_busy :: agent where
  "sample_busy = snd (agent_tick (sample_agent_env 600) sample_agent)"

definition sample_stamp :: discovery_stamp where
  "sample_stamp = \<lparr>dst_url = lit ''https://b'', dst_generation = 2\<rparr>"

lemma sample_busy_facts:
  "ag_jobs sample_busy = [ProbeJob (ConfigProbe \<lparr>dst_url = lit ''https://b'', dst_generation = 1\<rparr>)]
     @ SignInJob sample_stamp ByRenewal False None None # []"
  "discovery_is_current sample_busy sample_stamp"
  "fc_broker_url (file_now sample_busy) = fc_broker_url (st_file (ag_settings sample_busy))"
proof -
  have n: "550 \<le> en_now (sample_agent_env 600)" by (simp add: sample_agent_env_def)
  note j = due_renewal_job [OF sample_facts(1) sample_facts(4) n _ _ sample_facts(7) sample_facts(8)]
  have g: "settings_grant sample_agent = None" "grant_for (ag_settings sample_agent) = None" "\<not> windows_sign_in (ag_settings sample_agent)"
    "fc_broker_url (file_now sample_agent) = fc_broker_url (st_file (ag_settings sample_agent))"
    by (simp_all add: windows_sign_in_def file_now_def sample_defs)
  show "ag_jobs sample_busy = [ProbeJob (ConfigProbe \<lparr>dst_url = lit ''https://b'', dst_generation = 1\<rparr>)]
     @ SignInJob sample_stamp ByRenewal False None None # []" "discovery_is_current sample_busy sample_stamp"
    using j(1,2) sample_facts g by (simp_all add: sample_busy_def sample_stamp_def numeral_2_eq_2)
  have "ag_settings sample_busy = ag_settings sample_agent" using j(4) sample_facts by (simp add: sample_busy_def)
  then show "fc_broker_url (file_now sample_busy) = fc_broker_url (st_file (ag_settings sample_busy))"
    using g(4) unfolding file_now_def by (rule ssubst)
qed

definition sample_legs :: "injected \<Rightarrow> legs" where
  "sample_legs ij = \<lparr>lg_document = Inr (), lg_published = True,
     lg_oidc = Inr \<lparr>bc_base_url = lit ''https://b/s'', bc_realm = lit ''R'', bc_device_grant = no_device_grant\<rparr>,
     lg_current = (\<lambda>_. True), lg_grant = Inl (InjectLocal []), lg_native = None, lg_saved_refresh = Some (lit ''r''),
     lg_refresh = Inr \<lparr>tk_access = lit ''t'', tk_refresh = None\<rparr>, lg_login = Inr None, lg_inject = Inr ij, lg_register = Inl (Inr [])\<rparr>"

lemma sign_off_undone_by_running_exchange_witness:
  "\<exists>off b. agent_step (sample_agent_env 610) sample_busy off \<and> ag_phase off = SignedOut
    \<and> agent_step (sample_agent_env 620) off b \<and> ag_phase b = Connected \<and> ag_principal b = lit ''u@R'' \<and> ag_end b = 2000"
proof -
  let ?ij = "\<lparr>ij_principal = lit ''u@R'', ij_start = 615, ij_end = 2000, ij_renew_till = 0\<rparr>"
  let ?r = "run_sign_in sample_stamp (silent_trigger ByRenewal) False None None (sample_legs ?ij)"
  have "sign_in_report sample_stamp ByRenewal False ?r
      = SignedIn sample_stamp ?ij (lit ''R'') (no_effects\<lparr>we_injection_realm := Some (lit ''R'')\<rparr>) None"
    by (simp add: run_sign_in_def discovered_run_def sample_legs_def if_current_def after_def sign_in_by_token_def acquire_token_def
        silent_trigger_def sign_in_report_def Let_def)
  then have "reports (SignInJob sample_stamp ByRenewal False None None)
      (SignedIn sample_stamp ?ij (lit ''R'') (no_effects\<lparr>we_injection_realm := Some (lit ''R'')\<rparr>) None)"
    by (metis reports.sign_in)
  note w = sign_off_undone_by_running_exchange [OF sample_busy_facts this, of "sample_agent_env 610" "sample_agent_env 620"]
  note v = w [THEN conjunct2, THEN conjunct2, THEN conjunct2, THEN conjunct2]
  show ?thesis
    by (rule exI, rule exI, intro conjI, rule w [THEN conjunct1], rule w [THEN conjunct2, THEN conjunct1], rule v [THEN conjunct1],
        rule v [THEN conjunct2, THEN conjunct1], rule trans [OF v [THEN conjunct2, THEN conjunct2, THEN conjunct1]], simp,
        rule trans [OF v [THEN conjunct2, THEN conjunct2, THEN conjunct2, THEN conjunct1]], simp)
qed

end
