(* ===== verification/KB_AgentPace.thy ===== *)
theory KB_AgentPace
  imports KB_AgentSound
begin

text \<open>
  The timers of the agent and what it tells the desktop, over every step of \<open>KB_AgentSound\<close>
  (\<open>agent/mod.rs\<close>, \<open>agent/worker.rs\<close> and \<open>agent/commands.rs\<close> of \<open>client/kerbridge-client/src\<close>).
  A step is followed through its operations: most leave the timers and the results alone, which the
  collection \<open>paces\<close> states, and each that arms a timer does so within that timer's range.
\<close>

section \<open>The timers and their ranges\<close>

text \<open>
  The ticket with its next re-injection and the backoff of a failed one; the next quiet attempt with
  its backoff; the next lookup of the broker with its backoff; the next attempt for an absent ticket.
\<close>

type_synonym timers = "(str \<times> int \<times> int option \<times> int) \<times> (int option \<times> int) \<times> (int option \<times> int) \<times> int option"

definition timers_of :: "agent \<Rightarrow> timers" where
  "timers_of a = ((ag_principal a, ag_end a, ag_refresh_at a, ag_refresh_backoff a), (ag_startup_retry_at a, ag_startup_backoff a),
     (ag_probe_at a, ag_probe_backoff a), tl_retry_at (ag_loss a))"

fun backoffs_fine :: "timers \<Rightarrow> bool" where
  "backoffs_fine ((_, _, _, rb), (_, sb), (_, pb), _) \<longleftrightarrow> rb \<in> {0} \<union> {60..600} \<and> sb \<in> {0} \<union> {5..600} \<and> pb \<in> {0} \<union> {30..600}"

definition armed :: "int \<Rightarrow> int set \<Rightarrow> int option \<Rightarrow> int option \<Rightarrow> bool" where
  "armed now delays x y \<longleftrightarrow> y = x \<or> y = None \<or> (\<exists>d \<in> delays. y = Some (now + d))"

text \<open>
  A re-injection is left alone with its ticket, called off, or set: in the future, no sooner than a
  minute from now unless thirty seconds before End Time come first, and for a ticket that still
  lives no later than those thirty seconds before, or the next second.
\<close>

fun renewal_armed :: "int \<Rightarrow> str \<times> int \<times> int option \<times> int \<Rightarrow> str \<times> int \<times> int option \<times> int \<Rightarrow> bool" where
  "renewal_armed now (p, fin, at, _) (p', fin', at', _) \<longleftrightarrow>
     (p', fin', at') = (p, fin, at) \<or> at' = None
   \<or> (\<exists>r. at' = Some r \<and> now < r \<and> min (now + 60) (fin' - 30) \<le> r
        \<and> r \<le> max (fin' - 30) (if now < fin' \<and> p' \<noteq> [] then now + 1 else now + 60))"

fun timers_armed :: "int \<Rightarrow> timers \<Rightarrow> timers \<Rightarrow> bool" where
  "timers_armed now (tr, (sa, _), (pa, _), la) (tr', (sa', _), (pa', _), la') \<longleftrightarrow>
     renewal_armed now tr tr' \<and> armed now ({0, 1} \<union> {5..600}) sa sa' \<and> armed now ({0} \<union> {30..600}) pa pa'
   \<and> armed now ({0} \<union> {30..3600}) la la'"

definition paced :: "int \<Rightarrow> timers \<Rightarrow> timers \<Rightarrow> bool" where
  "paced now x y \<longleftrightarrow> (backoffs_fine x \<longrightarrow> backoffs_fine y \<and> timers_armed now x y)"

lemma armed_refl [simp]: "armed n D x x" "armed n D x None"
  by (simp_all add: armed_def)

lemma armed_now [simp]: "armed n D x (Some (n + d)) \<longleftrightarrow> x = Some (n + d) \<or> d \<in> D"
  by (auto simp: armed_def)

lemma armed_at_once [simp]: "armed n D x (Some n) \<longleftrightarrow> x = Some n \<or> 0 \<in> D"
  by (force simp: armed_def)

lemma armed_trans: "armed n D x y \<Longrightarrow> armed n D y z \<Longrightarrow> armed n D x z"
  by (auto simp: armed_def)

lemma renewal_refl [simp]: "renewal_armed n x x"
  by (cases x) simp

lemma renewal_trans: "renewal_armed n x y \<Longrightarrow> renewal_armed n y z \<Longrightarrow> renewal_armed n x z"
  by (cases x; cases y; cases z) auto

lemma paced_refl [simp]: "paced n x x"
  by (cases x) (auto simp: paced_def)

lemma paced_trans: "paced n x y \<Longrightarrow> paced n y z \<Longrightarrow> paced n x z"
  by (cases x; cases y; cases z) (auto simp: paced_def intro: armed_trans renewal_trans simp del: renewal_armed.simps)

section \<open>The delays the agent computes\<close>

lemma jitter_bounds: "0 \<le> jitter e n" "jitter e n \<le> max n 0"
proof -
  have "0 \<le> jitter e n \<and> jitter e n \<le> max n 0"
  proof (cases "n \<le> 0 \<or> en_random e n = None")
    case False
    then obtain r where "en_random e n = Some r" "0 < n" by auto
    then show ?thesis using pos_mod_bound [of "n + 1" "int r"] pos_mod_sign [of "n + 1" "int r"] by (simp add: jitter_def)
  qed (auto simp: jitter_def)
  then show "0 \<le> jitter e n" "jitter e n \<le> max n 0" by simp_all
qed

lemma midpoint_range:
  "now < midpoint e now fin" "min (now + 60) (fin - 30) \<le> midpoint e now fin" "midpoint e now fin \<le> max (fin - 30) (now + 1)"
  by (auto simp: midpoint_def Let_def EXPIRY_GRACE_def MIN_REFRESH_DELAY_def)

lemma loss_delay_range: "loss_delay e k \<in> {0} \<union> {30..3600}"
proof (cases "k \<le> 1")
  case False
  define base where "base = min (LOSS_FIRST_SECS * 2 ^ min (k - 2) 16) LOSS_MAX_SECS"
  have "(1 :: int) \<le> 2 ^ min (k - 2) 16" by simp
  then have b: "60 \<le> base" "base \<le> 3600" by (simp_all add: base_def LOSS_FIRST_SECS_def LOSS_MAX_SECS_def)
  have "base sdiv 10 = base div 10" using b by (simp add: signed_divide_int_def)
  then have "0 \<le> jitter e (base sdiv 10)" "jitter e (base sdiv 10) \<le> base div 10"
    using jitter_bounds [of e "base sdiv 10"] b by (simp_all add: max_def split: if_splits)
  moreover have "10 * (base div 10) \<le> base" by simp
  ultimately have "30 \<le> base - jitter e (base sdiv 10)" "base - jitter e (base sdiv 10) \<le> 3600" using b by linarith+
  then show ?thesis using False by (simp add: loss_delay_def base_def [symmetric] Let_def)
qed (simp add: loss_delay_def)

lemma backoff_ranges:
  "next_backoff held MIN_REFRESH_DELAY PROBE_MAX_SECS \<in> {60..600}" "next_backoff held STARTUP_RETRY_SECS PROBE_MAX_SECS \<in> {5..600}"
  "next_backoff held PROBE_FIRST_SECS PROBE_MAX_SECS \<in> {30..600}"
  by (simp_all add: next_backoff_def Let_def agent_constants)

lemma renewal_midpoint: "renewal_armed n x (p, fin, Some (midpoint e n fin), b)"
  using midpoint_range [where now = n and e = e and fin = fin] by (cases x) auto

section \<open>What leaves the timers and the results alone\<close>

definition is_result :: "outside_act \<Rightarrow> bool" where
  "is_result c \<longleftrightarrow> (\<exists>act oc. c = Finished act oc)"

text \<open>The results handed to the desktop: what a thread the user started came to.\<close>

definition results :: "agent \<Rightarrow> outside_act list" where
  "results a = filter is_result (ag_outside a)"

named_theorems paces \<open>what an operation leaves of the timers and the results\<close>

lemma small_paces [paces]:
  "timers_of (snd (advance_discovery a)) = timers_of a" "results (snd (advance_discovery a)) = results a"
  "timers_of (updated_file ch a) = timers_of a" "results (updated_file ch a) = results a"
  "timers_of (expect on a) = timers_of a" "results (expect on a) = results a"
  "timers_of (note_copy m a) = timers_of a" "results (note_copy m a) = results a"
  "timers_of (snd (purge_realm e r a)) = timers_of a" "results (snd (purge_realm e r a)) = results a"
  "timers_of (clear_broker_snapshot a) = timers_of a" "results (clear_broker_snapshot a) = results a"
  "timers_of (started act a) = timers_of a" "results (started act a) = results a"
  "timers_of (no_longer act a) = timers_of a" "results (no_longer act a) = results a"
  "timers_of (settle_sign_in n a) = timers_of a" "results (settle_sign_in n a) = results a"
  "timers_of (spawned j a) = timers_of a" "results (spawned j a) = results a"
  "timers_of (snd (finish_cloud_sign_out s a)) = timers_of a" "results (snd (finish_cloud_sign_out s a)) = results a"
  "timers_of (snd (finish_busy n s st a)) = timers_of a" "results (snd (finish_busy n s st a)) = results a"
  by (auto simp: timers_of_def results_def is_result_def advance_discovery_def update_file_def expect_def note_copy_def purge_realm_def
      outside_call_def clear_broker_snapshot_def started_def no_longer_def settle_sign_in_def spawned_def finish_cloud_sign_out_def
      finish_busy_def Let_def split: prod.splits option.splits)

lemma session_results [paces]:
  "results (reset_session a) = results a" "results (arm_probe n a) = results a" "results (reset_probe a) = results a"
  "results (restart_probe n a) = results a" "results (snd (end_probe g n a)) = results a" "results (record_fault n f m a) = results a"
  "results (with_loss h a) = results a" "results (loss_suspend a) = results a" "results (landed_session e ij a) = results a"
  by (simp_all add: results_def reset_session_def arm_probe_def reset_probe_def restart_probe_def end_probe_def record_fault_def
      with_loss_def loss_suspend_def landed_session_def Let_def)

lemma told_paces [paces]:
  "timers_of (outside_call c a) = timers_of a" "timers_of (release_deferred a) = timers_of a" "results (release_deferred a) = results a"
  "timers_of (agent_notify n a) = timers_of a" "results (agent_notify n a) = results a"
  "timers_of (announce o' a) = timers_of a" "results (announce o' a) = results a"
proof -
  show "timers_of (outside_call c a) = timers_of a" by (simp add: timers_of_def outside_call_def)
  have r: "timers_of (release_deferred a) = timers_of a" "results (release_deferred a) = results a" for a
    by (auto simp: release_deferred_def settle_deferred_def deliver_def outside_call_def timers_of_def results_def is_result_def
        split: prod.splits option.splits gate.splits bool.splits)
  have n: "timers_of (agent_notify n a) = timers_of (release_deferred a)" "results (agent_notify n a) = results (release_deferred a)" for n a
    by (auto simp: agent_notify_def admit_def deliver_def outside_call_def timers_of_def results_def is_result_def
        split: prod.splits option.splits gate.splits bool.splits)
  show "timers_of (release_deferred a) = timers_of a" "results (release_deferred a) = results a" by (rule r)+
  show "timers_of (agent_notify n a) = timers_of a" "results (agent_notify n a) = results a" by (simp_all add: n r)
  show "timers_of (announce o' a) = timers_of a" "results (announce o' a) = results a" by (cases o'; simp add: announce_def n r)+
qed

lemma results_outside: "\<not> is_result c \<Longrightarrow> results (outside_call c a) = results a"
  by (simp add: results_def outside_call_def)

lemma effects_paces [paces]:
  "timers_of (apply_effects w a) = timers_of a" "results (apply_effects w a) = results a"
proof -
  have u: "timers_of (a\<lparr>ag_refresh_token := t\<rparr>) = timers_of a" "results (a\<lparr>ag_refresh_token := t\<rparr>) = results a" for t
    by (simp_all add: timers_of_def results_def)
  show "timers_of (apply_effects w a) = timers_of a" "results (apply_effects w a) = results a"
    by (cases "we_refresh_token w"; simp add: apply_effects_def paces u)+
qed

lemma cleanup_paces [paces]:
  "timers_of (snd (give_up_captured_grant b g s r a)) = timers_of a" "results (snd (give_up_captured_grant b g s r a)) = results a"
  "timers_of (snd (apply_given_up gen b' r' s' p a)) = timers_of a" "results (snd (apply_given_up gen b' r' s' p a)) = results a"
  by (simp_all add: give_up_captured_grant_def started_grant_cleanup_def started_def spawned_def apply_given_up_def
      finish_grant_cleanup_def no_longer_def timers_of_def results_def Let_def)

lemma publish_paces [paces]:
  "timers_of (publish_snapshot e sn a) = timers_of a" "results (publish_snapshot e sn a) = results a"
proof -
  define y where "y = updated_file (set_cache (bs_kerberos sn)) a"
  have "timers_of y = timers_of a" "results y = results a" by (simp_all add: y_def paces)
  moreover have "timers_of (publish_snapshot e sn a) = timers_of y" "results (publish_snapshot e sn a) = results y"
    by (simp_all add: publish_snapshot_def y_def [symmetric] Let_def timers_of_def results_def)
  ultimately show "timers_of (publish_snapshot e sn a) = timers_of a" "results (publish_snapshot e sn a) = results a" by simp_all
qed

lemma command_paces [paces]:
  "timers_of (snd (create_grant a)) = timers_of a" "results (snd (create_grant a)) = results a"
  "timers_of (snd (spawn_elevated args c act a)) = timers_of a" "results (snd (spawn_elevated args c act a)) = results a"
  "timers_of (snd (begin_cloud_sign_out a)) = timers_of a" "results (snd (begin_cloud_sign_out a)) = results a"
  by (auto simp: create_grant_def spawn_elevated_def begin_cloud_sign_out_def advance_discovery_def started_busy_def started_def
      spawned_def timers_of_def results_def Let_def split: option.splits)

lemma for_broker_paces [paces]:
  "timers_of (snd (for_broker fl act a)) = timers_of a" "results (snd (for_broker fl act a)) = results a"
  by (simp_all add: for_broker_def paces split: option.splits)

lemma give_up_paces [paces]:
  "timers_of (snd (give_up_grant b a)) = timers_of a" "results (snd (give_up_grant b a)) = results a"
proof -
  define h :: "file_config \<Rightarrow> file_config" where "h = (\<lambda>f. if fc_grant f = None then f else f\<lparr>fc_grant := None, fc_expected_working_as := None\<rparr>)"
  obtain p a1 where u: "update_file h a = (p, a1)" by fastforce
  then have a1: "a1 = updated_file h a" by simp
  have f: "timers_of a1 = timers_of a" "results a1 = results a" by (simp_all only: a1 paces)
  show "timers_of (snd (give_up_grant b a)) = timers_of a" "results (snd (give_up_grant b a)) = results a"
    by (simp_all add: give_up_grant_def h_def [symmetric] u paces f split: option.splits)
qed

lemma grant_created_paces [paces]:
  "timers_of (snd (apply_grant_created e s g w a)) = timers_of a" "results (snd (apply_grant_created e s g w a)) = results a"
proof -
  define a1 where "a1 = apply_effects w (snd (finish_busy (en_now e) s False a))"
  obtain p a2 where u: "update_file (\<lambda>f. f\<lparr>fc_grant := Some g\<rparr>) a1 = (p, a2)" by fastforce
  then have a2: "a2 = updated_file (\<lambda>f. f\<lparr>fc_grant := Some g\<rparr>) a1" by simp
  have f: "timers_of a2 = timers_of a" "results a2 = results a" by (simp_all only: a2 paces a1_def)
  have v: "timers_of (x\<lparr>ag_just_authorized := True, ag_granted_pending := b\<rparr>) = timers_of x"
    "results (x\<lparr>ag_just_authorized := True, ag_granted_pending := b\<rparr>) = results x" for x b
    by (simp_all add: timers_of_def results_def)
  show "timers_of (snd (apply_grant_created e s g w a)) = timers_of a" "results (snd (apply_grant_created e s g w a)) = results a"
    by (simp_all add: apply_grant_created_def a1_def [symmetric] u Let_def paces f v)
qed

section \<open>What arms a timer\<close>

lemma timers_refl: "timers_of b = timers_of a \<Longrightarrow> paced n (timers_of a) (timers_of b)"
  by simp

lemma probe_paced:
  "paced n (timers_of a) (timers_of (arm_probe n a))" "paced n (timers_of a) (timers_of (reset_probe a))"
  "paced n (timers_of a) (timers_of (restart_probe n a))" "paced n (timers_of a) (timers_of (snd (end_probe g n a)))"
  "paced n (timers_of a) (timers_of (record_fault n f m a))"
  by (auto simp: paced_def timers_of_def arm_probe_def reset_probe_def restart_probe_def end_probe_def record_fault_def Let_def
      PROBE_FIRST_SECS_def)

lemma reset_paced: "paced n (timers_of a) (timers_of (reset_session a))"
  by (auto simp: paced_def timers_of_def reset_session_def no_loss_def)

lemma landed_paced: "paced (en_now e) (timers_of a) (timers_of (landed_session e ij a))"
  using renewal_midpoint [of "en_now e"]
  by (auto simp: paced_def timers_of_def landed_session_def simp del: renewal_armed.simps)

lemma loss_paced:
  "paced (en_now e) (timers_of a) (timers_of (loss_suspend a))" "paced (en_now e) (timers_of a) (timers_of (loss_observed e b a))"
  "paced (en_now e) (timers_of a) (timers_of (loss_failed e f a))" "paced (en_now e) (timers_of a) (timers_of (loss_present a))"
  "paced (en_now e) (timers_of a) (timers_of (snd (loss_landed a)))"
  using loss_delay_range
  by (auto simp: paced_def timers_of_def loss_suspend_def loss_observed_def loss_failed_def loss_present_def loss_landed_def with_loss_def
      Let_def simp del: Un_iff)

lemma start_worker_paced: "paced (en_now e) (timers_of a) (timers_of (start_worker e t a))"
  and start_worker_results [paces]: "results (start_worker e t a) = results a"
  by (auto simp: start_worker_def advance_discovery_def started_busy_def started_def spawned_def timers_of_def results_def paced_def
      Let_def split: option.splits)

lemma background_paced: "paced (en_now e) (timers_of a) (timers_of (discover_in_background e a))"
  and background_results [paces]: "results (discover_in_background e a) = results a"
  by (auto simp: discover_in_background_def begin_probe_def advance_discovery_def arm_probe_def spawned_def timers_of_def results_def
      paced_def PROBE_FIRST_SECS_def Let_def split: option.splits prod.splits)

text \<open>A failed attempt with a ticket: the next one is its backoff away, or at the midpoint if that is sooner.\<close>

lemma backoff_renewal:
  assumes "b \<in> {60..600}"
  shows "renewal_armed n x (p, fin, Some (min (n + b) (midpoint e n fin)), b')"
  using assms midpoint_range [where now = n and e = e and fin = fin] by (cases x) auto

lemma failed_with_paced:
  "paced (en_now e) (timers_of a) (timers_of (failed_with_ticket e f fs a))" "results (failed_with_ticket e f fs a) = results a"
proof -
  have m: "MIN_REFRESH_DELAY \<in> {60..600}" by (simp add: MIN_REFRESH_DELAY_def)
  define a1 where "a1 = a\<lparr>ag_phase := Connected, ag_silent_failed := True\<rparr>"
  have 1: "timers_of a1 = timers_of a" "results a1 = results a" by (simp_all add: a1_def timers_of_def results_def)
  have b: "paced (en_now e) (timers_of a1)
      (timers_of (a1\<lparr>ag_refresh_backoff := b, ag_refresh_at := Some (min (en_now e + b) (midpoint e (en_now e) (ag_end a1)))\<rparr>))"
    if "b \<in> {60..600}" for b
    using that backoff_renewal [OF that, of "en_now e"] by (auto simp: paced_def timers_of_def simp del: renewal_armed.simps)
  show "paced (en_now e) (timers_of a) (timers_of (failed_with_ticket e f fs a))"
    using loss_paced(3) [of e a1 f] b [OF m] b [OF backoff_ranges(1)]
    by (simp add: failed_with_ticket_def a1_def [symmetric] 1 Let_def)
  have "results (loss_failed e f x) = results x" for x by (simp add: loss_failed_def paces Let_def)
  moreover have "results (x\<lparr>ag_refresh_backoff := b, ag_refresh_at := r\<rparr>) = results x" for x b r by (simp add: results_def)
  ultimately show "results (failed_with_ticket e f fs a) = results a"
    by (simp add: failed_with_ticket_def a1_def [symmetric] 1 Let_def)
qed

lemma failed_without_paced:
  "paced (en_now e) (timers_of a) (timers_of (snd (failed_without_ticket e f t a)))" "results (snd (failed_without_ticket e f t a)) = results a"
proof -
  have "next_backoff (ag_startup_backoff a) STARTUP_RETRY_SECS PROBE_MAX_SECS \<in> {5..600}" by (rule backoff_ranges)
  then show "paced (en_now e) (timers_of a) (timers_of (snd (failed_without_ticket e f t a)))"
    by (auto simp: paced_def timers_of_def failed_without_ticket_def STARTUP_RETRY_BOUNDED_SECS_def Let_def)
  show "results (snd (failed_without_ticket e f t a)) = results a"
    by (simp add: failed_without_ticket_def results_def Let_def)
qed

lemma signed_in_paced:
  "paced (en_now e) (timers_of a) (timers_of (snd (apply_signed_in e s ij w via a)))" "results (snd (apply_signed_in e s ij w via a)) = results a"
proof -
  define a0 where "a0 = apply_effects w (snd (finish_busy (en_now e) s False a))"
  have 0: "timers_of a0 = timers_of a" "results a0 = results a" by (simp_all add: a0_def paces)
  obtain r a1 where l: "loss_landed a0 = (r, a1)" by fastforce
  have 1: "paced (en_now e) (timers_of a) (timers_of a1)" using loss_paced(5) [of e a0] 0 l by simp
  have landed: "paced (en_now e) (timers_of a) (timers_of (landed_session e ij x))" if "timers_of x = timers_of a1" for x
    using paced_trans [OF 1 landed_paced [of e x ij, unfolded that]] .
  have r: "results a1 = results a" using l 0 by (auto simp: loss_landed_def results_def with_loss_def)
  show "paced (en_now e) (timers_of a) (timers_of (snd (apply_signed_in e s ij w via a)))"
    by (simp add: apply_signed_in_def a0_def [symmetric] l Let_def paces landed split: option.splits)
  show "results (snd (apply_signed_in e s ij w via a)) = results a"
    by (simp add: apply_signed_in_def a0_def [symmetric] l Let_def paces r split: option.splits)
qed

lemma sign_in_failed_paced:
  "paced (en_now e) (timers_of a) (timers_of (snd (apply_sign_in_failed e s w f m t a)))"
  "results (snd (apply_sign_in_failed e s w f m t a)) = results a"
proof -
  define a1 where "a1 = apply_effects w (snd (finish_busy (en_now e) s False a))"
  define a2 where "a2 = record_fault (en_now e) f m a1"
  have 1: "timers_of a1 = timers_of a" "results a1 = results a" by (simp_all add: a1_def paces)
  have 2: "paced (en_now e) (timers_of a) (timers_of a2)" "results a2 = results a"
    using probe_paced(5) [of "en_now e" a1 f m] by (simp_all add: a2_def 1 paces)
  obtain n a3 where w: "failed_without_ticket e f t a2 = (n, a3)" by fastforce
  have 3: "paced (en_now e) (timers_of a2) (timers_of a3)" "results a3 = results a2" using failed_without_paced [where e = e and a = a2 and f = f and t = t] w by simp_all
  show "paced (en_now e) (timers_of a) (timers_of (snd (apply_sign_in_failed e s w f m t a)))"
    using paced_trans [OF 2(1) failed_with_paced(1)] paced_trans [OF 2(1) 3(1)]
    by (simp add: apply_sign_in_failed_def a1_def [symmetric] a2_def [symmetric] w Let_def)
  show "results (snd (apply_sign_in_failed e s w f m t a)) = results a"
    by (simp add: apply_sign_in_failed_def a1_def [symmetric] a2_def [symmetric] w Let_def failed_with_paced 2 3)
qed

lemma lookup_paced:
  "paced (en_now e) (timers_of a) (timers_of (apply_lookup e gen url a))" "results (apply_lookup e gen url a) = results a"
proof -
  obtain p a1 where p: "end_probe gen (en_now e) a = (p, a1)" by fastforce
  have 1: "paced (en_now e) (timers_of a) (timers_of a1)" "results a1 = results a"
    using probe_paced(4) [of "en_now e" a gen] session_results(5) [of gen "en_now e" a] p by simp_all
  have "paced (en_now e) (timers_of a1) (timers_of (apply_lookup e gen url a))"
    by (auto simp: apply_lookup_def p Let_def restart_probe_def timers_of_def paced_def split: option.splits)
  with 1 show "paced (en_now e) (timers_of a) (timers_of (apply_lookup e gen url a))" by (blast intro: paced_trans)
  have "results (apply_lookup e gen url a) = results a1"
    by (simp add: apply_lookup_def p Let_def restart_probe_def results_def split: option.splits)
  with 1 show "results (apply_lookup e gen url a) = results a" by simp
qed

lemma elevated_paced:
  "paced (en_now e) (timers_of a) (timers_of (snd (apply_elevated e act oc b a)))" "results (snd (apply_elevated e act oc b a)) = results a"
proof -
  define a1 where "a1 = (if b \<and> kb_realm (ag_kerberos a) \<noteq> [] then a\<lparr>ag_enroll := en_enroll e (ag_kerberos a)\<rparr> else a)"
  have 1: "timers_of a1 = timers_of a" "results a1 = results a" by (simp_all add: a1_def timers_of_def results_def)
  have 2: "paced n (timers_of x) (timers_of (x\<lparr>ag_loss := no_loss, ag_loss_check_at := 0\<rparr>))"
    "results (x\<lparr>ag_loss := no_loss, ag_loss_check_at := 0\<rparr>) = results x" for x n
    by (auto simp: timers_of_def results_def paced_def no_loss_def)
  show "paced (en_now e) (timers_of a) (timers_of (snd (apply_elevated e act oc b a)))"
    "results (snd (apply_elevated e act oc b a)) = results a"
    using 2(1) [of "en_now e" a1] probe_paced(5) [of "en_now e" a1] 1
    by (cases oc; simp add: apply_elevated_def a1_def [symmetric] Let_def paces 2)+
qed

lemma free_paces [paces]: "timers_of (free_elevated ev a) = timers_of a" "results (free_elevated ev a) = results a"
  by (cases ev; simp add: free_elevated_def timers_of_def results_def)+

lemma shared_paced:
  "paced (en_now e) (timers_of a) (timers_of (snd (apply_shared e ev a)))" "results (snd (apply_shared e ev a)) = results a"
proof -
  have g: "paced (en_now e) (timers_of a) (timers_of (record_fault (en_now e) f m (apply_effects w (snd (finish_busy (en_now e) s False a)))))" for f m w s
    using probe_paced(5) [of "en_now e" "apply_effects w (snd (finish_busy (en_now e) s False a))" f m] by (simp add: paces)
  show "paced (en_now e) (timers_of a) (timers_of (snd (apply_shared e ev a)))"
    by (cases ev) (simp_all add: apply_shared_def signed_in_paced sign_in_failed_paced lookup_paced elevated_paced paces g Let_def)
  show "results (snd (apply_shared e ev a)) = results a"
    by (cases ev) (simp_all add: apply_shared_def signed_in_paced sign_in_failed_paced lookup_paced elevated_paced paces Let_def)
qed

section \<open>Reports, ticks and commands\<close>

fun user_result :: "agent_event \<Rightarrow> bool" where
  "user_result (GrantCreated _ _ _ _) = True"
| "user_result (GrantFailed _ _ _ _) = True"
| "user_result (GrantGivenUp _ _ _ _ asked) = asked"
| "user_result (ElevatedFinished _ _ _) = True"
| "user_result _ = False"

lemma shared_results: "\<not> user_result ev \<Longrightarrow> sh_finished (fst (apply_shared e ev a)) = None"
  by (cases ev) (auto simp: apply_shared_def apply_signed_in_def apply_sign_in_failed_def apply_given_up_def no_shared_def Let_def
      split: prod.splits bool.splits)

lemma live_paced:
  "paced (en_now e) (timers_of a) (timers_of (apply_live e ev a))"
  "\<not> user_result ev \<Longrightarrow> results (apply_live e ev a) = results a"
proof -
  obtain sh a2 where s: "apply_shared e ev (free_elevated ev a) = (sh, a2)" by fastforce
  have 2: "paced (en_now e) (timers_of a) (timers_of a2)" "results a2 = results a"
    using shared_paced(1) [of e "free_elevated ev a" ev] shared_paced(2) [where e = e and a = "free_elevated ev a" and ev = ev] s by (simp_all add: paces)
  define a3 where "a3 = (if sh_grant_sign_in sh then start_worker e ByGrant a2 else a2)"
  have 3: "paced (en_now e) (timers_of a) (timers_of a3)" "results a3 = results a"
    using paced_trans [OF 2(1) start_worker_paced] 2 by (simp_all add: a3_def paces)
  define a4 where "a4 = (case sh_pending sh of None \<Rightarrow> a3 | Some n \<Rightarrow> agent_notify n a3)"
  define a5 where "a5 = (case sh_elevating sh of None \<Rightarrow> a4 | Some act \<Rightarrow> outside_call (Elevating act) a4)"
  have 5: "timers_of a5 = timers_of a3" "results a5 = results a3"
    by (simp_all add: a5_def a4_def paces results_outside is_result_def split: option.splits)
  have l: "apply_live e ev a = (case sh_finished sh of None \<Rightarrow> a5 | Some (act, oc) \<Rightarrow> outside_call (Finished act oc) a5)"
    unfolding apply_live_def s prod.case Let_def a3_def [symmetric] a4_def [symmetric] a5_def [symmetric] ..
  show "paced (en_now e) (timers_of a) (timers_of (apply_live e ev a))"
    using 3 5 by (simp add: l paces split: option.splits)
  show "results (apply_live e ev a) = results a" if "\<not> user_result ev"
    using shared_results [OF that, of e "free_elevated ev a"] s 3 5 by (simp add: l)
qed

lemma reject_paces: "timers_of (snd (reject_stale_terminal e ev a)) = timers_of a" "results (snd (reject_stale_terminal e ev a)) = results a"
  by (auto simp: reject_stale_terminal_def paces split: agent_event.splits option.splits)

lemma end_old_realm_paced:
  "paced n (timers_of a) (timers_of (end_old_realm e sn a))" "results (end_old_realm e sn a) = results a"
  using reset_paced [of n "expect False (snd (purge_realm e (kb_realm (ag_kerberos a)) a))"]
  by (simp_all add: end_old_realm_def paces)

lemma replace_paced:
  "paced (en_now e) (timers_of a) (timers_of (snd (replace_broker_snapshot e s sn a)))" "results (snd (replace_broker_snapshot e s sn a)) = results a"
proof -
  define a1 where "a1 = publish_snapshot e sn (end_old_realm e sn a)"
  have 1: "paced (en_now e) (timers_of a) (timers_of a1)" "results a1 = results a" by (simp_all add: a1_def paces end_old_realm_paced)
  define a2 where "a2 = (if ag_fault a1 = Some NetworkFault then record_fault (en_now e) None NoCopy a1 else a1)"
  have 2: "paced (en_now e) (timers_of a) (timers_of a2)" "results a2 = results a"
    using paced_trans [OF 1(1) probe_paced(5)] 1 by (simp_all add: a2_def paces)
  show "paced (en_now e) (timers_of a) (timers_of (snd (replace_broker_snapshot e s sn a)))"
    "results (snd (replace_broker_snapshot e s sn a)) = results a"
    using paced_trans [OF 2(1) probe_paced(2)] 2
    by (simp_all add: replace_broker_snapshot_def a1_def [symmetric] a2_def [symmetric] Let_def paces)
qed

lemma discovered_paced:
  "paced (en_now e) (timers_of a) (timers_of (snd (apply_discovered e s sn w a)))" "results (snd (apply_discovered e s sn w a)) = results a"
proof -
  define a1 where "a1 = (if w then a else snd (end_probe (dst_generation s) (en_now e) a))"
  have 1: "paced (en_now e) (timers_of a) (timers_of a1)" "results a1 = results a" by (simp_all add: a1_def probe_paced paces)
  obtain p a2 where r: "replace_broker_snapshot e s sn a1 = (p, a2)" by fastforce
  have 2: "paced (en_now e) (timers_of a) (timers_of a2)" "results a2 = results a"
    using paced_trans [OF 1(1) replace_paced(1) [of e a1 s sn]] replace_paced(2) [of e s sn a1] r 1 by simp_all
  obtain q st en where q: "enforce_autostart (ag_settings a2) (ag_entry a2) = (q, st, en)" by (metis prod_cases3)
  have u: "timers_of (x\<lparr>ag_settings := v, ag_entry := v'\<rparr>) = timers_of x" "results (x\<lparr>ag_settings := v, ag_entry := v'\<rparr>) = results x"
    "results (x\<lparr>ag_settings := v, ag_entry := v', ag_startup_retry_at := r'\<rparr>) = results x" for x v v' r'
    by (simp_all add: timers_of_def results_def)
  have v: "paced n (timers_of x) (timers_of (x\<lparr>ag_settings := v, ag_entry := v', ag_startup_retry_at := Some n\<rparr>))" for x v v' n
    by (auto simp: paced_def timers_of_def)
  show "paced (en_now e) (timers_of a) (timers_of (snd (apply_discovered e s sn w a)))"
    "results (snd (apply_discovered e s sn w a)) = results a"
    using 2 paced_trans [OF 2(1) v] by (cases p; simp add: apply_discovered_def a1_def [symmetric] r q Let_def u)+
qed

lemma discovery_failed_paced:
  "paced (en_now e) (timers_of a) (timers_of (snd (apply_event e (DiscoveryFailed s) a)))" "results (snd (apply_event e (DiscoveryFailed s) a)) = results a"
proof -
  obtain p a1 where p: "end_probe (dst_generation s) (en_now e) a = (p, a1)" by fastforce
  have 1: "paced (en_now e) (timers_of a) (timers_of a1)" "results a1 = results a"
    using probe_paced(4) [of "en_now e" a "dst_generation s"] session_results(5) [of "dst_generation s" "en_now e" a] p by simp_all
  have "timers_of (snd (apply_event e (DiscoveryFailed s) a)) = timers_of a1" "results (snd (apply_event e (DiscoveryFailed s) a)) = results a1"
    by (simp_all add: apply_event_def p timers_of_def results_def)
  with 1 show "paced (en_now e) (timers_of a) (timers_of (snd (apply_event e (DiscoveryFailed s) a)))"
    "results (snd (apply_event e (DiscoveryFailed s) a)) = results a" by simp_all
qed

lemma ended_paces [paces]: "timers_of (a\<lparr>ag_discovery_ended := b\<rparr>) = timers_of a" "results (a\<lparr>ag_discovery_ended := b\<rparr>) = results a"
  by (simp_all add: timers_of_def results_def)

lemma event_paced:
  "paced (en_now e) (timers_of a) (timers_of (snd (agent_apply e ev a)))"
  "\<not> user_result ev \<Longrightarrow> results (snd (agent_apply e ev a)) = results a"
proof -
  have l: "paced (en_now e) (timers_of a) (timers_of (apply_live e ev (a\<lparr>ag_discovery_ended := True\<rparr>)))"
    using live_paced(1) [of e "a\<lparr>ag_discovery_ended := True\<rparr>" ev] by (simp add: paces)
  have "paced (en_now e) (timers_of a) (timers_of (snd (apply_event e ev a)))"
  proof (cases "terminal_stamp ev")
    case (Some s)
    then show ?thesis using l by (simp add: apply_event_terminal reject_paces)
  next
    case None
    then show ?thesis
      using live_paced(1) [of e a ev] by (cases ev) (simp_all add: apply_event_other paces discovered_paced discovery_failed_paced)
  qed
  moreover have "results (snd (apply_event e ev a)) = results a" if "\<not> user_result ev"
  proof (cases "terminal_stamp ev")
    case (Some s)
    then show ?thesis using live_paced(2) [OF that, of e "a\<lparr>ag_discovery_ended := True\<rparr>"]
      by (simp add: apply_event_terminal reject_paces paces)
  next
    case None
    then show ?thesis using live_paced(2) [OF that, of e a]
      by (cases ev) (simp_all add: apply_event_other paces discovered_paced discovery_failed_paced)
  qed
  ultimately show "paced (en_now e) (timers_of a) (timers_of (snd (agent_apply e ev a)))"
    "\<not> user_result ev \<Longrightarrow> results (snd (agent_apply e ev a)) = results a"
    by (auto simp: agent_apply_def paces split: prod.splits)
qed

lemma tick_paces:
  "timers_of (snd (tick_deadline e da)) = timers_of (snd da)" "results (snd (tick_deadline e da)) = results (snd da)"
  "timers_of (snd (tick_escalate e da)) = timers_of (snd da)" "results (snd (tick_escalate e da)) = results (snd da)"
  "results (snd (tick_probe e b da)) = results (snd da)" "results (snd (tick_expiry e da)) = results (snd da)"
  "results (snd (tick_overdue e b da)) = results (snd da)" "results (snd (tick_startup e b da)) = results (snd da)"
  "results (snd (tick_refresh e b da)) = results (snd da)"
  by (auto simp: tick_deadline_def tick_escalate_def tick_probe_def tick_expiry_def tick_overdue_def tick_startup_def tick_refresh_def
      with_loss_def timers_of_def results_def Let_def split: prod.splits option.splits)

lemma tick_arms:
  "paced (en_now e) (timers_of (snd da)) (timers_of (snd (tick_probe e b da)))"
  "paced (en_now e) (timers_of (snd da)) (timers_of (snd (tick_expiry e da)))"
  "paced (en_now e) (timers_of (snd da)) (timers_of (snd (tick_startup e b da)))"
  "paced (en_now e) (timers_of (snd da)) (timers_of (snd (tick_refresh e b da)))"
proof -
  obtain d a where da: "da = (d, a)" by fastforce
  show "paced (en_now e) (timers_of (snd da)) (timers_of (snd (tick_probe e b da)))"
    using backoff_ranges(3) [of "ag_probe_backoff a"] by (auto simp: da tick_probe_def paced_def timers_of_def Let_def)
  show "paced (en_now e) (timers_of (snd da)) (timers_of (snd (tick_expiry e da)))"
    "paced (en_now e) (timers_of (snd da)) (timers_of (snd (tick_startup e b da)))"
    by (auto simp: da tick_expiry_def tick_startup_def with_loss_def paced_def timers_of_def Let_def)
  show "paced (en_now e) (timers_of (snd da)) (timers_of (snd (tick_refresh e b da)))"
    using renewal_midpoint [of "en_now e"]
    by (auto simp: da tick_refresh_def no_loss_def paced_def timers_of_def Let_def simp del: renewal_armed.simps)
qed

lemma tick_overdue_paced:
  assumes "sched (en_now e) (ticket_state (snd da))" "ag_phase (snd da) = Lapsed"
  shows "paced (en_now e) (timers_of (snd da)) (timers_of (snd (tick_overdue e b da)))"
  using assms by (cases da) (auto simp: tick_overdue_def ticket_state_def paced_def timers_of_def MIN_REFRESH_DELAY_def)

lemma tick_absent_paced:
  "paced (en_now e) (timers_of (snd da)) (timers_of (snd (snd (tick_look e b da))))" "results (snd (snd (tick_look e b da))) = results (snd da)"
  "paced (en_now e) (timers_of (snd (snd sda))) (timers_of (snd (tick_recover e b sda)))" "results (snd (tick_recover e b sda)) = results (snd (snd sda))"
proof -
  have u: "timers_of (x\<lparr>ag_loss_check_at := v\<rparr>) = timers_of x" "results (x\<lparr>ag_loss_check_at := v\<rparr>) = results x" for x v
    by (simp_all add: timers_of_def results_def)
  have r: "results (loss_observed e c x) = results x" "results (loss_present x) = results x" for c x
    by (simp_all add: loss_observed_def loss_present_def paces Let_def)
  have w: "paced (en_now e) (timers_of x) (timers_of (with_loss (\<lambda>l. l\<lparr>tl_retry_at := Some (en_now e + d l)\<rparr>) x))"
    if "\<And>l. d l \<in> {0} \<union> {30..3600}" for d x
    using that by (auto simp: with_loss_def timers_of_def paced_def simp del: Un_iff)
  note p = loss_paced(2) [of e "x\<lparr>ag_loss_check_at := v\<rparr>" for x v, unfolded u] loss_paced(4) [of e "x\<lparr>ag_loss_check_at := v\<rparr>" for x v, unfolded u]
  show "paced (en_now e) (timers_of (snd da)) (timers_of (snd (snd (tick_look e b da))))" "results (snd (snd (tick_look e b da))) = results (snd da)"
    by (cases da; simp add: tick_look_def Let_def p u r)+
  show "paced (en_now e) (timers_of (snd (snd sda))) (timers_of (snd (tick_recover e b sda)))"
    using w [of "\<lambda>_. LOSS_POLL_SECS"] w [of "\<lambda>l. loss_delay e (tl_streak l + 1)"] loss_paced(4) [of e] loss_delay_range
    by (auto simp: tick_recover_def LOSS_POLL_SECS_def split: prod.splits option.splits bool.splits simp del: Un_iff)
  show "results (snd (tick_recover e b sda)) = results (snd (snd sda))"
    by (auto simp: tick_recover_def paces r split: prod.splits option.splits bool.splits)
qed

lemma tick_paced:
  assumes "sched (en_now e) (ticket_state a)"
  shows "paced (en_now e) (timers_of a) (timers_of (snd (tick_at e b a)))"
proof -
  define da where "da = tick_probe e b (tick_deadline e (no_due, a))"
  define dx where "dx = tick_expiry e da"
  have t: "ticket_state (snd da) = ticket_state a"
    by (auto simp: da_def tick_deadline_def tick_probe_def ticket_state_def Let_def split: prod.splits option.splits)
  have s: "sched (en_now e) (ticket_state (snd dx))"
    using assms t by (cases da) (auto simp: dx_def tick_expiry_def ticket_state_def with_loss_def Let_def)
  have 1: "paced (en_now e) (timers_of a) (timers_of (snd da))"
    using tick_arms(1) [of e "tick_deadline e (no_due, a)" b] by (simp add: da_def tick_paces)
  have 2: "paced (en_now e) (timers_of a) (timers_of (snd dx))"
    using paced_trans [OF 1 tick_arms(2)] by (simp add: dx_def)
  have 3: "paced (en_now e) (timers_of a) (timers_of (snd (tick_refresh e b (tick_recover e b (tick_look e b dx)))))"
    by (rule paced_trans [OF 2 paced_trans [OF tick_absent_paced(1) paced_trans [OF tick_absent_paced(3) tick_arms(4)]]])
  have k: "tick_at e b a = (if ag_phase (snd dx) = Lapsed then tick_overdue e b dx
       else if ag_phase (snd dx) \<noteq> Connected then tick_startup e b dx
       else tick_escalate e (tick_refresh e b (tick_recover e b (tick_look e b dx))))"
    by (simp only: tick_at_def Let_def da_def dx_def)
  show ?thesis
    using paced_trans [OF 2 tick_overdue_paced [OF s]] paced_trans [OF 2 tick_arms(3)] 3 by (simp add: k tick_paces)
qed

lemma tick_results: "results (snd (tick_at e b a)) = results a"
  by (simp add: tick_at_def Let_def tick_paces tick_absent_paced)

lemma agent_tick_paced:
  "sched (en_now e) (ticket_state a) \<Longrightarrow> paced (en_now e) (timers_of a) (timers_of (snd (agent_tick e a)))"
  and agent_tick_results: "results (snd (agent_tick e a)) = results a"
proof -
  obtain d a1 where t: "tick_at e (ag_busy a) a = (d, a1)" by fastforce
  define a2 where "a2 = announce (du_notice d) a1"
  define a3 where "a3 = (case du_start d of None \<Rightarrow> a2 | Some t \<Rightarrow> start_worker e t a2)"
  define a4 where "a4 = (if du_probe d \<and> \<not> ag_busy a3 then discover_in_background e a3 else a3)"
  have k: "snd (agent_tick e a) = a4"
    unfolding agent_tick_def t prod.case Let_def a2_def [symmetric] a3_def [symmetric] a4_def [symmetric] by simp
  have "results a1 = results a" using tick_results [of e "ag_busy a" a] t by simp
  then show "results (snd (agent_tick e a)) = results a"
    by (simp add: k a4_def a3_def a2_def paces split: option.splits)
  assume "sched (en_now e) (ticket_state a)"
  then have 2: "paced (en_now e) (timers_of a) (timers_of a2)"
    using tick_paced [of e a "ag_busy a"] t by (simp add: a2_def paces)
  have 3: "paced (en_now e) (timers_of a) (timers_of a3)"
    using paced_trans [OF 2 start_worker_paced] 2 by (simp add: a3_def split: option.splits)
  show "paced (en_now e) (timers_of a) (timers_of (snd (agent_tick e a)))"
    using paced_trans [OF 3 background_paced] 3 by (simp add: k a4_def)
qed

lemma retarget_paced:
  "paced (en_now e) (timers_of a) (timers_of (snd (agent_retarget e ob nb a)))" "results (snd (agent_retarget e ob nb a)) = results a"
proof -
  obtain p a1 where p: "purge_realm e (kb_realm (fc_cache (st_file (ag_settings a)))) a = (p, a1)" by fastforce
  have 1: "timers_of a1 = timers_of a" "results a1 = results a"
    using small_paces(9,10) [of e "kb_realm (fc_cache (st_file (ag_settings a)))" a] p by simp_all
  obtain w a2 where u: "update_file (\<lambda>f. file_retarget nb (f\<lparr>fc_grant := None\<rparr>)) a1 = (w, a2)" by fastforce
  then have a2: "a2 = updated_file (\<lambda>f. file_retarget nb (f\<lparr>fc_grant := None\<rparr>)) a1" by simp
  have 2: "timers_of a2 = timers_of a" "results a2 = results a" by (simp_all only: a2 paces 1)
  have c: "timers_of (x\<lparr>ag_cloud_sign_out := v\<rparr>) = timers_of x" "results (x\<lparr>ag_cloud_sign_out := v\<rparr>) = results x"
    "timers_of (x\<lparr>ag_cancel := True, ag_refresh_token := None\<rparr>) = timers_of x"
    "results (x\<lparr>ag_cancel := True, ag_refresh_token := None\<rparr>) = results x" for x v
    by (simp_all add: timers_of_def results_def)
  define a3 where "a3 = restart_probe (en_now e) (invalidate_broker_snapshot a2)"
  have 3: "paced (en_now e) (timers_of a) (timers_of a3)" "results a3 = results a"
    using probe_paced(3) [of "en_now e" "invalidate_broker_snapshot a2"] 2 by (simp_all add: a3_def invalidate_broker_snapshot_def paces)
  define a5 where "a5 = reset_session ((no_longer SignOutIdp (a3\<lparr>ag_cloud_sign_out := None\<rparr>))\<lparr>ag_cancel := True, ag_refresh_token := None\<rparr>)"
  have "paced (en_now e) (timers_of a3) (timers_of a5)"
    using reset_paced [of "en_now e" "(no_longer SignOutIdp (a3\<lparr>ag_cloud_sign_out := None\<rparr>))\<lparr>ag_cancel := True, ag_refresh_token := None\<rparr>"]
    by (simp add: a5_def c paces)
  then have 5: "paced (en_now e) (timers_of a) (timers_of a5)" "results a5 = results a"
    using paced_trans [OF 3(1)] 3(2) by (simp_all add: a5_def c paces)
  have "snd (agent_retarget e ob nb a) = (if p then case fc_grant (file_now a1) of None \<Rightarrow> a5
      | Some g \<Rightarrow> snd (give_up_captured_grant ob g w False a5) else a1)"
    by (simp add: agent_retarget_def p u Let_def a3_def a5_def split: option.splits bool.splits)
  then show "paced (en_now e) (timers_of a) (timers_of (snd (agent_retarget e ob nb a)))"
    "results (snd (agent_retarget e ob nb a)) = results a"
    using 1 5 by (simp_all add: paces split: option.splits)
qed

lemma change_broker_paced:
  "paced (en_now e) (timers_of a) (timers_of (snd (change_broker e u a)))" "results (snd (change_broker e u a)) = results a"
proof -
  have v: "paced n (timers_of x) (timers_of (x\<lparr>ag_startup_retry_at := Some n, ag_awaits_broker := w\<rparr>))"
    "results (x\<lparr>ag_startup_retry_at := r, ag_awaits_broker := w\<rparr>) = results x" for x n r w
    by (auto simp: timers_of_def paced_def results_def)
  have r: "paced (en_now e) (timers_of a) (timers_of x) \<and> results x = results a" if "agent_retarget e ob nb a = (p, x)" for ob nb p x
    using retarget_paced(1) [of e a ob nb] retarget_paced(2) [of e ob nb a] that by simp
  show "paced (en_now e) (timers_of a) (timers_of (snd (change_broker e u a)))" "results (snd (change_broker e u a)) = results a"
    by (auto simp: change_broker_def Let_def v split: option.splits prod.splits bool.splits dest!: r intro: paced_trans [OF _ v(1)])
qed

lemma apply_settings_paced:
  "paced (en_now e) (timers_of a) (timers_of (apply_settings e c a))" "results (apply_settings e c a) = results a"
proof -
  obtain u a1 where c: "change_broker e (sc_broker_url c) a = (u, a1)" by fastforce
  have f: "paced (en_now e) (timers_of a) (timers_of a1)" "results a1 = results a"
    using change_broker_paced(1) [of e a "sc_broker_url c"] change_broker_paced(2) [of e "sc_broker_url c" a] c by simp_all
  have g: "timers_of (case o' of None \<Rightarrow> a1 | Some on \<Rightarrow> a1\<lparr>ag_entry := w on\<rparr>) = timers_of a1"
    "results (case o' of None \<Rightarrow> a1 | Some on \<Rightarrow> a1\<lparr>ag_entry := w on\<rparr>) = results a1" for o' :: "bool option" and w
    by (simp_all add: timers_of_def results_def split: option.splits)
  show "paced (en_now e) (timers_of a) (timers_of (apply_settings e c a))" "results (apply_settings e c a) = results a"
    using f by (simp_all only: apply_settings_def c prod.case Let_def paces g)
qed

lemma drop_ticket_paced:
  "paced (en_now e) (timers_of a) (timers_of (drop_ticket e a))" "results (drop_ticket e a) = results a"
proof -
  obtain p a1 where p: "purge_realm e (kb_realm (ag_kerberos a)) a = (p, a1)" by fastforce
  have 1: "timers_of a1 = timers_of a" "results a1 = results a"
    using small_paces(9,10) [of e "kb_realm (ag_kerberos a)" a] p by simp_all
  have 2: "paced (en_now e) (timers_of a) (timers_of (expect False (reset_session a1)))" "results (expect False (reset_session a1)) = results a"
    using reset_paced [of "en_now e" a1] 1 by (simp_all add: paces)
  show "paced (en_now e) (timers_of a) (timers_of (drop_ticket e a))" "results (drop_ticket e a) = results a"
    using 2 paced_trans [OF 2(1) probe_paced(5)] by (simp_all add: drop_ticket_def p Let_def paces)
qed

lemma command_paced:
  "paced (en_now e) (timers_of a) (timers_of (run_command e c a))" "results (run_command e c a) = results a"
proof -
  have s: "paced (en_now e) (timers_of a) (timers_of (start_worker e t x))" if "paced (en_now e) (timers_of a) (timers_of x)" for t x
    by (rule paced_trans [OF that start_worker_paced])
  have u: "paced (en_now e) (timers_of a) (timers_of (a\<lparr>ag_startup_retry_at := None, ag_awaits_broker := False\<rparr>))"
    "timers_of (a\<lparr>ag_awaits_broker := b, ag_startup_retries := n\<rparr>) = timers_of a"
    "timers_of (a\<lparr>ag_awaits_broker := b\<rparr>) = timers_of a" "timers_of (a\<lparr>ag_cancel := b\<rparr>) = timers_of a"
    "timers_of (a\<lparr>ag_just_authorized := b\<rparr>) = timers_of a" for b n
    by (auto simp: timers_of_def paced_def)
  have v: "results (a\<lparr>ag_startup_retry_at := None, ag_awaits_broker := False\<rparr>) = results a"
    "results (a\<lparr>ag_awaits_broker := b, ag_startup_retries := n\<rparr>) = results a"
    "results (a\<lparr>ag_awaits_broker := b\<rparr>) = results a" "results (a\<lparr>ag_cancel := b\<rparr>) = results a"
    "results (a\<lparr>ag_just_authorized := b\<rparr>) = results a" for b n
    by (simp_all add: results_def)
  show "paced (en_now e) (timers_of a) (timers_of (run_command e c a))"
    by (cases c) (simp_all add: agent_sign_in_def renew_now_def autostart_sign_in_def cancel_sign_in_def sign_out_idp_def
        give_up_grant_now_def status_closed_def begin_enroll_def begin_reenroll_def begin_unenroll_def begin_repair_def
        apply_settings_paced drop_ticket_paced paces u s Let_def)
  show "results (run_command e c a) = results a"
    by (cases c) (simp_all add: agent_sign_in_def renew_now_def autostart_sign_in_def cancel_sign_in_def sign_out_idp_def
        give_up_grant_now_def status_closed_def begin_enroll_def begin_reenroll_def begin_unenroll_def begin_repair_def
        apply_settings_paced drop_ticket_paced paces v Let_def)
qed

lemma outer_paces:
  "timers_of (a\<lparr>ag_settings := v\<rparr>) = timers_of a" "timers_of (a\<lparr>ag_entry := en\<rparr>) = timers_of a"
  "timers_of (a\<lparr>ag_browser_leg := b\<rparr>) = timers_of a" "timers_of (a\<lparr>ag_jobs := js\<rparr>) = timers_of a"
  "results (a\<lparr>ag_settings := v\<rparr>) = results a" "results (a\<lparr>ag_entry := en\<rparr>) = results a"
  "results (a\<lparr>ag_browser_leg := b\<rparr>) = results a" "results (a\<lparr>ag_jobs := js\<rparr>) = results a"
  by (simp_all add: timers_of_def results_def)

lemma step_paced:
  "agent_step e a b \<Longrightarrow> sched (en_now e) (ticket_state a) \<Longrightarrow> paced (en_now e) (timers_of a) (timers_of b)"
proof (induction rule: agent_step.induct)
  case (reported a xs j ys ev)
  then show ?case using event_paced(1) [of e "a\<lparr>ag_jobs := xs @ ys\<rparr>" ev] by (simp add: outer_paces)
qed (simp_all add: agent_tick_paced command_paced event_paced outer_paces)

lemma init_backoffs: "backoffs_fine (timers_of (agent_init e windows pol disk entry))"
proof -
  obtain p st en where q: "enforce_autostart (settings_load windows pol disk) entry = (p, st, en)" by (metis prod_cases3)
  obtain r a1 where d: "adopt_existing_ticket e (agent_new e st en) = (r, a1)" by fastforce
  have ex: "backoffs_fine (timers_of (expect on x)) = backoffs_fine (timers_of x)" for on x by (simp add: paces)
  have n: "backoffs_fine (timers_of (agent_new e st en))" by (simp add: agent_new_def timers_of_def Let_def)
  then have "backoffs_fine (timers_of (snd (adopt_existing_ticket e (agent_new e st en))))"
    by (auto simp: adopt_existing_ticket_def adopt_cached_ticket_def ex split: option.splits) (simp_all add: timers_of_def)
  then have 1: "backoffs_fine (timers_of a1)" using d by simp
  define a2 where "a2 = (if r then start_worker e ByStartup a1 else a1)"
  have 2: "backoffs_fine (timers_of a2)" using 1 start_worker_paced [of e a1 ByStartup] by (simp add: a2_def paced_def)
  then have "backoffs_fine (timers_of (discover_in_background e a2))" using background_paced [of e a2] by (simp add: paced_def)
  with 2 show ?thesis by (simp add: agent_init_def q d a2_def [symmetric] Let_def)
qed

lemma reach_backoffs: "agent_reach t a \<Longrightarrow> backoffs_fine (timers_of a)"
proof (induction rule: agent_reach.induct)
  case (started e windows pol disk entry)
  show ?case by (rule init_backoffs)
next
  case (moved t a e b)
  then have "sched (en_now e) (ticket_state a)" by (blast intro: reach_sched sched_mono)
  then show ?case using step_paced [OF moved(2)] moved by (simp add: paced_def)
qed

text \<open>A renewal that failed for the network while the ticket is there.\<close>

definition retry_delay :: "agent \<Rightarrow> int" where
  "retry_delay a = (if ag_first_failure_at a = None then 60 else max 60 (min 600 (2 * ag_refresh_backoff a)))"

definition retries :: "agent \<Rightarrow> int option \<times> int \<times> tgt_loss" where
  "retries a = (ag_first_failure_at a, ag_refresh_backoff a, ag_loss a)"

lemma failed_renewal:
  fixes m :: copy and tr :: trigger and w :: worker_effects
  assumes "discovery_is_current a s" "holds_live_ticket_at a (en_now e)" "\<not> tl_absent (ag_loss a)"
  defines "b \<equiv> snd (agent_apply e (SignInFailed s w (Some NetworkFault) m tr) a)"
  shows "ag_refresh_backoff b = retry_delay a \<and> ag_refresh_at b = Some (min (en_now e + retry_delay a) (midpoint e (en_now e) (ag_end a)))"
proof -
  define a0 where "a0 = a\<lparr>ag_discovery_ended := True\<rparr>"
  define a1 where "a1 = apply_effects w (snd (finish_busy (en_now e) s False a0))"
  define a2 where "a2 = record_fault (en_now e) (Some NetworkFault) m a1"
  have "ticket_state a2 = ticket_state a" by (simp add: a2_def a1_def a0_def frame finish_busy_frames)
  then have t: "holds_live_ticket_at a2 (en_now e)" "ag_end a2 = ag_end a"
    using assms(2) by (simp_all add: ticket_state_def holds_live_ticket_at_def)
  have u: "retries (updated_file h x) = retries x" for h x by (simp add: retries_def update_file_def split: prod.splits)
  have "retries (snd (finish_busy (en_now e) s False a0)) = retries a"
    by (simp add: retries_def a0_def finish_busy_def no_longer_def Let_def split: option.splits)
  moreover have "retries (apply_effects w x) = retries x" for x
    by (simp add: apply_effects_def u split: refresh_update.splits) (simp add: retries_def)
  ultimately have r: "ag_first_failure_at a1 = ag_first_failure_at a" "ag_refresh_backoff a1 = ag_refresh_backoff a" "ag_loss a1 = ag_loss a"
    by (simp_all add: a1_def retries_def)
  have l: "ag_refresh_backoff a2 = ag_refresh_backoff a" "ag_loss a2 = ag_loss a"
    using r by (simp_all add: a2_def record_fault_def arm_probe_def Let_def)
  define fs where "fs = (ag_first_failure_at a = None)"
  have v: "timers_of b = timers_of (failed_with_ticket e (Some NetworkFault) fs a2)"
    using assms(1) t
    by (simp add: b_def agent_apply_def apply_event_terminal apply_live_def free_elevated_def apply_shared_def apply_sign_in_failed_def
        no_shared_def a0_def [symmetric] a1_def [symmetric] a2_def [symmetric] fs_def r Let_def paces)
  have d: "(if fs then MIN_REFRESH_DELAY else next_backoff (ag_refresh_backoff a) MIN_REFRESH_DELAY PROBE_MAX_SECS) = retry_delay a"
    by (auto simp: fs_def retry_delay_def next_backoff_def agent_constants Let_def)
  show ?thesis
    using v assms(3) t l d by (cases fs) (simp_all add: failed_with_ticket_def Let_def timers_of_def)
qed

text \<open>
  C40 (KB_AgentPace.delays_bounded). Every step of the agent from a reachable state, whatever the
  random generator answers, leaves each timer alone, calls it off, or sets it within its range. A
  re-injection is set in the future, no sooner than a minute from now or thirty seconds before End
  Time, whichever is first, and for a ticket that still lives no later than those thirty seconds
  before, or the next second when less is left; without a live ticket a minute away. A quiet attempt
  is set for now, the next second or 5 to 600 seconds away, a lookup of the broker for now or 30 to
  600 seconds away, an attempt for an absent ticket for now or 30 to 3600 seconds away. The three
  backoffs that grow by doubling stay between their first step and their ceiling or are off. A
  renewal that fails for the network while the ticket is there is tried again after its backoff -- a
  minute at first, then doubled up to ten minutes -- or at the midpoint of what is left of the
  ticket, if that is sooner.
\<close>

theorem delays_bounded:
  assumes "agent_reach t a" "agent_step e a b" "t \<le> en_now e"
  shows "backoffs_fine (timers_of b) \<and> timers_armed (en_now e) (timers_of a) (timers_of b)
    \<and> (\<forall>s w m tr js. discovery_is_current a s \<and> holds_live_ticket_at a (en_now e) \<and> \<not> tl_absent (ag_loss a)
         \<and> b = snd (agent_apply e (SignInFailed s w (Some NetworkFault) m tr) (a\<lparr>ag_jobs := js\<rparr>))
         \<longrightarrow> ag_refresh_backoff b = retry_delay a
           \<and> ag_refresh_at b = Some (min (en_now e + retry_delay a) (midpoint e (en_now e) (ag_end a))))"
proof -
  have "sched (en_now e) (ticket_state a)" using reach_sched [OF assms(1)] assms(3) by (rule sched_mono)
  then have "backoffs_fine (timers_of b) \<and> timers_armed (en_now e) (timers_of a) (timers_of b)"
    using step_paced [OF assms(2)] reach_backoffs [OF assms(1)] by (simp add: paced_def)
  moreover have "discovery_is_current (a\<lparr>ag_jobs := js\<rparr>) s = discovery_is_current a s"
    "holds_live_ticket_at (a\<lparr>ag_jobs := js\<rparr>) n = holds_live_ticket_at a n" "retry_delay (a\<lparr>ag_jobs := js\<rparr>) = retry_delay a" for js s n
    by (simp_all add: discovery_is_current_def holds_live_ticket_at_def retry_delay_def)
  ultimately show ?thesis using failed_renewal [of "a\<lparr>ag_jobs := js\<rparr>" for js] by simp
qed

text \<open>
  C25 (KB_AgentPace.notices_pass_the_gate). No step of the agent shows the user a notification unless
  the interruption gate is open after it: under silent mode, and while nobody knows yet what the
  deployment wants, no notification is shown, whatever the step reports. The result of an operation
  the user started does not pass the gate: it is handed to the desktop, and that happens in no step
  but the report of a thread that authorizes the device, gives a grant up with its result asked for,
  or ran an elevated command.
\<close>

theorem notices_pass_the_gate:
  assumes "agent_step e a b"
  shows "(said b = said a \<or> interruption_gate b = Allow)
    \<and> (results b = results a
       \<or> (\<exists>xs j ys ev. ag_jobs a = xs @ j # ys \<and> reports j ev \<and> user_result ev \<and> b = snd (agent_apply e ev (a\<lparr>ag_jobs := xs @ ys\<rparr>))))"
  using assms
proof (cases rule: agent_step.cases)
  case ticked
  then show ?thesis using tick_said [of e a] agent_tick_results [of e a] by simp
next
  case (asked j ev)
  have "\<not> user_result ev" using asked(3) by cases simp_all
  then show ?thesis using asked(1) agent_apply_frames(3) [of e ev a] event_paced(2) [of ev e a] by simp
next
  case (reported xs j ys ev)
  have "said (a\<lparr>ag_jobs := xs @ ys\<rparr>) = said a" by (simp add: said_def)
  then have "said b = said a \<or> interruption_gate b = Allow"
    using reported agent_apply_frames(3) [of e ev "a\<lparr>ag_jobs := xs @ ys\<rparr>"] by simp
  moreover have "results b = results a" if "\<not> user_result ev"
    using event_paced(2) [OF that, of e "a\<lparr>ag_jobs := xs @ ys\<rparr>"] reported(1) by (simp add: outer_paces)
  ultimately show ?thesis using reported by blast
next
  case (entry_changed entry)
  then show ?thesis by (simp add: said_def outer_paces)
next
  case (browser_leg on)
  then show ?thesis by (simp add: said_def outer_paces)
qed (simp_all add: command_frames command_paced frame outer_paces)

section \<open>Witnesses\<close>

lemma notices_pass_the_gate_witness:
  "\<exists>b. agent_step (sample_agent_env 990) sample_agent b \<and> (said b = said sample_agent \<or> interruption_gate b = Allow)"
  using notices_pass_the_gate [OF agent_step.ticked [of "sample_agent_env 990" sample_agent]] agent_step.ticked by blast

text \<open>The agent at 600, whose re-injection the tick started, fails it at 610 for the network.\<close>

lemma sample_busy_reach: "agent_reach 600 sample_busy"
proof -
  have "agent_reach (en_now (sample_agent_env 600)) (snd (agent_tick (sample_agent_env 600) sample_agent))"
    by (rule agent_reach.moved [OF sample_reach agent_step.ticked]) (simp add: sample_agent_env_def)
  then show ?thesis by (simp add: sample_busy_def) (simp add: sample_agent_env_def)
qed

lemma sample_more: "tl_absent (ag_loss sample_agent) = False" "ag_first_failure_at sample_agent = None" "tl_streak (ag_loss sample_agent) = 0" 
  "ag_silent_failed sample_agent = False"
  by (simp_all add: sample_defs no_loss_def)

lemma tick_kept:
  "ag_first_failure_at (announce n a) = ag_first_failure_at a" "ag_loss (announce n a) = ag_loss a"
proof -
  have r: "(ag_first_failure_at (release_deferred x), ag_loss (release_deferred x)) = (ag_first_failure_at x, ag_loss x)" for x
    by (auto simp: release_deferred_def settle_deferred_def deliver_def outside_call_def split: prod.splits option.splits gate.splits)
  have "(ag_first_failure_at (agent_notify m x), ag_loss (agent_notify m x)) = (ag_first_failure_at x, ag_loss x)" for m x
    using r [of x] by (auto simp: agent_notify_def admit_def deliver_def outside_call_def split: prod.splits option.splits gate.splits)
  then show "ag_first_failure_at (announce n a) = ag_first_failure_at a" "ag_loss (announce n a) = ag_loss a"
    using r by (cases n; simp add: announce_def)+
qed

lemma sample_busy_ticket:
  "ag_phase sample_busy = Connected" "ag_principal sample_busy = lit ''u@R''" "ag_end sample_busy = 1000"
  "tl_absent (ag_loss sample_busy) = False" "ag_first_failure_at sample_busy = None"
proof -
  obtain d a1 where t: "tick_at (sample_agent_env 600) False sample_agent = (d, a1)" by fastforce
  have e: "en_now (sample_agent_env 600) = 600" "tgt_present (sample_agent_env 600) x = Some True" for x
    by (simp_all add: sample_agent_env_def tgt_present_def)
  have "(ag_phase a1, ag_principal a1, ag_end a1, tl_absent (ag_loss a1), ag_first_failure_at a1)
      = (Connected, lit ''u@R'', 1000, False, None)"
    using t by (auto simp: tick_at_def tick_deadline_def tick_probe_def tick_expiry_def tick_look_def tick_recover_def tick_refresh_def
        tick_escalate_def e sample_facts sample_more reached_def no_loss_def Let_def split: if_splits option.splits)
  moreover have "(ag_phase (announce n x), ag_principal (announce n x), ag_end (announce n x)) = (ag_phase x, ag_principal x, ag_end x)" for n x
    using told_frames(11) [of n x] by (simp add: ticket_state_def)
  moreover have "(ag_phase (start_worker e ByRenewal x), ag_principal (start_worker e ByRenewal x), ag_end (start_worker e ByRenewal x),
      ag_loss (start_worker e ByRenewal x), ag_first_failure_at (start_worker e ByRenewal x))
      = (ag_phase x, ag_principal x, ag_end x, ag_loss x, ag_first_failure_at x)" for e x
    by (auto simp: start_worker_def advance_discovery_def started_busy_def started_def spawned_def silent_trigger_def Let_def split: option.splits)
  moreover have "(ag_phase (discover_in_background e x), ag_principal (discover_in_background e x), ag_end (discover_in_background e x),
      ag_loss (discover_in_background e x), ag_first_failure_at (discover_in_background e x))
      = (ag_phase x, ag_principal x, ag_end x, ag_loss x, ag_first_failure_at x)" for e x
    by (auto simp: discover_in_background_def begin_probe_def advance_discovery_def arm_probe_def spawned_def Let_def split: option.splits prod.splits)
  moreover have "du_start d = Some ByRenewal"
    using due_start [of sample_agent "sample_agent_env 600"] t by (simp add: sample_facts reached_def e)
  ultimately show "ag_phase sample_busy = Connected" "ag_principal sample_busy = lit ''u@R''" "ag_end sample_busy = 1000"
    "tl_absent (ag_loss sample_busy) = False" "ag_first_failure_at sample_busy = None"
    by (simp_all add: sample_busy_def agent_tick_def sample_facts t Let_def tick_kept)
qed

lemma delays_bounded_witness:
  "\<exists>b. agent_step (sample_agent_env 610) sample_busy b \<and> ag_refresh_backoff b = 60 \<and> ag_refresh_at b = Some 670
    \<and> backoffs_fine (timers_of b) \<and> timers_armed 610 (timers_of sample_busy) (timers_of b)"
proof -
  let ?l = "(sample_legs undefined)\<lparr>lg_inject := Inl (InjectBroker RateLimited)\<rparr>"
  let ?r = "run_sign_in sample_stamp (silent_trigger ByRenewal) False None None ?l"
  obtain w m where r: "sign_in_report sample_stamp ByRenewal False ?r = SignInFailed sample_stamp w (Some NetworkFault) m ByRenewal"
    by (simp add: run_sign_in_def discovered_run_def sample_legs_def if_current_def after_def sign_in_by_token_def acquire_token_def
        silent_trigger_def sign_in_report_def describe_inject_error_def Let_def)
  then have rep: "reports (SignInJob sample_stamp ByRenewal False None None) (SignInFailed sample_stamp w (Some NetworkFault) m ByRenewal)"
    by (metis reports.sign_in)
  define b where "b = snd (agent_apply (sample_agent_env 610) (SignInFailed sample_stamp w (Some NetworkFault) m ByRenewal)
      (sample_busy\<lparr>ag_jobs := [ProbeJob (ConfigProbe \<lparr>dst_url = lit ''https://b'', dst_generation = 1\<rparr>)] @ []\<rparr>))"
  have step: "agent_step (sample_agent_env 610) sample_busy b"
    unfolding b_def by (rule agent_step.reported [OF sample_busy_facts(1) rep])
  have n: "en_now (sample_agent_env 610) = 610" "600 \<le> en_now (sample_agent_env 610)" by (simp_all add: sample_agent_env_def)
  have m: "retry_delay sample_busy = 60" "midpoint (sample_agent_env 610) 610 1000 = 805"
    by (simp_all add: retry_delay_def sample_busy_ticket midpoint_def jitter_def sample_agent_env_def signed_divide_int_def
        MIN_REFRESH_DELAY_def EXPIRY_GRACE_def Let_def)
  have h: "holds_live_ticket_at sample_busy 610" by (simp add: holds_live_ticket_at_def sample_busy_ticket lit_def)
  note d = delays_bounded [OF sample_busy_reach step n(2)]
  have "ag_refresh_backoff b = 60 \<and> ag_refresh_at b = Some 670"
    using d [THEN conjunct2, THEN conjunct2, rule_format, of sample_stamp w m ByRenewal] h sample_busy_facts(2)
    by (simp add: b_def [symmetric] n m sample_busy_ticket) (simp add: b_def)
  then show ?thesis using step d n by (intro exI [of _ b]) simp
qed

end
