(* ===== verification/Spec2Isabelle.thy ===== *)
theory Spec2Isabelle
  imports KB_Prelude KB_Identity KB_Sam KB_Dn KB_Time KB_Grant KB_Snapshot KB_Names KB_Planner KB_SyncDirectory
    KB_Utf8 KB_Ccache KB_Ldif KB_Wire KB_Issuerd KB_IssuerdSound KB_IssuerdMain
    KB_Device KB_BrokerDirectory KB_Broker KB_BrokerSound KB_Compose
    KB_Problems KB_ProblemsSound KB_Notify KB_SyncMain
    KB_IdpSettings KB_Jwks KB_JwksSound KB_Jwt KB_JwtSound KB_Graph KB_GraphSound KB_EntraSync KB_EntraSyncSound
    KB_AuthentikSync KB_AuthentikSyncSound
    KB_ClientTicket KB_TicketSound
    KB_Describe KB_ClientConfig KB_AgentCore KB_AgentWorker KB_AgentSound KB_AgentPace
begin

text \<open>
  KerBridge: a verification development.

  KerBridge lets a machine that is not joined to a Windows domain work in a Samba realm with the
  identity of an OIDC provider (Entra or authentik). Four programs share one directory. The sync
  daemon (\<open>crates/kerbridge-sync\<close>) reads users and groups from each provider and writes them into the
  realm. The broker (\<open>crates/kerbridge-broker\<close>) takes a bearer token or a device-grant assertion over
  HTTPS, finds the account it proves and asks for a ticket. The issuer daemon
  (\<open>crates/kerbridge-issuerd\<close>), the only privileged part, issues the ticket and keeps the device grants;
  broker and issuer speak over a local socket. The desktop agent (\<open>client/kerbridge-client\<close>) gets the
  ticket, puts it in the user's cache and replaces it before it ends. \<open>kerbridge-core\<close> holds the formats
  all of them share, \<open>kerbridge-idp\<close> the two provider adapters, \<open>kerbridge-notify\<close> the list of open
  problems and the webhook. The theories follow this division, one per source file or closely related
  group, and a second theory with the suffix Sound where the proofs of a component are long.

  Shared formats (\<open>crates/kerbridge-core/src\<close>)
  \<^item> \<open>KB_Prelude\<close>: strings as code points, results as sums, integers, the interface \<open>codec\<close> of a text format.
  \<^item> \<open>KB_Identity\<close> (\<open>lib.rs\<close>): the \<open>kb1|\<close> identity, its escaping, the LDAP filter, the SID decoder.
  \<^item> \<open>KB_Sam\<close> (\<open>sam.rs\<close>), \<open>KB_Dn\<close> (\<open>dn.rs\<close>), \<open>KB_Time\<close> (\<open>time.rs\<close>): account names, distinguished names, the calendar.
  \<^item> \<open>KB_Grant\<close> (\<open>grant.rs\<close>, \<open>state.rs\<close>): device grants with their validity, and the markers on directory objects.
  \<^item> \<open>KB_Utf8\<close>: lossy and strict decoding, which several readers of bytes use.

  Providers (\<open>crates/kerbridge-idp/src\<close>)
  \<^item> \<open>KB_Jwks\<close>, \<open>KB_JwksSound\<close> (\<open>jwks.rs\<close>): the signing keys, their cache and its refresh.
  \<^item> \<open>KB_Jwt\<close>, \<open>KB_JwtSound\<close> (\<open>jwt.rs\<close>, \<open>entra/auth.rs\<close>, \<open>authentik/auth.rs\<close>): from a token to an identity.
  \<^item> \<open>KB_IdpSettings\<close> (\<open>lib.rs\<close>, \<open>entra/mod.rs\<close>, \<open>authentik/mod.rs\<close>): the settings of a source.
  \<^item> \<open>KB_Graph\<close>, \<open>KB_GraphSound\<close>, \<open>KB_EntraSync\<close>, \<open>KB_EntraSyncSound\<close> (\<open>entra/\<close>): the Graph client, the shadow of the
    population, the cursors and the source.
  \<^item> \<open>KB_AuthentikSync\<close>, \<open>KB_AuthentikSyncSound\<close> (\<open>authentik/\<close>): the page-by-page client and the source.

  Sync daemon (\<open>crates/kerbridge-sync/src\<close>, \<open>crates/kerbridge-idp/src/sync\<close>)
  \<^item> \<open>KB_Snapshot\<close> (\<open>kerbridge-idp/src/sync/mod.rs\<close>): a snapshot, name candidates, the closure over nested groups.
  \<^item> \<open>KB_Names\<close>, \<open>KB_Planner\<close> (\<open>planner/\<close>): the planner, phase by phase, from readings to directory operations.
  \<^item> \<open>KB_SyncDirectory\<close> (\<open>directory.rs\<close>): reading the realm and applying a plan.
  \<^item> \<open>KB_SyncMain\<close> (\<open>main.rs\<close>, \<open>config.rs\<close>): the cycles of all sources, with audit and notification.

  Issuer daemon (\<open>crates/kerbridge-issuerd/src\<close>)
  \<^item> \<open>KB_Ccache\<close> (\<open>ccache.rs\<close>), \<open>KB_Ldif\<close> (LDIF in and out), \<open>KB_Wire\<close> (\<open>kerbridge-core/src/issuer.rs\<close>).
  \<^item> \<open>KB_Issuerd\<close>, \<open>KB_IssuerdSound\<close> (\<open>issue.rs\<close>, \<open>grant.rs\<close>): ticket issuance and the grant verbs.
  \<^item> \<open>KB_IssuerdMain\<close> (\<open>main.rs\<close>, \<open>peer.rs\<close>, \<open>identity.rs\<close>): the listener with its slots and audit records.

  Broker (\<open>crates/kerbridge-broker/src\<close>)
  \<^item> \<open>KB_Device\<close> (\<open>device/\<close>): assertions and the nonce store.
  \<^item> \<open>KB_BrokerDirectory\<close> (\<open>directory/\<close>), \<open>KB_Broker\<close> (\<open>ticket.rs\<close>, \<open>devices.rs\<close>, \<open>http/\<close> and others), \<open>KB_BrokerSound\<close>.
  \<^item> \<open>KB_Compose\<close>: broker and issuer joined by the socket; one statement from the request to the ticket.

  Problems and webhook (\<open>crates/kerbridge-core/src/problem.rs\<close>, \<open>crates/kerbridge-notify/src\<close>)
  \<^item> \<open>KB_Problems\<close>, \<open>KB_ProblemsSound\<close>, \<open>KB_Notify\<close>: the open problems on disk, templates and posts.

  Desktop agent (\<open>client/kerbridge-client/src\<close>)
  \<^item> \<open>KB_Describe\<close> (\<open>describe.rs\<close>), \<open>KB_ClientConfig\<close> (\<open>config.rs\<close>): what a surface may say, and the settings.
  \<^item> \<open>KB_ClientTicket\<close>, \<open>KB_TicketSound\<close> (\<open>krbcred.rs\<close>): the cache repackaged as a KRB-CRED message, with a strict
    reader of that message and the agreement with the cache reader of \<open>issuerd\<close>.
  \<^item> \<open>KB_AgentCore\<close> (\<open>agent/mod.rs\<close>), \<open>KB_AgentWorker\<close> (\<open>agent/worker.rs\<close>, \<open>failure.rs\<close>, \<open>commands.rs\<close>, \<open>status.rs\<close>),
    \<open>KB_AgentSound\<close>, \<open>KB_AgentPace\<close>: the state, the timer, the threads and verbs, the agent as a transition
    system, and its timers and messages over every step.

  How the code is modelled
  \<^item> A struct is a record, an enum a datatype, one operation one definition named as in the source; a
    name another theory or the library owns is suffixed. Fallible code returns a sum, with the error on
    the left; a panic is an outcome of its own where the code can reach one. Code that talks to the
    outside is a function of what the outside answers, and where order matters it also yields the list
    of calls it made.
  \<^item> u64 and usize are natural numbers, with saturation and the checked bounds written out; i64 is an
    integer, wrapped where the code can overflow it; bytes and flags are words. Strings are lists of
    code points, which order as UTF-8 does. Maps that the code iterates in order are sorted lists.
  \<^item> Code that is not in the repository is an argument: the provider's HTTP server, LDAP, the Unicode
    tables, RSA, ECDSA, SHA-256, base64, JSON and TOML, the clock, the random generator, the ticket
    cache, subprocesses and files. What the code relies on is a named law of a locale
    (\<open>base64_engine\<close>, \<open>unicode_tables\<close>, \<open>serde\<close>, \<open>disk\<close>) or a premise, and each of them is shown to hold
    on a concrete instance; the codecs of the program itself are interpretations of \<open>codec\<close>.
  \<^item> Loops are recursions with a proved measure. The loops that wait for somebody else, such as the
    page loops of the two providers, are \<open>partial_function (option)\<close>; that they end is a theorem, by the
    page ceiling of 10000 and the stall limit of the code, and no fuel is used. A daemon, the listener, the
    key cache and the agent are transition systems, and their invariants hold in every interleaving.
  \<^item> One handler of the agent reads the clock once. What a thread of the agent reports is applied at any
    later time and in any order, which includes the order of the code's queue.
  \<^item> Log lines are not modelled, nor is the wording of an error nobody parses, beyond its constructor
    or its parts; a translated text is its key with its arguments.

  What is shown
  \<^item> Across components: a ticket that leaves the broker is for the one enabled, admitted account that the
    proven identity names, issued by the daemon for exactly that account, with one audit record; a refusal
    issues nothing; a device grant is written only for an authorized account and within the cap; a token
    is believed only with a pinned key, the right issuer, audience and lifetime.
  \<^item> For the sync daemon: a plan writes only inside the source's unit, retirement disables before anything
    else and revokes what it must, only whole readings are applied, and the reading of either provider is
    read to its end and fits together, or is refused. authentik filters objects before it counts them, so
    there whole means whole for the credential. The Graph token of a read goes to no origin but Graph's,
    redirects included; that the client library follows a redirect only where the configured policy
    allows it, and what it holds to be an origin, is its documented behaviour.
  \<^item> For the agent: a held ticket always has its replacement scheduled by End Time, the timer starts it,
    the one busy slot is never leaked, a superseded report changes nothing, a silent run opens no browser
    and a pinned machine works only by its grant, every timer is set within its range, and no notification
    passes a closed interruption gate; the result of an operation the user started does not go through it.
  \<^item> For the formats: round trips, injectivity, the exact set of refusals, and faithful change records. The
    two readers of the ticket cache agree on every input, so the ticket \<open>issuerd\<close> validated is the one the
    agent hands to the machine, provided the cache holds no local ticket-granting ticket of another realm.
  \<^item> Divergences that the model found are proved where a theorem can state them, e.g. that a failed resync
    of Entra forgets everyone, once a later read resumed from the old cursors completes, and that a
    running exchange undoes a sign-off.

  Not modelled, and why
  \<^item> \<open>kerbridge-config\<close>, \<open>kerbridge-setup\<close>, \<open>kerbridge-manage\<close>, \<open>kerbridge-core/src/config\<close>: interactive tools and
    the configuration files; their substance is TOML and HTML text, prompts and the commands of Samba.
  \<^item> The windows and macOS agents, icons and strings: drawing and calls of the operating system; all their
    decisions are in the modelled core.
  \<^item> HTTP, TLS, sockets, file locks and signals around the modelled functions: calls of libraries.
  \<^item> The website and the test bench.
\<close>

end
